(* ===== verification/Exo_Prelude.thy ===== *)
theory Exo_Prelude
  imports Main "HOL-Library.Word"
begin

text \<open>
  Shared vocabulary of the development: the result type of fallible Rust code, the unsigned
  machine integers with Rust's saturating operations, Rust strings as UTF-8 byte lists with the
  standard-library operations the sources call on them, and the list operations of \<open>Vec\<close> and
  \<open>Iterator\<close> that the components share. Every lemma here is generic; no definition models code
  of the repository itself.
\<close>

named_theorems result_simps
named_theorems u64_simps
named_theorems str_simps

section \<open>Results\<close>

text \<open>
  \<open>anyhow::Error\<close> carries a message; a Rust panic (failed \<open>expect\<close>, division by zero, a slice
  off a character boundary) unwinds and is kept apart from it, so that "returns an error" and
  "panics" are different values.
\<close>

datatype error = Error string | Panic string

type_synonym 'a result = "error + 'a"

abbreviation Ok :: "'a \<Rightarrow> 'a result" where
  "Ok x \<equiv> Inr x"

abbreviation bail :: "string \<Rightarrow> 'a result" where
  "bail msg \<equiv> Inl (Error msg)"

abbreviation panic :: "string \<Rightarrow> 'a result" where
  "panic msg \<equiv> Inl (Panic msg)"

text \<open>The \<open>?\<close> operator: stop at the first error.\<close>

fun and_then :: "'a result \<Rightarrow> ('a \<Rightarrow> 'b result) \<Rightarrow> 'b result" where
  "and_then (Inl e) f = Inl e"
| "and_then (Inr x) f = f x"

definition ensure :: "bool \<Rightarrow> string \<Rightarrow> unit result" where
  "ensure b msg = (if b then Ok () else bail msg)"

definition ok_or :: "'a option \<Rightarrow> string \<Rightarrow> 'a result" where
  "ok_or x msg = (case x of None \<Rightarrow> bail msg | Some v \<Rightarrow> Ok v)"

definition is_ok :: "'a result \<Rightarrow> bool" where
  "is_ok r = (case r of Inl _ \<Rightarrow> False | Inr _ \<Rightarrow> True)"

definition panics :: "'a result \<Rightarrow> bool" where
  "panics r = (case r of Inl (Panic _) \<Rightarrow> True | _ \<Rightarrow> False)"

text \<open>\<open>collect::<Result<Vec<_>>>\<close>: all values, or the first error.\<close>

fun map_res :: "('a \<Rightarrow> 'b result) \<Rightarrow> 'a list \<Rightarrow> 'b list result" where
  "map_res f [] = Ok []"
| "map_res f (x # xs) = and_then (f x) (\<lambda>y. and_then (map_res f xs) (\<lambda>ys. Ok (y # ys)))"

lemma and_then_Inr_iff [result_simps]:
  "and_then m f = Inr y \<longleftrightarrow> (\<exists>v. m = Inr v \<and> f v = Inr y)"
  by (cases m) auto

lemma and_then_Inl_iff [result_simps]:
  "and_then m f = Inl e \<longleftrightarrow> m = Inl e \<or> (\<exists>v. m = Inr v \<and> f v = Inl e)"
  by (cases m) auto

lemma and_then_assoc: "and_then (and_then m f) g = and_then m (\<lambda>x. and_then (f x) g)"
  by (cases m) auto

lemma and_then_Ok_right [simp]: "and_then m (\<lambda>x. Inr x) = m"
  by (cases m) auto

lemma and_then_cong [fundef_cong]:
  "m = m' \<Longrightarrow> (\<And>x. m' = Inr x \<Longrightarrow> f x = f' x) \<Longrightarrow> and_then m f = and_then m' f'"
  by (cases m') auto

lemma ensure_Inr_iff [result_simps]: "ensure b msg = Inr u \<longleftrightarrow> b"
  by (simp add: ensure_def)

lemma ensure_Inl_iff [result_simps]: "ensure b msg = Inl e \<longleftrightarrow> \<not> b \<and> e = Error msg"
  by (auto simp: ensure_def)

lemma ensure_True [simp]: "ensure True msg = Inr ()"
  by (simp add: ensure_def)

lemma ensure_False [simp]: "ensure False msg = Inl (Error msg)"
  by (simp add: ensure_def)

lemma ok_or_Inr_iff [result_simps]: "ok_or x msg = Inr v \<longleftrightarrow> x = Some v"
  by (auto simp: ok_or_def split: option.splits)

lemma ok_or_Inl_iff [result_simps]: "ok_or x msg = Inl e \<longleftrightarrow> x = None \<and> e = Error msg"
  by (auto simp: ok_or_def split: option.splits)

lemma ok_or_simps [simp]: "ok_or None msg = Inl (Error msg)" "ok_or (Some v) msg = Inr v"
  by (simp_all add: ok_or_def)

lemma is_ok_simps [simp]: "is_ok (Inr x)" "\<not> is_ok (Inl e)"
  by (simp_all add: is_ok_def)

lemma panics_simps [simp]:
  "\<not> panics (Inr x)" "\<not> panics (Inl (Error m))" "panics (Inl (Panic m))"
  by (simp_all add: panics_def)

lemma panics_and_then [simp]:
  "panics (and_then m f) \<longleftrightarrow> panics m \<or> (\<exists>v. m = Inr v \<and> panics (f v))"
  by (cases m) (auto simp: panics_def)

lemma panics_ensure [simp]: "\<not> panics (ensure b msg)"
  by (simp add: ensure_def)

lemma panics_ok_or [simp]: "\<not> panics (ok_or x msg)"
  by (cases x) auto

lemma map_res_Ok: "(\<And>x. x \<in> set xs \<Longrightarrow> f x = Inr (g x)) \<Longrightarrow> map_res f xs = Inr (map g xs)"
  by (induction xs) auto

lemma map_res_Inr_iff: "map_res f xs = Inr ys \<longleftrightarrow> list_all2 (\<lambda>x y. f x = Inr y) xs ys"
  by (induction xs arbitrary: ys) (auto simp: result_simps list_all2_Cons1)

section \<open>Unsigned machine integers\<close>

type_synonym u8 = "8 word"
type_synonym u16 = "16 word"
type_synonym u32 = "32 word"
type_synonym u64 = "64 word"
type_synonym u128 = "128 word"

definition saturating_add :: "'a::len word \<Rightarrow> 'a word \<Rightarrow> 'a word" where
  "saturating_add a b = (if unat a + unat b < 2 ^ LENGTH('a) then a + b else - 1)"

definition saturating_sub :: "'a::len word \<Rightarrow> 'a word \<Rightarrow> 'a word" where
  "saturating_sub a b = (if b \<le> a then a - b else 0)"

definition saturating_mul :: "'a::len word \<Rightarrow> 'a word \<Rightarrow> 'a word" where
  "saturating_mul a b = (if unat a * unat b < 2 ^ LENGTH('a) then a * b else - 1)"

text \<open>Rust's \<open>/\<close> on unsigned integers panics on a zero divisor.\<close>

definition div_u64 :: "u64 \<Rightarrow> u64 \<Rightarrow> u64 result" where
  "div_u64 a b = (if b = 0 then panic ''attempt to divide by zero'' else Ok (a div b))"

text \<open>\<open>u32::try_from(n).unwrap_or(u32::MAX)\<close> and \<open>n as u64\<close> for a length.\<close>

definition u32_of_nat_sat :: "nat \<Rightarrow> u32" where
  "u32_of_nat_sat n = (if n < 2 ^ 32 then of_nat n else - 1)"

lemma unat_minus_1_word: "unat (- 1 :: 'a::len word) = 2 ^ LENGTH('a) - 1"
  by (simp add: unsigned_minus_1_eq_mask mask_eq_exp_minus_1)

lemma unat_saturating_add [u64_simps]:
  "unat (saturating_add a b) = min (unat a + unat b) (2 ^ LENGTH('a) - 1)"
  for a b :: "'a::len word"
  by (simp add: saturating_add_def unat_minus_1_word unat_word_ariths)

lemma unat_saturating_sub [u64_simps]: "unat (saturating_sub a b) = unat a - unat b"
  for a b :: "'a::len word"
  by (simp add: saturating_sub_def unat_sub word_le_nat_alt)

lemma unat_saturating_mul [u64_simps]:
  "unat (saturating_mul a b) = min (unat a * unat b) (2 ^ LENGTH('a) - 1)"
  for a b :: "'a::len word"
  by (simp add: saturating_mul_def unat_minus_1_word unat_word_ariths)

lemma unat_div_word [u64_simps]: "unat (a div b) = unat a div unat b"
  for a b :: "'a::len word"
  by (simp add: unat_div)

lemma saturating_mul_pos: "0 < a \<Longrightarrow> 0 < b \<Longrightarrow> 0 < saturating_mul a b"
  for a b :: "'a::len word"
  using one_less_power [of "2::nat" "LENGTH('a)"]
  by (simp add: word_less_nat_alt unat_saturating_mul)

lemma unat_u32_of_nat_sat [u64_simps]: "unat (u32_of_nat_sat n) = min n (2 ^ 32 - 1)"
proof (cases "n < 2 ^ 32")
  case True
  then show ?thesis
    by (simp add: u32_of_nat_sat_def unsigned_of_nat take_bit_nat_eq_self)
next
  case False
  then show ?thesis
    by (simp add: u32_of_nat_sat_def unat_minus_1_word)
qed

lemma div_u64_Inr_iff [result_simps]: "div_u64 a b = Inr q \<longleftrightarrow> b \<noteq> 0 \<and> q = a div b"
  by (auto simp: div_u64_def)

lemma panics_div_u64 [simp]: "panics (div_u64 a b) \<longleftrightarrow> b = 0"
  by (simp add: div_u64_def)

lemma u64_bound: "unat (a :: u64) < 18446744073709551616"
  using unsigned_less [of a] by simp

lemma unat_of_nat_u64: "n < 2 ^ 64 \<Longrightarrow> unat (of_nat n :: u64) = n"
  by (simp add: unsigned_of_nat take_bit_nat_eq_self)

section \<open>Vectors and iterators\<close>

text \<open>\<open>Iterator::max_by_key\<close> keeps the last of several maximal elements.\<close>

fun max_by_key :: "('a \<Rightarrow> 'k::linorder) \<Rightarrow> 'a list \<Rightarrow> 'a option" where
  "max_by_key f [] = None"
| "max_by_key f (x # xs) =
     (case max_by_key f xs of None \<Rightarrow> Some x | Some y \<Rightarrow> if f y < f x then Some x else Some y)"

text \<open>\<open>slice::partition_point\<close> on a slice partitioned by the predicate: the length of the prefix
  on which it holds.\<close>

definition partition_point :: "('a \<Rightarrow> bool) \<Rightarrow> 'a list \<Rightarrow> nat" where
  "partition_point P xs = length (takeWhile P xs)"

text \<open>\<open>Iterator::position\<close>.\<close>

fun position :: "('a \<Rightarrow> bool) \<Rightarrow> 'a list \<Rightarrow> nat option" where
  "position P [] = None"
| "position P (x # xs) = (if P x then Some 0 else map_option Suc (position P xs))"

text \<open>\<open>Vec::insert\<close> at an index within bounds.\<close>

definition insert_at :: "nat \<Rightarrow> 'a \<Rightarrow> 'a list \<Rightarrow> 'a list" where
  "insert_at i x xs = take i xs @ x # drop i xs"

text \<open>The update of the first element that satisfies a predicate (\<open>iter_mut().find\<close>).\<close>

fun update_first :: "('a \<Rightarrow> bool) \<Rightarrow> ('a \<Rightarrow> 'a) \<Rightarrow> 'a list \<Rightarrow> 'a list" where
  "update_first P f [] = []"
| "update_first P f (x # xs) = (if P x then f x # xs else x # update_first P f xs)"

lemma max_by_key_None_iff [simp]: "max_by_key f xs = None \<longleftrightarrow> xs = []"
  by (cases xs) (auto split: option.splits)

lemma max_by_key_in: "max_by_key f xs = Some x \<Longrightarrow> x \<in> set xs"
  by (induction xs arbitrary: x) (auto split: option.splits if_splits)

lemma max_by_key_ge: "max_by_key f xs = Some x \<Longrightarrow> y \<in> set xs \<Longrightarrow> f y \<le> f x"
proof (induction xs arbitrary: x)
  case (Cons z zs)
  show ?case
  proof (cases "max_by_key f zs")
    case None
    with Cons.prems show ?thesis by simp
  next
    case (Some w)
    with Cons.IH have "y \<in> set zs \<Longrightarrow> f y \<le> f w" by blast
    with Some Cons.prems show ?thesis by (auto split: if_splits)
  qed
qed simp

lemma position_Some: "position P xs = Some i \<Longrightarrow> i < length xs \<and> P (xs ! i)"
  by (induction xs arbitrary: i) (auto split: if_splits)

lemma position_None_iff: "position P xs = None \<longleftrightarrow> (\<forall>x \<in> set xs. \<not> P x)"
  by (induction xs) auto

lemma find_in_set: "List.find P xs = Some x \<Longrightarrow> x \<in> set xs \<and> P x"
  by (metis find_Some_iff nth_mem)

lemma find_None_iff_ball: "List.find P xs = None \<longleftrightarrow> (\<forall>x \<in> set xs. \<not> P x)"
  by (auto simp: find_None_iff)

lemma list_all2_in_left: "list_all2 P xs ys \<Longrightarrow> x \<in> set xs \<Longrightarrow> \<exists>y \<in> set ys. P x y"
  by (induction rule: list_all2_induct) auto

lemma list_all2_in_right: "list_all2 P xs ys \<Longrightarrow> y \<in> set ys \<Longrightarrow> \<exists>x \<in> set xs. P x y"
  by (induction rule: list_all2_induct) auto

lemma length_update_first [simp]: "length (update_first P f xs) = length xs"
  by (induction xs) auto

lemma map_update_first:
  "(\<And>x. g (f x) = g x) \<Longrightarrow> map g (update_first P f xs) = map g xs"
  by (induction xs) auto

lemma in_update_first: "y \<in> set (update_first P f xs) \<Longrightarrow> y \<in> set xs \<or> (\<exists>x \<in> set xs. P x \<and> y = f x)"
  by (induction xs) (auto split: if_splits)

lemma update_first_distinct:
  "distinct (map g xs) \<Longrightarrow>
   update_first (\<lambda>x. g x = k) f xs = map (\<lambda>x. if g x = k then f x else x) xs"
  by (induction xs) (auto simp: image_iff intro!: map_idI [symmetric])

lemma set_insert_at [simp]: "set (insert_at i x xs) = insert x (set xs)"
  by (metis append_take_drop_id insert_at_def list.simps(15) set_append Un_insert_right)

section \<open>Effectful code\<close>

text \<open>An \<open>async\<close> method that touches the world: the result and the world it leaves behind. An
  error keeps the effects made before it, as in the source.\<close>

type_synonym ('w, 'a) io = "'w \<Rightarrow> 'a result \<times> 'w"

definition io_return :: "'a \<Rightarrow> ('w, 'a) io" where
  "io_return x w = (Ok x, w)"

definition io_fail :: "error \<Rightarrow> ('w, 'a) io" where
  "io_fail e w = (Inl e, w)"

definition io_lift :: "'a result \<Rightarrow> ('w, 'a) io" where
  "io_lift r w = (r, w)"

definition io_bind :: "('w, 'a) io \<Rightarrow> ('a \<Rightarrow> ('w, 'b) io) \<Rightarrow> ('w, 'b) io" where
  "io_bind m f w = (case m w of (Inl e, w') \<Rightarrow> (Inl e, w') | (Inr x, w') \<Rightarrow> f x w')"

text \<open>Running an \<open>async\<close> block and matching on its \<open>Result\<close>: an error is a value of the match, a
  panic still unwinds.\<close>

definition io_try :: "('w, 'a) io \<Rightarrow> ('w, string + 'a) io" where
  "io_try m w =
     (case m w of
        (Inl (Panic p), w') \<Rightarrow> (Inl (Panic p), w')
      | (Inl (Error e), w') \<Rightarrow> (Ok (Inl e), w')
      | (Inr x, w') \<Rightarrow> (Ok (Inr x), w'))"

definition io_modify :: "('w \<Rightarrow> 'w) \<Rightarrow> ('w, unit) io" where
  "io_modify f w = (Ok (), f w)"

definition io_read :: "('w \<Rightarrow> 'a) \<Rightarrow> ('w, 'a) io" where
  "io_read f w = (Ok (f w), w)"

lemma io_bind_cong [fundef_cong]:
  "m w = m' w' \<Longrightarrow> (\<And>x v. m' w' = (Inr x, v) \<Longrightarrow> f x v = f' x v) \<Longrightarrow> io_bind m f w = io_bind m' f' w'"
  by (auto simp: io_bind_def split: prod.splits sum.splits)

lemmas io_simps = io_return_def io_fail_def io_lift_def io_bind_def io_try_def io_modify_def io_read_def

lemma io_bind_Inr_iff [result_simps]:
  "io_bind m f w = (Inr y, w'') \<longleftrightarrow> (\<exists>x w'. m w = (Inr x, w') \<and> f x w' = (Inr y, w''))"
  by (auto simp: io_bind_def split: prod.splits sum.splits)

text \<open>A property kept by the effects of every part is kept by the whole, whatever the result.\<close>

definition io_keeps :: "('w \<Rightarrow> 'w \<Rightarrow> bool) \<Rightarrow> ('w, 'a) io \<Rightarrow> bool" where
  "io_keeps R m \<longleftrightarrow> (\<forall>w. R w (snd (m w)))"

lemma io_keeps_bind:
  assumes "transp R" and "io_keeps R m" and "\<And>x. io_keeps R (f x)"
  shows "io_keeps R (io_bind m f)"
proof -
  have "R w (snd (io_bind m f w))" for w
  proof (cases "m w")
    case (Pair r w')
    have "R w w'" using assms(2) Pair by (metis io_keeps_def snd_conv)
    moreover have "R w' (snd (f x w'))" for x using assms(3) by (simp add: io_keeps_def)
    ultimately show ?thesis
      using assms(1) Pair by (cases r) (auto simp: io_bind_def dest: transpD)
  qed
  then show ?thesis by (simp add: io_keeps_def)
qed

lemma io_keeps_pure:
  assumes "reflp R"
  shows "io_keeps R (io_return x)" "io_keeps R (io_lift r)" "io_keeps R (io_fail e)"
    "io_keeps R (io_read g)"
  using assms by (simp_all add: io_keeps_def io_simps reflpD)

lemma io_keeps_try: "io_keeps R m \<Longrightarrow> io_keeps R (io_try m)"
  unfolding io_keeps_def io_try_def
  by (auto split: prod.splits sum.splits error.splits) (metis snd_conv)+

end
