(* ===== verification/Rust_Str.thy ===== *)
theory Rust_Str
  imports Exo_Prelude
begin

text \<open>
  Rust's \<open>str\<close> as the list of its UTF-8 bytes (an Isabelle \<open>char\<close> is one byte): prefix and suffix
  tests, \<open>trim\<close> and \<open>split_whitespace\<close> over the Unicode white-space characters, integer parsing and
  printing, and \<open>split_at\<close> with its panic off a character boundary. \<open>len\<close> counts bytes, as in Rust.
\<close>

section \<open>Prefixes\<close>

fun strip_prefix :: "string \<Rightarrow> string \<Rightarrow> string option" where
  "strip_prefix [] s = Some s"
| "strip_prefix (p # ps) [] = None"
| "strip_prefix (p # ps) (c # cs) = (if p = c then strip_prefix ps cs else None)"

definition starts_with :: "string \<Rightarrow> string \<Rightarrow> bool" where
  "starts_with p s \<longleftrightarrow> strip_prefix p s \<noteq> None"

definition strip_suffix :: "string \<Rightarrow> string \<Rightarrow> string option" where
  "strip_suffix p s = map_option rev (strip_prefix (rev p) (rev s))"

definition ends_with :: "string \<Rightarrow> string \<Rightarrow> bool" where
  "ends_with p s \<longleftrightarrow> strip_suffix p s \<noteq> None"

lemma strip_prefix_Some_iff: "strip_prefix p s = Some r \<longleftrightarrow> s = p @ r"
  by (induction p s rule: strip_prefix.induct) auto

lemma strip_prefix_append [simp]: "strip_prefix p (p @ r) = Some r"
  by (simp add: strip_prefix_Some_iff)

lemma starts_with_iff: "starts_with p s \<longleftrightarrow> (\<exists>r. s = p @ r)"
  using strip_prefix_Some_iff [of p s] by (auto simp: starts_with_def)

lemma strip_suffix_Some_iff: "strip_suffix p s = Some r \<longleftrightarrow> s = r @ p"
proof -
  have "strip_suffix p s = Some r \<longleftrightarrow> strip_prefix (rev p) (rev s) = Some (rev r)"
    by (auto simp: strip_suffix_def)
  also have "\<dots> \<longleftrightarrow> rev s = rev p @ rev r"
    by (rule strip_prefix_Some_iff)
  also have "\<dots> \<longleftrightarrow> s = r @ p"
    by (metis rev_append rev_rev_ident)
  finally show ?thesis .
qed

lemma ends_with_iff: "ends_with p s \<longleftrightarrow> (\<exists>r. s = r @ p)"
  using strip_suffix_Some_iff [of p s] by (auto simp: ends_with_def)

section \<open>White space\<close>

text \<open>The characters of \<open>char::is_whitespace\<close>: six ASCII bytes, then the UTF-8 encodings of U+0085,
  U+00A0, U+1680, U+2000 to U+200A, U+2028, U+2029, U+202F, U+205F and U+3000.\<close>

definition whitespace_seqs :: "string list" where
  "whitespace_seqs =
     [[CHR 0x20], [CHR 0x09], [CHR 0x0A], [CHR 0x0B], [CHR 0x0C], [CHR 0x0D],
      [CHR 0xC2, CHR 0x85], [CHR 0xC2, CHR 0xA0], [CHR 0xE1, CHR 0x9A, CHR 0x80],
      [CHR 0xE2, CHR 0x80, CHR 0x80], [CHR 0xE2, CHR 0x80, CHR 0x81],
      [CHR 0xE2, CHR 0x80, CHR 0x82], [CHR 0xE2, CHR 0x80, CHR 0x83],
      [CHR 0xE2, CHR 0x80, CHR 0x84], [CHR 0xE2, CHR 0x80, CHR 0x85],
      [CHR 0xE2, CHR 0x80, CHR 0x86], [CHR 0xE2, CHR 0x80, CHR 0x87],
      [CHR 0xE2, CHR 0x80, CHR 0x88], [CHR 0xE2, CHR 0x80, CHR 0x89],
      [CHR 0xE2, CHR 0x80, CHR 0x8A], [CHR 0xE2, CHR 0x80, CHR 0xA8],
      [CHR 0xE2, CHR 0x80, CHR 0xA9], [CHR 0xE2, CHR 0x80, CHR 0xAF],
      [CHR 0xE2, CHR 0x81, CHR 0x9F], [CHR 0xE3, CHR 0x80, CHR 0x80]]"

fun strip_any :: "string list \<Rightarrow> string \<Rightarrow> string option" where
  "strip_any [] s = None"
| "strip_any (w # ws) s = (case strip_prefix w s of Some r \<Rightarrow> Some r | None \<Rightarrow> strip_any ws s)"

lemma strip_any_shorter:
  "strip_any ws s = Some r \<Longrightarrow> [] \<notin> set ws \<Longrightarrow> length r < length s"
proof (induction ws)
  case (Cons w ws)
  show ?case
  proof (cases "strip_prefix w s")
    case None
    with Cons show ?thesis by simp
  next
    case (Some r')
    then have "s = w @ r'" by (simp add: strip_prefix_Some_iff)
    with Cons.prems Some show ?thesis by (cases w) auto
  qed
qed simp

lemma Nil_notin_whitespace [simp]: "[] \<notin> set whitespace_seqs" "[] \<notin> rev ` set whitespace_seqs"
  by (auto simp: whitespace_seqs_def)

function trim_with :: "string list \<Rightarrow> string \<Rightarrow> string" where
  "trim_with ws s =
     (if [] \<in> set ws then s
      else case strip_any ws s of None \<Rightarrow> s | Some r \<Rightarrow> trim_with ws r)"
  by pat_completeness auto
termination
  by (relation "measure (\<lambda>(ws, s). length s)") (auto intro: strip_any_shorter)

declare trim_with.simps [simp del]

definition trim_start :: "string \<Rightarrow> string" where
  "trim_start s = trim_with whitespace_seqs s"

definition trim_end :: "string \<Rightarrow> string" where
  "trim_end s = rev (trim_with (map rev whitespace_seqs) (rev s))"

definition trim :: "string \<Rightarrow> string" where
  "trim s = trim_end (trim_start s)"

text \<open>\<open>trim_start_matches\<close> with a string pattern removes it as often as it occurs in front.\<close>

definition trim_start_matches :: "string \<Rightarrow> string \<Rightarrow> string" where
  "trim_start_matches p s = trim_with [p] s"

text \<open>\<open>split_whitespace\<close>: the maximal runs of other characters, in order.\<close>

definition flush :: "string \<Rightarrow> string list \<Rightarrow> string list" where
  "flush acc ws = (if acc = [] then ws else rev acc # ws)"

function split_ws :: "string \<Rightarrow> string \<Rightarrow> string list" where
  "split_ws acc s =
     (case s of [] \<Rightarrow> flush acc []
      | c # cs \<Rightarrow>
         (case strip_any whitespace_seqs s of
            Some r \<Rightarrow> flush acc (split_ws [] r)
          | None \<Rightarrow> split_ws (c # acc) cs))"
  by pat_completeness auto
termination
  by (relation "measure (\<lambda>(acc, s). length s)") (auto dest: strip_any_shorter)

declare split_ws.simps [simp del]

definition split_whitespace :: "string \<Rightarrow> string list" where
  "split_whitespace s = split_ws [] s"

text \<open>A string whose first and last bytes are ASCII graphic characters is its own \<open>trim\<close>.\<close>

definition ascii_graphic :: "char \<Rightarrow> bool" where
  "ascii_graphic c \<longleftrightarrow> (let n = of_char c :: nat in 33 \<le> n \<and> n \<le> 126)"

lemma strip_any_None: "(\<forall>w \<in> set ws. w \<noteq> [] \<and> hd w \<noteq> c) \<Longrightarrow> strip_any ws (c # cs) = None"
proof (induction ws)
  case (Cons w ws)
  then have "strip_prefix w (c # cs) = None" by (cases w) auto
  with Cons show ?case by simp
qed simp

lemma whitespace_ends:
  "\<forall>w \<in> set whitespace_seqs. w \<noteq> [] \<and> \<not> ascii_graphic (hd w) \<and> \<not> ascii_graphic (last w)"
  by (simp add: whitespace_seqs_def ascii_graphic_def)

lemma graphic_strip:
  assumes "ascii_graphic c"
  shows "strip_any whitespace_seqs (c # cs) = None"
    and "strip_any (map rev whitespace_seqs) (c # cs) = None"
proof -
  show "strip_any whitespace_seqs (c # cs) = None"
    by (rule strip_any_None) (use assms whitespace_ends in blast)
  show "strip_any (map rev whitespace_seqs) (c # cs) = None"
    by (rule strip_any_None) (use assms whitespace_ends in \<open>auto simp: hd_rev\<close>)
qed

lemma trim_start_id: "ascii_graphic c \<Longrightarrow> trim_start (c # cs) = c # cs"
  by (simp add: trim_start_def trim_with.simps graphic_strip)

lemma trim_end_id: "ascii_graphic c \<Longrightarrow> trim_end (cs @ [c]) = cs @ [c]"
  by (simp add: trim_end_def trim_with.simps graphic_strip)

lemma trim_id: "ascii_graphic c \<Longrightarrow> ascii_graphic d \<Longrightarrow> trim (c # cs @ [d]) = c # cs @ [d]"
  using trim_start_id [of c "cs @ [d]"] trim_end_id [of d "c # cs"] by (simp add: trim_def)

section \<open>Numbers\<close>

definition digit_char :: "nat \<Rightarrow> char" where
  "digit_char d = ''0123456789'' ! d"

definition digit_val :: "char \<Rightarrow> nat option" where
  "digit_val c =
     (let n = of_char c :: nat in if 48 \<le> n \<and> n \<le> 57 then Some (n - 48) else None)"

fun parse_digits :: "nat \<Rightarrow> string \<Rightarrow> nat option" where
  "parse_digits acc [] = Some acc"
| "parse_digits acc (c # cs) =
     (case digit_val c of None \<Rightarrow> None | Some d \<Rightarrow> parse_digits (10 * acc + d) cs)"

text \<open>\<open>str::parse::<u64>\<close>: an optional plus sign, at least one decimal digit, no overflow.\<close>

definition parse_nat :: "string \<Rightarrow> nat option" where
  "parse_nat s =
     (case s of [] \<Rightarrow> None
      | c # cs \<Rightarrow>
         if c = CHR ''+'' then (if cs = [] then None else parse_digits 0 cs)
         else parse_digits 0 s)"

definition parse_u64 :: "string \<Rightarrow> u64 option" where
  "parse_u64 s =
     (case parse_nat s of None \<Rightarrow> None
      | Some n \<Rightarrow> if n < 2 ^ 64 then Some (of_nat n) else None)"

fun show_nat :: "nat \<Rightarrow> string" where
  "show_nat n = (if n < 10 then [digit_char n] else show_nat (n div 10) @ [digit_char (n mod 10)])"

declare show_nat.simps [simp del]

definition show_u64 :: "u64 \<Rightarrow> string" where
  "show_u64 w = show_nat (unat w)"

lemma less_10_cases: "d < 10 \<Longrightarrow> d \<in> {0, 1, 2, 3, 4, 5, 6, 7, 8, 9}" for d :: nat
  by auto

definition digit_byte :: "char \<Rightarrow> bool" where
  "digit_byte c \<longleftrightarrow> (let n = of_char c :: nat in 48 \<le> n \<and> n \<le> 57)"

lemma digit_byte_char: "d < 10 \<Longrightarrow> digit_byte (digit_char d)"
  by (drule less_10_cases) (auto simp: digit_char_def digit_byte_def)

lemma digit_byte_graphic: "digit_byte c \<Longrightarrow> ascii_graphic c"
  by (simp add: digit_byte_def ascii_graphic_def Let_def)

lemma digit_val_char: "d < 10 \<Longrightarrow> digit_val (digit_char d) = Some d"
  by (drule less_10_cases) (auto simp: digit_char_def digit_val_def)

lemma parse_digits_append:
  "parse_digits acc (s @ t) = (case parse_digits acc s of None \<Rightarrow> None | Some a \<Rightarrow> parse_digits a t)"
  by (induction s arbitrary: acc) (auto split: option.splits)

lemma parse_digits_show: "parse_digits 0 (show_nat n) = Some n"
proof (induction n rule: show_nat.induct)
  case (1 n)
  show ?case
  proof (cases "n < 10")
    case True
    then show ?thesis by (subst show_nat.simps) (simp add: digit_val_char)
  next
    case False
    with 1 have "parse_digits 0 (show_nat (n div 10)) = Some (n div 10)" by simp
    with False show ?thesis
      by (subst show_nat.simps) (simp add: parse_digits_append digit_val_char)
  qed
qed

lemma show_nat_nonempty [simp]: "show_nat n \<noteq> []"
  by (subst show_nat.simps) simp

lemma show_nat_digits: "c \<in> set (show_nat n) \<Longrightarrow> digit_byte c"
proof (induction n arbitrary: c rule: show_nat.induct)
  case (1 n)
  have "c \<in> set (show_nat (n div 10)) \<or> c = digit_char (n mod 10)" if "\<not> n < 10"
    using "1.prems" that by (subst (asm) show_nat.simps) auto
  moreover have "c = digit_char n" if "n < 10"
    using "1.prems" that by (subst (asm) show_nat.simps) simp
  ultimately show ?case
    using "1.IH" digit_byte_char [of n] digit_byte_char [of "n mod 10"] by fastforce
qed

lemma show_nat_no_plus: "show_nat n = c # cs \<Longrightarrow> c \<noteq> CHR ''+''"
  using show_nat_digits [of c n] by (auto simp: digit_byte_def)

lemma parse_nat_show [str_simps]: "parse_nat (show_nat n) = Some n"
  using parse_digits_show [of n] show_nat_no_plus [of n]
  by (auto simp: parse_nat_def split: list.splits)

lemma show_nat_inj: "show_nat m = show_nat n \<Longrightarrow> m = n"
  using parse_nat_show by (metis option.inject)

lemma parse_u64_show [str_simps]: "parse_u64 (show_u64 w) = Some w"
  using u64_bound [of w] by (simp add: parse_u64_def show_u64_def parse_nat_show)

section \<open>Character boundaries\<close>

text \<open>A byte that continues a UTF-8 sequence is \<open>10xxxxxx\<close>.\<close>

definition continuation_byte :: "char \<Rightarrow> bool" where
  "continuation_byte c \<longleftrightarrow> (let n = of_char c :: nat in 128 \<le> n \<and> n < 192)"

definition is_char_boundary :: "string \<Rightarrow> nat \<Rightarrow> bool" where
  "is_char_boundary s i \<longleftrightarrow>
     i = 0 \<or> i = length s \<or> (i < length s \<and> \<not> continuation_byte (s ! i))"

definition split_at :: "string \<Rightarrow> nat \<Rightarrow> (string \<times> string) result" where
  "split_at s i =
     (if is_char_boundary s i then Ok (take i s, drop i s)
      else panic ''failed to slice string'')"

definition is_ascii_alphanumeric :: "char \<Rightarrow> bool" where
  "is_ascii_alphanumeric c \<longleftrightarrow>
     (let n = of_char c :: nat in
        48 \<le> n \<and> n \<le> 57 \<or> 65 \<le> n \<and> n \<le> 90 \<or> 97 \<le> n \<and> n \<le> 122)"

end
