(* ===== verification/Schedule.thy ===== *)
theory Schedule
  imports Rust_Str
begin

text \<open>
  The scheduled-task data model and its pure operations, from
  \<^verbatim>\<open>crates/executor/src/native/scheduler_types.rs\<close>: task records, the schedule parser, the slot grid, the
  missed-fire planner, leases, resumption and the schema migration. All times are \<open>u64\<close>
  milliseconds with Rust's saturating arithmetic. The RFC 3339 parser of the \<open>chrono\<close> crate and the
  fresh identifiers of \<open>Uuid7::now\<close> are arguments.
\<close>

section \<open>Data\<close>

definition DEFAULT_MAX_OUTPUT_BYTES :: u64 where
  "DEFAULT_MAX_OUTPUT_BYTES = 200000"

definition MAX_OUTPUT_BYTES :: u64 where
  "MAX_OUTPUT_BYTES = 2000000"

definition DEFAULT_TASK_LEASE_MS :: u64 where
  "DEFAULT_TASK_LEASE_MS = 10 * 60 * 1000"

definition DEFAULT_COMMAND_TIMEOUT_MS :: u64 where
  "DEFAULT_COMMAND_TIMEOUT_MS = 10 * 60 * 1000"

definition SCHEDULED_TASK_SCHEMA_VERSION :: u32 where
  "SCHEDULED_TASK_SCHEMA_VERSION = 2"

definition MAX_MISSED_FIRE_CATCHUP :: u32 where
  "MAX_MISSED_FIRE_CATCHUP = 100"

datatype missed_policy = Skip | Once | All

datatype sandbox_mode = ModeAgent | ModeConversation | ModeTaskFresh

record missed_fire_outcome =
  mo_policy :: missed_policy
  mo_evaluated_at_ms :: u64
  mo_due_slot_ms :: u64
  mo_fired_slots :: u32
  mo_skipped_slots :: u32
  mo_truncated :: bool

record missed_fire_plan =
  mp_fire_slots :: "u64 list"
  mp_next_run_at_ms :: u64
  mp_completes :: bool
  mp_outcome :: missed_fire_outcome

record task_lease =
  tl_id :: string
  tl_leased_at_ms :: u64
  tl_expires_at_ms :: u64

record new_task =
  nt_agent_id :: string
  nt_conversation_id :: string
  nt_name :: string
  nt_schedule :: string
  nt_sandbox_mode :: "sandbox_mode option"
  nt_setup_command :: "string list option"
  nt_command :: "string list"
  nt_report_prompt :: string
  nt_max_output_bytes :: "u64 option"
  nt_missed :: "missed_policy option"

record task =
  st_schema_version :: u32
  st_id :: string
  st_agent_id :: string
  st_conversation_id :: string
  st_name :: string
  st_schedule :: string
  st_sandbox_mode :: sandbox_mode
  st_task_sandbox_id :: "string option"
  st_setup_command :: "string list option"
  st_command :: "string list"
  st_report_prompt :: string
  st_max_output_bytes :: u64
  st_enabled :: bool
  st_missed :: missed_policy
  st_created_at_ms :: u64
  st_updated_at_ms :: u64
  st_anchor_ms :: u64
  st_next_run_at_ms :: u64
  st_last_run_at_ms :: "u64 option"
  st_last_fired_slot_ms :: "u64 option"
  st_last_missed_fire :: "missed_fire_outcome option"
  st_completed_at_ms :: "u64 option"
  st_latest_run_id :: "string option"
  st_latest_result_artifact_id :: "string option"
  st_lease :: "task_lease option"

record task_run =
  tr_id :: string
  tr_task_id :: string
  tr_started_at_ms :: u64
  tr_finished_at_ms :: u64
  tr_exit_code :: "int option"
  tr_stdout_bytes :: u64
  tr_stderr_bytes :: u64
  tr_truncated :: bool
  tr_result_artifact_id :: "string option"
  tr_error :: "string option"

record fire_record =
  fr_task_id :: string
  fr_task_name :: string
  fr_slot_ms :: u64
  fr_run_id :: string
  fr_agent_id :: string
  fr_conversation_id :: string
  fr_prompt :: string
  fr_fired_at_ms :: u64

datatype parsed_schedule = Every u64 | At u64

section \<open>Parsing\<close>

definition parse_interval :: "string \<Rightarrow> parsed_schedule result" where
  "parse_interval raw =
     (if length raw < 2 then bail ''interval must include a value and unit''
      else and_then (split_at raw (length raw - 1)) (\<lambda>(value, unit).
        and_then (ok_or (parse_u64 value) ''interval value must be a positive integer'') (\<lambda>v.
          if v = 0 then bail ''interval value must be greater than zero''
          else
            (let multiplier =
               (if unit = ''s'' then Some 1000
                else if unit = ''m'' then Some 60000
                else if unit = ''h'' then Some 3600000
                else if unit = ''d'' then Some 86400000
                else None)
             in and_then (ok_or multiplier ''interval unit must be one of s, m, h, or d'')
                  (\<lambda>m. Ok (Every (saturating_mul v m)))))))"

text \<open>\<open>rfc3339\<close> stands for \<open>DateTime::parse_from_rfc3339\<close> followed by \<open>timestamp_millis\<close>: the
  parser's own error text, or a signed millisecond count.\<close>

definition parse_at :: "(string \<Rightarrow> string + int) \<Rightarrow> string \<Rightarrow> parsed_schedule result" where
  "parse_at rfc3339 raw =
     (case rfc3339 raw of
        Inl e \<Rightarrow> bail (''@at timestamp must be RFC 3339, for example '@at 2026-07-26T17:00:00Z': '' @ e)
      | Inr ms \<Rightarrow>
          if 0 \<le> ms then Ok (At (of_int ms))
          else bail ''@at timestamp must be at or after the unix epoch'')"

definition schedule_syntax_error :: string where
  "schedule_syntax_error =
     ''schedule must be '@every <duration>', '@at <rfc3339>', or '*/N * * * *'' @ [CHR 0x27]"

definition parse_schedule :: "(string \<Rightarrow> string + int) \<Rightarrow> string \<Rightarrow> parsed_schedule result" where
  "parse_schedule rfc3339 raw =
     (let schedule = trim raw in
      case strip_prefix ''@every '' schedule of
        Some interval \<Rightarrow> parse_interval (trim interval)
      | None \<Rightarrow>
      (case strip_prefix ''@at '' schedule of
        Some timestamp \<Rightarrow> parse_at rfc3339 (trim timestamp)
      | None \<Rightarrow>
      (case split_whitespace schedule of
         [p0, p1, p2, p3, p4] \<Rightarrow>
           if starts_with ''*/'' p0 \<and> p1 = ''*'' \<and> p2 = ''*'' \<and> p3 = ''*'' \<and> p4 = ''*'' then
             and_then (ok_or (parse_u64 (trim_start_matches ''*/'' p0))
                        ''cron minute interval must be a positive integer'') (\<lambda>minutes.
             if minutes = 0 then bail ''cron minute interval must be greater than zero''
             else Ok (Every (saturating_mul minutes 60000)))
           else bail schedule_syntax_error
       | _ \<Rightarrow> bail schedule_syntax_error)))"

definition validate_task_name :: "string \<Rightarrow> unit result" where
  "validate_task_name name =
     (if name = [] then bail ''scheduled task name must not be empty''
      else if \<not> list_all (\<lambda>ch. is_ascii_alphanumeric ch \<or> ch = CHR ''-'' \<or> ch = CHR ''_'') name
      then bail (''scheduled task name may only contain letters, numbers, '-' and '_'' @ [CHR 0x27])
      else Ok ())"

definition validate_command :: "string list \<Rightarrow> unit result" where
  "validate_command command =
     (if command = [] then bail ''scheduled task command must not be empty''
      else if list_ex (\<lambda>part. part = []) command
      then bail ''scheduled task command entries must not be empty''
      else Ok ())"

definition non_empty :: "string \<Rightarrow> string \<Rightarrow> string result" where
  "non_empty field value =
     (if trim value = [] then bail (field @ '' must not be empty'') else Ok value)"

section \<open>The slot grid\<close>

definition next_slot_after_ms :: "parsed_schedule \<Rightarrow> u64 \<Rightarrow> u64 \<Rightarrow> u64 result" where
  "next_slot_after_ms schedule anchor_ms after_ms =
     (case schedule of
        Every interval_ms \<Rightarrow>
          and_then (div_u64 (saturating_sub after_ms anchor_ms) interval_ms) (\<lambda>q.
            let slots = saturating_add q 1
            in Ok (saturating_add anchor_ms (saturating_mul slots interval_ms)))
      | At at_ms \<Rightarrow> Ok at_ms)"

section \<open>Task records\<close>

text \<open>\<open>fresh_id\<close> is the text of \<open>Uuid7::now()\<close>.\<close>

definition new_scheduled_task ::
    "(string \<Rightarrow> string + int) \<Rightarrow> string \<Rightarrow> new_task \<Rightarrow> u64 \<Rightarrow> task result" where
  "new_scheduled_task rfc3339 fresh_id request now_ms =
     and_then (validate_task_name (nt_name request)) (\<lambda>_.
     and_then (validate_command (nt_command request)) (\<lambda>_.
     and_then (case nt_setup_command request of None \<Rightarrow> Ok () | Some c \<Rightarrow> validate_command c) (\<lambda>_.
     and_then (parse_schedule rfc3339 (nt_schedule request)) (\<lambda>schedule.
     let max_output_bytes = (case nt_max_output_bytes request of
            None \<Rightarrow> DEFAULT_MAX_OUTPUT_BYTES | Some b \<Rightarrow> b) in
     if max_output_bytes = 0 then bail ''scheduled task maxOutputBytes must be greater than zero''
     else if MAX_OUTPUT_BYTES < max_output_bytes then
       bail (''scheduled task maxOutputBytes must be less than or equal to '' @ show_u64 MAX_OUTPUT_BYTES)
     else
     and_then (non_empty ''agentId'' (nt_agent_id request)) (\<lambda>agent_id.
     and_then (non_empty ''conversationId'' (nt_conversation_id request)) (\<lambda>conversation_id.
     and_then (non_empty ''reportPrompt'' (nt_report_prompt request)) (\<lambda>report_prompt.
     and_then (next_slot_after_ms schedule now_ms now_ms) (\<lambda>next_run_at_ms.
     Ok \<lparr> st_schema_version = SCHEDULED_TASK_SCHEMA_VERSION,
          st_id = fresh_id,
          st_agent_id = agent_id,
          st_conversation_id = conversation_id,
          st_name = nt_name request,
          st_schedule = nt_schedule request,
          st_sandbox_mode = (case nt_sandbox_mode request of None \<Rightarrow> ModeAgent | Some m \<Rightarrow> m),
          st_task_sandbox_id = None,
          st_setup_command = nt_setup_command request,
          st_command = nt_command request,
          st_report_prompt = report_prompt,
          st_max_output_bytes = max_output_bytes,
          st_enabled = True,
          st_missed = (case nt_missed request of None \<Rightarrow> Once | Some m \<Rightarrow> m),
          st_created_at_ms = now_ms,
          st_updated_at_ms = now_ms,
          st_anchor_ms = now_ms,
          st_next_run_at_ms = next_run_at_ms,
          st_last_run_at_ms = None,
          st_last_fired_slot_ms = None,
          st_last_missed_fire = None,
          st_completed_at_ms = None,
          st_latest_run_id = None,
          st_latest_result_artifact_id = None,
          st_lease = None \<rparr>))))))))"

definition is_due :: "task \<Rightarrow> u64 \<Rightarrow> bool" where
  "is_due t now_ms \<longleftrightarrow>
     st_enabled t \<and> st_completed_at_ms t = None \<and> st_next_run_at_ms t \<le> now_ms \<and>
     (case st_lease t of None \<Rightarrow> True | Some lease \<Rightarrow> tl_expires_at_ms lease \<le> now_ms)"

definition claim_task :: "string \<Rightarrow> u64 \<Rightarrow> u64 \<Rightarrow> task \<Rightarrow> task" where
  "claim_task fresh_id now_ms lease_ms t =
     t\<lparr> st_lease := Some \<lparr> tl_id = fresh_id, tl_leased_at_ms = now_ms,
                            tl_expires_at_ms = saturating_add now_ms lease_ms \<rparr>,
        st_updated_at_ms := now_ms \<rparr>"

definition mark_completed :: "task_run \<Rightarrow> string option \<Rightarrow> u64 \<Rightarrow> task \<Rightarrow> task" where
  "mark_completed run result_artifact_id now_ms t =
     t\<lparr> st_updated_at_ms := now_ms,
        st_last_run_at_ms := Some (tr_finished_at_ms run),
        st_latest_run_id := Some (tr_id run),
        st_latest_result_artifact_id := result_artifact_id \<rparr>"

definition plan_missed_fires :: "(string \<Rightarrow> string + int) \<Rightarrow> task \<Rightarrow> u64 \<Rightarrow> missed_fire_plan result" where
  "plan_missed_fires rfc3339 t now_ms =
     and_then (parse_schedule rfc3339 (st_schedule t)) (\<lambda>schedule.
     let due_slot_ms = st_next_run_at_ms t in
     case schedule of
       At at_ms \<Rightarrow>
         (let fire_slots = (if st_completed_at_ms t \<noteq> None then [] else [at_ms]) in
          Ok \<lparr> mp_fire_slots = fire_slots, mp_next_run_at_ms = at_ms, mp_completes = True,
               mp_outcome = \<lparr> mo_policy = st_missed t, mo_evaluated_at_ms = now_ms,
                 mo_due_slot_ms = due_slot_ms,
                 mo_fired_slots = u32_of_nat_sat (length fire_slots),
                 mo_skipped_slots = 0, mo_truncated = False \<rparr> \<rparr>)
     | Every interval_ms \<Rightarrow>
         (let elapsed_ms = saturating_sub now_ms due_slot_ms in
          and_then (div_u64 elapsed_ms interval_ms) (\<lambda>overdue.
          let backlog = saturating_add overdue 1;
              cap = of_nat (unat MAX_MISSED_FIRE_CATCHUP);
              truncated = (st_missed t = All \<and> 0 < overdue \<and> cap < backlog);
              fire_slots =
                (if st_missed t = Skip \<and> 0 < overdue then []
                 else if st_missed t = All \<and> 0 < overdue then
                   (let first = saturating_sub backlog (min cap backlog) in
                    map (\<lambda>slot. saturating_add due_slot_ms
                           (saturating_mul (of_nat slot) interval_ms))
                        [unat first ..< unat backlog])
                 else [due_slot_ms])
          in and_then (next_slot_after_ms schedule (st_anchor_ms t) now_ms) (\<lambda>next_run_at_ms.
          Ok \<lparr> mp_fire_slots = fire_slots, mp_next_run_at_ms = next_run_at_ms,
               mp_completes = False,
               mp_outcome = \<lparr> mo_policy = st_missed t, mo_evaluated_at_ms = now_ms,
                 mo_due_slot_ms = due_slot_ms,
                 mo_fired_slots = u32_of_nat_sat (length fire_slots),
                 mo_skipped_slots =
                   u32_of_nat_sat (unat (saturating_sub backlog (of_nat (length fire_slots)))),
                 mo_truncated = truncated \<rparr> \<rparr>))))"

definition resume_after_fires :: "missed_fire_plan \<Rightarrow> u64 \<Rightarrow> task \<Rightarrow> task" where
  "resume_after_fires plan now_ms t =
     t\<lparr> st_updated_at_ms := now_ms,
        st_next_run_at_ms := mp_next_run_at_ms plan,
        st_last_fired_slot_ms :=
          (if mp_fire_slots plan = [] then st_last_fired_slot_ms t
           else Some (last (mp_fire_slots plan))),
        st_last_missed_fire := Some (mp_outcome plan),
        st_completed_at_ms := (if mp_completes plan then Some now_ms else st_completed_at_ms t),
        st_lease := None \<rparr>"

definition migrate_scheduled_task :: "task \<Rightarrow> task result" where
  "migrate_scheduled_task t0 =
     (let t1 = (if st_schema_version t0 = 0 then t0\<lparr>st_schema_version := 1\<rparr> else t0);
          t2 = (if st_schema_version t1 = 1
                then t1\<lparr>st_anchor_ms := st_created_at_ms t1, st_schema_version := 2\<rparr> else t1)
      in if st_schema_version t2 \<noteq> SCHEDULED_TASK_SCHEMA_VERSION then
           bail (''scheduled task '' @ st_id t2 @ '' has schema version '' @
                 show_nat (unat (st_schema_version t2)) @
                 '', which this build does not understand (expected '' @
                 show_nat (unat SCHEDULED_TASK_SCHEMA_VERSION) @ '')'')
         else Ok t2)"

section \<open>Facts about the parser\<close>

lemma split_at_Inr_iff [result_simps]:
  "split_at s i = Inr (u, v) \<longleftrightarrow> is_char_boundary s i \<and> u = take i s \<and> v = drop i s"
  by (auto simp: split_at_def)

lemma parse_u64_pos: "parse_u64 s = Some v \<Longrightarrow> v \<noteq> 0 \<Longrightarrow> 1 \<le> unat v"
  by (simp add: Suc_le_eq unat_gt_0)

lemma saturating_mul_ge:
  "v \<noteq> 0 \<Longrightarrow> 1000 \<le> unat m \<Longrightarrow> 1000 \<le> unat (saturating_mul v m)" for v m :: u64
proof -
  assume "v \<noteq> 0" and m: "1000 \<le> unat m"
  then have "1 * unat m \<le> unat v * unat m"
    by (intro mult_le_mono1) (simp add: unat_gt_0 Suc_le_eq)
  with m have "1000 \<le> unat v * unat m" by linarith
  then show ?thesis by (simp add: unat_saturating_mul)
qed

text \<open>Every interval the parser returns is at least one second, so no later division is by zero.\<close>

lemma parse_interval_ge: "parse_interval raw = Inr p \<Longrightarrow> \<exists>i. p = Every i \<and> 1000 \<le> unat i"
  by (auto simp: parse_interval_def result_simps Let_def intro!: saturating_mul_ge split: if_splits)

lemma parse_at_shape: "parse_at f raw = Inr p \<Longrightarrow> \<exists>a. p = At a"
  by (auto simp: parse_at_def split: sum.splits if_splits)

lemma parse_schedule_ge: "parse_schedule f raw = Inr (Every i) \<Longrightarrow> 1000 \<le> unat i"
  by (auto simp: parse_schedule_def Let_def result_simps intro!: saturating_mul_ge
      dest: parse_interval_ge parse_at_shape split: option.splits list.splits if_splits)

lemma parse_schedule_nonzero: "parse_schedule f raw = Inr (Every i) \<Longrightarrow> i \<noteq> 0"
  using parse_schedule_ge [of f raw i] by auto

lemma is_char_boundary_last:
  "2 \<le> length s \<Longrightarrow> is_char_boundary s (length s - 1) \<longleftrightarrow> \<not> continuation_byte (last s)"
  by (cases "s = []") (auto simp: is_char_boundary_def last_conv_nth)

lemma parse_interval_panics:
  "panics (parse_interval raw) \<longleftrightarrow> 2 \<le> length raw \<and> continuation_byte (last raw)"
proof (cases "length raw < 2")
  case True
  then show ?thesis by (simp add: parse_interval_def)
next
  case False
  then have "panics (split_at raw (length raw - 1)) \<longleftrightarrow> continuation_byte (last raw)"
    using is_char_boundary_last [of raw] by (simp add: split_at_def)
  with False show ?thesis
    by (auto simp: parse_interval_def Let_def)
qed

lemma parse_at_no_panic: "\<not> panics (parse_at f raw)"
  by (auto simp: parse_at_def split: sum.splits)

lemma parse_schedule_panics:
  "panics (parse_schedule f raw) \<longleftrightarrow>
     (\<exists>interval. strip_prefix ''@every '' (trim raw) = Some interval \<and>
        2 \<le> length (trim interval) \<and> continuation_byte (last (trim interval)))"
  by (cases "strip_prefix ''@every '' (trim raw)"; cases "strip_prefix ''@at '' (trim raw)")
     (auto simp: parse_schedule_def Let_def parse_interval_panics parse_at_no_panic
       split: list.splits)

section \<open>Facts about the grid and the planner\<close>

definition on_grid :: "u64 \<Rightarrow> u64 \<Rightarrow> u64 \<Rightarrow> bool" where
  "on_grid anchor interval slot \<longleftrightarrow> (\<exists>k \<ge> 1. unat slot = unat anchor + k * unat interval)"

text \<open>The first multiple of the interval past \<open>after\<close>, over the naturals.\<close>

definition grid_slot :: "nat \<Rightarrow> nat \<Rightarrow> nat \<Rightarrow> nat" where
  "grid_slot anchor interval after = anchor + ((after - anchor) div interval + 1) * interval"

definition backlog_of :: "u64 \<Rightarrow> u64 \<Rightarrow> u64 \<Rightarrow> nat" where
  "backlog_of interval due now = (unat now - unat due) div unat interval + 1"

lemma grid_slot_gt: "0 < i \<Longrightarrow> t < grid_slot a i t"
proof -
  assume "0 < i"
  then have "t - a < ((t - a) div i + 1) * i"
    by (metis Suc_eq_plus1 dividend_less_div_times mult.commute mult_Suc_right add.commute)
  then show ?thesis by (simp add: grid_slot_def)
qed

lemma grid_slot_least:
  assumes "0 < i" and "1 \<le> k" and "t < a + k * i"
  shows "grid_slot a i t \<le> a + k * i"
proof -
  have "(t - a) div i < k"
  proof (cases "t \<le> a")
    case True
    with assms show ?thesis by simp
  next
    case False
    with assms have "t - a < k * i" by simp
    then show ?thesis using assms(1) by (simp add: less_mult_imp_div_less)
  qed
  then have "((t - a) div i + 1) * i \<le> k * i" by (intro mult_le_mono1) simp
  then show ?thesis by (simp add: grid_slot_def)
qed

lemma saturating_chain:
  fixes q i a M :: nat
  assumes "1 \<le> i" and "q \<le> M"
  shows "min (a + min (min (q + 1) M * i) M) M = min (a + (q + 1) * i) M"
proof (cases "q + 1 \<le> M")
  case True
  then show ?thesis by (simp add: min_def)
next
  case False
  with assms have "q = M" by simp
  moreover have "min (M * i) M = M" and "min (a + (M + 1) * i) M = M"
    using assms(1) by (simp_all add: min_absorb2 trans_le_add2)
  ultimately show ?thesis by simp
qed

lemma unat_u64_le: "unat (a :: u64) \<le> 2 ^ 64 - 1"
  using u64_bound [of a] by simp

lemma next_slot_Every:
  assumes "i \<noteq> 0"
  shows "\<exists>n. next_slot_after_ms (Every i) a t = Inr n \<and>
           unat n = min (grid_slot (unat a) (unat i) (unat t)) (2 ^ 64 - 1)"
proof -
  let ?q = "saturating_sub t a div i"
  have "unat ?q \<le> 2 ^ 64 - 1" by (rule unat_u64_le)
  moreover have "1 \<le> unat i" using assms by (simp add: Suc_le_eq unat_gt_0)
  ultimately have "unat (saturating_add a (saturating_mul (saturating_add ?q 1) i)) =
      min (unat a + (unat ?q + 1) * unat i) (2 ^ 64 - 1)"
    using saturating_chain [of "unat i" "unat ?q" "2 ^ 64 - 1" "unat a"]
    by (simp add: unat_saturating_add unat_saturating_mul)
  with assms show ?thesis
    by (simp add: next_slot_after_ms_def div_u64_def Let_def grid_slot_def unat_div_word
        unat_saturating_sub)
qed

lemma backlog_bound:
  assumes "1000 \<le> unat i"
  shows "backlog_of i d n < 2 ^ 64"
proof -
  have "(unat n - unat d) div unat i \<le> (unat n - unat d) div 1000"
    using assms by (intro div_le_mono2) auto
  also have "\<dots> < 2 ^ 64 - 1"
    using u64_bound [of n] by simp
  finally show ?thesis by (simp add: backlog_of_def)
qed

lemma backlog_pos [simp]: "0 < backlog_of i d n"
  by (simp add: backlog_of_def)

text \<open>A slot of the backlog has not passed \<open>now\<close>, so computing it does not saturate.\<close>

lemma backlog_slot_le:
  assumes "k < backlog_of i d n" and "d \<le> n"
  shows "unat d + k * unat i \<le> unat n"
proof -
  have "k * unat i \<le> (unat n - unat d) div unat i * unat i"
    using assms(1) by (simp add: backlog_of_def)
  also have "\<dots> \<le> unat n - unat d" by simp
  finally show ?thesis using assms(2) by (simp add: word_le_nat_alt)
qed

lemma backlog_slot_unat:
  assumes "k < backlog_of i d n" and "1000 \<le> unat i"
  shows "unat (saturating_add d (saturating_mul (of_nat k) i)) = unat d + k * unat i"
proof -
  have k: "unat (of_nat k :: u64) = k"
    using assms backlog_bound [of i d n] by (simp add: unat_of_nat_u64)
  have "unat d + k * unat i < 2 ^ 64"
  proof (cases "d \<le> n")
    case True
    then show ?thesis using backlog_slot_le [OF assms(1)] u64_bound [of n] by simp
  next
    case False
    then have "unat n - unat d = 0" by (simp add: word_le_nat_alt)
    with assms have "k = 0" by (simp add: backlog_of_def)
    then show ?thesis using u64_bound [of d] by simp
  qed
  then show ?thesis by (simp add: unat_saturating_add unat_saturating_mul k)
qed

text \<open>The slots a policy fires, over the naturals.\<close>

definition policy_slots :: "missed_policy \<Rightarrow> nat \<Rightarrow> nat \<Rightarrow> nat \<Rightarrow> nat list" where
  "policy_slots policy due interval backlog =
     (case policy of
        Skip \<Rightarrow> (if backlog = 1 then [due] else [])
      | Once \<Rightarrow> [due]
      | All \<Rightarrow> map (\<lambda>k. due + k * interval) [backlog - min 100 backlog ..< backlog])"

lemma plan_Every:
  assumes parse: "parse_schedule f (st_schedule t) = Inr (Every i)"
  shows "\<exists>p. plan_missed_fires f t now = Inr p \<and>
     map unat (mp_fire_slots p) =
       policy_slots (st_missed t) (unat (st_next_run_at_ms t)) (unat i)
         (backlog_of i (st_next_run_at_ms t) now) \<and>
     next_slot_after_ms (Every i) (st_anchor_ms t) now = Inr (mp_next_run_at_ms p) \<and>
     \<not> mp_completes p \<and>
     mp_outcome p = \<lparr> mo_policy = st_missed t, mo_evaluated_at_ms = now,
       mo_due_slot_ms = st_next_run_at_ms t,
       mo_fired_slots = u32_of_nat_sat (length (mp_fire_slots p)),
       mo_skipped_slots = u32_of_nat_sat
         (backlog_of i (st_next_run_at_ms t) now - length (mp_fire_slots p)),
       mo_truncated = (st_missed t = All \<and> 100 < backlog_of i (st_next_run_at_ms t) now) \<rparr>"
proof -
  let ?d = "st_next_run_at_ms t"
  let ?B = "backlog_of i ?d now"
  let ?q = "saturating_sub now ?d div i"
  have ge: "1000 \<le> unat i" and nz: "i \<noteq> 0"
    using parse parse_schedule_ge parse_schedule_nonzero by blast+
  obtain n where n: "next_slot_after_ms (Every i) (st_anchor_ms t) now = Inr n"
    using next_slot_Every [OF nz] by blast
  have q: "unat ?q = ?B - 1"
    by (simp add: backlog_of_def unat_div_word unat_saturating_sub)
  have B: "unat (saturating_add ?q 1) = ?B"
    using backlog_bound [OF ge, of ?d now] by (simp add: unat_saturating_add q)
  have gt: "0 < ?q \<longleftrightarrow> 1 < ?B"
    using q by (simp add: word_less_nat_alt)
  have first: "unat (saturating_sub (saturating_add ?q 1) (min 100 (saturating_add ?q 1))) =
      ?B - min 100 ?B"
    by (auto simp: unat_saturating_sub B min_def word_le_nat_alt)
  have slots: "map (\<lambda>k. unat (saturating_add ?d (saturating_mul (of_nat k) i))) [?B - min 100 ?B..<?B] =
      map (\<lambda>k. unat ?d + k * unat i) [?B - min 100 ?B..<?B]"
    by (rule map_cong) (auto intro: backlog_slot_unat [OF _ ge])
  have skip: "unat (saturating_sub (saturating_add ?q 1) (of_nat k)) = ?B - k" if "k \<le> 100" for k
    using that by (simp add: unat_saturating_sub B unat_of_nat_u64)
  have cap: "100 < saturating_add ?q 1 \<longleftrightarrow> 100 < ?B"
    by (simp add: word_less_nat_alt B)
  note plan = plan_missed_fires_def parse div_u64_def n Let_def policy_slots_def B first
    slots skip [of 1, simplified] skip [of 0, simplified] skip cap MAX_MISSED_FIRE_CATCHUP_def comp_def
  show ?thesis
  proof (cases "1 < ?B")
    case True
    then show ?thesis
      using nz gt by (cases "st_missed t") (auto simp: plan)
  next
    case False
    moreover have "?B = 1" using False backlog_pos [of i ?d now] by linarith
    ultimately show ?thesis
      using nz gt by (cases "st_missed t") (auto simp: plan)
  qed
qed

lemma plan_At:
  assumes "parse_schedule f (st_schedule t) = Inr (At a)"
  shows "\<exists>p. plan_missed_fires f t now = Inr p \<and> mp_completes p \<and> mp_next_run_at_ms p = a \<and>
     mp_fire_slots p = (if st_completed_at_ms t = None then [a] else []) \<and>
     mo_skipped_slots (mp_outcome p) = 0"
  using assms by (simp add: plan_missed_fires_def Let_def)

lemma plan_cases:
  assumes "plan_missed_fires f t now = Inr p"
  obtains (every) i where "parse_schedule f (st_schedule t) = Inr (Every i)"
  | (once) a where "parse_schedule f (st_schedule t) = Inr (At a)"
proof -
  from assms obtain s where s: "parse_schedule f (st_schedule t) = Inr s"
    by (auto simp: plan_missed_fires_def result_simps)
  show ?thesis
    using s that by (cases s) auto
qed

lemma plan_panics_iff:
  "panics (plan_missed_fires f t now) \<longleftrightarrow> panics (parse_schedule f (st_schedule t))"
proof (cases "parse_schedule f (st_schedule t)")
  case (Inl e)
  then show ?thesis by (cases e) (simp_all add: plan_missed_fires_def)
next
  case (Inr s)
  then have "is_ok (plan_missed_fires f t now)"
    using plan_Every [of f t _ now] plan_At [of f t _ now] by (cases s) auto
  with Inr show ?thesis by (auto simp: is_ok_def split: sum.splits)
qed

lemma policy_slots_bounds:
  assumes "s \<in> set (policy_slots pol d i b)" and "0 < b"
  shows "\<exists>k < b. s = d + k * i"
  using assms by (auto simp: policy_slots_def split: missed_policy.splits if_splits)

lemma policy_slots_sorted: "0 < i \<Longrightarrow> sorted_wrt (<) (policy_slots pol d i b)"
  by (auto simp: policy_slots_def sorted_wrt_map intro: sorted_wrt_mono_rel [OF _ sorted_wrt_upt]
      split: missed_policy.splits)

lemma length_policy_slots: "length (policy_slots pol d i b) \<le> min 100 (max 1 b)"
  by (auto simp: policy_slots_def split: missed_policy.splits)

text \<open>A concrete task, for the witnesses below.\<close>

definition sample_task :: "string \<Rightarrow> missed_policy \<Rightarrow> u64 \<Rightarrow> task" where
  "sample_task schedule policy due =
     \<lparr> st_schema_version = 2, st_id = ''t'', st_agent_id = ''agent'', st_conversation_id = ''conv'',
       st_name = ''check'', st_schedule = schedule, st_sandbox_mode = ModeAgent,
       st_task_sandbox_id = None, st_setup_command = None, st_command = [''true''],
       st_report_prompt = ''Report.'', st_max_output_bytes = 200000, st_enabled = True,
       st_missed = policy, st_created_at_ms = 0, st_updated_at_ms = 0, st_anchor_ms = 0,
       st_next_run_at_ms = due, st_last_run_at_ms = None, st_last_fired_slot_ms = None,
       st_last_missed_fire = None, st_completed_at_ms = None, st_latest_run_id = None,
       st_latest_result_artifact_id = None, st_lease = None \<rparr>"

lemmas parse_eval = parse_schedule_def trim_def trim_start_def trim_end_def trim_with.simps
  whitespace_seqs_def parse_interval_def split_at_def is_char_boundary_def
  continuation_byte_def parse_u64_def parse_nat_def digit_val_def saturating_mul_def

lemma parse_every_1s: "parse_schedule f ''@every 1s'' = Inr (Every 1000)"
  by (simp add: parse_eval)

lemma parse_at_x: "parse_schedule (\<lambda>_. Inr 10000) ''@at x'' = Inr (At 10000)"
  by (simp add: parse_eval parse_at_def)

section \<open>Correctness of the schedule\<close>

lemma next_slot_is_least_grid_slot_aux:
  assumes "i \<noteq> 0" and "grid_slot (unat a) (unat i) (unat t) < 2 ^ 64"
  shows "\<exists>n. next_slot_after_ms (Every i) a t = Inr n \<and> t < n \<and> on_grid a i n \<and>
           (\<forall>m. on_grid a i m \<and> t < m \<longrightarrow> n \<le> m)"
proof -
  obtain n where n: "next_slot_after_ms (Every i) a t = Inr n"
    and un: "unat n = grid_slot (unat a) (unat i) (unat t)"
    using next_slot_Every [OF assms(1), of a t] assms(2) by auto
  have pos: "0 < unat i" using assms(1) by (simp add: unat_gt_0)
  have "t < n" using grid_slot_gt [OF pos] by (simp add: word_less_nat_alt un)
  moreover have "on_grid a i n"
    unfolding on_grid_def un grid_slot_def by (rule exI [where x = "(unat t - unat a) div unat i + 1"]) simp
  moreover have "n \<le> m" if m: "on_grid a i m" "t < m" for m
  proof -
    from m(1) obtain k where "1 \<le> k" and "unat m = unat a + k * unat i"
      by (auto simp: on_grid_def)
    with grid_slot_least [OF pos, of k "unat t" "unat a"] m(2) show ?thesis
      by (simp add: word_le_nat_alt word_less_nat_alt un)
  qed
  ultimately show ?thesis using n by blast
qed

text \<open>the next slot of a recurring schedule. As long as it fits in 64 bits, it lies strictly
  after the given time, on the grid \<open>anchor + k * interval\<close> with \<open>k \<ge> 1\<close>, and no earlier grid slot
  does.\<close>

theorem next_slot_is_least_grid_slot:
  assumes "i \<noteq> 0" and "grid_slot (unat a) (unat i) (unat t) < 2 ^ 64"
  shows "\<exists>n. next_slot_after_ms (Every i) a t = Inr n \<and> t < n \<and> on_grid a i n \<and>
           (\<forall>m. on_grid a i m \<and> t < m \<longrightarrow> n \<le> m)"
  using assms by (rule next_slot_is_least_grid_slot_aux)

theorem next_slot_is_least_grid_slot_witness:
  "(1000 :: u64) \<noteq> 0 \<and> grid_slot (unat (1000 :: u64)) (unat (1000 :: u64)) (unat (9500 :: u64)) < 2 ^ 64 \<and>
   (\<exists>n. next_slot_after_ms (Every 1000) 1000 9500 = Inr n \<and> 9500 < n \<and> on_grid 1000 1000 n \<and>
      (\<forall>m. on_grid 1000 1000 m \<and> 9500 < m \<longrightarrow> n \<le> m))"
  using next_slot_is_least_grid_slot [of 1000 1000 9500] by (simp add: grid_slot_def)

text \<open>C14: what a due or on-demand evaluation of a recurring task fires, for each policy: with a
  backlog of one every policy fires exactly the due slot; otherwise Skip fires nothing, Once fires
  the due slot, and All fires the newest (at most 100) owed slots in order.\<close>

theorem plan_fires_by_policy:
  assumes "parse_schedule f (st_schedule t) = Inr (Every i)"
  shows "\<exists>p. plan_missed_fires f t now = Inr p \<and>
     map unat (mp_fire_slots p) =
       (let d = unat (st_next_run_at_ms t); b = (unat now - d) div unat i + 1 in
        case st_missed t of
          Skip \<Rightarrow> (if b = 1 then [d] else [])
        | Once \<Rightarrow> [d]
        | All \<Rightarrow> map (\<lambda>k. d + k * unat i) [b - min 100 b ..< b])"
  using plan_Every [OF assms, of now]
  by (auto simp: policy_slots_def backlog_of_def Let_def)

theorem plan_fires_by_policy_witness:
  "\<exists>p. plan_missed_fires (\<lambda>_. Inl ''no'') (sample_task ''@every 1s'' All 1000) 3500 = Inr p \<and>
     map unat (mp_fire_slots p) = [1000, 2000, 3000]"
  using plan_fires_by_policy [of "\<lambda>_. Inl ''no''" "sample_task ''@every 1s'' All 1000" 1000 3500]
  by (simp add: sample_task_def parse_every_1s upt_rec)

text \<open>the recorded outcome accounts for the whole backlog. For a recurring task whose backlog
  fits in 32 bits, fired and skipped slots add up to it, at most 100 slots fire, and the outcome says
  truncated exactly when the policy is All and more than 100 slots were owed.\<close>

theorem plan_outcome_accounts_for_backlog:
  assumes "parse_schedule f (st_schedule t) = Inr (Every i)"
    and "backlog_of i (st_next_run_at_ms t) now < 2 ^ 32"
    and "plan_missed_fires f t now = Inr p"
  shows "unat (mo_fired_slots (mp_outcome p)) + unat (mo_skipped_slots (mp_outcome p)) =
           backlog_of i (st_next_run_at_ms t) now \<and>
         unat (mo_fired_slots (mp_outcome p)) = length (mp_fire_slots p) \<and>
         length (mp_fire_slots p) \<le> 100 \<and>
         (mo_truncated (mp_outcome p) \<longleftrightarrow>
            st_missed t = All \<and> 100 < backlog_of i (st_next_run_at_ms t) now)"
proof -
  let ?B = "backlog_of i (st_next_run_at_ms t) now"
  have slots: "map unat (mp_fire_slots p) =
      policy_slots (st_missed t) (unat (st_next_run_at_ms t)) (unat i) ?B"
    and out: "mo_fired_slots (mp_outcome p) = u32_of_nat_sat (length (mp_fire_slots p))"
      "mo_skipped_slots (mp_outcome p) = u32_of_nat_sat (?B - length (mp_fire_slots p))"
      "mo_truncated (mp_outcome p) \<longleftrightarrow> st_missed t = All \<and> 100 < ?B"
    using plan_Every [OF assms(1), of now] assms(3) by auto
  have "length (mp_fire_slots p) = length (map unat (mp_fire_slots p))" by simp
  also have "\<dots> \<le> min 100 (max 1 ?B)" unfolding slots by (rule length_policy_slots)
  finally have "length (mp_fire_slots p) \<le> 100" and "length (mp_fire_slots p) \<le> ?B"
    using backlog_pos [of i "st_next_run_at_ms t" now] by auto
  with out assms(2) show ?thesis by (simp add: unat_u32_of_nat_sat)
qed

theorem plan_outcome_accounts_for_backlog_witness:
  "\<exists>p. plan_missed_fires (\<lambda>_. Inl ''no'') (sample_task ''@every 1s'' Once 1000) 3500 = Inr p \<and>
     unat (mo_fired_slots (mp_outcome p)) + unat (mo_skipped_slots (mp_outcome p)) = 3"
proof -
  let ?t = "sample_task ''@every 1s'' Once 1000" and ?f = "\<lambda>_. Inl ''no''"
  have parse: "parse_schedule ?f (st_schedule ?t) = Inr (Every 1000)"
    by (simp add: sample_task_def parse_every_1s)
  obtain p where p: "plan_missed_fires ?f ?t 3500 = Inr p"
    using plan_Every [OF parse, of 3500] by blast
  have "backlog_of 1000 (st_next_run_at_ms ?t) 3500 = 3"
    by (simp add: sample_task_def backlog_of_def)
  with plan_outcome_accounts_for_backlog [OF parse _ p] p show ?thesis by auto
qed

text \<open>no slot is fired twice. When a recurring task is due, every slot the plan fires lies
  between the due slot and now, the slots are strictly increasing, and the grid resumes strictly
  after now (while the next slot fits in 64 bits): a resumed task's next run is later than everything
  already fired, and it is not due again at that moment.\<close>

theorem due_fires_precede_resumption:
  assumes parse: "parse_schedule f (st_schedule t) = Inr (Every i)"
    and due: "is_due t now"
    and plan: "plan_missed_fires f t now = Inr p"
    and fits: "grid_slot (unat (st_anchor_ms t)) (unat i) (unat now) < 2 ^ 64"
  shows "(\<forall>s \<in> set (mp_fire_slots p). st_next_run_at_ms t \<le> s \<and> s \<le> now) \<and>
         sorted_wrt (<) (mp_fire_slots p) \<and>
         now < st_next_run_at_ms (resume_after_fires p now t) \<and>
         \<not> is_due (resume_after_fires p now t) now \<and>
         on_grid (st_anchor_ms t) i (st_next_run_at_ms (resume_after_fires p now t))"
proof -
  let ?d = "st_next_run_at_ms t"
  let ?B = "backlog_of i ?d now"
  have nz: "i \<noteq> 0" using parse by (rule parse_schedule_nonzero)
  have d: "?d \<le> now" using due by (simp add: is_due_def)
  have slots: "map unat (mp_fire_slots p) = policy_slots (st_missed t) (unat ?d) (unat i) ?B"
    and next_ok: "next_slot_after_ms (Every i) (st_anchor_ms t) now = Inr (mp_next_run_at_ms p)"
    using plan_Every [OF parse, of now] plan by auto
  have in_range: "?d \<le> s \<and> s \<le> now" if "s \<in> set (mp_fire_slots p)" for s
  proof -
    have "unat s \<in> set (policy_slots (st_missed t) (unat ?d) (unat i) ?B)"
      unfolding slots [symmetric] using that by simp
    then obtain k where "k < ?B" and "unat s = unat ?d + k * unat i"
      using policy_slots_bounds [OF _ backlog_pos] by blast
    then show ?thesis
      using backlog_slot_le [OF _ d, of k i] by (simp add: word_le_nat_alt)
  qed
  have "sorted_wrt (<) (map unat (mp_fire_slots p))"
    unfolding slots by (rule policy_slots_sorted) (simp add: nz unat_gt_0)
  then have sorted: "sorted_wrt (<) (mp_fire_slots p)"
    unfolding sorted_wrt_map
    by (rule sorted_wrt_mono_rel [rotated]) (simp add: word_less_nat_alt)
  have "now < mp_next_run_at_ms p \<and> on_grid (st_anchor_ms t) i (mp_next_run_at_ms p)"
    using next_slot_is_least_grid_slot_aux [OF nz fits] next_ok by auto
  with in_range sorted show ?thesis
    by (auto simp: resume_after_fires_def is_due_def)
qed

theorem due_fires_precede_resumption_witness:
  "\<exists>p. plan_missed_fires (\<lambda>_. Inl ''no'') (sample_task ''@every 1s'' All 1000) 3500 = Inr p \<and>
     is_due (sample_task ''@every 1s'' All 1000) 3500 \<and>
     (\<forall>s \<in> set (mp_fire_slots p). 1000 \<le> s \<and> s \<le> 3500)"
proof -
  let ?t = "sample_task ''@every 1s'' All 1000" and ?f = "\<lambda>_. Inl ''no''"
  have parse: "parse_schedule ?f (st_schedule ?t) = Inr (Every 1000)"
    by (simp add: sample_task_def parse_every_1s)
  obtain p where p: "plan_missed_fires ?f ?t 3500 = Inr p"
    using plan_Every [OF parse, of 3500] by blast
  have due: "is_due ?t 3500" by (simp add: is_due_def sample_task_def)
  have fits: "grid_slot (unat (st_anchor_ms ?t)) (unat (1000 :: u64)) (unat (3500 :: u64)) < 2 ^ 64"
    by (simp add: sample_task_def grid_slot_def)
  have "st_next_run_at_ms ?t = 1000" by (simp add: sample_task_def)
  with due_fires_precede_resumption [OF parse due p fits] p due show ?thesis by auto
qed

text \<open>a one-shot task fires exactly once, however late. Its plan fires its timestamp under
  every policy, resuming completes it, and from then on it is never due and every later plan fires
  nothing.\<close>

theorem one_shot_fires_once:
  assumes parse: "parse_schedule f (st_schedule t) = Inr (At a)"
    and fresh: "st_completed_at_ms t = None"
  shows "\<exists>p. plan_missed_fires f t now = Inr p \<and> mp_fire_slots p = [a] \<and>
     (let t' = resume_after_fires p done t in
        st_completed_at_ms t' = Some done \<and> st_last_fired_slot_ms t' = Some a \<and>
        (\<forall>later. \<not> is_due t' later) \<and>
        (\<forall>later. \<exists>q. plan_missed_fires f t' later = Inr q \<and> mp_fire_slots q = []))"
proof -
  obtain p where p: "plan_missed_fires f t now = Inr p" "mp_completes p" "mp_fire_slots p = [a]"
    using plan_At [OF parse, of now] fresh by auto
  let ?t' = "resume_after_fires p done t"
  have t': "st_schedule ?t' = st_schedule t" "st_completed_at_ms ?t' = Some done"
      "st_last_fired_slot_ms ?t' = Some a"
    using p by (simp_all add: resume_after_fires_def)
  have "\<exists>q. plan_missed_fires f ?t' later = Inr q \<and> mp_fire_slots q = []" for later
    using plan_At [of f ?t' a later] parse t' by auto
  with p t' show ?thesis by (auto simp: Let_def is_due_def)
qed

theorem one_shot_fires_once_witness:
  "\<exists>p. plan_missed_fires (\<lambda>_. Inr 10000) (sample_task ''@at x'' Skip 10000) 604810000 = Inr p \<and>
     mp_fire_slots p = [10000] \<and>
     (\<forall>later. \<not> is_due (resume_after_fires p 604810500 (sample_task ''@at x'' Skip 10000)) later)"
  using one_shot_fires_once [of "\<lambda>_. Inr 10000" "sample_task ''@at x'' Skip 10000" 10000
      604810000 604810500]
  by (auto simp: sample_task_def parse_at_x Let_def)

text \<open>the only way planning a stored task can panic is the schedule parser's split of the
  last byte of an interval: division by the interval never panics, because every interval the parser
  returns is at least one second; and the parser panics exactly when the text after the every-keyword
  has at least two bytes and ends inside a multi-byte character.\<close>

theorem plan_panics_only_on_split_character:
  "panics (plan_missed_fires f t now) \<longleftrightarrow>
     (\<exists>interval. strip_prefix ''@every '' (trim (st_schedule t)) = Some interval \<and>
        2 \<le> length (trim interval) \<and> continuation_byte (last (trim interval)))"
  by (simp add: plan_panics_iff parse_schedule_panics)

text \<open>A character of a Rust string in UTF-8: one ASCII byte, or a leading byte and one to three continuation bytes.\<close>

fun utf8_char :: "string \<Rightarrow> bool" where
  "utf8_char [] \<longleftrightarrow> False"
| "utf8_char [c] \<longleftrightarrow> of_char c < (128 :: nat)"
| "utf8_char (c # cs) \<longleftrightarrow> (192 :: nat) \<le> of_char c \<and> length cs \<le> 3 \<and> list_all continuation_byte cs"

lemma utf8_charD:
  assumes "utf8_char u"
  shows "u \<noteq> []" "\<not> continuation_byte (hd u)" "\<forall>c \<in> set (tl u). continuation_byte c"
  using assms by (cases u rule: utf8_char.cases; simp add: continuation_byte_def list_all_iff Let_def)+

lemma whitespace_utf8: "\<forall>w \<in> set whitespace_seqs. utf8_char w"
  by (simp add: whitespace_seqs_def continuation_byte_def)

text \<open>Two strings that end the same end in the same character.\<close>

lemma utf8_char_suffix:
  assumes "utf8_char u" "utf8_char w" and "x @ u = y @ w"
  shows "u = w"
proof -
  have lead: "z = []" if "u' = z @ w'" "utf8_char u'" "utf8_char w'" for u' z w'
  proof (rule ccontr)
    assume "z \<noteq> []"
    then have "hd w' \<in> set (tl u')" using that(1) utf8_charD(1) [OF that(3)] by (simp add: tl_append split: list.split)
    then show False using utf8_charD(3) [OF that(2)] utf8_charD(2) [OF that(3)] by blast
  qed
  obtain z where "x = y @ z \<and> z @ u = w \<or> x @ z = y \<and> u = z @ w"
    using assms(3) by (auto simp: append_eq_append_conv2)
  then show ?thesis by (metis lead [OF _ assms(2,1)] lead [OF _ assms(1,2)] append_Nil)
qed

lemma trim_end_char:
  assumes "utf8_char u" and "u \<notin> set whitespace_seqs"
  shows "trim_end (s @ u) = s @ u"
proof -
  have "strip_prefix (rev w) (rev (s @ u)) = None" if "w \<in> set whitespace_seqs" for w
  proof (rule ccontr)
    assume "strip_prefix (rev w) (rev (s @ u)) \<noteq> None"
    then obtain r where "rev (s @ u) = rev w @ r" using strip_prefix_Some_iff by (metis option.exhaust)
    then have "s @ u = rev r @ w" by (metis rev_append rev_rev_ident)
    then show False using utf8_char_suffix [OF assms(1)] whitespace_utf8 that assms(2) by metis
  qed
  then have "strip_any (map rev ws) (rev (s @ u)) = None" if "set ws \<subseteq> set whitespace_seqs" for ws
    using that by (induction ws) auto
  then show ?thesis by (simp add: trim_end_def trim_with.simps)
qed

text \<open>How an interval is read: neither the count nor the unit is trimmed.\<close>

lemma parse_every:
  assumes "utf8_char u" and "u \<notin> set whitespace_seqs"
  shows "parse_schedule f (''@every '' @ show_u64 v @ u) = parse_interval (show_u64 v @ u)"
proof -
  obtain d ds where d: "show_u64 v = d # ds" by (cases "show_u64 v") (auto simp: show_u64_def)
  then have "ascii_graphic d"
    using show_nat_digits [of d "unat v"] by (simp add: show_u64_def digit_byte_graphic)
  then have inner: "trim (show_u64 v @ u) = show_u64 v @ u"
    using trim_start_id [of d "ds @ u"] trim_end_char [OF assms, of "show_u64 v"] d by (simp add: trim_def)
  have "ascii_graphic CHR ''@''" by (simp add: ascii_graphic_def)
  then have "trim (''@every '' @ show_u64 v @ u) = ''@every '' @ show_u64 v @ u"
    using trim_start_id [of "CHR ''@''" "''every '' @ show_u64 v @ u"] trim_end_char [OF assms, of "''@every '' @ show_u64 v"]
    by (simp add: trim_def)
  then show ?thesis unfolding parse_schedule_def Let_def by (simp only: strip_prefix_append option.case inner)
qed

text \<open>C21: what a positive count with any unit parses to. For every count and every character that is not white space as
  its unit: one of the four units gives the interval of that many milliseconds (saturating at 64 bits), any other ASCII
  character is refused with the unit error, and every multi-byte character makes the parser panic, where the unit error
  is meant: the unit is split off as the last byte of the text, which is then not a character boundary.\<close>

theorem parse_schedule_panics_on_multibyte_unit:
  assumes "v \<noteq> 0" and "utf8_char u" and "u \<notin> set whitespace_seqs"
  shows "parse_schedule f (''@every '' @ show_u64 v @ u) =
    (if 2 \<le> length u then panic ''failed to slice string''
     else case map_of [(''s'', 1000), (''m'', 60000), (''h'', 3600000), (''d'', 86400000)] u of
            Some ms \<Rightarrow> Inr (Every (saturating_mul v ms))
          | None \<Rightarrow> bail ''interval unit must be one of s, m, h, or d'')"
proof (cases "2 \<le> length u")
  case True
  then have "continuation_byte (last u)"
    using utf8_charD(3) [OF assms(2)] by (cases u) (auto simp: last_ConsR)
  then have "parse_interval (show_u64 v @ u) = panic ''failed to slice string''"
    using True is_char_boundary_last [of "show_u64 v @ u"] utf8_charD(1) [OF assms(2)]
    by (simp add: parse_interval_def split_at_def)
  then show ?thesis using True unfolding parse_every [OF assms(2,3)] by simp
next
  case False
  then obtain c where c: "u = [c]" "\<not> continuation_byte c"
    using assms(2) utf8_charD(2) [OF assms(2)] by (cases u rule: utf8_char.cases) auto
  obtain d ds where "show_u64 v = d # ds" by (cases "show_u64 v") (auto simp: show_u64_def)
  then have "parse_interval (show_u64 v @ [c]) =
      (case map_of [(''s'', 1000), (''m'', 60000), (''h'', 3600000), (''d'', 86400000)] [c] of
         Some ms \<Rightarrow> Inr (Every (saturating_mul v ms)) | None \<Rightarrow> bail ''interval unit must be one of s, m, h, or d'')"
    using assms(1) c(2) parse_u64_show [of v]
    by (simp add: parse_interval_def split_at_def is_char_boundary_def nth_append Let_def)
  then show ?thesis using c(1) unfolding parse_every [OF assms(2,3)] by simp
qed

theorem parse_schedule_panics_on_multibyte_unit_witness:
  "parse_schedule (\<lambda>_. Inl ''no'') (''@every '' @ show_u64 5 @ [CHR 0xC2, CHR 0xB5]) = panic ''failed to slice string'' \<and>
   parse_schedule (\<lambda>_. Inl ''no'') (''@every '' @ show_u64 5 @ ''m'') = Inr (Every 300000) \<and>
   parse_schedule (\<lambda>_. Inl ''no'') (''@every '' @ show_u64 5 @ ''w'') = bail ''interval unit must be one of s, m, h, or d''"
  using parse_schedule_panics_on_multibyte_unit [of 5 "[CHR 0xC2, CHR 0xB5]" "\<lambda>_. Inl ''no''"]
    parse_schedule_panics_on_multibyte_unit [of 5 "''m''" "\<lambda>_. Inl ''no''"]
    parse_schedule_panics_on_multibyte_unit [of 5 "''w''" "\<lambda>_. Inl ''no''"]
  by (simp add: continuation_byte_def whitespace_seqs_def saturating_mul_def)

text \<open>Migration brings every record of a known version to version 2, anchoring older ones at
  their creation time, changes nothing else, leaves a migrated record alone, and refuses exactly the
  records of a newer version.\<close>

lemma migrate_facts:
  "(is_ok (migrate_scheduled_task t) \<longleftrightarrow> st_schema_version t \<le> 2) \<and>
   (\<forall>t'. migrate_scheduled_task t = Inr t' \<longrightarrow>
      t' = t\<lparr>st_schema_version := 2,
             st_anchor_ms := (if st_schema_version t < 2 then st_created_at_ms t else st_anchor_ms t)\<rparr> \<and>
      migrate_scheduled_task t' = Inr t')"
proof -
  have "v \<le> 2 \<longleftrightarrow> v = 0 \<or> v = 1 \<or> v = 2" for v :: u32
  proof -
    have "unat v \<le> 2 \<longleftrightarrow> unat v = 0 \<or> unat v = 1 \<or> unat v = 2" by arith
    then show ?thesis by (simp add: word_le_nat_alt word_unat_eq_iff)
  qed
  then consider "st_schema_version t = 0" | "st_schema_version t = 1" | "st_schema_version t = 2"
    | "\<not> st_schema_version t \<le> 2" "st_schema_version t \<noteq> 0" "st_schema_version t \<noteq> 1"
      "st_schema_version t \<noteq> 2"
    by blast
  then show ?thesis
    by cases (simp_all add: migrate_scheduled_task_def Let_def SCHEDULED_TASK_SCHEMA_VERSION_def)
qed

end
