(* ===== verification/Scheduler_Store.thy ===== *)
theory Scheduler_Store
  imports Schedule "HOL-Library.AList" "HOL-Library.Char_ord" "HOL-Library.List_Lexorder"
    "HOL-Library.Product_Lexorder"
begin

text \<open>
  The scheduler's persistent state, from \<^verbatim>\<open>crates/executor/src/native/scheduler_store.rs\<close>: directories of
  JSON files for tasks, runs, pending fires and delivered fires. A directory is the list of its entries
  in the order the operating system lists them, keyed by file name; an entry is the record it decodes to,
  or malformed text. A missing directory is the empty one (the source treats \<open>NotFound\<close> so). Identifiers
  are plain file-name components.

  The store takes no lock. Every access to the files is a step of its own: before it the other processes
  may change the store in any way (\<open>e_others\<close>), and it may fail with any error, a failed write leaving
  behind any of the states it goes through (\<open>e_disk\<close>). The names of a directory are listed in one step and
  each file is read in its own; writing a file through a temporary one, whose name nobody else uses, is one step.
\<close>

section \<open>Directories\<close>

datatype 'a json_file = Json 'a | Malformed

type_synonym 'a dir = "(string \<times> 'a json_file) list"

definition decode_json :: "'a json_file \<Rightarrow> 'a result" where
  "decode_json file = (case file of Json x \<Rightarrow> Ok x | Malformed \<Rightarrow> bail ''malformed JSON'')"

text \<open>\<open>path.extension() == Some("json")\<close>: a non-empty stem, then \<open>.json\<close>.\<close>

definition json_extension :: "string \<Rightarrow> bool" where
  "json_extension name \<longleftrightarrow>
     (case strip_suffix ''.json'' name of None \<Rightarrow> False | Some stem \<Rightarrow> stem \<noteq> [])"

definition rename_file :: "string \<Rightarrow> string \<Rightarrow> 'a dir \<Rightarrow> 'a dir" where
  "rename_file src dst d =
     (case map_of d src of None \<Rightarrow> d | Some f \<Rightarrow> AList.update dst f (AList.delete src d))"

text \<open>\<open>write_json_file\<close>: a temporary file named after a fresh identifier, then a rename. The list
  holds every directory a crash or an error could leave behind, in order: before, temporary file
  incomplete, temporary file complete, renamed.\<close>

definition temp_name :: "string \<Rightarrow> string \<Rightarrow> string" where
  "temp_name stem uuid = stem @ ''.json.'' @ uuid @ ''.tmp''"

definition write_json_states :: "string \<Rightarrow> string \<Rightarrow> 'a \<Rightarrow> 'a dir \<Rightarrow> 'a dir list" where
  "write_json_states uuid stem x d =
     (let tmp = temp_name stem uuid;
          d1 = AList.update tmp Malformed d;
          d2 = AList.update tmp (Json x) d;
          d3 = rename_file tmp (stem @ ''.json'') d2
      in [d, d1, d2, d3])"

definition write_json_file :: "string \<Rightarrow> string \<Rightarrow> 'a \<Rightarrow> 'a dir \<Rightarrow> 'a dir" where
  "write_json_file uuid stem x d = last (write_json_states uuid stem x d)"

definition remove_file_if_exists :: "string \<Rightarrow> 'a dir \<Rightarrow> 'a dir" where
  "remove_file_if_exists name d = AList.delete name d"

text \<open>The JSON files of a directory, in directory order, and the contents of one of them.\<close>

definition json_names :: "'a dir \<Rightarrow> string list" where
  "json_names d = filter json_extension (map fst d)"

definition read_file :: "string \<Rightarrow> 'a dir \<Rightarrow> 'a json_file result" where
  "read_file name d = ok_or (map_of d name) ''No such file or directory''"

section \<open>Accesses\<close>

record scheduler_store =
  ss_tasks :: "task dir"
  ss_runs :: "(string \<times> task_run dir) list"
  ss_pending :: "fire_record dir"
  ss_delivered :: "fire_record dir"

text \<open>The answer of the file system to one access: it works, or it fails with an error after the first
  \<open>k\<close> of its states.\<close>

datatype disk = Works | Fails nat string

definition disk_commit :: "disk \<Rightarrow> 's list \<Rightarrow> unit result \<times> 's" where
  "disk_commit d states =
     (case d of Works \<Rightarrow> (Ok (), last states)
      | Fails k e \<Rightarrow> (bail e, states ! min k (length states - 1)))"

record store_env =
  e_uuid :: "nat \<Rightarrow> string"
  e_disk :: "nat \<Rightarrow> disk"
  e_others :: "nat \<Rightarrow> scheduler_store \<Rightarrow> scheduler_store"

record store_world =
  w_store :: scheduler_store
  w_calls :: nat

definition store_access :: "'e store_env_scheme
    \<Rightarrow> (disk \<Rightarrow> string \<Rightarrow> scheduler_store \<Rightarrow> 'a result \<times> scheduler_store)
    \<Rightarrow> ('w store_world_scheme, 'a) io" where
  "store_access env f w =
     (let n = w_calls w;
          (r, s) = f (e_disk env n) (e_uuid env n) (e_others env n (w_store w))
      in (r, w\<lparr>w_store := s, w_calls := Suc n\<rparr>))"

definition store_read :: "'e store_env_scheme \<Rightarrow> (scheduler_store \<Rightarrow> 'a result)
    \<Rightarrow> ('w store_world_scheme, 'a) io" where
  "store_read env g =
     store_access env (\<lambda>d u s. (case d of Works \<Rightarrow> g s | Fails k e \<Rightarrow> bail e, s))"

definition store_write :: "'e store_env_scheme \<Rightarrow> (string \<Rightarrow> scheduler_store \<Rightarrow> scheduler_store list)
    \<Rightarrow> ('w store_world_scheme, unit) io" where
  "store_write env states = store_access env (\<lambda>d u s. disk_commit d (states u s))"

definition fresh_uuid :: "'e store_env_scheme \<Rightarrow> ('w store_world_scheme, string) io" where
  "fresh_uuid env w = (Ok (e_uuid env (w_calls w)), w\<lparr>w_calls := Suc (w_calls w)\<rparr>)"

section \<open>The store\<close>

definition task_path :: "string \<Rightarrow> string" where
  "task_path task_id = task_id @ ''.json''"

definition fire_stem :: "string \<Rightarrow> u64 \<Rightarrow> string" where
  "fire_stem task_id slot_ms = task_id @ ''-'' @ show_u64 slot_ms"

definition pending_fire_path :: "string \<Rightarrow> u64 \<Rightarrow> string" where
  "pending_fire_path task_id slot_ms = fire_stem task_id slot_ms @ ''.json''"

definition delivered_fire_path :: "string \<Rightarrow> u64 \<Rightarrow> string" where
  "delivered_fire_path task_id slot_ms = fire_stem task_id slot_ms @ ''.json''"

definition decode_task :: "task json_file \<Rightarrow> task result" where
  "decode_task file = and_then (decode_json file) migrate_scheduled_task"

definition put_task :: "'e store_env_scheme \<Rightarrow> task \<Rightarrow> ('w store_world_scheme, unit) io" where
  "put_task env t =
     store_write env (\<lambda>u s. map (\<lambda>d. s\<lparr>ss_tasks := d\<rparr>) (write_json_states u (st_id t) t (ss_tasks s)))"

text \<open>What a task file holds, and reading it.\<close>

definition task_entry :: "string \<Rightarrow> scheduler_store \<Rightarrow> task option result" where
  "task_entry task_id s =
     (case map_of (ss_tasks s) (task_path task_id) of
        None \<Rightarrow> Ok None
      | Some file \<Rightarrow> and_then (decode_task file) (\<lambda>t. Ok (Some t)))"

definition get_task :: "'e store_env_scheme \<Rightarrow> string \<Rightarrow> ('w store_world_scheme, task option) io" where
  "get_task env task_id = store_read env (task_entry task_id)"

definition create_task ::
    "(string \<Rightarrow> string + int) \<Rightarrow> 'e store_env_scheme \<Rightarrow> new_task \<Rightarrow> u64
      \<Rightarrow> ('w store_world_scheme, task) io" where
  "create_task rfc3339 env request now_ms =
     io_bind (fresh_uuid env) (\<lambda>task_id.
     io_bind (io_lift (new_scheduled_task rfc3339 task_id request now_ms)) (\<lambda>t.
     io_bind (put_task env t) (\<lambda>_. io_return t)))"

fun read_tasks :: "'e store_env_scheme \<Rightarrow> string list \<Rightarrow> ('w store_world_scheme, task list) io" where
  "read_tasks env [] = io_return []"
| "read_tasks env (name # names) =
     io_bind (store_read env (\<lambda>s. and_then (read_file name (ss_tasks s)) decode_task)) (\<lambda>t.
     io_bind (read_tasks env names) (\<lambda>ts. io_return (t # ts)))"

definition list_tasks :: "'e store_env_scheme \<Rightarrow> ('w store_world_scheme, task list) io" where
  "list_tasks env =
     io_bind (store_read env (\<lambda>s. Ok (json_names (ss_tasks s)))) (\<lambda>names.
     io_bind (read_tasks env names) (\<lambda>tasks.
     io_return (sort_key (\<lambda>t. (st_name t, st_id t)) tasks)))"

definition list_tasks_for_conversation ::
    "'e store_env_scheme \<Rightarrow> string \<Rightarrow> string \<Rightarrow> bool \<Rightarrow> ('w store_world_scheme, task list) io" where
  "list_tasks_for_conversation env agent_id conversation_id include_disabled =
     io_bind (list_tasks env) (\<lambda>tasks.
       io_return (filter (\<lambda>t. include_disabled \<or> st_enabled t)
         (filter (\<lambda>t. st_agent_id t = agent_id \<and> st_conversation_id t = conversation_id) tasks)))"

definition due_tasks :: "'e store_env_scheme \<Rightarrow> u64 \<Rightarrow> ('w store_world_scheme, task list) io" where
  "due_tasks env now_ms =
     io_bind (list_tasks env) (\<lambda>tasks. io_return (filter (\<lambda>t. is_due t now_ms) tasks))"

text \<open>The claiming loop: lease each task, write it back. The record written is the one read before the
  loop, whatever the file holds by then.\<close>

fun claim_loop :: "'e store_env_scheme \<Rightarrow> u64 \<Rightarrow> u64 \<Rightarrow> task list
    \<Rightarrow> ('w store_world_scheme, task list) io" where
  "claim_loop env now_ms lease_ms [] = io_return []"
| "claim_loop env now_ms lease_ms (t # ts) =
     io_bind (fresh_uuid env) (\<lambda>lease_id.
     let t' = claim_task lease_id now_ms lease_ms t in
     io_bind (put_task env t') (\<lambda>_.
     io_bind (claim_loop env now_ms lease_ms ts) (\<lambda>claimed.
     io_return (t' # claimed))))"

definition claim_due_tasks :: "'e store_env_scheme \<Rightarrow> u64 \<Rightarrow> nat \<Rightarrow> u64
    \<Rightarrow> ('w store_world_scheme, task list) io" where
  "claim_due_tasks env now_ms limit lease_ms =
     io_bind (due_tasks env now_ms) (\<lambda>due.
       claim_loop env now_ms lease_ms (take limit (sort_key st_next_run_at_ms due)))"

definition disable_task :: "'e store_env_scheme \<Rightarrow> u64 \<Rightarrow> string
    \<Rightarrow> ('w store_world_scheme, task option) io" where
  "disable_task env now_ms task_id =
     io_bind (get_task env task_id) (\<lambda>found.
       case found of None \<Rightarrow> io_return None
       | Some t \<Rightarrow> (let t' = t\<lparr>st_enabled := False, st_updated_at_ms := now_ms\<rparr> in
           io_bind (put_task env t') (\<lambda>_. io_return (Some t'))))"

definition delete_task :: "'e store_env_scheme \<Rightarrow> string \<Rightarrow> ('w store_world_scheme, task option) io" where
  "delete_task env task_id =
     io_bind (get_task env task_id) (\<lambda>found.
       case found of None \<Rightarrow> io_return None
       | Some t \<Rightarrow>
           io_bind (store_write env (\<lambda>u s.
             [s, s\<lparr>ss_tasks := remove_file_if_exists (task_path task_id) (ss_tasks s)\<rparr>])) (\<lambda>_.
           io_bind (store_write env (\<lambda>u s. [s, s\<lparr>ss_runs := AList.delete task_id (ss_runs s)\<rparr>])) (\<lambda>_.
           io_return (Some t))))"

definition put_run :: "'e store_env_scheme \<Rightarrow> task_run \<Rightarrow> ('w store_world_scheme, unit) io" where
  "put_run env run =
     store_write env (\<lambda>u s.
       let d = (case map_of (ss_runs s) (tr_task_id run) of None \<Rightarrow> [] | Some d \<Rightarrow> d) in
       map (\<lambda>d'. s\<lparr>ss_runs := AList.update (tr_task_id run) d' (ss_runs s)\<rparr>)
         (write_json_states u (tr_id run) run d))"

text \<open>The two tables of fires, by task and slot.\<close>

definition fire_is_pending :: "string \<times> u64 \<Rightarrow> scheduler_store \<Rightarrow> bool" where
  "fire_is_pending k s \<longleftrightarrow> map_of (ss_pending s) (pending_fire_path (fst k) (snd k)) \<noteq> None"

definition fire_is_delivered :: "string \<times> u64 \<Rightarrow> scheduler_store \<Rightarrow> bool" where
  "fire_is_delivered k s \<longleftrightarrow> map_of (ss_delivered s) (delivered_fire_path (fst k) (snd k)) \<noteq> None"

definition fire_was_delivered :: "'e store_env_scheme \<Rightarrow> string \<Rightarrow> u64
    \<Rightarrow> ('w store_world_scheme, bool) io" where
  "fire_was_delivered env task_id slot_ms =
     store_read env (\<lambda>s. Ok (fire_is_delivered (task_id, slot_ms) s))"

definition put_pending_fire :: "'e store_env_scheme \<Rightarrow> fire_record
    \<Rightarrow> ('w store_world_scheme, unit) io" where
  "put_pending_fire env fire =
     io_bind (fire_was_delivered env (fr_task_id fire) (fr_slot_ms fire)) (\<lambda>delivered.
     if delivered then io_return ()
     else store_write env (\<lambda>u s. map (\<lambda>d. s\<lparr>ss_pending := d\<rparr>)
            (write_json_states u (fire_stem (fr_task_id fire) (fr_slot_ms fire)) fire (ss_pending s))))"

fun read_fires :: "'e store_env_scheme \<Rightarrow> string list \<Rightarrow> ('w store_world_scheme, fire_record list) io" where
  "read_fires env [] = io_return []"
| "read_fires env (name # names) =
     io_bind (store_read env (\<lambda>s. and_then (read_file name (ss_pending s)) decode_json)) (\<lambda>fire.
     io_bind (read_fires env names) (\<lambda>fires. io_return (fire # fires)))"

definition pending_fires :: "'e store_env_scheme \<Rightarrow> ('w store_world_scheme, fire_record list) io" where
  "pending_fires env =
     io_bind (store_read env (\<lambda>s. Ok (json_names (ss_pending s)))) (\<lambda>names.
     io_bind (read_fires env names) (\<lambda>fires.
     io_return (sort_key (\<lambda>fire. (fr_fired_at_ms fire, fr_slot_ms fire)) fires)))"

text \<open>The rename is the commit point; it fails if the file has gone since it was looked up.\<close>

definition retire_fire :: "string \<Rightarrow> u64 \<Rightarrow> disk \<Rightarrow> scheduler_store \<Rightarrow> unit result \<times> scheduler_store" where
  "retire_fire task_id slot_ms d s =
     (case map_of (ss_pending s) (pending_fire_path task_id slot_ms) of
        None \<Rightarrow> (bail ''No such file or directory'', s)
      | Some file \<Rightarrow> disk_commit d
          [s, s\<lparr>ss_pending := AList.delete (pending_fire_path task_id slot_ms) (ss_pending s),
                ss_delivered := AList.update (delivered_fire_path task_id slot_ms) file (ss_delivered s)\<rparr>])"

definition mark_fire_delivered :: "'e store_env_scheme \<Rightarrow> string \<Rightarrow> u64
    \<Rightarrow> ('w store_world_scheme, unit) io" where
  "mark_fire_delivered env task_id slot_ms =
     io_bind (store_read env (\<lambda>s. Ok (fire_is_pending (task_id, slot_ms) s))) (\<lambda>pending.
     if \<not> pending then io_return ()
     else store_access env (\<lambda>d u. retire_fire task_id slot_ms d))"

section \<open>Facts about directories\<close>

lemma json_not_tmp: "stem @ ''.json'' \<noteq> temp_name stem' uuid"
proof
  assume "stem @ ''.json'' = temp_name stem' uuid"
  then have "last (stem @ ''.json'') = last (temp_name stem' uuid)" by simp
  then show False by (simp add: temp_name_def)
qed

lemma temp_not_json [simp]: "\<not> ends_with ''.json'' (temp_name stem uuid)"
proof
  assume "ends_with ''.json'' (temp_name stem uuid)"
  then obtain r where "temp_name stem uuid = r @ ''.json''" by (auto simp: ends_with_iff)
  with json_not_tmp [of r stem uuid] show False by simp
qed

lemma json_extension_iff: "json_extension name \<longleftrightarrow> (\<exists>stem. stem \<noteq> [] \<and> name = stem @ ''.json'')"
proof (cases "strip_suffix ''.json'' name")
  case None
  then have "name \<noteq> stem @ ''.json''" for stem
    by (metis option.distinct(1) strip_suffix_Some_iff)
  with None show ?thesis by (simp add: json_extension_def)
next
  case (Some r)
  then have "name = stem @ ''.json'' \<longleftrightarrow> stem = r" for stem
    by (metis option.inject strip_suffix_Some_iff)
  with Some show ?thesis by (simp add: json_extension_def)
qed

lemma map_of_write_json:
  "map_of (write_json_file uuid stem x d) =
     (map_of d)(temp_name stem uuid := None, stem @ ''.json'' \<mapsto> Json x)"
  by (simp add: write_json_file_def write_json_states_def rename_file_def Let_def
      AList.update_conv' AList.delete_conv')

lemma distinct_write_json:
  "distinct (map fst d) \<Longrightarrow> distinct (map fst (write_json_file uuid stem x d))"
  by (auto simp: write_json_file_def write_json_states_def rename_file_def Let_def
      AList.update_conv' intro!: AList.distinct_update AList.distinct_delete)


lemma distinct_json_names: "distinct (map fst d) \<Longrightarrow> distinct (json_names d)"
  by (simp add: json_names_def)

lemma write_json_state_cases:
  assumes "d' \<in> set (write_json_states uuid stem x d)"
  obtains "d' = write_json_file uuid stem x d"
  | "\<And>name. ends_with ''.json'' name \<Longrightarrow> map_of d' name = map_of d name"
    "distinct (map fst d) \<Longrightarrow> distinct (map fst d')"
proof -
  have "d' = d \<or> d' = AList.update (temp_name stem uuid) Malformed d \<or>
      d' = AList.update (temp_name stem uuid) (Json x) d \<or> d' = write_json_file uuid stem x d"
    using assms by (auto simp: write_json_file_def write_json_states_def Let_def)
  moreover have "map_of (AList.update (temp_name stem uuid) f d) name = map_of d name"
    if "ends_with ''.json'' name" for f name
    using that by (auto simp: AList.update_conv')
  moreover have "distinct (map fst (AList.update (temp_name stem uuid) f d))" if "distinct (map fst d)" for f
    using that by (rule AList.distinct_update)
  ultimately show thesis using that by metis
qed

section \<open>Facts about accesses\<close>

lemma store_read_eq:
  "store_read env g w = (case e_disk env (w_calls w) of Works \<Rightarrow> g (e_others env (w_calls w) (w_store w))
      | Fails k e \<Rightarrow> bail e,
     w\<lparr>w_store := e_others env (w_calls w) (w_store w), w_calls := Suc (w_calls w)\<rparr>)"
  by (simp add: store_read_def store_access_def Let_def)

lemma fresh_uuid_eq:
  "fresh_uuid env w = (Inr (e_uuid env (w_calls w)), w\<lparr>w_calls := Suc (w_calls w)\<rparr>)"
  by (simp add: fresh_uuid_def)

lemma store_read_Inr:
  "store_read env g w = (Inr x, w') \<Longrightarrow>
     g (e_others env (w_calls w) (w_store w)) = Inr x \<and>
     w' = w\<lparr>w_store := e_others env (w_calls w) (w_store w), w_calls := Suc (w_calls w)\<rparr>"
  by (auto simp: store_read_eq split: disk.splits)

lemma disk_commit_cases:
  assumes "disk_commit d states = (r, s)" and "states \<noteq> []"
  obtains "r = Inr ()" "s = last states"
  | k e where "d = Fails k e" "r = Inl (Error e)" "s \<in> set states"
proof (cases d)
  case Works
  then show thesis using assms(1) that(1) by (simp add: disk_commit_def)
next
  case (Fails k e)
  have "states ! min k (length states - 1) \<in> set states" using assms(2) by (intro nth_mem) (cases states, auto)
  then show thesis using assms(1) that(2) Fails by (simp add: disk_commit_def)
qed

lemma store_write_cases:
  assumes "store_write env states w = (r, w')"
    and "\<And>u s. states u s \<noteq> []"
  obtains s where "r = Inr ()"
      "s = last (states (e_uuid env (w_calls w)) (e_others env (w_calls w) (w_store w)))"
      "w' = w\<lparr>w_store := s, w_calls := Suc (w_calls w)\<rparr>"
  | s k e where "e_disk env (w_calls w) = Fails k e" "r = Inl (Error e)"
      "s \<in> set (states (e_uuid env (w_calls w)) (e_others env (w_calls w) (w_store w)))"
      "w' = w\<lparr>w_store := s, w_calls := Suc (w_calls w)\<rparr>"
proof -
  obtain s where c: "disk_commit (e_disk env (w_calls w))
      (states (e_uuid env (w_calls w)) (e_others env (w_calls w) (w_store w))) = (r, s)"
    and w': "w' = w\<lparr>w_store := s, w_calls := Suc (w_calls w)\<rparr>"
    using assms(1) by (auto simp: store_write_def store_access_def Let_def split: prod.splits)
  from c assms(2) show thesis by (rule disk_commit_cases) (use that w' in blast)+
qed

text \<open>The store as the other processes alone can bring it about.\<close>

inductive others_reach :: "'e store_env_scheme \<Rightarrow> scheduler_store \<Rightarrow> scheduler_store \<Rightarrow> bool"
  for env :: "'e store_env_scheme" and s0 :: scheduler_store where
  reach_refl: "others_reach env s0 s0"
| reach_step: "others_reach env s0 s \<Longrightarrow> others_reach env s0 (e_others env n s)"

text \<open>Nobody else writes to the store; and every access works as well.\<close>

definition undisturbed :: "'e store_env_scheme \<Rightarrow> bool" where
  "undisturbed env \<longleftrightarrow> (\<forall>n s. e_others env n s = s)"

definition calm :: "'e store_env_scheme \<Rightarrow> bool" where
  "calm env \<longleftrightarrow> undisturbed env \<and> (\<forall>n. e_disk env n = Works)"

lemma undisturbed_reach: "others_reach env s0 s \<Longrightarrow> undisturbed env \<Longrightarrow> s = s0"
  by (induction rule: others_reach.induct) (simp_all add: undisturbed_def)

section \<open>The task table\<close>

text \<open>Every file with a JSON extension holds a record of a known version under its own name.\<close>

definition store_wf :: "scheduler_store \<Rightarrow> bool" where
  "store_wf s \<longleftrightarrow> distinct (map fst (ss_tasks s)) \<and>
     (\<forall>(name, fl) \<in> set (ss_tasks s). ends_with ''.json'' name \<longrightarrow>
        (\<exists>t. fl = Json t \<and> st_id t \<noteq> [] \<and> name = task_path (st_id t) \<and> st_schema_version t \<le> 2))"

text \<open>The abstract view: the decoded (migrated) task under each identifier.\<close>

definition task_view :: "scheduler_store \<Rightarrow> string \<Rightarrow> task option" where
  "task_view s k = (case task_entry k s of Inr r \<Rightarrow> r | Inl _ \<Rightarrow> None)"

definition migrated :: "task \<Rightarrow> task" where
  "migrated t = t\<lparr>st_schema_version := 2,
     st_anchor_ms := (if st_schema_version t < 2 then st_created_at_ms t else st_anchor_ms t)\<rparr>"

lemma migrate_known: "st_schema_version t \<le> 2 \<Longrightarrow> migrate_scheduled_task t = Inr (migrated t)"
  using migrate_facts [of t] by (auto simp: migrated_def is_ok_def split: sum.splits)

lemma migrated_sel [simp]: "st_id (migrated t) = st_id t" "st_schema_version (migrated t) = 2"
  by (simp_all add: migrated_def)

lemma migrated_current: "st_schema_version t = 2 \<Longrightarrow> migrated t = t"
  by (simp add: migrated_def)

lemma task_path_inj [simp]: "task_path a = task_path b \<longleftrightarrow> a = b"
  by (simp add: task_path_def)

lemma ends_with_task_path [simp]: "ends_with ''.json'' (task_path k)"
  by (auto simp: ends_with_iff task_path_def)

lemma task_entry_wf:
  assumes "store_wf s"
  shows "task_entry k s = Inr (task_view s k)"
    and "task_view s k = Some t \<longleftrightarrow>
      (\<exists>t0. map_of (ss_tasks s) (task_path k) = Some (Json t0) \<and> st_id t0 = k \<and> k \<noteq> [] \<and>
         st_schema_version t0 \<le> 2 \<and> t = migrated t0)"
proof -
  have entries: "\<exists>t0. fl = Json t0 \<and> st_id t0 = k \<and> k \<noteq> [] \<and> st_schema_version t0 \<le> 2"
    if "map_of (ss_tasks s) (task_path k) = Some fl" for fl
    using assms map_of_SomeD [OF that] by (fastforce simp: store_wf_def)
  show "task_entry k s = Inr (task_view s k)"
    using entries by (cases "map_of (ss_tasks s) (task_path k)")
      (force simp: task_entry_def task_view_def decode_task_def decode_json_def migrate_known)+
  show "task_view s k = Some t \<longleftrightarrow>
      (\<exists>t0. map_of (ss_tasks s) (task_path k) = Some (Json t0) \<and> st_id t0 = k \<and> k \<noteq> [] \<and>
         st_schema_version t0 \<le> 2 \<and> t = migrated t0)"
    using entries by (cases "map_of (ss_tasks s) (task_path k)")
      (force simp: task_entry_def task_view_def decode_task_def decode_json_def migrate_known)+
qed

lemma task_view_id: "store_wf s \<Longrightarrow> task_view s k = Some t \<Longrightarrow> st_id t = k \<and> k \<noteq> [] \<and> st_schema_version t = 2"
  by (auto simp: task_entry_wf)

lemma same_json_files:
  assumes "store_wf s" and "distinct (map fst d)"
    and "\<And>name. ends_with ''.json'' name \<Longrightarrow> map_of d name = map_of (ss_tasks s) name"
  shows "store_wf (s\<lparr>ss_tasks := d\<rparr>) \<and> task_view (s\<lparr>ss_tasks := d\<rparr>) = task_view s"
proof -
  have "(name, fl) \<in> set (ss_tasks s)" if "(name, fl) \<in> set d" "ends_with ''.json'' name" for name fl
    using map_of_is_SomeI [OF assms(2) that(1)] unfolding assms(3) [OF that(2)] by (rule map_of_SomeD)
  then have "store_wf (s\<lparr>ss_tasks := d\<rparr>)"
    using assms(1,2) by (fastforce simp: store_wf_def)
  moreover have "task_view (s\<lparr>ss_tasks := d\<rparr>) = task_view s"
    by (rule ext) (simp add: task_view_def task_entry_def assms(3))
  ultimately show ?thesis by blast
qed

lemma written_task:
  assumes "store_wf s" and "st_id t \<noteq> []" and "st_schema_version t = 2"
  shows "store_wf (s\<lparr>ss_tasks := write_json_file uuid (st_id t) t (ss_tasks s)\<rparr>)"
    and "task_view (s\<lparr>ss_tasks := write_json_file uuid (st_id t) t (ss_tasks s)\<rparr>) =
      (task_view s)(st_id t \<mapsto> t)"
proof -
  let ?d = "write_json_file uuid (st_id t) t (ss_tasks s)"
  have dist: "distinct (map fst ?d)" and dist0: "distinct (map fst (ss_tasks s))"
    using assms(1) by (simp_all add: store_wf_def distinct_write_json)
  have entry: "\<exists>t. fl = Json t \<and> st_id t \<noteq> [] \<and> name = task_path (st_id t) \<and> st_schema_version t \<le> 2"
    if "(name, fl) \<in> set ?d" and "ends_with ''.json'' name" for name fl
  proof -
    have "map_of ?d name = Some fl" using that(1) dist by simp
    then have "name = task_path (st_id t) \<and> fl = Json t \<or> map_of (ss_tasks s) name = Some fl"
      by (auto simp: map_of_write_json task_path_def split: if_splits)
    then show ?thesis
      using assms that(2) dist0 by (fastforce simp: store_wf_def)
  qed
  show "store_wf (s\<lparr>ss_tasks := ?d\<rparr>)"
    using dist entry by (auto simp: store_wf_def)
  have "task_view (s\<lparr>ss_tasks := ?d\<rparr>) k = ((task_view s)(st_id t \<mapsto> t)) k" for k
  proof -
    have "map_of ?d (task_path k) =
        (if k = st_id t then Some (Json t) else map_of (ss_tasks s) (task_path k))"
      using json_not_tmp [of k "st_id t" uuid]
      by (auto simp: map_of_write_json task_path_def)
    then show ?thesis
      using assms(3) by (simp add: task_view_def task_entry_def decode_task_def
          decode_json_def migrate_known migrated_current)
  qed
  then show "task_view (s\<lparr>ss_tasks := ?d\<rparr>) = (task_view s)(st_id t \<mapsto> t)" by (rule ext)
qed

text \<open>Writing a task: whatever happens the table stays well-formed and the task is as before or as
  written; when the write works it is as written.\<close>

lemma put_task_run:
  assumes put: "put_task env t w = (r, w')" and wf: "store_wf (e_others env (w_calls w) (w_store w))"
    and t: "st_id t \<noteq> []" "st_schema_version t = 2"
  shows "store_wf (w_store w')"
    and "task_view (w_store w') = (task_view (e_others env (w_calls w) (w_store w)))(st_id t \<mapsto> t) \<or>
      (\<exists>e. r = Inl e) \<and> task_view (w_store w') = task_view (e_others env (w_calls w) (w_store w))"
proof -
  let ?s = "e_others env (w_calls w) (w_store w)"
  let ?view = "(task_view ?s)(st_id t \<mapsto> t)"
  have dist: "distinct (map fst (ss_tasks ?s))" using wf by (simp add: store_wf_def)
  from put have "store_wf (w_store w') \<and> (task_view (w_store w') = ?view \<or>
      (\<exists>e. r = Inl e) \<and> task_view (w_store w') = task_view ?s)"
    unfolding put_task_def
  proof (rule store_write_cases)
    fix s
    assume "s = last (map (\<lambda>d. ?s\<lparr>ss_tasks := d\<rparr>)
        (write_json_states (e_uuid env (w_calls w)) (st_id t) t (ss_tasks ?s)))"
      and w': "w' = w\<lparr>w_store := s, w_calls := Suc (w_calls w)\<rparr>"
    then have "s = ?s\<lparr>ss_tasks := write_json_file (e_uuid env (w_calls w)) (st_id t) t (ss_tasks ?s)\<rparr>"
      by (simp add: write_json_file_def write_json_states_def Let_def)
    then show ?thesis using written_task [OF wf t] w' by simp
  next
    fix s k e
    assume r: "r = Inl (Error e)" and w': "w' = w\<lparr>w_store := s, w_calls := Suc (w_calls w)\<rparr>"
      and "s \<in> set (map (\<lambda>d. ?s\<lparr>ss_tasks := d\<rparr>)
        (write_json_states (e_uuid env (w_calls w)) (st_id t) t (ss_tasks ?s)))"
    then obtain d where s: "s = ?s\<lparr>ss_tasks := d\<rparr>"
      and d: "d \<in> set (write_json_states (e_uuid env (w_calls w)) (st_id t) t (ss_tasks ?s))" by auto
    from d show ?thesis
    proof (rule write_json_state_cases)
      assume "d = write_json_file (e_uuid env (w_calls w)) (st_id t) t (ss_tasks ?s)"
      then show ?thesis using written_task [OF wf t] w' s by simp
    next
      assume "\<And>name. ends_with ''.json'' name \<Longrightarrow> map_of d name = map_of (ss_tasks ?s) name"
        and "distinct (map fst (ss_tasks ?s)) \<Longrightarrow> distinct (map fst d)"
      then show ?thesis using same_json_files [OF wf, of d] dist w' s r by simp
    qed
  qed (simp add: write_json_states_def Let_def)
  then show "store_wf (w_store w')" and "task_view (w_store w') = ?view \<or>
      (\<exists>e. r = Inl e) \<and> task_view (w_store w') = task_view ?s" by blast+
qed

text \<open>A JSON file of a well-formed table decodes to the task its name stands for.\<close>

lemma read_entry_wf:
  assumes "store_wf s" and "json_extension name"
    and "and_then (read_file name (ss_tasks s)) decode_task = Inr t"
  shows "name = task_path (st_id t) \<and> task_view s (st_id t) = Some t"
proof -
  obtain fl where fl: "map_of (ss_tasks s) name = Some fl" "decode_task fl = Inr t"
    using assms(3) by (auto simp: read_file_def result_simps)
  have "ends_with ''.json'' name" using assms(2) by (auto simp: json_extension_iff ends_with_iff)
  then obtain t0 where t0: "fl = Json t0" "st_id t0 \<noteq> []" "name = task_path (st_id t0)" "st_schema_version t0 \<le> 2"
    using assms(1) map_of_SomeD [OF fl(1)] by (fastforce simp: store_wf_def)
  then have "t = migrated t0" using fl(2) by (simp add: decode_task_def decode_json_def migrate_known)
  then show ?thesis using task_entry_wf(2) [OF assms(1)] fl(1) t0 by auto
qed

lemma read_tasks_reach:
  assumes "read_tasks env names w = (Inr ts, w')" and "others_reach env s0 (w_store w)"
    and "\<And>s. others_reach env s0 s \<Longrightarrow> store_wf s" and "\<forall>name \<in> set names. json_extension name"
  shows "others_reach env s0 (w_store w') \<and> names = map (task_path \<circ> st_id) ts \<and>
    (\<forall>t \<in> set ts. \<exists>s. others_reach env s0 s \<and> task_view s (st_id t) = Some t)"
  using assms(1,2,4)
proof (induction names arbitrary: w ts)
  case Nil
  then show ?case by (simp add: io_return_def)
next
  case (Cons name names)
  let ?s = "e_others env (w_calls w) (w_store w)"
  obtain t w1 us where read: "store_read env (\<lambda>s. and_then (read_file name (ss_tasks s)) decode_task) w = (Inr t, w1)"
    and rest: "read_tasks env names w1 = (Inr us, w')" and ts: "ts = t # us"
    using Cons.prems(1) by (auto simp: io_bind_Inr_iff io_return_def)
  have reach: "others_reach env s0 ?s" using Cons.prems(2) by (rule reach_step)
  have w1: "and_then (read_file name (ss_tasks ?s)) decode_task = Inr t" "w_store w1 = ?s"
    using store_read_Inr [OF read] by auto
  have "name = task_path (st_id t) \<and> task_view ?s (st_id t) = Some t"
    using read_entry_wf [OF assms(3) [OF reach] _ w1(1)] Cons.prems(3) by simp
  moreover have "others_reach env s0 (w_store w') \<and> names = map (task_path \<circ> st_id) us \<and>
      (\<forall>t \<in> set us. \<exists>s. others_reach env s0 s \<and> task_view s (st_id t) = Some t)"
    using Cons.IH [OF rest] reach w1(2) Cons.prems(3) by simp
  ultimately show ?case using ts reach by auto
qed

text \<open>Listing while others write: each task listed was stored at some moment of the listing, and no
  identifier is listed twice.\<close>

lemma list_tasks_reach:
  assumes "list_tasks env w = (Inr ts, w')" and "\<And>s. others_reach env (w_store w) s \<Longrightarrow> store_wf s"
  shows "others_reach env (w_store w) (w_store w') \<and> distinct (map st_id ts) \<and>
    (\<forall>t \<in> set ts. \<exists>s. others_reach env (w_store w) s \<and> task_view s (st_id t) = Some t)"
proof -
  let ?s = "e_others env (w_calls w) (w_store w)"
  let ?w = "w\<lparr>w_store := ?s, w_calls := Suc (w_calls w)\<rparr>"
  obtain us where read: "read_tasks env (json_names (ss_tasks ?s)) ?w = (Inr us, w')"
    and ts: "ts = sort_key (\<lambda>t. (st_name t, st_id t)) us"
    using assms(1) by (auto simp: list_tasks_def io_bind_Inr_iff io_return_def dest!: store_read_Inr)
  have reach: "others_reach env (w_store w) ?s" by (intro reach_step reach_refl)
  have "\<forall>name \<in> set (json_names (ss_tasks ?s)). json_extension name" by (simp add: json_names_def)
  note r = read_tasks_reach [OF read _ assms(2) this] reach
  have "distinct (json_names (ss_tasks ?s))"
    using assms(2) [OF reach] by (simp add: store_wf_def distinct_json_names)
  then have "distinct (map st_id us)"
    using r by (auto simp: distinct_map comp_def inj_on_def)
  then show ?thesis using r unfolding ts by (simp add: distinct_map)
qed

lemma due_tasks_reach:
  assumes "due_tasks env now w = (Inr due, w')" and "\<And>s. others_reach env (w_store w) s \<Longrightarrow> store_wf s"
  shows "others_reach env (w_store w) (w_store w') \<and> distinct (map st_id due) \<and>
    (\<forall>t \<in> set due. is_due t now \<and> (\<exists>s. others_reach env (w_store w) s \<and> task_view s (st_id t) = Some t))"
  using assms(1) list_tasks_reach [OF _ assms(2)]
  by (fastforce simp: due_tasks_def io_bind_Inr_iff io_return_def distinct_map_filter)

text \<open>On a calm store listing returns the table.\<close>

lemma read_tasks_calm:
  assumes "calm env" and "store_wf (w_store w)"
    and "\<forall>name \<in> set names. json_extension name \<and> map_of (ss_tasks (w_store w)) name \<noteq> None"
  shows "\<exists>ts w'. read_tasks env names w = (Inr ts, w') \<and> w_store w' = w_store w"
  using assms(2,3)
proof (induction names arbitrary: w)
  case Nil
  then show ?case by (simp add: io_return_def)
next
  case (Cons name names)
  obtain fl where fl: "map_of (ss_tasks (w_store w)) name = Some fl" using Cons.prems(2) by auto
  have "ends_with ''.json'' name" using Cons.prems(2) by (auto simp: json_extension_iff ends_with_iff)
  then obtain t0 where "fl = Json t0" "st_schema_version t0 \<le> 2"
    using Cons.prems(1) map_of_SomeD [OF fl] by (fastforce simp: store_wf_def)
  then have read: "store_read env (\<lambda>s. and_then (read_file name (ss_tasks s)) decode_task) w =
      (Inr (migrated t0), w\<lparr>w_calls := Suc (w_calls w)\<rparr>)"
    using assms(1) fl by (simp add: store_read_eq calm_def undisturbed_def read_file_def decode_task_def
        decode_json_def migrate_known)
  obtain ts w' where "read_tasks env names (w\<lparr>w_calls := Suc (w_calls w)\<rparr>) = (Inr ts, w')" "w_store w' = w_store w"
    using Cons.IH [of "w\<lparr>w_calls := Suc (w_calls w)\<rparr>"] Cons.prems by auto
  then show ?case using read by (simp add: io_bind_def io_return_def)
qed

lemma list_tasks_calm:
  assumes calm: "calm env" and wf: "store_wf (w_store w)"
  shows "\<exists>ts w'. list_tasks env w = (Inr ts, w') \<and> w_store w' = w_store w \<and>
    sorted (map (\<lambda>t. (st_name t, st_id t)) ts) \<and> distinct (map st_id ts) \<and>
    (\<forall>t. t \<in> set ts \<longleftrightarrow> task_view (w_store w) (st_id t) = Some t)"
proof -
  let ?names = "json_names (ss_tasks (w_store w))"
  let ?w = "w\<lparr>w_calls := Suc (w_calls w)\<rparr>"
  have quiet: "e_others env n s = s" "e_disk env n = Works" for n s
    using calm by (simp_all add: calm_def undisturbed_def)
  have names: "\<forall>name \<in> set ?names. json_extension name \<and> map_of (ss_tasks (w_store w)) name \<noteq> None"
    by (auto simp: json_names_def map_of_eq_None_iff image_iff)
  obtain us w' where read: "read_tasks env ?names ?w = (Inr us, w')" "w_store w' = w_store w"
    using read_tasks_calm [OF calm, of ?w ?names] wf names by auto
  then have list: "list_tasks env w = (Inr (sort_key (\<lambda>t. (st_name t, st_id t)) us), w')" (is "_ = (Inr ?ts, w')")
    by (simp add: list_tasks_def io_bind_def store_read_eq quiet io_return_def)
  have reach: "others_reach env (w_store w) s \<Longrightarrow> s = w_store w" for s
    using undisturbed_reach calm by (auto simp: calm_def)
  then have wfs: "others_reach env (w_store w) s \<Longrightarrow> store_wf s" for s using wf by metis
  have r: "?names = map (task_path \<circ> st_id) us"
    using read_tasks_reach [OF read(1) _ wfs] names reach_refl [of env "w_store w"] by simp
  note l = list_tasks_reach [OF list wfs]
  have stored: "task_view (w_store w) (st_id t) = Some t" if "t \<in> set ?ts" for t
    using l that reach by metis
  have "t \<in> set ?ts" if view: "task_view (w_store w) (st_id t) = Some t" for t
  proof -
    obtain fl where fl: "map_of (ss_tasks (w_store w)) (task_path (st_id t)) = Some fl" "st_id t \<noteq> []"
      using view task_entry_wf(2) [OF wf] by blast
    then have "task_path (st_id t) \<in> set ?names"
      using map_of_SomeD [OF fl(1)] by (force simp: json_names_def json_extension_iff task_path_def)
    then obtain t' where t': "t' \<in> set us" "st_id t' = st_id t" unfolding r by auto
    then have "task_view (w_store w) (st_id t) = Some t'" using stored [of t'] by simp
    then show ?thesis using t'(1) view by simp
  qed
  then show ?thesis using list read(2) stored l by (intro exI [of _ ?ts] exI [of _ w'] conjI) auto
qed

section \<open>Claiming\<close>

lemma claim_task_sel [simp]:
  "st_id (claim_task u now l t) = st_id t" "st_schema_version (claim_task u now l t) = st_schema_version t"
  "st_next_run_at_ms (claim_task u now l t) = st_next_run_at_ms t"
  by (simp_all add: claim_task_def)

lemma claimed_not_due:
  "now' < saturating_add now l \<Longrightarrow> \<not> is_due (claim_task u now l t) now'"
  by (auto simp: is_due_def claim_task_def not_le)

definition due_at :: "u64 \<Rightarrow> string \<Rightarrow> scheduler_store \<Rightarrow> bool" where
  "due_at now k s \<longleftrightarrow> (case task_view s k of None \<Rightarrow> False | Some t \<Rightarrow> is_due t now)"

text \<open>What the other processes are relied on for: they keep the table well-formed and make none of the
  tasks \<open>K\<close> due at \<open>now\<close> that is not due already.\<close>

definition spares :: "string set \<Rightarrow> u64 \<Rightarrow> 'e store_env_scheme \<Rightarrow> bool" where
  "spares K now env \<longleftrightarrow> (\<forall>n s. store_wf s \<longrightarrow> store_wf (e_others env n s) \<and>
     (\<forall>k \<in> K. due_at now k (e_others env n s) \<longrightarrow> due_at now k s))"

lemma spares_wf: "spares K now env \<Longrightarrow> store_wf s \<Longrightarrow> store_wf (e_others env n s)"
  by (simp add: spares_def)

lemma spares_reach:
  assumes "others_reach env s0 s" and "spares K now env" and "store_wf s0"
  shows "store_wf s \<and> (\<forall>k \<in> K. due_at now k s \<longrightarrow> due_at now k s0)"
  using assms(1)
proof (induction rule: others_reach.induct)
  case reach_refl
  then show ?case using assms(3) by simp
next
  case (reach_step s n)
  then have "store_wf (e_others env n s) \<and> (\<forall>k \<in> K. due_at now k (e_others env n s) \<longrightarrow> due_at now k s)"
    using assms(2) unfolding spares_def by blast
  then show ?case using reach_step.IH by blast
qed

text \<open>One turn of the loop.\<close>

lemma claim_loop_Cons:
  assumes "claim_loop env now l (t # ts) w = (Inr claimed, w')"
  obtains u rest w1 where "put_task env (claim_task u now l t) (w\<lparr>w_calls := Suc (w_calls w)\<rparr>) = (Inr (), w1)"
    "claim_loop env now l ts w1 = (Inr rest, w')" "claimed = claim_task u now l t # rest"
  using assms by (auto simp: io_bind_Inr_iff fresh_uuid_eq io_return_def Let_def)

lemma claim_put:
  assumes "put_task env (claim_task u now l t) (w\<lparr>w_calls := n\<rparr>) = (Inr (), w1)"
    and "store_wf (e_others env n (w_store w))" and "st_id t \<noteq> []" "st_schema_version t = 2"
  shows "store_wf (w_store w1)"
    and "task_view (w_store w1) = (task_view (e_others env n (w_store w)))(st_id t \<mapsto> claim_task u now l t)"
  using put_task_run [OF assms(1)] assms(2-4) by auto

lemma claim_loop_outcome:
  assumes "claim_loop env now l ts w = (Inr claimed, w')" and "store_wf (w_store w)"
    and "spares K now' env" and "now' < saturating_add now l"
    and "\<forall>t \<in> set ts. st_id t \<noteq> [] \<and> st_schema_version t = 2"
  shows "store_wf (w_store w') \<and> list_all2 (\<lambda>t t'. \<exists>u. t' = claim_task u now l t) ts claimed \<and>
    (\<forall>k \<in> K. k \<in> st_id ` set ts \<or> \<not> due_at now' k (w_store w) \<longrightarrow> \<not> due_at now' k (w_store w'))"
  using assms(1,2,5)
proof (induction ts arbitrary: w claimed)
  case Nil
  then show ?case by (simp add: io_return_def)
next
  case (Cons t ts)
  let ?s = "e_others env (Suc (w_calls w)) (w_store w)"
  obtain u rest w1 where put: "put_task env (claim_task u now l t) (w\<lparr>w_calls := Suc (w_calls w)\<rparr>) = (Inr (), w1)"
    and loop: "claim_loop env now l ts w1 = (Inr rest, w')" and claimed: "claimed = claim_task u now l t # rest"
    using claim_loop_Cons [OF Cons.prems(1)] .
  have wf: "store_wf ?s" using spares_wf [OF assms(3) Cons.prems(2)] .
  have t: "st_id t \<noteq> []" "st_schema_version t = 2" using Cons.prems(3) by auto
  note w1 = claim_put [OF put wf t]
  have IH: "store_wf (w_store w')" "list_all2 (\<lambda>t t'. \<exists>u. t' = claim_task u now l t) ts rest"
      "\<And>k. k \<in> K \<Longrightarrow> k \<in> st_id ` set ts \<or> \<not> due_at now' k (w_store w1) \<Longrightarrow> \<not> due_at now' k (w_store w')"
    using Cons.IH [OF loop w1(1)] Cons.prems(3) by auto
  have "\<not> due_at now' k (w_store w1)" if "k \<in> K" "k = st_id t \<or> \<not> due_at now' k (w_store w)" for k
  proof (cases "k = st_id t")
    case True
    then show ?thesis using claimed_not_due [OF assms(4)] by (simp add: due_at_def w1(2))
  next
    case False
    then have "\<not> due_at now' k ?s"
      using that assms(3) Cons.prems(2) by (auto simp: spares_def)
    then show ?thesis using False by (simp add: due_at_def w1(2))
  qed
  then show ?case using IH claimed by auto
qed

text \<open>Alone, the loop stores exactly the leases it returns.\<close>

lemma claim_loop_alone:
  assumes "claim_loop env now l ts w = (Inr claimed, w')" and "store_wf (w_store w)"
    and "undisturbed env" and "distinct (map st_id ts)"
    and "\<forall>t \<in> set ts. st_id t \<noteq> [] \<and> st_schema_version t = 2"
  shows "store_wf (w_store w') \<and> (\<forall>t' \<in> set claimed. task_view (w_store w') (st_id t') = Some t') \<and>
    (\<forall>k. k \<notin> st_id ` set ts \<longrightarrow> task_view (w_store w') k = task_view (w_store w) k)"
  using assms(1,2,4,5)
proof (induction ts arbitrary: w claimed)
  case Nil
  then show ?case by (simp add: io_return_def)
next
  case (Cons t ts)
  obtain u rest w1 where put: "put_task env (claim_task u now l t) (w\<lparr>w_calls := Suc (w_calls w)\<rparr>) = (Inr (), w1)"
    and loop: "claim_loop env now l ts w1 = (Inr rest, w')" and claimed: "claimed = claim_task u now l t # rest"
    using claim_loop_Cons [OF Cons.prems(1)] .
  have quiet: "e_others env n s = s" for n s using assms(3) by (simp add: undisturbed_def)
  have t: "st_id t \<noteq> []" "st_schema_version t = 2" using Cons.prems(4) by auto
  note w1 = claim_put [OF put _ t, unfolded quiet, OF Cons.prems(2)]
  have IH: "store_wf (w_store w')" "\<forall>t' \<in> set rest. task_view (w_store w') (st_id t') = Some t'"
      "\<And>k. k \<notin> st_id ` set ts \<Longrightarrow> task_view (w_store w') k = task_view (w_store w1) k"
    using Cons.IH [OF loop w1(1)] Cons.prems(3,4) by auto
  have "task_view (w_store w') (st_id t) = Some (claim_task u now l t)"
    using IH(3) [of "st_id t"] Cons.prems(3) w1(2) by auto
  with IH w1(2) claimed show ?case by auto
qed

text \<open>A claim is a listing followed by the loop over the tasks picked.\<close>

lemma claim_due_tasks_split:
  assumes claim: "claim_due_tasks env now limit l w = (Inr claimed, w')"
    and wfs: "\<And>s. others_reach env (w_store w) s \<Longrightarrow> store_wf s"
  obtains pick w1 where "claim_loop env now l pick w1 = (Inr claimed, w')"
    "others_reach env (w_store w) (w_store w1)" "length pick \<le> limit"
    "sorted (map st_next_run_at_ms pick)" "distinct (map st_id pick)"
    "\<forall>t \<in> set pick. is_due t now \<and> st_id t \<noteq> [] \<and> st_schema_version t = 2 \<and>
       (\<exists>s. others_reach env (w_store w) s \<and> task_view s (st_id t) = Some t)"
proof -
  obtain due w1 where due: "due_tasks env now w = (Inr due, w1)"
    and loop: "claim_loop env now l (take limit (sort_key st_next_run_at_ms due)) w1 = (Inr claimed, w')"
    using claim by (auto simp: claim_due_tasks_def io_bind_Inr_iff)
  let ?pick = "take limit (sort_key st_next_run_at_ms due)"
  note d = due_tasks_reach [OF due wfs]
  have "distinct (map st_id (sort_key st_next_run_at_ms due))" using d by (simp add: distinct_map)
  then have "distinct (map st_id ?pick)" unfolding take_map [symmetric] by (rule distinct_take)
  moreover have "sorted (map st_next_run_at_ms ?pick)"
    unfolding take_map [symmetric] by (intro sorted_wrt_take sorted_sort_key)
  moreover have "is_due t now \<and> st_id t \<noteq> [] \<and> st_schema_version t = 2 \<and>
      (\<exists>s. others_reach env (w_store w) s \<and> task_view s (st_id t) = Some t)" if "t \<in> set ?pick" for t
  proof -
    have "t \<in> set due" using in_set_takeD [OF that] by simp
    then show ?thesis using d task_view_id wfs by blast
  qed
  ultimately show thesis using that [OF loop] d by auto
qed

lemma claimed_from_pick:
  assumes "list_all2 (\<lambda>t t'. \<exists>u. t' = claim_task u now l t) pick claimed"
  shows "map st_id claimed = map st_id pick \<and> map st_next_run_at_ms claimed = map st_next_run_at_ms pick \<and>
    length claimed = length pick"
  using assms by (induction rule: list_all2_induct) auto

lemma claim_due_tasks_outcome:
  assumes claim: "claim_due_tasks env now limit l w = (Inr claimed, w')" and wf: "store_wf (w_store w)"
    and K: "spares K now' env" and now': "now' < saturating_add now l"
  shows "store_wf (w_store w') \<and> length claimed \<le> limit \<and> sorted (map st_next_run_at_ms claimed) \<and>
    distinct (map st_id claimed) \<and>
    (\<forall>t' \<in> set claimed. \<exists>s t u. others_reach env (w_store w) s \<and> task_view s (st_id t') = Some t \<and>
       is_due t now \<and> t' = claim_task u now l t) \<and>
    (\<forall>k \<in> K. k \<in> st_id ` set claimed \<longrightarrow> \<not> due_at now' k (w_store w'))"
proof -
  have wfs: "others_reach env (w_store w) s \<Longrightarrow> store_wf s" for s using spares_reach [OF _ K wf] by blast
  obtain pick w1 where loop: "claim_loop env now l pick w1 = (Inr claimed, w')"
    and w1: "others_reach env (w_store w) (w_store w1)" and len: "length pick \<le> limit"
    and srt: "sorted (map st_next_run_at_ms pick)" and dist: "distinct (map st_id pick)"
    and pick: "\<forall>t \<in> set pick. is_due t now \<and> st_id t \<noteq> [] \<and> st_schema_version t = 2 \<and>
       (\<exists>s. others_reach env (w_store w) s \<and> task_view s (st_id t) = Some t)"
    using claim_due_tasks_split [OF claim wfs] by metis
  have good: "\<forall>t \<in> set pick. st_id t \<noteq> [] \<and> st_schema_version t = 2" using pick by blast
  note out = claim_loop_outcome [OF loop wfs [OF w1] K now' good]
  then have rel: "list_all2 (\<lambda>t t'. \<exists>u. t' = claim_task u now l t) pick claimed" by blast
  note same = claimed_from_pick [OF rel]
  then have ids: "st_id ` set claimed = st_id ` set pick" by (metis set_map)
  have "\<exists>s t u. others_reach env (w_store w) s \<and> task_view s (st_id t') = Some t \<and>
      is_due t now \<and> t' = claim_task u now l t" if t': "t' \<in> set claimed" for t'
  proof -
    obtain t u where t: "t \<in> set pick" and u: "t' = claim_task u now l t"
      using list_all2_in_right [OF rel t'] by blast
    then obtain s where "others_reach env (w_store w) s" "task_view s (st_id t) = Some t" "is_due t now"
      using pick by blast
    then show ?thesis using u by (intro exI [of _ s] exI [of _ t] exI [of _ u]) simp
  qed
  then show ?thesis using out same len srt dist ids by simp
qed

lemma claimed_ids:
  "claim_loop env now l ts w = (Inr claimed, w') \<Longrightarrow> map st_id claimed = map st_id ts"
proof (induction ts arbitrary: w claimed)
  case Nil
  then show ?case by (simp add: io_return_def)
next
  case (Cons t ts)
  from Cons.prems obtain u rest w1 where "claim_loop env now l ts w1 = (Inr rest, w')"
      "claimed = claim_task u now l t # rest"
    by (rule claim_loop_Cons)
  with Cons.IH show ?case by simp
qed

text \<open>Alone, a claim changes exactly the claimed tasks, to the leases it returns.\<close>

lemma claim_due_tasks_alone:
  assumes claim: "claim_due_tasks env now limit l w = (Inr claimed, w')" and wf: "store_wf (w_store w)"
    and alone: "undisturbed env"
  shows "store_wf (w_store w') \<and> (\<forall>t' \<in> set claimed. task_view (w_store w') (st_id t') = Some t') \<and>
    (\<forall>k. k \<notin> st_id ` set claimed \<longrightarrow> task_view (w_store w') k = task_view (w_store w) k)"
proof -
  have same: "others_reach env (w_store w) s \<Longrightarrow> s = w_store w" for s using undisturbed_reach alone by blast
  then have wfs: "others_reach env (w_store w) s \<Longrightarrow> store_wf s" for s using wf by metis
  obtain pick w1 where loop: "claim_loop env now l pick w1 = (Inr claimed, w')"
    and w1: "others_reach env (w_store w) (w_store w1)" and dist: "distinct (map st_id pick)"
    and pick: "\<forall>t \<in> set pick. is_due t now \<and> st_id t \<noteq> [] \<and> st_schema_version t = 2 \<and>
       (\<exists>s. others_reach env (w_store w) s \<and> task_view s (st_id t) = Some t)"
    using claim_due_tasks_split [OF claim wfs] by metis
  have good: "\<forall>t \<in> set pick. st_id t \<noteq> [] \<and> st_schema_version t = 2" using pick by blast
  have ids: "st_id ` set claimed = st_id ` set pick"
    using loop claimed_ids [OF loop] by (metis set_map)
  show ?thesis
    using claim_loop_alone [OF loop wfs [OF w1] alone dist good] unfolding same [OF w1] ids .
qed

text \<open>the task table refines a finite map. On a well-formed store that no other process writes to,
  writing a task (current version, non-empty identifier) keeps the table well-formed and leaves every
  other task alone, whatever the file system answers; when the write works, exactly its own entry of the
  abstract view changes, and listing the table then returns the viewed tasks, sorted by name and
  identifier, each once.\<close>

theorem task_table_refines_map:
  assumes "store_wf (w_store w)" and "st_id t \<noteq> []" and "st_schema_version t = 2"
    and "undisturbed env" and "put_task env t w = (r, w')"
  shows "store_wf (w_store w') \<and> (\<forall>k. k \<noteq> st_id t \<longrightarrow> task_view (w_store w') k = task_view (w_store w) k) \<and>
     (r = Inr () \<longrightarrow> task_view (w_store w') = (task_view (w_store w))(st_id t \<mapsto> t)) \<and>
     (calm env \<longrightarrow> (\<exists>ts w''. list_tasks env w' = (Inr ts, w'') \<and>
        sorted (map (\<lambda>t. (st_name t, st_id t)) ts) \<and> distinct (map st_id ts) \<and>
        set ts = ran (task_view (w_store w'))))"
proof -
  have quiet: "e_others env n s = s" for n s using assms(4) by (simp add: undisturbed_def)
  have wf: "store_wf (w_store w')"
    and view: "task_view (w_store w') = (task_view (w_store w))(st_id t \<mapsto> t) \<or>
      (\<exists>e. r = Inl e) \<and> task_view (w_store w') = task_view (w_store w)"
    using put_task_run [OF assms(5) _ assms(2,3)] assms(1) unfolding quiet by blast+
  have "\<exists>ts w''. list_tasks env w' = (Inr ts, w'') \<and> sorted (map (\<lambda>t. (st_name t, st_id t)) ts) \<and>
      distinct (map st_id ts) \<and> set ts = ran (task_view (w_store w'))" if calm: "calm env"
  proof -
    obtain ts w'' where ts: "list_tasks env w' = (Inr ts, w'')" "sorted (map (\<lambda>t. (st_name t, st_id t)) ts)"
        "distinct (map st_id ts)" "\<forall>t. t \<in> set ts \<longleftrightarrow> task_view (w_store w') (st_id t) = Some t"
      using list_tasks_calm [OF calm wf] by blast
    have "set ts = ran (task_view (w_store w'))"
      using ts(4) task_view_id [OF wf] by (fastforce simp: ran_def)
    with ts show ?thesis by blast
  qed
  then show ?thesis using wf view by auto
qed

definition sample_store :: scheduler_store where
  "sample_store = \<lparr> ss_tasks = [(''t.json'', Json (sample_task ''@every 1s'' Once 1000))],
     ss_runs = [], ss_pending = [], ss_delivered = [] \<rparr>"

lemma sample_store_wf: "store_wf sample_store"
  by (simp add: store_wf_def sample_store_def sample_task_def task_path_def)

definition sample_store_env :: store_env where
  "sample_store_env = \<lparr> e_uuid = show_nat, e_disk = (\<lambda>_. Works), e_others = (\<lambda>_ s. s) \<rparr>"

definition sample_store_world :: store_world where
  "sample_store_world = \<lparr> w_store = sample_store, w_calls = 0 \<rparr>"

lemma sample_store_calm: "calm sample_store_env" "undisturbed sample_store_env"
  by (simp_all add: calm_def undisturbed_def sample_store_env_def)

text \<open>C18: a claim is exclusive until its lease runs out, against every claim that starts after it
  has ended. The store has no lock: the other processes may act before each file access of either claim
  and in between (what happens in between is part of what happens before the first access of the second
  claim). They are relied on only for this: they keep the table well-formed and make no task of the first
  claim due again. A claim that succeeds then returns at most the limit, each task once, in the order of
  their next run; each was stored and due at a moment of the reading; and a later claim whose time is
  before the expiry of the leases returns none of them. When no other process writes, the leases returned
  are what is stored and no other task has changed. Claims that overlap are not exclusive:
  \<open>racing_claims_both_win\<close> below.\<close>

theorem claim_is_exclusive_until_expiry:
  assumes "store_wf (w_store w)" and "claim_due_tasks env now limit l w = (Inr claimed, w1)"
    and "now' < saturating_add now l"
    and "w_store w2 = w_store w1" and "claim_due_tasks env' now' limit' l' w2 = (Inr claimed', w3)"
    and "spares (st_id ` set claimed) now' env" and "spares (st_id ` set claimed) now' env'"
  shows "length claimed \<le> limit \<and> sorted (map st_next_run_at_ms claimed) \<and> distinct (map st_id claimed) \<and>
     (\<forall>t' \<in> set claimed. \<exists>s t u. others_reach env (w_store w) s \<and> task_view s (st_id t') = Some t \<and>
        is_due t now \<and> t' = claim_task u now l t) \<and>
     (undisturbed env \<longrightarrow> (\<forall>t' \<in> set claimed. task_view (w_store w1) (st_id t') = Some t') \<and>
        (\<forall>k. k \<notin> st_id ` set claimed \<longrightarrow> task_view (w_store w1) k = task_view (w_store w) k)) \<and>
     st_id ` set claimed \<inter> st_id ` set claimed' = {}"
proof -
  note first = claim_due_tasks_outcome [OF assms(2,1,6,3)]
  then have wf: "store_wf (w_store w2)" and spent: "\<forall>k \<in> st_id ` set claimed. \<not> due_at now' k (w_store w2)"
    using assms(4) by simp_all
  have reach: "store_wf s \<and> (\<forall>k \<in> st_id ` set claimed. \<not> due_at now' k s)"
    if "others_reach env' (w_store w2) s" for s
    using spares_reach [OF that assms(7) wf] spent by blast
  have "k \<notin> st_id ` set claimed'" if k: "k \<in> st_id ` set claimed" for k
  proof
    assume k': "k \<in> st_id ` set claimed'"
    obtain pick w4 where loop: "claim_loop env' now' l' pick w4 = (Inr claimed', w3)"
      and pick: "\<forall>t \<in> set pick. is_due t now' \<and> st_id t \<noteq> [] \<and> st_schema_version t = 2 \<and>
         (\<exists>s. others_reach env' (w_store w2) s \<and> task_view s (st_id t) = Some t)"
      using claim_due_tasks_split [OF assms(5)] reach by metis
    have "k \<in> st_id ` set pick" using k' claimed_ids [OF loop] by (metis set_map)
    then obtain s where "others_reach env' (w_store w2) s" "due_at now' k s"
      using pick by (auto simp: due_at_def split: option.splits)
    then show False using reach k by blast
  qed
  then have "st_id ` set claimed \<inter> st_id ` set claimed' = {}" by blast
  then show ?thesis using first claim_due_tasks_alone [OF assms(2,1)] by blast
qed

lemma sample_due:
  assumes "\<And>n. e_disk env n = Works" and "w_store w = sample_store"
    and "\<And>n. n < w_calls w + 2 \<Longrightarrow> e_others env n sample_store = sample_store"
  shows "due_tasks env 1500 w =
    (Inr [sample_task ''@every 1s'' Once 1000], w\<lparr>w_calls := Suc (Suc (w_calls w))\<rparr>)"
proof -
  have names: "json_names (ss_tasks sample_store) = [''t.json'']"
    by (simp add: json_names_def sample_store_def json_extension_def strip_suffix_def)
  have contents: "and_then (read_file ''t.json'' (ss_tasks sample_store)) decode_task = Inr (sample_task ''@every 1s'' Once 1000)"
    by (simp add: read_file_def sample_store_def decode_task_def decode_json_def sample_task_def
        migrate_scheduled_task_def SCHEDULED_TASK_SCHEMA_VERSION_def)
  have same: "w\<lparr>w_store := sample_store\<rparr> = w" using assms(2) by simp
  show ?thesis
    by (simp add: due_tasks_def list_tasks_def io_bind_def store_read_eq assms names contents io_return_def same)
       (simp add: is_due_def sample_task_def)
qed

lemma sample_claim:
  assumes "\<And>n. e_disk env n = Works" and "w_store w = sample_store"
    and "\<And>n. n < w_calls w + 2 \<Longrightarrow> e_others env n sample_store = sample_store"
  shows "\<exists>u w1. claim_due_tasks env 1500 10 l w =
    (Inr [claim_task u 1500 l (sample_task ''@every 1s'' Once 1000)], w1)"
  by (simp add: claim_due_tasks_def io_bind_def sample_due [OF assms] fresh_uuid_eq Let_def put_task_def
      store_write_def store_access_def disk_commit_def assms(1) io_return_def) blast

lemma put_task_calm: "calm env \<Longrightarrow> \<exists>w'. put_task env t w = (Inr (), w')"
  by (simp add: put_task_def store_write_def store_access_def disk_commit_def calm_def Let_def)

lemma claim_calm_total:
  assumes "calm env" and "store_wf (w_store w)"
  shows "\<exists>claimed w'. claim_due_tasks env now limit l w = (Inr claimed, w')"
proof -
  have loop: "\<exists>c w'. claim_loop env now l ts v = (Inr c, w')" for ts and v :: "'b store_world_scheme"
  proof (induction ts arbitrary: v)
    case Nil
    then show ?case by (simp add: io_return_def)
  next
    case (Cons t ts)
    let ?v = "v\<lparr>w_calls := Suc (w_calls v)\<rparr>"
    obtain v1 where "put_task env (claim_task (e_uuid env (w_calls v)) now l t) ?v = (Inr (), v1)"
      using put_task_calm [OF assms(1)] by blast
    moreover obtain c v2 where "claim_loop env now l ts v1 = (Inr c, v2)" using Cons.IH by blast
    ultimately show ?case by (simp add: io_bind_def fresh_uuid_eq Let_def io_return_def)
  qed
  obtain ts w1 where "list_tasks env w = (Inr ts, w1)" using list_tasks_calm [OF assms] by blast
  then show ?thesis using loop
    by (simp add: claim_due_tasks_def due_tasks_def io_bind_def io_return_def)
qed

theorem claim_is_exclusive_until_expiry_witness:
  "\<exists>claimed w1 claimed' w3.
     claim_due_tasks sample_store_env 1500 10 100 sample_store_world = (Inr claimed, w1) \<and>
     map st_id claimed = [''t''] \<and>
     claim_due_tasks sample_store_env 1599 10 100 w1 = (Inr claimed', w3) \<and>
     st_id ` set claimed \<inter> st_id ` set claimed' = {}"
proof -
  obtain u w1 where c: "claim_due_tasks sample_store_env 1500 10 100 sample_store_world =
      (Inr [claim_task u 1500 100 (sample_task ''@every 1s'' Once 1000)], w1)" (is "_ = (Inr ?c, w1)")
    using sample_claim [of sample_store_env sample_store_world 100]
    by (auto simp: sample_store_env_def sample_store_world_def)
  have wf: "store_wf (w_store sample_store_world)"
    using sample_store_wf by (simp add: sample_store_world_def)
  have "store_wf (w_store w1)" using claim_due_tasks_alone [OF c wf sample_store_calm(2)] by blast
  then obtain claimed' w3 where
    c': "claim_due_tasks sample_store_env 1599 10 100 w1 = (Inr claimed', w3)"
    using claim_calm_total [OF sample_store_calm(1)] by blast
  have "(1599 :: u64) < saturating_add 1500 100" by (simp add: saturating_add_def)
  note lt = this
  have sp: "spares K now sample_store_env" for K now
    by (simp add: spares_def sample_store_env_def)
  have "st_id ` set ?c \<inter> st_id ` set claimed' = {}"
    using claim_is_exclusive_until_expiry [OF wf c lt refl c' sp sp] by (elim conjE)
  moreover have "map st_id ?c = [''t'']" by (simp add: sample_task_def)
  ultimately show ?thesis using c c' by (intro exI conjI)
qed

text \<open>Two runners that race for the same task both win, as the comment on the source says: here a second
  claim runs to its end between the last read and the first write of the first.\<close>

definition racing_env :: store_env where
  "racing_env = sample_store_env\<lparr>e_others := (\<lambda>n s. if n = 3 then
     w_store (snd (claim_due_tasks sample_store_env 1500 10 100 \<lparr> w_store = s, w_calls = 10 \<rparr>)) else s)\<rparr>"

theorem racing_claims_both_win:
  "\<exists>claimed w1 claimed' w2.
     claim_due_tasks racing_env 1500 10 100 sample_store_world = (Inr claimed, w1) \<and>
     claim_due_tasks sample_store_env 1500 10 100 \<lparr> w_store = sample_store, w_calls = 10 \<rparr> = (Inr claimed', w2) \<and>
     e_others racing_env 3 sample_store = w_store w2 \<and>
     map st_id claimed = [''t''] \<and> map st_id claimed' = [''t'']"
proof -
  have t: "st_id (sample_task ''@every 1s'' Once 1000) = ''t''" by (simp add: sample_task_def)
  obtain u w1 where c: "claim_due_tasks racing_env 1500 10 100 sample_store_world =
      (Inr [claim_task u 1500 100 (sample_task ''@every 1s'' Once 1000)], w1)"
    using sample_claim [of racing_env sample_store_world 100]
    by (auto simp: racing_env_def sample_store_env_def sample_store_world_def)
  obtain u' w2 where c': "claim_due_tasks sample_store_env 1500 10 100 \<lparr> w_store = sample_store, w_calls = 10 \<rparr> =
      (Inr [claim_task u' 1500 100 (sample_task ''@every 1s'' Once 1000)], w2)"
    using sample_claim [of sample_store_env "\<lparr> w_store = sample_store, w_calls = 10 \<rparr>" 100]
    by (auto simp: sample_store_env_def)
  then have "e_others racing_env 3 sample_store = w_store w2" by (simp add: racing_env_def)
  then show ?thesis using c c' t by fastforce
qed

section \<open>The fire outbox\<close>

text \<open>The contract the runtime relies on when it records and confirms wakeups: a table of pending keys
  and a table of delivered keys, with a put that leaves delivered keys alone and a mark that moves a key
  from the one to the other. The laws are about keys the rest of the world leaves alone during the
  operation; an operation that fails has had its effect or part of it, but never an unlisted one.\<close>

locale fire_outbox =
  fixes key :: "'f \<Rightarrow> 'k"
    and put :: "'e \<Rightarrow> 'f \<Rightarrow> ('w, unit) io"
    and mark :: "'e \<Rightarrow> 'k \<Rightarrow> ('w, unit) io"
    and pending :: "'k \<Rightarrow> 'w \<Rightarrow> bool"
    and delivered :: "'k \<Rightarrow> 'w \<Rightarrow> bool"
    and leaves_alone :: "'e \<Rightarrow> 'k \<Rightarrow> bool"
  assumes delivered_put: "leaves_alone e k \<Longrightarrow> delivered k (snd (put e f w)) \<longleftrightarrow> delivered k w"
    and pending_put: "leaves_alone e k \<Longrightarrow> pending k w \<Longrightarrow> pending k (snd (put e f w))"
    and pending_put_only: "leaves_alone e k \<Longrightarrow> pending k (snd (put e f w)) \<Longrightarrow>
      pending k w \<or> k = key f \<and> \<not> delivered k w"
    and put_records: "leaves_alone e (key f) \<Longrightarrow> fst (put e f w) = Inr () \<Longrightarrow> \<not> delivered (key f) w \<Longrightarrow>
      pending (key f) (snd (put e f w))"
    and mark_moves: "leaves_alone e k \<Longrightarrow>
      (pending k (snd (mark e k' w)) \<longleftrightarrow> pending k w) \<and> (delivered k (snd (mark e k' w)) \<longleftrightarrow> delivered k w) \<or>
      k = k' \<and> pending k w \<and> \<not> pending k (snd (mark e k' w)) \<and> delivered k (snd (mark e k' w))"
    and mark_retires: "leaves_alone e k \<Longrightarrow> fst (mark e k w) = Inr () \<Longrightarrow> \<not> pending k (snd (mark e k w))"
begin

text \<open>A history is a list of puts (\<open>Inl\<close>) and marks (\<open>Inr\<close>), each in its own environment.\<close>

fun run_outbox :: "('e \<times> 'f + 'e \<times> 'k) list \<Rightarrow> 'w \<Rightarrow> 'w" where
  "run_outbox [] w = w"
| "run_outbox (Inl (e, f) # ops) w = run_outbox ops (snd (put e f w))"
| "run_outbox (Inr (e, k) # ops) w = run_outbox ops (snd (mark e k w))"

definition env_of :: "'e \<times> 'f + 'e \<times> 'k \<Rightarrow> 'e" where
  "env_of op = (case op of Inl (e, f) \<Rightarrow> e | Inr (e, k) \<Rightarrow> e)"

definition left_alone :: "'k \<Rightarrow> ('e \<times> 'f + 'e \<times> 'k) list \<Rightarrow> bool" where
  "left_alone k ops \<longleftrightarrow> (\<forall>op \<in> set ops. leaves_alone (env_of op) k)"

lemma left_alone_simps [simp]:
  "left_alone k []"
  "left_alone k (Inl (e, f) # ops) \<longleftrightarrow> leaves_alone e k \<and> left_alone k ops"
  "left_alone k (Inr (e, k') # ops) \<longleftrightarrow> leaves_alone e k \<and> left_alone k ops"
  by (simp_all add: left_alone_def env_of_def)

lemma delivered_never_pending:
  "left_alone k ops \<Longrightarrow> delivered k w \<Longrightarrow> \<not> pending k w \<Longrightarrow>
     delivered k (run_outbox ops w) \<and> \<not> pending k (run_outbox ops w)"
proof (induction ops w rule: run_outbox.induct)
  case (2 e f ops w)
  then show ?case using delivered_put [of e k f w] pending_put_only [of e k f w] by auto
next
  case (3 e k' ops w)
  then show ?case using mark_moves [of e k k' w] by auto
qed simp

lemma pending_until_marked:
  "left_alone k ops \<Longrightarrow> pending k w \<Longrightarrow> (\<And>e. Inr (e, k) \<notin> set ops) \<Longrightarrow> pending k (run_outbox ops w)"
proof (induction ops w rule: run_outbox.induct)
  case (2 e f ops w)
  then show ?case using pending_put [of e k w f] by auto
next
  case (3 e k' ops w)
  then show ?case using mark_moves [of e k k' w] by auto
qed simp

lemma put_then_mark_delivers:
  assumes "leaves_alone e (key f)" "leaves_alone e' (key f)" "left_alone (key f) ops"
    and "put e f w = (Inr (), w1)" "mark e' (key f) w1 = (Inr (), w2)" "\<not> delivered (key f) w"
  shows "delivered (key f) (run_outbox ops w2) \<and> \<not> pending (key f) (run_outbox ops w2)"
proof -
  have "pending (key f) w1" using put_records [OF assms(1), of w] assms(4,6) by simp
  moreover have "\<not> pending (key f) w2" using mark_retires [OF assms(2), of w1] assms(5) by simp
  ultimately have "delivered (key f) w2" using mark_moves [OF assms(2), of "key f" w1] assms(5) by auto
  then show ?thesis using \<open>\<not> pending (key f) w2\<close> delivered_never_pending [OF assms(3)] by blast
qed

end

definition fire_key :: "fire_record \<Rightarrow> string \<times> u64" where
  "fire_key f = (fr_task_id f, fr_slot_ms f)"

text \<open>A slot number has no dash, so the last dash of a file name separates task and slot: the file
  name determines both.\<close>

lemma dash_not_digit: "CHR ''-'' \<notin> set (show_u64 w)"
  using show_nat_digits [of "CHR ''-''" "unat w"] by (auto simp: show_u64_def digit_byte_def)

lemma split_at_last_dash:
  assumes "a @ c # x = b @ c # y" and "c \<notin> set x" and "c \<notin> set y"
  shows "a = b \<and> x = y"
proof -
  have "rev x @ c # rev a = rev y @ c # rev b"
    using arg_cong [OF assms(1), of rev] by simp
  moreover have "takeWhile (\<lambda>d. d \<noteq> c) (rev u @ c # v) = rev u" if "c \<notin> set u" for u v
    using that by (induction u arbitrary: v rule: rev_induct) (auto simp: takeWhile_append)
  ultimately have "rev x = rev y" using assms(2,3) by metis
  then have "x = y" by simp
  with assms(1) show ?thesis by simp
qed

lemma fire_stem_inj: "fire_stem a m = fire_stem b n \<longleftrightarrow> a = b \<and> m = n"
proof
  assume "fire_stem a m = fire_stem b n"
  then have "a = b \<and> show_u64 m = show_u64 n"
    using split_at_last_dash [of a "CHR ''-''" "show_u64 m" b "show_u64 n"] dash_not_digit
    by (simp add: fire_stem_def)
  then show "a = b \<and> m = n"
    using parse_u64_show [of m] parse_u64_show [of n] by (metis option.inject)
qed simp

lemma fire_path_not_tmp: "pending_fire_path a m \<noteq> temp_name stem uuid"
  by (simp add: pending_fire_path_def json_not_tmp)

lemma pending_path_key:
  "pending_fire_path (fst k) (snd k) = fire_stem (fr_task_id f) (fr_slot_ms f) @ ''.json'' \<longleftrightarrow> k = fire_key f"
  by (cases k) (auto simp: pending_fire_path_def fire_stem_inj fire_key_def)

text \<open>Recording a fire: every state of the write has the old pending fires, and perhaps the new one; the
  last has it.\<close>

lemma pending_write_states:
  assumes "d \<in> set (write_json_states u (fire_stem (fr_task_id f) (fr_slot_ms f)) f (ss_pending s))"
  shows "fire_is_pending k (s\<lparr>ss_pending := d\<rparr>) \<longleftrightarrow> fire_is_pending k s \<or>
    d = write_json_file u (fire_stem (fr_task_id f) (fr_slot_ms f)) f (ss_pending s) \<and> k = fire_key f"
  using assms
proof (rule write_json_state_cases)
  assume "d = write_json_file u (fire_stem (fr_task_id f) (fr_slot_ms f)) f (ss_pending s)"
  then show ?thesis
    using fire_path_not_tmp [of "fst k" "snd k" "fire_stem (fr_task_id f) (fr_slot_ms f)" u]
    by (auto simp: fire_is_pending_def map_of_write_json pending_path_key)
next
  assume same: "\<And>name. ends_with ''.json'' name \<Longrightarrow> map_of d name = map_of (ss_pending s) name"
  have "ends_with ''.json'' (pending_fire_path a m)" for a m
    by (auto simp: pending_fire_path_def ends_with_iff)
  note eq = same [OF this]
  have "map_of (write_json_file u (fire_stem (fr_task_id f) (fr_slot_ms f)) f (ss_pending s))
      (pending_fire_path (fr_task_id f) (fr_slot_ms f)) \<noteq> None"
    by (simp add: map_of_write_json pending_fire_path_def)
  then have "fire_is_pending (fire_key f) s"
    if "d = write_json_file u (fire_stem (fr_task_id f) (fr_slot_ms f)) f (ss_pending s)"
    using that eq [of "fr_task_id f" "fr_slot_ms f"] by (simp add: fire_is_pending_def fire_key_def)
  moreover have "fire_is_pending k (s\<lparr>ss_pending := d\<rparr>) \<longleftrightarrow> fire_is_pending k s"
    by (simp add: fire_is_pending_def eq)
  ultimately show ?thesis by blast
qed

lemma delivered_unchanged [simp]:
  "fire_is_delivered k (s\<lparr>ss_pending := d\<rparr>) \<longleftrightarrow> fire_is_delivered k s"
  by (simp add: fire_is_delivered_def)

lemma retire_fire_cases:
  assumes "retire_fire a m d s = (r, s')"
  obtains e where "r = Inl (Error e)" "s' = s"
  | "fire_is_pending (a, m) s" "\<And>k. fire_is_pending k s' \<longleftrightarrow> fire_is_pending k s \<and> k \<noteq> (a, m)"
    "\<And>k. fire_is_delivered k s' \<longleftrightarrow> fire_is_delivered k s \<or> k = (a, m)"
proof (cases "map_of (ss_pending s) (pending_fire_path a m)")
  case None
  then show thesis using assms that(1) by (auto simp: retire_fire_def)
next
  case (Some fl)
  let ?s = "s\<lparr>ss_pending := AList.delete (pending_fire_path a m) (ss_pending s),
                ss_delivered := AList.update (delivered_fire_path a m) fl (ss_delivered s)\<rparr>"
  have commit: "disk_commit d [s, ?s] = (r, s')" using assms Some by (simp add: retire_fire_def)
  have moved: "fire_is_pending k ?s \<longleftrightarrow> fire_is_pending k s \<and> k \<noteq> (a, m)"
      "fire_is_delivered k ?s \<longleftrightarrow> fire_is_delivered k s \<or> k = (a, m)" for k
    by (cases k; auto simp: fire_is_pending_def fire_is_delivered_def AList.delete_conv' AList.update_conv'
        pending_fire_path_def delivered_fire_path_def fire_stem_inj)+
  have here: "fire_is_pending (a, m) s" using Some by (simp add: fire_is_pending_def)
  from commit show thesis
  proof (rule disk_commit_cases)
    assume "s' = last [s, ?s]"
    then have "s' = ?s" by simp
    show thesis by (rule that(2)) (use here moved \<open>s' = ?s\<close> in simp_all)
  next
    fix k e
    assume r: "r = Inl (Error e)" and "s' \<in> set [s, ?s]"
    then consider "s' = s" | "s' = ?s" by auto
    then show thesis
    proof cases
      case 1
      then show thesis using that(1) r by blast
    next
      case 2
      show thesis by (rule that(2)) (use here moved 2 in simp_all)
    qed
  qed simp
qed

text \<open>The other processes leave the fire of a task and slot alone.\<close>

definition leaves_fire :: "'e store_env_scheme \<Rightarrow> string \<times> u64 \<Rightarrow> bool" where
  "leaves_fire env k \<longleftrightarrow> (\<forall>n s. (fire_is_pending k (e_others env n s) \<longleftrightarrow> fire_is_pending k s) \<and>
     (fire_is_delivered k (e_others env n s) \<longleftrightarrow> fire_is_delivered k s))"

lemma leaves_fireD:
  assumes "leaves_fire env k"
  shows "fire_is_pending k (e_others env n s) \<longleftrightarrow> fire_is_pending k s"
    and "fire_is_delivered k (e_others env n s) \<longleftrightarrow> fire_is_delivered k s"
  using assms by (simp_all add: leaves_fire_def)

text \<open>The outcomes of recording a fire, for a key that is left alone.\<close>

lemma put_pending_fire_cases:
  assumes "put_pending_fire env f w = (r, w')"
  obtains (unread) k e where "e_disk env (w_calls w) = Fails k e" "r = Inl (Error e)" "w_calls w' = Suc (w_calls w)"
      "\<And>k. leaves_fire env k \<Longrightarrow> (fire_is_pending k (w_store w') \<longleftrightarrow> fire_is_pending k (w_store w)) \<and>
        (fire_is_delivered k (w_store w') \<longleftrightarrow> fire_is_delivered k (w_store w))"
  | (known) "r = Inr ()" "leaves_fire env (fire_key f) \<Longrightarrow> fire_is_delivered (fire_key f) (w_store w)"
      "\<And>k. leaves_fire env k \<Longrightarrow> (fire_is_pending k (w_store w') \<longleftrightarrow> fire_is_pending k (w_store w)) \<and>
        (fire_is_delivered k (w_store w') \<longleftrightarrow> fire_is_delivered k (w_store w))"
  | (written) b where "r = Inr () \<Longrightarrow> b"
      "\<And>e. r = Inl e \<Longrightarrow> \<exists>j m. e_disk env (Suc (w_calls w)) = Fails j m \<and> e = Error m"
      "w_calls w' = Suc (Suc (w_calls w))"
      "leaves_fire env (fire_key f) \<Longrightarrow> \<not> fire_is_delivered (fire_key f) (w_store w)"
      "\<And>k. leaves_fire env k \<Longrightarrow> (fire_is_pending k (w_store w') \<longleftrightarrow> fire_is_pending k (w_store w) \<or> b \<and> k = fire_key f) \<and>
        (fire_is_delivered k (w_store w') \<longleftrightarrow> fire_is_delivered k (w_store w))"
proof -
  let ?n = "w_calls w"
  let ?s = "e_others env ?n (w_store w)"
  let ?w = "w\<lparr>w_store := ?s, w_calls := Suc ?n\<rparr>"
  let ?s' = "e_others env (Suc ?n) ?s"
  let ?stem = "fire_stem (fr_task_id f) (fr_slot_ms f)"
  let ?states = "\<lambda>u s. map (\<lambda>d. s\<lparr>ss_pending := d\<rparr>) (write_json_states u ?stem f (ss_pending s))"
  have key: "(fr_task_id f, fr_slot_ms f) = fire_key f" by (simp add: fire_key_def)
  show thesis
  proof (cases "e_disk env ?n")
    case (Fails k e)
    then have "r = Inl (Error e)" "w' = ?w"
      using assms by (auto simp: put_pending_fire_def fire_was_delivered_def io_bind_def store_read_eq)
    then show thesis using unread Fails leaves_fireD [of env] by simp
  next
    case Works
    show thesis
    proof (cases "fire_is_delivered (fire_key f) ?s")
      case True
      then have "r = Inr ()" "w' = ?w"
        using assms Works by (auto simp: put_pending_fire_def fire_was_delivered_def io_bind_def store_read_eq
            io_return_def key)
      then show thesis by (intro known) (use True leaves_fireD [of env] in simp_all)
    next
      case False
      then have "store_write env ?states ?w = (r, w')"
        using assms Works by (simp add: put_pending_fire_def fire_was_delivered_def io_bind_def store_read_eq key)
      then obtain d where w': "w' = w\<lparr>w_store := ?s'\<lparr>ss_pending := d\<rparr>, w_calls := Suc (Suc ?n)\<rparr>"
        and d: "d \<in> set (write_json_states (e_uuid env (Suc ?n)) ?stem f (ss_pending ?s'))"
        and ok: "r = Inr () \<Longrightarrow> d = write_json_file (e_uuid env (Suc ?n)) ?stem f (ss_pending ?s')"
        and err: "\<And>e. r = Inl e \<Longrightarrow> \<exists>j m. e_disk env (Suc ?n) = Fails j m \<and> e = Error m"
      proof (rule store_write_cases, goal_cases)
        case (2 s)
        then show thesis
          using 2(1) [of "write_json_file (e_uuid env (Suc ?n)) ?stem f (ss_pending ?s')"]
          by (simp add: write_json_states_def write_json_file_def Let_def)
      next
        case (3 s k e)
        then obtain d where "s = ?s'\<lparr>ss_pending := d\<rparr>"
          "d \<in> set (write_json_states (e_uuid env (Suc ?n)) ?stem f (ss_pending ?s'))" by auto
        then show thesis using 3(1) [of d] 3 by simp
      qed (simp add: write_json_states_def Let_def)
      let ?b = "d = write_json_file (e_uuid env (Suc ?n)) ?stem f (ss_pending ?s')"
      have fires: "(fire_is_pending k (w_store w') \<longleftrightarrow> fire_is_pending k (w_store w) \<or> ?b \<and> k = fire_key f) \<and>
          (fire_is_delivered k (w_store w') \<longleftrightarrow> fire_is_delivered k (w_store w))" if "leaves_fire env k" for k
        using pending_write_states [OF d, of k] leaves_fireD [OF that] w' by simp
      have "\<not> fire_is_delivered (fire_key f) (w_store w)" if "leaves_fire env (fire_key f)"
        using False leaves_fireD(2) [OF that] by simp
      from written [OF ok err _ this fires] show thesis using w' by simp
    qed
  qed
qed

lemma mark_fire_delivered_cases:
  assumes "mark_fire_delivered env (fst k') (snd k') w = (r, w')" and "leaves_fire env k"
  shows "((fire_is_pending k (w_store w') \<longleftrightarrow> fire_is_pending k (w_store w)) \<and>
      (fire_is_delivered k (w_store w') \<longleftrightarrow> fire_is_delivered k (w_store w)) \<or>
      k = k' \<and> fire_is_pending k (w_store w) \<and> \<not> fire_is_pending k (w_store w') \<and>
      fire_is_delivered k (w_store w')) \<and>
    (k = k' \<and> r = Inr () \<longrightarrow> \<not> fire_is_pending k (w_store w'))"
proof -
  let ?n = "w_calls w"
  let ?s = "e_others env ?n (w_store w)"
  let ?s' = "e_others env (Suc ?n) ?s"
  note alone = leaves_fireD [OF assms(2)]
  show ?thesis
  proof (cases "e_disk env ?n = Works \<and> fire_is_pending k' ?s")
    case False
    then have "w_store w' = ?s" "r = Inr () \<Longrightarrow> \<not> fire_is_pending k' ?s"
      using assms(1) by (auto simp: mark_fire_delivered_def io_bind_def store_read_eq io_return_def
          split: disk.splits if_splits)
    then show ?thesis using alone by auto
  next
    case True
    then obtain s where "retire_fire (fst k') (snd k') (e_disk env (Suc ?n)) ?s' = (r, s)" and w': "w_store w' = s"
      using assms(1) by (auto simp: mark_fire_delivered_def io_bind_def store_read_eq store_access_def Let_def
          split: prod.splits)
    from this(1) show ?thesis
    proof (rule retire_fire_cases)
      fix e
      assume "r = Inl (Error e)" "s = ?s'"
      then show ?thesis using w' alone by simp
    next
      assume "fire_is_pending (fst k', snd k') ?s'"
        and "\<And>k. fire_is_pending k s \<longleftrightarrow> fire_is_pending k ?s' \<and> k \<noteq> (fst k', snd k')"
        and "\<And>k. fire_is_delivered k s \<longleftrightarrow> fire_is_delivered k ?s' \<or> k = (fst k', snd k')"
      then show ?thesis using w' alone by auto
    qed
  qed
qed

interpretation fires: fire_outbox fire_key put_pending_fire
    "\<lambda>env k. mark_fire_delivered env (fst k) (snd k)" "\<lambda>k w. fire_is_pending k (w_store w)"
    "\<lambda>k w. fire_is_delivered k (w_store w)" leaves_fire
proof unfold_locales
  fix e k f w
  obtain r w' where put: "put_pending_fire e f w = (r, w')" by fastforce
  note cases = put_pending_fire_cases [OF put]
  show "fire_is_delivered k (w_store (snd (put_pending_fire e f w))) \<longleftrightarrow> fire_is_delivered k (w_store w)"
    if "leaves_fire e k" using that by - (rule cases; auto simp: put)
  show "fire_is_pending k (w_store (snd (put_pending_fire e f w)))"
    if "leaves_fire e k" "fire_is_pending k (w_store w)" using that by - (rule cases; auto simp: put)
  show "fire_is_pending k (w_store w) \<or> k = fire_key f \<and> \<not> fire_is_delivered k (w_store w)"
    if "leaves_fire e k" "fire_is_pending k (w_store (snd (put_pending_fire e f w)))"
    using that by - (rule cases; auto simp: put)
  show "fire_is_pending (fire_key f) (w_store (snd (put_pending_fire e f w)))"
    if "leaves_fire e (fire_key f)" "fst (put_pending_fire e f w) = Inr ()"
      "\<not> fire_is_delivered (fire_key f) (w_store w)"
    using that by - (rule cases; auto simp: put)
next
  fix e k k' w
  obtain r w' where mark: "mark_fire_delivered e (fst k') (snd k') w = (r, w')" by fastforce
  from mark_fire_delivered_cases [OF mark, of k]
  show "(fire_is_pending k (w_store (snd (mark_fire_delivered e (fst k') (snd k') w))) \<longleftrightarrow>
        fire_is_pending k (w_store w)) \<and>
      (fire_is_delivered k (w_store (snd (mark_fire_delivered e (fst k') (snd k') w))) \<longleftrightarrow>
        fire_is_delivered k (w_store w)) \<or>
      k = k' \<and> fire_is_pending k (w_store w) \<and>
      \<not> fire_is_pending k (w_store (snd (mark_fire_delivered e (fst k') (snd k') w))) \<and>
      fire_is_delivered k (w_store (snd (mark_fire_delivered e (fst k') (snd k') w)))"
    if "leaves_fire e k" using that mark by simp
next
  fix e k w
  obtain r w' where mark: "mark_fire_delivered e (fst k) (snd k) w = (r, w')" by fastforce
  from mark_fire_delivered_cases [OF mark, of k]
  show "\<not> fire_is_pending k (w_store (snd (mark_fire_delivered e (fst k) (snd k) w)))"
    if "leaves_fire e k" "fst (mark_fire_delivered e (fst k) (snd k) w) = Inr ()" using that mark by simp
qed

text \<open>a delivered slot is never woken again. After a fire is recorded and confirmed, no later
  sequence of recordings and confirmations, working or failing, makes that task and slot pending again,
  as long as other processes leave it alone; fires of other tasks or slots never affect it.\<close>

theorem delivered_slot_never_pending_again:
  fixes env env' :: "'e store_env_scheme"
    and ops :: "('e store_env_scheme \<times> fire_record + 'e store_env_scheme \<times> (string \<times> u64)) list"
  assumes "put_pending_fire env f w = (Inr (), w1)"
    and "mark_fire_delivered env' (fr_task_id f) (fr_slot_ms f) w1 = (Inr (), w2)"
    and "\<not> fire_is_delivered (fire_key f) (w_store w)"
    and "leaves_fire env (fire_key f)" "leaves_fire env' (fire_key f)" "fires.left_alone (fire_key f) ops"
  shows "fire_is_delivered (fire_key f) (w_store (fires.run_outbox ops w2)) \<and>
    \<not> fire_is_pending (fire_key f) (w_store (fires.run_outbox ops w2))"
  using fires.put_then_mark_delivers [OF assms(4-6,1) _ assms(3)] assms(2) by (simp add: fire_key_def)

definition sample_fire :: "string \<Rightarrow> u64 \<Rightarrow> fire_record" where
  "sample_fire task_id slot = \<lparr> fr_task_id = task_id, fr_task_name = ''check'', fr_slot_ms = slot,
     fr_run_id = ''run'', fr_agent_id = ''agent'', fr_conversation_id = ''conv'',
     fr_prompt = ''done'', fr_fired_at_ms = slot \<rparr>"

text \<open>an undelivered fire survives until it is confirmed: once recorded it stays pending
  through every sequence of operations that does not confirm exactly that task and slot.\<close>

theorem pending_fire_survives_until_confirmed:
  assumes "put_pending_fire env f w = (Inr (), w1)" and "\<not> fire_is_delivered (fire_key f) (w_store w)"
    and "leaves_fire env (fire_key f)" "fires.left_alone (fire_key f) ops"
    and "\<And>e. Inr (e, fire_key f) \<notin> set ops"
  shows "fire_is_pending (fire_key f) (w_store (fires.run_outbox ops w1))"
  using fires.put_records [OF assms(3), of w] assms(1,2) fires.pending_until_marked [OF assms(4) _ assms(5)]
  by simp

text \<open>writing a JSON file is atomic with respect to crashes: whatever state a crash leaves,
  every JSON file other than the target reads as before and the target reads as before or as the new
  record, never as partial text.\<close>

theorem write_json_file_crash_atomic:
  assumes "d' \<in> set (write_json_states uuid stem x d)" and "ends_with ''.json'' name"
  shows "(map_of d' name = map_of d name \<or> (name = stem @ ''.json'' \<and> map_of d' name = Some (Json x))) \<and>
     map_of (write_json_file uuid stem x d) (stem @ ''.json'') = Some (Json x)"
  using assms(1)
proof (rule write_json_state_cases)
  have "name \<noteq> temp_name stem uuid" using assms(2) by auto
  moreover assume "d' = write_json_file uuid stem x d"
  ultimately show ?thesis by (simp add: map_of_write_json)
qed (use assms(2) in \<open>simp add: map_of_write_json\<close>)

end
