(* ===== verification/Scheduler_Runtime.thy ===== *)
theory Scheduler_Runtime
  imports Scheduler_Store "HOL-Library.Sublist"
begin

text \<open>
  Running scheduled tasks, from \<^verbatim>\<open>crates/executor/src/native/scheduler_runtime.rs\<close>: claiming due tasks, firing each
  owed slot, running the commands in a sandbox, writing the result artifact, recording the wakeup
  before it is sent, and redelivering unconfirmed wakeups at startup. The world of the scheduler store is
  extended by the log of external effects, its environment by the clock, the harness lookups, the sandbox
  and process layer, the artifact store and the wakeup transport; each may answer differently at every
  call (its first argument is the call counter) and may fail. The runs of one pass, concurrent in the
  source, are taken in order; what other runs and other processes write meanwhile comes in through
  \<open>e_others\<close> before every access to the store.
\<close>

section \<open>The world\<close>

datatype effect =
    Ran string "string list"
  | Wrote_Artifact string string
  | Woke string string string

record world = store_world +
  w_log :: "effect list"

datatype resolved_sandbox = Sandbox_Agent string | Sandbox_Conversation string

text \<open>A process: the successive reads of its two streams, the result of waiting for it, and whether
  the time limit passes first.\<close>

record process =
  pr_stdout :: "string result list"
  pr_stderr :: "string result list"
  pr_exit :: "int result"
  pr_times_out :: bool

record process_output =
  po_exit_code :: "int option"
  po_stdout :: string
  po_stderr :: string
  po_truncated :: bool

record command_output =
  co_sandbox_id :: string
  co_setup :: "process_output option"
  co_main :: process_output
  co_error :: "string option"

record task_output =
  to_exit_code :: "int option"
  to_stdout :: string
  to_stderr :: string
  to_truncated :: bool
  to_result_artifact_id :: "string option"
  to_error :: "string option"

record task_artifact =
  ta_task_id :: string
  ta_task_name :: string
  ta_run_id :: string
  ta_sandbox_id :: "string option"
  ta_setup_command :: "string list option"
  ta_command :: "string list"
  ta_exit_code :: "int option"
  ta_setup_stdout :: "string option"
  ta_setup_stderr :: "string option"
  ta_stdout :: string
  ta_stderr :: string
  ta_truncated :: bool
  ta_error :: "string option"

record artifact_ref =
  ar_artifact_id :: string
  ar_path :: string
  ar_version :: u64

record env = store_env +
  e_now :: "nat \<Rightarrow> u64"
  e_rfc3339 :: "string \<Rightarrow> string + int"
  e_lossy :: "string \<Rightarrow> string"
  e_get_agent :: "nat \<Rightarrow> string \<Rightarrow> bool result"
  e_get_conversation :: "nat \<Rightarrow> string \<Rightarrow> string \<Rightarrow> bool result"
  e_load_configs :: "nat \<Rightarrow> string \<Rightarrow> string \<Rightarrow> unit result"
  e_ensure_agent_sandbox :: "nat \<Rightarrow> string \<Rightarrow> string result"
  e_ensure_conversation_sandbox :: "nat \<Rightarrow> string \<Rightarrow> string \<Rightarrow> string result"
  e_create_conversation_sandbox :: "nat \<Rightarrow> string \<Rightarrow> string \<Rightarrow> string result"
  e_run :: "nat \<Rightarrow> resolved_sandbox \<Rightarrow> string list \<Rightarrow> process result"
  e_write_artifact :: "nat \<Rightarrow> string \<Rightarrow> string \<Rightarrow> task_artifact \<Rightarrow> artifact_ref result"
  e_send_wakeup :: "nat \<Rightarrow> string \<Rightarrow> string \<Rightarrow> string \<Rightarrow> unit result"

text \<open>One call of an environment function; on success its effects are logged.\<close>

definition call_env :: "(nat \<Rightarrow> 'a result) \<Rightarrow> ('a \<Rightarrow> effect list) \<Rightarrow> (world, 'a) io" where
  "call_env f effs w =
     (let r = f (w_calls w); w' = w\<lparr>w_calls := Suc (w_calls w)\<rparr> in
      case r of Inl e \<Rightarrow> (Inl e, w') | Inr x \<Rightarrow> (Ok x, w'\<lparr>w_log := w_log w' @ effs x\<rparr>))"

definition now_ms_io :: "env \<Rightarrow> (world, u64) io" where
  "now_ms_io env = call_env (\<lambda>n. Ok (e_now env n)) (\<lambda>_. [])"

section \<open>Process output\<close>

text \<open>The reading loop: a read of zero bytes ends it; once the limit is reached the rest is read and
  dropped, and the output is marked truncated.\<close>

fun read_limited_loop :: "nat \<Rightarrow> string \<Rightarrow> bool \<Rightarrow> string result list \<Rightarrow> (string \<times> bool) result" where
  "read_limited_loop max_bytes out truncated [] = Ok (out, truncated)"
| "read_limited_loop max_bytes out truncated (Inl e # reads) = Inl e"
| "read_limited_loop max_bytes out truncated (Inr buf # reads) =
     (if buf = [] then Ok (out, truncated)
      else
        (let remaining = max_bytes - length out in
         if remaining < length buf
         then read_limited_loop max_bytes (out @ take remaining buf) True reads
         else read_limited_loop max_bytes (out @ buf) truncated reads))"

definition read_limited :: "string result list \<Rightarrow> u64 \<Rightarrow> (string \<times> bool) result" where
  "read_limited reads max_bytes = read_limited_loop (unat max_bytes) [] False reads"

definition read_process_output :: "process \<Rightarrow> u64 \<Rightarrow> u64 \<Rightarrow> process_output result" where
  "read_process_output p max_stream_bytes timeout_ms =
     (if pr_times_out p then
        bail (''scheduled task command timed out after '' @ show_u64 timeout_ms @ ''ms'')
      else
        and_then (read_limited (pr_stdout p) max_stream_bytes) (\<lambda>(stdout, stdout_truncated).
        and_then (read_limited (pr_stderr p) max_stream_bytes) (\<lambda>(stderr, stderr_truncated).
        and_then (pr_exit p) (\<lambda>exit_code.
        Ok \<lparr> po_exit_code = Some exit_code, po_stdout = stdout, po_stderr = stderr,
             po_truncated = (stdout_truncated \<or> stderr_truncated) \<rparr>))))"

definition process_output_empty :: process_output where
  "process_output_empty = \<lparr> po_exit_code = None, po_stdout = [], po_stderr = [], po_truncated = False \<rparr>"

section \<open>Prompts\<close>

definition preview :: "(string \<Rightarrow> string) \<Rightarrow> string \<Rightarrow> string" where
  "preview lossy bytes = lossy (take (min (length bytes) 4000) bytes)"

definition show_bool :: "bool \<Rightarrow> string" where
  "show_bool b = (if b then ''true'' else ''false'')"

definition show_int :: "int \<Rightarrow> string" where
  "show_int i = (if i < 0 then CHR ''-'' # show_nat (nat (- i)) else show_nat (nat i))"

definition nl :: string where
  "nl = [CHR 0x0A]"

definition wakeup_prompt :: "(string \<Rightarrow> string) \<Rightarrow> task \<Rightarrow> string \<Rightarrow> int \<Rightarrow> bool \<Rightarrow> artifact_ref
    \<Rightarrow> string \<Rightarrow> string \<Rightarrow> string" where
  "wakeup_prompt lossy t run_id exit_code truncated a stdout stderr =
     ''Scheduled task `'' @ st_name t @ ''` completed.'' @ nl @ nl @ ''Run id: `'' @ run_id @ ''`'' @ nl @
     ''Exit code: '' @ show_int exit_code @ nl @ ''Result artifact: `'' @ ar_artifact_id a @
     ''` version '' @ show_u64 (ar_version a) @ '' at `'' @ ar_path a @ ''`'' @ nl @
     ''Output truncated: '' @ show_bool truncated @ nl @ nl @ ''Report instructions:'' @ nl @
     st_report_prompt t @ nl @ nl @ ''stdout preview:'' @ nl @ preview lossy stdout @ nl @ nl @
     ''stderr preview:'' @ nl @ preview lossy stderr"

definition error_wakeup_prompt :: "task \<Rightarrow> string \<Rightarrow> string \<Rightarrow> artifact_ref \<Rightarrow> string" where
  "error_wakeup_prompt t run_id err a =
     ''Scheduled task `'' @ st_name t @ ''` failed.'' @ nl @ nl @ ''Run id: `'' @ run_id @ ''`'' @ nl @
     ''Result artifact: `'' @ ar_artifact_id a @ ''` version '' @ show_u64 (ar_version a) @
     '' at `'' @ ar_path a @ ''`'' @ nl @ nl @ ''Report instructions:'' @ nl @ st_report_prompt t @
     nl @ nl @ ''Error:'' @ nl @ err"

definition is_missing_task_owner_error :: "string \<Rightarrow> bool" where
  "is_missing_task_owner_error err \<longleftrightarrow>
     starts_with ''scheduled task agent does not exist:'' err \<or>
     starts_with ''scheduled task conversation does not exist:'' err"

section \<open>One run\<close>

definition sandbox_id_of :: "resolved_sandbox \<Rightarrow> string" where
  "sandbox_id_of s = (case s of Sandbox_Agent i \<Rightarrow> i | Sandbox_Conversation i \<Rightarrow> i)"

text \<open>Resolving the sandbox may record a freshly created one on the task.\<close>

definition resolve_task_sandbox :: "env \<Rightarrow> task \<Rightarrow> (world, resolved_sandbox \<times> task) io" where
  "resolve_task_sandbox env t =
     (case st_sandbox_mode t of
        ModeAgent \<Rightarrow>
          io_bind (call_env (\<lambda>n. e_ensure_agent_sandbox env n (st_agent_id t)) (\<lambda>_. []))
            (\<lambda>i. io_return (Sandbox_Agent i, t))
      | ModeConversation \<Rightarrow>
          io_bind (call_env (\<lambda>n. e_ensure_conversation_sandbox env n (st_agent_id t) (st_conversation_id t))
            (\<lambda>_. [])) (\<lambda>i. io_return (Sandbox_Conversation i, t))
      | ModeTaskFresh \<Rightarrow>
          (case st_task_sandbox_id t of
             Some i \<Rightarrow> io_return (Sandbox_Conversation i, t)
           | None \<Rightarrow>
               io_bind (call_env (\<lambda>n. e_create_conversation_sandbox env n (st_agent_id t)
                 (st_conversation_id t)) (\<lambda>_. []))
                 (\<lambda>i. io_return (Sandbox_Conversation i, t\<lparr>st_task_sandbox_id := Some i\<rparr>))))"

definition run_in_sandbox :: "env \<Rightarrow> resolved_sandbox \<Rightarrow> string list \<Rightarrow> (world, process) io" where
  "run_in_sandbox env sandbox command =
     call_env (\<lambda>n. e_run env n sandbox command) (\<lambda>_. [Ran (sandbox_id_of sandbox) command])"

text \<open>The command block: the setup command first, if there is one, and the main command only after
  the setup exited with zero.\<close>

definition run_commands :: "env \<Rightarrow> task \<Rightarrow> resolved_sandbox \<Rightarrow> (world, command_output) io" where
  "run_commands env t sandbox =
     io_bind (run_in_sandbox env sandbox
        (case st_setup_command t of Some c \<Rightarrow> c | None \<Rightarrow> st_command t)) (\<lambda>p.
     io_bind (io_lift (read_process_output p (st_max_output_bytes t) DEFAULT_COMMAND_TIMEOUT_MS)) (\<lambda>setup_output.
     if st_setup_command t = None then
       io_return \<lparr> co_sandbox_id = sandbox_id_of sandbox, co_setup = None, co_main = setup_output,
                   co_error = None \<rparr>
     else if po_exit_code setup_output \<noteq> Some 0 then
       io_return \<lparr> co_sandbox_id = sandbox_id_of sandbox, co_setup = Some setup_output,
                   co_main = process_output_empty, co_error = Some ''setup command exited non-zero'' \<rparr>
     else
       io_bind (run_in_sandbox env sandbox (st_command t)) (\<lambda>p2.
       io_bind (io_lift (read_process_output p2 (st_max_output_bytes t) DEFAULT_COMMAND_TIMEOUT_MS)) (\<lambda>main_output.
       io_return \<lparr> co_sandbox_id = sandbox_id_of sandbox, co_setup = Some setup_output,
                   co_main = main_output, co_error = None \<rparr>))))"

text \<open>What the run reports: from the command block's output, or its error alone.\<close>

record run_summary =
  rs_exit_code :: "int option"
  rs_stdout :: string
  rs_stderr :: string
  rs_truncated :: bool
  rs_error :: "string option"
  rs_setup :: "process_output option"
  rs_sandbox_id :: "string option"

definition summarize :: "string + command_output \<Rightarrow> run_summary" where
  "summarize r =
     (case r of
        Inr out \<Rightarrow>
          \<lparr> rs_exit_code = po_exit_code (co_main out), rs_stdout = po_stdout (co_main out),
            rs_stderr = po_stderr (co_main out),
            rs_truncated = (po_truncated (co_main out) \<or>
              (case co_setup out of None \<Rightarrow> False | Some p \<Rightarrow> po_truncated p)),
            rs_error = co_error out, rs_setup = co_setup out, rs_sandbox_id = Some (co_sandbox_id out) \<rparr>
      | Inl e \<Rightarrow>
          \<lparr> rs_exit_code = None, rs_stdout = [], rs_stderr = [], rs_truncated = False,
            rs_error = Some e, rs_setup = None, rs_sandbox_id = None \<rparr>)"

definition task_artifact_of :: "env \<Rightarrow> task \<Rightarrow> string \<Rightarrow> run_summary \<Rightarrow> task_artifact" where
  "task_artifact_of env t run_id r =
     \<lparr> ta_task_id = st_id t, ta_task_name = st_name t, ta_run_id = run_id,
       ta_sandbox_id = rs_sandbox_id r, ta_setup_command = st_setup_command t,
       ta_command = st_command t, ta_exit_code = rs_exit_code r,
       ta_setup_stdout = map_option (\<lambda>p. e_lossy env (po_stdout p)) (rs_setup r),
       ta_setup_stderr = map_option (\<lambda>p. e_lossy env (po_stderr p)) (rs_setup r),
       ta_stdout = e_lossy env (rs_stdout r), ta_stderr = e_lossy env (rs_stderr r),
       ta_truncated = rs_truncated r, ta_error = rs_error r \<rparr>"

definition run_prompt :: "env \<Rightarrow> task \<Rightarrow> string \<Rightarrow> run_summary \<Rightarrow> artifact_ref \<Rightarrow> string result" where
  "run_prompt env t run_id r a =
     (case rs_error r of
        Some e \<Rightarrow> Ok (error_wakeup_prompt t run_id e a)
      | None \<Rightarrow>
          (case rs_exit_code r of
             None \<Rightarrow> panic ''completed scheduled command has exit code''
           | Some c \<Rightarrow> Ok (wakeup_prompt (e_lossy env) t run_id c (rs_truncated r) a
                             (rs_stdout r) (rs_stderr r))))"

text \<open>Record the fire, send the wakeup, confirm it, in this order.\<close>

definition deliver_fire :: "env \<Rightarrow> fire_record \<Rightarrow> (world, unit) io" where
  "deliver_fire env fire =
     io_bind (put_pending_fire env fire) (\<lambda>_.
     io_bind (call_env (\<lambda>n. e_send_wakeup env n (fr_agent_id fire) (fr_conversation_id fire) (fr_prompt fire))
        (\<lambda>_. [Woke (fr_agent_id fire) (fr_conversation_id fire) (fr_prompt fire)])) (\<lambda>_.
     mark_fire_delivered env (fr_task_id fire) (fr_slot_ms fire)))"

definition run_fire :: "task \<Rightarrow> u64 \<Rightarrow> string \<Rightarrow> string \<Rightarrow> u64 \<Rightarrow> fire_record" where
  "run_fire t slot_ms run_id prompt fired_at_ms =
     \<lparr> fr_task_id = st_id t, fr_task_name = st_name t, fr_slot_ms = slot_ms, fr_run_id = run_id,
       fr_agent_id = st_agent_id t, fr_conversation_id = st_conversation_id t,
       fr_prompt = prompt, fr_fired_at_ms = fired_at_ms \<rparr>"

definition run_output :: "run_summary \<Rightarrow> artifact_ref \<Rightarrow> task_output" where
  "run_output r a =
     \<lparr> to_exit_code = rs_exit_code r, to_stdout = rs_stdout r, to_stderr = rs_stderr r,
       to_truncated = rs_truncated r, to_result_artifact_id = Some (ar_artifact_id a),
       to_error = rs_error r \<rparr>"

text \<open>\<open>run_task_inner\<close> after the sandbox is resolved. The task is threaded because resolving may have
  changed it.\<close>

definition run_and_report :: "env \<Rightarrow> task \<Rightarrow> resolved_sandbox \<Rightarrow> string \<Rightarrow> u64 \<Rightarrow> (world, task_output) io" where
  "run_and_report env t sandbox run_id slot_ms =
     io_bind (io_try (run_commands env t sandbox)) (\<lambda>command_result.
     let r = summarize command_result;
         path = ''scheduled-tasks/'' @ st_name t @ ''/'' @ run_id @ ''.json'' in
     io_bind (call_env (\<lambda>n. e_write_artifact env n (st_conversation_id t) path (task_artifact_of env t run_id r))
        (\<lambda>_. [Wrote_Artifact (st_conversation_id t) path])) (\<lambda>a.
     io_bind (io_lift (run_prompt env t run_id r a)) (\<lambda>prompt.
     io_bind (now_ms_io env) (\<lambda>fired_at_ms.
     io_bind (deliver_fire env (run_fire t slot_ms run_id prompt fired_at_ms)) (\<lambda>_.
     io_return (run_output r a))))))"

text \<open>The start of \<open>run_task_inner\<close>: the owner must still exist, then the configurations are loaded
  and the sandbox is resolved.\<close>

definition prepare_run :: "env \<Rightarrow> task \<Rightarrow> (world, resolved_sandbox \<times> task) io" where
  "prepare_run env t =
     io_bind (call_env (\<lambda>n. e_get_agent env n (st_agent_id t)) (\<lambda>_. [])) (\<lambda>found.
     io_bind (io_lift (ensure found (''scheduled task agent does not exist: '' @ st_agent_id t))) (\<lambda>_.
     io_bind (call_env (\<lambda>n. e_get_conversation env n (st_agent_id t) (st_conversation_id t)) (\<lambda>_. [])) (\<lambda>found.
     io_bind (io_lift (ensure found
        (''scheduled task conversation does not exist: '' @ st_conversation_id t))) (\<lambda>_.
     io_bind (call_env (\<lambda>n. e_load_configs env n (st_agent_id t) (st_conversation_id t)) (\<lambda>_. [])) (\<lambda>_.
     resolve_task_sandbox env t)))))"

text \<open>The result carries the task as the run leaves it, in the error case too: the source changes it
  through a mutable borrow.\<close>

definition run_task_inner :: "env \<Rightarrow> task \<Rightarrow> string \<Rightarrow> u64 \<Rightarrow> (world, (string + task_output) \<times> task) io" where
  "run_task_inner env t run_id slot_ms =
     io_bind (io_try (prepare_run env t)) (\<lambda>prep.
     case prep of
       Inl e \<Rightarrow> io_return (Inl e, t)
     | Inr (sandbox, t') \<Rightarrow>
         io_bind (io_try (run_and_report env t' sandbox run_id slot_ms)) (\<lambda>r. io_return (r, t')))"

section \<open>Firing and running tasks\<close>

definition run_record :: "string \<Rightarrow> string \<Rightarrow> u64 \<Rightarrow> u64 \<Rightarrow> string + task_output \<Rightarrow> task_run" where
  "run_record run_id task_id started finished r =
     (case r of
        Inr out \<Rightarrow>
          \<lparr> tr_id = run_id, tr_task_id = task_id, tr_started_at_ms = started, tr_finished_at_ms = finished,
            tr_exit_code = to_exit_code out, tr_stdout_bytes = of_nat (length (to_stdout out)),
            tr_stderr_bytes = of_nat (length (to_stderr out)), tr_truncated = to_truncated out,
            tr_result_artifact_id = to_result_artifact_id out, tr_error = to_error out \<rparr>
      | Inl e \<Rightarrow>
          \<lparr> tr_id = run_id, tr_task_id = task_id, tr_started_at_ms = started, tr_finished_at_ms = finished,
            tr_exit_code = None, tr_stdout_bytes = 0, tr_stderr_bytes = 0, tr_truncated = False,
            tr_result_artifact_id = None, tr_error = Some e \<rparr>)"

text \<open>The task after a run: completed, and disabled when its owner is gone.\<close>

definition settle_task :: "task_run \<Rightarrow> u64 \<Rightarrow> task \<Rightarrow> task" where
  "settle_task run finished_at_ms t =
     (let t' = mark_completed run (tr_result_artifact_id run) finished_at_ms t in
      case tr_error run of
        Some e \<Rightarrow> if is_missing_task_owner_error e
                  then t'\<lparr>st_enabled := False, st_updated_at_ms := finished_at_ms\<rparr> else t'
      | None \<Rightarrow> t')"

definition fire_once :: "env \<Rightarrow> task \<Rightarrow> u64 \<Rightarrow> (world, task_run \<times> task) io" where
  "fire_once env t slot_ms =
     io_bind (now_ms_io env) (\<lambda>started_at_ms.
     io_bind (fresh_uuid env) (\<lambda>run_id.
     io_bind (run_task_inner env t run_id slot_ms) (\<lambda>(run_result, t1).
     io_bind (now_ms_io env) (\<lambda>finished_at_ms.
     let run = run_record run_id (st_id t1) started_at_ms finished_at_ms run_result;
         t2 = settle_task run finished_at_ms t1 in
     io_bind (put_run env run) (\<lambda>_.
     io_bind (put_task env t2) (\<lambda>_.
     io_return (run, t2)))))))"

text \<open>Firing the planned slots, stopping once a run disabled the task.\<close>

fun fire_slots :: "env \<Rightarrow> task \<Rightarrow> u64 list \<Rightarrow> (world, task_run list \<times> task) io" where
  "fire_slots env t [] = io_return ([], t)"
| "fire_slots env t (slot # slots) =
     io_bind (fire_once env t slot) (\<lambda>(run, t').
     if \<not> st_enabled t' then io_return ([run], t')
     else io_bind (fire_slots env t' slots) (\<lambda>(runs, t''). io_return (run # runs, t'')))"

definition run_task :: "env \<Rightarrow> task \<Rightarrow> (world, task_run list) io" where
  "run_task env t =
     io_bind (now_ms_io env) (\<lambda>now.
     io_bind (io_lift (plan_missed_fires (e_rfc3339 env) t now)) (\<lambda>plan.
     io_bind (fire_slots env t (mp_fire_slots plan)) (\<lambda>(runs, t').
     io_bind (now_ms_io env) (\<lambda>after.
     io_bind (put_task env (resume_after_fires plan after t')) (\<lambda>_.
     io_return runs)))))"

fun run_tasks :: "env \<Rightarrow> task list \<Rightarrow> (world, task_run list list) io" where
  "run_tasks env [] = io_return []"
| "run_tasks env (t # ts) =
     io_bind (run_task env t) (\<lambda>runs. io_bind (run_tasks env ts) (\<lambda>rest. io_return (runs # rest)))"

definition run_due_tasks :: "env \<Rightarrow> nat \<Rightarrow> (world, task_run list) io" where
  "run_due_tasks env limit =
     io_bind (now_ms_io env) (\<lambda>now.
     io_bind (claim_due_tasks env now limit DEFAULT_TASK_LEASE_MS) (\<lambda>due.
     io_bind (run_tasks env due) (\<lambda>runs. io_return (concat runs))))"

section \<open>Redelivery at startup\<close>

fun redeliver_loop :: "env \<Rightarrow> fire_record list \<Rightarrow> nat \<Rightarrow> (world, nat) io" where
  "redeliver_loop env [] delivered = io_return delivered"
| "redeliver_loop env (fire # fires) delivered =
     io_bind (call_env (\<lambda>n. e_get_agent env n (fr_agent_id fire)) (\<lambda>_. [])) (\<lambda>agent.
     if \<not> agent then
       io_bind (mark_fire_delivered env (fr_task_id fire) (fr_slot_ms fire)) (\<lambda>_.
       redeliver_loop env fires delivered)
     else
     io_bind (call_env (\<lambda>n. e_get_conversation env n (fr_agent_id fire) (fr_conversation_id fire)) (\<lambda>_. []))
       (\<lambda>conversation.
     if \<not> conversation then
       io_bind (mark_fire_delivered env (fr_task_id fire) (fr_slot_ms fire)) (\<lambda>_.
       redeliver_loop env fires delivered)
     else
     io_bind (call_env (\<lambda>n. e_send_wakeup env n (fr_agent_id fire) (fr_conversation_id fire) (fr_prompt fire))
        (\<lambda>_. [Woke (fr_agent_id fire) (fr_conversation_id fire) (fr_prompt fire)])) (\<lambda>_.
     io_bind (mark_fire_delivered env (fr_task_id fire) (fr_slot_ms fire)) (\<lambda>_.
     redeliver_loop env fires (delivered + 1)))))"

definition redeliver_pending_wakes :: "env \<Rightarrow> (world, nat) io" where
  "redeliver_pending_wakes env =
     io_bind (pending_fires env) (\<lambda>fires. redeliver_loop env fires 0)"

section \<open>Facts about effects\<close>

text \<open>A step that leaves the store alone and logs only effects satisfying \<open>P\<close>.\<close>

definition logs_only :: "(effect \<Rightarrow> bool) \<Rightarrow> world \<Rightarrow> world \<Rightarrow> bool" where
  "logs_only P w w' \<longleftrightarrow>
     w_store w' = w_store w \<and> (\<exists>es. w_log w' = w_log w @ es \<and> (\<forall>e \<in> set es. P e))"

lemma logs_only_refl: "reflp (logs_only P)"
  by (auto simp: reflp_def logs_only_def intro: exI [of _ "[]"])

lemma logs_only_trans: "transp (logs_only P)"
  by (fastforce simp: transp_def logs_only_def)

lemma logs_only_call: "(\<And>x. \<forall>e \<in> set (effs x). P e) \<Longrightarrow> io_keeps (logs_only P) (call_env f effs)"
  unfolding io_keeps_def call_env_def logs_only_def Let_def
  by (auto split: sum.splits)

lemmas logs_only_intros =
  io_keeps_bind [OF logs_only_trans] io_keeps_pure [OF logs_only_refl] io_keeps_try logs_only_call

lemma run_commands_logs: "io_keeps (logs_only (\<lambda>e. \<exists>i c. e = Ran i c)) (run_commands env t sandbox)"
  unfolding run_commands_def run_in_sandbox_def
  by (auto intro!: logs_only_intros split: option.splits)

lemma resolve_logs: "io_keeps (logs_only (\<lambda>e. False)) (resolve_task_sandbox env t)"
  unfolding resolve_task_sandbox_def
  by (auto intro!: logs_only_intros split: sandbox_mode.splits option.splits)

lemma io_keepsD: "io_keeps R m \<Longrightarrow> m w = (r, w') \<Longrightarrow> R w w'"
  by (metis io_keeps_def snd_conv)

lemma now_ms_run: "now_ms_io env w = (Inr (e_now env (w_calls w)), w\<lparr>w_calls := Suc (w_calls w)\<rparr>)"
  by (simp add: now_ms_io_def call_env_def)

text \<open>A completed command block has an exit code unless it reports an error, so building the prompt
  never panics.\<close>

lemma read_process_output_exit: "read_process_output p m l = Inr out \<Longrightarrow> po_exit_code out \<noteq> None"
  by (auto simp: read_process_output_def result_simps split: if_splits prod.splits)

lemma run_commands_exit:
  "run_commands env t sandbox w = (Inr out, w') \<Longrightarrow> co_error out = None \<Longrightarrow> po_exit_code (co_main out) \<noteq> None"
  by (auto simp: run_commands_def result_simps io_return_def io_lift_def
      dest: read_process_output_exit split: if_splits)

lemma run_prompt_total:
  assumes "io_try (run_commands env t sandbox) w = (Inr r, w')"
  shows "\<exists>prompt. run_prompt env t run_id (summarize r) a = Inr prompt"
proof (cases r)
  case (Inl e)
  then show ?thesis by (simp add: run_prompt_def summarize_def)
next
  case (Inr out)
  then have "run_commands env t sandbox w = (Inr out, w')"
    using assms by (auto simp: io_try_def split: prod.splits sum.splits error.splits)
  from run_commands_exit [OF this] Inr show ?thesis
    by (cases "co_error out") (auto simp: run_prompt_def summarize_def)
qed

section \<open>Frames\<close>

text \<open>What an access to the store keeps.\<close>

lemma store_access_keeps:
  assumes "\<And>w d u. R w (w\<lparr>w_store := snd (f d u (e_others env (w_calls w) (w_store w))), w_calls := Suc (w_calls w)\<rparr>)"
  shows "io_keeps R (store_access env f)"
  using assms by (auto simp: io_keeps_def store_access_def Let_def split: prod.splits) (metis snd_conv)

text \<open>A step that moves the call counter forward and leaves the log alone.\<close>

definition aside :: "world \<Rightarrow> world \<Rightarrow> bool" where
  "aside w w' \<longleftrightarrow> w_log w' = w_log w \<and> w_calls w \<le> w_calls w'"

lemma aside_preorder: "reflp aside" "transp aside"
  by (auto simp: reflp_def transp_def aside_def)

lemma aside_store: "io_keeps aside (store_access env f)" "io_keeps aside (store_read env g)"
    "io_keeps aside (store_write env ss)" "io_keeps aside (fresh_uuid env)"
  unfolding store_read_def store_write_def
  by (intro store_access_keeps; simp add: aside_def)+ (simp add: io_keeps_def fresh_uuid_def aside_def)

lemma aside_now: "io_keeps aside (now_ms_io env)"
  by (simp add: io_keeps_def now_ms_run aside_def)

lemmas aside_intros =
  io_keeps_bind [OF aside_preorder(2)] io_keeps_pure [OF aside_preorder(1)] io_keeps_try aside_store aside_now

lemma aside_ops:
  "io_keeps aside (put_task env t)" "io_keeps aside (put_run env run)"
  "io_keeps aside (put_pending_fire env fire)" "io_keeps aside (mark_fire_delivered env a m)"
  unfolding put_task_def put_run_def put_pending_fire_def fire_was_delivered_def mark_fire_delivered_def
  by (auto intro!: aside_intros)

text \<open>A step that leaves the fire of one task and slot alone.\<close>

definition keeps_fire :: "string \<times> u64 \<Rightarrow> world \<Rightarrow> world \<Rightarrow> bool" where
  "keeps_fire k w w' \<longleftrightarrow> (fire_is_pending k (w_store w') \<longleftrightarrow> fire_is_pending k (w_store w)) \<and>
     (fire_is_delivered k (w_store w') \<longleftrightarrow> fire_is_delivered k (w_store w))"

lemma keeps_fire_preorder: "reflp (keeps_fire k)" "transp (keeps_fire k)"
  by (auto simp: reflp_def transp_def keeps_fire_def)

lemma commit_in: "states \<noteq> [] \<Longrightarrow> snd (disk_commit d states) \<in> set states"
  by (metis disk_commit_cases last_in_set prod.collapse)

lemma keeps_fire_write:
  assumes alone: "leaves_fire env k" and "\<And>u s. states u s \<noteq> []"
    and fires: "\<And>u s s'. s' \<in> set (states u s) \<Longrightarrow> ss_pending s' = ss_pending s \<and> ss_delivered s' = ss_delivered s"
  shows "io_keeps (keeps_fire k) (store_write env states)"
  unfolding store_write_def
proof (rule store_access_keeps)
  fix w :: world and d u
  let ?s = "e_others env (w_calls w) (w_store w)"
  show "keeps_fire k w (w\<lparr>w_store := snd (disk_commit d (states u ?s)), w_calls := Suc (w_calls w)\<rparr>)"
    using fires [OF commit_in [OF assms(2)], of d u ?s] leaves_fireD [OF alone]
    by (simp add: keeps_fire_def fire_is_pending_def fire_is_delivered_def)
qed

lemma keeps_fire_put:
  assumes "leaves_fire env k"
  shows "io_keeps (keeps_fire k) (put_task env t)" "io_keeps (keeps_fire k) (put_run env run)"
  unfolding put_task_def put_run_def
  by (rule keeps_fire_write [OF assms]; auto simp: write_json_states_def Let_def)+

section \<open>Delivering a fire\<close>

lemma call_env_Inr_iff:
  "call_env f effs w = (Inr x, w') \<longleftrightarrow>
     f (w_calls w) = Inr x \<and> w' = w\<lparr>w_calls := Suc (w_calls w), w_log := w_log w @ effs x\<rparr>"
  by (auto simp: call_env_def Let_def split: sum.splits)

text \<open>A fire was not recorded: the last call before \<open>w'\<close>, an access to the files, failed with the error \<open>e\<close>, and no
  wakeup was sent since \<open>w\<close>.\<close>

definition unrecorded :: "env \<Rightarrow> world \<Rightarrow> world \<Rightarrow> string \<Rightarrow> bool" where
  "unrecorded env w w' e \<longleftrightarrow> 0 < w_calls w' \<and> (\<exists>k. e_disk env (w_calls w' - 1) = Fails k e) \<and>
     (\<exists>new. w_log w' = w_log w @ new \<and> (\<forall>a c p. Woke a c p \<notin> set new))"

lemma unrecorded_from:
  "unrecorded env w w' e \<Longrightarrow> w_log w = w_log v @ before \<Longrightarrow> \<forall>a c p. Woke a c p \<notin> set before \<Longrightarrow> unrecorded env v w' e"
  unfolding unrecorded_def by fastforce

lemma put_pending_fire_error:
  assumes run: "put_pending_fire env f w = (Inl err, w')"
  shows "\<exists>e. err = Error e \<and> unrecorded env w w' e"
proof -
  have log: "\<exists>new. w_log w' = w_log w @ new \<and> (\<forall>a c p. Woke a c p \<notin> set new)"
    using io_keepsD [OF aside_ops(3) run] by (simp add: aside_def)
  from run show ?thesis
  proof (rule put_pending_fire_cases)
    fix k e
    assume "e_disk env (w_calls w) = Fails k e" "Inl err = Inl (Error e)" "w_calls w' = Suc (w_calls w)"
    then show ?thesis using log by (auto simp: unrecorded_def)
  next
    fix b
    assume err: "\<And>e. Inl err = Inl e \<Longrightarrow> \<exists>j m. e_disk env (Suc (w_calls w)) = Fails j m \<and> e = Error m"
      and calls: "w_calls w' = Suc (Suc (w_calls w))"
    obtain j m where "e_disk env (Suc (w_calls w)) = Fails j m" "err = Error m" using err by blast
    then show ?thesis using calls log by (auto simp: unrecorded_def)
  qed simp
qed

lemma deliver_fire_outcome:
  assumes run: "deliver_fire env fire w = (r, w')" and fresh: "\<not> fire_is_delivered (fire_key fire) (w_store w)"
    and alone: "leaves_fire env (fire_key fire)"
  shows "fire_is_pending (fire_key fire) (w_store w') \<or>
    (fire_is_delivered (fire_key fire) (w_store w') \<and>
     Woke (fr_agent_id fire) (fr_conversation_id fire) (fr_prompt fire) \<in> set (w_log w')) \<or>
    (\<exists>e. r = Inl (Error e) \<and> unrecorded env w w' e)"
proof -
  obtain r1 w1 where put: "put_pending_fire env fire w = (r1, w1)" by fastforce
  show ?thesis
  proof (cases r1)
    case (Inl err)
    then have "r = Inl err" "w' = w1" using run put by (auto simp: deliver_fire_def io_bind_def)
    then show ?thesis using put_pending_fire_error put Inl by blast
  next
    case (Inr u)
    then have pending: "fire_is_pending (fire_key fire) (w_store w1)"
      using fires.put_records [OF alone, of w] put fresh by simp
    let ?send = "e_send_wakeup env (w_calls w1) (fr_agent_id fire) (fr_conversation_id fire) (fr_prompt fire)"
    show ?thesis
    proof (cases ?send)
      case (Inl e)
      then have "w' = w1\<lparr>w_calls := Suc (w_calls w1)\<rparr>"
        using run put \<open>r1 = Inr u\<close> by (auto simp: deliver_fire_def io_bind_def call_env_def Let_def)
      then show ?thesis using pending by simp
    next
      case (Inr v)
      let ?wake = "Woke (fr_agent_id fire) (fr_conversation_id fire) (fr_prompt fire)"
      let ?w2 = "w1\<lparr>w_calls := Suc (w_calls w1), w_log := w_log w1 @ [?wake]\<rparr>"
      have mark: "mark_fire_delivered env (fst (fire_key fire)) (snd (fire_key fire)) ?w2 = (r, w')"
        using run put \<open>r1 = Inr u\<close> Inr
        by (auto simp: deliver_fire_def io_bind_def call_env_def Let_def fire_key_def)
      have "w_log w' = w_log ?w2" using io_keepsD [OF aside_ops(4) mark] by (simp add: aside_def)
      then have "?wake \<in> set (w_log w')" by simp
      then show ?thesis using mark_fire_delivered_cases [OF mark alone] pending by auto
    qed
  qed
qed

lemma run_and_report_outcome:
  assumes run: "run_and_report env t sandbox run_id slot w = (r, w')"
    and fresh: "\<not> fire_is_delivered (st_id t, slot) (w_store w)" and alone: "leaves_fire env (st_id t, slot)"
    and wrote: "Wrote_Artifact c p \<notin> set (w_log w)" "Wrote_Artifact c p \<in> set (w_log w')"
  shows "fire_is_pending (st_id t, slot) (w_store w') \<or>
    (fire_is_delivered (st_id t, slot) (w_store w') \<and>
     (\<exists>prompt. Woke (st_agent_id t) (st_conversation_id t) prompt \<in> set (w_log w'))) \<or>
    (\<exists>e. r = Inl (Error e) \<and> unrecorded env w w' e)"
proof -
  obtain cr w1 where cmd: "io_try (run_commands env t sandbox) w = (cr, w1)" by fastforce
  have "logs_only (\<lambda>e. \<exists>i c. e = Ran i c) w w1"
    using io_keepsD [OF io_keeps_try [OF run_commands_logs] cmd] .
  then obtain ran where w1: "w_store w1 = w_store w" "Wrote_Artifact c p \<notin> set (w_log w1)"
      "w_log w1 = w_log w @ ran" "\<forall>a c p. Woke a c p \<notin> set ran"
    using wrote(1) unfolding logs_only_def by auto
  show ?thesis
  proof (cases cr)
    case (Inl e)
    then have "w' = w1" using run cmd by (auto simp: run_and_report_def io_bind_def)
    then show ?thesis using w1(2) wrote(2) by simp
  next
    case (Inr res)
    let ?path = "''scheduled-tasks/'' @ st_name t @ ''/'' @ run_id @ ''.json''"
    let ?w2 = "w1\<lparr>w_calls := Suc (w_calls w1)\<rparr>"
    show ?thesis
    proof (cases "e_write_artifact env (w_calls w1) (st_conversation_id t) ?path
        (task_artifact_of env t run_id (summarize res))")
      case (Inl e)
      then have "w' = ?w2"
        using run cmd Inr by (auto simp: run_and_report_def io_bind_def call_env_def Let_def)
      then show ?thesis using w1(2) wrote(2) by simp
    next
      case (Inr a)
      let ?w3 = "?w2\<lparr>w_log := w_log w1 @ [Wrote_Artifact (st_conversation_id t) ?path],
          w_calls := Suc (w_calls ?w2)\<rparr>"
      obtain prompt where "run_prompt env t run_id (summarize res) a = Inr prompt"
        using run_prompt_total cmd \<open>cr = Inr res\<close> by blast
      then have rest: "io_bind (deliver_fire env (run_fire t slot run_id prompt (e_now env (w_calls ?w2)))) (\<lambda>_.
          io_return (run_output (summarize res) a)) ?w3 = (r, w')"
        using run cmd \<open>cr = Inr res\<close> Inr
        by (simp add: run_and_report_def io_bind_def call_env_def Let_def io_lift_def now_ms_run
            run_fire_def run_output_def)
      define fire where "fire = run_fire t slot run_id prompt (e_now env (w_calls ?w2))"
      obtain r' where fire: "deliver_fire env fire ?w3 = (r', w')" "fire_key fire = (st_id t, slot)"
          "fr_agent_id fire = st_agent_id t" "fr_conversation_id fire = st_conversation_id t"
          and err: "\<And>e. r' = Inl e \<Longrightarrow> r = Inl e"
        using rest by (auto simp: fire_def io_bind_def io_return_def run_fire_def fire_key_def
            split: prod.splits sum.splits)
      have "unrecorded env w w' e" if "unrecorded env ?w3 w' e" for e
        by (rule unrecorded_from [OF that, of w "ran @ [Wrote_Artifact (st_conversation_id t) ?path]"]) (use w1(3,4) in simp_all)
      then show ?thesis
        using deliver_fire_outcome [OF fire(1)] fire(2-4) fresh alone w1(1) err by auto
    qed
  qed
qed

section \<open>The task table during a run\<close>

text \<open>A step that leaves the task files alone.\<close>

definition keeps_tasks :: "world \<Rightarrow> world \<Rightarrow> bool" where
  "keeps_tasks w w' \<longleftrightarrow> ss_tasks (w_store w') = ss_tasks (w_store w)"

lemma keeps_tasks_refl: "reflp keeps_tasks"
  by (simp add: reflp_def keeps_tasks_def)

lemma keeps_tasks_trans: "transp keeps_tasks"
  by (simp add: transp_def keeps_tasks_def)

lemma keeps_tasks_call: "io_keeps keeps_tasks (call_env f effs)"
  by (simp add: io_keeps_def call_env_def keeps_tasks_def Let_def split: sum.splits)

lemma keeps_tasks_access:
  assumes "undisturbed env" and "\<And>d u s. ss_tasks (snd (f d u s)) = ss_tasks s"
  shows "io_keeps keeps_tasks (store_access env f)"
proof (rule store_access_keeps)
  fix w :: world and d u
  have "e_others env n s = s" for n s using assms(1) by (simp add: undisturbed_def)
  then show "keeps_tasks w (w\<lparr>w_store := snd (f d u (e_others env (w_calls w) (w_store w))), w_calls := Suc (w_calls w)\<rparr>)"
    by (simp add: keeps_tasks_def assms(2))
qed

lemma keeps_tasks_write:
  assumes "undisturbed env" and "\<And>u s. states u s \<noteq> []"
    and "\<And>u s s'. s' \<in> set (states u s) \<Longrightarrow> ss_tasks s' = ss_tasks s"
  shows "io_keeps keeps_tasks (store_write env states)"
  unfolding store_write_def
  by (rule keeps_tasks_access [OF assms(1)]) (rule assms(3) [OF commit_in [OF assms(2)]])

lemma keeps_tasks_ops:
  assumes "undisturbed env"
  shows "io_keeps keeps_tasks (put_run env run)" "io_keeps keeps_tasks (put_pending_fire env fire)"
    "io_keeps keeps_tasks (mark_fire_delivered env a m)"
proof -
  have read: "io_keeps keeps_tasks (store_read env g)" for g :: "scheduler_store \<Rightarrow> bool result"
    unfolding store_read_def by (rule keeps_tasks_access [OF assms]) simp
  have "ss_tasks (snd (retire_fire a m d s)) = ss_tasks s" for d s
    by (auto simp: retire_fire_def disk_commit_def nth_Cons' split: option.splits disk.splits)
  then have retire: "io_keeps keeps_tasks (store_access env (\<lambda>d u. retire_fire a m d))"
    by (intro keeps_tasks_access [OF assms])
  show "io_keeps keeps_tasks (put_run env run)" "io_keeps keeps_tasks (put_pending_fire env fire)"
      "io_keeps keeps_tasks (mark_fire_delivered env a m)"
    unfolding put_run_def put_pending_fire_def fire_was_delivered_def mark_fire_delivered_def
    by (auto intro!: io_keeps_bind [OF keeps_tasks_trans] io_keeps_pure [OF keeps_tasks_refl] read retire
        keeps_tasks_write [OF assms] simp: write_json_states_def Let_def)
qed

lemmas keeps_tasks_intros =
  io_keeps_bind [OF keeps_tasks_trans] io_keeps_pure [OF keeps_tasks_refl] io_keeps_try
  keeps_tasks_call

lemma run_task_inner_keeps:
  assumes "undisturbed env"
  shows "io_keeps keeps_tasks (run_task_inner env t run_id slot)"
  unfolding run_task_inner_def prepare_run_def resolve_task_sandbox_def run_and_report_def run_commands_def
    run_in_sandbox_def deliver_fire_def now_ms_io_def Let_def
  by (auto intro!: keeps_tasks_intros keeps_tasks_ops [OF assms] split: sandbox_mode.splits option.splits sum.splits prod.splits)

lemma same_tasks_view:
  "ss_tasks s' = ss_tasks s \<Longrightarrow> store_wf s' = store_wf s \<and> task_view s' = task_view s"
  by (simp add: store_wf_def task_view_def task_entry_def fun_eq_iff)

text \<open>The sandbox a run resolves is the only thing it changes on the task.\<close>

lemma prepare_run_task:
  assumes "prepare_run env t w = (Inr (sandbox, t'), w')"
  shows "\<exists>i. t' = t\<lparr>st_task_sandbox_id := i\<rparr>"
proof -
  have same: "t = t\<lparr>st_task_sandbox_id := st_task_sandbox_id t\<rparr>" by simp
  obtain v where "resolve_task_sandbox env t v = (Inr (sandbox, t'), w')"
    using assms unfolding prepare_run_def io_bind_Inr_iff by blast
  then have "t' = t \<or> (\<exists>i. t' = t\<lparr>st_task_sandbox_id := i\<rparr>)"
    by (auto simp: resolve_task_sandbox_def io_bind_Inr_iff io_return_def
        split: sandbox_mode.splits option.splits)
  then show ?thesis using same by metis
qed

lemma io_try_Inr: "io_try m w = (Inr (Inr x), w') \<longleftrightarrow> m w = (Inr x, w')"
  by (auto simp: io_try_def split: prod.splits sum.splits error.splits)

lemma run_task_inner_cases:
  assumes "run_task_inner env t run_id slot w = (Inr (r, t'), w')"
  shows "(\<exists>e. io_try (prepare_run env t) w = (Inr (Inl e), w') \<and> r = Inl e \<and> t' = t) \<or>
    (\<exists>sandbox w1. prepare_run env t w = (Inr (sandbox, t'), w1) \<and>
       io_try (run_and_report env t' sandbox run_id slot) w1 = (Inr r, w'))"
proof -
  obtain prep w1 where prep: "io_try (prepare_run env t) w = (Inr prep, w1)"
    and rest: "(case prep of Inl e \<Rightarrow> io_return (Inl e, t)
      | Inr (sandbox, t') \<Rightarrow>
         io_bind (io_try (run_and_report env t' sandbox run_id slot)) (\<lambda>r. io_return (r, t'))) w1
      = (Inr (r, t'), w')"
    using assms unfolding run_task_inner_def io_bind_Inr_iff by blast
  show ?thesis
  proof (cases prep)
    case (Inl e)
    then show ?thesis using prep rest by (simp add: io_return_def)
  next
    case (Inr p)
    then obtain sandbox t1 where p: "prep = Inr (sandbox, t1)" by (cases p) simp
    have "t1 = t'" and "io_try (run_and_report env t' sandbox run_id slot) w1 = (Inr r, w')"
      using rest unfolding p by (auto simp: io_bind_Inr_iff io_return_def)
    then show ?thesis using prep p by (auto simp: io_try_Inr)
  qed
qed

lemma run_task_inner_task:
  assumes "run_task_inner env t run_id slot w = (Inr (r, t'), w')"
  shows "\<exists>i. t' = t\<lparr>st_task_sandbox_id := i\<rparr>"
proof -
  have same: "t = t\<lparr>st_task_sandbox_id := st_task_sandbox_id t\<rparr>" by simp
  show ?thesis using run_task_inner_cases [OF assms] prepare_run_task same by metis
qed

text \<open>The parts of \<open>fire_once\<close>: the run, then the two writes.\<close>

lemma fire_once_unfold:
  assumes "fire_once env t slot w = (Inr (run, t'), w')"
  obtains run_id r t1 w1 w2 w3 started finished where
    "run_task_inner env t run_id slot (w\<lparr>w_calls := Suc (Suc (w_calls w))\<rparr>) = (Inr (r, t1), w1)"
    "run = run_record run_id (st_id t1) started finished r" "t' = settle_task run finished t1"
    "w2 = w1\<lparr>w_calls := Suc (w_calls w1)\<rparr>"
    "put_run env run w2 = (Inr (), w3)" "put_task env t' w3 = (Inr (), w')"
  using assms unfolding fire_once_def io_bind_Inr_iff now_ms_run fresh_uuid_eq
  by (auto simp: Let_def io_bind_Inr_iff now_ms_run io_return_def)

lemma settle_task_sel:
  "st_id (settle_task run m t) = st_id t" "st_schema_version (settle_task run m t) = st_schema_version t"
  "st_schedule (settle_task run m t) = st_schedule t"
  "st_latest_run_id (settle_task run m t) = Some (tr_id run)"
  "st_enabled (settle_task run m t) \<longleftrightarrow>
     st_enabled t \<and> \<not> (\<exists>e. tr_error run = Some e \<and> is_missing_task_owner_error e)"
  by (auto simp: settle_task_def mark_completed_def Let_def split: option.splits)

lemma fire_once_frame:
  assumes fire: "fire_once env t slot w = (Inr (run, t'), w')"
    and wf: "store_wf (w_store w)" "st_id t \<noteq> []" "st_schema_version t = 2" and alone: "undisturbed env"
  shows "store_wf (w_store w') \<and> task_view (w_store w') = (task_view (w_store w))(st_id t \<mapsto> t') \<and>
    st_id t' = st_id t \<and> st_schema_version t' = 2 \<and> tr_task_id run = st_id t \<and>
    (st_enabled t' \<longleftrightarrow> st_enabled t \<and> \<not> (\<exists>e. tr_error run = Some e \<and> is_missing_task_owner_error e))"
proof -
  obtain run_id r t1 w1 w2 w3 started finished where
    inner: "run_task_inner env t run_id slot (w\<lparr>w_calls := Suc (Suc (w_calls w))\<rparr>) = (Inr (r, t1), w1)"
    and run: "run = run_record run_id (st_id t1) started finished r"
    and t': "t' = settle_task run finished t1" and w2: "w2 = w1\<lparr>w_calls := Suc (w_calls w1)\<rparr>"
    and puts: "put_run env run w2 = (Inr (), w3)" "put_task env t' w3 = (Inr (), w')"
    using fire_once_unfold [OF fire] by metis
  obtain i where t1: "t1 = t\<lparr>st_task_sandbox_id := i\<rparr>" using run_task_inner_task [OF inner] by blast
  have fields: "st_id t' = st_id t" "st_schema_version t' = 2"
      "st_enabled t' \<longleftrightarrow> st_enabled t \<and> \<not> (\<exists>e. tr_error run = Some e \<and> is_missing_task_owner_error e)"
    unfolding t' t1 settle_task_sel using wf(3) by simp_all
  have "ss_tasks (w_store w3) = ss_tasks (w_store w)"
    using io_keepsD [OF run_task_inner_keeps [OF alone] inner] io_keepsD [OF keeps_tasks_ops(1) [OF alone] puts(1)] w2
    by (simp add: keeps_tasks_def)
  then have w3: "store_wf (w_store w3)" "task_view (w_store w3) = task_view (w_store w)"
    using same_tasks_view wf(1) by blast+
  have quiet: "e_others env n s = s" for n s using alone by (simp add: undisturbed_def)
  have "store_wf (w_store w')" "task_view (w_store w') = (task_view (w_store w))(st_id t \<mapsto> t')"
    using put_task_run [OF puts(2), unfolded quiet, OF w3(1)] wf(2) fields w3(2) by simp_all
  moreover have "tr_task_id run = st_id t"
    unfolding run t1 by (simp add: run_record_def split: sum.splits)
  ultimately show ?thesis using fields by simp
qed

lemma fire_slots_frame:
  assumes "fire_slots env t slots w = (Inr (runs, t'), w')"
    and "store_wf (w_store w)" "st_id t \<noteq> []" "st_schema_version t = 2" and "undisturbed env"
  shows "store_wf (w_store w') \<and> st_id t' = st_id t \<and> st_schema_version t' = 2 \<and>
    (\<forall>k. k \<noteq> st_id t \<longrightarrow> task_view (w_store w') k = task_view (w_store w) k) \<and>
    length runs \<le> length slots \<and> (\<forall>run \<in> set runs. tr_task_id run = st_id t) \<and>
    (st_enabled t' \<longrightarrow> length runs = length slots) \<and>
    (st_enabled t' \<longleftrightarrow> st_enabled t \<and>
       (\<forall>run \<in> set runs. \<not> (\<exists>e. tr_error run = Some e \<and> is_missing_task_owner_error e)))"
  using assms(1-4)
proof (induction slots arbitrary: t w runs)
  case Nil
  then show ?case by (auto simp: io_return_def)
next
  case (Cons slot slots)
  obtain run t1 w1 where fire: "fire_once env t slot w = (Inr (run, t1), w1)"
    and rest: "(if \<not> st_enabled t1 then io_return ([run], t1)
        else io_bind (fire_slots env t1 slots) (\<lambda>(runs, t''). io_return (run # runs, t''))) w1
        = (Inr (runs, t'), w')"
    using Cons.prems(1) by (auto simp: io_bind_Inr_iff)
  note frame = fire_once_frame [OF fire Cons.prems(2-4) assms(5)]
  show ?case
  proof (cases "st_enabled t1")
    case False
    then show ?thesis using rest frame by (auto simp: io_return_def)
  next
    case True
    then obtain runs1 where r: "fire_slots env t1 slots w1 = (Inr (runs1, t'), w')" "runs = run # runs1"
      using rest by (auto simp: io_bind_Inr_iff io_return_def)
    show ?thesis
      using Cons.IH [OF r(1)] frame Cons.prems(3) True r(2) by auto
  qed
qed

lemma run_task_frame:
  assumes "run_task env t w = (Inr runs, w')"
    and "store_wf (w_store w)" "st_id t \<noteq> []" "st_schema_version t = 2" and "undisturbed env"
  shows "\<exists>plan t'. plan_missed_fires (e_rfc3339 env) t (e_now env (w_calls w)) = Inr plan \<and>
    store_wf (w_store w') \<and> task_view (w_store w') (st_id t) = Some t' \<and> st_lease t' = None \<and>
    st_next_run_at_ms t' = mp_next_run_at_ms plan \<and> st_last_missed_fire t' = Some (mp_outcome plan) \<and>
    (\<forall>k. k \<noteq> st_id t \<longrightarrow> task_view (w_store w') k = task_view (w_store w) k) \<and>
    length runs \<le> length (mp_fire_slots plan) \<and> (\<forall>run \<in> set runs. tr_task_id run = st_id t) \<and>
    (st_enabled t' \<longrightarrow> length runs = length (mp_fire_slots plan)) \<and>
    (st_enabled t' \<longleftrightarrow> st_enabled t \<and>
       (\<forall>run \<in> set runs. \<not> (\<exists>e. tr_error run = Some e \<and> is_missing_task_owner_error e)))"
proof -
  let ?w = "w\<lparr>w_calls := Suc (w_calls w)\<rparr>"
  have quiet: "e_others env n s = s" for n s using assms(5) by (simp add: undisturbed_def)
  obtain plan t1 w1 where plan: "plan_missed_fires (e_rfc3339 env) t (e_now env (w_calls w)) = Inr plan"
    and slots: "fire_slots env t (mp_fire_slots plan) ?w = (Inr (runs, t1), w1)"
    and put: "put_task env (resume_after_fires plan (e_now env (w_calls w1)) t1)
       (w1\<lparr>w_calls := Suc (w_calls w1)\<rparr>) = (Inr (), w')"
    using assms(1) unfolding run_task_def
    by (auto simp: io_bind_Inr_iff now_ms_run io_lift_def io_return_def)
  let ?t' = "resume_after_fires plan (e_now env (w_calls w1)) t1"
  note frame = fire_slots_frame [OF slots _ assms(3-5)]
  have "st_id ?t' = st_id t \<and> st_schema_version ?t' = 2"
    using frame assms(2) by (simp add: resume_after_fires_def)
  then have "store_wf (w_store w')" "task_view (w_store w') = (task_view (w_store w1))(st_id t \<mapsto> ?t')"
    using put_task_run [OF put] frame assms(2,3) by (simp_all add: quiet)
  then show ?thesis
    using plan frame assms(2-4) by (intro exI [of _ plan] exI [of _ ?t']) (simp add: resume_after_fires_def)
qed

lemma run_tasks_frame:
  assumes "run_tasks env ts w = (Inr runs, w')" and "store_wf (w_store w)"
    and "\<forall>t \<in> set ts. st_id t \<noteq> [] \<and> st_schema_version t = 2" and "undisturbed env"
  shows "store_wf (w_store w') \<and>
    (\<forall>k \<in> st_id ` set ts. \<exists>t'. task_view (w_store w') k = Some t' \<and> st_lease t' = None) \<and>
    (\<forall>k. k \<notin> st_id ` set ts \<longrightarrow> task_view (w_store w') k = task_view (w_store w) k)"
  using assms(1-3)
proof (induction ts arbitrary: w runs)
  case Nil
  then show ?case by (auto simp: io_return_def)
next
  case (Cons t ts)
  obtain r w1 rs where one: "run_task env t w = (Inr r, w1)" and rest: "run_tasks env ts w1 = (Inr rs, w')"
    using Cons.prems(1) by (auto simp: io_bind_Inr_iff io_return_def)
  have t: "st_id t \<noteq> []" "st_schema_version t = 2" using Cons.prems(3) by auto
  from run_task_frame [OF one Cons.prems(2) t assms(4)] obtain t1 where
    f: "store_wf (w_store w1)" "task_view (w_store w1) (st_id t) = Some t1" "st_lease t1 = None"
      "\<And>k. k \<noteq> st_id t \<Longrightarrow> task_view (w_store w1) k = task_view (w_store w) k"
    by blast
  have IH: "store_wf (w_store w')"
      "\<forall>k \<in> st_id ` set ts. \<exists>t'. task_view (w_store w') k = Some t' \<and> st_lease t' = None"
      "\<forall>k. k \<notin> st_id ` set ts \<longrightarrow> task_view (w_store w') k = task_view (w_store w1) k"
    using Cons.IH [OF rest f(1)] Cons.prems(3) by auto
  have "\<exists>t'. task_view (w_store w') (st_id t) = Some t' \<and> st_lease t' = None"
    using IH(2,3) f(2,3) by (cases "st_id t \<in> st_id ` set ts") auto
  then show ?case using IH f(4) by auto
qed

section \<open>Properties of a run\<close>

lemma read_limited_loop_full:
  "length out = m \<Longrightarrow> truncated \<Longrightarrow> read_limited_loop m out truncated (map Inr chunks) = Inr (out, True)"
  by (induction chunks arbitrary: out) auto

lemma read_limited_loop_spec:
  assumes "length out \<le> m"
  shows "read_limited_loop m out False (map Inr chunks) =
    Inr (take m (out @ concat (takeWhile (\<lambda>b. b \<noteq> []) chunks)),
         m < length (out @ concat (takeWhile (\<lambda>b. b \<noteq> []) chunks)))"
  using assms
proof (induction chunks arbitrary: out)
  case (Cons b chunks)
  show ?case
  proof (cases "m - length out < length b")
    case True
    then have "length (out @ take (m - length out) b) = m" using Cons.prems by simp
    from read_limited_loop_full [OF this] True Cons.prems show ?thesis by auto
  next
    case False
    then show ?thesis using Cons.IH [of "out @ b"] Cons.prems by (cases "b = []") auto
  qed
qed simp

text \<open>captured output is the longest allowed prefix of what the process wrote up to its first
  empty read, and the truncation flag is set exactly when something was dropped.\<close>

theorem read_limited_keeps_prefix:
  "read_limited (map Inr chunks) max_bytes =
     Ok (take (unat max_bytes) (concat (takeWhile (\<lambda>b. b \<noteq> []) chunks)),
         unat max_bytes < length (concat (takeWhile (\<lambda>b. b \<noteq> []) chunks)))"
  using read_limited_loop_spec [of "[]" "unat max_bytes" chunks] by (simp add: read_limited_def)

text \<open>the main command of a task with a setup command runs only after the setup command ran and
  exited with zero; a setup failure is reported as such and nothing else runs.\<close>

theorem setup_gates_command:
  assumes "st_setup_command t = Some c" and "run_commands env t sandbox w = (r, w')"
  shows "(\<exists>es. w_log w' = w_log w @ es \<and> (es = [] \<or> es = [Ran (sandbox_id_of sandbox) c] \<or>
        es = [Ran (sandbox_id_of sandbox) c, Ran (sandbox_id_of sandbox) (st_command t)] \<and>
        (\<exists>p out. e_run env (w_calls w) sandbox c = Inr p \<and> po_exit_code out = Some 0 \<and>
           read_process_output p (st_max_output_bytes t) DEFAULT_COMMAND_TIMEOUT_MS = Inr out))) \<and>
    (\<forall>p out. e_run env (w_calls w) sandbox c = Inr p \<longrightarrow>
       read_process_output p (st_max_output_bytes t) DEFAULT_COMMAND_TIMEOUT_MS = Inr out \<longrightarrow>
       po_exit_code out \<noteq> Some 0 \<longrightarrow>
       (\<exists>o'. r = Inr o' \<and> co_error o' = Some ''setup command exited non-zero'' \<and>
          co_setup o' = Some out \<and> co_main o' = process_output_empty))"
proof (cases "e_run env (w_calls w) sandbox c")
  case (Inl e)
  then show ?thesis
    using assms by (auto simp: run_commands_def io_bind_def run_in_sandbox_def call_env_def Let_def)
next
  case (Inr p)
  let ?read = "\<lambda>q. read_process_output q (st_max_output_bytes t) DEFAULT_COMMAND_TIMEOUT_MS"
  show ?thesis
  proof (cases "?read p")
    case (Inl e)
    then show ?thesis using Inr assms
      by (auto simp: run_commands_def io_bind_def run_in_sandbox_def call_env_def Let_def io_lift_def)
  next
    case (Inr out)
    show ?thesis
    proof (cases "po_exit_code out = Some 0")
      case False
      then show ?thesis using \<open>e_run env (w_calls w) sandbox c = Inr p\<close> Inr assms
        by (auto simp: run_commands_def io_bind_def run_in_sandbox_def call_env_def Let_def
            io_lift_def io_return_def)
    next
      case True
      then have "w_log w' = w_log w @ [Ran (sandbox_id_of sandbox) c] \<or>
          w_log w' = w_log w @ [Ran (sandbox_id_of sandbox) c, Ran (sandbox_id_of sandbox) (st_command t)]"
        using \<open>e_run env (w_calls w) sandbox c = Inr p\<close> Inr assms
        by (auto simp: run_commands_def io_bind_def run_in_sandbox_def call_env_def Let_def
            io_lift_def io_return_def split: sum.splits)
      then show ?thesis using \<open>e_run env (w_calls w) sandbox c = Inr p\<close> Inr True by auto
    qed
  qed
qed

text \<open>A small environment for the witnesses: every lookup succeeds, every command prints and exits
  with \<open>code\<close>, and the wakeup transport answers \<open>send\<close>.\<close>

definition sample_env :: "int \<Rightarrow> unit result \<Rightarrow> env" where
  "sample_env code send =
     \<lparr> e_uuid = (\<lambda>n. replicate (Suc n) (CHR ''u'')), e_disk = (\<lambda>_. Works), e_others = (\<lambda>_ s. s),
       e_now = (\<lambda>_. 1500), e_rfc3339 = (\<lambda>_. Inl ''no''),
       e_lossy = id, e_get_agent = (\<lambda>_ _. Inr True), e_get_conversation = (\<lambda>_ _ _. Inr True),
       e_load_configs = (\<lambda>_ _ _. Inr ()), e_ensure_agent_sandbox = (\<lambda>_ _. Inr ''box''),
       e_ensure_conversation_sandbox = (\<lambda>_ _ _. Inr ''box''),
       e_create_conversation_sandbox = (\<lambda>_ _ _. Inr ''box''),
       e_run = (\<lambda>_ _ _. Inr \<lparr> pr_stdout = [Inr ''out''], pr_stderr = [], pr_exit = Inr code, pr_times_out = False \<rparr>),
       e_write_artifact = (\<lambda>_ _ path _. Inr \<lparr> ar_artifact_id = ''a'', ar_path = path, ar_version = 1 \<rparr>),
       e_send_wakeup = (\<lambda>_ _ _ _. send) \<rparr>"

lemma sample_env_calm: "calm (sample_env code send)" "undisturbed (sample_env code send)"
  by (simp_all add: calm_def undisturbed_def sample_env_def)

definition sample_world :: world where
  "sample_world = \<lparr> w_store = sample_store, w_calls = 0, w_log = [] \<rparr>"

lemma sample_read:
  "read_process_output \<lparr> pr_stdout = [Inr ''out''], pr_stderr = [], pr_exit = Inr code, pr_times_out = False \<rparr>
     200000 l =
   Inr \<lparr> po_exit_code = Some code, po_stdout = ''out'', po_stderr = [], po_truncated = False \<rparr>"
  by (simp add: read_process_output_def read_limited_def)

theorem setup_gates_command_witness:
  "\<exists>o' w'. run_commands (sample_env 3 (Inr ())) ((sample_task ''@every 1s'' Once 1000)\<lparr>st_setup_command := Some [''prep'']\<rparr>)
       (Sandbox_Agent ''box'') sample_world = (Inr o', w') \<and>
     co_error o' = Some ''setup command exited non-zero''"
proof -
  let ?t = "(sample_task ''@every 1s'' Once 1000)\<lparr>st_setup_command := Some [''prep'']\<rparr>"
  let ?p = "\<lparr> pr_stdout = [Inr ''out''], pr_stderr = [], pr_exit = Inr 3, pr_times_out = False \<rparr>"
  obtain r w' where run: "run_commands (sample_env 3 (Inr ())) ?t (Sandbox_Agent ''box'') sample_world = (r, w')"
    by fastforce
  have has_setup: "st_setup_command ?t = Some [''prep'']" by simp
  have env: "e_run (sample_env 3 (Inr ())) (w_calls sample_world) (Sandbox_Agent ''box'') [''prep''] = Inr ?p"
    by (simp add: sample_env_def)
  have bytes: "st_max_output_bytes ?t = 200000" by (simp add: sample_task_def)
  from setup_gates_command [OF has_setup run] env sample_read [of 3 DEFAULT_COMMAND_TIMEOUT_MS]
  have "\<exists>o'. r = Inr o' \<and> co_error o' = Some ''setup command exited non-zero''"
    unfolding bytes by fastforce
  with run show ?thesis by blast
qed

text \<open>The end of \<open>fire_once\<close>, after the run.\<close>

lemma fire_once_split:
  assumes fire: "fire_once env t slot w = (res, w')" and alone: "leaves_fire env k"
  obtains inner w1 where
    "run_task_inner env t (e_uuid env (Suc (w_calls w))) slot (w\<lparr>w_calls := Suc (Suc (w_calls w))\<rparr>) = (inner, w1)"
    "w_log w' = w_log w1" "keeps_fire k w1 w'"
    "\<And>run t'. res = Inr (run, t') \<Longrightarrow> \<exists>r t1. inner = Inr (r, t1) \<and> (\<forall>e. r = Inl e \<longrightarrow> tr_error run = Some e)"
proof -
  let ?w = "w\<lparr>w_calls := Suc (Suc (w_calls w))\<rparr>"
  let ?id = "e_uuid env (Suc (w_calls w))"
  obtain inner w1 where inner: "run_task_inner env t ?id slot ?w = (inner, w1)" by fastforce
  let ?rest = "\<lambda>(r, t1). io_bind (now_ms_io env) (\<lambda>m.
      let run = run_record ?id (st_id t1) (e_now env (w_calls w)) m r; t2 = settle_task run m t1 in
      io_bind (put_run env run) (\<lambda>_. io_bind (put_task env t2) (\<lambda>_. io_return (run, t2))))"
  have whole: "(case inner of Inl e \<Rightarrow> (Inl e, w1) | Inr x \<Rightarrow> ?rest x w1) = (res, w')"
    using fire inner by (cases inner) (simp_all add: fire_once_def io_bind_def now_ms_run fresh_uuid_eq)
  have now: "io_keeps (keeps_fire k) (now_ms_io env)"
    by (simp add: io_keeps_def now_ms_run keeps_fire_def)
  have ends: "io_keeps aside (?rest x)" "io_keeps (keeps_fire k) (?rest x)" for x
    by (auto simp: Let_def split: prod.splits intro!: aside_intros aside_ops io_keeps_bind [OF keeps_fire_preorder(2)]
        io_keeps_pure [OF keeps_fire_preorder(1)] now keeps_fire_put [OF alone])
  have "w_log w' = w_log w1 \<and> keeps_fire k w1 w'"
    using whole io_keepsD [OF ends(1), of _ w1 res w'] io_keepsD [OF ends(2), of _ w1 res w']
    by (cases inner) (auto simp: aside_def keeps_fire_def)
  moreover have "\<exists>r t1. inner = Inr (r, t1) \<and> (\<forall>e. r = Inl e \<longrightarrow> tr_error run = Some e)"
    if "res = Inr (run, t')" for run t'
    using whole that by (cases inner)
      (auto simp: io_bind_Inr_iff Let_def io_return_def run_record_def split: sum.splits)
  ultimately show thesis using that [OF inner] by blast
qed

text \<open>A run that wrote its artifact leaves its fire pending, or delivered with a wakeup, or ends with the error of the file
  access that should have recorded it.\<close>

lemma run_task_inner_outcome:
  assumes inner: "run_task_inner env t run_id slot w = (inner, w')"
    and fresh: "\<not> fire_is_delivered (st_id t, slot) (w_store w)" and alone: "leaves_fire env (st_id t, slot)"
    and wrote: "Wrote_Artifact c p \<notin> set (w_log w)" "Wrote_Artifact c p \<in> set (w_log w')"
  shows "fire_is_pending (st_id t, slot) (w_store w') \<or>
    (fire_is_delivered (st_id t, slot) (w_store w') \<and>
     (\<exists>prompt. Woke (st_agent_id t) (st_conversation_id t) prompt \<in> set (w_log w'))) \<or>
    (\<exists>e t1. inner = Inr (Inl e, t1) \<and> unrecorded env w w' e)"
proof -
  have prep_logs: "io_keeps (logs_only (\<lambda>e. False)) (prepare_run env t)"
    unfolding prepare_run_def by (auto intro!: logs_only_intros resolve_logs)
  obtain prep w2 where prep: "prepare_run env t w = (prep, w2)" by fastforce
  have w2: "w_store w2 = w_store w" "w_log w2 = w_log w"
    using io_keepsD [OF prep_logs prep] by (auto simp: logs_only_def)
  show ?thesis
  proof (cases prep)
    case (Inl e)
    then have "w_log w' = w_log w"
      using inner prep w2(2) by (cases e) (auto simp: run_task_inner_def io_bind_def io_try_def io_return_def)
    then show ?thesis using wrote by simp
  next
    case (Inr x)
    obtain sandbox t1 where x: "x = (sandbox, t1)" by (cases x)
    obtain i where t1: "t1 = t\<lparr>st_task_sandbox_id := i\<rparr>" using prepare_run_task prep Inr x by blast
    obtain r0 where run: "run_and_report env t1 sandbox run_id slot w2 = (r0, w')"
      and r0: "\<And>e. r0 = Inl (Error e) \<Longrightarrow> inner = Inr (Inl e, t1)"
      using inner prep Inr x
      by (auto simp: run_task_inner_def io_bind_def io_try_def io_return_def
          split: prod.splits sum.splits error.splits)
    have same: "st_id t1 = st_id t" "st_agent_id t1 = st_agent_id t" "st_conversation_id t1 = st_conversation_id t"
      by (simp_all add: t1)
    have "unrecorded env w w' e" if "unrecorded env w2 w' e" for e
      using unrecorded_from [OF that, of w "[]"] w2(2) by simp
    then show ?thesis
      using run_and_report_outcome [OF run, of c p] fresh alone wrote r0 unfolding same w2(1,2) by blast
  qed
qed

text \<open>C6: no completed run is silent. Suppose firing a slot that was not delivered before wrote a result
  artifact, and the other processes leave the fire of this task and slot alone. Then, whether the firing
  succeeds or fails, afterwards the slot is pending (the next start redelivers it), or it is delivered
  and the task's conversation was woken, or the fire could not be recorded: then the run ended with the error
  that the file system gave to its last access, before any wakeup was sent, and a run record that is
  returned holds this error. Every file access may fail and leave any state of the write behind, sending the
  wakeup may fail, and so may confirming it.\<close>

theorem fired_run_is_reported_or_redeliverable:
  assumes fire: "fire_once env t slot w = (res, w')"
    and fresh: "\<not> fire_is_delivered (st_id t, slot) (w_store w)"
    and alone: "leaves_fire env (st_id t, slot)"
    and wrote: "Wrote_Artifact c p \<notin> set (w_log w)" "Wrote_Artifact c p \<in> set (w_log w')"
  shows "fire_is_pending (st_id t, slot) (w_store w') \<or>
    (fire_is_delivered (st_id t, slot) (w_store w') \<and>
     (\<exists>prompt. Woke (st_agent_id t) (st_conversation_id t) prompt \<in> set (w_log w'))) \<or>
    (\<exists>e t1 w1. run_task_inner env t (e_uuid env (Suc (w_calls w))) slot (w\<lparr>w_calls := Suc (Suc (w_calls w))\<rparr>) = (Inr (Inl e, t1), w1) \<and>
       unrecorded env w w1 e \<and> (\<forall>run t'. res = Inr (run, t') \<longrightarrow> tr_error run = Some e))"
proof -
  let ?w = "w\<lparr>w_calls := Suc (Suc (w_calls w))\<rparr>"
  obtain inner w1 where inner: "run_task_inner env t (e_uuid env (Suc (w_calls w))) slot ?w = (inner, w1)"
    and rest: "w_log w' = w_log w1" "keeps_fire (st_id t, slot) w1 w'"
    and rec: "\<And>run t'. res = Inr (run, t') \<Longrightarrow>
      \<exists>r t1. inner = Inr (r, t1) \<and> (\<forall>e. r = Inl e \<longrightarrow> tr_error run = Some e)"
    using fire_once_split [OF fire alone] by metis
  have "unrecorded env w w1 e \<and> (\<forall>run t'. res = Inr (run, t') \<longrightarrow> tr_error run = Some e)"
    if "inner = Inr (Inl e, t1)" "unrecorded env ?w w1 e" for e t1
    using rec that unrecorded_from [OF that(2), of w "[]"] by auto
  moreover have "fire_is_pending (st_id t, slot) (w_store w1) \<or> (fire_is_delivered (st_id t, slot) (w_store w1) \<and>
      (\<exists>prompt. Woke (st_agent_id t) (st_conversation_id t) prompt \<in> set (w_log w1))) \<or>
      (\<exists>e t1. inner = Inr (Inl e, t1) \<and> unrecorded env ?w w1 e)"
    using run_task_inner_outcome [OF inner, of c p] fresh alone wrote rest(1) by simp
  ultimately show ?thesis using inner rest unfolding keeps_fire_def by metis
qed

text \<open>Running in the sample environment.\<close>

lemma store_ops_calm:
  fixes w :: world
  assumes "calm env"
  shows "\<exists>w'. put_run env run w = (Inr (), w') \<and> w_log w' = w_log w"
    and "\<exists>w'. put_pending_fire env fire w = (Inr (), w') \<and> w_log w' = w_log w"
    and "\<exists>w'. mark_fire_delivered env a m w = (Inr (), w') \<and> w_log w' = w_log w"
    and "\<exists>w'. put_task env t w = (Inr (), w') \<and> w_log w' = w_log w"
proof -
  have works: "e_disk env n = Works" "e_others env n s = s" for n s
    using assms by (simp_all add: calm_def undisturbed_def)
  note eval = io_bind_def store_read_eq store_write_def store_access_def disk_commit_def works Let_def io_return_def
  have ok: "fst (put_run env run w) = Inr ()" "fst (put_pending_fire env fire w) = Inr ()"
      "fst (mark_fire_delivered env a m w) = Inr ()" "fst (put_task env t w) = Inr ()"
    by (simp_all add: put_run_def put_pending_fire_def fire_was_delivered_def mark_fire_delivered_def put_task_def
        retire_fire_def fire_is_pending_def eval split: option.splits)
  have log: "w_log (snd (put_run env run w)) = w_log w" "w_log (snd (put_pending_fire env fire w)) = w_log w"
      "w_log (snd (mark_fire_delivered env a m w)) = w_log w" "w_log (snd (put_task env t w)) = w_log w"
    using aside_ops(2) [of env run] aside_ops(3) [of env fire] aside_ops(4) [of env a m] aside_ops(1) [of env t]
    by (simp_all add: io_keeps_def aside_def)
  show "\<exists>w'. put_run env run w = (Inr (), w') \<and> w_log w' = w_log w"
      "\<exists>w'. put_pending_fire env fire w = (Inr (), w') \<and> w_log w' = w_log w"
      "\<exists>w'. mark_fire_delivered env a m w = (Inr (), w') \<and> w_log w' = w_log w"
      "\<exists>w'. put_task env t w = (Inr (), w') \<and> w_log w' = w_log w"
    using ok log by (metis prod.collapse)+
qed

lemma sample_deliver:
  "\<exists>w'. deliver_fire (sample_env code send) fire w = (send, w') \<and> set (w_log w) \<subseteq> set (w_log w')"
proof -
  let ?env = "sample_env code send"
  have send: "e_send_wakeup ?env n a c p = send" for n a c p by (simp add: sample_env_def)
  obtain w1 where w1: "put_pending_fire ?env fire w = (Inr (), w1)" "w_log w1 = w_log w"
    using store_ops_calm(2) [OF sample_env_calm(1)] by blast
  show ?thesis
  proof (cases send)
    case (Inl e)
    then show ?thesis using w1 send by (simp add: deliver_fire_def io_bind_def call_env_def Let_def)
  next
    case (Inr u)
    let ?w2 = "w1\<lparr>w_calls := Suc (w_calls w1), w_log := w_log w1 @ [Woke (fr_agent_id fire) (fr_conversation_id fire) (fr_prompt fire)]\<rparr>"
    obtain w3 where "mark_fire_delivered ?env (fr_task_id fire) (fr_slot_ms fire) ?w2 = (Inr (), w3)"
        "w_log w3 = w_log ?w2"
      using store_ops_calm(3) [OF sample_env_calm(1)] by blast
    then show ?thesis using w1 send Inr by (auto simp: deliver_fire_def io_bind_def call_env_def Let_def)
  qed
qed

lemma sample_run_and_report:
  assumes "st_setup_command t = None" "st_max_output_bytes t = 200000"
  shows "\<exists>r w'. run_and_report (sample_env code send) t (Sandbox_Agent ''box'') run_id slot w = (r, w') \<and>
    (\<forall>e. r = Inl e \<longrightarrow> send = Inl e) \<and>
    Wrote_Artifact (st_conversation_id t) (''scheduled-tasks/'' @ st_name t @ ''/'' @ run_id @ ''.json'') \<in> set (w_log w')"
proof -
  let ?env = "sample_env code send"
  let ?path = "''scheduled-tasks/'' @ st_name t @ ''/'' @ run_id @ ''.json''"
  let ?po = "\<lparr> po_exit_code = Some code, po_stdout = ''out'', po_stderr = [], po_truncated = False \<rparr>"
  let ?co = "\<lparr> co_sandbox_id = ''box'', co_setup = None, co_main = ?po, co_error = None \<rparr>"
  let ?a = "\<lparr> ar_artifact_id = ''a'', ar_path = ?path, ar_version = 1 \<rparr>"
  let ?w1 = "w\<lparr>w_calls := Suc (w_calls w), w_log := w_log w @ [Ran ''box'' (st_command t)]\<rparr>"
  let ?w2 = "?w1\<lparr>w_calls := Suc (w_calls ?w1), w_log := w_log ?w1 @ [Wrote_Artifact (st_conversation_id t) ?path]\<rparr>"
  have cmd: "io_try (run_commands ?env t (Sandbox_Agent ''box'')) w = (Inr (Inr ?co), ?w1)"
    by (simp add: run_commands_def run_in_sandbox_def io_try_def io_bind_def call_env_def Let_def io_lift_def
        io_return_def sandbox_id_of_def assms sample_env_def sample_read)
  have wr: "call_env (\<lambda>n. e_write_artifact ?env n (st_conversation_id t) ?path x)
      (\<lambda>_. [Wrote_Artifact (st_conversation_id t) ?path]) ?w1 = (Inr ?a, ?w2)" for x
    by (simp add: call_env_def Let_def sample_env_def)
  obtain prompt where prompt: "run_prompt ?env t run_id (summarize (Inr ?co)) ?a = Inr prompt"
    using run_prompt_total [OF cmd] by blast
  define fire where "fire = run_fire t slot run_id prompt 1500"
  let ?w3 = "?w2\<lparr>w_calls := Suc (w_calls ?w2)\<rparr>"
  obtain w' where deliver: "deliver_fire ?env fire ?w3 = (send, w')" "set (w_log ?w3) \<subseteq> set (w_log w')"
    using sample_deliver by blast
  have now: "now_ms_io ?env ?w2 = (Inr 1500, ?w3)" by (simp add: now_ms_run sample_env_def)
  have "run_and_report ?env t (Sandbox_Agent ''box'') run_id slot w =
      io_bind (deliver_fire ?env fire) (\<lambda>_. io_return (run_output (summarize (Inr ?co)) ?a)) ?w3"
    unfolding run_and_report_def Let_def io_bind_def cmd wr prod.case sum.case io_lift_def prompt now fire_def ..
  then have run: "run_and_report ?env t (Sandbox_Agent ''box'') run_id slot w =
      (and_then send (\<lambda>_. Inr (run_output (summarize (Inr ?co)) ?a)), w')"
    using deliver(1) by (cases send) (simp_all add: io_bind_def io_return_def)
  then show ?thesis using deliver(2) by (cases send) auto
qed

lemma sample_fire_once:
  assumes "t = (sample_task ''@every 1s'' Once 1000)\<lparr>st_updated_at_ms := m, st_lease := l\<rparr>"
    and "send = Inl (Error e) \<or> send = Inr ()"
  shows "\<exists>run t' w'. fire_once (sample_env 0 send) t 1000 w = (Inr (run, t'), w') \<and>
    Wrote_Artifact ''conv'' (''scheduled-tasks/check/'' @ replicate (Suc (Suc (w_calls w))) CHR ''u'' @ ''.json'')
      \<in> set (w_log w')"
proof -
  let ?env = "sample_env 0 send"
  let ?id = "replicate (Suc (Suc (w_calls w))) CHR ''u''"
  let ?w = "w\<lparr>w_calls := Suc (Suc (w_calls w))\<rparr>"
  have t: "st_setup_command t = None" "st_max_output_bytes t = 200000" "st_sandbox_mode t = ModeAgent"
      "st_conversation_id t = ''conv''" "st_name t = ''check''"
    by (simp_all add: assms(1) sample_task_def)
  obtain w1 where prep: "prepare_run ?env t ?w = (Inr (Sandbox_Agent ''box'', t), w1)"
    by (simp add: prepare_run_def resolve_task_sandbox_def io_bind_def call_env_def Let_def io_lift_def
        io_return_def sample_env_def t(3))
  obtain r w2 where rep: "run_and_report ?env t (Sandbox_Agent ''box'') ?id 1000 w1 = (r, w2)"
      "\<And>e. r = Inl e \<Longrightarrow> send = Inl e" and
      wrote: "Wrote_Artifact ''conv'' (''scheduled-tasks/check/'' @ ?id @ ''.json'') \<in> set (w_log w2)"
    using sample_run_and_report [OF t(1,2), of 0 send ?id 1000 w1] unfolding t(4,5) by auto
  obtain res where inner: "run_task_inner ?env t ?id 1000 ?w = (Inr (res, t), w2)"
    using prep rep assms(2)
    by (cases r) (auto simp: run_task_inner_def io_bind_def io_try_def io_return_def)
  let ?w3 = "w2\<lparr>w_calls := Suc (w_calls w2)\<rparr>"
  define run where "run = run_record ?id (st_id t) 1500 1500 res"
  obtain w4 where put: "put_run ?env run ?w3 = (Inr (), w4)" "w_log w4 = w_log ?w3"
    using store_ops_calm(1) [OF sample_env_calm(1)] by blast
  obtain w5 where put': "put_task ?env (settle_task run 1500 t) w4 = (Inr (), w5)" "w_log w5 = w_log w4"
    using store_ops_calm(4) [OF sample_env_calm(1)] by blast
  have e: "e_now ?env n = 1500" "e_uuid ?env n = replicate (Suc n) CHR ''u''" for n by (simp_all add: sample_env_def)
  have "fire_once ?env t 1000 w = (Inr (run, settle_task run 1500 t), w5)"
    using inner put(1) put'(1) by (simp add: fire_once_def io_bind_def now_ms_run fresh_uuid_eq e Let_def
        run_def io_return_def)
  then show ?thesis using wrote put(2) put'(2) by simp
qed

theorem fired_run_is_reported_or_redeliverable_witness:
  "\<exists>run t' w'. fire_once (sample_env 0 (Inl (Error ''down''))) (sample_task ''@every 1s'' Once 1000) 1000
       sample_world = (Inr (run, t'), w') \<and>
     (fire_is_pending (''t'', 1000) (w_store w') \<or>
      (fire_is_delivered (''t'', 1000) (w_store w') \<and> (\<exists>prompt. Woke ''agent'' ''conv'' prompt \<in> set (w_log w'))))"
proof -
  let ?env = "sample_env 0 (Inl (Error ''down''))"
  let ?t = "sample_task ''@every 1s'' Once 1000"
  have "?t = ?t\<lparr>st_updated_at_ms := 0, st_lease := None\<rparr>" by (simp add: sample_task_def)
  from sample_fire_once [OF this, of "Inl (Error ''down'')" "''down''" sample_world] obtain run t' w' c where
    fire: "fire_once ?env ?t 1000 sample_world = (Inr (run, t'), w')"
    and wrote: "Wrote_Artifact ''conv'' c \<in> set (w_log w')" by blast
  have "\<not> fire_is_delivered (st_id ?t, 1000) (w_store sample_world)"
    by (simp add: fire_is_delivered_def sample_store_def sample_world_def)
  moreover have "leaves_fire ?env (st_id ?t, 1000)" by (simp add: leaves_fire_def sample_env_def)
  moreover have "Wrote_Artifact ''conv'' c \<notin> set (w_log sample_world)"
    by (simp add: sample_world_def)
  moreover have "\<not> unrecorded ?env w1 w2 e" for w1 w2 e by (simp add: unrecorded_def sample_env_def)
  moreover have "st_id ?t = ''t''" "st_agent_id ?t = ''agent''" "st_conversation_id ?t = ''conv''"
    by (simp_all add: sample_task_def)
  ultimately show ?thesis
    using fired_run_is_reported_or_redeliverable [OF fire _ _ _ wrote] fire by metis
qed

text \<open>running a task puts it back on its schedule. When the pass succeeds and no other process writes
  to the store meanwhile, the stored task has
  no lease, its next run and missed-fire record come from the plan, every run belongs to it, there are
  no more runs than planned slots and exactly as many if it is still enabled, it is disabled exactly when
  it was before or its agent or conversation turned out to be gone, and no other task changed.\<close>

theorem run_task_restores_schedule:
  assumes "run_task env t w = (Inr runs, w')"
    and "store_wf (w_store w)" "st_id t \<noteq> []" "st_schema_version t = 2" and "undisturbed env"
  shows "\<exists>plan t'. plan_missed_fires (e_rfc3339 env) t (e_now env (w_calls w)) = Inr plan \<and>
    store_wf (w_store w') \<and> task_view (w_store w') (st_id t) = Some t' \<and> st_lease t' = None \<and>
    st_next_run_at_ms t' = mp_next_run_at_ms plan \<and> st_last_missed_fire t' = Some (mp_outcome plan) \<and>
    (\<forall>k. k \<noteq> st_id t \<longrightarrow> task_view (w_store w') k = task_view (w_store w) k) \<and>
    length runs \<le> length (mp_fire_slots plan) \<and> (\<forall>run \<in> set runs. tr_task_id run = st_id t) \<and>
    (st_enabled t' \<longrightarrow> length runs = length (mp_fire_slots plan)) \<and>
    (st_enabled t' \<longleftrightarrow> st_enabled t \<and>
       (\<forall>run \<in> set runs. \<not> (\<exists>e. tr_error run = Some e \<and> is_missing_task_owner_error e)))"
  using run_task_frame [OF assms] .

lemma sample_world_wf: "store_wf (w_store sample_world)"
  by (simp add: sample_world_def sample_store_wf)

lemma sample_run_task:
  assumes t: "t = (sample_task ''@every 1s'' Once 1000)\<lparr>st_updated_at_ms := m, st_lease := l\<rparr>"
  shows "\<exists>runs w'. run_task (sample_env 0 (Inr ())) t w = (Inr runs, w')"
proof -
  let ?env = "sample_env 0 (Inr ())"
  have sched: "st_schedule t = ''@every 1s''" by (simp add: assms sample_task_def)
  have "\<exists>plan. plan_missed_fires (e_rfc3339 ?env) t 1500 = Inr plan \<and> mp_fire_slots plan = [1000]"
    unfolding plan_missed_fires_def sched parse_every_1s
    by (simp add: assms Let_def div_u64_def next_slot_after_ms_def saturating_sub_def sample_task_def)
  then obtain plan where plan: "plan_missed_fires (e_rfc3339 ?env) t 1500 = Inr plan"
      "mp_fire_slots plan = [1000]" by blast
  have now: "e_now ?env n = 1500" for n by (simp add: sample_env_def)
  obtain run t' w1 where fire: "fire_once ?env t 1000 (w\<lparr>w_calls := Suc (w_calls w)\<rparr>) = (Inr (run, t'), w1)"
    using sample_fire_once [OF t, of "Inr ()"] by blast
  then have slots: "fire_slots ?env t [1000] (w\<lparr>w_calls := Suc (w_calls w)\<rparr>) = (Inr ([run], t'), w1)"
    by (simp add: io_bind_def io_return_def)
  obtain w2 where "put_task ?env (resume_after_fires plan 1500 t') (w1\<lparr>w_calls := Suc (w_calls w1)\<rparr>) = (Inr (), w2)"
    using put_task_calm [OF sample_env_calm(1)] by blast
  then show ?thesis
    using slots by (simp add: run_task_def io_bind_def now_ms_run now io_lift_def plan io_return_def)
qed

theorem run_task_restores_schedule_witness:
  "\<exists>runs w' t'. run_task (sample_env 0 (Inr ())) (sample_task ''@every 1s'' Once 1000) sample_world = (Inr runs, w') \<and>
     task_view (w_store w') ''t'' = Some t' \<and> st_lease t' = None"
proof -
  let ?t = "sample_task ''@every 1s'' Once 1000"
  have "?t = ?t\<lparr>st_updated_at_ms := 0, st_lease := None\<rparr>" by (simp add: sample_task_def)
  from sample_run_task [OF this] obtain runs w' where
    run: "run_task (sample_env 0 (Inr ())) ?t sample_world = (Inr runs, w')" by blast
  have t: "st_id ?t = ''t''" "st_schema_version ?t = 2" by (simp_all add: sample_task_def)
  then have "st_id ?t \<noteq> []" by simp
  from run_task_restores_schedule [OF run sample_world_wf this t(2) sample_env_calm(2)] run show ?thesis
    unfolding t(1) by blast
qed

text \<open>a scheduler pass leaks no lease. After a successful pass during which no other process wrote to
  the store, every task it touched has its lease cleared and the store is well-formed.\<close>

theorem run_due_tasks_leaks_no_lease:
  assumes "run_due_tasks env limit w = (Inr runs, w')" and "store_wf (w_store w)" and "undisturbed env"
  shows "store_wf (w_store w') \<and>
    (\<forall>k. task_view (w_store w') k = task_view (w_store w) k \<or>
       (\<exists>t'. task_view (w_store w') k = Some t' \<and> st_lease t' = None))"
proof -
  let ?w = "w\<lparr>w_calls := Suc (w_calls w)\<rparr>"
  obtain claimed w1 rs where claim: "claim_due_tasks env (e_now env (w_calls w)) limit DEFAULT_TASK_LEASE_MS ?w =
      (Inr claimed, w1)" and run: "run_tasks env claimed w1 = (Inr rs, w')"
    using assms(1) unfolding run_due_tasks_def
    by (auto simp: io_bind_Inr_iff now_ms_run io_return_def)
  have c: "store_wf (w_store w1)" "\<forall>t' \<in> set claimed. task_view (w_store w1) (st_id t') = Some t'"
      "\<forall>k. k \<notin> st_id ` set claimed \<longrightarrow> task_view (w_store w1) k = task_view (w_store w) k"
    using claim_due_tasks_alone [OF claim _ assms(3)] assms(2) by simp_all
  have "\<forall>t \<in> set claimed. st_id t \<noteq> [] \<and> st_schema_version t = 2"
    using c task_view_id by blast
  from run_tasks_frame [OF run c(1) this assms(3)] c(3) show ?thesis by metis
qed

theorem run_due_tasks_leaks_no_lease_witness:
  "\<exists>runs w'. run_due_tasks (sample_env 0 (Inr ())) 10 sample_world = (Inr runs, w') \<and>
     store_wf (w_store w') \<and>
     (task_view (w_store w') ''t'' = task_view (w_store sample_world) ''t'' \<or>
       (\<exists>t'. task_view (w_store w') ''t'' = Some t' \<and> st_lease t' = None))"
proof -
  let ?env = "sample_env 0 (Inr ())"
  let ?t = "sample_task ''@every 1s'' Once 1000"
  have now: "e_now ?env n = 1500" for n by (simp add: sample_env_def)
  let ?w = "sample_world\<lparr>w_calls := Suc (w_calls sample_world)\<rparr>"
  obtain u w1 where claim: "claim_due_tasks ?env 1500 10 DEFAULT_TASK_LEASE_MS ?w =
      (Inr [claim_task u 1500 DEFAULT_TASK_LEASE_MS ?t], w1)"
    using sample_claim [of ?env ?w DEFAULT_TASK_LEASE_MS] by (auto simp: sample_env_def sample_world_def)
  have "claim_task u 1500 DEFAULT_TASK_LEASE_MS ?t =
      ?t\<lparr>st_updated_at_ms := 1500, st_lease := st_lease (claim_task u 1500 DEFAULT_TASK_LEASE_MS ?t)\<rparr>"
    by (simp add: claim_task_def)
  from sample_run_task [OF this, of w1] obtain runs w' where
    "run_due_tasks ?env 10 sample_world = (Inr runs, w')"
    by (auto simp: run_due_tasks_def io_bind_def now_ms_run now claim io_return_def)
  with run_due_tasks_leaks_no_lease [OF this sample_world_wf sample_env_calm(2)] show ?thesis by blast
qed

section \<open>Redelivery\<close>

definition wake_of :: "fire_record \<Rightarrow> effect" where
  "wake_of f = Woke (fr_agent_id f) (fr_conversation_id f) (fr_prompt f)"

lemma mark_undisturbed:
  assumes "mark_fire_delivered env (fr_task_id f) (fr_slot_ms f) w = (Inr (), w')" and "undisturbed env"
  shows "(fire_is_pending k (w_store w') \<longleftrightarrow> fire_is_pending k (w_store w) \<and> k \<noteq> fire_key f) \<and>
    (fire_is_delivered k (w_store w') \<longleftrightarrow> fire_is_delivered k (w_store w) \<or>
       (k = fire_key f \<and> fire_is_pending k (w_store w)))"
proof -
  have "leaves_fire env k" using assms(2) by (simp add: leaves_fire_def undisturbed_def)
  moreover have "mark_fire_delivered env (fst (fire_key f)) (snd (fire_key f)) w = (Inr (), w')"
    using assms(1) by (simp add: fire_key_def)
  ultimately show ?thesis using mark_fire_delivered_cases by blast
qed

lemma redeliver_Cons:
  assumes "redeliver_loop env (f # fs) n w = (Inr m, w')"
  obtains v w1 es where "mark_fire_delivered env (fr_task_id f) (fr_slot_ms f) v = (Inr (), w1)"
    "w_store v = w_store w" "w_log v = w_log w @ es" "es = [] \<or> es = [wake_of f]"
    "redeliver_loop env fs (n + length es) w1 = (Inr m, w')"
proof -
  consider v w1 where "mark_fire_delivered env (fr_task_id f) (fr_slot_ms f) v = (Inr (), w1)"
      "w_store v = w_store w" "w_log v = w_log w" "redeliver_loop env fs n w1 = (Inr m, w')"
    | v w1 where "mark_fire_delivered env (fr_task_id f) (fr_slot_ms f) v = (Inr (), w1)"
      "w_store v = w_store w" "w_log v = w_log w @ [wake_of f]" "redeliver_loop env fs (n + 1) w1 = (Inr m, w')"
    using assms by (fastforce simp: io_bind_Inr_iff call_env_Inr_iff wake_of_def split: if_splits)
  then show thesis
  proof cases
    case (1 v w1)
    then show thesis using that [of v w1 "[]"] by simp
  next
    case (2 v w1)
    then show thesis using that [of v w1 "[wake_of f]"] by simp
  qed
qed

lemma redeliver_loop_outcome:
  assumes "redeliver_loop env fs n w = (Inr m, w')" and "undisturbed env"
  shows "(\<exists>es. w_log w' = w_log w @ es \<and> subseq es (map wake_of fs) \<and> m = n + length es) \<and>
    (\<forall>k. fire_is_pending k (w_store w') \<longleftrightarrow> fire_is_pending k (w_store w) \<and> k \<notin> fire_key ` set fs) \<and>
    (\<forall>k. fire_is_delivered k (w_store w') \<longleftrightarrow>
       fire_is_delivered k (w_store w) \<or> (k \<in> fire_key ` set fs \<and> fire_is_pending k (w_store w)))"
  using assms(1)
proof (induction fs arbitrary: n w)
  case Nil
  then show ?case by (auto simp: io_return_def)
next
  case (Cons f fs)
  obtain v w1 es where mark: "mark_fire_delivered env (fr_task_id f) (fr_slot_ms f) v = (Inr (), w1)"
    and v: "w_store v = w_store w" "w_log v = w_log w @ es" "es = [] \<or> es = [wake_of f]"
    and rest: "redeliver_loop env fs (n + length es) w1 = (Inr m, w')"
    using redeliver_Cons [OF Cons.prems] by metis
  have w1: "w_log w1 = w_log w @ es" using io_keepsD [OF aside_ops(4) mark] v(2) by (simp add: aside_def)
  note marked = mark_undisturbed [OF mark assms(2), unfolded v(1)]
  note IH = Cons.IH [OF rest]
  have pend: "fire_is_pending k (w_store w') \<longleftrightarrow> fire_is_pending k (w_store w1) \<and> k \<notin> fire_key ` set fs"
    and deliv: "fire_is_delivered k (w_store w') \<longleftrightarrow>
       fire_is_delivered k (w_store w1) \<or> (k \<in> fire_key ` set fs \<and> fire_is_pending k (w_store w1))" for k
    using IH by blast+
  from IH obtain es' where "w_log w' = w_log w1 @ es'" "subseq es' (map wake_of fs)" "m = n + length es + length es'"
    by blast
  then have "w_log w' = w_log w @ (es @ es')" "subseq (es @ es') (map wake_of (f # fs))" "m = n + length (es @ es')"
    using w1 v(3) by auto
  moreover have "fire_is_pending k (w_store w') \<longleftrightarrow> fire_is_pending k (w_store w) \<and> k \<notin> fire_key ` set (f # fs)" for k
    using pend [of k] deliv [of k] marked [of k] by auto
  moreover have "fire_is_delivered k (w_store w') \<longleftrightarrow>
      fire_is_delivered k (w_store w) \<or> (k \<in> fire_key ` set (f # fs) \<and> fire_is_pending k (w_store w))" for k
    using pend [of k] deliv [of k] marked [of k] by auto
  ultimately show ?case by blast
qed

text \<open>redelivery at startup retires exactly the listed fires. When it succeeds, with no other process
  writing meanwhile, it has sent at most one wakeup per pending fire, in the order of their fire times,
  the count it returns is the number of wakeups sent, and afterwards the fires it listed are delivered or
  gone from the outbox while every other key is as before.\<close>

theorem redelivery_retires_listed_fires:
  assumes "redeliver_pending_wakes env w = (Inr n, w')" and "undisturbed env"
  shows "\<exists>fs w1. pending_fires env w = (Inr fs, w1) \<and>
    (\<exists>es. w_log w' = w_log w1 @ es \<and> subseq es (map wake_of fs) \<and> n = length es) \<and>
    sorted (map (\<lambda>f. (fr_fired_at_ms f, fr_slot_ms f)) fs) \<and>
    (\<forall>k. fire_is_pending k (w_store w') \<longleftrightarrow> fire_is_pending k (w_store w1) \<and> k \<notin> fire_key ` set fs) \<and>
    (\<forall>k. fire_is_delivered k (w_store w') \<longleftrightarrow>
       fire_is_delivered k (w_store w1) \<or> (k \<in> fire_key ` set fs \<and> fire_is_pending k (w_store w1)))"
proof -
  obtain fs w1 where fs: "pending_fires env w = (Inr fs, w1)" and loop: "redeliver_loop env fs 0 w1 = (Inr n, w')"
    using assms by (auto simp: redeliver_pending_wakes_def io_bind_Inr_iff)
  have "sorted (map (\<lambda>f. (fr_fired_at_ms f, fr_slot_ms f)) fs)"
    using fs by (auto simp: pending_fires_def io_bind_Inr_iff io_return_def)
  then show ?thesis using fs redeliver_loop_outcome [OF loop assms(2)] by auto
qed

end
