(* ===== verification/Exo_Types.thy ===== *)
theory Exo_Types
  imports Exo_Prelude
begin

text \<open>
  Types of \<^verbatim>\<open>crates/exoharness/src/types.rs\<close> and \<^verbatim>\<open>uuid7.rs\<close> that several components share. A version 7
  UUID is its 128-bit number: the source's order on \<open>Uuid7\<close> compares the bytes from the most significant.
\<close>

type_synonym uuid = u128

record turn_record =
  tn_id :: uuid
  tn_session_id :: uuid

end
