(* ===== verification/Turn_Coordinator.thy ===== *)
theory Turn_Coordinator
  imports Exo_Types "HOL-Library.AList"
begin

text \<open>
  The durable turn queue of a thread, from \<^verbatim>\<open>crates/exoharness/src/turn_coordinator.rs\<close> (the data and the
  contract), \<^verbatim>\<open>turn_coordinator/stored.rs\<close> (the stored coordinator and the in-memory store) and
  \<^verbatim>\<open>basic/turn_queue.rs\<close> (the file-backed store). The store is a record of operations, as the source's
  \<open>Arc<dyn TurnQueueStore>\<close> is; its laws are the locale \<open>turn_queue_store\<close>, interpreted on both stores.
  Every operation of the coordinator holds the thread's mutation lock from its first to its last access,
  so one operation is one step. A lease is alive until its last clone is dropped, an explicit step here;
  a watch channel keeps the last value sent.
\<close>

section \<open>Data\<close>

record turn_thread =
  th_agent_id :: uuid
  th_thread_id :: uuid

datatype turn_attention = Wake | Interrupt

record turn_options =
  op_idempotency_key :: "string option"
  op_attention :: turn_attention

record 'w turn_submission =
  sb_turn :: turn_record
  sb_work :: 'w
  sb_principal :: "string option"
  sb_options :: turn_options

datatype turn_control = Run | Cancel | Suspend

record 'w queued_turn =
  qt_turn :: turn_record
  qt_work :: 'w
  qt_principal :: "string option"
  qt_started :: bool
  qt_control :: turn_control

record accepted_turn =
  ac_turn :: turn_record
  ac_duplicate :: bool

datatype turn_control_outcome = NotFound | NotAccessible | Queued | Running

datatype turn_authority = ThreadOwner | Submitter string

record turn_receipt =
  rc_principal :: "string option"
  rc_key :: string
  rc_turn :: turn_record
  rc_expires_at :: int

record 'w turn_queue_state =
  tq_pending :: "'w queued_turn list"
  tq_receipts :: "turn_receipt list"
  tq_acknowledged :: "uuid option"

definition turn_queue_state_default :: "'w turn_queue_state" where
  "turn_queue_state_default = \<lparr> tq_pending = [], tq_receipts = [], tq_acknowledged = None \<rparr>"

text \<open>A lease names its thread and its identity; the identity of a lease is never used again.\<close>

record turn_lease =
  ls_thread :: turn_thread
  ls_identity :: nat

record 'w turn_start =
  sr_head :: "'w queued_turn"
  sr_control :: nat

section \<open>The store interface and the coordinator's state\<close>

record ('s, 'w) store_ops =
  so_load :: "turn_thread \<Rightarrow> 's \<Rightarrow> 'w turn_queue_state result"
  so_save :: "turn_thread \<Rightarrow> 'w turn_queue_state \<Rightarrow> 's \<Rightarrow> 's result"
  so_pending_threads :: "'s \<Rightarrow> turn_thread list result"

record thread_mutation =
  tm_owner :: "nat option"
  tm_control :: "(uuid \<times> nat) option"

definition thread_mutation_default :: thread_mutation where
  "thread_mutation_default = \<lparr> tm_owner = None, tm_control = None \<rparr>"

text \<open>\<open>tc_threads\<close> is the table of thread states: a thread without one has the default, which is
  what looking it up creates. \<open>tc_leases\<close> are the live leases, \<open>tc_watch\<close> the last value of each
  watch channel.\<close>

record 's coordinator =
  tc_store :: 's
  tc_threads :: "turn_thread \<Rightarrow> thread_mutation"
  tc_leases :: "turn_lease list"
  tc_next_lease :: nat
  tc_watch :: "nat \<Rightarrow> turn_control option"
  tc_next_watch :: nat

definition new_coordinator :: "'s \<Rightarrow> 's coordinator" where
  "new_coordinator s =
     \<lparr> tc_store = s, tc_threads = (\<lambda>_. thread_mutation_default), tc_leases = [], tc_next_lease = 0,
       tc_watch = (\<lambda>_. None), tc_next_watch = 0 \<rparr>"

definition load_io :: "('s, 'w) store_ops \<Rightarrow> turn_thread \<Rightarrow> ('s coordinator, 'w turn_queue_state) io" where
  "load_io ops thread c = (so_load ops thread (tc_store c), c)"

definition save_io :: "('s, 'w) store_ops \<Rightarrow> turn_thread \<Rightarrow> 'w turn_queue_state \<Rightarrow> ('s coordinator, unit) io" where
  "save_io ops thread q c =
     (case so_save ops thread q (tc_store c) of
        Inl e \<Rightarrow> (Inl e, c)
      | Inr s \<Rightarrow> (Ok (), c\<lparr>tc_store := s\<rparr>))"

text \<open>\<open>owner.upgrade().is_some()\<close>\<close>

definition owner_live :: "turn_thread \<Rightarrow> 's coordinator \<Rightarrow> bool" where
  "owner_live thread c \<longleftrightarrow>
     (case tm_owner (tc_threads c thread) of
        None \<Rightarrow> False
      | Some i \<Rightarrow> i \<in> ls_identity ` set (tc_leases c))"

definition owns :: "turn_lease \<Rightarrow> 's coordinator \<Rightarrow> bool" where
  "owns lease c \<longleftrightarrow> owner_live (ls_thread lease) c \<and>
     tm_owner (tc_threads c (ls_thread lease)) = Some (ls_identity lease)"

definition check_lease :: "turn_lease \<Rightarrow> ('s coordinator, unit) io" where
  "check_lease lease = io_bind (io_read (owns lease)) (\<lambda>b. io_lift (ensure b ''turn ownership lost''))"

definition notify :: "turn_thread \<Rightarrow> uuid \<Rightarrow> turn_control \<Rightarrow> 's coordinator \<Rightarrow> 's coordinator" where
  "notify thread turn control c =
     (case tm_control (tc_threads c thread) of
        None \<Rightarrow> c
      | Some (watched, sender) \<Rightarrow>
          if watched = turn then c\<lparr>tc_watch := (tc_watch c)(sender \<mapsto> control)\<rparr> else c)"

definition set_thread :: "turn_thread \<Rightarrow> thread_mutation \<Rightarrow> 's coordinator \<Rightarrow> 's coordinator" where
  "set_thread thread m c = c\<lparr>tc_threads := (tc_threads c)(thread := m)\<rparr>"

section \<open>Operations\<close>

definition entry_id :: "'w queued_turn \<Rightarrow> uuid" where
  "entry_id e = tn_id (qt_turn e)"

definition update_control :: "('s, 'w) store_ops \<Rightarrow> turn_thread \<Rightarrow> uuid \<Rightarrow> turn_authority \<Rightarrow> turn_control
    \<Rightarrow> ('s coordinator, turn_control_outcome) io" where
  "update_control ops thread turn authority control =
     io_bind (load_io ops thread) (\<lambda>q.
     case List.find (\<lambda>e. entry_id e = turn) (tq_pending q) of
       None \<Rightarrow> io_return NotFound
     | Some entry \<Rightarrow>
         if (case authority of ThreadOwner \<Rightarrow> False
             | Submitter who \<Rightarrow> qt_principal entry \<noteq> Some who)
         then io_return NotAccessible
         else
           io_bind (io_lift (ensure (qt_control entry \<noteq> Cancel \<or> control = Cancel)
              ''cancelled turns cannot be resumed or suspended'')) (\<lambda>_.
           io_bind (save_io ops thread
              (q\<lparr>tq_pending := update_first (\<lambda>e. entry_id e = turn) (\<lambda>e. e\<lparr>qt_control := control\<rparr>) (tq_pending q)\<rparr>)) (\<lambda>_.
           io_bind (io_modify (notify thread turn control)) (\<lambda>_.
           io_return (if qt_started entry then Running else Queued)))))"

definition live_receipts :: "int \<Rightarrow> 'w turn_queue_state \<Rightarrow> 'w turn_queue_state" where
  "live_receipts now q = q\<lparr>tq_receipts := filter (\<lambda>r. rc_expires_at r > now) (tq_receipts q)\<rparr>"

definition receipt_matches :: "string \<Rightarrow> string option \<Rightarrow> turn_receipt \<Rightarrow> bool" where
  "receipt_matches key who r \<longleftrightarrow> rc_key r = key \<and> rc_principal r = who"

definition find_duplicate :: "'w turn_queue_state \<Rightarrow> 'w turn_submission \<Rightarrow> turn_record option" where
  "find_duplicate q sub =
     (case List.find (\<lambda>e. entry_id e = tn_id (sb_turn sub)) (tq_pending q) of
        Some e \<Rightarrow> Some (qt_turn e)
      | None \<Rightarrow>
          (case op_idempotency_key (sb_options sub) of
             None \<Rightarrow> None
           | Some key \<Rightarrow>
               map_option rc_turn (List.find (receipt_matches key (sb_principal sub)) (tq_receipts q))))"

text \<open>The interrupted head: the front entry, if it is started or the thread is owned, and it has the
  submitter's principal.\<close>

definition interrupted_head :: "bool \<Rightarrow> 'w turn_submission \<Rightarrow> 'w turn_queue_state \<Rightarrow> uuid option" where
  "interrupted_head owned sub q =
     (if op_attention (sb_options sub) = Interrupt then
        (case tq_pending q of
           [] \<Rightarrow> None
         | head # _ \<Rightarrow> if (qt_started head \<or> owned) \<and> qt_principal head = sb_principal sub
                       then Some (entry_id head) else None)
      else None)"

definition enqueue_state :: "int \<Rightarrow> uuid option \<Rightarrow> 'w turn_submission \<Rightarrow> 'w turn_queue_state \<Rightarrow> 'w turn_queue_state" where
  "enqueue_state now interrupted sub q =
     q\<lparr> tq_pending :=
          (case (interrupted, tq_pending q) of
             (Some _, head # rest) \<Rightarrow> head\<lparr>qt_control := Cancel\<rparr> # rest
           | _ \<Rightarrow> tq_pending q)
          @ [\<lparr> qt_turn = sb_turn sub, qt_work = sb_work sub, qt_principal = sb_principal sub,
               qt_started = False, qt_control = Run \<rparr>],
        tq_receipts := tq_receipts q @
          (case op_idempotency_key (sb_options sub) of
             None \<Rightarrow> []
           | Some key \<Rightarrow> [\<lparr> rc_principal = sb_principal sub, rc_key = key, rc_turn = sb_turn sub,
                            rc_expires_at = now + 24 * 60 * 60 \<rparr>]) \<rparr>"

definition enqueue :: "('s, 'w) store_ops \<Rightarrow> int \<Rightarrow> turn_thread \<Rightarrow> 'w turn_submission
    \<Rightarrow> ('s coordinator, accepted_turn) io" where
  "enqueue ops now thread sub =
     io_bind (load_io ops thread) (\<lambda>q0.
     let q = live_receipts now q0 in
     case find_duplicate q sub of
       Some record \<Rightarrow> io_return \<lparr> ac_turn = record, ac_duplicate = True \<rparr>
     | None \<Rightarrow>
         io_bind (io_read (owner_live thread)) (\<lambda>owned.
         let interrupted = interrupted_head owned sub q in
         io_bind (save_io ops thread (enqueue_state now interrupted sub q)) (\<lambda>_.
         io_bind (io_modify (case interrupted of None \<Rightarrow> id | Some i \<Rightarrow> notify thread i Cancel)) (\<lambda>_.
         io_return \<lparr> ac_turn = sb_turn sub, ac_duplicate = False \<rparr>))))"

definition cancel :: "('s, 'w) store_ops \<Rightarrow> turn_thread \<Rightarrow> uuid \<Rightarrow> turn_authority
    \<Rightarrow> ('s coordinator, turn_control_outcome) io" where
  "cancel ops thread turn authority = update_control ops thread turn authority Cancel"

definition pending_threads :: "('s, 'w) store_ops \<Rightarrow> ('s coordinator, turn_thread list) io" where
  "pending_threads ops c = (so_pending_threads ops (tc_store c), c)"

definition claim :: "turn_thread \<Rightarrow> ('s coordinator, turn_lease option) io" where
  "claim thread c =
     (if owner_live thread c then (Ok None, c)
      else
        (let lease = \<lparr> ls_thread = thread, ls_identity = tc_next_lease c \<rparr>
         in (Ok (Some lease),
             set_thread thread ((tc_threads c thread)\<lparr>tm_owner := Some (ls_identity lease)\<rparr>)
               (c\<lparr>tc_leases := lease # tc_leases c, tc_next_lease := Suc (tc_next_lease c)\<rparr>))))"

definition get_turn :: "('s, 'w) store_ops \<Rightarrow> turn_thread \<Rightarrow> uuid \<Rightarrow> ('s coordinator, 'w queued_turn option) io" where
  "get_turn ops thread turn =
     io_bind (load_io ops thread) (\<lambda>q. io_return (List.find (\<lambda>e. entry_id e = turn) (tq_pending q)))"

text \<open>\<open>pending.front()\<close>\<close>

definition front :: "'a list \<Rightarrow> 'a option" where
  "front xs = (case xs of [] \<Rightarrow> None | x # _ \<Rightarrow> Some x)"

definition peek :: "('s, 'w) store_ops \<Rightarrow> turn_lease \<Rightarrow> ('s coordinator, 'w queued_turn option) io" where
  "peek ops lease =
     io_bind (check_lease lease) (\<lambda>_.
     io_bind (load_io ops (ls_thread lease)) (\<lambda>q. io_return (front (tq_pending q))))"

text \<open>The subscription of \<open>start\<close>: a fresh watch channel holding the head's control.\<close>

definition subscribe :: "turn_thread \<Rightarrow> uuid \<Rightarrow> turn_control \<Rightarrow> ('s coordinator, nat) io" where
  "subscribe thread turn control c =
     (let ch = tc_next_watch c
      in (Ok ch, set_thread thread ((tc_threads c thread)\<lparr>tm_control := Some (turn, ch)\<rparr>)
           (c\<lparr>tc_watch := (tc_watch c)(ch \<mapsto> control), tc_next_watch := Suc ch\<rparr>)))"

definition start :: "('s, 'w) store_ops \<Rightarrow> turn_lease \<Rightarrow> uuid \<Rightarrow> ('s coordinator, 'w turn_start) io" where
  "start ops lease turn =
     io_bind (check_lease lease) (\<lambda>_.
     io_bind (load_io ops (ls_thread lease)) (\<lambda>q.
     io_bind (io_lift (ok_or (front (tq_pending q)) ''turn queue is empty'')) (\<lambda>head0.
     io_bind (io_lift (ensure (entry_id head0 = turn) ''turn is not the queue head'')) (\<lambda>_.
     let changed = (\<not> qt_started head0 \<and> qt_control head0 \<noteq> Suspend);
         head = (if changed then head0\<lparr>qt_started := True\<rparr> else head0) in
     io_bind (if changed then save_io ops (ls_thread lease) (q\<lparr>tq_pending := head # tl (tq_pending q)\<rparr>)
              else io_return ()) (\<lambda>_.
     io_bind (subscribe (ls_thread lease) turn (qt_control head)) (\<lambda>ch.
     io_return \<lparr> sr_head = head, sr_control = ch \<rparr>))))))"

definition set_suspended :: "('s, 'w) store_ops \<Rightarrow> turn_thread \<Rightarrow> uuid \<Rightarrow> turn_authority \<Rightarrow> bool
    \<Rightarrow> ('s coordinator, turn_control_outcome) io" where
  "set_suspended ops thread turn authority suspended =
     update_control ops thread turn authority (if suspended then Suspend else Run)"

definition drop_control :: "turn_thread \<Rightarrow> 's coordinator \<Rightarrow> 's coordinator" where
  "drop_control thread c = set_thread thread ((tc_threads c thread)\<lparr>tm_control := None\<rparr>) c"

definition acknowledge :: "('s, 'w) store_ops \<Rightarrow> turn_lease \<Rightarrow> uuid \<Rightarrow> ('s coordinator, 'w queued_turn option) io" where
  "acknowledge ops lease turn =
     io_bind (check_lease lease) (\<lambda>_.
     io_bind (load_io ops (ls_thread lease)) (\<lambda>q.
     if tq_acknowledged q = Some turn then io_return (front (tq_pending q))
     else
       io_bind (io_lift (ensure (case front (tq_pending q) of None \<Rightarrow> False | Some head \<Rightarrow> entry_id head = turn)
          ''turn is not the queue head'')) (\<lambda>_.
       let q' = q\<lparr>tq_pending := tl (tq_pending q), tq_acknowledged := Some turn\<rparr> in
       io_bind (save_io ops (ls_thread lease) q') (\<lambda>_.
       io_bind (io_modify (drop_control (ls_thread lease))) (\<lambda>_.
       io_return (front (tq_pending q')))))))"

text \<open>A head that is not suspended keeps the thread runnable.\<close>

definition runnable :: "'w turn_queue_state \<Rightarrow> bool" where
  "runnable q \<longleftrightarrow> (case front (tq_pending q) of None \<Rightarrow> False | Some head \<Rightarrow> qt_control head \<noteq> Suspend)"

definition release_if_idle :: "('s, 'w) store_ops \<Rightarrow> turn_lease \<Rightarrow> ('s coordinator, bool) io" where
  "release_if_idle ops lease =
     io_bind (check_lease lease) (\<lambda>_.
     io_bind (load_io ops (ls_thread lease)) (\<lambda>q.
     if runnable q then io_return False
     else
       io_bind (io_modify (set_thread (ls_thread lease) thread_mutation_default)) (\<lambda>_. io_return True)))"

text \<open>Dropping the last clone of a lease. The lease guards its thread's state: when no live lease of
  the thread is left, the state is dropped with its control sender and its entry of the table.\<close>

definition drop_lease :: "turn_lease \<Rightarrow> 's coordinator \<Rightarrow> 's coordinator" where
  "drop_lease lease c =
     (let ls = filter (\<lambda>l. l \<noteq> lease) (tc_leases c);
          c' = c\<lparr>tc_leases := ls\<rparr>
      in if ls_thread lease \<in> ls_thread ` set ls then c'
         else set_thread (ls_thread lease) thread_mutation_default c')"

section \<open>The stores\<close>

type_synonym 'w memory_store = "(turn_thread \<times> 'w turn_queue_state) list"

definition memory_load :: "turn_thread \<Rightarrow> 'w memory_store \<Rightarrow> 'w turn_queue_state result" where
  "memory_load thread s =
     Ok (case map_of s thread of None \<Rightarrow> turn_queue_state_default | Some q \<Rightarrow> q)"

definition memory_save :: "turn_thread \<Rightarrow> 'w turn_queue_state \<Rightarrow> 'w memory_store \<Rightarrow> 'w memory_store result" where
  "memory_save thread q s = Ok (AList.update thread q s)"

definition memory_pending_threads :: "'w memory_store \<Rightarrow> turn_thread list result" where
  "memory_pending_threads s = Ok (map fst (filter (\<lambda>(thread, q). runnable q) s))"

definition memory_ops :: "('w memory_store, 'w) store_ops" where
  "memory_ops = \<lparr> so_load = memory_load, so_save = memory_save, so_pending_threads = memory_pending_threads \<rparr>"

text \<open>The file-backed store. Each thread directory may hold its record and a \<open>turn_queue.json\<close>, here a
  pair of the thread named in the file and the state. \<open>bq_claim\<close> is the answer of claiming the
  thread's scope for this process (\<open>claim_local_scope\<close>).\<close>

record 'w stored_queue =
  sq_thread :: turn_thread
  sq_state :: "'w turn_queue_state"

record 'w basic_queue_store =
  bq_claim :: "turn_thread \<Rightarrow> unit result"
  bq_records :: "turn_thread list"
  bq_queues :: "(turn_thread \<times> 'w stored_queue) list"

definition basic_load :: "turn_thread \<Rightarrow> 'w basic_queue_store \<Rightarrow> 'w turn_queue_state result" where
  "basic_load thread s =
     and_then (bq_claim s thread) (\<lambda>_.
       Ok (case map_of (bq_queues s) thread of
             None \<Rightarrow> turn_queue_state_default
           | Some queue \<Rightarrow> sq_state queue))"

definition basic_save :: "turn_thread \<Rightarrow> 'w turn_queue_state \<Rightarrow> 'w basic_queue_store \<Rightarrow> 'w basic_queue_store result" where
  "basic_save thread q s =
     and_then (ensure (thread \<in> set (bq_records s)) ''queue thread no longer exists'') (\<lambda>_.
       Ok (s\<lparr>bq_queues := AList.update thread \<lparr> sq_thread = thread, sq_state = q \<rparr> (bq_queues s)\<rparr>))"

definition basic_pending_threads :: "'w basic_queue_store \<Rightarrow> turn_thread list result" where
  "basic_pending_threads s =
     Ok (map sq_thread (filter (\<lambda>queue. runnable (sq_state queue)) (map snd (bq_queues s))))"

definition basic_ops :: "('w basic_queue_store, 'w) store_ops" where
  "basic_ops = \<lparr> so_load = basic_load, so_save = basic_save, so_pending_threads = basic_pending_threads \<rparr>"

section \<open>Effects of the operations\<close>

text \<open>A call of the coordinator that may change its state, and what it leaves behind.\<close>

datatype 'w coord_call =
    Enqueue int turn_thread "'w turn_submission"
  | Control turn_thread uuid turn_authority turn_control
  | Claim turn_thread
  | Start turn_lease uuid
  | Acknowledge turn_lease uuid
  | Release turn_lease
  | Drop turn_lease

fun perform :: "('s, 'w) store_ops \<Rightarrow> 'w coord_call \<Rightarrow> 's coordinator \<Rightarrow> 's coordinator" where
  "perform ops (Enqueue now thread sub) c = snd (enqueue ops now thread sub c)"
| "perform ops (Control thread turn authority control) c = snd (update_control ops thread turn authority control c)"
| "perform ops (Claim thread) c = snd (claim thread c)"
| "perform ops (Start lease turn) c = snd (start ops lease turn c)"
| "perform ops (Acknowledge lease turn) c = snd (acknowledge ops lease turn c)"
| "perform ops (Release lease) c = snd (release_if_idle ops lease c)"
| "perform ops (Drop lease) c = drop_lease lease c"

lemmas coord_io = io_bind_def load_io_def save_io_def io_lift_def io_return_def io_modify_def io_read_def
  check_lease_def ensure_def ok_or_def

lemma bind_check: "io_bind (check_lease l) f c =
    (if owns l c then f () c else (Inl (Error ''turn ownership lost''), c))"
  by (simp add: check_lease_def io_simps ensure_def)

lemma bind_load: "io_bind (load_io ops th) f c =
    (case so_load ops th (tc_store c) of Inl e \<Rightarrow> (Inl e, c) | Inr q \<Rightarrow> f q c)"
  by (simp add: io_bind_def load_io_def)

lemma bind_modify: "io_bind (io_modify g) f c = f () (g c)"
  by (simp add: io_bind_def io_modify_def)

lemma update_control_effect:
  obtains "snd (update_control ops th turn a ctl c) = c"
  | q e s where "so_load ops th (tc_store c) = Inr q"
      "List.find (\<lambda>e. entry_id e = turn) (tq_pending q) = Some e" "qt_control e \<noteq> Cancel \<or> ctl = Cancel"
      "so_save ops th (q\<lparr>tq_pending := update_first (\<lambda>e. entry_id e = turn) (\<lambda>e. e\<lparr>qt_control := ctl\<rparr>)
         (tq_pending q)\<rparr>) (tc_store c) = Inr s"
      "snd (update_control ops th turn a ctl c) = notify th turn ctl (c\<lparr>tc_store := s\<rparr>)"
proof (cases "so_load ops th (tc_store c)")
  case (Inl e)
  then have "snd (update_control ops th turn a ctl c) = c" by (simp add: update_control_def bind_load)
  then show ?thesis by (rule that(1))
next
  case (Inr q)
  note load = this
  show ?thesis
  proof (cases "List.find (\<lambda>e. entry_id e = turn) (tq_pending q)")
    case None
    then have "snd (update_control ops th turn a ctl c) = c"
      using load by (simp add: update_control_def bind_load io_return_def)
    then show ?thesis by (rule that(1))
  next
    case (Some e)
    let ?q' = "q\<lparr>tq_pending := update_first (\<lambda>e. entry_id e = turn) (\<lambda>e. e\<lparr>qt_control := ctl\<rparr>) (tq_pending q)\<rparr>"
    let ?denied = "case a of ThreadOwner \<Rightarrow> False | Submitter who \<Rightarrow> qt_principal e \<noteq> Some who"
    have unfolded: "update_control ops th turn a ctl c =
        (if ?denied then (Inr NotAccessible, c)
         else if qt_control e = Cancel \<and> ctl \<noteq> Cancel
         then (Inl (Error ''cancelled turns cannot be resumed or suspended''), c)
         else case so_save ops th ?q' (tc_store c) of
             Inl x \<Rightarrow> (Inl x, c)
           | Inr s \<Rightarrow> (Inr (if qt_started e then Running else Queued), notify th turn ctl (c\<lparr>tc_store := s\<rparr>)))"
      using load Some by (auto simp: update_control_def bind_load coord_io split: sum.splits)
    show ?thesis
    proof (cases "?denied \<or> (qt_control e = Cancel \<and> ctl \<noteq> Cancel)")
      case True
      then have "snd (update_control ops th turn a ctl c) = c" unfolding unfolded by auto
      then show ?thesis by (rule that(1))
    next
      case False
      then show ?thesis
        using that load Some unfolding unfolded by (cases "so_save ops th ?q' (tc_store c)") auto
    qed
  qed
qed

lemma enqueue_effect:
  obtains "snd (enqueue ops now th sub c) = c"
  | q i s where "so_load ops th (tc_store c) = Inr q" "find_duplicate (live_receipts now q) sub = None"
      "i = interrupted_head (owner_live th c) sub (live_receipts now q)"
      "so_save ops th (enqueue_state now i sub (live_receipts now q)) (tc_store c) = Inr s"
      "snd (enqueue ops now th sub c) = (case i of None \<Rightarrow> id | Some t \<Rightarrow> notify th t Cancel) (c\<lparr>tc_store := s\<rparr>)"
proof (cases "so_load ops th (tc_store c)")
  case (Inl e)
  then have "snd (enqueue ops now th sub c) = c" by (simp add: enqueue_def coord_io)
  then show ?thesis by (rule that(1))
next
  case (Inr q)
  let ?q = "live_receipts now q"
  let ?i = "interrupted_head (owner_live th c) sub ?q"
  show ?thesis
  proof (cases "find_duplicate ?q sub")
    case (Some d)
    then have "snd (enqueue ops now th sub c) = c" using Inr by (simp add: enqueue_def coord_io Let_def)
    then show ?thesis by (rule that(1))
  next
    case None
    show ?thesis
    proof (cases "so_save ops th (enqueue_state now ?i sub ?q) (tc_store c)")
      case (Inl e)
      then have "snd (enqueue ops now th sub c) = c"
        using Inr None \<open>so_load ops th (tc_store c) = Inr q\<close> by (simp add: enqueue_def coord_io Let_def)
      then show ?thesis by (rule that(1))
    next
      case (Inr s)
      then have "snd (enqueue ops now th sub c) =
          (case ?i of None \<Rightarrow> id | Some t \<Rightarrow> notify th t Cancel) (c\<lparr>tc_store := s\<rparr>)"
        using None \<open>so_load ops th (tc_store c) = Inr q\<close> by (simp add: enqueue_def coord_io Let_def)
      with that(2) None Inr \<open>so_load ops th (tc_store c) = Inr q\<close> show ?thesis by blast
    qed
  qed
qed

lemma claim_effect:
  obtains "snd (claim th c) = c" "owner_live th c" "fst (claim th c) = Inr None"
  | l where "\<not> owner_live th c" "l = \<lparr> ls_thread = th, ls_identity = tc_next_lease c \<rparr>"
      "fst (claim th c) = Inr (Some l)"
      "snd (claim th c) = set_thread th ((tc_threads c th)\<lparr>tm_owner := Some (tc_next_lease c)\<rparr>)
         (c\<lparr>tc_leases := l # tc_leases c, tc_next_lease := Suc (tc_next_lease c)\<rparr>)"
  by (auto simp: claim_def Let_def split: if_splits)

lemma start_effect:
  obtains "snd (start ops l turn c) = c"
  | q h r s where "so_load ops (ls_thread l) (tc_store c) = Inr q" "tq_pending q = h # r" "entry_id h = turn"
      "owns l c" "\<not> qt_started h" "qt_control h \<noteq> Suspend"
      "so_save ops (ls_thread l) (q\<lparr>tq_pending := h\<lparr>qt_started := True\<rparr> # r\<rparr>) (tc_store c) = Inr s"
      "snd (start ops l turn c) = snd (subscribe (ls_thread l) turn (qt_control h) (c\<lparr>tc_store := s\<rparr>))"
  | q h r where "so_load ops (ls_thread l) (tc_store c) = Inr q" "tq_pending q = h # r" "entry_id h = turn"
      "owns l c" "snd (start ops l turn c) = snd (subscribe (ls_thread l) turn (qt_control h) c)"
proof (cases "owns l c")
  case True
  note own = this
  show ?thesis
  proof (cases "so_load ops (ls_thread l) (tc_store c)")
    case (Inl e)
    with own have "snd (start ops l turn c) = c" by (simp add: start_def bind_check bind_load)
    then show ?thesis by (rule that(1))
  next
    case (Inr q)
    show ?thesis
    proof (cases "tq_pending q")
      case Nil
      with own Inr have "snd (start ops l turn c) = c"
        by (simp add: start_def bind_check bind_load front_def coord_io)
      then show ?thesis by (rule that(1))
    next
      case (Cons h r)
      show ?thesis
        by (cases "entry_id h = turn"; cases "\<not> qt_started h \<and> qt_control h \<noteq> Suspend";
            cases "so_save ops (ls_thread l) (q\<lparr>tq_pending := h\<lparr>qt_started := True\<rparr> # r\<rparr>) (tc_store c)")
           (insert that own Inr Cons, auto simp: start_def bind_check bind_load front_def coord_io Let_def subscribe_def)
    qed
  qed
next
  case False
  then have "snd (start ops l turn c) = c" by (simp add: start_def bind_check)
  then show ?thesis by (rule that(1))
qed

lemma acknowledge_effect:
  obtains "snd (acknowledge ops l turn c) = c"
  | q h r s where "so_load ops (ls_thread l) (tc_store c) = Inr q" "tq_pending q = h # r" "entry_id h = turn"
      "owns l c" "tq_acknowledged q \<noteq> Some turn"
      "so_save ops (ls_thread l) (q\<lparr>tq_pending := r, tq_acknowledged := Some turn\<rparr>) (tc_store c) = Inr s"
      "snd (acknowledge ops l turn c) = drop_control (ls_thread l) (c\<lparr>tc_store := s\<rparr>)"
proof (cases "owns l c")
  case True
  note own = this
  show ?thesis
  proof (cases "so_load ops (ls_thread l) (tc_store c)")
    case (Inl e)
    with own have "snd (acknowledge ops l turn c) = c" by (simp add: acknowledge_def bind_check bind_load)
    then show ?thesis by (rule that(1))
  next
    case (Inr q)
    show ?thesis
      by (cases "tq_pending q"; cases "tq_acknowledged q = Some turn";
          cases "so_save ops (ls_thread l) (q\<lparr>tq_pending := tl (tq_pending q), tq_acknowledged := Some turn\<rparr>) (tc_store c)";
          cases "entry_id (hd (tq_pending q)) = turn")
         (insert that own Inr, auto simp: acknowledge_def bind_check bind_load front_def coord_io Let_def)
  qed
next
  case False
  then have "snd (acknowledge ops l turn c) = c" by (simp add: acknowledge_def bind_check)
  then show ?thesis by (rule that(1))
qed

lemma release_effect:
  obtains "snd (release_if_idle ops l c) = c"
  | q where "so_load ops (ls_thread l) (tc_store c) = Inr q" "\<not> runnable q" "owns l c"
      "snd (release_if_idle ops l c) = set_thread (ls_thread l) thread_mutation_default c"
  by (cases "owns l c"; cases "so_load ops (ls_thread l) (tc_store c)"; cases "runnable (projr (so_load ops (ls_thread l) (tc_store c)))")
     (auto simp: release_if_idle_def bind_check bind_load bind_modify io_return_def)

section \<open>The abstract queue\<close>

text \<open>What one call may do to the queue of a thread: nothing, append (cancelling an interrupted head),
  set the control of an entry unless that would revive a cancelled one, start the head, or remove it.\<close>

inductive queue_step :: "turn_thread \<Rightarrow> 'w coord_call \<Rightarrow> 'w turn_queue_state \<Rightarrow> 'w turn_queue_state \<Rightarrow> bool"
  for th :: turn_thread where
  same: "queue_step th call q q"
| append: "find_duplicate (live_receipts now q) sub = None \<Longrightarrow>
    i = interrupted_head owned sub (live_receipts now q) \<Longrightarrow>
    queue_step th (Enqueue now th sub) q (enqueue_state now i sub (live_receipts now q))"
| control: "List.find (\<lambda>e. entry_id e = turn) (tq_pending q) = Some e \<Longrightarrow> qt_control e \<noteq> Cancel \<or> ctl = Cancel \<Longrightarrow>
    queue_step th (Control th turn a ctl) q
      (q\<lparr>tq_pending := update_first (\<lambda>e. entry_id e = turn) (\<lambda>e. e\<lparr>qt_control := ctl\<rparr>) (tq_pending q)\<rparr>)"
| begin_head: "ls_thread l = th \<Longrightarrow> tq_pending q = h # r \<Longrightarrow> \<not> qt_started h \<Longrightarrow> qt_control h \<noteq> Suspend \<Longrightarrow>
    queue_step th (Start l (entry_id h)) q (q\<lparr>tq_pending := h\<lparr>qt_started := True\<rparr> # r\<rparr>)"
| pop_head: "ls_thread l = th \<Longrightarrow> tq_pending q = h # r \<Longrightarrow> tq_acknowledged q \<noteq> Some (entry_id h) \<Longrightarrow>
    queue_step th (Acknowledge l (entry_id h)) q (q\<lparr>tq_pending := r, tq_acknowledged := Some (entry_id h)\<rparr>)"

inductive_cases queue_stepE: "queue_step th call q q'"

definition queue_view :: "('s, 'w) store_ops \<Rightarrow> turn_thread \<Rightarrow> 's coordinator \<Rightarrow> 'w turn_queue_state option" where
  "queue_view ops th c = (case so_load ops th (tc_store c) of Inl _ \<Rightarrow> None | Inr q \<Rightarrow> Some q)"

lemma queue_view_Some: "queue_view ops th c = Some q \<longleftrightarrow> so_load ops th (tc_store c) = Inr q"
  by (auto simp: queue_view_def split: sum.splits)

lemma coordinator_store_simps [simp]:
  "tc_store (notify th t ctl c) = tc_store c" "tc_store (set_thread th m c) = tc_store c"
  "tc_store (drop_control th c) = tc_store c" "tc_store (snd (subscribe th t ctl c)) = tc_store c"
  "tc_store (drop_lease l c) = tc_store c"
  by (auto simp: notify_def set_thread_def drop_control_def subscribe_def drop_lease_def Let_def
      split: option.splits)

text \<open>Every call leaves the store unchanged or saves one step of the abstract queue of one thread.\<close>

lemma perform_store:
  "tc_store (perform ops call c) = tc_store c \<or>
   (\<exists>th q q' s. so_load ops th (tc_store c) = Inr q \<and> so_save ops th q' (tc_store c) = Inr s \<and>
      tc_store (perform ops call c) = s \<and> queue_step th call q q')" (is ?thesis)
proof -
  have keep: "?thesis" if "tc_store (perform ops call c) = tc_store c"
    using that by blast
  have step: "?thesis" if "so_load ops th0 (tc_store c) = Inr q0" "so_save ops th0 q1 (tc_store c) = Inr s"
    "tc_store (perform ops call c) = s" "queue_step th0 call q0 q1" for th0 q0 q1 s
    using that by blast
  show ?thesis
  proof (cases call)
    case (Enqueue now th0 sub)
    show ?thesis
    proof (rule enqueue_effect [of ops now th0 sub c])
      assume "snd (enqueue ops now th0 sub c) = c"
      then show ?thesis using keep Enqueue by simp
    next
      fix q0 i s
      assume e: "so_load ops th0 (tc_store c) = Inr q0" "find_duplicate (live_receipts now q0) sub = None"
        "i = interrupted_head (owner_live th0 c) sub (live_receipts now q0)"
        "so_save ops th0 (enqueue_state now i sub (live_receipts now q0)) (tc_store c) = Inr s"
        "snd (enqueue ops now th0 sub c) = (case i of None \<Rightarrow> id | Some t \<Rightarrow> notify th0 t Cancel) (c\<lparr>tc_store := s\<rparr>)"
      have "tc_store (perform ops call c) = s"
        using e(5) Enqueue by (simp split: option.splits)
      then show ?thesis
        using step [OF e(1,4)] queue_step.append [OF e(2,3), of th0] Enqueue by simp
    qed
  next
    case (Control th0 turn a ctl)
    show ?thesis
    proof (rule update_control_effect [of ops th0 turn a ctl c])
      fix q0 e s
      assume u: "so_load ops th0 (tc_store c) = Inr q0"
        "List.find (\<lambda>e. entry_id e = turn) (tq_pending q0) = Some e" "qt_control e \<noteq> Cancel \<or> ctl = Cancel"
        "so_save ops th0 (q0\<lparr>tq_pending := update_first (\<lambda>e. entry_id e = turn) (\<lambda>e. e\<lparr>qt_control := ctl\<rparr>)
           (tq_pending q0)\<rparr>) (tc_store c) = Inr s"
        "snd (update_control ops th0 turn a ctl c) = notify th0 turn ctl (c\<lparr>tc_store := s\<rparr>)"
      show ?thesis
        by (rule step [OF u(1,4)]) (simp_all add: u(5) Control queue_step.control [OF u(2,3)])
    qed (use keep Control in simp)
  next
    case (Claim th0)
    show ?thesis by (rule claim_effect [of th0 c]) (use keep Claim in auto)
  next
    case (Start l turn)
    show ?thesis
    proof (rule start_effect [of ops l turn c])
      fix q0 h r s
      assume id: "entry_id h = turn"
        and u: "so_load ops (ls_thread l) (tc_store c) = Inr q0" "tq_pending q0 = h # r"
        "\<not> qt_started h" "qt_control h \<noteq> Suspend"
        "so_save ops (ls_thread l) (q0\<lparr>tq_pending := h\<lparr>qt_started := True\<rparr> # r\<rparr>) (tc_store c) = Inr s"
        "snd (start ops l turn c) = snd (subscribe (ls_thread l) turn (qt_control h) (c\<lparr>tc_store := s\<rparr>))"
      show ?thesis
        by (rule step [OF u(1,5)])
           (use queue_step.begin_head [OF refl u(2-4), of l] in \<open>simp_all add: u(6) Start id\<close>)
    qed (use keep Start in simp_all)
  next
    case (Acknowledge l turn)
    show ?thesis
    proof (rule acknowledge_effect [of ops l turn c])
      fix q0 h r s
      assume u: "so_load ops (ls_thread l) (tc_store c) = Inr q0" "tq_pending q0 = h # r" "entry_id h = turn"
        "tq_acknowledged q0 \<noteq> Some turn"
        "so_save ops (ls_thread l) (q0\<lparr>tq_pending := r, tq_acknowledged := Some turn\<rparr>) (tc_store c) = Inr s"
        "snd (acknowledge ops l turn c) = drop_control (ls_thread l) (c\<lparr>tc_store := s\<rparr>)"
      have "queue_step (ls_thread l) (Acknowledge l turn) q0 (q0\<lparr>tq_pending := r, tq_acknowledged := Some turn\<rparr>)"
        using queue_step.pop_head [OF refl u(2), of l] u(3,4) by simp
      then show ?thesis
        by (intro step [OF u(1,5)]) (simp_all add: u(6) Acknowledge)
    qed (use keep Acknowledge in simp)
  next
    case (Release l)
    show ?thesis by (rule release_effect [of ops l c]) (use keep Release in auto)
  next
    case (Drop l)
    then show ?thesis using keep by simp
  qed
qed

lemma queue_view_store: "tc_store c' = tc_store c \<Longrightarrow> queue_view ops th c' = queue_view ops th c"
  by (simp add: queue_view_def)

locale turn_queue_store =
  fixes ops :: "('s, 'w) store_ops" and inv :: "'s \<Rightarrow> bool"
  assumes load_saved: "so_load ops th s = Inr q0 \<Longrightarrow> so_save ops th q s = Inr s' \<Longrightarrow> so_load ops th s' = Inr q"
    and load_other: "so_save ops th q s = Inr s' \<Longrightarrow> th' \<noteq> th \<Longrightarrow> so_load ops th' s' = so_load ops th' s"
    and inv_saved: "inv s \<Longrightarrow> so_save ops th q s = Inr s' \<Longrightarrow> inv s'"
    and pending_runnable: "inv s \<Longrightarrow> so_pending_threads ops s = Inr ths \<Longrightarrow> so_load ops th s = Inr q \<Longrightarrow>
      th \<in> set ths \<longleftrightarrow> runnable q"
begin

lemma saved_view:
  assumes "so_load ops th (tc_store c) = Inr q0" and "so_save ops th q (tc_store c) = Inr s"
    and "tc_store c' = s"
  shows "queue_view ops th' c' = (if th' = th then Some q else queue_view ops th' c)"
  using load_saved [OF assms(1,2)] load_other [OF assms(2), of th'] assms(3) by (simp add: queue_view_def)

lemma perform_view:
  "queue_view ops th (perform ops call c) = queue_view ops th c \<or>
   (\<exists>q q'. queue_view ops th c = Some q \<and> queue_view ops th (perform ops call c) = Some q' \<and> queue_step th call q q')"
  using perform_store [of ops call c]
proof (elim disjE exE conjE)
  fix th0 q q' s
  assume e: "so_load ops th0 (tc_store c) = Inr q" "so_save ops th0 q' (tc_store c) = Inr s"
    "tc_store (perform ops call c) = s" "queue_step th0 call q q'"
  show ?thesis
    using saved_view [OF e(1-3), of th] e(1,4) by (cases "th = th0") (auto simp: queue_view_Some)
qed (rule disjI1, rule queue_view_store)

lemma perform_step:
  assumes "queue_view ops th c = Some q"
  shows "\<exists>q'. queue_view ops th (perform ops call c) = Some q' \<and> queue_step th call q q'"
  using perform_view [of th call c] assms queue_step.same by auto

lemma perform_steps:
  assumes "queue_view ops th c = Some q"
    and "P q" and "\<And>call q q'. call \<in> set calls \<Longrightarrow> P q \<Longrightarrow> queue_step th call q q' \<Longrightarrow> P q'"
  shows "\<exists>q'. queue_view ops th (fold (perform ops) calls c) = Some q' \<and> P q'"
  using assms
proof (induction calls arbitrary: c q)
  case (Cons call calls)
  obtain q1 where q1: "queue_view ops th (perform ops call c) = Some q1" "queue_step th call q q1"
    using perform_step [OF Cons.prems(1)] by blast
  have "P q1" using Cons.prems(2) q1(2) Cons.prems(3) [of call q q1] by simp
  then show ?case
    using Cons.IH [OF q1(1)] Cons.prems(3) by (simp, metis)
qed auto

end

lemma set_update_entry: "(k', v') \<in> set (AList.update k v al) \<Longrightarrow> (k' = k \<and> v' = v) \<or> (k', v') \<in> set al"
  by (induction al) (auto split: if_splits)

text \<open>A stored queue file names its own thread.\<close>

definition basic_store_ok :: "'w basic_queue_store \<Rightarrow> bool" where
  "basic_store_ok s \<longleftrightarrow> distinct (map fst (bq_queues s)) \<and> (\<forall>(th, queue) \<in> set (bq_queues s). sq_thread queue = th)"

interpretation memory: turn_queue_store memory_ops "\<lambda>s. distinct (map fst s)"
proof unfold_locales
  fix s th and q :: "'w turn_queue_state" and ths
  assume s: "distinct (map fst s)" "so_pending_threads memory_ops s = Inr ths" "so_load memory_ops th s = Inr q"
  have "th \<in> set ths \<longleftrightarrow> (\<exists>q'. map_of s th = Some q' \<and> runnable q')"
    using s(1,2) by (force simp: memory_ops_def memory_pending_threads_def)
  then show "th \<in> set ths \<longleftrightarrow> runnable q"
    using s(3) by (auto simp: memory_ops_def memory_load_def runnable_def front_def
        turn_queue_state_default_def split: option.splits)
qed (auto simp: memory_ops_def memory_load_def memory_save_def AList.update_conv' intro: AList.distinct_update)

interpretation basic: turn_queue_store basic_ops basic_store_ok
proof unfold_locales
  fix s th and q q0 :: "'w turn_queue_state" and s'
  assume "so_load basic_ops th s = Inr q0" "so_save basic_ops th q s = Inr s'"
  then show "so_load basic_ops th s' = Inr q"
    by (auto simp: basic_ops_def basic_load_def basic_save_def result_simps AList.update_conv')
next
  fix s th th' and q :: "'w turn_queue_state" and s'
  assume "so_save basic_ops th q s = Inr s'" "th' \<noteq> th"
  then show "so_load basic_ops th' s' = so_load basic_ops th' s"
    by (auto simp: basic_ops_def basic_load_def basic_save_def result_simps AList.update_conv')
next
  fix s th and q :: "'w turn_queue_state" and s'
  assume "basic_store_ok s" "so_save basic_ops th q s = Inr s'"
  then show "basic_store_ok s'"
    by (auto simp: basic_ops_def basic_save_def basic_store_ok_def result_simps AList.distinct_update
        AList.update_conv' dest!: set_update_entry)
next
  fix s th and q :: "'w turn_queue_state" and ths
  assume s: "basic_store_ok s" "so_pending_threads basic_ops s = Inr ths" "so_load basic_ops th s = Inr q"
  have dist: "distinct (map fst (bq_queues s))" and named: "\<And>th sq. (th, sq) \<in> set (bq_queues s) \<Longrightarrow> sq_thread sq = th"
    using s(1) by (auto simp: basic_store_ok_def)
  have "th \<in> set ths \<longleftrightarrow> (\<exists>sq. map_of (bq_queues s) th = Some sq \<and> runnable (sq_state sq))"
    using s(2) named dist by (force simp: basic_ops_def basic_pending_threads_def)
  then show "th \<in> set ths \<longleftrightarrow> runnable q"
    using s(3) by (auto simp: basic_ops_def basic_load_def runnable_def front_def result_simps
        turn_queue_state_default_def split: option.splits)
qed

section \<open>Facts about the abstract queue\<close>

definition queue_ids :: "'w turn_queue_state \<Rightarrow> uuid list" where
  "queue_ids q = map entry_id (tq_pending q)"

text \<open>No turn is queued twice, and only the head may have started.\<close>

definition queue_ok :: "'w turn_queue_state \<Rightarrow> bool" where
  "queue_ok q \<longleftrightarrow> distinct (queue_ids q) \<and> (\<forall>e \<in> set (tl (tq_pending q)). \<not> qt_started e)"

lemma entry_id_control [simp]: "entry_id (e\<lparr>qt_control := x\<rparr>) = entry_id e" "entry_id (e\<lparr>qt_started := b\<rparr>) = entry_id e"
  by (simp_all add: entry_id_def)

lemma live_receipts_pending [simp]: "tq_pending (live_receipts now q) = tq_pending q"
  by (simp add: live_receipts_def)

lemma no_duplicate_fresh: "find_duplicate q sub = None \<Longrightarrow> tn_id (sb_turn sub) \<notin> set (queue_ids q)"
  by (auto simp: find_duplicate_def queue_ids_def find_None_iff_ball split: option.splits)

lemma enqueue_state_ids: "queue_ids (enqueue_state now i sub q) = queue_ids q @ [tn_id (sb_turn sub)]"
  by (auto simp: queue_ids_def enqueue_state_def entry_id_def split: option.splits list.splits)

lemma control_ids: "map entry_id (update_first P (\<lambda>e. e\<lparr>qt_control := ctl\<rparr>) es) = map entry_id es"
  by (rule map_update_first) simp

lemma queue_step_ids:
  assumes "queue_step th call q q'"
  shows "queue_ids q' = queue_ids q \<or>
    (\<exists>now sub. call = Enqueue now th sub \<and> tn_id (sb_turn sub) \<notin> set (queue_ids q) \<and>
       queue_ids q' = queue_ids q @ [tn_id (sb_turn sub)]) \<or>
    (\<exists>l x rest. call = Acknowledge l x \<and> ls_thread l = th \<and> queue_ids q = x # rest \<and> queue_ids q' = rest)"
  using assms
proof cases
  case (append now sub i owned)
  then show ?thesis using no_duplicate_fresh [OF append(3)] enqueue_state_ids [of now i sub "live_receipts now q"]
    by (simp add: queue_ids_def)
qed (auto simp: queue_ids_def control_ids)

lemma tl_update_first: "e \<in> set (tl (update_first P f es)) \<Longrightarrow> e \<in> set (tl es) \<or> (\<exists>e0 \<in> set (tl es). e = f e0)"
  by (cases es) (auto dest: in_update_first split: if_splits)

lemma tl_append_single: "e \<in> set (tl (xs @ [x])) \<Longrightarrow> e = x \<or> e \<in> set (tl xs)"
  by (cases xs) auto

lemma queue_step_ok:
  assumes step: "queue_step th call q q'" and ok: "queue_ok q"
  shows "queue_ok q'"
proof -
  have "distinct (queue_ids q')" using queue_step_ids [OF step] ok by (auto simp: queue_ok_def)
  moreover have "\<not> qt_started e" if e: "e \<in> set (tl (tq_pending q'))" for e
    using step
  proof cases
    case (append now sub i owned)
    then show ?thesis using e ok
      by (auto simp: enqueue_state_def queue_ok_def dest!: tl_append_single split: option.splits list.splits)
  next
    case (control turn e0 ctl a)
    then show ?thesis using e ok by (auto simp: queue_ok_def dest!: tl_update_first)
  next
    case (pop_head l h r)
    then show ?thesis using e ok by (cases r) (auto simp: queue_ok_def)
  qed (use e ok in \<open>auto simp: queue_ok_def\<close>)
  ultimately show ?thesis by (simp add: queue_ok_def)
qed

text \<open>A cancelled entry stays cancelled until it leaves the queue; only a new submission of the same
  identity can bring the identity back.\<close>

definition cancelled_in :: "uuid \<Rightarrow> 'w turn_queue_state \<Rightarrow> bool" where
  "cancelled_in x q \<longleftrightarrow> (\<forall>e \<in> set (tq_pending q). entry_id e = x \<longrightarrow> qt_control e = Cancel)"

lemma queue_step_cancelled:
  assumes "queue_step th call q q'" and "cancelled_in x q" and ok: "queue_ok q"
    and "\<And>now sub. call = Enqueue now th sub \<Longrightarrow> tn_id (sb_turn sub) \<noteq> x"
  shows "cancelled_in x q'"
  using assms(1)
proof cases
  case (append now sub i owned)
  then show ?thesis using assms(2,4)
    by (auto simp: cancelled_in_def enqueue_state_def entry_id_def split: option.splits list.splits)
next
  case (control turn e ctl a)
  have e: "e \<in> set (tq_pending q)" "entry_id e = turn" using find_in_set [OF control(3)] by auto
  have dist: "distinct (map entry_id (tq_pending q))" using ok by (simp add: queue_ok_def queue_ids_def)
  show ?thesis
  proof (cases "turn = x")
    case True
    then have "ctl = Cancel" using e assms(2) control(4) by (auto simp: cancelled_in_def)
    then show ?thesis using assms(2) control
      by (auto simp: cancelled_in_def update_first_distinct [OF dist])
  next
    case False
    then show ?thesis using assms(2) control
      by (auto simp: cancelled_in_def update_first_distinct [OF dist])
  qed
qed (use assms(2) in \<open>auto simp: cancelled_in_def\<close>)

text \<open>Receipts: while one of a key and principal is live, no second one is added and it is found.\<close>

definition receipts_for :: "string \<Rightarrow> string option \<Rightarrow> 'w turn_queue_state \<Rightarrow> turn_receipt list" where
  "receipts_for key who q = filter (receipt_matches key who) (tq_receipts q)"

lemma filter_swap: "filter P (filter Q xs) = filter Q (filter P xs)"
  by (simp add: conj_commute)

lemma find_of_filter: "filter P xs = r # rs \<Longrightarrow> List.find P xs = Some r"
  by (induction xs) (auto split: if_splits)

lemma receipts_for_live: "receipts_for key who (live_receipts now q) =
    filter (\<lambda>r. rc_expires_at r > now) (receipts_for key who q)"
  by (simp add: receipts_for_def live_receipts_def conj_commute)

lemma find_receipt:
  assumes "receipts_for key who q = [r]" and "now < rc_expires_at r"
  shows "List.find (receipt_matches key who) (tq_receipts (live_receipts now q)) = Some r"
proof -
  have "receipts_for key who (live_receipts now q) = [r]"
    unfolding receipts_for_live assms(1) using assms(2) by simp
  then show ?thesis unfolding receipts_for_def by (rule find_of_filter)
qed

lemma find_no_receipt:
  "List.find (receipt_matches key who) (tq_receipts q) = None \<longleftrightarrow> receipts_for key who q = []"
  by (auto simp: receipts_for_def find_None_iff_ball filter_empty_conv)

lemma queue_step_receipt:
  assumes "queue_step th call q q'" and r: "receipts_for key who q = [r]"
    and time: "\<And>now sub. call = Enqueue now th sub \<Longrightarrow> now < rc_expires_at r"
  shows "receipts_for key who q' = [r]"
  using assms(1)
proof cases
  case (append now sub i owned)
  have live: "receipts_for key who (live_receipts now q) = [r]"
    using r time [OF append(1)] by (simp add: receipts_for_live)
  have "\<not> (op_idempotency_key (sb_options sub) = Some key \<and> sb_principal sub = who)"
  proof
    assume "op_idempotency_key (sb_options sub) = Some key \<and> sb_principal sub = who"
    then show False
      using append(3) find_receipt [OF r time [OF append(1)]]
      by (auto simp: find_duplicate_def split: option.splits)
  qed
  then have "receipts_for key who (enqueue_state now i sub (live_receipts now q)) =
      receipts_for key who (live_receipts now q)"
    by (auto simp: receipts_for_def enqueue_state_def receipt_matches_def split: option.splits)
  with live append(2) show ?thesis by simp
qed (use r in \<open>auto simp: receipts_for_def\<close>)

lemma enqueue_accepted:
  assumes "enqueue ops now th sub c = (Inr a, c')" and "\<not> ac_duplicate a"
  obtains q s where "so_load ops th (tc_store c) = Inr q" "find_duplicate (live_receipts now q) sub = None"
    "so_save ops th (enqueue_state now (interrupted_head (owner_live th c) sub (live_receipts now q)) sub
       (live_receipts now q)) (tc_store c) = Inr s"
    "c' = (case interrupted_head (owner_live th c) sub (live_receipts now q) of
       None \<Rightarrow> id | Some t \<Rightarrow> notify th t Cancel) (c\<lparr>tc_store := s\<rparr>)" "ac_turn a = sb_turn sub"
proof (cases "so_load ops th (tc_store c)")
  case (Inl e)
  then show ?thesis using assms by (simp add: enqueue_def bind_load)
next
  case (Inr q)
  let ?q = "live_receipts now q"
  let ?i = "interrupted_head (owner_live th c) sub ?q"
  show ?thesis
  proof (cases "find_duplicate ?q sub")
    case (Some d)
    then show ?thesis using assms Inr by (auto simp: enqueue_def bind_load Let_def io_return_def)
  next
    case None
    have run: "enqueue ops now th sub c = (case so_save ops th (enqueue_state now ?i sub ?q) (tc_store c) of
        Inl e \<Rightarrow> (Inl e, c)
      | Inr s \<Rightarrow> (Inr \<lparr> ac_turn = sb_turn sub, ac_duplicate = False \<rparr>,
          (case ?i of None \<Rightarrow> id | Some t \<Rightarrow> notify th t Cancel) (c\<lparr>tc_store := s\<rparr>)))"
      using Inr None by (simp add: enqueue_def bind_load coord_io Let_def split: sum.splits)
    then show ?thesis
      using that [OF Inr None] assms(1) by (auto split: sum.splits)
  qed
qed

lemma enqueue_duplicate:
  assumes "so_load ops th (tc_store c) = Inr q" and "find_duplicate (live_receipts now q) sub = Some t"
  shows "enqueue ops now th sub c = (Inr \<lparr> ac_turn = t, ac_duplicate = True \<rparr>, c)"
  using assms by (simp add: enqueue_def bind_load Let_def io_return_def)

section \<open>What a running turn observes\<close>

text \<open>The watched turn of a thread is the head of its queue, and its channel shows the head's stored
  control. Channels are not shared between threads.\<close>

definition watch_shows :: "('s, 'w) store_ops \<Rightarrow> turn_thread \<Rightarrow> 's coordinator \<Rightarrow> bool" where
  "watch_shows ops th c \<longleftrightarrow>
     (\<forall>t ch q. tm_control (tc_threads c th) = Some (t, ch) \<longrightarrow> queue_view ops th c = Some q \<longrightarrow>
        (\<exists>h r. tq_pending q = h # r \<and> entry_id h = t \<and> tc_watch c ch = Some (qt_control h)))"

definition channels_ok :: "'s coordinator \<Rightarrow> bool" where
  "channels_ok c \<longleftrightarrow>
     (\<forall>th t ch. tm_control (tc_threads c th) = Some (t, ch) \<longrightarrow> ch < tc_next_watch c \<and>
        (\<forall>th' t'. tm_control (tc_threads c th') = Some (t', ch) \<longrightarrow> th' = th))"

definition watch_ok :: "('s, 'w) store_ops \<Rightarrow> 's coordinator \<Rightarrow> bool" where
  "watch_ok ops c \<longleftrightarrow> channels_ok c \<and> (\<forall>th. watch_shows ops th c)"

text \<open>A call that touches only one thread keeps the invariant if it keeps it for that thread.\<close>

lemma watch_ok_local:
  assumes ok: "watch_ok ops c" and chan: "channels_ok c'"
    and others: "\<And>th'. th' \<noteq> th \<Longrightarrow> tm_control (tc_threads c' th') = tm_control (tc_threads c th') \<and>
       queue_view ops th' c' = queue_view ops th' c"
    and watch: "\<And>th' t ch. th' \<noteq> th \<Longrightarrow> tm_control (tc_threads c th') = Some (t, ch) \<Longrightarrow> tc_watch c' ch = tc_watch c ch"
    and own: "watch_shows ops th c'"
  shows "watch_ok ops c'"
proof -
  have "watch_shows ops th' c'" for th'
  proof (cases "th' = th")
    case False
    have "watch_shows ops th' c" using ok by (simp add: watch_ok_def)
    then show ?thesis
      using others [OF False] watch [OF False] unfolding watch_shows_def by simp
  qed (use own in simp)
  with chan show ?thesis by (simp add: watch_ok_def)
qed

lemma notify_control [simp]: "tc_threads (notify th t ctl c) = tc_threads c" "tc_next_watch (notify th t ctl c) = tc_next_watch c"
  by (simp_all add: notify_def split: option.splits)

lemma notify_watch_other:
  assumes "channels_ok c" and "th' \<noteq> th" and "tm_control (tc_threads c th') = Some (t', ch)"
  shows "tc_watch (notify th t ctl c) ch = tc_watch c ch"
  using assms by (auto simp: notify_def channels_ok_def split: option.splits)

lemma channels_ok_cong:
  "channels_ok c \<Longrightarrow> (\<And>th. tm_control (tc_threads c' th) = tm_control (tc_threads c th) \<or> tm_control (tc_threads c' th) = None) \<Longrightarrow>
   tc_next_watch c' = tc_next_watch c \<Longrightarrow> channels_ok c'"
  unfolding channels_ok_def by (metis option.distinct(1))

lemma watch_ok_dropped:
  assumes "watch_ok ops c" and "tc_store c' = tc_store c" "tc_watch c' = tc_watch c" "tc_next_watch c' = tc_next_watch c"
    and "\<And>th. tm_control (tc_threads c' th) = tm_control (tc_threads c th) \<or> tm_control (tc_threads c' th) = None"
  shows "watch_ok ops c'"
proof -
  have "watch_shows ops th c'" for th
  proof -
    have "watch_shows ops th c" using assms(1) by (simp add: watch_ok_def)
    then show ?thesis
      using assms(5) [of th] assms(3) unfolding watch_shows_def queue_view_store [OF assms(2)] by auto
  qed
  moreover have "channels_ok c'" using channels_ok_cong [of c c'] assms by (auto simp: watch_ok_def)
  ultimately show ?thesis by (simp add: watch_ok_def)
qed

context turn_queue_store
begin

text \<open>Storing a queue whose head keeps its identity, with the watch told of the head's new control.\<close>

lemma watch_ok_saved:
  assumes ok: "watch_ok ops c" and load: "so_load ops th (tc_store c) = Inr q"
    and save: "so_save ops th q' (tc_store c) = Inr s"
    and head: "\<And>h r. tq_pending q = h # r \<Longrightarrow> \<exists>h' r'. tq_pending q' = h' # r' \<and> entry_id h' = entry_id h \<and>
       (entry_id h = t \<and> qt_control h' = ctl \<or> entry_id h \<noteq> t \<and> qt_control h' = qt_control h)"
  shows "watch_ok ops (notify th t ctl (c\<lparr>tc_store := s\<rparr>))" (is "watch_ok ops ?c'")
proof (rule watch_ok_local [OF ok, of _ th])
  have chan: "channels_ok c" using ok by (simp add: watch_ok_def)
  then show "channels_ok ?c'" by (rule channels_ok_cong) simp_all
  show "tm_control (tc_threads ?c' th') = tm_control (tc_threads c th') \<and> queue_view ops th' ?c' = queue_view ops th' c"
    if "th' \<noteq> th" for th'
    using saved_view [OF load save, of ?c' th'] that by simp
  show "tc_watch ?c' ch = tc_watch c ch" if "th' \<noteq> th" "tm_control (tc_threads c th') = Some (t', ch)" for th' t' ch
    using notify_watch_other [of "c\<lparr>tc_store := s\<rparr>" th' th t' ch] that chan by (simp add: channels_ok_def)
  have view: "queue_view ops th ?c' = Some q'" using saved_view [OF load save, of ?c' th] by simp
  have "watch_shows ops th c" using ok by (simp add: watch_ok_def)
  then show "watch_shows ops th ?c'"
    using head load unfolding watch_shows_def view
    by (fastforce simp: queue_view_def notify_def split: option.splits)
qed

lemma enqueue_watch:
  assumes ok: "watch_ok ops c"
  shows "watch_ok ops (snd (enqueue ops now th sub c))"
proof (rule enqueue_effect [of ops now th sub c])
  fix q :: "'w turn_queue_state" and i s
  let ?q = "live_receipts now q"
  assume e: "so_load ops th (tc_store c) = Inr q"
    "i = interrupted_head (owner_live th c) sub ?q"
    "so_save ops th (enqueue_state now i sub ?q) (tc_store c) = Inr s"
    "snd (enqueue ops now th sub c) = (case i of None \<Rightarrow> id | Some t \<Rightarrow> notify th t Cancel) (c\<lparr>tc_store := s\<rparr>)"
  show ?thesis
  proof (cases i)
    case (Some t)
    then have "\<exists>h r. tq_pending q = h # r \<and> entry_id h = t"
      using e(2) by (auto simp: interrupted_head_def split: if_splits list.splits)
    then have "watch_ok ops (notify th t Cancel (c\<lparr>tc_store := s\<rparr>))"
      using Some by (intro watch_ok_saved [OF ok e(1,3)]) (auto simp: enqueue_state_def)
    then show ?thesis using e(4) Some by simp
  next
    case None
    have shown: "watch_shows ops th c" and chan: "channels_ok c" using ok by (simp_all add: watch_ok_def)
    let ?c' = "c\<lparr>tc_store := s\<rparr>"
    have view: "queue_view ops th' ?c' = (if th' = th then Some (enqueue_state now i sub ?q) else queue_view ops th' c)" for th'
      using saved_view [OF e(1,3), of ?c' th'] by simp
    have "watch_ok ops ?c'"
    proof (rule watch_ok_local [OF ok, of _ th])
      show "channels_ok ?c'" using chan by (rule channels_ok_cong) simp_all
      show "watch_shows ops th ?c'"
        using shown e(1) None unfolding watch_shows_def view
        by (fastforce simp: queue_view_def enqueue_state_def)
    qed (simp_all add: view)
    then show ?thesis using e(4) None by simp
  qed
qed (use ok in simp)

lemma control_watch:
  assumes ok: "watch_ok ops c"
  shows "watch_ok ops (snd (update_control ops th turn a ctl c))"
proof (rule update_control_effect [of ops th turn a ctl c])
  fix q e s
  assume u: "so_load ops th (tc_store c) = Inr q"
    "so_save ops th (q\<lparr>tq_pending := update_first (\<lambda>e. entry_id e = turn) (\<lambda>e. e\<lparr>qt_control := ctl\<rparr>)
       (tq_pending q)\<rparr>) (tc_store c) = Inr s"
    "snd (update_control ops th turn a ctl c) = notify th turn ctl (c\<lparr>tc_store := s\<rparr>)"
  have "watch_ok ops (notify th turn ctl (c\<lparr>tc_store := s\<rparr>))"
    by (rule watch_ok_saved [OF ok u(1,2)]) auto
  then show ?thesis using u(3) by simp
qed (use ok in simp)

text \<open>A subscription to the head on a fresh channel establishes the invariant for its thread.\<close>

lemma subscribe_watch:
  assumes ok: "watch_ok ops c0" and c: "tc_threads c = tc_threads c0" "tc_watch c = tc_watch c0" "tc_next_watch c = tc_next_watch c0"
    and others: "\<And>th'. th' \<noteq> th \<Longrightarrow> queue_view ops th' c = queue_view ops th' c0"
    and view: "queue_view ops th c = Some q" "tq_pending q = h # r" "entry_id h = t"
  shows "watch_ok ops (snd (subscribe th t (qt_control h) c))" (is "watch_ok ops ?c'")
proof (rule watch_ok_local [OF ok, of _ th])
  have chan: "channels_ok c0" using ok by (simp add: watch_ok_def)
  have fresh: "tm_control (tc_threads c0 th') \<noteq> Some (t', tc_next_watch c0)" for th' t'
    using chan by (auto simp: channels_ok_def)
  have ctl: "tm_control (tc_threads ?c' th') =
      (if th' = th then Some (t, tc_next_watch c0) else tm_control (tc_threads c0 th'))" for th'
    by (simp add: subscribe_def set_thread_def Let_def c)
  have next_w: "tc_next_watch ?c' = Suc (tc_next_watch c0)"
    and watch: "tc_watch ?c' = (tc_watch c0)(tc_next_watch c0 \<mapsto> qt_control h)"
    by (simp_all add: subscribe_def set_thread_def Let_def c)
  have view': "queue_view ops th' ?c' = queue_view ops th' c" for th'
    by (rule queue_view_store) simp
  show "channels_ok ?c'"
    unfolding channels_ok_def ctl next_w using chan fresh
    by (auto simp: channels_ok_def less_Suc_eq)
  show "tm_control (tc_threads ?c' th') = tm_control (tc_threads c0 th') \<and> queue_view ops th' ?c' = queue_view ops th' c0"
    if "th' \<noteq> th" for th'
    using that others by (simp add: ctl view')
  show "tc_watch ?c' ch = tc_watch c0 ch" if "th' \<noteq> th" "tm_control (tc_threads c0 th') = Some (t', ch)" for th' t' ch
    using that fresh by (auto simp: watch)
  show "watch_shows ops th ?c'"
    unfolding watch_shows_def using view by (simp add: ctl view' watch)
qed

lemma start_watch:
  assumes ok: "watch_ok ops c"
  shows "watch_ok ops (snd (start ops l turn c))"
proof (rule start_effect [of ops l turn c])
  fix q h r s
  assume u: "so_load ops (ls_thread l) (tc_store c) = Inr q" "entry_id h = turn"
    "so_save ops (ls_thread l) (q\<lparr>tq_pending := h\<lparr>qt_started := True\<rparr> # r\<rparr>) (tc_store c) = Inr s"
    "snd (start ops l turn c) = snd (subscribe (ls_thread l) turn (qt_control h) (c\<lparr>tc_store := s\<rparr>))"
  have view: "queue_view ops th' (c\<lparr>tc_store := s\<rparr>) =
      (if th' = ls_thread l then Some (q\<lparr>tq_pending := h\<lparr>qt_started := True\<rparr> # r\<rparr>) else queue_view ops th' c)" for th'
    using saved_view [OF u(1,3), of "c\<lparr>tc_store := s\<rparr>" th'] by simp
  have "watch_ok ops (snd (subscribe (ls_thread l) turn (qt_control (h\<lparr>qt_started := True\<rparr>)) (c\<lparr>tc_store := s\<rparr>)))"
    by (rule subscribe_watch [OF ok, where q = "q\<lparr>tq_pending := h\<lparr>qt_started := True\<rparr> # r\<rparr>" and r = r])
       (simp_all add: view u(2))
  then show ?thesis using u(4) by simp
next
  fix q h r
  assume u: "so_load ops (ls_thread l) (tc_store c) = Inr q" "tq_pending q = h # r" "entry_id h = turn"
    "snd (start ops l turn c) = snd (subscribe (ls_thread l) turn (qt_control h) c)"
  have "watch_ok ops (snd (subscribe (ls_thread l) turn (qt_control h) c))"
    by (rule subscribe_watch [OF ok, where q = q and r = r]) (simp_all add: u queue_view_Some)
  then show ?thesis using u(4) by simp
qed (use ok in simp)

lemma acknowledge_watch:
  assumes ok: "watch_ok ops c"
  shows "watch_ok ops (snd (acknowledge ops l turn c))"
proof (rule acknowledge_effect [of ops l turn c])
  fix q :: "'w turn_queue_state" and h r s
  let ?c' = "drop_control (ls_thread l) (c\<lparr>tc_store := s\<rparr>)"
  assume u: "so_load ops (ls_thread l) (tc_store c) = Inr q"
    "so_save ops (ls_thread l) (q\<lparr>tq_pending := r, tq_acknowledged := Some turn\<rparr>) (tc_store c) = Inr s"
    "snd (acknowledge ops l turn c) = ?c'"
  have ctl: "tm_control (tc_threads ?c' th') = (if th' = ls_thread l then None else tm_control (tc_threads c th'))" for th'
    by (simp add: drop_control_def set_thread_def)
  have view: "queue_view ops th' ?c' = (if th' = ls_thread l then
      Some (q\<lparr>tq_pending := r, tq_acknowledged := Some turn\<rparr>) else queue_view ops th' c)" for th'
    using saved_view [OF u(1,2), of ?c' th'] by simp
  have "watch_ok ops ?c'"
  proof (rule watch_ok_local [OF ok, of _ "ls_thread l"])
    have "channels_ok c" using ok by (simp add: watch_ok_def)
    then show "channels_ok ?c'"
      by (rule channels_ok_cong) (simp_all add: ctl, simp add: drop_control_def set_thread_def)
    show "watch_shows ops (ls_thread l) ?c'" by (simp add: watch_shows_def ctl)
  qed (simp_all add: ctl view, simp add: drop_control_def set_thread_def)
  then show ?thesis using u(3) by simp
qed (use ok in simp)

lemma perform_watch:
  assumes ok: "watch_ok ops c"
  shows "watch_ok ops (perform ops call c)"
proof (cases call)
  case (Claim th)
  have "watch_ok ops (snd (claim th c))"
    by (rule watch_ok_dropped [OF ok]) (auto simp: claim_def set_thread_def Let_def)
  then show ?thesis using Claim by simp
next
  case (Release l)
  have "watch_ok ops (set_thread (ls_thread l) thread_mutation_default c)"
    by (rule watch_ok_dropped [OF ok]) (auto simp: set_thread_def thread_mutation_default_def)
  then show ?thesis
    by (cases rule: release_effect [of ops l c]) (use ok Release in simp_all)
next
  case (Drop l)
  have "watch_ok ops (drop_lease l c)"
    by (rule watch_ok_dropped [OF ok]) (auto simp: drop_lease_def set_thread_def thread_mutation_default_def Let_def)
  then show ?thesis using Drop by simp
qed (use enqueue_watch control_watch start_watch acknowledge_watch ok in simp_all)

end

section \<open>Ownership\<close>

text \<open>A live lease that owns its thread keeps it through every call but its own release and drop.\<close>

definition holds :: "turn_lease \<Rightarrow> 's coordinator \<Rightarrow> bool" where
  "holds l c \<longleftrightarrow> l \<in> set (tc_leases c) \<and> tm_owner (tc_threads c (ls_thread l)) = Some (ls_identity l)"

lemma holds_live: "holds l c \<Longrightarrow> owner_live (ls_thread l) c"
  by (auto simp: holds_def owner_live_def)

lemma holds_owns: "holds l c \<Longrightarrow> owns l c"
  using holds_live [of l c] by (simp add: holds_def owns_def)

lemma holds_frame:
  "tc_leases c' = tc_leases c \<Longrightarrow> tm_owner (tc_threads c' (ls_thread l)) = tm_owner (tc_threads c (ls_thread l)) \<Longrightarrow>
   holds l c' = holds l c"
  by (simp add: holds_def)

lemma notify_leases [simp]: "tc_leases (notify th t ctl c) = tc_leases c"
  by (simp add: notify_def split: option.splits)

lemma subscribe_holds [simp]: "holds l (snd (subscribe th t ctl c)) = holds l c"
  by (simp add: holds_def subscribe_def set_thread_def Let_def)

lemma drop_control_holds [simp]: "holds l (drop_control th c) = holds l c"
  by (simp add: holds_def drop_control_def set_thread_def)

lemma notify_holds [simp]: "holds l (notify th t ctl c) = holds l c"
  by (simp add: holds_def)

lemma store_holds [simp]: "holds l (c\<lparr>tc_store := s\<rparr>) = holds l c"
  by (simp add: holds_def)

lemma perform_holds:
  assumes h: "holds l c" and "call \<noteq> Drop l" "call \<noteq> Release l"
  shows "holds l (perform ops call c)"
proof (cases call)
  case (Enqueue now th sub)
  then show ?thesis using h
    by (cases rule: enqueue_effect [of ops now th sub c]) (simp_all split: option.splits)
next
  case (Control th turn a ctl)
  then show ?thesis using h by (cases rule: update_control_effect [of ops th turn a ctl c]) simp_all
next
  case (Claim th)
  have "tm_owner (tc_threads c (ls_thread l)) = Some (ls_identity l)" using h by (simp add: holds_def)
  then show ?thesis using h Claim holds_live [OF h]
    by (cases rule: claim_effect [of th c]) (auto simp: holds_def set_thread_def)
next
  case (Start l' turn)
  then show ?thesis using h by (cases rule: start_effect [of ops l' turn c]) simp_all
next
  case (Acknowledge l' turn)
  then show ?thesis using h by (cases rule: acknowledge_effect [of ops l' turn c]) simp_all
next
  case (Release l')
  then have ne: "l' \<noteq> l" using assms(3) by auto
  show ?thesis
  proof (cases rule: release_effect [of ops l' c])
    case (2 q)
    have "ls_thread l' \<noteq> ls_thread l"
      using 2(3) h ne by (cases l; cases l') (auto simp: owns_def holds_def)
    then show ?thesis using 2(4) Release h by (simp add: holds_def set_thread_def)
  qed (use h Release in simp)
next
  case (Drop l')
  then have "l' \<noteq> l" using assms(2) by auto
  then show ?thesis using h Drop by (auto simp: holds_def drop_lease_def set_thread_def Let_def image_iff)
qed

lemma fold_holds:
  "holds l c \<Longrightarrow> Drop l \<notin> set calls \<Longrightarrow> Release l \<notin> set calls \<Longrightarrow> holds l (fold (perform ops) calls c)"
  by (induction calls arbitrary: c) (auto simp: perform_holds)

section \<open>Properties\<close>

definition sample_thread :: turn_thread where
  "sample_thread = \<lparr> th_agent_id = 1, th_thread_id = 2 \<rparr>"

definition sample_submission :: "uuid \<Rightarrow> string option \<Rightarrow> turn_attention \<Rightarrow> nat turn_submission" where
  "sample_submission x key attention =
     \<lparr> sb_turn = \<lparr> tn_id = x, tn_session_id = 7 \<rparr>, sb_work = 0, sb_principal = Some ''ada'',
       sb_options = \<lparr> op_idempotency_key = key, op_attention = attention \<rparr> \<rparr>"

definition sample_basic :: "nat basic_queue_store" where
  "sample_basic = \<lparr> bq_claim = (\<lambda>_. Inr ()), bq_records = [sample_thread], bq_queues = [] \<rparr>"

definition sample_coordinator :: "nat basic_queue_store coordinator" where
  "sample_coordinator = new_coordinator sample_basic"

lemma sample_view: "queue_view basic_ops sample_thread sample_coordinator = Some turn_queue_state_default"
  by (simp add: queue_view_def sample_coordinator_def new_coordinator_def sample_basic_def basic_ops_def basic_load_def)

lemmas sample_eval = perform.simps enqueue_def update_control_def claim_def start_def acknowledge_def
  bind_check bind_load bind_modify coord_io owns_def owner_live_def notify_def set_thread_def subscribe_def drop_control_def
  front_def find_duplicate_def live_receipts_def interrupted_head_def enqueue_state_def entry_id_def receipt_matches_def
  basic_ops_def basic_load_def basic_save_def sample_coordinator_def new_coordinator_def sample_basic_def
  sample_submission_def turn_queue_state_default_def thread_mutation_default_def Let_def

text \<open>C19: the durable queue of a thread is first-in first-out: a call leaves the queued turns as they
  are, or is an enqueue on this thread that appends a turn not yet queued, or is an acknowledgement under a
  lease of this thread that removes the head, the very turn it names.\<close>

theorem durable_queue_is_fifo:
  assumes "queue_view basic_ops th c = Some q"
  shows "\<exists>q'. queue_view basic_ops th (perform basic_ops call c) = Some q' \<and>
    (queue_ids q' = queue_ids q \<or>
     (\<exists>now sub. call = Enqueue now th sub \<and> tn_id (sb_turn sub) \<notin> set (queue_ids q) \<and>
        queue_ids q' = queue_ids q @ [tn_id (sb_turn sub)]) \<or>
     (\<exists>l x rest. call = Acknowledge l x \<and> ls_thread l = th \<and> queue_ids q = x # rest \<and> queue_ids q' = rest))"
  using basic.perform_step [OF assms, of call] queue_step_ids by blast

theorem durable_queue_is_fifo_witness:
  "\<exists>q'. queue_view basic_ops sample_thread
      (perform basic_ops (Enqueue 0 sample_thread (sample_submission 5 None Wake)) sample_coordinator) = Some q' \<and>
     queue_ids q' = [5]"
proof -
  let ?sub = "sample_submission 5 None Wake"
  let ?call = "Enqueue 0 sample_thread ?sub"
  have run: "queue_view basic_ops sample_thread (perform basic_ops ?call sample_coordinator) \<noteq> Some turn_queue_state_default"
    by (simp add: sample_eval queue_view_def)
  obtain q' where q': "queue_view basic_ops sample_thread (perform basic_ops ?call sample_coordinator) = Some q'"
    "queue_ids q' = [] \<or> queue_ids q' = [5]"
    using durable_queue_is_fifo [OF sample_view, of ?call]
    by (auto simp: queue_ids_def turn_queue_state_default_def sample_submission_def)
  moreover have "tq_pending q' \<noteq> []" using q'(1) by (auto simp: sample_eval queue_view_def)
  ultimately show ?thesis by (auto simp: queue_ids_def)
qed

text \<open>Reachable states of a coordinator opened on a store.\<close>

inductive reachable :: "('s, 'w) store_ops \<Rightarrow> 's \<Rightarrow> 's coordinator \<Rightarrow> bool" for ops s where
  opened: "reachable ops s (new_coordinator s)"
| called: "reachable ops s c \<Longrightarrow> reachable ops s (perform ops call c)"

lemma reachable_fold: "reachable ops s c \<Longrightarrow> reachable ops s (fold (perform ops) calls c)"
  by (induction calls arbitrary: c) (auto intro: reachable.called)

lemma new_watch_ok: "watch_ok ops (new_coordinator s)"
  by (simp add: watch_ok_def channels_ok_def watch_shows_def new_coordinator_def thread_mutation_default_def)

lemma reachable_watch_ok: "reachable basic_ops s c \<Longrightarrow> watch_ok basic_ops c"
  by (induction rule: reachable.induct) (simp_all add: new_watch_ok basic.perform_watch)

lemma reachable_queue_ok:
  assumes "reachable basic_ops s c" and "\<And>th q. so_load basic_ops th s = Inr q \<Longrightarrow> queue_ok q"
  shows "queue_view basic_ops th c = Some q \<Longrightarrow> queue_ok q"
  using assms(1)
proof (induction arbitrary: q rule: reachable.induct)
  case opened
  then show ?case using assms(2) by (simp add: queue_view_Some new_coordinator_def)
next
  case (called c call)
  then show ?case using basic.perform_view [of th call c] queue_step_ok by auto
qed

text \<open>C1: in every state reachable from a store whose queues are well formed, no turn is queued twice,
  only the head may have started, and the turn a thread's owner is watching is the head, its watch showing
  exactly the control stored for it: no cancellation, suspension or resumption is missed.\<close>

theorem running_turn_sees_stored_control:
  assumes "reachable basic_ops s c" and "\<forall>th q. so_load basic_ops th s = Inr q \<longrightarrow> queue_ok q"
    and "queue_view basic_ops th c = Some q"
  shows "queue_ok q \<and>
    (\<forall>t ch. tm_control (tc_threads c th) = Some (t, ch) \<longrightarrow>
       (\<exists>h r. tq_pending q = h # r \<and> entry_id h = t \<and> tc_watch c ch = Some (qt_control h)))"
  using reachable_queue_ok [OF assms(1) _ assms(3)] assms(2) reachable_watch_ok [OF assms(1)] assms(3)
  by (simp add: watch_ok_def watch_shows_def)

definition sample_lease :: turn_lease where
  "sample_lease = \<lparr> ls_thread = sample_thread, ls_identity = 0 \<rparr>"

definition sample_running :: "nat basic_queue_store coordinator" where
  "sample_running = fold (perform basic_ops)
     [Enqueue 0 sample_thread (sample_submission 5 (Some ''k'') Wake), Claim sample_thread, Start sample_lease 5]
     sample_coordinator"

definition sample_entry :: "uuid \<Rightarrow> bool \<Rightarrow> turn_control \<Rightarrow> nat queued_turn" where
  "sample_entry x started ctl = \<lparr> qt_turn = \<lparr> tn_id = x, tn_session_id = 7 \<rparr>, qt_work = 0,
     qt_principal = Some ''ada'', qt_started = started, qt_control = ctl \<rparr>"

definition sample_queue :: "turn_control \<Rightarrow> nat turn_queue_state" where
  "sample_queue ctl = \<lparr> tq_pending = [sample_entry 5 True ctl],
     tq_receipts = [\<lparr> rc_principal = Some ''ada'', rc_key = ''k'', rc_turn = \<lparr> tn_id = 5, tn_session_id = 7 \<rparr>,
       rc_expires_at = 86400 \<rparr>], tq_acknowledged = None \<rparr>"

lemma sample_running_eq: "sample_running =
    \<lparr> tc_store = sample_basic\<lparr>bq_queues := [(sample_thread, \<lparr> sq_thread = sample_thread, sq_state = sample_queue Run \<rparr>)]\<rparr>,
      tc_threads = (\<lambda>_. thread_mutation_default)(sample_thread := \<lparr> tm_owner = Some 0, tm_control = Some (5, 0) \<rparr>),
      tc_leases = [sample_lease], tc_next_lease = 1, tc_watch = (\<lambda>_. None)(0 \<mapsto> Run), tc_next_watch = 1 \<rparr>"
  by (simp add: sample_running_def sample_eval sample_lease_def sample_queue_def sample_entry_def)

lemma sample_running_view: "queue_view basic_ops sample_thread sample_running = Some (sample_queue Run)"
  by (simp add: sample_running_eq queue_view_def basic_ops_def basic_load_def sample_basic_def)

lemma sample_reachable: "reachable basic_ops sample_basic sample_running"
  unfolding sample_running_def sample_coordinator_def by (intro reachable_fold reachable.opened)

lemma sample_loads_ok: "\<forall>th q. so_load basic_ops th sample_basic = Inr q \<longrightarrow> queue_ok q"
  by (simp add: basic_ops_def basic_load_def sample_basic_def queue_ok_def queue_ids_def turn_queue_state_default_def)

theorem running_turn_sees_stored_control_witness:
  "let c = perform basic_ops (Control sample_thread 5 ThreadOwner Cancel) sample_running in
   \<exists>q h r. queue_view basic_ops sample_thread c = Some q \<and> tq_pending q = h # r \<and>
     tc_watch c 0 = Some (qt_control h)"
proof -
  let ?c = "perform basic_ops (Control sample_thread 5 ThreadOwner Cancel) sample_running"
  have reach: "reachable basic_ops sample_basic ?c" by (rule reachable.called [OF sample_reachable])
  have view: "queue_view basic_ops sample_thread ?c = Some (sample_queue Cancel)"
    by (simp add: sample_running_eq sample_eval sample_queue_def sample_entry_def queue_view_def)
  have "tm_control (tc_threads ?c sample_thread) = Some (5, 0)"
    by (simp add: sample_running_eq sample_eval sample_queue_def sample_entry_def)
  with running_turn_sees_stored_control [OF reach sample_loads_ok view] view show ?thesis
    unfolding Let_def by blast
qed

text \<open>C7: an accepted submission is remembered for 24 hours. After a submission with an idempotency key
  is accepted, whatever calls follow (all before its receipt expires), submitting the same key under the same
  principal changes nothing and is answered as a duplicate; unless the resubmission names a turn that is
  itself still queued, the answer is the turn accepted first.\<close>

theorem submission_is_idempotent_for_24_hours:
  assumes accepted: "enqueue basic_ops now th sub c = (Inr a, c1)" "\<not> ac_duplicate a"
    and key: "op_idempotency_key (sb_options sub) = Some key"
    and calls: "\<forall>n t s. Enqueue n t s \<in> set calls \<longrightarrow> n < now + 24 * 60 * 60"
    and retry: "op_idempotency_key (sb_options sub') = Some key" "sb_principal sub' = sb_principal sub"
      "now' < now + 24 * 60 * 60"
  shows "let c2 = fold (perform basic_ops) calls c1 in
    \<exists>t q. queue_view basic_ops th c2 = Some q \<and>
      enqueue basic_ops now' th sub' c2 = (Inr \<lparr> ac_turn = t, ac_duplicate = True \<rparr>, c2) \<and>
      (tn_id (sb_turn sub') \<notin> set (queue_ids q) \<longrightarrow> t = sb_turn sub)"
proof -
  obtain q0 s where e: "so_load basic_ops th (tc_store c) = Inr q0"
    "find_duplicate (live_receipts now q0) sub = None"
    "so_save basic_ops th (enqueue_state now (interrupted_head (owner_live th c) sub (live_receipts now q0)) sub
       (live_receipts now q0)) (tc_store c) = Inr s"
    "c1 = (case interrupted_head (owner_live th c) sub (live_receipts now q0) of
       None \<Rightarrow> id | Some t \<Rightarrow> notify th t Cancel) (c\<lparr>tc_store := s\<rparr>)"
    using enqueue_accepted [OF accepted] by blast
  let ?q1 = "enqueue_state now (interrupted_head (owner_live th c) sub (live_receipts now q0)) sub (live_receipts now q0)"
  let ?r = "\<lparr> rc_principal = sb_principal sub, rc_key = key, rc_turn = sb_turn sub, rc_expires_at = now + 24 * 60 * 60 \<rparr>"
  have "tc_store c1 = s" using e(4) by (simp split: option.splits)
  from basic.saved_view [OF e(1,3) this, of th]
  have view1: "queue_view basic_ops th c1 = Some ?q1" by simp
  have "receipts_for key (sb_principal sub) (live_receipts now q0) = []"
    using e(2) key by (auto simp: find_duplicate_def find_no_receipt split: option.splits)
  then have r1: "receipts_for key (sb_principal sub) ?q1 = [?r]"
    using key by (simp add: enqueue_state_def receipts_for_def receipt_matches_def)
  have "\<exists>q. queue_view basic_ops th (fold (perform basic_ops) calls c1) = Some q \<and>
      receipts_for key (sb_principal sub) q = [?r]"
    by (rule basic.perform_steps [OF view1, where P = "\<lambda>q. receipts_for key (sb_principal sub) q = [?r]", OF r1])
       (use calls queue_step_receipt [where r = ?r] in fastforce)
  then obtain q where q: "queue_view basic_ops th (fold (perform basic_ops) calls c1) = Some q"
      "receipts_for key (sb_principal sub) q = [?r]" by blast
  have found: "List.find (receipt_matches key (sb_principal sub')) (tq_receipts (live_receipts now' q)) = Some ?r"
    using find_receipt [OF q(2), of now'] retry by simp
  obtain t where t: "find_duplicate (live_receipts now' q) sub' = Some t"
      "tn_id (sb_turn sub') \<notin> set (queue_ids q) \<longrightarrow> t = sb_turn sub"
  proof (cases "List.find (\<lambda>e. entry_id e = tn_id (sb_turn sub')) (tq_pending q)")
    case None
    then show ?thesis using that [of "sb_turn sub"] found retry(1) by (simp add: find_duplicate_def)
  next
    case (Some e)
    then have "tn_id (sb_turn sub') \<in> set (queue_ids q)"
      using find_in_set [OF Some] by (auto simp: queue_ids_def intro: rev_image_eqI)
    then show ?thesis using that [of "qt_turn e"] Some by (simp add: find_duplicate_def)
  qed
  have "enqueue basic_ops now' th sub' (fold (perform basic_ops) calls c1) =
      (Inr \<lparr> ac_turn = t, ac_duplicate = True \<rparr>, fold (perform basic_ops) calls c1)"
    by (rule enqueue_duplicate [OF _ t(1)]) (use q(1) in \<open>simp add: queue_view_Some\<close>)
  with q(1) t(2) show ?thesis by (auto simp: Let_def)
qed

lemma sample_accepts:
  "\<exists>c1. enqueue basic_ops 0 sample_thread (sample_submission 5 (Some ''k'') Wake) sample_coordinator =
     (Inr \<lparr> ac_turn = \<lparr> tn_id = 5, tn_session_id = 7 \<rparr>, ac_duplicate = False \<rparr>, c1)"
  by (simp add: sample_eval)

theorem submission_is_idempotent_for_24_hours_witness:
  "\<exists>c1 t. enqueue basic_ops 86399 sample_thread (sample_submission 6 (Some ''k'') Wake) c1 =
     (Inr \<lparr> ac_turn = t, ac_duplicate = True \<rparr>, c1)"
proof -
  let ?sub = "sample_submission 5 (Some ''k'') Wake" and ?sub' = "sample_submission 6 (Some ''k'') Wake"
  obtain c1 where c1: "enqueue basic_ops 0 sample_thread ?sub sample_coordinator =
      (Inr \<lparr> ac_turn = \<lparr> tn_id = 5, tn_session_id = 7 \<rparr>, ac_duplicate = False \<rparr>, c1)"
    using sample_accepts by blast
  have "\<forall>n t s. Enqueue n t s \<in> set [Claim sample_thread] \<longrightarrow> n < 0 + 24 * 60 * 60" by simp
  from submission_is_idempotent_for_24_hours [OF c1 _ _ this, of "''k''" ?sub' 86399] show ?thesis
    by (auto simp: sample_submission_def Let_def)
qed

text \<open>cancellation is final. A queued turn that is cancelled stays cancelled through every later
  call, until it leaves the queue, as long as its identity is not submitted anew.\<close>

theorem cancelled_turn_stays_cancelled:
  assumes "queue_view basic_ops th c = Some q" and "queue_ok q"
    and "e \<in> set (tq_pending q)" "entry_id e = x" "qt_control e = Cancel"
    and "\<forall>now sub. Enqueue now th sub \<in> set calls \<longrightarrow> tn_id (sb_turn sub) \<noteq> x"
  shows "\<exists>q'. queue_view basic_ops th (fold (perform basic_ops) calls c) = Some q' \<and> queue_ok q' \<and>
    (\<forall>e' \<in> set (tq_pending q'). entry_id e' = x \<longrightarrow> qt_control e' = Cancel)"
proof -
  have "qt_control e' = Cancel" if "e' \<in> set (tq_pending q)" "entry_id e' = x" for e'
  proof -
    have "e' = e" using that assms(2-4)
      by (auto simp: queue_ok_def queue_ids_def distinct_map dest: inj_onD)
    then show ?thesis using assms(5) by simp
  qed
  then have start: "queue_ok q \<and> cancelled_in x q" using assms(2) by (simp add: cancelled_in_def)
  have "\<exists>q'. queue_view basic_ops th (fold (perform basic_ops) calls c) = Some q' \<and> (queue_ok q' \<and> cancelled_in x q')"
  proof (rule basic.perform_steps [OF assms(1), where P = "\<lambda>q. queue_ok q \<and> cancelled_in x q", OF start])
    fix call q q'
    assume "call \<in> set calls" "queue_ok q \<and> cancelled_in x q" "queue_step th call q q'"
    then show "queue_ok q' \<and> cancelled_in x q'"
      using queue_step_ok queue_step_cancelled assms(6) by metis
  qed
  then show ?thesis by (auto simp: cancelled_in_def)
qed

theorem cancelled_turn_stays_cancelled_witness:
  "\<exists>q'. queue_view basic_ops sample_thread
      (fold (perform basic_ops) [Control sample_thread 5 ThreadOwner Run, Start sample_lease 5]
         (perform basic_ops (Control sample_thread 5 ThreadOwner Cancel) sample_running)) = Some q' \<and>
    (\<forall>e' \<in> set (tq_pending q'). entry_id e' = 5 \<longrightarrow> qt_control e' = Cancel)"
proof -
  let ?c = "perform basic_ops (Control sample_thread 5 ThreadOwner Cancel) sample_running"
  have view: "queue_view basic_ops sample_thread ?c = Some (sample_queue Cancel)"
    by (simp add: sample_running_eq sample_eval sample_queue_def sample_entry_def queue_view_def)
  have ok: "queue_ok (sample_queue Cancel)" by (simp add: queue_ok_def queue_ids_def sample_queue_def)
  have e: "sample_entry 5 True Cancel \<in> set (tq_pending (sample_queue Cancel))" "entry_id (sample_entry 5 True Cancel) = 5"
      "qt_control (sample_entry 5 True Cancel) = Cancel"
    by (simp_all add: sample_queue_def sample_entry_def entry_id_def)
  have calls: "\<forall>now sub. Enqueue now sample_thread sub \<in> set [Control sample_thread 5 ThreadOwner Run, Start sample_lease 5]
      \<longrightarrow> tn_id (sb_turn sub) \<noteq> 5" by simp
  from cancelled_turn_stays_cancelled [OF view ok e calls] show ?thesis by blast
qed

text \<open>a thread has one owner. A granted claim owns the thread, and until that lease is dropped or
  releases the thread, every further claim is refused, whatever else happens.\<close>

theorem claim_excludes_other_owners:
  assumes "claim th c = (Inr (Some l), c1)" and "Drop l \<notin> set calls" and "Release l \<notin> set calls"
  shows "ls_thread l = th \<and> owns l (fold (perform ops) calls c1) \<and>
    claim th (fold (perform ops) calls c1) = (Inr None, fold (perform ops) calls c1)"
proof -
  have l: "ls_thread l = th" "holds l c1"
    using assms(1) by (auto simp: claim_def holds_def set_thread_def Let_def split: if_splits)
  have "holds l (fold (perform ops) calls c1)" by (rule fold_holds [OF l(2) assms(2,3)])
  with l(1) show ?thesis using holds_live holds_owns by (force simp: claim_def)
qed

theorem claim_excludes_other_owners_witness:
  "\<exists>c1. claim sample_thread sample_coordinator = (Inr (Some sample_lease), c1) \<and>
     fst (claim sample_thread (fold (perform basic_ops)
       [Enqueue 0 sample_thread (sample_submission 5 None Interrupt), Start sample_lease 5] c1)) = Inr None"
proof -
  obtain c1 where c1: "claim sample_thread sample_coordinator = (Inr (Some sample_lease), c1)"
    by (simp add: sample_eval sample_lease_def)
  from claim_excludes_other_owners [OF c1, of "[Enqueue 0 sample_thread (sample_submission 5 None Interrupt), Start sample_lease 5]" basic_ops]
  have "fst (claim sample_thread (fold (perform basic_ops)
       [Enqueue 0 sample_thread (sample_submission 5 None Interrupt), Start sample_lease 5] c1)) = Inr None" by simp
  with c1 show ?thesis by blast
qed

lemma acknowledge_Inr:
  assumes "acknowledge ops l x c = (Inr nxt, c1)"
  shows "owns l c \<and> (\<exists>q. so_load ops (ls_thread l) (tc_store c) = Inr q \<and>
    (tq_acknowledged q = Some x \<and> nxt = front (tq_pending q) \<and> c1 = c \<or>
     (\<exists>h r s. tq_acknowledged q \<noteq> Some x \<and> tq_pending q = h # r \<and> entry_id h = x \<and> nxt = front r \<and>
        so_save ops (ls_thread l) (q\<lparr>tq_pending := r, tq_acknowledged := Some x\<rparr>) (tc_store c) = Inr s \<and>
        c1 = drop_control (ls_thread l) (c\<lparr>tc_store := s\<rparr>))))"
proof -
  have own: "owns l c" using assms by (auto simp: acknowledge_def bind_check split: if_splits)
  then obtain q where q: "so_load ops (ls_thread l) (tc_store c) = Inr q"
    using assms by (auto simp: acknowledge_def bind_check bind_load split: sum.splits)
  let ?q' = "q\<lparr>tq_pending := tl (tq_pending q), tq_acknowledged := Some x\<rparr>"
  have "acknowledge ops l x c =
      (if tq_acknowledged q = Some x then (Inr (front (tq_pending q)), c)
       else if (case front (tq_pending q) of None \<Rightarrow> False | Some h \<Rightarrow> entry_id h = x) then
         (case so_save ops (ls_thread l) ?q' (tc_store c) of
            Inl e \<Rightarrow> (Inl e, c)
          | Inr s \<Rightarrow> (Inr (front (tl (tq_pending q))), drop_control (ls_thread l) (c\<lparr>tc_store := s\<rparr>)))
       else (Inl (Error ''turn is not the queue head''), c))"
    using own q by (simp add: acknowledge_def bind_check bind_load coord_io Let_def split: sum.splits option.splits)
  then show ?thesis
    using assms own q by (cases "tq_pending q") (auto simp: front_def split: if_splits sum.splits)
qed

lemma drop_control_owns [simp]: "owns l (drop_control th c) = owns l c" "owns l (c\<lparr>tc_store := s\<rparr>) = owns l c"
  by (auto simp: owns_def owner_live_def drop_control_def set_thread_def split: option.splits)

text \<open>acknowledging is idempotent. A successful acknowledgement either removed the head, which was
  the named turn, or repeats the last one and changes nothing; in both cases it returns the new head, and
  doing it again returns the same and changes nothing.\<close>

theorem acknowledge_is_idempotent:
  assumes "acknowledge basic_ops l x c = (Inr nxt, c1)"
  shows "\<exists>q q1. queue_view basic_ops (ls_thread l) c = Some q \<and> queue_view basic_ops (ls_thread l) c1 = Some q1 \<and>
    nxt = front (tq_pending q1) \<and> tq_acknowledged q1 = Some x \<and>
    (q1 = q \<or> (\<exists>h. tq_pending q = h # tq_pending q1 \<and> entry_id h = x)) \<and>
    acknowledge basic_ops l x c1 = (Inr nxt, c1)"
proof -
  have again: "acknowledge basic_ops l x c1 = (Inr (front (tq_pending q1)), c1)"
    if "owns l c1" "so_load basic_ops (ls_thread l) (tc_store c1) = Inr q1" "tq_acknowledged q1 = Some x" for q1
    using that by (simp add: acknowledge_def bind_check bind_load io_return_def)
  from acknowledge_Inr [OF assms] obtain q where own: "owns l c"
    and q: "so_load basic_ops (ls_thread l) (tc_store c) = Inr q"
    and effect: "tq_acknowledged q = Some x \<and> nxt = front (tq_pending q) \<and> c1 = c \<or>
     (\<exists>h r s. tq_acknowledged q \<noteq> Some x \<and> tq_pending q = h # r \<and> entry_id h = x \<and> nxt = front r \<and>
        so_save basic_ops (ls_thread l) (q\<lparr>tq_pending := r, tq_acknowledged := Some x\<rparr>) (tc_store c) = Inr s \<and>
        c1 = drop_control (ls_thread l) (c\<lparr>tc_store := s\<rparr>))"
    by blast
  from effect show ?thesis
  proof (elim disjE exE conjE)
    assume "tq_acknowledged q = Some x" "nxt = front (tq_pending q)" "c1 = c"
    then show ?thesis using q again own by (auto simp: queue_view_Some)
  next
    fix h r s
    let ?q1 = "q\<lparr>tq_pending := r, tq_acknowledged := Some x\<rparr>"
    assume u: "tq_pending q = h # r" "entry_id h = x" "nxt = front r"
      "so_save basic_ops (ls_thread l) ?q1 (tc_store c) = Inr s"
      "c1 = drop_control (ls_thread l) (c\<lparr>tc_store := s\<rparr>)"
    have view: "queue_view basic_ops (ls_thread l) c1 = Some ?q1"
      using basic.saved_view [OF q u(4), of c1 "ls_thread l"] u(5) by simp
    have "acknowledge basic_ops l x c1 = (Inr (front (tq_pending ?q1)), c1)"
      by (rule again) (use own u(5) view in \<open>simp_all add: queue_view_Some\<close>)
    then show ?thesis using q view u by (auto simp: queue_view_Some)
  qed
qed

theorem acknowledge_is_idempotent_witness:
  "\<exists>c1. acknowledge basic_ops sample_lease 5 sample_running = (Inr None, c1) \<and>
     acknowledge basic_ops sample_lease 5 c1 = (Inr None, c1)"
proof -
  obtain c1 where c1: "acknowledge basic_ops sample_lease 5 sample_running = (Inr None, c1)"
    by (simp add: sample_running_eq sample_eval sample_queue_def sample_entry_def sample_lease_def)
  from acknowledge_is_idempotent [OF c1] c1 show ?thesis by blast
qed

text \<open>releasing loses no wakeup. A release that succeeds leaves a thread that startup discovery does
  not list (its queue is empty or its head suspended) and that the next claim gets; a release that is
  refused leaves the thread owned, unchanged and listed as having work.\<close>

theorem release_loses_no_wakeup:
  assumes "basic_store_ok (tc_store c)" and "release_if_idle basic_ops l c = (Inr released, c1)"
  shows "\<exists>ths. pending_threads basic_ops c1 = (Inr ths, c1) \<and> (ls_thread l \<in> set ths \<longleftrightarrow> \<not> released) \<and>
    tc_store c1 = tc_store c \<and>
    (if released then \<not> owns l c1 \<and> (\<exists>l' c2. claim (ls_thread l) c1 = (Inr (Some l'), c2)) else owns l c1 \<and> c1 = c)"
proof -
  have own: "owns l c" using assms(2) by (auto simp: release_if_idle_def bind_check split: if_splits)
  then obtain q where q: "so_load basic_ops (ls_thread l) (tc_store c) = Inr q"
    using assms(2) by (auto simp: release_if_idle_def bind_check bind_load split: sum.splits)
  have run: "(Inr released, c1) = (if runnable q then (Inr False, c)
      else (Inr True, set_thread (ls_thread l) thread_mutation_default c))"
    using assms(2) own q by (simp add: release_if_idle_def bind_check bind_load bind_modify io_return_def split: if_splits)
  have store: "tc_store c1 = tc_store c" using run by (auto split: if_splits)
  obtain ths where ths: "so_pending_threads basic_ops (tc_store c) = Inr ths"
    by (simp add: basic_ops_def basic_pending_threads_def)
  have "ls_thread l \<in> set ths \<longleftrightarrow> runnable q" using basic.pending_runnable [OF assms(1) ths q] .
  moreover have "pending_threads basic_ops c1 = (Inr ths, c1)" using ths store by (simp add: pending_threads_def)
  moreover have "if released then \<not> owns l c1 \<and> (\<exists>l' c2. claim (ls_thread l) c1 = (Inr (Some l'), c2)) else owns l c1 \<and> c1 = c"
    using run own by (auto simp: claim_def owner_live_def owns_def set_thread_def thread_mutation_default_def Let_def split: if_splits)
  ultimately show ?thesis using store run by (auto split: if_splits)
qed

theorem release_loses_no_wakeup_witness:
  "\<exists>c1 l' c2. release_if_idle basic_ops sample_lease (perform basic_ops (Acknowledge sample_lease 5) sample_running) = (Inr True, c1) \<and>
     claim sample_thread c1 = (Inr (Some l'), c2)"
proof -
  let ?c = "perform basic_ops (Acknowledge sample_lease 5) sample_running"
  have ok: "basic_store_ok (tc_store ?c)"
    by (simp add: sample_running_eq sample_eval sample_queue_def sample_entry_def sample_lease_def basic_store_ok_def)
  obtain c1 where c1: "release_if_idle basic_ops sample_lease ?c = (Inr True, c1)"
    by (simp add: sample_running_eq sample_eval sample_queue_def sample_entry_def sample_lease_def release_if_idle_def runnable_def)
  from release_loses_no_wakeup [OF ok c1] c1 show ?thesis by (auto simp: sample_lease_def)
qed

text \<open>an accepted interrupting submission cancels exactly the head of its own principal that is
  started or whose thread is owned, leaves every other entry alone and is appended, not started, in state
  run.\<close>

theorem interrupt_cancels_own_active_head:
  assumes "queue_view basic_ops th c = Some q" and "op_attention (sb_options sub) = Interrupt"
    and "enqueue basic_ops now th sub c = (Inr a, c1)" and "\<not> ac_duplicate a"
  shows "ac_turn a = sb_turn sub \<and>
    (\<exists>q1. queue_view basic_ops th c1 = Some q1 \<and>
      tq_pending q1 =
        (case tq_pending q of
           [] \<Rightarrow> []
         | h # r \<Rightarrow> (if (qt_started h \<or> owner_live th c) \<and> qt_principal h = sb_principal sub
                     then h\<lparr>qt_control := Cancel\<rparr> else h) # r)
        @ [\<lparr> qt_turn = sb_turn sub, qt_work = sb_work sub, qt_principal = sb_principal sub,
             qt_started = False, qt_control = Run \<rparr>])"
proof -
  obtain q0 s where e: "so_load basic_ops th (tc_store c) = Inr q0" "ac_turn a = sb_turn sub"
    "so_save basic_ops th (enqueue_state now (interrupted_head (owner_live th c) sub (live_receipts now q0)) sub
       (live_receipts now q0)) (tc_store c) = Inr s"
    "c1 = (case interrupted_head (owner_live th c) sub (live_receipts now q0) of
       None \<Rightarrow> id | Some t \<Rightarrow> notify th t Cancel) (c\<lparr>tc_store := s\<rparr>)"
    using enqueue_accepted [OF assms(3,4)] by blast
  have q0: "q0 = q" using e(1) assms(1) by (simp add: queue_view_Some)
  have "tc_store c1 = s" using e(4) by (simp split: option.splits)
  from basic.saved_view [OF e(1,3) this, of th] e(2) assms(2) show ?thesis
    unfolding q0 by (auto simp: enqueue_state_def interrupted_head_def split: list.splits)
qed

theorem interrupt_cancels_own_active_head_witness:
  "\<exists>c1 q1. enqueue basic_ops 9 sample_thread (sample_submission 6 None Interrupt) sample_running =
       (Inr \<lparr> ac_turn = \<lparr> tn_id = 6, tn_session_id = 7 \<rparr>, ac_duplicate = False \<rparr>, c1) \<and>
     queue_view basic_ops sample_thread c1 = Some q1 \<and>
     tq_pending q1 = [sample_entry 5 True Cancel, sample_entry 6 False Run]"
proof -
  let ?sub = "sample_submission 6 None Interrupt"
  obtain c1 where c1: "enqueue basic_ops 9 sample_thread ?sub sample_running =
      (Inr \<lparr> ac_turn = \<lparr> tn_id = 6, tn_session_id = 7 \<rparr>, ac_duplicate = False \<rparr>, c1)"
    by (simp add: sample_running_eq sample_eval sample_queue_def sample_entry_def sample_lease_def)
  have "op_attention (sb_options ?sub) = Interrupt" by (simp add: sample_submission_def)
  from interrupt_cancels_own_active_head [OF sample_running_view this c1] c1 show ?thesis
    by (auto simp: sample_queue_def sample_entry_def sample_submission_def)
qed

text \<open>C20: resubmitting the identity that was acknowledged last blocks the thread for good. Once its
  queue is empty and that turn is accepted again (which needs no live receipt for it), the turn stays at the
  head whatever is called: acknowledging it is taken for a repetition.\<close>

theorem resubmitted_turn_blocks_queue:
  assumes "queue_view basic_ops th c = Some q" and "tq_pending q = []"
    and "tq_acknowledged q = Some (tn_id (sb_turn sub))"
    and "enqueue basic_ops now th sub c = (Inr a, c1)" and "\<not> ac_duplicate a"
  shows "\<exists>q' h r. queue_view basic_ops th (fold (perform basic_ops) calls c1) = Some q' \<and>
    tq_pending q' = h # r \<and> entry_id h = tn_id (sb_turn sub)"
proof -
  let ?x = "tn_id (sb_turn sub)"
  let ?P = "\<lambda>q. tq_acknowledged q = Some ?x \<and> (\<exists>h r. tq_pending q = h # r \<and> entry_id h = ?x)"
  obtain q0 s where e: "so_load basic_ops th (tc_store c) = Inr q0"
    "so_save basic_ops th (enqueue_state now (interrupted_head (owner_live th c) sub (live_receipts now q0)) sub
       (live_receipts now q0)) (tc_store c) = Inr s"
    "c1 = (case interrupted_head (owner_live th c) sub (live_receipts now q0) of
       None \<Rightarrow> id | Some t \<Rightarrow> notify th t Cancel) (c\<lparr>tc_store := s\<rparr>)"
    using enqueue_accepted [OF assms(4,5)] by blast
  have q0: "q0 = q" using e(1) assms(1) by (simp add: queue_view_Some)
  have "tc_store c1 = s" using e(3) by (simp split: option.splits)
  from basic.saved_view [OF e(1,2) this, of th] obtain q1 where
    q1: "queue_view basic_ops th c1 = Some q1" "?P q1"
    using assms(2,3) unfolding q0
    by (auto simp: enqueue_state_def interrupted_head_def live_receipts_def entry_id_def)
  have "\<exists>q'. queue_view basic_ops th (fold (perform basic_ops) calls c1) = Some q' \<and> ?P q'"
  proof (rule basic.perform_steps [OF q1(1), where P = ?P, OF q1(2)])
    fix call q q'
    assume P: "?P q" and "queue_step th call q q'"
    from this(2) show "?P q'"
    proof cases
      case (append now sub i owned)
      then show ?thesis using P by (auto simp: enqueue_state_def live_receipts_def split: option.splits)
    qed (use P in auto)
  qed
  then show ?thesis by blast
qed

theorem resubmitted_turn_blocks_queue_witness:
  "\<exists>c1 q' h r. enqueue basic_ops 86400 sample_thread (sample_submission 5 None Wake)
       (perform basic_ops (Acknowledge sample_lease 5) sample_running) =
       (Inr \<lparr> ac_turn = \<lparr> tn_id = 5, tn_session_id = 7 \<rparr>, ac_duplicate = False \<rparr>, c1) \<and>
     queue_view basic_ops sample_thread (fold (perform basic_ops) [Start sample_lease 5, Acknowledge sample_lease 5] c1) = Some q' \<and>
     tq_pending q' = h # r"
proof -
  let ?c = "perform basic_ops (Acknowledge sample_lease 5) sample_running"
  let ?q = "(sample_queue Run)\<lparr>tq_pending := [], tq_acknowledged := Some 5\<rparr>"
  let ?sub = "sample_submission 5 None Wake"
  have view: "queue_view basic_ops sample_thread ?c = Some ?q"
    by (simp add: sample_running_eq sample_eval sample_queue_def sample_entry_def sample_lease_def queue_view_def)
  obtain c1 where c1: "enqueue basic_ops 86400 sample_thread ?sub ?c =
      (Inr \<lparr> ac_turn = \<lparr> tn_id = 5, tn_session_id = 7 \<rparr>, ac_duplicate = False \<rparr>, c1)"
    by (simp add: sample_running_eq sample_eval sample_queue_def sample_entry_def sample_lease_def)
  have "tq_pending ?q = []" "tq_acknowledged ?q = Some (tn_id (sb_turn ?sub))" by (simp_all add: sample_submission_def)
  from resubmitted_turn_blocks_queue [OF view this c1, of "[Start sample_lease 5, Acknowledge sample_lease 5]"] c1
  show ?thesis by auto
qed

end
