(* ===== verification/Rust_Text.thy ===== *)
theory Rust_Text
  imports Rust_Str
begin

text \<open>
  Further standard-library text operations: ASCII case, \<open>split\<close>, \<open>split_once\<close>, \<open>contains\<close> and
  \<open>replace\<close> on UTF-8 byte lists, the UTF-8 test behind \<open>String::from_utf8\<close>, and the address parser
  behind \<open>parse::<IpAddr>\<close>. No definition here models code of the repository.
\<close>

section \<open>ASCII case and classes\<close>

definition to_ascii_lower :: "char \<Rightarrow> char" where
  "to_ascii_lower c = (let n = of_char c :: nat in if 65 \<le> n \<and> n \<le> 90 then char_of (n + 32) else c)"

definition to_ascii_lowercase :: "string \<Rightarrow> string" where
  "to_ascii_lowercase = map to_ascii_lower"

definition eq_ignore_ascii_case :: "string \<Rightarrow> string \<Rightarrow> bool" where
  "eq_ignore_ascii_case s t \<longleftrightarrow> to_ascii_lowercase s = to_ascii_lowercase t"

definition is_ascii_alphabetic :: "char \<Rightarrow> bool" where
  "is_ascii_alphabetic c \<longleftrightarrow> (let n = of_char c :: nat in 65 \<le> n \<and> n \<le> 90 \<or> 97 \<le> n \<and> n \<le> 122)"

definition is_ascii_hexdigit :: "char \<Rightarrow> bool" where
  "is_ascii_hexdigit c \<longleftrightarrow>
     (let n = of_char c :: nat in 48 \<le> n \<and> n \<le> 57 \<or> 65 \<le> n \<and> n \<le> 70 \<or> 97 \<le> n \<and> n \<le> 102)"

lemma of_char_lower:
  "(of_char (to_ascii_lower c) :: nat) =
     (let n = of_char c :: nat in if 65 \<le> n \<and> n \<le> 90 then n + 32 else n)"
  by (simp add: to_ascii_lower_def Let_def)

lemma to_ascii_lower_idem [simp]: "to_ascii_lower (to_ascii_lower c) = to_ascii_lower c"
  by (auto simp: to_ascii_lower_def [of "to_ascii_lower c"] of_char_lower Let_def)

lemma to_ascii_lowercase_idem [simp]: "to_ascii_lowercase (to_ascii_lowercase s) = to_ascii_lowercase s"
  by (simp add: to_ascii_lowercase_def)

lemma length_to_ascii_lowercase [simp]: "length (to_ascii_lowercase s) = length s"
  by (simp add: to_ascii_lowercase_def)

lemma to_ascii_lowercase_Nil_iff [simp]: "to_ascii_lowercase s = [] \<longleftrightarrow> s = []"
  by (simp add: to_ascii_lowercase_def)

lemma eq_ignore_ascii_case_refl [simp]: "eq_ignore_ascii_case s s"
  by (simp add: eq_ignore_ascii_case_def)

section \<open>Splitting and searching\<close>

text \<open>\<open>split(c)\<close> keeps empty pieces; \<open>split_once(c)\<close> cuts at the first occurrence.\<close>

fun split_char :: "char \<Rightarrow> string \<Rightarrow> string list" where
  "split_char c [] = [[]]"
| "split_char c (b # bs) =
     (if b = c then [] # split_char c bs
      else case split_char c bs of [] \<Rightarrow> [[b]] | p # ps \<Rightarrow> (b # p) # ps)"

fun split_once :: "char \<Rightarrow> string \<Rightarrow> (string \<times> string) option" where
  "split_once c [] = None"
| "split_once c (b # bs) =
     (if b = c then Some ([], bs) else map_option (\<lambda>(l, r). (b # l, r)) (split_once c bs))"

fun contains_str :: "string \<Rightarrow> string \<Rightarrow> bool" where
  "contains_str p [] \<longleftrightarrow> p = []"
| "contains_str p (b # bs) \<longleftrightarrow> starts_with p (b # bs) \<or> contains_str p bs"

text \<open>\<open>replace\<close> rewrites the non-overlapping occurrences from the left; an empty pattern matches at
  every character boundary.\<close>

function replace_nonempty :: "char \<Rightarrow> string \<Rightarrow> string \<Rightarrow> string \<Rightarrow> string" where
  "replace_nonempty p ps v s =
     (case s of
        [] \<Rightarrow> []
      | b # bs \<Rightarrow>
          (case strip_prefix (p # ps) s of
             Some rest \<Rightarrow> v @ replace_nonempty p ps v rest
           | None \<Rightarrow> b # replace_nonempty p ps v bs))"
  by pat_completeness auto
termination
  by (relation "measure (\<lambda>(p, ps, v, s). length s)") (auto simp: strip_prefix_Some_iff split: if_splits)

declare replace_nonempty.simps [simp del]

definition str_replace :: "string \<Rightarrow> string \<Rightarrow> string \<Rightarrow> string" where
  "str_replace pat v s =
     (case pat of
        [] \<Rightarrow> concat (map (\<lambda>b. if continuation_byte b then [b] else v @ [b]) s) @ v
      | p # ps \<Rightarrow> replace_nonempty p ps v s)"

lemma contains_str_iff: "contains_str p s \<longleftrightarrow> (\<exists>l r. s = l @ p @ r)"
proof (induction s)
  case (Cons b bs)
  have "(\<exists>l r. b # bs = l @ p @ r) \<longleftrightarrow> starts_with p (b # bs) \<or> (\<exists>l r. bs = l @ p @ r)"
    by (auto simp: starts_with_iff Cons_eq_append_conv)
  with Cons show ?case
    by simp
qed auto

lemma replace_nonempty_absent:
  "\<not> contains_str (p # ps) s \<Longrightarrow> replace_nonempty p ps v s = s"
proof (induction s)
  case (Cons b bs)
  have "strip_prefix (p # ps) (b # bs) = None"
    using Cons.prems by (simp add: starts_with_def)
  then show ?case
    using Cons by (simp add: replace_nonempty.simps [of p ps v "b # bs"] del: strip_prefix.simps)
qed (simp add: replace_nonempty.simps)

lemma str_replace_absent: "pat \<noteq> [] \<Longrightarrow> \<not> contains_str pat s \<Longrightarrow> str_replace pat v s = s"
  by (cases pat) (simp_all add: str_replace_def replace_nonempty_absent)

lemma str_replace_whole: "pat \<noteq> [] \<Longrightarrow> str_replace pat v pat = v"
  by (cases pat) (simp_all add: str_replace_def replace_nonempty.simps [of _ _ _ "_ # _"]
      replace_nonempty.simps [of _ _ _ "[]"] strip_prefix_append [of "_ # _" "[]", simplified] del: strip_prefix.simps)

lemma contains_str_prefix: "contains_str p (p @ r)"
  unfolding contains_str_iff by (metis append_Nil)

lemma contains_str_trans: "contains_str p q \<Longrightarrow> contains_str q s \<Longrightarrow> contains_str p s"
proof -
  assume "contains_str p q" and "contains_str q s"
  then obtain l r l' r' where "q = l @ p @ r" and "s = l' @ q @ r'"
    by (auto simp: contains_str_iff)
  then have "s = (l' @ l) @ p @ (r @ r')"
    by simp
  then show ?thesis
    unfolding contains_str_iff by blast
qed

lemma split_char_nonempty [simp]: "split_char c s \<noteq> []"
  by (cases s) (auto split: list.split)

lemma split_once_first: "split_once c s = Some (l, r) \<Longrightarrow> s = l @ c # r \<and> c \<notin> set l"
  by (induction s arbitrary: l) (auto split: if_splits)

section \<open>UTF-8\<close>

text \<open>The well-formed sequences of \<open>core::str::from_utf8\<close>.\<close>

definition byte_in :: "nat \<Rightarrow> nat \<Rightarrow> char \<Rightarrow> bool" where
  "byte_in lo hi c \<longleftrightarrow> (let n = of_char c :: nat in lo \<le> n \<and> n \<le> hi)"

definition utf8_tail_ok :: "char \<Rightarrow> string \<Rightarrow> nat option" where
  "utf8_tail_ok b bs =
     (let second = (\<lambda>lo hi. bs \<noteq> [] \<and> byte_in lo hi (hd bs));
          conts = (\<lambda>n. n \<le> length bs \<and> list_all continuation_byte (take n bs)) in
      if byte_in 0 0x7F b then Some 0
      else if byte_in 0xC2 0xDF b \<and> conts 1 then Some 1
      else if byte_in 0xE0 0xE0 b \<and> second 0xA0 0xBF \<and> conts 2 then Some 2
      else if (byte_in 0xE1 0xEC b \<or> byte_in 0xEE 0xEF b) \<and> conts 2 then Some 2
      else if byte_in 0xED 0xED b \<and> second 0x80 0x9F \<and> conts 2 then Some 2
      else if byte_in 0xF0 0xF0 b \<and> second 0x90 0xBF \<and> conts 3 then Some 3
      else if byte_in 0xF1 0xF3 b \<and> conts 3 then Some 3
      else if byte_in 0xF4 0xF4 b \<and> second 0x80 0x8F \<and> conts 3 then Some 3
      else None)"

function valid_utf8 :: "string \<Rightarrow> bool" where
  "valid_utf8 [] \<longleftrightarrow> True"
| "valid_utf8 (b # bs) \<longleftrightarrow> (case utf8_tail_ok b bs of None \<Rightarrow> False | Some n \<Rightarrow> valid_utf8 (drop n bs))"
  by pat_completeness auto
termination
  by (relation "measure length") auto

definition from_utf8 :: "string \<Rightarrow> string option" where
  "from_utf8 bytes = (if valid_utf8 bytes then Some bytes else None)"

section \<open>Address literals\<close>

text \<open>
  \<open>core::net::parser\<close>: each reader returns the unread rest. An octet has one to three decimal digits,
  no leading zero and a value below 256; a group has one to four hexadecimal digits; \<open>::\<close> stands for
  at least one group and the last two groups may be written as an IPv4 address.
\<close>

fun take_digits :: "(char \<Rightarrow> nat option) \<Rightarrow> string \<Rightarrow> nat list \<times> string" where
  "take_digits dig [] = ([], [])"
| "take_digits dig (c # cs) =
     (case dig c of
        None \<Rightarrow> ([], c # cs)
      | Some d \<Rightarrow> (let (ds, rest) = take_digits dig cs in (d # ds, rest)))"

definition hex_val :: "char \<Rightarrow> nat option" where
  "hex_val c =
     (let n = of_char c :: nat in
      if 48 \<le> n \<and> n \<le> 57 then Some (n - 48)
      else if 65 \<le> n \<and> n \<le> 70 then Some (n - 55)
      else if 97 \<le> n \<and> n \<le> 102 then Some (n - 87) else None)"

definition read_octet :: "string \<Rightarrow> string option" where
  "read_octet s =
     (let (ds, rest) = take_digits digit_val s in
      if ds = [] \<or> length ds > 3 \<or> (hd ds = 0 \<and> length ds > 1)
         \<or> foldl (\<lambda>n d. n * 10 + d) 0 ds > 255 then None
      else Some rest)"

definition read_group :: "string \<Rightarrow> string option" where
  "read_group s =
     (let (ds, rest) = take_digits hex_val s in
      if ds = [] \<or> length ds > 4 then None else Some rest)"

definition read_sep :: "char \<Rightarrow> nat \<Rightarrow> (string \<Rightarrow> string option) \<Rightarrow> string \<Rightarrow> string option" where
  "read_sep c i reader s = (if i = 0 then reader s else Option.bind (strip_prefix [c] s) reader)"

definition read_ipv4 :: "string \<Rightarrow> string option" where
  "read_ipv4 s =
     Option.bind (read_octet s) (\<lambda>s1.
     Option.bind (read_sep (CHR ''.'') 1 read_octet s1) (\<lambda>s2.
     Option.bind (read_sep (CHR ''.'') 2 read_octet s2) (\<lambda>s3.
     read_sep (CHR ''.'') 3 read_octet s3)))"

fun read_groups :: "nat \<Rightarrow> nat \<Rightarrow> string \<Rightarrow> nat \<times> bool \<times> string" where
  "read_groups i 0 s = (i, False, s)"
| "read_groups i (Suc left) s =
     (case (if left > 0 then read_sep (CHR '':'') i read_ipv4 s else None) of
        Some rest \<Rightarrow> (i + 2, True, rest)
      | None \<Rightarrow>
          (case read_sep (CHR '':'') i read_group s of
             Some rest \<Rightarrow> read_groups (Suc i) left rest
           | None \<Rightarrow> (i, False, s)))"

definition read_ipv6 :: "string \<Rightarrow> string option" where
  "read_ipv6 s =
     (let (head_size, head_ipv4, rest) = read_groups 0 8 s in
      if head_size = 8 then Some rest
      else if head_ipv4 then None
      else map_option (\<lambda>tail. snd (snd (read_groups 0 (8 - (head_size + 1)) tail)))
             (strip_prefix ''::'' rest))"

definition is_ip_literal :: "string \<Rightarrow> bool" where
  "is_ip_literal s \<longleftrightarrow>
     (case read_ipv4 s of Some rest \<Rightarrow> rest = [] | None \<Rightarrow> read_ipv6 s = Some [])"

end
