(* ===== verification/Event_Index.thy ===== *)
theory Event_Index
  imports Rust_Text Exo_Types "HOL-Library.Char_ord" "HOL-Library.List_Lexorder"
begin

text \<open>
  The index over event batches of a conversation, from \<^verbatim>\<open>crates/exoharness/src/basic.rs\<close>
  (\<open>EventBatchIndex\<close> and the object-key helpers). A key is the full path of a stored object; event
  identifiers are version 7 UUIDs, ordered as 128-bit numbers. Printing, parsing, time stamps and the
  generator of UUIDs belong to the \<open>uuid\<close> crate and are the fields of a record; what the code relies on
  is the predicate \<open>uuid_text_ok\<close>.
\<close>

section \<open>Identifiers as text\<close>

record uuid_text =
  ut_show :: "uuid \<Rightarrow> string"
  ut_parse :: "string \<Rightarrow> uuid option"

text \<open>The hyphenated form parses back and uses only digits, letters and hyphens.\<close>

definition id_char :: "char \<Rightarrow> bool" where
  "id_char c \<longleftrightarrow> c \<noteq> CHR ''/'' \<and> c \<noteq> CHR ''_'' \<and> c \<noteq> CHR ''.''"

definition uuid_text_ok :: "uuid_text \<Rightarrow> bool" where
  "uuid_text_ok ut \<longleftrightarrow> (\<forall>u. ut_parse ut (ut_show ut u) = Some u \<and> (\<forall>c \<in> set (ut_show ut u). id_char c)) \<and>
     (\<forall>s u. ut_parse ut s = Some u \<longrightarrow> (\<forall>c \<in> set s. id_char c))"

lemma split_at_first: "a @ c # b = a' @ c # b' \<Longrightarrow> c \<notin> set a \<Longrightarrow> c \<notin> set a' \<Longrightarrow> a = a' \<and> b = b'"
  by (induction a arbitrary: a') (case_tac a'; auto)+

lemma uuid_text_inj: "uuid_text_ok ut \<Longrightarrow> ut_show ut a = ut_show ut b \<Longrightarrow> a = b"
  by (metis option.inject uuid_text_ok_def)

lemma uuid_text_no_slash: "uuid_text_ok ut \<Longrightarrow> CHR ''/'' \<notin> set (ut_show ut a)"
  by (auto simp: uuid_text_ok_def id_char_def)

text \<open>Decimal digits are one such form.\<close>

definition decimal_text :: uuid_text where
  "decimal_text = \<lparr> ut_show = (\<lambda>u. show_nat (unat u)),
     ut_parse = (\<lambda>s. case parse_nat s of None \<Rightarrow> None | Some n \<Rightarrow> if n < 2 ^ 128 then Some (of_nat n) else None) \<rparr>"

lemma parse_digits_bytes: "parse_digits acc s = Some n \<Longrightarrow> c \<in> set s \<Longrightarrow> digit_byte c"
  by (induction s arbitrary: acc) (auto simp: digit_val_def digit_byte_def Let_def split: if_splits)

lemma digit_byte_id_char: "digit_byte c \<Longrightarrow> id_char c"
  by (auto simp: digit_byte_def id_char_def)

lemma parse_nat_id_char:
  assumes "parse_nat s = Some n" and "c \<in> set s"
  shows "id_char c"
proof -
  have "c = CHR ''+'' \<or> digit_byte c"
  proof (cases s)
    case (Cons d ds)
    then consider "d = CHR ''+''" "parse_digits 0 ds = Some n" | "parse_digits 0 s = Some n"
      using assms(1) by (auto simp: parse_nat_def split: if_splits)
    then show ?thesis
    proof cases
      case 1
      then show ?thesis using parse_digits_bytes [OF 1(2)] assms(2) Cons by auto
    qed (use parse_digits_bytes [OF _ assms(2)] in blast)
  qed (use assms in simp)
  then show ?thesis using digit_byte_id_char by (auto simp: id_char_def)
qed

lemma decimal_text_ok: "uuid_text_ok decimal_text"
proof -
  have "unat u < 2 ^ 128" for u :: uuid using unsigned_less [of u] by simp
  then have "ut_parse decimal_text (ut_show decimal_text u) = Some u" for u
    by (simp add: decimal_text_def parse_nat_show)
  moreover have "id_char c" if "c \<in> set (ut_show decimal_text u)" for u c
    using that show_nat_digits digit_byte_id_char by (simp add: decimal_text_def)
  moreover have "id_char c" if "ut_parse decimal_text s = Some u" "c \<in> set s" for s u c
    using that parse_nat_id_char by (auto simp: decimal_text_def split: option.splits)
  ultimately show ?thesis by (simp add: uuid_text_ok_def)
qed

text \<open>\<open>rsplit('/').next()\<close>\<close>

definition last_segment :: "string \<Rightarrow> string" where
  "last_segment s = rev (takeWhile (\<lambda>c. c \<noteq> CHR ''/'') (rev s))"

definition event_batch_range_from_key :: "uuid_text \<Rightarrow> string \<Rightarrow> (uuid \<times> uuid) option" where
  "event_batch_range_from_key ut key =
     (case strip_suffix ''.batch.json'' (last_segment key) of
        None \<Rightarrow> None
      | Some ids \<Rightarrow>
          (case split_once (CHR ''_'') ids of
             None \<Rightarrow> None
           | Some (start_id, end_id) \<Rightarrow>
               (case ut_parse ut start_id of
                  None \<Rightarrow> None
                | Some f \<Rightarrow> map_option (Pair f) (ut_parse ut end_id))))"

definition event_id_from_key :: "uuid_text \<Rightarrow> string \<Rightarrow> uuid option" where
  "event_id_from_key ut key =
     (case event_batch_range_from_key ut key of
        Some (_, end_id) \<Rightarrow> Some end_id
      | None \<Rightarrow>
          (case strip_suffix ''.json'' (last_segment key) of
             None \<Rightarrow> None
           | Some stem \<Rightarrow> ut_parse ut stem))"

definition is_event_batch_key :: "string \<Rightarrow> bool" where
  "is_event_batch_key key \<longleftrightarrow> ends_with ''.batch.json'' key"

definition max_option :: "'a::linorder list \<Rightarrow> 'a option" where
  "max_option xs = (if xs = [] then None else Some (fold max (tl xs) (hd xs)))"

definition latest_event_id_from_keys :: "uuid_text \<Rightarrow> string list \<Rightarrow> uuid option" where
  "latest_event_id_from_keys ut keys = max_option (List.map_filter (event_id_from_key ut) keys)"

definition event_batch_path :: "uuid_text \<Rightarrow> string \<Rightarrow> uuid \<Rightarrow> uuid \<Rightarrow> string" where
  "event_batch_path ut conversation_dir start_id end_id =
     conversation_dir @ ''/events/'' @ ut_show ut start_id @ ''_'' @ ut_show ut end_id @ ''.batch.json''"

definition event_path :: "uuid_text \<Rightarrow> string \<Rightarrow> uuid \<Rightarrow> string" where
  "event_path ut conversation_dir eid = conversation_dir @ ''/events/'' @ ut_show ut eid @ ''.json''"

section \<open>Keys determine their identifiers\<close>

lemma last_segment_append: "CHR ''/'' \<notin> set name \<Longrightarrow> last_segment (dir @ ''/'' @ name) = name"
proof -
  assume name: "CHR ''/'' \<notin> set name"
  then have "takeWhile (\<lambda>c. c \<noteq> CHR ''/'') (rev name @ CHR ''/'' # rev dir) = rev name"
    by (subst takeWhile_append2) auto
  then show ?thesis by (simp add: last_segment_def)
qed

lemma uuid_text_parse: "uuid_text_ok ut \<Longrightarrow> ut_parse ut (ut_show ut u) = Some u"
  by (simp add: uuid_text_ok_def)

lemma uuid_text_chars:
  "uuid_text_ok ut \<Longrightarrow> CHR ''/'' \<notin> set (ut_show ut u) \<and> CHR ''_'' \<notin> set (ut_show ut u) \<and> CHR ''.'' \<notin> set (ut_show ut u)"
  by (auto simp: uuid_text_ok_def id_char_def)

lemma uuid_show_inj: "uuid_text_ok ut \<Longrightarrow> ut_show ut u = ut_show ut v \<Longrightarrow> u = v"
  using uuid_text_parse by (metis option.inject)

lemma split_once_append: "c \<notin> set xs \<Longrightarrow> split_once c (xs @ c # ys) = Some (xs, ys)"
  by (induction xs) auto

lemma event_path_segment:
  assumes "uuid_text_ok ut"
  shows "last_segment (event_path ut dir u) = ut_show ut u @ ''.json''"
  using last_segment_append [of "ut_show ut u @ ''.json''" "dir @ ''/events''"] uuid_text_chars [OF assms, of u]
  by (simp add: event_path_def)

lemma event_batch_path_segment:
  assumes "uuid_text_ok ut"
  shows "last_segment (event_batch_path ut dir u v) = ut_show ut u @ ''_'' @ ut_show ut v @ ''.batch.json''"
  using last_segment_append [of "ut_show ut u @ ''_'' @ ut_show ut v @ ''.batch.json''" "dir @ ''/events''"]
    uuid_text_chars [OF assms]
  by (simp add: event_batch_path_def)

lemma batch_range_of_path:
  assumes "uuid_text_ok ut"
  shows "event_batch_range_from_key ut (event_batch_path ut dir u v) = Some (u, v)"
proof -
  have "strip_suffix ''.batch.json'' (ut_show ut u @ ''_'' @ ut_show ut v @ ''.batch.json'') = Some (ut_show ut u @ ''_'' @ ut_show ut v)"
    by (simp add: strip_suffix_Some_iff)
  then show ?thesis
    using split_once_append [of "CHR ''_''" "ut_show ut u" "ut_show ut v"] uuid_text_chars [OF assms, of u]
    by (simp add: event_batch_range_from_key_def event_batch_path_segment [OF assms] uuid_text_parse [OF assms])
qed

lemma batch_range_of_event_path:
  assumes "uuid_text_ok ut"
  shows "event_batch_range_from_key ut (event_path ut dir u) = None"
proof -
  have "ut_show ut u @ ''.json'' \<noteq> r @ ''.batch.json''" for r
  proof
    assume "ut_show ut u @ ''.json'' = r @ ''.batch.json''"
    then have "(ut_show ut u) @ ''.json'' = (r @ ''.batch'') @ ''.json''" by simp
    then have "ut_show ut u = r @ ''.batch''" by (simp only: append_same_eq)
    then show False using uuid_text_chars [OF assms, of u] by auto
  qed
  then have no: "strip_suffix ''.batch.json'' (ut_show ut u @ ''.json'') \<noteq> Some r" for r
    unfolding strip_suffix_Some_iff .
  have "strip_suffix ''.batch.json'' (ut_show ut u @ ''.json'') = None"
    by (rule ccontr, unfold not_None_eq, erule exE) (erule notE [OF no])
  then show ?thesis by (simp add: event_batch_range_from_key_def event_path_segment [OF assms])
qed

lemma event_id_of_paths:
  assumes "uuid_text_ok ut"
  shows "event_id_from_key ut (event_path ut dir u) = Some u"
    and "event_id_from_key ut (event_batch_path ut dir u v) = Some v"
proof -
  have "strip_suffix ''.json'' (ut_show ut u @ ''.json'') = Some (ut_show ut u)"
    by (simp add: strip_suffix_Some_iff)
  then show "event_id_from_key ut (event_path ut dir u) = Some u"
    by (simp add: event_id_from_key_def batch_range_of_event_path [OF assms] event_path_segment [OF assms]
        uuid_text_parse [OF assms])
  show "event_id_from_key ut (event_batch_path ut dir u v) = Some v"
    by (simp add: event_id_from_key_def batch_range_of_path [OF assms])
qed

lemma batch_key_of_paths:
  assumes "uuid_text_ok ut"
  shows "\<not> is_event_batch_key (event_path ut dir u)" and "is_event_batch_key (event_batch_path ut dir u v)"
proof -
  show "\<not> is_event_batch_key (event_path ut dir u)"
  proof
    assume "is_event_batch_key (event_path ut dir u)"
    then obtain r where "(dir @ ''/events/'' @ ut_show ut u) @ ''.json'' = (r @ ''.batch'') @ ''.json''"
      by (auto simp: is_event_batch_key_def ends_with_iff event_path_def)
    then have eq: "dir @ ''/events/'' @ ut_show ut u = r @ ''.batch''" by (simp only: append_same_eq)
    have "last (dir @ ''/events/'' @ ut_show ut u) = last (r @ ''.batch'')" using eq by simp
    have "rev (ut_show ut u) @ rev (dir @ ''/events/'') = ''hctab.'' @ rev r"
      using arg_cong [OF eq, of rev] by simp
    then have "takeWhile (\<lambda>c. c \<noteq> CHR ''/'') (rev (ut_show ut u) @ rev (dir @ ''/events/'')) =
        ''hctab.'' @ takeWhile (\<lambda>c. c \<noteq> CHR ''/'') (rev r)"
      by simp
    moreover have "takeWhile (\<lambda>c. c \<noteq> CHR ''/'') (rev (ut_show ut u) @ rev (dir @ ''/events/'')) = rev (ut_show ut u)"
      using uuid_text_chars [OF assms, of u] by (subst takeWhile_append2) auto
    ultimately have "CHR ''.'' \<in> set (rev (ut_show ut u))" by (metis Un_iff list.set_intros(1,2) set_append)
    then show False using uuid_text_chars [OF assms, of u] by simp
  qed
  show "is_event_batch_key (event_batch_path ut dir u v)"
    by (auto simp: is_event_batch_key_def ends_with_iff event_batch_path_def)
qed

section \<open>The batch index\<close>

record indexed_event_batch =
  ib_first :: uuid
  ib_last :: uuid
  ib_max_last :: uuid
  ib_key :: string

type_synonym event_batch_index = "indexed_event_batch list"

text \<open>The loop that sets the running maximum.\<close>

fun set_max_last :: "uuid option \<Rightarrow> event_batch_index \<Rightarrow> event_batch_index" where
  "set_max_last max_last [] = []"
| "set_max_last max_last (b # bs) =
     (let m = (case max_last of None \<Rightarrow> ib_last b | Some current \<Rightarrow> max current (ib_last b))
      in b\<lparr>ib_max_last := m\<rparr> # set_max_last (Some m) bs)"

definition new_batch :: "uuid \<Rightarrow> uuid \<Rightarrow> string \<Rightarrow> indexed_event_batch" where
  "new_batch start_id end_id key = \<lparr> ib_first = start_id, ib_last = end_id, ib_max_last = end_id, ib_key = key \<rparr>"

definition index_from_keys :: "uuid_text \<Rightarrow> string list \<Rightarrow> event_batch_index" where
  "index_from_keys ut keys =
     set_max_last None (sort_key ib_first
       (List.map_filter (\<lambda>key. map_option (\<lambda>(start_id, end_id). new_batch start_id end_id key)
          (event_batch_range_from_key ut key)) keys))"

definition index_insert :: "uuid \<Rightarrow> uuid \<Rightarrow> string \<Rightarrow> event_batch_index \<Rightarrow> event_batch_index" where
  "index_insert start_id end_id key batches =
     (let offset = partition_point (\<lambda>b. ib_first b \<le> start_id) batches;
          bs = insert_at offset (new_batch start_id end_id key) batches;
          max_last = (if offset = 0 then None else Some (ib_max_last (bs ! (offset - 1))))
      in take offset bs @ set_max_last max_last (drop offset bs))"

text \<open>The scan from the back, stopping at the first running maximum below the identifier.\<close>

fun collect_keys :: "uuid \<Rightarrow> indexed_event_batch list \<Rightarrow> string list" where
  "collect_keys eid [] = []"
| "collect_keys eid (b # bs) =
     (if ib_max_last b < eid then []
      else if eid \<le> ib_last b then ib_key b # collect_keys eid bs
      else collect_keys eid bs)"

definition keys_containing :: "event_batch_index \<Rightarrow> uuid \<Rightarrow> string list" where
  "keys_containing batches eid =
     (let stop = partition_point (\<lambda>b. ib_first b \<le> eid) batches
      in collect_keys eid (rev (take stop batches)))"

section \<open>Correctness of the index\<close>

text \<open>A well-formed index is sorted by first identifier and carries the running maxima.\<close>

definition index_ok :: "event_batch_index \<Rightarrow> bool" where
  "index_ok bs \<longleftrightarrow> sorted (map ib_first bs) \<and> set_max_last None bs = bs"

definition batch_entry :: "indexed_event_batch \<Rightarrow> uuid \<times> uuid \<times> string" where
  "batch_entry b = (ib_first b, ib_last b, ib_key b)"

definition running_max :: "uuid option \<Rightarrow> event_batch_index \<Rightarrow> uuid option" where
  "running_max m bs = fold (\<lambda>b m. Some (case m of None \<Rightarrow> ib_last b | Some c \<Rightarrow> max c (ib_last b))) bs m"

lemma set_max_last_append:
  "set_max_last m (xs @ ys) = set_max_last m xs @ set_max_last (running_max m xs) ys"
  by (induction xs arbitrary: m) (simp_all add: running_max_def Let_def)

lemma length_set_max_last [simp]: "length (set_max_last m bs) = length bs"
  by (induction bs arbitrary: m) (simp_all add: Let_def)

lemma set_max_last_fields [simp]:
  "map ib_first (set_max_last m bs) = map ib_first bs" "map batch_entry (set_max_last m bs) = map batch_entry bs"
  by (induction bs arbitrary: m) (simp_all add: Let_def batch_entry_def)

lemma set_max_last_entries [simp]: "batch_entry ` set (set_max_last m bs) = batch_entry ` set bs"
  by (metis list.set_map set_max_last_fields(2))

lemma set_max_last_idem: "set_max_last m (set_max_last m bs) = set_max_last m bs"
  by (induction bs arbitrary: m) (simp_all add: Let_def split: option.splits)

lemma running_max_bound: "running_max m bs = Some c \<Longrightarrow> (m = Some d \<longrightarrow> d \<le> c) \<and> (\<forall>b \<in> set bs. ib_last b \<le> c)"
proof (induction bs arbitrary: m c d rule: rev_induct)
  case Nil
  then show ?case by (simp add: running_max_def)
next
  case (snoc b bs)
  show ?case
  proof (cases "running_max m bs")
    case None
    then have "bs = [] \<and> m = None" by (cases bs rule: rev_cases) (auto simp: running_max_def)
    then show ?thesis using snoc.prems by (auto simp: running_max_def)
  next
    case (Some e)
    then have "c = max e (ib_last b)" using snoc.prems by (simp add: running_max_def)
    then show ?thesis using snoc.IH [OF Some, of d] by (auto simp: le_max_iff_disj)
  qed
qed

lemma last_max_last:
  assumes "set_max_last None (bs @ [b]) = bs @ [b]"
  shows "set_max_last None bs = bs \<and> running_max None (bs @ [b]) = Some (ib_max_last b)"
  using assms by (auto simp: set_max_last_append Let_def running_max_def split: option.splits)
     (metis indexed_event_batch.select_convs(3) indexed_event_batch.surjective indexed_event_batch.update_convs(3))+

lemma collect_keys_spec:
  assumes "set_max_last None bs = bs"
  shows "collect_keys eid (rev bs) = rev (map ib_key (filter (\<lambda>b. eid \<le> ib_last b) bs))"
  using assms
proof (induction bs rule: rev_induct)
  case (snoc b bs)
  note last = last_max_last [OF snoc.prems]
  have bound: "\<forall>x \<in> set (bs @ [b]). ib_last x \<le> ib_max_last b"
    using running_max_bound last by blast
  show ?case
  proof (cases "ib_max_last b < eid")
    case True
    then have "filter (\<lambda>b. eid \<le> ib_last b) (bs @ [b]) = []"
      using bound by (auto simp: filter_empty_conv)
    then show ?thesis using True by simp
  next
    case False
    then show ?thesis using snoc.IH last by simp
  qed
qed simp

lemma takeWhile_sorted:
  fixes f :: "'a \<Rightarrow> 'b::linorder"
  shows "sorted (map f xs) \<Longrightarrow> takeWhile (\<lambda>x. f x \<le> k) xs = filter (\<lambda>x. f x \<le> k) xs"
  by (induction xs) (auto simp: filter_empty_conv eq_commute [of "[]"] dest: order_trans)

lemma set_max_last_take: "set_max_last None bs = bs \<Longrightarrow> set_max_last None (take n bs) = take n bs"
proof -
  assume ok: "set_max_last None bs = bs"
  have "set_max_last None (take n bs) @ set_max_last (running_max None (take n bs)) (drop n bs) = take n bs @ drop n bs"
    using ok by (simp flip: set_max_last_append)
  then show ?thesis by (subst (asm) append_eq_append_conv) simp_all
qed

lemma keys_containing_spec:
  assumes "index_ok bs"
  shows "keys_containing bs eid = rev (map ib_key (filter (\<lambda>b. ib_first b \<le> eid \<and> eid \<le> ib_last b) bs))"
proof -
  let ?p = "takeWhile (\<lambda>b. ib_first b \<le> eid) bs"
  have p: "take (partition_point (\<lambda>b. ib_first b \<le> eid) bs) bs = ?p"
    unfolding partition_point_def by (rule takeWhile_eq_take [symmetric])
  have "set_max_last None ?p = ?p"
    using set_max_last_take [of bs "partition_point (\<lambda>b. ib_first b \<le> eid) bs"] assms p by (simp add: index_ok_def)
  from collect_keys_spec [OF this, of eid]
  show ?thesis
    using assms by (simp add: keys_containing_def p Let_def takeWhile_sorted index_ok_def conj_commute)
qed

lemma index_from_keys_ok: "index_ok (index_from_keys ut keys)"
  by (simp add: index_ok_def index_from_keys_def set_max_last_idem)

lemma index_from_keys_entries:
  "(f, l, k) \<in> batch_entry ` set (index_from_keys ut keys) \<longleftrightarrow>
     k \<in> set keys \<and> event_batch_range_from_key ut k = Some (f, l)"
proof -
  have "batch_entry ` set (index_from_keys ut keys) =
      batch_entry ` set (List.map_filter (\<lambda>key. map_option (\<lambda>(s, e). new_batch s e key)
          (event_batch_range_from_key ut key)) keys)"
    by (simp add: index_from_keys_def)
  then show ?thesis
    by (force simp: List.map_filter_def batch_entry_def new_batch_def image_iff)
qed

lemma keys_containing_listed:
  assumes "k \<in> set keys" and "event_batch_range_from_key ut k = Some (f, l)" and "f \<le> eid" "eid \<le> l"
  shows "k \<in> set (keys_containing (index_from_keys ut keys) eid)"
proof -
  have "(f, l, k) \<in> batch_entry ` set (index_from_keys ut keys)"
    using assms(1,2) index_from_keys_entries by blast
  then show ?thesis
    unfolding keys_containing_spec [OF index_from_keys_ok] using assms(3,4) by (force simp: batch_entry_def)
qed

lemma running_max_last: "set_max_last None (bs @ [b]) = bs @ [b] \<Longrightarrow> running_max None (bs @ [b]) = Some (ib_max_last b)"
  using last_max_last by blast

lemma index_insert_rescans:
  assumes "index_ok bs"
  shows "index_insert f l k bs =
     set_max_last None (insert_at (partition_point (\<lambda>b. ib_first b \<le> f) bs) (new_batch f l k) bs)"
proof -
  define n where "n = partition_point (\<lambda>b. ib_first b \<le> f) bs"
  have n: "n \<le> length bs" by (simp add: n_def partition_point_def length_takeWhile_le)
  let ?bs = "insert_at n (new_batch f l k) bs"
  have take_n: "take n ?bs = take n bs" using n by (simp add: insert_at_def)
  have pre: "set_max_last None (take n bs) = take n bs"
    using assms by (intro set_max_last_take) (simp add: index_ok_def)
  have max_n: "running_max None (take n bs) = (if n = 0 then None else Some (ib_max_last (?bs ! (n - 1))))"
  proof (cases n)
    case 0
    then show ?thesis by (simp add: running_max_def)
  next
    case (Suc m)
    then have "take n bs = take m bs @ [bs ! m]" using n by (simp add: take_Suc_conv_app_nth)
    moreover have "?bs ! (n - 1) = bs ! m" using n Suc by (simp add: insert_at_def nth_append)
    ultimately show ?thesis using running_max_last [of "take m bs" "bs ! m"] pre Suc by simp
  qed
  have "set_max_last None ?bs = take n bs @ set_max_last (running_max None (take n bs)) (drop n ?bs)"
    using set_max_last_append [of None "take n bs" "drop n ?bs"] take_n pre by (metis append_take_drop_id)
  then show ?thesis using take_n max_n by (simp add: index_insert_def Let_def flip: n_def)
qed

lemma sorted_insert_at:
  fixes f :: "'a \<Rightarrow> 'b::linorder"
  assumes "sorted (map f xs)"
  shows "sorted (map f (insert_at (partition_point (\<lambda>x. f x \<le> f y) xs) y xs))"
  using assms
proof (induction xs)
  case (Cons x xs)
  then show ?case
    by (auto simp: insert_at_def partition_point_def not_le dest: set_takeWhileD in_set_takeD in_set_dropD
        intro: order_trans less_imp_le)
qed (simp add: insert_at_def partition_point_def)

lemma index_insert_ok: "index_ok bs \<Longrightarrow> index_ok (index_insert f l k bs)"
  using sorted_insert_at [of ib_first bs "new_batch f l k"]
  by (simp add: index_insert_rescans) (simp add: index_ok_def set_max_last_idem new_batch_def)

lemma index_insert_entries:
  assumes "index_ok bs"
  shows "batch_entry ` set (index_insert f l k bs) = insert (f, l, k) (batch_entry ` set bs)"
proof -
  have "batch_entry (new_batch f l k) = (f, l, k)" by (simp add: batch_entry_def new_batch_def)
  then show ?thesis using index_insert_rescans [OF assms, of f l k] by simp
qed

text \<open>the batch index answers exactly the batches whose range contains an identifier. An index built
  from the listed keys and extended by any sequence of insertions returns a key if and only if it names a
  batch, listed or inserted, whose first and last identifiers enclose the one asked for.\<close>

theorem batch_index_is_complete:
  "key \<in> set (keys_containing (fold (\<lambda>(f, l, k). index_insert f l k) added (index_from_keys ut keys)) eid) \<longleftrightarrow>
     (\<exists>f l. (key \<in> set keys \<and> event_batch_range_from_key ut key = Some (f, l) \<or> (f, l, key) \<in> set added) \<and>
        f \<le> eid \<and> eid \<le> l)"
proof -
  have gen: "index_ok (fold (\<lambda>(f, l, k). index_insert f l k) added bs) \<and>
      batch_entry ` set (fold (\<lambda>(f, l, k). index_insert f l k) added bs) = set added \<union> batch_entry ` set bs"
    if "index_ok bs" for bs
    using that
  proof (induction added arbitrary: bs)
    case (Cons a added)
    obtain f l k where a: "a = (f, l, k)" by (cases a) auto
    show ?case using Cons.IH [OF index_insert_ok [OF Cons.prems], of f l k] index_insert_entries [OF Cons.prems, of f l k]
      by (auto simp: a)
  qed simp
  define bs where "bs = fold (\<lambda>(f, l, k). index_insert f l k) added (index_from_keys ut keys)"
  have ok: "index_ok bs" and entries: "batch_entry ` set bs = set added \<union> batch_entry ` set (index_from_keys ut keys)"
    using gen [OF index_from_keys_ok, of ut keys] by (simp_all add: bs_def)
  have "key \<in> set (keys_containing bs eid) \<longleftrightarrow>
      (\<exists>f l. (f, l, key) \<in> batch_entry ` set bs \<and> f \<le> eid \<and> eid \<le> l)"
    unfolding keys_containing_spec [OF ok] by (force simp: batch_entry_def)
  then show ?thesis
    unfolding entries bs_def [symmetric] using index_from_keys_entries [of _ _ key ut keys] by blast
qed

end
