(* ===== verification/Object_Store.thy ===== *)
theory Object_Store
  imports Rust_Str Exo_Types "HOL-Library.AList" "HOL-Library.Char_ord" "HOL-Library.List_Lexorder"
begin

text \<open>
  The object store under the harness, from \<^verbatim>\<open>crates/exoharness/src/storage.rs\<close>. The backend behind the
  \<open>Storage\<close> trait is host code; the trait asks it for read-after-write consistency, so its state is a
  table from keys to objects. An object is what its bytes decode to. Keys are already normalised: path
  components joined by slashes.
\<close>

type_synonym 'o store = "(string \<times> 'o) list"

definition store_get :: "'o store \<Rightarrow> string \<Rightarrow> 'o option" where
  "store_get s key = map_of s key"

definition store_put :: "string \<Rightarrow> 'o \<Rightarrow> 'o store \<Rightarrow> 'o store" where
  "store_put key x s = AList.update key x s"

text \<open>Listing a prefix gives the keys strictly below it; an object at exactly the prefix is not listed.\<close>

definition below :: "string \<Rightarrow> string \<Rightarrow> bool" where
  "below prefix key \<longleftrightarrow> prefix = [] \<or> starts_with (prefix @ ''/'') key"

definition list_keys :: "string \<Rightarrow> 'o store \<Rightarrow> string list" where
  "list_keys prefix s = sort (filter (below prefix) (map fst s))"

definition split_directory :: "string \<Rightarrow> string option" where
  "split_directory relative =
     (if CHR ''/'' \<in> set relative then Some (takeWhile (\<lambda>c. c \<noteq> CHR ''/'') relative) else None)"

definition list_directories :: "string \<Rightarrow> 'o store \<Rightarrow> string list" where
  "list_directories prefix s =
     (let base = (if prefix = [] then [] else prefix @ ''/'')
      in sort (remdups (List.map_filter (\<lambda>key.
           case strip_prefix base key of
             None \<Rightarrow> None
           | Some relative \<Rightarrow> map_option (\<lambda>d. base @ d) (split_directory relative)) (list_keys prefix s))))"

definition delete_key_if_exists :: "string \<Rightarrow> 'o store \<Rightarrow> 'o store" where
  "delete_key_if_exists key s = AList.delete key s"

definition delete_prefix :: "string \<Rightarrow> 'o store \<Rightarrow> 'o store" where
  "delete_prefix prefix s = fold delete_key_if_exists (list_keys prefix s) s"

text \<open>\<open>copy\<close> of one object; copying a missing one changes nothing here (every copied key is listed).\<close>

definition store_copy :: "string \<Rightarrow> string \<Rightarrow> 'o store \<Rightarrow> 'o store" where
  "store_copy source destination s =
     (case store_get s source of None \<Rightarrow> s | Some x \<Rightarrow> store_put destination x s)"

definition copy_prefix :: "string \<Rightarrow> string \<Rightarrow> 'o store \<Rightarrow> 'o store" where
  "copy_prefix src_prefix dst_prefix s =
     fold (\<lambda>key s. store_copy key (dst_prefix @ drop (length src_prefix) key) s) (list_keys src_prefix s) s"

text \<open>Objects below a prefix whose key has a suffix, decoded; the first that does not decode is an error.\<close>

definition list_json_matching_suffix :: "('o \<Rightarrow> 'a result) \<Rightarrow> string \<Rightarrow> string \<Rightarrow> 'o store \<Rightarrow> 'a list result" where
  "list_json_matching_suffix decode prefix suffix s =
     and_then (map_res (\<lambda>key. case store_get s key of None \<Rightarrow> Ok None | Some x \<Rightarrow> and_then (decode x) (\<lambda>v. Ok (Some v)))
       (filter (ends_with suffix) (list_keys prefix s))) (\<lambda>values. Ok (List.map_filter (\<lambda>v. v) values))"

section \<open>Facts\<close>

lemma store_get_put [simp]: "store_get (store_put k x s) k' = (if k' = k then Some x else store_get s k')"
  by (simp add: store_get_def store_put_def AList.update_conv')

lemma store_get_delete [simp]: "store_get (delete_key_if_exists k s) k' = (if k' = k then None else store_get s k')"
  by (simp add: store_get_def delete_key_if_exists_def AList.delete_conv')

lemma store_get_None_iff: "store_get s k = None \<longleftrightarrow> k \<notin> fst ` set s"
  by (simp add: store_get_def map_of_eq_None_iff)

lemma list_keys_mem: "k \<in> set (list_keys p s) \<longleftrightarrow> store_get s k \<noteq> None \<and> below p k"
  using store_get_None_iff [of s k] by (auto simp: list_keys_def)

lemma list_keys_sorted: "sorted (list_keys p s)"
  by (simp add: list_keys_def)

lemma store_put_keys: "set (map fst (store_put k x s)) = insert k (set (map fst s))"
  by (simp add: store_put_def dom_update)

lemma distinct_store_put: "distinct (map fst s) \<Longrightarrow> distinct (map fst (store_put k x s))"
  by (simp add: store_put_def AList.distinct_update)

lemma distinct_list_keys: "distinct (map fst s) \<Longrightarrow> distinct (list_keys p s)"
  by (simp add: list_keys_def)

lemma delete_prefix_get:
  fixes s :: "'o store"
  shows "store_get (delete_prefix p s) k = (if below p k then None else store_get s k)"
proof -
  have "store_get (fold delete_key_if_exists ks s) k = (if k \<in> set ks then None else store_get s k)"
    for ks and s :: "'o store"
    by (induction ks arbitrary: s) auto
  then show ?thesis by (auto simp: delete_prefix_def list_keys_mem)
qed

text \<open>Copying below a prefix, when source and destination do not overlap.\<close>

lemma copy_prefix_get:
  fixes s :: "'o store"
  assumes "\<not> below src dst" "\<not> below dst src" "src \<noteq> dst" "src \<noteq> []" "dst \<noteq> []"
  shows "store_get (copy_prefix src dst s) k =
    (case strip_prefix (dst @ ''/'') k of
       Some r \<Rightarrow> (case store_get s (src @ ''/'' @ r) of None \<Rightarrow> store_get s k | Some x \<Rightarrow> Some x)
     | None \<Rightarrow> store_get s k)"
proof -
  have disj: "\<not> below src (dst @ ''/'' @ r)" for r
  proof
    assume "below src (dst @ ''/'' @ r)"
    then obtain q where "src @ ''/'' @ q = dst @ ''/'' @ r" using assms by (auto simp: below_def starts_with_iff)
    then consider u where "src = dst @ u" | u where "dst = src @ u" by (metis append_eq_append_conv2)
    then show False
    proof cases
      case (1 u)
      then show ?thesis using assms \<open>src @ ''/'' @ q = dst @ ''/'' @ r\<close>
        by (cases u) (auto simp: below_def starts_with_iff)
    next
      case (2 u)
      then show ?thesis using assms \<open>src @ ''/'' @ q = dst @ ''/'' @ r\<close>
        by (cases u) (auto simp: below_def starts_with_iff)
    qed
  qed
  have gen: "store_get (fold (\<lambda>key s. store_copy key (dst @ drop (length src) key) s) ks s) k =
      (case strip_prefix (dst @ ''/'') k of
         Some r \<Rightarrow> (if src @ ''/'' @ r \<in> set ks \<and> store_get s (src @ ''/'' @ r) \<noteq> None
                    then store_get s (src @ ''/'' @ r) else store_get s k)
       | None \<Rightarrow> store_get s k)"
    if "\<forall>key \<in> set ks. below src key" for ks and s :: "'o store"
    using that
  proof (induction ks arbitrary: s)
    case Nil
    then show ?case by (simp split: option.splits)
  next
    case (Cons key ks)
    obtain q where q: "key = src @ ''/'' @ q" using Cons.prems assms by (auto simp: below_def starts_with_iff)
    define s1 where "s1 = store_copy key (dst @ drop (length src) key) s"
    have get: "store_get s1 k' = (if k' = dst @ ''/'' @ q \<and> store_get s key \<noteq> None then store_get s key else store_get s k')" for k'
      by (auto simp: s1_def store_copy_def q split: option.splits)
    have src_same: "store_get s1 (src @ ''/'' @ r) = store_get s (src @ ''/'' @ r)" for r
    proof -
      have "src @ ''/'' @ r \<noteq> dst @ ''/'' @ q" using disj [of q] assms(4) by (metis append_assoc below_def starts_with_iff)
      then show ?thesis by (simp add: get)
    qed
    note IH = Cons.IH [of s1, unfolded src_same]
    have first: "fold (\<lambda>key s. store_copy key (dst @ drop (length src) key) s) (key # ks) s =
        fold (\<lambda>key s. store_copy key (dst @ drop (length src) key) s) ks s1"
      by (simp add: s1_def)
    show ?case
    proof (cases "strip_prefix (dst @ ''/'') k")
      case None
      then have "k \<noteq> dst @ ''/'' @ q" by (metis append_assoc option.distinct(1) strip_prefix_append)
      then show ?thesis using IH Cons.prems None first by (simp add: get)
    next
      case (Some r)
      then have k: "k = dst @ ''/'' @ r" by (simp add: strip_prefix_Some_iff)
      have "store_get (fold (\<lambda>key s. store_copy key (dst @ drop (length src) key) s) ks s1) k =
          (if src @ ''/'' @ r \<in> set ks \<and> store_get s (src @ ''/'' @ r) \<noteq> None
           then store_get s (src @ ''/'' @ r) else store_get s1 k)"
        using IH Cons.prems Some by simp
      then show ?thesis using Some get [of k] q first unfolding k by auto
    qed
  qed
  show ?thesis
    unfolding copy_prefix_def
    by (subst gen) (auto simp: list_keys_mem below_def starts_with_iff split: option.splits)
qed

end
