(* ===== verification/Event_Log.thy ===== *)
theory Event_Log
  imports Event_Index Object_Store "HOL-Library.Product_Lexorder"
begin

text \<open>
  The event log of a conversation, from \<^verbatim>\<open>crates/exoharness/src/basic.rs\<close> and \<^verbatim>\<open>types.rs\<close>: appending batches,
  reading, paging and watching events, turns, forks and artifacts. The state is the object store, the
  subscribers of each conversation, the batch index of each handle (shared by the turn handles made from
  it) and a counter of environment calls. The environment holds what other code answers: fresh UUIDs and
  their time stamps, the access checks and claims, and whether a write of the object store
  succeeds. The global write lock makes each operation one step.
\<close>

section \<open>Events\<close>

text \<open>Payloads that no modelled code inspects are of the parameter type.\<close>

datatype 'p event_data =
    ThreadCreated string string
  | ThreadUpdated "string option" "string option"
  | ThreadDeleted
  | ThreadForked uuid "uuid option"
  | SessionStarted
  | SessionEnded
  | TurnStarted "string option"
  | TurnEnded
  | Messages 'p
  | ToolRequested string 'p
  | ToolResult string 'p
  | LinguaStreamChunk 'p
  | ErrorEvent string 'p
  | ArtifactWritten uuid string u64
  | SandboxCreated uuid 'p
  | SandboxStarted uuid "uuid option"
  | SandboxStopped uuid
  | SandboxAttached uuid 'p
  | SandboxDetached uuid 'p
  | SandboxSnapshotted uuid uuid
  | SandboxProcessStarted uuid uuid 'p
  | SandboxProcessStateUpdated uuid uuid 'p
  | SandboxProcessEvent uuid uuid 'p
  | Custom string 'p

primrec event_kind :: "'p event_data \<Rightarrow> string" where
  "event_kind (ThreadCreated _ _) = ''thread_created''"
| "event_kind (ThreadUpdated _ _) = ''thread_updated''"
| "event_kind ThreadDeleted = ''thread_deleted''"
| "event_kind (ThreadForked _ _) = ''thread_forked''"
| "event_kind SessionStarted = ''session_started''"
| "event_kind SessionEnded = ''session_ended''"
| "event_kind (TurnStarted _) = ''turn_started''"
| "event_kind TurnEnded = ''turn_ended''"
| "event_kind (Messages _) = ''messages''"
| "event_kind (ToolRequested _ _) = ''tool_requested''"
| "event_kind (ToolResult _ _) = ''tool_result''"
| "event_kind (LinguaStreamChunk _) = ''lingua_stream_chunk''"
| "event_kind (ErrorEvent _ _) = ''error''"
| "event_kind (ArtifactWritten _ _ _) = ''artifact_written''"
| "event_kind (SandboxCreated _ _) = ''sandbox_created''"
| "event_kind (SandboxStarted _ _) = ''sandbox_started''"
| "event_kind (SandboxStopped _) = ''sandbox_stopped''"
| "event_kind (SandboxAttached _ _) = ''sandbox_attached''"
| "event_kind (SandboxDetached _ _) = ''sandbox_detached''"
| "event_kind (SandboxSnapshotted _ _) = ''sandbox_snapshotted''"
| "event_kind (SandboxProcessStarted _ _ _) = ''sandbox_process_started''"
| "event_kind (SandboxProcessStateUpdated _ _ _) = ''sandbox_process_state_updated''"
| "event_kind (SandboxProcessEvent _ _ _) = ''sandbox_process_event''"
| "event_kind (Custom name _) = name"

definition canonical_event_kind :: "string \<Rightarrow> string" where
  "canonical_event_kind kind =
     (if kind = ''conversation_created'' then ''thread_created''
      else if kind = ''conversation_updated'' then ''thread_updated''
      else if kind = ''conversation_deleted'' then ''thread_deleted''
      else if kind = ''conversation_forked'' then ''thread_forked''
      else kind)"

definition kind_matches :: "string \<Rightarrow> string \<Rightarrow> bool" where
  "kind_matches k k' \<longleftrightarrow> canonical_event_kind k = canonical_event_kind k'"

record 'p event =
  ev_id :: uuid
  ev_thread_id :: uuid
  ev_session_id :: "uuid option"
  ev_turn_id :: "uuid option"
  ev_created_at :: int
  ev_data :: "'p event_data"

record conversation_record =
  cr_environment :: "string option"
  cr_id :: uuid
  cr_slug :: string
  cr_name :: string
  cr_latest_event_id :: "uuid option"
  cr_vaults :: "uuid list"

record artifact_version =
  av_artifact_id :: uuid
  av_path :: string
  av_version :: u64
  av_created_at :: int
  av_size_bytes :: u64

text \<open>A stored object by what its bytes decode to. A legacy artifact holds its contents inline.\<close>

datatype 'p stored_object =
    Stored_Event "'p event"
  | Stored_Batch "'p event list"
  | Stored_Record conversation_record
  | Stored_Artifact artifact_version "string option"
  | Stored_Bytes string
  | Stored_Other 'p

record 'p subscriber =
  sub_open :: bool
  sub_received :: "'p event list"

record 'p log_world =
  lw_store :: "'p stored_object store"
  lw_subscribers :: "uuid \<Rightarrow> 'p subscriber list"
  lw_index :: "nat \<Rightarrow> event_batch_index option"
  lw_calls :: nat

record log_env =
  le_text :: uuid_text
  le_now :: "nat \<Rightarrow> uuid"
  le_timestamp :: "uuid \<Rightarrow> int option"
  le_rfc3339 :: "int \<Rightarrow> string"
  le_check :: "uuid \<Rightarrow> unit result"
  le_claim :: "uuid \<Rightarrow> unit result"
  le_claim_local :: "uuid \<Rightarrow> unit result"
  le_check_fork :: "uuid \<Rightarrow> unit result"
  le_agent_change :: "unit result"
  le_put :: "nat \<Rightarrow> string \<Rightarrow> unit result"

record add_events_result =
  ae_event_ids :: "uuid list"
  ae_latest_event_id :: uuid

record conversation_handle =
  ch_agent_dir :: string
  ch_dir :: string
  ch_record :: conversation_record
  ch_index_ref :: nat

definition events_dir :: "string \<Rightarrow> string" where
  "events_dir conversation_dir = conversation_dir @ ''/events''"

definition artifacts_dir :: "string \<Rightarrow> string" where
  "artifacts_dir conversation_dir = conversation_dir @ ''/artifacts''"

definition bindings_dir :: "string \<Rightarrow> string" where
  "bindings_dir conversation_dir = conversation_dir @ ''/bindings''"

definition record_path :: "string \<Rightarrow> string" where
  "record_path conversation_dir = conversation_dir @ ''/record.json''"

section \<open>Environment calls\<close>

definition uuid_now :: "log_env \<Rightarrow> ('p log_world, uuid) io" where
  "uuid_now env w = (Ok (le_now env (lw_calls w)), w\<lparr>lw_calls := Suc (lw_calls w)\<rparr>)"

definition put_object :: "log_env \<Rightarrow> string \<Rightarrow> 'p stored_object \<Rightarrow> ('p log_world, unit) io" where
  "put_object env key x w =
     (case le_put env (lw_calls w) key of
        Inl e \<Rightarrow> (Inl e, w\<lparr>lw_calls := Suc (lw_calls w)\<rparr>)
      | Inr _ \<Rightarrow> (Ok (), w\<lparr>lw_calls := Suc (lw_calls w), lw_store := store_put key x (lw_store w)\<rparr>))"

definition timestamp_of :: "log_env \<Rightarrow> uuid \<Rightarrow> int result" where
  "timestamp_of env u = (case le_timestamp env u of None \<Rightarrow> panic ''uuid7 timestamp'' | Some t \<Rightarrow> Ok t)"

section \<open>Reading the log\<close>

definition decode_batch :: "'p stored_object \<Rightarrow> 'p event list result" where
  "decode_batch x = (case x of Stored_Batch es \<Rightarrow> Ok es | _ \<Rightarrow> bail ''failed to decode JSON'')"

definition decode_event :: "'p stored_object \<Rightarrow> 'p event result" where
  "decode_event x = (case x of Stored_Event e \<Rightarrow> Ok e | _ \<Rightarrow> bail ''failed to decode JSON'')"

definition decode_record :: "'p stored_object \<Rightarrow> conversation_record result" where
  "decode_record x = (case x of Stored_Record r \<Rightarrow> Ok r | _ \<Rightarrow> bail ''failed to decode JSON'')"

definition load_event_object :: "'p stored_object store \<Rightarrow> string \<Rightarrow> 'p event list result" where
  "load_event_object s key =
     (case store_get s key of
        None \<Rightarrow> Ok []
      | Some x \<Rightarrow>
          if is_event_batch_key key then decode_batch x
          else and_then (decode_event x) (\<lambda>e. Ok [e]))"

definition load_events :: "log_env \<Rightarrow> string \<Rightarrow> 'p stored_object store \<Rightarrow> 'p event list result" where
  "load_events env conversation_dir s =
     and_then (map_res (load_event_object s)
        (filter (\<lambda>key. event_id_from_key (le_text env) key \<noteq> None) (list_keys (events_dir conversation_dir) s)))
       (\<lambda>chunks. Ok (sort_key ev_id (concat chunks)))"

definition latest_committed_event_id :: "log_env \<Rightarrow> string \<Rightarrow> 'p stored_object store \<Rightarrow> uuid option" where
  "latest_committed_event_id env conversation_dir s =
     latest_event_id_from_keys (le_text env) (list_keys (events_dir conversation_dir) s)"

definition load_conversation_record :: "log_env \<Rightarrow> string \<Rightarrow> 'p stored_object store \<Rightarrow> conversation_record result" where
  "load_conversation_record env conversation_dir s =
     and_then (ok_or (store_get s (record_path conversation_dir)) ''failed to get record'') (\<lambda>x.
     and_then (decode_record x) (\<lambda>record.
       Ok (record\<lparr>cr_latest_event_id := latest_committed_event_id env conversation_dir s\<rparr>)))"

text \<open>Reading an event from candidate batches, in order; the first that holds it wins.\<close>

fun read_event_from_batches :: "'p stored_object store \<Rightarrow> string list \<Rightarrow> uuid \<Rightarrow> 'p event option result" where
  "read_event_from_batches s [] eid = Ok None"
| "read_event_from_batches s (key # keys) eid =
     (case store_get s key of
        None \<Rightarrow> read_event_from_batches s keys eid
      | Some x \<Rightarrow>
          and_then (decode_batch x) (\<lambda>es.
            case List.find (\<lambda>e. ev_id e = eid) es of
              Some e \<Rightarrow> Ok (Some e)
            | None \<Rightarrow> read_event_from_batches s keys eid))"

datatype event_query_direction = Asc | Desc

record event_query =
  eq_cursor :: "uuid option"
  eq_direction :: "event_query_direction option"
  eq_limit :: "u32 option"
  eq_session_id :: "uuid option"
  eq_turn_id :: "uuid option"
  eq_types :: "string list option"

record 'p get_events_result =
  ge_events :: "'p event list"
  ge_cursor :: "uuid option"

text \<open>The filters of \<open>get_events\<close> on the loaded events, in the source's order.\<close>

definition retain_opt :: "'a option \<Rightarrow> ('a \<Rightarrow> 'b \<Rightarrow> bool) \<Rightarrow> 'b list \<Rightarrow> 'b list" where
  "retain_opt x P es = (case x of None \<Rightarrow> es | Some v \<Rightarrow> filter (P v) es)"

definition query_matches :: "event_query \<Rightarrow> 'p event list \<Rightarrow> 'p event list" where
  "query_matches q es =
     retain_opt (eq_types q) (\<lambda>types e. \<exists>k \<in> set types. kind_matches k (event_kind (ev_data e)))
       (retain_opt (eq_turn_id q) (\<lambda>t e. ev_turn_id e = Some t)
         (retain_opt (eq_session_id q) (\<lambda>s e. ev_session_id e = Some s) es))"

definition after_cursor :: "event_query \<Rightarrow> 'p event list \<Rightarrow> 'p event list" where
  "after_cursor q es =
     (case eq_direction q of
        Some Desc \<Rightarrow> retain_opt (eq_cursor q) (\<lambda>c e. ev_id e < c) (rev es)
      | _ \<Rightarrow> retain_opt (eq_cursor q) (\<lambda>c e. c < ev_id e) es)"

definition select_events :: "event_query option \<Rightarrow> 'p event list \<Rightarrow> 'p get_events_result" where
  "select_events query es =
     (let selected =
        (case query of
           None \<Rightarrow> es
         | Some q \<Rightarrow>
             (let matching = after_cursor q (query_matches q es)
              in case eq_limit q of None \<Rightarrow> matching | Some limit \<Rightarrow> take (unat limit) matching))
      in \<lparr> ge_events = selected, ge_cursor = (if selected = [] then None else Some (ev_id (last selected))) \<rparr>)"

definition get_events :: "log_env \<Rightarrow> conversation_handle \<Rightarrow> event_query option \<Rightarrow> ('p log_world, 'p get_events_result) io" where
  "get_events env h query =
     io_bind (io_lift (le_check env (cr_id (ch_record h)))) (\<lambda>_.
     io_bind (io_read lw_store) (\<lambda>s.
     io_bind (io_lift (load_events env (ch_dir h) s)) (\<lambda>es. io_return (select_events query es))))"

text \<open>\<open>get_event\<close>: cached batches, then the single-event object, then a fresh index over the listed keys.\<close>

definition get_event :: "log_env \<Rightarrow> conversation_handle \<Rightarrow> uuid \<Rightarrow> ('p log_world, 'p event option) io" where
  "get_event env h eid =
     io_bind (io_lift (le_check env (cr_id (ch_record h)))) (\<lambda>_.
     io_bind (io_read (\<lambda>w. (lw_store w, lw_index w (ch_index_ref h)))) (\<lambda>(s, cached).
     let cached_keys = map_option (\<lambda>index. keys_containing index eid) cached in
     io_bind (io_lift (case cached_keys of None \<Rightarrow> Ok None | Some keys \<Rightarrow> read_event_from_batches s keys eid)) (\<lambda>hit.
     case hit of
       Some e \<Rightarrow> io_return (Some e)
     | None \<Rightarrow>
         (case store_get s (event_path (le_text env) (ch_dir h) eid) of
            Some x \<Rightarrow> io_bind (io_lift (decode_event x)) (\<lambda>e. io_return (Some e))
          | None \<Rightarrow>
              (let index = index_from_keys (le_text env) (list_keys (events_dir (ch_dir h)) s);
                   checked = (case cached_keys of None \<Rightarrow> [] | Some keys \<Rightarrow> keys);
                   new_keys = filter (\<lambda>key. key \<notin> set checked) (keys_containing index eid)
               in io_bind (io_modify (\<lambda>w. w\<lparr>lw_index := (lw_index w)(ch_index_ref h := Some index)\<rparr>)) (\<lambda>_.
                  io_lift (read_event_from_batches s new_keys eid)))))))"

section \<open>Watching\<close>

datatype bound = Unbounded | Included uuid | Excluded uuid

definition matches_bound :: "uuid \<Rightarrow> bound \<Rightarrow> bool" where
  "matches_bound eid b = (case b of Unbounded \<Rightarrow> False | Included i \<Rightarrow> i \<le> eid | Excluded i \<Rightarrow> i < eid)"

text \<open>A send reaches every open subscriber; a closed one is dropped from the list.\<close>

definition notify_subscribers :: "uuid \<Rightarrow> 'p event \<Rightarrow> 'p log_world \<Rightarrow> 'p log_world" where
  "notify_subscribers conversation_id e w =
     w\<lparr>lw_subscribers := (lw_subscribers w)(conversation_id :=
        map (\<lambda>sub. sub\<lparr>sub_received := sub_received sub @ [e]\<rparr>)
          (filter sub_open (lw_subscribers w conversation_id)))\<rparr>"

text \<open>\<open>watch_events\<close> returns the existing events; what the subscriber receives later follows them. The new
  subscriber is the last of its conversation's list.\<close>

definition watch_events :: "log_env \<Rightarrow> conversation_handle \<Rightarrow> bound \<Rightarrow> ('p log_world, 'p event list) io" where
  "watch_events env h after =
     io_bind (io_lift (le_check env (cr_id (ch_record h)))) (\<lambda>_.
     io_bind (io_read lw_store) (\<lambda>s.
     io_bind (io_lift (if after = Unbounded then Ok []
        else and_then (load_events env (ch_dir h) s) (\<lambda>es. Ok (filter (\<lambda>e. matches_bound (ev_id e) after) es)))) (\<lambda>existing.
     io_bind (io_modify (\<lambda>w. w\<lparr>lw_subscribers := (lw_subscribers w)(cr_id (ch_record h) :=
        lw_subscribers w (cr_id (ch_record h)) @ [\<lparr> sub_open = True, sub_received = [] \<rparr>])\<rparr>)) (\<lambda>_.
     io_return existing))))"

section \<open>Appending\<close>

definition format_event_head_timestamp :: "log_env \<Rightarrow> uuid option \<Rightarrow> string" where
  "format_event_head_timestamp env head =
     (case head of
        None \<Rightarrow> ''none''
      | Some u \<Rightarrow> (case le_timestamp env u of None \<Rightarrow> ''unknown'' | Some t \<Rightarrow> le_rfc3339 env t))"

definition head_mismatch :: "log_env \<Rightarrow> uuid option \<Rightarrow> uuid option \<Rightarrow> uuid option \<Rightarrow> uuid option \<Rightarrow> string" where
  "head_mismatch env current expected session turn =
     (let e = format_event_head_timestamp env expected; c = format_event_head_timestamp env current;
          show_id = ut_show (le_text env)
      in case turn of
           Some t \<Rightarrow>
             ''turn is stale and cannot be resumed: conversation head advanced outside this turn (turn_id: '' @ show_id t @
             '', session_id: '' @ (case session of None \<Rightarrow> ''none'' | Some x \<Rightarrow> show_id x) @ '', expected_head_at: '' @ e @
             '', current_head_at: '' @ c @ '')''
         | None \<Rightarrow> ''conversation head mismatch: expected_head_at: '' @ e @ '', current_head_at: '' @ c)"

definition ensure_conversation_head :: "log_env \<Rightarrow> uuid option \<Rightarrow> uuid option \<Rightarrow> uuid option \<Rightarrow> uuid option \<Rightarrow> unit result" where
  "ensure_conversation_head env current expected session turn =
     (if current = expected then Ok () else bail (head_mismatch env current expected session turn))"

fun build_events :: "log_env \<Rightarrow> uuid \<Rightarrow> uuid option \<Rightarrow> uuid option \<Rightarrow> 'p event_data list \<Rightarrow> ('p log_world, 'p event list) io" where
  "build_events env conversation_id session turn [] = io_return []"
| "build_events env conversation_id session turn (d # ds) =
     io_bind (uuid_now env) (\<lambda>eid.
     io_bind (io_lift (timestamp_of env eid)) (\<lambda>created_at.
     io_bind (build_events env conversation_id session turn ds) (\<lambda>es.
     io_return (\<lparr> ev_id = eid, ev_thread_id = conversation_id, ev_session_id = session, ev_turn_id = turn,
                  ev_created_at = created_at, ev_data = d \<rparr> # es))))"

text \<open>One object holds the whole batch.\<close>

definition commit_events :: "log_env \<Rightarrow> string \<Rightarrow> 'p event list \<Rightarrow> ('p log_world, unit) io" where
  "commit_events env conversation_dir es =
     (if length es = 1
      then put_object env (event_path (le_text env) conversation_dir (ev_id (last es))) (Stored_Event (hd es))
      else put_object env (event_batch_path (le_text env) conversation_dir (ev_id (hd es)) (ev_id (last es))) (Stored_Batch es))"

definition append_events_to_conversation :: "log_env \<Rightarrow> string \<Rightarrow> uuid \<Rightarrow> uuid option \<Rightarrow> uuid option \<Rightarrow> uuid option
    \<Rightarrow> 'p event_data list \<Rightarrow> conversation_record \<Rightarrow> ('p log_world, add_events_result \<times> conversation_record) io" where
  "append_events_to_conversation env conversation_dir conversation_id session turn expected_head data record =
     io_bind (io_lift (ensure (data \<noteq> []) ''cannot append zero events'')) (\<lambda>_.
     io_bind (io_lift (case expected_head of
          None \<Rightarrow> Ok ()
        | Some _ \<Rightarrow> ensure_conversation_head env (cr_latest_event_id record) expected_head session turn)) (\<lambda>_.
     io_bind (build_events env conversation_id session turn data) (\<lambda>es.
     io_bind (commit_events env conversation_dir es) (\<lambda>_.
     io_bind (io_modify (fold (notify_subscribers conversation_id) es)) (\<lambda>_.
     io_return (\<lparr> ae_event_ids = map ev_id es, ae_latest_event_id = ev_id (last es) \<rparr>,
        record\<lparr>cr_latest_event_id := Some (ev_id (last es))\<rparr>))))))"

definition remember_appended_batch :: "log_env \<Rightarrow> nat \<Rightarrow> string \<Rightarrow> add_events_result \<Rightarrow> 'p log_world \<Rightarrow> 'p log_world" where
  "remember_appended_batch env ref conversation_dir added w =
     (if length (ae_event_ids added) < 2 then w
      else
        (let from_id = hd (ae_event_ids added);
             to_id = ae_latest_event_id added;
             index = (case lw_index w ref of None \<Rightarrow> [] | Some i \<Rightarrow> i)
         in w\<lparr>lw_index := (lw_index w)(ref \<mapsto>
               index_insert from_id to_id (event_batch_path (le_text env) conversation_dir from_id to_id) index)\<rparr>))"

definition append_events_internal :: "log_env \<Rightarrow> conversation_handle \<Rightarrow> uuid option \<Rightarrow> uuid option \<Rightarrow> uuid option
    \<Rightarrow> 'p event_data list \<Rightarrow> ('p log_world, add_events_result) io" where
  "append_events_internal env h session turn expected_head data =
     io_bind (io_lift (le_claim_local env (cr_id (ch_record h)))) (\<lambda>_.
     io_bind (io_read lw_store) (\<lambda>s.
     io_bind (io_lift (load_conversation_record env (ch_dir h) s)) (\<lambda>record.
     io_bind (append_events_to_conversation env (ch_dir h) (cr_id (ch_record h)) session turn expected_head data record) (\<lambda>(added, _).
     io_bind (io_modify (remember_appended_batch env (ch_index_ref h) (ch_dir h) added)) (\<lambda>_.
     io_return added)))))"

definition add_events :: "log_env \<Rightarrow> conversation_handle \<Rightarrow> uuid option \<Rightarrow> uuid option \<Rightarrow> 'p event_data list
    \<Rightarrow> ('p log_world, add_events_result) io" where
  "add_events env h session turn data =
     io_bind (io_lift (le_check env (cr_id (ch_record h)))) (\<lambda>_. append_events_internal env h session turn None data)"

definition start_session :: "log_env \<Rightarrow> conversation_handle \<Rightarrow> ('p log_world, uuid) io" where
  "start_session env h =
     io_bind (io_lift (le_check env (cr_id (ch_record h)))) (\<lambda>_.
     io_bind (uuid_now env) (\<lambda>session.
     io_bind (append_events_internal env h (Some session) None None [SessionStarted]) (\<lambda>_. io_return session)))"

definition end_session :: "log_env \<Rightarrow> conversation_handle \<Rightarrow> uuid \<Rightarrow> ('p log_world, unit) io" where
  "end_session env h session =
     io_bind (io_lift (le_check env (cr_id (ch_record h)))) (\<lambda>_.
     io_bind (append_events_internal env h (Some session) None None [SessionEnded]) (\<lambda>_. io_return ()))"

section \<open>Turns\<close>

record turn_handle_state =
  hs_handle :: conversation_handle
  hs_turn :: turn_record
  hs_latest_event_id :: "uuid option"
  hs_finished :: bool

record 'p begin_turn_request =
  bt_turn :: turn_record
  bt_new_session :: bool
  bt_input :: "'p option"
  bt_initial_events :: "'p event_data list"

text \<open>The events a turn opens with. The input messages are a payload, \<open>None\<close> when there are none.\<close>

definition turn_opening :: "string option \<Rightarrow> 'p begin_turn_request \<Rightarrow> 'p event_data list" where
  "turn_opening user request =
     (if bt_new_session request then [SessionStarted] else []) @ [TurnStarted user] @ bt_initial_events request @
     (case bt_input request of None \<Rightarrow> [] | Some messages \<Rightarrow> [Messages messages])"

definition begin_turn :: "log_env \<Rightarrow> string option \<Rightarrow> conversation_handle \<Rightarrow> 'p begin_turn_request
    \<Rightarrow> ('p log_world, turn_handle_state) io" where
  "begin_turn env user h request =
     io_bind (io_lift (le_claim_local env (cr_id (ch_record h)))) (\<lambda>_.
     io_bind (io_lift (le_check env (cr_id (ch_record h)))) (\<lambda>_.
     io_bind (io_read lw_store) (\<lambda>s.
     io_bind (io_lift (load_conversation_record env (ch_dir h) s)) (\<lambda>record.
     io_bind (append_events_to_conversation env (ch_dir h) (cr_id (ch_record h))
        (Some (tn_session_id (bt_turn request))) (Some (tn_id (bt_turn request))) (cr_latest_event_id record)
        (turn_opening user request) record) (\<lambda>(added, _).
     io_bind (io_modify (remember_appended_batch env (ch_index_ref h) (ch_dir h) added)) (\<lambda>_.
     io_return \<lparr> hs_handle = h, hs_turn = bt_turn request, hs_latest_event_id = Some (ae_latest_event_id added),
                 hs_finished = False \<rparr>))))))"

fun is_turn_ended :: "'p event_data \<Rightarrow> bool" where
  "is_turn_ended TurnEnded = True"
| "is_turn_ended _ = False"

definition turn_handle :: "log_env \<Rightarrow> conversation_handle \<Rightarrow> turn_record \<Rightarrow> ('p log_world, turn_handle_state) io" where
  "turn_handle env h record =
     io_bind (io_lift (le_check env (cr_id (ch_record h)))) (\<lambda>_.
     io_bind (io_read lw_store) (\<lambda>s.
     io_bind (io_lift (load_events env (ch_dir h) s)) (\<lambda>es.
     let mine = filter (\<lambda>e. ev_turn_id e = Some (tn_id record)) (filter (\<lambda>e. ev_session_id e = Some (tn_session_id record)) es)
     in io_bind (io_lift (ensure (mine \<noteq> []) (''turn '' @ ut_show (le_text env) (tn_id record) @ '' in session '' @
            ut_show (le_text env) (tn_session_id record) @ '' was not found''))) (\<lambda>_.
        io_return \<lparr> hs_handle = h, hs_turn = record, hs_latest_event_id = Some (ev_id (last mine)),
                    hs_finished = is_turn_ended (ev_data (last mine)) \<rparr>))))"

text \<open>Appending under a turn: the expected head is the current one.\<close>

definition turn_append :: "log_env \<Rightarrow> turn_handle_state \<Rightarrow> 'p event_data list \<Rightarrow> ('p log_world, add_events_result) io" where
  "turn_append env t data =
     io_bind (io_read lw_store) (\<lambda>s.
     io_bind (io_lift (load_conversation_record env (ch_dir (hs_handle t)) s)) (\<lambda>record.
     io_bind (append_events_to_conversation env (ch_dir (hs_handle t)) (cr_id (ch_record (hs_handle t)))
        (Some (tn_session_id (hs_turn t))) (Some (tn_id (hs_turn t))) (cr_latest_event_id record) data record) (\<lambda>(added, _).
     io_return added)))"

definition turn_add_events :: "log_env \<Rightarrow> turn_handle_state \<Rightarrow> 'p event_data list
    \<Rightarrow> ('p log_world, add_events_result \<times> turn_handle_state) io" where
  "turn_add_events env t data =
     io_bind (io_lift (le_claim_local env (cr_id (ch_record (hs_handle t))))) (\<lambda>_.
     io_bind (turn_append env t data) (\<lambda>added.
     io_bind (io_modify (remember_appended_batch env (ch_index_ref (hs_handle t)) (ch_dir (hs_handle t)) added)) (\<lambda>_.
     io_return (added, t\<lparr>hs_latest_event_id := Some (ae_latest_event_id added)\<rparr>))))"

definition turn_finish :: "log_env \<Rightarrow> turn_handle_state \<Rightarrow> ('p log_world, uuid \<times> turn_handle_state) io" where
  "turn_finish env t =
     io_bind (io_lift (le_claim_local env (cr_id (ch_record (hs_handle t))))) (\<lambda>_.
     if hs_finished t then
       io_bind (io_lift (ok_or (hs_latest_event_id t) ''turn has no latest event id'')) (\<lambda>eid. io_return (eid, t))
     else
       io_bind (turn_append env t [TurnEnded]) (\<lambda>added.
       io_return (ae_latest_event_id added,
         t\<lparr>hs_latest_event_id := Some (ae_latest_event_id added), hs_finished := True\<rparr>)))"

section \<open>Artifacts\<close>

definition decode_artifact_version :: "'p stored_object \<Rightarrow> artifact_version result" where
  "decode_artifact_version x = (case x of Stored_Artifact v _ \<Rightarrow> Ok v | _ \<Rightarrow> bail ''failed to decode JSON'')"

definition load_artifact_versions :: "string \<Rightarrow> 'p stored_object store \<Rightarrow> artifact_version list result" where
  "load_artifact_versions dir s =
     and_then (list_json_matching_suffix decode_artifact_version dir ''.json'' s) (\<lambda>versions.
       Ok (sort_key (\<lambda>v. (av_artifact_id v, av_version v)) versions))"

definition artifact_dir :: "log_env \<Rightarrow> string \<Rightarrow> uuid \<Rightarrow> string" where
  "artifact_dir env dir i = dir @ ''/'' @ ut_show (le_text env) i"

definition artifact_json_path :: "string \<Rightarrow> u64 \<Rightarrow> string" where
  "artifact_json_path dir version = dir @ ''/'' @ show_u64 version @ ''.json''"

definition artifact_bin_path :: "string \<Rightarrow> u64 \<Rightarrow> string" where
  "artifact_bin_path dir version = dir @ ''/'' @ show_u64 version @ ''.bin''"

text \<open>\<open>version + 1\<close> on \<open>u64\<close> panics on overflow in a debug build.\<close>

definition next_version :: "artifact_version option \<Rightarrow> u64 result" where
  "next_version existing =
     (case existing of
        None \<Rightarrow> Ok 1
      | Some v \<Rightarrow> if av_version v = - 1 then panic ''attempt to add with overflow'' else Ok (av_version v + 1))"

definition write_artifact_version :: "log_env \<Rightarrow> string \<Rightarrow> string \<Rightarrow> string \<Rightarrow> ('p log_world, artifact_version) io" where
  "write_artifact_version env dir path contents =
     io_bind (io_read lw_store) (\<lambda>s.
     io_bind (io_lift (load_artifact_versions dir s)) (\<lambda>versions.
     let existing = max_by_key av_version (filter (\<lambda>v. av_path v = path) versions) in
     io_bind (case existing of Some v \<Rightarrow> io_return (av_artifact_id v) | None \<Rightarrow> uuid_now env) (\<lambda>artifact_id.
     io_bind (io_lift (next_version existing)) (\<lambda>version.
     io_bind (uuid_now env) (\<lambda>stamp.
     io_bind (io_lift (timestamp_of env stamp)) (\<lambda>created_at.
     let v = \<lparr> av_artifact_id = artifact_id, av_path = path, av_version = version, av_created_at = created_at,
               av_size_bytes = of_nat (length contents) \<rparr>;
         d = artifact_dir env dir artifact_id in
     io_bind (put_object env (artifact_json_path d version) (Stored_Artifact v None)) (\<lambda>_.
     io_bind (put_object env (artifact_bin_path d version) (Stored_Bytes contents)) (\<lambda>_.
     io_return v))))))))"

definition load_artifact_contents :: "string \<Rightarrow> u64 \<Rightarrow> 'p stored_object store \<Rightarrow> string result" where
  "load_artifact_contents dir version s =
     (case store_get s (artifact_bin_path dir version) of
        Some (Stored_Bytes contents) \<Rightarrow> Ok contents
      | Some _ \<Rightarrow> bail ''unexpected object''
      | None \<Rightarrow>
          (case store_get s (artifact_json_path dir version) of
             None \<Rightarrow> bail (''missing artifact contents for '' @ artifact_json_path dir version)
           | Some (Stored_Artifact _ (Some contents)) \<Rightarrow> Ok contents
           | Some _ \<Rightarrow> bail ''failed to decode JSON''))"

record artifact =
  at_version :: artifact_version
  at_contents :: string

definition read_artifact :: "log_env \<Rightarrow> conversation_handle \<Rightarrow> uuid \<Rightarrow> u64 option \<Rightarrow> ('p log_world, artifact option) io" where
  "read_artifact env h artifact_id version =
     io_bind (io_lift (le_check env (cr_id (ch_record h)))) (\<lambda>_.
     io_bind (io_read lw_store) (\<lambda>s.
     io_bind (io_lift (load_artifact_versions (artifacts_dir (ch_dir h)) s)) (\<lambda>versions.
     case max_by_key av_version
        (filter (\<lambda>v. case version of None \<Rightarrow> True | Some n \<Rightarrow> av_version v = n)
          (filter (\<lambda>v. av_artifact_id v = artifact_id) versions)) of
       None \<Rightarrow> io_return None
     | Some v \<Rightarrow>
         io_bind (io_lift (load_artifact_contents (artifact_dir env (artifacts_dir (ch_dir h)) (av_artifact_id v)) (av_version v) s))
           (\<lambda>contents. io_return (Some \<lparr> at_version = v, at_contents = contents \<rparr>)))))"

definition write_artifact :: "log_env \<Rightarrow> conversation_handle \<Rightarrow> string \<Rightarrow> string \<Rightarrow> ('p log_world, artifact_version) io" where
  "write_artifact env h path contents =
     io_bind (io_lift (le_claim_local env (cr_id (ch_record h)))) (\<lambda>_.
     io_bind (io_lift (le_check env (cr_id (ch_record h)))) (\<lambda>_.
     io_bind (write_artifact_version env (artifacts_dir (ch_dir h)) path contents) (\<lambda>v.
     io_bind (io_read lw_store) (\<lambda>s.
     io_bind (io_lift (load_conversation_record env (ch_dir h) s)) (\<lambda>record.
     io_bind (append_events_to_conversation env (ch_dir h) (cr_id (ch_record h)) None None (cr_latest_event_id record)
        [ArtifactWritten (av_artifact_id v) (av_path v) (av_version v)] record) (\<lambda>_.
     io_return v))))))"

definition turn_write_artifact :: "log_env \<Rightarrow> turn_handle_state \<Rightarrow> string \<Rightarrow> string
    \<Rightarrow> ('p log_world, artifact_version \<times> turn_handle_state) io" where
  "turn_write_artifact env t path contents =
     (let h = hs_handle t in
      io_bind (io_lift (le_claim_local env (cr_id (ch_record h)))) (\<lambda>_.
      io_bind (io_read lw_store) (\<lambda>s.
      io_bind (io_lift (load_conversation_record env (ch_dir h) s)) (\<lambda>record.
      io_bind (write_artifact_version env (artifacts_dir (ch_dir h)) path contents) (\<lambda>v.
      io_bind (append_events_to_conversation env (ch_dir h) (cr_id (ch_record h))
         (Some (tn_session_id (hs_turn t))) (Some (tn_id (hs_turn t))) (cr_latest_event_id record)
         [ArtifactWritten (av_artifact_id v) (av_path v) (av_version v)] record) (\<lambda>(added, _).
      io_return (v, t\<lparr>hs_latest_event_id := Some (ae_latest_event_id added)\<rparr>)))))))"

definition list_artifacts :: "log_env \<Rightarrow> conversation_handle \<Rightarrow> ('p log_world, artifact_version list) io" where
  "list_artifacts env h =
     io_bind (io_lift (le_check env (cr_id (ch_record h)))) (\<lambda>_.
     io_bind (io_read lw_store) (\<lambda>s. io_lift (load_artifact_versions (artifacts_dir (ch_dir h)) s)))"

section \<open>Listing and forking conversations\<close>

definition conversation_recency_key :: "conversation_record \<Rightarrow> uuid" where
  "conversation_recency_key r = (case cr_latest_event_id r of Some e \<Rightarrow> e | None \<Rightarrow> cr_id r)"

record list_conversations_result =
  lc_conversations :: "conversation_record list"
  lc_next_cursor :: "uuid option"

definition paginate_conversation_records :: "log_env \<Rightarrow> conversation_record list \<Rightarrow> uuid option \<Rightarrow> nat option
    \<Rightarrow> list_conversations_result result" where
  "paginate_conversation_records env conversations cursor limit =
     and_then (case cursor of
          Some c \<Rightarrow>
            ok_or (map_option Suc (position (\<lambda>r. conversation_recency_key r = c) conversations))
              (''conversation cursor not found: '' @ ut_show (le_text env) c)
        | None \<Rightarrow> Ok 0) (\<lambda>start.
     let rest = drop start conversations in
     case limit of
       None \<Rightarrow> Ok \<lparr> lc_conversations = rest, lc_next_cursor = None \<rparr>
     | Some n \<Rightarrow>
         if n = 0 then Ok \<lparr> lc_conversations = rest, lc_next_cursor = None \<rparr>
         else
           (let page = take n rest
            in Ok \<lparr> lc_conversations = page,
                    lc_next_cursor = (if n < length rest \<and> page \<noteq> [] then Some (conversation_recency_key (last page)) else None) \<rparr>))"

definition list_conversation_records :: "log_env \<Rightarrow> string \<Rightarrow> uuid option \<Rightarrow> nat option \<Rightarrow> 'p stored_object store
    \<Rightarrow> list_conversations_result result" where
  "list_conversation_records env agent_dir cursor limit s =
     and_then (map_res (\<lambda>d.
          case store_get s (record_path d) of
            None \<Rightarrow> Ok None
          | Some x \<Rightarrow> and_then (decode_record x) (\<lambda>r. Ok (Some (r\<lparr>cr_latest_event_id := latest_committed_event_id env d s\<rparr>))))
        (list_directories (agent_dir @ ''/conversations'') s)) (\<lambda>records.
       paginate_conversation_records env
         (rev (sort_key conversation_recency_key (List.map_filter (\<lambda>r. r) records))) cursor limit)"

text \<open>The loop of \<open>derive_unique_slug\<close>, from a counter on. One of the first \<open>length existing + 1\<close>
  candidates is free, so the fuel given below never runs out.\<close>

fun slug_loop :: "nat \<Rightarrow> string \<Rightarrow> conversation_record list \<Rightarrow> nat \<Rightarrow> string option" where
  "slug_loop 0 prefix existing counter = None"
| "slug_loop (Suc fuel) prefix existing counter =
     (let candidate = prefix @ ''-'' @ show_nat counter
      in if (\<forall>r \<in> set existing. cr_slug r \<noteq> candidate) then Some candidate
         else slug_loop fuel prefix existing (Suc counter))"

definition derive_unique_slug :: "string \<Rightarrow> conversation_record list \<Rightarrow> string option" where
  "derive_unique_slug prefix existing = slug_loop (Suc (length existing)) prefix existing 1"

definition slug_to_name :: "string \<Rightarrow> string" where
  "slug_to_name slug = map (\<lambda>c. if c = CHR ''-'' then CHR '' '' else c) slug"

text \<open>Copying the events of a fork: each gets a fresh identifier and the new conversation.\<close>

fun fork_events :: "log_env \<Rightarrow> string \<Rightarrow> uuid \<Rightarrow> 'p event list \<Rightarrow> uuid option \<Rightarrow> ('p log_world, uuid option) io" where
  "fork_events env conversation_dir conversation_id [] latest = io_return latest"
| "fork_events env conversation_dir conversation_id (e # es) latest =
     io_bind (uuid_now env) (\<lambda>eid.
     io_bind (io_lift (timestamp_of env eid)) (\<lambda>created_at.
     io_bind (put_object env (event_path (le_text env) conversation_dir eid)
        (Stored_Event (e\<lparr>ev_id := eid, ev_thread_id := conversation_id, ev_created_at := created_at\<rparr>))) (\<lambda>_.
     fork_events env conversation_dir conversation_id es (Some eid))))"

definition fork_slug :: "string option \<Rightarrow> conversation_record list \<Rightarrow> string result" where
  "fork_slug requested existing =
     (case requested of
        Some slug \<Rightarrow>
          if (\<exists>r \<in> set existing. cr_slug r = slug) then bail (''conversation slug already exists for agent: '' @ slug)
          else Ok slug
      | None \<Rightarrow> (case derive_unique_slug ''fork'' existing of Some slug \<Rightarrow> Ok slug | None \<Rightarrow> panic ''unreachable''))"

text \<open>The part of \<open>fork\<close> after the new thread is claimed.\<close>

definition fork_into :: "log_env \<Rightarrow> conversation_handle \<Rightarrow> uuid option \<Rightarrow> nat \<Rightarrow> string \<Rightarrow> 'p event list \<Rightarrow> conversation_record
    \<Rightarrow> ('p log_world, conversation_handle) io" where
  "fork_into env h up_to index_ref dir es record =
     io_bind (io_modify (\<lambda>w. w\<lparr>lw_store := copy_prefix (artifacts_dir (ch_dir h)) (artifacts_dir dir)
        (copy_prefix (bindings_dir (ch_dir h)) (bindings_dir dir) (lw_store w))\<rparr>)) (\<lambda>_.
     io_bind (fork_events env dir (cr_id record) es None) (\<lambda>latest.
     io_bind (append_events_to_conversation env dir (cr_id record) None None latest
        [ThreadForked (cr_id (ch_record h)) up_to] (record\<lparr>cr_latest_event_id := latest\<rparr>)) (\<lambda>(_, fork_record).
     io_bind (put_object env (record_path dir) (Stored_Record fork_record)) (\<lambda>_.
     io_bind (io_lift (le_claim_local env (cr_id record))) (\<lambda>_.
     io_bind (io_modify (\<lambda>w. w\<lparr>lw_index := (lw_index w)(index_ref := Some [])\<rparr>)) (\<lambda>_.
     io_return \<lparr> ch_agent_dir = ch_agent_dir h, ch_dir = dir, ch_record = fork_record, ch_index_ref = index_ref \<rparr>))))))"

definition fork :: "log_env \<Rightarrow> conversation_handle \<Rightarrow> uuid option \<Rightarrow> string option \<Rightarrow> string option \<Rightarrow> nat
    \<Rightarrow> ('p log_world, conversation_handle) io" where
  "fork env h up_to requested_slug name index_ref =
     io_bind (io_lift (le_agent_change env)) (\<lambda>_.
     io_bind (io_lift (le_check env (cr_id (ch_record h)))) (\<lambda>_.
     io_bind (io_lift (le_check_fork env (cr_id (ch_record h)))) (\<lambda>_.
     io_bind (io_read lw_store) (\<lambda>s.
     io_bind (io_lift (ok_or (store_get s (ch_agent_dir h @ ''/record.json'')) ''failed to get record'')) (\<lambda>_.
     io_bind (io_lift (list_conversation_records env (ch_agent_dir h) None None s)) (\<lambda>listed.
     io_bind (io_lift (fork_slug requested_slug (lc_conversations listed))) (\<lambda>slug.
     io_bind (io_lift (load_events env (ch_dir h) s)) (\<lambda>all_events.
     io_bind (uuid_now env) (\<lambda>new_id.
     io_bind (io_lift (le_claim env new_id)) (\<lambda>_.
     fork_into env h up_to index_ref (ch_agent_dir h @ ''/conversations/'' @ ut_show (le_text env) new_id)
       (case up_to of None \<Rightarrow> all_events | Some limit \<Rightarrow> filter (\<lambda>e. ev_id e \<le> limit) all_events)
       \<lparr> cr_environment = cr_environment (ch_record h), cr_id = new_id, cr_slug = slug,
         cr_name = (case name of Some n \<Rightarrow> n | None \<Rightarrow> slug_to_name slug), cr_latest_event_id = None,
         cr_vaults = cr_vaults (ch_record h) \<rparr>))))))))))"

section \<open>Well-formed logs\<close>

definition object_events :: "'p stored_object \<Rightarrow> 'p event list" where
  "object_events x = (case x of Stored_Event e \<Rightarrow> [e] | Stored_Batch es \<Rightarrow> es | _ \<Rightarrow> [])"

text \<open>An event object is named after its event, a batch after its first and last, and a batch is
  increasing.\<close>

definition object_ok :: "log_env \<Rightarrow> string \<Rightarrow> string \<Rightarrow> 'p stored_object \<Rightarrow> bool" where
  "object_ok env dir key x \<longleftrightarrow>
     (case x of
        Stored_Event e \<Rightarrow> key = event_path (le_text env) dir (ev_id e)
      | Stored_Batch es \<Rightarrow> 2 \<le> length es \<and> sorted_wrt (<) (map ev_id es) \<and>
          key = event_batch_path (le_text env) dir (ev_id (hd es)) (ev_id (last es))
      | _ \<Rightarrow> False)"

definition log_keys :: "log_env \<Rightarrow> string \<Rightarrow> 'p stored_object store \<Rightarrow> string list" where
  "log_keys env dir s =
     filter (\<lambda>key. event_id_from_key (le_text env) key \<noteq> None) (list_keys (events_dir dir) s)"

definition object_at :: "'p stored_object store \<Rightarrow> string \<Rightarrow> 'p event list" where
  "object_at s key = (case store_get s key of None \<Rightarrow> [] | Some x \<Rightarrow> object_events x)"

definition log_ok :: "log_env \<Rightarrow> string \<Rightarrow> 'p stored_object store \<Rightarrow> bool" where
  "log_ok env dir s \<longleftrightarrow> uuid_text_ok (le_text env) \<and> distinct (map fst s) \<and>
     (\<forall>key \<in> set (log_keys env dir s). \<exists>x. store_get s key = Some x \<and> object_ok env dir key x) \<and>
     (\<forall>key \<in> set (log_keys env dir s). \<forall>key' \<in> set (log_keys env dir s). key \<noteq> key' \<longrightarrow>
        ev_id ` set (object_at s key) \<inter> ev_id ` set (object_at s key') = {})"

text \<open>The events of a log, as a strictly increasing list.\<close>

definition log_is :: "log_env \<Rightarrow> string \<Rightarrow> 'p stored_object store \<Rightarrow> 'p event list \<Rightarrow> bool" where
  "log_is env dir s es \<longleftrightarrow> log_ok env dir s \<and> sorted_wrt (\<lambda>a b. ev_id a < ev_id b) es \<and>
     set es = (\<Union>key \<in> set (log_keys env dir s). set (object_at s key))"

lemma strict_sorted_unique:
  fixes f :: "'a \<Rightarrow> 'b::linorder"
  assumes "sorted_wrt (\<lambda>a b. f a < f b) xs" and "sorted_wrt (\<lambda>a b. f a < f b) ys" and "set xs = set ys"
  shows "xs = ys"
  using assms
proof (induction xs arbitrary: ys)
  case (Cons x xs)
  obtain y ys' where ys: "ys = y # ys'" using Cons.prems(3) by (cases ys) auto
  have "x = y"
  proof (rule ccontr)
    assume "x \<noteq> y"
    then have "x \<in> set ys'" "y \<in> set xs" using Cons.prems(3) ys by auto
    then have "f y < f x" "f x < f y" using Cons.prems(1,2) ys by auto
    then show False by simp
  qed
  have "x \<notin> set xs" "y \<notin> set ys'" using Cons.prems(1,2) ys by auto
  then have "set xs = set ys'" using Cons.prems(3) ys \<open>x = y\<close> by auto
  with Cons ys \<open>x = y\<close> show ?case by simp
qed simp

lemma sort_key_strict:
  fixes f :: "'a \<Rightarrow> 'b::linorder"
  assumes "distinct (map f xs)"
  shows "sorted_wrt (\<lambda>a b. f a < f b) (sort_key f xs)"
proof -
  have "sorted (map f (sort_key f xs))" by simp
  moreover have "distinct (map f (sort_key f xs))"
    using assms by (simp add: distinct_map inj_on_def)
  ultimately have "sorted_wrt (<) (map f (sort_key f xs))" by (simp add: strict_sorted_iff)
  then show ?thesis by (simp add: sorted_wrt_map)
qed

lemma log_is_unique: "log_is env dir s es \<Longrightarrow> log_is env dir s es' \<Longrightarrow> es = es'"
  using strict_sorted_unique [of ev_id es es'] by (simp add: log_is_def)

lemma object_ok_load:
  assumes "uuid_text_ok (le_text env)" and "store_get s key = Some x" and "object_ok env dir key x"
  shows "load_event_object s key = Inr (object_at s key)"
  using assms batch_key_of_paths [OF assms(1)]
  by (auto simp: object_ok_def load_event_object_def object_at_def object_events_def decode_batch_def decode_event_def
      split: stored_object.splits)

lemma object_ok_distinct: "object_ok env dir key x \<Longrightarrow> distinct (map ev_id (object_events x))"
  by (auto simp: object_ok_def object_events_def strict_sorted_iff split: stored_object.splits)

lemma distinct_concat_map:
  assumes "distinct ks" and "\<And>k. k \<in> set ks \<Longrightarrow> distinct (g k)"
    and "\<And>k k'. k \<in> set ks \<Longrightarrow> k' \<in> set ks \<Longrightarrow> k \<noteq> k' \<Longrightarrow> set (g k) \<inter> set (g k') = {}"
  shows "distinct (concat (map g ks))"
  using assms by (induction ks) fastforce+

lemma load_events_ok:
  assumes "log_ok env dir s"
  shows "\<exists>es. load_events env dir s = Inr es \<and> log_is env dir s es"
proof -
  let ?ks = "log_keys env dir s"
  have dist: "distinct ?ks" using assms by (simp add: log_ok_def log_keys_def distinct_list_keys)
  have obj: "\<exists>x. store_get s k = Some x \<and> object_ok env dir k x" if "k \<in> set ?ks" for k
    using assms that by (simp add: log_ok_def)
  have "map_res (load_event_object s) ?ks = Inr (map (object_at s) ?ks)"
    by (rule map_res_Ok) (use obj object_ok_load assms in \<open>fastforce simp: log_ok_def\<close>)
  then have load: "load_events env dir s = Inr (sort_key ev_id (concat (map (object_at s) ?ks)))"
    by (simp add: load_events_def log_keys_def)
  have "distinct (concat (map (\<lambda>k. map ev_id (object_at s k)) ?ks))"
  proof (rule distinct_concat_map [OF dist])
    show "distinct (map ev_id (object_at s k))" if "k \<in> set ?ks" for k
      using obj [OF that] object_ok_distinct by (auto simp: object_at_def)
    show "set (map ev_id (object_at s k)) \<inter> set (map ev_id (object_at s k')) = {}"
      if "k \<in> set ?ks" "k' \<in> set ?ks" "k \<noteq> k'" for k k'
      using assms that by (simp add: log_ok_def)
  qed
  then have "distinct (map ev_id (concat (map (object_at s) ?ks)))" by (simp add: map_concat comp_def)
  from sort_key_strict [OF this] load assms show ?thesis by (auto simp: log_is_def)
qed

lemma load_events_log: "log_is env dir s es \<Longrightarrow> load_events env dir s = Inr es"
  using load_events_ok log_is_unique by (metis log_is_def)

text \<open>The newest identifier of the keys is the identifier of the newest event.\<close>

lemma max_option_Some: "max_option xs = Some m \<longleftrightarrow> m \<in> set xs \<and> (\<forall>x \<in> set xs. x \<le> m)"
proof (cases xs)
  case (Cons x ys)
  have "max_option xs = Some (Max (set xs))"
    using Max.set_eq_fold [of x ys] Cons by (simp add: max_option_def)
  moreover have "Max (set xs) = m \<longleftrightarrow> m \<in> set xs \<and> (\<forall>x \<in> set xs. x \<le> m)"
    by (rule Max_eq_iff) (simp_all add: Cons)
  ultimately show ?thesis by simp
qed (simp add: max_option_def)

lemma max_option_None: "max_option xs = None \<longleftrightarrow> xs = []"
  by (simp add: max_option_def)

lemma object_ok_id:
  assumes "uuid_text_ok (le_text env)" and "object_ok env dir key x"
  shows "object_events x \<noteq> [] \<and> event_id_from_key (le_text env) key = Some (ev_id (last (object_events x))) \<and>
    below (events_dir dir) key"
  using assms event_id_of_paths [OF assms(1)]
  by (auto simp: object_ok_def object_events_def below_def events_dir_def starts_with_iff event_path_def event_batch_path_def
      split: stored_object.splits)

lemma sorted_wrt_last: "sorted_wrt (\<lambda>a b. f a < f b) xs \<Longrightarrow> x \<in> set xs \<Longrightarrow> f x \<le> (f (last xs) :: 'b::linorder)"
  by (induction xs) (auto simp: less_imp_le)

lemma log_keys_mem:
  "key \<in> set (log_keys env dir s) \<longleftrightarrow> store_get s key \<noteq> None \<and> below (events_dir dir) key \<and>
     event_id_from_key (le_text env) key \<noteq> None"
  by (auto simp: log_keys_def list_keys_mem)

lemma latest_of_log:
  assumes "log_is env dir s es"
  shows "latest_committed_event_id env dir s = (if es = [] then None else Some (ev_id (last es)))"
proof -
  have ut: "uuid_text_ok (le_text env)" using assms by (simp add: log_is_def log_ok_def)
  have obj: "\<exists>x. store_get s k = Some x \<and> object_ok env dir k x \<and> object_events x \<noteq> [] \<and>
      event_id_from_key (le_text env) k = Some (ev_id (last (object_at s k))) \<and> object_at s k = object_events x"
    if "k \<in> set (log_keys env dir s)" for k
    using assms that object_ok_id [OF ut] by (fastforce simp: log_is_def log_ok_def object_at_def)
  let ?ids = "List.map_filter (event_id_from_key (le_text env)) (list_keys (events_dir dir) s)"
  have ids: "set ?ids = (\<lambda>k. ev_id (last (object_at s k))) ` set (log_keys env dir s)"
  proof -
    have "set ?ids = (\<lambda>k. the (event_id_from_key (le_text env) k)) ` set (log_keys env dir s)"
      by (force simp: List.map_filter_def log_keys_def)
    also have "\<dots> = (\<lambda>k. ev_id (last (object_at s k))) ` set (log_keys env dir s)"
      by (intro image_cong) (use obj in fastforce)+
    finally show ?thesis .
  qed
  have mem: "set es = (\<Union>key \<in> set (log_keys env dir s). set (object_at s key))" using assms by (simp add: log_is_def)
  show ?thesis
  proof (cases "es = []")
    case True
    then have "log_keys env dir s = []"
      using mem obj by (cases "log_keys env dir s") fastforce+
    then have "?ids = []" using ids by simp
    then show ?thesis using True by (simp add: latest_committed_event_id_def latest_event_id_from_keys_def max_option_None)
  next
    case False
    have in_es: "last (object_at s k) \<in> set es" if "k \<in> set (log_keys env dir s)" for k
      using obj [OF that] mem that by (metis UN_I last_in_set)
    have upper: "ev_id e \<le> ev_id (last es)" if "e \<in> set es" for e
      using sorted_wrt_last [of ev_id es e] assms that by (simp add: log_is_def)
    obtain k where k: "k \<in> set (log_keys env dir s)" "last es \<in> set (object_at s k)"
      using mem last_in_set [OF False] by auto
    have "ev_id (last es) \<le> ev_id (last (object_at s k))"
    proof -
      obtain x where "object_ok env dir k x" "object_at s k = object_events x" using obj [OF k(1)] by blast
      then have "sorted_wrt (\<lambda>a b. ev_id a < ev_id b) (object_at s k)"
        by (auto simp: object_ok_def object_events_def sorted_wrt_map split: stored_object.splits)
      from sorted_wrt_last [OF this k(2)] show ?thesis .
    qed
    then have "ev_id (last es) = ev_id (last (object_at s k))" using upper in_es [OF k(1)] by (simp add: order_antisym)
    then have "max_option ?ids = Some (ev_id (last es))"
      unfolding max_option_Some ids using k(1) upper in_es by auto
    then show ?thesis using False by (simp add: latest_committed_event_id_def latest_event_id_from_keys_def)
  qed
qed

lemma log_append_object:
  assumes log: "log_is env dir s es" and x: "object_ok env dir key x"
    and newer: "\<And>e e'. e \<in> set es \<Longrightarrow> e' \<in> set (object_events x) \<Longrightarrow> ev_id e < ev_id e'"
  shows "log_is env dir (store_put key x s) (es @ object_events x)"
proof -
  have ut: "uuid_text_ok (le_text env)" and ok: "log_ok env dir s" using log by (simp_all add: log_is_def log_ok_def)
  have mem: "set es = (\<Union>key \<in> set (log_keys env dir s). set (object_at s key))" using log by (simp add: log_is_def)
  note kx = object_ok_id [OF ut x]
  have fresh: "key \<notin> set (log_keys env dir s)"
  proof
    assume k: "key \<in> set (log_keys env dir s)"
    then obtain y where y: "store_get s key = Some y" "object_ok env dir key y" using ok by (auto simp: log_ok_def)
    then have "ev_id (last (object_events y)) = ev_id (last (object_events x))" and "object_events y \<noteq> []"
      using object_ok_id [OF ut y(2)] kx by auto
    moreover have "last (object_events y) \<in> set es"
    proof -
      have "last (object_events y) \<in> set (object_at s key)" using y(1) calculation(2) by (simp add: object_at_def)
      then show ?thesis using mem k by blast
    qed
    ultimately show False using newer kx by (metis last_in_set less_irrefl)
  qed
  let ?s' = "store_put key x s"
  have keys: "set (log_keys env dir ?s') = insert key (set (log_keys env dir s))"
    using kx by (auto simp: log_keys_mem split: if_splits)
  have at: "object_at ?s' k = (if k = key then object_events x else object_at s k)" for k
    by (simp add: object_at_def)
  have old: "ev_id ` set (object_at s k) \<inter> ev_id ` set (object_events x) = {}" if "k \<in> set (log_keys env dir s)" for k
    using newer mem that by (fastforce simp: disjoint_iff)
  have "log_ok env dir ?s'"
    using ok x ut fresh old unfolding log_ok_def keys
    by (auto simp: at distinct_store_put disjoint_iff)
  moreover have "sorted_wrt (\<lambda>a b. ev_id a < ev_id b) (es @ object_events x)"
    using log x newer unfolding sorted_wrt_append
    by (auto simp: log_is_def object_ok_def object_events_def sorted_wrt_map split: stored_object.splits)
  moreover have "set (es @ object_events x) = (\<Union>k \<in> set (log_keys env dir ?s'). set (object_at ?s' k))"
    unfolding keys using mem fresh by (auto simp: at split: if_splits)
  ultimately show ?thesis by (simp add: log_is_def)
qed

section \<open>Appending to a well-formed log\<close>

lemma notify_frame [simp]:
  "lw_store (notify_subscribers c e w) = lw_store w" "lw_calls (notify_subscribers c e w) = lw_calls w"
  "lw_index (notify_subscribers c e w) = lw_index w"
  by (simp_all add: notify_subscribers_def)

lemma fold_notify_frame [simp]:
  "lw_store (fold (notify_subscribers c) es w) = lw_store w" "lw_calls (fold (notify_subscribers c) es w) = lw_calls w"
  "lw_index (fold (notify_subscribers c) es w) = lw_index w"
  by (induction es arbitrary: w) simp_all

lemma build_events_run:
  "build_events env c ses turn data w = (Inr es, w') \<Longrightarrow>
     w' = w\<lparr>lw_calls := lw_calls w + length data\<rparr> \<and> map ev_data es = data \<and>
     map ev_id es = map (\<lambda>i. le_now env (lw_calls w + i)) [0..<length data] \<and>
     (\<forall>e \<in> set es. ev_thread_id e = c \<and> ev_session_id e = ses \<and> ev_turn_id e = turn \<and>
        le_timestamp env (ev_id e) = Some (ev_created_at e))"
proof (induction data arbitrary: w es)
  case Nil
  then show ?case by (simp add: io_return_def)
next
  case (Cons d ds)
  let ?i = "le_now env (lw_calls w)"
  obtain t es1 where e: "timestamp_of env ?i = Inr t"
    "build_events env c ses turn ds (w\<lparr>lw_calls := Suc (lw_calls w)\<rparr>) = (Inr es1, w')"
    "es = \<lparr> ev_id = ?i, ev_thread_id = c, ev_session_id = ses, ev_turn_id = turn, ev_created_at = t, ev_data = d \<rparr> # es1"
    using Cons.prems by (auto simp: io_bind_Inr_iff uuid_now_def io_lift_def io_return_def)
  have "map (\<lambda>i. le_now env (Suc (lw_calls w) + i)) [0..<length ds] =
      map (\<lambda>i. le_now env (lw_calls w + i)) (map Suc [0..<length ds])"
    by simp
  moreover have "[0..<Suc (length ds)] = 0 # map Suc [0..<length ds]" by (simp add: upt_conv_Cons map_Suc_upt del: upt_Suc)
  ultimately show ?case
    using Cons.IH [OF e(2)] e(1,3) by (auto simp: timestamp_of_def split: option.splits)
qed

text \<open>The batch written for a non-empty list of events.\<close>

definition batch_object :: "log_env \<Rightarrow> string \<Rightarrow> 'p event list \<Rightarrow> string \<times> 'p stored_object" where
  "batch_object env dir es =
     (if length es = 1 then (event_path (le_text env) dir (ev_id (last es)), Stored_Event (hd es))
      else (event_batch_path (le_text env) dir (ev_id (hd es)) (ev_id (last es)), Stored_Batch es))"

lemma append_run:
  assumes "append_events_to_conversation env dir c ses turn expected data record w = (Inr (added, record'), w')"
  obtains es where "data \<noteq> []"
    "expected \<noteq> None \<longrightarrow> cr_latest_event_id record = expected"
    "map ev_data es = data" "map ev_id es = map (\<lambda>i. le_now env (lw_calls w + i)) [0..<length data]"
    "\<forall>e \<in> set es. ev_thread_id e = c \<and> ev_session_id e = ses \<and> ev_turn_id e = turn \<and>
       le_timestamp env (ev_id e) = Some (ev_created_at e)"
    "lw_store w' = store_put (fst (batch_object env dir es)) (snd (batch_object env dir es)) (lw_store w)"
    "lw_calls w' = Suc (lw_calls w + length data)" "lw_index w' = lw_index w"
    "lw_subscribers w' = lw_subscribers (fold (notify_subscribers c) es w)"
    "added = \<lparr> ae_event_ids = map ev_id es, ae_latest_event_id = ev_id (last es) \<rparr>"
    "record' = record\<lparr>cr_latest_event_id := Some (ev_id (last es))\<rparr>"
proof -
  obtain es w1 u w2 where
    s1: "data \<noteq> []" "expected \<noteq> None \<longrightarrow> cr_latest_event_id record = expected"
      "build_events env c ses turn data w = (Inr es, w1)" "commit_events env dir es w1 = (Inr u, w2)"
      "w' = fold (notify_subscribers c) es w2"
      "added = \<lparr> ae_event_ids = map ev_id es, ae_latest_event_id = ev_id (last es) \<rparr>"
      "record' = record\<lparr>cr_latest_event_id := Some (ev_id (last es))\<rparr>"
    using assms unfolding append_events_to_conversation_def
    by (auto simp: io_bind_Inr_iff io_lift_def ensure_Inr_iff io_modify_def io_return_def ensure_conversation_head_def
        split: option.splits if_splits)
  note b = build_events_run [OF s1(3)]
  have w2: "w2 = w1\<lparr>lw_calls := Suc (lw_calls w1),
      lw_store := store_put (fst (batch_object env dir es)) (snd (batch_object env dir es)) (lw_store w1)\<rparr>"
    using s1(4) by (auto simp: commit_events_def put_object_def batch_object_def split: sum.splits if_splits)
  have subs: "lw_subscribers (fold (notify_subscribers c) xs v) = lw_subscribers (fold (notify_subscribers c) xs v')"
    if "lw_subscribers v = lw_subscribers v'" for xs and v v' :: "'a log_world"
    using that by (induction xs arbitrary: v v') (simp_all add: notify_subscribers_def)
  show thesis
    by (rule that [OF s1(1,2)]) (use b w2 s1(5-) subs [of w2 w es] in simp_all)
qed

lemma batch_object_ok:
  assumes "es \<noteq> []" and "sorted_wrt (<) (map ev_id es)"
  shows "object_ok env dir (fst (batch_object env dir es)) (snd (batch_object env dir es)) \<and>
    object_events (snd (batch_object env dir es)) = es"
  using assms by (cases es rule: remdups_adj.cases)
    (auto simp: batch_object_def object_ok_def object_events_def Suc_le_eq)

text \<open>The identifiers of the next \<open>n\<close> environment calls increase and are newer than the log.\<close>

definition ids_fresh :: "log_env \<Rightarrow> nat \<Rightarrow> 'p log_world \<Rightarrow> 'p event list \<Rightarrow> bool" where
  "ids_fresh env n w es \<longleftrightarrow>
     (\<forall>j < lw_calls w + n. \<forall>i < j. lw_calls w \<le> i \<longrightarrow> le_now env i < le_now env j) \<and>
     (\<forall>e \<in> set es. 0 < n \<longrightarrow> ev_id e < le_now env (lw_calls w))"

lemma ids_fresh_sorted:
  assumes "ids_fresh env n w es" and "m \<le> n"
  shows "sorted_wrt (<) (map (\<lambda>i. le_now env (lw_calls w + i)) [0..<m])"
  using assms by (auto simp: ids_fresh_def sorted_wrt_iff_nth_less)

lemma ids_fresh_newer:
  assumes "ids_fresh env n w es" and "e \<in> set es" and "i < n"
  shows "ev_id e < le_now env (lw_calls w + i)"
proof -
  have "ev_id e < le_now env (lw_calls w)" using assms by (auto simp: ids_fresh_def)
  moreover have "le_now env (lw_calls w) \<le> le_now env (lw_calls w + i)"
    using assms(1,3) by (cases i) (auto simp: ids_fresh_def less_imp_le)
  ultimately show ?thesis by simp
qed

text \<open>One environment call later.\<close>

lemma ids_fresh_shift:
  assumes "ids_fresh env n w es" and "m < n"
  shows "ids_fresh env m (w\<lparr>lw_calls := Suc (lw_calls w)\<rparr>) es"
proof -
  have "le_now env i < le_now env j" if "j < Suc (lw_calls w) + m" "i < j" "Suc (lw_calls w) \<le> i" for i j
  proof -
    have "j < lw_calls w + n" "lw_calls w \<le> i" using that assms(2) by auto
    then show ?thesis using assms(1) that(2) by (simp add: ids_fresh_def)
  qed
  moreover have "ev_id e < le_now env (Suc (lw_calls w))" if "e \<in> set es" "0 < m" for e
    using ids_fresh_newer [OF assms(1) that(1), of 1] assms(2) that(2) by simp
  ultimately show ?thesis by (simp add: ids_fresh_def)
qed

text \<open>What an append does to a well-formed log, shared by every operation that appends.\<close>

lemma append_extends_log:
  assumes run: "append_events_to_conversation env dir c ses turn expected data record w = (Inr (added, record'), w')"
    and log: "log_is env dir (lw_store w) es" and fresh: "ids_fresh env n w es" and n: "length data \<le> n"
  shows "\<exists>new. log_is env dir (lw_store w') (es @ new) \<and> ids_fresh env (n - Suc (length data)) w' (es @ new) \<and> new \<noteq> [] \<and>
    map ev_data new = data \<and> (\<forall>e \<in> set new. ev_thread_id e = c \<and> ev_session_id e = ses \<and> ev_turn_id e = turn \<and>
       le_timestamp env (ev_id e) = Some (ev_created_at e)) \<and>
    ae_event_ids added = map ev_id new \<and> ae_latest_event_id added = ev_id (last new) \<and>
    latest_committed_event_id env dir (lw_store w') = Some (ae_latest_event_id added) \<and>
    cr_latest_event_id record' = Some (ae_latest_event_id added) \<and>
    lw_subscribers w' = lw_subscribers (fold (notify_subscribers c) new w)"
proof -
  obtain new where new: "data \<noteq> []" "map ev_data new = data"
    "map ev_id new = map (\<lambda>i. le_now env (lw_calls w + i)) [0..<length data]"
    "\<forall>e \<in> set new. ev_thread_id e = c \<and> ev_session_id e = ses \<and> ev_turn_id e = turn \<and>
       le_timestamp env (ev_id e) = Some (ev_created_at e)"
    "lw_store w' = store_put (fst (batch_object env dir new)) (snd (batch_object env dir new)) (lw_store w)"
    "lw_calls w' = Suc (lw_calls w + length data)"
    "added = \<lparr> ae_event_ids = map ev_id new, ae_latest_event_id = ev_id (last new) \<rparr>"
    "record' = record\<lparr>cr_latest_event_id := Some (ev_id (last new))\<rparr>"
    "lw_subscribers w' = lw_subscribers (fold (notify_subscribers c) new w)"
    by (rule append_run [OF run])
  have ne: "new \<noteq> []" using new(1,2) by auto
  have ids: "\<exists>i < length data. ev_id e = le_now env (lw_calls w + i)" if "e \<in> set new" for e
  proof -
    have "ev_id e \<in> set (map ev_id new)" using that by simp
    then show ?thesis unfolding new(3) by auto
  qed
  have "sorted_wrt (<) (map ev_id new)" unfolding new(3) by (rule ids_fresh_sorted [OF fresh n])
  from batch_object_ok [OF ne this]
  have obj: "object_ok env dir (fst (batch_object env dir new)) (snd (batch_object env dir new))"
    "object_events (snd (batch_object env dir new)) = new" by blast+
  have newer: "ev_id e < ev_id e'" if e: "e \<in> set es" and e': "e' \<in> set new" for e e'
  proof -
    obtain i where "i < length data" "ev_id e' = le_now env (lw_calls w + i)" using ids [OF e'] by blast
    then show ?thesis using ids_fresh_newer [OF fresh e] n by simp
  qed
  have log': "log_is env dir (lw_store w') (es @ new)"
    using log_append_object [OF log obj(1)] newer obj(2) by (simp add: new(5))
  have bound: "ev_id e < le_now env (lw_calls w')" if "e \<in> set (es @ new)" "Suc (length data) < n" for e
  proof (cases "e \<in> set new")
    case True
    then obtain i where "i < length data" "ev_id e = le_now env (lw_calls w + i)" using ids by blast
    then show ?thesis using fresh new(6) that(2) by (auto simp: ids_fresh_def)
  next
    case False
    then have "e \<in> set es" using that(1) by simp
    from ids_fresh_newer [OF fresh this that(2)] show ?thesis using new(6) by simp
  qed
  then have "ids_fresh env (n - Suc (length data)) w' (es @ new)"
    using fresh new(6) by (simp add: ids_fresh_def)
  moreover have "latest_committed_event_id env dir (lw_store w') = Some (ev_id (last new))"
    using latest_of_log [OF log'] ne by simp
  ultimately show ?thesis using log' ne new by auto
qed

lemma head_of_own_record: "(case x of None \<Rightarrow> Inr () | Some (_ :: uuid) \<Rightarrow> ensure_conversation_head env x x ses turn) = Inr ()"
  by (simp add: ensure_conversation_head_def split: option.splits)

lemmas sample_run_simps =
  append_events_to_conversation_def io_bind_def io_lift_def turn_opening_def head_of_own_record io_read_def io_modify_def
  io_return_def load_conversation_record_def decode_record_def uuid_now_def timestamp_of_def commit_events_def put_object_def
  remember_appended_batch_def

section \<open>A sample log\<close>

text \<open>One single event and one batch of two, under a generator that counts.\<close>

definition sample_env :: log_env where
  "sample_env = \<lparr> le_text = decimal_text, le_now = (\<lambda>n. of_nat (100 + n)), le_timestamp = (\<lambda>u. Some (uint u)),
     le_rfc3339 = (\<lambda>t. ''t''), le_check = (\<lambda>_. Inr ()), le_claim = (\<lambda>_. Inr ()), le_claim_local = (\<lambda>_. Inr ()),
     le_check_fork = (\<lambda>_. Inr ()), le_agent_change = Inr (), le_put = (\<lambda>_ _. Inr ()) \<rparr>"

definition sample_event :: "uuid \<Rightarrow> unit event_data \<Rightarrow> unit event" where
  "sample_event i d = \<lparr> ev_id = i, ev_thread_id = 1, ev_session_id = Some 2, ev_turn_id = None, ev_created_at = uint i, ev_data = d \<rparr>"

definition sample_record :: conversation_record where
  "sample_record = \<lparr> cr_environment = None, cr_id = 1, cr_slug = ''main'', cr_name = ''main'', cr_latest_event_id = None, cr_vaults = [] \<rparr>"

definition sample_handle :: conversation_handle where
  "sample_handle = \<lparr> ch_agent_dir = ''a'', ch_dir = ''c'', ch_record = sample_record, ch_index_ref = 0 \<rparr>"

definition sample_events :: "unit event list" where
  "sample_events = [sample_event 7 SessionStarted, sample_event 8 TurnEnded, sample_event 9 SessionEnded]"

definition sample_log :: "unit stored_object store" where
  "sample_log =
     store_put (event_batch_path decimal_text ''c'' 8 9) (Stored_Batch [sample_event 8 TurnEnded, sample_event 9 SessionEnded])
       (store_put (event_path decimal_text ''c'' 7) (Stored_Event (sample_event 7 SessionStarted))
         [(''c/record.json'', Stored_Record sample_record)])"

definition sample_world :: "unit log_world" where
  "sample_world = \<lparr> lw_store = sample_log, lw_subscribers = (\<lambda>_. []), lw_index = (\<lambda>_. None), lw_calls = 0 \<rparr>"

lemma sample_env_simps [simp]:
  "le_text sample_env = decimal_text" "le_now sample_env n = of_nat (100 + n)" "le_timestamp sample_env u = Some (uint u)"
  "le_check sample_env u = Inr ()" "le_claim sample_env u = Inr ()" "le_claim_local sample_env u = Inr ()"
  "le_check_fork sample_env u = Inr ()" "le_agent_change sample_env = Inr ()" "le_put sample_env n k = Inr ()"
  by (simp_all add: sample_env_def)

lemma sample_simps [simp]:
  "ch_dir sample_handle = ''c''" "ch_record sample_handle = sample_record" "ch_index_ref sample_handle = 0"
  "cr_id sample_record = 1" "ev_id (sample_event i d) = i" "ev_data (sample_event i d) = d"
  "lw_store sample_world = sample_log" "lw_calls sample_world = 0" "lw_index sample_world r = None"
  by (simp_all add: sample_handle_def sample_record_def sample_event_def sample_world_def)

lemma sample_log_is: "log_is sample_env ''c'' sample_log sample_events"
proof -
  have "log_is sample_env ''c'' [(''c/record.json'', Stored_Record sample_record)] ([] :: unit event list)"
    by (simp add: log_is_def log_ok_def log_keys_def decimal_text_ok list_keys_def below_def events_dir_def starts_with_def)
  from log_append_object [OF this, of "event_path decimal_text ''c'' 7" "Stored_Event (sample_event 7 SessionStarted)"]
  have one: "log_is sample_env ''c'' (store_put (event_path decimal_text ''c'' 7) (Stored_Event (sample_event 7 SessionStarted))
      [(''c/record.json'', Stored_Record sample_record)]) [sample_event 7 SessionStarted]"
    by (simp add: object_ok_def object_events_def)
  let ?batch = "Stored_Batch [sample_event 8 TurnEnded, sample_event 9 SessionEnded]"
  have "object_ok sample_env ''c'' (event_batch_path decimal_text ''c'' 8 9) ?batch" by (simp add: object_ok_def)
  moreover have "ev_id e < ev_id e'" if "e \<in> set [sample_event 7 SessionStarted]" "e' \<in> set (object_events ?batch)" for e e'
    using that by (auto simp: object_events_def)
  ultimately have "log_is sample_env ''c'' sample_log ([sample_event 7 SessionStarted] @ object_events ?batch)"
    unfolding sample_log_def by (rule log_append_object [OF one])
  then show ?thesis by (simp add: sample_events_def object_events_def)
qed

lemma sample_record_get: "store_get sample_log (record_path ''c'') = Some (Stored_Record sample_record)"
proof -
  have "record_path ''c'' \<noteq> event_path decimal_text ''c'' u" "record_path ''c'' \<noteq> event_batch_path decimal_text ''c'' u v" for u v
    by (simp_all add: record_path_def event_path_def event_batch_path_def)
  then show ?thesis by (simp add: sample_log_def) (simp add: store_get_def record_path_def)
qed

lemma sample_fresh: "n \<le> 1000 \<Longrightarrow> ids_fresh sample_env n sample_world sample_events"
proof -
  assume n: "n \<le> 1000"
  have "le_now sample_env i < le_now sample_env j" if "i < j" "j < n" for i j
    using that n by (simp add: word_less_nat_alt unsigned_of_nat take_bit_nat_eq_self del: of_nat_add)
  then show ?thesis by (simp add: ids_fresh_def sample_events_def del: sample_env_simps(2)) simp
qed

lemmas sample_log_facts =
  sample_log_is load_events_log [OF sample_log_is] sample_log_is [unfolded log_is_def, THEN conjunct1] sample_record_get

text \<open>C22: a successful append extends the log by exactly the submitted events, in order, at the end,
  under the given thread, session and turn; the identifiers returned are theirs, and the log's head becomes
  the last of them. The identifiers the generator hands out must be increasing and newer than the log.\<close>

theorem append_extends_the_log:
  assumes "add_events env h ses turn data w = (Inr added, w')"
    and "load_events env (ch_dir h) (lw_store w) = Inr es"
    and "log_ok env (ch_dir h) (lw_store w)" and "ids_fresh env (length data) w es"
  shows "\<exists>new. load_events env (ch_dir h) (lw_store w') = Inr (es @ new) \<and> log_ok env (ch_dir h) (lw_store w') \<and>
    map ev_data new = data \<and> map ev_id new = ae_event_ids added \<and>
    (\<forall>e \<in> set new. ev_thread_id e = cr_id (ch_record h) \<and> ev_session_id e = ses \<and> ev_turn_id e = turn) \<and>
    latest_committed_event_id env (ch_dir h) (lw_store w') = Some (ae_latest_event_id added) \<and>
    ae_latest_event_id added = last (ae_event_ids added)"
proof -
  have log: "log_is env (ch_dir h) (lw_store w) es" using load_events_ok [OF assms(3)] assms(2) by auto
  obtain r r' w1 where "append_events_to_conversation env (ch_dir h) (cr_id (ch_record h)) ses turn None data r w
      = (Inr (added, r'), w1)" "w' = remember_appended_batch env (ch_index_ref h) (ch_dir h) added w1"
    using assms(1) unfolding add_events_def append_events_internal_def
    by (auto simp: io_bind_Inr_iff io_lift_def io_read_def io_modify_def io_return_def)
  moreover have "lw_store (remember_appended_batch env (ch_index_ref h) (ch_dir h) added w1) = lw_store w1"
    by (simp add: remember_appended_batch_def Let_def)
  ultimately obtain new where "log_is env (ch_dir h) (lw_store w') (es @ new)" "new \<noteq> []" "map ev_data new = data"
    "\<forall>e \<in> set new. ev_thread_id e = cr_id (ch_record h) \<and> ev_session_id e = ses \<and> ev_turn_id e = turn"
    "ae_event_ids added = map ev_id new" "ae_latest_event_id added = ev_id (last new)"
    "latest_committed_event_id env (ch_dir h) (lw_store w') = Some (ae_latest_event_id added)"
    using append_extends_log [OF _ log assms(4)] by (metis order_refl)
  then show ?thesis
    by (intro exI [of _ new]) (auto simp: load_events_log log_is_def last_map)
qed

theorem append_extends_the_log_witness:
  "\<exists>added w' new. add_events sample_env sample_handle None None [SessionStarted, TurnEnded] sample_world = (Inr added, w') \<and>
     load_events sample_env ''c'' (lw_store w') = Inr (sample_events @ new) \<and> map ev_data new = [SessionStarted, TurnEnded]"
proof -
  have "\<exists>added w'. add_events sample_env sample_handle None None [SessionStarted, TurnEnded] sample_world = (Inr added, w')"
    by (simp add: add_events_def append_events_internal_def append_events_to_conversation_def io_bind_def io_lift_def
        io_read_def io_modify_def io_return_def load_conversation_record_def sample_record_get decode_record_def
        uuid_now_def timestamp_of_def commit_events_def put_object_def)
  then obtain added w' where
    run: "add_events sample_env sample_handle None None [SessionStarted, TurnEnded] sample_world = (Inr added, w')" by blast
  have "ids_fresh sample_env 2 sample_world sample_events" by (rule sample_fresh) simp
  then obtain new where "load_events sample_env ''c'' (lw_store w') = Inr (sample_events @ new)"
    "map ev_data new = [SessionStarted, TurnEnded]"
    using append_extends_the_log [OF run, of sample_events] sample_log_facts by (auto simp: numeral_2_eq_2)
  with run show ?thesis by (intro exI conjI)
qed

text \<open>an append that fails changes nothing: not the stored objects, not what subscribers received.
  An append whose expected head is not the log's head fails.\<close>

theorem failed_append_changes_nothing:
  assumes "append_events_to_conversation env dir c ses turn expected data record w = (Inl e, w')"
  shows "lw_store w' = lw_store w \<and> lw_subscribers w' = lw_subscribers w \<and> lw_index w' = lw_index w \<and>
    (expected \<noteq> None \<longrightarrow> expected \<noteq> cr_latest_event_id record \<longrightarrow>
       (\<forall>v. \<exists>e v'. append_events_to_conversation env dir c ses turn expected data record v = (Inl e, v')))"
proof -
  have build: "lw_store v' = lw_store v \<and> lw_subscribers v' = lw_subscribers v \<and> lw_index v' = lw_index v"
    if "build_events env c ses turn ds v = (r, v')" for ds r and v v' :: "'a log_world"
    using that
  proof (induction ds arbitrary: v r v')
    case (Cons d ds)
    obtain r1 v1 where r1: "build_events env c ses turn ds (v\<lparr>lw_calls := Suc (lw_calls v)\<rparr>) = (r1, v1)" by fastforce
    have "v' = v\<lparr>lw_calls := Suc (lw_calls v)\<rparr> \<or> v' = v1"
      using Cons.prems r1
      by (auto simp: io_bind_def uuid_now_def io_lift_def io_return_def split: sum.splits prod.splits)
    then show ?case using Cons.IH [OF r1] by auto
  qed (simp add: io_return_def)
  obtain r v where b: "build_events env c ses turn data w = (r, v)" by fastforce
  have commit: "lw_store v' = lw_store v \<and> lw_subscribers v' = lw_subscribers v \<and> lw_index v' = lw_index v"
    if "commit_events env dir es v = (Inl x, v')" for es x v'
    using that by (auto simp: commit_events_def put_object_def split: sum.splits if_splits)
  have "w' = w \<or> w' = v \<or> (\<exists>es x. commit_events env dir es v = (Inl x, w'))"
    using assms b unfolding append_events_to_conversation_def
    by (auto simp: io_bind_def io_lift_def io_modify_def io_return_def split: sum.splits prod.splits)
  then have "lw_store w' = lw_store w \<and> lw_subscribers w' = lw_subscribers w \<and> lw_index w' = lw_index w"
    using build [OF b] commit by metis
  moreover have "\<exists>e v'. append_events_to_conversation env dir c ses turn expected data record v = (Inl e, v')"
    if "expected \<noteq> None" "expected \<noteq> cr_latest_event_id record" for v
    using that unfolding append_events_to_conversation_def
    by (auto simp: io_bind_def io_lift_def ensure_def ensure_conversation_head_def)
  ultimately show ?thesis by blast
qed

theorem failed_append_changes_nothing_witness:
  "\<exists>e w'. append_events_to_conversation sample_env ''c'' 1 None None (Some 5) [SessionStarted] sample_record sample_world = (Inl e, w') \<and>
     lw_store w' = sample_log"
proof -
  obtain e w' where run: "append_events_to_conversation sample_env ''c'' 1 None None (Some 5) [SessionStarted] sample_record
      sample_world = (Inl e, w')"
    by (simp add: append_events_to_conversation_def io_bind_def io_lift_def ensure_conversation_head_def sample_record_def
        ensure_def)
  show ?thesis using failed_append_changes_nothing [OF run] run by simp
qed

section \<open>Looking events up\<close>

lemma log_object:
  assumes "log_ok env dir s" and "k \<in> set (log_keys env dir s)"
  shows "\<exists>x. store_get s k = Some x \<and> object_ok env dir k x"
proof -
  have "\<forall>key \<in> set (log_keys env dir s). \<exists>x. store_get s key = Some x \<and> object_ok env dir key x"
    using assms(1) unfolding log_ok_def by (elim conjE)
  then show ?thesis using assms(2) by (rule bspec)
qed

lemma read_batches:
  assumes ok: "log_ok env dir s" and keys: "\<forall>k \<in> set keys. k \<in> set (log_keys env dir s) \<and> is_event_batch_key k"
  shows "\<exists>r. read_event_from_batches s keys eid = Inr r \<and>
    (\<forall>e. r = Some e \<longrightarrow> (\<exists>k \<in> set keys. e \<in> set (object_at s k)) \<and> ev_id e = eid) \<and>
    (r = None \<longrightarrow> (\<forall>k \<in> set keys. \<forall>e \<in> set (object_at s k). ev_id e \<noteq> eid))"
  using keys
proof (induction keys)
  case (Cons k keys)
  have ut: "uuid_text_ok (le_text env)" using ok by (simp add: log_ok_def)
  obtain x where x: "store_get s k = Some x" "object_ok env dir k x"
    using ok Cons.prems by (auto simp: log_ok_def)
  have "is_event_batch_key k" using Cons.prems by simp
  with x(2) batch_key_of_paths(1) [OF ut] obtain es where es: "x = Stored_Batch es"
    by (auto simp: object_ok_def split: stored_object.splits)
  have at: "object_at s k = es" using x es by (simp add: object_at_def object_events_def)
  obtain r where IH: "read_event_from_batches s keys eid = Inr r"
    "\<forall>e. r = Some e \<longrightarrow> (\<exists>k \<in> set keys. e \<in> set (object_at s k)) \<and> ev_id e = eid"
    "r = None \<longrightarrow> (\<forall>k \<in> set keys. \<forall>e \<in> set (object_at s k). ev_id e \<noteq> eid)"
    using Cons by auto
  show ?case
  proof (cases "List.find (\<lambda>e. ev_id e = eid) es")
    case None
    then have "\<forall>e \<in> set es. ev_id e \<noteq> eid" by (simp add: find_None_iff_ball)
    with IH None show ?thesis by (auto simp: x(1) es decode_batch_def at)
  next
    case (Some e)
    then show ?thesis using find_in_set [OF Some] by (auto simp: x(1) es decode_batch_def at)
  qed
qed simp

lemma find_by_id:
  assumes "sorted_wrt (\<lambda>a b. ev_id a < ev_id b) es"
  shows "e \<in> set es \<Longrightarrow> ev_id e = eid \<Longrightarrow> List.find (\<lambda>e. ev_id e = eid) es = Some e"
    and "\<forall>e \<in> set es. ev_id e \<noteq> eid \<Longrightarrow> List.find (\<lambda>e. ev_id e = eid) es = None"
  using assms by (induction es) (auto simp: find_None_iff_ball)

definition cache_ok :: "log_env \<Rightarrow> string \<Rightarrow> 'p stored_object store \<Rightarrow> event_batch_index option \<Rightarrow> bool" where
  "cache_ok env dir s cached \<longleftrightarrow>
     (\<forall>index. cached = Some index \<longrightarrow> index_ok index \<and>
        (\<forall>b \<in> set index. ib_key b \<in> set (log_keys env dir s) \<and> is_event_batch_key (ib_key b)))"

lemma cached_keys: "index_ok index \<Longrightarrow> k \<in> set (keys_containing index eid) \<Longrightarrow> \<exists>b \<in> set index. k = ib_key b"
  by (auto simp: keys_containing_spec)

lemma cache_keys_ok:
  assumes "cache_ok env dir s (Some index)" and "k \<in> set (keys_containing index eid)"
  shows "k \<in> set (log_keys env dir s) \<and> is_event_batch_key k"
proof -
  have index: "index_ok index"
    "\<forall>b \<in> set index. ib_key b \<in> set (log_keys env dir s) \<and> is_event_batch_key (ib_key b)"
    using assms(1) by (simp_all add: cache_ok_def)
  obtain b where "b \<in> set index" "k = ib_key b" using cached_keys [OF index(1) assms(2)] by blast
  then show ?thesis using index(2) by blast
qed

lemma batch_range_key:
  assumes ok: "log_ok env dir s" and k: "k \<in> set (list_keys (events_dir dir) s)"
    and range: "event_batch_range_from_key (le_text env) k = Some (f, l)"
  shows "k \<in> set (log_keys env dir s) \<and> is_event_batch_key k"
proof -
  have ut: "uuid_text_ok (le_text env)" using ok by (simp add: log_ok_def)
  have lk: "k \<in> set (log_keys env dir s)" using k range by (simp add: log_keys_def event_id_from_key_def)
  obtain x where "store_get s k = Some x" "object_ok env dir k x" using log_object [OF ok lk] by blast
  then have "is_event_batch_key k"
    using range batch_range_of_event_path [OF ut] batch_key_of_paths [OF ut]
    by (auto simp: object_ok_def split: stored_object.splits)
  with lk show ?thesis by blast
qed

lemma fresh_index_cache_ok:
  assumes "log_ok env dir s"
  shows "cache_ok env dir s (Some (index_from_keys (le_text env) (list_keys (events_dir dir) s)))"
proof -
  let ?ks = "list_keys (events_dir dir) s"
  have "ib_key b \<in> set (log_keys env dir s) \<and> is_event_batch_key (ib_key b)"
    if "b \<in> set (index_from_keys (le_text env) ?ks)" for b
  proof -
    have "(ib_first b, ib_last b, ib_key b) \<in> batch_entry ` set (index_from_keys (le_text env) ?ks)"
      using that by (force simp: batch_entry_def)
    then show ?thesis using index_from_keys_entries batch_range_key [OF assms] by blast
  qed
  then show ?thesis by (simp add: cache_ok_def index_from_keys_ok)
qed

text \<open>An event that is in no scanned batch and has no object of its own is not in the log.\<close>

lemma missing_after_scan:
  assumes ok: "log_ok env dir s" and absent: "store_get s (event_path (le_text env) dir eid) = None"
    and scanned: "\<And>k e. k \<in> set (keys_containing (index_from_keys (le_text env) (list_keys (events_dir dir) s)) eid) \<Longrightarrow>
      e \<in> set (object_at s k) \<Longrightarrow> ev_id e \<noteq> eid"
    and k: "k \<in> set (log_keys env dir s)" "e \<in> set (object_at s k)"
  shows "ev_id e \<noteq> eid"
proof
  assume id: "ev_id e = eid"
  have ut: "uuid_text_ok (le_text env)" using ok by (simp add: log_ok_def)
  obtain x where x: "store_get s k = Some x" "object_ok env dir k x" using log_object [OF ok k(1)] by blast
  show False
  proof (cases "\<exists>b. x = Stored_Batch b")
    case True
    then obtain b where b: "x = Stored_Batch b" by blast
    then have bs: "sorted_wrt (\<lambda>a b. ev_id a < ev_id b) b" "k = event_batch_path (le_text env) dir (ev_id (hd b)) (ev_id (last b))" "e \<in> set b"
      using x k(2) by (simp_all add: object_ok_def object_at_def object_events_def sorted_wrt_map)
    have "ev_id (hd b) \<le> eid" "eid \<le> ev_id (last b)"
      using bs(1,3) sorted_wrt_last [OF bs(1,3)] id by (cases b; auto simp: less_imp_le)+
    moreover have "k \<in> set (list_keys (events_dir dir) s)" using k(1) by (simp add: log_keys_def)
    ultimately show False
      using scanned [OF keys_containing_listed k(2)] batch_range_of_path [OF ut] bs(2) id by auto
  next
    case False
    then obtain e' where "x = Stored_Event e'" using x(2) by (auto simp: object_ok_def split: stored_object.splits)
    then have "k = event_path (le_text env) dir eid" using x k(2) id by (simp add: object_ok_def object_at_def object_events_def)
    then show False using absent x(1) by simp
  qed
qed

lemma single_event_object:
  assumes ok: "log_ok env dir s" and x: "store_get s (event_path (le_text env) dir eid) = Some x"
  shows "\<exists>e. x = Stored_Event e \<and> ev_id e = eid \<and> (\<exists>k \<in> set (log_keys env dir s). e \<in> set (object_at s k))"
proof -
  have ut: "uuid_text_ok (le_text env)" using ok by (simp add: log_ok_def)
  have key: "event_path (le_text env) dir eid \<in> set (log_keys env dir s)"
    using x event_id_of_paths(1) [OF ut] by (auto simp: log_keys_mem below_def events_dir_def starts_with_iff event_path_def)
  have "object_ok env dir (event_path (le_text env) dir eid) x" using log_object [OF ok key] x by simp
  then obtain e where e: "x = Stored_Event e" "ev_id e = eid"
    using batch_key_of_paths [OF ut] event_id_of_paths(1) [OF ut]
    by (auto simp: object_ok_def split: stored_object.splits) (metis option.inject)+
  moreover have "e \<in> set (object_at s (event_path (le_text env) dir eid))"
    using x e by (simp add: object_at_def object_events_def)
  ultimately show ?thesis using key by blast
qed

text \<open>looking up one event agrees with the log. Whatever batches the handle has cached, as long as they
  are batches of this log, \<open>get_event\<close> returns the event of the log with that identifier, or none if there
  is none; it changes no stored object and leaves a cache that is again sound.\<close>

theorem get_event_agrees_with_log:
  assumes ok: "log_ok env (ch_dir h) (lw_store w)" and load: "load_events env (ch_dir h) (lw_store w) = Inr es"
    and cache: "cache_ok env (ch_dir h) (lw_store w) (lw_index w (ch_index_ref h))"
    and access: "le_check env (cr_id (ch_record h)) = Inr ()"
  shows "\<exists>w'. get_event env h eid w = (Inr (List.find (\<lambda>e. ev_id e = eid) es), w') \<and> lw_store w' = lw_store w \<and>
    cache_ok env (ch_dir h) (lw_store w') (lw_index w' (ch_index_ref h))"
proof -
  let ?dir = "ch_dir h" and ?s = "lw_store w" and ?ut = "le_text env"
  have ut: "uuid_text_ok ?ut" using ok by (simp add: log_ok_def)
  have log: "log_is env ?dir ?s es" using load_events_ok [OF ok] load by auto
  have sorted: "sorted_wrt (\<lambda>a b. ev_id a < ev_id b) es" and mem: "set es = (\<Union>k \<in> set (log_keys env ?dir ?s). set (object_at ?s k))"
    using log by (simp_all add: log_is_def)
  define cached where "cached = (case lw_index w (ch_index_ref h) of None \<Rightarrow> [] | Some index \<Rightarrow> keys_containing index eid)"
  have cached_ok: "\<forall>k \<in> set cached. k \<in> set (log_keys env ?dir ?s) \<and> is_event_batch_key k"
    using cache cache_keys_ok [of env ?dir ?s] by (cases "lw_index w (ch_index_ref h)") (auto simp: cached_def)
  obtain hit where hit: "read_event_from_batches ?s cached eid = Inr hit"
    "\<forall>e. hit = Some e \<longrightarrow> (\<exists>k \<in> set cached. e \<in> set (object_at ?s k)) \<and> ev_id e = eid"
    "hit = None \<longrightarrow> (\<forall>k \<in> set cached. \<forall>e \<in> set (object_at ?s k). ev_id e \<noteq> eid)"
    using read_batches [OF ok cached_ok] by blast
  have first: "(case map_option (\<lambda>index. keys_containing index eid) (lw_index w (ch_index_ref h)) of
      None \<Rightarrow> Inr None | Some keys \<Rightarrow> read_event_from_batches ?s keys eid) = Inr hit"
    using hit(1) by (cases "lw_index w (ch_index_ref h)") (simp_all add: cached_def)
  have checked: "(case map_option (\<lambda>index. keys_containing index eid) (lw_index w (ch_index_ref h)) of
      None \<Rightarrow> [] | Some keys \<Rightarrow> keys) = cached"
    by (cases "lw_index w (ch_index_ref h)") (simp_all add: cached_def)
  show ?thesis
  proof (cases hit)
    case (Some e)
    then have "e \<in> set es" "ev_id e = eid" using hit(2) cached_ok mem by auto
    then have "List.find (\<lambda>e. ev_id e = eid) es = Some e" by (rule find_by_id(1) [OF sorted])
    then show ?thesis using Some cache access first
      by (simp add: get_event_def io_bind_def io_lift_def io_read_def io_return_def Let_def)
  next
    case None
    note miss = this
    show ?thesis
    proof (cases "store_get ?s (event_path ?ut ?dir eid)")
      case (Some x)
      obtain e where e: "x = Stored_Event e" "ev_id e = eid" "e \<in> set es"
        using single_event_object [OF ok Some] mem by auto
      have "List.find (\<lambda>e. ev_id e = eid) es = Some e" by (rule find_by_id(1) [OF sorted e(3,2)])
      then show ?thesis using Some e cache access first miss
        by (simp add: get_event_def io_bind_def io_lift_def io_read_def io_return_def Let_def decode_event_def)
    next
      case absent: None
      define index where "index = index_from_keys ?ut (list_keys (events_dir ?dir) ?s)"
      define new where "new = filter (\<lambda>key. key \<notin> set cached) (keys_containing index eid)"
      have index: "cache_ok env ?dir ?s (Some index)" unfolding index_def by (rule fresh_index_cache_ok [OF ok])
      then have "\<forall>k \<in> set new. k \<in> set (log_keys env ?dir ?s) \<and> is_event_batch_key k"
        using cache_keys_ok [of env ?dir ?s] by (auto simp: new_def)
      from read_batches [OF ok this] obtain r where r: "read_event_from_batches ?s new eid = Inr r"
        "\<forall>e. r = Some e \<longrightarrow> (\<exists>k \<in> set new. e \<in> set (object_at ?s k)) \<and> ev_id e = eid"
        "r = None \<longrightarrow> (\<forall>k \<in> set new. \<forall>e \<in> set (object_at ?s k). ev_id e \<noteq> eid)"
        by blast
      have run: "get_event env h eid w = (Inr r, w\<lparr>lw_index := (lw_index w)(ch_index_ref h := Some index)\<rparr>)"
        using access first miss absent r(1) checked
        by (simp add: get_event_def io_bind_def io_lift_def io_read_def io_modify_def Let_def flip: index_def)
           (simp flip: new_def)
      have none: "\<forall>e \<in> set es. ev_id e \<noteq> eid" if "r = None"
        using missing_after_scan [OF ok absent] r(3) that hit(3) miss mem unfolding new_def index_def by auto blast
      have "List.find (\<lambda>e. ev_id e = eid) es = r"
      proof (cases r)
        case (Some e)
        then obtain k where "k \<in> set new" "e \<in> set (object_at ?s k)" "ev_id e = eid" using r(2) by blast
        then have "e \<in> set es" "ev_id e = eid" using mem cache_keys_ok [OF index] by (auto simp: new_def)
        then show ?thesis using Some find_by_id(1) [OF sorted] by blast
      next
        case None
        from find_by_id(2) [OF sorted none [OF None]] None show ?thesis by simp
      qed
      then show ?thesis using run index by simp
    qed
  qed
qed

theorem get_event_agrees_with_log_witness:
  "\<exists>w'. get_event sample_env sample_handle 9 sample_world = (Inr (Some (sample_event 9 SessionEnded)), w')"
  using get_event_agrees_with_log [of sample_env sample_handle sample_world sample_events 9] sample_log_facts
  by (auto simp: cache_ok_def sample_events_def)

end
