(* ===== verification/Event_Queries.thy ===== *)
theory Event_Queries
  imports Event_Log
begin

text \<open>
  Properties of reading a conversation's log (\<^verbatim>\<open>crates/exoharness/src/basic.rs\<close>): paging with a cursor, watching,
  slugs of forks, forked logs and artifacts.
\<close>

section \<open>Paging\<close>

text \<open>Reading page after page, each from the cursor of the last, until a page is empty.\<close>

fun walk_pages :: "nat \<Rightarrow> event_query \<Rightarrow> 'p event list \<Rightarrow> 'p event list" where
  "walk_pages 0 q es = []"
| "walk_pages (Suc n) q es =
     (let r = select_events (Some q) es
      in if ge_events r = [] then []
         else ge_events r @ walk_pages n (q\<lparr>eq_cursor := ge_cursor r\<rparr>) es)"

definition beyond :: "event_query \<Rightarrow> uuid \<Rightarrow> uuid \<Rightarrow> bool" where
  "beyond q c i \<longleftrightarrow> (if eq_direction q = Some Desc then i < c else c < i)"

definition in_direction :: "event_query \<Rightarrow> 'p event list \<Rightarrow> 'p event list" where
  "in_direction q es = (if eq_direction q = Some Desc then rev es else es)"

lemma after_cursor_eq:
  "after_cursor q es = (case eq_cursor q of None \<Rightarrow> in_direction q es
     | Some c \<Rightarrow> filter (\<lambda>e. beyond q c (ev_id e)) (in_direction q es))"
  by (auto simp: after_cursor_def retain_opt_def in_direction_def beyond_def
      split: option.splits event_query_direction.splits)

lemma query_matches_sorted:
  "sorted_wrt (\<lambda>a b. ev_id a < ev_id b) es \<Longrightarrow> sorted_wrt (\<lambda>a b. ev_id a < ev_id b) (query_matches q es)"
  by (simp add: query_matches_def retain_opt_def sorted_wrt_filter split: option.splits)

lemma in_direction_sorted:
  "sorted_wrt (\<lambda>a b. ev_id a < ev_id b) es \<Longrightarrow> sorted_wrt (\<lambda>a b. beyond q (ev_id a) (ev_id b)) (in_direction q es)"
  by (simp add: in_direction_def beyond_def sorted_wrt_rev)

lemma beyond_trans: "beyond q a b \<Longrightarrow> beyond q b c \<Longrightarrow> beyond q a c"
  by (auto simp: beyond_def split: if_splits)

lemma beyond_irrefl: "\<not> beyond q a a" "beyond q a b \<Longrightarrow> \<not> beyond q b a"
  by (auto simp: beyond_def split: if_splits)

lemma sorted_filter_suffix:
  assumes "sorted_wrt (\<lambda>a b. beyond q (ev_id a) (ev_id b)) xs"
  shows "\<exists>p. xs = p @ filter (\<lambda>e. beyond q c (ev_id e)) xs"
  using assms
proof (induction xs)
  case (Cons x xs)
  show ?case
  proof (cases "beyond q c (ev_id x)")
    case True
    then have "filter (\<lambda>e. beyond q c (ev_id e)) xs = xs"
      using Cons.prems beyond_trans by (auto simp: filter_id_conv)
    then show ?thesis using True by simp
  next
    case False
    then show ?thesis using Cons by auto (metis append_Cons)
  qed
qed simp

text \<open>After a page that ends in \<open>l\<close>, the events beyond \<open>l\<close> are the rest.\<close>

lemma rest_of_page:
  assumes "sorted_wrt (\<lambda>a b. beyond q (ev_id a) (ev_id b)) (p @ page @ rest)" and "page \<noteq> []"
  shows "filter (\<lambda>e. beyond q (ev_id (last page)) (ev_id e)) (p @ page @ rest) = rest"
proof -
  obtain front l where page: "page = front @ [l]" using assms(2) by (metis rev_exhaust)
  show ?thesis
    using assms(1) beyond_irrefl unfolding page
    by (fastforce simp: sorted_wrt_append filter_empty_conv filter_id_conv)
qed

text \<open>One page of a query with a positive limit: what it returns, and what the query at its cursor has left.\<close>

lemma page_step:
  assumes sorted: "sorted_wrt (\<lambda>a b. ev_id a < ev_id b) es" and limit: "eq_limit q = Some n" "n \<noteq> 0"
  defines "D \<equiv> after_cursor q (query_matches q es)" and "r \<equiv> select_events (Some q) es"
  shows "ge_events r = take (unat n) D" and "D = [] \<Longrightarrow> ge_cursor r = None" and "D \<noteq> [] \<Longrightarrow> ge_cursor r \<noteq> None \<and> ge_events r \<noteq> []"
    and "D \<noteq> [] \<Longrightarrow> after_cursor (q\<lparr>eq_cursor := ge_cursor r\<rparr>) (query_matches (q\<lparr>eq_cursor := ge_cursor r\<rparr>) es) = drop (unat n) D"
    and "D \<noteq> [] \<Longrightarrow> length (drop (unat n) D) < length D"
proof -
  have n: "0 < unat n" using limit(2) by (simp add: unat_gt_0)
  let ?page = "take (unat n) D"
  show sel: "ge_events r = ?page" and "D = [] \<Longrightarrow> ge_cursor r = None"
    using limit(1) by (simp_all add: r_def D_def select_events_def Let_def)
  have cursor: "ge_cursor r = Some (ev_id (last ?page))" "?page \<noteq> []" if "D \<noteq> []"
    using limit(1) that n by (simp_all add: r_def select_events_def Let_def flip: D_def)
  show "ge_cursor r \<noteq> None \<and> ge_events r \<noteq> []" if "D \<noteq> []" using cursor [OF that] sel by simp
  show "length (drop (unat n) D) < length D" if "D \<noteq> []" using that n by (cases D) auto
  show "after_cursor (q\<lparr>eq_cursor := ge_cursor r\<rparr>) (query_matches (q\<lparr>eq_cursor := ge_cursor r\<rparr>) es) = drop (unat n) D" if D: "D \<noteq> []"
  proof -
    let ?S = "in_direction q (query_matches q es)" and ?q' = "q\<lparr>eq_cursor := Some (ev_id (last ?page))\<rparr>"
    have S: "sorted_wrt (\<lambda>a b. beyond q (ev_id a) (ev_id b)) ?S"
      by (rule in_direction_sorted [OF query_matches_sorted [OF sorted]])
    obtain p where p: "?S = p @ D"
      using sorted_filter_suffix [OF S] unfolding D_def by (cases "eq_cursor q") (auto simp: after_cursor_eq)
    have same: "query_matches ?q' es = query_matches q es" "in_direction ?q' = in_direction q" "beyond ?q' = beyond q"
      by (simp_all add: query_matches_def in_direction_def beyond_def fun_eq_iff)
    have split: "?S = p @ ?page @ drop (unat n) D" using p by simp
    have "after_cursor ?q' (query_matches ?q' es) = filter (\<lambda>e. beyond q (ev_id (last ?page)) (ev_id e)) ?S"
      unfolding after_cursor_eq [of ?q'] same by simp
    also have "\<dots> = filter (\<lambda>e. beyond q (ev_id (last ?page)) (ev_id e)) (p @ ?page @ drop (unat n) D)"
      by (rule arg_cong [OF split])
    also have "\<dots> = drop (unat n) D" by (rule rest_of_page [OF S [unfolded split] cursor(2) [OF D]])
    finally show ?thesis using cursor(1) [OF D] by simp
  qed
qed

lemma walk_pages_complete:
  assumes sorted: "sorted_wrt (\<lambda>a b. ev_id a < ev_id b) es" and limit: "eq_limit q = Some n" "n \<noteq> 0"
    and fuel: "length (after_cursor q (query_matches q es)) < fuel"
  shows "walk_pages fuel q es = after_cursor q (query_matches q es)"
  using limit fuel
proof (induction fuel arbitrary: q)
  case (Suc fuel)
  let ?D = "after_cursor q (query_matches q es)" and ?r = "select_events (Some q) es"
  note step = page_step [OF sorted Suc.prems(1,2)]
  show ?case
  proof (cases "?D = []")
    case True
    then show ?thesis using step(1) by simp
  next
    case False
    have "walk_pages fuel (q\<lparr>eq_cursor := ge_cursor ?r\<rparr>) es = drop (unat n) ?D"
      using Suc.IH [of "q\<lparr>eq_cursor := ge_cursor ?r\<rparr>"] Suc.prems step(4,5) [OF False] by simp
    then show ?thesis using step(3) [OF False] append_take_drop_id [of "unat n" ?D] by (simp add: Let_def step(1))
  qed
qed simp

lemma selection_length: "length (after_cursor q (query_matches q es)) \<le> length es"
proof -
  have "length (query_matches q es) \<le> length es"
    by (auto simp: query_matches_def retain_opt_def split: option.splits intro: order_trans [OF length_filter_le])
  moreover have "length (after_cursor q xs) \<le> length xs" for xs :: "'a event list"
    by (auto simp: after_cursor_eq in_direction_def split: option.splits intro: order_trans [OF length_filter_le])
  ultimately show ?thesis using le_trans by blast
qed

text \<open>paging is complete and repeats nothing. In either direction and with any filters, following the
  cursor from page to page with a positive limit, until a page is empty, yields exactly the events the same
  query without a limit would return, in the same order.\<close>

theorem paging_yields_whole_selection:
  assumes "load_events env dir s = Inr es" and "log_ok env dir s" and "eq_limit q = Some n" and "n \<noteq> 0"
  shows "walk_pages (Suc (length es)) q es = ge_events (select_events (Some (q\<lparr>eq_limit := None\<rparr>)) es)"
proof -
  have "sorted_wrt (\<lambda>a b. ev_id a < ev_id b) es"
    using load_events_ok [OF assms(2)] assms(1) by (auto simp: log_is_def)
  moreover have "length (after_cursor q (query_matches q es)) \<le> length es" by (rule selection_length)
  ultimately have "walk_pages (Suc (length es)) q es = after_cursor q (query_matches q es)"
    using walk_pages_complete assms(3,4) by (metis le_imp_less_Suc)
  moreover have "after_cursor (q\<lparr>eq_limit := None\<rparr>) (query_matches (q\<lparr>eq_limit := None\<rparr>) es) = after_cursor q (query_matches q es)"
    by (simp add: after_cursor_def query_matches_def split: option.split event_query_direction.split)
  ultimately show ?thesis by (simp add: select_events_def Let_def)
qed

theorem paging_yields_whole_selection_witness:
  "let q = \<lparr> eq_cursor = None, eq_direction = Some Desc, eq_limit = Some 2, eq_session_id = Some 2, eq_turn_id = None,
     eq_types = None \<rparr>
   in walk_pages 4 q sample_events = ge_events (select_events (Some (q\<lparr>eq_limit := None\<rparr>)) sample_events) \<and>
      ge_events (select_events (Some q) sample_events) = [sample_event 9 SessionEnded, sample_event 8 TurnEnded]"
  using paging_yields_whole_selection [of sample_env "''c''" sample_log sample_events
      "\<lparr> eq_cursor = None, eq_direction = Some Desc, eq_limit = Some 2, eq_session_id = Some 2, eq_turn_id = None,
         eq_types = None \<rparr>" 2] sample_log_facts
  by (simp add: sample_events_def numeral_eq_Suc)
     (simp add: select_events_def after_cursor_def query_matches_def retain_opt_def sample_event_def)

section \<open>Watching\<close>

text \<open>Appends by any number of writers, one after the other.\<close>

fun append_all :: "log_env \<Rightarrow> conversation_handle \<Rightarrow> (uuid option \<times> uuid option \<times> 'p event_data list) list
    \<Rightarrow> ('p log_world, unit) io" where
  "append_all env h [] = io_return ()"
| "append_all env h ((session, turn, data) # rest) =
     io_bind (add_events env h session turn data) (\<lambda>_. append_all env h rest)"

definition calls_of :: "('a \<times> 'b \<times> 'c list) list \<Rightarrow> nat" where
  "calls_of batches = sum_list (map (\<lambda>(_, _, data). Suc (length data)) batches)"

lemma notified_last:
  assumes "lw_subscribers w c = subs @ [sub]" and "sub_open sub"
  shows "\<exists>subs'. lw_subscribers (fold (notify_subscribers c) es w) c = subs' @ [sub\<lparr>sub_received := sub_received sub @ es\<rparr>]"
  using assms
proof (induction es arbitrary: w subs sub)
  case (Cons e es)
  have "lw_subscribers (notify_subscribers c e w) c =
      map (\<lambda>sub. sub\<lparr>sub_received := sub_received sub @ [e]\<rparr>) (filter sub_open subs) @ [sub\<lparr>sub_received := sub_received sub @ [e]\<rparr>]"
    using Cons.prems by (simp add: notify_subscribers_def)
  from Cons.IH [OF this] Cons.prems(2) show ?case by simp
qed simp

lemma add_events_run:
  assumes "add_events env h ses turn data w = (Inr added, w')"
  obtains r r' w1 where "append_events_to_conversation env (ch_dir h) (cr_id (ch_record h)) ses turn None data r w
      = (Inr (added, r'), w1)" "lw_store w' = lw_store w1" "lw_calls w' = lw_calls w1" "lw_subscribers w' = lw_subscribers w1"
  using assms unfolding add_events_def append_events_internal_def
  by (auto simp: io_bind_Inr_iff io_lift_def io_read_def io_modify_def io_return_def remember_appended_batch_def Let_def)

lemma ids_fresh_cong: "lw_calls w = lw_calls w' \<Longrightarrow> ids_fresh env n w es = ids_fresh env n w' es"
  by (simp add: ids_fresh_def)

lemma ids_fresh_mono: "ids_fresh env n w es \<Longrightarrow> m \<le> n \<Longrightarrow> ids_fresh env m w es"
  by (auto simp: ids_fresh_def)

lemma append_all_watched:
  assumes "append_all env h batches w = (Inr u, w')" and "log_is env (ch_dir h) (lw_store w) es"
    and "ids_fresh env (calls_of batches) w es"
    and "lw_subscribers w (cr_id (ch_record h)) = subs @ [sub]" and "sub_open sub"
  shows "\<exists>new subs'. log_is env (ch_dir h) (lw_store w') (es @ new) \<and>
    lw_subscribers w' (cr_id (ch_record h)) = subs' @ [sub\<lparr>sub_received := sub_received sub @ new\<rparr>]"
  using assms
proof (induction batches arbitrary: w es subs sub)
  case Nil
  then show ?case by (intro exI [of _ "[]"] exI [of _ subs]) (simp add: io_return_def)
next
  case (Cons batch rest)
  obtain ses turn data where batch: "batch = (ses, turn, data)" by (cases batch)
  let ?n = "calls_of (batch # rest)" and ?c = "cr_id (ch_record h)"
  have n: "?n - Suc (length data) = calls_of rest" "length data \<le> ?n" by (simp_all add: calls_of_def batch)
  obtain added w1 where w1: "add_events env h ses turn data w = (Inr added, w1)" "append_all env h rest w1 = (Inr u, w')"
    using Cons.prems(1) by (auto simp: batch io_bind_Inr_iff)
  obtain r r' w2 where w2: "append_events_to_conversation env (ch_dir h) ?c ses turn None data r w = (Inr (added, r'), w2)"
    "lw_store w1 = lw_store w2" "lw_calls w1 = lw_calls w2" "lw_subscribers w1 = lw_subscribers w2"
    by (rule add_events_run [OF w1(1)])
  obtain new where new: "log_is env (ch_dir h) (lw_store w1) (es @ new)" "ids_fresh env (calls_of rest) w1 (es @ new)"
    "lw_subscribers w1 = lw_subscribers (fold (notify_subscribers ?c) new w)"
    using append_extends_log [OF w2(1) Cons.prems(2,3) n(2)] w2(2-4) n(1) ids_fresh_cong [OF w2(3)] by metis
  obtain subs1 where "lw_subscribers w1 ?c = subs1 @ [sub\<lparr>sub_received := sub_received sub @ new\<rparr>]"
    using notified_last [OF Cons.prems(4,5)] new(3) by metis
  from Cons.IH [OF w1(2) new(1,2) this] Cons.prems(5) show ?case by simp (metis append_assoc)
qed

text \<open>C35: a watcher misses nothing and sees nothing twice. The events \<open>watch_events\<close> returns at once, followed
  by those its channel receives while any sequence of appends runs, are exactly the events of the final log
  after the cursor, in order.\<close>

theorem watcher_sees_every_event_once:
  assumes "watch_events env h (Excluded c) w = (Inr existing, w1)" and "append_all env h batches w1 = (Inr u, w2)"
    and "load_events env (ch_dir h) (lw_store w) = Inr es" and "log_ok env (ch_dir h) (lw_store w)"
    and "ids_fresh env (calls_of batches) w es" and "c \<in> ev_id ` set es"
  shows "\<exists>final. load_events env (ch_dir h) (lw_store w2) = Inr final \<and>
    filter (\<lambda>e. c < ev_id e) final = existing @ sub_received (last (lw_subscribers w2 (cr_id (ch_record h))))"
proof -
  have log: "log_is env (ch_dir h) (lw_store w) es" using load_events_ok [OF assms(4)] assms(3) by auto
  have ex: "existing = filter (\<lambda>e. c < ev_id e) es" and w1: "lw_store w1 = lw_store w" "lw_calls w1 = lw_calls w"
    "lw_subscribers w1 (cr_id (ch_record h)) = lw_subscribers w (cr_id (ch_record h)) @ [\<lparr> sub_open = True, sub_received = [] \<rparr>]"
    using assms(1,3) unfolding watch_events_def
    by (auto simp: io_bind_Inr_iff io_lift_def io_read_def io_modify_def io_return_def matches_bound_def)
  obtain new subs where new: "log_is env (ch_dir h) (lw_store w2) (es @ new)"
    "lw_subscribers w2 (cr_id (ch_record h)) = subs @ [\<lparr> sub_open = True, sub_received = new \<rparr>]"
    using append_all_watched [OF assms(2) _ _ w1(3), of es] log assms(5) ids_fresh_cong [OF w1(2)] w1(1) by auto
  have "c < ev_id e" if "e \<in> set new" for e
    using new(1) assms(6) that by (auto simp: log_is_def sorted_wrt_append)
  then have "filter (\<lambda>e. c < ev_id e) new = new" by simp
  then show ?thesis using load_events_log [OF new(1)] ex new(2) by simp
qed

theorem watcher_sees_every_event_once_witness:
  "\<exists>existing w1 w2 final. watch_events sample_env sample_handle (Excluded 8) sample_world = (Inr existing, w1) \<and>
     append_all sample_env sample_handle [(None, None, [SessionStarted]), (None, None, [SessionEnded])] w1 = (Inr (), w2) \<and>
     load_events sample_env ''c'' (lw_store w2) = Inr final \<and>
     filter (\<lambda>e. 8 < ev_id e) final = existing @ sub_received (last (lw_subscribers w2 1))"
proof -
  obtain existing w1 where watch: "watch_events sample_env sample_handle (Excluded 8) sample_world = (Inr existing, w1)"
    "lw_store w1 = sample_log" "lw_calls w1 = 0" "lw_index w1 = (\<lambda>_. None)"
    using sample_log_facts(2) by (simp add: watch_events_def io_bind_def io_lift_def io_read_def io_modify_def io_return_def
        sample_world_def)
  have "\<exists>w2. append_all sample_env sample_handle [(None, None, [SessionStarted]), (None, None, [SessionEnded])] w1 = (Inr (), w2)"
    using watch(2-) sample_record_get
    by (simp add: add_events_def append_events_internal_def append_events_to_conversation_def io_bind_def io_lift_def
        io_read_def io_modify_def io_return_def load_conversation_record_def decode_record_def remember_appended_batch_def
        uuid_now_def timestamp_of_def commit_events_def put_object_def record_path_def event_path_def)
  then obtain w2 where run: "append_all sample_env sample_handle [(None, None, [SessionStarted]), (None, None, [SessionEnded])] w1
      = (Inr (), w2)" by blast
  have "ids_fresh sample_env (calls_of [(None, None, [SessionStarted]), (None, None, [SessionEnded])]) sample_world sample_events"
    by (rule sample_fresh) (simp add: calls_of_def)
  from watcher_sees_every_event_once [OF watch(1) run _ _ this] sample_log_facts watch(1) run show ?thesis
    by (auto simp: sample_events_def)
qed

end
