(* ===== verification/Event_Turns.thy ===== *)
theory Event_Turns
  imports Event_Queries
begin

text \<open>
  Turns of a conversation over its log (\<^verbatim>\<open>crates/exoharness/src/basic.rs\<close>): beginning, adding to, finishing and
  reattaching to a turn.
\<close>

datatype 'p turn_call = Add "'p event_data list" | Finish

text \<open>A sequence of calls on one turn handle.\<close>

fun run_turn :: "log_env \<Rightarrow> turn_handle_state \<Rightarrow> 'p turn_call list \<Rightarrow> ('p log_world, turn_handle_state) io" where
  "run_turn env t [] = io_return t"
| "run_turn env t (Add data # calls) = io_bind (turn_add_events env t data) (\<lambda>(_, t'). run_turn env t' calls)"
| "run_turn env t (Finish # calls) = io_bind (turn_finish env t) (\<lambda>(_, t'). run_turn env t' calls)"

definition turn_calls_of :: "'p event_data list list \<Rightarrow> nat" where
  "turn_calls_of datas = sum_list (map (\<lambda>data. Suc (length data)) datas)"

text \<open>A handle is up to date when the log ends with its turn's events, the last of which it remembers.\<close>

definition turn_at :: "log_env \<Rightarrow> turn_handle_state \<Rightarrow> 'p log_world \<Rightarrow> 'p event list \<Rightarrow> 'p event list \<Rightarrow> bool" where
  "turn_at env t w base own \<longleftrightarrow> log_is env (ch_dir (hs_handle t)) (lw_store w) (base @ own) \<and> own \<noteq> [] \<and>
     (\<forall>e \<in> set own. ev_session_id e = Some (tn_session_id (hs_turn t)) \<and> ev_turn_id e = Some (tn_id (hs_turn t))) \<and>
     hs_latest_event_id t = Some (ev_id (last own)) \<and> hs_finished t = is_turn_ended (ev_data (last own))"

lemma turn_handle_current:
  assumes "turn_at env t w base own" and "le_check env (cr_id (ch_record (hs_handle t))) = Inr ()"
  shows "turn_handle env (hs_handle t) (hs_turn t) w = (Inr t, w)"
proof -
  have own: "own \<noteq> []" "\<forall>e \<in> set own. ev_session_id e = Some (tn_session_id (hs_turn t)) \<and> ev_turn_id e = Some (tn_id (hs_turn t))"
    "hs_latest_event_id t = Some (ev_id (last own))" "hs_finished t = is_turn_ended (ev_data (last own))"
    and load: "load_events env (ch_dir (hs_handle t)) (lw_store w) = Inr (base @ own)"
    using assms(1) load_events_log by (auto simp: turn_at_def)
  let ?mine = "\<lambda>es. filter (\<lambda>e. ev_turn_id e = Some (tn_id (hs_turn t))) (filter (\<lambda>e. ev_session_id e = Some (tn_session_id (hs_turn t))) es)"
  have "?mine own = own" using own(2) by (simp add: filter_id_conv)
  then have "?mine (base @ own) \<noteq> []" "last (?mine (base @ own)) = last own" using own(1) by (simp_all only: filter_append last_append) auto
  then show ?thesis
    using assms(2) load own(3,4)
    by (simp add: turn_handle_def io_bind_def io_lift_def io_read_def io_return_def ensure_def Let_def del: filter_append filter_filter)
qed

lemma turn_append_extends:
  assumes "turn_append env t data w = (Inr added, w')" and "log_is env (ch_dir (hs_handle t)) (lw_store w) es"
    and "ids_fresh env n w es" and "length data \<le> n"
  shows "\<exists>new. log_is env (ch_dir (hs_handle t)) (lw_store w') (es @ new) \<and> ids_fresh env (n - Suc (length data)) w' (es @ new) \<and>
    new \<noteq> [] \<and> map ev_data new = data \<and> ae_latest_event_id added = ev_id (last new) \<and>
    (\<forall>e \<in> set new. ev_session_id e = Some (tn_session_id (hs_turn t)) \<and> ev_turn_id e = Some (tn_id (hs_turn t)))"
proof -
  obtain r r' where run: "append_events_to_conversation env (ch_dir (hs_handle t)) (cr_id (ch_record (hs_handle t)))
      (Some (tn_session_id (hs_turn t))) (Some (tn_id (hs_turn t))) (cr_latest_event_id r) data r w = (Inr (added, r'), w')"
    using assms(1) unfolding turn_append_def
    by (auto simp: io_bind_Inr_iff io_lift_def io_read_def io_return_def)
  show ?thesis using append_extends_log [OF run assms(2-4)] by metis
qed

lemma remember_frame [simp]:
  "lw_store (remember_appended_batch env ref dir added w) = lw_store w"
  "lw_calls (remember_appended_batch env ref dir added w) = lw_calls w"
  by (simp_all add: remember_appended_batch_def Let_def)

lemma turn_add_current:
  assumes run: "turn_add_events env t data w = (Inr (added, t'), w')" and at: "turn_at env t w base own"
    and fresh: "ids_fresh env n w (base @ own)" and n: "length data \<le> n"
    and open_turn: "\<not> hs_finished t" "\<forall>d \<in> set data. \<not> is_turn_ended d"
  shows "\<exists>new. turn_at env t' w' base (own @ new) \<and> ids_fresh env (n - Suc (length data)) w' (base @ own @ new) \<and>
    map ev_data new = data \<and> \<not> hs_finished t' \<and> hs_handle t' = hs_handle t \<and> hs_turn t' = hs_turn t"
proof -
  obtain w1 where w1: "turn_append env t data w = (Inr added, w1)"
    "w' = remember_appended_batch env (ch_index_ref (hs_handle t)) (ch_dir (hs_handle t)) added w1"
    "t' = t\<lparr>hs_latest_event_id := Some (ae_latest_event_id added)\<rparr>"
    using run unfolding turn_add_events_def by (auto simp: io_bind_Inr_iff io_lift_def io_modify_def io_return_def)
  have log: "log_is env (ch_dir (hs_handle t)) (lw_store w) (base @ own)" using at by (simp add: turn_at_def)
  obtain new where new: "log_is env (ch_dir (hs_handle t)) (lw_store w1) ((base @ own) @ new)"
    "ids_fresh env (n - Suc (length data)) w1 ((base @ own) @ new)" "new \<noteq> []" "map ev_data new = data"
    "ae_latest_event_id added = ev_id (last new)"
    "\<forall>e \<in> set new. ev_session_id e = Some (tn_session_id (hs_turn t)) \<and> ev_turn_id e = Some (tn_id (hs_turn t))"
    using turn_append_extends [OF w1(1) log fresh n] by blast
  have "ev_data (last new) \<in> set data" using new(3,4) by (metis last_in_set list.set_map image_eqI)
  then have "\<not> is_turn_ended (ev_data (last new))" using open_turn(2) by blast
  then show ?thesis
    using new at open_turn(1) w1(2,3) ids_fresh_cong [of w' w1 env]
    by (intro exI [of _ new]) (auto simp: turn_at_def)
qed

lemma turn_finish_open:
  assumes run: "turn_finish env t w = (Inr (eid, t'), w')" and at: "turn_at env t w base own"
    and fresh: "ids_fresh env n w (base @ own)" and n: "1 \<le> n" and open_turn: "\<not> hs_finished t"
  shows "\<exists>e. turn_at env t' w' base (own @ [e]) \<and> ev_data e = TurnEnded \<and> hs_finished t' \<and>
    hs_handle t' = hs_handle t \<and> hs_turn t' = hs_turn t"
proof -
  obtain added where w1: "turn_append env t [TurnEnded] w = (Inr added, w')"
    "t' = t\<lparr>hs_latest_event_id := Some (ae_latest_event_id added), hs_finished := True\<rparr>"
    using run open_turn unfolding turn_finish_def by (auto simp: io_bind_Inr_iff io_lift_def io_return_def)
  have log: "log_is env (ch_dir (hs_handle t)) (lw_store w) (base @ own)" using at by (simp add: turn_at_def)
  have one: "length [TurnEnded :: 'a event_data] \<le> n" using n by simp
  obtain new where new: "log_is env (ch_dir (hs_handle t)) (lw_store w') ((base @ own) @ new)"
    "map ev_data new = [TurnEnded]" "ae_latest_event_id added = ev_id (last new)"
    "\<forall>e \<in> set new. ev_session_id e = Some (tn_session_id (hs_turn t)) \<and> ev_turn_id e = Some (tn_id (hs_turn t))"
    using turn_append_extends [OF w1(1) log fresh one] by (elim exE conjE) (rule that)
  obtain e where e: "new = [e]" "ev_data e = TurnEnded" using new(2) by (cases new) auto
  show ?thesis using new at w1(2) e by (intro exI [of _ e]) (auto simp: turn_at_def)
qed

lemma turn_finish_again:
  assumes "hs_finished t" and "hs_latest_event_id t = Some eid" and "turn_finish env t w = (Inr r, w')"
  shows "r = (eid, t) \<and> w' = w"
  using assms by (auto simp: turn_finish_def io_bind_Inr_iff io_lift_def io_return_def ok_or_def)

lemma run_finishes:
  assumes "run_turn env t (replicate k Finish) w = (Inr t', w')" and "turn_at env t w base own" and "hs_finished t"
  shows "t' = t \<and> w' = w"
  using assms
proof (induction k arbitrary: t w)
  case (Suc k)
  obtain r w1 where r: "turn_finish env t w = (Inr r, w1)" "run_turn env (snd r) (replicate k Finish) w1 = (Inr t', w')"
    using Suc.prems(1) by (auto simp: io_bind_Inr_iff split: prod.splits)
  have "r = (ev_id (last own), t) \<and> w1 = w"
    using turn_finish_again [OF Suc.prems(3) _ r(1)] Suc.prems(2) by (auto simp: turn_at_def)
  then show ?case using Suc r(2) by auto
qed (simp add: io_return_def)

lemma run_turn_current:
  assumes "run_turn env t (map Add datas @ replicate k Finish) w = (Inr t', w')" and "turn_at env t w base own"
    and "ids_fresh env (Suc (turn_calls_of datas)) w (base @ own)" and "\<not> hs_finished t"
    and "\<forall>data \<in> set datas. \<forall>d \<in> set data. \<not> is_turn_ended d"
  shows "\<exists>new. turn_at env t' w' base (own @ new) \<and> map ev_data new = concat datas @ (if k = 0 then [] else [TurnEnded]) \<and>
    hs_handle t' = hs_handle t \<and> hs_turn t' = hs_turn t"
  using assms
proof (induction datas arbitrary: t w own)
  case Nil
  show ?case
  proof (cases k)
    case 0
    then show ?thesis using Nil by (auto simp: io_return_def)
  next
    case (Suc j)
    obtain eid t1 w1 where r: "turn_finish env t w = (Inr (eid, t1), w1)" "run_turn env t1 (replicate j Finish) w1 = (Inr t', w')"
      using Nil.prems(1) Suc by (auto simp: io_bind_Inr_iff)
    obtain e where e: "turn_at env t1 w1 base (own @ [e])" "ev_data e = TurnEnded" "hs_finished t1"
      "hs_handle t1 = hs_handle t" "hs_turn t1 = hs_turn t"
      using turn_finish_open [OF r(1) Nil.prems(2,3) _ Nil.prems(4)] by auto
    then show ?thesis using run_finishes [OF r(2) e(1,3)] Suc by (intro exI [of _ "[e]"]) simp
  qed
next
  case (Cons data datas)
  let ?n = "Suc (turn_calls_of (data # datas))"
  have n: "length data \<le> ?n" "?n - Suc (length data) = Suc (turn_calls_of datas)" by (simp_all add: turn_calls_of_def)
  obtain added t1 w1 where r: "turn_add_events env t data w = (Inr (added, t1), w1)"
    "run_turn env t1 (map Add datas @ replicate k Finish) w1 = (Inr t', w')"
    using Cons.prems(1) by (auto simp: io_bind_Inr_iff)
  obtain new where new: "turn_at env t1 w1 base (own @ new)" "ids_fresh env (Suc (turn_calls_of datas)) w1 (base @ own @ new)"
    "map ev_data new = data" "\<not> hs_finished t1" "hs_handle t1 = hs_handle t" "hs_turn t1 = hs_turn t"
    using turn_add_current [OF r(1) Cons.prems(2,3) n(1) Cons.prems(4)] Cons.prems(5) n(2) by auto
  obtain new' where "turn_at env t' w' base ((own @ new) @ new')"
    "map ev_data new' = concat datas @ (if k = 0 then [] else [TurnEnded])" "hs_handle t' = hs_handle t1" "hs_turn t' = hs_turn t1"
    using Cons.IH [OF r(2) new(1)] new(2,4) Cons.prems(5) by auto
  then show ?case using new(3,5,6) by (intro exI [of _ "new @ new'"]) simp
qed

lemma begin_turn_current:
  assumes run: "begin_turn env user h request w = (Inr t, w')" and log: "log_is env (ch_dir h) (lw_store w) es"
    and fresh: "ids_fresh env n w es" and n: "length (turn_opening user request) \<le> n"
    and no_end: "\<forall>d \<in> set (turn_opening user request). \<not> is_turn_ended d"
  shows "\<exists>own. turn_at env t w' es own \<and> ids_fresh env (n - Suc (length (turn_opening user request))) w' (es @ own) \<and>
    map ev_data own = turn_opening user request \<and> \<not> hs_finished t \<and> hs_handle t = h \<and> hs_turn t = bt_turn request \<and>
    le_check env (cr_id (ch_record h)) = Inr ()"
proof -
  obtain r r' added w1 where w1: "append_events_to_conversation env (ch_dir h) (cr_id (ch_record h))
      (Some (tn_session_id (bt_turn request))) (Some (tn_id (bt_turn request))) (cr_latest_event_id r)
      (turn_opening user request) r w = (Inr (added, r'), w1)"
    "w' = remember_appended_batch env (ch_index_ref h) (ch_dir h) added w1"
    "t = \<lparr> hs_handle = h, hs_turn = bt_turn request, hs_latest_event_id = Some (ae_latest_event_id added), hs_finished = False \<rparr>"
    "le_check env (cr_id (ch_record h)) = Inr ()"
    using run unfolding begin_turn_def
    by (auto simp: io_bind_Inr_iff io_lift_def io_read_def io_modify_def io_return_def)
  obtain own where own: "log_is env (ch_dir h) (lw_store w1) (es @ own)"
    "ids_fresh env (n - Suc (length (turn_opening user request))) w1 (es @ own)" "own \<noteq> []"
    "map ev_data own = turn_opening user request" "ae_latest_event_id added = ev_id (last own)"
    "\<forall>e \<in> set own. ev_session_id e = Some (tn_session_id (bt_turn request)) \<and> ev_turn_id e = Some (tn_id (bt_turn request))"
    using append_extends_log [OF w1(1) log fresh n] by metis
  have "ev_data (last own) \<in> set (turn_opening user request)" using own(3,4) by (metis last_in_set list.set_map image_eqI)
  then have "\<not> is_turn_ended (ev_data (last own))" using no_end by blast
  then show ?thesis
    using own w1(2-4) ids_fresh_cong [of w' w1 env] by (intro exI [of _ own]) (auto simp: turn_at_def)
qed

text \<open>a turn's record in the log is its calls, and reattaching loses nothing. After a turn begins, any
  number of additions and any number of finishing calls append exactly the opening events, the added events
  and one end marker (none if it was never finished), all at the end of the log; and a handle reattached
  from the log alone is the very handle the calls produced.\<close>

theorem reattached_turn_equals_live_turn:
  assumes "begin_turn env user h request w = (Inr t, w1)"
    and "run_turn env t (map Add datas @ replicate k Finish) w1 = (Inr t', w2)"
    and "load_events env (ch_dir h) (lw_store w) = Inr es" and "log_ok env (ch_dir h) (lw_store w)"
    and "ids_fresh env (Suc (length (turn_opening user request)) + Suc (turn_calls_of datas)) w es"
    and "\<forall>d \<in> set (turn_opening user request @ concat datas). \<not> is_turn_ended d"
  shows "turn_handle env h (bt_turn request) w2 = (Inr t', w2) \<and>
    (\<exists>own. load_events env (ch_dir h) (lw_store w2) = Inr (es @ own) \<and>
       map ev_data own = turn_opening user request @ concat datas @ (if k = 0 then [] else [TurnEnded]))"
proof -
  have log: "log_is env (ch_dir h) (lw_store w) es" using load_events_ok [OF assms(4)] assms(3) by auto
  obtain own where own: "turn_at env t w1 es own" "ids_fresh env (Suc (turn_calls_of datas)) w1 (es @ own)"
    "map ev_data own = turn_opening user request" "\<not> hs_finished t" "hs_handle t = h" "hs_turn t = bt_turn request"
    "le_check env (cr_id (ch_record h)) = Inr ()"
    using begin_turn_current [OF assms(1) log assms(5)] assms(6) by auto
  obtain new where new: "turn_at env t' w2 es (own @ new)" "map ev_data new = concat datas @ (if k = 0 then [] else [TurnEnded])"
    "hs_handle t' = h" "hs_turn t' = bt_turn request"
    using run_turn_current [OF assms(2) own(1,2,4)] assms(6) own(5,6) by auto
  have "turn_handle env h (bt_turn request) w2 = (Inr t', w2)"
    using turn_handle_current [OF new(1)] own(7) new(3,4) by simp
  moreover have "load_events env (ch_dir h) (lw_store w2) = Inr (es @ own @ new)"
    using new(1,3) load_events_log by (auto simp: turn_at_def)
  ultimately show ?thesis using own(3) new(2) by auto
qed

definition sample_request :: "unit begin_turn_request" where
  "sample_request = \<lparr> bt_turn = \<lparr> tn_id = 50, tn_session_id = 2 \<rparr>, bt_new_session = False, bt_input = Some (), bt_initial_events = [] \<rparr>"

lemma sample_begin: "\<exists>t w1. begin_turn sample_env (Some ''u'') sample_handle sample_request sample_world = (Inr t, w1) \<and>
    hs_handle t = sample_handle \<and> \<not> hs_finished t \<and> store_get (lw_store w1) (record_path ''c'') = Some (Stored_Record sample_record)"
  by (simp add: begin_turn_def sample_request_def sample_record_get sample_run_simps)
     (simp add: record_path_def event_path_def event_batch_path_def)

lemma sample_add:
  assumes "hs_handle t = sample_handle" and "\<not> hs_finished t" and "store_get (lw_store w) (record_path ''c'') = Some (Stored_Record sample_record)"
  shows "\<exists>t' w'. run_turn sample_env t (map Add [[Messages ()]] @ replicate 2 Finish) w = (Inr t', w') \<and> hs_finished t'"
  using assms by (simp add: turn_add_events_def turn_finish_def turn_append_def sample_run_simps numeral_2_eq_2 ok_or_def)
    (simp add: record_path_def event_path_def event_batch_path_def)

theorem reattached_turn_equals_live_turn_witness:
  "\<exists>t w1 t' w2 own. begin_turn sample_env (Some ''u'') sample_handle sample_request sample_world = (Inr t, w1) \<and>
     run_turn sample_env t (map Add [[Messages ()]] @ replicate 2 Finish) w1 = (Inr t', w2) \<and> hs_finished t' \<and>
     turn_handle sample_env sample_handle (bt_turn sample_request) w2 = (Inr t', w2) \<and>
     load_events sample_env ''c'' (lw_store w2) = Inr (sample_events @ own) \<and>
     map ev_data own = [TurnStarted (Some ''u''), Messages (), Messages (), TurnEnded]"
proof -
  obtain t w1 where run: "begin_turn sample_env (Some ''u'') sample_handle sample_request sample_world = (Inr t, w1)"
    "hs_handle t = sample_handle" "\<not> hs_finished t" "store_get (lw_store w1) (record_path ''c'') = Some (Stored_Record sample_record)"
    using sample_begin by blast
  obtain t' w2 where calls: "run_turn sample_env t (map Add [[Messages ()]] @ replicate 2 Finish) w1 = (Inr t', w2)" "hs_finished t'"
    using sample_add [OF run(2-4)] by blast
  have "ids_fresh sample_env (Suc (length (turn_opening (Some ''u'') sample_request)) + Suc (turn_calls_of [[Messages ()]]))
      sample_world sample_events"
    by (rule sample_fresh) (simp add: turn_opening_def sample_request_def turn_calls_of_def)
  from reattached_turn_equals_live_turn [OF run(1) calls(1) _ _ this] sample_log_facts run(1) calls show ?thesis
    by (auto simp: turn_opening_def sample_request_def)
qed

end
