(* ===== verification/Turn_Executor.thy ===== *)
theory Turn_Executor
  imports Turn_Coordinator Event_Turns
begin

text \<open>
  The executor's side of the turn queue, from \<^verbatim>\<open>crates/executor/src/turn_queue.rs\<close>: observers of turns, control of
  queued turns, acceptance of a turn and the task that drains a thread's queue. It composes the turn
  coordinator with the event log. The world is shared with every other task of the process, so each access
  to it is \<open>atomically\<close>: whatever the other tasks do first (\<open>xe_others\<close>, at the number of that access), then
  the access in one step. The executing harness, the lookup of agents and threads, JSON and the wakeups of
  a stream are answers of the environment at that number.
\<close>

section \<open>Data\<close>

record turn_key =
  tk_agent_id :: uuid
  tk_thread_id :: uuid
  tk_turn_id :: uuid

definition key_of :: "turn_thread \<Rightarrow> uuid \<Rightarrow> turn_key" where
  "key_of scope turn = \<lparr> tk_agent_id = th_agent_id scope, tk_thread_id = th_thread_id scope, tk_turn_id = turn \<rparr>"

definition thread_of :: "turn_key \<Rightarrow> turn_thread" where
  "thread_of key = \<lparr> th_agent_id = tk_agent_id key, th_thread_id = tk_thread_id key \<rparr>"

datatype harness_command = CancelTurn turn_key | SuspendTurn turn_key | ResumeTurn turn_key

record send_result =
  sd_session_id :: uuid
  sd_turn_id :: uuid
  sd_latest_event_id :: uuid

text \<open>The events of an execution; the kinds no modelled code inspects are of the parameter type.\<close>

datatype 'e stream_event = Completed send_result | Suspended turn_record | Progress 'e

type_synonym 'e message = "string + 'e stream_event"

record 'p agent_config =
  ag_model :: string
  ag_max_output_tokens :: "int option"
  ag_other :: 'p

record model_config =
  mc_model :: string
  mc_max_output_tokens :: "int option"

record 'p send_request =
  rq_input :: "'p option"
  rq_session_id :: "uuid option"

record 'p turn_work =
  wk_streaming :: bool
  wk_agent_config :: "'p agent_config"
  wk_thread_config :: 'p
  wk_request :: "'p send_request"

text \<open>A runtime acts for a caller (the root runtime for none), with the harness of its provider.\<close>

record exec_runtime =
  rt_harness :: nat
  rt_caller :: "string option"

record turn_context =
  tx_runtime :: exec_runtime
  tx_observers :: "nat list"

datatype 'p exec_call =
    Submitted nat harness_command
  | Executed exec_runtime turn_record "'p turn_work" bool
  | Awaited nat turn_key
  | Harness_Shutdown nat

text \<open>The shared state of a \<open>TurnQueueRuntime\<close> with the coordinator and the event log behind it.
  Observers are numbered channels: \<open>xw_inbox\<close> holds what was sent to each, \<open>xw_closed\<close> tells which receivers
  are gone. \<open>xw_current\<close> is the local variable \<open>head\<close> of the queue task; \<open>xw_trace\<close> the calls that leave the
  model.\<close>

record ('s, 'p, 'e) exec_world =
  xw_coord :: "'s coordinator"
  xw_log :: "'p log_world"
  xw_contexts :: "(turn_key \<times> turn_context) list"
  xw_active :: "(turn_thread \<times> (nat \<times> uuid)) list"
  xw_draining :: bool
  xw_tasks :: "(turn_lease \<times> 'p turn_work queued_turn option) list"
  xw_inbox :: "nat \<Rightarrow> 'e message list"
  xw_closed :: "nat \<Rightarrow> bool"
  xw_next_channel :: nat
  xw_current :: "turn_key option"
  xw_trace :: "'p exec_call list"
  xw_calls :: nat

datatype control_answer = Control_Changed | Control_Error string | Control_Closed

datatype 'e select_answer =
    Control_Ready
  | Stream_Item "'e stream_event"
  | Stream_Failed string
  | Stream_Suspended
  | Stream_Closed

record ('s, 'p, 'e) exec_env =
  xe_ops :: "('s, 'p turn_work) store_ops"
  xe_log :: log_env
  xe_others :: "nat \<Rightarrow> ('s, 'p, 'e) exec_world \<Rightarrow> ('s, 'p, 'e) exec_world"
  xe_root :: exec_runtime
  xe_clock :: "nat \<Rightarrow> int"
  xe_submit :: "nat \<Rightarrow> nat \<Rightarrow> harness_command \<Rightarrow> unit result"
  xe_get_agent :: "nat \<Rightarrow> string option \<Rightarrow> uuid \<Rightarrow> bool result"
  xe_get_thread :: "nat \<Rightarrow> string option \<Rightarrow> turn_thread \<Rightarrow> conversation_handle option result"
  xe_control :: "nat \<Rightarrow> control_answer"
  xe_select :: "nat \<Rightarrow> 'e select_answer"
  xe_recovery_slot :: "nat \<Rightarrow> unit result"
  xe_resolver :: "(string \<Rightarrow> exec_runtime result) option"
  xe_execute :: "nat \<Rightarrow> exec_runtime \<Rightarrow> turn_record \<Rightarrow> 'p turn_work \<Rightarrow> bool \<Rightarrow> unit result"
  xe_encode :: "'p turn_work \<Rightarrow> 'p result"
  xe_decode :: "'p \<Rightarrow> 'p turn_work result"
  xe_no_metadata :: 'p
  xe_check :: "nat \<Rightarrow> string \<Rightarrow> turn_thread \<Rightarrow> unit result"
  xe_agent_config :: "nat \<Rightarrow> uuid \<Rightarrow> 'p agent_config result"
  xe_thread_config :: "nat \<Rightarrow> uuid \<Rightarrow> 'p result"
  xe_model_config :: "'p \<Rightarrow> model_config option result"
  xe_can_suspend :: "'p agent_config \<Rightarrow> bool"
  xe_harness_shutdown :: "nat \<Rightarrow> nat \<Rightarrow> unit result"
  xe_join :: "nat \<Rightarrow> unit result"

type_synonym ('s, 'p, 'e, 'a) exec = "('s, 'p, 'e) exec_world \<Rightarrow> 'a result \<times> ('s, 'p, 'e) exec_world"

section \<open>Accesses to the shared world\<close>

definition atomically :: "('s, 'p, 'e) exec_env \<Rightarrow> (nat \<Rightarrow> ('s, 'p, 'e, 'a) exec) \<Rightarrow> ('s, 'p, 'e, 'a) exec" where
  "atomically env m w = m (xw_calls w) (xe_others env (xw_calls w) (w\<lparr>xw_calls := Suc (xw_calls w)\<rparr>))"

definition coord :: "('s, 'p, 'e) exec_env \<Rightarrow> ('s coordinator, 'a) io \<Rightarrow> ('s, 'p, 'e, 'a) exec" where
  "coord env m = atomically env (\<lambda>_ w. let (r, c) = m (xw_coord w) in (r, w\<lparr>xw_coord := c\<rparr>))"

definition logged :: "('s, 'p, 'e) exec_env \<Rightarrow> ('p log_world, 'a) io \<Rightarrow> ('s, 'p, 'e, 'a) exec" where
  "logged env m = atomically env (\<lambda>_ w. let (r, l) = m (xw_log w) in (r, w\<lparr>xw_log := l\<rparr>))"

definition shared :: "('s, 'p, 'e) exec_env \<Rightarrow> (('s, 'p, 'e) exec_world \<Rightarrow> 'a) \<Rightarrow> ('s, 'p, 'e, 'a) exec" where
  "shared env f = atomically env (\<lambda>_. io_read f)"

definition update_shared :: "('s, 'p, 'e) exec_env \<Rightarrow> (('s, 'p, 'e) exec_world \<Rightarrow> ('s, 'p, 'e) exec_world)
    \<Rightarrow> ('s, 'p, 'e, unit) exec" where
  "update_shared env f = atomically env (\<lambda>_. io_modify f)"

definition ask :: "('s, 'p, 'e) exec_env \<Rightarrow> (nat \<Rightarrow> 'a result) \<Rightarrow> ('s, 'p, 'e, 'a) exec" where
  "ask env answer = atomically env (\<lambda>n. io_lift (answer n))"

text \<open>A call that leaves the model is noted in the trace, whatever its answer.\<close>

definition outside :: "('s, 'p, 'e) exec_env \<Rightarrow> 'p exec_call \<Rightarrow> (nat \<Rightarrow> 'a result) \<Rightarrow> ('s, 'p, 'e, 'a) exec" where
  "outside env call answer = atomically env (\<lambda>n w. (answer n, w\<lparr>xw_trace := xw_trace w @ [call]\<rparr>))"

text \<open>A value dropped when the block is left with an error.\<close>

definition on_error :: "('w, 'a) io \<Rightarrow> ('w, unit) io \<Rightarrow> ('w, 'a) io" where
  "on_error m cleanup w = (case m w of (Inl e, w') \<Rightarrow> (Inl e, snd (cleanup w')) | (Inr x, w') \<Rightarrow> (Inr x, w'))"

section \<open>Observers\<close>

text \<open>\<open>send\<close> on an unbounded channel fails exactly when the receiver is gone.\<close>

definition send_to :: "'e message \<Rightarrow> nat \<Rightarrow> ('s, 'p, 'e) exec_world \<Rightarrow> ('s, 'p, 'e) exec_world" where
  "send_to msg ch w =
     (if xw_closed w ch then w else w\<lparr>xw_inbox := (xw_inbox w)(ch := xw_inbox w ch @ [msg])\<rparr>)"

definition context_observers :: "turn_key \<Rightarrow> ('s, 'p, 'e) exec_world \<Rightarrow> nat list" where
  "context_observers key w = (case map_of (xw_contexts w) key of None \<Rightarrow> [] | Some cx \<Rightarrow> tx_observers cx)"

definition set_observers :: "turn_key \<Rightarrow> nat list \<Rightarrow> ('s, 'p, 'e) exec_world \<Rightarrow> ('s, 'p, 'e) exec_world" where
  "set_observers key chs w =
     (case map_of (xw_contexts w) key of
        None \<Rightarrow> w
      | Some cx \<Rightarrow> w\<lparr>xw_contexts := AList.update key (cx\<lparr>tx_observers := chs\<rparr>) (xw_contexts w)\<rparr>)"

definition remove_context :: "turn_key \<Rightarrow> ('s, 'p, 'e) exec_world \<Rightarrow> ('s, 'p, 'e) exec_world" where
  "remove_context key w = w\<lparr>xw_contexts := AList.delete key (xw_contexts w)\<rparr>"

definition register_observer :: "turn_key \<Rightarrow> exec_runtime \<Rightarrow> nat \<Rightarrow> ('s, 'p, 'e) exec_world \<Rightarrow> ('s, 'p, 'e) exec_world" where
  "register_observer key rt observer w =
     (let cx = (case map_of (xw_contexts w) key of None \<Rightarrow> \<lparr> tx_runtime = rt, tx_observers = [] \<rparr> | Some cx \<Rightarrow> cx)
      in w\<lparr>xw_contexts := AList.update key (cx\<lparr>tx_observers := tx_observers cx @ [observer]\<rparr>) (xw_contexts w)\<rparr>)"

fun terminal :: "'e message \<Rightarrow> bool" where
  "terminal (Inl _) = True"
| "terminal (Inr (Completed _)) = True"
| "terminal (Inr _) = False"

definition broadcast :: "turn_key \<Rightarrow> 'e message \<Rightarrow> ('s, 'p, 'e) exec_world \<Rightarrow> ('s, 'p, 'e) exec_world" where
  "broadcast key event w =
     (let observers = context_observers key w;
          w1 = set_observers key (filter (\<lambda>ch. \<not> xw_closed w ch) observers) (fold (send_to event) observers w)
      in if terminal event then remove_context key w1 else w1)"

definition stop_observers :: "turn_key \<Rightarrow> string \<Rightarrow> ('s, 'p, 'e) exec_world \<Rightarrow> ('s, 'p, 'e) exec_world" where
  "stop_observers key error w =
     set_observers key []
       (fold (send_to (Inl (''turn execution stopped; work retained for recovery: '' @ error))) (context_observers key w) w)"

text \<open>A concurrent completion may already have delivered to the observer and removed it.\<close>

definition replay_completion :: "turn_key \<Rightarrow> nat \<Rightarrow> 'e message \<Rightarrow> ('s, 'p, 'e) exec_world \<Rightarrow> ('s, 'p, 'e) exec_world" where
  "replay_completion key observer result w =
     (case map_of (xw_contexts w) key of
        None \<Rightarrow> w
      | Some cx \<Rightarrow>
          (let w1 = (if observer \<in> set (tx_observers cx)
                     then send_to result observer (set_observers key (remove1 observer (tx_observers cx)) w)
                     else w)
           in if context_observers key w1 = [] then remove_context key w1 else w1))"

definition forget_observer :: "turn_key \<Rightarrow> nat \<Rightarrow> ('s, 'p, 'e) exec_world \<Rightarrow> ('s, 'p, 'e) exec_world" where
  "forget_observer key observer w =
     (case map_of (xw_contexts w) key of
        None \<Rightarrow> w
      | Some cx \<Rightarrow>
          (let w1 = set_observers key (filter (\<lambda>ch. ch \<noteq> observer) (tx_observers cx)) w
           in if context_observers key w1 = [] then remove_context key w1 else w1))"

definition new_channel :: "('s, 'p, 'e) exec_env \<Rightarrow> ('s, 'p, 'e, nat) exec" where
  "new_channel env = atomically env (\<lambda>_ w. (Ok (xw_next_channel w), w\<lparr>xw_next_channel := Suc (xw_next_channel w)\<rparr>))"

definition active_harness :: "turn_key \<Rightarrow> ('s, 'p, 'e) exec_world \<Rightarrow> nat option" where
  "active_harness key w =
     (case map_of (xw_active w) (thread_of key) of
        None \<Rightarrow> None
      | Some (harness, turn) \<Rightarrow> if turn = tk_turn_id key then Some harness else None)"

fun control_command :: "turn_key \<Rightarrow> turn_control \<Rightarrow> harness_command" where
  "control_command key Run = ResumeTurn key"
| "control_command key Cancel = CancelTurn key"
| "control_command key Suspend = SuspendTurn key"

definition signal :: "('s, 'p, 'e) exec_env \<Rightarrow> turn_key \<Rightarrow> turn_control \<Rightarrow> ('s, 'p, 'e, unit) exec" where
  "signal env key control =
     io_bind (shared env (active_harness key)) (\<lambda>h.
     case h of
       None \<Rightarrow> io_return ()
     | Some harness \<Rightarrow>
         outside env (Submitted harness (control_command key control))
           (\<lambda>n. xe_submit env n harness (control_command key control)))"

definition wait_for_active :: "('s, 'p, 'e) exec_env \<Rightarrow> turn_key \<Rightarrow> ('s, 'p, 'e, unit) exec" where
  "wait_for_active env key =
     io_bind (shared env (active_harness key)) (\<lambda>h.
     case h of None \<Rightarrow> io_return () | Some harness \<Rightarrow> outside env (Awaited harness key) (\<lambda>_. Ok ()))"

definition remove_active :: "turn_thread \<Rightarrow> ('s, 'p, 'e) exec_world \<Rightarrow> ('s, 'p, 'e) exec_world" where
  "remove_active scope w = w\<lparr>xw_active := AList.delete scope (xw_active w)\<rparr>"

section \<open>The journal of a turn\<close>

definition RUNTIME_TURN_WORK :: string where
  "RUNTIME_TURN_WORK = ''exo.runtime.turn_work''"

definition RUNTIME_TURN_COMPLETED :: string where
  "RUNTIME_TURN_COMPLETED = ''exo.runtime.turn_completed''"

definition CONVERSATION_MODEL_CONFIG_EVENT_TYPE :: string where
  "CONVERSATION_MODEL_CONFIG_EVENT_TYPE = ''conversation_model_config''"

datatype journal_status = Unstarted | Journal_Running | Finished "string + send_result"

fun is_turn_started :: "'p event_data \<Rightarrow> bool" where
  "is_turn_started (TurnStarted _) = True"
| "is_turn_started _ = False"

fun error_message :: "'p event_data \<Rightarrow> string option" where
  "error_message (ErrorEvent message _) = Some message"
| "error_message _ = None"

fun custom_payload :: "string \<Rightarrow> 'p event_data \<Rightarrow> 'p option" where
  "custom_payload name (Custom event_type payload) = (if event_type = name then Some payload else None)"
| "custom_payload name _ = None"

text \<open>\<open>Iterator::find_map\<close>\<close>

fun find_map :: "('a \<Rightarrow> 'b option) \<Rightarrow> 'a list \<Rightarrow> 'b option" where
  "find_map f [] = None"
| "find_map f (x # xs) = (case f x of Some y \<Rightarrow> Some y | None \<Rightarrow> find_map f xs)"

definition journal_status_from_events :: "'p event list \<Rightarrow> turn_record \<Rightarrow> journal_status" where
  "journal_status_from_events events turn =
     (case List.find (\<lambda>e. is_turn_ended (ev_data e)) events of
        None \<Rightarrow> if \<exists>e \<in> set events. is_turn_started (ev_data e) then Journal_Running else Unstarted
      | Some ended \<Rightarrow>
          (case find_map (\<lambda>e. error_message (ev_data e)) events of
             Some message \<Rightarrow> Finished (Inl message)
           | None \<Rightarrow> Finished (Inr \<lparr> sd_session_id = tn_session_id turn, sd_turn_id = tn_id turn,
                                     sd_latest_event_id = ev_id ended \<rparr>)))"

definition journal_query :: "uuid \<Rightarrow> string list \<Rightarrow> event_query" where
  "journal_query turn types = \<lparr> eq_cursor = None, eq_direction = Some Asc, eq_limit = None, eq_session_id = None,
     eq_turn_id = Some turn, eq_types = Some types \<rparr>"

definition recovery_query :: "uuid \<Rightarrow> event_query" where
  "recovery_query turn =
     journal_query turn [RUNTIME_TURN_WORK, RUNTIME_TURN_COMPLETED, ''turn_started'', ''turn_ended'', ''error'']"

definition journal_status :: "('s, 'p, 'e) exec_env \<Rightarrow> conversation_handle \<Rightarrow> turn_record \<Rightarrow> ('s, 'p, 'e, journal_status) exec" where
  "journal_status env thread turn =
     io_bind (logged env (get_events (xe_log env) thread
        (Some (journal_query (tn_id turn) [''turn_started'', ''turn_ended'', ''error''])))) (\<lambda>r.
     io_return (journal_status_from_events (ge_events r) turn))"

definition work_from_events :: "('s, 'p, 'e) exec_env \<Rightarrow> 'p event list \<Rightarrow> 'p turn_work result" where
  "work_from_events env events =
     and_then (ok_or (find_map (\<lambda>e. custom_payload RUNTIME_TURN_WORK (ev_data e)) events)
       ''unfinished turn has no recorded work'') (xe_decode env)"

definition work_event :: "('s, 'p, 'e) exec_env \<Rightarrow> 'p turn_work \<Rightarrow> 'p event_data result" where
  "work_event env work = and_then (xe_encode env work) (\<lambda>payload. Ok (Custom RUNTIME_TURN_WORK payload))"

definition persist_head_failure :: "('s, 'p, 'e) exec_env \<Rightarrow> conversation_handle \<Rightarrow> 'p turn_work queued_turn \<Rightarrow> journal_status
    \<Rightarrow> string \<Rightarrow> ('s, 'p, 'e, unit) exec" where
  "persist_head_failure env thread head status error =
     (case status of
        Finished _ \<Rightarrow> io_return ()
      | _ \<Rightarrow>
          io_bind (if status = Journal_Running then logged env (turn_handle (xe_log env) thread (qt_turn head))
                   else
                     io_bind (io_lift (work_event env (qt_work head))) (\<lambda>event.
                     logged env (begin_turn (xe_log env) None thread
                       \<lparr> bt_turn = qt_turn head, bt_new_session = (rq_session_id (wk_request (qt_work head)) = None),
                         bt_input = rq_input (wk_request (qt_work head)), bt_initial_events = [event] \<rparr>))) (\<lambda>turn.
          io_bind (logged env (turn_add_events (xe_log env) turn [ErrorEvent error (xe_no_metadata env)])) (\<lambda>(_, turn).
          io_bind (logged env (turn_finish (xe_log env) turn)) (\<lambda>_. io_return ()))))"

definition get_conversation_model_override :: "('s, 'p, 'e) exec_env \<Rightarrow> conversation_handle \<Rightarrow> ('s, 'p, 'e, model_config option) exec" where
  "get_conversation_model_override env thread =
     io_bind (logged env (get_events (xe_log env) thread
        (Some \<lparr> eq_cursor = None, eq_direction = Some Desc, eq_limit = Some 1, eq_session_id = None,
                eq_turn_id = None, eq_types = Some [CONVERSATION_MODEL_CONFIG_EVENT_TYPE] \<rparr>))) (\<lambda>r.
     case ge_events r of
       [] \<Rightarrow> io_return None
     | e # _ \<Rightarrow> (case ev_data e of Custom _ payload \<Rightarrow> io_lift (xe_model_config env payload) | _ \<Rightarrow> io_return None))"

section \<open>Opening the head of a queue\<close>

text \<open>The first step of \<open>start_local_turn\<close>: under the lock that shutdown takes, the thread's active turn is
  recorded unless the runtime is draining.\<close>

definition activate :: "exec_runtime \<Rightarrow> turn_thread \<Rightarrow> uuid \<Rightarrow> ('s, 'p, 'e, unit) exec" where
  "activate rt scope turn =
     io_bind (io_read xw_draining) (\<lambda>draining.
     io_bind (io_lift (ensure (\<not> draining) ''runtime is shutting down'')) (\<lambda>_.
     io_modify (\<lambda>w. w\<lparr>xw_active := AList.update scope (rt_harness rt, turn) (xw_active w)\<rparr>)))"

definition execute_turn :: "('s, 'p, 'e) exec_env \<Rightarrow> exec_runtime \<Rightarrow> turn_thread \<Rightarrow> turn_record \<Rightarrow> 'p turn_work \<Rightarrow> bool
    \<Rightarrow> ('s, 'p, 'e, unit) exec" where
  "execute_turn env rt scope turn work recovering =
     io_bind (atomically env (\<lambda>_. activate rt scope (tn_id turn))) (\<lambda>_.
     outside env (Executed rt turn work recovering) (\<lambda>n. xe_execute env n rt turn work recovering))"

text \<open>The runtime a head is executed by: that of its context when it acts for the head's submitter, else
  one resolved for the submitter, else the root's.\<close>

definition execution_runtime :: "('s, 'p, 'e) exec_env \<Rightarrow> exec_runtime option \<Rightarrow> string option \<Rightarrow> exec_runtime result" where
  "execution_runtime env cx who =
     and_then
       (case cx of
          Some rt \<Rightarrow>
            if rt_caller rt = who then Ok rt
            else (case who of
                    Some p \<Rightarrow> and_then (ok_or (xe_resolver env) ''caller-scoped queue recovery is unavailable'') (\<lambda>f. f p)
                  | None \<Rightarrow> Ok (xe_root env))
        | None \<Rightarrow>
            (case who of
               Some p \<Rightarrow> and_then (ok_or (xe_resolver env) ''caller-scoped queue recovery is unavailable'') (\<lambda>f. f p)
             | None \<Rightarrow> Ok (xe_root env)))
       (\<lambda>rt. and_then (ensure (rt_caller rt = who) ''queue recovery runtime has the wrong caller'') (\<lambda>_. Ok rt))"

definition require_agent :: "('s, 'p, 'e) exec_env \<Rightarrow> string option \<Rightarrow> uuid \<Rightarrow> string \<Rightarrow> ('s, 'p, 'e, unit) exec" where
  "require_agent env who agent msg =
     io_bind (ask env (\<lambda>n. xe_get_agent env n who agent)) (\<lambda>found. io_lift (ensure found msg))"

definition require_thread :: "('s, 'p, 'e) exec_env \<Rightarrow> string option \<Rightarrow> turn_thread \<Rightarrow> string \<Rightarrow> ('s, 'p, 'e, conversation_handle) exec" where
  "require_thread env who scope msg =
     io_bind (ask env (\<lambda>n. xe_get_thread env n who scope)) (\<lambda>found. io_lift (ok_or found msg))"

text \<open>The result tells whether there is a stream to follow.\<close>

definition open_queue_head :: "('s, 'p, 'e) exec_env \<Rightarrow> conversation_handle \<Rightarrow> turn_key \<Rightarrow> 'p turn_work queued_turn \<Rightarrow> bool
    \<Rightarrow> ('s, 'p, 'e, bool) exec" where
  "open_queue_head env root_thread key head was_started =
     io_bind (if was_started
              then io_bind (logged env (get_events (xe_log env) root_thread (Some (recovery_query (tk_turn_id key)))))
                     (\<lambda>r. io_return (ge_events r))
              else io_return []) (\<lambda>events.
     let status = journal_status_from_events events (qt_turn head) in
     case status of
       Finished _ \<Rightarrow> io_return False
     | _ \<Rightarrow>
         if qt_control head = Cancel then io_fail (Error ''turn cancelled'')
         else if \<exists>e \<in> set events. error_message (ev_data e) \<noteq> None \<or>
                  custom_payload RUNTIME_TURN_COMPLETED (ev_data e) \<noteq> None
         then
           io_bind (logged env (turn_handle (xe_log env) root_thread (qt_turn head))) (\<lambda>turn.
           io_bind (logged env (turn_finish (xe_log env) turn)) (\<lambda>_. io_return False))
         else
           io_bind (shared env (\<lambda>w. map_option tx_runtime (map_of (xw_contexts w) key))) (\<lambda>cx.
           io_bind (if cx = None then ask env (xe_recovery_slot env) else io_return ()) (\<lambda>_.
           io_bind (io_lift (execution_runtime env cx (qt_principal head))) (\<lambda>execution.
           io_bind (require_agent env (rt_caller execution) (tk_agent_id key) ''queue caller cannot access agent'') (\<lambda>_.
           io_bind (require_thread env (rt_caller execution) (thread_of key) ''queue caller cannot access thread'') (\<lambda>_.
           io_bind (if status = Journal_Running
                    then io_bind (io_lift (work_from_events env events)) (\<lambda>work.
                           execute_turn env execution (thread_of key) (qt_turn head) work True)
                    else execute_turn env execution (thread_of key) (qt_turn head) (qt_work head) False) (\<lambda>_.
           io_return True)))))))"

section \<open>The queue task\<close>

text \<open>The value of a watch is read when the environment reports a change.\<close>

definition next_control :: "('s, 'p, 'e) exec_env \<Rightarrow> nat \<Rightarrow> ('s, 'p, 'e, turn_control) exec" where
  "next_control env ch =
     atomically env (\<lambda>n w.
       (case xe_control env n of
          Control_Changed \<Rightarrow> ok_or (tc_watch (xw_coord w) ch) ''turn control watch ended''
        | Control_Error e \<Rightarrow> bail e
        | Control_Closed \<Rightarrow> bail ''turn control watch ended'', w))"

text \<open>The \<open>select!\<close> loop, with fuel for its iterations: whether a suspension was seen and the last failure, or
  nothing while the stream is open.\<close>

fun follow_stream :: "nat \<Rightarrow> ('s, 'p, 'e) exec_env \<Rightarrow> turn_key \<Rightarrow> nat \<Rightarrow> bool \<Rightarrow> string option
    \<Rightarrow> ('s, 'p, 'e, (bool \<times> string option) option) exec" where
  "follow_stream 0 env key ch suspended error = io_return None"
| "follow_stream (Suc fuel) env key ch suspended error =
     io_bind (ask env (\<lambda>n. Ok (xe_select env n))) (\<lambda>answer.
     case answer of
       Control_Ready \<Rightarrow>
         io_bind (next_control env ch) (\<lambda>control.
         io_bind (signal env key control) (\<lambda>_.
         follow_stream fuel env key ch (suspended \<or> control = Suspend) error))
     | Stream_Item event \<Rightarrow>
         io_bind (update_shared env (broadcast key (Inr event))) (\<lambda>_.
         follow_stream fuel env key ch suspended error)
     | Stream_Failed e \<Rightarrow> follow_stream fuel env key ch suspended (Some e)
     | Stream_Suspended \<Rightarrow> follow_stream fuel env key ch True (Some ''turn suspended'')
     | Stream_Closed \<Rightarrow> io_return (Some (suspended, error)))"

datatype 'w head_outcome = Again | Stopped | Next "'w queued_turn option"

definition acknowledge_head :: "('s, 'p, 'e) exec_env \<Rightarrow> turn_lease \<Rightarrow> uuid \<Rightarrow> ('s, 'p, 'e, 'p turn_work head_outcome option) exec" where
  "acknowledge_head env lease turn =
     io_bind (coord env (acknowledge (xe_ops env) lease turn)) (\<lambda>head. io_return (Some (Next head)))"

text \<open>A head whose stream ended without a journaled end: left in the queue when the runtime drains or the turn
  was suspended, else failed in the journal and acknowledged.\<close>

definition fail_head :: "('s, 'p, 'e) exec_env \<Rightarrow> turn_lease \<Rightarrow> conversation_handle \<Rightarrow> turn_key \<Rightarrow> 'p turn_work queued_turn
    \<Rightarrow> journal_status \<Rightarrow> bool \<Rightarrow> string option \<Rightarrow> ('s, 'p, 'e, 'p turn_work head_outcome option) exec" where
  "fail_head env lease thread key head status suspended error =
     io_bind (shared env xw_draining) (\<lambda>draining.
     if draining then io_return (Some Stopped)
     else
       io_bind (coord env (peek (xe_ops env) lease)) (\<lambda>current.
       io_bind (io_lift (ok_or current ''queue head disappeared'')) (\<lambda>current.
       if qt_control current = Suspend then io_return (Some Again)
       else if qt_control current = Run \<and> suspended then io_return (Some Again)
       else
         (let e = (case error of Some e \<Rightarrow> e | None \<Rightarrow> ''turn execution stopped without completion'') in
          io_bind (persist_head_failure env thread head status e) (\<lambda>_.
          io_bind (update_shared env (broadcast key (Inl e))) (\<lambda>_.
          acknowledge_head env lease (entry_id head)))))))"

definition journal_message :: "string + send_result \<Rightarrow> 'e message" where
  "journal_message result = (case result of Inl e \<Rightarrow> Inl e | Inr r \<Rightarrow> Inr (Completed r))"

text \<open>After the stream of a head has ended: the journal decides.\<close>

definition settle_head :: "('s, 'p, 'e) exec_env \<Rightarrow> turn_lease \<Rightarrow> conversation_handle \<Rightarrow> turn_key \<Rightarrow> 'p turn_work queued_turn
    \<Rightarrow> bool \<Rightarrow> string option \<Rightarrow> ('s, 'p, 'e, 'p turn_work head_outcome option) exec" where
  "settle_head env lease thread key head suspended error =
     io_bind (journal_status env thread (qt_turn head)) (\<lambda>status.
     case status of
       Finished result \<Rightarrow>
         io_bind (update_shared env (broadcast key (journal_message result))) (\<lambda>_.
         acknowledge_head env lease (entry_id head))
     | _ \<Rightarrow> fail_head env lease thread key head status suspended error)"

text \<open>One runnable head: start it; then open it, follow its stream, settle it.\<close>

definition run_started :: "nat \<Rightarrow> ('s, 'p, 'e) exec_env \<Rightarrow> turn_lease \<Rightarrow> bool \<Rightarrow> 'p turn_work turn_start
    \<Rightarrow> ('s, 'p, 'e, 'p turn_work head_outcome option) exec" where
  "run_started fuel env lease was_started started =
     (let scope = ls_thread lease; root = rt_caller (xe_root env); key = key_of scope (entry_id (sr_head started)) in
      io_bind (require_agent env root (th_agent_id scope) ''queue agent no longer exists'') (\<lambda>_.
      io_bind (require_thread env root scope ''queue thread no longer exists'') (\<lambda>thread.
      io_bind (next_control env (sr_control started)) (\<lambda>control.
      if control = Suspend then io_return (Some Again)
      else
        (let head = (sr_head started)\<lparr>qt_control := control\<rparr> in
         io_bind (io_try (open_queue_head env thread key head was_started)) (\<lambda>opened.
         io_bind (case opened of
              Inl e \<Rightarrow> io_return (Some (False, Some e))
            | Inr False \<Rightarrow> io_return (Some (False, None))
            | Inr True \<Rightarrow> follow_stream fuel env key (sr_control started) False None) (\<lambda>followed.
         case followed of
           None \<Rightarrow> io_return None
         | Some (suspended, error) \<Rightarrow>
             io_bind (wait_for_active env key) (\<lambda>_.
             io_bind (update_shared env (remove_active scope)) (\<lambda>_.
             settle_head env lease thread key head suspended error)))))))))"

definition run_head :: "nat \<Rightarrow> ('s, 'p, 'e) exec_env \<Rightarrow> turn_lease \<Rightarrow> 'p turn_work queued_turn
    \<Rightarrow> ('s, 'p, 'e, 'p turn_work head_outcome option) exec" where
  "run_head fuel env lease peeked =
     io_bind (coord env (start (xe_ops env) lease (entry_id peeked)))
       (run_started fuel env lease (qt_started peeked))"

definition suspended_head :: "'w queued_turn option \<Rightarrow> bool" where
  "suspended_head head = (case head of None \<Rightarrow> True | Some h \<Rightarrow> qt_control h = Suspend)"

text \<open>The loop, with fuel for the heads taken (and for each stream): nothing while it is running.\<close>

fun run_queue :: "nat \<Rightarrow> ('s, 'p, 'e) exec_env \<Rightarrow> turn_lease \<Rightarrow> 'p turn_work queued_turn option option
    \<Rightarrow> ('s, 'p, 'e, unit option) exec" where
  "run_queue 0 env lease initial_head = io_return None"
| "run_queue (Suc fuel) env lease initial_head =
     io_bind (shared env xw_draining) (\<lambda>draining.
     if draining then io_return (Some ())
     else
       io_bind (case initial_head of Some head \<Rightarrow> io_return head | None \<Rightarrow> coord env (peek (xe_ops env) lease)) (\<lambda>head.
       io_bind (io_modify (\<lambda>w. w\<lparr>xw_current := map_option (\<lambda>h. key_of (ls_thread lease) (entry_id h)) head\<rparr>)) (\<lambda>_.
       if suspended_head head then
         io_bind (case head of
              None \<Rightarrow> io_return ()
            | Some h \<Rightarrow> update_shared env (broadcast (key_of (ls_thread lease) (entry_id h)) (Inr (Suspended (qt_turn h))))) (\<lambda>_.
         io_bind (coord env (release_if_idle (xe_ops env) lease)) (\<lambda>idle.
         if idle then io_return (Some ()) else run_queue fuel env lease None))
       else
         io_bind (run_head fuel env lease (the head)) (\<lambda>outcome.
         case outcome of
           None \<Rightarrow> io_return None
         | Some Again \<Rightarrow> run_queue fuel env lease None
         | Some Stopped \<Rightarrow> io_return (Some ())
         | Some (Next next_head) \<Rightarrow> run_queue fuel env lease (Some next_head)))))"

definition drop_lease_now :: "('s, 'p, 'e) exec_env \<Rightarrow> turn_lease \<Rightarrow> ('s, 'p, 'e, unit) exec" where
  "drop_lease_now env lease = coord env (io_modify (drop_lease lease))"

text \<open>The spawned task. Its lease is dropped on every way out, also when it unwinds.\<close>

definition queue_task :: "nat \<Rightarrow> ('s, 'p, 'e) exec_env \<Rightarrow> turn_lease \<Rightarrow> 'p turn_work queued_turn option
    \<Rightarrow> ('s, 'p, 'e, unit option) exec" where
  "queue_task fuel env lease initial_head =
     io_bind (io_modify (\<lambda>w. w\<lparr>xw_current := map_option (\<lambda>h. key_of (ls_thread lease) (entry_id h)) initial_head\<rparr>)) (\<lambda>_.
     io_bind (on_error (io_try (run_queue fuel env lease (Some initial_head))) (drop_lease_now env lease)) (\<lambda>result.
     case result of
       Inr None \<Rightarrow> io_return None
     | Inr (Some _) \<Rightarrow> io_bind (drop_lease_now env lease) (\<lambda>_. io_return (Some ()))
     | Inl error \<Rightarrow>
         io_bind (io_read xw_current) (\<lambda>head.
         io_bind (case head of
              None \<Rightarrow> io_return ()
            | Some key \<Rightarrow> io_bind (io_try (signal env key Suspend)) (\<lambda>_. wait_for_active env key)) (\<lambda>_.
         io_bind (update_shared env (remove_active (ls_thread lease))) (\<lambda>_.
         io_bind (drop_lease_now env lease) (\<lambda>_.
         io_bind (case head of None \<Rightarrow> io_return () | Some key \<Rightarrow> update_shared env (stop_observers key error)) (\<lambda>_.
         io_return (Some ()))))))))"

definition spawn_queue :: "('s, 'p, 'e) exec_env \<Rightarrow> turn_thread \<Rightarrow> ('s, 'p, 'e, unit) exec" where
  "spawn_queue env scope =
     io_bind (coord env (claim scope)) (\<lambda>claimed.
     case claimed of
       None \<Rightarrow> io_return ()
     | Some lease \<Rightarrow>
         io_bind (on_error (coord env (peek (xe_ops env) lease)) (drop_lease_now env lease)) (\<lambda>initial_head.
         update_shared env (\<lambda>w. w\<lparr>xw_tasks := xw_tasks w @ [(lease, initial_head)]\<rparr>)))"

definition ensure_not_draining :: "('s, 'p, 'e) exec_env \<Rightarrow> ('s, 'p, 'e, unit) exec" where
  "ensure_not_draining env =
     io_bind (shared env xw_draining) (\<lambda>draining. io_lift (ensure (\<not> draining) ''runtime is shutting down''))"

definition drain_queue :: "('s, 'p, 'e) exec_env \<Rightarrow> turn_thread \<Rightarrow> ('s, 'p, 'e, unit) exec" where
  "drain_queue env scope = io_bind (ensure_not_draining env) (\<lambda>_. spawn_queue env scope)"

fun drain_each :: "('s, 'p, 'e) exec_env \<Rightarrow> turn_thread list \<Rightarrow> ('s, 'p, 'e, unit) exec" where
  "drain_each env [] = io_return ()"
| "drain_each env (scope # scopes) = io_bind (io_try (drain_queue env scope)) (\<lambda>_. drain_each env scopes)"

definition recover_local_turns :: "('s, 'p, 'e) exec_env \<Rightarrow> ('s, 'p, 'e, unit) exec" where
  "recover_local_turns env = io_bind (coord env (pending_threads (xe_ops env))) (drain_each env)"

section \<open>Controlling queued turns\<close>

definition turn_authority_of :: "exec_runtime \<Rightarrow> turn_authority" where
  "turn_authority_of rt = (case rt_caller rt of Some who \<Rightarrow> Submitter who | None \<Rightarrow> ThreadOwner)"

definition finish_queued_control :: "('s, 'p, 'e) exec_env \<Rightarrow> turn_key \<Rightarrow> turn_control_outcome \<Rightarrow> turn_control \<Rightarrow> ('s, 'p, 'e, bool) exec" where
  "finish_queued_control env key outcome control =
     (if outcome = Queued \<or> outcome = Running then
        io_bind (signal env key control) (\<lambda>_.
        io_bind (io_try (spawn_queue env (thread_of key))) (\<lambda>spawned.
        io_bind (case spawned of
             Inl error \<Rightarrow> update_shared env (stop_observers key error)
           | Inr _ \<Rightarrow> io_return ()) (\<lambda>_.
        io_return True)))
      else if outcome = NotAccessible then
        io_fail (Error ''only the submitter or thread owner may control this turn'')
      else io_return False)"

definition cancel_queued_turn :: "('s, 'p, 'e) exec_env \<Rightarrow> exec_runtime \<Rightarrow> turn_key \<Rightarrow> ('s, 'p, 'e, bool) exec" where
  "cancel_queued_turn env rt key =
     io_bind (ensure_not_draining env) (\<lambda>_.
     io_bind (coord env (cancel (xe_ops env) (thread_of key) (tk_turn_id key) (turn_authority_of rt))) (\<lambda>outcome.
     finish_queued_control env key outcome Cancel))"

definition set_queued_suspended :: "('s, 'p, 'e) exec_env \<Rightarrow> exec_runtime \<Rightarrow> turn_key \<Rightarrow> bool \<Rightarrow> ('s, 'p, 'e, bool) exec" where
  "set_queued_suspended env rt key suspended =
     io_bind (ensure_not_draining env) (\<lambda>_.
     io_bind (if suspended
              then io_bind (coord env (get_turn (xe_ops env) (thread_of key) (tk_turn_id key))) (\<lambda>entry.
                     io_return (case entry of
                         None \<Rightarrow> False
                       | Some e \<Rightarrow> xe_can_suspend env (wk_agent_config (qt_work e))))
              else io_return True) (\<lambda>go.
     if \<not> go then io_return False
     else
       io_bind (coord env (set_suspended (xe_ops env) (thread_of key) (tk_turn_id key) (turn_authority_of rt) suspended)) (\<lambda>outcome.
       finish_queued_control env key outcome (if suspended then Suspend else Run))))"

text \<open>The receiver of the new channel stands for the returned stream.\<close>

definition resume_local_turn :: "('s, 'p, 'e) exec_env \<Rightarrow> exec_runtime \<Rightarrow> turn_key \<Rightarrow> ('s, 'p, 'e, nat) exec" where
  "resume_local_turn env rt key =
     io_bind (new_channel env) (\<lambda>sender.
     io_bind (update_shared env (register_observer key rt sender)) (\<lambda>_.
     io_bind (io_try (set_queued_suspended env rt key False)) (\<lambda>resumed.
     case resumed of
       Inr True \<Rightarrow> io_return sender
     | _ \<Rightarrow>
         io_bind (update_shared env (forget_observer key sender)) (\<lambda>_.
         io_fail (Error (case resumed of Inl e \<Rightarrow> e | Inr _ \<Rightarrow> ''turn is no longer queued''))))))"

section \<open>Accepting a turn\<close>

text \<open>The configuration of a turn: the agent's or the override, with the thread's model unless overridden.\<close>

definition turn_config :: "('s, 'p, 'e) exec_env \<Rightarrow> turn_thread \<Rightarrow> conversation_handle \<Rightarrow> 'p agent_config option
    \<Rightarrow> ('s, 'p, 'e, 'p agent_config) exec" where
  "turn_config env scope thread config_override =
     (case config_override of
        Some config \<Rightarrow> io_return config
      | None \<Rightarrow>
          io_bind (ask env (\<lambda>n. xe_agent_config env n (th_agent_id scope))) (\<lambda>config.
          io_bind (get_conversation_model_override env thread) (\<lambda>model.
          io_return (case model of
              None \<Rightarrow> config
            | Some m \<Rightarrow> config\<lparr>ag_model := mc_model m, ag_max_output_tokens := mc_max_output_tokens m\<rparr>))))"

text \<open>A duplicate submission observes the accepted turn: its own context is dropped, it registers with the
  accepted one and replays the completion the journal may already hold.\<close>

definition observe_duplicate :: "('s, 'p, 'e) exec_env \<Rightarrow> exec_runtime \<Rightarrow> conversation_handle \<Rightarrow> turn_key \<Rightarrow> turn_key \<Rightarrow> nat \<Rightarrow> turn_record
    \<Rightarrow> ('s, 'p, 'e, unit) exec" where
  "observe_duplicate env rt thread key accepted_key sender accepted =
     io_bind (update_shared env (remove_context key)) (\<lambda>_.
     io_bind (update_shared env (register_observer accepted_key rt sender)) (\<lambda>_.
     io_bind (io_try (journal_status env thread accepted)) (\<lambda>status.
     case status of
       Inr (Finished result) \<Rightarrow>
         update_shared env (replay_completion accepted_key sender (journal_message result))
     | _ \<Rightarrow> io_return ())))"

text \<open>Submitting a turn: its observer is registered before the queue entry can become visible. Once the turn is
  accepted, a failure to wake the queue is told to the observers and not to the caller.\<close>

definition submit_turn :: "('s, 'p, 'e) exec_env \<Rightarrow> exec_runtime \<Rightarrow> turn_thread \<Rightarrow> conversation_handle \<Rightarrow> 'p turn_work turn_submission
    \<Rightarrow> ('s, 'p, 'e, turn_record \<times> nat) exec" where
  "submit_turn env rt scope thread submission =
     (let key = key_of scope (tn_id (sb_turn submission)) in
      io_bind (new_channel env) (\<lambda>sender.
      io_bind (update_shared env (register_observer key rt sender)) (\<lambda>_.
      io_bind (ask env (\<lambda>n. Ok (xe_clock env n))) (\<lambda>now.
      io_bind (on_error (coord env (enqueue (xe_ops env) now scope submission)) (update_shared env (remove_context key))) (\<lambda>accepted.
      let accepted_key = key_of scope (tn_id (ac_turn accepted)) in
      io_bind (if ac_duplicate accepted
               then observe_duplicate env rt thread key accepted_key sender (ac_turn accepted)
               else io_return ()) (\<lambda>_.
      io_bind (io_try (spawn_queue env scope)) (\<lambda>spawned.
      io_bind (case spawned of
           Inl error \<Rightarrow> update_shared env (stop_observers accepted_key error)
         | Inr _ \<Rightarrow> io_return ()) (\<lambda>_.
      io_return (ac_turn accepted, sender)))))))))"

definition accept_local_turn :: "('s, 'p, 'e) exec_env \<Rightarrow> exec_runtime \<Rightarrow> turn_thread \<Rightarrow> conversation_handle \<Rightarrow> string option
    \<Rightarrow> 'p send_request \<Rightarrow> bool \<Rightarrow> 'p agent_config option \<Rightarrow> turn_options \<Rightarrow> ('s, 'p, 'e, turn_record \<times> nat) exec" where
  "accept_local_turn env rt scope thread caller request streaming config_override options =
     io_bind (ensure_not_draining env) (\<lambda>_.
     io_bind (ensure_not_draining env) (\<lambda>_.
     io_bind (case caller of None \<Rightarrow> io_return () | Some who \<Rightarrow> ask env (\<lambda>n. xe_check env n who scope)) (\<lambda>_.
     io_bind (turn_config env scope thread config_override) (\<lambda>config.
     io_bind (ask env (\<lambda>n. xe_thread_config env n (th_thread_id scope))) (\<lambda>thread_config.
     let work = \<lparr> wk_streaming = streaming, wk_agent_config = config, wk_thread_config = thread_config, wk_request = request \<rparr> in
     io_bind (logged env (uuid_now (xe_log env))) (\<lambda>turn_id.
     io_bind (case rq_session_id request of Some s \<Rightarrow> io_return s | None \<Rightarrow> logged env (uuid_now (xe_log env))) (\<lambda>session.
     submit_turn env rt scope thread
       \<lparr> sb_turn = \<lparr> tn_id = turn_id, tn_session_id = session \<rparr>, sb_work = work, sb_principal = caller,
         sb_options = options \<rparr>)))))))"

section \<open>Shutdown\<close>

text \<open>The provider first refuses new work; then the queue runtime stops the harnesses of the active turns and
  its own, waits for the queue tasks and tells every remaining observer.\<close>

definition begin_shutdown :: "('s, 'p, 'e) exec_env \<Rightarrow> ('s, 'p, 'e, unit) exec" where
  "begin_shutdown env = update_shared env (\<lambda>w. w\<lparr>xw_draining := True\<rparr>)"

fun shutdown_harnesses :: "('s, 'p, 'e) exec_env \<Rightarrow> nat list \<Rightarrow> ('s, 'p, 'e, string list) exec" where
  "shutdown_harnesses env [] = io_return []"
| "shutdown_harnesses env (h # hs) =
     io_bind (io_try (outside env (Harness_Shutdown h) (\<lambda>n. xe_harness_shutdown env n h))) (\<lambda>r.
     io_bind (shutdown_harnesses env hs) (\<lambda>errors.
     io_return (case r of Inl e \<Rightarrow> e # errors | Inr _ \<Rightarrow> errors)))"

fun join_tasks :: "('s, 'p, 'e) exec_env \<Rightarrow> 'a list \<Rightarrow> ('s, 'p, 'e, string list) exec" where
  "join_tasks env [] = io_return []"
| "join_tasks env (t # ts) =
     io_bind (io_try (ask env (xe_join env))) (\<lambda>r.
     io_bind (join_tasks env ts) (\<lambda>errors.
     io_return (case r of Inl e \<Rightarrow> e # errors | Inr _ \<Rightarrow> errors)))"

definition interrupt_observers :: "(turn_key \<times> turn_context) list \<Rightarrow> ('s, 'p, 'e) exec_env \<Rightarrow> ('s, 'p, 'e) exec_world \<Rightarrow> ('s, 'p, 'e) exec_world" where
  "interrupt_observers contexts env =
     fold (\<lambda>(key, cx). fold (send_to (Inl (''turn '' @ ut_show (le_text (xe_log env)) (tk_turn_id key) @ '' interrupted by shutdown'')))
       (tx_observers cx)) contexts"

fun join_strings :: "string \<Rightarrow> string list \<Rightarrow> string" where
  "join_strings sep [] = []"
| "join_strings sep [x] = x"
| "join_strings sep (x # y # ys) = x @ sep @ join_strings sep (y # ys)"

definition shutdown_queue :: "('s, 'p, 'e) exec_env \<Rightarrow> nat \<Rightarrow> ('s, 'p, 'e, unit) exec" where
  "shutdown_queue env root =
     io_bind (shared env (\<lambda>w. map (\<lambda>(_, harness, _). harness) (xw_active w))) (\<lambda>active.
     io_bind (shutdown_harnesses env (remdups_adj (sort (active @ [root])))) (\<lambda>errors1.
     io_bind (atomically env (\<lambda>_ w. (Ok (xw_tasks w), w\<lparr>xw_tasks := []\<rparr>))) (\<lambda>tasks.
     io_bind (join_tasks env tasks) (\<lambda>errors2.
     io_bind (atomically env (\<lambda>_ w. (Ok (xw_contexts w), w\<lparr>xw_contexts := []\<rparr>))) (\<lambda>contexts.
     io_bind (update_shared env (interrupt_observers contexts env)) (\<lambda>_.
     io_lift (ensure (errors1 @ errors2 = [])
       (''turn queue shutdown failed: '' @ join_strings ''; '' (errors1 @ errors2)))))))))"

end
