(* ===== verification/Turn_Delivery.thy ===== *)
theory Turn_Delivery
  imports Turn_Executor
begin

text \<open>
  What the queue task of a thread guarantees while the rest of the process runs beside it
  (\<^verbatim>\<open>crates/executor/src/turn_queue.rs\<close>). What one task relies on of the others is a relation between the worlds
  before and after they act; the locale \<open>exec_relation\<close> collects what a relation has to allow so that the whole
  task stays inside it, and is interpreted on the relations the properties need.
\<close>

section \<open>Event objects are written once\<close>

text \<open>A key of an event names its identifiers, which are fresh: no call writes such a key after another
  has.\<close>

definition writes_once :: "log_env \<Rightarrow> bool" where
  "writes_once env \<longleftrightarrow>
     (\<forall>m n key. m < n \<longrightarrow> le_put env m key = Inr () \<longrightarrow> event_id_from_key (le_text env) key \<noteq> None \<longrightarrow>
        le_put env n key \<noteq> Inr ())"

definition unwritten :: "log_env \<Rightarrow> string \<Rightarrow> 'p log_world \<Rightarrow> bool" where
  "unwritten env dir w \<longleftrightarrow>
     (\<forall>key \<in> set (log_keys env dir (lw_store w)). \<forall>n \<ge> lw_calls w. le_put env n key \<noteq> Inr ())"

definition keeps_events :: "log_env \<Rightarrow> string \<Rightarrow> 'p log_world \<Rightarrow> 'p log_world \<Rightarrow> bool" where
  "keeps_events env dir w w' \<longleftrightarrow>
     (unwritten env dir w \<longrightarrow> unwritten env dir w' \<and>
        (\<forall>key \<in> set (log_keys env dir (lw_store w)).
           key \<in> set (log_keys env dir (lw_store w')) \<and> store_get (lw_store w') key = store_get (lw_store w) key))"

definition ended_in :: "log_env \<Rightarrow> string \<Rightarrow> uuid \<Rightarrow> 'p log_world \<Rightarrow> bool" where
  "ended_in env dir turn w \<longleftrightarrow>
     (\<exists>key \<in> set (log_keys env dir (lw_store w)). \<exists>e \<in> set (object_at (lw_store w) key).
        ev_turn_id e = Some turn \<and> is_turn_ended (ev_data e))"

lemma log_keys_iff: "key \<in> set (log_keys env dir s) \<longleftrightarrow>
    store_get s key \<noteq> None \<and> below (events_dir dir) key \<and> event_id_from_key (le_text env) key \<noteq> None"
  by (auto simp: log_keys_def list_keys_mem)

lemma keeps_events_refl: "reflp (keeps_events env dir)"
  by (simp add: reflp_def keeps_events_def)

lemma keeps_events_trans: "transp (keeps_events env dir)"
  unfolding transp_def keeps_events_def by (metis)

lemma ended_kept: "keeps_events env dir w w' \<Longrightarrow> unwritten env dir w \<Longrightarrow> ended_in env dir t w \<Longrightarrow> ended_in env dir t w'"
  unfolding keeps_events_def ended_in_def object_at_def by metis

lemmas keeps_bind = io_keeps_bind [OF keeps_events_trans]
lemmas keeps_pure = io_keeps_pure [OF keeps_events_refl]

lemma keeps_same: "(\<And>w. lw_store (snd (m w)) = lw_store w \<and> lw_calls w \<le> lw_calls (snd (m w))) \<Longrightarrow>
    io_keeps (keeps_events env dir) m"
  by (simp add: io_keeps_def keeps_events_def unwritten_def) (metis order_trans)

lemma keeps_now: "io_keeps (keeps_events env dir) (uuid_now env')"
  by (rule keeps_same) (simp add: uuid_now_def)

lemma keeps_modify: "(\<And>w. lw_store (f w) = lw_store w \<and> lw_calls (f w) = lw_calls w) \<Longrightarrow>
    io_keeps (keeps_events env dir) (io_modify f)"
  by (rule keeps_same) (simp add: io_modify_def)

lemma keeps_put:
  assumes "writes_once env"
  shows "io_keeps (keeps_events env dir) (put_object env key x)"
proof -
  have "keeps_events env dir w (snd (put_object env key x w))" for w
  proof (cases "le_put env (lw_calls w) key")
    case (Inl e)
    then show ?thesis by (simp add: put_object_def keeps_events_def unwritten_def)
  next
    case (Inr u)
    let ?w = "snd (put_object env key x w)"
    have w': "lw_store ?w = store_put key x (lw_store w)" "lw_calls ?w = Suc (lw_calls w)"
      using Inr by (simp_all add: put_object_def)
    have later: "le_put env n key \<noteq> Inr ()" if "event_id_from_key (le_text env) key \<noteq> None" "Suc (lw_calls w) \<le> n" for n
      using assms Inr that unfolding writes_once_def by (metis Suc_le_lessD unit_eq)
    show ?thesis
      unfolding keeps_events_def
    proof (intro impI conjI ballI)
      assume un: "unwritten env dir w"
      show "unwritten env dir ?w"
        using un later by (auto simp: unwritten_def w' log_keys_iff split: if_splits)
    next
      fix k
      assume un: "unwritten env dir w" and k: "k \<in> set (log_keys env dir (lw_store w))"
      have "k \<noteq> key" using un k Inr by (auto simp: unwritten_def)
      then show "k \<in> set (log_keys env dir (lw_store ?w))" "store_get (lw_store ?w) k = store_get (lw_store w) k"
        using k by (auto simp: w' log_keys_iff)
    qed
  qed
  then show ?thesis by (simp add: io_keeps_def)
qed

lemma keeps_build: "io_keeps (keeps_events env dir) (build_events env' c s t ds)"
  by (induction ds) (auto intro!: keeps_bind keeps_pure keeps_now)

lemma keeps_append: "writes_once env \<Longrightarrow> io_keeps (keeps_events env dir) (append_events_to_conversation env d c s t e ds r)"
  unfolding append_events_to_conversation_def commit_events_def
  by (intro keeps_bind keeps_pure keeps_build) (auto intro!: keeps_put keeps_modify keeps_pure)

lemma keeps_begin_turn: "writes_once env \<Longrightarrow> io_keeps (keeps_events env dir) (begin_turn env user h request)"
  unfolding begin_turn_def case_prod_beta
  by (intro keeps_bind keeps_pure keeps_append keeps_modify) (auto simp: remember_appended_batch_def Let_def)

lemma keeps_turn_append: "writes_once env \<Longrightarrow> io_keeps (keeps_events env dir) (turn_append env t ds)"
  unfolding turn_append_def case_prod_beta by (intro keeps_bind keeps_pure keeps_append)

lemma keeps_turn_add: "writes_once env \<Longrightarrow> io_keeps (keeps_events env dir) (turn_add_events env t ds)"
  unfolding turn_add_events_def by (intro keeps_bind keeps_pure keeps_turn_append keeps_modify) auto

lemma keeps_turn_finish: "writes_once env \<Longrightarrow> io_keeps (keeps_events env dir) (turn_finish env t)"
  unfolding turn_finish_def by (auto intro!: keeps_bind keeps_pure keeps_turn_append)

lemma keeps_turn_handle: "io_keeps (keeps_events env dir) (turn_handle env' h r)"
  unfolding turn_handle_def Let_def by (intro keeps_bind keeps_pure)

lemma keeps_get_events: "io_keeps (keeps_events env dir) (get_events env' h q)"
  unfolding get_events_def by (intro keeps_bind keeps_pure)

lemmas keeps_log = keeps_begin_turn keeps_turn_add keeps_turn_finish keeps_turn_handle keeps_get_events keeps_now

section \<open>When a turn has ended\<close>

lemma loaded_event:
  assumes "load_events env dir s = Inr es" and "e \<in> set es"
  shows "\<exists>key \<in> set (log_keys env dir s). e \<in> set (object_at s key)"
proof -
  obtain chunks where chunks: "map_res (load_event_object s) (log_keys env dir s) = Inr chunks" "es = sort_key ev_id (concat chunks)"
    using assms(1) by (auto simp: load_events_def log_keys_def and_then_Inr_iff)
  obtain chunk where c: "chunk \<in> set chunks" "e \<in> set chunk" using assms(2) chunks(2) by auto
  obtain key where key: "key \<in> set (log_keys env dir s)" "load_event_object s key = Inr chunk"
    using list_all2_in_right [OF chunks(1) [unfolded map_res_Inr_iff] c(1)] by blast
  have "e \<in> set (object_at s key)"
    using key(2) c(2) by (auto simp: load_event_object_def object_at_def object_events_def decode_batch_def decode_event_def
        split: option.splits stored_object.splits if_splits)
  with key(1) show ?thesis by blast
qed

lemma ended_event: "load_events env dir (lw_store w) = Inr es \<Longrightarrow> e \<in> set es \<Longrightarrow> ev_turn_id e = Some t \<Longrightarrow>
    is_turn_ended (ev_data e) \<Longrightarrow> ended_in env dir t w"
  using loaded_event [of env dir "lw_store w" es e] by (auto simp: ended_in_def)

lemma finished_status:
  assumes "journal_status_from_events es turn = Finished r"
  obtains e where "e \<in> set es" "is_turn_ended (ev_data e)"
  using assms find_in_set [of "\<lambda>e. is_turn_ended (ev_data e)" es]
  by (auto simp: journal_status_from_events_def split: option.splits if_splits)

lemma finished_turn_ended:
  assumes "get_events env h (Some (journal_query (tn_id turn) types)) w = (Inr r, w')"
    and "journal_status_from_events (ge_events r) turn = Finished x"
  shows "ended_in env (ch_dir h) (tn_id turn) w'"
proof -
  obtain es where es: "load_events env (ch_dir h) (lw_store w) = Inr es" "w' = w"
    "r = select_events (Some (journal_query (tn_id turn) types)) es"
    using assms(1) by (auto simp: get_events_def io_bind_Inr_iff io_lift_def io_read_def io_return_def)
  obtain e where e: "e \<in> set (ge_events r)" "is_turn_ended (ev_data e)" using finished_status [OF assms(2)] .
  have "e \<in> set es" "ev_turn_id e = Some (tn_id turn)"
    using e(1) es(3) by (auto simp: select_events_def journal_query_def after_cursor_def query_matches_def retain_opt_def Let_def)
  then show ?thesis using ended_event [OF es(1) _ _ e(2)] es(2) by simp
qed

lemma turn_handle_ended:
  assumes "turn_handle env h record w = (Inr t, w')"
  shows "hs_handle t = h \<and> hs_turn t = record \<and> (hs_finished t \<longrightarrow> ended_in env (ch_dir h) (tn_id record) w')"
proof -
  let ?mine = "\<lambda>es. filter (\<lambda>e. ev_turn_id e = Some (tn_id record)) (filter (\<lambda>e. ev_session_id e = Some (tn_session_id record)) es)"
  obtain es where es: "load_events env (ch_dir h) (lw_store w) = Inr es" "w' = w" "?mine es \<noteq> []"
    "t = \<lparr> hs_handle = h, hs_turn = record, hs_latest_event_id = Some (ev_id (last (?mine es))),
           hs_finished = is_turn_ended (ev_data (last (?mine es))) \<rparr>"
    using assms by (auto simp: turn_handle_def io_bind_Inr_iff io_lift_def io_read_def io_return_def ensure_Inr_iff Let_def)
  have "last (?mine es) \<in> set (?mine es)" using es(3) by (rule last_in_set)
  then have "last (?mine es) \<in> set es" "ev_turn_id (last (?mine es)) = Some (tn_id record)" by auto
  then show ?thesis using ended_event [OF es(1)] es(2,4) by auto
qed

lemma begin_turn_open:
  "begin_turn env user h request w = (Inr t, w') \<Longrightarrow> hs_handle t = h \<and> hs_turn t = bt_turn request \<and> \<not> hs_finished t"
  by (auto simp: begin_turn_def io_bind_Inr_iff io_return_def)

lemma turn_add_same:
  "turn_add_events env t data w = (Inr (added, t'), w') \<Longrightarrow> hs_handle t' = hs_handle t \<and> hs_turn t' = hs_turn t \<and>
    hs_finished t' = hs_finished t"
  by (auto simp: turn_add_events_def io_bind_Inr_iff io_return_def)

lemma turn_finish_ended:
  assumes "turn_finish env t w = (Inr r, w')" and "uuid_text_ok (le_text env)"
    and "hs_finished t \<longrightarrow> ended_in env (ch_dir (hs_handle t)) (tn_id (hs_turn t)) w"
  shows "ended_in env (ch_dir (hs_handle t)) (tn_id (hs_turn t)) w'"
proof (cases "hs_finished t")
  case True
  then have "w' = w" using assms(1) by (auto simp: turn_finish_def io_bind_Inr_iff io_lift_def io_return_def)
  with True assms(3) show ?thesis by simp
next
  case False
  then obtain added where "turn_append env t [TurnEnded] w = (Inr added, w')"
    using assms(1) by (auto simp: turn_finish_def io_bind_Inr_iff io_lift_def io_return_def)
  then obtain rec rec' where run: "append_events_to_conversation env (ch_dir (hs_handle t)) (cr_id (ch_record (hs_handle t)))
      (Some (tn_session_id (hs_turn t))) (Some (tn_id (hs_turn t))) (cr_latest_event_id rec) [TurnEnded] rec w = (Inr (added, rec'), w')"
    unfolding turn_append_def by (auto simp: io_bind_Inr_iff io_lift_def io_read_def io_return_def)
  obtain es where es: "map ev_data es = [TurnEnded]" "\<forall>e \<in> set es. ev_turn_id e = Some (tn_id (hs_turn t))"
    "lw_store w' = store_put (fst (batch_object env (ch_dir (hs_handle t)) es)) (snd (batch_object env (ch_dir (hs_handle t)) es)) (lw_store w)"
    using append_run [OF run] by metis
  obtain e where e: "es = [e]" "ev_data e = TurnEnded" "ev_turn_id e = Some (tn_id (hs_turn t))"
    using es(1,2) by (cases es) auto
  let ?key = "event_path (le_text env) (ch_dir (hs_handle t)) (ev_id e)"
  have store: "lw_store w' = store_put ?key (Stored_Event e) (lw_store w)" using es(3) e(1) by (simp add: batch_object_def)
  have "?key \<in> set (log_keys env (ch_dir (hs_handle t)) (lw_store w'))"
    using event_id_of_paths(1) [OF assms(2)]
    by (simp add: log_keys_iff store below_def events_dir_def starts_with_iff event_path_def)
  moreover have "e \<in> set (object_at (lw_store w') ?key)" by (simp add: store object_at_def object_events_def)
  ultimately show ?thesis unfolding ended_in_def using e by (metis is_turn_ended.simps(1))
qed

section \<open>What starting a head returns\<close>

lemma start_run:
  assumes "start ops lease t c = (Inr st, c')"
  obtains q h where "queue_view ops (ls_thread lease) c = Some q" "front (tq_pending q) = Some h" "entry_id h = t"
    "qt_turn (sr_head st) = qt_turn h" "qt_principal (sr_head st) = qt_principal h"
proof -
  obtain q h where q: "so_load ops (ls_thread lease) (tc_store c) = Inr q" "front (tq_pending q) = Some h" "entry_id h = t"
    "sr_head st = h \<or> sr_head st = h\<lparr>qt_started := True\<rparr>"
    using assms unfolding start_def bind_check bind_load
    by (auto simp: io_bind_Inr_iff io_lift_def ok_or_Inr_iff ensure_Inr_iff io_return_def Let_def split: if_splits sum.splits)
  show thesis by (rule that [of q h]) (use q in \<open>auto simp: queue_view_Some\<close>)
qed

lemma start_entry: "fst (start ops lease t c) = Inr st \<Longrightarrow> entry_id (sr_head st) = t"
  by (cases "start ops lease t c") (auto elim!: start_run simp: entry_id_def)

section \<open>Relations a task stays inside\<close>

lemma io_keeps_case_option: "io_keeps R n \<Longrightarrow> (\<And>x. io_keeps R (f x)) \<Longrightarrow> io_keeps R (case opt of None \<Rightarrow> n | Some x \<Rightarrow> f x)"
  by (cases opt) simp_all

lemma io_keeps_case_sum: "(\<And>x. io_keeps R (f x)) \<Longrightarrow> (\<And>x. io_keeps R (g x)) \<Longrightarrow> io_keeps R (case s of Inl x \<Rightarrow> f x | Inr x \<Rightarrow> g x)"
  by (cases s) simp_all

lemma io_keeps_if: "(b \<Longrightarrow> io_keeps R m) \<Longrightarrow> (\<not> b \<Longrightarrow> io_keeps R n) \<Longrightarrow> io_keeps R (if b then m else n)"
  by simp

lemma io_keeps_on_error:
  assumes "transp R" and "io_keeps R m" and "io_keeps R c"
  shows "io_keeps R (on_error m c)"
proof -
  have "R w (snd (on_error m c w))" for w
  proof (cases "m w")
    case (Pair r w')
    have "R w w'" "R w' (snd (c w'))" using assms(2,3) Pair by (auto simp: io_keeps_def) (metis snd_conv)
    then show ?thesis using assms(1) Pair by (cases r) (auto simp: on_error_def dest: transpD)
  qed
  then show ?thesis by (simp add: io_keeps_def)
qed

lemma io_keeps_case_journal: "io_keeps R m \<Longrightarrow> io_keeps R n \<Longrightarrow> (\<And>x. io_keeps R (f x)) \<Longrightarrow>
    io_keeps R (case s of Unstarted \<Rightarrow> m | Journal_Running \<Rightarrow> n | Finished x \<Rightarrow> f x)"
  by (cases s) simp_all

lemma io_keeps_modify: "(\<And>w. R w (f w)) \<Longrightarrow> io_keeps R (io_modify f)"
  by (simp add: io_keeps_def io_modify_def)

text \<open>A triple whose effects also stay inside a relation.\<close>

definition triple :: "('w \<Rightarrow> 'w \<Rightarrow> bool) \<Rightarrow> ('w \<Rightarrow> bool) \<Rightarrow> ('w, 'a) io \<Rightarrow> ('a \<Rightarrow> 'w \<Rightarrow> bool) \<Rightarrow> bool" where
  "triple R P m Q \<longleftrightarrow> (\<forall>w r w'. P w \<longrightarrow> m w = (r, w') \<longrightarrow> R w w' \<and> (\<forall>x. r = Inr x \<longrightarrow> Q x w'))"

definition stable_under :: "('w \<Rightarrow> 'w \<Rightarrow> bool) \<Rightarrow> ('w \<Rightarrow> bool) \<Rightarrow> bool" where
  "stable_under R P \<longleftrightarrow> (\<forall>w w'. R w w' \<longrightarrow> P w \<longrightarrow> P w')"

lemma triple_bind:
  assumes "transp R" and "triple R P m Q'" and "\<And>x. triple R (Q' x) (f x) Q"
  shows "triple R P (io_bind m f) Q"
  unfolding triple_def
proof (intro allI impI)
  fix w r w'
  assume P: "P w" and run: "io_bind m f w = (r, w')"
  obtain r1 w1 where m: "m w = (r1, w1)" by fastforce
  have first: "R w w1" "\<And>x. r1 = Inr x \<Longrightarrow> Q' x w1" using assms(2) P m by (auto simp: triple_def)
  show "R w w' \<and> (\<forall>x. r = Inr x \<longrightarrow> Q x w')"
  proof (cases r1)
    case (Inr x)
    then have "f x w1 = (r, w')" using run m by (simp add: io_bind_def)
    then have "R w1 w'" "\<And>y. r = Inr y \<Longrightarrow> Q y w'" using assms(3) [of x] first(2) [OF Inr] by (auto simp: triple_def)
    then show ?thesis using first(1) assms(1) by (auto dest: transpD)
  qed (use run m first in \<open>auto simp: io_bind_def\<close>)
qed

lemma triple_keep: "io_keeps R m \<Longrightarrow> stable_under R P \<Longrightarrow> triple R P m (\<lambda>_. P)"
  by (auto simp: triple_def io_keeps_def stable_under_def) (metis snd_conv)+

lemma triple_pure: "reflp R \<Longrightarrow> (\<And>w. P w \<Longrightarrow> Q x w) \<Longrightarrow> triple R P (io_return x) Q"
  by (auto simp: triple_def io_return_def dest: reflpD)

lemma triple_lift: "reflp R \<Longrightarrow> (\<And>w x. r = Inr x \<Longrightarrow> P w \<Longrightarrow> Q x w) \<Longrightarrow> triple R P (io_lift r) Q"
  by (auto simp: triple_def io_lift_def dest: reflpD)

lemma triple_weaken: "triple R P' m Q' \<Longrightarrow> (\<And>w. P w \<Longrightarrow> P' w) \<Longrightarrow> (\<And>x w. Q' x w \<Longrightarrow> Q x w) \<Longrightarrow> triple R P m Q"
  by (simp add: triple_def) blast

lemma triple_if: "(b \<Longrightarrow> triple R P m Q) \<Longrightarrow> (\<not> b \<Longrightarrow> triple R P n Q) \<Longrightarrow> triple R P (if b then m else n) Q"
  by simp

lemma triple_keeps: "triple R (\<lambda>_. True) m Q \<Longrightarrow> io_keeps R m"
  by (auto simp: triple_def io_keeps_def) (metis prod.collapse)

text \<open>What a relation between worlds has to allow: the other tasks' actions, and each effect the queue task of
  one thread has, except those on the durable queue that the properties are about.\<close>

locale exec_relation =
  fixes env :: "('s, 'p, 'e) exec_env" and lease :: turn_lease
    and R :: "('s, 'p, 'e) exec_world \<Rightarrow> ('s, 'p, 'e) exec_world \<Rightarrow> bool" and good :: "'p exec_call \<Rightarrow> bool"
  assumes refl: "reflp R" and trans: "transp R"
    and others: "R w (xe_others env n (w\<lparr>xw_calls := k\<rparr>))"
    and active: "R w (w\<lparr>xw_active := a\<rparr>)"
    and current: "R w (w\<lparr>xw_current := cur\<rparr>)"
    and traced: "good call \<Longrightarrow> R w (w\<lparr>xw_trace := xw_trace w @ [call]\<rparr>)"
    and harness_calls: "good (Submitted h cmd)" "good (Awaited h key)"
    and events: "R w (broadcast key msg w)"
    and stopped: "R w (stop_observers key e w)"
    and peeked: "R w (w\<lparr>xw_coord := snd (peek (xe_ops env) lease (xw_coord w))\<rparr>)"
    and started: "R w (w\<lparr>xw_coord := snd (start (xe_ops env) lease t (xw_coord w))\<rparr>)"
    and released: "R w (w\<lparr>xw_coord := snd (release_if_idle (xe_ops env) lease (xw_coord w))\<rparr>)"
    and dropped: "R w (w\<lparr>xw_coord := drop_lease lease (xw_coord w)\<rparr>)"
    and read_log: "R w (w\<lparr>xw_log := snd (get_events (xe_log env) ch q (xw_log w))\<rparr>)"
    and read_turn: "R w (w\<lparr>xw_log := snd (turn_handle (xe_log env) ch r (xw_log w))\<rparr>)"
    and began: "R w (w\<lparr>xw_log := snd (begin_turn (xe_log env) u ch request (xw_log w))\<rparr>)"
    and added: "R w (w\<lparr>xw_log := snd (turn_add_events (xe_log env) turn ds (xw_log w))\<rparr>)"
    and finished: "R w (w\<lparr>xw_log := snd (turn_finish (xe_log env) turn (xw_log w))\<rparr>)"
begin

lemmas bind = io_keeps_bind [OF trans]
lemmas pure = io_keeps_pure [OF refl]

lemma atomically_keeps: "(\<And>n. io_keeps R (m n)) \<Longrightarrow> io_keeps R (atomically env m)"
  unfolding io_keeps_def atomically_def using others trans by (metis transpD)

lemma coord_keeps: "(\<And>w. R w (w\<lparr>xw_coord := snd (m (xw_coord w))\<rparr>)) \<Longrightarrow> io_keeps R (coord env m)"
  unfolding coord_def by (rule atomically_keeps) (simp add: io_keeps_def case_prod_beta)

lemma logged_keeps: "(\<And>w. R w (w\<lparr>xw_log := snd (m (xw_log w))\<rparr>)) \<Longrightarrow> io_keeps R (logged env m)"
  unfolding logged_def by (rule atomically_keeps) (simp add: io_keeps_def case_prod_beta)

lemma shared_keeps: "io_keeps R (shared env f)"
  unfolding shared_def by (intro atomically_keeps pure)

lemma ask_keeps: "io_keeps R (ask env f)"
  unfolding ask_def by (intro atomically_keeps pure)

lemma update_keeps: "(\<And>w. R w (f w)) \<Longrightarrow> io_keeps R (update_shared env f)"
  unfolding update_shared_def by (intro atomically_keeps io_keeps_modify)

lemma outside_keeps: "good call \<Longrightarrow> io_keeps R (outside env call f)"
  unfolding outside_def by (rule atomically_keeps) (simp add: io_keeps_def traced)

lemma signal_keeps: "io_keeps R (signal env key ctl)"
  unfolding signal_def by (intro bind shared_keeps io_keeps_case_option pure outside_keeps harness_calls)

lemma wait_keeps: "io_keeps R (wait_for_active env key)"
  unfolding wait_for_active_def by (intro bind shared_keeps io_keeps_case_option pure outside_keeps harness_calls)

lemma next_control_keeps: "io_keeps R (next_control env ch)"
  unfolding next_control_def by (rule atomically_keeps) (use refl in \<open>simp add: io_keeps_def reflpD\<close>)

lemma follow_keeps: "io_keeps R (follow_stream fuel env key ch s e)"
  by (induction fuel arbitrary: s e)
     (auto intro!: bind pure ask_keeps next_control_keeps signal_keeps update_keeps events split: select_answer.splits)

lemma journal_keeps: "io_keeps R (journal_status env thread turn)"
  unfolding journal_status_def by (intro bind logged_keeps pure read_log)

lemma persist_keeps: "io_keeps R (persist_head_failure env thread head status e)"
  unfolding persist_head_failure_def case_prod_beta
  by (intro io_keeps_case_journal bind pure io_keeps_if logged_keeps read_turn began added finished)

lemma execute_keeps:
  "good (Executed rt turn work rec) \<Longrightarrow> io_keeps R (execute_turn env rt scope turn work rec)"
  unfolding execute_turn_def activate_def
  by (intro bind atomically_keeps pure io_keeps_modify active outside_keeps)

lemma open_keeps:
  assumes "\<And>rt work rec. rt_caller rt = qt_principal head \<Longrightarrow> good (Executed rt (qt_turn head) work rec)"
  shows "io_keeps R (open_queue_head env thread key head b)"
proof -
  have exec: "io_keeps R (io_bind (io_lift (execution_runtime env cx (qt_principal head))) (\<lambda>rt. f rt))"
    if "\<And>rt. rt_caller rt = qt_principal head \<Longrightarrow> io_keeps R (f rt)" for cx and f :: "exec_runtime \<Rightarrow> ('s, 'p, 'e, bool) exec"
  proof (cases "execution_runtime env cx (qt_principal head)")
    case (Inl e)
    then show ?thesis using refl by (simp add: io_keeps_def io_bind_def io_lift_def reflpD)
  next
    case (Inr rt)
    then have "rt_caller rt = qt_principal head" by (auto simp: execution_runtime_def and_then_Inr_iff ensure_Inr_iff)
    from that [OF this] Inr show ?thesis by (simp add: io_keeps_def io_bind_def io_lift_def)
  qed
  have read: "io_keeps R (if b then io_bind (logged env (get_events (xe_log env) thread q)) (\<lambda>r. io_return (ge_events r)) else io_return [])"
    for q by (intro io_keeps_if bind logged_keeps read_log pure)
  have agent: "io_keeps R (require_agent env who a msg)" for who a msg
    unfolding require_agent_def by (intro bind ask_keeps pure)
  have thread: "io_keeps R (require_thread env who s msg)" for who s msg
    unfolding require_thread_def by (intro bind ask_keeps pure)
  have finish: "io_keeps R (io_bind (logged env (turn_handle (xe_log env) thread (qt_turn head)))
      (\<lambda>turn. io_bind (logged env (turn_finish (xe_log env) turn)) (\<lambda>_. io_return False)))"
    by (intro bind logged_keeps read_turn finished pure)
  have run: "io_keeps R (io_bind (shared env (\<lambda>w. map_option tx_runtime (map_of (xw_contexts w) key))) (\<lambda>cx.
      io_bind (if cx = None then ask env (xe_recovery_slot env) else io_return ()) (\<lambda>_.
      io_bind (io_lift (execution_runtime env cx (qt_principal head))) (\<lambda>execution.
      io_bind (require_agent env (rt_caller execution) (tk_agent_id key) ''queue caller cannot access agent'') (\<lambda>_.
      io_bind (require_thread env (rt_caller execution) (thread_of key) ''queue caller cannot access thread'') (\<lambda>_.
      io_bind (if st = Journal_Running
               then io_bind (io_lift (work_from_events env events)) (\<lambda>work.
                      execute_turn env execution (thread_of key) (qt_turn head) work True)
               else execute_turn env execution (thread_of key) (qt_turn head) (qt_work head) False) (\<lambda>_.
      io_return True)))))))" for st events
    by (rule bind [OF shared_keeps], rule bind, intro io_keeps_if ask_keeps pure, rule exec,
        intro bind agent thread io_keeps_if pure execute_keeps assms, assumption+)
  show ?thesis
    unfolding open_queue_head_def Let_def
    by (rule bind [OF read]) (intro io_keeps_case_journal io_keeps_if pure finish run)
qed

lemma triple_atomically:
  assumes "stable_under R P" and "\<And>w n r w'. P w \<Longrightarrow> m n w = (r, w') \<Longrightarrow> R w w' \<and> (\<forall>x. r = Inr x \<longrightarrow> Q x w')"
  shows "triple R P (atomically env m) Q"
  unfolding triple_def
proof (intro allI impI)
  fix w r w'
  assume P: "P w" and run: "atomically env m w = (r, w')"
  let ?w = "xe_others env (xw_calls w) (w\<lparr>xw_calls := Suc (xw_calls w)\<rparr>)"
  have "R w ?w" by (rule others)
  then have "P ?w" using assms(1) P by (auto simp: stable_under_def)
  then show "R w w' \<and> (\<forall>x. r = Inr x \<longrightarrow> Q x w')"
    using assms(2) [of ?w "xw_calls w" r w'] run \<open>R w ?w\<close> trans by (auto simp: atomically_def dest: transpD)
qed

lemma triple_logged:
  assumes "stable_under R P" and "\<And>w. R w (w\<lparr>xw_log := snd (m (xw_log w))\<rparr>)"
    and "\<And>w x l. P w \<Longrightarrow> m (xw_log w) = (Inr x, l) \<Longrightarrow> Q x (w\<lparr>xw_log := l\<rparr>)"
  shows "triple R P (logged env m) Q"
  unfolding logged_def
  by (rule triple_atomically [OF assms(1)]) (use assms(2,3) in \<open>auto simp: case_prod_beta prod_eq_iff; metis prod.collapse\<close>)

lemma require_thread_keeps: "io_keeps R (require_thread env who s msg)"
  unfolding require_thread_def by (intro bind ask_keeps pure)

lemma require_agent_keeps: "io_keeps R (require_agent env who a msg)"
  unfolding require_agent_def by (intro bind ask_keeps pure)

text \<open>A continuation after a thread lookup only has to work for the handles the lookup returns.\<close>

lemma triple_with_thread:
  assumes "stable_under R P" and "\<And>h n. xe_get_thread env n who s = Inr (Some h) \<Longrightarrow> triple R P (f h) Q"
  shows "triple R P (io_bind (require_thread env who s msg) f) Q"
  unfolding triple_def
proof (intro allI impI)
  fix w r w'
  assume P: "P w" and run: "io_bind (require_thread env who s msg) f w = (r, w')"
  obtain r1 w1 where m: "require_thread env who s msg w = (r1, w1)" by fastforce
  have step: "R w w1" using require_thread_keeps [of who s msg] m by (simp add: io_keeps_def) (metis snd_conv)
  then have "P w1" using assms(1) P by (auto simp: stable_under_def)
  show "R w w' \<and> (\<forall>x. r = Inr x \<longrightarrow> Q x w')"
  proof (cases r1)
    case (Inr h)
    then have "xe_get_thread env (xw_calls w) who s = Inr (Some h)"
      using m by (auto simp: require_thread_def ask_def atomically_def io_bind_Inr_iff io_lift_def ok_or_Inr_iff)
    from assms(2) [OF this] have "R w1 w' \<and> (\<forall>x. r = Inr x \<longrightarrow> Q x w')"
      using run m Inr \<open>P w1\<close> by (auto simp: triple_def io_bind_def)
    then show ?thesis using transpD [OF trans step] by blast
  qed (use run m step in \<open>auto simp: io_bind_def\<close>)
qed

lemma run_started_triple:
  assumes P: "stable_under R P" and Q: "\<And>w. P w \<Longrightarrow> Q None w" "\<And>w. P w \<Longrightarrow> Q (Some Again) w"
    and good: "\<And>rt work rec. rt_caller rt = qt_principal (sr_head started) \<Longrightarrow> good (Executed rt (qt_turn (sr_head started)) work rec)"
    and settle: "\<And>n thread head s e. xe_get_thread env n (rt_caller (xe_root env)) (ls_thread lease) = Inr (Some thread) \<Longrightarrow>
      entry_id head = entry_id (sr_head started) \<Longrightarrow>
      triple R P (settle_head env lease thread (key_of (ls_thread lease) (entry_id head)) head s e) Q"
  shows "triple R P (run_started fuel env lease b started) Q"
proof -
  note seq = triple_bind [OF trans] and keep = triple_keep [OF _ P]
  have follow: "io_keeps R (case opened of Inl e \<Rightarrow> io_return (Some (False, Some e)) | Inr False \<Rightarrow> io_return (Some (False, None))
      | Inr True \<Rightarrow> follow_stream fuel env key ch False None)" for opened :: "string + bool" and key ch
    by (auto intro: pure follow_keeps split: sum.split bool.split)
  have remove: "io_keeps R (update_shared env (remove_active s))" for s by (rule update_keeps) (simp add: remove_active_def active)
  have same: "entry_id (x\<lparr>qt_control := c\<rparr>) = entry_id x" for x :: "'b turn_work queued_turn" and c by (simp add: entry_id_def)
  have after: "triple R P (case followed of None \<Rightarrow> io_return None | Some (suspended, error) \<Rightarrow>
      io_bind (wait_for_active env key) (\<lambda>_. io_bind (update_shared env (remove_active (ls_thread lease))) (\<lambda>_.
      settle_head env lease thread (key_of (ls_thread lease) (entry_id (sr_head started))) ((sr_head started)\<lparr>qt_control := c\<rparr>) suspended error))) Q"
    if "xe_get_thread env n (rt_caller (xe_root env)) (ls_thread lease) = Inr (Some thread)" for followed key thread n c
    using settle [OF that, of "(sr_head started)\<lparr>qt_control := c\<rparr>"] Q(1)
    by (auto intro!: seq [OF keep [OF wait_keeps]] seq [OF keep [OF remove]] triple_pure [OF refl] simp: same split: option.split)
  have opened: "io_keeps R (io_try (open_queue_head env thread key ((sr_head started)\<lparr>qt_control := c\<rparr>) b))" for thread key c
    by (rule io_keeps_try, rule open_keeps) (simp add: good)
  show ?thesis
    unfolding run_started_def Let_def
    by (rule seq [OF keep [OF require_agent_keeps]], rule triple_with_thread [OF P], rule seq [OF keep [OF next_control_keeps]],
        rule triple_if, rule triple_pure [OF refl], rule Q(2), assumption,
        rule seq [OF keep [OF opened]], rule seq [OF keep [OF follow]], rule after)
qed

lemma run_head_triple:
  assumes "stable_under R P" and "\<And>w. P w \<Longrightarrow> Q None w" "\<And>w. P w \<Longrightarrow> Q (Some Again) w" and "\<And>call. good call"
    and "\<And>n thread head s e. xe_get_thread env n (rt_caller (xe_root env)) (ls_thread lease) = Inr (Some thread) \<Longrightarrow>
      entry_id head = entry_id h \<Longrightarrow> triple R P (settle_head env lease thread (key_of (ls_thread lease) (entry_id head)) head s e) Q"
  shows "triple R P (run_head fuel env lease h) Q"
proof -
  have "triple R P (coord env (start (xe_ops env) lease (entry_id h))) (\<lambda>st w. P w \<and> entry_id (sr_head st) = entry_id h)"
    unfolding coord_def
  proof (rule triple_atomically [OF assms(1)])
    fix w n r w'
    assume P: "P w" and run: "(let (r, c) = start (xe_ops env) lease (entry_id h) (xw_coord w) in (r, w\<lparr>xw_coord := c\<rparr>)) = (r, w')"
    have "R w w'" using started [of w "entry_id h"] run by (auto simp: case_prod_beta)
    moreover have "entry_id (sr_head st) = entry_id h" if "r = Inr st" for st
      using run start_entry [of "xe_ops env" lease "entry_id h" "xw_coord w" st] that by (auto simp: case_prod_beta prod_eq_iff)
    ultimately show "R w w' \<and> (\<forall>st. r = Inr st \<longrightarrow> P w' \<and> entry_id (sr_head st) = entry_id h)"
      using assms(1) P by (auto simp: stable_under_def)
  qed
  then show ?thesis
    unfolding run_head_def
  proof (rule triple_bind [OF trans])
    fix st
    have "triple R P (run_started fuel env lease (qt_started h) st) Q" if "entry_id (sr_head st) = entry_id h"
      by (rule run_started_triple [OF assms(1)]) (use assms that in auto)
    then show "triple R (\<lambda>w. P w \<and> entry_id (sr_head st) = entry_id h) (run_started fuel env lease (qt_started h) st) Q"
      by (auto simp: triple_def)
  qed
qed

end

text \<open>A relation that also allows settling a head allows the whole task.\<close>

locale task_relation = exec_relation +
  assumes all_good: "good call"
    and settled: "xe_get_thread env n (rt_caller (xe_root env)) (ls_thread lease) = Inr (Some thread) \<Longrightarrow>
      io_keeps R (settle_head env lease thread (key_of (ls_thread lease) (entry_id head)) head s e)"
begin

lemma run_head_keeps: "io_keeps R (run_head fuel env lease h)"
  by (rule triple_keeps, rule run_head_triple [where Q = "\<lambda>_ _. True"])
     (use settled in \<open>auto simp: stable_under_def all_good triple_def io_keeps_def\<close>, metis snd_conv)

lemma run_queue_keeps: "io_keeps R (run_queue fuel env lease initial)"
proof (induction fuel arbitrary: initial)
  case (Suc fuel)
  have peek: "io_keeps R (coord env (peek (xe_ops env) lease))" by (intro coord_keeps peeked)
  have release: "io_keeps R (coord env (release_if_idle (xe_ops env) lease))" by (intro coord_keeps released)
  have next_head: "io_keeps R (case outcome of None \<Rightarrow> io_return None | Some Again \<Rightarrow> run_queue fuel env lease None
      | Some Stopped \<Rightarrow> io_return (Some ()) | Some (Next h) \<Rightarrow> run_queue fuel env lease (Some h))" for outcome
    using Suc by (auto intro: pure split: option.split head_outcome.split)
  show ?case
    unfolding run_queue.simps
    by (intro bind shared_keeps io_keeps_if pure io_keeps_case_option peek io_keeps_modify current update_keeps events
        release Suc run_head_keeps next_head)
qed (simp add: pure)

lemma drop_keeps: "io_keeps R (drop_lease_now env lease)"
  unfolding drop_lease_now_def by (rule coord_keeps) (simp add: io_modify_def dropped)

lemma queue_task_keeps: "io_keeps R (queue_task fuel env lease initial)"
proof -
  have run: "io_keeps R (on_error (io_try (run_queue fuel env lease x)) (drop_lease_now env lease))" for x
    by (intro io_keeps_on_error [OF trans] io_keeps_try run_queue_keeps drop_keeps)
  have failed: "io_keeps R (io_bind (io_read xw_current) (\<lambda>head.
      io_bind (case head of None \<Rightarrow> io_return () | Some key \<Rightarrow>
          io_bind (io_try (signal env key Suspend)) (\<lambda>_. wait_for_active env key)) (\<lambda>_.
      io_bind (update_shared env (remove_active (ls_thread lease))) (\<lambda>_.
      io_bind (drop_lease_now env lease) (\<lambda>_.
      io_bind (case head of None \<Rightarrow> io_return () | Some key \<Rightarrow> update_shared env (stop_observers key e)) (\<lambda>_.
      io_return (Some ())))))))" for e
    by (intro bind pure io_keeps_case_option io_keeps_try signal_keeps wait_keeps update_keeps drop_keeps stopped)
       (simp add: remove_active_def active)
  show ?thesis
    unfolding queue_task_def
    by (rule bind, rule io_keeps_modify, rule current, rule bind [OF run],
        intro io_keeps_case_sum io_keeps_case_option failed bind drop_keeps pure)
qed

end

text \<open>A relation that no change of the coordinator leaves allows settling a head.\<close>

locale coordinator_free_relation = exec_relation +
  assumes coordinator: "R w (w\<lparr>xw_coord := c\<rparr>)"
begin

lemma any_coord_keeps: "io_keeps R (coord env m)"
  by (rule coord_keeps) (rule coordinator)

lemma settle_keeps: "io_keeps R (settle_head env lease thread key head s e)"
proof -
  have ack: "io_keeps R (acknowledge_head env lease t)" for t
    unfolding acknowledge_head_def by (intro bind pure any_coord_keeps)
  have fail: "io_keeps R (fail_head env lease thread key head st s e)" for st
    unfolding fail_head_def Let_def
    by (intro bind pure shared_keeps io_keeps_if any_coord_keeps persist_keeps update_keeps events ack)
  show ?thesis
    unfolding settle_head_def
    by (intro bind journal_keeps io_keeps_case_journal fail update_keeps events ack)
qed

end

section \<open>No accepted turn is lost\<close>

lemma send_frame [simp]:
  "xw_coord (fold (send_to m) chs w) = xw_coord w" "xw_log (fold (send_to m) chs w) = xw_log w"
  "xw_contexts (fold (send_to m) chs w) = xw_contexts w" "xw_closed (fold (send_to m) chs w) = xw_closed w"
  "xw_trace (fold (send_to m) chs w) = xw_trace w"
  by (induction chs arbitrary: w) (simp_all add: send_to_def)

lemma observers_frame [simp]:
  "xw_coord (set_observers key chs w) = xw_coord w" "xw_log (set_observers key chs w) = xw_log w"
  "xw_inbox (set_observers key chs w) = xw_inbox w" "xw_closed (set_observers key chs w) = xw_closed w"
  "xw_trace (set_observers key chs w) = xw_trace w"
  "xw_coord (remove_context key w) = xw_coord w" "xw_log (remove_context key w) = xw_log w"
  "xw_inbox (remove_context key w) = xw_inbox w" "xw_closed (remove_context key w) = xw_closed w"
  "xw_trace (remove_context key w) = xw_trace w"
  by (simp_all add: set_observers_def remove_context_def split: option.splits)

lemma broadcast_frame [simp]:
  "xw_coord (broadcast key m w) = xw_coord w" "xw_log (broadcast key m w) = xw_log w"
  "xw_closed (broadcast key m w) = xw_closed w" "xw_trace (broadcast key m w) = xw_trace w"
  "xw_coord (stop_observers key e w) = xw_coord w" "xw_log (stop_observers key e w) = xw_log w"
  "xw_closed (stop_observers key e w) = xw_closed w" "xw_trace (stop_observers key e w) = xw_trace w"
  by (simp_all add: broadcast_def stop_observers_def Let_def)

text \<open>What the task of a thread relies on: the other tasks change the coordinator by its operations, none of
  which acknowledges a turn of this thread (its owner is this task), and append to the log.\<close>

definition relies :: "log_env \<Rightarrow> turn_thread \<Rightarrow> string \<Rightarrow> ('p turn_work basic_queue_store, 'p, 'e) exec_world
    \<Rightarrow> ('p turn_work basic_queue_store, 'p, 'e) exec_world \<Rightarrow> bool" where
  "relies lenv th dir w w' \<longleftrightarrow>
     (\<exists>calls. xw_coord w' = fold (perform basic_ops) calls (xw_coord w) \<and>
        (\<forall>l t. Acknowledge l t \<in> set calls \<longrightarrow> ls_thread l \<noteq> th)) \<and>
     keeps_events lenv dir (xw_log w) (xw_log w')"

definition exec_env_ok :: "('p turn_work basic_queue_store, 'p, 'e) exec_env \<Rightarrow> turn_thread \<Rightarrow> string \<Rightarrow> bool" where
  "exec_env_ok env th dir \<longleftrightarrow> xe_ops env = basic_ops \<and> uuid_text_ok (le_text (xe_log env)) \<and> writes_once (xe_log env) \<and>
     (\<forall>n who h. xe_get_thread env n who th = Inr (Some h) \<longrightarrow> ch_dir h = dir) \<and>
     (\<forall>n w. relies (xe_log env) th dir w (xe_others env n w))"

definition accounted :: "('p turn_work basic_queue_store, 'p, 'e) exec_env \<Rightarrow> turn_thread \<Rightarrow> string
    \<Rightarrow> ('p turn_work basic_queue_store, 'p, 'e) exec_world \<Rightarrow> ('p turn_work basic_queue_store, 'p, 'e) exec_world \<Rightarrow> bool" where
  "accounted env th dir w w' \<longleftrightarrow> (exec_env_ok env th dir \<longrightarrow> unwritten (xe_log env) dir (xw_log w) \<longrightarrow>
     unwritten (xe_log env) dir (xw_log w') \<and>
     (\<forall>t. ended_in (xe_log env) dir t (xw_log w) \<longrightarrow> ended_in (xe_log env) dir t (xw_log w')) \<and>
     (\<forall>q. queue_view basic_ops th (xw_coord w) = Some q \<longrightarrow>
        (\<exists>q'. queue_view basic_ops th (xw_coord w') = Some q' \<and>
           (\<forall>t \<in> set (queue_ids q). t \<in> set (queue_ids q') \<or> ended_in (xe_log env) dir t (xw_log w')))))"

lemma accounted_refl: "reflp (accounted env th dir)"
  by (auto simp: reflp_def accounted_def)

lemma accounted_trans: "transp (accounted env th dir)"
proof (rule transpI)
  fix w1 w2 w3
  assume a: "accounted env th dir w1 w2" and b: "accounted env th dir w2 w3"
  show "accounted env th dir w1 w3"
    unfolding accounted_def
  proof (intro impI conjI allI)
    assume ok: "exec_env_ok env th dir" "unwritten (xe_log env) dir (xw_log w1)"
    note a' = a [unfolded accounted_def, rule_format, OF ok]
    then have ok2: "unwritten (xe_log env) dir (xw_log w2)" by blast
    note b' = b [unfolded accounted_def, rule_format, OF ok(1) ok2]
    show "unwritten (xe_log env) dir (xw_log w3)" using b' by blast
    show "ended_in (xe_log env) dir t (xw_log w3)" if "ended_in (xe_log env) dir t (xw_log w1)" for t
      using a' b' that by blast
    fix q
    assume q: "queue_view basic_ops th (xw_coord w1) = Some q"
    obtain q2 where q2: "queue_view basic_ops th (xw_coord w2) = Some q2"
      "\<forall>t \<in> set (queue_ids q). t \<in> set (queue_ids q2) \<or> ended_in (xe_log env) dir t (xw_log w2)" using a' q by blast
    obtain q3 where q3: "queue_view basic_ops th (xw_coord w3) = Some q3"
      "\<forall>t \<in> set (queue_ids q2). t \<in> set (queue_ids q3) \<or> ended_in (xe_log env) dir t (xw_log w3)" using b' q2(1) by blast
    show "\<exists>q'. queue_view basic_ops th (xw_coord w3) = Some q' \<and>
        (\<forall>t \<in> set (queue_ids q). t \<in> set (queue_ids q') \<or> ended_in (xe_log env) dir t (xw_log w3))"
      using q2(2) q3 b' by blast
  qed
qed

text \<open>Calls that acknowledge nothing of the thread keep its queued turns.\<close>

lemma calls_keep_ids:
  assumes "queue_view basic_ops th c = Some q" and "\<forall>l t. Acknowledge l t \<in> set calls \<longrightarrow> ls_thread l \<noteq> th"
  shows "\<exists>q'. queue_view basic_ops th (fold (perform basic_ops) calls c) = Some q' \<and> set (queue_ids q) \<subseteq> set (queue_ids q')"
proof (rule basic.perform_steps [OF assms(1), where P = "\<lambda>q'. set (queue_ids q) \<subseteq> set (queue_ids q')"])
  fix call q1 q2
  assume "call \<in> set calls" "set (queue_ids q) \<subseteq> set (queue_ids q1)" "queue_step th call q1 q2"
  then show "set (queue_ids q) \<subseteq> set (queue_ids q2)" using queue_step_ids [of th call q1 q2] assms(2) by auto
qed simp

lemma accounted_frame: "xw_coord w' = xw_coord w \<Longrightarrow> xw_log w' = xw_log w \<Longrightarrow> accounted env th dir w w'"
  by (auto simp: accounted_def)

lemma accounted_calls:
  assumes "xw_coord w' = fold (perform basic_ops) calls (xw_coord w)" and "keeps_events (xe_log env) dir (xw_log w) (xw_log w')"
    and "\<forall>l t. Acknowledge l t \<in> set calls \<longrightarrow> ls_thread l \<noteq> th"
  shows "accounted env th dir w w'"
  unfolding accounted_def
proof (intro impI conjI allI)
  assume un: "unwritten (xe_log env) dir (xw_log w)"
  show "unwritten (xe_log env) dir (xw_log w')" using assms(2) un by (simp add: keeps_events_def)
  show "ended_in (xe_log env) dir t (xw_log w')" if "ended_in (xe_log env) dir t (xw_log w)" for t
    using ended_kept [OF assms(2) un that] .
  fix q
  assume "queue_view basic_ops th (xw_coord w) = Some q"
  from calls_keep_ids [OF this assms(3)] show "\<exists>q'. queue_view basic_ops th (xw_coord w') = Some q' \<and>
      (\<forall>t \<in> set (queue_ids q). t \<in> set (queue_ids q') \<or> ended_in (xe_log env) dir t (xw_log w'))"
    using assms(1) by auto
qed

lemma accounted_call:
  assumes "exec_env_ok env th dir \<Longrightarrow> c = perform basic_ops call (xw_coord w)" and "\<And>l t. call \<noteq> Acknowledge l t"
  shows "accounted env th dir w (w\<lparr>xw_coord := c\<rparr>)"
proof (cases "exec_env_ok env th dir")
  case True
  show ?thesis
  proof (rule accounted_calls)
    show "xw_coord (w\<lparr>xw_coord := c\<rparr>) = fold (perform basic_ops) [call] (xw_coord w)" using assms(1) [OF True] by simp
    show "keeps_events (xe_log env) dir (xw_log w) (xw_log (w\<lparr>xw_coord := c\<rparr>))"
      using reflpD [OF keeps_events_refl] by simp
    show "\<forall>l t. Acknowledge l t \<in> set [call] \<longrightarrow> ls_thread l \<noteq> th" using assms(2) by (metis list.set_intros(1) set_ConsD list.set(1) empty_iff)
  qed
qed (simp add: accounted_def)

lemma accounted_log:
  "(exec_env_ok env th dir \<Longrightarrow> keeps_events (xe_log env) dir (xw_log w) l) \<Longrightarrow> accounted env th dir w (w\<lparr>xw_log := l\<rparr>)"
  using accounted_calls [of "w\<lparr>xw_log := l\<rparr>" "[]" w env dir th] by (cases "exec_env_ok env th dir") (auto simp: accounted_def)

lemma peek_same: "snd (peek ops l c) = c"
  by (simp add: peek_def bind_check bind_load io_return_def split: sum.split)

lemma accounted_others: "accounted env th dir w (xe_others env n (w\<lparr>xw_calls := k\<rparr>))"
proof (cases "exec_env_ok env th dir")
  case True
  then have "relies (xe_log env) th dir (w\<lparr>xw_calls := k\<rparr>) (xe_others env n (w\<lparr>xw_calls := k\<rparr>))" by (simp add: exec_env_ok_def)
  then show ?thesis using accounted_calls [of _ _ w env dir th] by (auto simp: relies_def)
qed (simp add: accounted_def)

lemma log_env_ok: "exec_env_ok env th dir \<Longrightarrow> writes_once (xe_log env)"
  by (simp add: exec_env_ok_def)

interpretation accounting: exec_relation env lease "accounted env (ls_thread lease) dir" "\<lambda>_. True" for env lease dir
proof unfold_locales
  fix w and h and q and r and u request turn ds and ch :: conversation_handle
  let ?R = "accounted env (ls_thread lease) dir"
  show "?R w (w\<lparr>xw_coord := snd (start (xe_ops env) lease t (xw_coord w))\<rparr>)" for t
    by (rule accounted_call [where call = "Start lease t"]) (simp_all add: exec_env_ok_def)
  show "?R w (w\<lparr>xw_coord := snd (release_if_idle (xe_ops env) lease (xw_coord w))\<rparr>)"
    by (rule accounted_call [where call = "Release lease"]) (simp_all add: exec_env_ok_def)
  show "?R w (w\<lparr>xw_coord := drop_lease lease (xw_coord w)\<rparr>)"
    by (rule accounted_call [where call = "Drop lease"]) simp_all
  note keep = io_keeps_def [THEN iffD1, rule_format]
  show "?R w (w\<lparr>xw_log := snd (get_events (xe_log env) ch q (xw_log w))\<rparr>)"
    by (rule accounted_log, rule keep, rule keeps_get_events)
  show "?R w (w\<lparr>xw_log := snd (turn_handle (xe_log env) ch r (xw_log w))\<rparr>)"
    by (rule accounted_log, rule keep, rule keeps_turn_handle)
  show "?R w (w\<lparr>xw_log := snd (begin_turn (xe_log env) u ch request (xw_log w))\<rparr>)"
    by (rule accounted_log, rule keep, rule keeps_begin_turn, rule log_env_ok)
  show "?R w (w\<lparr>xw_log := snd (turn_add_events (xe_log env) turn ds (xw_log w))\<rparr>)"
    by (rule accounted_log, rule keep, rule keeps_turn_add, rule log_env_ok)
  show "?R w (w\<lparr>xw_log := snd (turn_finish (xe_log env) turn (xw_log w))\<rparr>)"
    by (rule accounted_log, rule keep, rule keeps_turn_finish, rule log_env_ok)
qed (simp_all add: accounted_refl accounted_trans accounted_others accounted_frame peek_same)

text \<open>The log is intact, and possibly a turn has ended in it.\<close>

definition intact :: "('s, 'p, 'e) exec_env \<Rightarrow> turn_thread \<Rightarrow> string \<Rightarrow> uuid set \<Rightarrow> ('s, 'p, 'e) exec_world \<Rightarrow> bool" where
  "intact env th dir ts w \<longleftrightarrow> unwritten (xe_log env) dir (xw_log w) \<and> (\<forall>t \<in> ts. ended_in (xe_log env) dir t (xw_log w))"

lemma intact_stable: "exec_env_ok env th dir \<Longrightarrow> stable_under (accounted env th dir) (intact env th dir ts)"
  by (auto simp: stable_under_def accounted_def intact_def)

lemma acknowledge_accounted:
  assumes "exec_env_ok env (ls_thread lease) dir" and "intact env (ls_thread lease) dir {t} w"
  shows "accounted env (ls_thread lease) dir w (w\<lparr>xw_coord := snd (acknowledge (xe_ops env) lease t (xw_coord w))\<rparr>)"
proof -
  let ?c = "perform basic_ops (Acknowledge lease t) (xw_coord w)"
  have c: "snd (acknowledge (xe_ops env) lease t (xw_coord w)) = ?c" using assms(1) by (simp add: exec_env_ok_def)
  have "\<exists>q'. queue_view basic_ops (ls_thread lease) ?c = Some q' \<and> (\<forall>x \<in> set (queue_ids q). x \<in> set (queue_ids q') \<or> x = t)"
    if "queue_view basic_ops (ls_thread lease) (xw_coord w) = Some q" for q
    using basic.perform_step [OF that, of "Acknowledge lease t"] queue_step_ids by fastforce
  then show ?thesis using assms(2) unfolding accounted_def c intact_def by fastforce
qed

lemma triple_acknowledge:
  assumes "exec_env_ok env (ls_thread lease) dir"
  shows "triple (accounted env (ls_thread lease) dir) (intact env (ls_thread lease) dir {t}) (acknowledge_head env lease t)
    (\<lambda>_. intact env (ls_thread lease) dir {t})"
proof -
  let ?R = "accounted env (ls_thread lease) dir" and ?P = "intact env (ls_thread lease) dir {t}"
  note stab = intact_stable [OF assms, of "{t}"]
  have "triple ?R ?P (coord env (acknowledge (xe_ops env) lease t)) (\<lambda>_. ?P)"
    unfolding coord_def
  proof (rule accounting.triple_atomically [OF stab])
    fix w n r w'
    assume P: "?P w" and run: "(let (r, c) = acknowledge (xe_ops env) lease t (xw_coord w) in (r, w\<lparr>xw_coord := c\<rparr>)) = (r, w')"
    have "w' = w\<lparr>xw_coord := snd (acknowledge (xe_ops env) lease t (xw_coord w))\<rparr>" using run by (auto simp: case_prod_beta)
    then show "?R w w' \<and> (\<forall>x. r = Inr x \<longrightarrow> ?P w')" using acknowledge_accounted [OF assms P] stab P by (auto simp: stable_under_def)
  qed
  then show ?thesis
    unfolding acknowledge_head_def by (rule triple_bind [OF accounted_trans]) (rule triple_pure [OF accounted_refl])
qed

lemma triple_journal:
  fixes lease :: turn_lease
  assumes "exec_env_ok env (ls_thread lease) dir" and "ch_dir thread = dir"
  shows "triple (accounted env (ls_thread lease) dir) (intact env (ls_thread lease) dir {}) (journal_status env thread turn)
    (\<lambda>st. intact env (ls_thread lease) dir (case st of Finished _ \<Rightarrow> {tn_id turn} | _ \<Rightarrow> {}))"
proof -
  let ?R = "accounted env (ls_thread lease) dir"
  let ?Q = "\<lambda>r. intact env (ls_thread lease) dir (case journal_status_from_events (ge_events r) turn of Finished _ \<Rightarrow> {tn_id turn} | _ \<Rightarrow> {})"
  let ?m = "get_events (xe_log env) thread (Some (journal_query (tn_id turn) [''turn_started'', ''turn_ended'', ''error'']))"
  have "triple ?R (intact env (ls_thread lease) dir {}) (logged env ?m) ?Q"
  proof (rule accounting.triple_logged)
    show "stable_under ?R (intact env (ls_thread lease) dir {})" by (rule intact_stable [OF assms(1)])
    show "?R w (w\<lparr>xw_log := snd (?m (xw_log w))\<rparr>)" for w by (rule accounting.read_log)
    fix w r l
    assume P: "intact env (ls_thread lease) dir {} w" and run: "?m (xw_log w) = (Inr r, l)"
    have "?R w (w\<lparr>xw_log := l\<rparr>)" using accounting.read_log [of env lease dir w thread] run by (metis snd_conv)
    then have "intact env (ls_thread lease) dir {} (w\<lparr>xw_log := l\<rparr>)" using intact_stable [OF assms(1)] P by (auto simp: stable_under_def)
    then show "?Q r (w\<lparr>xw_log := l\<rparr>)"
      using finished_turn_ended [OF run] assms(2) by (auto simp: intact_def split: journal_status.splits)
  qed
  then show ?thesis
    unfolding journal_status_def by (rule triple_bind [OF accounted_trans]) (rule triple_pure [OF accounted_refl])
qed

lemma intact_after:
  "exec_env_ok env th dir \<Longrightarrow> accounted env th dir w w' \<Longrightarrow> intact env th dir ts w \<Longrightarrow> intact env th dir ts w'"
  using intact_stable [of env th dir ts] unfolding stable_under_def by blast

text \<open>A handle on the head's turn that knows of its end only when the log has it.\<close>

definition turn_open :: "('s, 'p, 'e) exec_env \<Rightarrow> turn_thread \<Rightarrow> conversation_handle \<Rightarrow> turn_record \<Rightarrow> turn_handle_state
    \<Rightarrow> ('s, 'p, 'e) exec_world \<Rightarrow> bool" where
  "turn_open env th thread turn t w \<longleftrightarrow> hs_handle t = thread \<and> hs_turn t = turn \<and>
     intact env th (ch_dir thread) (if hs_finished t then {tn_id turn} else {}) w"

lemma turn_open_stable: "exec_env_ok env th (ch_dir thread) \<Longrightarrow> stable_under (accounted env th (ch_dir thread)) (turn_open env th thread turn t)"
  using intact_stable [of env th "ch_dir thread"] by (auto simp: stable_under_def turn_open_def)

text \<open>An operation on the log that keeps its events keeps the log intact.\<close>

lemma triple_intact_logged:
  fixes lease :: turn_lease
  assumes "exec_env_ok env (ls_thread lease) dir" and "stable_under (accounted env (ls_thread lease) dir) P"
    and "\<And>w. accounted env (ls_thread lease) dir w (w\<lparr>xw_log := snd (m (xw_log w))\<rparr>)"
    and "\<And>w x l. P w \<Longrightarrow> P (w\<lparr>xw_log := l\<rparr>) \<Longrightarrow> m (xw_log w) = (Inr x, l) \<Longrightarrow> Q x (w\<lparr>xw_log := l\<rparr>)"
  shows "triple (accounted env (ls_thread lease) dir) P (logged env m) Q"
proof (rule accounting.triple_logged [OF assms(2,3)])
  fix w x l
  assume P: "P w" and run: "m (xw_log w) = (Inr x, l)"
  have "accounted env (ls_thread lease) dir w (w\<lparr>xw_log := l\<rparr>)" using assms(3) [of w] run by simp
  then have "P (w\<lparr>xw_log := l\<rparr>)" using assms(2) P by (auto simp: stable_under_def)
  then show "Q x (w\<lparr>xw_log := l\<rparr>)" by (rule assms(4) [OF P _ run])
qed

lemma triple_turn_handle:
  fixes lease :: turn_lease
  assumes "exec_env_ok env (ls_thread lease) (ch_dir thread)"
  shows "triple (accounted env (ls_thread lease) (ch_dir thread)) (intact env (ls_thread lease) (ch_dir thread) {})
    (logged env (turn_handle (xe_log env) thread turn)) (turn_open env (ls_thread lease) thread turn)"
  by (rule triple_intact_logged [OF assms intact_stable [OF assms] accounting.read_turn])
     (auto simp: turn_open_def intact_def dest: turn_handle_ended)

lemma triple_begin_turn:
  fixes lease :: turn_lease
  assumes "exec_env_ok env (ls_thread lease) (ch_dir thread)" and "bt_turn request = turn"
  shows "triple (accounted env (ls_thread lease) (ch_dir thread)) (intact env (ls_thread lease) (ch_dir thread) {})
    (logged env (begin_turn (xe_log env) user thread request)) (turn_open env (ls_thread lease) thread turn)"
  by (rule triple_intact_logged [OF assms(1) intact_stable [OF assms(1)] accounting.began])
     (use assms(2) in \<open>auto simp: turn_open_def dest: begin_turn_open\<close>)

lemma triple_add_events:
  fixes lease :: turn_lease
  assumes "exec_env_ok env (ls_thread lease) (ch_dir thread)"
  shows "triple (accounted env (ls_thread lease) (ch_dir thread)) (turn_open env (ls_thread lease) thread turn t)
    (logged env (turn_add_events (xe_log env) t ds)) (\<lambda>r. turn_open env (ls_thread lease) thread turn (snd r))"
  by (rule triple_intact_logged [OF assms turn_open_stable [OF assms] accounting.added])
     (auto simp: turn_open_def dest: turn_add_same)

lemma triple_finish:
  fixes lease :: turn_lease
  assumes "exec_env_ok env (ls_thread lease) (ch_dir thread)"
  shows "triple (accounted env (ls_thread lease) (ch_dir thread)) (turn_open env (ls_thread lease) thread turn t)
    (logged env (turn_finish (xe_log env) t)) (\<lambda>_. intact env (ls_thread lease) (ch_dir thread) {tn_id turn})"
proof (rule triple_intact_logged [OF assms turn_open_stable [OF assms] accounting.finished])
  fix w r l
  assume w: "turn_open env (ls_thread lease) thread turn t w" "turn_open env (ls_thread lease) thread turn t (w\<lparr>xw_log := l\<rparr>)"
    and run: "turn_finish (xe_log env) t (xw_log w) = (Inr r, l)"
  have "ended_in (xe_log env) (ch_dir thread) (tn_id turn) l"
    using turn_finish_ended [OF run] w(1) assms by (auto simp: turn_open_def intact_def exec_env_ok_def)
  then show "intact env (ls_thread lease) (ch_dir thread) {tn_id turn} (w\<lparr>xw_log := l\<rparr>)"
    using w(2) by (auto simp: turn_open_def intact_def)
qed

lemma triple_persist:
  fixes lease :: turn_lease
  assumes ok: "exec_env_ok env (ls_thread lease) (ch_dir thread)" and status: "\<And>r. status \<noteq> Finished r"
  shows "triple (accounted env (ls_thread lease) (ch_dir thread)) (intact env (ls_thread lease) (ch_dir thread) {})
    (persist_head_failure env thread head status e) (\<lambda>_. intact env (ls_thread lease) (ch_dir thread) {entry_id head})"
proof -
  let ?R = "accounted env (ls_thread lease) (ch_dir thread)" and ?I = "intact env (ls_thread lease) (ch_dir thread)"
  let ?open = "turn_open env (ls_thread lease) thread (qt_turn head)"
  note seq = triple_bind [OF accounted_trans]
  have close: "triple ?R (?open t) (io_bind (logged env (turn_add_events (xe_log env) t [ErrorEvent e (xe_no_metadata env)]))
      (\<lambda>r. io_bind (logged env (turn_finish (xe_log env) (snd r))) (\<lambda>_. io_return ()))) (\<lambda>_. ?I {entry_id head})" for t
    by (rule seq [OF triple_add_events [OF ok]], rule seq [OF triple_finish [OF ok]])
       (rule triple_pure [OF accounted_refl], simp add: entry_id_def)
  have begun: "triple ?R (?I {}) (io_bind (io_lift r) (\<lambda>event. logged env (begin_turn (xe_log env) None thread (request event)))) ?open"
    if "\<And>x. bt_turn (request x) = qt_turn head" for r :: "'a event_data result" and request
    by (rule seq [OF triple_lift [OF accounted_refl, where Q = "\<lambda>_. ?I {}"]]) (auto intro: triple_begin_turn [OF ok that])
  show ?thesis
    using status unfolding persist_head_failure_def case_prod_beta
    by (cases status) (auto intro!: seq [OF _ close] triple_turn_handle [OF ok] begun)
qed

lemma triple_broadcast:
  fixes lease :: turn_lease
  assumes "exec_env_ok env (ls_thread lease) dir"
  shows "triple (accounted env (ls_thread lease) dir) (intact env (ls_thread lease) dir ts)
    (update_shared env (broadcast key m)) (\<lambda>_. intact env (ls_thread lease) dir ts)"
  by (intro triple_keep accounting.update_keeps accounting.events intact_stable assms)

text \<open>A head is only ever acknowledged after its end is in the journal.\<close>

definition acknowledged_ended :: "('s, 'p, 'e) exec_env \<Rightarrow> turn_thread \<Rightarrow> string \<Rightarrow> uuid \<Rightarrow> 'w head_outcome option
    \<Rightarrow> ('s, 'p, 'e) exec_world \<Rightarrow> bool" where
  "acknowledged_ended env th dir t outcome w \<longleftrightarrow> (\<forall>h. outcome = Some (Next h) \<longrightarrow> ended_in (xe_log env) dir t (xw_log w))"

lemma triple_ack_ended:
  assumes "exec_env_ok env (ls_thread lease) dir"
  shows "triple (accounted env (ls_thread lease) dir) (intact env (ls_thread lease) dir {t}) (acknowledge_head env lease t)
    (acknowledged_ended env (ls_thread lease) dir t)"
  by (rule triple_weaken [OF triple_acknowledge [OF assms]]) (simp_all add: acknowledged_ended_def intact_def)

lemma triple_fail_head:
  fixes lease :: turn_lease
  assumes ok: "exec_env_ok env (ls_thread lease) (ch_dir thread)" and status: "\<And>r. status \<noteq> Finished r"
  shows "triple (accounted env (ls_thread lease) (ch_dir thread)) (intact env (ls_thread lease) (ch_dir thread) {})
    (fail_head env lease thread key head status s e) (acknowledged_ended env (ls_thread lease) (ch_dir thread) (entry_id head))"
proof -
  let ?R = "accounted env (ls_thread lease) (ch_dir thread)" and ?I = "intact env (ls_thread lease) (ch_dir thread)"
  note seq = triple_bind [OF accounted_trans] and pure = triple_pure [OF accounted_refl] and keep = triple_keep [OF _ intact_stable [OF ok]]
  have fail: "triple ?R (?I {}) (io_bind (persist_head_failure env thread head status m) (\<lambda>_.
      io_bind (update_shared env (broadcast key (Inl m))) (\<lambda>_. acknowledge_head env lease (entry_id head))))
      (acknowledged_ended env (ls_thread lease) (ch_dir thread) (entry_id head))" for m
    by (rule seq [OF triple_persist [OF ok status]], rule seq [OF triple_broadcast [OF ok] triple_ack_ended [OF ok]])
  show ?thesis
    unfolding fail_head_def Let_def
    by (rule seq [OF keep [OF accounting.shared_keeps]], rule triple_if, rule pure, simp add: acknowledged_ended_def,
        rule seq [OF keep [OF accounting.coord_keeps [OF accounting.peeked]]],
        rule seq [OF triple_lift [OF accounted_refl, where Q = "\<lambda>_. ?I {}"]], assumption,
        intro triple_if pure fail) (simp_all add: acknowledged_ended_def)
qed

lemma triple_settle_head:
  fixes lease :: turn_lease
  assumes ok: "exec_env_ok env (ls_thread lease) (ch_dir thread)"
  shows "triple (accounted env (ls_thread lease) (ch_dir thread)) (intact env (ls_thread lease) (ch_dir thread) {})
    (settle_head env lease thread key head s e) (acknowledged_ended env (ls_thread lease) (ch_dir thread) (entry_id head))"
  unfolding settle_head_def
proof (rule triple_bind [OF accounted_trans triple_journal [OF ok refl]])
  fix status
  note ended = triple_bind [OF accounted_trans triple_broadcast [OF ok] triple_ack_ended [OF ok, unfolded entry_id_def]]
  show "triple (accounted env (ls_thread lease) (ch_dir thread))
      (intact env (ls_thread lease) (ch_dir thread) (case status of Finished _ \<Rightarrow> {tn_id (qt_turn head)} | _ \<Rightarrow> {}))
      (case status of Finished result \<Rightarrow> io_bind (update_shared env (broadcast key (journal_message result)))
           (\<lambda>_. acknowledge_head env lease (entry_id head))
       | _ \<Rightarrow> fail_head env lease thread key head status s e)
      (acknowledged_ended env (ls_thread lease) (ch_dir thread) (entry_id head))"
    by (cases status) (simp_all add: triple_fail_head [OF ok, unfolded entry_id_def] ended entry_id_def)
qed

lemma settle_head_accounted:
  fixes lease :: turn_lease
  assumes "xe_get_thread env n (rt_caller (xe_root env)) (ls_thread lease) = Inr (Some thread)"
  shows "io_keeps (accounted env (ls_thread lease) dir) (settle_head env lease thread key head s e)"
  unfolding io_keeps_def
proof
  fix w
  show "accounted env (ls_thread lease) dir w (snd (settle_head env lease thread key head s e w))"
  proof (cases "exec_env_ok env (ls_thread lease) dir \<and> unwritten (xe_log env) dir (xw_log w)")
    case True
    then have dir: "dir = ch_dir thread" using assms by (simp add: exec_env_ok_def)
    show ?thesis
      using triple_settle_head [of env lease thread key head s e] True unfolding dir triple_def intact_def
      by (metis empty_iff prod.collapse)
  qed (auto simp: accounted_def)
qed

interpretation accounting_task: task_relation env lease "accounted env (ls_thread lease) dir" "\<lambda>_. True" for env lease dir
  by unfold_locales (simp_all add: settle_head_accounted)

text \<open>C2: no accepted turn is lost. Let the queue task of a thread run for any time beside the rest of the
  process, through failures of the store, the journal or the executing harness, suspensions and shutdown: every
  turn that was in the thread's durable queue is still in it, or its end is recorded in the thread's log.\<close>

theorem accepted_turns_queued_or_journaled:
  assumes "exec_env_ok env (ls_thread lease) dir" and "unwritten (xe_log env) dir (xw_log w)"
    and "queue_view basic_ops (ls_thread lease) (xw_coord w) = Some q"
    and "queue_task fuel env lease initial w = (r, w')"
  shows "\<exists>q'. queue_view basic_ops (ls_thread lease) (xw_coord w') = Some q' \<and>
    (\<forall>t \<in> set (queue_ids q). t \<in> set (queue_ids q') \<or> ended_in (xe_log env) dir t (xw_log w'))"
proof -
  have "accounted env (ls_thread lease) dir w w'"
    using accounting_task.queue_task_keeps [of env lease dir fuel initial] assms(4) by (simp add: io_keeps_def) (metis snd_conv)
  then show ?thesis using assms(1-3) unfolding accounted_def by blast
qed

section \<open>Observers are answered\<close>

definition answered :: "nat \<Rightarrow> ('s, 'p, 'e) exec_world \<Rightarrow> bool" where
  "answered ch w \<longleftrightarrow> xw_closed w ch \<or> (\<exists>m \<in> set (xw_inbox w ch). terminal m)"

definition waiting :: "turn_key \<Rightarrow> nat \<Rightarrow> ('s, 'p, 'e) exec_world \<Rightarrow> bool" where
  "waiting key ch w \<longleftrightarrow> ch \<in> set (context_observers key w) \<or> answered ch w"

text \<open>The other tasks never take back an answer, and never drop the observer without one.\<close>

definition observer_kept :: "('s, 'p, 'e) exec_env \<Rightarrow> turn_key \<Rightarrow> nat \<Rightarrow> bool" where
  "observer_kept env key ch \<longleftrightarrow>
     (\<forall>n w. (answered ch w \<longrightarrow> answered ch (xe_others env n w)) \<and> (waiting key ch w \<longrightarrow> waiting key ch (xe_others env n w)))"

definition observed :: "('s, 'p, 'e) exec_env \<Rightarrow> turn_key \<Rightarrow> nat \<Rightarrow> ('s, 'p, 'e) exec_world \<Rightarrow> ('s, 'p, 'e) exec_world \<Rightarrow> bool" where
  "observed env key ch w w' \<longleftrightarrow> (observer_kept env key ch \<longrightarrow>
     (answered ch w \<longrightarrow> answered ch w') \<and> (waiting key ch w \<longrightarrow> waiting key ch w'))"

lemma observed_refl: "reflp (observed env key ch)"
  by (simp add: reflp_def observed_def)

lemma observed_trans: "transp (observed env key ch)"
  unfolding transp_def observed_def by blast

lemma observed_frame:
  "xw_inbox w' = xw_inbox w \<Longrightarrow> xw_closed w' = xw_closed w \<Longrightarrow> xw_contexts w' = xw_contexts w \<Longrightarrow> observed env key ch w w'"
  by (simp add: observed_def answered_def waiting_def context_observers_def)

lemma observed_others: "observed env key ch w (xe_others env n (w\<lparr>xw_calls := k\<rparr>))"
proof -
  have "answered ch (w\<lparr>xw_calls := k\<rparr>) = answered ch w" "waiting key ch (w\<lparr>xw_calls := k\<rparr>) = waiting key ch w"
    by (simp_all add: answered_def waiting_def context_observers_def)
  then show ?thesis unfolding observed_def observer_kept_def by metis
qed

lemma set_observers_of: "context_observers key (set_observers key' chs w) =
    (if key = key' \<and> map_of (xw_contexts w) key \<noteq> None then chs else context_observers key w)"
  by (auto simp: context_observers_def set_observers_def AList.update_conv' split: option.splits)

lemma remove_context_of: "context_observers key (remove_context key' w) = (if key = key' then [] else context_observers key w)"
  by (auto simp: context_observers_def remove_context_def AList.delete_conv' split: option.splits)

lemma context_observers_sent [simp]: "context_observers key (fold (send_to m) chs w) = context_observers key w"
  by (simp add: context_observers_def)

lemma send_inbox: "set (xw_inbox w ch) \<subseteq> set (xw_inbox (fold (send_to m) chs w) ch)"
proof (induction chs arbitrary: w)
  case (Cons c chs)
  have "set (xw_inbox w ch) \<subseteq> set (xw_inbox (send_to m c w) ch)" by (auto simp: send_to_def)
  then show ?case using Cons.IH [of "send_to m c w"] by auto
qed simp

lemma sent: "ch \<in> set chs \<Longrightarrow> \<not> xw_closed w ch \<Longrightarrow> m \<in> set (xw_inbox (fold (send_to m) chs w) ch)"
proof (induction chs arbitrary: w)
  case (Cons c chs)
  show ?case
  proof (cases "c = ch")
    case True
    then have "m \<in> set (xw_inbox (send_to m c w) ch)" using Cons.prems(2) by (simp add: send_to_def)
    then show ?thesis using send_inbox by fastforce
  next
    case False
    then show ?thesis using Cons.prems Cons.IH [of "send_to m c w"] by (simp add: send_to_def)
  qed
qed simp

lemma answered_sent: "answered ch w \<Longrightarrow> answered ch (fold (send_to m) chs w)"
  using send_inbox [of w ch m chs] by (auto simp: answered_def)

lemma sent_answered: "terminal m \<Longrightarrow> ch \<in> set chs \<Longrightarrow> answered ch (fold (send_to m) chs w)"
  using sent [of ch chs w m] by (auto simp: answered_def)

lemma answered_cong: "xw_inbox w' = xw_inbox w \<Longrightarrow> xw_closed w' = xw_closed w \<Longrightarrow> answered ch w' = answered ch w"
  by (simp add: answered_def)

lemma broadcast_inbox [simp]: "xw_inbox (broadcast key m w) = xw_inbox (fold (send_to m) (context_observers key w) w)"
  by (simp add: broadcast_def Let_def)

lemma broadcast_answered: "answered ch w \<Longrightarrow> answered ch (broadcast key m w)"
  using answered_sent [of ch w m "context_observers key w"] by (simp add: answered_def)

lemma broadcast_terminal: "terminal m \<Longrightarrow> waiting key ch w \<Longrightarrow> answered ch (broadcast key m w)"
  using broadcast_answered [of ch w key m] sent [of ch "context_observers key w" w m]
  by (auto simp: waiting_def answered_def)

lemma broadcast_waiting: "waiting key ch w \<Longrightarrow> waiting key ch (broadcast key' m w)"
proof -
  assume w: "waiting key ch w"
  show "waiting key ch (broadcast key' m w)"
  proof (cases "ch \<in> set (context_observers key w) \<and> \<not> answered ch w")
    case True
    then have open_ch: "\<not> xw_closed w ch" by (simp add: answered_def)
    show ?thesis
    proof (cases "key' = key \<and> terminal m")
      case True
      then show ?thesis using broadcast_terminal [of m key ch w] w by (simp add: waiting_def)
    next
      case False
      then have "ch \<in> set (context_observers key (broadcast key' m w))"
        using True open_ch by (auto simp: broadcast_def Let_def remove_context_of set_observers_of)
      then show ?thesis by (simp add: waiting_def)
    qed
  next
    case False
    then show ?thesis using w broadcast_answered by (auto simp: waiting_def)
  qed
qed

lemma stop_observed: "observed env key ch w (stop_observers key' e w)"
proof -
  obtain m where m: "stop_observers key' e w = set_observers key' [] (fold (send_to m) (context_observers key' w) w)" "terminal m"
    by (simp add: stop_observers_def)
  have same: "answered ch (stop_observers key' e w) = answered ch (fold (send_to m) (context_observers key' w) w)"
    by (rule answered_cong) (simp_all add: m(1))
  have "waiting key ch (stop_observers key' e w)" if "ch \<in> set (context_observers key w)"
  proof (cases "key' = key")
    case True
    then show ?thesis using that sent_answered [OF m(2), of ch "context_observers key w" w] same by (simp add: waiting_def)
  next
    case False
    then show ?thesis using that by (simp add: waiting_def m(1) set_observers_of)
  qed
  then show ?thesis using answered_sent [of ch w] same by (auto simp: observed_def waiting_def)
qed

interpretation observing: exec_relation env lease "observed env key ch" "\<lambda>_. True" for env lease key ch
  by unfold_locales
     (simp_all add: observed_refl observed_trans observed_others stop_observed observed_frame,
      simp add: observed_def broadcast_answered broadcast_waiting)

text \<open>A head is only ever acknowledged after its observers have been answered.\<close>

definition acknowledged_answered :: "nat \<Rightarrow> 'w head_outcome option \<Rightarrow> ('s, 'p, 'e) exec_world \<Rightarrow> bool" where
  "acknowledged_answered ch outcome w \<longleftrightarrow> (\<forall>h. outcome = Some (Next h) \<longrightarrow> answered ch w)"

lemma observed_stable:
  "observer_kept env key ch \<Longrightarrow> stable_under (observed env key ch) (waiting key ch)"
  "observer_kept env key ch \<Longrightarrow> stable_under (observed env key ch) (answered ch)"
  by (auto simp: stable_under_def observed_def)

lemma triple_answer:
  fixes env :: "('s, 'p, 'e) exec_env"
  assumes "observer_kept env key ch" and "terminal m"
  shows "triple (observed env key ch) (waiting key ch)
    (io_bind (update_shared env (broadcast key m)) (\<lambda>_. acknowledge_head env lease t)) (acknowledged_answered ch)"
proof (rule triple_bind [OF observed_trans, where Q' = "\<lambda>_. answered ch"])
  show "triple (observed env key ch) (waiting key ch) (update_shared env (broadcast key m)) (\<lambda>_. answered ch)"
    unfolding update_shared_def
    by (rule observing.triple_atomically [OF observed_stable(1) [OF assms(1)]])
       (auto simp: io_modify_def broadcast_terminal [OF assms(2)] observing.events)
  have "io_keeps (observed env key ch) (acknowledge_head env lease t)"
    unfolding acknowledge_head_def by (intro observing.bind observing.pure observing.coord_keeps) (simp add: observed_frame)
  from triple_keep [OF this observed_stable(2) [OF assms(1)]]
  show "triple (observed env key ch) (answered ch) (acknowledge_head env lease t) (acknowledged_answered ch)"
    by (rule triple_weaken) (simp_all add: acknowledged_answered_def)
qed

lemma triple_settle_answer:
  fixes env :: "('s, 'p, 'e) exec_env" and lease :: turn_lease
  assumes kept: "observer_kept env key ch"
  shows "triple (observed env key ch) (waiting key ch) (settle_head env lease thread key head s e) (acknowledged_answered ch)"
proof -
  let ?R = "observed env key ch"
  note seq = triple_bind [OF observed_trans] and keep = triple_keep [OF _ observed_stable(1) [OF kept]]
  note pure = triple_pure [OF observed_refl]
  have persist: "io_keeps ?R (persist_head_failure env thread head st m)" for st m by (rule observing.persist_keeps)
  have peek: "io_keeps ?R (coord env (peek (xe_ops env) lease))" by (rule observing.coord_keeps) (simp add: observed_frame)
  have fail: "triple ?R (waiting key ch) (fail_head env lease thread key head st s e) (acknowledged_answered ch)" for st
    unfolding fail_head_def Let_def
    by (rule seq [OF keep [OF observing.shared_keeps]], rule triple_if, rule pure, simp add: acknowledged_answered_def,
        rule seq [OF keep [OF peek]], rule seq [OF keep [OF observing.pure(2)]],
        intro triple_if pure seq [OF keep [OF persist]] triple_answer [OF kept]) (simp_all add: acknowledged_answered_def)
  have "terminal (journal_message r)" for r :: "string + send_result" by (simp add: journal_message_def split: sum.split)
  note done_ok = triple_answer [OF kept this]
  show ?thesis
    unfolding settle_head_def
    by (rule seq [OF keep [OF observing.journal_keeps]]) (auto intro: fail done_ok split: journal_status.split)
qed

text \<open>C3: an acknowledged turn is journaled, and the observers it had when its head was taken are answered. When
  the queue task acknowledges a head (and only then does the turn leave the durable queue), the end of the turn is in the
  thread's log, and every observer that was already registered for the turn when the queue task took the head, and that
  no other task removes or silences meanwhile, has been sent the turn's completion or an error, unless its receiver is
  gone. An observer that joins while the head runs is not covered: one that joins between the answer and the
  acknowledgement gets no answer from this run.\<close>

theorem acknowledged_turn_is_journaled_and_answered:
  assumes "exec_env_ok env (ls_thread lease) dir" and "unwritten (xe_log env) dir (xw_log w)"
    and "run_head fuel env lease h w = (Inr (Some (Next next_head)), w')"
  shows "ended_in (xe_log env) dir (entry_id h) (xw_log w') \<and>
    (\<forall>ch. observer_kept env (key_of (ls_thread lease) (entry_id h)) ch \<longrightarrow>
       ch \<in> set (context_observers (key_of (ls_thread lease) (entry_id h)) w) \<longrightarrow>
       xw_closed w' ch \<or> (\<exists>m \<in> set (xw_inbox w' ch). terminal m))"
proof (intro conjI allI impI)
  let ?th = "ls_thread lease" and ?key = "key_of (ls_thread lease) (entry_id h)"
  have thread: "ch_dir thread = dir" if "xe_get_thread env n who ?th = Inr (Some thread)" for n who thread
    using assms(1) that by (simp add: exec_env_ok_def)
  have settle: "triple (accounted env ?th dir) (intact env ?th dir {})
      (settle_head env lease thread key head s e) (acknowledged_ended env ?th dir (entry_id h))"
    if "ch_dir thread = dir" "entry_id head = entry_id h" for thread key head s e
    using triple_settle_head [of env lease thread key head s e] assms(1) that by simp
  have "triple (accounted env ?th dir) (intact env ?th dir {}) (run_head fuel env lease h) (acknowledged_ended env ?th dir (entry_id h))"
    by (rule accounting.run_head_triple [OF intact_stable [OF assms(1)]])
       (simp_all add: acknowledged_ended_def [of _ _ _ _ None] acknowledged_ended_def [of _ _ _ _ "Some Again"] settle thread)
  then show "ended_in (xe_log env) dir (entry_id h) (xw_log w')"
    using assms(2,3) by (auto simp: triple_def intact_def acknowledged_ended_def)
  fix ch
  assume kept: "observer_kept env ?key ch" and reg: "ch \<in> set (context_observers ?key w)"
  have "triple (observed env ?key ch) (waiting ?key ch) (run_head fuel env lease h) (acknowledged_answered ch)"
    by (rule observing.run_head_triple [OF observed_stable(1) [OF kept]])
       (simp_all add: acknowledged_answered_def [of _ None] acknowledged_answered_def [of _ "Some Again"] triple_settle_answer [OF kept])
  then show "xw_closed w' ch \<or> (\<exists>m \<in> set (xw_inbox w' ch). terminal m)"
    using assms(3) reg by (auto simp: triple_def waiting_def acknowledged_answered_def answered_def)
qed

section \<open>Turns run with their submitter's authority\<close>

fun by_submitter :: "turn_record \<Rightarrow> string option \<Rightarrow> 'p exec_call \<Rightarrow> bool" where
  "by_submitter turn who (Executed rt t work rec) \<longleftrightarrow> t = turn \<and> rt_caller rt = who"
| "by_submitter turn who _ \<longleftrightarrow> True"

definition trace_kept :: "('s, 'p, 'e) exec_env \<Rightarrow> bool" where
  "trace_kept env \<longleftrightarrow> (\<forall>n w. xw_trace (xe_others env n w) = xw_trace w)"

definition traced :: "('s, 'p, 'e) exec_env \<Rightarrow> turn_record \<Rightarrow> string option \<Rightarrow> ('s, 'p, 'e) exec_world \<Rightarrow> ('s, 'p, 'e) exec_world \<Rightarrow> bool" where
  "traced env turn who w w' \<longleftrightarrow> (trace_kept env \<longrightarrow> (\<exists>new. xw_trace w' = xw_trace w @ new \<and> (\<forall>c \<in> set new. by_submitter turn who c)))"

lemma traced_frame: "xw_trace w' = xw_trace w \<Longrightarrow> traced env turn who w w'"
  by (simp add: traced_def)

lemma traced_trans: "transp (traced env turn who)"
proof (rule transpI)
  fix w1 w2 w3
  assume "traced env turn who w1 w2" "traced env turn who w2 w3"
  then show "traced env turn who w1 w3" unfolding traced_def by (metis append.assoc Un_iff set_append)
qed

interpretation tracing: coordinator_free_relation env lease "traced env turn who" "by_submitter turn who" for env lease turn who
proof unfold_locales
  show "reflp (traced env turn who)" by (simp add: reflp_def traced_frame)
  show "traced env turn who w (xe_others env n (w\<lparr>xw_calls := k\<rparr>))" for w n k by (simp add: traced_def trace_kept_def)
  show "traced env turn who w (w\<lparr>xw_trace := xw_trace w @ [call]\<rparr>)" if "by_submitter turn who call" for w call
    using that by (simp add: traced_def)
qed (simp_all add: traced_trans traced_frame)

text \<open>C13: a turn runs with the authority of its submitter. When the queue task takes a head, everything it asks
  the harness to execute is the very turn at the head of the thread's durable queue as it is started, on behalf of
  the principal recorded with that turn, never of another caller; also when the submitter's own
  connection is gone and the turn is recovered.\<close>

theorem turn_runs_for_its_submitter:
  assumes "trace_kept env" and "run_head fuel env lease h w = (r, w')"
  shows "\<exists>new. xw_trace w' = xw_trace w @ new \<and>
    (\<forall>rt turn work rec. Executed rt turn work rec \<in> set new \<longrightarrow>
      (\<exists>q e. queue_view (xe_ops env) (ls_thread lease)
           (xw_coord (xe_others env (xw_calls w) (w\<lparr>xw_calls := Suc (xw_calls w)\<rparr>))) = Some q \<and>
         front (tq_pending q) = Some e \<and> entry_id e = entry_id h \<and> turn = qt_turn e \<and> rt_caller rt = qt_principal e))"
proof -
  let ?w = "xe_others env (xw_calls w) (w\<lparr>xw_calls := Suc (xw_calls w)\<rparr>)"
  obtain s c where s: "start (xe_ops env) lease (entry_id h) (xw_coord ?w) = (s, c)" by fastforce
  have same: "xw_trace (?w\<lparr>xw_coord := c\<rparr>) = xw_trace w" using assms(1) by (simp add: trace_kept_def)
  have first: "coord env (start (xe_ops env) lease (entry_id h)) w = (s, ?w\<lparr>xw_coord := c\<rparr>)"
    using s by (simp add: coord_def atomically_def)
  show ?thesis
  proof (cases s)
    case (Inl e)
    then have "w' = ?w\<lparr>xw_coord := c\<rparr>" using assms(2) first by (simp add: run_head_def io_bind_def)
    then show ?thesis using same by (intro exI [of _ "[]"]) simp
  next
    case (Inr st)
    let ?R = "traced env (qt_turn (sr_head st)) (qt_principal (sr_head st))"
    have run: "run_started fuel env lease (qt_started h) st (?w\<lparr>xw_coord := c\<rparr>) = (r, w')"
      using assms(2) first Inr by (simp add: run_head_def io_bind_def)
    have "triple ?R (\<lambda>_. True) (run_started fuel env lease (qt_started h) st) (\<lambda>_ _. True)"
      by (rule tracing.run_started_triple) (auto simp: stable_under_def intro!: triple_keep [OF tracing.settle_keeps, THEN triple_weaken])
    then have "?R (?w\<lparr>xw_coord := c\<rparr>) w'" using run by (simp add: triple_def)
    then obtain new where new: "xw_trace w' = xw_trace w @ new" "\<forall>c \<in> set new. by_submitter (qt_turn (sr_head st)) (qt_principal (sr_head st)) c"
      using assms(1) same by (auto simp: traced_def)
    obtain q e where q: "queue_view (xe_ops env) (ls_thread lease) (xw_coord ?w) = Some q" "front (tq_pending q) = Some e"
      "entry_id e = entry_id h" "qt_turn (sr_head st) = qt_turn e" "qt_principal (sr_head st) = qt_principal e"
      using start_run [of "xe_ops env" lease "entry_id h" "xw_coord ?w" st c] s Inr by blast
    show ?thesis using new q by (intro exI [of _ new]) fastforce
  qed
qed

section \<open>A sample run\<close>

definition sample_log_env :: log_env where
  "sample_log_env = sample_env\<lparr>le_put := \<lambda>_ _. bail ''read only''\<rparr>"

definition sample_work :: "unit turn_work" where
  "sample_work = \<lparr> wk_streaming = False, wk_agent_config = \<lparr> ag_model = ''m'', ag_max_output_tokens = None, ag_other = () \<rparr>,
     wk_thread_config = (), wk_request = \<lparr> rq_input = None, rq_session_id = None \<rparr> \<rparr>"

definition sample_head :: "bool \<Rightarrow> unit turn_work queued_turn" where
  "sample_head started = \<lparr> qt_turn = \<lparr> tn_id = 5, tn_session_id = 7 \<rparr>, qt_work = sample_work, qt_principal = Some ''ada'',
     qt_started = started, qt_control = Run \<rparr>"

definition sample_exec_lease :: turn_lease where
  "sample_exec_lease = \<lparr> ls_thread = sample_thread, ls_identity = 0 \<rparr>"

definition sample_exec_queue :: "bool \<Rightarrow> unit turn_work turn_queue_state" where
  "sample_exec_queue started = \<lparr> tq_pending = [sample_head started], tq_receipts = [], tq_acknowledged = None \<rparr>"

definition sample_exec_coordinator :: "bool \<Rightarrow> unit turn_work basic_queue_store coordinator" where
  "sample_exec_coordinator started =
     \<lparr> tc_store = \<lparr> bq_claim = (\<lambda>_. Inr ()), bq_records = [sample_thread],
         bq_queues = [(sample_thread, \<lparr> sq_thread = sample_thread, sq_state = sample_exec_queue started \<rparr>)] \<rparr>,
       tc_threads = (\<lambda>_. thread_mutation_default)(sample_thread := \<lparr> tm_owner = Some 0, tm_control = None \<rparr>),
       tc_leases = [sample_exec_lease], tc_next_lease = 1, tc_watch = (\<lambda>_. None), tc_next_watch = 0 \<rparr>"

definition sample_end_event :: "unit event" where
  "sample_end_event = \<lparr> ev_id = 8, ev_thread_id = 1, ev_session_id = Some 7, ev_turn_id = Some 5, ev_created_at = 8, ev_data = TurnEnded \<rparr>"

definition sample_journal :: "bool \<Rightarrow> unit stored_object store" where
  "sample_journal ended = (if ended then store_put (event_path decimal_text ''c'' 8) (Stored_Event sample_end_event) else id)
     [(''c/record.json'', Stored_Record sample_record)]"

definition sample_exec_world :: "bool \<Rightarrow> (unit turn_work basic_queue_store, unit, unit) exec_world" where
  "sample_exec_world started =
     \<lparr> xw_coord = sample_exec_coordinator started,
       xw_log = \<lparr> lw_store = sample_journal started, lw_subscribers = (\<lambda>_. []), lw_index = (\<lambda>_. None), lw_calls = 0 \<rparr>,
       xw_contexts = [(key_of sample_thread 5, \<lparr> tx_runtime = \<lparr> rt_harness = 1, rt_caller = Some ''ada'' \<rparr>, tx_observers = [3] \<rparr>)],
       xw_active = [], xw_draining = False, xw_tasks = [], xw_inbox = (\<lambda>_. []), xw_closed = (\<lambda>_. False), xw_next_channel = 4,
       xw_current = None, xw_trace = [], xw_calls = 0 \<rparr>"

definition sample_exec_env :: "(unit turn_work basic_queue_store, unit, unit) exec_env" where
  "sample_exec_env =
     \<lparr> xe_ops = basic_ops, xe_log = sample_log_env, xe_others = (\<lambda>_ w. w), xe_root = \<lparr> rt_harness = 0, rt_caller = None \<rparr>,
       xe_clock = (\<lambda>_. 0), xe_submit = (\<lambda>_ _ _. Inr ()), xe_get_agent = (\<lambda>_ _ _. Inr True),
       xe_get_thread = (\<lambda>_ _ _. Inr (Some sample_handle)), xe_control = (\<lambda>_. Control_Changed), xe_select = (\<lambda>_. Stream_Closed),
       xe_recovery_slot = (\<lambda>_. Inr ()), xe_resolver = None, xe_execute = (\<lambda>_ _ _ _ _. Inr ()), xe_encode = (\<lambda>_. Inr ()),
       xe_decode = (\<lambda>_. bail ''no work''), xe_no_metadata = (), xe_check = (\<lambda>_ _ _. Inr ()), xe_agent_config = (\<lambda>_ _. bail ''none''),
       xe_thread_config = (\<lambda>_ _. Inr ()), xe_model_config = (\<lambda>_. Inr None), xe_can_suspend = (\<lambda>_. True),
       xe_harness_shutdown = (\<lambda>_ _. Inr ()), xe_join = (\<lambda>_. Inr ()) \<rparr>"

lemma sample_log_env_simps [simp]:
  "le_text sample_log_env = decimal_text" "le_check sample_log_env u = Inr ()" "le_claim_local sample_log_env u = Inr ()"
  "le_put sample_log_env n k = bail ''read only''" "le_now sample_log_env n = of_nat (100 + n)"
  "le_timestamp sample_log_env u = Some (uint u)"
  by (simp_all add: sample_log_env_def sample_env_def)

lemma sample_journal_log:
  "log_is sample_log_env ''c'' (sample_journal ended) (if ended then [sample_end_event] else [])"
proof -
  have empty: "log_is sample_log_env ''c'' [(''c/record.json'', Stored_Record sample_record)] ([] :: unit event list)"
    by (simp add: log_is_def log_ok_def log_keys_def decimal_text_ok list_keys_def below_def events_dir_def starts_with_def)
  from log_append_object [OF this, of "event_path decimal_text ''c'' 8" "Stored_Event sample_end_event"]
  have "log_is sample_log_env ''c'' (store_put (event_path decimal_text ''c'' 8) (Stored_Event sample_end_event)
      [(''c/record.json'', Stored_Record sample_record)]) [sample_end_event]"
    by (simp add: object_ok_def object_events_def sample_end_event_def)
  with empty show ?thesis by (simp add: sample_journal_def)
qed

lemma sample_exec_ok: "exec_env_ok sample_exec_env sample_thread ''c''"
  by (auto simp: exec_env_ok_def sample_exec_env_def decimal_text_ok writes_once_def relies_def keeps_events_refl [THEN reflpD]
      intro: exI [of _ "[]"])

lemma sample_unwritten: "unwritten (xe_log sample_exec_env) ''c'' l"
  by (simp add: unwritten_def sample_exec_env_def)

lemma sample_exec_view: "queue_view basic_ops sample_thread (xw_coord (sample_exec_world b)) = Some (sample_exec_queue b)"
  by (simp add: queue_view_def sample_exec_world_def sample_exec_coordinator_def basic_ops_def basic_load_def)

lemma sample_exec_thread [simp]: "ls_thread sample_exec_lease = sample_thread"
  by (simp add: sample_exec_lease_def)

theorem accepted_turns_queued_or_journaled_witness:
  "\<exists>q'. queue_view basic_ops sample_thread (xw_coord (snd (queue_task 2 sample_exec_env sample_exec_lease (Some (sample_head True))
        (sample_exec_world True)))) = Some q' \<and>
    (5 \<in> set (queue_ids q') \<or> ended_in sample_log_env ''c'' 5 (xw_log (snd (queue_task 2 sample_exec_env sample_exec_lease
        (Some (sample_head True)) (sample_exec_world True)))))"
proof -
  obtain r w' where run: "queue_task 2 sample_exec_env sample_exec_lease (Some (sample_head True)) (sample_exec_world True) = (r, w')"
    by fastforce
  have "5 \<in> set (queue_ids (sample_exec_queue True))" by (simp add: queue_ids_def sample_exec_queue_def sample_head_def entry_id_def)
  then show ?thesis
    using accepted_turns_queued_or_journaled [of sample_exec_env sample_exec_lease "''c''" "sample_exec_world True"
        "sample_exec_queue True" 2 "Some (sample_head True)" r w'] sample_exec_ok sample_unwritten sample_exec_view run
    by (auto simp: sample_exec_env_def)
qed

lemma sample_journal_read:
  "lw_store l = sample_journal b \<Longrightarrow>
    get_events sample_log_env sample_handle q l = (Inr (select_events q (if b then [sample_end_event] else [])), l)"
  using load_events_log [OF sample_journal_log, of b] by (simp add: get_events_def io_bind_def io_lift_def io_read_def io_return_def)

lemma sample_selected:
  "ge_events (select_events (Some (journal_query 5 (''turn_started'' # ''turn_ended'' # types))) [sample_end_event]) = [sample_end_event]"
  "ge_events (select_events (Some (recovery_query 5)) [sample_end_event]) = [sample_end_event]"
  by (simp_all add: select_events_def recovery_query_def journal_query_def after_cursor_def query_matches_def retain_opt_def sample_end_event_def
      kind_matches_def canonical_event_kind_def)

lemma sample_status:
  "journal_status_from_events [sample_end_event] turn =
     Finished (Inr \<lparr> sd_session_id = tn_session_id turn, sd_turn_id = tn_id turn, sd_latest_event_id = 8 \<rparr>)"
  by (simp add: journal_status_from_events_def sample_end_event_def)

text \<open>A program that returns, with what holds then.\<close>

definition returns :: "('w, 'a) io \<Rightarrow> ('a \<Rightarrow> 'w \<Rightarrow> bool) \<Rightarrow> 'w \<Rightarrow> bool" where
  "returns m Q w \<longleftrightarrow> (\<exists>x w'. m w = (Inr x, w') \<and> Q x w')"

lemma returns_simps [simp]:
  "returns (io_bind m f) Q w \<longleftrightarrow> returns m (\<lambda>x. returns (f x) Q) w"
  "returns (io_return x) Qx w \<longleftrightarrow> Qx x w"
  "returns (io_lift r) Qr w \<longleftrightarrow> (\<exists>x. r = Inr x \<and> Qr x w)"
  "returns (io_read h) Qh w \<longleftrightarrow> Qh (h w) w"
  "returns (io_modify g) Qg w \<longleftrightarrow> Qg () (g w)"
  by (auto simp: returns_def io_simps split: sum.splits prod.splits)

lemma returns_try: "returns m (\<lambda>x. Q (Inr x)) w \<Longrightarrow> returns (io_try m) Q w"
  by (auto simp: returns_def io_try_def)

definition others_first :: "('s, 'p, 'e) exec_env \<Rightarrow> ('s, 'p, 'e) exec_world \<Rightarrow> ('s, 'p, 'e) exec_world" where
  "others_first env w = xe_others env (xw_calls w) (w\<lparr>xw_calls := Suc (xw_calls w)\<rparr>)"

lemma returns_atomically: "returns (atomically env m) Q w \<longleftrightarrow> returns (m (xw_calls w)) Q (others_first env w)"
  by (simp add: returns_def atomically_def others_first_def)

lemma returns_ask: "returns (ask env f) Q w \<longleftrightarrow> (\<exists>x. f (xw_calls w) = Inr x \<and> Q x (others_first env w))"
  by (simp add: ask_def returns_atomically)

lemma returns_shared: "returns (shared env g) Q w \<longleftrightarrow> Q (g (others_first env w)) (others_first env w)"
  by (simp add: shared_def returns_atomically)

lemma returns_update: "returns (update_shared env h) Q w \<longleftrightarrow> Q () (h (others_first env w))"
  by (simp add: update_shared_def returns_atomically)

lemma returns_coord: "returns (coord env m) Q w \<longleftrightarrow>
    (\<exists>x c. m (xw_coord (others_first env w)) = (Inr x, c) \<and> Q x ((others_first env w)\<lparr>xw_coord := c\<rparr>))"
  by (auto simp: coord_def returns_atomically) (auto simp: returns_def split: prod.splits)

lemma returns_logged: "returns (logged env m) Q w \<longleftrightarrow>
    (\<exists>x l. m (xw_log (others_first env w)) = (Inr x, l) \<and> Q x ((others_first env w)\<lparr>xw_log := l\<rparr>))"
  by (auto simp: logged_def returns_atomically) (auto simp: returns_def split: prod.splits)

lemma returns_outside: "returns (outside env call f) Q w \<longleftrightarrow>
    (\<exists>x. f (xw_calls w) = Inr x \<and> Q x ((others_first env w)\<lparr>xw_trace := xw_trace (others_first env w) @ [call]\<rparr>))"
  by (auto simp: outside_def returns_atomically) (auto simp: returns_def split: prod.splits)

lemma returns_control: "returns (next_control env ch) Q w \<longleftrightarrow>
    (\<exists>x. xe_control env (xw_calls w) = Control_Changed \<and> tc_watch (xw_coord (others_first env w)) ch = Some x \<and> Q x (others_first env w))"
  by (auto simp: next_control_def returns_atomically)
     (auto simp: returns_def ok_or_def split: prod.splits control_answer.splits option.splits)

lemmas returns_access = returns_ask returns_shared returns_update returns_coord returns_logged returns_outside returns_control

lemma sample_exec_env_simps [simp]:
  "xe_ops sample_exec_env = basic_ops" "xe_log sample_exec_env = sample_log_env" "xe_others sample_exec_env n w = w"
  "xe_root sample_exec_env = \<lparr> rt_harness = 0, rt_caller = None \<rparr>" "xe_get_agent sample_exec_env n who a = Inr True"
  "xe_get_thread sample_exec_env n who th = Inr (Some sample_handle)" "xe_control sample_exec_env n = Control_Changed"
  "xe_select sample_exec_env n = Stream_Closed" "xe_execute sample_exec_env n rt t k b = Inr ()" "xe_encode sample_exec_env k = Inr ()"
  by (simp_all add: sample_exec_env_def)

lemma sample_others_first: "others_first sample_exec_env w = w\<lparr>xw_calls := Suc (xw_calls w)\<rparr>"
  by (simp add: others_first_def)

lemma sample_head_simps [simp]:
  "entry_id (sample_head b) = 5" "qt_started (sample_head b) = b" "tn_id (qt_turn (sample_head b)) = 5"
  "qt_principal (sample_head b) = Some ''ada''" "entry_id (sample_head b\<lparr>qt_control := c\<rparr>) = 5"
  "qt_control (sample_head b) = Run"
  by (simp_all add: sample_head_def entry_id_def)

lemma sample_key [simp]: "tk_turn_id (key_of th t) = t" "thread_of (key_of th t) = th"
  by (simp_all add: key_of_def thread_of_def)

lemmas sample_steps = returns_access sample_others_first require_agent_def require_thread_def Let_def

lemma sample_open_ended:
  assumes "lw_store (xw_log w) = sample_journal True"
  shows "returns (open_queue_head sample_exec_env sample_handle (key_of sample_thread 5) ((sample_head True)\<lparr>qt_control := Run\<rparr>) True)
    (\<lambda>opened w'. \<not> opened \<and> xw_coord w' = xw_coord w \<and> xw_log w' = xw_log w \<and> xw_active w' = xw_active w) w"
  using assms by (simp add: open_queue_head_def sample_steps sample_journal_read sample_selected sample_status)

lemma sample_settle_ended:
  assumes "lw_store (xw_log w) = sample_journal True" and "acknowledge basic_ops sample_exec_lease 5 (xw_coord w) = (Inr n, c)"
  shows "returns (settle_head sample_exec_env sample_exec_lease sample_handle key ((sample_head True)\<lparr>qt_control := Run\<rparr>) s e)
    (\<lambda>r _. r = Some (Next n)) w"
  using assms by (simp add: settle_head_def journal_status_def acknowledge_head_def sample_steps sample_journal_read sample_selected sample_status)

lemma returns_mono: "returns m Q' w \<Longrightarrow> (\<And>x w'. Q' x w' \<Longrightarrow> Q x w') \<Longrightarrow> returns m Q w"
  by (auto simp: returns_def)

lemma sample_run_started:
  assumes "lw_store (xw_log w) = sample_journal True" and "acknowledge basic_ops sample_exec_lease 5 (xw_coord w) = (Inr n, c)"
    and "tc_watch (xw_coord w) 0 = Some Run" and "xw_active w = []"
  shows "returns (run_started fuel sample_exec_env sample_exec_lease True \<lparr> sr_head = sample_head True, sr_control = 0 \<rparr>)
    (\<lambda>r _. r = Some (Next n)) w"
  using assms unfolding run_started_def
  apply (simp add: sample_steps ensure_Inr_iff)
  apply (rule conjI, blast)
  apply (rule returns_try)
  apply (rule returns_mono [OF sample_open_ended])
   apply simp
  apply (clarsimp simp: wait_for_active_def sample_steps active_harness_def remove_active_def sample_settle_ended)
  done

lemmas sample_coord_eval = bind_check bind_load coord_io owns_def owner_live_def front_def subscribe_def set_thread_def
  sample_exec_coordinator_def sample_exec_lease_def basic_ops_def basic_load_def basic_save_def sample_exec_queue_def Let_def

lemma sample_run_head:
  "returns (run_head 1 sample_exec_env sample_exec_lease (sample_head True)) (\<lambda>r _. r = Some (Next None)) (sample_exec_world True)"
proof -
  define c where "c = set_thread sample_thread \<lparr> tm_owner = Some 0, tm_control = Some (5, 0) \<rparr>
         ((sample_exec_coordinator True)\<lparr>tc_watch := [0 \<mapsto> Run], tc_next_watch := 1\<rparr>)"
  have start: "start basic_ops sample_exec_lease 5 (sample_exec_coordinator True) =
      (Inr \<lparr> sr_head = sample_head True, sr_control = 0 \<rparr>, c)"
    by (simp add: start_def sample_coord_eval c_def)
  have watch: "tc_watch c 0 = Some Run" by (simp add: c_def set_thread_def)
  obtain c' where ack: "acknowledge basic_ops sample_exec_lease 5 c = (Inr None, c')"
    by (simp add: acknowledge_def sample_coord_eval c_def)
  show ?thesis
    unfolding run_head_def
    by (simp add: returns_coord sample_others_first)
       (simp add: sample_exec_world_def start sample_run_started watch ack)
qed

theorem acknowledged_turn_is_journaled_and_answered_witness:
  "\<exists>w'. run_head 1 sample_exec_env sample_exec_lease (sample_head True) (sample_exec_world True) = (Inr (Some (Next None)), w') \<and>
     ended_in sample_log_env ''c'' 5 (xw_log w') \<and> (xw_closed w' 3 \<or> (\<exists>m \<in> set (xw_inbox w' 3). terminal m))"
proof -
  obtain w' where run: "run_head 1 sample_exec_env sample_exec_lease (sample_head True) (sample_exec_world True) = (Inr (Some (Next None)), w')"
    using sample_run_head by (auto simp: returns_def)
  have "3 \<in> set (context_observers (key_of sample_thread 5) (sample_exec_world True))"
    by (simp add: context_observers_def sample_exec_world_def)
  moreover have "observer_kept sample_exec_env (key_of sample_thread 5) 3" by (simp add: observer_kept_def)
  ultimately show ?thesis
    using acknowledged_turn_is_journaled_and_answered [of sample_exec_env sample_exec_lease "''c''" "sample_exec_world True" 1
        "sample_head True" None w'] run sample_exec_ok sample_unwritten by auto
qed

text \<open>An execution that is suspended: the head is executed for its submitter and stays in the queue.\<close>

definition suspending_env :: "(unit turn_work basic_queue_store, unit, unit) exec_env" where
  "suspending_env = sample_exec_env\<lparr>xe_select := \<lambda>n. if n = 9 then Stream_Suspended else Stream_Closed\<rparr>"

lemma suspending_env_simps [simp]:
  "xe_ops suspending_env = basic_ops" "xe_log suspending_env = sample_log_env" "xe_others suspending_env n w = w"
  "xe_root suspending_env = \<lparr> rt_harness = 0, rt_caller = None \<rparr>" "xe_get_agent suspending_env n who a = Inr True"
  "xe_get_thread suspending_env n who th = Inr (Some sample_handle)" "xe_control suspending_env n = Control_Changed"
  "xe_select suspending_env n = (if n = 9 then Stream_Suspended else Stream_Closed)" "xe_execute suspending_env n rt t k b = Inr ()"
  by (simp_all add: suspending_env_def)

lemma suspending_others_first: "others_first suspending_env w = w\<lparr>xw_calls := Suc (xw_calls w)\<rparr>"
  by (simp add: others_first_def)

lemmas suspending_steps = returns_access suspending_others_first require_agent_def require_thread_def Let_def ensure_Inr_iff ex_bool_eq

abbreviation sample_runtime :: exec_runtime where
  "sample_runtime \<equiv> \<lparr> rt_harness = 1, rt_caller = Some ''ada'' \<rparr>"

lemma suspending_open:
  assumes "map_of (xw_contexts w) (key_of sample_thread 5) = Some \<lparr> tx_runtime = sample_runtime, tx_observers = chs \<rparr>"
    and "\<not> xw_draining w" and "xw_active w = []"
  shows "returns (open_queue_head suspending_env sample_handle (key_of sample_thread 5) ((sample_head True)\<lparr>qt_control := Run\<rparr>) False)
    (\<lambda>opened w'. opened \<and> w' = w\<lparr>xw_calls := xw_calls w + 5, xw_active := [(sample_thread, 1, 5)],
       xw_trace := xw_trace w @ [Executed sample_runtime (qt_turn (sample_head True)) (qt_work (sample_head True)) False]\<rparr>) w"
  using assms
  by (simp add: open_queue_head_def suspending_steps journal_status_from_events_def execution_runtime_def execute_turn_def
      activate_def returns_atomically)

lemma sample_selected_none: "ge_events (select_events (Some (journal_query t types)) []) = []"
  by (simp add: select_events_def journal_query_def after_cursor_def query_matches_def retain_opt_def)

lemma suspending_run_started:
  assumes "lw_store (xw_log w) = sample_journal False" and "peek basic_ops sample_exec_lease (xw_coord w) = (Inr (Some (sample_head True)), xw_coord w)"
    and "tc_watch (xw_coord w) 0 = Some Run" and "xw_active w = []" and "\<not> xw_draining w" and "xw_calls w = 1"
    and "map_of (xw_contexts w) (key_of sample_thread 5) = Some \<lparr> tx_runtime = sample_runtime, tx_observers = chs \<rparr>"
  shows "returns (run_started 2 suspending_env sample_exec_lease False \<lparr> sr_head = sample_head True, sr_control = 0 \<rparr>)
    (\<lambda>r w'. r = Some Again \<and> (\<exists>new. xw_trace w' = xw_trace w @
       Executed sample_runtime (qt_turn (sample_head True)) (qt_work (sample_head True)) False # new)) w"
  using assms unfolding run_started_def
  apply (simp add: suspending_steps numeral_2_eq_2)
  apply (rule returns_try)
  apply (rule returns_mono [OF suspending_open])
     apply simp_all
  apply (clarsimp simp: suspending_steps wait_for_active_def active_harness_def remove_active_def settle_head_def journal_status_def
      sample_journal_read sample_selected_none journal_status_from_events_def fail_head_def ok_or_Inr_iff numeral_2_eq_2)
  done

lemma suspending_run_head:
  "returns (run_head 2 suspending_env sample_exec_lease (sample_head False)) (\<lambda>r w'. r = Some Again \<and>
     (\<exists>new. xw_trace w' = Executed sample_runtime (qt_turn (sample_head True)) (qt_work (sample_head True)) False # new)) (sample_exec_world False)"
proof -
  define s where "s = (tc_store (sample_exec_coordinator False))\<lparr>bq_queues := [(sample_thread,
      \<lparr> sq_thread = sample_thread, sq_state = sample_exec_queue True \<rparr>)]\<rparr>"
  define c where "c = set_thread sample_thread \<lparr> tm_owner = Some 0, tm_control = Some (5, 0) \<rparr>
         ((sample_exec_coordinator False)\<lparr>tc_store := s, tc_watch := [0 \<mapsto> Run], tc_next_watch := 1\<rparr>)"
  have started: "(sample_head False)\<lparr>qt_started := True\<rparr> = sample_head True" by (simp add: sample_head_def)
  have start: "start basic_ops sample_exec_lease 5 (sample_exec_coordinator False) =
      (Inr \<lparr> sr_head = sample_head True, sr_control = 0 \<rparr>, c)"
    by (simp add: start_def sample_coord_eval c_def s_def started)
  have peek: "peek basic_ops sample_exec_lease c = (Inr (Some (sample_head True)), c)"
    by (simp add: peek_def sample_coord_eval c_def s_def)
  have watch: "tc_watch c 0 = Some Run" by (simp add: c_def set_thread_def)
  show ?thesis
    unfolding run_head_def
    by (simp add: returns_coord suspending_others_first)
       (simp add: sample_exec_world_def start,
        rule returns_mono [OF suspending_run_started [where chs = "[3]"]], simp_all add: watch peek)
qed

theorem turn_runs_for_its_submitter_witness:
  "\<exists>r w' rt work rec. run_head 2 suspending_env sample_exec_lease (sample_head False) (sample_exec_world False) = (r, w') \<and>
     Executed rt (qt_turn (sample_head False)) work rec \<in> set (xw_trace w') \<and> rt_caller rt = Some ''ada''"
proof -
  obtain w' new where run: "run_head 2 suspending_env sample_exec_lease (sample_head False) (sample_exec_world False) = (Inr (Some Again), w')"
    and trace: "xw_trace w' = Executed sample_runtime (qt_turn (sample_head True)) (qt_work (sample_head True)) False # new"
    using suspending_run_head by (auto simp: returns_def)
  have kept: "trace_kept suspending_env" by (simp add: trace_kept_def)
  have mem: "Executed sample_runtime (qt_turn (sample_head True)) (qt_work (sample_head True)) False \<in> set (xw_trace w')" by (simp add: trace)
  have empty: "xw_trace (sample_exec_world False) = []" by (simp add: sample_exec_world_def)
  obtain q e where q: "queue_view basic_ops sample_thread (xw_coord ((sample_exec_world False)\<lparr>xw_calls := Suc (xw_calls (sample_exec_world False))\<rparr>)) = Some q"
    "front (tq_pending q) = Some e" "qt_turn (sample_head True) = qt_turn e" "rt_caller sample_runtime = qt_principal e"
    using turn_runs_for_its_submitter [OF kept run] mem unfolding empty by fastforce
  have "e = sample_head False" using q(1,2) sample_exec_view [of False] by (auto simp: sample_exec_queue_def front_def)
  with q(3,4) mem run show ?thesis
    by (intro exI [of _ "Inr (Some Again)"] exI [of _ w'] exI [of _ sample_runtime] exI [of _ "qt_work (sample_head True)"] exI [of _ False]) auto
qed

end
