(* ===== verification/Turn_Acceptance.thy ===== *)
theory Turn_Acceptance
  imports Turn_Delivery
begin

text \<open>
  What a caller may count on once a turn is accepted (\<^verbatim>\<open>crates/executor/src/turn_queue.rs\<close>): the turn is durably
  queued, and the caller's stream is registered with it or already has its answer.
\<close>

section \<open>Postconditions\<close>

definition yields :: "('w \<Rightarrow> bool) \<Rightarrow> ('w, 'a) io \<Rightarrow> ('a \<Rightarrow> 'w \<Rightarrow> bool) \<Rightarrow> bool" where
  "yields P m Q \<longleftrightarrow> (\<forall>w x w'. P w \<longrightarrow> m w = (Inr x, w') \<longrightarrow> Q x w')"

lemma yields_bind: "yields P m Q' \<Longrightarrow> (\<And>x. yields (Q' x) (f x) Q) \<Longrightarrow> yields P (io_bind m f) Q"
  unfolding yields_def by (auto simp: io_bind_Inr_iff)

lemma yields_keep: "io_keeps R m \<Longrightarrow> stable_under R P \<Longrightarrow> yields P m (\<lambda>_. P)"
  unfolding yields_def io_keeps_def stable_under_def by (metis snd_conv)

lemma yields_return: "(\<And>w. P w \<Longrightarrow> Q x w) \<Longrightarrow> yields P (io_return x) Q"
  by (auto simp: yields_def io_return_def)

lemma yields_if: "(b \<Longrightarrow> yields P m Q) \<Longrightarrow> (\<not> b \<Longrightarrow> yields P n Q) \<Longrightarrow> yields P (if b then m else n) Q"
  by simp

lemma yields_on_error: "yields P m Q \<Longrightarrow> yields P (on_error m c) Q"
  by (auto simp: yields_def on_error_def split: prod.splits sum.splits)

lemma yields_weaken: "yields P' m Q' \<Longrightarrow> (\<And>w. P w \<Longrightarrow> P' w) \<Longrightarrow> (\<And>x w. Q' x w \<Longrightarrow> Q x w) \<Longrightarrow> yields P m Q"
  by (simp add: yields_def) blast

lemma yields_conj: "yields P m Q \<Longrightarrow> yields P' m Q' \<Longrightarrow> yields (\<lambda>w. P w \<and> P' w) m (\<lambda>x w. Q x w \<and> Q' x w)"
  by (auto simp: yields_def)

section \<open>Steps of acceptance\<close>

context exec_relation
begin

lemma yields_atomically:
  assumes "stable_under R P" and "\<And>w n x w'. P w \<Longrightarrow> m n w = (Inr x, w') \<Longrightarrow> Q x w'"
  shows "yields P (atomically env m) Q"
  unfolding yields_def atomically_def
proof (intro allI impI)
  fix w x w'
  let ?w = "xe_others env (xw_calls w) (w\<lparr>xw_calls := Suc (xw_calls w)\<rparr>)"
  assume P: "P w" and run: "m (xw_calls w) ?w = (Inr x, w')"
  have "P ?w" using others [of w "xw_calls w" "Suc (xw_calls w)"] assms(1) P by (auto simp: stable_under_def)
  then show "Q x w'" by (rule assms(2) [OF _ run])
qed

lemma yields_update: "stable_under R P \<Longrightarrow> (\<And>w. P w \<Longrightarrow> Q () (f w)) \<Longrightarrow> yields P (update_shared env f) Q"
  unfolding update_shared_def by (rule yields_atomically) (auto simp: io_modify_def)

end

section \<open>The observer\<close>

lemma register_of: "context_observers key' (register_observer key rt ch w) =
    (if key' = key then context_observers key w @ [ch] else context_observers key' w)"
  by (auto simp: context_observers_def register_observer_def Let_def AList.update_conv' split: option.splits)

lemma replay_waiting:
  assumes "waiting key ch w" and "terminal m"
  shows "waiting key ch (replay_completion key ch m w)"
proof (cases "map_of (xw_contexts w) key")
  case None
  then show ?thesis using assms(1) by (simp add: replay_completion_def)
next
  case (Some cx)
  have ans: "answered ch (send_to m ch v)" for v :: "('a, 'b, 'c) exec_world"
    using assms(2) by (auto simp: send_to_def answered_def)
  have frame: "answered ch (remove_context key v) = answered ch v" for v :: "('a, 'b, 'c) exec_world"
    by (simp add: answered_def)
  show ?thesis
    using assms(1) Some ans [of "set_observers key (remove1 ch (tx_observers cx)) w"]
    by (auto simp: replay_completion_def Let_def waiting_def frame context_observers_def [of key w])
qed

interpretation observing_free: coordinator_free_relation env lease "observed env key ch" "\<lambda>_. True" for env lease key ch
  by unfold_locales (simp add: observed_frame)

lemma spawn_observed: "io_keeps (observed env key ch) (spawn_queue env scope)"
proof -
  have tasks: "io_keeps (observed env key ch) (update_shared env (\<lambda>w. w\<lparr>xw_tasks := f w\<rparr>))" for f
    by (rule observing.update_keeps) (simp add: observed_frame)
  have drop: "io_keeps (observed env key ch) (drop_lease_now env l)" for l
    unfolding drop_lease_now_def by (rule observing_free.any_coord_keeps)
  show ?thesis
    unfolding spawn_queue_def
    by (intro observing.bind observing_free.any_coord_keeps io_keeps_case_option observing.pure io_keeps_on_error [OF observed_trans] drop tasks)
qed

lemma observe_duplicate_waits:
  assumes "observer_kept env akey ch"
  shows "yields (\<lambda>_. True) (observe_duplicate env rt thread key akey ch turn) (\<lambda>_. waiting akey ch)"
proof -
  have any: "yields (\<lambda>_. True) (update_shared env (remove_context key)) (\<lambda>_ _. True)" by (simp add: yields_def)
  have reg: "yields (\<lambda>_. True) (update_shared env (register_observer akey rt ch)) (\<lambda>_. waiting akey ch)"
    by (auto simp: yields_def update_shared_def atomically_def io_modify_def waiting_def register_of)
  have journal: "yields (waiting akey ch) (io_try (journal_status env thread turn)) (\<lambda>_. waiting akey ch)"
    by (rule yields_keep [OF io_keeps_try [OF observing.journal_keeps] observed_stable(1) [OF assms]])
  have "terminal (journal_message r)" for r :: "string + send_result" by (simp add: journal_message_def split: sum.split)
  then have replay: "yields (waiting akey ch) (update_shared env (replay_completion akey ch (journal_message r))) (\<lambda>_. waiting akey ch)" for r
    by (intro observing.yields_update [OF observed_stable(1) [OF assms]] replay_waiting)
  show ?thesis
    unfolding observe_duplicate_def
    by (rule yields_bind [OF any], rule yields_bind [OF reg], rule yields_bind [OF journal])
       (auto intro: replay yields_return split: sum.split journal_status.split)
qed

lemma submit_turn_observed:
  assumes kept: "\<And>key ch. observer_kept env key ch"
  shows "yields (\<lambda>_. True) (submit_turn env rt scope thread submission)
    (\<lambda>r. waiting (key_of scope (tn_id (fst r))) (snd r))"
proof -
  let ?key = "key_of scope (tn_id (sb_turn submission))"
  have reg: "yields (\<lambda>_. True) (update_shared env (register_observer ?key rt ch)) (\<lambda>_. waiting ?key ch)" for ch
    by (auto simp: yields_def update_shared_def atomically_def io_modify_def waiting_def register_of)
  note keep = yields_keep [OF _ observed_stable(1) [OF kept]]
  have queue: "yields (waiting ?key ch) (on_error (coord env (enqueue (xe_ops env) now scope submission)) (update_shared env (remove_context ?key)))
      (\<lambda>a w. waiting ?key ch w \<and> (\<not> ac_duplicate a \<longrightarrow> ac_turn a = sb_turn submission))" for ch now
  proof (rule yields_on_error)
    have "yields (\<lambda>_. True) (coord env (enqueue (xe_ops env) now scope submission)) (\<lambda>a w. \<not> ac_duplicate a \<longrightarrow> ac_turn a = sb_turn submission)"
      by (auto simp: yields_def coord_def atomically_def Let_def split: prod.splits elim: enqueue_accepted)
    from yields_conj [OF keep [OF observing_free.any_coord_keeps] this]
    show "yields (waiting ?key ch) (coord env (enqueue (xe_ops env) now scope submission))
        (\<lambda>a w. waiting ?key ch w \<and> (\<not> ac_duplicate a \<longrightarrow> ac_turn a = sb_turn submission))"
      by (rule yields_weaken) auto
  qed
  have tail: "yields (waiting akey ch) (io_bind (io_try (spawn_queue env scope)) (\<lambda>spawned.
      io_bind (case spawned of Inl error \<Rightarrow> update_shared env (stop_observers akey error) | Inr _ \<Rightarrow> io_return ()) (\<lambda>_.
      io_return (t, ch)))) (\<lambda>r w. waiting akey (snd r) w \<and> fst r = t)" for akey ch t
    by (rule yields_bind [OF keep [OF io_keeps_try [OF spawn_observed]]],
        rule yields_bind [OF keep [OF io_keeps_case_sum [OF observing.update_keeps [OF stop_observed] observing.pure(1)]]],
        rule yields_return, simp)
  have dup: "yields (\<lambda>w. waiting ?key ch w \<and> (\<not> ac_duplicate a \<longrightarrow> ac_turn a = sb_turn submission))
      (if ac_duplicate a then observe_duplicate env rt thread ?key (key_of scope (tn_id (ac_turn a))) ch (ac_turn a) else io_return ())
      (\<lambda>_. waiting (key_of scope (tn_id (ac_turn a))) ch)" for a ch
    by (rule yields_if, rule yields_weaken [OF observe_duplicate_waits [OF kept]], simp_all, rule yields_return, simp)
  have channel: "yields (\<lambda>_. True) (new_channel env) (\<lambda>_ _. True)" by (simp add: yields_def)
  show ?thesis
    unfolding submit_turn_def Let_def
    by (rule yields_bind [OF channel], rule yields_bind [OF reg], rule yields_bind [OF keep [OF observing.ask_keeps]],
        rule yields_bind [OF queue], rule yields_bind [OF dup], rule yields_weaken [OF tail]) auto
qed

section \<open>The queue entry\<close>

definition queued_or_ended :: "('p turn_work basic_queue_store, 'p, 'e) exec_env \<Rightarrow> turn_thread \<Rightarrow> string \<Rightarrow> uuid set
    \<Rightarrow> ('p turn_work basic_queue_store, 'p, 'e) exec_world \<Rightarrow> bool" where
  "queued_or_ended env th dir ts w \<longleftrightarrow> unwritten (xe_log env) dir (xw_log w) \<and>
     (\<exists>q. queue_view basic_ops th (xw_coord w) = Some q \<and>
        (\<forall>t \<in> ts. t \<in> set (queue_ids q) \<or> ended_in (xe_log env) dir t (xw_log w)))"

lemma queued_stable: "exec_env_ok env th dir \<Longrightarrow> stable_under (accounted env th dir) (queued_or_ended env th dir ts)"
  unfolding stable_under_def accounted_def queued_or_ended_def by blast

text \<open>A submission without an idempotency key is a duplicate only of a turn that is still queued.\<close>

lemma enqueue_queued:
  assumes "queue_view basic_ops th c = Some q" and "enqueue basic_ops now th sub c = (Inr a, c')"
    and "op_idempotency_key (sb_options sub) = None"
  shows "\<exists>q'. queue_view basic_ops th c' = Some q' \<and> tn_id (ac_turn a) \<in> set (queue_ids q') \<and> set (queue_ids q) \<subseteq> set (queue_ids q')"
proof -
  have load: "so_load basic_ops th (tc_store c) = Inr q" using assms(1) by (simp add: queue_view_Some)
  have c': "c' = perform basic_ops (Enqueue now th sub) c" using assms(2) by simp
  obtain q' where q': "queue_view basic_ops th c' = Some q'" "set (queue_ids q) \<subseteq> set (queue_ids q')"
    using calls_keep_ids [OF assms(1), of "[Enqueue now th sub]"] c' by auto
  show ?thesis
  proof (cases "find_duplicate (live_receipts now q) sub")
    case (Some t)
    then have "c' = c" "ac_turn a = t" using enqueue_duplicate [OF load Some] assms(2) by auto
    moreover have "tn_id t \<in> set (queue_ids q)"
      using Some assms(3) find_in_set [of "\<lambda>e. entry_id e = tn_id (sb_turn sub)" "tq_pending q"]
      by (auto simp: find_duplicate_def live_receipts_def queue_ids_def entry_id_def intro: rev_image_eqI split: option.splits)
    ultimately show ?thesis using assms(1) by auto
  next
    case None
    then have "\<not> ac_duplicate a" using assms(2) load by (auto simp: enqueue_def bind_load Let_def coord_io split: sum.splits)
    then obtain q0 s where e: "so_load basic_ops th (tc_store c) = Inr q0"
      "so_save basic_ops th (enqueue_state now (interrupted_head (owner_live th c) sub (live_receipts now q0)) sub (live_receipts now q0)) (tc_store c) = Inr s"
      "c' = (case interrupted_head (owner_live th c) sub (live_receipts now q0) of None \<Rightarrow> id | Some t \<Rightarrow> notify th t Cancel) (c\<lparr>tc_store := s\<rparr>)"
      "ac_turn a = sb_turn sub"
      using enqueue_accepted [OF assms(2)] by metis
    have stored: "tc_store c' = s" using e(3) by (simp split: option.splits)
    have "queue_view basic_ops th c' = Some (enqueue_state now (interrupted_head (owner_live th c) sub (live_receipts now q0)) sub (live_receipts now q0))"
      using basic.saved_view [OF e(1,2) stored, of th] by simp
    then show ?thesis using q' e(4) by (auto simp: enqueue_state_ids)
  qed
qed

abbreviation some_lease :: "turn_thread \<Rightarrow> turn_lease" where
  "some_lease th \<equiv> \<lparr> ls_thread = th, ls_identity = 0 \<rparr>"

text \<open>The accounting relation of a thread, whatever lease it is claimed under.\<close>

interpretation thread_accounting: exec_relation env "some_lease th" "accounted env th dir" "\<lambda>_. True" for env th dir
  using accounting.exec_relation_axioms [of env "some_lease th" dir] by simp

lemma accounted_coord:
  assumes "\<And>c. exec_env_ok env th dir \<Longrightarrow> snd (m c) = perform basic_ops call c" and "\<And>l t. call \<noteq> Acknowledge l t"
  shows "io_keeps (accounted env th dir) (coord env m)"
  by (rule thread_accounting.coord_keeps) (rule accounted_call [OF assms])

lemma spawn_accounted: "io_keeps (accounted env th dir) (spawn_queue env th)"
proof -
  have claim: "io_keeps (accounted env th dir) (coord env (claim th))"
    by (rule accounted_coord [where call = "Claim th"]) simp_all
  have peek: "io_keeps (accounted env th dir) (coord env (peek (xe_ops env) l))" for l
    by (rule thread_accounting.coord_keeps) (simp add: peek_same accounted_frame)
  have drop: "io_keeps (accounted env th dir) (drop_lease_now env l)" for l
    unfolding drop_lease_now_def
    by (rule accounted_coord [where call = "Drop l"]) (simp_all add: io_modify_def)
  have tasks: "io_keeps (accounted env th dir) (update_shared env (\<lambda>w. w\<lparr>xw_tasks := f w\<rparr>))" for f
    by (rule thread_accounting.update_keeps) (simp add: accounted_frame)
  show ?thesis
    unfolding spawn_queue_def
    by (intro thread_accounting.bind claim io_keeps_case_option thread_accounting.pure io_keeps_on_error [OF accounted_trans] peek drop tasks)
qed

lemma frame_observers [simp]:
  "xw_coord (register_observer key rt ch w) = xw_coord w" "xw_log (register_observer key rt ch w) = xw_log w"
  "xw_coord (replay_completion key ch m w) = xw_coord w" "xw_log (replay_completion key ch m w) = xw_log w"
  by (auto simp: register_observer_def replay_completion_def send_to_def Let_def split: option.split)

lemma update_accounted:
  "(\<And>w. xw_coord (f w) = xw_coord w \<and> xw_log (f w) = xw_log w) \<Longrightarrow> io_keeps (accounted env th dir) (update_shared env f)"
  by (rule thread_accounting.update_keeps) (simp add: accounted_frame)

lemma duplicate_accounted: "io_keeps (accounted env th dir) (observe_duplicate env rt thread key akey ch turn)"
  unfolding observe_duplicate_def
  by (intro thread_accounting.bind update_accounted io_keeps_try thread_accounting.journal_keeps)
     (auto intro: update_accounted thread_accounting.pure split: sum.split journal_status.split)

lemma submit_turn_queued:
  assumes ok: "exec_env_ok env th dir" and key: "op_idempotency_key (sb_options submission) = None"
  shows "yields (queued_or_ended env th dir {}) (submit_turn env rt th thread submission)
    (\<lambda>r. queued_or_ended env th dir {tn_id (fst r)})"
proof -
  let ?key = "key_of th (tn_id (sb_turn submission))"
  note keep = yields_keep [OF _ queued_stable [OF ok]]
  have channel: "io_keeps (accounted env th dir) (new_channel env)"
    unfolding new_channel_def by (rule thread_accounting.atomically_keeps) (simp add: io_keeps_def accounted_frame)
  have queue: "yields (queued_or_ended env th dir {}) (coord env (enqueue (xe_ops env) now th submission))
      (\<lambda>a. queued_or_ended env th dir {tn_id (ac_turn a)})" for now
    unfolding coord_def
  proof (rule thread_accounting.yields_atomically [OF queued_stable [OF ok]])
    fix w n a w'
    assume w: "queued_or_ended env th dir {} w"
      and run: "(let (r, c) = enqueue (xe_ops env) now th submission (xw_coord w) in (r, w\<lparr>xw_coord := c\<rparr>)) = (Inr a, w')"
    obtain q where q: "queue_view basic_ops th (xw_coord w) = Some q" using w by (auto simp: queued_or_ended_def)
    have e: "enqueue basic_ops now th submission (xw_coord w) = (Inr a, xw_coord w')" "xw_log w' = xw_log w"
      using run ok by (auto simp: exec_env_ok_def split: prod.splits)
    from enqueue_queued [OF q e(1) key] w e(2) show "queued_or_ended env th dir {tn_id (ac_turn a)} w'"
      by (auto simp: queued_or_ended_def)
  qed
  have dup: "io_keeps (accounted env th dir) (if b then observe_duplicate env rt thread k k' ch t else io_return ())" for b k k' ch t
    by (intro io_keeps_if duplicate_accounted thread_accounting.pure)
  have stop: "io_keeps (accounted env th dir) (case s of Inl e \<Rightarrow> update_shared env (stop_observers k e) | Inr _ \<Rightarrow> io_return ())"
    for s :: "string + unit" and k
    by (intro io_keeps_case_sum update_accounted thread_accounting.pure) simp
  show ?thesis
    unfolding submit_turn_def Let_def
    by (rule yields_bind [OF keep [OF channel]], rule yields_bind [OF keep [OF update_accounted]], simp,
        rule yields_bind [OF keep [OF thread_accounting.ask_keeps]], rule yields_bind [OF yields_on_error [OF queue]],
        rule yields_bind [OF keep [OF dup]], rule yields_bind [OF keep [OF io_keeps_try [OF spawn_accounted]]],
        rule yields_bind [OF keep [OF stop]], rule yields_return, simp)
qed

lemma turn_config_accounted: "io_keeps (accounted env th dir) (turn_config env th thread config)"
proof -
  have "io_keeps (accounted env th dir) (get_conversation_model_override env thread)"
    unfolding get_conversation_model_override_def
    by (intro thread_accounting.bind thread_accounting.logged_keeps thread_accounting.read_log)
       (auto intro: thread_accounting.pure split: list.split event_data.split)
  then show ?thesis
    unfolding turn_config_def
    by (intro io_keeps_case_option thread_accounting.bind thread_accounting.pure thread_accounting.ask_keeps)
qed

text \<open>an accepted turn is durable and observed. When a submission without an idempotency key is accepted,
  whatever the other tasks do meanwhile, the accepted turn is in the thread's durable queue or its end is already in
  the log, and the returned stream is registered with the turn or has been sent a completion or an error; a
  failure to wake the queue is not reported as a failed turn.\<close>

theorem accepted_turn_is_queued_and_observed:
  assumes "exec_env_ok env th dir" and "\<And>key ch. observer_kept env key ch" and "unwritten (xe_log env) dir (xw_log w)"
    and "queue_view basic_ops th (xw_coord w) = Some q" and "op_idempotency_key options = None"
    and "accept_local_turn env rt th thread caller request streaming config options w = (Inr (turn, ch), w')"
  shows "(\<exists>q'. queue_view basic_ops th (xw_coord w') = Some q' \<and>
      (tn_id turn \<in> set (queue_ids q') \<or> ended_in (xe_log env) dir (tn_id turn) (xw_log w'))) \<and>
    (ch \<in> set (context_observers (key_of th (tn_id turn)) w') \<or> xw_closed w' ch \<or> (\<exists>m \<in> set (xw_inbox w' ch). terminal m))"
proof -
  let ?P = "queued_or_ended env th dir {}"
  let ?accept = "accept_local_turn env rt th thread caller request streaming config options"
  note keep = yields_keep [OF _ queued_stable [OF assms(1)]]
  have draining: "io_keeps (accounted env th dir) (ensure_not_draining env)"
    unfolding ensure_not_draining_def by (intro thread_accounting.bind thread_accounting.shared_keeps thread_accounting.pure)
  have check: "io_keeps (accounted env th dir) (case caller of None \<Rightarrow> io_return () | Some who \<Rightarrow> ask env (f who))" for f
    by (intro io_keeps_case_option thread_accounting.pure thread_accounting.ask_keeps)
  have now: "io_keeps (accounted env th dir) (logged env (uuid_now (xe_log env)))"
    by (rule thread_accounting.logged_keeps, rule accounted_log, rule io_keeps_def [THEN iffD1, rule_format], rule keeps_now)
  have session: "io_keeps (accounted env th dir) (case rq_session_id request of None \<Rightarrow> logged env (uuid_now (xe_log env)) | Some s \<Rightarrow> io_return s)"
    by (intro io_keeps_case_option now thread_accounting.pure)
  have "yields ?P ?accept (\<lambda>r. queued_or_ended env th dir {tn_id (fst r)})"
    unfolding accept_local_turn_def Let_def
    by (rule yields_bind [OF keep [OF draining]], rule yields_bind [OF keep [OF draining]], rule yields_bind [OF keep [OF check]],
        rule yields_bind [OF keep [OF turn_config_accounted]], rule yields_bind [OF keep [OF thread_accounting.ask_keeps]],
        rule yields_bind [OF keep [OF now]], rule yields_bind [OF keep [OF session]], rule submit_turn_queued [OF assms(1)])
       (simp add: assms(5))
  moreover have "yields (\<lambda>_. True) ?accept (\<lambda>r. waiting (key_of th (tn_id (fst r))) (snd r))"
    unfolding accept_local_turn_def Let_def
    by (rule yields_bind [where Q' = "\<lambda>_ _. True"], simp add: yields_def)+ (rule submit_turn_observed [OF assms(2)])
  ultimately show ?thesis
    using assms(3,4,6) by (fastforce simp: yields_def queued_or_ended_def waiting_def answered_def)
qed

definition sample_options :: turn_options where
  "sample_options = \<lparr> op_idempotency_key = None, op_attention = Wake \<rparr>"

definition sample_accept :: "(unit turn_work basic_queue_store, unit, unit, turn_record \<times> nat) exec" where
  "sample_accept = accept_local_turn sample_exec_env \<lparr> rt_harness = 0, rt_caller = None \<rparr> sample_thread sample_handle None
     \<lparr> rq_input = None, rq_session_id = Some 7 \<rparr> False (Some (wk_agent_config sample_work)) sample_options"

lemma returns_on_error: "returns m Q w \<Longrightarrow> returns (on_error m c) Q w"
  by (auto simp: returns_def on_error_def)

lemma sample_enqueue:
  "\<exists>c'. enqueue basic_ops 0 sample_thread \<lparr> sb_turn = \<lparr> tn_id = 100, tn_session_id = 7 \<rparr>, sb_work = work, sb_principal = None, sb_options = sample_options \<rparr>
      (sample_exec_coordinator True) = (Inr \<lparr> ac_turn = \<lparr> tn_id = 100, tn_session_id = 7 \<rparr>, ac_duplicate = False \<rparr>, c') \<and>
    claim sample_thread c' = (Inr None, c')"
  by (simp add: enqueue_def sample_coord_eval live_receipts_def find_duplicate_def interrupted_head_def enqueue_state_def sample_options_def claim_def)

lemma returns_channel: "returns (new_channel env) Q w \<longleftrightarrow>
    Q (xw_next_channel (others_first env w)) ((others_first env w)\<lparr>xw_next_channel := Suc (xw_next_channel (others_first env w))\<rparr>)"
  by (simp add: new_channel_def returns_atomically) (simp add: returns_def)

lemma sample_submit:
  assumes "xw_coord w = sample_exec_coordinator True"
  shows "returns (submit_turn sample_exec_env rt sample_thread sample_handle
      \<lparr> sb_turn = \<lparr> tn_id = 100, tn_session_id = 7 \<rparr>, sb_work = work, sb_principal = None, sb_options = sample_options \<rparr>)
    (\<lambda>r _. tn_id (fst r) = 100) w"
proof -
  obtain c' where c': "enqueue basic_ops 0 sample_thread \<lparr> sb_turn = \<lparr> tn_id = 100, tn_session_id = 7 \<rparr>, sb_work = work, sb_principal = None,
      sb_options = sample_options \<rparr> (sample_exec_coordinator True) = (Inr \<lparr> ac_turn = \<lparr> tn_id = 100, tn_session_id = 7 \<rparr>, ac_duplicate = False \<rparr>, c')"
    "claim sample_thread c' = (Inr None, c')"
    using sample_enqueue [of work] by blast
  have clock: "xe_clock sample_exec_env n = 0" for n by (simp add: sample_exec_env_def)
  have spawned: "returns (io_try (spawn_queue sample_exec_env sample_thread)) (\<lambda>r _. r = Inr ()) v" if "xw_coord v = c'" for v
    by (rule returns_try) (use that c'(2) in \<open>simp add: spawn_queue_def sample_steps\<close>)
  show ?thesis
    unfolding submit_turn_def Let_def
    by (simp add: returns_channel sample_steps clock, rule returns_on_error)
       (simp add: sample_steps assms c', rule returns_mono [OF spawned], simp_all)
qed

lemma sample_accept_returns: "returns sample_accept (\<lambda>r _. tn_id (fst r) = 100) (sample_exec_world True)"
proof -
  have config: "xe_thread_config sample_exec_env n t = Inr ()" for n t by (simp add: sample_exec_env_def)
  have world: "xw_coord (sample_exec_world True) = sample_exec_coordinator True" "\<not> xw_draining (sample_exec_world True)"
    "lw_calls (xw_log (sample_exec_world True)) = 0"
    by (simp_all add: sample_exec_world_def)
  show ?thesis
    unfolding sample_accept_def accept_local_turn_def
    by (simp add: ensure_not_draining_def turn_config_def sample_steps ensure_Inr_iff config uuid_now_def world sample_submit)
qed

theorem accepted_turn_is_queued_and_observed_witness:
  "\<exists>turn ch w' q'. sample_accept (sample_exec_world True) = (Inr (turn, ch), w') \<and> tn_id turn = 100 \<and>
     queue_view basic_ops sample_thread (xw_coord w') = Some q' \<and>
     (100 \<in> set (queue_ids q') \<or> ended_in sample_log_env ''c'' 100 (xw_log w')) \<and>
     (ch \<in> set (context_observers (key_of sample_thread 100) w') \<or> xw_closed w' ch \<or> (\<exists>m \<in> set (xw_inbox w' ch). terminal m))"
proof -
  obtain turn ch w' where run: "sample_accept (sample_exec_world True) = (Inr (turn, ch), w')" "tn_id turn = 100"
    using sample_accept_returns by (auto simp: returns_def)
  have kept: "observer_kept sample_exec_env key ch" for key ch by (simp add: observer_kept_def)
  show ?thesis
    using accepted_turn_is_queued_and_observed [OF sample_exec_ok kept sample_unwritten sample_exec_view _ run(1) [unfolded sample_accept_def]]
      run by (auto simp: sample_options_def)
qed

end
