(* ===== verification/Event_Artifacts.thy ===== *)
theory Event_Artifacts
  imports Event_Queries
begin

text \<open>
  Versioned artifacts of a conversation (\<^verbatim>\<open>crates/exoharness/src/basic.rs\<close>): a write is read back, versions of a
  path count up, and a write leaves every other version readable as before.
\<close>

section \<open>Artifact keys\<close>

lemma show_u64_no_slash: "CHR ''/'' \<notin> set (show_u64 n)" "CHR ''.'' \<notin> set (show_u64 n)"
  using show_nat_digits [of "CHR ''/''" "unat n"] show_nat_digits [of "CHR ''.''" "unat n"]
  by (auto simp: show_u64_def digit_byte_def)

lemma show_u64_inj: "show_u64 m = show_u64 n \<Longrightarrow> m = n"
  by (metis option.inject parse_u64_show)

lemma artifact_key_inj:
  assumes "uuid_text_ok (le_text env)" and "artifact_dir env dir i @ ''/'' @ show_u64 m @ CHR ''.'' # x =
    artifact_dir env dir j @ ''/'' @ show_u64 n @ CHR ''.'' # y"
  shows "i = j \<and> m = n \<and> x = y"
proof -
  have "ut_show (le_text env) i @ CHR ''/'' # show_u64 m @ CHR ''.'' # x = ut_show (le_text env) j @ CHR ''/'' # show_u64 n @ CHR ''.'' # y"
    using assms(2) by (simp add: artifact_dir_def)
  from split_at_first [OF this] have "ut_show (le_text env) i = ut_show (le_text env) j"
    "show_u64 m @ CHR ''.'' # x = show_u64 n @ CHR ''.'' # y"
    using uuid_text_no_slash [OF assms(1)] by auto
  moreover have "show_u64 m = show_u64 n \<and> x = y"
    by (rule split_at_first [OF calculation(2)]) (rule show_u64_no_slash)+
  ultimately show ?thesis using uuid_text_inj [OF assms(1)] show_u64_inj by blast
qed

lemma artifact_paths_inj:
  assumes "uuid_text_ok (le_text env)"
  shows "artifact_json_path (artifact_dir env dir i) m = artifact_json_path (artifact_dir env dir j) n \<longleftrightarrow> i = j \<and> m = n"
    and "artifact_bin_path (artifact_dir env dir i) m = artifact_bin_path (artifact_dir env dir j) n \<longleftrightarrow> i = j \<and> m = n"
    and "artifact_json_path (artifact_dir env dir i) m \<noteq> artifact_bin_path (artifact_dir env dir j) n"
  using artifact_key_inj [OF assms, of dir i m "''json''" j n "''json''"] artifact_key_inj [OF assms, of dir i m "''bin''" j n "''bin''"]
    artifact_key_inj [OF assms, of dir i m "''json''" j n "''bin''"]
  by (auto simp: artifact_json_path_def artifact_bin_path_def)

lemma artifact_paths_below:
  "dir \<noteq> [] \<Longrightarrow> below dir (artifact_json_path (artifact_dir env dir i) n)"
  "dir \<noteq> [] \<Longrightarrow> below dir (artifact_bin_path (artifact_dir env dir i) n)"
  "ends_with ''.json'' (artifact_json_path d n)"
  "\<not> ends_with ''.json'' (artifact_bin_path d n)"
  by (simp_all add: below_def starts_with_iff artifact_json_path_def artifact_bin_path_def artifact_dir_def ends_with_iff)

section \<open>Well-formed artifact directories\<close>

definition version_keys :: "string \<Rightarrow> 'p stored_object store \<Rightarrow> string list" where
  "version_keys dir s = filter (ends_with ''.json'') (list_keys dir s)"

definition stored_versions :: "string \<Rightarrow> 'p stored_object store \<Rightarrow> artifact_version set" where
  "stored_versions dir s = {v. \<exists>key \<in> set (version_keys dir s). \<exists>c. store_get s key = Some (Stored_Artifact v c)}"

abbreviation version_id :: "artifact_version \<Rightarrow> uuid \<times> u64" where
  "version_id v \<equiv> (av_artifact_id v, av_version v)"

text \<open>Every metadata object is stored under its identity, and a path belongs to one artifact.\<close>

definition artifacts_ok :: "log_env \<Rightarrow> string \<Rightarrow> 'p stored_object store \<Rightarrow> bool" where
  "artifacts_ok env dir s \<longleftrightarrow> uuid_text_ok (le_text env) \<and> dir \<noteq> [] \<and> distinct (map fst s) \<and>
     (\<forall>key \<in> set (version_keys dir s). \<exists>v c. store_get s key = Some (Stored_Artifact v c) \<and>
        key = artifact_json_path (artifact_dir env dir (av_artifact_id v)) (av_version v)) \<and>
     (\<forall>v \<in> stored_versions dir s. \<forall>v' \<in> stored_versions dir s. av_path v = av_path v' \<longleftrightarrow> av_artifact_id v = av_artifact_id v')"

lemma artifacts_ok_object:
  assumes "artifacts_ok env dir s" and "k \<in> set (version_keys dir s)"
  shows "\<exists>v c. store_get s k = Some (Stored_Artifact v c) \<and> k = artifact_json_path (artifact_dir env dir (av_artifact_id v)) (av_version v)"
proof -
  have "\<forall>key \<in> set (version_keys dir s). \<exists>v c. store_get s key = Some (Stored_Artifact v c) \<and>
        key = artifact_json_path (artifact_dir env dir (av_artifact_id v)) (av_version v)"
    using assms(1) unfolding artifacts_ok_def by (elim conjE)
  then show ?thesis using assms(2) by (rule bspec)
qed

lemma artifacts_ok_path:
  assumes "artifacts_ok env dir s" and "x \<in> stored_versions dir s" and "y \<in> stored_versions dir s"
  shows "av_path x = av_path y \<longleftrightarrow> av_artifact_id x = av_artifact_id y"
proof -
  have "\<forall>v \<in> stored_versions dir s. \<forall>v' \<in> stored_versions dir s. av_path v = av_path v' \<longleftrightarrow> av_artifact_id v = av_artifact_id v'"
    using assms(1) unfolding artifacts_ok_def by (elim conjE)
  then show ?thesis using assms(2,3) by blast
qed

definition version_at :: "'p stored_object store \<Rightarrow> string \<Rightarrow> artifact_version" where
  "version_at s key = (case store_get s key of Some (Stored_Artifact v _) \<Rightarrow> v | _ \<Rightarrow> undefined)"

lemma map_filter_Some: "List.map_filter (\<lambda>v. v) (map (\<lambda>x. Some (f x)) xs) = map f xs"
  by (induction xs) (simp_all add: List.map_filter_def)

lemma load_versions_ok:
  assumes "artifacts_ok env dir s"
  shows "\<exists>vs. load_artifact_versions dir s = Inr vs \<and> set vs = stored_versions dir s \<and>
    sorted_wrt (\<lambda>a b. version_id a < version_id b) vs"
proof -
  let ?ks = "version_keys dir s"
  have obj: "\<exists>c. store_get s k = Some (Stored_Artifact (version_at s k) c) \<and>
      k = artifact_json_path (artifact_dir env dir (av_artifact_id (version_at s k))) (av_version (version_at s k))"
    if k: "k \<in> set ?ks" for k
  proof -
    obtain v c where "store_get s k = Some (Stored_Artifact v c)"
      "k = artifact_json_path (artifact_dir env dir (av_artifact_id v)) (av_version v)"
      using artifacts_ok_object [OF assms k] by blast
    then show ?thesis by (simp add: version_at_def)
  qed
  have "map_res (\<lambda>key. case store_get s key of None \<Rightarrow> Inr None
      | Some x \<Rightarrow> and_then (decode_artifact_version x) (\<lambda>v. Inr (Some v))) ?ks = Inr (map (\<lambda>k. Some (version_at s k)) ?ks)"
  proof (rule map_res_Ok)
    fix k assume "k \<in> set ?ks"
    then obtain c where "store_get s k = Some (Stored_Artifact (version_at s k) c)" using obj by blast
    then show "(case store_get s k of None \<Rightarrow> Inr None
      | Some x \<Rightarrow> and_then (decode_artifact_version x) (\<lambda>v. Inr (Some v))) = Inr (Some (version_at s k))"
      by (simp add: decode_artifact_version_def)
  qed
  then have load: "load_artifact_versions dir s = Inr (sort_key version_id (map (version_at s) ?ks))"
    by (simp add: load_artifact_versions_def list_json_matching_suffix_def version_keys_def map_filter_Some)
  have "distinct ?ks" using assms by (simp add: artifacts_ok_def version_keys_def distinct_list_keys)
  moreover have "inj_on (\<lambda>k. version_id (version_at s k)) (set ?ks)"
  proof (rule inj_onI)
    fix k k' assume k: "k \<in> set ?ks" "k' \<in> set ?ks" "version_id (version_at s k) = version_id (version_at s k')"
    obtain c where "k = artifact_json_path (artifact_dir env dir (av_artifact_id (version_at s k))) (av_version (version_at s k))"
      using obj [OF k(1)] by blast
    moreover obtain c' where "k' = artifact_json_path (artifact_dir env dir (av_artifact_id (version_at s k'))) (av_version (version_at s k'))"
      using obj [OF k(2)] by blast
    ultimately show "k = k'" using k(3) by (metis prod.inject)
  qed
  ultimately have "distinct (map version_id (map (version_at s) ?ks))" by (simp add: distinct_map comp_def)
  moreover have "set (map (version_at s) ?ks) = stored_versions dir s"
  proof (intro set_eqI iffI)
    fix v assume "v \<in> set (map (version_at s) ?ks)"
    then obtain k where "k \<in> set ?ks" "v = version_at s k" by auto
    then show "v \<in> stored_versions dir s" using obj unfolding stored_versions_def by blast
  next
    fix v assume "v \<in> stored_versions dir s"
    then obtain k c where "k \<in> set ?ks" "store_get s k = Some (Stored_Artifact v c)" by (auto simp: stored_versions_def)
    moreover from this(2) have "version_at s k = v" by (simp add: version_at_def)
    ultimately show "v \<in> set (map (version_at s) ?ks)" by force
  qed
  ultimately show ?thesis using load sort_key_strict [of version_id] by auto
qed

text \<open>Adding one version under a new identity.\<close>

definition put_version :: "log_env \<Rightarrow> string \<Rightarrow> artifact_version \<Rightarrow> string \<Rightarrow> 'p stored_object store \<Rightarrow> 'p stored_object store" where
  "put_version env dir v contents s =
     (let d = artifact_dir env dir (av_artifact_id v)
      in store_put (artifact_bin_path d (av_version v)) (Stored_Bytes contents)
           (store_put (artifact_json_path d (av_version v)) (Stored_Artifact v None) s))"

lemma put_version_get:
  "store_get (put_version env dir v contents s) k =
     (if k = artifact_bin_path (artifact_dir env dir (av_artifact_id v)) (av_version v) then Some (Stored_Bytes contents)
      else if k = artifact_json_path (artifact_dir env dir (av_artifact_id v)) (av_version v) then Some (Stored_Artifact v None)
      else store_get s k)"
  by (simp add: put_version_def Let_def)

lemma put_version_keys:
  assumes "uuid_text_ok (le_text env)" and "dir \<noteq> []"
  shows "set (version_keys dir (put_version env dir v contents s)) =
    insert (artifact_json_path (artifact_dir env dir (av_artifact_id v)) (av_version v)) (set (version_keys dir s))"
  using assms artifact_paths_below artifact_paths_inj(3) [OF assms(1)]
  by (auto simp: version_keys_def list_keys_mem put_version_get split: if_splits)

lemma put_version_ok:
  assumes ok: "artifacts_ok env dir s"
    and new: "\<forall>v' \<in> stored_versions dir s. version_id v' \<noteq> version_id v \<and> (av_path v' = av_path v \<longleftrightarrow> av_artifact_id v' = av_artifact_id v)"
  shows "artifacts_ok env dir (put_version env dir v contents s)"
    and "stored_versions dir (put_version env dir v contents s) = insert v (stored_versions dir s)"
proof -
  let ?s = "put_version env dir v contents s" and ?key = "artifact_json_path (artifact_dir env dir (av_artifact_id v)) (av_version v)"
  have ut: "uuid_text_ok (le_text env)" "dir \<noteq> []" "distinct (map fst s)" using ok by (simp_all add: artifacts_ok_def)
  have obj: "\<exists>v' c. store_get s k = Some (Stored_Artifact v' c) \<and>
      k = artifact_json_path (artifact_dir env dir (av_artifact_id v')) (av_version v') \<and> v' \<in> stored_versions dir s"
    if k: "k \<in> set (version_keys dir s)" for k
  proof -
    obtain v' c where "store_get s k = Some (Stored_Artifact v' c)"
      "k = artifact_json_path (artifact_dir env dir (av_artifact_id v')) (av_version v')"
      using artifacts_ok_object [OF ok k] by blast
    then show ?thesis using k by (auto simp: stored_versions_def)
  qed
  have old: "store_get ?s k = store_get s k" if k: "k \<in> set (version_keys dir s)" for k
  proof -
    obtain v' where v': "k = artifact_json_path (artifact_dir env dir (av_artifact_id v')) (av_version v')" "v' \<in> stored_versions dir s"
      using obj [OF k] by blast
    then have "k \<noteq> ?key" using new artifact_paths_inj(1) [OF ut(1)] by auto
    then show ?thesis using v'(1) artifact_paths_inj(3) [OF ut(1)] by (simp add: put_version_get)
  qed
  have here: "store_get ?s ?key = Some (Stored_Artifact v None)" using artifact_paths_inj(3) [OF ut(1)] by (simp add: put_version_get)
  show sv: "stored_versions dir ?s = insert v (stored_versions dir s)"
    unfolding stored_versions_def put_version_keys [OF ut(1,2)] using old here by auto
  have "distinct (map fst ?s)" using ut(3) by (simp add: put_version_def Let_def distinct_store_put)
  moreover have "\<exists>v c. store_get ?s k = Some (Stored_Artifact v c) \<and> k = artifact_json_path (artifact_dir env dir (av_artifact_id v)) (av_version v)"
    if "k \<in> set (version_keys dir ?s)" for k
    using that obj old here unfolding put_version_keys [OF ut(1,2)] by (metis insert_iff)
  moreover have "av_path x = av_path y \<longleftrightarrow> av_artifact_id x = av_artifact_id y" if "x \<in> insert v (stored_versions dir s)" "y \<in> insert v (stored_versions dir s)" for x y
    using that new artifacts_ok_path [OF ok] by (metis insert_iff)
  ultimately show "artifacts_ok env dir ?s"
    unfolding artifacts_ok_def sv using ut by (intro conjI ballI) simp_all
qed

section \<open>Writing and reading\<close>

lemma artifacts_frame:
  assumes "\<And>k. below dir k \<Longrightarrow> store_get s' k = store_get s k" and "distinct (map fst s')"
  shows "stored_versions dir s' = stored_versions dir s" and "artifacts_ok env dir s \<Longrightarrow> artifacts_ok env dir s'"
proof -
  have keys: "set (version_keys dir s') = set (version_keys dir s)"
    using assms(1) by (auto simp: version_keys_def list_keys_mem)
  have same: "store_get s' k = store_get s k" if "k \<in> set (version_keys dir s)" for k
    using assms(1) that by (simp add: version_keys_def list_keys_mem)
  show sv: "stored_versions dir s' = stored_versions dir s" unfolding stored_versions_def keys using same by auto
  show "artifacts_ok env dir s'" if "artifacts_ok env dir s"
    using that assms(2) same unfolding artifacts_ok_def keys sv by simp
qed

lemma put_object_store: "put_object env k x w = (Inr u, w') \<Longrightarrow> lw_store w' = store_put k x (lw_store w)"
  by (auto simp: put_object_def split: sum.splits)

lemma u64_succ_less: "(x :: u64) \<noteq> - 1 \<Longrightarrow> x < x + 1"
  using inc_less_eq_self_iff_eq [of x] by (metis eq_neg_iff_add_eq_0 linorder_not_less add.commute)

lemma write_version_run:
  assumes run: "write_artifact_version env dir path contents w = (Inr v, w')" and ok: "artifacts_ok env dir (lw_store w)"
    and fresh: "\<forall>x \<in> stored_versions dir (lw_store w). av_artifact_id x \<noteq> le_now env (lw_calls w)"
  shows "lw_store w' = put_version env dir v contents (lw_store w) \<and> av_path v = path \<and>
    (\<forall>x \<in> stored_versions dir (lw_store w). (av_path x = path \<longleftrightarrow> av_artifact_id x = av_artifact_id v) \<and>
       (av_path x = path \<longrightarrow> av_version x < av_version v))"
proof -
  obtain vs where vs: "load_artifact_versions dir (lw_store w) = Inr vs" "set vs = stored_versions dir (lw_store w)"
    using load_versions_ok [OF ok] by blast
  define existing where "existing = max_by_key av_version (filter (\<lambda>v. av_path v = path) vs)"
  obtain aid n w1 where r: "(case existing of Some x \<Rightarrow> io_return (av_artifact_id x) | None \<Rightarrow> uuid_now env) w = (Inr aid, w1)"
    "next_version existing = Inr n" "av_artifact_id v = aid" "av_path v = path" "av_version v = n"
    "lw_store w' = put_version env dir v contents (lw_store w1)" "lw_store w1 = lw_store w"
  proof -
    obtain aid w1 n stamp w3 c w4 where step: "(case existing of Some x \<Rightarrow> io_return (av_artifact_id x) | None \<Rightarrow> uuid_now env) w = (Inr aid, w1)"
      "next_version existing = Inr n" "uuid_now env w1 = (Inr stamp, w3)"
      "v = \<lparr> av_artifact_id = aid, av_path = path, av_version = n, av_created_at = c, av_size_bytes = of_nat (length contents) \<rparr>"
      "put_object env (artifact_json_path (artifact_dir env dir aid) n) (Stored_Artifact v None) w3 = (Inr (), w4)"
      "put_object env (artifact_bin_path (artifact_dir env dir aid) n) (Stored_Bytes contents) w4 = (Inr (), w')"
      using run vs(1) unfolding write_artifact_version_def Let_def io_bind_Inr_iff existing_def
      by (clarsimp simp: io_lift_def io_read_def io_return_def)
    have "lw_store w1 = lw_store w" using step(1) by (cases existing) (auto simp: io_return_def uuid_now_def)
    moreover have "lw_store w3 = lw_store w1" using step(3) by (auto simp: uuid_now_def)
    ultimately show thesis
      using that [OF step(1,2)] step(4) put_object_store [OF step(5)] put_object_store [OF step(6)]
      by (simp add: put_version_def Let_def)
  qed
  have "(av_path x = path \<longleftrightarrow> av_artifact_id x = aid) \<and> (av_path x = path \<longrightarrow> av_version x < n)"
    if x: "x \<in> stored_versions dir (lw_store w)" for x
  proof (cases existing)
    case None
    then have "aid = le_now env (lw_calls w)" using r(1) by (simp add: uuid_now_def)
    moreover have "av_path x \<noteq> path"
      using None x vs(2) by (auto simp: existing_def filter_empty_conv)
    ultimately show ?thesis using fresh x by auto
  next
    case (Some y)
    have y: "y \<in> stored_versions dir (lw_store w)" "av_path y = path"
      using max_by_key_in [OF Some [unfolded existing_def]] vs(2) by auto
    have aid: "aid = av_artifact_id y" using r(1) Some by (simp add: io_return_def)
    have n: "n = av_version y + 1" "av_version y \<noteq> - 1" using r(2) Some by (auto simp: next_version_def split: if_splits)
    have "av_version x \<le> av_version y" if "av_path x = path"
      using max_by_key_ge [OF Some [unfolded existing_def], of x] that x vs(2) by simp
    moreover have "av_version y < n" using n u64_succ_less by simp
    ultimately show ?thesis using artifacts_ok_path [OF ok x y(1)] y(2) aid by auto
  qed
  then show ?thesis using r(3-7) by simp
qed

text \<open>Appending one event touches nothing below the artifacts.\<close>

lemma append_put_store:
  assumes "append_events_to_conversation env dir c ses turn expected data r w = (Inr (added, r'), w')"
  shows "\<exists>es. lw_store w' = store_put (fst (batch_object env dir es)) (snd (batch_object env dir es)) (lw_store w)"
  by (rule append_run [OF assms]) blast

lemma append_put_distinct:
  assumes "append_events_to_conversation env dir c ses turn expected data r w = (Inr (added, r'), w')"
    and "distinct (map fst (lw_store w))"
  shows "distinct (map fst (lw_store w'))"
  using append_put_store [OF assms(1)] distinct_store_put [OF assms(2)] by auto

lemma event_put_frame:
  assumes "append_events_to_conversation env dir c ses turn expected data r w = (Inr (added, r'), w')"
    and "below (artifacts_dir dir) k"
  shows "store_get (lw_store w') k = store_get (lw_store w) k"
proof -
  obtain es where es: "lw_store w' = store_put (fst (batch_object env dir es)) (snd (batch_object env dir es)) (lw_store w)"
    using append_put_store [OF assms(1)] by blast
  obtain x where "fst (batch_object env dir es) = dir @ ''/events/'' @ x"
    by (cases "length es = 1") (simp_all add: batch_object_def event_path_def event_batch_path_def)
  moreover obtain y where "k = dir @ ''/artifacts/'' @ y"
    using assms(2) by (auto simp: below_def artifacts_dir_def starts_with_iff)
  ultimately show ?thesis using es by simp
qed

text \<open>What a read gives, from the stored versions.\<close>

lemma read_artifact_run:
  assumes ok: "artifacts_ok env (artifacts_dir (ch_dir h)) (lw_store w)" and access: "le_check env (cr_id (ch_record h)) = Inr ()"
    and v: "v \<in> stored_versions (artifacts_dir (ch_dir h)) (lw_store w)"
    and newest: "\<forall>x \<in> stored_versions (artifacts_dir (ch_dir h)) (lw_store w). av_artifact_id x = av_artifact_id v \<longrightarrow> x \<noteq> v \<longrightarrow> av_version x < av_version v"
    and bytes: "store_get (lw_store w) (artifact_bin_path (artifact_dir env (artifacts_dir (ch_dir h)) (av_artifact_id v)) (av_version v))
      = Some (Stored_Bytes contents)"
  shows "read_artifact env h (av_artifact_id v) None w = (Inr (Some \<lparr> at_version = v, at_contents = contents \<rparr>), w)"
proof -
  obtain vs where vs: "load_artifact_versions (artifacts_dir (ch_dir h)) (lw_store w) = Inr vs"
    "set vs = stored_versions (artifacts_dir (ch_dir h)) (lw_store w)"
    using load_versions_ok [OF ok] by blast
  let ?mine = "filter (\<lambda>x. av_artifact_id x = av_artifact_id v) vs"
  have "max_by_key av_version ?mine = Some v"
  proof (cases "max_by_key av_version ?mine")
    case None
    then show ?thesis using v vs(2) by (auto simp: filter_empty_conv)
  next
    case (Some x)
    then have "x \<in> set ?mine" "av_version v \<le> av_version x"
      using max_by_key_in [OF Some] max_by_key_ge [OF Some, of v] v vs(2) by auto
    then have "x = v" using newest vs(2) by (auto simp: linorder_not_less [symmetric])
    then show ?thesis using Some by simp
  qed
  then show ?thesis
    using access vs(1) bytes
    by (simp add: read_artifact_def io_bind_def io_lift_def io_read_def io_return_def load_artifact_contents_def)
qed

lemma read_artifact_eq:
  assumes "le_check env (cr_id (ch_record h)) = Inr u"
    and "load_artifact_versions (artifacts_dir (ch_dir h)) (lw_store w) = Inr vs"
  shows "fst (read_artifact env h i (Some n) w) =
    (case max_by_key av_version (filter (\<lambda>v. av_version v = n) (filter (\<lambda>v. av_artifact_id v = i) vs)) of
       None \<Rightarrow> Inr None
     | Some v \<Rightarrow> and_then (load_artifact_contents (artifact_dir env (artifacts_dir (ch_dir h)) (av_artifact_id v)) (av_version v) (lw_store w))
         (\<lambda>contents. Inr (Some \<lparr> at_version = v, at_contents = contents \<rparr>)))"
proof (cases "max_by_key av_version (filter (\<lambda>v. av_version v = n) (filter (\<lambda>v. av_artifact_id v = i) vs))")
  case None
  then show ?thesis using assms by (simp add: read_artifact_def io_bind_def io_lift_def io_read_def io_return_def del: filter_filter max_by_key_None_iff)
next
  case (Some v)
  then show ?thesis using assms
    by (simp add: read_artifact_def io_bind_def io_lift_def io_read_def io_return_def del: filter_filter split: sum.split)
qed

text \<open>A read of one version depends only on that version's metadata and contents.\<close>

lemma read_version_frame:
  assumes ok: "artifacts_ok env (artifacts_dir (ch_dir h)) (lw_store w)" "artifacts_ok env (artifacts_dir (ch_dir h)) (lw_store w')"
    and same: "{x \<in> stored_versions (artifacts_dir (ch_dir h)) (lw_store w'). version_id x = (i, n)} =
      {x \<in> stored_versions (artifacts_dir (ch_dir h)) (lw_store w). version_id x = (i, n)}"
    and contents: "load_artifact_contents (artifact_dir env (artifacts_dir (ch_dir h)) i) n (lw_store w') =
      load_artifact_contents (artifact_dir env (artifacts_dir (ch_dir h)) i) n (lw_store w)"
  shows "fst (read_artifact env h i (Some n) w') = fst (read_artifact env h i (Some n) w)"
proof -
  let ?dir = "artifacts_dir (ch_dir h)"
  let ?mine = "\<lambda>vs. filter (\<lambda>v. av_version v = n) (filter (\<lambda>v. av_artifact_id v = i) vs)"
  obtain vs where vs: "load_artifact_versions ?dir (lw_store w) = Inr vs" "set vs = stored_versions ?dir (lw_store w)"
    "sorted_wrt (\<lambda>a b. version_id a < version_id b) vs"
    using load_versions_ok [OF ok(1)] by blast
  obtain vs' where vs': "load_artifact_versions ?dir (lw_store w') = Inr vs'" "set vs' = stored_versions ?dir (lw_store w')"
    "sorted_wrt (\<lambda>a b. version_id a < version_id b) vs'"
    using load_versions_ok [OF ok(2)] by blast
  have "sorted_wrt (\<lambda>a b. version_id a < version_id b) (?mine vs)" "sorted_wrt (\<lambda>a b. version_id a < version_id b) (?mine vs')"
    by (rule sorted_wrt_filter [OF sorted_wrt_filter [OF vs(3)]], rule sorted_wrt_filter [OF sorted_wrt_filter [OF vs'(3)]])
  moreover have "set (?mine vs') = set (?mine vs)" using same vs(2) vs'(2) by auto
  ultimately have mine: "?mine vs' = ?mine vs" using strict_sorted_unique [of version_id] by blast
  have sel: "av_artifact_id x = i \<and> av_version x = n" if "max_by_key av_version (?mine vs) = Some x" for x
    using max_by_key_in [OF that] by simp
  show ?thesis
  proof (cases "le_check env (cr_id (ch_record h))")
    case (Inr u)
    show ?thesis
    proof (cases "max_by_key av_version (?mine vs)")
      case None
      then show ?thesis unfolding read_artifact_eq [OF Inr vs(1)] read_artifact_eq [OF Inr vs'(1)] mine by simp
    next
      case (Some x)
      then show ?thesis
        unfolding read_artifact_eq [OF Inr vs(1)] read_artifact_eq [OF Inr vs'(1)] mine using sel [OF Some] contents by simp
    qed
  qed (simp add: read_artifact_def io_bind_def io_lift_def)
qed

lemma put_version_contents:
  assumes ut: "uuid_text_ok (le_text env)" "dir \<noteq> []" and other: "(i, n) \<noteq> version_id v"
    and frame: "\<And>k. below dir k \<Longrightarrow> store_get s' k = store_get s1 k" and s1: "s1 = put_version env dir v contents s"
  shows "load_artifact_contents (artifact_dir env dir i) n s' = load_artifact_contents (artifact_dir env dir i) n s"
proof -
  let ?json = "artifact_json_path (artifact_dir env dir i) n" and ?bin = "artifact_bin_path (artifact_dir env dir i) n"
  have "store_get s' ?json = store_get s ?json"
    using frame [OF artifact_paths_below(1) [OF ut(2)]] other artifact_paths_inj(1,3) [OF ut(1)] by (auto simp: s1 put_version_get)
  moreover have "store_get s' ?bin = store_get s ?bin"
    using frame [OF artifact_paths_below(2) [OF ut(2)]] other artifact_paths_inj(2) [OF ut(1)] artifact_paths_inj(3) [OF ut(1), symmetric]
    by (auto simp: s1 put_version_get)
  ultimately show ?thesis unfolding load_artifact_contents_def by (simp only:)
qed

text \<open>C37: an artifact reads back as it was written. A successful write makes its contents the newest version of
  its path; versions of a path count up under one identifier; and reading any other version gives what it
  gave before. Identifiers of new artifacts must be new.\<close>

theorem artifact_write_read_roundtrip:
  assumes "write_artifact env h path contents w = (Inr v, w')"
    and "artifacts_ok env (artifacts_dir (ch_dir h)) (lw_store w)"
    and "\<forall>x \<in> stored_versions (artifacts_dir (ch_dir h)) (lw_store w). av_artifact_id x \<noteq> le_now env (lw_calls w)"
  shows "read_artifact env h (av_artifact_id v) None w' = (Inr (Some \<lparr> at_version = v, at_contents = contents \<rparr>), w') \<and>
    av_path v = path \<and> artifacts_ok env (artifacts_dir (ch_dir h)) (lw_store w') \<and>
    (\<forall>x \<in> stored_versions (artifacts_dir (ch_dir h)) (lw_store w).
       av_path x = path \<longrightarrow> av_artifact_id x = av_artifact_id v \<and> av_version x < av_version v) \<and>
    (\<forall>i n. (i, n) \<noteq> version_id v \<longrightarrow> fst (read_artifact env h i (Some n) w') = fst (read_artifact env h i (Some n) w))"
proof -
  let ?dir = "artifacts_dir (ch_dir h)"
  obtain w1 r added r' where run: "write_artifact_version env ?dir path contents w = (Inr v, w1)"
    "append_events_to_conversation env (ch_dir h) (cr_id (ch_record h)) None None (cr_latest_event_id r)
       [ArtifactWritten (av_artifact_id v) (av_path v) (av_version v)] r w1 = (Inr (added, r'), w')"
    "le_check env (cr_id (ch_record h)) = Inr ()"
    using assms(1) unfolding write_artifact_def by (auto simp: io_bind_Inr_iff io_lift_def io_read_def io_return_def)
  have v: "lw_store w1 = put_version env ?dir v contents (lw_store w)" "av_path v = path"
    "\<forall>x \<in> stored_versions ?dir (lw_store w). (av_path x = path \<longleftrightarrow> av_artifact_id x = av_artifact_id v) \<and>
       (av_path x = path \<longrightarrow> av_version x < av_version v)"
    using write_version_run [OF run(1) assms(2,3)] by blast+
  have new: "\<forall>x \<in> stored_versions ?dir (lw_store w). version_id x \<noteq> version_id v \<and>
      (av_path x = av_path v \<longleftrightarrow> av_artifact_id x = av_artifact_id v)"
    using v(2,3) by auto
  note put = put_version_ok [OF assms(2) new, of contents, folded v(1)]
  have frame: "store_get (lw_store w') k = store_get (lw_store w1) k" if "below ?dir k" for k
    using event_put_frame [OF run(2) that] .
  have dist: "distinct (map fst (lw_store w'))"
    using put(1) append_put_distinct [OF run(2)] by (simp add: artifacts_ok_def)
  have ok': "artifacts_ok env ?dir (lw_store w')" by (rule artifacts_frame(2) [OF frame dist put(1)])
  have sv': "stored_versions ?dir (lw_store w') = insert v (stored_versions ?dir (lw_store w))"
    using artifacts_frame(1) [OF frame dist] put(2) by simp
  have ut: "uuid_text_ok (le_text env)" "?dir \<noteq> []" using assms(2) by (simp_all add: artifacts_ok_def)
  have contents: "load_artifact_contents (artifact_dir env ?dir i) n (lw_store w') = load_artifact_contents (artifact_dir env ?dir i) n (lw_store w)"
    if "(i, n) \<noteq> version_id v" for i n
    by (rule put_version_contents [OF ut that _ v(1)]) (rule frame)
  have "read_artifact env h (av_artifact_id v) None w' = (Inr (Some \<lparr> at_version = v, at_contents = contents \<rparr>), w')"
    by (rule read_artifact_run [OF ok' run(3)])
       (use sv' v(3) frame [OF artifact_paths_below(2) [OF ut(2)]] in \<open>auto simp: v(1) put_version_get\<close>)
  moreover have "fst (read_artifact env h i (Some n) w') = fst (read_artifact env h i (Some n) w)" if "(i, n) \<noteq> version_id v" for i n
    by (rule read_version_frame [OF assms(2) ok' _ contents [OF that]]) (use that sv' in auto)
  ultimately show ?thesis using v(2,3) ok' by blast
qed

lemma sample_artifacts_ok: "artifacts_ok sample_env ''c/artifacts'' sample_log" and sample_no_versions: "stored_versions ''c/artifacts'' sample_log = {}"
proof -
  have "version_keys ''c/artifacts'' sample_log = []"
  proof -
    have "\<not> below ''c/artifacts'' k" if "store_get sample_log k \<noteq> None" for k
    proof -
      have "k = event_batch_path decimal_text ''c'' 8 9 \<or> k = event_path decimal_text ''c'' 7 \<or> k = ''c/record.json''"
        using that by (simp add: sample_log_def store_get_def [of "[_]"] split: if_splits)
      then show ?thesis by (elim disjE) (simp_all add: below_def starts_with_def event_path_def event_batch_path_def)
    qed
    then have "list_keys ''c/artifacts'' sample_log = []" using list_keys_mem [of _ "''c/artifacts''" sample_log] by (metis list.set_intros(1) neq_Nil_conv)
    then show ?thesis by (simp add: version_keys_def)
  qed
  then show "artifacts_ok sample_env ''c/artifacts'' sample_log" "stored_versions ''c/artifacts'' sample_log = {}"
    using sample_log_facts(3) by (simp_all add: artifacts_ok_def stored_versions_def log_ok_def)
qed

theorem artifact_write_read_roundtrip_witness:
  "\<exists>v w'. write_artifact sample_env sample_handle ''notes.md'' ''hello'' sample_world = (Inr v, w') \<and>
     read_artifact sample_env sample_handle (av_artifact_id v) None w' = (Inr (Some \<lparr> at_version = v, at_contents = ''hello'' \<rparr>), w')"
proof -
  obtain vs where vs: "load_artifact_versions ''c/artifacts'' sample_log = Inr vs" "set vs = {}"
    using load_versions_ok [OF sample_artifacts_ok] sample_no_versions by auto
  have stored: "store_get sample_log ''c/record.json'' = Some (Stored_Record sample_record)"
    using sample_record_get by (simp add: record_path_def)
  have "\<exists>v w'. write_artifact sample_env sample_handle ''notes.md'' ''hello'' sample_world = (Inr v, w')"
    using vs by (simp add: write_artifact_def write_artifact_version_def artifacts_dir_def next_version_def sample_run_simps Let_def)
      (simp add: record_path_def artifact_json_path_def artifact_bin_path_def artifact_dir_def stored sample_run_simps)
  then obtain v w' where run: "write_artifact sample_env sample_handle ''notes.md'' ''hello'' sample_world = (Inr v, w')" by blast
  show ?thesis
    using artifact_write_read_roundtrip [OF run] sample_artifacts_ok sample_no_versions run by (auto simp: artifacts_dir_def)
qed

end
