(* ===== verification/Event_Forks.thy ===== *)
theory Event_Forks
  imports Event_Artifacts
begin

text \<open>
  Slugs and forks of conversations (\<^verbatim>\<open>crates/exoharness/src/basic.rs\<close>): the slug search ends with a free slug; a
  fork's log holds the source's events up to the limit under new identifiers, then the fork marker, and the
  source stays as it was.
\<close>

section \<open>Slugs\<close>

definition slug_candidate :: "string \<Rightarrow> nat \<Rightarrow> string" where
  "slug_candidate prefix n = prefix @ ''-'' @ show_nat n"

lemma slug_candidate_inj: "slug_candidate p m = slug_candidate p n \<Longrightarrow> m = n"
  by (auto simp: slug_candidate_def dest: show_nat_inj)

lemma slug_loop_None:
  "slug_loop fuel p existing c = None \<Longrightarrow> slug_candidate p ` {c..<c + fuel} \<subseteq> cr_slug ` set existing"
proof (induction fuel arbitrary: c)
  case (Suc fuel)
  have "slug_candidate p c \<in> cr_slug ` set existing" "slug_loop fuel p existing (Suc c) = None"
    using Suc.prems by (force simp: slug_candidate_def Let_def split: if_splits)+
  moreover have "{c..<c + Suc fuel} = insert c {Suc c..<Suc c + fuel}" by auto
  ultimately show ?case using Suc.IH [of "Suc c"] by simp
qed simp

lemma slug_loop_Some:
  "slug_loop fuel p existing c = Some slug \<Longrightarrow>
     \<exists>n \<ge> c. slug = slug_candidate p n \<and> slug \<notin> cr_slug ` set existing \<and> slug_candidate p ` {c..<n} \<subseteq> cr_slug ` set existing"
proof (induction fuel arbitrary: c)
  case (Suc fuel)
  show ?case
  proof (cases "\<forall>r \<in> set existing. cr_slug r \<noteq> slug_candidate p c")
    case True
    then show ?thesis using Suc.prems by (intro exI [of _ c]) (auto simp: slug_candidate_def Let_def)
  next
    case False
    then have taken: "slug_candidate p c \<in> cr_slug ` set existing" and "slug_loop fuel p existing (Suc c) = Some slug"
      using Suc.prems by (force simp: slug_candidate_def Let_def split: if_splits)+
    from Suc.IH [OF this(2)] obtain n where n: "Suc c \<le> n" "slug = slug_candidate p n" "slug \<notin> cr_slug ` set existing"
      "slug_candidate p ` {Suc c..<n} \<subseteq> cr_slug ` set existing" by blast
    have "{c..<n} = insert c {Suc c..<n}" using n(1) by auto
    then show ?thesis using n taken by (intro exI [of _ n]) simp
  qed
qed simp

lemma slug_space: "slug_candidate p ` {c..<c + n} \<subseteq> cr_slug ` set existing \<Longrightarrow> n \<le> length existing"
proof -
  assume "slug_candidate p ` {c..<c + n} \<subseteq> cr_slug ` set existing"
  then have "card (slug_candidate p ` {c..<c + n}) \<le> card (cr_slug ` set existing)" by (rule card_mono [rotated]) simp
  moreover have "card (slug_candidate p ` {c..<c + n}) = n"
    by (subst card_image) (auto intro: inj_onI slug_candidate_inj)
  moreover have "card (cr_slug ` set existing) \<le> length existing"
    using card_image_le [of "set existing" cr_slug] card_length [of existing] by simp
  ultimately show ?thesis by simp
qed

text \<open>C38: the slug search ends. Among existing conversations it returns the first free candidate, counting
  from one, after at most one more step than there are conversations.\<close>

theorem unique_slug_search_ends:
  "\<exists>n. derive_unique_slug p existing = Some (slug_candidate p n) \<and> 1 \<le> n \<and> n \<le> Suc (length existing) \<and>
     slug_candidate p n \<notin> cr_slug ` set existing \<and> slug_candidate p ` {1..<n} \<subseteq> cr_slug ` set existing"
proof (cases "derive_unique_slug p existing")
  case None
  then have "Suc (length existing) \<le> length existing"
    using slug_space [OF slug_loop_None] by (simp add: derive_unique_slug_def)
  then show ?thesis by simp
next
  case (Some slug)
  obtain n where n: "1 \<le> n" "slug = slug_candidate p n" "slug \<notin> cr_slug ` set existing"
    "slug_candidate p ` {1..<n} \<subseteq> cr_slug ` set existing"
    using slug_loop_Some [OF Some [unfolded derive_unique_slug_def]] by blast
  have "n - 1 \<le> length existing" using slug_space [of p 1 "n - 1" existing] n(1,4) by simp
  then show ?thesis using Some n by (intro exI [of _ n]) auto
qed

lemma fork_slug_fresh: "fork_slug requested existing = Inr slug \<Longrightarrow> slug \<notin> cr_slug ` set existing"
  using slug_loop_Some [of "Suc (length existing)" "''fork''" existing 1]
  by (auto simp: fork_slug_def derive_unique_slug_def split: option.splits if_splits)

section \<open>Frames\<close>

lemma copy_prefix_other:
  fixes s :: "'o store"
  assumes "\<not> below dst k" and "src \<noteq> []"
  shows "store_get (copy_prefix src dst s) k = store_get s k"
proof -
  have "store_get (fold (\<lambda>key s. store_copy key (dst @ drop (length src) key) s) ks s) k = store_get s k"
    if "\<forall>key \<in> set ks. below src key" for ks and s :: "'o store"
    using that
  proof (induction ks arbitrary: s)
    case (Cons key ks)
    obtain r where "key = src @ ''/'' @ r" using Cons.prems assms(2) by (auto simp: below_def starts_with_iff)
    then have "k \<noteq> dst @ drop (length src) key" using assms(1) by (auto simp: below_def starts_with_iff)
    then have "store_get (store_copy key (dst @ drop (length src) key) s) k = store_get s k"
      by (simp add: store_copy_def split: option.splits)
    then show ?case using Cons by simp
  qed simp
  then show ?thesis by (simp add: copy_prefix_def list_keys_mem)
qed

lemma copy_prefix_distinct: "distinct (map fst s) \<Longrightarrow> distinct (map fst (copy_prefix src dst s))"
proof -
  have "distinct (map fst s) \<Longrightarrow> distinct (map fst (fold (\<lambda>key s. store_copy key (f key) s) ks s))" for ks f and s :: "'o store"
    by (induction ks arbitrary: s) (auto simp: store_copy_def distinct_store_put split: option.splits)
  then show "distinct (map fst s) \<Longrightarrow> ?thesis" by (simp add: copy_prefix_def)
qed

text \<open>A log depends only on the objects below its directory.\<close>

lemma log_frame:
  assumes "log_is env dir s es" and "\<And>k. below (events_dir dir) k \<Longrightarrow> store_get s' k = store_get s k" and "distinct (map fst s')"
  shows "log_is env dir s' es"
proof -
  have keys: "set (log_keys env dir s') = set (log_keys env dir s)" using assms(2) by (auto simp: log_keys_mem)
  have get: "store_get s' k = store_get s k" if "k \<in> set (log_keys env dir s)" for k
    using assms(2) that by (simp add: log_keys_mem)
  then have at: "object_at s' k = object_at s k" if "k \<in> set (log_keys env dir s)" for k
    using that by (simp add: object_at_def)
  have "log_ok env dir s'"
    using assms(1,3) get at unfolding log_is_def log_ok_def keys by simp
  then show ?thesis using assms(1) at unfolding log_is_def keys by simp
qed

lemma empty_log:
  assumes "uuid_text_ok (le_text env)" and "distinct (map fst s)" and "\<And>k. below (events_dir dir) k \<Longrightarrow> store_get s k = None"
  shows "log_is env dir s []"
proof -
  have "set (log_keys env dir s) = {}"
  proof (rule equals0I)
    fix k assume "k \<in> set (log_keys env dir s)"
    then show False using assms(3) [of k] by (simp add: log_keys_mem)
  qed
  then show ?thesis using assms(1,2) by (simp add: log_is_def log_ok_def)
qed

section \<open>Copying events\<close>

definition carried :: "'p event \<Rightarrow> uuid option \<times> uuid option \<times> 'p event_data" where
  "carried e = (ev_session_id e, ev_turn_id e, ev_data e)"

lemma carried_moved [simp]: "carried (e\<lparr>ev_id := i, ev_thread_id := c, ev_created_at := t\<rparr>) = carried e"
  by (simp add: carried_def)

lemma below_parts:
  "below (events_dir dir) k \<Longrightarrow> below dir k" "below (artifacts_dir dir) k \<Longrightarrow> below dir k" "below (bindings_dir dir) k \<Longrightarrow> below dir k"
  by (auto simp: below_def events_dir_def artifacts_dir_def bindings_dir_def starts_with_iff)

lemma event_paths_below: "below dir (event_path ut dir i)" "below dir (event_batch_path ut dir i j)" "below dir (record_path dir)"
  by (simp_all add: below_def starts_with_iff event_path_def event_batch_path_def record_path_def)

lemma put_object_run:
  "put_object env k x w = (Inr u, w') \<Longrightarrow> lw_store w' = store_put k x (lw_store w) \<and> lw_calls w' = Suc (lw_calls w)"
  by (auto simp: put_object_def split: sum.splits)

lemma fork_events_log:
  assumes "fork_events env dir cid es latest w = (Inr latest', w')" and "log_is env dir (lw_store w) base"
    and "ids_fresh env n w base" and "2 * length es \<le> n"
  shows "\<exists>copies. log_is env dir (lw_store w') (base @ copies) \<and> ids_fresh env (n - 2 * length es) w' (base @ copies) \<and>
    map carried copies = map carried es \<and> (\<forall>e \<in> set copies. ev_thread_id e = cid) \<and>
    (\<forall>k. \<not> below dir k \<longrightarrow> store_get (lw_store w') k = store_get (lw_store w) k) \<and>
    (\<forall>k. below dir k \<longrightarrow> \<not> below (events_dir dir) k \<longrightarrow> store_get (lw_store w') k = store_get (lw_store w) k)"
  using assms
proof (induction es arbitrary: latest w base n)
  case Nil
  then show ?case by (intro exI [of _ "[]"]) (simp add: io_return_def)
next
  case (Cons e es)
  define i where "i = le_now env (lw_calls w)"
  obtain t w1 where r: "timestamp_of env i = Inr t"
    "put_object env (event_path (le_text env) dir i) (Stored_Event (e\<lparr>ev_id := i, ev_thread_id := cid, ev_created_at := t\<rparr>))
       (w\<lparr>lw_calls := Suc (lw_calls w)\<rparr>) = (Inr (), w1)"
    "fork_events env dir cid es (Some i) w1 = (Inr latest', w')"
    using Cons.prems(1) by (auto simp: io_bind_Inr_iff io_lift_def uuid_now_def i_def)
  let ?e = "e\<lparr>ev_id := i, ev_thread_id := cid, ev_created_at := t\<rparr>"
  have w1: "lw_store w1 = store_put (event_path (le_text env) dir i) (Stored_Event ?e) (lw_store w)" "lw_calls w1 = Suc (Suc (lw_calls w))"
    using put_object_run [OF r(2)] by simp_all
  have newer: "ev_id b < i" if "b \<in> set base" for b
    using ids_fresh_newer [OF Cons.prems(3) that, of 0] Cons.prems(4) by (simp add: i_def)
  have log: "log_is env dir (lw_store w1) (base @ [?e])"
    using log_append_object [OF Cons.prems(2), of "event_path (le_text env) dir i" "Stored_Event ?e"] newer
    by (simp add: object_ok_def object_events_def w1(1))
  have fresh: "ids_fresh env (n - 2) w1 (base @ [?e])"
  proof -
    have "ev_id b < le_now env (Suc (Suc (lw_calls w)))" if "b \<in> set (base @ [?e])" "2 < n" for b
      using that ids_fresh_newer [OF Cons.prems(3), of b 2] Cons.prems(3) by (auto simp: ids_fresh_def i_def)
    then show ?thesis using Cons.prems(3) by (simp add: ids_fresh_def w1(2))
  qed
  have n: "2 * length es \<le> n - 2" "n - 2 - 2 * length es = n - 2 * length (e # es)" using Cons.prems(4) by auto
  from Cons.IH [OF r(3) log fresh n(1)] obtain copies where
    c: "log_is env dir (lw_store w') ((base @ [?e]) @ copies)" "ids_fresh env (n - 2 - 2 * length es) w' ((base @ [?e]) @ copies)"
    "map carried copies = map carried es" "\<forall>e \<in> set copies. ev_thread_id e = cid"
    "\<forall>k. \<not> below dir k \<longrightarrow> store_get (lw_store w') k = store_get (lw_store w1) k"
    "\<forall>k. below dir k \<longrightarrow> \<not> below (events_dir dir) k \<longrightarrow> store_get (lw_store w') k = store_get (lw_store w1) k"
    by (elim exE conjE) (rule that)
  have "below (events_dir dir) (event_path (le_text env) dir i)" by (simp add: below_def events_dir_def starts_with_iff event_path_def)
  then have "store_get (lw_store w1) k = store_get (lw_store w) k" if "\<not> below dir k \<or> \<not> below (events_dir dir) k" for k
    using that event_paths_below(1) [of dir "le_text env" i] by (auto simp: w1(1))
  then have "\<forall>k. \<not> below dir k \<longrightarrow> store_get (lw_store w') k = store_get (lw_store w) k"
    "\<forall>k. below dir k \<longrightarrow> \<not> below (events_dir dir) k \<longrightarrow> store_get (lw_store w') k = store_get (lw_store w) k"
    using c(5,6) by simp_all
  then show ?case
    using c(1-4) [unfolded n(2)] by (intro exI [of _ "?e # copies"]) simp
qed

section \<open>Forks\<close>

definition fork_dir :: "log_env \<Rightarrow> conversation_handle \<Rightarrow> uuid \<Rightarrow> string" where
  "fork_dir env h i = ch_agent_dir h @ ''/conversations/'' @ ut_show (le_text env) i"

lemma below_sibling:
  assumes ut: "uuid_text_ok (le_text env)" and ids: "i \<noteq> j" and k: "below (fork_dir env h i) k"
  shows "\<not> below (fork_dir env h j) k"
proof
  assume "below (fork_dir env h j) k"
  with k obtain x y where "ut_show (le_text env) i @ CHR ''/'' # x = ut_show (le_text env) j @ CHR ''/'' # y"
    by (auto simp: below_def fork_dir_def starts_with_iff)
  then have "ut_show (le_text env) i = ut_show (le_text env) j"
    using split_at_first [of _ "CHR ''/''"] uuid_text_no_slash [OF ut] by blast
  then show False using ids uuid_text_inj [OF ut] by blast
qed

text \<open>The steps of a successful fork.\<close>

lemma run_lift: "io_bind (io_lift r) f w = (Inr y, w') \<longleftrightarrow> (\<exists>x. r = Inr x \<and> f x w = (Inr y, w'))"
  by (simp add: io_bind_Inr_iff io_lift_def)

lemma run_read: "io_bind (io_read g) f w = f (g w) w"
  by (simp add: io_bind_def io_read_def)

lemma run_modify: "io_bind (io_modify g) f w = f () (g w)"
  by (simp add: io_bind_def io_modify_def)

lemma run_now: "io_bind (uuid_now env) f w = f (le_now env (lw_calls w)) (w\<lparr>lw_calls := Suc (lw_calls w)\<rparr>)"
  by (simp add: io_bind_def uuid_now_def)

lemma fork_into_run:
  assumes "fork_into env h up_to ref dir es r w = (Inr h', w')"
  obtains latest w1 added w2 where
    "fork_events env dir (cr_id r) es None (w\<lparr>lw_store := copy_prefix (artifacts_dir (ch_dir h)) (artifacts_dir dir)
        (copy_prefix (bindings_dir (ch_dir h)) (bindings_dir dir) (lw_store w))\<rparr>) = (Inr latest, w1)"
    "append_events_to_conversation env dir (cr_id r) None None latest [ThreadForked (cr_id (ch_record h)) up_to]
       (r\<lparr>cr_latest_event_id := latest\<rparr>) w1 = (Inr (added, ch_record h'), w2)"
    "lw_store w' = store_put (record_path dir) (Stored_Record (ch_record h')) (lw_store w2)" "ch_dir h' = dir"
proof -
  obtain latest w1 added rec w2 w3 where "fork_events env dir (cr_id r) es None (w\<lparr>lw_store := copy_prefix (artifacts_dir (ch_dir h)) (artifacts_dir dir)
        (copy_prefix (bindings_dir (ch_dir h)) (bindings_dir dir) (lw_store w))\<rparr>) = (Inr latest, w1)"
    "append_events_to_conversation env dir (cr_id r) None None latest [ThreadForked (cr_id (ch_record h)) up_to]
       (r\<lparr>cr_latest_event_id := latest\<rparr>) w1 = (Inr (added, rec), w2)"
    "put_object env (record_path dir) (Stored_Record rec) w2 = (Inr (), w3)" "lw_store w' = lw_store w3"
    "ch_record h' = rec" "ch_dir h' = dir"
    using assms unfolding fork_into_def run_modify run_lift
    by (auto simp: io_bind_Inr_iff io_lift_def io_modify_def io_return_def)
  then show thesis using that put_object_run by metis
qed

lemma fork_run:
  assumes "fork env h up_to requested name ref w = (Inr h', w')" and "load_events env (ch_dir h) (lw_store w) = Inr es"
  obtains listed r where
    "list_conversation_records env (ch_agent_dir h) None None (lw_store w) = Inr listed"
    "cr_slug r \<notin> cr_slug ` set (lc_conversations listed)" "cr_id r = le_now env (lw_calls w)"
    "fork_into env h up_to ref (fork_dir env h (le_now env (lw_calls w)))
       (filter (\<lambda>e. case up_to of None \<Rightarrow> True | Some l \<Rightarrow> ev_id e \<le> l) es) r (w\<lparr>lw_calls := Suc (lw_calls w)\<rparr>) = (Inr h', w')"
proof -
  have sel: "(case up_to of None \<Rightarrow> es | Some limit \<Rightarrow> filter (\<lambda>e. ev_id e \<le> limit) es) =
      filter (\<lambda>e. case up_to of None \<Rightarrow> True | Some l \<Rightarrow> ev_id e \<le> l) es"
    by (cases up_to) simp_all
  obtain listed slug where *: "list_conversation_records env (ch_agent_dir h) None None (lw_store w) = Inr listed"
    "fork_slug requested (lc_conversations listed) = Inr slug"
    "fork_into env h up_to ref (fork_dir env h (le_now env (lw_calls w)))
       (filter (\<lambda>e. case up_to of None \<Rightarrow> True | Some l \<Rightarrow> ev_id e \<le> l) es)
       \<lparr> cr_environment = cr_environment (ch_record h), cr_id = le_now env (lw_calls w), cr_slug = slug,
         cr_name = (case name of Some n \<Rightarrow> n | None \<Rightarrow> slug_to_name slug), cr_latest_event_id = None,
         cr_vaults = cr_vaults (ch_record h) \<rparr> (w\<lparr>lw_calls := Suc (lw_calls w)\<rparr>) = (Inr h', w')"
    using assms unfolding fork_def run_read run_lift run_now fork_dir_def sel [symmetric] by auto
  show thesis by (rule that [OF *(1) _ _ *(3)]) (use fork_slug_fresh [OF *(2)] in simp_all)
qed

text \<open>What a fork leaves in the store: nothing changes outside the new directory.\<close>

lemma copied_outside:
  assumes "\<not> below dir k"
  shows "store_get (copy_prefix (artifacts_dir src) (artifacts_dir dir) (copy_prefix (bindings_dir src) (bindings_dir dir) s)) k = store_get s k"
proof -
  have "\<not> below (artifacts_dir dir) k" "\<not> below (bindings_dir dir) k"
    using assms below_parts by blast+
  then show ?thesis by (simp add: copy_prefix_other artifacts_dir_def bindings_dir_def)
qed

lemma copied_events:
  assumes "below (events_dir dir) k"
  shows "store_get (copy_prefix (artifacts_dir src) (artifacts_dir dir) (copy_prefix (bindings_dir src) (bindings_dir dir) s)) k = store_get s k"
proof -
  have "\<not> below (artifacts_dir dir) k" "\<not> below (bindings_dir dir) k"
    using assms by (auto simp: below_def artifacts_dir_def bindings_dir_def events_dir_def starts_with_iff)
  then show ?thesis by (simp add: copy_prefix_other artifacts_dir_def bindings_dir_def)
qed

lemma parts_apart: "below (artifacts_dir dir) k \<Longrightarrow> \<not> below (events_dir dir) k"
  by (auto simp: below_def artifacts_dir_def events_dir_def starts_with_iff)

lemma append_outside:
  assumes "append_events_to_conversation env dir c ses turn expected data r w = (Inr (added, r'), w')" and "\<not> below dir k"
  shows "store_get (lw_store w') k = store_get (lw_store w) k"
proof -
  obtain es where "lw_store w' = store_put (fst (batch_object env dir es)) (snd (batch_object env dir es)) (lw_store w)"
    using append_put_store [OF assms(1)] by blast
  moreover have "below dir (fst (batch_object env dir es))"
    using event_paths_below(1,2) [of dir "le_text env"] by (cases "length es = 1") (simp_all add: batch_object_def)
  ultimately show ?thesis using assms(2) by auto
qed

lemma copied_artifact:
  assumes ut: "uuid_text_ok (le_text env)" and ids: "i \<noteq> j" and unused: "\<And>k. below (fork_dir env h j) k \<Longrightarrow> store_get s k = None"
  defines "src \<equiv> fork_dir env h i" and "dir \<equiv> fork_dir env h j"
  shows "store_get (copy_prefix (artifacts_dir src) (artifacts_dir dir) (copy_prefix (bindings_dir src) (bindings_dir dir) s))
    (artifacts_dir dir @ ''/'' @ x) = store_get s (artifacts_dir src @ ''/'' @ x)"
proof -
  let ?s = "copy_prefix (bindings_dir src) (bindings_dir dir) s"
  have in_dir: "below d (artifacts_dir d)" "below d (artifacts_dir d @ ''/'' @ y)" for d y
    by (auto simp: below_def artifacts_dir_def starts_with_iff)
  have apart: "\<not> below src k" if "below dir k" for k using below_sibling [OF ut ids [symmetric]] that by (simp add: src_def dir_def)
  have "\<not> below (artifacts_dir src) (artifacts_dir dir)" "\<not> below (artifacts_dir dir) (artifacts_dir src)" "artifacts_dir src \<noteq> artifacts_dir dir"
    using apart in_dir(1) below_parts(2) by metis+
  from copy_prefix_get [OF this, of ?s "artifacts_dir dir @ ''/'' @ x"]
  have get: "store_get (copy_prefix (artifacts_dir src) (artifacts_dir dir) ?s) (artifacts_dir dir @ ''/'' @ x) =
      (case store_get ?s (artifacts_dir src @ ''/'' @ x) of None \<Rightarrow> store_get ?s (artifacts_dir dir @ ''/'' @ x) | Some y \<Rightarrow> Some y)"
    using strip_prefix_append [of "artifacts_dir dir @ ''/''" x] by (simp add: artifacts_dir_def)
  have "\<not> below (bindings_dir dir) (artifacts_dir src @ ''/'' @ x)"
    using apart in_dir(2) [of src] below_parts(3) by blast
  moreover have "\<not> below (bindings_dir dir) (artifacts_dir dir @ ''/'' @ x)"
    by (auto simp: below_def bindings_dir_def artifacts_dir_def starts_with_iff)
  ultimately show ?thesis
    using get unused [folded dir_def, OF in_dir(2)] by (simp add: copy_prefix_other bindings_dir_def split: option.split)
qed

lemma fork_into_log:
  assumes run: "fork_into env h up_to ref dir es r w = (Inr h', w')" and ut: "uuid_text_ok (le_text env)"
    and distinct: "distinct (map fst (lw_store w))" and unused: "\<And>k. below dir k \<Longrightarrow> store_get (lw_store w) k = None"
    and fresh: "ids_fresh env (2 * length es + 2) w []"
  shows "\<exists>copies forked. log_is env dir (lw_store w') (copies @ [forked]) \<and> map carried copies = map carried es \<and>
    ev_data forked = ThreadForked (cr_id (ch_record h)) up_to \<and> (\<forall>e \<in> set (copies @ [forked]). ev_thread_id e = cr_id r) \<and>
    ch_dir h' = dir \<and> cr_id (ch_record h') = cr_id r \<and> cr_slug (ch_record h') = cr_slug r \<and> distinct (map fst (lw_store w')) \<and>
    (\<forall>k. \<not> below dir k \<longrightarrow> store_get (lw_store w') k = store_get (lw_store w) k) \<and>
    (\<forall>k. below (artifacts_dir dir) k \<longrightarrow> store_get (lw_store w') k =
       store_get (copy_prefix (artifacts_dir (ch_dir h)) (artifacts_dir dir) (copy_prefix (bindings_dir (ch_dir h)) (bindings_dir dir) (lw_store w))) k)"
proof -
  define s where "s = copy_prefix (artifacts_dir (ch_dir h)) (artifacts_dir dir) (copy_prefix (bindings_dir (ch_dir h)) (bindings_dir dir) (lw_store w))"
  obtain latest w1 added w2 where steps: "fork_events env dir (cr_id r) es None (w\<lparr>lw_store := s\<rparr>) = (Inr latest, w1)"
    "append_events_to_conversation env dir (cr_id r) None None latest [ThreadForked (cr_id (ch_record h)) up_to]
       (r\<lparr>cr_latest_event_id := latest\<rparr>) w1 = (Inr (added, ch_record h'), w2)"
    "lw_store w' = store_put (record_path dir) (Stored_Record (ch_record h')) (lw_store w2)" "ch_dir h' = dir"
    using fork_into_run [OF run] unfolding s_def by metis
  have "log_is env dir s []"
  proof (rule empty_log [OF ut])
    show "distinct (map fst s)" unfolding s_def by (rule copy_prefix_distinct [OF copy_prefix_distinct [OF distinct]])
    show "store_get s k = None" if "below (events_dir dir) k" for k
      using copied_events [OF that, of "ch_dir h" "lw_store w"] unused [OF below_parts(1) [OF that]] by (simp add: s_def)
  qed
  then have "log_is env dir (lw_store (w\<lparr>lw_store := s\<rparr>)) []" by simp
  moreover have "ids_fresh env (2 * length es + 2) (w\<lparr>lw_store := s\<rparr>) []" using fresh by (simp add: ids_fresh_def)
  ultimately obtain copies where c: "log_is env dir (lw_store w1) copies" "ids_fresh env 2 w1 copies"
    "map carried copies = map carried es" "\<forall>e \<in> set copies. ev_thread_id e = cr_id r"
    "\<forall>k. \<not> below dir k \<longrightarrow> store_get (lw_store w1) k = store_get s k"
    "\<forall>k. below dir k \<longrightarrow> \<not> below (events_dir dir) k \<longrightarrow> store_get (lw_store w1) k = store_get s k"
    using fork_events_log [OF steps(1)] by fastforce
  obtain new where new: "log_is env dir (lw_store w2) (copies @ new)" "map ev_data new = [ThreadForked (cr_id (ch_record h)) up_to]"
    "\<forall>e \<in> set new. ev_thread_id e = cr_id r"
    using append_extends_log [OF steps(2) c(1,2)] by auto
  then obtain forked where f: "new = [forked]" "ev_data forked = ThreadForked (cr_id (ch_record h)) up_to" by (cases new) auto
  have d2: "distinct (map fst (lw_store w2))" using new(1) by (simp add: log_is_def log_ok_def)
  have d': "distinct (map fst (lw_store w'))" using distinct_store_put [OF d2] by (simp add: steps(3))
  have apart: "record_path dir \<noteq> k" if "below (events_dir dir) k \<or> below (artifacts_dir dir) k \<or> \<not> below dir k" for k
    using that by (auto simp: below_def events_dir_def artifacts_dir_def record_path_def starts_with_iff)
  have log: "log_is env dir (lw_store w') (copies @ [forked])"
    by (rule log_frame [OF new(1) [unfolded f(1)] _ d']) (use apart in \<open>auto simp: steps(3)\<close>)
  have outside: "store_get (lw_store w') k = store_get (lw_store w) k" if "\<not> below dir k" for k
    using that apart append_outside [OF steps(2) that] c(5) copied_outside [OF that, of "ch_dir h" "lw_store w"] by (auto simp: steps(3) s_def)
  have arts: "store_get (lw_store w') k = store_get s k" if "below (artifacts_dir dir) k" for k
    using that apart event_put_frame [OF steps(2) that] c(6) below_parts(2) [OF that] parts_apart [OF that] by (auto simp: steps(3))
  have rec: "cr_id (ch_record h') = cr_id r \<and> cr_slug (ch_record h') = cr_slug r" by (rule append_run [OF steps(2)]) simp
  show ?thesis
    using log c(3,4) new(3) f rec steps(4) d' outside arts unfolding s_def by (intro exI [of _ copies] exI [of _ forked]) simp
qed

text \<open>C36: a fork is a faithful copy. Its log holds the source's events up to the limit, in order, with the same
  sessions, turns and contents under the new thread, followed by one marker naming the source; its
  artifacts are the source's; its slug is new among the agent's conversations; and every stored object of the source
  (its record, events, artifacts and bindings) and every other object outside the fork's own directory is as it was, so
  that the source's log still reads the same. The new identifier must be unused and the generator increasing.\<close>

theorem fork_copies_conversation:
  assumes "fork env h up_to requested name ref w = (Inr h', w')"
    and "load_events env (ch_dir h) (lw_store w) = Inr es" and "log_ok env (ch_dir h) (lw_store w)"
    and "ch_dir h = fork_dir env h (cr_id (ch_record h))" and "cr_id (ch_record h) \<noteq> le_now env (lw_calls w)"
    and "\<forall>k. below (fork_dir env h (le_now env (lw_calls w))) k \<longrightarrow> store_get (lw_store w) k = None"
    and "ids_fresh env (2 * length es + 3) w []"
  shows "\<exists>copies forked. load_events env (ch_dir h') (lw_store w') = Inr (copies @ [forked]) \<and>
    map carried copies = map carried (filter (\<lambda>e. case up_to of None \<Rightarrow> True | Some l \<Rightarrow> ev_id e \<le> l) es) \<and>
    ev_data forked = ThreadForked (cr_id (ch_record h)) up_to \<and>
    (\<forall>e \<in> set (copies @ [forked]). ev_thread_id e = cr_id (ch_record h')) \<and>
    load_events env (ch_dir h) (lw_store w') = Inr es \<and>
    (\<forall>k. below (ch_dir h) k \<or> \<not> below (ch_dir h') k \<longrightarrow> store_get (lw_store w') k = store_get (lw_store w) k) \<and>
    (\<forall>x. store_get (lw_store w') (artifacts_dir (ch_dir h') @ ''/'' @ x) = store_get (lw_store w) (artifacts_dir (ch_dir h) @ ''/'' @ x)) \<and>
    (\<forall>listed. list_conversation_records env (ch_agent_dir h) None None (lw_store w) = Inr listed \<longrightarrow>
       cr_slug (ch_record h') \<notin> cr_slug ` set (lc_conversations listed))"
proof -
  let ?id = "le_now env (lw_calls w)"
  let ?dir = "fork_dir env h ?id" and ?es = "filter (\<lambda>e. case up_to of None \<Rightarrow> True | Some l \<Rightarrow> ev_id e \<le> l) es"
  have ut: "uuid_text_ok (le_text env)" and distinct: "distinct (map fst (lw_store w))" using assms(3) by (simp_all add: log_ok_def)
  have src: "log_is env (ch_dir h) (lw_store w) es" using load_events_ok [OF assms(3)] assms(2) by auto
  obtain listed r where r: "list_conversation_records env (ch_agent_dir h) None None (lw_store w) = Inr listed"
    "cr_slug r \<notin> cr_slug ` set (lc_conversations listed)" "cr_id r = ?id"
    "fork_into env h up_to ref ?dir ?es r (w\<lparr>lw_calls := Suc (lw_calls w)\<rparr>) = (Inr h', w')"
    by (rule fork_run [OF assms(1,2)])
  have fresh: "ids_fresh env (2 * length ?es + 2) (w\<lparr>lw_calls := Suc (lw_calls w)\<rparr>) []"
    by (rule ids_fresh_shift [OF assms(7)]) (simp add: less_Suc_eq_le)
  have unused: "store_get (lw_store w) k = None" if "below ?dir k" for k using assms(6) that by blast
  obtain copies forked where f: "log_is env ?dir (lw_store w') (copies @ [forked])" "map carried copies = map carried ?es"
    "ev_data forked = ThreadForked (cr_id (ch_record h)) up_to" "\<forall>e \<in> set (copies @ [forked]). ev_thread_id e = cr_id r"
    "ch_dir h' = ?dir" "cr_id (ch_record h') = cr_id r" "cr_slug (ch_record h') = cr_slug r" "distinct (map fst (lw_store w'))"
    "\<forall>k. \<not> below ?dir k \<longrightarrow> store_get (lw_store w') k = store_get (lw_store w) k"
    "\<forall>k. below (artifacts_dir ?dir) k \<longrightarrow> store_get (lw_store w') k =
       store_get (copy_prefix (artifacts_dir (ch_dir h)) (artifacts_dir ?dir) (copy_prefix (bindings_dir (ch_dir h)) (bindings_dir ?dir) (lw_store w))) k"
    using fork_into_log [OF r(4) ut _ _ fresh] distinct unused by auto
  have source: "store_get (lw_store w') k = store_get (lw_store w) k" if "below (ch_dir h) k \<or> \<not> below ?dir k" for k
    using that f(9) below_sibling [OF ut assms(5)] assms(4) by metis
  then have "log_is env (ch_dir h) (lw_store w') es"
    by (intro log_frame [OF src _ f(8)]) (blast intro: below_parts(1))
  moreover have "store_get (lw_store w') (artifacts_dir ?dir @ ''/'' @ x) = store_get (lw_store w) (artifacts_dir (ch_dir h) @ ''/'' @ x)" for x
    using f(10) copied_artifact [OF ut assms(5) unused] assms(4)
    by (simp add: below_def starts_with_iff)
  ultimately show ?thesis
    using f r load_events_log source by (intro exI [of _ copies] exI [of _ forked]) auto
qed

section \<open>A sample fork\<close>

definition fork_handle :: conversation_handle where
  "fork_handle = sample_handle\<lparr>ch_dir := ''a/conversations/1''\<rparr>"

definition fork_store :: "unit stored_object store" where
  "fork_store = store_put (event_path decimal_text ''a/conversations/1'' 7) (Stored_Event (sample_event 7 SessionStarted))
     [(''a/record.json'', Stored_Other ()), (''a/conversations/1/record.json'', Stored_Record sample_record)]"

definition fork_world :: "unit log_world" where
  "fork_world = sample_world\<lparr>lw_store := fork_store\<rparr>"

lemma fork_sample_simps [simp]:
  "ch_dir fork_handle = ''a/conversations/1''" "ch_agent_dir fork_handle = ''a''" "ch_record fork_handle = sample_record"
  "lw_store fork_world = fork_store" "lw_calls fork_world = 0"
  by (simp_all add: fork_handle_def fork_world_def sample_handle_def)

lemma show_one: "ut_show decimal_text 1 = ''1''" "ut_show decimal_text 100 = ''100''"
  by (simp_all add: decimal_text_def show_nat.simps digit_char_def)

lemma fork_store_get: "store_get fork_store k =
    (if k = event_path decimal_text ''a/conversations/1'' 7 then Some (Stored_Event (sample_event 7 SessionStarted))
     else if k = ''a/record.json'' then Some (Stored_Other ())
     else if k = ''a/conversations/1/record.json'' then Some (Stored_Record sample_record) else None)"
  by (simp add: fork_store_def) (simp add: store_get_def)

lemma fork_sample_log: "log_is sample_env ''a/conversations/1'' fork_store [sample_event 7 SessionStarted]"
proof -
  have "log_is sample_env ''a/conversations/1'' [(''a/record.json'', Stored_Other ()),
      (''a/conversations/1/record.json'', Stored_Record sample_record)] ([] :: unit event list)"
    by (simp add: log_is_def log_ok_def log_keys_def decimal_text_ok list_keys_def below_def events_dir_def starts_with_def)
  from log_append_object [OF this, of "event_path decimal_text ''a/conversations/1'' 7" "Stored_Event (sample_event 7 SessionStarted)"]
  show ?thesis by (simp add: object_ok_def object_events_def fork_store_def)
qed

lemma list_directories_form:
  assumes "d \<in> set (list_directories p s)" and "p \<noteq> []"
  shows "\<exists>seg. d = p @ ''/'' @ seg \<and> CHR ''/'' \<notin> set seg"
proof -
  obtain key rel where "strip_prefix (p @ ''/'') key = Some rel" "map_option (\<lambda>d. (p @ ''/'') @ d) (split_directory rel) = Some d"
    using assms by (auto simp: list_directories_def Let_def List.map_filter_def split: option.splits)
  then have "d = p @ ''/'' @ takeWhile (\<lambda>c. c \<noteq> CHR ''/'') rel" by (auto simp: split_directory_def split: if_splits)
  moreover have "CHR ''/'' \<notin> set (takeWhile (\<lambda>c. c \<noteq> CHR ''/'') rel)" by (auto dest: set_takeWhileD)
  ultimately show ?thesis by blast
qed

lemma listing_succeeds:
  assumes "\<And>d x. d \<in> set (list_directories (a @ ''/conversations'') s) \<Longrightarrow> store_get s (record_path d) = Some x \<Longrightarrow> \<exists>r. x = Stored_Record r"
  shows "\<exists>listed. list_conversation_records env a None None s = Inr listed"
proof -
  let ?read = "\<lambda>d. case store_get s (record_path d) of None \<Rightarrow> Inr None
      | Some x \<Rightarrow> and_then (decode_record x) (\<lambda>r. Inr (Some (r\<lparr>cr_latest_event_id := latest_committed_event_id env d s\<rparr>)))"
  have "\<exists>y. ?read d = Inr y" if "d \<in> set (list_directories (a @ ''/conversations'') s)" for d
    using assms [OF that] by (cases "store_get s (record_path d)") (auto simp: decode_record_def)
  then have "map_res ?read (list_directories (a @ ''/conversations'') s) = Inr (map (\<lambda>d. SOME y. ?read d = Inr y) (list_directories (a @ ''/conversations'') s))"
    by (intro map_res_Ok) (rule someI_ex)
  then show ?thesis by (simp add: list_conversation_records_def paginate_conversation_records_def)
qed

lemma fork_sample_listing: "\<exists>listed. list_conversation_records sample_env ''a'' None None fork_store = Inr listed"
proof (rule listing_succeeds)
  fix d x assume d: "d \<in> set (list_directories (''a'' @ ''/conversations'') fork_store)" and x: "store_get fork_store (record_path d) = Some x"
  obtain seg where seg: "d = ''a/conversations/'' @ seg" "CHR ''/'' \<notin> set seg" using list_directories_form [OF d] by auto
  have "record_path d \<noteq> event_path decimal_text ''a/conversations/1'' 7"
    using split_at_first [of seg "CHR ''/''" "''record''" "''1''"] seg by (auto simp: record_path_def event_path_def)
  then show "\<exists>r. x = Stored_Record r"
    using x seg(1) by (auto simp: fork_store_get record_path_def split: if_splits)
qed

lemma fork_slug_found: "\<exists>slug. fork_slug None existing = Inr slug"
  using slug_space [OF slug_loop_None, of "Suc (length existing)" "''fork''" existing 1]
  by (cases "derive_unique_slug ''fork'' existing") (auto simp: fork_slug_def derive_unique_slug_def)

lemma fork_sample_run: "\<exists>h' w'. fork sample_env fork_handle None None None 1 fork_world = (Inr h', w')"
proof -
  obtain listed where listed: "list_conversation_records sample_env ''a'' None None fork_store = Inr listed"
    using fork_sample_listing by blast
  obtain slug where slug: "fork_slug None (lc_conversations listed) = Inr slug" using fork_slug_found by blast
  have "store_get fork_store ''a/record.json'' = Some (Stored_Other ())"
    by (simp add: fork_store_get event_path_def)
  then show ?thesis
    using listed slug load_events_log [OF fork_sample_log]
    by (simp add: fork_def fork_into_def sample_run_simps ensure_conversation_head_def)
qed

lemma fork_sample_unused: "below (fork_dir sample_env fork_handle 100) k \<Longrightarrow> store_get fork_store k = None"
  by (auto simp: fork_store_get below_def fork_dir_def show_one starts_with_iff event_path_def split: if_splits)

lemma fork_sample_fresh: "ids_fresh sample_env 5 fork_world []"
  using sample_fresh [of 5] by (simp add: ids_fresh_def del: sample_env_simps)

theorem fork_copies_conversation_witness:
  "\<exists>h' w' copies forked. fork sample_env fork_handle None None None 1 fork_world = (Inr h', w') \<and>
     load_events sample_env (ch_dir h') (lw_store w') = Inr (copies @ [forked]) \<and>
     map carried copies = [(Some 2, None, SessionStarted)] \<and> ev_data forked = ThreadForked 1 None \<and>
     load_events sample_env ''a/conversations/1'' (lw_store w') = Inr [sample_event 7 SessionStarted]"
proof -
  obtain h' w' where run: "fork sample_env fork_handle None None None 1 fork_world = (Inr h', w')" using fork_sample_run by blast
  have "ch_dir fork_handle = fork_dir sample_env fork_handle (cr_id (ch_record fork_handle))" by (simp add: fork_dir_def show_one)
  from fork_copies_conversation [OF run, of "[sample_event 7 SessionStarted]", OF _ _ this]
    load_events_log [OF fork_sample_log] fork_sample_log fork_sample_unused fork_sample_fresh run
  show ?thesis by (fastforce simp: log_is_def carried_def sample_event_def)
qed

end
