(* ===== verification/Permissions.thy ===== *)
theory Permissions
  imports Event_Turns
begin

text \<open>
  Tool permissions: the policies of an agent (\<^verbatim>\<open>crates/managed-agents/src/permissions.rs\<close>) and the approvals
  of tool calls kept in the event log (\<^verbatim>\<open>crates/executor/src/permissions.rs\<close>). The thread and turn handles are
  those of the event log. A JSON payload is what it decodes to; a request does not decode as a response nor
  a response as a request, because each lacks a required field of the other. Waiting on the event stream is
  split from the rest: \<open>authorize\<close> returns the decision or the approval it waits for, and \<open>await_approval\<close>
  consumes the stream.
\<close>

section \<open>Policies\<close>

datatype permission_policy = AlwaysAllow | AlwaysAsk

record tool_permissions =
  tp_permission_policy :: "permission_policy option"
  tp_tool_policies :: "string \<rightharpoonup> permission_policy"

record permission_policies =
  pp_permission_policy :: permission_policy
  pp_tool_policies :: "(string \<times> permission_policy) list"
  pp_mcp_servers :: "string \<rightharpoonup> tool_permissions"

record mcp_tool =
  mt_name :: string
  mt_server_name :: string
  mt_tool_name :: string

definition or_else :: "'a option \<Rightarrow> 'a option \<Rightarrow> 'a option" where
  "or_else x y = (case x of None \<Rightarrow> y | Some _ \<Rightarrow> x)"

definition for_mcp_tool :: "permission_policies \<Rightarrow> mcp_tool \<Rightarrow> permission_policy" where
  "for_mcp_tool p tool =
     (let server = pp_mcp_servers p (mt_server_name tool)
      in case or_else (map_of (pp_tool_policies p) (mt_name tool))
           (or_else (Option.bind server (\<lambda>s. tp_tool_policies s (mt_tool_name tool)))
             (Option.bind server tp_permission_policy)) of
           Some policy \<Rightarrow> policy
         | None \<Rightarrow> AlwaysAsk)"

definition for_tool :: "permission_policies \<Rightarrow> string \<Rightarrow> permission_policy" where
  "for_tool p name = (case map_of (pp_tool_policies p) name of Some policy \<Rightarrow> policy | None \<Rightarrow> pp_permission_policy p)"

text \<open>The keys of the policy table are visited in order; the first unknown one is reported.\<close>

definition validate_tool_names :: "permission_policies \<Rightarrow> string list \<Rightarrow> unit result" where
  "validate_tool_names p names =
     (case List.find (\<lambda>name. name \<notin> set names) (sort (map fst (pp_tool_policies p))) of
        None \<Rightarrow> Ok ()
      | Some name \<Rightarrow> bail (''unknown tool in tool_policies: '' @ name))"

section \<open>Approvals\<close>

definition APPROVAL_REQUESTED :: string where
  "APPROVAL_REQUESTED = ''agent_runtime.approval_requested''"

definition APPROVAL_RESPONSE :: string where
  "APPROVAL_RESPONSE = ''agent_runtime.approval_response''"

record tool_request =
  tr_function_name :: string
  tr_arguments :: string
  tr_namespace :: "string option"

record approval_request =
  aq_approval_id :: string
  aq_tool_call_id :: "string option"
  aq_round :: "u32 option"
  aq_request :: tool_request

record approval_response =
  as_approval_id :: string
  as_approved :: bool
  as_allowed_tool_name :: "string option"

record approval_response_body =
  rb_approval_id :: string
  rb_approved :: bool
  rb_allow_for_tool :: bool

datatype json_payload =
    Request_Json approval_request
  | Response_Json approval_response
  | Other_Json string

fun request_from_value :: "json_payload \<Rightarrow> approval_request result" where
  "request_from_value (Request_Json r) = Ok r"
| "request_from_value _ = bail ''invalid approval request''"

fun response_from_value :: "json_payload \<Rightarrow> approval_response result" where
  "response_from_value (Response_Json r) = Ok r"
| "response_from_value _ = bail ''invalid approval response''"

definition empty_query :: event_query where
  "empty_query = \<lparr> eq_cursor = None, eq_direction = None, eq_limit = None, eq_session_id = None, eq_turn_id = None, eq_types = None \<rparr>"

text \<open>The paging loop of \<open>approval_events\<close>. A page beyond the log's events is empty, so one more step than
  there are events is enough fuel.\<close>

fun approval_pages :: "nat \<Rightarrow> log_env \<Rightarrow> conversation_handle \<Rightarrow> event_query \<Rightarrow> 'p event list
    \<Rightarrow> ('p log_world, 'p event list) io" where
  "approval_pages 0 env h q events = io_fail (Panic ''out of fuel'')"
| "approval_pages (Suc n) env h q events =
     io_bind (get_events env h (Some q)) (\<lambda>page.
     case ge_cursor page of
       Some cursor \<Rightarrow> approval_pages n env h (q\<lparr>eq_cursor := Some cursor\<rparr>) (events @ ge_events page)
     | None \<Rightarrow> io_return (events @ ge_events page))"

definition approval_query :: "event_query \<Rightarrow> event_query" where
  "approval_query q = q\<lparr>eq_direction := Some Asc, eq_types := Some [APPROVAL_REQUESTED, APPROVAL_RESPONSE, ''turn_ended''],
     eq_limit := Some 100\<rparr>"

definition log_size :: "log_env \<Rightarrow> conversation_handle \<Rightarrow> 'p log_world \<Rightarrow> nat" where
  "log_size env h w = (case load_events env (ch_dir h) (lw_store w) of Inr es \<Rightarrow> length es | Inl _ \<Rightarrow> 0)"

definition approval_events :: "log_env \<Rightarrow> conversation_handle \<Rightarrow> event_query \<Rightarrow> ('p log_world, 'p event list) io" where
  "approval_events env h q =
     io_bind (io_read (log_size env h)) (\<lambda>n. approval_pages (Suc (Suc n)) env h (approval_query q) [])"

text \<open>The pending requests, by identifier. A turn's end leaves none.\<close>

fun pending_loop :: "json_payload event list \<Rightarrow> (string \<times> approval_request) list \<Rightarrow> approval_request list result" where
  "pending_loop [] pending = Ok (map snd (sort_key fst pending))"
| "pending_loop (e # es) pending =
     (case ev_data e of
        Custom event_type payload \<Rightarrow>
          if event_type = APPROVAL_REQUESTED then
            and_then (request_from_value payload) (\<lambda>r. pending_loop es (AList.update (aq_approval_id r) r pending))
          else if event_type = APPROVAL_RESPONSE then
            and_then (response_from_value payload) (\<lambda>r. pending_loop es (AList.delete (as_approval_id r) pending))
          else pending_loop es pending
      | TurnEnded \<Rightarrow> Ok []
      | _ \<Rightarrow> pending_loop es pending)"

definition pending_from_events :: "json_payload event list \<Rightarrow> approval_request list result" where
  "pending_from_events es = pending_loop es []"

definition turn_query :: "turn_record \<Rightarrow> event_query" where
  "turn_query turn = empty_query\<lparr>eq_turn_id := Some (tn_id turn), eq_session_id := Some (tn_session_id turn)\<rparr>"

definition pending :: "log_env \<Rightarrow> conversation_handle \<Rightarrow> turn_record \<Rightarrow> (json_payload log_world, approval_request list) io" where
  "pending env h turn =
     io_bind (approval_events env h (turn_query turn)) (\<lambda>es. io_lift (pending_from_events es))"

definition respond :: "log_env \<Rightarrow> conversation_handle \<Rightarrow> turn_record \<Rightarrow> approval_response_body
    \<Rightarrow> (json_payload log_world, uuid) io" where
  "respond env h turn body =
     io_bind (io_lift (ensure (\<not> rb_allow_for_tool body \<or> rb_approved body) ''a denied request cannot allow future calls'')) (\<lambda>_.
     io_bind (pending env h turn) (\<lambda>requests.
     io_bind (io_lift (ok_or (List.find (\<lambda>r. aq_approval_id r = rb_approval_id body) requests)
        ''approval is not pending for this session and turn'')) (\<lambda>request.
     io_bind (turn_handle env h turn) (\<lambda>t.
     io_bind (turn_add_events env t [Custom APPROVAL_RESPONSE (Response_Json \<lparr> as_approval_id = rb_approval_id body,
        as_approved = rb_approved body,
        as_allowed_tool_name = (if rb_allow_for_tool body then Some (tr_function_name (aq_request request)) else None) \<rparr>)]) (\<lambda>(added, _).
     io_return (ae_latest_event_id added))))))"

text \<open>The saved approval of a tool call, with its answer.\<close>

fun scan_turn :: "string option \<Rightarrow> u32 option \<Rightarrow> tool_request \<Rightarrow> json_payload event list
    \<Rightarrow> (approval_request \<times> approval_response option) option \<Rightarrow> (approval_request \<times> approval_response option) option result" where
  "scan_turn call_id round request [] existing = Ok existing"
| "scan_turn call_id round request (e # es) existing =
     (case ev_data e of
        Custom event_type payload \<Rightarrow>
          if event_type = APPROVAL_REQUESTED then
            and_then (request_from_value payload) (\<lambda>approval.
              if call_id \<noteq> None \<and> aq_tool_call_id approval = call_id \<and> aq_round approval = round then
                and_then (ensure (aq_request approval = request) ''saved approval has a different tool request'') (\<lambda>_.
                  scan_turn call_id round request es (Some (approval, None)))
              else scan_turn call_id round request es existing)
          else if event_type = APPROVAL_RESPONSE then
            and_then (response_from_value payload) (\<lambda>response.
              scan_turn call_id round request es
                (case existing of
                   Some (approval, answer) \<Rightarrow>
                     if as_approval_id response = aq_approval_id approval then Some (approval, Some response) else existing
                 | None \<Rightarrow> None))
          else scan_turn call_id round request es existing
      | _ \<Rightarrow> scan_turn call_id round request es existing)"

text \<open>Whether an earlier answer of the session allows the tool.\<close>

fun scan_session :: "tool_request \<Rightarrow> json_payload event list \<Rightarrow> bool result" where
  "scan_session request [] = Ok False"
| "scan_session request (e # es) =
     (case ev_data e of
        Custom event_type payload \<Rightarrow>
          if event_type = APPROVAL_RESPONSE then
            and_then (response_from_value payload) (\<lambda>response.
              if as_approved response \<and> as_allowed_tool_name response = Some (tr_function_name request) then Ok True
              else scan_session request es)
          else scan_session request es
      | _ \<Rightarrow> scan_session request es)"

datatype authorization =
    Allowed
  | Waiting approval_request turn_handle_state "json_payload event list"

definition denied :: "tool_request \<Rightarrow> string" where
  "denied request = ''tool call denied by the user: '' @ tr_function_name request"

text \<open>The part of \<open>authorize\<close> that asks: a new request, or the saved one, and the stream to wait on.\<close>

definition ask_approval :: "log_env \<Rightarrow> conversation_handle \<Rightarrow> turn_handle_state \<Rightarrow> string option \<Rightarrow> u32 option \<Rightarrow> tool_request
    \<Rightarrow> json_payload event list \<Rightarrow> approval_request option \<Rightarrow> (json_payload log_world, authorization) io" where
  "ask_approval env h t call_id round request turn_events saved =
     io_bind (case saved of
        Some approval \<Rightarrow>
          io_bind (io_lift (ok_or (if turn_events = [] then None else Some (ev_id (last turn_events))) ''saved approval has no event''))
            (\<lambda>after. io_return (approval, after, t))
      | None \<Rightarrow>
          io_bind (uuid_now env) (\<lambda>fresh.
          let approval = \<lparr> aq_approval_id = ut_show (le_text env) fresh, aq_tool_call_id = call_id, aq_round = round,
                aq_request = request \<rparr> in
          io_bind (turn_add_events env t [Custom APPROVAL_REQUESTED (Request_Json approval)]) (\<lambda>(added, t').
          io_return (approval, ae_latest_event_id added, t')))) (\<lambda>(approval, after, t').
     io_bind (watch_events env h (Excluded after)) (\<lambda>events. io_return (Waiting approval t' events)))"

text \<open>The part of \<open>authorize\<close> after the turn's events are scanned.\<close>

definition authorize_existing :: "log_env \<Rightarrow> conversation_handle \<Rightarrow> turn_handle_state \<Rightarrow> string option \<Rightarrow> u32 option \<Rightarrow> tool_request
    \<Rightarrow> json_payload event list \<Rightarrow> (approval_request \<times> approval_response option) option \<Rightarrow> (json_payload log_world, authorization) io" where
  "authorize_existing env h t call_id round request turn_events existing =
     (case existing of
        Some (approval, Some response) \<Rightarrow>
          io_bind (io_lift (ensure (as_approved response) (denied request))) (\<lambda>_. io_return Allowed)
      | Some (approval, None) \<Rightarrow> ask_approval env h t call_id round request turn_events (Some approval)
      | None \<Rightarrow>
          io_bind (approval_events env h (empty_query\<lparr>eq_session_id := Some (tn_session_id (hs_turn t))\<rparr>)) (\<lambda>session_events.
          io_bind (io_lift (scan_session request session_events)) (\<lambda>allowed.
          if allowed then io_return Allowed
          else ask_approval env h t call_id round request turn_events None)))"

definition authorize :: "log_env \<Rightarrow> conversation_handle \<Rightarrow> turn_handle_state \<Rightarrow> permission_policy \<Rightarrow> string option \<Rightarrow> u32 option
    \<Rightarrow> bool \<Rightarrow> tool_request \<Rightarrow> (json_payload log_world, authorization) io" where
  "authorize env h t policy call_id round resuming request =
     (if \<not> resuming \<and> policy = AlwaysAllow then io_return Allowed
      else
        io_bind (if resuming then approval_events env h (turn_query (hs_turn t)) else io_return []) (\<lambda>turn_events.
        io_bind (io_lift (scan_turn call_id round request turn_events None)) (\<lambda>existing.
        io_bind (io_lift (ensure (\<not> resuming \<or> existing \<noteq> None) ''cannot safely resume tool call without its pending approval'')) (\<lambda>_.
        authorize_existing env h t call_id round request turn_events existing))))"

text \<open>Consuming the stream. \<open>None\<close>: no event so far decides.\<close>

fun await_approval :: "turn_record \<Rightarrow> approval_request \<Rightarrow> tool_request \<Rightarrow> json_payload event list \<Rightarrow> unit result option" where
  "await_approval turn approval request [] = None"
| "await_approval turn approval request (e # es) =
     (if ev_turn_id e \<noteq> Some (tn_id turn) \<or> ev_session_id e \<noteq> Some (tn_session_id turn)
      then await_approval turn approval request es
      else
        (case ev_data e of
           Custom event_type payload \<Rightarrow>
             if event_type = APPROVAL_RESPONSE then
               (case response_from_value payload of
                  Inl err \<Rightarrow> Some (Inl err)
                | Inr response \<Rightarrow>
                    if as_approval_id response = aq_approval_id approval
                    then Some (ensure (as_approved response) (denied request))
                    else await_approval turn approval request es)
             else await_approval turn approval request es
         | TurnEnded \<Rightarrow> Some (bail ''turn ended while waiting for tool approval'')
         | _ \<Rightarrow> await_approval turn approval request es))"

text \<open>The decision once the stream is closed.\<close>

definition closed_approval :: "turn_record \<Rightarrow> approval_request \<Rightarrow> tool_request \<Rightarrow> json_payload event list \<Rightarrow> unit result" where
  "closed_approval turn approval request es =
     (case await_approval turn approval request es of
        Some decision \<Rightarrow> decision
      | None \<Rightarrow> bail ''event stream closed while waiting for tool approval'')"

text \<open>The submitter of a turn.\<close>

definition turn_caller :: "log_env \<Rightarrow> conversation_handle \<Rightarrow> uuid \<Rightarrow> ('p log_world, string option) io" where
  "turn_caller env h turn =
     io_bind (get_events env h (Some (empty_query\<lparr>eq_turn_id := Some turn, eq_types := Some [''turn_started''], eq_limit := Some 1\<rparr>))) (\<lambda>page.
     io_return (case List.map_filter (\<lambda>e. case ev_data e of TurnStarted user \<Rightarrow> user | _ \<Rightarrow> None) (ge_events page) of
        [] \<Rightarrow> None | user # _ \<Rightarrow> Some user))"

section \<open>Reading approvals\<close>

lemma get_events_run:
  assumes "load_events env (ch_dir h) (lw_store w) = Inr es" and "le_check env (cr_id (ch_record h)) = Inr ()"
  shows "get_events env h q w = (Inr (select_events q es), w)"
  using assms by (simp add: get_events_def io_bind_def io_lift_def io_read_def io_return_def)

lemma approval_pages_complete:
  assumes load: "load_events env (ch_dir h) (lw_store w) = Inr es" and access: "le_check env (cr_id (ch_record h)) = Inr ()"
    and sorted: "sorted_wrt (\<lambda>a b. ev_id a < ev_id b) es" and "eq_limit q = Some n" "n \<noteq> 0"
    and "length (after_cursor q (query_matches q es)) < fuel"
  shows "approval_pages fuel env h q acc w = (Inr (acc @ after_cursor q (query_matches q es)), w)"
  using assms(4-)
proof (induction fuel arbitrary: q acc)
  case (Suc fuel)
  let ?D = "after_cursor q (query_matches q es)" and ?r = "select_events (Some q) es"
  note step = page_step [OF sorted Suc.prems(1,2)] and run = get_events_run [OF load access, of "Some q"]
  show ?case
  proof (cases "?D = []")
    case True
    then show ?thesis using step(1,2) run by (simp add: io_bind_def io_return_def)
  next
    case False
    obtain c where c: "ge_cursor ?r = Some c" using step(3) [OF False] by blast
    have "approval_pages fuel env h (q\<lparr>eq_cursor := Some c\<rparr>) (acc @ ge_events ?r) w = (Inr ((acc @ ge_events ?r) @ drop (unat n) ?D), w)"
      using Suc.IH [of "q\<lparr>eq_cursor := Some c\<rparr>"] Suc.prems step(4,5) [OF False] c by simp
    then show ?thesis using run c append_take_drop_id [of "unat n" ?D] by (simp add: io_bind_def step(1))
  qed
qed simp

text \<open>The events the approval code reads: all of its kinds, in order.\<close>

definition approval_kind :: "'p event \<Rightarrow> bool" where
  "approval_kind e \<longleftrightarrow> (\<exists>k \<in> {APPROVAL_REQUESTED, APPROVAL_RESPONSE, ''turn_ended''}. kind_matches k (event_kind (ev_data e)))"

definition approvals_of :: "event_query \<Rightarrow> 'p event list \<Rightarrow> 'p event list" where
  "approvals_of q es = filter (\<lambda>e. approval_kind e \<and> (\<forall>t. eq_turn_id q = Some t \<longrightarrow> ev_turn_id e = Some t) \<and>
     (\<forall>s. eq_session_id q = Some s \<longrightarrow> ev_session_id e = Some s)) es"

lemma approval_selection:
  assumes "eq_cursor q = None"
  shows "after_cursor (approval_query q) (query_matches (approval_query q) es) = approvals_of q es"
  using assms
  by (cases "eq_turn_id q"; cases "eq_session_id q")
     (auto simp: after_cursor_def query_matches_def approval_query_def retain_opt_def approvals_of_def approval_kind_def intro!: filter_cong)

lemma approval_events_run:
  assumes "log_is env (ch_dir h) (lw_store w) es" and "le_check env (cr_id (ch_record h)) = Inr ()" and "eq_cursor q = None"
  shows "approval_events env h q w = (Inr (approvals_of q es), w)"
proof -
  have load: "load_events env (ch_dir h) (lw_store w) = Inr es" by (rule load_events_log [OF assms(1)])
  have sorted: "sorted_wrt (\<lambda>a b. ev_id a < ev_id b) es" using assms(1) by (simp add: log_is_def)
  have "length (after_cursor (approval_query q) (query_matches (approval_query q) es)) < Suc (Suc (length es))"
    using selection_length [of "approval_query q" es] by simp
  moreover have "eq_limit (approval_query q) = Some 100" "(100 :: u32) \<noteq> 0" by (simp_all add: approval_query_def)
  ultimately have "approval_pages (Suc (Suc (length es))) env h (approval_query q) [] w = (Inr ([] @ approvals_of q es), w)"
    using approval_pages_complete [OF load assms(2) sorted] approval_selection [OF assms(3), of es] by metis
  then show ?thesis by (simp add: approval_events_def io_bind_def io_read_def log_size_def load del: approval_pages.simps)
qed

lemma approval_events_access:
  "approval_events env h q w = (Inr r, w') \<Longrightarrow> le_check env (cr_id (ch_record h)) = Inr ()"
  by (cases "le_check env (cr_id (ch_record h))")
     (auto simp: approval_events_def io_bind_def io_read_def get_events_def io_lift_def)

lemma approvals_of_mem: "e \<in> set (approvals_of q es) \<Longrightarrow> e \<in> set es"
  by (simp add: approvals_of_def)

section \<open>Soundness of the gate\<close>

definition response_event :: "approval_response \<Rightarrow> json_payload event \<Rightarrow> bool" where
  "response_event r e \<longleftrightarrow> ev_data e = Custom APPROVAL_RESPONSE (Response_Json r)"

definition request_event :: "approval_request \<Rightarrow> json_payload event \<Rightarrow> bool" where
  "request_event a e \<longleftrightarrow> ev_data e = Custom APPROVAL_REQUESTED (Request_Json a)"

lemma kinds_differ [simp]: "APPROVAL_REQUESTED \<noteq> APPROVAL_RESPONSE" "APPROVAL_RESPONSE \<noteq> APPROVAL_REQUESTED"
  by (simp_all add: APPROVAL_REQUESTED_def APPROVAL_RESPONSE_def)

lemma request_from_value_iff [simp]: "request_from_value p = Inr r \<longleftrightarrow> p = Request_Json r"
  by (cases p) auto

lemma response_from_value_iff [simp]: "response_from_value p = Inr r \<longleftrightarrow> p = Response_Json r"
  by (cases p) auto

lemma scan_session_sound:
  "scan_session request es = Inr True \<Longrightarrow>
     \<exists>e \<in> set es. \<exists>r. response_event r e \<and> as_approved r \<and> as_allowed_tool_name r = Some (tr_function_name request)"
  by (induction es) (auto simp: response_event_def and_then_Inr_iff split: event_data.splits if_splits)

text \<open>A saved approval found by the scan is recorded for this very call, and so is its answer.\<close>

definition saved_ok :: "string option \<Rightarrow> u32 option \<Rightarrow> tool_request \<Rightarrow> json_payload event list
    \<Rightarrow> (approval_request \<times> approval_response option) option \<Rightarrow> bool" where
  "saved_ok call_id round request es existing \<longleftrightarrow>
     (\<forall>a answer. existing = Some (a, answer) \<longrightarrow>
        (\<exists>e \<in> set es. request_event a e) \<and> aq_request a = request \<and> aq_tool_call_id a = call_id \<and> aq_round a = round \<and>
        (\<forall>r. answer = Some r \<longrightarrow> as_approval_id r = aq_approval_id a \<and> (\<exists>e \<in> set es. response_event r e)))"

lemma scan_turn_sound:
  assumes "scan_turn call_id round request es existing = Inr found" and "set es \<subseteq> set all" and "saved_ok call_id round request all existing"
  shows "saved_ok call_id round request all found"
  using assms
proof (induction es arbitrary: existing)
  case (Cons e es)
  show ?case
  proof (cases "\<exists>event_type payload. ev_data e = Custom event_type payload \<and> event_type \<in> {APPROVAL_REQUESTED, APPROVAL_RESPONSE}")
    case False
    then have "scan_turn call_id round request es existing = Inr found"
      using Cons.prems(1) by (auto split: event_data.splits)
    then show ?thesis using Cons by simp
  next
    case True
    then obtain event_type payload where d: "ev_data e = Custom event_type payload" "event_type \<in> {APPROVAL_REQUESTED, APPROVAL_RESPONSE}"
      by blast
    obtain upd where step: "scan_turn call_id round request es upd = Inr found" "saved_ok call_id round request all upd"
    proof (cases "event_type = APPROVAL_REQUESTED")
      case True
      then obtain a where a: "payload = Request_Json a" using Cons.prems(1) d by (auto simp: and_then_Inr_iff)
      have e: "e \<in> set all" "request_event a e" using Cons.prems(2) d a True by (simp_all add: request_event_def)
      then have "saved_ok call_id round request all (Some (a, None))" if "aq_request a = request" "aq_tool_call_id a = call_id" "aq_round a = round"
        using that by (auto simp: saved_ok_def)
      then show thesis
        using that Cons.prems(1,3) d a True by (auto simp: and_then_Inr_iff ensure_Inr_iff split: if_splits)
    next
      case False
      then have resp: "event_type = APPROVAL_RESPONSE" using d(2) by simp
      then obtain r where r: "payload = Response_Json r" using Cons.prems(1) d by (auto simp: and_then_Inr_iff)
      have e: "e \<in> set all" "response_event r e" using Cons.prems(2) d r resp by (simp_all add: response_event_def)
      have "saved_ok call_id round request all (case existing of
                   Some (approval, answer) \<Rightarrow> if as_approval_id r = aq_approval_id approval then Some (approval, Some r) else existing
                 | None \<Rightarrow> None)"
        using Cons.prems(3) e by (cases existing) (auto simp: saved_ok_def split: if_splits)
      then show thesis using that Cons.prems(1) d r resp by (simp add: and_then_Inr_iff)
    qed
    show ?thesis by (rule Cons.IH [OF step(1) _ step(2)]) (use Cons.prems(2) in simp)
  qed
qed simp

lemma ask_approval_waits: "ask_approval env h t call_id round request turn_events saved w \<noteq> (Inr Allowed, w')"
  by (auto simp: ask_approval_def io_bind_Inr_iff io_return_def)

lemma approval_reads:
  assumes "log_is env (ch_dir h) (lw_store w) es" and "approval_events env h q w = (Inr xs, w')" and "eq_cursor q = None"
  shows "xs = approvals_of q es \<and> w' = w"
  using approval_events_run [OF assms(1) approval_events_access [OF assms(2)] assms(3)] assms(2) by simp

text \<open>The steps of an authorization that is not allowed outright.\<close>

lemma authorize_run:
  assumes "authorize env h t policy call_id round resuming request w = (Inr r, w')" and "resuming \<or> policy \<noteq> AlwaysAllow"
    and log: "log_is env (ch_dir h) (lw_store w) es"
  obtains existing where
    "scan_turn call_id round request (if resuming then approvals_of (turn_query (hs_turn t)) es else []) None = Inr existing"
    "\<not> resuming \<or> existing \<noteq> None"
    "authorize_existing env h t call_id round request (if resuming then approvals_of (turn_query (hs_turn t)) es else []) existing w = (Inr r, w')"
proof -
  have asks: "\<not> (\<not> resuming \<and> policy = AlwaysAllow)" using assms(2) by blast
  have q: "eq_cursor (turn_query (hs_turn t)) = None" by (simp add: turn_query_def empty_query_def)
  obtain turn_events w1 where r: "(if resuming then approval_events env h (turn_query (hs_turn t)) else io_return []) w = (Inr turn_events, w1)"
    "io_bind (io_lift (scan_turn call_id round request turn_events None)) (\<lambda>existing.
        io_bind (io_lift (ensure (\<not> resuming \<or> existing \<noteq> None) ''cannot safely resume tool call without its pending approval'')) (\<lambda>_.
        authorize_existing env h t call_id round request turn_events existing)) w1 = (Inr r, w')"
    using assms(1) unfolding authorize_def if_not_P [OF asks] by (subst (asm) io_bind_Inr_iff) blast
  have "turn_events = (if resuming then approvals_of (turn_query (hs_turn t)) es else []) \<and> w1 = w"
    using r(1) approval_reads [OF log _ q] by (auto simp: io_return_def split: if_splits)
  then show thesis using r(2) that by (auto simp: io_bind_Inr_iff io_lift_def ensure_Inr_iff)
qed

lemma authorize_existing_allowed:
  assumes "authorize_existing env h t call_id round request turn_events existing w = (Inr Allowed, w')"
    and log: "log_is env (ch_dir h) (lw_store w) es"
  shows "w' = w \<and> ((\<exists>a r. existing = Some (a, Some r) \<and> as_approved r) \<or>
    scan_session request (approvals_of (empty_query\<lparr>eq_session_id := Some (tn_session_id (hs_turn t))\<rparr>) es) = Inr True)"
proof (cases existing)
  case None
  obtain xs w1 allowed where r: "approval_events env h (empty_query\<lparr>eq_session_id := Some (tn_session_id (hs_turn t))\<rparr>) w = (Inr xs, w1)"
    "scan_session request xs = Inr allowed"
    "(if allowed then io_return Allowed else ask_approval env h t call_id round request turn_events None) w1 = (Inr Allowed, w')"
    using assms(1) None by (auto simp: authorize_existing_def io_bind_Inr_iff io_lift_def)
  then have "allowed" "w' = w1" using ask_approval_waits by (auto simp: io_return_def split: if_splits)
  then show ?thesis using r approval_reads [OF log r(1)] by (simp add: empty_query_def)
next
  case (Some p)
  then show ?thesis
    using assms(1) ask_approval_waits
    by (cases p; cases "snd p") (auto simp: authorize_existing_def io_bind_Inr_iff io_lift_def io_return_def ensure_Inr_iff)
qed

text \<open>C39: a tool call passes without asking only on record. If \<open>authorize\<close> allows a call at once, then either the
  policy allows it outright and the call is not being resumed, or the log holds an approving answer of this
  session that allows the tool by name or answers the very request saved for this call; and nothing was
  written.\<close>

theorem tool_call_allowed_only_on_record:
  assumes "authorize env h t policy call_id round resuming request w = (Inr Allowed, w')"
    and "load_events env (ch_dir h) (lw_store w) = Inr es" and "log_ok env (ch_dir h) (lw_store w)"
  shows "w' = w \<and> (\<not> resuming \<and> policy = AlwaysAllow \<or>
    (\<exists>e \<in> set es. \<exists>r. response_event r e \<and> as_approved r \<and> ev_session_id e = Some (tn_session_id (hs_turn t)) \<and>
       (as_allowed_tool_name r = Some (tr_function_name request) \<or>
        ev_turn_id e = Some (tn_id (hs_turn t)) \<and>
        (\<exists>e' \<in> set es. \<exists>a. request_event a e' \<and> aq_approval_id a = as_approval_id r \<and> aq_request a = request \<and>
           aq_tool_call_id a = call_id \<and> aq_round a = round))))"
proof (cases "\<not> resuming \<and> policy = AlwaysAllow")
  case True
  then show ?thesis using assms(1) by (simp add: authorize_def io_return_def)
next
  case ask: False
  have log: "log_is env (ch_dir h) (lw_store w) es" using load_events_ok [OF assms(3)] assms(2) by auto
  let ?sq = "empty_query\<lparr>eq_session_id := Some (tn_session_id (hs_turn t))\<rparr>"
  define turn_events where "turn_events = (if resuming then approvals_of (turn_query (hs_turn t)) es else [])"
  obtain existing where e: "scan_turn call_id round request turn_events None = Inr existing"
    "authorize_existing env h t call_id round request turn_events existing w = (Inr Allowed, w')"
    using authorize_run [OF assms(1) _ log] ask unfolding turn_events_def by blast
  have saved: "saved_ok call_id round request turn_events existing"
    by (rule scan_turn_sound [OF e(1) order_refl]) (simp add: saved_ok_def)
  consider (answered) a r where "existing = Some (a, Some r)" "as_approved r" "w' = w"
    | (listed) "scan_session request (approvals_of ?sq es) = Inr True" "w' = w"
    using authorize_existing_allowed [OF e(2) log] by blast
  then show ?thesis
  proof cases
    case answered
    then obtain e' x where "e' \<in> set turn_events" "response_event r e'" "x \<in> set turn_events" "request_event a x"
      "as_approval_id r = aq_approval_id a" "aq_request a = request" "aq_tool_call_id a = call_id" "aq_round a = round"
      using saved by (auto simp: saved_ok_def)
    moreover have "e \<in> set es \<and> ev_session_id e = Some (tn_session_id (hs_turn t)) \<and> ev_turn_id e = Some (tn_id (hs_turn t))"
      if "e \<in> set turn_events" for e
      using that by (auto simp: turn_events_def approvals_of_def turn_query_def empty_query_def split: if_splits)
    ultimately show ?thesis using answered(2,3) by (metis (no_types, lifting))
  next
    case listed
    then obtain e' r where "e' \<in> set (approvals_of ?sq es)" "response_event r e'" "as_approved r"
      "as_allowed_tool_name r = Some (tr_function_name request)"
      using scan_session_sound by blast
    moreover from this(1) have "e' \<in> set es" "ev_session_id e' = Some (tn_session_id (hs_turn t))"
      by (simp_all add: approvals_of_def empty_query_def)
    ultimately show ?thesis using listed(2) by blast
  qed
qed

section \<open>Waiting for an answer\<close>

definition undecided :: "turn_record \<Rightarrow> json_payload event \<Rightarrow> bool" where
  "undecided turn e \<longleftrightarrow> \<not> (ev_turn_id e = Some (tn_id turn) \<and> ev_session_id e = Some (tn_session_id turn) \<and>
     ((\<exists>payload. ev_data e = Custom APPROVAL_RESPONSE payload) \<or> ev_data e = TurnEnded))"

lemma await_skip: "(\<forall>e \<in> set xs. undecided turn e) \<Longrightarrow> await_approval turn a request (xs @ ys) = await_approval turn a request ys"
  by (induction xs) (auto simp: undecided_def split: event_data.splits)

lemma await_response:
  assumes "response_event r e" and "ev_turn_id e = Some (tn_id turn)" and "ev_session_id e = Some (tn_session_id turn)"
    and "as_approval_id r = aq_approval_id a"
  shows "await_approval turn a request (e # es) = Some (ensure (as_approved r) (denied request))"
  using assms by (simp add: response_event_def)

lemma turn_query_simps [simp]:
  "eq_cursor (turn_query turn) = None" "eq_turn_id (turn_query turn) = Some (tn_id turn)"
  "eq_session_id (turn_query turn) = Some (tn_session_id turn)"
  by (simp_all add: turn_query_def empty_query_def)

lemma decided_in_turn:
  assumes "e \<in> set es" and "\<not> undecided turn e"
  shows "e \<in> set (approvals_of (turn_query turn) es)"
  using assms by (auto simp: undecided_def approvals_of_def approval_kind_def kind_matches_def)

lemma ask_saved_run:
  assumes run: "ask_approval env h t call_id round request (approvals_of (turn_query (hs_turn t)) es) (Some a0) w = (Inr (Waiting a t' existing), w1)"
    and log: "log_is env (ch_dir h) (lw_store w) es"
  shows "lw_store w1 = lw_store w \<and> lw_calls w1 = lw_calls w \<and> (\<forall>e \<in> set existing. undecided (hs_turn t) e) \<and>
    lw_subscribers w1 (cr_id (ch_record h)) = lw_subscribers w (cr_id (ch_record h)) @ [\<lparr> sub_open = True, sub_received = [] \<rparr>]"
proof -
  let ?te = "approvals_of (turn_query (hs_turn t)) es"
  have load: "load_events env (ch_dir h) (lw_store w) = Inr es" by (rule load_events_log [OF log])
  obtain te: "?te \<noteq> []" and watch: "watch_events env h (Excluded (ev_id (last ?te))) w = (Inr existing, w1)"
    using run unfolding ask_approval_def
    by (auto simp: io_bind_Inr_iff io_lift_def io_return_def ok_or_def split: if_splits)
  have ex: "existing = filter (\<lambda>e. ev_id (last ?te) < ev_id e) es" and w1: "lw_store w1 = lw_store w" "lw_calls w1 = lw_calls w"
    "lw_subscribers w1 (cr_id (ch_record h)) = lw_subscribers w (cr_id (ch_record h)) @ [\<lparr> sub_open = True, sub_received = [] \<rparr>]"
    using watch load unfolding watch_events_def
    by (auto simp: io_bind_Inr_iff io_lift_def io_read_def io_modify_def io_return_def matches_bound_def)
  have "sorted_wrt (\<lambda>a b. ev_id a < ev_id b) ?te"
    using log unfolding approvals_of_def by (simp add: log_is_def sorted_wrt_filter)
  then have "ev_id e \<le> ev_id (last ?te)" if "e \<in> set ?te" for e using sorted_wrt_last [of ev_id ?te e] that by simp
  then have "undecided (hs_turn t) e" if "e \<in> set existing" for e
    using that decided_in_turn [of e es "hs_turn t"] by (fastforce simp: ex linorder_not_less [symmetric])
  then show ?thesis using w1 by blast
qed

lemma ask_new_run:
  assumes run: "ask_approval env h t call_id round request te None w = (Inr (Waiting a t' existing), w1)"
    and log: "log_is env (ch_dir h) (lw_store w) es" and h: "hs_handle t = h" and fresh: "ids_fresh env n w es" and n: "3 \<le> n"
  shows "\<exists>e subs. log_is env (ch_dir h) (lw_store w1) (es @ [e]) \<and> ids_fresh env (n - 3) w1 (es @ [e]) \<and> existing = [] \<and>
    lw_subscribers w1 (cr_id (ch_record h)) = subs @ [\<lparr> sub_open = True, sub_received = [] \<rparr>]"
proof -
  let ?v = "w\<lparr>lw_calls := Suc (lw_calls w)\<rparr>"
  obtain d added t1 w0 where r: "turn_add_events env t [d] ?v = (Inr (added, t1), w0)"
    "watch_events env h (Excluded (ae_latest_event_id added)) w0 = (Inr existing, w1)"
    using run unfolding ask_approval_def Let_def option.case
    by (auto simp: io_bind_Inr_iff uuid_now_def io_return_def)
  obtain w2 where w2: "turn_append env t [d] ?v = (Inr added, w2)" "lw_store w0 = lw_store w2" "lw_calls w0 = lw_calls w2"
    using r(1) unfolding turn_add_events_def by (auto simp: io_bind_Inr_iff io_lift_def io_modify_def io_return_def)
  have logv: "log_is env (ch_dir (hs_handle t)) (lw_store ?v) es" using log h by simp
  have freshv: "ids_fresh env (n - 1) ?v es" by (rule ids_fresh_shift [OF fresh]) (use n in simp)
  have "length [d] \<le> n - 1" using n by simp
  from turn_append_extends [OF w2(1) logv freshv this] obtain new where
    new: "log_is env (ch_dir h) (lw_store w2) (es @ new)" "ids_fresh env (n - 1 - Suc (length [d])) w2 (es @ new)"
    "map ev_data new = [d]" "ae_latest_event_id added = ev_id (last new)"
    unfolding h by (elim exE conjE) (rule that)
  obtain e where e: "new = [e]" using new(3) by (cases new) auto
  have load: "load_events env (ch_dir h) (lw_store w0) = Inr (es @ [e])" using load_events_log [OF new(1)] w2(2) e by simp
  have ex: "existing = filter (\<lambda>x. ev_id e < ev_id x) (es @ [e])" and w1: "lw_store w1 = lw_store w0" "lw_calls w1 = lw_calls w0"
    "lw_subscribers w1 (cr_id (ch_record h)) = lw_subscribers w0 (cr_id (ch_record h)) @ [\<lparr> sub_open = True, sub_received = [] \<rparr>]"
    using r(2) load new(4) e unfolding watch_events_def
    by (auto simp: io_bind_Inr_iff io_lift_def io_read_def io_modify_def io_return_def matches_bound_def)
  have "\<forall>x \<in> set es. ev_id x < ev_id e" using new(1) e by (simp add: log_is_def sorted_wrt_append)
  then have "\<not> ev_id e < ev_id x" if "x \<in> set (es @ [e])" for x
    using that order_less_asym [of "ev_id e" "ev_id x"] by auto
  then have "existing = []" unfolding ex by (simp add: filter_empty_conv)
  moreover have "ids_fresh env (n - 3) w1 (es @ [e])"
    using new(2) e ids_fresh_cong [of w1 w2 env] w1(2) w2(3) by (simp add: numeral_3_eq_3)
  ultimately show ?thesis using new(1) w1 w2(2) e by auto
qed

text \<open>A response appends the answer to the turn and reaches every subscriber.\<close>

lemma respond_run:
  assumes run: "respond env h turn body w = (Inr eid, w')" and log: "log_is env (ch_dir h) (lw_store w) es"
    and fresh: "ids_fresh env 1 w es"
  obtains e r where "log_is env (ch_dir h) (lw_store w') (es @ [e])" "response_event r e"
    "as_approval_id r = rb_approval_id body" "as_approved r = rb_approved body"
    "ev_turn_id e = Some (tn_id turn)" "ev_session_id e = Some (tn_session_id turn)"
    "lw_subscribers w' = lw_subscribers (fold (notify_subscribers (cr_id (ch_record h))) [e] w)"
proof -
  obtain requests w1 t w2 p added t' where r: "pending env h turn w = (Inr requests, w1)" "turn_handle env h turn w1 = (Inr t, w2)"
    "turn_add_events env t [Custom APPROVAL_RESPONSE (Response_Json p)] w2 = (Inr (added, t'), w')"
    "as_approval_id p = rb_approval_id body" "as_approved p = rb_approved body"
    using run unfolding respond_def by (auto simp: io_bind_Inr_iff io_lift_def io_return_def)
  have w1: "w1 = w" using r(1) approval_reads [OF log, of "turn_query turn"] unfolding pending_def by (auto simp: io_bind_Inr_iff io_lift_def)
  have t: "w2 = w1" "hs_handle t = h" "hs_turn t = turn"
    using r(2) unfolding turn_handle_def Let_def by (auto simp: io_bind_Inr_iff io_lift_def io_read_def io_return_def)
  let ?d = "Custom APPROVAL_RESPONSE (Response_Json p)"
  obtain w3 rec rec' where w3: "append_events_to_conversation env (ch_dir h) (cr_id (ch_record h)) (Some (tn_session_id turn)) (Some (tn_id turn))
      (cr_latest_event_id rec) [?d] rec w = (Inr (added, rec'), w3)" "lw_store w' = lw_store w3" "lw_subscribers w' = lw_subscribers w3"
    using r(3) t w1 unfolding turn_add_events_def turn_append_def
    by (auto simp: io_bind_Inr_iff io_lift_def io_read_def io_modify_def io_return_def remember_appended_batch_def Let_def)
  have "length [?d] \<le> 1" by simp
  from append_extends_log [OF w3(1) log fresh this] obtain new where
    new: "log_is env (ch_dir h) (lw_store w3) (es @ new)" "map ev_data new = [?d]"
    "\<forall>e \<in> set new. ev_thread_id e = cr_id (ch_record h) \<and> ev_session_id e = Some (tn_session_id turn) \<and> ev_turn_id e = Some (tn_id turn)"
    "lw_subscribers w3 = lw_subscribers (fold (notify_subscribers (cr_id (ch_record h))) new w)"
    by (elim exE conjE) (rule that; blast)
  obtain e where e: "new = [e]" "ev_data e = ?d" using new(2) by (cases new) auto
  show thesis by (rule that [of e p]) (use new e w3(2,3) r(4,5) in \<open>simp_all add: response_event_def\<close>)
qed

section \<open>An answer settles the call\<close>

lemma update_subset: "set (AList.update k v xs) \<subseteq> insert (k, v) (set xs)"
  by (induction xs) auto

lemma pending_answered:
  assumes "pending_loop (es @ [e]) p = Inr requests" and "response_event r e" and "\<forall>(k, x) \<in> set p. k = aq_approval_id x"
  shows "\<forall>x \<in> set requests. aq_approval_id x \<noteq> as_approval_id r"
  using assms(1,3)
proof (induction es arbitrary: p)
  case Nil
  then have "requests = map snd (sort_key fst (AList.delete (as_approval_id r) p))"
    using assms(2) by (simp add: response_event_def)
  then show ?case using Nil.prems(2) by (auto simp: AList.delete_eq)
next
  case (Cons x es)
  have upd: "\<forall>(k, y) \<in> set (AList.update (aq_approval_id a) a p). k = aq_approval_id y" for a
    using Cons.prems(2) update_subset [of "aq_approval_id a" a p] by auto
  have del: "\<forall>(k, y) \<in> set (AList.delete i p). k = aq_approval_id y" for i
    using Cons.prems(2) by (auto simp: AList.delete_eq)
  show ?case
  proof (cases "ev_data x")
    case (Custom event_type payload)
    consider (request) "event_type = APPROVAL_REQUESTED" | (response) "event_type = APPROVAL_RESPONSE"
      | (other) "event_type \<noteq> APPROVAL_REQUESTED" "event_type \<noteq> APPROVAL_RESPONSE" by blast
    then show ?thesis
    proof cases
      case request
      then obtain a where "pending_loop (es @ [e]) (AList.update (aq_approval_id a) a p) = Inr requests"
        using Cons.prems(1) Custom by (auto simp: and_then_Inr_iff)
      then show ?thesis using Cons.IH upd by blast
    next
      case response
      then obtain b :: approval_response where "pending_loop (es @ [e]) (AList.delete (as_approval_id b) p) = Inr requests"
        using Cons.prems(1) Custom by (auto simp: and_then_Inr_iff)
      then show ?thesis using Cons.IH del by blast
    next
      case other
      then have "pending_loop (es @ [e]) p = Inr requests" using Cons.prems(1) Custom by simp
      then show ?thesis using Cons.IH Cons.prems(2) by blast
    qed
  qed (use Cons.prems Cons.IH in simp_all)
qed

lemma approvals_of_append: "approvals_of q (xs @ ys) = approvals_of q xs @ approvals_of q ys"
  by (simp add: approvals_of_def)

lemma respond_again_fails:
  assumes log: "log_is env (ch_dir h) (lw_store w) (es @ [e])" and e: "response_event r e" "ev_turn_id e = Some (tn_id turn)"
    "ev_session_id e = Some (tn_session_id turn)" and body: "rb_approval_id body = as_approval_id r"
  shows "\<exists>err w'. respond env h turn body w = (Inl err, w')"
proof (rule ccontr)
  assume "\<not> ?thesis"
  then obtain eid w' where run: "respond env h turn body w = (Inr eid, w')" by (metis surj_pair sum.exhaust)
  obtain requests w1 x where r: "pending env h turn w = (Inr requests, w1)" "List.find (\<lambda>x. aq_approval_id x = rb_approval_id body) requests = Some x"
    using run unfolding respond_def by (auto simp: io_bind_Inr_iff io_lift_def ok_or_def split: option.splits)
  have "e \<in> set (approvals_of (turn_query turn) [e])"
    by (rule decided_in_turn) (use e in \<open>auto simp: undecided_def response_event_def\<close>)
  then have "approvals_of (turn_query turn) [e] = [e]" by (simp add: approvals_of_def split: if_splits)
  then have "pending_loop (approvals_of (turn_query turn) es @ [e]) [] = Inr requests"
    using r(1) approval_reads [OF log, of "turn_query turn"] unfolding pending_def pending_from_events_def
    by (auto simp: io_bind_Inr_iff io_lift_def approvals_of_append)
  from pending_answered [OF this e(1)] have "\<forall>x \<in> set requests. aq_approval_id x \<noteq> rb_approval_id body" using body by simp
  then show False using find_in_set [OF r(2)] by blast
qed

text \<open>Whether the approval is new or saved, the stream of a waiting call starts before any answer.\<close>

lemma authorize_waits:
  assumes run: "authorize env h t policy call_id round resuming request w = (Inr (Waiting a t' existing), w1)"
    and log: "log_is env (ch_dir h) (lw_store w) es" and h: "hs_handle t = h" and fresh: "ids_fresh env 4 w es"
  shows "\<exists>es1 subs. log_is env (ch_dir h) (lw_store w1) es1 \<and> ids_fresh env 1 w1 es1 \<and> (\<forall>e \<in> set existing. undecided (hs_turn t) e) \<and>
    lw_subscribers w1 (cr_id (ch_record h)) = subs @ [\<lparr> sub_open = True, sub_received = [] \<rparr>]"
proof -
  have asks: "resuming \<or> policy \<noteq> AlwaysAllow"
    using run by (cases "\<not> resuming \<and> policy = AlwaysAllow") (auto simp: authorize_def io_return_def)
  define te where "te = (if resuming then approvals_of (turn_query (hs_turn t)) es else [])"
  obtain saved where e: "scan_turn call_id round request te None = Inr saved" "\<not> resuming \<or> saved \<noteq> None"
    "authorize_existing env h t call_id round request te saved w = (Inr (Waiting a t' existing), w1)"
    using authorize_run [OF run asks log] unfolding te_def by blast
  show ?thesis
  proof (cases saved)
    case None
    have q: "eq_cursor (empty_query\<lparr>eq_session_id := Some (tn_session_id (hs_turn t))\<rparr>) = None" by (simp add: empty_query_def)
    obtain xs w0 allowed where "approval_events env h (empty_query\<lparr>eq_session_id := Some (tn_session_id (hs_turn t))\<rparr>) w = (Inr xs, w0)"
      "(if allowed then io_return Allowed else ask_approval env h t call_id round request te None) w0 = (Inr (Waiting a t' existing), w1)"
      using e(3) None by (auto simp: authorize_existing_def io_bind_Inr_iff io_lift_def)
    then have "ask_approval env h t call_id round request te None w = (Inr (Waiting a t' existing), w1)"
      using approval_reads [OF log _ q] by (auto simp: io_return_def split: if_splits)
    from ask_new_run [OF this log h fresh] show ?thesis by auto
  next
    case (Some p)
    then obtain a0 where p: "p = (a0, None)"
      using e(3) by (cases p; cases "snd p") (auto simp: authorize_existing_def io_bind_Inr_iff io_lift_def io_return_def)
    have "resuming" using e(1) Some by (cases resuming) (auto simp: te_def)
    then have "ask_approval env h t call_id round request (approvals_of (turn_query (hs_turn t)) es) (Some a0) w = (Inr (Waiting a t' existing), w1)"
      using e(3) Some p by (simp add: authorize_existing_def te_def)
    from ask_saved_run [OF this log] show ?thesis
      using log ids_fresh_cong [of w1 w env 1 es] ids_fresh_mono [OF fresh, of 1] by auto
  qed
qed

text \<open>C40: an answer reaches the waiting call and settles it. When \<open>authorize\<close> waits and \<open>respond\<close> then answers its
  approval, the stream the call waits on decides: allowed when approved, denied otherwise; and no further
  response to that approval is accepted.\<close>

theorem approval_answer_settles_call:
  assumes "authorize env h t policy call_id round resuming request w = (Inr (Waiting a t' existing), w1)"
    and "respond env h (hs_turn t) body w1 = (Inr eid, w2)" and "rb_approval_id body = aq_approval_id a"
    and "hs_handle t = h" and "load_events env (ch_dir h) (lw_store w) = Inr es" and "log_ok env (ch_dir h) (lw_store w)"
    and "ids_fresh env 4 w es"
  shows "await_approval (hs_turn t) a request (existing @ sub_received (last (lw_subscribers w2 (cr_id (ch_record h))))) =
      Some (if rb_approved body then Inr () else Inl (Error (denied request))) \<and>
    (\<forall>again. rb_approval_id again = aq_approval_id a \<longrightarrow> (\<exists>err w3. respond env h (hs_turn t) again w2 = (Inl err, w3)))"
proof -
  have log: "log_is env (ch_dir h) (lw_store w) es" using load_events_ok [OF assms(6)] assms(5) by auto
  obtain es1 subs where w1: "log_is env (ch_dir h) (lw_store w1) es1" "ids_fresh env 1 w1 es1" "\<forall>e \<in> set existing. undecided (hs_turn t) e"
    "lw_subscribers w1 (cr_id (ch_record h)) = subs @ [\<lparr> sub_open = True, sub_received = [] \<rparr>]"
    using authorize_waits [OF assms(1) log assms(4,7)] by blast
  obtain e r where r: "log_is env (ch_dir h) (lw_store w2) (es1 @ [e])" "response_event r e"
    "as_approval_id r = rb_approval_id body" "as_approved r = rb_approved body"
    "ev_turn_id e = Some (tn_id (hs_turn t))" "ev_session_id e = Some (tn_session_id (hs_turn t))"
    "lw_subscribers w2 = lw_subscribers (fold (notify_subscribers (cr_id (ch_record h))) [e] w1)"
    by (rule respond_run [OF assms(2) w1(1,2)])
  have "sub_received (last (lw_subscribers w2 (cr_id (ch_record h)))) = [e]"
    using notified_last [OF w1(4), of "[e]"] r(7) by auto
  then have "await_approval (hs_turn t) a request (existing @ sub_received (last (lw_subscribers w2 (cr_id (ch_record h))))) =
      Some (ensure (as_approved r) (denied request))"
    using await_skip [OF w1(3)] await_response [OF r(2,5,6)] r(3) assms(3) by simp
  moreover have "ensure (as_approved r) (denied request) = (if rb_approved body then Inr () else Inl (Error (denied request)))"
    using r(4) by (simp add: ensure_def)
  ultimately show ?thesis using respond_again_fails [OF r(1,2,5,6)] r(3) assms(3) by simp
qed

section \<open>A sample turn\<close>

definition perm_request :: tool_request where
  "perm_request = \<lparr> tr_function_name = ''shell'', tr_arguments = ''{}'', tr_namespace = None \<rparr>"

definition perm_turn :: turn_handle_state where
  "perm_turn = \<lparr> hs_handle = sample_handle, hs_turn = \<lparr> tn_id = 50, tn_session_id = 2 \<rparr>, hs_latest_event_id = None, hs_finished = False \<rparr>"

definition perm_event :: "uuid \<Rightarrow> json_payload event_data \<Rightarrow> json_payload event" where
  "perm_event i d = \<lparr> ev_id = i, ev_thread_id = 1, ev_session_id = Some 2, ev_turn_id = Some 50, ev_created_at = uint i, ev_data = d \<rparr>"

definition perm_store :: "json_payload event list \<Rightarrow> json_payload stored_object store" where
  "perm_store es = fold (\<lambda>e. store_put (event_path decimal_text ''c'' (ev_id e)) (Stored_Event e)) es
     [(''c/record.json'', Stored_Record sample_record)]"

definition perm_world :: "json_payload event list \<Rightarrow> nat \<Rightarrow> json_payload log_world" where
  "perm_world es n = \<lparr> lw_store = perm_store es, lw_subscribers = (\<lambda>_. []), lw_index = (\<lambda>_. None), lw_calls = n \<rparr>"

lemma perm_simps [simp]:
  "hs_handle perm_turn = sample_handle" "tn_id (hs_turn perm_turn) = 50" "tn_session_id (hs_turn perm_turn) = 2"
  "ev_id (perm_event i d) = i" "ev_data (perm_event i d) = d" "ev_session_id (perm_event i d) = Some 2" "ev_turn_id (perm_event i d) = Some 50"
  "lw_store (perm_world es n) = perm_store es" "lw_calls (perm_world es n) = n" "tr_function_name perm_request = ''shell''"
  by (simp_all add: perm_turn_def perm_event_def perm_world_def perm_request_def)

lemma perm_store_snoc: "perm_store (es @ [e]) = store_put (event_path decimal_text ''c'' (ev_id e)) (Stored_Event e) (perm_store es)"
  by (simp add: perm_store_def)

lemma perm_log: "sorted_wrt (\<lambda>a b. ev_id a < ev_id b) es \<Longrightarrow> log_is sample_env ''c'' (perm_store es) es"
proof (induction es rule: rev_induct)
  case Nil
  show ?case
    by (simp add: perm_store_def log_is_def log_ok_def log_keys_def decimal_text_ok list_keys_def below_def events_dir_def starts_with_def)
next
  case (snoc e es)
  then have log: "log_is sample_env ''c'' (perm_store es) es" and "\<forall>x \<in> set es. ev_id x < ev_id e" by (simp_all add: sorted_wrt_append)
  then show ?case
    using log_append_object [OF log, of "event_path decimal_text ''c'' (ev_id e)" "Stored_Event e"]
    by (simp add: perm_store_snoc object_ok_def object_events_def)
qed

lemma perm_record: "store_get (perm_store es) (record_path ''c'') = Some (Stored_Record sample_record)"
proof (induction es rule: rev_induct)
  case Nil
  show ?case by (simp add: perm_store_def store_get_def record_path_def)
next
  case (snoc e es)
  have "record_path ''c'' \<noteq> event_path decimal_text ''c'' (ev_id e)" by (simp add: record_path_def event_path_def)
  then show ?case using snoc by (simp add: perm_store_snoc)
qed

theorem tool_call_allowed_only_on_record_witness:
  "authorize sample_env sample_handle perm_turn AlwaysAsk (Some ''c1'') None False perm_request
     (perm_world [perm_event 7 (Custom APPROVAL_RESPONSE (Response_Json \<lparr> as_approval_id = ''1'', as_approved = True, as_allowed_tool_name = Some ''shell'' \<rparr>))] 0) =
     (Inr Allowed, perm_world [perm_event 7 (Custom APPROVAL_RESPONSE (Response_Json \<lparr> as_approval_id = ''1'', as_approved = True, as_allowed_tool_name = Some ''shell'' \<rparr>))] 0) \<and>
   (\<exists>r. response_event r (perm_event 7 (Custom APPROVAL_RESPONSE (Response_Json \<lparr> as_approval_id = ''1'', as_approved = True, as_allowed_tool_name = Some ''shell'' \<rparr>))) \<and>
      as_approved r)"
proof -
  let ?e = "perm_event 7 (Custom APPROVAL_RESPONSE (Response_Json \<lparr> as_approval_id = ''1'', as_approved = True, as_allowed_tool_name = Some ''shell'' \<rparr>))"
  let ?q = "empty_query\<lparr>eq_session_id := Some 2\<rparr>"
  have log: "log_is sample_env ''c'' (perm_store [?e]) [?e]" by (rule perm_log) simp
  have "approvals_of ?q [?e] = [?e]"
    by (simp add: approvals_of_def approval_kind_def kind_matches_def empty_query_def)
  then have "approval_events sample_env sample_handle ?q (perm_world [?e] 0) = (Inr [?e], perm_world [?e] 0)"
    using approval_events_run [of sample_env sample_handle "perm_world [?e] 0" "[?e]" ?q] log by (simp add: empty_query_def)
  then have run: "authorize sample_env sample_handle perm_turn AlwaysAsk (Some ''c1'') None False perm_request (perm_world [?e] 0) = (Inr Allowed, perm_world [?e] 0)"
    by (simp add: authorize_def authorize_existing_def io_bind_def io_return_def io_lift_def ensure_def)
  show ?thesis
    using tool_call_allowed_only_on_record [OF run, of "[?e]"] run log load_events_log [OF log] by (auto simp: log_is_def)
qed

definition perm_approval :: approval_request where
  "perm_approval = \<lparr> aq_approval_id = ut_show decimal_text 100, aq_tool_call_id = Some ''c1'', aq_round = None, aq_request = perm_request \<rparr>"

abbreviation perm_asked :: "json_payload event" where
  "perm_asked \<equiv> perm_event 101 (Custom APPROVAL_REQUESTED (Request_Json perm_approval))"

lemma perm_asked_log: "log_is sample_env ''c'' (perm_store [perm_asked]) [perm_asked]"
  by (rule perm_log) simp

lemma perm_authorize:
  "authorize sample_env sample_handle perm_turn AlwaysAsk (Some ''c1'') None False perm_request (perm_world [] 0) =
     (Inr (Waiting perm_approval (perm_turn\<lparr>hs_latest_event_id := Some 101\<rparr>) []),
      (perm_world [perm_asked] 3)\<lparr>lw_subscribers := (\<lambda>_. [])(1 := [\<lparr> sub_open = True, sub_received = [] \<rparr>])\<rparr>)"
proof -
  let ?q = "empty_query\<lparr>eq_session_id := Some 2\<rparr>"
  have "approval_events sample_env sample_handle ?q (perm_world [] 0) = (Inr [], perm_world [] 0)"
    using approval_events_run [of sample_env sample_handle "perm_world [] 0" "[]" ?q] perm_log [of "[]"]
    by (simp add: empty_query_def approvals_of_def)
  moreover have "turn_add_events sample_env perm_turn [Custom APPROVAL_REQUESTED (Request_Json perm_approval)] ((perm_world [] 0)\<lparr>lw_calls := 1\<rparr>) =
      (Inr (\<lparr> ae_event_ids = [101], ae_latest_event_id = 101 \<rparr>, perm_turn\<lparr>hs_latest_event_id := Some 101\<rparr>), perm_world [perm_asked] 3)"
    using perm_record [of "[]"]
    by (simp add: turn_add_events_def turn_append_def sample_run_simps perm_world_def perm_store_def notify_subscribers_def perm_event_def fun_eq_iff
        perm_turn_def)
  moreover have "watch_events sample_env sample_handle (Excluded 101) (perm_world [perm_asked] 3) =
      (Inr [], (perm_world [perm_asked] 3)\<lparr>lw_subscribers := (\<lambda>_. [])(1 := [\<lparr> sub_open = True, sub_received = [] \<rparr>])\<rparr>)"
    using load_events_log [OF perm_asked_log]
    by (simp add: watch_events_def io_bind_def io_lift_def io_read_def io_modify_def io_return_def matches_bound_def perm_world_def)
  ultimately show ?thesis
    by (simp add: authorize_def authorize_existing_def ask_approval_def io_bind_def io_return_def io_lift_def ensure_def uuid_now_def Let_def perm_approval_def)
qed

lemma perm_respond:
  "\<exists>eid w2. respond sample_env sample_handle (hs_turn perm_turn) \<lparr> rb_approval_id = ut_show decimal_text 100, rb_approved = True, rb_allow_for_tool = False \<rparr>
     ((perm_world [perm_asked] 3)\<lparr>lw_subscribers := (\<lambda>_. [])(1 := [\<lparr> sub_open = True, sub_received = [] \<rparr>])\<rparr>) = (Inr eid, w2)"
proof -
  let ?w = "(perm_world [perm_asked] 3)\<lparr>lw_subscribers := (\<lambda>_. [])(1 := [\<lparr> sub_open = True, sub_received = [] \<rparr>])\<rparr>"
  have load: "load_events sample_env ''c'' (perm_store [perm_asked]) = Inr [perm_asked]" by (rule load_events_log [OF perm_asked_log])
  have "approvals_of (turn_query (hs_turn perm_turn)) [perm_asked] = [perm_asked]"
    by (simp add: approvals_of_def approval_kind_def kind_matches_def)
  then have "pending sample_env sample_handle (hs_turn perm_turn) ?w = (Inr [perm_approval], ?w)"
    using approval_events_run [of sample_env sample_handle ?w "[perm_asked]" "turn_query (hs_turn perm_turn)"] perm_asked_log
    by (simp add: pending_def io_bind_def io_lift_def pending_from_events_def)
  moreover have "turn_handle sample_env sample_handle (hs_turn perm_turn) ?w = (Inr (perm_turn\<lparr>hs_latest_event_id := Some 101\<rparr>), ?w)"
    using load by (simp add: turn_handle_def io_bind_def io_lift_def io_read_def io_return_def ensure_def Let_def perm_turn_def)
  ultimately show ?thesis
    using perm_record [of "[perm_asked]"]
    by (simp add: respond_def ensure_def ok_or_def turn_add_events_def turn_append_def sample_run_simps perm_approval_def)
qed

theorem approval_answer_settles_call_witness:
  "\<exists>a t' existing w1 eid w2. authorize sample_env sample_handle perm_turn AlwaysAsk (Some ''c1'') None False perm_request (perm_world [] 0)
       = (Inr (Waiting a t' existing), w1) \<and>
     respond sample_env sample_handle (hs_turn perm_turn) \<lparr> rb_approval_id = aq_approval_id a, rb_approved = True, rb_allow_for_tool = False \<rparr> w1 = (Inr eid, w2) \<and>
     await_approval (hs_turn perm_turn) a perm_request (existing @ sub_received (last (lw_subscribers w2 1))) = Some (Inr ())"
proof -
  obtain eid w2 where run: "respond sample_env sample_handle (hs_turn perm_turn) \<lparr> rb_approval_id = ut_show decimal_text 100, rb_approved = True, rb_allow_for_tool = False \<rparr>
     ((perm_world [perm_asked] 3)\<lparr>lw_subscribers := (\<lambda>_. [])(1 := [\<lparr> sub_open = True, sub_received = [] \<rparr>])\<rparr>) = (Inr eid, w2)"
    using perm_respond by blast
  have "ids_fresh sample_env 4 (perm_world [] 0) []" using sample_fresh [of 4] by (simp add: ids_fresh_def del: sample_env_simps)
  from approval_answer_settles_call [OF perm_authorize run _ _ _ _ this] perm_authorize run perm_log [of "[]"] load_events_log [OF perm_log [of "[]"]]
  show ?thesis by (fastforce simp: perm_approval_def log_is_def)
qed

end
