(* ===== verification/Harness_Turns.thy ===== *)
theory Harness_Turns
  imports Turn_Executor Permissions
begin

text \<open>
  The execution of turns by a harness: the registry of active turns with their stop signals and the task of each
  turn (\<^verbatim>\<open>crates/executor/src/harness_adapter.rs\<close>), the routing of a turn's events into the journal
  (\<^verbatim>\<open>harness_events.rs\<close>), opening a turn and settling its outcome (\<^verbatim>\<open>harness_executor.rs\<close>, \<^verbatim>\<open>shared.rs\<close>). A task
  advances from one \<open>await\<close> to the next; what the executor does inside a turn is any sequence of additions to the
  journal followed by any result.
\<close>

section \<open>Data\<close>

datatype stop_reason = Stop_Cancel | Stop_Shutdown | Stop_Suspend

datatype turn_outcome =
    Outcome_Completed "string option"
  | Outcome_Failed string
  | Outcome_Cancelled
  | Outcome_Interrupted
  | Outcome_Suspended

datatype 'p harness_event =
    TurnEvents turn_key "'p event_data list"
  | TurnFinished turn_key turn_outcome "'p event_data list"
  | ExecutionStopped turn_key

text \<open>A watch channel: its value and the number of times it was sent.\<close>

record stop_watch =
  sw_value :: "stop_reason option"
  sw_version :: nat

text \<open>A turn handle is a number: the handle is shared by the route, the task and the finalizer.\<close>

record 'p executor_turn =
  xt_agent_id :: uuid
  xt_thread :: conversation_handle
  xt_record :: turn_record
  xt_handle :: nat
  xt_work :: "'p turn_work"
  xt_recovering :: bool

record active_event_turn =
  rr_thread :: conversation_handle
  rr_record :: turn_record
  rr_turn :: nat
  rr_outcome :: "turn_outcome option"
  rr_completion :: bool
  rr_stream :: bool

text \<open>Where the task of a turn stands: in its \<open>select!\<close> loop (whether the stop signal was found unchanged in this
  round, and whether it is suspending), awaiting the executor's cleanup, about to report its outcome, about to
  release the route (the outcome is kept for the statements), about to leave the registry.\<close>

datatype exec_phase =
    Executing bool bool
  | Stopping turn_outcome
  | Finishing turn_outcome
  | Releasing turn_outcome
  | Ended

text \<open>The local state of a task. \<open>xn_inflight\<close> is the answer to an addition that was carried out and not yet
  acknowledged; \<open>xn_taken\<close> and \<open>xn_acked\<close> record what the task took over and what was acknowledged to it.\<close>

record 'p execution =
  xn_work :: "'p executor_turn"
  xn_seen :: nat
  xn_phase :: exec_phase
  xn_restored :: bool
  xn_inflight :: "'p event list result option"
  xn_pending :: "string set"
  xn_taken :: "string set"
  xn_acked :: "'p event_data list"

datatype 'p progress = Chunk 'p | Tool_Call string 'p | Tool_Result string 'p

record 'p harness_world =
  hw_log :: "'p log_world"
  hw_initialized :: bool
  hw_stopping :: bool
  hw_turns :: "(turn_key \<times> stop_watch) list"
  hw_handle :: "nat \<Rightarrow> turn_handle_state"
  hw_next :: nat
  hw_routes :: "(turn_key \<times> active_event_turn) list"
  hw_starting :: "(turn_key \<times> 'p executor_turn) list"
  hw_executions :: "(turn_key \<times> 'p execution) list"
  hw_streamed :: "(turn_key \<times> 'p progress) list"
  hw_started :: "turn_key list"
  hw_completed :: "(turn_key \<times> turn_outcome) list"

record 'p harness_env =
  he_log :: log_env
  he_encode :: "'p turn_work \<Rightarrow> 'p result"
  he_no_metadata :: 'p
  he_null :: 'p
  he_can_suspend :: "'p agent_config \<Rightarrow> bool"
  he_can_reconcile :: "'p agent_config \<Rightarrow> bool"
  he_can_resume_approval :: "'p agent_config \<Rightarrow> bool"
  he_tool_round :: "'p \<Rightarrow> u32 result"
  he_approval_request :: "'p \<Rightarrow> approval_request result"
  he_approval_response :: "'p \<Rightarrow> approval_response result"
  he_tool_request :: "'p \<Rightarrow> tool_request"

definition new_harness :: "'p log_world \<Rightarrow> (nat \<Rightarrow> turn_handle_state) \<Rightarrow> 'p harness_world" where
  "new_harness l handles = \<lparr> hw_log = l, hw_initialized = False, hw_stopping = False, hw_turns = [], hw_handle = handles,
     hw_next = 0, hw_routes = [], hw_starting = [], hw_executions = [], hw_streamed = [], hw_started = [], hw_completed = [] \<rparr>"

definition journal :: "('p log_world, 'a) io \<Rightarrow> ('p harness_world, 'a) io" where
  "journal m w = (let (r, l) = m (hw_log w) in (r, w\<lparr>hw_log := l\<rparr>))"

definition executor_key :: "'p executor_turn \<Rightarrow> turn_key" where
  "executor_key work = \<lparr> tk_agent_id = xt_agent_id work, tk_thread_id = cr_id (ch_record (xt_thread work)),
     tk_turn_id = tn_id (xt_record work) \<rparr>"

section \<open>Routing events\<close>

fun execution_stream_event :: "'p event_data \<Rightarrow> 'p progress option" where
  "execution_stream_event (LinguaStreamChunk chunk) = Some (Chunk chunk)"
| "execution_stream_event (ToolRequested call request) = Some (Tool_Call call request)"
| "execution_stream_event (ToolResult call res) = Some (Tool_Result call res)"
| "execution_stream_event _ = None"

definition acknowledge_event :: "log_env \<Rightarrow> active_event_turn \<Rightarrow> uuid \<times> 'p event_data \<Rightarrow> 'p event result" where
  "acknowledge_event env active = (\<lambda>(eid, data).
     and_then (ok_or (le_timestamp env eid) ''appended event id has no timestamp'') (\<lambda>created.
     Ok \<lparr> ev_id = eid, ev_thread_id = cr_id (ch_record (rr_thread active)),
          ev_session_id = Some (tn_session_id (rr_record active)), ev_turn_id = Some (tn_id (rr_record active)),
          ev_created_at = created, ev_data = data \<rparr>))"

definition stream_events :: "turn_key \<Rightarrow> active_event_turn \<Rightarrow> 'p event list \<Rightarrow> 'p harness_world \<Rightarrow> 'p harness_world" where
  "stream_events key active events w =
     (if rr_stream active
      then w\<lparr>hw_streamed := hw_streamed w @ map (Pair key) (List.map_filter (\<lambda>e. execution_stream_event (ev_data e)) events)\<rparr>
      else w)"

definition append_route :: "log_env \<Rightarrow> turn_key \<Rightarrow> active_event_turn \<Rightarrow> 'p event_data list \<Rightarrow> ('p harness_world, 'p event list) io" where
  "append_route env key active events =
     (if events = [] then io_return []
      else
        io_bind (io_read (\<lambda>w. hw_handle w (rr_turn active))) (\<lambda>turn.
        io_bind (journal (turn_add_events env turn events)) (\<lambda>(added, turn').
        io_bind (io_modify (\<lambda>w. w\<lparr>hw_handle := (hw_handle w)(rr_turn active := turn')\<rparr>)) (\<lambda>_.
        io_bind (io_lift (ensure (length (ae_event_ids added) = length events)
           (''harness event append returned '' @ show_nat (length (ae_event_ids added)) @ '' ids for '' @
            show_nat (length events) @ '' events''))) (\<lambda>_.
        io_bind (io_lift (map_res (acknowledge_event env active) (zip (ae_event_ids added) events))) (\<lambda>acknowledged.
        io_bind (io_modify (stream_events key active acknowledged)) (\<lambda>_.
        io_return acknowledged)))))))"

fun event_key :: "'p harness_event \<Rightarrow> turn_key" where
  "event_key (TurnEvents key _) = key"
| "event_key (TurnFinished key _ _) = key"
| "event_key (ExecutionStopped key) = key"

definition set_route :: "turn_key \<Rightarrow> active_event_turn \<Rightarrow> 'p harness_world \<Rightarrow> 'p harness_world" where
  "set_route key active w = w\<lparr>hw_routes := AList.update key active (hw_routes w)\<rparr>"

definition remove_route :: "turn_key \<Rightarrow> 'p harness_world \<Rightarrow> 'p harness_world" where
  "remove_route key w = w\<lparr>hw_routes := AList.delete key (hw_routes w)\<rparr>"

text \<open>The handler of an event, once its route is found. The two messages that name the key are abbreviated.\<close>

definition emit_to :: "log_env \<Rightarrow> active_event_turn \<Rightarrow> 'p harness_event \<Rightarrow> ('p harness_world, 'p event list) io" where
  "emit_to env active event =
     (case event of
        TurnEvents key events \<Rightarrow>
          io_bind (io_lift (ensure (rr_outcome active = None) ''harness emitted events after completion'')) (\<lambda>_.
          append_route env key active events)
      | TurnFinished key outcome events \<Rightarrow>
          io_bind (io_lift (ensure (rr_outcome active = None) ''harness completed the same turn twice'')) (\<lambda>_.
          io_bind (io_try (append_route env key active events)) (\<lambda>appended.
          case appended of
            Inr acknowledged \<Rightarrow>
              io_bind (io_modify (set_route key (active\<lparr>rr_outcome := Some outcome\<rparr>))) (\<lambda>_. io_return acknowledged)
          | Inl e \<Rightarrow>
              io_bind (io_modify (set_route key (active\<lparr>rr_outcome := Some (Outcome_Failed e)\<rparr>))) (\<lambda>_. io_fail (Error e))))
      | ExecutionStopped key \<Rightarrow>
          io_bind (io_modify (\<lambda>w. w\<lparr>hw_completed := hw_completed w @
             [(key, case rr_outcome active of Some outcome \<Rightarrow> outcome
                    | None \<Rightarrow> Outcome_Failed ''harness stopped without a terminal event'')]\<rparr>)) (\<lambda>_.
          io_bind (io_modify (remove_route key)) (\<lambda>_. io_return [])))"

definition emit :: "log_env \<Rightarrow> 'p harness_event \<Rightarrow> ('p harness_world, 'p event list) io" where
  "emit env event =
     io_bind (io_read (\<lambda>w. map_of (hw_routes w) (event_key event))) (\<lambda>route.
     io_bind (io_lift (ok_or route ''harness event references an inactive turn'')) (\<lambda>active.
     io_bind (io_lift (ensure (rr_completion active) ''harness event references a stopped turn'')) (\<lambda>_.
     emit_to env active event)))"

fun update_pending_tools :: "'p event_data \<Rightarrow> string set \<Rightarrow> string set" where
  "update_pending_tools (ToolRequested call _) pending_tools = insert call pending_tools"
| "update_pending_tools (ToolResult call _) pending_tools = pending_tools - {call}"
| "update_pending_tools _ pending_tools = pending_tools"

text \<open>\<open>HarnessTurn::add_events\<close>: the acknowledged events, from which the pending tool calls are updated. An empty
  addition goes to the turn itself. The lock on the pending calls is held over the whole call.\<close>

definition harness_add_events :: "log_env \<Rightarrow> turn_key \<Rightarrow> nat \<Rightarrow> 'p event_data list \<Rightarrow> ('p harness_world, 'p event list) io" where
  "harness_add_events env key handle data =
     (if data = [] then
        io_bind (io_read (\<lambda>w. hw_handle w handle)) (\<lambda>turn.
        io_bind (journal (turn_add_events env turn [])) (\<lambda>(_, turn').
        io_bind (io_modify (\<lambda>w. w\<lparr>hw_handle := (hw_handle w)(handle := turn')\<rparr>)) (\<lambda>_. io_return [])))
      else
        io_bind (emit env (TurnEvents key data)) (\<lambda>acknowledged.
        io_bind (io_lift (ensure (acknowledged \<noteq> []) ''harness event append returned no events'')) (\<lambda>_.
        io_return acknowledged)))"

text \<open>The stream of a turn followed from outside: the events of the thread as they arrive, \<open>closed\<close> when the watch
  has ended.\<close>

datatype 'p turn_output =
    Out_Approval turn_record approval_request
  | Out_Progress "'p progress"
  | Out_Completed send_result

fun turn_stream :: "'p harness_env \<Rightarrow> turn_record \<Rightarrow> bool \<Rightarrow> string option \<Rightarrow> (string + 'p event) list \<Rightarrow> (string + 'p turn_output) list" where
  "turn_stream env turn closed failure [] =
     (if closed then [Inl ''runtime progress disconnected; reconnect to retrieve saved history''] else [])"
| "turn_stream env turn closed failure (Inl e # events) = [Inl e]"
| "turn_stream env turn closed failure (Inr event # events) =
     (if ev_turn_id event \<noteq> Some (tn_id turn) then turn_stream env turn closed failure events
      else
        (case ev_data event of
           Custom event_type payload \<Rightarrow>
             if event_type = APPROVAL_REQUESTED then
               (case he_approval_request env payload of
                  Inl e \<Rightarrow> [Inl (case e of Error m \<Rightarrow> m | Panic m \<Rightarrow> m)]
                | Inr approval \<Rightarrow> Inr (Out_Approval turn approval) # turn_stream env turn closed failure events)
             else turn_stream env turn closed failure events
         | ErrorEvent message _ \<Rightarrow> turn_stream env turn closed (Some message) events
         | TurnEnded \<Rightarrow>
             (case failure of
                Some message \<Rightarrow> [Inl message]
              | None \<Rightarrow> [Inr (Out_Completed \<lparr> sd_session_id = tn_session_id turn, sd_turn_id = tn_id turn,
                                              sd_latest_event_id = ev_id event \<rparr>)])
         | data \<Rightarrow>
             (case execution_stream_event data of
                Some out \<Rightarrow> Inr (Out_Progress out) # turn_stream env turn closed failure events
              | None \<Rightarrow> turn_stream env turn closed failure events)))"

section \<open>Settling the outcome of a turn\<close>

text \<open>An error with a context prints as the context, a colon and the error.\<close>

definition with_context :: "string \<Rightarrow> string \<Rightarrow> string" where
  "with_context context_text e = context_text @ '': '' @ e"

definition finalize_turn :: "'p harness_env \<Rightarrow> turn_handle_state \<Rightarrow> string + unit \<Rightarrow> ('p log_world, uuid) io" where
  "finalize_turn env turn outcome =
     (case outcome of
        Inr _ \<Rightarrow> io_bind (turn_finish (he_log env) turn) (\<lambda>(latest, _). io_return latest)
      | Inl e \<Rightarrow>
          io_bind (io_try (turn_add_events (he_log env) turn [ErrorEvent e (he_no_metadata env)])) (\<lambda>added.
          case added of
            Inl persist_error \<Rightarrow> io_fail (Error (with_context (''failed to persist turn error: '' @ persist_error) e))
          | Inr (_, turn') \<Rightarrow>
              io_bind (io_try (turn_finish (he_log env) turn')) (\<lambda>finished.
              case finished of
                Inr _ \<Rightarrow> io_fail (Error e)
              | Inl finish_error \<Rightarrow> io_fail (Error (with_context (''also failed to finish turn: '' @ finish_error) e)))))"

text \<open>The finalizer's view of the journal: a completed turn is marked before it is finished, so that recovery can
  finish it without running it again. \<open>None\<close>: the completion channel was closed.\<close>

definition settle_completed :: "'p harness_env \<Rightarrow> conversation_handle \<Rightarrow> turn_handle_state \<Rightarrow> ('p log_world, uuid) io" where
  "settle_completed env thread turn =
     io_bind (io_try (get_events (he_log env) thread
        (Some (empty_query\<lparr>eq_turn_id := Some (tn_id (hs_turn turn)), eq_types := Some [RUNTIME_TURN_COMPLETED]\<rparr>)))) (\<lambda>marked.
     case marked of
       Inl e \<Rightarrow> finalize_turn env turn (Inl e)
     | Inr page \<Rightarrow>
         if ge_events page \<noteq> [] then finalize_turn env turn (Inr ())
         else
           io_bind (io_try (turn_add_events (he_log env) turn [Custom RUNTIME_TURN_COMPLETED (he_null env)])) (\<lambda>added.
           case added of
             Inr (_, turn') \<Rightarrow> finalize_turn env turn' (Inr ())
           | Inl e \<Rightarrow> finalize_turn env turn (Inl e)))"

definition settle_outcome :: "'p harness_env \<Rightarrow> conversation_handle \<Rightarrow> turn_handle_state \<Rightarrow> turn_outcome option \<Rightarrow> ('p log_world, uuid) io" where
  "settle_outcome env thread turn outcome =
     (case outcome of
        Some (Outcome_Completed _) \<Rightarrow> settle_completed env thread turn
      | Some (Outcome_Failed e) \<Rightarrow> finalize_turn env turn (Inl e)
      | Some Outcome_Cancelled \<Rightarrow> finalize_turn env turn (Inl ''harness turn cancelled'')
      | Some Outcome_Suspended \<Rightarrow> io_fail (Error ''turn suspended'')
      | Some Outcome_Interrupted \<Rightarrow> io_fail (Error ''harness turn interrupted'')
      | None \<Rightarrow> finalize_turn env turn (Inl ''harness stopped without completion: channel closed''))"

text \<open>What the finalizer sends on the stream of the turn.\<close>

definition completion_event :: "'p harness_env \<Rightarrow> conversation_handle \<Rightarrow> turn_handle_state \<Rightarrow> turn_outcome option \<Rightarrow> ('p log_world, 'e message) io" where
  "completion_event env thread turn outcome =
     io_bind (io_try (settle_outcome env thread turn outcome)) (\<lambda>latest.
     io_return (case latest of
         Inl e \<Rightarrow> Inl e
       | Inr eid \<Rightarrow> Inr (Completed \<lparr> sd_session_id = tn_session_id (hs_turn turn), sd_turn_id = tn_id (hs_turn turn),
                                     sd_latest_event_id = eid \<rparr>)))"

section \<open>Starting, stopping and awaiting turns\<close>

definition init_harness :: "('p harness_world, unit) io" where
  "init_harness =
     io_bind (io_read hw_initialized) (\<lambda>initialized.
     io_bind (io_lift (ensure (\<not> initialized) ''harness is already initialized'')) (\<lambda>_.
     io_modify (\<lambda>w. w\<lparr>hw_initialized := True\<rparr>)))"

text \<open>The turn of an execution: reattached when recovering, else begun with the recorded work.\<close>

definition open_turn :: "'p harness_env \<Rightarrow> string option \<Rightarrow> conversation_handle \<Rightarrow> turn_record \<Rightarrow> 'p turn_work \<Rightarrow> bool
    \<Rightarrow> ('p log_world, turn_handle_state) io" where
  "open_turn env user thread turn work recovering =
     (if recovering then turn_handle (he_log env) thread turn
      else
        io_bind (io_lift (he_encode env work)) (\<lambda>payload.
        begin_turn (he_log env) user thread
          \<lparr> bt_turn = turn, bt_new_session = (rq_session_id (wk_request work) = None), bt_input = rq_input (wk_request work),
            bt_initial_events = [Custom RUNTIME_TURN_WORK payload] \<rparr>))"

definition register_turn :: "turn_key \<Rightarrow> active_event_turn \<Rightarrow> ('p harness_world, unit) io" where
  "register_turn key active =
     io_bind (io_read (\<lambda>w. map_of (hw_routes w) key)) (\<lambda>route.
     io_bind (io_lift (ensure (route = None) ''harness turn is already registered'')) (\<lambda>_.
     io_modify (set_route key active)))"

text \<open>The first part of \<open>start_local_turn\<close> after the preparations: the turn is opened and its route registered.
  The start is then pending until it is submitted.\<close>

definition prepare_start :: "'p harness_env \<Rightarrow> string option \<Rightarrow> 'p executor_turn \<Rightarrow> ('p harness_world, unit) io" where
  "prepare_start env user start_work =
     io_bind (journal (open_turn env user (xt_thread start_work) (xt_record start_work) (xt_work start_work) (xt_recovering start_work))) (\<lambda>turn.
     io_bind (io_read hw_next) (\<lambda>handle.
     io_bind (io_modify (\<lambda>w. w\<lparr>hw_handle := (hw_handle w)(handle := turn), hw_next := Suc handle\<rparr>)) (\<lambda>_.
     io_bind (register_turn (executor_key start_work)
        \<lparr> rr_thread = xt_thread start_work, rr_record = xt_record start_work, rr_turn = handle, rr_outcome = None,
          rr_completion = True, rr_stream = wk_streaming (xt_work start_work) \<rparr>) (\<lambda>_.
     io_modify (\<lambda>w. w\<lparr>hw_starting := AList.update (executor_key start_work) (start_work\<lparr>xt_handle := handle\<rparr>) (hw_starting w)\<rparr>)))))"

definition new_watch :: stop_watch where
  "new_watch = \<lparr> sw_value = None, sw_version = 0 \<rparr>"

definition send_replace :: "stop_reason option \<Rightarrow> stop_watch \<Rightarrow> stop_watch" where
  "send_replace reason sw = \<lparr> sw_value = reason, sw_version = Suc (sw_version sw) \<rparr>"

text \<open>Submitting \<open>StartTurn\<close>: the turn enters the registry and its task is spawned.\<close>

definition submit_start :: "'p executor_turn \<Rightarrow> ('p harness_world, unit) io" where
  "submit_start work =
     (let key = executor_key work in
      io_bind (io_read id) (\<lambda>w.
      io_bind (io_lift (ensure (hw_initialized w) ''harness is not initialized'')) (\<lambda>_.
      io_bind (io_lift (ensure (\<not> hw_stopping w) ''harness is shutting down'')) (\<lambda>_.
      io_bind (io_lift (ensure (map_of (hw_turns w) key = None) ''harness turn is already active'')) (\<lambda>_.
      io_modify (\<lambda>w. w\<lparr>hw_turns := AList.update key new_watch (hw_turns w), hw_started := hw_started w @ [key],
         hw_executions := AList.update key \<lparr> xn_work = work, xn_seen = 0, xn_phase = Executing False False, xn_restored = False,
           xn_inflight = None, xn_pending = {}, xn_taken = {}, xn_acked = [] \<rparr> (hw_executions w)\<rparr>))))))"

text \<open>The second part of \<open>start_local_turn\<close>: a refused submission removes the route and fails the turn in the
  journal.\<close>

definition submit_prepared :: "'p harness_env \<Rightarrow> turn_key \<Rightarrow> 'p executor_turn \<Rightarrow> 'p harness_world \<Rightarrow> 'p harness_world" where
  "submit_prepared env key work w =
     (let w1 = w\<lparr>hw_starting := AList.delete key (hw_starting w)\<rparr> in
      case submit_start work w1 of
        (Inr _, w2) \<Rightarrow> w2
      | (Inl (Panic _), w2) \<Rightarrow> w2
      | (Inl (Error e), w2) \<Rightarrow> snd (journal (finalize_turn env (hw_handle w2 (xt_handle work)) (Inl e)) (remove_route key w2)))"

fun command_reason :: "harness_command \<Rightarrow> turn_key \<times> stop_reason option" where
  "command_reason (CancelTurn key) = (key, Some Stop_Cancel)"
| "command_reason (SuspendTurn key) = (key, Some Stop_Suspend)"
| "command_reason (ResumeTurn key) = (key, None)"

definition signal_turn :: "turn_key \<Rightarrow> stop_reason option \<Rightarrow> 'p harness_world \<Rightarrow> 'p harness_world" where
  "signal_turn key reason w =
     (case map_of (hw_turns w) key of
        None \<Rightarrow> w
      | Some sw \<Rightarrow>
          if sw_value sw = Some Stop_Cancel \<or> sw_value sw = Some Stop_Shutdown then w
          else w\<lparr>hw_turns := AList.update key (send_replace reason sw) (hw_turns w)\<rparr>)"

definition submit_control :: "harness_command \<Rightarrow> ('p harness_world, unit) io" where
  "submit_control command =
     (let (key, reason) = command_reason command in
      io_bind (io_read hw_initialized) (\<lambda>initialized.
      io_bind (io_lift (ensure initialized ''harness is not initialized'')) (\<lambda>_.
      io_modify (signal_turn key reason))))"

definition shutdown_turns :: "'p harness_world \<Rightarrow> 'p harness_world" where
  "shutdown_turns w = w\<lparr>hw_stopping := True,
     hw_turns := map (\<lambda>(key, sw). (key, if sw_value sw = Some Stop_Cancel then sw else send_replace (Some Stop_Shutdown) sw)) (hw_turns w)\<rparr>"

definition turn_idle :: "turn_key \<Rightarrow> 'p harness_world \<Rightarrow> bool" where
  "turn_idle key w \<longleftrightarrow> map_of (hw_turns w) key = None"

definition is_active :: "turn_key \<Rightarrow> 'p harness_world \<Rightarrow> bool" where
  "is_active key w = (case map_of (hw_turns w) key of
     None \<Rightarrow> False
   | Some sw \<Rightarrow> sw_value sw = None \<or> sw_value sw = Some Stop_Suspend)"

definition all_idle :: "'p harness_world \<Rightarrow> bool" where
  "all_idle w \<longleftrightarrow> hw_turns w = []"

section \<open>Recovery of tool calls\<close>

definition BASIC_TOOL_ROUND :: string where
  "BASIC_TOOL_ROUND = ''exo.basic.tool_round''"

type_synonym pending_call = "u32 option \<times> string \<times> tool_request"

fun recovered_calls :: "'p harness_env \<Rightarrow> 'p event list \<Rightarrow> u32 option \<Rightarrow> pending_call list \<Rightarrow> approval_request list \<Rightarrow> string set
    \<Rightarrow> (pending_call list \<times> approval_request list \<times> string set) result" where
  "recovered_calls env [] tool_round calls approvals responses = Ok (calls, approvals, responses)"
| "recovered_calls env (e # es) tool_round calls approvals responses =
     (case ev_data e of
        Custom event_type payload \<Rightarrow>
          if event_type = BASIC_TOOL_ROUND then
            and_then (he_tool_round env payload) (\<lambda>r. recovered_calls env es (Some r) calls approvals responses)
          else if event_type = APPROVAL_REQUESTED then
            and_then (he_approval_request env payload) (\<lambda>a. recovered_calls env es tool_round calls (approvals @ [a]) responses)
          else if event_type = APPROVAL_RESPONSE then
            and_then (he_approval_response env payload) (\<lambda>a.
              recovered_calls env es tool_round calls approvals (insert (as_approval_id a) responses))
          else recovered_calls env es tool_round calls approvals responses
      | ToolRequested call request \<Rightarrow>
          recovered_calls env es tool_round (calls @ [(tool_round, call, he_tool_request env request)]) approvals responses
      | ToolResult call _ \<Rightarrow>
          recovered_calls env es tool_round (filter (\<lambda>c. fst (snd c) \<noteq> call) calls) approvals responses
      | _ \<Rightarrow> recovered_calls env es tool_round calls approvals responses)"

definition awaits_approval :: "approval_request list \<Rightarrow> string set \<Rightarrow> pending_call \<Rightarrow> bool" where
  "awaits_approval approvals responses = (\<lambda>(tool_round, call, request).
     \<exists>a \<in> set approvals. aq_tool_call_id a = Some call \<and> aq_round a = tool_round \<and> tool_round \<noteq> None \<and>
       aq_request a = request \<and> aq_approval_id a \<notin> responses)"

definition tools_query :: "uuid \<Rightarrow> event_query" where
  "tools_query turn = journal_query turn
     [''tool_requested'', ''tool_result'', BASIC_TOOL_ROUND, APPROVAL_REQUESTED, APPROVAL_RESPONSE]"

definition restore_recovery_tools :: "'p harness_env \<Rightarrow> 'p executor_turn \<Rightarrow> ('p log_world, string set) io" where
  "restore_recovery_tools env work =
     io_bind (get_events (he_log env) (xt_thread work) (Some (tools_query (tn_id (xt_record work))))) (\<lambda>page.
     io_bind (io_lift (recovered_calls env (ge_events page) None [] [] {})) (\<lambda>(calls, approvals, responses).
     io_bind (io_lift (case calls of
          [] \<Rightarrow> Ok ()
        | c # _ \<Rightarrow>
            ensure (he_can_resume_approval env (wk_agent_config (xt_work work)) \<and> awaits_approval approvals responses c)
              (''cannot safely resume unresolved tool call `'' @ fst (snd c) @ ''` (`'' @ tr_function_name (snd (snd c)) @
               ''`) for turn '' @ ut_show (le_text (he_log env)) (tn_id (xt_record work))))) (\<lambda>_.
     io_return ((\<lambda>c. fst (snd c)) ` set calls))))"

section \<open>The task of a turn\<close>

datatype execution_result = Execution_Ok | Execution_Err string | Execution_Panicked

datatype cleanup_answer = Cleaned | Cleanup_Failed string | Cleanup_Panicked

definition set_execution :: "turn_key \<Rightarrow> 'p execution \<Rightarrow> 'p harness_world \<Rightarrow> 'p harness_world" where
  "set_execution key x w = w\<lparr>hw_executions := AList.update key x (hw_executions w)\<rparr>"

definition resumable :: "'p harness_env \<Rightarrow> 'p execution \<Rightarrow> bool" where
  "resumable env x = he_can_suspend env (wk_agent_config (xt_work (xn_work x)))"

definition reconciles_tools :: "'p harness_env \<Rightarrow> 'p execution \<Rightarrow> bool" where
  "reconciles_tools env x = he_can_reconcile env (wk_agent_config (xt_work (xn_work x)))"

definition needs_restore :: "'p harness_env \<Rightarrow> 'p execution \<Rightarrow> bool" where
  "needs_restore env x \<longleftrightarrow> xt_recovering (xn_work x) \<and> \<not> reconciles_tools env x \<and> \<not> xn_restored x"

text \<open>\<open>changed\<close> on the watch: nothing new, or the version and value to act on (cancelled when the sender is
  gone).\<close>

definition stop_signal :: "turn_key \<Rightarrow> nat \<Rightarrow> 'p harness_world \<Rightarrow> (nat \<times> stop_reason option) option" where
  "stop_signal key seen w =
     (case map_of (hw_turns w) key of
        None \<Rightarrow> Some (seen, Some Stop_Cancel)
      | Some sw \<Rightarrow> if sw_version sw = seen then None else Some (sw_version sw, sw_value sw))"

definition on_signal :: "'p harness_env \<Rightarrow> 'p execution \<Rightarrow> bool \<Rightarrow> stop_reason option \<Rightarrow> exec_phase" where
  "on_signal env x suspending reason =
     (case reason of
        Some Stop_Shutdown \<Rightarrow> Stopping Outcome_Interrupted
      | Some Stop_Cancel \<Rightarrow> Stopping Outcome_Cancelled
      | Some Stop_Suspend \<Rightarrow>
          if \<not> resumable env x then Executing False suspending
          else if reconciles_tools env x then Stopping Outcome_Suspended
          else Executing False True
      | None \<Rightarrow> Executing False False)"

text \<open>The first branch of \<open>select!\<close>.\<close>

definition execution_check :: "'p harness_env \<Rightarrow> turn_key \<Rightarrow> 'p execution \<Rightarrow> 'p harness_world \<Rightarrow> 'p harness_world option" where
  "execution_check env key x w =
     (case xn_phase x of
        Executing False suspending \<Rightarrow>
          Some (set_execution key
            (case stop_signal key (xn_seen x) w of
               None \<Rightarrow> x\<lparr>xn_phase := Executing True suspending\<rparr>
             | Some (seen, reason) \<Rightarrow> x\<lparr>xn_seen := seen, xn_phase := on_signal env x suspending reason\<rparr>) w)
      | _ \<Rightarrow> None)"

text \<open>The second branch: no tool call is pending and no addition in flight, which would hold the lock of the pending
  calls; the execution is dropped under that lock.\<close>

definition execution_boundary :: "turn_key \<Rightarrow> 'p execution \<Rightarrow> 'p harness_world \<Rightarrow> 'p harness_world option" where
  "execution_boundary key x w =
     (if xn_phase x = Executing True True \<and> xn_inflight x = None \<and> xn_pending x = {}
      then Some (set_execution key (x\<lparr>xn_phase := Stopping Outcome_Suspended\<rparr>) w) else None)"

text \<open>The third branch polls the execution. It restores the pending calls of a recovered turn, adds events, ends, or
  yields to the next round. It awaits its additions one at a time: between an addition and its acknowledgement the
  task may be stopped, and then the execution is dropped without the acknowledgement.\<close>

definition polled :: "'p execution \<Rightarrow> bool" where
  "polled x \<longleftrightarrow> (\<exists>suspending \<in> {True, False}. xn_phase x = Executing True suspending)"

definition panicked_outcome :: turn_outcome where
  "panicked_outcome = Outcome_Failed ''harness turn task panicked''"

fun error_outcome :: "error \<Rightarrow> turn_outcome" where
  "error_outcome (Error e) = Outcome_Failed e"
| "error_outcome (Panic e) = panicked_outcome"

definition execution_restore :: "'p harness_env \<Rightarrow> turn_key \<Rightarrow> 'p execution \<Rightarrow> 'p harness_world \<Rightarrow> 'p harness_world option" where
  "execution_restore env key x w =
     (if polled x \<and> needs_restore env x then
        Some (case journal (restore_recovery_tools env (xn_work x)) w of
            (Inr calls, w1) \<Rightarrow> set_execution key (x\<lparr>xn_restored := True, xn_pending := calls, xn_taken := calls\<rparr>) w1
          | (Inl e, w1) \<Rightarrow> set_execution key (x\<lparr>xn_phase := Finishing (error_outcome e)\<rparr>) w1)
      else None)"

definition execution_append :: "'p harness_env \<Rightarrow> turn_key \<Rightarrow> 'p event_data list \<Rightarrow> 'p execution \<Rightarrow> 'p harness_world \<Rightarrow> 'p harness_world option" where
  "execution_append env key data x w =
     (if polled x \<and> \<not> needs_restore env x \<and> xn_inflight x = None then
        Some (let (r, w1) = harness_add_events (he_log env) key (xt_handle (xn_work x)) data w
              in set_execution key (x\<lparr>xn_inflight := Some r\<rparr>) w1)
      else None)"

definition execution_acknowledge :: "turn_key \<Rightarrow> 'p execution \<Rightarrow> 'p harness_world \<Rightarrow> 'p harness_world option" where
  "execution_acknowledge key x w =
     (if polled x then
        map_option (\<lambda>r. set_execution key
          (case r of
             Inr acknowledged \<Rightarrow>
               x\<lparr>xn_inflight := None, xn_pending := fold update_pending_tools (map ev_data acknowledged) (xn_pending x),
                 xn_acked := xn_acked x @ map ev_data acknowledged\<rparr>
           | Inl (Error _) \<Rightarrow> x\<lparr>xn_inflight := None\<rparr>
           | Inl (Panic _) \<Rightarrow> x\<lparr>xn_inflight := None, xn_phase := Finishing panicked_outcome\<rparr>) w) (xn_inflight x)
      else None)"

fun result_outcome :: "execution_result \<Rightarrow> turn_outcome" where
  "result_outcome Execution_Ok = Outcome_Completed None"
| "result_outcome (Execution_Err e) = Outcome_Failed e"
| "result_outcome Execution_Panicked = panicked_outcome"

definition execution_end :: "'p harness_env \<Rightarrow> turn_key \<Rightarrow> execution_result \<Rightarrow> 'p execution \<Rightarrow> 'p harness_world \<Rightarrow> 'p harness_world option" where
  "execution_end env key r x w =
     (if polled x \<and> \<not> needs_restore env x
      then Some (set_execution key (x\<lparr>xn_phase := Finishing (result_outcome r)\<rparr>) w) else None)"

definition execution_yield :: "turn_key \<Rightarrow> 'p execution \<Rightarrow> 'p harness_world \<Rightarrow> 'p harness_world option" where
  "execution_yield key x w =
     (case xn_phase x of
        Executing True suspending \<Rightarrow> Some (set_execution key (x\<lparr>xn_phase := Executing False suspending\<rparr>) w)
      | _ \<Rightarrow> None)"

text \<open>After the loop: the executor cleans up a stopped turn; a failed cleanup only matters to a cancelled one.\<close>

fun cleaned_outcome :: "turn_outcome \<Rightarrow> cleanup_answer \<Rightarrow> turn_outcome" where
  "cleaned_outcome Outcome_Cancelled (Cleanup_Failed e) = Outcome_Failed (with_context ''failed to cancel harness turn'' e)"
| "cleaned_outcome Outcome_Cancelled Cleanup_Panicked = Outcome_Failed ''harness cancellation panicked''"
| "cleaned_outcome outcome _ = outcome"

definition execution_cleanup :: "turn_key \<Rightarrow> cleanup_answer \<Rightarrow> 'p execution \<Rightarrow> 'p harness_world \<Rightarrow> 'p harness_world option" where
  "execution_cleanup key answer x w =
     (case xn_phase x of
        Stopping outcome \<Rightarrow> Some (set_execution key (x\<lparr>xn_phase := Finishing (cleaned_outcome outcome answer)\<rparr>) w)
      | _ \<Rightarrow> None)"

definition execution_finish :: "'p harness_env \<Rightarrow> turn_key \<Rightarrow> 'p execution \<Rightarrow> 'p harness_world \<Rightarrow> 'p harness_world option" where
  "execution_finish env key x w =
     (case xn_phase x of
        Finishing outcome \<Rightarrow>
          Some (set_execution key (x\<lparr>xn_phase := Releasing outcome\<rparr>) (snd (emit (he_log env) (TurnFinished key outcome []) w)))
      | _ \<Rightarrow> None)"

definition execution_release :: "'p harness_env \<Rightarrow> turn_key \<Rightarrow> 'p execution \<Rightarrow> 'p harness_world \<Rightarrow> 'p harness_world option" where
  "execution_release env key x w =
     (case xn_phase x of
        Releasing _ \<Rightarrow> Some (set_execution key (x\<lparr>xn_phase := Ended\<rparr>) (snd (emit (he_log env) (ExecutionStopped key) w)))
      | _ \<Rightarrow> None)"

definition execution_remove :: "turn_key \<Rightarrow> 'p execution \<Rightarrow> 'p harness_world \<Rightarrow> 'p harness_world option" where
  "execution_remove key x w =
     (if xn_phase x = Ended
      then Some (w\<lparr>hw_turns := AList.delete key (hw_turns w), hw_executions := AList.delete key (hw_executions w)\<rparr>) else None)"

text \<open>A step of a task, with what its environment answers.\<close>

datatype 'p task_step =
    Check | Boundary | Restore | Append "'p event_data list" | Acknowledge | End execution_result | Yield
  | Cleanup cleanup_answer | Finish_Step | Release | Remove

fun execution_step :: "'p harness_env \<Rightarrow> turn_key \<Rightarrow> 'p task_step \<Rightarrow> 'p execution \<Rightarrow> 'p harness_world \<Rightarrow> 'p harness_world option" where
  "execution_step env key Check x w = execution_check env key x w"
| "execution_step env key Boundary x w = execution_boundary key x w"
| "execution_step env key Restore x w = execution_restore env key x w"
| "execution_step env key (Append data) x w = execution_append env key data x w"
| "execution_step env key Acknowledge x w = execution_acknowledge key x w"
| "execution_step env key (End r) x w = execution_end env key r x w"
| "execution_step env key Yield x w = execution_yield key x w"
| "execution_step env key (Cleanup answer) x w = execution_cleanup key answer x w"
| "execution_step env key Finish_Step x w = execution_finish env key x w"
| "execution_step env key Release x w = execution_release env key x w"
| "execution_step env key Remove x w = execution_remove key x w"

section \<open>The harness as a whole\<close>

inductive harness_step :: "'p harness_env \<Rightarrow> 'p harness_world \<Rightarrow> 'p harness_world \<Rightarrow> bool" for env where
  init: "harness_step env w (snd (init_harness w))"
| prepare: "harness_step env w (snd (prepare_start env user work w))"
| submit: "map_of (hw_starting w) key = Some work \<Longrightarrow> harness_step env w (submit_prepared env key work w)"
| control: "harness_step env w (snd (submit_control command w))"
| shutdown: "harness_step env w (shutdown_turns w)"
| task: "map_of (hw_executions w) key = Some x \<Longrightarrow> execution_step env key s x w = Some w' \<Longrightarrow> harness_step env w w'"

inductive harness_reachable :: "'p harness_env \<Rightarrow> 'p harness_world \<Rightarrow> bool" for env where
  start: "harness_reachable env (new_harness l handles)"
| step: "harness_reachable env w \<Longrightarrow> harness_step env w w' \<Longrightarrow> harness_reachable env w'"

end
