(* ===== verification/Harness_Sample.thy ===== *)
theory Harness_Sample
  imports Harness_Turns
begin

text \<open>
  A concrete harness with one turn on the sample log, on which the theorems about the harness are evaluated: its
  executor can suspend and cannot reconcile tools, and every approval is the same.
\<close>

definition sample_tool :: tool_request where
  "sample_tool = \<lparr> tr_function_name = ''shell'', tr_arguments = [], tr_namespace = None \<rparr>"

definition sample_approval :: approval_request where
  "sample_approval = \<lparr> aq_approval_id = ''a'', aq_tool_call_id = Some ''c'', aq_round = Some 0, aq_request = sample_tool \<rparr>"

definition sample_harness_env :: "unit harness_env" where
  "sample_harness_env = \<lparr> he_log = sample_env, he_encode = (\<lambda>_. Inr ()), he_no_metadata = (), he_null = (),
     he_can_suspend = (\<lambda>_. True), he_can_reconcile = (\<lambda>_. False), he_can_resume_approval = (\<lambda>_. True),
     he_tool_round = (\<lambda>_. Inr 0), he_approval_request = (\<lambda>_. Inr sample_approval),
     he_approval_response = (\<lambda>_. bail ''no response''), he_tool_request = (\<lambda>_. sample_tool) \<rparr>"

lemma sample_harness_env_simps [simp]:
  "he_log sample_harness_env = sample_env" "he_no_metadata sample_harness_env = ()" "he_null sample_harness_env = ()"
  "he_can_suspend sample_harness_env c" "\<not> he_can_reconcile sample_harness_env c" "he_can_resume_approval sample_harness_env c"
  "he_tool_round sample_harness_env p = Inr 0" "he_approval_request sample_harness_env p = Inr sample_approval"
  "he_tool_request sample_harness_env p = sample_tool" "he_encode sample_harness_env x = Inr ()"
  by (simp_all add: sample_harness_env_def)

section \<open>A turn and its journal\<close>

lemma sample_turn:
  "\<exists>t l own. turn_at sample_env t l sample_events own \<and> \<not> hs_finished t \<and> hs_handle t = sample_handle \<and>
     hs_turn t = \<lparr> tn_id = 50, tn_session_id = 2 \<rparr> \<and> ids_fresh sample_env 20 l (sample_events @ own) \<and>
     map ev_data own = [TurnStarted (Some ''u''), Messages ()] \<and>
     store_get (lw_store l) (record_path ''c'') = Some (Stored_Record sample_record)"
proof -
  obtain t l where run: "begin_turn sample_env (Some ''u'') sample_handle sample_request sample_world = (Inr t, l)"
    "hs_handle t = sample_handle" "\<not> hs_finished t" "store_get (lw_store l) (record_path ''c'') = Some (Stored_Record sample_record)"
    using sample_begin by blast
  have start: "turn_opening (Some ''u'') sample_request = [TurnStarted (Some ''u''), Messages ()]"
    by (simp add: turn_opening_def sample_request_def)
  have log: "log_is sample_env (ch_dir sample_handle) (lw_store sample_world) sample_events" using sample_log_is by simp
  have "\<forall>d \<in> set (turn_opening (Some ''u'') sample_request). \<not> is_turn_ended d" by (simp add: start)
  then obtain own where "turn_at sample_env t l sample_events own"
    "ids_fresh sample_env 20 l (sample_events @ own)"
    "map ev_data own = turn_opening (Some ''u'') sample_request" "hs_turn t = bt_turn sample_request"
    using begin_turn_current [OF run(1) log, of 23] sample_fresh [of 23] by (auto simp: start)
  moreover have "bt_turn sample_request = \<lparr> tn_id = 50, tn_session_id = 2 \<rparr>" by (simp add: sample_request_def)
  ultimately show ?thesis using run(2-4) start by (intro exI [of _ t] exI [of _ l] exI [of _ own]) simp
qed

lemma sample_turn_add:
  assumes "hs_handle t = sample_handle" and "store_get (lw_store w) (record_path ''c'') = Some (Stored_Record sample_record)"
  shows "\<exists>added t' w'. turn_add_events sample_env t [a, b, c] w = (Inr (added, t'), w')"
  using assms by (simp add: turn_add_events_def turn_append_def sample_run_simps ok_or_def ensure_def)

section \<open>A started turn\<close>

definition sample_start :: "unit executor_turn" where
  "sample_start = \<lparr> xt_agent_id = 5, xt_thread = sample_handle, xt_record = \<lparr> tn_id = 50, tn_session_id = 2 \<rparr>, xt_handle = 0,
     xt_work = \<lparr> wk_streaming = False, wk_agent_config = \<lparr> ag_model = ''m'', ag_max_output_tokens = None, ag_other = () \<rparr>, wk_thread_config = (),
       wk_request = \<lparr> rq_input = Some (), rq_session_id = Some 2 \<rparr> \<rparr>, xt_recovering = False \<rparr>"

definition sample_key :: turn_key where
  "sample_key = executor_key sample_start"

definition sample_execution :: "unit execution" where
  "sample_execution = \<lparr> xn_work = sample_start, xn_seen = 0, xn_phase = Executing False False, xn_restored = False,
     xn_inflight = None, xn_pending = {}, xn_taken = {}, xn_acked = [] \<rparr>"

definition sample_new :: "unit harness_world" where
  "sample_new = new_harness sample_world
     (\<lambda>_. \<lparr> hs_handle = sample_handle, hs_turn = \<lparr> tn_id = 50, tn_session_id = 2 \<rparr>, hs_latest_event_id = None, hs_finished = False \<rparr>)"

lemma sample_open:
  "\<exists>t l. open_turn sample_harness_env (Some ''u'') sample_handle \<lparr> tn_id = 50, tn_session_id = 2 \<rparr> (xt_work sample_start) False sample_world = (Inr t, l)"
  by (simp add: open_turn_def begin_turn_def sample_start_def sample_record_get sample_run_simps)

text \<open>A harness with one running turn, with and without a pending stop signal.\<close>

definition sample_state :: "stop_watch \<Rightarrow> bool \<Rightarrow> unit execution \<Rightarrow> unit harness_world \<Rightarrow> bool" where
  "sample_state sw stopping x w \<longleftrightarrow> harness_reachable sample_harness_env w \<and> hw_initialized w \<and> hw_stopping w = stopping \<and>
     hw_turns w = [(sample_key, sw)] \<and> hw_executions w = [(sample_key, x)] \<and> hw_started w = [sample_key] \<and> hw_completed w = []"

lemma sample_started: "\<exists>w. sample_state new_watch False sample_execution w"
proof -
  obtain t l where run: "open_turn sample_harness_env (Some ''u'') sample_handle \<lparr> tn_id = 50, tn_session_id = 2 \<rparr> (xt_work sample_start) False sample_world = (Inr t, l)"
    using sample_open by blast
  have "harness_reachable sample_harness_env sample_new" unfolding sample_new_def by (rule harness_reachable.start)
  then have "harness_reachable sample_harness_env (snd (init_harness sample_new))" by (rule harness_reachable.step) (rule harness_step.init)
  then have r: "harness_reachable sample_harness_env (snd (prepare_start sample_harness_env (Some ''u'') sample_start (snd (init_harness sample_new))))"
    by (rule harness_reachable.step) (rule harness_step.prepare)
  let ?w = "snd (prepare_start sample_harness_env (Some ''u'') sample_start (snd (init_harness sample_new)))"
  have w: "hw_starting ?w = [(sample_key, sample_start)]" "hw_initialized ?w" "\<not> hw_stopping ?w" "hw_turns ?w = []" "hw_executions ?w = []"
    "hw_started ?w = []" "hw_completed ?w = []"
    using run by (simp_all add: sample_new_def init_harness_def prepare_start_def register_turn_def new_harness_def journal_def io_simps ensure_def
        sample_start_def sample_key_def set_route_def)
  have "harness_reachable sample_harness_env (submit_prepared sample_harness_env sample_key sample_start ?w)"
    by (rule harness_reachable.step [OF r]) (rule harness_step.submit, simp add: w)
  moreover have "submit_prepared sample_harness_env sample_key sample_start ?w = ?w\<lparr>hw_starting := [], hw_turns := [(sample_key, new_watch)],
      hw_started := [sample_key], hw_executions := [(sample_key, sample_execution)]\<rparr>"
    using w by (simp add: submit_prepared_def submit_start_def io_simps ensure_def Let_def sample_key_def [symmetric] sample_execution_def)
  ultimately show ?thesis using w by (intro exI) (auto simp: sample_state_def)
qed

lemma sample_control:
  assumes "sample_state sw False x w" and "sw_value sw \<noteq> Some Stop_Cancel" and "sw_value sw \<noteq> Some Stop_Shutdown"
    and "command_reason command = (sample_key, reason)"
  shows "\<exists>w'. sample_state (send_replace reason sw) False x w'"
proof -
  have "harness_reachable sample_harness_env (snd (submit_control command w))"
    using assms(1) by (auto simp: sample_state_def intro: harness_reachable.step harness_step.control)
  moreover have "snd (submit_control command w) = w\<lparr>hw_turns := [(sample_key, send_replace reason sw)]\<rparr>"
    using assms by (simp add: submit_control_def signal_turn_def sample_state_def io_simps ensure_def)
  ultimately show ?thesis using assms(1) by (auto simp: sample_state_def)
qed

lemma sample_task:
  assumes "sample_state sw False x w" and "\<And>w. map_of (hw_turns w) sample_key = Some sw \<Longrightarrow>
      execution_step sample_harness_env sample_key s x w = Some (set_execution sample_key x' w)"
  shows "sample_state sw False x' (set_execution sample_key x' w)"
proof -
  have "harness_step sample_harness_env w (set_execution sample_key x' w)"
    using assms by (intro harness_step.task [of w sample_key x sample_harness_env s]) (simp_all add: sample_state_def)
  then show ?thesis using assms(1) by (auto simp: sample_state_def set_execution_def intro: harness_reachable.step)
qed

end
