(* ===== verification/Harness_Safety.thy ===== *)
theory Harness_Safety
  imports Harness_Sample
begin

text \<open>
  What the harness guarantees in every interleaving of starts, control commands, shutdown and the tasks of its turns
  (\<^verbatim>\<open>crates/executor/src/harness_adapter.rs\<close>, \<^verbatim>\<open>harness_events.rs\<close>).
\<close>

section \<open>Pending tool calls\<close>

lemma unresolved_stays:
  "call \<in> P \<Longrightarrow> \<forall>res. ToolResult call res \<notin> set ds \<Longrightarrow> call \<in> fold update_pending_tools ds P"
proof (induction ds arbitrary: P)
  case (Cons d ds)
  have "call \<in> update_pending_tools d P" using Cons.prems by (cases d) auto
  then show ?case using Cons by simp
qed simp

definition tools_resolved :: "string set \<Rightarrow> 'p event_data list \<Rightarrow> bool" where
  "tools_resolved taken ds \<longleftrightarrow> (\<forall>call \<in> taken. \<exists>res. ToolResult call res \<in> set ds) \<and>
     (\<forall>pre call request post. ds = pre @ ToolRequested call request # post \<longrightarrow> (\<exists>res. ToolResult call res \<in> set post))"

lemma none_pending_resolved:
  assumes "fold update_pending_tools ds taken = {}"
  shows "tools_resolved taken ds"
proof -
  have "\<exists>res. ToolResult call res \<in> set post" if "ds = pre @ ToolRequested call request # post" for pre call request post
  proof (rule ccontr)
    assume "\<nexists>res. ToolResult call res \<in> set post"
    then have "call \<in> fold update_pending_tools post (insert call (fold update_pending_tools pre taken))"
      by (intro unresolved_stays) auto
    moreover have "fold update_pending_tools ds taken = fold update_pending_tools post (insert call (fold update_pending_tools pre taken))"
      by (simp add: that)
    ultimately show False using assms by (metis empty_iff)
  qed
  moreover have "\<exists>res. ToolResult call res \<in> set ds" if "call \<in> taken" for call
    using unresolved_stays [OF that, of ds] assms by (metis empty_iff)
  ultimately show ?thesis by (simp add: tools_resolved_def)
qed

section \<open>The invariant of one turn\<close>

definition route_open :: "'p harness_world \<Rightarrow> turn_key \<Rightarrow> turn_outcome option \<Rightarrow> bool" where
  "route_open w key outcome \<longleftrightarrow>
     (\<exists>r. map_of (hw_routes w) key = Some r \<and> rr_completion r \<and> rr_outcome r = outcome)"

text \<open>A task that has not released its route owns it; nobody is starting the same turn meanwhile.\<close>

fun task_phase_ok :: "'p harness_world \<Rightarrow> turn_key \<Rightarrow> exec_phase \<Rightarrow> bool" where
  "task_phase_ok w key (Releasing outcome) \<longleftrightarrow> route_open w key (Some outcome) \<and> map_of (hw_starting w) key = None"
| "task_phase_ok w key Ended \<longleftrightarrow> True"
| "task_phase_ok w key _ \<longleftrightarrow> route_open w key None \<and> map_of (hw_starting w) key = None"

definition final_reason :: "stop_reason option \<Rightarrow> bool" where
  "final_reason reason \<longleftrightarrow> reason = Some Stop_Cancel \<or> reason = Some Stop_Shutdown"

text \<open>A cancellation or shutdown is never overwritten and not missed by a task that still executes.\<close>

definition stop_ok :: "'p harness_world \<Rightarrow> turn_key \<Rightarrow> 'p execution \<Rightarrow> bool" where
  "stop_ok w key x \<longleftrightarrow> (\<exists>sw. map_of (hw_turns w) key = Some sw \<and> xn_seen x \<le> sw_version sw \<and>
     (hw_stopping w \<longrightarrow> final_reason (sw_value sw)) \<and>
     (\<forall>c s. xn_phase x = Executing c s \<longrightarrow> final_reason (sw_value sw) \<longrightarrow> xn_seen x < sw_version sw))"

fun suspended_phase :: "exec_phase \<Rightarrow> bool" where
  "suspended_phase (Stopping outcome) \<longleftrightarrow> outcome = Outcome_Suspended"
| "suspended_phase (Finishing outcome) \<longleftrightarrow> outcome = Outcome_Suspended"
| "suspended_phase (Releasing outcome) \<longleftrightarrow> outcome = Outcome_Suspended"
| "suspended_phase _ \<longleftrightarrow> False"

definition tools_ok :: "'p harness_env \<Rightarrow> 'p execution \<Rightarrow> bool" where
  "tools_ok env x \<longleftrightarrow> xn_pending x = fold update_pending_tools (xn_acked x) (xn_taken x) \<and>
     (suspended_phase (xn_phase x) \<longrightarrow> reconciles_tools env x \<or> xn_pending x = {} \<and> xn_inflight x = None) \<and>
     (needs_restore env x \<longrightarrow> xn_acked x = [] \<and> xn_inflight x = None)"

lemmas tools_defs = tools_ok_def needs_restore_def reconciles_tools_def

definition unreported :: "'p execution option \<Rightarrow> nat" where
  "unreported x = (case x of None \<Rightarrow> 0 | Some x \<Rightarrow> if xn_phase x = Ended then 0 else 1)"

definition counts_ok :: "'p harness_world \<Rightarrow> turn_key \<Rightarrow> bool" where
  "counts_ok w key \<longleftrightarrow>
     count_list (hw_started w) key = count_list (map fst (hw_completed w)) key + unreported (map_of (hw_executions w) key)"

definition key_ok :: "'p harness_env \<Rightarrow> turn_key \<Rightarrow> 'p harness_world \<Rightarrow> bool" where
  "key_ok env key w \<longleftrightarrow>
     (case map_of (hw_executions w) key of
        None \<Rightarrow> map_of (hw_turns w) key = None
      | Some x \<Rightarrow> task_phase_ok w key (xn_phase x) \<and> stop_ok w key x \<and> tools_ok env x) \<and>
     (\<forall>work. map_of (hw_starting w) key = Some work \<longrightarrow> executor_key work = key \<and> route_open w key None) \<and>
     counts_ok w key"

text \<open>What the invariant of a turn depends on.\<close>

definition same_turn :: "turn_key \<Rightarrow> 'p harness_world \<Rightarrow> 'p harness_world \<Rightarrow> bool" where
  "same_turn key w w' \<longleftrightarrow> map_of (hw_turns w') key = map_of (hw_turns w) key \<and> hw_stopping w' = hw_stopping w \<and>
     map_of (hw_executions w') key = map_of (hw_executions w) key \<and> map_of (hw_routes w') key = map_of (hw_routes w) key \<and>
     map_of (hw_starting w') key = map_of (hw_starting w) key \<and>
     count_list (hw_started w') key = count_list (hw_started w) key \<and>
     count_list (map fst (hw_completed w')) key = count_list (map fst (hw_completed w)) key"

lemma same_turn_refl [simp]: "same_turn key w w"
  by (simp add: same_turn_def)

lemma same_turn_trans: "same_turn key w1 w2 \<Longrightarrow> same_turn key w2 w3 \<Longrightarrow> same_turn key w1 w3"
  by (simp add: same_turn_def)

lemma task_phase_cong:
  assumes "map_of (hw_routes w') key = map_of (hw_routes w) key" and "map_of (hw_starting w') key = map_of (hw_starting w) key"
  shows "task_phase_ok w' key p = task_phase_ok w key p"
  using assms by (cases p) (simp_all add: route_open_def)

lemma same_turn_ok: "same_turn key w w' \<Longrightarrow> key_ok env key w \<Longrightarrow> key_ok env key w'"
  by (simp add: same_turn_def key_ok_def stop_ok_def counts_ok_def route_open_def task_phase_cong [of w' key w] split: option.splits)

section \<open>Frames\<close>

text \<open>Additions to the journal change none of the registries.\<close>

definition registries :: "'p harness_world \<Rightarrow> 'p harness_world \<Rightarrow> bool" where
  "registries w w' \<longleftrightarrow> hw_turns w' = hw_turns w \<and> hw_stopping w' = hw_stopping w \<and> hw_executions w' = hw_executions w \<and>
     hw_routes w' = hw_routes w \<and> hw_starting w' = hw_starting w \<and> hw_started w' = hw_started w \<and> hw_completed w' = hw_completed w"

lemma registries_refl: "reflp registries"
  by (simp add: reflp_def registries_def)

lemma registries_trans: "transp registries"
  by (simp add: transp_def registries_def)

lemma registries_same: "registries w w' \<Longrightarrow> same_turn key w w'"
  by (simp add: registries_def same_turn_def)

lemmas registries_pure = io_keeps_pure [OF registries_refl]
lemmas registries_bind = io_keeps_bind [OF registries_trans]

lemma registries_journal: "io_keeps registries (journal m)"
  by (simp add: io_keeps_def journal_def registries_def split: prod.split)

lemma registries_append: "io_keeps registries (append_route env key active events)"
  unfolding append_route_def
  by (auto intro!: registries_pure registries_bind registries_journal)
     (simp_all add: io_keeps_def io_modify_def registries_def stream_events_def)

lemma run_registries: "io_keeps registries m \<Longrightarrow> m w = (r, w') \<Longrightarrow> registries w w'"
  by (metis io_keeps_def snd_conv)

lemma emit_events_registries: "io_keeps registries (emit env (TurnEvents key data))"
  unfolding emit_def emit_to_def harness_event.case
  by (intro registries_bind registries_pure registries_append)

lemma registries_add_events: "io_keeps registries (harness_add_events env key handle data)"
  unfolding harness_add_events_def
  by (auto intro!: registries_pure registries_bind registries_journal emit_events_registries)
     (simp_all add: io_keeps_def io_modify_def registries_def)

text \<open>Reporting and releasing through an open route.\<close>

lemma emit_finished:
  assumes "route_open w key None"
  shows "\<exists>r. snd (emit env (TurnFinished key outcome []) w) = set_route key r w \<and> rr_completion r \<and> rr_outcome r = Some outcome"
proof -
  obtain r where "map_of (hw_routes w) key = Some r" "rr_completion r" "rr_outcome r = None"
    using assms by (auto simp: route_open_def)
  then show ?thesis
    by (intro exI [of _ "r\<lparr>rr_outcome := Some outcome\<rparr>"])
       (simp add: emit_def emit_to_def append_route_def io_simps ok_or_def ensure_def)
qed

lemma emit_stopped:
  assumes "route_open w key (Some outcome)"
  shows "snd (emit env (ExecutionStopped key) w) = remove_route key (w\<lparr>hw_completed := hw_completed w @ [(key, outcome)]\<rparr>)"
  using assms by (auto simp: route_open_def emit_def emit_to_def io_simps ok_or_def ensure_def)

section \<open>Every step keeps the invariant\<close>

lemma set_execution_same: "key' \<noteq> key \<Longrightarrow> same_turn key' w (set_execution key x w)"
  by (simp add: same_turn_def set_execution_def update_conv')

lemma set_execution_fields [simp]:
  "hw_turns (set_execution key x w) = hw_turns w" "hw_stopping (set_execution key x w) = hw_stopping w"
  "hw_routes (set_execution key x w) = hw_routes w" "hw_starting (set_execution key x w) = hw_starting w"
  "hw_started (set_execution key x w) = hw_started w" "hw_completed (set_execution key x w) = hw_completed w"
  "map_of (hw_executions (set_execution key x w)) key = Some x"
  by (simp_all add: set_execution_def update_conv')

text \<open>A task that changes only its own state and stays a reporter of its turn.\<close>

lemma set_execution_ok:
  assumes "key_ok env key w" and "map_of (hw_executions w) key = Some x" and "registries w w1"
    and "xn_phase x \<noteq> Ended" and "xn_phase x' \<noteq> Ended"
    and "\<And>sw. map_of (hw_turns w) key = Some sw \<Longrightarrow> stop_ok w key x \<Longrightarrow> stop_ok w key x'"
    and "task_phase_ok w key (xn_phase x) \<Longrightarrow> task_phase_ok w key (xn_phase x')"
    and "tools_ok env x \<Longrightarrow> tools_ok env x'"
  shows "key_ok env key (set_execution key x' w1)"
proof -
  let ?w = "set_execution key x' w1"
  have old: "task_phase_ok w key (xn_phase x)" "stop_ok w key x" "tools_ok env x"
    "\<forall>work. map_of (hw_starting w) key = Some work \<longrightarrow> executor_key work = key \<and> route_open w key None" "counts_ok w key"
    using assms(1,2) by (simp_all add: key_ok_def)
  have same: "map_of (hw_routes ?w) key = map_of (hw_routes w) key" "map_of (hw_starting ?w) key = map_of (hw_starting w) key"
    "hw_turns ?w = hw_turns w" "hw_stopping ?w = hw_stopping w" "hw_started ?w = hw_started w" "hw_completed ?w = hw_completed w"
    using assms(3) by (simp_all add: registries_def)
  have "stop_ok w key x'" using assms(6) old(2) by (auto simp: stop_ok_def)
  then have "stop_ok ?w key x'" using same by (simp add: stop_ok_def)
  moreover have "task_phase_ok ?w key (xn_phase x')" using assms(7) old(1) task_phase_cong [OF same(1,2)] by simp
  moreover have "route_open ?w key = route_open w key" using same(1) by (simp add: route_open_def fun_eq_iff)
  moreover have "counts_ok ?w key" using old(5) same(5,6) assms(2,4,5) by (simp add: counts_ok_def unreported_def)
  ultimately show ?thesis using assms(8) old(3,4) same(2) by (simp add: key_ok_def)
qed

lemma key_okD:
  assumes "key_ok env key w" and "map_of (hw_executions w) key = Some x"
  shows "task_phase_ok w key (xn_phase x)" and "stop_ok w key x" and "tools_ok env x" and "counts_ok w key"
    and "\<And>work. map_of (hw_starting w) key = Some work \<Longrightarrow> executor_key work = key \<and> route_open w key None"
  using assms by (simp_all add: key_ok_def)

lemma registries_self [simp]: "registries w w"
  by (simp add: registries_def)

lemma check_ok:
  assumes "key_ok env key w" and "map_of (hw_executions w) key = Some x" and "execution_check env key x w = Some w'"
  shows "key_ok env key w'"
proof -
  obtain s where s: "xn_phase x = Executing False s"
    using assms(3) by (auto simp: execution_check_def split: exec_phase.splits bool.splits)
  obtain sw where sw: "map_of (hw_turns w) key = Some sw" "xn_seen x \<le> sw_version sw"
    using key_okD(2) [OF assms(1,2)] by (auto simp: stop_ok_def)
  show ?thesis
  proof (cases "sw_version sw = xn_seen x")
    case True
    then have w': "w' = set_execution key (x\<lparr>xn_phase := Executing True s\<rparr>) w"
      using assms(3) s sw by (simp add: execution_check_def stop_signal_def)
    show ?thesis unfolding w'
      by (rule set_execution_ok [OF assms(1,2)]) (use s in \<open>auto simp: stop_ok_def tools_defs\<close>)
  next
    case False
    let ?x = "x\<lparr>xn_seen := sw_version sw, xn_phase := on_signal env x s (sw_value sw)\<rparr>"
    have w': "w' = set_execution key ?x w"
      using False assms(3) s sw by (simp add: execution_check_def stop_signal_def)
    have phase: "(\<exists>c. on_signal env x s (sw_value sw) = Executing False c) \<and> \<not> final_reason (sw_value sw) \<or>
        (\<exists>o'. on_signal env x s (sw_value sw) = Stopping o' \<and> (o' = Outcome_Suspended \<longrightarrow> reconciles_tools env x))"
      by (auto simp: on_signal_def final_reason_def split: option.split stop_reason.split)
    show ?thesis unfolding w'
      by (rule set_execution_ok [OF assms(1,2)]) (use s sw phase in \<open>auto simp: stop_ok_def tools_defs\<close>)
  qed
qed

text \<open>The other steps in the loop.\<close>

lemma polled_phase: "polled x \<Longrightarrow> \<exists>s. xn_phase x = Executing True s"
  by (auto simp: polled_def)

lemma outcomes_not_suspended [simp]:
  "error_outcome e \<noteq> Outcome_Suspended" "result_outcome r \<noteq> Outcome_Suspended" "panicked_outcome \<noteq> Outcome_Suspended"
  by (cases e; simp add: panicked_outcome_def) ((cases r; simp add: panicked_outcome_def), simp add: panicked_outcome_def)

lemma cleaned_suspended [simp]: "cleaned_outcome outcome answer = Outcome_Suspended \<longleftrightarrow> outcome = Outcome_Suspended"
  by (cases outcome; cases answer) auto

lemma loop_steps_ok:
  assumes "key_ok env key w" and "map_of (hw_executions w) key = Some x"
  shows "execution_boundary key x w = Some w' \<Longrightarrow> key_ok env key w'"
    and "execution_yield key x w = Some w' \<Longrightarrow> key_ok env key w'"
    and "execution_end env key r x w = Some w' \<Longrightarrow> key_ok env key w'"
    and "execution_cleanup key answer x w = Some w' \<Longrightarrow> key_ok env key w'"
proof -
  assume "execution_boundary key x w = Some w'"
  then show "key_ok env key w'"
    by (auto simp: execution_boundary_def stop_ok_def tools_defs split: if_splits intro!: set_execution_ok [OF assms])
next
  assume "execution_yield key x w = Some w'"
  then obtain s where "xn_phase x = Executing True s" "w' = set_execution key (x\<lparr>xn_phase := Executing False s\<rparr>) w"
    by (auto simp: execution_yield_def split: exec_phase.splits bool.splits)
  then show "key_ok env key w'"
    by (auto simp: stop_ok_def tools_defs intro!: set_execution_ok [OF assms])
next
  assume "execution_end env key r x w = Some w'"
  then show "key_ok env key w'"
    using polled_phase [of x]
    by (auto simp: execution_end_def stop_ok_def tools_defs split: if_splits intro!: set_execution_ok [OF assms])
next
  assume "execution_cleanup key answer x w = Some w'"
  then obtain outcome where "xn_phase x = Stopping outcome"
    "w' = set_execution key (x\<lparr>xn_phase := Finishing (cleaned_outcome outcome answer)\<rparr>) w"
    by (auto simp: execution_cleanup_def split: exec_phase.splits)
  then show "key_ok env key w'"
    by (auto simp: stop_ok_def tools_defs intro!: set_execution_ok [OF assms])
qed

lemma restore_ok:
  assumes "key_ok env key w" and "map_of (hw_executions w) key = Some x" and "execution_restore env key x w = Some w'"
  shows "key_ok env key w'"
proof -
  obtain r w1 where run: "journal (restore_recovery_tools env (xn_work x)) w = (r, w1)" by fastforce
  have same: "registries w w1" by (rule run_registries [OF registries_journal run])
  obtain s where s: "xn_phase x = Executing True s" using assms(3) polled_phase by (auto simp: execution_restore_def split: if_splits)
  have first: "xn_acked x = []"
    using key_okD(3) [OF assms(1,2)] assms(3) by (auto simp: tools_ok_def execution_restore_def split: if_splits)
  show ?thesis
  proof (cases r)
    case (Inl e)
    then have w': "w' = set_execution key (x\<lparr>xn_phase := Finishing (error_outcome e)\<rparr>) w1"
      using assms(3) run by (simp add: execution_restore_def split: if_splits)
    show ?thesis unfolding w'
      by (rule set_execution_ok [OF assms(1,2) same]) (use s in \<open>auto simp: stop_ok_def tools_defs\<close>)
  next
    case (Inr calls)
    then have w': "w' = set_execution key (x\<lparr>xn_restored := True, xn_pending := calls, xn_taken := calls\<rparr>) w1"
      using assms(3) run by (simp add: execution_restore_def split: if_splits)
    show ?thesis unfolding w'
      by (rule set_execution_ok [OF assms(1,2) same]) (use s first in \<open>auto simp: stop_ok_def tools_defs\<close>)
  qed
qed

lemma append_ok:
  assumes "key_ok env key w" and "map_of (hw_executions w) key = Some x" and "execution_append env key data x w = Some w'"
  shows "key_ok env key w'"
proof -
  obtain r w1 where run: "harness_add_events (he_log env) key (xt_handle (xn_work x)) data w = (r, w1)" by fastforce
  have same: "registries w w1" by (rule run_registries [OF registries_add_events run])
  obtain s where s: "xn_phase x = Executing True s" "\<not> needs_restore env x"
    using assms(3) polled_phase by (auto simp: execution_append_def split: if_splits)
  have w': "w' = set_execution key (x\<lparr>xn_inflight := Some r\<rparr>) w1"
    using assms(3) run by (simp add: execution_append_def split: if_splits)
  show ?thesis unfolding w'
    by (rule set_execution_ok [OF assms(1,2) same]) (use s in \<open>auto simp: stop_ok_def tools_defs\<close>)
qed

lemma acknowledge_ok:
  assumes "key_ok env key w" and "map_of (hw_executions w) key = Some x" and "execution_acknowledge key x w = Some w'"
  shows "key_ok env key w'"
proof -
  obtain r s where s: "xn_phase x = Executing True s" "xn_inflight x = Some r"
    using assms(3) polled_phase by (auto simp: execution_acknowledge_def split: if_splits)
  have w': "w' = set_execution key (case r of
       Inr acknowledged \<Rightarrow> x\<lparr>xn_inflight := None, xn_pending := fold update_pending_tools (map ev_data acknowledged) (xn_pending x),
           xn_acked := xn_acked x @ map ev_data acknowledged\<rparr>
     | Inl (Error _) \<Rightarrow> x\<lparr>xn_inflight := None\<rparr>
     | Inl (Panic _) \<Rightarrow> x\<lparr>xn_inflight := None, xn_phase := Finishing panicked_outcome\<rparr>) w"
    using assms(3) s(2) by (simp add: execution_acknowledge_def split: if_splits)
  show ?thesis unfolding w'
    by (rule set_execution_ok [OF assms(1,2) registries_self])
       (use s in \<open>auto simp: stop_ok_def tools_defs split: sum.split error.split\<close>)
qed

lemma finish_ok:
  assumes "key_ok env key w" and "map_of (hw_executions w) key = Some x" and "execution_finish env key x w = Some w'"
  shows "key_ok env key w'"
proof -
  obtain outcome where phase: "xn_phase x = Finishing outcome"
    using assms(3) by (auto simp: execution_finish_def split: exec_phase.splits)
  note old = key_okD [OF assms(1,2)]
  have route: "route_open w key None" "map_of (hw_starting w) key = None" using old(1) phase by simp_all
  obtain r where r: "snd (emit (he_log env) (TurnFinished key outcome []) w) = set_route key r w" "rr_completion r" "rr_outcome r = Some outcome"
    using emit_finished [OF route(1)] by blast
  have w': "w' = set_execution key (x\<lparr>xn_phase := Releasing outcome\<rparr>) (set_route key r w)"
    using assms(3) phase r(1) by (simp add: execution_finish_def)
  have "route_open w' key (Some outcome)" unfolding w' using r by (simp add: route_open_def set_route_def update_conv')
  then show ?thesis
    using old route phase assms(2) unfolding w'
    by (auto simp: key_ok_def stop_ok_def tools_defs counts_ok_def unreported_def set_route_def)
qed

lemma release_ok:
  assumes "key_ok env key w" and "map_of (hw_executions w) key = Some x" and "execution_release env key x w = Some w'"
  shows "key_ok env key w'"
proof -
  obtain outcome where phase: "xn_phase x = Releasing outcome"
    using assms(3) by (auto simp: execution_release_def split: exec_phase.splits)
  note old = key_okD [OF assms(1,2)]
  have route: "route_open w key (Some outcome)" "map_of (hw_starting w) key = None" using old(1) phase by simp_all
  have w': "w' = set_execution key (x\<lparr>xn_phase := Ended\<rparr>) (remove_route key (w\<lparr>hw_completed := hw_completed w @ [(key, outcome)]\<rparr>))"
    using assms(3) phase emit_stopped [OF route(1)] by (simp add: execution_release_def)
  show ?thesis
    using old route phase assms(2) unfolding w'
    by (auto simp: key_ok_def stop_ok_def tools_defs counts_ok_def unreported_def remove_route_def)
qed

lemma remove_ok:
  assumes "key_ok env key w" and "map_of (hw_executions w) key = Some x" and "execution_remove key x w = Some w'"
  shows "key_ok env key w'"
  using assms(3) key_okD [OF assms(1,2)] assms(2)
  by (auto simp: execution_remove_def key_ok_def counts_ok_def unreported_def route_open_def delete_conv' split: if_splits)

text \<open>A task changes its own turn only.\<close>

lemma count_list_append_other: "key' \<noteq> key \<Longrightarrow> count_list (xs @ [key]) key' = count_list xs key'"
  by simp

lemma route_same: "key' \<noteq> key \<Longrightarrow> same_turn key' w (set_route key r w)"
  "key' \<noteq> key \<Longrightarrow> same_turn key' w (remove_route key w)"
  by (simp_all add: same_turn_def set_route_def remove_route_def update_conv' delete_conv')

lemma emit_same:
  assumes "key' \<noteq> key"
  shows "same_turn key' w (snd (emit env (TurnFinished key outcome []) w))" "same_turn key' w (snd (emit env (ExecutionStopped key) w))"
  using assms route_same [OF assms]
  by (auto simp: emit_def emit_to_def append_route_def io_simps ok_or_def ensure_def remove_route_def same_turn_def delete_conv' split: option.split)

lemma execution_step_other:
  assumes "key' \<noteq> key" and "execution_step env key s x w = Some w'"
  shows "same_turn key' w w'"
proof -
  note set = set_execution_same [OF assms(1)] and trans = same_turn_trans [OF _ set_execution_same [OF assms(1)]]
  show ?thesis
  proof (cases s)
    case (Append data)
    obtain r w1 where run: "harness_add_events (he_log env) key (xt_handle (xn_work x)) data w = (r, w1)" by fastforce
    have "same_turn key' w w1" using registries_same [OF run_registries [OF registries_add_events run]] .
    then show ?thesis
      using assms(2) Append run trans
      by (auto simp: execution_append_def split: if_splits)
  next
    case Restore
    obtain r w1 where run: "journal (restore_recovery_tools env (xn_work x)) w = (r, w1)" by fastforce
    have "same_turn key' w w1" using registries_same [OF run_registries [OF registries_journal run]] .
    then show ?thesis
      using assms(2) Restore run trans by (auto simp: execution_restore_def split: if_splits sum.splits)
  next
    case Finish_Step
    then show ?thesis using assms(2)
      by (auto simp: execution_finish_def split: exec_phase.splits intro!: trans emit_same [OF assms(1)])
  next
    case Release
    then show ?thesis using assms(2)
      by (auto simp: execution_release_def split: exec_phase.splits intro!: trans emit_same [OF assms(1)])
  next
    case Remove
    then show ?thesis using assms
      by (auto simp: execution_remove_def same_turn_def delete_conv' split: if_splits)
  qed (use assms(2) set in \<open>auto simp: execution_check_def execution_boundary_def execution_acknowledge_def execution_end_def execution_yield_def
         execution_cleanup_def split: if_splits exec_phase.splits bool.splits option.splits\<close>)
qed

lemma execution_step_ok:
  assumes "key_ok env key w" and "map_of (hw_executions w) key = Some x" and "execution_step env key s x w = Some w'"
  shows "key_ok env key w'"
  using assms(3) check_ok [OF assms(1,2)] loop_steps_ok [OF assms(1,2)] restore_ok [OF assms(1,2)] append_ok [OF assms(1,2)]
    acknowledge_ok [OF assms(1,2)] finish_ok [OF assms(1,2)] release_ok [OF assms(1,2)] remove_ok [OF assms(1,2)]
  by (cases s) simp_all

section \<open>Starts, control and shutdown\<close>

lemma init_same: "same_turn key w (snd (init_harness w))"
  by (simp add: same_turn_def init_harness_def io_simps ensure_def)

lemma signal_ok:
  assumes "key_ok env key' w"
  shows "key_ok env key' (signal_turn key reason w)"
proof (cases "key' = key \<and> (\<exists>sw. map_of (hw_turns w) key = Some sw \<and> \<not> final_reason (sw_value sw))")
  case True
  then obtain sw where sw: "map_of (hw_turns w) key = Some sw" "\<not> final_reason (sw_value sw)" by blast
  have w': "signal_turn key reason w = w\<lparr>hw_turns := AList.update key (send_replace reason sw) (hw_turns w)\<rparr>"
    using sw by (simp add: signal_turn_def final_reason_def)
  obtain x where x: "map_of (hw_executions w) key = Some x"
    using assms True sw by (auto simp: key_ok_def split: option.splits)
  have "stop_ok w key x" using assms True x by (simp add: key_ok_def)
  then have "stop_ok (signal_turn key reason w) key x"
    using sw unfolding w' by (auto simp: stop_ok_def send_replace_def update_conv')
  then show ?thesis
    using assms True x task_phase_cong [of "signal_turn key reason w" key w]
    by (simp add: key_ok_def counts_ok_def route_open_def w')
next
  case False
  then have "same_turn key' w (signal_turn key reason w)"
    by (auto simp: same_turn_def signal_turn_def final_reason_def update_conv' split: option.split)
  then show ?thesis by (rule same_turn_ok [OF _ assms])
qed

lemma control_ok: "key_ok env key w \<Longrightarrow> key_ok env key (snd (submit_control command w))"
  by (cases command) (simp_all add: submit_control_def io_simps ensure_def signal_ok)

lemma map_of_values: "map_of (map (\<lambda>(k, v). (k, f v)) xs) k = map_option f (map_of xs k)"
  by (induction xs) auto

lemma shutdown_ok:
  assumes "key_ok env key w"
  shows "key_ok env key (shutdown_turns w)"
proof (cases "map_of (hw_executions w) key")
  case None
  then have "map_of (hw_turns (shutdown_turns w)) key = None" using assms by (simp add: key_ok_def shutdown_turns_def map_of_values)
  then show ?thesis using assms None by (simp add: key_ok_def counts_ok_def route_open_def shutdown_turns_def)
next
  case (Some x)
  then obtain sw where "map_of (hw_turns w) key = Some sw" "stop_ok w key x" using assms by (auto simp: key_ok_def stop_ok_def)
  then have "stop_ok (shutdown_turns w) key x"
    by (auto simp: stop_ok_def shutdown_turns_def map_of_values send_replace_def final_reason_def)
  then show ?thesis
    using assms Some task_phase_cong [of "shutdown_turns w" key w]
    by (simp add: key_ok_def counts_ok_def route_open_def shutdown_turns_def)
qed

lemma executor_key_handle: "executor_key (work\<lparr>xt_handle := n\<rparr>) = executor_key work"
  by (simp add: executor_key_def)

lemma prepare_ok:
  assumes "key_ok env key w"
  shows "key_ok env key (snd (prepare_start env user work w))"
proof -
  obtain r w1 where run: "journal (open_turn env user (xt_thread work) (xt_record work) (xt_work work) (xt_recovering work)) w = (r, w1)"
    by fastforce
  have same: "registries w w1" by (rule run_registries [OF registries_journal run])
  let ?route = "\<lparr> rr_thread = xt_thread work, rr_record = xt_record work, rr_turn = hw_next w1, rr_outcome = None,
          rr_completion = True, rr_stream = wk_streaming (xt_work work) \<rparr>"
  show ?thesis
  proof (cases "\<exists>t. r = Inr t \<and> map_of (hw_routes w) (executor_key work) = None \<and> key = executor_key work")
    case True
    then obtain t where t: "r = Inr t" "map_of (hw_routes w) key = None" "key = executor_key work" by blast
    let ?w2 = "w1\<lparr>hw_handle := (hw_handle w1)(hw_next w1 := t), hw_next := Suc (hw_next w1)\<rparr>"
    have w': "snd (prepare_start env user work w) = (set_route key ?route ?w2)\<lparr>hw_starting :=
        AList.update key (work\<lparr>xt_handle := hw_next w1\<rparr>) (hw_starting w1)\<rparr>"
      using t same run by (simp add: prepare_start_def register_turn_def io_simps ensure_def registries_def set_route_def)
    have ended: "xn_phase x = Ended" if "map_of (hw_executions w) key = Some x" for x
      using key_okD(1) [OF assms that] t(2) by (cases "xn_phase x") (auto simp: route_open_def)
    let ?w = "snd (prepare_start env user work w)"
    have fields: "map_of (hw_starting ?w) key = Some (work\<lparr>xt_handle := hw_next w1\<rparr>)" "route_open ?w key None"
      "hw_turns ?w = hw_turns w" "hw_stopping ?w = hw_stopping w" "hw_executions ?w = hw_executions w"
      "hw_started ?w = hw_started w" "hw_completed ?w = hw_completed w"
      using same unfolding w' by (simp_all add: route_open_def set_route_def update_conv' registries_def)
    show ?thesis
    proof (cases "map_of (hw_executions w) key")
      case None
      then show ?thesis using assms fields t(3) by (simp add: key_ok_def counts_ok_def executor_key_handle)
    next
      case (Some x)
      then show ?thesis using assms fields t(3) ended [OF Some] by (simp add: key_ok_def counts_ok_def executor_key_handle stop_ok_def)
    qed
  next
    case False
    have "same_turn key w (snd (prepare_start env user work w))"
      using False same run
      by (cases r) (auto simp: prepare_start_def register_turn_def io_simps ensure_def registries_def same_turn_def set_route_def update_conv')
    then show ?thesis by (rule same_turn_ok [OF _ assms])
  qed
qed

lemma journal_registries: "registries w (snd (journal m w))"
  using registries_journal [of m] by (simp add: io_keeps_def)

lemma journal_fields [simp]:
  "hw_turns (snd (journal m w)) = hw_turns w" "hw_stopping (snd (journal m w)) = hw_stopping w"
  "hw_executions (snd (journal m w)) = hw_executions w" "hw_completed (snd (journal m w)) = hw_completed w"
  using journal_registries [of w m] by (simp_all add: registries_def)

lemma submit_start_refused:
  assumes "\<not> (hw_initialized w \<and> \<not> hw_stopping w \<and> map_of (hw_turns w) (executor_key work) = None)"
  shows "\<exists>e. submit_start work w = (Inl (Error e), w)"
  using assms
  by (cases "hw_initialized w"; cases "hw_stopping w") (auto simp: submit_start_def Let_def io_simps ensure_def)

lemma submit_ok:
  assumes "key_ok env key w" and "key_ok env key' w" and "map_of (hw_starting w) key = Some work"
  shows "key_ok env key' (submit_prepared env key work w)"
proof -
  let ?w1 = "w\<lparr>hw_starting := AList.delete key (hw_starting w)\<rparr>" and ?w' = "submit_prepared env key work w"
  have key: "executor_key work = key" "route_open w key None" using assms(1,3) by (simp_all add: key_ok_def)
  have ended: "xn_phase x = Ended" if "map_of (hw_executions w) key = Some x" for x
    using key_okD(1) [OF assms(1) that] assms(3) by (cases "xn_phase x") auto
  show ?thesis
  proof (cases "hw_initialized w \<and> \<not> hw_stopping w \<and> map_of (hw_turns w) key = None")
    case True
    then have none: "map_of (hw_executions w) key = None" using assms(1) by (auto simp: key_ok_def stop_ok_def split: option.splits)
    have w': "?w' = ?w1\<lparr>hw_turns := AList.update key new_watch (hw_turns w), hw_started := hw_started w @ [key],
         hw_executions := AList.update key \<lparr> xn_work = work, xn_seen = 0, xn_phase = Executing False False, xn_restored = False,
           xn_inflight = None, xn_pending = {}, xn_taken = {}, xn_acked = [] \<rparr> (hw_executions w)\<rparr>"
      using True key(1) by (simp add: submit_prepared_def submit_start_def io_simps ensure_def Let_def)
    show ?thesis
    proof (cases "key' = key")
      case True
      then show ?thesis
        using assms(1) none key(2) \<open>hw_initialized w \<and> \<not> hw_stopping w \<and> map_of (hw_turns w) key = None\<close> unfolding w'
        by (simp add: key_ok_def counts_ok_def unreported_def stop_ok_def tools_defs route_open_def update_conv' delete_conv' new_watch_def final_reason_def)
    next
      case False
      then have "same_turn key' w ?w'" unfolding w' by (simp add: same_turn_def update_conv' delete_conv')
      then show ?thesis by (rule same_turn_ok [OF _ assms(2)])
    qed
  next
    case False
    then obtain e where "submit_start work ?w1 = (Inl (Error e), ?w1)"
      using submit_start_refused [of ?w1 work] key(1) by auto
    then have w': "?w' = snd (journal (finalize_turn env (hw_handle w (xt_handle work)) (Inl e)) (remove_route key ?w1))"
      by (simp add: submit_prepared_def)
    have same: "registries (remove_route key ?w1) ?w'" unfolding w' by (rule journal_registries)
    show ?thesis
    proof (cases "key' = key")
      case True
      then show ?thesis
        using assms(1) same ended
        by (auto simp: key_ok_def counts_ok_def stop_ok_def registries_def remove_route_def delete_conv' split: option.splits)
    next
      case False
      then have "same_turn key' w ?w'" using same by (simp add: same_turn_def registries_def remove_route_def delete_conv')
      then show ?thesis by (rule same_turn_ok [OF _ assms(2)])
    qed
  qed
qed

lemma new_harness_ok: "key_ok env key (new_harness l handles)"
  by (simp add: key_ok_def new_harness_def counts_ok_def unreported_def)

lemma harness_step_ok:
  assumes "harness_step env w w'" and "\<And>key. key_ok env key w"
  shows "key_ok env key w'"
  using assms
proof (induction rule: harness_step.induct)
  case (task w key' x s w')
  show ?case
  proof (cases "key = key'")
    case True
    then show ?thesis using execution_step_ok [OF task(3) task(1,2)] by simp
  next
    case False
    then show ?thesis using same_turn_ok [OF execution_step_other [OF False task(2)] task(3)] by simp
  qed
next
  case init
  then show ?case using same_turn_ok [OF init_same] by blast
next
  case prepare
  then show ?case by (intro prepare_ok)
next
  case submit
  then show ?case by (intro submit_ok)
next
  case control
  then show ?case by (intro control_ok)
next
  case shutdown
  then show ?case by (intro shutdown_ok)
qed

lemma reachable_ok: "harness_reachable env w \<Longrightarrow> key_ok env key w"
  by (induction arbitrary: key rule: harness_reachable.induct) (auto intro: new_harness_ok harness_step_ok)

section \<open>What a step reports\<close>

fun reports :: "turn_key \<Rightarrow> exec_phase \<Rightarrow> 'p task_step \<Rightarrow> (turn_key \<times> turn_outcome) list" where
  "reports key (Releasing outcome) Release = [(key, outcome)]"
| "reports key _ _ = []"

lemma reports_only_own: "fst ` set (reports key p s) \<subseteq> {key}"
  by (cases "(key, p, s)" rule: reports.cases) auto

lemma task_completed:
  assumes "key_ok env key w" and "map_of (hw_executions w) key = Some x" and "execution_step env key s x w = Some w'"
  shows "hw_completed w' = hw_completed w @ reports key (xn_phase x) s"
proof (cases s)
  case (Append data)
  obtain r w1 where run: "harness_add_events (he_log env) key (xt_handle (xn_work x)) data w = (r, w1)" by fastforce
  have "registries w w1" by (rule run_registries [OF registries_add_events run])
  then show ?thesis
    using assms(3) Append run by (auto simp: execution_append_def registries_def split: if_splits)
next
  case Restore
  obtain r w1 where run: "journal (restore_recovery_tools env (xn_work x)) w = (r, w1)" by fastforce
  have "registries w w1" by (rule run_registries [OF registries_journal run])
  then show ?thesis
    using assms(3) Restore run by (auto simp: execution_restore_def registries_def split: if_splits sum.splits)
next
  case Finish_Step
  then obtain outcome where phase: "xn_phase x = Finishing outcome"
    using assms(3) by (auto simp: execution_finish_def split: exec_phase.splits)
  have "route_open w key None" using key_okD(1) [OF assms(1,2)] phase by simp
  then show ?thesis
    using emit_finished [of w key "he_log env" outcome] Finish_Step phase assms(3) by (auto simp: execution_finish_def set_route_def)
next
  case Release
  then obtain outcome where phase: "xn_phase x = Releasing outcome"
    using assms(3) by (auto simp: execution_release_def split: exec_phase.splits)
  have "route_open w key (Some outcome)" using key_okD(1) [OF assms(1,2)] phase by simp
  then show ?thesis
    using emit_stopped [of w key outcome "he_log env"] Release phase assms(3) by (auto simp: execution_release_def remove_route_def)
qed (use assms(3) in \<open>auto simp: execution_check_def execution_boundary_def execution_acknowledge_def execution_end_def execution_yield_def
       execution_cleanup_def execution_remove_def split: if_splits exec_phase.splits bool.splits option.splits\<close>)

lemma step_completed:
  assumes "harness_step env w w'" and "\<And>key. key_ok env key w"
  shows "\<exists>new. hw_completed w' = hw_completed w @ new"
  using assms
proof (induction rule: harness_step.induct)
  case (task w key x s w')
  then show ?case using task_completed [OF task(3) task(1,2)] by blast
next
  case (prepare w user work)
  obtain r w1 where run: "journal (open_turn env user (xt_thread work) (xt_record work) (xt_work work) (xt_recovering work)) w = (r, w1)"
    by fastforce
  have "registries w w1" by (rule run_registries [OF registries_journal run])
  then show ?case
    using run by (cases r) (auto simp: prepare_start_def register_turn_def io_simps ensure_def registries_def set_route_def)
next
  case (submit w key work)
  have "hw_completed (submit_prepared env key work w) = hw_completed w"
    by (auto simp: submit_prepared_def submit_start_def io_simps ensure_def Let_def registries_def remove_route_def
          split: prod.split sum.split error.split if_splits)
  then show ?case by simp
qed (auto simp: init_harness_def submit_control_def signal_turn_def shutdown_turns_def io_simps ensure_def
       split: prod.split option.split)

section \<open>Cancellation\<close>

definition cancelled_outcome :: "turn_outcome \<Rightarrow> bool" where
  "cancelled_outcome outcome \<longleftrightarrow> (\<exists>answer. outcome = cleaned_outcome Outcome_Cancelled answer)"

text \<open>A cancelled turn that has not yet looked at its signal again, or is past it.\<close>

definition cancelling :: "turn_key \<Rightarrow> 'p event_data list \<times> 'p event list result option \<Rightarrow> 'p harness_world \<Rightarrow> bool" where
  "cancelling key acked w \<longleftrightarrow> (\<exists>x. map_of (hw_executions w) key = Some x \<and> (xn_acked x, xn_inflight x) = acked \<and>
     ((\<exists>s sw. xn_phase x = Executing False s \<and> map_of (hw_turns w) key = Some sw \<and> sw_value sw = Some Stop_Cancel \<and>
         xn_seen x < sw_version sw) \<or>
      xn_phase x = Stopping Outcome_Cancelled \<or>
      (\<exists>outcome. cancelled_outcome outcome \<and> (xn_phase x = Finishing outcome \<or> xn_phase x = Releasing outcome))))"

lemma cancelling_cong:
  "map_of (hw_executions w') key = map_of (hw_executions w) key \<Longrightarrow> map_of (hw_turns w') key = map_of (hw_turns w) key
    \<Longrightarrow> cancelling key acked w' = cancelling key acked w"
  by (simp add: cancelling_def)

lemma same_cancelling: "same_turn key w w' \<Longrightarrow> cancelling key acked w \<Longrightarrow> cancelling key acked w'"
  using cancelling_cong [of w' key w] by (simp add: same_turn_def)

lemmas execution_step_defs = execution_check_def execution_boundary_def execution_restore_def execution_append_def execution_acknowledge_def execution_end_def
  execution_yield_def execution_cleanup_def execution_finish_def execution_release_def execution_remove_def polled_def

lemma cancelling_task:
  assumes "cancelling key acked w" and "map_of (hw_executions w) key = Some x" and "execution_step env key s x w = Some w'"
    and "key_ok env key w"
  shows "reports key (xn_phase x) s = [] \<and> cancelling key acked w' \<or>
    (\<exists>outcome. cancelled_outcome outcome \<and> reports key (xn_phase x) s = [(key, outcome)])"
proof -
  have x: "(xn_acked x, xn_inflight x) = acked" using assms(1,2) by (auto simp: cancelling_def)
  consider (a) c sw where "xn_phase x = Executing False c" "map_of (hw_turns w) key = Some sw" "sw_value sw = Some Stop_Cancel" "xn_seen x < sw_version sw"
    | (b) "xn_phase x = Stopping Outcome_Cancelled" | (c) outcome where "cancelled_outcome outcome" "xn_phase x = Finishing outcome"
    | (d) outcome where "cancelled_outcome outcome" "xn_phase x = Releasing outcome"
    using assms(1,2) by (auto simp: cancelling_def)
  then show ?thesis
  proof cases
    case a
    then have s: "s = Check" using assms(3)
      by (cases s) (auto simp: execution_step_defs)
    have "w' = set_execution key (x\<lparr>xn_seen := sw_version sw, xn_phase := Stopping Outcome_Cancelled\<rparr>) w"
      using a assms(3) s by (simp add: execution_check_def stop_signal_def on_signal_def)
    then show ?thesis using x a s by (simp add: cancelling_def)
  next
    case b
    then obtain answer where "w' = set_execution key (x\<lparr>xn_phase := Finishing (cleaned_outcome Outcome_Cancelled answer)\<rparr>) w"
      using assms(3)
      by (cases s) (auto simp: execution_step_defs)
    then show ?thesis using x b by (auto simp: cancelling_def cancelled_outcome_def)
  next
    case c
    then have "w' = set_execution key (x\<lparr>xn_phase := Releasing outcome\<rparr>) (snd (emit (he_log env) (TurnFinished key outcome []) w))"
      using assms(3)
      by (cases s) (auto simp: execution_step_defs)
    then show ?thesis using x c by (auto simp: cancelling_def)
  next
    case d
    then have "s = Release" using assms(3)
      by (cases s) (auto simp: execution_step_defs)
    then show ?thesis using d by auto
  qed
qed

lemma signal_cancelling:
  assumes "cancelling key acked w"
  shows "cancelling key acked (signal_turn key' reason w)"
proof (cases "key' = key \<and> (\<exists>sw. map_of (hw_turns w) key = Some sw \<and> \<not> final_reason (sw_value sw))")
  case True
  then obtain sw where sw: "map_of (hw_turns w) key = Some sw" "\<not> final_reason (sw_value sw)" by blast
  then have "signal_turn key' reason w = w\<lparr>hw_turns := AList.update key (send_replace reason sw) (hw_turns w)\<rparr>"
    using True by (simp add: signal_turn_def final_reason_def)
  then show ?thesis using assms sw by (auto simp: cancelling_def final_reason_def update_conv')
next
  case False
  then have "map_of (hw_turns (signal_turn key' reason w)) key = map_of (hw_turns w) key" "hw_executions (signal_turn key' reason w) = hw_executions w"
    by (auto simp: signal_turn_def final_reason_def update_conv' split: option.split)
  then show ?thesis using assms cancelling_cong [of "signal_turn key' reason w" key w] by simp
qed

text \<open>The steps outside the tasks report nothing and keep a cancellation.\<close>

definition keeps_cancelling :: "turn_key \<Rightarrow> 'p event_data list \<times> 'p event list result option \<Rightarrow> 'p harness_world \<Rightarrow> 'p harness_world \<Rightarrow> bool" where
  "keeps_cancelling key acked w w' \<longleftrightarrow> hw_completed w' = hw_completed w \<and> (cancelling key acked w \<longrightarrow> cancelling key acked w')"

lemma same_tasks_keep:
  assumes "hw_completed w' = hw_completed w" and "map_of (hw_executions w') key = map_of (hw_executions w) key"
    and "map_of (hw_turns w') key = map_of (hw_turns w) key"
  shows "keeps_cancelling key acked w w'"
  using assms cancelling_cong [of w' key w] by (simp add: keeps_cancelling_def)

lemma prepare_keeps: "keeps_cancelling key acked w (snd (prepare_start env user work w))"
proof -
  obtain r w1 where run: "journal (open_turn env user (xt_thread work) (xt_record work) (xt_work work) (xt_recovering work)) w = (r, w1)"
    by fastforce
  have "registries w w1" by (rule run_registries [OF registries_journal run])
  then show ?thesis
    using run by (intro same_tasks_keep; cases r)
      (auto simp: prepare_start_def register_turn_def io_simps ensure_def registries_def set_route_def)
qed

lemma submit_keeps:
  assumes "key_ok env key' w" and "map_of (hw_starting w) key' = Some work"
  shows "keeps_cancelling key acked w (submit_prepared env key' work w)"
proof (cases "key = key'")
  case True
  then have "\<not> cancelling key acked w" using assms by (auto simp: key_ok_def cancelling_def)
  then show ?thesis
    by (auto simp: keeps_cancelling_def submit_prepared_def submit_start_def io_simps ensure_def Let_def remove_route_def
          split: prod.split sum.split error.split if_splits)
next
  case False
  have "executor_key work = key'" using assms by (simp add: key_ok_def)
  then show ?thesis
    using False
    by (intro same_tasks_keep) (auto simp: submit_prepared_def submit_start_def io_simps ensure_def Let_def remove_route_def update_conv'
          split: prod.split sum.split error.split if_splits)
qed

lemma control_keeps: "keeps_cancelling key acked w (snd (submit_control command w))"
proof -
  have "snd (submit_control command w) = w \<or> (\<exists>k r. snd (submit_control command w) = signal_turn k r w)"
    by (cases command) (auto simp: submit_control_def io_simps ensure_def)
  moreover have "hw_completed (signal_turn k r w) = hw_completed w" for k r
    by (simp add: signal_turn_def split: option.split)
  ultimately show ?thesis using signal_cancelling [of key acked w] by (auto simp: keeps_cancelling_def)
qed

lemma shutdown_keeps: "keeps_cancelling key acked w (shutdown_turns w)"
  by (auto simp: keeps_cancelling_def cancelling_def shutdown_turns_def map_of_values)

lemma init_keeps: "keeps_cancelling key acked w (snd (init_harness w))"
  by (intro same_tasks_keep) (simp_all add: init_harness_def io_simps ensure_def)

lemma cancelling_step:
  assumes "harness_step env w w'" and "\<And>key. key_ok env key w" and "cancelling key acked w"
  shows "\<exists>new. hw_completed w' = hw_completed w @ new \<and>
    (case List.find (\<lambda>c. fst c = key) new of None \<Rightarrow> cancelling key acked w' | Some c \<Rightarrow> cancelled_outcome (snd c))"
proof -
  have quiet: ?thesis if "keeps_cancelling key acked w w'"
    using that assms(3) by (intro exI [of _ "[]"]) (simp add: keeps_cancelling_def)
  show ?thesis using assms(1)
  proof (cases rule: harness_step.cases)
    case (task key' x s)
    note completed = task_completed [OF assms(2) task]
    show ?thesis
    proof (cases "key = key'")
      case True
      then show ?thesis
        using cancelling_task [OF assms(3) _ _ assms(2), of x s w'] task completed
        by (intro exI [of _ "reports key' (xn_phase x) s"]) auto
    next
      case False
      have "List.find (\<lambda>c. fst c = key) (reports key' (xn_phase x) s) = None"
        using reports_only_own [of key' "xn_phase x" s] False by (auto simp: find_None_iff)
      then show ?thesis
        using completed same_cancelling [OF execution_step_other [OF False task(2)] assms(3)]
        by (intro exI [of _ "reports key' (xn_phase x) s"]) simp
    qed
  qed (rule quiet, simp add: init_keeps prepare_keeps submit_keeps [OF assms(2)] control_keeps shutdown_keeps)+
qed

lemma find_append: "List.find P (xs @ ys) = (case List.find P xs of None \<Rightarrow> List.find P ys | Some x \<Rightarrow> Some x)"
  by (induction xs) auto

lemma steps_reachable: "(harness_step env)\<^sup>*\<^sup>* w w' \<Longrightarrow> harness_reachable env w \<Longrightarrow> harness_reachable env w'"
  by (induction rule: rtranclp_induct) (auto intro: harness_reachable.step)

lemma cancelling_steps:
  assumes "(harness_step env)\<^sup>*\<^sup>* w w'" and "harness_reachable env w" and "cancelling key acked w"
  shows "\<exists>new. hw_completed w' = hw_completed w @ new \<and>
    (case List.find (\<lambda>c. fst c = key) new of None \<Rightarrow> cancelling key acked w' | Some c \<Rightarrow> cancelled_outcome (snd c))"
  using assms(1)
proof (induction rule: rtranclp_induct)
  case base
  then show ?case using assms(3) by (intro exI [of _ "[]"]) simp
next
  case (step v v')
  then obtain new where new: "hw_completed v = hw_completed w @ new"
    "case List.find (\<lambda>c. fst c = key) new of None \<Rightarrow> cancelling key acked v | Some c \<Rightarrow> cancelled_outcome (snd c)" by blast
  have ok: "key_ok env k v" for k using reachable_ok steps_reachable [OF step(1) assms(2)] by blast
  show ?case
  proof (cases "List.find (\<lambda>c. fst c = key) new")
    case None
    then obtain more where "hw_completed v' = hw_completed v @ more"
      "case List.find (\<lambda>c. fst c = key) more of None \<Rightarrow> cancelling key acked v' | Some c \<Rightarrow> cancelled_outcome (snd c)"
      using cancelling_step [OF step(2) ok, of key acked] new(2) by auto
    then show ?thesis using new(1) None by (intro exI [of _ "new @ more"]) (simp add: find_append)
  next
    case (Some c)
    obtain more where "hw_completed v' = hw_completed v @ more" using step_completed [OF step(2) ok] by blast
    then show ?thesis using new Some by (intro exI [of _ "new @ more"]) (simp add: find_append)
  qed
qed

section \<open>Shutdown\<close>

definition active_keys :: "'p harness_world \<Rightarrow> turn_key set" where
  "active_keys w = dom (map_of (hw_turns w))"

lemma task_active:
  assumes "execution_step env key s x w = Some w'" and "map_of (hw_executions w) key = Some x" and "key_ok env key w"
  shows "hw_stopping w' = hw_stopping w" and "active_keys w' \<subseteq> active_keys w"
proof -
  have other: "same_turn k w w'" if "k \<noteq> key" for k using execution_step_other [OF that assms(1)] .
  have "map_of (hw_turns w) key \<noteq> None" using key_okD(2) [OF assms(3,2)] by (auto simp: stop_ok_def)
  then show "active_keys w' \<subseteq> active_keys w" using other by (auto simp: active_keys_def same_turn_def dom_def) metis
  have "tk_turn_id (key\<lparr>tk_turn_id := tk_turn_id key + 1\<rparr>) \<noteq> tk_turn_id key" by simp
  then have "key\<lparr>tk_turn_id := tk_turn_id key + 1\<rparr> \<noteq> key" by metis
  from other [OF this] show "hw_stopping w' = hw_stopping w" by (simp add: same_turn_def)
qed

lemma stopping_step:
  assumes "harness_step env w w'" and "\<And>key. key_ok env key w" and "hw_stopping w"
  shows "hw_stopping w' \<and> active_keys w' \<subseteq> active_keys w"
  using assms
proof (induction rule: harness_step.induct)
  case (task w key x s w')
  then show ?case using task_active [OF task(2,1,3)] by simp
next
  case (prepare w user work)
  obtain r w1 where run: "journal (open_turn env user (xt_thread work) (xt_record work) (xt_work work) (xt_recovering work)) w = (r, w1)"
    by fastforce
  have "registries w w1" by (rule run_registries [OF registries_journal run])
  then have "hw_stopping (snd (prepare_start env user work w)) = hw_stopping w \<and> hw_turns (snd (prepare_start env user work w)) = hw_turns w"
    using run by (cases r) (auto simp: prepare_start_def register_turn_def io_simps ensure_def registries_def set_route_def)
  then show ?case using prepare by (simp add: active_keys_def)
next
  case (submit w key work)
  then have refused: "\<not> (hw_initialized w \<and> \<not> hw_stopping w \<and> map_of (hw_turns w) (executor_key work) = None)" by simp
  then obtain e where "submit_start work (w\<lparr>hw_starting := AList.delete key (hw_starting w)\<rparr>) =
      (Inl (Error e), w\<lparr>hw_starting := AList.delete key (hw_starting w)\<rparr>)"
    using submit_start_refused [of "w\<lparr>hw_starting := AList.delete key (hw_starting w)\<rparr>" work] by auto
  then show ?case using submit(3) by (simp add: submit_prepared_def remove_route_def active_keys_def)
next
  case (control w command)
  then show ?case
    by (cases command) (auto simp: submit_control_def signal_turn_def active_keys_def io_simps ensure_def update_conv' split: option.splits)
qed (auto simp: init_harness_def shutdown_turns_def active_keys_def io_simps ensure_def map_of_values)

lemma stopping_steps:
  assumes "(harness_step env)\<^sup>*\<^sup>* w w'" and "harness_reachable env w" and "hw_stopping w"
  shows "hw_stopping w' \<and> active_keys w' \<subseteq> active_keys w"
  using assms(1)
proof (induction rule: rtranclp_induct)
  case (step v v')
  then show ?case
    using stopping_step [OF step(2) reachable_ok [OF steps_reachable [OF step(1) assms(2)]]] by blast
qed (simp add: assms(3))

text \<open>How far the task of a stopping turn is from its end, and the step that brings it closer.\<close>

fun distance :: "exec_phase \<Rightarrow> nat" where
  "distance (Executing True _) = 6"
| "distance (Executing False _) = 5"
| "distance (Stopping _) = 4"
| "distance (Finishing _) = 3"
| "distance (Releasing _) = 2"
| "distance Ended = 1"

fun way_out :: "exec_phase \<Rightarrow> 'p task_step" where
  "way_out (Executing True _) = Yield"
| "way_out (Executing False _) = Check"
| "way_out (Stopping _) = Cleanup Cleaned"
| "way_out (Finishing _) = Finish_Step"
| "way_out (Releasing _) = Release"
| "way_out Ended = Remove"

lemma way_out_closer:
  assumes "map_of (hw_executions w) key = Some x" and "key_ok env key w" and "hw_stopping w"
  shows "\<exists>w'. execution_step env key (way_out (xn_phase x)) x w = Some w' \<and>
    (map_of (hw_turns w') key = None \<or> (\<exists>x'. map_of (hw_executions w') key = Some x' \<and> distance (xn_phase x') < distance (xn_phase x)))"
proof (cases "xn_phase x")
  case (Executing c s)
  obtain sw where sw: "map_of (hw_turns w) key = Some sw" "final_reason (sw_value sw)" "xn_seen x < sw_version sw"
    using key_okD(2) [OF assms(2,1)] assms(3) Executing by (auto simp: stop_ok_def)
  then have "\<exists>outcome. on_signal env x s (sw_value sw) = Stopping outcome" by (auto simp: final_reason_def on_signal_def)
  then show ?thesis
    using Executing sw by (cases c) (auto simp: execution_yield_def execution_check_def stop_signal_def)
next
  case Ended
  then show ?thesis by (simp add: execution_remove_def delete_conv')
qed (simp_all add: execution_cleanup_def execution_finish_def execution_release_def)

lemma turn_can_end:
  assumes "map_of (hw_executions w) key = Some x" and "harness_reachable env w" and "hw_stopping w"
  shows "\<exists>w'. (harness_step env)\<^sup>*\<^sup>* w w' \<and> map_of (hw_turns w') key = None"
  using assms
proof (induction "distance (xn_phase x)" arbitrary: w x rule: less_induct)
  case less
  note ok = reachable_ok [OF less.prems(2)]
  obtain w1 where w1: "execution_step env key (way_out (xn_phase x)) x w = Some w1"
    "map_of (hw_turns w1) key = None \<or> (\<exists>x'. map_of (hw_executions w1) key = Some x' \<and> distance (xn_phase x') < distance (xn_phase x))"
    using way_out_closer [OF less.prems(1) ok less.prems(3)] by blast
  have step: "harness_step env w w1" by (rule harness_step.task [OF less.prems(1) w1(1)])
  then have "harness_reachable env w1" "hw_stopping w1"
    using less.prems stopping_step [OF step ok] by (auto intro: harness_reachable.step)
  then show ?case
    using w1(2) less.hyps step by (metis converse_rtranclp_into_rtranclp rtranclp.rtrancl_refl)
qed

lemma harness_can_drain:
  assumes "harness_reachable env w" and "hw_stopping w"
  shows "\<exists>w'. (harness_step env)\<^sup>*\<^sup>* w w' \<and> hw_turns w' = []"
  using assms
proof (induction "card (active_keys w)" arbitrary: w rule: less_induct)
  case less
  show ?case
  proof (cases "hw_turns w")
    case (Cons a as)
    then obtain key where key: "key \<in> active_keys w" by (cases a) (auto simp: active_keys_def)
    then obtain x where x: "map_of (hw_executions w) key = Some x"
      using reachable_ok [OF less.prems(1), of key] by (auto simp: active_keys_def key_ok_def split: option.splits)
    obtain w1 where w1: "(harness_step env)\<^sup>*\<^sup>* w w1" "map_of (hw_turns w1) key = None"
      using turn_can_end [OF x less.prems] by blast
    have "key \<notin> active_keys w1" using w1(2) by (simp add: active_keys_def domIff)
    then have "active_keys w1 \<subset> active_keys w" "hw_stopping w1" "harness_reachable env w1"
      using stopping_steps [OF w1(1) less.prems] key steps_reachable [OF w1(1) less.prems(1)] by auto
    moreover have "finite (active_keys w)" by (simp add: active_keys_def finite_dom_map_of)
    ultimately obtain w2 where "(harness_step env)\<^sup>*\<^sup>* w1 w2" "hw_turns w2 = []"
      using less.hyps psubset_card_mono by metis
    then show ?thesis using w1(1) by (meson rtranclp_trans)
  qed blast
qed

section \<open>The guarantees\<close>

text \<open>C4: every turn the harness started reports its outcome exactly once. In every state the harness can reach,
  the starts of a turn are its reports plus one while its task still runs; a turn that has left the registry has
  reported as often as it was started, and the report carries the outcome its task ended with.\<close>

theorem started_turn_reports_once:
  assumes "harness_reachable env w"
  shows "count_list (hw_started w) key = count_list (map fst (hw_completed w)) key +
      (if \<exists>x. map_of (hw_executions w) key = Some x \<and> xn_phase x \<noteq> Ended then 1 else 0) \<and>
    (turn_idle key w \<longrightarrow> count_list (hw_started w) key = count_list (map fst (hw_completed w)) key) \<and>
    (\<forall>x outcome w'. map_of (hw_executions w) key = Some x \<and> xn_phase x = Releasing outcome \<and> execution_release env key x w = Some w'
      \<longrightarrow> hw_completed w' = hw_completed w @ [(key, outcome)])"
proof -
  note ok = reachable_ok [OF assms, of key]
  have counts: "count_list (hw_started w) key = count_list (map fst (hw_completed w)) key +
      (if \<exists>x. map_of (hw_executions w) key = Some x \<and> xn_phase x \<noteq> Ended then 1 else 0)"
    using ok by (auto simp: key_ok_def counts_ok_def unreported_def split: option.splits)
  have "map_of (hw_executions w) key = None" if "turn_idle key w"
    using ok that by (auto simp: key_ok_def stop_ok_def turn_idle_def split: option.splits)
  moreover have "hw_completed w' = hw_completed w @ [(key, outcome)]"
    if "map_of (hw_executions w) key = Some x" "xn_phase x = Releasing outcome" "execution_release env key x w = Some w'" for x outcome w'
    using task_completed [OF ok that(1), of Release w'] that by simp
  ultimately show ?thesis using counts by auto
qed

theorem started_turn_reports_once_witness:
  "\<exists>w. harness_reachable sample_harness_env w \<and> count_list (hw_started w) sample_key = 1 \<and>
     count_list (map fst (hw_completed w)) sample_key = 0"
proof -
  obtain w where w: "sample_state new_watch False sample_execution w" using sample_started by blast
  then have "harness_reachable sample_harness_env w" by (simp add: sample_state_def)
  from started_turn_reports_once [OF this, of sample_key] this w show ?thesis
    by (auto simp: sample_state_def sample_execution_def split: if_splits)
qed

text \<open>C16: a suspended turn leaves no tool call open. When the task of a turn whose executor cannot reconcile tool
  calls is on its way out as suspended, every call it took over has a result among the events it was acknowledged,
  every call it requested has a later one, and no addition was dropped before its acknowledgement.\<close>

theorem suspended_turn_has_no_open_call:
  assumes "harness_reachable env w" and "map_of (hw_executions w) key = Some x" and "suspended_phase (xn_phase x)"
    and "\<not> reconciles_tools env x"
  shows "tools_resolved (xn_taken x) (xn_acked x) \<and> xn_inflight x = None"
proof -
  have "tools_ok env x" using reachable_ok [OF assms(1), of key] assms(2) by (simp add: key_ok_def)
  then have "fold update_pending_tools (xn_acked x) (xn_taken x) = {}" "xn_inflight x = None"
    using assms(3,4) unfolding tools_ok_def by auto
  then show ?thesis using none_pending_resolved by blast
qed

theorem suspended_turn_has_no_open_call_witness:
  "\<exists>w x. harness_reachable sample_harness_env w \<and> map_of (hw_executions w) sample_key = Some x \<and>
     xn_phase x = Stopping Outcome_Suspended \<and> tools_resolved (xn_taken x) (xn_acked x)"
proof -
  let ?x = "sample_execution" and ?sw = "send_replace (Some Stop_Suspend) new_watch"
  let ?x1 = "?x\<lparr>xn_seen := 1, xn_phase := Executing False True\<rparr>"
  obtain w where "sample_state new_watch False ?x w" using sample_started by blast
  from sample_control [OF this, of "SuspendTurn sample_key"] obtain w0 where "sample_state ?sw False ?x w0"
    by (auto simp: new_watch_def)
  from sample_task [OF this, of Check ?x1] obtain w1 where "sample_state ?sw False ?x1 w1"
    by (auto simp: execution_check_def sample_execution_def stop_signal_def send_replace_def new_watch_def on_signal_def resumable_def
        reconciles_tools_def)
  from sample_task [OF this, of Check "?x1\<lparr>xn_phase := Executing True True\<rparr>"] obtain w2
    where "sample_state ?sw False (?x1\<lparr>xn_phase := Executing True True\<rparr>) w2"
    by (auto simp: execution_check_def stop_signal_def send_replace_def new_watch_def)
  from sample_task [OF this, of Boundary "?x1\<lparr>xn_phase := Stopping Outcome_Suspended\<rparr>"] obtain w3
    where w3: "sample_state ?sw False (?x1\<lparr>xn_phase := Stopping Outcome_Suspended\<rparr>) w3"
    by (auto simp: execution_boundary_def sample_execution_def)
  from suspended_turn_has_no_open_call [of sample_harness_env w3 sample_key "?x1\<lparr>xn_phase := Stopping Outcome_Suspended\<rparr>"] w3
  show ?thesis
    by (intro exI [of _ w3] exI [of _ "?x1\<lparr>xn_phase := Stopping Outcome_Suspended\<rparr>"]) (simp add: sample_state_def reconciles_tools_def)
qed

text \<open>C15: a turn cancelled between two rounds makes no further progress. Once the signal of a turn is cancel while its
  task is between two rounds (it is not polling the execution), whatever the task, other turns, further commands or
  a shutdown do, the next outcome reported for it is the cancellation or, when the cleanup of the cancelled turn fails,
  that failure; and until then its task has begun no further addition to the journal and been acknowledged no further
  event. A cancel that arrives while a round is being polled is not covered: that round may still add to the journal,
  or complete the turn.\<close>

theorem cancelled_turn_ends_cancelled:
  assumes "harness_reachable env w" and "map_of (hw_executions w) key = Some x" and "xn_phase x = Executing False suspending"
    and "map_of (hw_turns w) key = Some sw" and "sw_value sw = Some Stop_Cancel" and "(harness_step env)\<^sup>*\<^sup>* w w'"
  shows "\<exists>new. hw_completed w' = hw_completed w @ new \<and>
    (case List.find (\<lambda>c. fst c = key) new of
       Some (_, outcome) \<Rightarrow> \<exists>answer. outcome = cleaned_outcome Outcome_Cancelled answer
     | None \<Rightarrow> \<exists>x'. map_of (hw_executions w') key = Some x' \<and> xn_acked x' = xn_acked x \<and> xn_inflight x' = xn_inflight x)"
proof -
  have "xn_seen x < sw_version sw"
    using key_okD(2) [OF reachable_ok [OF assms(1)] assms(2)] assms(3-5) by (auto simp: stop_ok_def final_reason_def)
  then have "cancelling key (xn_acked x, xn_inflight x) w" using assms(2-5) by (auto simp: cancelling_def)
  from cancelling_steps [OF assms(6,1) this] show ?thesis
    by (auto simp: cancelling_def cancelled_outcome_def split: option.splits prod.splits)
qed

theorem cancelled_turn_ends_cancelled_witness:
  "\<exists>w x sw. harness_reachable sample_harness_env w \<and> map_of (hw_executions w) sample_key = Some x \<and>
     map_of (hw_turns w) sample_key = Some sw \<and> sw_value sw = Some Stop_Cancel \<and>
     (\<forall>w'. (harness_step sample_harness_env)\<^sup>*\<^sup>* w w' \<longrightarrow> (\<exists>new. hw_completed w' = hw_completed w @ new \<and>
       (case List.find (\<lambda>c. fst c = sample_key) new of
          Some (_, outcome) \<Rightarrow> \<exists>answer. outcome = cleaned_outcome Outcome_Cancelled answer
        | None \<Rightarrow> \<exists>x'. map_of (hw_executions w') sample_key = Some x' \<and> xn_acked x' = xn_acked x \<and> xn_inflight x' = xn_inflight x)))"
proof -
  let ?sw = "send_replace (Some Stop_Cancel) new_watch"
  obtain w where "sample_state new_watch False sample_execution w" using sample_started by blast
  from sample_control [OF this, of "CancelTurn sample_key"] obtain w0 where "sample_state ?sw False sample_execution w0"
    by (auto simp: new_watch_def)
  then have w0: "harness_reachable sample_harness_env w0" "map_of (hw_executions w0) sample_key = Some sample_execution"
    "map_of (hw_turns w0) sample_key = Some ?sw" by (simp_all add: sample_state_def)
  have x: "xn_phase sample_execution = Executing False False" and sw: "sw_value ?sw = Some Stop_Cancel"
    by (simp_all add: sample_execution_def send_replace_def)
  show ?thesis using w0 sw cancelled_turn_ends_cancelled [OF w0(1,2) x w0(3) sw] by blast
qed

text \<open>a shutdown drains the harness. After a shutdown no turn is ever added to the registry again, in any
  interleaving, and from every state the harness is then in the running tasks can all reach their end, which leaves
  the registry empty.\<close>

theorem shutdown_drains_harness:
  assumes "harness_reachable env w" and "(harness_step env)\<^sup>*\<^sup>* (shutdown_turns w) w'"
  shows "dom (map_of (hw_turns w')) \<subseteq> dom (map_of (hw_turns w)) \<and> (\<exists>w''. (harness_step env)\<^sup>*\<^sup>* w' w'' \<and> all_idle w'')"
proof -
  have r: "harness_reachable env (shutdown_turns w)" by (rule harness_reachable.step [OF assms(1) harness_step.shutdown])
  have "hw_stopping (shutdown_turns w)" "active_keys (shutdown_turns w) = active_keys w"
    by (auto simp: shutdown_turns_def active_keys_def map_of_values)
  then have "hw_stopping w'" "active_keys w' \<subseteq> active_keys w" using stopping_steps [OF assms(2) r] by auto
  then show ?thesis
    using harness_can_drain [OF steps_reachable [OF assms(2) r]] by (simp add: all_idle_def active_keys_def)
qed

theorem shutdown_drains_harness_witness:
  "\<exists>w. harness_reachable sample_harness_env w \<and> \<not> all_idle w \<and>
     (\<exists>w''. (harness_step sample_harness_env)\<^sup>*\<^sup>* (shutdown_turns w) w'' \<and> all_idle w'')"
proof -
  obtain w where "sample_state new_watch False sample_execution w" using sample_started by blast
  then have w: "harness_reachable sample_harness_env w" "\<not> all_idle w" by (simp_all add: sample_state_def all_idle_def)
  show ?thesis using w shutdown_drains_harness [OF w(1) rtranclp.rtrancl_refl] by blast
qed

end
