(* ===== verification/Harness_Journal.thy ===== *)
theory Harness_Journal
  imports Harness_Sample
begin

text \<open>
  The harness and the journal (\<^verbatim>\<open>crates/executor/src/harness_events.rs\<close>, \<^verbatim>\<open>harness_executor.rs\<close>, \<^verbatim>\<open>shared.rs\<close>): what is
  acknowledged to an execution is what was stored, what the stream of a turn reports is what the journal records,
  and what a recovered execution takes over is what the interrupted one left open.
\<close>

section \<open>Additions that fail\<close>

text \<open>What a failed addition leaves: the same objects, after a bounded number of calls.\<close>

definition unstored :: "nat \<Rightarrow> 'p log_world \<Rightarrow> 'p log_world \<Rightarrow> bool" where
  "unstored k w w' \<longleftrightarrow> lw_store w' = lw_store w \<and> lw_calls w \<le> lw_calls w' \<and> lw_calls w' \<le> lw_calls w + k"


lemma build_unstored: "build_events env c ses turn ds w = (r, w') \<Longrightarrow> unstored (length ds) w w'"
proof (induction ds arbitrary: w r w')
  case (Cons d ds)
  obtain r1 w1 where r1: "build_events env c ses turn ds (w\<lparr>lw_calls := Suc (lw_calls w)\<rparr>) = (r1, w1)" by fastforce
  have "w' = w\<lparr>lw_calls := Suc (lw_calls w)\<rparr> \<or> w' = w1"
    using Cons.prems r1 by (auto simp: io_bind_def uuid_now_def io_lift_def io_return_def split: sum.splits prod.splits)
  then show ?case using Cons.IH [OF r1] by (auto simp: unstored_def)
qed (simp add: io_return_def unstored_def)

lemma append_unstored:
  assumes "append_events_to_conversation env dir c ses turn expected data record w = (Inl e, w')"
  shows "unstored (Suc (length data)) w w'"
proof -
  obtain r v where b: "build_events env c ses turn data w = (r, v)" by fastforce
  have "w' = w \<or> w' = v \<or> (\<exists>es x. commit_events env dir es v = (Inl x, w'))"
    using assms b unfolding append_events_to_conversation_def
    by (auto simp: io_bind_def io_lift_def io_modify_def io_return_def split: sum.splits prod.splits)
  moreover have "lw_store w' = lw_store v \<and> lw_calls w' = Suc (lw_calls v)" if "commit_events env dir es v = (Inl x, w')" for es x
    using that by (auto simp: commit_events_def put_object_def split: sum.splits if_splits)
  ultimately show ?thesis using build_unstored [OF b] by (auto simp: unstored_def)
qed

lemma turn_append_unstored: "turn_append env t data w = (Inl e, w') \<Longrightarrow> unstored (Suc (length data)) w w'"
  unfolding turn_append_def
  by (auto simp: io_bind_def io_lift_def io_read_def io_return_def unstored_def split: sum.splits prod.splits
        dest!: append_unstored)

lemma turn_add_unstored: "turn_add_events env t data w = (Inl e, w') \<Longrightarrow> unstored (Suc (length data)) w w'"
  unfolding turn_add_events_def
  by (auto simp: io_bind_def io_lift_def io_modify_def io_return_def unstored_def split: sum.splits prod.splits
        dest!: turn_append_unstored)



section \<open>Acknowledged events\<close>

lemma map_res_acknowledged:
  assumes "\<forall>e \<in> set new. le_timestamp env (ev_id e) = Some (ev_created_at e) \<and> ev_thread_id e = cr_id (ch_record (rr_thread active)) \<and>
     ev_session_id e = Some (tn_session_id (rr_record active)) \<and> ev_turn_id e = Some (tn_id (rr_record active))"
  shows "map_res (acknowledge_event env active) (zip (map ev_id new) (map ev_data new)) = Inr new"
  using assms by (induction new) (simp_all add: acknowledge_event_def)

lemma turn_add_stored:
  assumes "turn_add_events env t data w = (Inr (added, t'), w')" and "turn_at env t w base own" and "\<not> hs_finished t"
    and "ids_fresh env n w (base @ own)" and "length data \<le> n" and "\<forall>d \<in> set data. \<not> is_turn_ended d"
  shows "\<exists>new. turn_at env t' w' base (own @ new) \<and> map ev_data new = data \<and> ae_event_ids added = map ev_id new \<and>
    hs_handle t' = hs_handle t \<and> hs_turn t' = hs_turn t \<and> \<not> hs_finished t' \<and> new \<noteq> [] \<and>
    ids_fresh env (n - Suc (length data)) w' (base @ own @ new) \<and>
    (\<forall>e \<in> set new. le_timestamp env (ev_id e) = Some (ev_created_at e) \<and> ev_thread_id e = cr_id (ch_record (hs_handle t)) \<and>
       ev_session_id e = Some (tn_session_id (hs_turn t)) \<and> ev_turn_id e = Some (tn_id (hs_turn t)))"
proof -
  let ?h = "hs_handle t"
  obtain w1 r r' where w1: "append_events_to_conversation env (ch_dir ?h) (cr_id (ch_record ?h)) (Some (tn_session_id (hs_turn t)))
      (Some (tn_id (hs_turn t))) (cr_latest_event_id r) data r w = (Inr (added, r'), w1)"
    "w' = remember_appended_batch env (ch_index_ref ?h) (ch_dir ?h) added w1"
    "t' = t\<lparr>hs_latest_event_id := Some (ae_latest_event_id added)\<rparr>"
    using assms(1) unfolding turn_add_events_def turn_append_def
    by (auto simp: io_bind_Inr_iff io_lift_def io_read_def io_modify_def io_return_def)
  have log: "log_is env (ch_dir ?h) (lw_store w) (base @ own)" using assms(2) by (simp add: turn_at_def)
  obtain new where new: "log_is env (ch_dir ?h) (lw_store w1) ((base @ own) @ new)" "new \<noteq> []" "map ev_data new = data"
    "ids_fresh env (n - Suc (length data)) w1 ((base @ own) @ new)" "ae_latest_event_id added = ev_id (last new)"
    "ae_event_ids added = map ev_id new"
    "\<forall>e \<in> set new. ev_thread_id e = cr_id (ch_record ?h) \<and> ev_session_id e = Some (tn_session_id (hs_turn t)) \<and>
       ev_turn_id e = Some (tn_id (hs_turn t)) \<and> le_timestamp env (ev_id e) = Some (ev_created_at e)"
    using append_extends_log [OF w1(1) log assms(4,5)] by metis
  have "ev_data (last new) \<in> set data" using new(2,3) by (metis last_in_set list.set_map image_eqI)
  then have "\<not> is_turn_ended (ev_data (last new))" using assms(6) by blast
  then show ?thesis
    using new assms(2,3) w1(2,3) ids_fresh_cong [of w' w1 env] by (intro exI [of _ new]) (auto simp: turn_at_def)
qed

lemma harness_add_run:
  assumes "turn_add_events env t data (hw_log w) = (Inr (added, t'), l)" and "data \<noteq> []"
    and "map_of (hw_routes w) key = Some active" and "hw_handle w (rr_turn active) = t"
    and "rr_thread active = hs_handle t" and "rr_record active = hs_turn t" and "rr_completion active" and "rr_outcome active = None"
    and "turn_at env t (hw_log w) base own" and "\<not> hs_finished t" and "\<forall>d \<in> set data. \<not> is_turn_ended d"
    and "ids_fresh env (length data) (hw_log w) (base @ own)"
  shows "\<exists>new. map ev_data new = data \<and> turn_at env t' l base (own @ new) \<and> harness_add_events env key handle data w =
    (Inr new, stream_events key active new (w\<lparr>hw_log := l, hw_handle := (hw_handle w)(rr_turn active := t')\<rparr>))"
proof -
  obtain new where new: "turn_at env t' l base (own @ new)" "map ev_data new = data" "ae_event_ids added = map ev_id new" "new \<noteq> []"
    "\<forall>e \<in> set new. le_timestamp env (ev_id e) = Some (ev_created_at e) \<and> ev_thread_id e = cr_id (ch_record (hs_handle t)) \<and>
       ev_session_id e = Some (tn_session_id (hs_turn t)) \<and> ev_turn_id e = Some (tn_id (hs_turn t))"
    using turn_add_stored [OF assms(1,9,10,12) order.refl assms(11)] by auto
  have "map_res (acknowledge_event env active) (zip (ae_event_ids added) data) = Inr new"
    using map_res_acknowledged [of new env active] new(2,3,5) assms(5,6) by simp
  moreover have "length (ae_event_ids added) = length data" using new(2,3) by (metis length_map)
  ultimately show ?thesis
    using assms(1-4,7,8) new(1,2,4)
    by (intro exI [of _ new]) (simp add: harness_add_events_def emit_def emit_to_def append_route_def journal_def io_simps ensure_def)
qed

text \<open>what is acknowledged to an execution is exactly what the journal stored. When a turn's execution adds
  events, either the call succeeds and returns the very events that were appended to the thread's log, in order and
  nothing else, or it fails and the log is unchanged; so the harness's account of open tool calls and the journal
  never differ.\<close>

theorem acknowledged_events_are_the_stored_ones:
  assumes "harness_add_events env key handle data w = (r, w')" and "data \<noteq> []"
    and "map_of (hw_routes w) key = Some active" and "hw_handle w (rr_turn active) = t"
    and "rr_thread active = hs_handle t" and "rr_record active = hs_turn t"
    and "turn_at env t (hw_log w) base own" and "\<not> hs_finished t" and "\<forall>d \<in> set data. \<not> is_turn_ended d"
    and "ids_fresh env (length data) (hw_log w) (base @ own)"
  shows "case r of
      Inr acknowledged \<Rightarrow> map ev_data acknowledged = data \<and>
        turn_at env (hw_handle w' (rr_turn active)) (hw_log w') base (own @ acknowledged)
    | Inl e \<Rightarrow> lw_store (hw_log w') = lw_store (hw_log w)"
proof -
  obtain a l where a: "turn_add_events env t data (hw_log w) = (a, l)" by fastforce
  show ?thesis
  proof (cases a)
    case (Inl e)
    then show ?thesis
      using assms(1-4) a turn_add_unstored [of env t data "hw_log w" e l]
      by (auto simp: harness_add_events_def emit_def emit_to_def append_route_def journal_def io_simps ok_or_def ensure_def unstored_def
            split: sum.splits if_splits prod.splits)
  next
    case (Inr p)
    then obtain added t' where p: "turn_add_events env t data (hw_log w) = (Inr (added, t'), l)" using a by (cases p) auto
    show ?thesis
    proof (cases "rr_completion active \<and> rr_outcome active = None")
      case True
      then show ?thesis
        using harness_add_run [OF p assms(2-6) _ _ assms(7-10), of handle] assms(1) by (auto simp: stream_events_def)
    next
      case False
      then have "\<exists>e. harness_add_events env key handle data w = (Inl e, w)"
        using assms(2,3) by (auto simp: harness_add_events_def emit_def emit_to_def io_simps ensure_def)
      then show ?thesis using assms(1) by auto
    qed
  qed
qed

theorem acknowledged_events_are_the_stored_ones_witness:
  "\<exists>w key acknowledged w' t own. harness_add_events sample_env key 0 [Messages (), ToolRequested ''c'' (), ToolResult ''c'' ()] w = (Inr acknowledged, w') \<and>
     map ev_data acknowledged = [Messages (), ToolRequested ''c'' (), ToolResult ''c'' ()] \<and>
     turn_at sample_env t (hw_log w') sample_events (own @ acknowledged)"
proof -
  let ?data = "[Messages (), ToolRequested ''c'' (), ToolResult ''c'' ()]"
  obtain t l own where t: "turn_at sample_env t l sample_events own" "\<not> hs_finished t" "hs_handle t = sample_handle"
    "ids_fresh sample_env 20 l (sample_events @ own)" "store_get (lw_store l) (record_path ''c'') = Some (Stored_Record sample_record)"
    using sample_turn by blast
  let ?route = "\<lparr> rr_thread = hs_handle t, rr_record = hs_turn t, rr_turn = 0, rr_outcome = None, rr_completion = True, rr_stream = False \<rparr>"
  let ?w = "(new_harness l (\<lambda>_. t))\<lparr>hw_routes := [(sample_key, ?route)]\<rparr>"
  have w: "map_of (hw_routes ?w) sample_key = Some ?route" "hw_log ?w = l" "hw_handle ?w (rr_turn ?route) = t" "?data \<noteq> []"
    by (simp_all add: new_harness_def)
  have data: "\<forall>d \<in> set ?data. \<not> is_turn_ended d" by simp
  have fresh: "ids_fresh sample_env (length ?data) (hw_log ?w) (sample_events @ own)" using t(4) unfolding w(2) by (auto simp: ids_fresh_def)
  obtain added t' l' where "turn_add_events sample_env t ?data (hw_log ?w) = (Inr (added, t'), l')"
    using sample_turn_add [OF t(3,5)] w(2) by metis
  from harness_add_run [OF this w(4,1,3) _ _ _ _ _ t(2) data fresh, of 0] t(1)
  obtain new w' where run: "harness_add_events sample_env sample_key 0 ?data ?w = (Inr new, w')" unfolding w(2) by auto
  from acknowledged_events_are_the_stored_ones [OF run w(4,1,3) _ _ _ t(2) data fresh] t(1)
  have "map ev_data new = ?data" "turn_at sample_env (hw_handle w' 0) (hw_log w') sample_events (own @ new)" unfolding w(2) by auto
  with run show ?thesis
    by (intro exI [of _ ?w] exI [of _ sample_key] exI [of _ new] exI [of _ w'] exI [of _ "hw_handle w' 0"] exI [of _ own] conjI)
qed

section \<open>The outcome of a turn and its journal\<close>




lemma find_append_ended: "\<forall>e \<in> set es. \<not> P e \<Longrightarrow> List.find P (es @ fs) = List.find P fs"
  by (induction es) auto















section \<open>Following a turn from outside\<close>

definition turn_errors :: "'p event list \<Rightarrow> string list" where
  "turn_errors es = List.map_filter (\<lambda>e. error_message (ev_data e)) es"

fun final_output :: "string + 'p turn_output \<Rightarrow> bool" where
  "final_output (Inl _) = True"
| "final_output (Inr (Out_Completed _)) = True"
| "final_output (Inr _) = False"

lemma turn_stream_step:
  assumes "ev_turn_id e = Some (tn_id turn)" and "\<not> is_turn_ended (ev_data e)"
    and "\<And>payload. ev_data e = Custom APPROVAL_REQUESTED payload \<Longrightarrow> \<exists>a. he_approval_request env payload = Inr a"
  shows "\<exists>pre. turn_stream env turn closed failure (Inr e # es) =
      pre @ turn_stream env turn closed (case error_message (ev_data e) of Some m \<Rightarrow> Some m | None \<Rightarrow> failure) es \<and>
    (\<forall>out \<in> set pre. \<not> final_output out)"
proof (cases "\<exists>payload. ev_data e = Custom APPROVAL_REQUESTED payload")
  case True
  then obtain payload a where "ev_data e = Custom APPROVAL_REQUESTED payload" "he_approval_request env payload = Inr a"
    using assms(3) by blast
  then show ?thesis using assms(1) by (intro exI [of _ "[Inr (Out_Approval turn a)]"]) simp
next
  case False
  show ?thesis
  proof (cases "execution_stream_event (ev_data e)")
    case None
    then show ?thesis using assms(1,2) False by (intro exI [of _ "[]"]) (cases "ev_data e"; simp)
  next
    case (Some out)
    then show ?thesis using assms(1) by (intro exI [of _ "[Inr (Out_Progress out)]"]) (cases "ev_data e"; simp)
  qed
qed

lemma turn_stream_ended:
  assumes "filter (\<lambda>e. ev_turn_id e = Some (tn_id turn)) es = own @ ended # rest" and "ev_data ended = TurnEnded"
    and "\<forall>e \<in> set own. \<not> is_turn_ended (ev_data e)"
    and "\<forall>e \<in> set own. \<forall>payload. ev_data e = Custom APPROVAL_REQUESTED payload \<longrightarrow> (\<exists>a. he_approval_request env payload = Inr a)"
  shows "\<exists>outs. turn_stream env turn closed failure (map Inr es) = outs @
      [case (if turn_errors own = [] then failure else Some (last (turn_errors own))) of
         Some m \<Rightarrow> Inl m
       | None \<Rightarrow> Inr (Out_Completed \<lparr> sd_session_id = tn_session_id turn, sd_turn_id = tn_id turn, sd_latest_event_id = ev_id ended \<rparr>)] \<and>
    (\<forall>out \<in> set outs. \<not> final_output out)"
  using assms
proof (induction es arbitrary: own failure)
  case (Cons e es)
  show ?case
  proof (cases "ev_turn_id e = Some (tn_id turn)")
    case False
    then show ?thesis using Cons.IH [of own failure] Cons.prems by simp
  next
    case mine: True
    show ?thesis
    proof (cases own)
      case Nil
      then show ?thesis using Cons.prems mine by (auto simp: turn_errors_def map_filter_simps split: option.split)
    next
      case (Cons d ds)
      have d: "d = e" and ds: "filter (\<lambda>e. ev_turn_id e = Some (tn_id turn)) es = ds @ ended # rest"
        using Cons.prems(1) mine Cons by simp_all
      have rest: "\<forall>e \<in> set ds. \<not> is_turn_ended (ev_data e)"
        "\<forall>e \<in> set ds. \<forall>payload. ev_data e = Custom APPROVAL_REQUESTED payload \<longrightarrow> (\<exists>a. he_approval_request env payload = Inr a)"
        using Cons.prems(3,4) Cons by simp_all
      have here: "\<not> is_turn_ended (ev_data e)"
        "\<And>payload. ev_data e = Custom APPROVAL_REQUESTED payload \<Longrightarrow> \<exists>a. he_approval_request env payload = Inr a"
        using Cons.prems(3,4) Cons d by simp_all
      let ?failure = "case error_message (ev_data e) of Some m \<Rightarrow> Some m | None \<Rightarrow> failure"
      obtain pre where pre: "turn_stream env turn closed failure (map Inr (e # es)) = pre @ turn_stream env turn closed ?failure (map Inr es)"
        "\<forall>out \<in> set pre. \<not> final_output out"
        using turn_stream_step [OF mine here, of closed failure "map Inr es"] unfolding list.map by blast
      obtain outs where "turn_stream env turn closed ?failure (map Inr es) = outs @
          [case (if turn_errors ds = [] then ?failure else Some (last (turn_errors ds))) of
             Some m \<Rightarrow> Inl m
           | None \<Rightarrow> Inr (Out_Completed \<lparr> sd_session_id = tn_session_id turn, sd_turn_id = tn_id turn, sd_latest_event_id = ev_id ended \<rparr>)]"
        "\<forall>out \<in> set outs. \<not> final_output out"
        using Cons.IH [OF ds Cons.prems(2) rest, of ?failure] by blast
      then show ?thesis
        using pre(2) Cons d unfolding pre(1)
        by (intro exI [of _ "pre @ outs"]) (auto simp: turn_errors_def map_filter_simps split: option.splits)
    qed
  qed
qed simp

text \<open>following a turn live and reading its journal give the same verdict. A follower that sees the events of
  a thread in which a turn has ended is given progress and approval requests and then exactly one final item, at the
  end marker: the same completion the journal reports when the turn recorded no error, and otherwise an error;
  the journal names the first recorded error and the stream the last, which are the same unless a turn records
  several.\<close>

theorem live_stream_agrees_with_journal:
  assumes "filter (\<lambda>e. ev_turn_id e = Some (tn_id turn)) es = own @ [ended]" and "ev_data ended = TurnEnded"
    and "\<forall>e \<in> set own. \<not> is_turn_ended (ev_data e)"
    and "\<forall>e \<in> set own. \<forall>payload. ev_data e = Custom APPROVAL_REQUESTED payload \<longrightarrow> (\<exists>a. he_approval_request env payload = Inr a)"
  shows "\<exists>outs final. turn_stream env turn closed None (map Inr es) = outs @ [final] \<and> (\<forall>out \<in> set outs. \<not> final_output out) \<and>
    (case journal_status_from_events (own @ [ended]) turn of
       Finished (Inr r) \<Rightarrow> final = Inr (Out_Completed r)
     | Finished (Inl m) \<Rightarrow> m = hd (turn_errors own) \<and> final = Inl (last (turn_errors own))
     | _ \<Rightarrow> False)"
proof -
  have find: "find_map (\<lambda>e. error_message (ev_data e)) es = (case turn_errors es of [] \<Rightarrow> None | m # _ \<Rightarrow> Some m)" for es :: "'p event list"
    by (induction es) (simp_all add: turn_errors_def map_filter_simps split: option.split)
  have "turn_errors (own @ [ended]) = turn_errors own" using assms(2) by (simp add: turn_errors_def map_filter_simps map_filter_def)
  then have "journal_status_from_events (own @ [ended]) turn = (case turn_errors own of
      [] \<Rightarrow> Finished (Inr \<lparr> sd_session_id = tn_session_id turn, sd_turn_id = tn_id turn, sd_latest_event_id = ev_id ended \<rparr>)
    | m # _ \<Rightarrow> Finished (Inl m))"
    using find_append_ended [OF assms(3), of "[ended]"] assms(2) find [of "own @ [ended]"]
    by (simp add: journal_status_from_events_def split: list.split)
  then show ?thesis
    using turn_stream_ended [OF assms, of closed None] by (cases "turn_errors own") auto
qed

theorem live_stream_agrees_with_journal_witness:
  "\<exists>outs. turn_stream sample_harness_env \<lparr> tn_id = 50, tn_session_id = 2 \<rparr> True None
      (map Inr [(sample_event 7 SessionStarted), (sample_event 8 (ErrorEvent ''boom'' ()))\<lparr>ev_turn_id := Some 50\<rparr>,
        (sample_event 9 TurnEnded)\<lparr>ev_turn_id := Some 50\<rparr>]) = outs @ [Inl ''boom'']"
  using live_stream_agrees_with_journal [of "\<lparr> tn_id = 50, tn_session_id = 2 \<rparr>"
      "[(sample_event 7 SessionStarted), (sample_event 8 (ErrorEvent ''boom'' ()))\<lparr>ev_turn_id := Some 50\<rparr>,
        (sample_event 9 TurnEnded)\<lparr>ev_turn_id := Some 50\<rparr>]"
      "[(sample_event 8 (ErrorEvent ''boom'' ()))\<lparr>ev_turn_id := Some 50\<rparr>]" "(sample_event 9 TurnEnded)\<lparr>ev_turn_id := Some 50\<rparr>"
      sample_harness_env True]
  by (simp add: sample_event_def journal_status_from_events_def turn_errors_def map_filter_simps)

section \<open>Taking over an interrupted turn\<close>

lemma recovered_calls_pending:
  "recovered_calls env es tool_round calls approvals responses = Inr (calls', approvals', responses') \<Longrightarrow>
     (\<lambda>c. fst (snd c)) ` set calls' = fold update_pending_tools (map ev_data es) ((\<lambda>c. fst (snd c)) ` set calls)"
proof (induction es arbitrary: tool_round calls approvals responses)
  case (Cons e es)
  show ?case
  proof (cases "ev_data e")
    case (ToolResult call res)
    have "(\<lambda>c. fst (snd c)) ` set (filter (\<lambda>c. fst (snd c) \<noteq> call) calls) = (\<lambda>c. fst (snd c)) ` set calls - {call}" by auto
    then show ?thesis using Cons ToolResult by simp
  next
    case (Custom event_type payload)
    then obtain tr ap re where "recovered_calls env es tr calls ap re = Inr (calls', approvals', responses')"
      using Cons.prems by (auto simp: and_then_Inr_iff split: if_splits)
    then show ?thesis using Cons.IH Custom by simp
  qed (use Cons in \<open>auto\<close>)
qed simp

text \<open>Which approvals a turn's events request, and which of them they answer.\<close>

definition requests_approval :: "'p harness_env \<Rightarrow> 'p event list \<Rightarrow> approval_request \<Rightarrow> bool" where
  "requests_approval env es a \<longleftrightarrow>
     (\<exists>e \<in> set es. \<exists>payload. ev_data e = Custom APPROVAL_REQUESTED payload \<and> he_approval_request env payload = Inr a)"

definition answers_approval :: "'p harness_env \<Rightarrow> 'p event list \<Rightarrow> string \<Rightarrow> bool" where
  "answers_approval env es i \<longleftrightarrow>
     (\<exists>e \<in> set es. \<exists>payload a. ev_data e = Custom APPROVAL_RESPONSE payload \<and> he_approval_response env payload = Inr a \<and> as_approval_id a = i)"

lemma round_kind [simp]: "APPROVAL_REQUESTED \<noteq> BASIC_TOOL_ROUND" "APPROVAL_RESPONSE \<noteq> BASIC_TOOL_ROUND"
  "BASIC_TOOL_ROUND \<noteq> APPROVAL_REQUESTED" "BASIC_TOOL_ROUND \<noteq> APPROVAL_RESPONSE"
  by (simp_all add: APPROVAL_REQUESTED_def APPROVAL_RESPONSE_def BASIC_TOOL_ROUND_def)

lemma recovered_calls_approvals:
  "recovered_calls env es tool_round calls approvals responses = Inr (calls', approvals', responses') \<Longrightarrow>
     (\<forall>a \<in> set approvals'. a \<in> set approvals \<or> requests_approval env es a) \<and>
     (\<forall>i. i \<in> responses \<or> answers_approval env es i \<longrightarrow> i \<in> responses')"
proof (induction es arbitrary: tool_round calls approvals responses)
  case Nil
  then show ?case by (simp add: answers_approval_def)
next
  case (Cons e es)
  have mono: "requests_approval env es a \<Longrightarrow> requests_approval env (e # es) a" for a by (auto simp: requests_approval_def)
  have split: "answers_approval env (e # es) i \<longleftrightarrow>
      (\<exists>payload a. ev_data e = Custom APPROVAL_RESPONSE payload \<and> he_approval_response env payload = Inr a \<and> as_approval_id a = i) \<or>
      answers_approval env es i" for i by (auto simp: answers_approval_def)
  show ?case
  proof (cases "ev_data e")
    case (Custom event_type payload)
    have here: "he_approval_request env payload = Inr a \<Longrightarrow> event_type = APPROVAL_REQUESTED \<Longrightarrow> requests_approval env (e # es) a" for a
      using Custom by (auto simp: requests_approval_def)
    from Cons.prems Custom show ?thesis
      by (auto simp: and_then_Inr_iff split split: if_splits dest!: Cons.IH intro: mono here) (metis mono here)
  qed (use Cons.prems in \<open>auto simp: split dest!: Cons.IH intro: mono\<close>)
qed

lemma fold_pending_filter:
  assumes "\<And>e. e \<in> set es \<Longrightarrow> \<not> P e \<Longrightarrow> (\<forall>S. update_pending_tools (ev_data e) S = S)"
  shows "fold update_pending_tools (map ev_data (filter P es)) S = fold update_pending_tools (map ev_data es) S"
  using assms by (induction es arbitrary: S) auto

lemma tools_selected:
  "ge_events (select_events (Some (tools_query turn)) es) =
     filter (\<lambda>e. \<exists>k \<in> {''tool_requested'', ''tool_result'', BASIC_TOOL_ROUND, APPROVAL_REQUESTED, APPROVAL_RESPONSE}. kind_matches k (event_kind (ev_data e)))
       (filter (\<lambda>e. ev_turn_id e = Some turn) es)"
  by (simp add: Let_def select_events_def tools_query_def journal_query_def after_cursor_def query_matches_def retain_opt_def)

lemma approvals_filtered:
  "requests_approval env (filter P es) a \<Longrightarrow> requests_approval env es a"
  "answers_approval env es i \<Longrightarrow> (\<And>e payload. ev_data e = Custom APPROVAL_RESPONSE payload \<Longrightarrow> P e) \<Longrightarrow> answers_approval env (filter P es) i"
  by (fastforce simp: requests_approval_def answers_approval_def)+

text \<open>C17: a recovered execution takes over exactly the open tool calls, and only when that is safe. When the tools
  of an interrupted turn are restored, the pending calls are those the turn's journal requested without a result,
  nothing is written, and a turn with an open call is resumed only if its executor can wait for approvals again and
  the journal shows an approval requested for an open call that nobody has answered.\<close>

theorem recovery_takes_over_open_calls:
  assumes "restore_recovery_tools env work w = (Inr calls, w')"
    and "load_events (he_log env) (ch_dir (xt_thread work)) (lw_store w) = Inr es"
    and "own = filter (\<lambda>e. ev_turn_id e = Some (tn_id (xt_record work))) es"
  shows "w' = w \<and> calls = fold update_pending_tools (map ev_data own) {} \<and>
    (calls \<noteq> {} \<longrightarrow> he_can_resume_approval env (wk_agent_config (xt_work work)) \<and>
       (\<exists>call \<in> calls. \<exists>a. requests_approval env own a \<and> aq_tool_call_id a = Some call \<and> \<not> answers_approval env own (aq_approval_id a)))"
proof -
  let ?kinds = "{''tool_requested'', ''tool_result'', BASIC_TOOL_ROUND, APPROVAL_REQUESTED, APPROVAL_RESPONSE}"
  let ?seen = "filter (\<lambda>e. \<exists>k \<in> ?kinds. kind_matches k (event_kind (ev_data e))) own"
  have page: "get_events (he_log env) (xt_thread work) (Some (tools_query (tn_id (xt_record work)))) v = (Inr p, v') \<Longrightarrow>
      v = w \<Longrightarrow> ge_events p = ?seen \<and> v' = w" for p v v'
    using assms(2,3) unfolding get_events_def
    by (auto simp: io_bind_Inr_iff io_lift_def io_read_def io_return_def tools_selected)
  have allowed: "(case cs of [] \<Rightarrow> Ok () | c # _ \<Rightarrow> ensure (P c) (m c)) = Inr () \<Longrightarrow> (case cs of [] \<Rightarrow> True | c # _ \<Rightarrow> P c)" for cs :: "'b list" and P m
    by (simp add: ensure_Inr_iff split: list.splits)
  obtain p v cs approvals responses where r: "get_events (he_log env) (xt_thread work) (Some (tools_query (tn_id (xt_record work)))) w = (Inr p, v)"
    "recovered_calls env (ge_events p) None [] [] {} = Inr (cs, approvals, responses)"
    "calls = (\<lambda>c. fst (snd c)) ` set cs" "w' = v"
    "case cs of [] \<Rightarrow> True | c # _ \<Rightarrow> he_can_resume_approval env (wk_agent_config (xt_work work)) \<and> awaits_approval approvals responses c"
    using assms(1) unfolding restore_recovery_tools_def
    by (auto simp: io_bind_Inr_iff io_lift_def io_return_def dest!: allowed)
  note r = page [OF r(1) refl] r(2-5)
  have r: "recovered_calls env ?seen None [] [] {} = Inr (cs, approvals, responses)" "calls = (\<lambda>c. fst (snd c)) ` set cs" "w' = w"
    "case cs of [] \<Rightarrow> True | c # _ \<Rightarrow> he_can_resume_approval env (wk_agent_config (xt_work work)) \<and> awaits_approval approvals responses c"
    using r by simp_all
  have "update_pending_tools (ev_data e) S = S" if "\<not> (\<exists>k \<in> ?kinds. kind_matches k (event_kind (ev_data e)))" for e :: "'a event" and S
    using that by (cases "ev_data e") (auto simp: kind_matches_def)
  then have "calls = fold update_pending_tools (map ev_data own) {}"
    using recovered_calls_pending [OF r(1)] r(2) fold_pending_filter [of own "\<lambda>e. \<exists>k \<in> ?kinds. kind_matches k (event_kind (ev_data e))" "{}"]
    by simp
  moreover have "\<exists>call \<in> calls. \<exists>a. requests_approval env own a \<and> aq_tool_call_id a = Some call \<and> \<not> answers_approval env own (aq_approval_id a)"
    if c: "cs = c # rest" for c rest
  proof -
    obtain a where a: "a \<in> set approvals" "aq_tool_call_id a = Some (fst (snd c))" "aq_approval_id a \<notin> responses"
      using r(4) c by (cases c) (auto simp: awaits_approval_def)
    note found = recovered_calls_approvals [OF r(1)]
    have "requests_approval env ?seen a" using found a(1) by auto
    then have "requests_approval env own a" by (rule approvals_filtered)
    moreover have "\<not> answers_approval env ?seen (aq_approval_id a)" using found a(3) by blast
    then have "\<not> answers_approval env own (aq_approval_id a)"
      by (rule contrapos_nn) (rule approvals_filtered(2), simp_all add: kind_matches_def)
    moreover have "fst (snd c) \<in> calls" using r(2) c by simp
    ultimately show ?thesis using a(2) by blast
  qed
  ultimately show ?thesis using r by (cases cs) auto
qed

theorem recovery_takes_over_open_calls_witness:
  "\<exists>l. fst (restore_recovery_tools sample_harness_env sample_start l) = Inr {''c''} \<and>
     he_can_resume_approval sample_harness_env (wk_agent_config (xt_work sample_start))"
proof -
  let ?data = "[Custom BASIC_TOOL_ROUND (), ToolRequested ''c'' (), Custom APPROVAL_REQUESTED ()]"
  obtain t l own where t: "turn_at sample_env t l sample_events own" "\<not> hs_finished t" "hs_handle t = sample_handle"
    "hs_turn t = \<lparr> tn_id = 50, tn_session_id = 2 \<rparr>"
    "ids_fresh sample_env 20 l (sample_events @ own)" "map ev_data own = [TurnStarted (Some ''u''), Messages ()]"
    "store_get (lw_store l) (record_path ''c'') = Some (Stored_Record sample_record)"
    using sample_turn by (elim exE conjE) (rule that)
  obtain added t' l' where add: "turn_add_events sample_env t ?data l = (Inr (added, t'), l')" using sample_turn_add [OF t(3,7)] by blast
  obtain new where new: "turn_at sample_env t' l' sample_events (own @ new)" "map ev_data new = ?data" "hs_handle t' = sample_handle"
    "hs_turn t' = \<lparr> tn_id = 50, tn_session_id = 2 \<rparr>"
    using turn_add_stored [OF add t(1,2,5)] t(3,4) by auto
  have es: "load_events sample_env ''c'' (lw_store l') = Inr (sample_events @ own @ new)"
    using new(1,3) load_events_log by (auto simp: turn_at_def)
  have mine: "filter (\<lambda>e. ev_turn_id e = Some 50) (sample_events @ own @ new) = own @ new"
    using new(1,4) by (auto simp: turn_at_def sample_events_def sample_event_def)
  obtain o1 o2 n1 n2 n3 where parts: "own = [o1, o2]" "ev_data o1 = TurnStarted (Some ''u'')" "ev_data o2 = Messages ()"
    "new = [n1, n2, n3]" "ev_data n1 = Custom BASIC_TOOL_ROUND ()" "ev_data n2 = ToolRequested ''c'' ()" "ev_data n3 = Custom APPROVAL_REQUESTED ()"
    using t(6) new(2) by auto
  have "recovered_calls sample_harness_env [n1, n2, n3] None [] [] {} = Inr ([(Some 0, ''c'', sample_tool)], [sample_approval], {})"
    using parts by simp
  moreover have "ge_events (select_events (Some (tools_query 50)) (sample_events @ own @ new)) = [n1, n2, n3]"
    unfolding tools_selected mine using parts
    by (simp add: kind_matches_def canonical_event_kind_def APPROVAL_REQUESTED_def APPROVAL_RESPONSE_def BASIC_TOOL_ROUND_def)
  moreover have "get_events sample_env sample_handle (Some (tools_query 50)) l' =
      (Inr (select_events (Some (tools_query 50)) (sample_events @ own @ new)), l')"
    using es by (simp add: get_events_def io_bind_def io_lift_def io_read_def io_return_def)
  moreover have "awaits_approval [sample_approval] {} (Some 0, ''c'', sample_tool)"
    by (simp add: awaits_approval_def sample_approval_def)
  moreover have "xt_thread sample_start = sample_handle" "xt_record sample_start = \<lparr> tn_id = 50, tn_session_id = 2 \<rparr>"
    by (simp_all add: sample_start_def)
  ultimately have "fst (restore_recovery_tools sample_harness_env sample_start l') = Inr {''c''}"
    by (simp add: restore_recovery_tools_def io_bind_def io_lift_def io_return_def ensure_def)
  then obtain w' where run: "restore_recovery_tools sample_harness_env sample_start l' = (Inr {''c''}, w')" by (metis prod.collapse)
  have "load_events (he_log sample_harness_env) (ch_dir (xt_thread sample_start)) (lw_store l') = Inr (sample_events @ own @ new)"
    using es by (simp add: sample_start_def)
  from recovery_takes_over_open_calls [OF run this refl] run show ?thesis by (intro exI [of _ l']) simp
qed

end
