(* ===== verification/Credential_Policy.thy ===== *)
theory Credential_Policy
  imports Rust_Text "HOL-Library.List_Lexorder" "HOL-Library.Char_ord"
begin

text \<open>
  Where a credential may be sent: the egress part of \<open>exoharness/src/types.rs\<close> (host names, network
  and egress policies) and \<open>exoharness/src/credential_policy.rs\<close>. A parsed URL is the record of what
  its accessors return; the parser of the \<open>url\<close> crate is the parameter \<open>parse\<close>, and what the code
  relies on about it is the predicate \<open>url_parser_ok\<close>. Host sets are HOL sets.
\<close>

section \<open>Egress host names and policies\<close>

definition egress_label_ok :: "string \<Rightarrow> bool" where
  "egress_label_ok label \<longleftrightarrow>
     label \<noteq> [] \<and> length label \<le> 63 \<and> \<not> starts_with ''-'' label \<and> \<not> ends_with ''-'' label
     \<and> list_all (\<lambda>b. is_ascii_alphanumeric b \<or> b = CHR ''-'') label"

definition canonical_egress_host :: "string \<Rightarrow> string result" where
  "canonical_egress_host host =
     and_then (ensure (host \<noteq> [] \<and> length host \<le> 253 \<and> \<not> ends_with ''.'' host) ''invalid egress hostname'') (\<lambda>_.
     let host = to_ascii_lowercase host in
     and_then (ensure (\<not> is_ip_literal host) ''IP literals are not egress hostnames'') (\<lambda>_.
     and_then (ensure (list_all egress_label_ok (split_char (CHR ''.'') host)) ''expected an exact ASCII hostname'') (\<lambda>_.
     Ok host)))"

definition MAX_ALLOWED_HOSTS :: nat where
  "MAX_ALLOWED_HOSTS = 128"

definition canonical_egress_hosts :: "string list \<Rightarrow> string set result" where
  "canonical_egress_hosts hosts =
     and_then (ensure (length hosts \<le> MAX_ALLOWED_HOSTS) ''too many allowed hosts'') (\<lambda>_.
     and_then (map_res canonical_egress_host hosts) (\<lambda>hs. Ok (set hs)))"

datatype sandbox_network_policy = Unrestricted | Disabled | Limited "string list"

datatype credential_destination = Origin string | Url string

datatype credential_network_policy =
  Limited_Hosts "string list" | Destinations "credential_destination list"

record credential_injection_location =
  cil_header :: bool

record egress_credential_binding =
  eb_name :: string
  eb_environment_variable :: string
  eb_networking :: credential_network_policy
  eb_injection_location :: credential_injection_location

record egress_policy =
  ep_networking :: sandbox_network_policy
  ep_allowed_tcp_ports :: "u16 list option"
  ep_credentials :: "egress_credential_binding list"

definition allows_tcp_port :: "egress_policy \<Rightarrow> u16 \<Rightarrow> bool" where
  "allows_tcp_port p port \<longleftrightarrow>
     port \<noteq> 0 \<and> (case ep_allowed_tcp_ports p of None \<Rightarrow> True | Some ports \<Rightarrow> port \<in> set ports)"

definition networking_enabled :: "egress_policy \<Rightarrow> bool" where
  "networking_enabled p \<longleftrightarrow> ep_networking p \<noteq> Disabled"

definition validate_basic :: "egress_policy \<Rightarrow> string \<Rightarrow> unit result" where
  "validate_basic p provider =
     and_then (ensure (ep_allowed_tcp_ports p = None) (provider @ '' does not support policy.allowed_tcp_ports'')) (\<lambda>_.
     if ep_credentials p \<noteq> [] then bail (provider @ '' does not support policy.credentials'')
     else (case ep_networking p of
             Limited _ \<Rightarrow> bail (provider @ '' does not support policy.networking.limited'')
           | _ \<Rightarrow> Ok ()))"

definition requires_proxy :: "egress_policy \<Rightarrow> bool" where
  "requires_proxy p \<longleftrightarrow>
     ep_credentials p \<noteq> [] \<or> ep_allowed_tcp_ports p \<noteq> None
     \<or> (case ep_networking p of Limited _ \<Rightarrow> True | _ \<Rightarrow> False)"

definition policy_of_networking :: "sandbox_network_policy \<Rightarrow> egress_policy" where
  "policy_of_networking networking =
     \<lparr> ep_networking = networking, ep_allowed_tcp_ports = None, ep_credentials = [] \<rparr>"

section \<open>URLs\<close>

datatype url_host = Domain string | Ipv4 u32 | Ipv6 u128

record url =
  url_scheme :: string
  url_host :: "url_host option"
  url_host_str :: "string option"
  url_username :: string
  url_password :: "string option"
  url_path :: string
  url_query :: "string option"
  url_fragment :: "string option"
  url_origin :: string
  url_port_or_known_default :: "u16 option"
  url_text :: string

type_synonym url_parser = "string \<Rightarrow> string + url"

text \<open>\<open>Ipv4Addr::is_loopback\<close> is 127.0.0.0/8, \<open>Ipv6Addr::is_loopback\<close> is \<open>::1\<close>.\<close>

definition is_loopback :: "url \<Rightarrow> bool" where
  "is_loopback u =
     (case url_host u of
        Some (Domain d) \<Rightarrow> d = ''localhost''
      | Some (Ipv4 ip) \<Rightarrow> drop_bit 24 ip = 127
      | Some (Ipv6 ip) \<Rightarrow> ip = 1
      | None \<Rightarrow> False)"

section \<open>Destinations\<close>

definition parse_destination :: "url_parser \<Rightarrow> string \<Rightarrow> url result" where
  "parse_destination parse value =
     (case parse value of
        Inl _ \<Rightarrow> bail ''invalid credential destination''
      | Inr u \<Rightarrow>
          and_then (ensure (url_scheme u \<in> {''http'', ''https''} \<and> url_host_str u \<noteq> None
              \<and> url_username u = [] \<and> url_password u = None \<and> url_fragment u = None)
            ''credential destinations require an HTTP(S) URL without embedded credentials or a fragment'') (\<lambda>_.
          Ok u))"

definition destination_origin :: "url_parser \<Rightarrow> string \<Rightarrow> credential_destination result" where
  "destination_origin parse origin =
     and_then (parse_destination parse origin) (\<lambda>u.
     and_then (ensure ((url_scheme u = ''https'' \<or> is_loopback u) \<and> url_path u = ''/'' \<and> url_query u = None)
       ''credential origins require HTTPS (or loopback HTTP) without a path or query'') (\<lambda>_.
     Ok (Origin (url_origin u))))"

definition destination_url :: "url_parser \<Rightarrow> string \<Rightarrow> credential_destination result" where
  "destination_url parse value = and_then (parse_destination parse value) (\<lambda>u. Ok (Url (url_text u)))"

definition destination_normalized :: "url_parser \<Rightarrow> credential_destination \<Rightarrow> credential_destination result" where
  "destination_normalized parse d =
     (case d of Origin origin \<Rightarrow> destination_origin parse origin | Url u \<Rightarrow> destination_url parse u)"

definition as_str :: "credential_destination \<Rightarrow> string" where
  "as_str d = (case d of Origin origin \<Rightarrow> origin | Url u \<Rightarrow> u)"

definition destination_permits :: "url_parser \<Rightarrow> credential_destination \<Rightarrow> credential_destination \<Rightarrow> bool" where
  "destination_permits parse allowed destination =
     (case (allowed, destination) of
        (Origin origin, other) \<Rightarrow>
          (case parse (as_str other) of Inl _ \<Rightarrow> False | Inr u \<Rightarrow> url_origin u = origin)
      | (Url u, Url requested) \<Rightarrow> u = requested
      | _ \<Rightarrow> False)"

section \<open>Credential policies\<close>

record credential_policy =
  cp_networking :: credential_network_policy
  cp_injection_location :: credential_injection_location

definition policy_destinations :: "credential_destination list \<Rightarrow> credential_policy" where
  "policy_destinations allowed =
     \<lparr> cp_networking = Destinations allowed, cp_injection_location = \<lparr> cil_header = True \<rparr> \<rparr>"

definition policy_from_destination :: "credential_destination \<Rightarrow> credential_policy" where
  "policy_from_destination d = policy_destinations [d]"

definition is_resource :: "credential_policy \<Rightarrow> bool" where
  "is_resource p =
     (case cp_networking p of
        Destinations allowed \<Rightarrow> list_ex (\<lambda>d. case d of Url _ \<Rightarrow> True | _ \<Rightarrow> False) allowed
      | Limited_Hosts _ \<Rightarrow> False)"

definition network_normalized :: "url_parser \<Rightarrow> credential_network_policy \<Rightarrow> credential_network_policy result" where
  "network_normalized parse n =
     (case n of
        Limited_Hosts hosts \<Rightarrow>
          and_then (canonical_egress_hosts hosts) (\<lambda>hs. Ok (Limited_Hosts (sorted_list_of_set hs)))
      | Destinations allowed \<Rightarrow>
          and_then (map_res (destination_normalized parse) allowed) (\<lambda>ds. Ok (Destinations ds)))"

definition network_permits :: "url_parser \<Rightarrow> credential_network_policy \<Rightarrow> credential_destination \<Rightarrow> bool" where
  "network_permits parse n destination =
     (case n of
        Limited_Hosts hosts \<Rightarrow>
          (case parse (as_str destination) of
             Inl _ \<Rightarrow> False
           | Inr u \<Rightarrow> url_scheme u = ''https'' \<and>
               (case url_host_str u of
                  None \<Rightarrow> False
                | Some host \<Rightarrow> list_ex (\<lambda>allowed. eq_ignore_ascii_case allowed host) hosts))
      | Destinations allowed \<Rightarrow> list_ex (\<lambda>a. destination_permits parse a destination) allowed)"

definition network_hosts :: "url_parser \<Rightarrow> credential_network_policy \<Rightarrow> string set result" where
  "network_hosts parse n =
     (case n of
        Limited_Hosts hosts \<Rightarrow> canonical_egress_hosts hosts
      | Destinations allowed \<Rightarrow>
          and_then (map_res (\<lambda>d. and_then (parse_destination parse (as_str d)) (\<lambda>u.
            ok_or (url_host_str u) ''credential destination host'')) allowed) (\<lambda>hosts.
          canonical_egress_hosts hosts))"

definition policy_normalized :: "url_parser \<Rightarrow> credential_policy \<Rightarrow> credential_policy result" where
  "policy_normalized parse p =
     and_then (network_normalized parse (cp_networking p)) (\<lambda>n.
     Ok \<lparr> cp_networking = n, cp_injection_location = cp_injection_location p \<rparr>)"

definition policy_permits :: "url_parser \<Rightarrow> credential_policy \<Rightarrow> credential_destination \<Rightarrow> bool" where
  "policy_permits parse p destination \<longleftrightarrow>
     cil_header (cp_injection_location p) \<and> network_permits parse (cp_networking p) destination"

definition for_destination :: "url_parser \<Rightarrow> credential_policy \<Rightarrow> credential_destination \<Rightarrow> credential_policy result" where
  "for_destination parse p destination =
     and_then (ensure (policy_permits parse p destination)
       (''credential policy does not permit '' @ as_str destination)) (\<lambda>_.
     Ok (policy_from_destination destination))"

definition policy_binding :: "credential_policy \<Rightarrow> string \<Rightarrow> string \<Rightarrow> egress_credential_binding" where
  "policy_binding p name environment_variable =
     \<lparr> eb_name = name, eb_environment_variable = environment_variable,
       eb_networking = cp_networking p, eb_injection_location = cp_injection_location p \<rparr>"

section \<open>What is assumed of the URL parser\<close>

text \<open>
  A serialized URL parses to the same URL. The origin of an HTTP(S) URL is its scheme, host and port:
  it parses to the URL with that scheme and host, root path and nothing else, whose origin is itself,
  and equal origins have equal schemes and hosts.
\<close>

definition url_http :: "url \<Rightarrow> bool" where
  "url_http u \<longleftrightarrow> url_scheme u \<in> {''http'', ''https''}"

definition url_parser_ok :: "url_parser \<Rightarrow> bool" where
  "url_parser_ok parse \<longleftrightarrow>
     (\<forall>s u. parse s = Inr u \<longrightarrow> parse (url_text u) = Inr u)
     \<and> (\<forall>s u. parse s = Inr u \<longrightarrow> url_http u \<longrightarrow>
          (\<exists>v. parse (url_origin u) = Inr v \<and> url_origin v = url_origin u \<and> url_scheme v = url_scheme u
             \<and> url_host v = url_host u \<and> url_host_str v = url_host_str u \<and> url_username v = []
             \<and> url_password v = None \<and> url_fragment v = None \<and> url_path v = ''/'' \<and> url_query v = None))
     \<and> (\<forall>s u t v. parse s = Inr u \<longrightarrow> parse t = Inr v \<longrightarrow> url_http u \<longrightarrow> url_http v \<longrightarrow>
          url_origin u = url_origin v \<longrightarrow> url_scheme u = url_scheme v \<and> url_host_str u = url_host_str v)"

section \<open>Host names\<close>

definition host_byte :: "char \<Rightarrow> bool" where
  "host_byte c \<longleftrightarrow> c = CHR ''.'' \<or> c = CHR ''-'' \<or> (let n = of_char c :: nat in 48 \<le> n \<and> n \<le> 57 \<or> 97 \<le> n \<and> n \<le> 122)"

lemma to_ascii_lower_dot [simp]: "to_ascii_lower c = CHR ''.'' \<longleftrightarrow> c = CHR ''.''"
proof
  assume "to_ascii_lower c = CHR ''.''"
  then have "(of_char (to_ascii_lower c) :: nat) = of_char (CHR ''.'')"
    by simp
  then have "(of_char c :: nat) = of_char (CHR ''.'')"
    by (auto simp: of_char_lower Let_def split: if_splits)
  then show "c = CHR ''.''"
    by (simp only: of_char_eq_iff)
qed (simp add: to_ascii_lower_def)

lemma dot_to_ascii_lower [simp]: "CHR ''.'' = to_ascii_lower c \<longleftrightarrow> c = CHR ''.''"
  using to_ascii_lower_dot [of c] by metis

lemma ends_with_dot_lowercase [simp]: "ends_with ''.'' (to_ascii_lowercase s) \<longleftrightarrow> ends_with ''.'' s"
proof (cases s rule: rev_cases)
  case Nil
  then show ?thesis
    by (simp add: to_ascii_lowercase_def)
next
  case (snoc r c)
  have "ends_with ''.'' (map to_ascii_lower r @ [to_ascii_lower c]) \<longleftrightarrow> ends_with ''.'' (r @ [c])"
    by (auto simp: ends_with_def strip_suffix_def)
  with snoc show ?thesis
    by (simp add: to_ascii_lowercase_def)
qed

lemma canonical_host_iff:
  "canonical_egress_host host = Inr c \<longleftrightarrow>
     host \<noteq> [] \<and> length host \<le> 253 \<and> \<not> ends_with ''.'' host \<and> c = to_ascii_lowercase host
     \<and> \<not> is_ip_literal c \<and> list_all egress_label_ok (split_char (CHR ''.'') c)"
  by (auto simp: canonical_egress_host_def Let_def result_simps)

lemma canonical_host_idem: "canonical_egress_host host = Inr c \<Longrightarrow> canonical_egress_host c = Inr c"
  by (auto simp: canonical_host_iff)

lemma canonical_host_lower: "canonical_egress_host host = Inr c \<Longrightarrow> to_ascii_lowercase c = c"
  by (auto simp: canonical_host_iff)

lemma split_char_bytes: "b \<in> set s \<Longrightarrow> b = c \<or> (\<exists>piece \<in> set (split_char c s). b \<in> set piece)"
  by (induction s) (auto split: list.splits)

lemma lower_alphanumeric: "is_ascii_alphanumeric b \<Longrightarrow> to_ascii_lower b = b \<Longrightarrow> host_byte b"
proof -
  assume alnum: "is_ascii_alphanumeric b" and low: "to_ascii_lower b = b"
  have "\<not> (65 \<le> (of_char b :: nat) \<and> (of_char b :: nat) \<le> 90)"
    using of_char_lower [of b] unfolding low by (auto simp: Let_def split: if_splits)
  with alnum show ?thesis
    by (auto simp: is_ascii_alphanumeric_def host_byte_def Let_def)
qed

lemma canonical_host_bytes:
  assumes "canonical_egress_host host = Inr c" and b: "b \<in> set c"
  shows "host_byte b"
proof -
  have "map to_ascii_lower c = map (\<lambda>b. b) c"
    using canonical_host_lower [OF assms(1)] by (simp add: to_ascii_lowercase_def)
  with b have "to_ascii_lower b = b"
    by (simp only: map_eq_conv)
  moreover have "b = CHR ''.'' \<or> b = CHR ''-'' \<or> is_ascii_alphanumeric b"
    using assms split_char_bytes [OF b, of "CHR ''.''"]
    by (auto simp: canonical_host_iff list_all_iff egress_label_ok_def)
  ultimately show ?thesis
    using lower_alphanumeric by (auto simp: host_byte_def)
qed

lemma canonical_hosts_iff:
  "canonical_egress_hosts hosts = Inr hs \<longleftrightarrow>
     length hosts \<le> MAX_ALLOWED_HOSTS
     \<and> (\<exists>cs. list_all2 (\<lambda>h c. canonical_egress_host h = Inr c) hosts cs \<and> hs = set cs)"
  by (auto simp: canonical_egress_hosts_def result_simps map_res_Inr_iff)

lemma canonical_hosts_member:
  "canonical_egress_hosts hosts = Inr hs \<Longrightarrow> c \<in> hs \<Longrightarrow> canonical_egress_host c = Inr c"
  by (auto simp: canonical_hosts_iff dest: list_all2_in_right canonical_host_idem)

text \<open>C34: A host name that is accepted is stored in lower case, has 1 to 253 bytes, each of its labels
  has 1 to 63 bytes, every byte is a letter, digit, hyphen or dot, and it is no address literal; it is
  the name given up to ASCII case and is accepted again unchanged.\<close>

theorem canonical_host_bounds:
  assumes "canonical_egress_host host = Inr c"
  shows "1 \<le> length c \<and> length c \<le> 253
    \<and> (\<forall>label \<in> set (split_char (CHR ''.'') c). 1 \<le> length label \<and> length label \<le> 63)
    \<and> (\<forall>b \<in> set c. host_byte b) \<and> \<not> is_ip_literal c
    \<and> eq_ignore_ascii_case host c \<and> canonical_egress_host c = Inr c"
proof -
  have "\<forall>label \<in> set (split_char (CHR ''.'') c). 1 \<le> length label \<and> length label \<le> 63"
    using assms by (auto simp: canonical_host_iff list_all_iff egress_label_ok_def Suc_le_eq)
  then show ?thesis
    using assms canonical_host_bytes [OF assms] canonical_host_idem [OF assms]
    by (auto simp: canonical_host_iff eq_ignore_ascii_case_def Suc_le_eq)
qed

theorem canonical_host_bounds_witness:
  "length (''api.example'' :: string) \<le> 253 \<and> canonical_egress_host ''api.example'' = Inr ''api.example''"
proof -
  have "canonical_egress_host ''API.Example'' = Inr ''api.example''"
    by code_simp
  from canonical_host_bounds [OF this] show ?thesis
    by simp
qed

section \<open>Destinations\<close>

lemma parse_destination_iff:
  "parse_destination parse s = Inr u \<longleftrightarrow>
     parse s = Inr u \<and> url_http u \<and> url_host_str u \<noteq> None \<and> url_username u = [] \<and> url_password u = None
     \<and> url_fragment u = None"
  by (auto simp: parse_destination_def url_http_def result_simps split: sum.split)

lemma destination_origin_iff:
  "destination_origin parse s = Inr d \<longleftrightarrow>
     (\<exists>u. parse_destination parse s = Inr u \<and> (url_scheme u = ''https'' \<or> is_loopback u) \<and> url_path u = ''/''
        \<and> url_query u = None \<and> d = Origin (url_origin u))"
  by (auto simp: destination_origin_def result_simps)

lemma destination_url_iff:
  "destination_url parse s = Inr d \<longleftrightarrow> (\<exists>u. parse_destination parse s = Inr u \<and> d = Url (url_text u))"
  by (auto simp: destination_url_def result_simps)

lemmas destination_iffs = parse_destination_iff destination_origin_iff destination_url_iff

lemma url_reparse: "url_parser_ok parse \<Longrightarrow> parse s = Inr u \<Longrightarrow> parse (url_text u) = Inr u"
  by (auto simp: url_parser_ok_def)

lemma url_origin_parses:
  assumes "url_parser_ok parse" and "parse s = Inr u" and "url_http u"
  obtains v where "parse (url_origin u) = Inr v" "url_origin v = url_origin u" "url_scheme v = url_scheme u"
    "url_host v = url_host u" "url_host_str v = url_host_str u" "url_username v = []" "url_password v = None"
    "url_fragment v = None" "url_path v = ''/''" "url_query v = None"
  using assms unfolding url_parser_ok_def by blast

lemma same_origin:
  assumes "url_parser_ok parse" and "parse s = Inr u" and "parse t = Inr v" and "url_http u" and "url_http v"
    and "url_origin u = url_origin v"
  shows "url_scheme u = url_scheme v" and "url_host_str u = url_host_str v"
  using assms unfolding url_parser_ok_def by blast+

lemma destination_normalized_idem:
  assumes ok: "url_parser_ok parse" and n: "destination_normalized parse d = Inr d'"
  shows "destination_normalized parse d' = Inr d'"
proof (cases d)
  case (Url s)
  with n obtain u where "parse_destination parse s = Inr u" and "d' = Url (url_text u)"
    by (auto simp: destination_normalized_def destination_url_iff)
  then show ?thesis
    using url_reparse [OF ok, of s u]
    by (auto simp: destination_normalized_def destination_url_iff parse_destination_iff)
next
  case (Origin s)
  with n obtain u where u: "parse s = Inr u" "url_http u" "url_host_str u \<noteq> None"
    "url_scheme u = ''https'' \<or> is_loopback u" and d': "d' = Origin (url_origin u)"
    by (auto simp: destination_normalized_def destination_iffs)
  from url_origin_parses [OF ok u(1,2)] obtain v where "parse (url_origin u) = Inr v"
    "url_origin v = url_origin u" "url_scheme v = url_scheme u" "url_host v = url_host u"
    "url_host_str v = url_host_str u" "url_username v = []" "url_password v = None"
    "url_fragment v = None" "url_path v = ''/''" "url_query v = None" .
  with u show ?thesis
    by (auto simp: d' destination_normalized_def destination_iffs url_http_def is_loopback_def)
qed

text \<open>A normalized destination parses to an HTTP(S) URL, and a normalized origin is the origin of its
  own text.\<close>

lemma normalized_parses:
  assumes ok: "url_parser_ok parse" and n: "destination_normalized parse d = Inr d"
  obtains u where "parse (as_str d) = Inr u" and "url_http u"
    and "\<And>origin. d = Origin origin \<Longrightarrow> url_origin u = origin"
    and "\<And>s. d = Url s \<Longrightarrow> url_text u = s"
proof (cases d)
  case (Origin s)
  then obtain u where "parse s = Inr u" "url_http u" "s = url_origin u"
    using n by (auto simp: destination_normalized_def destination_iffs)
  with Origin that show ?thesis
    by (auto simp: as_str_def)
next
  case (Url s)
  then obtain u where "parse s = Inr u" "url_http u" "s = url_text u"
    using n by (auto simp: destination_normalized_def destination_iffs)
  with Url that show ?thesis
    by (auto simp: as_str_def)
qed

lemma permits_itself:
  assumes "url_parser_ok parse" and "destination_normalized parse d = Inr d"
  shows "destination_permits parse d d"
proof -
  obtain u where "parse (as_str d) = Inr u" and "\<And>origin. d = Origin origin \<Longrightarrow> url_origin u = origin"
    by (rule normalized_parses [OF assms]) blast
  then show ?thesis
    by (cases d) (auto simp: destination_permits_def)
qed

section \<open>Policies\<close>

lemma narrowed_origin_network:
  assumes ok: "url_parser_ok parse" and d: "destination_normalized parse d = Inr d" and o': "d = Origin origin"
    and e: "destination_normalized parse e = Inr e"
    and p: "network_permits parse n d" and q: "destination_permits parse d e"
  shows "network_permits parse n e"
proof -
  obtain u where u: "parse origin = Inr u" "url_http u" "url_origin u = origin"
    using normalized_parses [OF ok d] o' by (auto simp: as_str_def)
  obtain v where v: "parse (as_str e) = Inr v" "url_http v"
    using normalized_parses [OF ok e] .
  have same: "url_origin v = url_origin u"
    using q u v by (auto simp: o' destination_permits_def)
  have "url_scheme v = url_scheme u" and "url_host_str v = url_host_str u"
    using same_origin [OF ok v(1) u(1) v(2) u(2) same] by simp_all
  with p u v same show ?thesis
    by (cases n)
      (auto simp: o' network_permits_def destination_permits_def as_str_def list_ex_iff
        split: credential_destination.splits option.splits)
qed

text \<open>A policy narrowed to one destination permits that destination and nothing the original policy
  did not permit.\<close>

theorem narrowed_policy_permits_no_more:
  assumes ok: "url_parser_ok parse"
    and d: "destination_normalized parse d = Inr d"
    and narrowed: "for_destination parse p d = Inr q"
    and e: "destination_normalized parse e = Inr e"
  shows "policy_permits parse q d \<and> (policy_permits parse q e \<longrightarrow> policy_permits parse p e)"
proof -
  have p: "policy_permits parse p d" and q: "q = policy_from_destination d"
    using narrowed by (auto simp: for_destination_def result_simps)
  have "policy_permits parse p e" if k: "policy_permits parse q e"
  proof -
    have de: "destination_permits parse d e"
      using k by (simp add: q policy_permits_def policy_from_destination_def policy_destinations_def network_permits_def)
    show ?thesis
    proof (cases d)
      case (Origin origin)
      then show ?thesis
        using p de narrowed_origin_network [OF ok d _ e] by (simp add: policy_permits_def)
    next
      case (Url s)
      then have "e = d"
        using de by (auto simp: destination_permits_def split: credential_destination.splits)
      with p show ?thesis
        by simp
    qed
  qed
  moreover have "policy_permits parse q d"
    using permits_itself [OF ok d]
    by (simp add: q policy_permits_def policy_from_destination_def policy_destinations_def network_permits_def)
  ultimately show ?thesis
    by blast
qed

text \<open>Normalizing keeps every permission and is stable.\<close>

lemma normalized_limited_permits:
  assumes "list_all2 (\<lambda>h c. canonical_egress_host h = Inr c) hosts cs"
  shows "list_ex (\<lambda>a. eq_ignore_ascii_case a host) (sorted_list_of_set (set cs))
    \<longleftrightarrow> list_ex (\<lambda>a. eq_ignore_ascii_case a host) hosts"
proof -
  have "to_ascii_lowercase ` set cs = to_ascii_lowercase ` set hosts"
    using assms by (induction rule: list_all2_induct) (auto simp: canonical_host_iff)
  then have "(\<exists>a \<in> set cs. to_ascii_lowercase a = l) \<longleftrightarrow> (\<exists>a \<in> set hosts. to_ascii_lowercase a = l)" for l
    by (metis imageE imageI)
  then show ?thesis
    by (simp add: list_ex_iff eq_ignore_ascii_case_def)
qed

lemma normalized_destination_permits:
  assumes ok: "url_parser_ok parse" and n: "destination_normalized parse a = Inr a'"
    and d: "destination_normalized parse d = Inr d" and p: "destination_permits parse a d"
  shows "destination_permits parse a' d"
proof -
  obtain v where v: "parse (as_str d) = Inr v" "url_http v"
    by (rule normalized_parses [OF ok d]) blast
  show ?thesis
  proof (cases a)
    case (Url s)
    with p have "d = Url s"
      by (auto simp: destination_permits_def split: credential_destination.splits)
    with Url n d p show ?thesis
      by simp
  next
    case (Origin origin)
    with p v have origin: "origin = url_origin v"
      by (auto simp: destination_permits_def)
    obtain w where "parse origin = Inr w" and "url_origin w = origin"
      using url_origin_parses [OF ok v] unfolding origin by metis
    with n Origin have "a' = Origin origin"
      by (auto simp: destination_normalized_def destination_iffs)
    with p Origin show ?thesis
      by simp
  qed
qed

lemma network_normalized_permits:
  assumes ok: "url_parser_ok parse" and n: "network_normalized parse n = Inr n'"
    and d: "destination_normalized parse d = Inr d" and p: "network_permits parse n d"
  shows "network_permits parse n' d"
proof (cases n)
  case (Limited_Hosts hosts)
  with n obtain cs where "list_all2 (\<lambda>h c. canonical_egress_host h = Inr c) hosts cs"
    and "n' = Limited_Hosts (sorted_list_of_set (set cs))"
    by (auto simp: network_normalized_def canonical_hosts_iff result_simps)
  with p Limited_Hosts show ?thesis
    using normalized_limited_permits
    by (auto simp: network_permits_def split: sum.splits option.splits)
next
  case (Destinations allowed)
  with n obtain ds where ds: "list_all2 (\<lambda>a a'. destination_normalized parse a = Inr a') allowed ds"
    and n': "n' = Destinations ds"
    by (auto simp: network_normalized_def result_simps map_res_Inr_iff)
  obtain a where "a \<in> set allowed" and "destination_permits parse a d"
    using p Destinations by (auto simp: network_permits_def list_ex_iff)
  moreover from this(1) ds obtain a' where "a' \<in> set ds" and "destination_normalized parse a = Inr a'"
    using list_all2_in_left [OF ds] by blast
  ultimately show ?thesis
    using normalized_destination_permits [OF ok _ d] by (auto simp: n' network_permits_def list_ex_iff)
qed

lemma network_normalized_idem:
  assumes ok: "url_parser_ok parse" and n: "network_normalized parse n = Inr n'"
  shows "network_normalized parse n' = Inr n'"
proof (cases n)
  case (Limited_Hosts hosts)
  with n obtain cs where cs: "list_all2 (\<lambda>h c. canonical_egress_host h = Inr c) hosts cs"
    and len: "length hosts \<le> MAX_ALLOWED_HOSTS" and n': "n' = Limited_Hosts (sorted_list_of_set (set cs))"
    by (auto simp: network_normalized_def canonical_hosts_iff result_simps)
  have "canonical_egress_host c = Inr c" if "c \<in> set cs" for c
    using list_all2_in_right [OF cs that] canonical_host_idem by blast
  then have "list_all2 (\<lambda>h c. canonical_egress_host h = Inr c) (sorted_list_of_set (set cs)) (sorted_list_of_set (set cs))"
    by (simp add: list_all2_same)
  moreover have "length (sorted_list_of_set (set cs)) \<le> MAX_ALLOWED_HOSTS"
    using len list_all2_lengthD [OF cs] card_length [of cs] by simp
  ultimately have "canonical_egress_hosts (sorted_list_of_set (set cs)) = Inr (set cs)"
    unfolding canonical_hosts_iff by (metis List.finite_set set_sorted_list_of_set)
  then show ?thesis
    by (simp add: n' network_normalized_def)
next
  case (Destinations allowed)
  with n obtain ds where ds: "list_all2 (\<lambda>a a'. destination_normalized parse a = Inr a') allowed ds"
    and n': "n' = Destinations ds"
    by (auto simp: network_normalized_def result_simps map_res_Inr_iff)
  have "destination_normalized parse a = Inr a" if "a \<in> set ds" for a
    using list_all2_in_right [OF ds that] destination_normalized_idem [OF ok] by blast
  then have "list_all2 (\<lambda>a a'. destination_normalized parse a = Inr a') ds ds"
    by (simp add: list_all2_same)
  then have "map_res (destination_normalized parse) ds = Inr ds"
    by (simp add: map_res_Inr_iff)
  then show ?thesis
    by (simp add: n' network_normalized_def)
qed

text \<open>Normalizing a policy is stable (a second normalization changes nothing) and revokes no
  permission.\<close>

theorem policy_normalization_stable:
  assumes ok: "url_parser_ok parse" and n: "policy_normalized parse p = Inr q"
  shows "policy_normalized parse q = Inr q
    \<and> (\<forall>d. destination_normalized parse d = Inr d \<longrightarrow> policy_permits parse p d \<longrightarrow> policy_permits parse q d)"
proof -
  obtain m where m: "network_normalized parse (cp_networking p) = Inr m"
    and q: "q = \<lparr> cp_networking = m, cp_injection_location = cp_injection_location p \<rparr>"
    using n by (auto simp: policy_normalized_def result_simps)
  show ?thesis
    using network_normalized_idem [OF ok m] network_normalized_permits [OF ok m]
    by (auto simp: q policy_normalized_def policy_permits_def)
qed

section \<open>A sample parser\<close>

definition sample_root :: url where
  "sample_root = \<lparr> url_scheme = ''https'', url_host = Some (Domain ''api.example''), url_host_str = Some ''api.example'',
     url_username = [], url_password = None, url_path = ''/'', url_query = None, url_fragment = None,
     url_origin = ''https://api.example'', url_port_or_known_default = Some 443, url_text = ''https://api.example/'' \<rparr>"

definition sample_page :: url where
  "sample_page = sample_root\<lparr> url_path := ''/v1'', url_text := ''https://api.example/v1'' \<rparr>"

definition sample_parse :: url_parser where
  "sample_parse s =
     (if s \<in> {''https://api.example'', ''https://api.example/'', ''https://api.example:443'', ''https://api.example:443/''} then Inr sample_root
      else if s \<in> {''https://api.example/v1'', ''https://api.example:443/v1''} then Inr sample_page
      else Inl ''invalid URL'')"

lemma sample_parse_Inr: "sample_parse s = Inr u \<Longrightarrow> u = sample_root \<or> u = sample_page"
  by (auto simp: sample_parse_def split: if_splits)

lemma sample_url_fields:
  "url_origin sample_page = url_origin sample_root" "url_scheme sample_page = url_scheme sample_root"
  "url_host_str sample_page = url_host_str sample_root" "url_host sample_page = url_host sample_root"
  "url_scheme sample_root = ''https''" "url_host_str sample_root = Some ''api.example''"
  "url_path sample_root = ''/''" "url_query sample_root = None"
  "url_username sample_root = []" "url_password sample_root = None" "url_fragment sample_root = None"
  by (simp_all add: sample_page_def sample_root_def)

lemma sample_parse_texts:
  "sample_parse ''https://api.example'' = Inr sample_root" "sample_parse (url_text sample_root) = Inr sample_root"
  "sample_parse (url_text sample_page) = Inr sample_page" "sample_parse (url_origin sample_root) = Inr sample_root"
  "sample_parse ''https://api.example:443/v1'' = Inr sample_page"
  by (simp_all add: sample_parse_def sample_root_def sample_page_def)

lemma sample_parser_ok: "url_parser_ok sample_parse"
  unfolding url_parser_ok_def
proof (intro conjI allI impI)
  fix s u
  assume "sample_parse s = Inr u"
  then have u: "u = sample_root \<or> u = sample_page"
    by (rule sample_parse_Inr)
  then show "sample_parse (url_text u) = Inr u"
    by (auto simp: sample_parse_texts)
  have same: "url_origin u = url_origin sample_root" "url_scheme u = url_scheme sample_root"
    "url_host u = url_host sample_root" "url_host_str u = url_host_str sample_root"
    using u sample_url_fields by metis+
  show "\<exists>v. sample_parse (url_origin u) = Inr v \<and> url_origin v = url_origin u \<and> url_scheme v = url_scheme u
     \<and> url_host v = url_host u \<and> url_host_str v = url_host_str u \<and> url_username v = []
     \<and> url_password v = None \<and> url_fragment v = None \<and> url_path v = ''/'' \<and> url_query v = None"
    by (rule exI [of _ sample_root]) (simp only: same sample_parse_texts sample_url_fields simp_thms)
next
  fix s u t v
  assume "sample_parse s = Inr u" and "sample_parse t = Inr v"
  then have "u \<in> {sample_root, sample_page}" and "v \<in> {sample_root, sample_page}"
    by (auto dest: sample_parse_Inr)
  then show "url_scheme u = url_scheme v" and "url_host_str u = url_host_str v"
    by (auto simp: sample_url_fields)
qed

lemma sample_destinations:
  "destination_normalized sample_parse (Origin ''https://api.example'') = Inr (Origin ''https://api.example'')"
  "destination_normalized sample_parse (Url ''https://api.example/v1'') = Inr (Url ''https://api.example/v1'')"
  by (simp_all add: destination_normalized_def destination_origin_def destination_url_def parse_destination_def
      sample_parse_def sample_root_def sample_page_def)

theorem narrowed_policy_permits_no_more_witness:
  "policy_permits sample_parse
     \<lparr> cp_networking = Limited_Hosts [''API.example''], cp_injection_location = \<lparr> cil_header = True \<rparr> \<rparr>
     (Url ''https://api.example/v1'')"
proof -
  let ?p = "\<lparr> cp_networking = Limited_Hosts [''API.example''], cp_injection_location = \<lparr> cil_header = True \<rparr> \<rparr>"
  let ?q = "policy_from_destination (Origin ''https://api.example'')"
  have "eq_ignore_ascii_case ''API.example'' ''api.example''"
    by code_simp
  then have "for_destination sample_parse ?p (Origin ''https://api.example'') = Inr ?q"
    by (simp add: for_destination_def policy_permits_def network_permits_def as_str_def sample_parse_def
        sample_root_def)
  from narrowed_policy_permits_no_more [OF sample_parser_ok sample_destinations(1) this sample_destinations(2)]
  show ?thesis
    by (simp add: policy_permits_def policy_from_destination_def policy_destinations_def network_permits_def
        destination_permits_def as_str_def sample_parse_def sample_root_def sample_page_def)
qed

theorem policy_normalization_stable_witness:
  "policy_normalized sample_parse (policy_destinations [Origin ''https://api.example'']) =
     Inr (policy_destinations [Origin ''https://api.example''])"
proof -
  have "policy_normalized sample_parse (policy_destinations [Origin ''https://api.example/'']) =
     Inr (policy_destinations [Origin ''https://api.example''])"
    by (simp add: policy_normalized_def policy_destinations_def network_normalized_def destination_normalized_def
        destination_origin_def parse_destination_def sample_parse_def sample_root_def)
  from policy_normalization_stable [OF sample_parser_ok this] show ?thesis
    by simp
qed

end
