(* ===== verification/Egress_Credentials.thy ===== *)
theory Egress_Credentials
  imports Credential_Policy Exo_Types
begin

text \<open>
  Credential placeholders and their substitution in request headers:
  \<open>exoharness/src/egress_credentials.rs\<close>. A header map is the list of its fields in iteration order.
  The conversions of the \<open>http\<close> crate and the Base64 engine are the record \<open>header_env\<close>; the
  credential resolver (a trait with several implementations) is an effectful parameter, so that the
  calls made to it can be observed. Marking a header value as sensitive only affects its debug output
  and is left out.
\<close>

section \<open>Data\<close>

datatype resource_scope = Global | Agent_Scope uuid | Thread_Scope uuid uuid

definition scope_agent_id :: "resource_scope \<Rightarrow> uuid option" where
  "scope_agent_id s =
     (case s of Global \<Rightarrow> None | Agent_Scope agent_id \<Rightarrow> Some agent_id | Thread_Scope agent_id _ \<Rightarrow> Some agent_id)"

record egress_identity =
  ei_sandbox_id :: string
  ei_scope :: resource_scope

record egress_destination =
  ed_host :: string
  ed_port :: u16
  ed_method :: string
  ed_path :: string

type_synonym headers = "(string \<times> string) list"

record header_env =
  he_to_str :: "string \<Rightarrow> string option"
  he_value_ok :: "string \<Rightarrow> bool"
  he_name :: "string \<Rightarrow> string option"
  he_base64_decode :: "string \<Rightarrow> string option"
  he_base64_encode :: "string \<Rightarrow> string"

type_synonym 'w resolver = "egress_identity \<Rightarrow> string \<Rightarrow> egress_destination \<Rightarrow> ('w, string) io"

definition PLACEHOLDER_PREFIX :: string where
  "PLACEHOLDER_PREFIX = ''exo_egress_''"

record binding =
  bd_config :: egress_credential_binding
  bd_hosts :: "string set"
  bd_placeholder :: string

definition get_all :: "headers \<Rightarrow> string \<Rightarrow> string list" where
  "get_all hs name = map snd (filter (\<lambda>h. fst h = name) hs)"

definition remove_header :: "string \<Rightarrow> headers \<Rightarrow> headers" where
  "remove_header name hs = filter (\<lambda>h. fst h \<noteq> name) hs"

section \<open>Bindings\<close>

definition permits_header :: "url_parser \<Rightarrow> binding \<Rightarrow> egress_destination \<Rightarrow> bool" where
  "permits_header parse b destination \<longleftrightarrow>
     cil_header (eb_injection_location (bd_config b))
     \<and> ed_host destination \<in> bd_hosts b
     \<and> (case destination_url parse (''https://'' @ ed_host destination @ '':'' @ show_nat (unat (ed_port destination))
               @ ed_path destination) of
          Inl _ \<Rightarrow> False
        | Inr d \<Rightarrow> network_permits parse (eb_networking (bd_config b)) d)"

definition variable_ok :: "string \<Rightarrow> bool" where
  "variable_ok v \<longleftrightarrow>
     v \<noteq> [] \<and> list_all (\<lambda>(i, c). c = CHR ''_'' \<or> is_ascii_alphabetic c \<or> (0 < i \<and> digit_byte c)) (enumerate 0 v)"

definition placeholder_ok :: "string \<Rightarrow> bool" where
  "placeholder_ok value \<longleftrightarrow>
     length value = length PLACEHOLDER_PREFIX + 32 \<and> starts_with PLACEHOLDER_PREFIX value
     \<and> list_all is_ascii_hexdigit (drop (length PLACEHOLDER_PREFIX) value)"

text \<open>The loop of \<open>prepare_bindings\<close>: the variables and placeholder values seen so far, and the number of
  placeholders generated (\<open>fresh n\<close> is the text of the \<open>n\<close>-th random UUID).\<close>

fun prepare_loop :: "url_parser \<Rightarrow> (nat \<Rightarrow> string) \<Rightarrow> (string \<rightharpoonup> string) option \<Rightarrow> string set \<Rightarrow> string set \<Rightarrow> nat
    \<Rightarrow> egress_credential_binding list \<Rightarrow> binding list result" where
  "prepare_loop parse fresh placeholders variables seen n [] = Ok []"
| "prepare_loop parse fresh placeholders variables seen n (config # credentials) =
     and_then (network_normalized parse (eb_networking config)) (\<lambda>networking.
     let config = config\<lparr>eb_networking := networking\<rparr>;
         variable = eb_environment_variable config in
     and_then (network_hosts parse networking) (\<lambda>hosts.
     and_then (ensure (eb_name config \<noteq> []) ''credential binding name is required'') (\<lambda>_.
     and_then (ensure (variable_ok variable) ''invalid credential environment variable'') (\<lambda>_.
     and_then (ensure (variable \<notin> variables) ''duplicate credential environment variable'') (\<lambda>_.
     and_then
       (case placeholders of
          Some given \<Rightarrow>
            and_then (ok_or (given variable) ''missing credential placeholder'') (\<lambda>value.
            and_then (ensure (placeholder_ok value \<and> value \<notin> seen) ''invalid or duplicate credential placeholder'') (\<lambda>_.
            Ok (value, insert value seen, n)))
        | None \<Rightarrow> Ok (PLACEHOLDER_PREFIX @ fresh n, seen, Suc n)) (\<lambda>(placeholder, seen, n).
     and_then (prepare_loop parse fresh placeholders (insert variable variables) seen n credentials) (\<lambda>bindings.
     Ok (\<lparr> bd_config = config, bd_hosts = hosts, bd_placeholder = placeholder \<rparr> # bindings))))))))"

definition prepare_bindings :: "url_parser \<Rightarrow> (nat \<Rightarrow> string) \<Rightarrow> egress_credential_binding list
    \<Rightarrow> (string \<rightharpoonup> string) option \<Rightarrow> binding list result" where
  "prepare_bindings parse fresh credentials placeholders =
     prepare_loop parse fresh placeholders {} {} 0 credentials"

definition bindings_environment :: "binding list \<Rightarrow> (string \<rightharpoonup> string)" where
  "bindings_environment bindings =
     foldl (\<lambda>m b. m(eb_environment_variable (bd_config b) \<mapsto> bd_placeholder b)) Map.empty bindings"

section \<open>Placeholders in headers\<close>

definition contains_placeholder :: "string \<Rightarrow> bool" where
  "contains_placeholder value \<longleftrightarrow> contains_str PLACEHOLDER_PREFIX value"

definition hop_header :: "string \<Rightarrow> bool" where
  "hop_header name \<longleftrightarrow>
     name \<in> {''connection'', ''keep-alive'', ''proxy-authenticate'', ''proxy-authorization'', ''proxy-connection'',
       ''te'', ''trailer'', ''transfer-encoding'', ''upgrade''}"

definition basic_credential_placeholder :: "header_env \<Rightarrow> string \<Rightarrow> string \<Rightarrow> string option result" where
  "basic_credential_placeholder env header value =
     (let decoded =
        (if header = ''authorization'' then
           Option.bind (he_to_str env value) (\<lambda>value.
           Option.bind (split_once (CHR '' '') value) (\<lambda>(scheme, encoded).
           if eq_ignore_ascii_case scheme ''basic'' then
             Option.bind (he_base64_decode env encoded) (\<lambda>decoded.
             if contains_placeholder decoded then Some decoded else None)
           else None))
         else None)
      in case decoded of
           None \<Rightarrow> Ok None
         | Some bytes \<Rightarrow> and_then (ok_or (from_utf8 bytes) ''invalid Basic credential'') (\<lambda>s. Ok (Some s)))"

definition validate_header :: "url_parser \<Rightarrow> header_env \<Rightarrow> binding list \<Rightarrow> headers \<Rightarrow> egress_destination \<Rightarrow> bool
    \<Rightarrow> string \<times> string \<Rightarrow> unit result" where
  "validate_header parse env bindings hs destination tls = (\<lambda>(header, value).
     and_then (basic_credential_placeholder env header value) (\<lambda>basic.
     let value = (case basic of Some v \<Rightarrow> v | None \<Rightarrow> value) in
     if \<not> contains_placeholder value then Ok ()
     else
       and_then (ensure tls ''credential substitution requires HTTPS'') (\<lambda>_.
       and_then (ensure (\<not> hop_header header \<and> header \<noteq> ''host'' \<and> header \<noteq> ''content-length'')
         ''credential cannot rewrite HTTP routing or framing'') (\<lambda>_.
       and_then (ensure (length (get_all hs header) = 1) ''duplicate credential header'') (\<lambda>_.
       and_then (ok_or (from_utf8 value) ''invalid utf-8 sequence'') (\<lambda>text.
       let unresolved = foldl (\<lambda>u b. if permits_header parse b destination
                                      then str_replace (bd_placeholder b) [] u else u) text bindings in
       ensure (\<not> contains_str PLACEHOLDER_PREFIX unresolved) ''credential placeholder does not match this request''))))))"

fun validate_fields :: "url_parser \<Rightarrow> header_env \<Rightarrow> binding list \<Rightarrow> headers \<Rightarrow> egress_destination \<Rightarrow> bool
    \<Rightarrow> headers \<Rightarrow> unit result" where
  "validate_fields parse env bindings hs destination tls [] = Ok ()"
| "validate_fields parse env bindings hs destination tls (h # rest) =
     and_then (validate_header parse env bindings hs destination tls h) (\<lambda>_.
     validate_fields parse env bindings hs destination tls rest)"

definition validate_credentials :: "url_parser \<Rightarrow> header_env \<Rightarrow> binding list \<Rightarrow> headers \<Rightarrow> egress_destination \<Rightarrow> bool
    \<Rightarrow> unit result" where
  "validate_credentials parse env bindings hs destination tls =
     validate_fields parse env bindings hs destination tls hs"

text \<open>The inner loop of \<open>substitute_credentials\<close>: the text and the credentials used so far.\<close>

fun substitute_bindings :: "url_parser \<Rightarrow> egress_destination \<Rightarrow> egress_identity \<Rightarrow> 'w resolver \<Rightarrow> binding list
    \<Rightarrow> string \<Rightarrow> ('w, string \<times> (string \<times> string) list) io" where
  "substitute_bindings parse destination identity resolve [] replacement = io_return (replacement, [])"
| "substitute_bindings parse destination identity resolve (b # bs) replacement =
     (if \<not> permits_header parse b destination \<or> \<not> contains_str (bd_placeholder b) replacement
      then substitute_bindings parse destination identity resolve bs replacement
      else
        io_bind (io_try (resolve identity (eb_name (bd_config b)) destination)) (\<lambda>answer.
        (case answer of
           Inl _ \<Rightarrow> io_fail (Error ''credential is unavailable or not authorized'')
         | Inr value \<Rightarrow>
             io_bind (substitute_bindings parse destination identity resolve bs
                        (str_replace (bd_placeholder b) value replacement)) (\<lambda>(text, credentials).
             io_return (text, (eb_name (bd_config b), value) # credentials)))))"

definition substitute_header :: "url_parser \<Rightarrow> header_env \<Rightarrow> binding list \<Rightarrow> egress_destination \<Rightarrow> egress_identity
    \<Rightarrow> 'w resolver \<Rightarrow> string \<times> string \<Rightarrow> ('w, (string \<times> string) \<times> (string \<times> string) list) io" where
  "substitute_header parse env bindings destination identity resolve = (\<lambda>(header, value).
     io_bind (io_lift (basic_credential_placeholder env header value)) (\<lambda>basic.
     if basic = None \<and> \<not> contains_placeholder value then io_return ((header, value), [])
     else
       io_bind (io_lift (case basic of Some v \<Rightarrow> Ok v
          | None \<Rightarrow> ok_or (he_to_str env value) ''failed to convert header to a str'')) (\<lambda>replacement.
       io_bind (substitute_bindings parse destination identity resolve bindings replacement) (\<lambda>(replacement, credentials).
       let replacement = (if basic \<noteq> None then ''Basic '' @ he_base64_encode env replacement else replacement) in
       io_bind (io_lift (ensure (he_value_ok env replacement) ''credential cannot be used in an HTTP header'')) (\<lambda>_.
       io_return ((header, replacement), credentials))))))"

fun substitute_credentials :: "url_parser \<Rightarrow> header_env \<Rightarrow> binding list \<Rightarrow> egress_destination \<Rightarrow> egress_identity
    \<Rightarrow> 'w resolver \<Rightarrow> headers \<Rightarrow> ('w, headers \<times> (string \<times> string) list) io" where
  "substitute_credentials parse env bindings destination identity resolve [] = io_return ([], [])"
| "substitute_credentials parse env bindings destination identity resolve (h # hs) =
     io_bind (substitute_header parse env bindings destination identity resolve h) (\<lambda>(h', used).
     io_bind (substitute_credentials parse env bindings destination identity resolve hs) (\<lambda>(hs', more).
     io_return (h' # hs', used @ more)))"

section \<open>Hop-by-hop headers\<close>

definition connection_names :: "header_env \<Rightarrow> string \<Rightarrow> string list result" where
  "connection_names env value =
     and_then (ok_or (he_to_str env value) ''failed to convert header to a str'') (\<lambda>text.
     Ok (List.map_filter (\<lambda>name. he_name env (trim name)) (split_char (CHR '','') text)))"

definition strip_hop_headers :: "header_env \<Rightarrow> headers \<Rightarrow> headers result" where
  "strip_hop_headers env hs =
     and_then (map_res (connection_names env) (get_all hs ''connection'')) (\<lambda>named.
     let remove = concat named @ filter hop_header (map fst hs) in
     Ok (foldl (\<lambda>hs name. remove_header name hs) hs remove))"

section \<open>Prepared bindings\<close>

definition binding_of :: "url_parser \<Rightarrow> egress_credential_binding \<Rightarrow> binding \<Rightarrow> bool" where
  "binding_of parse config b \<longleftrightarrow>
     (\<exists>n. network_normalized parse (eb_networking config) = Inr n \<and> bd_config b = config\<lparr>eb_networking := n\<rparr>
        \<and> network_hosts parse n = Inr (bd_hosts b))
     \<and> eb_name config \<noteq> [] \<and> variable_ok (eb_environment_variable config)"

abbreviation bd_variable :: "binding \<Rightarrow> string" where
  "bd_variable b \<equiv> eb_environment_variable (bd_config b)"

text \<open>\<open>Uuid::simple\<close> prints 32 hexadecimal digits, and the random identifiers of one call do not repeat.\<close>

definition fresh_ids_ok :: "(nat \<Rightarrow> string) \<Rightarrow> nat \<Rightarrow> bool" where
  "fresh_ids_ok fresh k \<longleftrightarrow>
     inj_on fresh {..<k} \<and> (\<forall>n<k. length (fresh n) = 32 \<and> list_all is_ascii_hexdigit (fresh n))"

lemma fresh_placeholder_ok: "fresh_ids_ok fresh k \<Longrightarrow> n < k \<Longrightarrow> placeholder_ok (PLACEHOLDER_PREFIX @ fresh n)"
  by (auto simp: fresh_ids_ok_def placeholder_ok_def starts_with_iff)

lemma prepare_loop_step:
  assumes "prepare_loop parse fresh placeholders variables seen n (config # credentials) = Inr bindings"
  obtains b bs seen' n' where "bindings = b # bs" "binding_of parse config b" "bd_variable b \<notin> variables"
    "prepare_loop parse fresh placeholders (insert (bd_variable b) variables) seen' n' credentials = Inr bs"
    "case placeholders of
       None \<Rightarrow> bd_placeholder b = PLACEHOLDER_PREFIX @ fresh n \<and> seen' = seen \<and> n' = Suc n
     | Some given \<Rightarrow> given (bd_variable b) = Some (bd_placeholder b) \<and> placeholder_ok (bd_placeholder b)
         \<and> bd_placeholder b \<notin> seen \<and> seen' = insert (bd_placeholder b) seen \<and> n' = n"
proof -
  obtain networking hosts placeholder seen' n' bs where
    n: "network_normalized parse (eb_networking config) = Inr networking" "network_hosts parse networking = Inr hosts"
    "eb_name config \<noteq> []" "variable_ok (eb_environment_variable config)" "eb_environment_variable config \<notin> variables"
    and p: "case placeholders of
       None \<Rightarrow> placeholder = PLACEHOLDER_PREFIX @ fresh n \<and> seen' = seen \<and> n' = Suc n
     | Some given \<Rightarrow> given (eb_environment_variable config) = Some placeholder \<and> placeholder_ok placeholder
         \<and> placeholder \<notin> seen \<and> seen' = insert placeholder seen \<and> n' = n"
    and r: "prepare_loop parse fresh placeholders (insert (eb_environment_variable config) variables) seen' n' credentials = Inr bs"
    and b: "bindings = \<lparr> bd_config = config\<lparr>eb_networking := networking\<rparr>, bd_hosts = hosts, bd_placeholder = placeholder \<rparr> # bs"
    using assms by (cases placeholders) (auto simp: result_simps Let_def)
  show ?thesis
    by (rule that [of "\<lparr> bd_config = config\<lparr>eb_networking := networking\<rparr>, bd_hosts = hosts, bd_placeholder = placeholder \<rparr>" bs seen' n'])
      (use n p r b in \<open>auto simp: binding_of_def split: option.splits\<close>)
qed

lemma prepare_loop_bindings:
  "prepare_loop parse fresh placeholders variables seen n credentials = Inr bs \<Longrightarrow>
     list_all2 (binding_of parse) credentials bs \<and> distinct (map bd_variable bs)
     \<and> (\<forall>b \<in> set bs. bd_variable b \<notin> variables)"
proof (induction credentials arbitrary: variables seen n bs)
  case (Cons config credentials)
  from Cons.prems show ?case
    by (rule prepare_loop_step) (use Cons.IH in \<open>fastforce\<close>)
qed simp

lemma prepare_loop_given:
  "prepare_loop parse fresh (Some given) variables seen n credentials = Inr bs \<Longrightarrow>
     distinct (map bd_placeholder bs) \<and> (\<forall>b \<in> set bs. bd_placeholder b \<notin> seen \<and> placeholder_ok (bd_placeholder b)
       \<and> given (bd_variable b) = Some (bd_placeholder b))"
proof (induction credentials arbitrary: variables seen n bs)
  case (Cons config credentials)
  from Cons.prems show ?case
    by (rule prepare_loop_step) (use Cons.IH in \<open>fastforce\<close>)
qed simp

lemma prepare_loop_fresh:
  "prepare_loop parse fresh None variables seen n credentials = Inr bs \<Longrightarrow>
     map bd_placeholder bs = map (\<lambda>i. PLACEHOLDER_PREFIX @ fresh i) [n ..< n + length bs]"
proof (induction credentials arbitrary: variables seen n bs)
  case (Cons config credentials)
  from Cons.prems show ?case
    by (rule prepare_loop_step) (use Cons.IH in \<open>force simp: upt_conv_Cons simp del: upt_Suc\<close>)
qed simp

lemma prepared_placeholders:
  assumes "prepare_bindings parse fresh credentials placeholders = Inr bs" and "fresh_ids_ok fresh (length credentials)"
  shows "distinct (map bd_placeholder bs) \<and> (\<forall>b \<in> set bs. placeholder_ok (bd_placeholder b))"
proof (cases placeholders)
  case None
  have m: "map bd_placeholder bs = map (\<lambda>i. PLACEHOLDER_PREFIX @ fresh i) [0 ..< length bs]"
    using assms(1) prepare_loop_fresh [of parse fresh "{}" "{}" 0] None by (simp add: prepare_bindings_def)
  have len: "length bs = length credentials"
    using prepare_loop_bindings [OF assms(1) [unfolded prepare_bindings_def]] by (auto dest: list_all2_lengthD)
  have "distinct (map bd_placeholder bs)"
    unfolding m len using assms(2) by (auto simp: distinct_map inj_on_def fresh_ids_ok_def)
  moreover have "bd_placeholder b \<in> set (map (\<lambda>i. PLACEHOLDER_PREFIX @ fresh i) [0 ..< length bs])" if "b \<in> set bs" for b
    unfolding m [symmetric] using that by simp
  ultimately show ?thesis
    using fresh_placeholder_ok [OF assms(2)] len by fastforce
next
  case (Some given)
  then show ?thesis
    using assms(1) prepare_loop_given by (fastforce simp: prepare_bindings_def)
qed

lemma bindings_environment_notin:
  "v \<notin> bd_variable ` set bs \<Longrightarrow>
     foldl (\<lambda>m b. m(bd_variable b \<mapsto> bd_placeholder b)) m bs v = m v"
  by (induction bs arbitrary: m) auto

lemma bindings_environment_in:
  "b \<in> set bs \<Longrightarrow> distinct (map bd_variable bs) \<Longrightarrow>
     foldl (\<lambda>m b. m(bd_variable b \<mapsto> bd_placeholder b)) m bs (bd_variable b) = Some (bd_placeholder b)"
  by (induction bs arbitrary: m) (auto simp: bindings_environment_notin)

text \<open>C33: The bindings prepared from a policy correspond one to one to its credentials, each with a
  normalized network policy, its host set, a name and a valid environment variable; variables and
  placeholders are distinct, every placeholder is the prefix followed by 32 hexadecimal digits, and the
  environment handed to the sandbox gives each variable the placeholder of its binding.\<close>

theorem prepared_bindings_well_formed:
  assumes "prepare_bindings parse fresh credentials placeholders = Inr bs" and "fresh_ids_ok fresh (length credentials)"
  shows "list_all2 (binding_of parse) credentials bs
    \<and> distinct (map bd_variable bs) \<and> distinct (map bd_placeholder bs)
    \<and> (\<forall>b \<in> set bs. placeholder_ok (bd_placeholder b)
         \<and> bindings_environment bs (bd_variable b) = Some (bd_placeholder b))"
  using prepare_loop_bindings [OF assms(1) [unfolded prepare_bindings_def]] prepared_placeholders [OF assms]
    bindings_environment_in
  by (auto simp: bindings_environment_def)

definition sample_binding :: egress_credential_binding where
  "sample_binding = \<lparr> eb_name = ''github'', eb_environment_variable = ''TOKEN'',
     eb_networking = Destinations [Origin ''https://api.example''], eb_injection_location = \<lparr> cil_header = True \<rparr> \<rparr>"

definition sample_fresh_id :: "nat \<Rightarrow> string" where
  "sample_fresh_id n = replicate 31 (CHR ''0'') @ [digit_char n]"

lemma sample_hosts: "canonical_egress_hosts [''api.example''] = Inr {''api.example''}"
proof -
  have "canonical_egress_host ''api.example'' = Inr ''api.example''"
    by code_simp
  then show ?thesis
    by (simp add: canonical_egress_hosts_def MAX_ALLOWED_HOSTS_def)
qed

lemma sample_prepared:
  "prepare_bindings sample_parse sample_fresh_id [sample_binding] None =
     Inr [\<lparr> bd_config = sample_binding, bd_hosts = {''api.example''}, bd_placeholder = PLACEHOLDER_PREFIX @ sample_fresh_id 0 \<rparr>]"
proof -
  have "variable_ok ''TOKEN''"
    by code_simp
  moreover have "network_normalized sample_parse (eb_networking sample_binding) = Inr (eb_networking sample_binding)"
    by (simp add: sample_binding_def network_normalized_def sample_destinations)
  moreover have "network_hosts sample_parse (eb_networking sample_binding) = Inr {''api.example''}"
    by (simp add: sample_binding_def network_hosts_def as_str_def parse_destination_def sample_parse_def sample_root_def
        sample_hosts)
  ultimately show ?thesis
    by (simp add: prepare_bindings_def Let_def) (simp add: sample_binding_def)
qed

theorem prepared_bindings_well_formed_witness:
  "placeholder_ok (PLACEHOLDER_PREFIX @ sample_fresh_id 0)"
proof -
  have "fresh_ids_ok sample_fresh_id (length [sample_binding])"
    by (simp add: fresh_ids_ok_def sample_fresh_id_def inj_on_def list_all_iff is_ascii_hexdigit_def digit_char_def)
  from prepared_bindings_well_formed [OF sample_prepared this] show ?thesis
    by simp
qed

section \<open>Substitution\<close>

lemma basic_placeholder_contains:
  "basic_credential_placeholder env header value = Inr (Some v) \<Longrightarrow> contains_placeholder v"
  by (auto simp: basic_credential_placeholder_def from_utf8_def Let_def result_simps
      split: option.splits if_splits Option.bind_splits)

lemma validate_fields_member:
  "validate_fields parse env bindings hs destination tls fs = Inr u \<Longrightarrow> h \<in> set fs \<Longrightarrow>
     validate_header parse env bindings hs destination tls h = Inr ()"
  by (induction fs) (auto simp: result_simps)

text \<open>Headers that pass validation without TLS hold no placeholder, so substitution leaves them alone
  and asks for no credential.\<close>

definition placeholder_free :: "header_env \<Rightarrow> string \<times> string \<Rightarrow> bool" where
  "placeholder_free env h \<longleftrightarrow>
     basic_credential_placeholder env (fst h) (snd h) = Inr None \<and> \<not> contains_placeholder (snd h)"

lemma validated_plain:
  assumes "validate_credentials parse env bindings hs destination False = Inr u" and "h \<in> set hs"
  shows "placeholder_free env h"
proof -
  have "validate_header parse env bindings hs destination False h = Inr ()"
    using assms validate_fields_member by (simp add: validate_credentials_def)
  then obtain basic where basic: "basic_credential_placeholder env (fst h) (snd h) = Inr basic"
    and none: "\<not> contains_placeholder (case_option (snd h) (\<lambda>v. v) basic)"
    unfolding validate_header_def case_prod_beta by (auto simp: result_simps Let_def split: if_splits)
  have "basic = None"
    using basic none basic_placeholder_contains by (cases basic) auto
  with basic none show ?thesis
    by (simp add: placeholder_free_def)
qed

lemma substitute_plain:
  "\<forall>h \<in> set hs. placeholder_free env h \<Longrightarrow>
     substitute_credentials parse env bindings destination identity resolve hs w = (Inr (hs, []), w)"
  by (induction hs) (auto simp: placeholder_free_def substitute_header_def io_simps)

lemma substitute_bindings_keeps:
  assumes R: "reflp R" "transp R"
    and perm: "\<And>b. b \<in> set bindings \<Longrightarrow> permits_header parse b destination \<Longrightarrow>
      io_keeps R (resolve identity (eb_name (bd_config b)) destination)"
  shows "io_keeps R (substitute_bindings parse destination identity resolve bindings replacement)"
  using perm
proof (induction bindings arbitrary: replacement)
  case (Cons b bs)
  then show ?case
    using R by (auto intro!: io_keeps_bind io_keeps_try io_keeps_pure split: sum.split)
qed (simp add: io_keeps_pure R)

lemma substitute_keeps:
  assumes R: "reflp R" "transp R"
    and perm: "\<And>b. b \<in> set bindings \<Longrightarrow> permits_header parse b destination \<Longrightarrow>
      io_keeps R (resolve identity (eb_name (bd_config b)) destination)"
  shows "io_keeps R (substitute_credentials parse env bindings destination identity resolve hs)"
proof (induction hs)
  case (Cons h hs)
  have "io_keeps R (substitute_header parse env bindings destination identity resolve h)"
    unfolding substitute_header_def
    using R substitute_bindings_keeps [OF R, of bindings parse destination resolve identity] perm
    by (auto intro!: io_keeps_bind io_keeps_pure simp: Let_def split: prod.split)
  with Cons show ?case
    using R by (auto intro!: io_keeps_bind io_keeps_pure split: prod.split)
qed (simp add: io_keeps_pure R)

lemma substitute_bindings_used:
  "substitute_bindings parse destination identity resolve bindings replacement w = (Inr (txt1, used), w') \<Longrightarrow>
     (name, value) \<in> set used \<Longrightarrow>
     \<exists>b \<in> set bindings. name = eb_name (bd_config b) \<and> permits_header parse b destination"
proof (induction bindings arbitrary: replacement w txt1 used)
  case (Cons b bs)
  show ?case
  proof (cases "\<not> permits_header parse b destination \<or> \<not> contains_str (bd_placeholder b) replacement")
    case True
    then show ?thesis
      using Cons by auto
  next
    case False
    obtain answer w1 where "io_try (resolve identity (eb_name (bd_config b)) destination) w = (Inr answer, w1)"
      using Cons.prems(1) False by (auto simp: result_simps)
    then obtain more v where "substitute_bindings parse destination identity resolve bs
        (str_replace (bd_placeholder b) v replacement) w1 = (Inr (txt1, more), w')"
      and "used = (eb_name (bd_config b), v) # more"
      using Cons.prems(1) False
      by (cases answer) (auto simp: result_simps io_return_def io_fail_def io_bind_def [of "io_try _"] split: sum.splits prod.splits)
    then show ?thesis
      using Cons.IH Cons.prems(2) False by auto
  qed
qed (simp add: io_return_def)

lemma substitute_header_used:
  assumes "substitute_header parse env bindings destination identity resolve h w = (Inr (h', used), w')"
  shows "fst h' = fst h" and "(name, value) \<in> set used \<Longrightarrow>
    \<exists>b \<in> set bindings. name = eb_name (bd_config b) \<and> permits_header parse b destination"
  using assms
  by (cases h; auto simp: substitute_header_def result_simps Let_def io_return_def io_lift_def
      split: if_splits dest: substitute_bindings_used)+

lemma substitute_used:
  "substitute_credentials parse env bindings destination identity resolve hs w = (Inr (hs', used), w') \<Longrightarrow>
     map fst hs' = map fst hs \<and> (\<forall>(name, value) \<in> set used.
       \<exists>b \<in> set bindings. name = eb_name (bd_config b) \<and> permits_header parse b destination)"
proof (induction hs arbitrary: w hs' used)
  case (Cons h hs)
  then obtain h' u w1 rest more where
    "substitute_header parse env bindings destination identity resolve h w = (Inr (h', u), w1)"
    "substitute_credentials parse env bindings destination identity resolve hs w1 = (Inr (rest, more), w')"
    "hs' = h' # rest" "used = u @ more"
    by (auto simp: result_simps io_return_def)
  note parts = this
  have "map fst rest = map fst hs" and more: "\<forall>(name, value) \<in> set more.
      \<exists>b \<in> set bindings. name = eb_name (bd_config b) \<and> permits_header parse b destination"
    using Cons.IH [OF parts(2)] by simp_all
  moreover have "fst h' = fst h" and "\<forall>(name, value) \<in> set u.
      \<exists>b \<in> set bindings. name = eb_name (bd_config b) \<and> permits_header parse b destination"
    using substitute_header_used [OF parts(1)] by blast+
  ultimately show ?case
    by (auto simp: parts)
qed (simp add: io_return_def)

section \<open>Hop-by-hop headers\<close>

lemma remove_headers_filter:
  "foldl (\<lambda>hs name. remove_header name hs) hs names = filter (\<lambda>h. fst h \<notin> set names) hs"
  by (induction names arbitrary: hs) (auto simp: remove_header_def intro: filter_cong)

lemma strip_hop_headers_iff:
  "strip_hop_headers env hs = Inr hs' \<longleftrightarrow>
     (\<exists>named. map_res (connection_names env) (get_all hs ''connection'') = Inr named
        \<and> hs' = filter (\<lambda>h. \<not> hop_header (fst h) \<and> fst h \<notin> set (concat named)) hs)"
proof -
  have "filter (\<lambda>h. fst h \<notin> set (concat named @ filter hop_header (map fst hs))) hs
      = filter (\<lambda>h. \<not> hop_header (fst h) \<and> fst h \<notin> set (concat named)) hs" for named
    by (rule filter_cong) auto
  then show ?thesis
    by (auto simp: strip_hop_headers_def remove_headers_filter result_simps Let_def simp del: set_append set_concat)
qed

end
