(* ===== verification/Egress_Address.thy ===== *)
theory Egress_Address
  imports Rust_Str "HOL-Library.Product_Lexorder"
begin

text \<open>
  Network addresses as the egress proxy sees them: \<open>IpAddr\<close> and \<open>SocketAddr\<close> with their order, and the
  filter \<open>public_ipv4\<close> of \<open>exoharness/src/egress/mod.rs\<close>, which is proved to reject exactly the
  special-purpose blocks.
\<close>

section \<open>Addresses\<close>

datatype ip_addr = V4 u32 | V6 u128

datatype socket_addr = SocketV4 u32 u16 | SocketV6 u128 u16 u32 u32

fun sock_ip :: "socket_addr \<Rightarrow> ip_addr" where
  "sock_ip (SocketV4 ip port) = V4 ip"
| "sock_ip (SocketV6 ip port flow scope) = V6 ip"

fun sock_port :: "socket_addr \<Rightarrow> u16" where
  "sock_port (SocketV4 ip port) = port"
| "sock_port (SocketV6 ip port flow scope) = port"

text \<open>The derived order of \<open>SocketAddr\<close>: IPv4 first, then address, port and the IPv6 extras.\<close>

fun sock_key :: "socket_addr \<Rightarrow> nat \<times> nat \<times> nat \<times> nat \<times> nat" where
  "sock_key (SocketV4 ip port) = (0, unat ip, unat port, 0, 0)"
| "sock_key (SocketV6 ip port flow scope) = (1, unat ip, unat port, unat flow, unat scope)"

lemma sock_key_inj: "sock_key a = sock_key b \<longleftrightarrow> a = b"
  by (cases a; cases b) (auto dest!: unsigned_word_eqI)

instantiation socket_addr :: linorder
begin

definition less_eq_socket_addr :: "socket_addr \<Rightarrow> socket_addr \<Rightarrow> bool" where
  "less_eq_socket_addr a b \<longleftrightarrow> sock_key a \<le> sock_key b"

definition less_socket_addr :: "socket_addr \<Rightarrow> socket_addr \<Rightarrow> bool" where
  "less_socket_addr a b \<longleftrightarrow> sock_key a < sock_key b"

instance
  by standard
    (auto simp: less_eq_socket_addr_def less_socket_addr_def sock_key_inj dest: order.trans order.antisym)

end

definition octet :: "nat \<Rightarrow> u32 \<Rightarrow> u8" where
  "octet i ip = ucast (drop_bit (24 - 8 * i) ip)"

definition public_ipv4 :: "ip_addr \<Rightarrow> bool" where
  "public_ipv4 addr =
     (case addr of
        V6 _ \<Rightarrow> False
      | V4 ip \<Rightarrow>
          let a = octet 0 ip; b = octet 1 ip; c = octet 2 ip in
          \<not> (a = 0 \<or> a = 10 \<or> a = 127 \<or> 224 \<le> a
             \<or> (a = 100 \<and> 64 \<le> b \<and> b \<le> 127)
             \<or> (a = 169 \<and> b = 254)
             \<or> (a = 172 \<and> 16 \<le> b \<and> b \<le> 31)
             \<or> (a = 192 \<and> b = 168)
             \<or> (a = 192 \<and> b = 0 \<and> (c = 0 \<or> c = 2))
             \<or> (a = 192 \<and> b = 88 \<and> c = 99)
             \<or> (a = 198 \<and> (b = 18 \<or> b = 19))
             \<or> (a = 198 \<and> b = 51 \<and> c = 100)
             \<or> (a = 203 \<and> b = 0 \<and> c = 113)))"

section \<open>Special-purpose addresses\<close>

text \<open>The blocks of the IANA registry the comment on \<open>public_ipv4\<close> refers to (and multicast, with the reserved
  range above it), as network and prefix length.\<close>

definition special_blocks :: "(u32 \<times> nat) list" where
  "special_blocks =
     [(0x00000000, 8), (0x0A000000, 8), (0x7F000000, 8), (0xE0000000, 3), (0x64400000, 10), (0xA9FE0000, 16),
      (0xAC100000, 12), (0xC0A80000, 16), (0xC0000000, 24), (0xC0000200, 24), (0xC0586300, 24), (0xC6120000, 15),
      (0xC6336400, 24), (0xCB007100, 24)]"

definition in_block :: "u32 \<Rightarrow> u32 \<times> nat \<Rightarrow> bool" where
  "in_block ip block \<longleftrightarrow> drop_bit (32 - snd block) ip = drop_bit (32 - snd block) (fst block)"

lemma in_block_unat: "in_block ip (net, len) \<longleftrightarrow> unat ip div 2 ^ (32 - len) = unat net div 2 ^ (32 - len)"
  by (simp only: in_block_def word_unat_eq_iff unat_drop_bit_eq fst_conv snd_conv) (simp only: drop_bit_eq_div)

lemma octets_unat:
  obtains a b c d :: nat where "a < 256" "b < 256" "c < 256" "d < 256"
    "unat ip = ((a * 256 + b) * 256 + c) * 256 + d"
    "unat (octet 0 ip) = a" "unat (octet 1 ip) = b" "unat (octet 2 ip) = c"
proof
  let ?n = "unat ip"
  have bound: "?n < 4294967296"
    using unsigned_less [of ip] by simp
  show "?n div 16777216 < 256" "?n div 65536 mod 256 < 256" "?n div 256 mod 256 < 256" "?n mod 256 < 256"
    using bound by (auto simp: less_mult_imp_div_less)
  show "?n = ((?n div 16777216 * 256 + ?n div 65536 mod 256) * 256 + ?n div 256 mod 256) * 256 + ?n mod 256"
    using div_mult_mod_eq [of ?n 256] div_mult_mod_eq [of "?n div 256" 256] div_mult_mod_eq [of "?n div 65536" 256]
    by (simp add: div_mult2_eq [of ?n 256 256, simplified] div_mult2_eq [of ?n 65536 256, simplified])
  show "unat (octet 0 ip) = ?n div 16777216" "unat (octet 1 ip) = ?n div 65536 mod 256"
    "unat (octet 2 ip) = ?n div 256 mod 256"
    using bound by (simp_all add: octet_def unsigned_ucast_eq drop_bit_eq_div take_bit_eq_mod unat_div_word
        less_mult_imp_div_less)
qed

lemma div_by_remainder: "r < m \<Longrightarrow> (q * m + r) div m = q" for q r m :: nat
  by simp

lemma block_quotients:
  fixes a b c d :: nat
  assumes "b < 256" "c < 256" "d < 256" and n: "n = ((a * 256 + b) * 256 + c) * 256 + d"
  shows "n div 16777216 = a" "n div 536870912 = a div 32" "n div 4194304 = 4 * a + b div 64"
    "n div 1048576 = 16 * a + b div 16" "n div 131072 = 128 * a + b div 2" "n div 65536 = 256 * a + b"
    "n div 256 = 65536 * a + 256 * b + c"
proof -
  show q: "n div 16777216 = a"
    using div_by_remainder [of "b * 65536 + c * 256 + d" 16777216 a] assms by (simp add: algebra_simps)
  show "n div 536870912 = a div 32"
    using div_mult2_eq [of n 16777216 32] q by simp
  show s: "n div 65536 = 256 * a + b"
    using div_by_remainder [of "c * 256 + d" 65536 "256 * a + b"] assms by (simp add: algebra_simps)
  show "n div 4194304 = 4 * a + b div 64" "n div 1048576 = 16 * a + b div 16" "n div 131072 = 128 * a + b div 2"
    using div_mult2_eq [of n 65536 64] div_mult2_eq [of n 65536 16] div_mult2_eq [of n 65536 2] unfolding s by simp_all
  show "n div 256 = 65536 * a + 256 * b + c"
    using div_by_remainder [of d 256 "65536 * a + 256 * b + c"] assms by (simp add: algebra_simps)
qed

lemma digits_eq: "r < m \<Longrightarrow> s < m \<Longrightarrow> m * q + r = m * p + s \<longleftrightarrow> q = p \<and> r = s" for q p r s m :: nat
  by (metis div_by_remainder mult.commute add_left_cancel)

lemma block_tests:
  fixes a b c :: nat
  assumes "a < 256" "b < 256" "c < 256"
  shows "4 * a + b div 64 = 401 \<longleftrightarrow> a = 100 \<and> 64 \<le> b \<and> b \<le> 127"
    "16 * a + b div 16 = 2753 \<longleftrightarrow> a = 172 \<and> 16 \<le> b \<and> b \<le> 31"
    "128 * a + b div 2 = 25353 \<longleftrightarrow> a = 198 \<and> (b = 18 \<or> b = 19)"
    "a div 32 = 7 \<longleftrightarrow> 224 \<le> a"
    "256 * a + b = 43518 \<longleftrightarrow> a = 169 \<and> b = 254" "256 * a + b = 49320 \<longleftrightarrow> a = 192 \<and> b = 168"
    "65536 * a + 256 * b + c = 12582912 \<longleftrightarrow> a = 192 \<and> b = 0 \<and> c = 0"
    "65536 * a + 256 * b + c = 12582914 \<longleftrightarrow> a = 192 \<and> b = 0 \<and> c = 2"
    "65536 * a + 256 * b + c = 12605539 \<longleftrightarrow> a = 192 \<and> b = 88 \<and> c = 99"
    "65536 * a + 256 * b + c = 12989284 \<longleftrightarrow> a = 198 \<and> b = 51 \<and> c = 100"
    "65536 * a + 256 * b + c = 13303921 \<longleftrightarrow> a = 203 \<and> b = 0 \<and> c = 113"
proof -
  have bc: "256 * b + c < 65536"
    using assms by simp
  show "4 * a + b div 64 = 401 \<longleftrightarrow> a = 100 \<and> 64 \<le> b \<and> b \<le> 127"
    using digits_eq [of "b div 64" 4 1 a 100] assms by auto
  show "16 * a + b div 16 = 2753 \<longleftrightarrow> a = 172 \<and> 16 \<le> b \<and> b \<le> 31"
    using digits_eq [of "b div 16" 16 1 a 172] assms by auto
  show "128 * a + b div 2 = 25353 \<longleftrightarrow> a = 198 \<and> (b = 18 \<or> b = 19)"
    using digits_eq [of "b div 2" 128 9 a 198] assms by auto
  show "a div 32 = 7 \<longleftrightarrow> 224 \<le> a"
    using assms by auto
  show "256 * a + b = 43518 \<longleftrightarrow> a = 169 \<and> b = 254" "256 * a + b = 49320 \<longleftrightarrow> a = 192 \<and> b = 168"
    using digits_eq [of b 256 254 a 169] digits_eq [of b 256 168 a 192] assms by simp_all
  show "65536 * a + 256 * b + c = 12582912 \<longleftrightarrow> a = 192 \<and> b = 0 \<and> c = 0"
    using digits_eq [OF bc, of 0 a 192] by auto
  show "65536 * a + 256 * b + c = 12582914 \<longleftrightarrow> a = 192 \<and> b = 0 \<and> c = 2"
    using digits_eq [OF bc, of 2 a 192] digits_eq [of c 256 2 b 0] assms by auto
  show "65536 * a + 256 * b + c = 12605539 \<longleftrightarrow> a = 192 \<and> b = 88 \<and> c = 99"
    using digits_eq [OF bc, of 22627 a 192] digits_eq [of c 256 99 b 88] assms by auto
  show "65536 * a + 256 * b + c = 12989284 \<longleftrightarrow> a = 198 \<and> b = 51 \<and> c = 100"
    using digits_eq [OF bc, of 13156 a 198] digits_eq [of c 256 100 b 51] assms by auto
  show "65536 * a + 256 * b + c = 13303921 \<longleftrightarrow> a = 203 \<and> b = 0 \<and> c = 113"
    using digits_eq [OF bc, of 113 a 203] digits_eq [of c 256 113 b 0] assms by auto
qed

text \<open>The octet tests of \<open>public_ipv4\<close> accept exactly the IPv4 addresses outside the listed
  special-purpose blocks.\<close>

theorem public_ipv4_matches_registry:
  "public_ipv4 addr = (case addr of V4 ip \<Rightarrow> \<not> list_ex (in_block ip) special_blocks | V6 _ \<Rightarrow> False)"
proof (cases addr)
  case (V4 ip)
  obtain a b c d :: nat where lt: "a < 256" "b < 256" "c < 256" and d: "d < 256"
    and n: "unat ip = ((a * 256 + b) * 256 + c) * 256 + d"
    and o': "unat (octet 0 ip) = a" "unat (octet 1 ip) = b" "unat (octet 2 ip) = c"
    by (rule octets_unat)
  have "public_ipv4 (V4 ip) \<longleftrightarrow> \<not> list_ex (in_block ip) special_blocks"
    by (simp add: special_blocks_def in_block_unat block_quotients [OF lt(2,3) d n] block_tests [OF lt]
        public_ipv4_def Let_def word_unat_eq_iff word_le_nat_alt o' [simplified] conj_disj_distribL conj_disj_distribR)
  then show ?thesis
    by (simp add: V4)
qed (simp add: public_ipv4_def)

end
