(* ===== verification/Egress_Proxy.thy ===== *)
theory Egress_Proxy
  imports Egress_Credentials Egress_Address
begin

text \<open>
  The proxy between a sandbox and the network: \<open>State\<close> of \<open>exoharness/src/egress/mod.rs\<close>. A request is
  checked against the policy, its placeholders are replaced, and it is sent by a client pinned to the
  public addresses the host resolved to. The world holds the client pool and the trace of the calls made
  to the resolver, the name service and upstream servers; their answers are the record \<open>proxy_env\<close>,
  indexed by the length of the trace, so that two calls may be answered differently. Timeouts are
  errors of those answers. The TLS certificate, the listeners and the byte copying of tunnels are left out.
\<close>

section \<open>World and environment\<close>

record client =
  cl_host :: string
  cl_addresses :: "socket_addr list"

record outgoing =
  og_method :: string
  og_url :: url
  og_headers :: headers
  og_body :: string

datatype egress_call =
  Resolve string egress_destination
| Refresh string egress_destination string
| Lookup string u16
| Connect "socket_addr list"
| Connect_External string
| Relay client outgoing

record egress_world =
  ew_trace :: "egress_call list"
  ew_clients :: "string \<times> u16 \<rightharpoonup> socket_addr list \<times> client"

record response =
  rs_status :: nat
  rs_headers :: headers
  rs_body :: string

record authority =
  au_text :: string
  au_host :: string
  au_port :: "u16 option"

record proxy_env =
  pe_header :: header_env
  pe_parse :: url_parser
  pe_authority :: "string \<Rightarrow> string + authority"
  pe_certificate_ok :: "string \<Rightarrow> bool"
  pe_fresh_id :: "nat \<Rightarrow> string"
  pe_resolve :: "nat \<Rightarrow> egress_identity \<Rightarrow> string \<Rightarrow> egress_destination \<Rightarrow> string result"
  pe_refresh :: "nat \<Rightarrow> egress_identity \<Rightarrow> string \<Rightarrow> egress_destination \<Rightarrow> string \<Rightarrow> (string + string option) result"
  pe_lookup_host :: "nat \<Rightarrow> string \<Rightarrow> u16 \<Rightarrow> socket_addr list result"
  pe_build_ok :: "client \<Rightarrow> bool"
  pe_connect :: "nat \<Rightarrow> socket_addr list \<Rightarrow> unit result"
  pe_connect_external :: "nat \<Rightarrow> string \<Rightarrow> unit result"
  pe_send :: "nat \<Rightarrow> client \<Rightarrow> outgoing \<Rightarrow> response result"

definition net_call :: "(nat \<Rightarrow> 'a result) \<Rightarrow> egress_call \<Rightarrow> (egress_world, 'a) io" where
  "net_call answer c w = (answer (length (ew_trace w)), w\<lparr>ew_trace := ew_trace w @ [c]\<rparr>)"

definition io_map_err :: "string \<Rightarrow> ('w, 'a) io \<Rightarrow> ('w, 'a) io" where
  "io_map_err msg m =
     io_bind (io_try m) (\<lambda>r. case r of Inl _ \<Rightarrow> io_fail (Error msg) | Inr x \<Rightarrow> io_return x)"

definition upstream_resolve :: "proxy_env \<Rightarrow> string \<Rightarrow> u16 \<Rightarrow> (egress_world, socket_addr list) io" where
  "upstream_resolve env host port =
     io_bind (net_call (\<lambda>n. pe_lookup_host env n host port) (Lookup host port)) (\<lambda>found.
     let addresses = filter (\<lambda>a. public_ipv4 (sock_ip a)) found in
     io_bind (io_lift (ensure (addresses \<noteq> []) ''upstream has no permitted IPv4 address'')) (\<lambda>_.
     io_return addresses))"

section \<open>State\<close>

record external_proxy =
  ex_url :: url
  ex_username :: string
  ex_password :: string
  ex_ca_pem :: string
  ex_environment :: "string \<rightharpoonup> string"

record proxy_state =
  ps_external :: "external_proxy option"
  ps_hosts :: "string set"
  ps_unrestricted :: bool
  ps_allowed_tcp_ports :: "u16 list option"
  ps_bindings :: "binding list"
  ps_identity :: egress_identity
  ps_has_resolver :: bool

definition external_validate :: "proxy_env \<Rightarrow> external_proxy \<Rightarrow> unit result" where
  "external_validate env ex =
     and_then (ensure (url_scheme (ex_url ex) = ''http'' \<and> url_host_str (ex_url ex) \<noteq> None
         \<and> url_username (ex_url ex) = [] \<and> url_password (ex_url ex) = None \<and> url_path (ex_url ex) = ''/''
         \<and> url_query (ex_url ex) = None \<and> url_fragment (ex_url ex) = None)
       ''external proxy URL must be an HTTP origin'') (\<lambda>_.
     and_then (ensure (ex_username ex \<noteq> [] \<and> set (ex_username ex) \<inter> {CHR '':'', CHR 0x0D, CHR 0x0A} = {}
         \<and> ex_password ex \<noteq> [] \<and> set (ex_password ex) \<inter> {CHR 0x0D, CHR 0x0A} = {}
         \<and> length (ex_username ex) + length (ex_password ex) \<le> 8192)
       ''invalid external proxy authorization'') (\<lambda>_.
     ensure (pe_certificate_ok env (ex_ca_pem ex)) ''invalid external proxy CA certificate''))"

fun credential_hosts :: "url_parser \<Rightarrow> string set \<Rightarrow> egress_credential_binding list \<Rightarrow> string set result" where
  "credential_hosts parse hosts [] = Ok hosts"
| "credential_hosts parse hosts (b # bs) =
     and_then (network_hosts parse (eb_networking b)) (\<lambda>hs. credential_hosts parse (hosts \<union> hs) bs)"

text \<open>\<open>HashMap::len\<close> of a placeholder map is the number of its keys.\<close>

definition new_with_placeholders :: "proxy_env \<Rightarrow> egress_identity \<Rightarrow> egress_policy \<Rightarrow> bool
    \<Rightarrow> (string \<rightharpoonup> string) option \<Rightarrow> external_proxy option \<Rightarrow> proxy_state result" where
  "new_with_placeholders env identity policy has_resolver placeholders external =
     (let placeholders = (case external of Some ex \<Rightarrow> Some (ex_environment ex) | None \<Rightarrow> placeholders) in
      and_then (case external of Some ex \<Rightarrow> external_validate env ex | None \<Rightarrow> Ok ()) (\<lambda>_.
      and_then (ensure (case ep_allowed_tcp_ports policy of None \<Rightarrow> True | Some ports \<Rightarrow> 0 \<notin> set ports)
        ''policy.allowed_tcp_ports cannot contain port zero'') (\<lambda>_.
      and_then (ensure (ei_sandbox_id identity \<noteq> []) ''egress identity is required'') (\<lambda>_.
      and_then (case ep_networking policy of
           Limited allowed_hosts \<Rightarrow> canonical_egress_hosts allowed_hosts
         | Unrestricted \<Rightarrow> credential_hosts (pe_parse env) {} (ep_credentials policy)
         | Disabled \<Rightarrow> bail ''credential proxy requires networking'') (\<lambda>hosts.
      and_then (ensure (ep_credentials policy = [] \<or> has_resolver \<or> external \<noteq> None)
        ''credential substitution requires an egress credential resolver'') (\<lambda>_.
      and_then (ensure (external = None \<longrightarrow>
          (case placeholders of None \<Rightarrow> True | Some given \<Rightarrow> card (dom given) = length (ep_credentials policy)))
        ''placeholder map must match credential bindings'') (\<lambda>_.
      and_then (prepare_bindings (pe_parse env) (pe_fresh_id env) (ep_credentials policy) placeholders) (\<lambda>bindings.
      Ok \<lparr> ps_external = external, ps_hosts = hosts, ps_unrestricted = (ep_networking policy = Unrestricted),
           ps_allowed_tcp_ports = ep_allowed_tcp_ports policy, ps_bindings = bindings, ps_identity = identity,
           ps_has_resolver = has_resolver \<rparr>))))))))"

definition port_allowed :: "proxy_state \<Rightarrow> u16 \<Rightarrow> bool" where
  "port_allowed st port \<longleftrightarrow>
     port \<noteq> 0 \<and> (case ps_allowed_tcp_ports st of None \<Rightarrow> True | Some ports \<Rightarrow> port \<in> set ports)"

definition check_port :: "proxy_state \<Rightarrow> u16 \<Rightarrow> unit result" where
  "check_port st port = ensure (port_allowed st port) ''TCP port is not allowed''"

text \<open>\<open>IpAddr::to_string\<close>; the caller has already refused every IPv6 address.\<close>

definition ip_text :: "ip_addr \<Rightarrow> string" where
  "ip_text addr =
     (case addr of
        V4 ip \<Rightarrow> show_nat (unat (octet 0 ip)) @ ''.'' @ show_nat (unat (octet 1 ip)) @ ''.''
                 @ show_nat (unat (octet 2 ip)) @ ''.'' @ show_nat (unat (octet 3 ip))
      | V6 _ \<Rightarrow> [])"

definition connect_tcp :: "proxy_env \<Rightarrow> proxy_state \<Rightarrow> socket_addr \<Rightarrow> (egress_world, unit) io" where
  "connect_tcp env st destination =
     io_bind (io_lift (ensure (ps_unrestricted st) ''opaque TCP requires unrestricted networking'')) (\<lambda>_.
     io_bind (io_lift (check_port st (sock_port destination))) (\<lambda>_.
     io_bind (io_lift (ensure (public_ipv4 (sock_ip destination)) ''TCP destination is not permitted'')) (\<lambda>_.
     io_bind (upstream_resolve env (ip_text (sock_ip destination)) (sock_port destination)) (\<lambda>addresses.
     net_call (\<lambda>n. pe_connect env n addresses) (Connect addresses)))))"

definition parse_authority :: "proxy_env \<Rightarrow> string \<Rightarrow> authority result" where
  "parse_authority env s = (case pe_authority env s of Inl e \<Rightarrow> bail e | Inr a \<Rightarrow> Ok a)"

definition parse_url :: "proxy_env \<Rightarrow> string \<Rightarrow> url result" where
  "parse_url env s = (case pe_parse env s of Inl e \<Rightarrow> bail e | Inr u \<Rightarrow> Ok u)"

definition host_allowed :: "proxy_state \<Rightarrow> string \<Rightarrow> bool" where
  "host_allowed st host \<longleftrightarrow> ps_unrestricted st \<or> host \<in> ps_hosts st"

definition connect_host :: "proxy_env \<Rightarrow> proxy_state \<Rightarrow> string \<Rightarrow> string result" where
  "connect_host env st text =
     and_then (check_port st 443) (\<lambda>_.
     and_then (parse_authority env text) (\<lambda>authority.
     and_then (ensure (au_port authority = Some 443) ''CONNECT requires port 443'') (\<lambda>_.
     and_then (canonical_egress_host (au_host authority)) (\<lambda>host.
     and_then (ensure (host_allowed st host) ''host is not allowed'') (\<lambda>_.
     Ok host)))))"

section \<open>Requests\<close>

record request =
  rq_method :: string
  rq_uri_scheme :: "string option"
  rq_uri_authority :: "authority option"
  rq_path_and_query :: "string option"
  rq_headers :: headers
  rq_body :: "(string + string) result"

definition MAX_REQUEST_BODY :: nat where
  "MAX_REQUEST_BODY = 8 * 1024 * 1024"

definition header_text :: "proxy_env \<Rightarrow> string \<Rightarrow> string result" where
  "header_text env value = ok_or (he_to_str (pe_header env) value) ''failed to convert header to a str''"

definition first_header :: "headers \<Rightarrow> string \<Rightarrow> string option" where
  "first_header hs name = (case get_all hs name of [] \<Rightarrow> None | v # _ \<Rightarrow> Some v)"

definition destination :: "proxy_env \<Rightarrow> proxy_state \<Rightarrow> request \<Rightarrow> string option \<Rightarrow> (egress_destination \<times> url) result" where
  "destination env st rq sni =
     and_then (ensure (rq_method rq \<noteq> ''CONNECT'') ''CONNECT is not supported on the transparent listener'') (\<lambda>_.
     and_then (ensure (get_all (rq_headers rq) ''upgrade'' = []) ''protocol upgrades are not supported'') (\<lambda>_.
     and_then (ensure (rq_uri_scheme rq = None \<and> rq_uri_authority rq = None) ''expected origin-form request'') (\<lambda>_.
     and_then (ensure (length (get_all (rq_headers rq) ''host'') = 1) ''exactly one Host header is required'') (\<lambda>_.
     and_then (ok_or (first_header (rq_headers rq) ''host'') ''missing Host'') (\<lambda>value.
     and_then (header_text env value) (\<lambda>text.
     and_then (parse_authority env text) (\<lambda>authority.
     and_then (canonical_egress_host (au_host authority)) (\<lambda>host.
     and_then (ensure (host_allowed st host) ''host is not allowed'') (\<lambda>_.
     let port = (if sni \<noteq> None then 443 else 80) in
     and_then (check_port st port) (\<lambda>_.
     and_then (ensure ((case au_port authority of None \<Rightarrow> port | Some p \<Rightarrow> p) = port)
       ''only standard HTTP ports are supported'') (\<lambda>_.
     and_then (case sni of
         None \<Rightarrow> Ok ()
       | Some name \<Rightarrow> and_then (canonical_egress_host name) (\<lambda>name.
           ensure (name = host) ''TLS SNI and HTTP Host must match'')) (\<lambda>_.
     and_then (ok_or (rq_path_and_query rq) ''missing request path'') (\<lambda>path.
     and_then (ensure (starts_with ''/'' path \<and> \<not> starts_with ''//'' path) ''invalid request path'') (\<lambda>_.
     let scheme = (if sni \<noteq> None then ''https'' else ''http'') in
     and_then (parse_url env (scheme @ ''://'' @ host @ path)) (\<lambda>u.
     and_then (ensure (url_host_str u = Some host \<and> url_port_or_known_default u = Some port)
       ''request changed the upstream authority'') (\<lambda>_.
     let path = (case url_query u of Some query \<Rightarrow> url_path u @ ''?'' @ query | None \<Rightarrow> url_path u) in
     Ok (\<lparr> ed_host = host, ed_port = port, ed_method = rq_method rq, ed_path = path \<rparr>, u)))))))))))))))))"

definition timed_resolve :: "proxy_env \<Rightarrow> egress_world resolver" where
  "timed_resolve env identity name d = net_call (\<lambda>n. pe_resolve env n identity name d) (Resolve name d)"

definition state_substitute :: "proxy_env \<Rightarrow> proxy_state \<Rightarrow> headers \<Rightarrow> egress_destination
    \<Rightarrow> (egress_world, headers \<times> (string \<times> string) list) io" where
  "state_substitute env st hs d =
     (if ps_bindings st = [] then io_return (hs, [])
      else
        io_bind (io_lift (ensure (ps_has_resolver st) ''credential resolver is unavailable'')) (\<lambda>_.
        substitute_credentials (pe_parse env) (pe_header env) (ps_bindings st) d (ps_identity st)
          (timed_resolve env) hs))"

text \<open>The client pool is keyed by destination; a client is its configuration: the host and the addresses
  the host is pinned to (it follows no redirect and uses no proxy).\<close>

definition build_client :: "proxy_env \<Rightarrow> string \<Rightarrow> socket_addr list \<Rightarrow> client result" where
  "build_client env host addresses =
     (let c = \<lparr> cl_host = host, cl_addresses = addresses \<rparr> in
      and_then (ensure (pe_build_ok env c) ''builder error'') (\<lambda>_. Ok c))"

definition pooled_client :: "proxy_env \<Rightarrow> string \<Rightarrow> u16 \<Rightarrow> (egress_world, client) io" where
  "pooled_client env host port =
     io_bind (io_map_err ''upstream address resolution failed'' (upstream_resolve env host port)) (\<lambda>found.
     let addresses = remdups_adj (sort found) in
     io_bind (io_read ew_clients) (\<lambda>clients.
     case clients (host, port) of
       Some (cached, c) \<Rightarrow>
         if cached = addresses then io_return c
         else io_bind (io_lift (build_client env host addresses)) (\<lambda>c.
              io_bind (io_modify (\<lambda>w. w\<lparr>ew_clients := (ew_clients w)((host, port) \<mapsto> (addresses, c))\<rparr>)) (\<lambda>_.
              io_return c))
     | None \<Rightarrow>
         io_bind (io_lift (build_client env host addresses)) (\<lambda>c.
         io_bind (io_modify (\<lambda>w. w\<lparr>ew_clients := (ew_clients w)((host, port) \<mapsto> (addresses, c))\<rparr>)) (\<lambda>_.
         io_return c))))"

definition relay :: "proxy_env \<Rightarrow> string \<Rightarrow> headers \<Rightarrow> url \<Rightarrow> string \<Rightarrow> client \<Rightarrow> (egress_world, response) io" where
  "relay env method hs u body c =
     (let hs = remove_header ''content-length'' (remove_header ''host'' hs);
          out = \<lparr> og_method = method, og_url = u, og_headers = hs, og_body = body \<rparr> in
      io_map_err ''upstream request failed'' (net_call (\<lambda>n. pe_send env n c out) (Relay c out)))"

definition proxy_response :: "proxy_env \<Rightarrow> response \<Rightarrow> response result" where
  "proxy_response env r =
     and_then (strip_hop_headers (pe_header env) (rs_headers r)) (\<lambda>hs. Ok (r\<lparr>rs_headers := hs\<rparr>))"

definition collect_body :: "request \<Rightarrow> string result" where
  "collect_body rq =
     and_then (rq_body rq) (\<lambda>received.
     case received of
       Inl _ \<Rightarrow> bail ''invalid or oversized request body''
     | Inr body \<Rightarrow>
         and_then (ensure (length body \<le> MAX_REQUEST_BODY) ''invalid or oversized request body'') (\<lambda>_. Ok body))"

fun refresh_all :: "proxy_env \<Rightarrow> egress_identity \<Rightarrow> egress_destination \<Rightarrow> (string \<times> string) list \<Rightarrow> bool
    \<Rightarrow> (egress_world, bool) io" where
  "refresh_all env identity d [] refreshed = io_return refreshed"
| "refresh_all env identity d ((name, rejected) # rest) refreshed =
     io_bind (net_call (\<lambda>n. pe_refresh env n identity name d rejected) (Refresh name d rejected)) (\<lambda>answer.
     case answer of
       Inl _ \<Rightarrow> io_fail (Error ''credential refresh failed'')
     | Inr renewed \<Rightarrow> refresh_all env identity d rest (refreshed \<or> renewed \<noteq> None))"

definition forward :: "proxy_env \<Rightarrow> proxy_state \<Rightarrow> request \<Rightarrow> string option \<Rightarrow> (egress_world, response) io" where
  "forward env st rq sni =
     io_bind (io_lift (destination env st rq sni)) (\<lambda>(d, u).
     io_bind (io_lift (validate_credentials (pe_parse env) (pe_header env) (ps_bindings st) (rq_headers rq) d (sni \<noteq> None))) (\<lambda>_.
     io_bind (io_lift (strip_hop_headers (pe_header env) (rq_headers rq))) (\<lambda>original.
     io_bind (pooled_client env (ed_host d) (ed_port d)) (\<lambda>c.
     io_bind (state_substitute env st original d) (\<lambda>(hs, credentials).
     io_bind (io_lift (collect_body rq)) (\<lambda>body.
     io_bind (relay env (rq_method rq) hs u body c) (\<lambda>r.
     io_bind
       (if rs_status r = 401 \<and> credentials \<noteq> [] then
          io_bind (io_lift (ensure (ps_has_resolver st) ''credential resolver is unavailable'')) (\<lambda>_.
          io_bind (refresh_all env (ps_identity st) d credentials False) (\<lambda>refreshed.
          if refreshed then
            io_bind (state_substitute env st original d) (\<lambda>(hs, _).
            relay env (rq_method rq) hs u body c)
          else io_return r))
        else io_return r) (\<lambda>r.
     io_lift (proxy_response env r)))))))))"

text \<open>In \<open>rq_body\<close> and \<open>pe_refresh\<close> the outer error is an elapsed timeout, the inner one the failure of the
  awaited operation.\<close>

text \<open>The service of a connection answers 502 where forwarding fails.\<close>

definition denied_response :: response where
  "denied_response = \<lparr> rs_status = 502, rs_headers = [],
     rs_body = ''egress request denied or upstream unavailable'' @ [CHR 0x0A] \<rparr>"

definition serve_request :: "proxy_env \<Rightarrow> proxy_state \<Rightarrow> request \<Rightarrow> string option \<Rightarrow> (egress_world, response) io" where
  "serve_request env st rq sni =
     io_bind (io_try (forward env st rq sni)) (\<lambda>r.
     case r of Inr response \<Rightarrow> io_return response | Inl _ \<Rightarrow> io_return denied_response)"

section \<open>Which calls a program makes\<close>

text \<open>\<open>proxy_spec A P m\<close>: whatever \<open>m\<close> returns, it keeps the pool sound and makes only calls satisfying
  \<open>A\<close>; if it succeeds, its value satisfies \<open>P\<close>.\<close>

definition clients_ok :: "egress_world \<Rightarrow> bool" where
  "clients_ok w \<longleftrightarrow>
     (\<forall>host port addresses c. ew_clients w (host, port) = Some (addresses, c) \<longrightarrow>
        cl_host c = host \<and> cl_addresses c = addresses)"

definition proxy_spec :: "(egress_call \<Rightarrow> bool) \<Rightarrow> ('a \<Rightarrow> bool) \<Rightarrow> (egress_world, 'a) io \<Rightarrow> bool" where
  "proxy_spec A P m \<longleftrightarrow>
     (\<forall>w r w'. m w = (r, w') \<longrightarrow> clients_ok w \<longrightarrow>
        clients_ok w' \<and> (\<exists>calls. ew_trace w' = ew_trace w @ calls \<and> list_all A calls) \<and> (\<forall>x. r = Inr x \<longrightarrow> P x))"

named_theorems spec_intros

lemma proxy_specI:
  assumes "\<And>w r w'. m w = (r, w') \<Longrightarrow> clients_ok w \<Longrightarrow>
    clients_ok w' \<and> (\<exists>calls. ew_trace w' = ew_trace w @ calls \<and> list_all A calls) \<and> (\<forall>x. r = Inr x \<longrightarrow> P x)"
  shows "proxy_spec A P m"
  using assms unfolding proxy_spec_def by blast

lemma spec_return [spec_intros]: "P x \<Longrightarrow> proxy_spec A P (io_return x)"
  by (auto simp: proxy_spec_def io_return_def)

lemma spec_fail [spec_intros]: "proxy_spec A P (io_fail e)"
  by (auto simp: proxy_spec_def io_fail_def)

lemma spec_lift: "(\<And>x. r = Inr x \<Longrightarrow> P x) \<Longrightarrow> proxy_spec A P (io_lift r)"
  by (auto simp: proxy_spec_def io_lift_def)

lemma spec_call [spec_intros]: "A c \<Longrightarrow> proxy_spec A (\<lambda>_. True) (net_call f c)"
  by (auto simp: proxy_spec_def net_call_def clients_ok_def)

lemma spec_weaken: "proxy_spec A P m \<Longrightarrow> (\<And>x. P x \<Longrightarrow> Q x) \<Longrightarrow> proxy_spec A Q m"
  unfolding proxy_spec_def by blast

lemma spec_bind:
  assumes m: "proxy_spec A P m" and f: "\<And>x. P x \<Longrightarrow> proxy_spec A Q (f x)"
  shows "proxy_spec A Q (io_bind m f)"
proof (rule proxy_specI)
  fix w r w'
  assume run: "io_bind m f w = (r, w')" and ok: "clients_ok w"
  obtain r1 w1 where r1: "m w = (r1, w1)"
    by fastforce
  obtain calls where c1: "clients_ok w1" "ew_trace w1 = ew_trace w @ calls" "list_all A calls" "\<And>x. r1 = Inr x \<Longrightarrow> P x"
    using m r1 ok unfolding proxy_spec_def by metis
  show "clients_ok w' \<and> (\<exists>calls. ew_trace w' = ew_trace w @ calls \<and> list_all A calls) \<and> (\<forall>x. r = Inr x \<longrightarrow> Q x)"
  proof (cases r1)
    case (Inl e)
    then show ?thesis
      using run r1 c1 by (auto simp: io_bind_def)
  next
    case (Inr x)
    then have "f x w1 = (r, w')"
      using run r1 by (simp add: io_bind_def)
    moreover have "proxy_spec A Q (f x)"
      using f c1(4) Inr by blast
    ultimately obtain more where "clients_ok w'" "ew_trace w' = ew_trace w1 @ more" "list_all A more"
      "\<forall>x. r = Inr x \<longrightarrow> Q x"
      using c1(1) unfolding proxy_spec_def by metis
    then show ?thesis
      using c1 by (auto intro!: exI [of _ "calls @ more"])
  qed
qed

lemma spec_try: "proxy_spec A P m \<Longrightarrow> proxy_spec A (\<lambda>r. \<forall>x. r = Inr x \<longrightarrow> P x) (io_try m)"
  unfolding proxy_spec_def io_try_def
  by (auto split: prod.splits sum.splits error.splits)

lemma spec_map_err: "proxy_spec A P m \<Longrightarrow> proxy_spec A P (io_map_err msg m)"
  unfolding io_map_err_def
  by (rule spec_bind [OF spec_try]) (auto intro: spec_intros split: sum.split)

lemma spec_lift_bind:
  "(\<And>x. r = Inr x \<Longrightarrow> proxy_spec A Q (f x)) \<Longrightarrow> proxy_spec A Q (io_bind (io_lift r) f)"
  by (rule spec_bind [where P = "\<lambda>x. r = Inr x"]) (auto intro: spec_lift)

lemma spec_lift_bind_pair:
  "(\<And>a b. r = Inr (a, b) \<Longrightarrow> proxy_spec A Q (f a b)) \<Longrightarrow> proxy_spec A Q (io_bind (io_lift r) (\<lambda>(a, b). f a b))"
  by (rule spec_lift_bind) (auto split: prod.split)

lemma spec_bind_pair:
  "proxy_spec A P m \<Longrightarrow> (\<And>a b. P (a, b) \<Longrightarrow> proxy_spec A Q (f a b)) \<Longrightarrow> proxy_spec A Q (io_bind m (\<lambda>(a, b). f a b))"
  by (erule spec_bind) (auto split: prod.split)

lemma spec_ensure: "(b \<Longrightarrow> proxy_spec A Q (f ())) \<Longrightarrow> proxy_spec A Q (io_bind (io_lift (ensure b msg)) f)"
  by (rule spec_bind [where P = "\<lambda>_. b"]) (auto intro: spec_lift simp: result_simps)

section \<open>Forwarding stays within the policy\<close>

definition request_port :: "string option \<Rightarrow> u16" where
  "request_port sni = (if sni \<noteq> None then 443 else 80)"

definition credential_use :: "proxy_env \<Rightarrow> proxy_state \<Rightarrow> string option \<Rightarrow> string \<Rightarrow> egress_destination \<Rightarrow> bool" where
  "credential_use env st sni name d \<longleftrightarrow>
     sni \<noteq> None \<and> host_allowed st (ed_host d) \<and> ed_port d = 443
     \<and> (\<exists>b \<in> set (ps_bindings st). name = eb_name (bd_config b) \<and> permits_header (pe_parse env) b d)"

definition outgoing_ok :: "proxy_env \<Rightarrow> proxy_state \<Rightarrow> request \<Rightarrow> string option \<Rightarrow> client \<Rightarrow> outgoing \<Rightarrow> bool" where
  "outgoing_ok env st rq sni c out \<longleftrightarrow>
     url_host_str (og_url out) = Some (cl_host c) \<and> host_allowed st (cl_host c)
     \<and> url_port_or_known_default (og_url out) = Some (request_port sni)
     \<and> cl_addresses c \<noteq> [] \<and> (\<forall>a \<in> set (cl_addresses c). public_ipv4 (sock_ip a))
     \<and> og_method out = rq_method rq \<and> length (og_body out) \<le> MAX_REQUEST_BODY
     \<and> (\<forall>h \<in> set (og_headers out). \<not> hop_header (fst h) \<and> fst h \<notin> {''host'', ''content-length''}
          \<and> fst h \<in> fst ` set (rq_headers rq))
     \<and> (sni = None \<longrightarrow> (\<forall>h \<in> set (og_headers out). h \<in> set (rq_headers rq) \<and> placeholder_free (pe_header env) h))"

fun request_call :: "proxy_env \<Rightarrow> proxy_state \<Rightarrow> request \<Rightarrow> string option \<Rightarrow> egress_call \<Rightarrow> bool" where
  "request_call env st rq sni (Resolve name d) \<longleftrightarrow> credential_use env st sni name d"
| "request_call env st rq sni (Refresh name d rejected) \<longleftrightarrow> credential_use env st sni name d"
| "request_call env st rq sni (Lookup host port) \<longleftrightarrow>
     host_allowed st host \<and> port = request_port sni \<and> port_allowed st port"
| "request_call env st rq sni (Relay c out) \<longleftrightarrow> outgoing_ok env st rq sni c out"
| "request_call env st rq sni _ \<longleftrightarrow> False"

lemma destination_facts:
  assumes "destination env st rq sni = Inr (d, u)"
  shows "host_allowed st (ed_host d)" "ed_port d = request_port sni" "port_allowed st (ed_port d)"
    "url_host_str u = Some (ed_host d)" "url_port_or_known_default u = Some (request_port sni)"
    "canonical_egress_host (ed_host d) = Inr (ed_host d)"
  using assms
  by (auto simp: destination_def result_simps Let_def request_port_def check_port_def
      intro: canonical_host_idem)

lemma upstream_spec:
  assumes "A (Lookup host port)"
  shows "proxy_spec A (\<lambda>as. as \<noteq> [] \<and> (\<forall>a \<in> set as. public_ipv4 (sock_ip a))) (upstream_resolve env host port)"
  unfolding upstream_resolve_def Let_def
  by (rule spec_bind [OF spec_call], rule assms, rule spec_ensure, rule spec_return) auto

lemma pool_insert_spec:
  assumes "cl_host c = host" and "cl_addresses c = addresses"
  shows "proxy_spec A (\<lambda>_. True) (io_modify (\<lambda>w. w\<lparr>ew_clients := (ew_clients w)((host, port) \<mapsto> (addresses, c))\<rparr>))"
  using assms by (auto simp: proxy_spec_def io_modify_def clients_ok_def)

lemma build_client_spec:
  "proxy_spec A (\<lambda>c. cl_host c = host \<and> cl_addresses c = addresses)
     (io_bind (io_lift (build_client env host addresses)) (\<lambda>c.
      io_bind (io_modify (\<lambda>w. w\<lparr>ew_clients := (ew_clients w)((host, port) \<mapsto> (addresses, c))\<rparr>)) (\<lambda>_.
      io_return c)))"
proof (rule spec_bind [where P = "\<lambda>c. cl_host c = host \<and> cl_addresses c = addresses"])
  show "proxy_spec A (\<lambda>c. cl_host c = host \<and> cl_addresses c = addresses) (io_lift (build_client env host addresses))"
    by (rule spec_lift) (auto simp: build_client_def Let_def result_simps)
qed (auto intro: spec_bind [OF pool_insert_spec] spec_return)

text \<open>Reading the pool yields a sound pool.\<close>

lemma read_pool_spec:
  "proxy_spec A (\<lambda>clients. \<forall>host port addresses c. clients (host, port) = Some (addresses, c) \<longrightarrow>
     cl_host c = host \<and> cl_addresses c = addresses) (io_read ew_clients)"
  by (auto simp: proxy_spec_def io_read_def clients_ok_def)

lemma pooled_client_spec:
  assumes "A (Lookup host port)"
  shows "proxy_spec A (\<lambda>c. cl_host c = host \<and> cl_addresses c \<noteq> [] \<and> (\<forall>a \<in> set (cl_addresses c). public_ipv4 (sock_ip a)))
    (pooled_client env host port)"
  unfolding pooled_client_def Let_def
proof (rule spec_bind [OF spec_map_err [OF upstream_spec [of A, OF assms]]])
  fix found
  assume found: "found \<noteq> [] \<and> (\<forall>a \<in> set found. public_ipv4 (sock_ip a))"
  let ?as = "remdups_adj (sort found)"
  let ?ok = "\<lambda>c. cl_host c = host \<and> cl_addresses c \<noteq> [] \<and> (\<forall>a \<in> set (cl_addresses c). public_ipv4 (sock_ip a))"
  have as: "?as \<noteq> [] \<and> (\<forall>a \<in> set ?as. public_ipv4 (sock_ip a))"
    using found by (auto simp: remdups_adj_Nil_iff dest: arg_cong [of _ _ length])
  have built: "proxy_spec A ?ok (io_bind (io_lift (build_client env host ?as)) (\<lambda>c.
      io_bind (io_modify (\<lambda>w. w\<lparr>ew_clients := (ew_clients w)((host, port) \<mapsto> (?as, c))\<rparr>)) (\<lambda>_. io_return c)))"
    by (rule spec_weaken [OF build_client_spec]) (use as in auto)
  show "proxy_spec A ?ok (io_bind (io_read ew_clients) (\<lambda>clients. case clients (host, port) of
       Some (cached, c) \<Rightarrow> if cached = ?as then io_return c
         else io_bind (io_lift (build_client env host ?as)) (\<lambda>c.
           io_bind (io_modify (\<lambda>w. w\<lparr>ew_clients := (ew_clients w)((host, port) \<mapsto> (?as, c))\<rparr>)) (\<lambda>_. io_return c))
     | None \<Rightarrow> io_bind (io_lift (build_client env host ?as)) (\<lambda>c.
           io_bind (io_modify (\<lambda>w. w\<lparr>ew_clients := (ew_clients w)((host, port) \<mapsto> (?as, c))\<rparr>)) (\<lambda>_. io_return c))))"
    by (rule spec_bind [OF read_pool_spec]) (use as built in \<open>auto intro: spec_return split: option.split\<close>)
qed

lemma resolver_calls:
  assumes "A (Resolve name d)"
  shows "io_keeps (\<lambda>w w'. ew_clients w' = ew_clients w \<and> (\<exists>calls. ew_trace w' = ew_trace w @ calls \<and> list_all A calls))
    (timed_resolve env identity name d)"
  using assms by (auto simp: io_keeps_def timed_resolve_def net_call_def)

lemma substitute_spec:
  assumes "\<And>b. b \<in> set (ps_bindings st) \<Longrightarrow> permits_header (pe_parse env) b d \<Longrightarrow> A (Resolve (eb_name (bd_config b)) d)"
  shows "proxy_spec A (\<lambda>(hs', used). map fst hs' = map fst hs \<and> (\<forall>(name, value) \<in> set used.
      \<exists>b \<in> set (ps_bindings st). name = eb_name (bd_config b) \<and> permits_header (pe_parse env) b d))
    (state_substitute env st hs d)"
proof -
  let ?R = "\<lambda>w w' :: egress_world. ew_clients w' = ew_clients w \<and> (\<exists>calls. ew_trace w' = ew_trace w @ calls \<and> list_all A calls)"
  let ?m = "substitute_credentials (pe_parse env) (pe_header env) (ps_bindings st) d (ps_identity st) (timed_resolve env) hs"
  have "reflp ?R"
    by (auto intro: reflpI)
  moreover have "transp ?R"
    by (rule transpI) (metis append.assoc list_all_append)
  ultimately have keeps: "io_keeps ?R ?m"
    by (rule substitute_keeps) (use assms resolver_calls in blast)
  have "proxy_spec A (\<lambda>(hs', used). map fst hs' = map fst hs \<and> (\<forall>(name, value) \<in> set used.
      \<exists>b \<in> set (ps_bindings st). name = eb_name (bd_config b) \<and> permits_header (pe_parse env) b d)) ?m"
  proof (rule proxy_specI)
    fix w r w'
    assume run: "?m w = (r, w')" and ok: "clients_ok w"
    have "?R w w'"
      using keeps run unfolding io_keeps_def by (metis snd_conv)
    then show "clients_ok w' \<and> (\<exists>calls. ew_trace w' = ew_trace w @ calls \<and> list_all A calls) \<and> (\<forall>x. r = Inr x \<longrightarrow>
        (case x of (hs', used) \<Rightarrow> map fst hs' = map fst hs \<and> (\<forall>(name, value) \<in> set used.
          \<exists>b \<in> set (ps_bindings st). name = eb_name (bd_config b) \<and> permits_header (pe_parse env) b d)))"
      using run ok substitute_used by (fastforce simp: clients_ok_def)
  qed
  then show ?thesis
    unfolding state_substitute_def by (auto intro: spec_return spec_ensure)
qed

lemma substitute_plain_spec:
  assumes "\<forall>h \<in> set hs. placeholder_free (pe_header env) h"
  shows "proxy_spec A (\<lambda>(hs', used). hs' = hs \<and> used = []) (state_substitute env st hs d)"
  unfolding state_substitute_def
  using substitute_plain [OF assms, of "pe_parse env" "ps_bindings st" d "ps_identity st" "timed_resolve env"]
  by (auto intro!: spec_return spec_ensure simp: proxy_spec_def [of A _ "substitute_credentials _ _ _ _ _ _ _"])

lemma refresh_spec:
  "(\<And>name value. (name, value) \<in> set used \<Longrightarrow> A (Refresh name d value)) \<Longrightarrow>
     proxy_spec A (\<lambda>_. True) (refresh_all env identity d used refreshed)"
proof (induction used arbitrary: refreshed)
  case (Cons u used)
  obtain name v where u: "u = (name, v)"
    by fastforce
  have "A (Refresh name d v)"
    using Cons.prems u by simp
  then show ?case
    unfolding u refresh_all.simps
    by (rule spec_bind [OF spec_call]) (use Cons in \<open>auto intro: spec_fail split: sum.split\<close>)
qed (simp add: spec_return)

lemma relay_spec:
  assumes "\<And>hs'. hs' = filter (\<lambda>h. fst h \<notin> {''host'', ''content-length''}) hs \<Longrightarrow>
    A (Relay c \<lparr> og_method = method, og_url = u, og_headers = hs', og_body = body \<rparr>)"
  shows "proxy_spec A (\<lambda>_. True) (relay env method hs u body c)"
proof -
  have "remove_header ''content-length'' (remove_header ''host'' hs) = filter (\<lambda>h. fst h \<notin> {''host'', ''content-length''}) hs"
    by (auto simp: remove_header_def intro: filter_cong)
  then show ?thesis
    unfolding relay_def Let_def by (intro spec_map_err spec_call) (rule assms)
qed

text \<open>The headers a substitution may yield, for both kinds of request.\<close>

definition substituted_ok :: "proxy_env \<Rightarrow> proxy_state \<Rightarrow> string option \<Rightarrow> egress_destination \<Rightarrow> headers
    \<Rightarrow> headers \<times> (string \<times> string) list \<Rightarrow> bool" where
  "substituted_ok env st sni d hs = (\<lambda>(hs', used).
     map fst hs' = map fst hs \<and> (sni = None \<longrightarrow> hs' = hs)
     \<and> (\<forall>(name, value) \<in> set used. credential_use env st sni name d))"

lemma forward_substitution:
  assumes d: "destination env st rq sni = Inr (d, u)"
    and plain: "sni = None \<Longrightarrow> \<forall>h \<in> set hs. placeholder_free (pe_header env) h"
  shows "proxy_spec (request_call env st rq sni) (substituted_ok env st sni d hs) (state_substitute env st hs d)"
proof (cases sni)
  case None
  show ?thesis
    by (rule spec_weaken [OF substitute_plain_spec [OF plain [OF None]]]) (auto simp: substituted_ok_def)
next
  case (Some name)
  have used: "credential_use env st sni n d" if "\<exists>b \<in> set (ps_bindings st). n = eb_name (bd_config b) \<and> permits_header (pe_parse env) b d" for n
    using that destination_facts [OF d] Some by (auto simp: credential_use_def request_port_def)
  show ?thesis
    by (rule spec_weaken [OF substitute_spec]) (use used Some in \<open>fastforce simp: substituted_ok_def\<close>)+
qed

lemma relay_within:
  assumes d: "destination env st rq sni = Inr (d, u)"
    and v: "validate_credentials (pe_parse env) (pe_header env) (ps_bindings st) (rq_headers rq) d (sni \<noteq> None) = Inr x"
    and s: "strip_hop_headers (pe_header env) (rq_headers rq) = Inr original"
    and c: "cl_host c = ed_host d \<and> cl_addresses c \<noteq> [] \<and> (\<forall>a \<in> set (cl_addresses c). public_ipv4 (sock_ip a))"
    and h: "substituted_ok env st sni d original (hs, used)" and b: "collect_body rq = Inr body"
  shows "proxy_spec (request_call env st rq sni) (\<lambda>_. True) (relay env (rq_method rq) hs u body c)"
proof (rule relay_spec)
  have "map fst hs = map fst original" and same: "sni = None \<Longrightarrow> hs = original"
    using h by (simp_all add: substituted_ok_def)
  then have names: "fst ` set hs = fst ` set original"
    by (metis list.set_map)
  have orig: "\<And>k. k \<in> set original \<Longrightarrow> k \<in> set (rq_headers rq) \<and> \<not> hop_header (fst k)"
    using s by (auto simp: strip_hop_headers_iff)
  have kept: "\<not> hop_header (fst k) \<and> fst k \<in> fst ` set (rq_headers rq)" if k: "k \<in> set hs" for k
  proof -
    from k have "fst k \<in> fst ` set original"
      unfolding names [symmetric] by (rule imageI)
    then obtain k' where "k' \<in> set original" and "fst k = fst k'"
      by (rule imageE)
    with orig [of k'] show ?thesis
      by auto
  qed
  have plain: "placeholder_free (pe_header env) k" if "sni = None" "k \<in> set (rq_headers rq)" for k
    using validated_plain [of "pe_parse env" "pe_header env"] v that by simp
  have "length body \<le> MAX_REQUEST_BODY"
    using b by (cases "rq_body rq") (auto simp: collect_body_def result_simps split: sum.splits)
  then show "request_call env st rq sni (Relay c \<lparr> og_method = rq_method rq, og_url = u, og_headers = hs', og_body = body \<rparr>)"
    if "hs' = filter (\<lambda>h. fst h \<notin> {''host'', ''content-length''}) hs" for hs'
    using that destination_facts [OF d] c kept plain same orig by (auto simp: outgoing_ok_def)
qed

lemma forward_spec: "proxy_spec (request_call env st rq sni) (\<lambda>_. True) (forward env st rq sni)"
  unfolding forward_def
  apply (rule spec_lift_bind_pair, rule spec_lift_bind, rule spec_lift_bind)
  subgoal premises p for d u x original
  proof -
    have plain: "\<forall>h \<in> set original. placeholder_free (pe_header env) h" if "sni = None"
      using p that validated_plain [of "pe_parse env" "pe_header env"] by (auto simp: strip_hop_headers_iff)
    have lookup: "request_call env st rq sni (Lookup (ed_host d) (ed_port d))"
      using destination_facts [OF p(1)] by simp
    have refresh: "request_call env st rq sni (Refresh name d v)"
      if "substituted_ok env st sni d original (hs, used)" "(name, v) \<in> set used" for hs used name v
      using that by (auto simp: substituted_ok_def)
    show ?thesis
    proof (rule spec_bind [OF pooled_client_spec], rule lookup, rule spec_bind_pair [OF forward_substitution [OF p(1) plain]],
        assumption, rule spec_lift_bind, goal_cases)
      case (1 c hs used body)
      note step = relay_within [OF p 1(1) _ 1(3)]
      have retry: "proxy_spec (request_call env st rq sni) (\<lambda>_. True)
          (io_bind (state_substitute env st original d) (\<lambda>(hs, _). relay env (rq_method rq) hs u body c))"
        by (rule spec_bind_pair [OF forward_substitution [OF p(1) plain]]) (auto intro: step)
      show ?case
        by (rule spec_bind [OF step [OF 1(2)]], rule spec_bind [where P = "\<lambda>_. True"])
          (auto intro!: spec_ensure spec_return spec_lift spec_bind [OF refresh_spec] refresh [OF 1(2)] retry)
    qed
  qed
  done

text \<open>C8: Whatever a sandbox sends and whatever the servers answer, forwarding a request only looks up a
  host and port the policy allows, asks for a credential only over TLS and only for a binding that permits
  the destination, and sends only to public addresses of the request's own allowed host, without
  hop-by-hop, host or length headers; a request without TLS is sent with headers of the request itself,
  none of which holds a placeholder.\<close>

theorem forward_stays_within_policy:
  assumes "clients_ok w" and "forward env st rq sni w = (r, w')"
  shows "clients_ok w' \<and> (\<exists>calls. ew_trace w' = ew_trace w @ calls \<and> list_all (request_call env st rq sni) calls)"
  using forward_spec assms unfolding proxy_spec_def by blast

definition sample_headers :: header_env where
  "sample_headers = \<lparr> he_to_str = Some, he_value_ok = (\<lambda>_. True), he_name = Some, he_base64_decode = (\<lambda>_. None),
     he_base64_encode = (\<lambda>s. s) \<rparr>"

definition sample_proxy :: proxy_env where
  "sample_proxy = \<lparr> pe_header = sample_headers, pe_parse = sample_parse,
     pe_authority = (\<lambda>s. Inr \<lparr> au_text = s, au_host = s, au_port = None \<rparr>),
     pe_certificate_ok = (\<lambda>_. True), pe_fresh_id = sample_fresh_id,
     pe_resolve = (\<lambda>_ _ _ _. Inr ''s3cret''), pe_refresh = (\<lambda>_ _ _ _ _. Inr (Inr None)),
     pe_lookup_host = (\<lambda>_ _ port. Inr [SocketV4 0x0A000001 port, SocketV4 0x08080808 port]),
     pe_build_ok = (\<lambda>_. True), pe_connect = (\<lambda>_ _. Inr ()), pe_connect_external = (\<lambda>_ _. Inr ()),
     pe_send = (\<lambda>_ _ _. Inr \<lparr> rs_status = 200, rs_headers = [], rs_body = ''ok'' \<rparr>) \<rparr>"

definition sample_state :: proxy_state where
  "sample_state = \<lparr> ps_external = None, ps_hosts = {''api.example''}, ps_unrestricted = False, ps_allowed_tcp_ports = None,
     ps_bindings = [\<lparr> bd_config = sample_binding, bd_hosts = {''api.example''},
       bd_placeholder = PLACEHOLDER_PREFIX @ sample_fresh_id 0 \<rparr>],
     ps_identity = \<lparr> ei_sandbox_id = ''box'', ei_scope = Global \<rparr>, ps_has_resolver = True \<rparr>"

definition sample_egress_request :: request where
  "sample_egress_request = \<lparr> rq_method = ''GET'', rq_uri_scheme = None, rq_uri_authority = None,
     rq_path_and_query = Some ''/v1'',
     rq_headers = [(''host'', ''api.example''), (''x-key'', PLACEHOLDER_PREFIX @ sample_fresh_id 0)],
     rq_body = Inr (Inr []) \<rparr>"

definition idle_world :: egress_world where
  "idle_world = \<lparr> ew_trace = [], ew_clients = Map.empty \<rparr>"

definition sample_destination :: egress_destination where
  "sample_destination = \<lparr> ed_host = ''api.example'', ed_port = 443, ed_method = ''GET'', ed_path = ''/v1'' \<rparr>"

definition sample_client :: client where
  "sample_client = \<lparr> cl_host = ''api.example'', cl_addresses = [SocketV4 0x08080808 443] \<rparr>"

lemmas sample_defs = sample_proxy_def sample_headers_def sample_state_def sample_egress_request_def

lemma sample_canonical: "canonical_egress_host ''api.example'' = Inr ''api.example''"
  by code_simp

lemma sample_destination_run:
  "destination sample_proxy sample_state sample_egress_request (Some ''api.example'') = Inr (sample_destination, sample_page)"
  by (simp add: destination_def sample_defs sample_canonical get_all_def first_header_def header_text_def
      parse_authority_def host_allowed_def check_port_def port_allowed_def parse_url_def sample_parse_def
      sample_page_def sample_root_def starts_with_def sample_destination_def)

lemma sample_permits:
  "permits_header sample_parse \<lparr> bd_config = sample_binding, bd_hosts = {''api.example''},
     bd_placeholder = placeholder \<rparr> sample_destination"
  by (simp add: permits_header_def sample_binding_def sample_destination_def show_nat.simps digit_char_def
      destination_url_def parse_destination_def sample_parse_def sample_page_def sample_root_def
      network_permits_def destination_permits_def as_str_def)

lemma sample_placeholder:
  "contains_placeholder (PLACEHOLDER_PREFIX @ s)" "\<not> contains_placeholder ''api.example''"
  by (simp_all add: contains_placeholder_def contains_str_prefix) (simp add: PLACEHOLDER_PREFIX_def starts_with_def)

lemma prefix_nonempty: "PLACEHOLDER_PREFIX @ s \<noteq> []"
  by (simp add: PLACEHOLDER_PREFIX_def)

lemma sample_valid:
  "validate_credentials sample_parse sample_headers (ps_bindings sample_state) (rq_headers sample_egress_request) sample_destination True = Inr ()"
proof -
  have "valid_utf8 (PLACEHOLDER_PREFIX @ sample_fresh_id 0)"
    by code_simp
  then show ?thesis
    using sample_permits
    by (simp add: validate_credentials_def validate_header_def basic_credential_placeholder_def sample_defs
        sample_placeholder get_all_def hop_header_def from_utf8_def str_replace_whole [OF prefix_nonempty]
        del: replicate.simps) (simp add: PLACEHOLDER_PREFIX_def)
qed

lemma sample_stripped: "strip_hop_headers sample_headers (rq_headers sample_egress_request) = Inr (rq_headers sample_egress_request)"
  by (simp add: strip_hop_headers_iff sample_egress_request_def get_all_def hop_header_def)

lemma sample_public: "public_ipv4 (V4 0x08080808)" "\<not> public_ipv4 (V4 0x0A000001)"
  by (simp_all add: public_ipv4_def octet_def Let_def)

lemma sample_pool:
  "pooled_client sample_proxy ''api.example'' 443 idle_world =
     (Inr sample_client, \<lparr> ew_trace = [Lookup ''api.example'' 443],
        ew_clients = [(''api.example'', 443) \<mapsto> (cl_addresses sample_client, sample_client)] \<rparr>)"
  using sample_public
  by (simp add: pooled_client_def upstream_resolve_def net_call_def io_map_err_def io_simps idle_world_def
      sample_proxy_def sample_client_def build_client_def Let_def)

lemma sample_substituted:
  "state_substitute sample_proxy sample_state (rq_headers sample_egress_request) sample_destination w =
     (Inr ([(''host'', ''api.example''), (''x-key'', ''s3cret'')], [(''github'', ''s3cret'')]),
      w\<lparr>ew_trace := ew_trace w @ [Resolve ''github'' sample_destination]\<rparr>)"
  using sample_permits sample_placeholder
  by (simp add: state_substitute_def substitute_header_def basic_credential_placeholder_def sample_defs io_simps
      timed_resolve_def net_call_def contains_str_prefix [of _ "[]", simplified] str_replace_whole [OF prefix_nonempty])
    (simp add: sample_binding_def)

theorem forward_stays_within_policy_witness:
  "Resolve ''github'' sample_destination
     \<in> set (ew_trace (snd (forward sample_proxy sample_state sample_egress_request (Some ''api.example'') idle_world)))
   \<and> credential_use sample_proxy sample_state (Some ''api.example'') ''github'' sample_destination"
proof -
  let ?run = "forward sample_proxy sample_state sample_egress_request (Some ''api.example'') idle_world"
  have env: "pe_parse sample_proxy = sample_parse" "pe_header sample_proxy = sample_headers"
    by (simp_all add: sample_proxy_def)
  have "ed_host sample_destination = ''api.example''" "ed_port sample_destination = 443"
    "collect_body sample_egress_request = Inr []" "strip_hop_headers sample_headers [] = Inr []"
    "\<And>n c out. pe_send sample_proxy n c out = Inr \<lparr> rs_status = 200, rs_headers = [], rs_body = ''ok'' \<rparr>"
    by (simp_all add: sample_destination_def collect_body_def sample_egress_request_def strip_hop_headers_def get_all_def
        sample_proxy_def)
  then have trace: "Resolve ''github'' sample_destination \<in> set (ew_trace (snd ?run))"
    using sample_destination_run sample_valid sample_stripped sample_pool
    by (simp add: forward_def io_bind_def io_lift_def env sample_substituted relay_def io_map_err_def
        io_try_def net_call_def Let_def proxy_response_def io_return_def)
  have "clients_ok idle_world"
    by (simp add: clients_ok_def idle_world_def)
  from forward_stays_within_policy [OF this surjective_pairing, of sample_proxy sample_state sample_egress_request "Some ''api.example''"]
  have "list_all (request_call sample_proxy sample_state sample_egress_request (Some ''api.example'')) (ew_trace (snd ?run))"
    by (auto simp: idle_world_def)
  with trace show ?thesis
    by (fastforce simp: list_all_iff)
qed

end
