(* ===== verification/Egress_Routes.thy ===== *)
theory Egress_Routes
  imports Egress_Proxy
begin

text \<open>
  How a connection from the sandbox is routed before requests are forwarded: the transparent HTTP and
  HTTPS connections of \<open>exoharness/src/egress/mod.rs\<close> and the authenticated proxy of
  \<open>exoharness/src/egress/explicit.rs\<close>. A connection is given by the requests it carries; reading a TLS
  ClientHello consumes the chunks the stream delivers. Copying bytes through an open tunnel, the
  accept loops and their connection limit are left out.
\<close>

section \<open>Transparent connections\<close>

datatype connection_outcome = Served "response list" | Tunnelled string

fun http_connection :: "proxy_env \<Rightarrow> proxy_state \<Rightarrow> string option \<Rightarrow> request list \<Rightarrow> (egress_world, response list) io" where
  "http_connection env st sni [] = io_return []"
| "http_connection env st sni (rq # rqs) =
     io_bind (serve_request env st rq sni) (\<lambda>r.
     io_bind (http_connection env st sni rqs) (\<lambda>rs. io_return (r # rs)))"

text \<open>\<open>accepted\<close> is the outcome of the TLS handshake: the server name the client sent.\<close>

definition https_connection :: "proxy_env \<Rightarrow> proxy_state \<Rightarrow> string option result \<Rightarrow> string option \<Rightarrow> request list
    \<Rightarrow> (egress_world, connection_outcome) io" where
  "https_connection env st accepted target rqs =
     io_bind (io_lift accepted) (\<lambda>server_name.
     io_bind (io_lift (ok_or server_name ''TLS SNI is required'')) (\<lambda>sni.
     io_bind (io_lift (case target of
         None \<Rightarrow> Ok ()
       | Some host \<Rightarrow> and_then (canonical_egress_host sni) (\<lambda>name.
           ensure (name = host) ''CONNECT host and TLS SNI must match''))) (\<lambda>_.
     io_bind (http_connection env st (Some sni) rqs) (\<lambda>rs. io_return (Served rs)))))"

definition MAX_CLIENT_HELLO :: nat where
  "MAX_CLIENT_HELLO = 64 * 1024"

text \<open>\<open>acceptor bytes\<close> is what the TLS acceptor says after reading \<open>bytes\<close>: an error, nothing yet, or the
  server name of the complete ClientHello.\<close>

fun read_client_hello :: "(string \<Rightarrow> string + string option option) \<Rightarrow> string \<Rightarrow> string list \<Rightarrow> (string \<times> string) result" where
  "read_client_hello acceptor prefix [] = bail ''TLS connection closed before ClientHello''"
| "read_client_hello acceptor prefix (chunk # chunks) =
     and_then (ensure (chunk \<noteq> []) ''TLS connection closed before ClientHello'') (\<lambda>_.
     and_then (ensure (length prefix + length chunk \<le> MAX_CLIENT_HELLO) ''TLS ClientHello too large'') (\<lambda>_.
     (case acceptor (prefix @ chunk) of
        Inl e \<Rightarrow> bail e
      | Inr None \<Rightarrow> read_client_hello acceptor (prefix @ chunk) chunks
      | Inr (Some server_name) \<Rightarrow>
          and_then (ok_or server_name ''TLS SNI is required'') (\<lambda>name.
          and_then (canonical_egress_host name) (\<lambda>host. Ok (host, prefix @ chunk))))))"

definition transparent_https_connection :: "proxy_env \<Rightarrow> proxy_state \<Rightarrow> bool \<Rightarrow> (string \<Rightarrow> string + string option option)
    \<Rightarrow> string list \<Rightarrow> string option result \<Rightarrow> request list \<Rightarrow> (egress_world, connection_outcome) io" where
  "transparent_https_connection env st tls acceptor chunks accepted rqs =
     io_bind (io_lift (check_port st 443)) (\<lambda>_.
     if \<not> ps_unrestricted st \<and> tls then https_connection env st accepted None rqs
     else
       io_bind (io_lift (read_client_hello acceptor [] chunks)) (\<lambda>(host, prefix).
       io_bind (io_lift (ensure (host_allowed st host) ''host is not allowed'')) (\<lambda>_.
       if host \<in> ps_hosts st \<and> tls then https_connection env st accepted (Some host) rqs
       else
         io_bind (case ps_external st of
             Some _ \<Rightarrow> net_call (\<lambda>n. pe_connect_external env n host) (Connect_External host)
           | None \<Rightarrow> io_bind (upstream_resolve env host 443) (\<lambda>addresses.
               net_call (\<lambda>n. pe_connect env n addresses) (Connect addresses))) (\<lambda>_.
         io_return (Tunnelled prefix)))))"

text \<open>The connections \<open>serve\<close> dispatches. TLS is terminated here unless an external proxy is configured.\<close>

datatype incoming =
  Http "request list"
| Https "string \<Rightarrow> string + string option option" "string list" "string option result" "request list"
| Tcp socket_addr

definition serve_connection :: "proxy_env \<Rightarrow> proxy_state \<Rightarrow> incoming \<Rightarrow> (egress_world, connection_outcome) io" where
  "serve_connection env st incoming =
     (case incoming of
        Http rqs \<Rightarrow> io_bind (http_connection env st None rqs) (\<lambda>rs. io_return (Served rs))
      | Https acceptor chunks accepted rqs \<Rightarrow>
          transparent_https_connection env st (ps_external st = None) acceptor chunks accepted rqs
      | Tcp addr \<Rightarrow> io_bind (connect_tcp env st addr) (\<lambda>_. io_return (Tunnelled [])))"

section \<open>The authenticated proxy\<close>

definition MAX_PROXY_PASSWORD_BYTES :: nat where
  "MAX_PROXY_PASSWORD_BYTES = 8 * 1024"

type_synonym authorizer = "string \<Rightarrow> string \<Rightarrow> string \<Rightarrow> proxy_state option result"

definition fixed_authorize :: "string \<Rightarrow> proxy_state \<Rightarrow> authorizer" where
  "fixed_authorize expected session username password host =
     Ok (if username = ''exo'' \<and> password = expected then Some session else None)"

definition error_response :: "nat \<Rightarrow> response" where
  "error_response status =
     \<lparr> rs_status = status,
       rs_headers = (''connection'', ''close'')
         # (if status = 407 then [(''proxy-authenticate'', ''Basic realm='' @ [CHR 0x22] @ ''Exo'' @ [CHR 0x22])] else []),
       rs_body = ''sandbox proxy request denied or upstream unavailable'' @ [CHR 0x0A] \<rparr>"

definition connect_target :: "proxy_env \<Rightarrow> request \<Rightarrow> string result" where
  "connect_target env rq =
     and_then (ensure (rq_uri_scheme rq = None \<and> rq_path_and_query rq \<in> {None, Some []}) ''CONNECT requires authority form'') (\<lambda>_.
     and_then (ok_or (rq_uri_authority rq) ''CONNECT authority is required'') (\<lambda>authority.
     and_then (ensure (CHR 0x40 \<notin> set (au_text authority) \<and> au_port authority = Some 443)
       ''CONNECT requires a host and port 443'') (\<lambda>_.
     and_then (canonical_egress_host (au_host authority)) (\<lambda>host.
     and_then (ensure (length (get_all (rq_headers rq) ''host'') = 1) ''exactly one Host header is required'') (\<lambda>_.
     and_then (ok_or (first_header (rq_headers rq) ''host'') ''Host header is required'') (\<lambda>value.
     and_then (header_text env value) (\<lambda>text.
     and_then (parse_authority env text) (\<lambda>header.
     and_then (if CHR 0x40 \<notin> set (au_text header) \<and> au_port header \<in> {None, Some 443}
               then and_then (canonical_egress_host (au_host header)) (\<lambda>h. Ok (h = host)) else Ok False) (\<lambda>same.
     and_then (ensure same ''Host must match CONNECT authority'') (\<lambda>_.
     and_then (ensure (length (get_all (rq_headers rq) ''content-length'') \<le> 1
         \<and> first_header (rq_headers rq) ''content-length'' \<in> {None, Some ''0''}
         \<and> get_all (rq_headers rq) ''transfer-encoding'' = []) ''CONNECT body is not supported'') (\<lambda>_.
     Ok host)))))))))))"

definition basic_credentials :: "proxy_env \<Rightarrow> headers \<Rightarrow> (string \<times> string) result" where
  "basic_credentials env hs =
     and_then (ensure (length (get_all hs ''proxy-authorization'') = 1) ''exactly one Proxy-Authorization header is required'') (\<lambda>_.
     and_then (ok_or (first_header hs ''proxy-authorization'') ''Proxy-Authorization is required'') (\<lambda>value.
     and_then (header_text env value) (\<lambda>text.
     let words = split_whitespace text in
     and_then (ensure (words \<noteq> [] \<and> eq_ignore_ascii_case (hd words) ''Basic'') ''Basic proxy authentication is required'') (\<lambda>_.
     and_then (ok_or (if length words < 2 then None else Some (words ! 1)) ''Basic credentials are required'') (\<lambda>encoded.
     and_then (ensure (length words = 2 \<and> length encoded \<le> MAX_PROXY_PASSWORD_BYTES * 2) ''invalid Basic credentials'') (\<lambda>_.
     and_then (ok_or (he_base64_decode (pe_header env) encoded) ''Invalid Base64'') (\<lambda>bytes.
     and_then (ok_or (from_utf8 bytes) ''invalid utf-8 sequence'') (\<lambda>decoded.
     and_then (ok_or (split_once (CHR '':'') decoded) ''Basic credentials require username and password'') (\<lambda>(username, password).
     and_then (ensure (username \<noteq> [] \<and> list_all ascii_graphic username \<and> password \<noteq> []
         \<and> length password \<le> MAX_PROXY_PASSWORD_BYTES \<and> list_all ascii_graphic password) ''invalid Basic credentials'') (\<lambda>_.
     Ok (username, password)))))))))))"

definition forward_http :: "proxy_env \<Rightarrow> proxy_state \<Rightarrow> request \<Rightarrow> (egress_world, response) io" where
  "forward_http env st rq =
     io_bind (io_lift (ensure (rq_uri_scheme rq = Some ''http'') ''proxy requires an HTTP URL'')) (\<lambda>_.
     io_bind (io_lift (ok_or (rq_uri_authority rq) ''missing request authority'')) (\<lambda>authority.
     io_bind (io_lift (if length (get_all (rq_headers rq) ''host'') = 1
         then and_then (ok_or (first_header (rq_headers rq) ''host'') ''missing Host'') (\<lambda>value.
              and_then (header_text env value) (\<lambda>text. Ok (text = au_text authority)))
         else Ok False)) (\<lambda>same.
     io_bind (io_lift (ensure same ''URL and Host must match'')) (\<lambda>_.
     io_bind (io_lift (ok_or (rq_path_and_query rq) ''missing path'')) (\<lambda>path.
     forward env st (rq\<lparr>rq_uri_scheme := None, rq_uri_authority := None\<rparr>) None)))))"

text \<open>What an accepted CONNECT does with the upgraded stream: terminate TLS here, or copy it to the
  addresses it was connected to.\<close>

datatype tunnel = Intercept string | Pass_Through "socket_addr list"

definition connect :: "proxy_env \<Rightarrow> proxy_state \<Rightarrow> request \<Rightarrow> (egress_world, tunnel) io" where
  "connect env st rq =
     io_bind (io_lift (ok_or (rq_uri_authority rq) ''CONNECT requires an authority'')) (\<lambda>authority.
     io_bind (io_lift (connect_host env st (au_text authority))) (\<lambda>host.
     if host \<in> ps_hosts st then io_return (Intercept host)
     else io_bind (upstream_resolve env host 443) (\<lambda>addresses.
          io_bind (net_call (\<lambda>n. pe_connect env n addresses) (Connect addresses)) (\<lambda>_.
          io_return (Pass_Through addresses)))))"

definition connected_response :: response where
  "connected_response = \<lparr> rs_status = 200, rs_headers = [], rs_body = [] \<rparr>"

definition request_target :: "proxy_env \<Rightarrow> bool \<Rightarrow> request \<Rightarrow> nat + string" where
  "request_target env allow_http rq =
     (if rq_method rq = ''CONNECT'' then
        (case connect_target env rq of Inr host \<Rightarrow> Inr host | Inl _ \<Rightarrow> Inl 400)
      else if \<not> allow_http then Inl 405
      else
        (case rq_uri_authority rq of
           None \<Rightarrow> Inl 400
         | Some authority \<Rightarrow>
             (case canonical_egress_host (au_host authority) of Inr host \<Rightarrow> Inr host | Inl _ \<Rightarrow> Inl 400)))"

definition proxy_request :: "proxy_env \<Rightarrow> authorizer \<Rightarrow> bool \<Rightarrow> request \<Rightarrow> (egress_world, response \<times> tunnel option) io" where
  "proxy_request env authorize allow_http rq =
     (case request_target env allow_http rq of
        Inl status \<Rightarrow> io_return (error_response status, None)
      | Inr host \<Rightarrow>
          (case basic_credentials env (rq_headers rq) of
             Inl _ \<Rightarrow> io_return (error_response 407, None)
           | Inr (username, password) \<Rightarrow>
               (case authorize username password host of
                  Inl _ \<Rightarrow> io_return (error_response 503, None)
                | Inr None \<Rightarrow> io_return (error_response 407, None)
                | Inr (Some st) \<Rightarrow>
                    io_bind (io_try
                      (if rq_method rq = ''CONNECT''
                       then io_bind (connect env st rq) (\<lambda>t. io_return (connected_response, Some t))
                       else io_bind (forward_http env st rq) (\<lambda>r. io_return (r, None)))) (\<lambda>result.
                    (case result of
                       Inr answer \<Rightarrow> io_return answer
                     | Inl _ \<Rightarrow> io_return (error_response 502, None))))))"

text \<open>What the upgraded stream of a CONNECT carries.\<close>

definition run_tunnel :: "proxy_env \<Rightarrow> proxy_state \<Rightarrow> tunnel \<Rightarrow> string option result \<Rightarrow> request list
    \<Rightarrow> (egress_world, connection_outcome) io" where
  "run_tunnel env st t accepted rqs =
     (case t of
        Pass_Through _ \<Rightarrow> io_return (Tunnelled [])
      | Intercept host \<Rightarrow> https_connection env st accepted (Some host) rqs)"

definition proxy_environment :: "binding list \<Rightarrow> string \<Rightarrow> string \<Rightarrow> (string \<rightharpoonup> string)" where
  "proxy_environment bindings proxy_url ca_path =
     (let env = bindings_environment bindings;
          env = foldl (\<lambda>m v. m(v \<mapsto> proxy_url)) env [''HTTP_PROXY'', ''HTTPS_PROXY'', ''http_proxy'', ''https_proxy''];
          env = foldl (\<lambda>m v. m(v \<mapsto> ''localhost,127.0.0.1,::1'')) env [''NO_PROXY'', ''no_proxy''];
          env = env(''NODE_USE_ENV_PROXY'' \<mapsto> ''1'') in
      foldl (\<lambda>m v. m(v \<mapsto> ca_path)) env
        [''SSL_CERT_FILE'', ''CODEX_CA_CERTIFICATE'', ''REQUESTS_CA_BUNDLE'', ''NODE_EXTRA_CA_CERTS'',
         ''CURL_CA_BUNDLE'', ''GIT_SSL_CAINFO''])"

section \<open>Connections stay within the policy\<close>

text \<open>A call made on behalf of a connection belongs to one of the forwarded requests, or opens a tunnel: to
  the external proxy for an allowed host, or to public addresses where networking is unrestricted.\<close>

definition tunnel_call :: "proxy_state \<Rightarrow> egress_call \<Rightarrow> bool" where
  "tunnel_call st c =
     (case c of
        Lookup host port \<Rightarrow> ps_unrestricted st \<and> port_allowed st port
      | Connect addresses \<Rightarrow> ps_unrestricted st \<and> addresses \<noteq> [] \<and> (\<forall>a \<in> set addresses. public_ipv4 (sock_ip a))
      | Connect_External host \<Rightarrow> ps_external st \<noteq> None \<and> host_allowed st host \<and> port_allowed st 443
      | _ \<Rightarrow> False)"

definition connection_call :: "proxy_env \<Rightarrow> proxy_state \<Rightarrow> egress_call \<Rightarrow> bool" where
  "connection_call env st c \<longleftrightarrow> tunnel_call st c \<or> (\<exists>rq sni. request_call env st rq sni c)"

lemma spec_mono_calls: "proxy_spec A P m \<Longrightarrow> (\<And>c. A c \<Longrightarrow> B c) \<Longrightarrow> proxy_spec B P m"
  unfolding proxy_spec_def by (metis list.pred_mono_strong)

lemma serve_request_spec: "proxy_spec (connection_call env st) (\<lambda>_. True) (serve_request env st rq sni)"
proof -
  have "proxy_spec (connection_call env st) (\<lambda>_. True) (forward env st rq sni)"
    by (rule spec_mono_calls [OF forward_spec]) (auto simp: connection_call_def)
  then show ?thesis
    unfolding serve_request_def
    by (intro spec_bind [OF spec_try]) (auto intro: spec_return split: sum.split)
qed

lemma http_connection_spec: "proxy_spec (connection_call env st) (\<lambda>_. True) (http_connection env st sni rqs)"
  by (induction rqs) (auto intro!: spec_return spec_bind [OF serve_request_spec] intro: spec_bind)

lemma https_connection_spec: "proxy_spec (connection_call env st) (\<lambda>_. True) (https_connection env st accepted target rqs)"
  unfolding https_connection_def
  by (intro spec_lift_bind spec_bind [OF http_connection_spec] spec_return TrueI)

lemma tunnel_spec:
  assumes "ps_unrestricted st" and "port_allowed st port"
    and "\<And>as. as \<noteq> [] \<Longrightarrow> \<forall>a \<in> set as. public_ipv4 (sock_ip a) \<Longrightarrow> proxy_spec (connection_call env st) Q (f as)"
  shows "proxy_spec (connection_call env st) Q (io_bind (upstream_resolve env host port) f)"
  using assms by (intro spec_bind [OF upstream_spec]) (auto simp: connection_call_def tunnel_call_def)

lemma open_tunnel_spec:
  assumes "ps_unrestricted st" and "as \<noteq> []" and "\<forall>a \<in> set as. public_ipv4 (sock_ip a)"
  shows "proxy_spec (connection_call env st) (\<lambda>_. True) (net_call (\<lambda>n. pe_connect env n as) (Connect as))"
  using assms by (intro spec_call) (auto simp: connection_call_def tunnel_call_def)

lemma spec_then: "proxy_spec A (\<lambda>_. True) m \<Longrightarrow> proxy_spec A (\<lambda>_. True) (io_bind m (\<lambda>_. io_return x))"
  by (erule spec_bind) (rule spec_return, simp)

lemma transparent_https_spec:
  "proxy_spec (connection_call env st) (\<lambda>_. True)
     (transparent_https_connection env st (ps_external st = None) acceptor chunks accepted rqs)"
  unfolding transparent_https_connection_def
proof (rule spec_lift_bind)
  fix u
  assume "check_port st 443 = Inr u"
  then have port: "port_allowed st 443"
    by (simp add: check_port_def ensure_Inr_iff)
  have ext: "connection_call env st (Connect_External host)" if "host_allowed st host" "ps_external st \<noteq> None" for host
    using that port by (auto simp: connection_call_def tunnel_call_def)
  show "proxy_spec (connection_call env st) (\<lambda>_. True)
     (if \<not> ps_unrestricted st \<and> ps_external st = None then https_connection env st accepted None rqs
      else io_bind (io_lift (read_client_hello acceptor [] chunks)) (\<lambda>(host, prefix).
       io_bind (io_lift (ensure (host_allowed st host) ''host is not allowed'')) (\<lambda>_.
       if host \<in> ps_hosts st \<and> ps_external st = None then https_connection env st accepted (Some host) rqs
       else io_bind (case ps_external st of
             Some _ \<Rightarrow> net_call (\<lambda>n. pe_connect_external env n host) (Connect_External host)
           | None \<Rightarrow> io_bind (upstream_resolve env host 443) (\<lambda>addresses.
               net_call (\<lambda>n. pe_connect env n addresses) (Connect addresses))) (\<lambda>_.
         io_return (Tunnelled prefix)))))"
    by (cases "ps_external st")
      (auto intro!: https_connection_spec spec_lift_bind_pair spec_ensure spec_then tunnel_spec [OF _ port]
        open_tunnel_spec spec_call [of "connection_call env st", OF ext])
qed

text \<open>C23: Whatever connection a sandbox opens, the proxy acts for it only within the policy: requests are
  forwarded as the policy allows, opaque tunnels and address lookups for them happen only where
  networking is unrestricted and only reach public addresses, and the external proxy is asked only for
  allowed hosts.\<close>

theorem connection_stays_within_policy:
  assumes "clients_ok w" and "serve_connection env st incoming w = (r, w')"
  shows "clients_ok w' \<and> (\<exists>calls. ew_trace w' = ew_trace w @ calls \<and> list_all (connection_call env st) calls)"
proof -
  have "proxy_spec (connection_call env st) (\<lambda>_. True) (serve_connection env st incoming)"
  proof (cases incoming)
    case (Http rqs)
    then show ?thesis
      by (auto simp: serve_connection_def intro: spec_bind [OF http_connection_spec] spec_return)
  next
    case (Https acceptor chunks accepted rqs)
    then show ?thesis
      by (simp add: serve_connection_def transparent_https_spec)
  next
    case (Tcp addr)
    have "proxy_spec (connection_call env st) (\<lambda>_. True) (connect_tcp env st addr)"
      unfolding connect_tcp_def check_port_def by (intro spec_ensure tunnel_spec open_tunnel_spec)
    with Tcp show ?thesis
      by (auto simp: serve_connection_def intro: spec_bind spec_return)
  qed
  with assms show ?thesis
    unfolding proxy_spec_def by blast
qed

lemma connect_host_facts:
  assumes "connect_host env st s = Inr host"
  shows "host_allowed st host" and "port_allowed st 443"
  using assms by (auto simp: connect_host_def check_port_def result_simps)

definition tunnel_ok :: "proxy_state \<Rightarrow> tunnel \<Rightarrow> bool" where
  "tunnel_ok st t =
     (case t of
        Intercept host \<Rightarrow> host \<in> ps_hosts st
      | Pass_Through addresses \<Rightarrow> ps_unrestricted st \<and> (\<forall>a \<in> set addresses. public_ipv4 (sock_ip a)))"

lemma connect_spec: "proxy_spec (connection_call env st) (tunnel_ok st) (connect env st rq)"
  unfolding connect_def
proof (rule spec_lift_bind, rule spec_lift_bind)
  fix authority host
  assume "connect_host env st (au_text authority) = Inr host"
  note facts = connect_host_facts [OF this]
  have "proxy_spec (connection_call env st) (tunnel_ok st)
     (io_bind (upstream_resolve env host 443) (\<lambda>addresses.
      io_bind (net_call (\<lambda>n. pe_connect env n addresses) (Connect addresses)) (\<lambda>_. io_return (Pass_Through addresses))))"
    if "host \<notin> ps_hosts st"
    using that facts
    by (intro tunnel_spec spec_bind [OF open_tunnel_spec] spec_return) (auto simp: host_allowed_def tunnel_ok_def)
  then show "proxy_spec (connection_call env st) (tunnel_ok st)
     (if host \<in> ps_hosts st then io_return (Intercept host)
      else io_bind (upstream_resolve env host 443) (\<lambda>addresses.
        io_bind (net_call (\<lambda>n. pe_connect env n addresses) (Connect addresses)) (\<lambda>_. io_return (Pass_Through addresses))))"
    by (auto intro: spec_return simp: tunnel_ok_def)
qed

lemma forward_http_spec: "proxy_spec (connection_call env st) (\<lambda>_. True) (forward_http env st rq)"
proof -
  have "proxy_spec (connection_call env st) (\<lambda>_. True) (forward env st rq' None)" for rq'
    by (rule spec_mono_calls [OF forward_spec]) (auto simp: connection_call_def)
  then show ?thesis
    unfolding forward_http_def by (intro spec_lift_bind)
qed

lemma session_spec:
  "proxy_spec (connection_call env st) (\<lambda>(r, t). \<forall>x. t = Some x \<longrightarrow> tunnel_ok st x)
     (io_bind (io_try
        (if rq_method rq = ''CONNECT''
         then io_bind (connect env st rq) (\<lambda>t. io_return (connected_response, Some t))
         else io_bind (forward_http env st rq) (\<lambda>r. io_return (r, None)))) (\<lambda>result.
      (case result of Inr answer \<Rightarrow> io_return answer | Inl _ \<Rightarrow> io_return (error_response 502, None))))"
proof (rule spec_bind [OF spec_try])
  let ?P = "\<lambda>(r, t). \<forall>x. t = Some x \<longrightarrow> tunnel_ok st x"
  show "proxy_spec (connection_call env st) ?P
     (if rq_method rq = ''CONNECT''
      then io_bind (connect env st rq) (\<lambda>t. io_return (connected_response, Some t))
      else io_bind (forward_http env st rq) (\<lambda>r. io_return (r, None)))"
    by (auto intro!: spec_bind [OF connect_spec] spec_bind [OF forward_http_spec] spec_return)
qed (auto intro!: spec_return split: sum.split)

text \<open>C24: The authenticated proxy does nothing for a request unless its Basic credentials were accepted for
  the host it names, and then acts only within the policy of the session they select; a tunnel it opens
  either ends at the credential proxy or, under unrestricted networking, at public addresses.\<close>

theorem proxy_acts_only_for_authorized_session:
  assumes "clients_ok w" and "proxy_request env authorize allow_http rq w = (Inr (r, t), w')"
  shows "(w' = w \<and> t = None \<and> rs_status r \<in> {400, 405, 407, 503})
    \<or> (\<exists>username password host st calls. request_target env allow_http rq = Inr host
         \<and> basic_credentials env (rq_headers rq) = Inr (username, password)
         \<and> authorize username password host = Inr (Some st)
         \<and> ew_trace w' = ew_trace w @ calls \<and> list_all (connection_call env st) calls
         \<and> clients_ok w' \<and> (\<forall>x. t = Some x \<longrightarrow> tunnel_ok st x))"
proof (cases "\<exists>host username password st. request_target env allow_http rq = Inr host
    \<and> basic_credentials env (rq_headers rq) = Inr (username, password) \<and> authorize username password host = Inr (Some st)")
  case True
  then obtain host username password st where a: "request_target env allow_http rq = Inr host"
    "basic_credentials env (rq_headers rq) = Inr (username, password)" "authorize username password host = Inr (Some st)"
    by blast
  have "\<exists>calls. ew_trace w' = ew_trace w @ calls \<and> list_all (connection_call env st) calls"
    "clients_ok w'" "\<forall>x. t = Some x \<longrightarrow> tunnel_ok st x"
    using session_spec [of env st rq] assms by (auto simp: proxy_request_def a proxy_spec_def)
  with a show ?thesis
    by blast
next
  case False
  have status: "s \<in> {400, 405}" if "request_target env allow_http rq = Inl s" for s
    using that by (auto simp: request_target_def split: if_splits sum.splits option.splits)
  show ?thesis
    using assms(2) False status
    by (auto simp: proxy_request_def io_return_def error_response_def split: sum.splits prod.splits option.splits)
qed

section \<open>Sample connections\<close>

definition open_state :: proxy_state where
  "open_state = sample_state\<lparr> ps_unrestricted := True \<rparr>"

theorem connection_stays_within_policy_witness:
  "tunnel_call open_state (Connect [SocketV4 0x08080808 443])
   \<and> Connect [SocketV4 0x08080808 443]
       \<in> set (ew_trace (snd (serve_connection sample_proxy open_state (Tcp (SocketV4 0x08080808 443)) idle_world)))"
proof -
  let ?run = "serve_connection sample_proxy open_state (Tcp (SocketV4 0x08080808 443)) idle_world"
  have trace: "Connect [SocketV4 0x08080808 443] \<in> set (ew_trace (snd ?run))"
    using sample_public
    by (simp add: serve_connection_def connect_tcp_def open_state_def sample_state_def check_port_def port_allowed_def
        upstream_resolve_def net_call_def io_simps idle_world_def sample_proxy_def Let_def)
  have "clients_ok idle_world"
    by (simp add: clients_ok_def idle_world_def)
  from connection_stays_within_policy [OF this surjective_pairing, of sample_proxy open_state "Tcp (SocketV4 0x08080808 443)"]
  have "list_all (connection_call sample_proxy open_state) (ew_trace (snd ?run))"
    by (auto simp: idle_world_def)
  with trace show ?thesis
    by (fastforce simp: list_all_iff connection_call_def)
qed

definition login_proxy :: proxy_env where
  "login_proxy = sample_proxy\<lparr> pe_header := sample_headers\<lparr> he_base64_decode := (\<lambda>_. Some ''exo:pw'') \<rparr>,
     pe_authority := (\<lambda>s. Inr \<lparr> au_text = s, au_host = ''api.example'', au_port = Some 443 \<rparr>) \<rparr>"

definition connect_request :: request where
  "connect_request = \<lparr> rq_method = ''CONNECT'', rq_uri_scheme = None,
     rq_uri_authority = Some \<lparr> au_text = ''api.example:443'', au_host = ''api.example'', au_port = Some 443 \<rparr>,
     rq_path_and_query = None,
     rq_headers = [(''host'', ''api.example:443''), (''proxy-authorization'', ''Basic x'')],
     rq_body = Inr (Inr []) \<rparr>"

lemma connect_request_run:
  "proxy_request login_proxy (fixed_authorize ''pw'' sample_state) False connect_request idle_world =
     (Inr (connected_response, Some (Intercept ''api.example'')), idle_world)"
proof -
  have words: "split_whitespace ''Basic x'' = [''Basic'', ''x'']" and "eq_ignore_ascii_case ''Basic'' ''Basic''"
    and utf: "from_utf8 ''exo:pw'' = Some ''exo:pw''" and "list_all ascii_graphic ''exo''" "list_all ascii_graphic ''pw''"
    by code_simp+
  then have "basic_credentials login_proxy (rq_headers connect_request) = Inr (''exo'', ''pw'')"
    by (simp add: basic_credentials_def connect_request_def get_all_def first_header_def header_text_def login_proxy_def
        sample_proxy_def sample_headers_def MAX_PROXY_PASSWORD_BYTES_def)
  moreover have "request_target login_proxy False connect_request = Inr ''api.example''"
    by (simp add: request_target_def connect_target_def connect_request_def get_all_def first_header_def header_text_def
        parse_authority_def login_proxy_def sample_proxy_def sample_headers_def sample_canonical)
  ultimately show ?thesis
    by (simp add: proxy_request_def fixed_authorize_def)
      (simp add: connect_def connect_host_def connect_request_def check_port_def port_allowed_def
        parse_authority_def login_proxy_def sample_proxy_def sample_state_def sample_canonical host_allowed_def io_simps)
qed

theorem proxy_acts_only_for_authorized_session_witness: "tunnel_ok sample_state (Intercept ''api.example'')"
proof -
  have "clients_ok idle_world"
    by (simp add: clients_ok_def idle_world_def)
  from proxy_acts_only_for_authorized_session [OF this connect_request_run] show ?thesis
    by (auto simp: fixed_authorize_def split: if_splits)
qed

end
