(* ===== verification/Egress_Runtime.thy ===== *)
theory Egress_Runtime
  imports Egress_Proxy
begin

text \<open>
  Acquisition of sandboxes that need a proxy: \<open>EgressRuntime\<close> of \<open>exoharness/src/egress/sandbox.rs\<close>. Each
  acquisition or termination is a state machine that advances from one \<open>await\<close> to the next; between them
  other operations, cancellation of a caller and shutdown may run. A per-sandbox lock serializes the
  operations on one sandbox. Proxies are numbered; a live proxy is one whose transport has not been
  closed. Whether a virtual machine runs, is built or terminated is the answer of the backend.
\<close>

section \<open>Data\<close>

text \<open>Only the policy of a sandbox specification matters here; the other fields are compared for equality.\<close>

record 'x sandbox_request =
  sr_sandbox_id :: string
  sr_scope :: resource_scope
  sr_policy :: egress_policy
  sr_spec :: 'x
  sr_idle_ttl :: "u64 option"

record 'x cached_sandbox =
  cs_external_proxy :: "external_proxy option"
  cs_request :: "'x sandbox_request"
  cs_handle :: "nat option"
  cs_egress :: nat

text \<open>Where an operation stands: before its lock, at an \<open>await\<close>, about to take the map's mutex, or done.\<close>

datatype phase =
  Waiting
| Locked
| Probing bool nat
| Removing
| Removed
| Building_Plain
| Starting
| Created nat
| Building nat
| Built nat nat
| Cleaning error
| Cleaning_Vm error
| Terminating
| Finished "nat option result"

datatype 'x operation = Acquire "'x sandbox_request" "external_proxy option" | Terminate string

fun op_id :: "'x operation \<Rightarrow> string" where
  "op_id (Acquire rq ext) = sr_sandbox_id rq"
| "op_id (Terminate sandbox) = sandbox"

record 'x runtime =
  er_sandboxes :: "string \<rightharpoonup> 'x cached_sandbox"
  er_locks :: "string \<rightharpoonup> nat"
  er_ops :: "nat \<rightharpoonup> 'x operation \<times> phase"
  er_closed :: bool
  er_drained :: bool
  er_live :: "nat set"
  er_next :: nat

definition new_runtime :: "'x runtime" where
  "new_runtime = \<lparr> er_sandboxes = Map.empty, er_locks = Map.empty, er_ops = Map.empty, er_closed = False,
     er_drained = False, er_live = {}, er_next = 0 \<rparr>"

text \<open>What an awaited call answers: whether a handle is running, a handle that was built, or an outcome
  without a value.\<close>

datatype answer = Running "bool option result" | Handle "nat result" | Outcome "unit result"

section \<open>Operations\<close>

definition shut_down_error :: string where
  "shut_down_error = ''sandbox egress runtime is shut down''"

definition proxy_is_open :: "'x runtime \<Rightarrow> nat \<Rightarrow> bool" where
  "proxy_is_open st e \<longleftrightarrow> e \<in> er_live st \<and> \<not> er_closed st"

text \<open>\<open>remove\<close>: take the entry, close its proxy, then wait for the proxy to shut down.\<close>

definition remove_sandbox :: "string \<Rightarrow> 'x runtime \<Rightarrow> phase \<times> 'x runtime" where
  "remove_sandbox sandbox st =
     (case er_sandboxes st sandbox of
        None \<Rightarrow> (Removed, st)
      | Some cached \<Rightarrow>
          (Removing, st\<lparr>er_sandboxes := (er_sandboxes st)(sandbox := None), er_live := er_live st - {cs_egress cached}\<rparr>))"

definition cached_unchanged :: "'x cached_sandbox \<Rightarrow> 'x sandbox_request \<Rightarrow> external_proxy option \<Rightarrow> bool" where
  "cached_unchanged cached rq ext \<longleftrightarrow>
     sr_spec (cs_request cached) = sr_spec rq \<and> sr_policy (cs_request cached) = sr_policy rq
     \<and> sr_scope (cs_request cached) = sr_scope rq \<and> cs_external_proxy cached = ext"

definition check_cached :: "'x sandbox_request \<Rightarrow> external_proxy option \<Rightarrow> 'x runtime \<Rightarrow> phase \<times> 'x runtime" where
  "check_cached rq ext st =
     (case er_sandboxes st (sr_sandbox_id rq) of
        None \<Rightarrow> (Removed, st)
      | Some cached \<Rightarrow>
          (case cs_handle cached of
             None \<Rightarrow> remove_sandbox (sr_sandbox_id rq) st
           | Some handle \<Rightarrow>
               if proxy_is_open st (cs_egress cached) then (Probing (cached_unchanged cached rq ext) handle, st)
               else remove_sandbox (sr_sandbox_id rq) st))"

definition request_identity :: "'x sandbox_request \<Rightarrow> egress_identity" where
  "request_identity rq = \<lparr> ei_sandbox_id = sr_sandbox_id rq, ei_scope = sr_scope rq \<rparr>"

definition start_proxy :: "proxy_env \<Rightarrow> bool \<Rightarrow> 'x sandbox_request \<Rightarrow> external_proxy option \<Rightarrow> 'x runtime \<Rightarrow> phase" where
  "start_proxy env has_resolver rq ext st =
     (if \<not> requires_proxy (sr_policy rq) then Building_Plain
      else if er_closed st then Finished (bail shut_down_error)
      else if sr_idle_ttl rq = None then Finished (bail ''proxy egress requires a managed sandbox lifecycle'')
      else
        (case new_with_placeholders env (request_identity rq) (sr_policy rq) (if ext = None then has_resolver else False) None ext of
           Inl e \<Rightarrow> Finished (Inl e)
         | Inr _ \<Rightarrow> Starting))"

definition register :: "'x sandbox_request \<Rightarrow> external_proxy option \<Rightarrow> nat \<Rightarrow> 'x runtime \<Rightarrow> phase \<times> 'x runtime" where
  "register rq ext e st =
     (if er_closed st then (Finished (bail shut_down_error), st\<lparr>er_live := er_live st - {e}\<rparr>)
      else (Building e, st\<lparr>er_sandboxes := (er_sandboxes st)(sr_sandbox_id rq \<mapsto>
        \<lparr> cs_external_proxy = ext, cs_request = rq, cs_handle = None, cs_egress = e \<rparr>)\<rparr>))"

definition fail_acquire :: "string \<Rightarrow> nat \<Rightarrow> error \<Rightarrow> 'x runtime \<Rightarrow> phase \<times> 'x runtime" where
  "fail_acquire sandbox e err st =
     (Cleaning err, st\<lparr>er_sandboxes := (er_sandboxes st)(sandbox := None), er_live := er_live st - {e}\<rparr>)"

definition complete_acquire :: "string \<Rightarrow> nat \<Rightarrow> nat \<Rightarrow> 'x runtime \<Rightarrow> phase \<times> 'x runtime" where
  "complete_acquire sandbox e handle st =
     (if er_closed st then fail_acquire sandbox e (Error shut_down_error) st
      else
        (case er_sandboxes st sandbox of
           None \<Rightarrow> (Finished (panic ''acquiring sandbox remains registered''), st)
         | Some cached \<Rightarrow>
             (Finished (Ok (Some handle)),
              st\<lparr>er_sandboxes := (er_sandboxes st)(sandbox \<mapsto> cached\<lparr>cs_handle := Some handle\<rparr>)\<rparr>)))"

text \<open>One stretch of an acquisition between two awaits.\<close>

fun acquire_step :: "proxy_env \<Rightarrow> bool \<Rightarrow> 'x sandbox_request \<Rightarrow> external_proxy option \<Rightarrow> phase \<Rightarrow> answer \<Rightarrow> 'x runtime
    \<Rightarrow> (phase \<times> 'x runtime) option" where
  "acquire_step env hr rq ext Locked a st = Some (check_cached rq ext st)"
| "acquire_step env hr rq ext (Probing unchanged handle) (Running r) st =
     (case r of
        Inl e \<Rightarrow> Some (Finished (Inl e), st)
      | Inr running \<Rightarrow>
          if running = Some True then
            Some (Finished (and_then (ensure unchanged ''stop the protected sandbox before changing its configuration'')
              (\<lambda>_. Ok (Some handle))), st)
          else Some (remove_sandbox (sr_sandbox_id rq) st))"
| "acquire_step env hr rq ext Removing (Outcome r) st =
     (case r of Inl e \<Rightarrow> Some (Finished (Inl e), st) | Inr _ \<Rightarrow> Some (Removed, st))"
| "acquire_step env hr rq ext Removed a st = Some (start_proxy env hr rq ext st, st)"
| "acquire_step env hr rq ext Building_Plain (Handle r) st =
     Some (Finished (and_then r (\<lambda>h. Ok (Some h))), st)"
| "acquire_step env hr rq ext Starting (Outcome r) st =
     (case r of
        Inl e \<Rightarrow> Some (Finished (Inl e), st)
      | Inr _ \<Rightarrow> Some (Created (er_next st), st\<lparr>er_live := insert (er_next st) (er_live st), er_next := Suc (er_next st)\<rparr>))"
| "acquire_step env hr rq ext (Created e) a st = Some (register rq ext e st)"
| "acquire_step env hr rq ext (Building e) (Handle r) st =
     (case r of
        Inl err \<Rightarrow> Some (fail_acquire (sr_sandbox_id rq) e err st)
      | Inr handle \<Rightarrow> Some (Built e handle, st))"
| "acquire_step env hr rq ext (Built e handle) a st = Some (complete_acquire (sr_sandbox_id rq) e handle st)"
| "acquire_step env hr rq ext (Cleaning err) (Outcome r) st = Some (Cleaning_Vm err, st)"
| "acquire_step env hr rq ext (Cleaning_Vm err) (Outcome r) st = Some (Finished (Inl err), st)"
| "acquire_step env hr rq ext _ _ st = None"

fun terminate_step :: "string \<Rightarrow> phase \<Rightarrow> answer \<Rightarrow> 'x runtime \<Rightarrow> (phase \<times> 'x runtime) option" where
  "terminate_step sandbox Locked a st = Some (remove_sandbox sandbox st)"
| "terminate_step sandbox Removing (Outcome r) st =
     (case r of Inl e \<Rightarrow> Some (Finished (Inl e), st) | Inr _ \<Rightarrow> Some (Removed, st))"
| "terminate_step sandbox Removed a st = Some (Terminating, st)"
| "terminate_step sandbox Terminating (Outcome r) st = Some (Finished (and_then r (\<lambda>_. Ok None)), st)"
| "terminate_step sandbox _ _ st = None"

definition op_step :: "proxy_env \<Rightarrow> bool \<Rightarrow> 'x operation \<Rightarrow> phase \<Rightarrow> answer \<Rightarrow> 'x runtime \<Rightarrow> (phase \<times> 'x runtime) option" where
  "op_step env hr opn ph a st =
     (case opn of
        Acquire rq ext \<Rightarrow> acquire_step env hr rq ext ph a st
      | Terminate sandbox \<Rightarrow> terminate_step sandbox ph a st)"

fun finished :: "phase \<Rightarrow> bool" where
  "finished (Finished r) \<longleftrightarrow> True"
| "finished _ \<longleftrightarrow> False"

fun holds_lock :: "phase \<Rightarrow> bool" where
  "holds_lock Waiting \<longleftrightarrow> False"
| "holds_lock (Finished r) \<longleftrightarrow> False"
| "holds_lock _ \<longleftrightarrow> True"

section \<open>Steps\<close>

definition begin_op :: "nat \<Rightarrow> 'x operation \<Rightarrow> 'x runtime \<Rightarrow> 'x runtime" where
  "begin_op n opn st = st\<lparr>er_ops := (er_ops st)(n \<mapsto> (opn, Waiting))\<rparr>"

definition take_lock :: "nat \<Rightarrow> 'x operation \<Rightarrow> 'x runtime \<Rightarrow> 'x runtime" where
  "take_lock n opn st =
     st\<lparr>er_locks := (er_locks st)(op_id opn \<mapsto> n), er_ops := (er_ops st)(n \<mapsto> (opn, Locked))\<rparr>"

text \<open>The guard of a finished operation is dropped with it.\<close>

definition set_phase :: "nat \<Rightarrow> 'x operation \<Rightarrow> phase \<Rightarrow> 'x runtime \<Rightarrow> 'x runtime" where
  "set_phase n opn ph st =
     st\<lparr>er_ops := (er_ops st)(n \<mapsto> (opn, ph)),
        er_locks := (if finished ph then (er_locks st)(op_id opn := None) else er_locks st)\<rparr>"

text \<open>Dropping the future of an operation drops its guard and, before registration, its proxy.\<close>

definition drop_op :: "nat \<Rightarrow> 'x operation \<Rightarrow> phase \<Rightarrow> 'x runtime \<Rightarrow> 'x runtime" where
  "drop_op n opn ph st =
     st\<lparr>er_ops := (er_ops st)(n := None),
        er_locks := (if holds_lock ph then (er_locks st)(op_id opn := None) else er_locks st),
        er_live := (case ph of Created e \<Rightarrow> er_live st - {e} | _ \<Rightarrow> er_live st)\<rparr>"

text \<open>\<open>shutdown\<close> cancels the token and then, under the mutex, takes the map and closes its proxies.\<close>

definition cancel_runtime :: "'x runtime \<Rightarrow> 'x runtime" where
  "cancel_runtime st = st\<lparr>er_closed := True\<rparr>"

definition drain_runtime :: "'x runtime \<Rightarrow> 'x runtime" where
  "drain_runtime st =
     st\<lparr>er_sandboxes := Map.empty, er_live := er_live st - cs_egress ` ran (er_sandboxes st), er_drained := True\<rparr>"

inductive er_step :: "proxy_env \<Rightarrow> bool \<Rightarrow> 'x runtime \<Rightarrow> 'x runtime \<Rightarrow> bool" for env hr where
  Begin: "er_ops st n = None \<Longrightarrow> er_step env hr st (begin_op n opn st)"
| Lock: "er_ops st n = Some (opn, Waiting) \<Longrightarrow> er_locks st (op_id opn) = None \<Longrightarrow> er_step env hr st (take_lock n opn st)"
| Advance: "er_ops st n = Some (opn, ph) \<Longrightarrow> op_step env hr opn ph a st = Some (ph', st') \<Longrightarrow>
    er_step env hr st (set_phase n opn ph' st')"
| Drop: "er_ops st n = Some (opn, ph) \<Longrightarrow> er_step env hr st (drop_op n opn ph st)"
| Cancel: "er_step env hr st (cancel_runtime st)"
| Drain: "er_closed st \<Longrightarrow> er_step env hr st (drain_runtime st)"

inductive er_reachable :: "proxy_env \<Rightarrow> bool \<Rightarrow> 'x runtime \<Rightarrow> bool" for env hr where
  init: "er_reachable env hr new_runtime"
| step: "er_reachable env hr st \<Longrightarrow> er_step env hr st st' \<Longrightarrow> er_reachable env hr st'"

inductive_cases er_stepE: "er_step env hr st st'"

section \<open>Invariant\<close>

text \<open>Phases in which the sandbox has no entry, and phases in which the entry is this acquisition's own.\<close>

fun vacant :: "phase \<Rightarrow> bool" where
  "vacant Removing \<longleftrightarrow> True"
| "vacant Removed \<longleftrightarrow> True"
| "vacant Building_Plain \<longleftrightarrow> True"
| "vacant Starting \<longleftrightarrow> True"
| "vacant (Created e) \<longleftrightarrow> True"
| "vacant (Cleaning err) \<longleftrightarrow> True"
| "vacant (Cleaning_Vm err) \<longleftrightarrow> True"
| "vacant Terminating \<longleftrightarrow> True"
| "vacant _ \<longleftrightarrow> False"

fun building :: "phase \<Rightarrow> nat option" where
  "building (Building e) = Some e"
| "building (Built e handle) = Some e"
| "building _ = None"

definition phase_ok :: "'x runtime \<Rightarrow> string \<Rightarrow> phase \<Rightarrow> bool" where
  "phase_ok st sandbox ph \<longleftrightarrow>
     (vacant ph \<longrightarrow> er_sandboxes st sandbox = None)
     \<and> (\<forall>e. building ph = Some e \<longrightarrow>
          (case er_sandboxes st sandbox of None \<Rightarrow> er_closed st | Some c \<Rightarrow> cs_egress c = e))"

definition er_inv :: "'x runtime \<Rightarrow> bool" where
  "er_inv st \<longleftrightarrow>
     (\<forall>n opn ph. er_ops st n = Some (opn, ph) \<longrightarrow>
        (holds_lock ph \<longrightarrow> er_locks st (op_id opn) = Some n) \<and> phase_ok st (op_id opn) ph)
     \<and> (\<forall>e \<in> er_live st. (\<exists>sandbox c. er_sandboxes st sandbox = Some c \<and> cs_egress c = e)
          \<or> (\<exists>n opn. er_ops st n = Some (opn, Created e)))
     \<and> (er_drained st \<longrightarrow> er_closed st \<and> er_sandboxes st = Map.empty)"

lemma phase_ok_lock: "holds_lock ph \<or> phase_ok st sandbox ph"
  by (cases ph) (auto simp: phase_ok_def)

lemma phase_ok_cong: "er_sandboxes st' sandbox = er_sandboxes st sandbox \<Longrightarrow> er_closed st' = er_closed st \<Longrightarrow>
    phase_ok st' sandbox ph = phase_ok st sandbox ph"
  by (auto simp: phase_ok_def split: option.splits)

lemmas acquire_defs = check_cached_def remove_sandbox_def register_def fail_acquire_def complete_acquire_def

text \<open>A stretch of an operation touches only its own entry, and accounts for every proxy it leaves live.\<close>

definition accounts :: "'x runtime \<Rightarrow> string \<Rightarrow> phase \<Rightarrow> phase \<Rightarrow> 'x runtime \<Rightarrow> nat \<Rightarrow> bool" where
  "accounts st sandbox ph ph' st' e \<longleftrightarrow>
     ph' = Created e \<or> (\<exists>c. er_sandboxes st' sandbox = Some c \<and> cs_egress c = e)
     \<or> (e \<in> er_live st \<and> ph \<noteq> Created e \<and> (\<forall>c. er_sandboxes st sandbox = Some c \<longrightarrow> cs_egress c \<noteq> e))"

definition op_frame :: "'x runtime \<Rightarrow> string \<Rightarrow> phase \<Rightarrow> phase \<Rightarrow> 'x runtime \<Rightarrow> bool" where
  "op_frame st sandbox ph ph' st' \<longleftrightarrow>
     er_ops st' = er_ops st \<and> er_locks st' = er_locks st \<and> er_closed st' = er_closed st \<and> er_drained st' = er_drained st
     \<and> (\<forall>other. other \<noteq> sandbox \<longrightarrow> er_sandboxes st' other = er_sandboxes st other)
     \<and> (er_closed st \<longrightarrow> er_sandboxes st sandbox = None \<longrightarrow> er_sandboxes st' sandbox = None)
     \<and> holds_lock ph \<and> (holds_lock ph' \<or> finished ph') \<and> phase_ok st' sandbox ph'
     \<and> (\<forall>e \<in> er_live st'. accounts st sandbox ph ph' st' e)"

lemmas frame_defs = op_frame_def accounts_def phase_ok_def

lemma check_frame:
  "check_cached rq ext st = (ph', st') \<Longrightarrow> op_frame st (sr_sandbox_id rq) Locked ph' st'"
  by (auto simp: check_cached_def remove_sandbox_def frame_defs split: option.splits if_splits)

lemma acquire_frame:
  assumes "acquire_step env hr rq ext ph a st = Some (ph', st')" and "phase_ok st (sr_sandbox_id rq) ph"
  shows "op_frame st (sr_sandbox_id rq) ph ph' st'"
  using assms
proof (induction env hr rq ext ph a st rule: acquire_step.induct)
  case (1 env hr rq ext a st)
  then show ?case
    by (auto intro: check_frame)
next
  case (2 env hr rq ext unchanged handle r st)
  then show ?case
    by (auto simp: remove_sandbox_def frame_defs split: sum.splits if_splits option.splits)
next
  case (4 env hr rq ext a st)
  then show ?case
    by (auto simp: start_proxy_def frame_defs split: if_splits sum.splits)
next
  case (7 env hr rq ext e a st)
  then show ?case
    by (auto simp: register_def frame_defs split: if_splits)
next
  case (8 env hr rq ext e r st)
  then show ?case
    by (auto simp: fail_acquire_def frame_defs split: sum.splits option.splits)
next
  case (9 env hr rq ext e handle a st)
  then show ?case
    by (auto simp: complete_acquire_def fail_acquire_def frame_defs split: if_splits option.splits)
qed (auto simp: frame_defs split: sum.splits)

lemma terminate_frame:
  assumes "terminate_step sandbox ph a st = Some (ph', st')" and "phase_ok st sandbox ph"
  shows "op_frame st sandbox ph ph' st'"
  using assms
  by (induction sandbox ph a st rule: terminate_step.induct)
    (auto simp: remove_sandbox_def frame_defs split: sum.splits option.splits)

lemma op_step_frame:
  assumes "op_step env hr opn ph a st = Some (ph', st')" and "phase_ok st (op_id opn) ph"
  shows "op_frame st (op_id opn) ph ph' st'"
  using assms acquire_frame terminate_frame by (cases opn) (auto simp: op_step_def)

lemma set_phase_fields [simp]:
  "er_ops (set_phase n opn ph st) = (er_ops st)(n \<mapsto> (opn, ph))"
  "er_locks (set_phase n opn ph st) = (if finished ph then (er_locks st)(op_id opn := None) else er_locks st)"
  "er_sandboxes (set_phase n opn ph st) = er_sandboxes st" "er_live (set_phase n opn ph st) = er_live st"
  "er_closed (set_phase n opn ph st) = er_closed st" "er_drained (set_phase n opn ph st) = er_drained st"
  by (simp_all add: set_phase_def)

lemma phase_ok_set_phase [simp]: "phase_ok (set_phase n opn ph st) sandbox ph2 = phase_ok st sandbox ph2"
  by (rule phase_ok_cong) simp_all

definition proxy_owned :: "'x runtime \<Rightarrow> nat \<Rightarrow> bool" where
  "proxy_owned st e \<longleftrightarrow>
     (\<exists>sandbox c. er_sandboxes st sandbox = Some c \<and> cs_egress c = e) \<or> (\<exists>n opn. er_ops st n = Some (opn, Created e))"

definition op_ok :: "'x runtime \<Rightarrow> nat \<Rightarrow> 'x operation \<Rightarrow> phase \<Rightarrow> bool" where
  "op_ok st n opn ph \<longleftrightarrow> (holds_lock ph \<longrightarrow> er_locks st (op_id opn) = Some n) \<and> phase_ok st (op_id opn) ph"

lemma er_inv_alt:
  "er_inv st \<longleftrightarrow>
     (\<forall>n opn ph. er_ops st n = Some (opn, ph) \<longrightarrow> op_ok st n opn ph) \<and> (\<forall>e \<in> er_live st. proxy_owned st e)
     \<and> (er_drained st \<longrightarrow> er_closed st \<and> er_sandboxes st = Map.empty)"
  by (auto simp: er_inv_def op_ok_def proxy_owned_def)

lemma er_invD:
  assumes "er_inv st"
  shows "er_ops st n = Some (opn, ph) \<Longrightarrow> op_ok st n opn ph" and "e \<in> er_live st \<Longrightarrow> proxy_owned st e"
    and "er_drained st \<Longrightarrow> er_closed st" and "er_drained st \<Longrightarrow> er_sandboxes st i = None"
  using assms unfolding er_inv_alt by auto

lemma er_invI:
  assumes "\<And>n opn ph. er_ops st n = Some (opn, ph) \<Longrightarrow> op_ok st n opn ph" and "\<And>e. e \<in> er_live st \<Longrightarrow> proxy_owned st e"
    and "er_drained st \<Longrightarrow> er_closed st" and "\<And>i. er_drained st \<Longrightarrow> er_sandboxes st i = None"
  shows "er_inv st"
  using assms unfolding er_inv_alt by (auto simp: fun_eq_iff)

text \<open>An operation other than the one that moved keeps its standing, because it holds another lock.\<close>

lemma other_op_ok:
  assumes ok: "op_ok st m opn2 ph2" and lock: "er_locks st (op_id opn) = Some n" and "m \<noteq> n"
    and f: "op_frame st (op_id opn) ph ph' st'"
  shows "op_ok (set_phase n opn ph' st') m opn2 ph2"
proof (cases "holds_lock ph2")
  case True
  then have "op_id opn2 \<noteq> op_id opn"
    using ok lock \<open>m \<noteq> n\<close> by (auto simp: op_ok_def)
  then have "phase_ok st' (op_id opn2) ph2 = phase_ok st (op_id opn2) ph2"
    using f by (intro phase_ok_cong) (simp_all add: op_frame_def)
  then show ?thesis
    using ok f \<open>op_id opn2 \<noteq> op_id opn\<close> by (auto simp: op_ok_def op_frame_def)
next
  case False
  then show ?thesis
    using phase_ok_lock [of ph2] by (auto simp: op_ok_def)
qed

lemma live_owned:
  assumes n: "er_ops st n = Some (opn, ph)" and f: "op_frame st (op_id opn) ph ph' st'"
    and owned: "\<forall>e \<in> er_live st. proxy_owned st e" and e: "e \<in> er_live st'"
  shows "proxy_owned (set_phase n opn ph' st') e"
proof -
  have other: "\<And>i. i \<noteq> op_id opn \<Longrightarrow> er_sandboxes st' i = er_sandboxes st i" and ops: "er_ops st' = er_ops st"
    using f by (simp_all add: op_frame_def)
  consider (new) "ph' = Created e" | (entry) c where "er_sandboxes st' (op_id opn) = Some c" "cs_egress c = e"
    | (old) "e \<in> er_live st" "ph \<noteq> Created e" "\<forall>c. er_sandboxes st (op_id opn) = Some c \<longrightarrow> cs_egress c \<noteq> e"
    using f e by (auto simp: op_frame_def accounts_def)
  then show ?thesis
  proof cases
    case old
    have "m \<noteq> n" if "er_ops st m = Some (opn2, Created e)" for m opn2
      using that n old(2) by auto
    moreover have "proxy_owned st e"
      using owned old(1) by blast
    ultimately consider sandbox c where "er_sandboxes st sandbox = Some c" "cs_egress c = e"
      | m opn2 where "er_ops st m = Some (opn2, Created e)" "m \<noteq> n"
      unfolding proxy_owned_def by blast
    then show ?thesis
    proof cases
      case 1
      then have "er_sandboxes st' sandbox = Some c"
        using old(3) other by metis
      with 1 show ?thesis
        by (auto simp: proxy_owned_def)
    next
      case 2
      then show ?thesis
        by (auto simp: proxy_owned_def ops intro!: exI [of _ m])
    qed
  qed (auto simp: proxy_owned_def)
qed

lemma op_step_inv:
  assumes inv: "er_inv st" and n: "er_ops st n = Some (opn, ph)" and step: "op_step env hr opn ph a st = Some (ph', st')"
  shows "er_inv (set_phase n opn ph' st')"
proof -
  have own: "op_ok st n opn ph" and owned: "\<forall>e \<in> er_live st. proxy_owned st e"
    using inv n by (auto simp: er_inv_alt)
  have f: "op_frame st (op_id opn) ph ph' st'"
    using op_step_frame [OF step] own by (simp add: op_ok_def)
  have lock: "er_locks st (op_id opn) = Some n"
    using f own by (simp add: op_frame_def op_ok_def)
  have "\<not> (holds_lock ph' \<and> finished ph')"
    by (cases ph') auto
  then have self: "op_ok (set_phase n opn ph' st') n opn ph'"
    using f lock by (auto simp: op_ok_def op_frame_def)
  have ops: "op_ok (set_phase n opn ph' st') m opn2 ph2" if "er_ops (set_phase n opn ph' st') m = Some (opn2, ph2)" for m opn2 ph2
  proof (cases "m = n")
    case True
    with that self show ?thesis
      by simp
  next
    case False
    then have "er_ops st m = Some (opn2, ph2)"
      using that f by (simp add: op_frame_def)
    then show ?thesis
      using inv other_op_ok [OF _ lock False f] by (auto simp: er_inv_alt)
  qed
  have "er_sandboxes st' i = None" if "er_drained st'" for i
    using er_invD(3,4) [OF inv] f that by (cases "i = op_id opn") (simp_all add: op_frame_def)
  then show ?thesis
    by (intro er_invI, elim ops) (use live_owned [OF n f owned] er_invD(3) [OF inv] f in \<open>simp_all add: op_frame_def\<close>)
qed

lemma proxy_owned_mono:
  assumes "proxy_owned st e" and "er_sandboxes st' = er_sandboxes st"
    and "\<And>m opn. er_ops st m = Some (opn, Created e) \<Longrightarrow> er_ops st' m = Some (opn, Created e)"
  shows "proxy_owned st' e"
  using assms unfolding proxy_owned_def by metis

lemma begin_inv:
  assumes inv: "er_inv st" and n: "er_ops st n = None"
  shows "er_inv (begin_op n opn st)"
proof (rule er_invI)
  fix m opn2 ph2
  assume m: "er_ops (begin_op n opn st) m = Some (opn2, ph2)"
  have "phase_ok (begin_op n opn st) i ph = phase_ok st i ph" for i ph
    by (rule phase_ok_cong) (simp_all add: begin_op_def)
  moreover have "op_ok st m opn2 ph2 \<or> ph2 = Waiting"
    using m er_invD(1) [OF inv] by (auto simp: begin_op_def split: if_splits)
  ultimately show "op_ok (begin_op n opn st) m opn2 ph2"
    by (auto simp: op_ok_def begin_op_def phase_ok_def)
next
  fix e
  assume "e \<in> er_live (begin_op n opn st)"
  then have "proxy_owned st e"
    using er_invD(2) [OF inv] by (simp add: begin_op_def)
  then show "proxy_owned (begin_op n opn st) e"
    by (rule proxy_owned_mono) (use n in \<open>auto simp: begin_op_def\<close>)
qed (use er_invD(3,4) [OF inv] in \<open>auto simp: begin_op_def\<close>)

lemma lock_inv:
  assumes inv: "er_inv st" and n: "er_ops st n = Some (opn, Waiting)" and free: "er_locks st (op_id opn) = None"
  shows "er_inv (take_lock n opn st)"
proof (rule er_invI)
  fix m opn2 ph2
  assume m: "er_ops (take_lock n opn st) m = Some (opn2, ph2)"
  have p: "phase_ok (take_lock n opn st) i ph = phase_ok st i ph" for i ph
    by (rule phase_ok_cong) (simp_all add: take_lock_def)
  show "op_ok (take_lock n opn st) m opn2 ph2"
  proof (cases "m = n")
    case True
    then have "opn2 = opn" and "ph2 = Locked"
      using m by (simp_all add: take_lock_def)
    then show ?thesis
      using True by (simp add: op_ok_def take_lock_def phase_ok_def)
  next
    case False
    then have "op_ok st m opn2 ph2"
      using m er_invD(1) [OF inv] by (simp add: take_lock_def)
    then show ?thesis
      using free unfolding op_ok_def p by (auto simp: take_lock_def)
  qed
next
  fix e
  assume "e \<in> er_live (take_lock n opn st)"
  then have "proxy_owned st e"
    using er_invD(2) [OF inv] by (simp add: take_lock_def)
  then show "proxy_owned (take_lock n opn st) e"
    by (rule proxy_owned_mono) (use n in \<open>auto simp: take_lock_def\<close>)
qed (use er_invD(3,4) [OF inv] in \<open>auto simp: take_lock_def\<close>)

lemma drop_inv:
  assumes inv: "er_inv st" and n: "er_ops st n = Some (opn, ph)"
  shows "er_inv (drop_op n opn ph st)"
proof (rule er_invI)
  fix m opn2 ph2
  assume m: "er_ops (drop_op n opn ph st) m = Some (opn2, ph2)"
  have p: "phase_ok (drop_op n opn ph st) i ph2 = phase_ok st i ph2" for i ph2
    by (rule phase_ok_cong) (simp_all add: drop_op_def)
  have "m \<noteq> n" and "op_ok st m opn2 ph2"
    using m er_invD(1) [OF inv] by (auto simp: drop_op_def split: if_splits)
  then show "op_ok (drop_op n opn ph st) m opn2 ph2"
    using er_invD(1) [OF inv n] unfolding op_ok_def p by (auto simp: drop_op_def)
next
  fix e
  assume e: "e \<in> er_live (drop_op n opn ph st)"
  then have ph: "ph \<noteq> Created e" and "proxy_owned st e"
    using er_invD(2) [OF inv] by (auto simp: drop_op_def split: phase.splits)
  from this(2) show "proxy_owned (drop_op n opn ph st) e"
    by (rule proxy_owned_mono) (use n ph in \<open>auto simp: drop_op_def\<close>)
qed (use er_invD(3,4) [OF inv] in \<open>auto simp: drop_op_def\<close>)

lemma cancel_inv:
  assumes inv: "er_inv st"
  shows "er_inv (cancel_runtime st)"
proof (rule er_invI)
  fix m opn ph
  assume "er_ops (cancel_runtime st) m = Some (opn, ph)"
  then have "op_ok st m opn ph"
    using er_invD(1) [OF inv] by (simp add: cancel_runtime_def)
  then show "op_ok (cancel_runtime st) m opn ph"
    by (auto simp: op_ok_def phase_ok_def cancel_runtime_def split: option.splits)
next
  fix e
  assume "e \<in> er_live (cancel_runtime st)"
  then have "proxy_owned st e"
    using er_invD(2) [OF inv] by (simp add: cancel_runtime_def)
  then show "proxy_owned (cancel_runtime st) e"
    by (rule proxy_owned_mono) (auto simp: cancel_runtime_def)
qed (use er_invD(3,4) [OF inv] in \<open>auto simp: cancel_runtime_def\<close>)

lemma drain_inv:
  assumes inv: "er_inv st" and closed: "er_closed st"
  shows "er_inv (drain_runtime st)"
proof (rule er_invI)
  fix m opn ph
  assume "er_ops (drain_runtime st) m = Some (opn, ph)"
  then have "op_ok st m opn ph"
    using er_invD(1) [OF inv] by (simp add: drain_runtime_def)
  then show "op_ok (drain_runtime st) m opn ph"
    using closed by (simp add: op_ok_def phase_ok_def drain_runtime_def)
next
  fix e
  assume "e \<in> er_live (drain_runtime st)"
  then have "proxy_owned st e" and "\<And>i c. er_sandboxes st i = Some c \<Longrightarrow> cs_egress c \<noteq> e"
    using er_invD(2) [OF inv] by (auto simp: drain_runtime_def ran_def)
  then have "\<exists>n opn. er_ops st n = Some (opn, Created e)"
    unfolding proxy_owned_def by blast
  then show "proxy_owned (drain_runtime st) e"
    by (simp add: proxy_owned_def drain_runtime_def)
qed (use closed in \<open>simp_all add: drain_runtime_def\<close>)

lemma er_step_inv: "er_step env hr st st' \<Longrightarrow> er_inv st \<Longrightarrow> er_inv st'"
  by (induction rule: er_step.induct) (auto intro: begin_inv lock_inv op_step_inv drop_inv cancel_inv drain_inv)

lemma reachable_inv: "er_reachable env hr st \<Longrightarrow> er_inv st"
proof (induction rule: er_reachable.induct)
  case init
  then show ?case
    by (simp add: er_inv_def new_runtime_def)
next
  case (step st st')
  then show ?case
    using er_step_inv by blast
qed

text \<open>C25: In every interleaving of acquisitions, terminations, dropped callers and shutdown, two operations
  never hold one sandbox at once, an acquisition whose machine is ready finds its entry still registered
  (the expectation in the code never panics), and every proxy left open is registered or still owned by
  the acquisition that created it.\<close>

theorem runtime_operations_are_safe:
  assumes "er_reachable env hr st"
  shows "(\<forall>m n o1 o2 ph1 ph2. er_ops st m = Some (o1, ph1) \<longrightarrow> er_ops st n = Some (o2, ph2) \<longrightarrow>
        holds_lock ph1 \<longrightarrow> holds_lock ph2 \<longrightarrow> op_id o1 = op_id o2 \<longrightarrow> m = n)
    \<and> (\<forall>n rq ext e handle. er_ops st n = Some (Acquire rq ext, Built e handle) \<longrightarrow>
        (\<nexists>msg. fst (complete_acquire (sr_sandbox_id rq) e handle st) = Finished (panic msg)))
    \<and> (\<forall>e \<in> er_live st. proxy_owned st e)"
proof -
  have inv: "er_inv st"
    using assms by (rule reachable_inv)
  have "m = n" if "er_ops st m = Some (o1, ph1)" "er_ops st n = Some (o2, ph2)" "holds_lock ph1" "holds_lock ph2"
    "op_id o1 = op_id o2" for m n o1 o2 ph1 ph2
    using er_invD(1) [OF inv that(1)] er_invD(1) [OF inv that(2)] that(3-5) by (simp add: op_ok_def)
  moreover have "fst (complete_acquire (sr_sandbox_id rq) e handle st) \<noteq> Finished (panic msg)"
    if "er_ops st n = Some (Acquire rq ext, Built e handle)" for n rq ext e handle msg
    using er_invD(1) [OF inv that]
    by (auto simp: op_ok_def phase_ok_def complete_acquire_def fail_acquire_def split: option.splits)
  moreover have "\<forall>e \<in> er_live st. proxy_owned st e"
    using er_invD(2) [OF inv] by blast
  ultimately show ?thesis
    by blast
qed

text \<open>C26: Once shutdown has drained the runtime and every operation has finished or was dropped, no
  sandbox is cached and no proxy is left open.\<close>

theorem shutdown_closes_every_proxy:
  assumes "er_reachable env hr st" and "er_drained st"
    and "\<forall>n opn ph. er_ops st n = Some (opn, ph) \<longrightarrow> finished ph"
  shows "er_live st = {} \<and> er_sandboxes st = Map.empty"
proof -
  note inv = reachable_inv [OF assms(1)]
  have empty: "er_sandboxes st = Map.empty"
    using er_invD(4) [OF inv assms(2)] by (simp add: fun_eq_iff)
  have "\<not> proxy_owned st e" for e
    using assms(3) empty by (fastforce simp: proxy_owned_def)
  then have "e \<notin> er_live st" for e
    using er_invD(2) [OF inv] by blast
  with empty show ?thesis
    by blast
qed

section \<open>A sample acquisition\<close>

definition sample_sandbox :: "unit sandbox_request" where
  "sample_sandbox = \<lparr> sr_sandbox_id = ''box'', sr_scope = Global,
     sr_policy = \<lparr> ep_networking = Limited [''api.example''], ep_allowed_tcp_ports = None, ep_credentials = [] \<rparr>,
     sr_spec = (), sr_idle_ttl = Some 60 \<rparr>"

definition acquiring :: "unit runtime" where
  "acquiring = new_runtime\<lparr> er_ops := [0 \<mapsto> (Acquire sample_sandbox None, Created 0)], er_locks := [''box'' \<mapsto> 0],
     er_live := {0}, er_next := 1 \<rparr>"

lemma sample_start: "start_proxy sample_proxy False sample_sandbox None st = Starting" if "\<not> er_closed st"
  using that sample_hosts
  by (simp add: start_proxy_def sample_sandbox_def requires_proxy_def new_with_placeholders_def request_identity_def
      prepare_bindings_def)

lemma acquiring_reachable: "er_reachable sample_proxy False acquiring"
proof -
  let ?op = "Acquire sample_sandbox None"
  let ?s1 = "begin_op 0 ?op (new_runtime :: unit runtime)"
  let ?s2 = "take_lock 0 ?op ?s1"
  let ?s3 = "set_phase 0 ?op Removed ?s2"
  let ?s4 = "set_phase 0 ?op Starting ?s3"
  let ?s5 = "set_phase 0 ?op (Created 0) (?s4\<lparr>er_live := {0}, er_next := 1\<rparr>)"
  have "er_reachable sample_proxy False ?s1"
    by (rule er_reachable.step [OF er_reachable.init], rule er_step.Begin) (simp add: new_runtime_def)
  then have "er_reachable sample_proxy False ?s2"
    by (rule er_reachable.step, intro er_step.Lock) (simp_all add: begin_op_def new_runtime_def)
  then have "er_reachable sample_proxy False ?s3"
    by (rule er_reachable.step, intro er_step.Advance [where ph = Locked and a = "Outcome (Inr ())"])
      (simp_all add: begin_op_def take_lock_def new_runtime_def op_step_def check_cached_def)
  then have "er_reachable sample_proxy False ?s4"
    by (rule er_reachable.step, intro er_step.Advance [where ph = Removed and a = "Outcome (Inr ())"])
      (simp_all add: begin_op_def take_lock_def new_runtime_def op_step_def sample_start)
  then have "er_reachable sample_proxy False ?s5"
    by (rule er_reachable.step, intro er_step.Advance [where ph = Starting and a = "Outcome (Inr ())"])
      (simp_all add: begin_op_def take_lock_def new_runtime_def op_step_def set_phase_def)
  moreover have "?s5 = acquiring"
    by (simp add: acquiring_def begin_op_def take_lock_def new_runtime_def set_phase_def sample_sandbox_def)
  ultimately show ?thesis
    by simp
qed

theorem runtime_operations_are_safe_witness: "0 \<in> er_live acquiring \<and> proxy_owned acquiring 0"
  using runtime_operations_are_safe [OF acquiring_reachable] by (simp add: acquiring_def)

theorem shutdown_closes_every_proxy_witness:
  "er_live (drop_op 0 (Acquire sample_sandbox None) (Created 0) (drain_runtime (cancel_runtime acquiring))) = {}"
proof -
  let ?st = "drop_op 0 (Acquire sample_sandbox None) (Created 0) (drain_runtime (cancel_runtime acquiring))"
  have "er_reachable sample_proxy False ?st"
    by (rule er_reachable.step [OF er_reachable.step [OF er_reachable.step [OF acquiring_reachable er_step.Cancel] er_step.Drain]
          er_step.Drop]) (simp_all add: cancel_runtime_def drain_runtime_def acquiring_def)
  moreover have "er_drained ?st"
    by (simp add: drop_op_def drain_runtime_def)
  moreover have "\<forall>n opn ph. er_ops ?st n = Some (opn, ph) \<longrightarrow> finished ph"
    by (simp add: drop_op_def drain_runtime_def cancel_runtime_def acquiring_def)
  ultimately show ?thesis
    using shutdown_closes_every_proxy by blast
qed

end
