(* ===== verification/Vault_Store.thy ===== *)
theory Vault_Store
  imports Credential_Policy Exo_Types "HOL-Library.AList"
begin

text \<open>
  Vaults of credentials: \<^verbatim>\<open>crates/exoharness/src/vault.rs\<close>, \<^verbatim>\<open>vault/local.rs\<close> with its parts \<^verbatim>\<open>native.rs\<close>, \<^verbatim>\<open>oauth.rs\<close> and
  \<^verbatim>\<open>legacy.rs\<close>, and the cipher of \<^verbatim>\<open>secrets.rs\<close>. A catalog of vaults is kept in memory or in a file; the file is read and
  replaced under a lock, and a catalog written before credential policies is migrated when it is read. The
  authenticated cipher, serialization, the key provider, clocks, the token endpoints and the file system's answers are
  the environment. Every access to the storage is preceded by what other tasks and processes do to it.
\<close>

section \<open>Secrets\<close>

record oauth_refresh =
  or_token_endpoint :: string
  or_client_id :: string
  or_client_secret :: "string option"
  or_client_secret_basic :: bool
  or_resource :: "string option"
  or_scopes :: "string list"

datatype secret =
    Key string
  | GithubCli string string
  | Oauth string "string option" "u64 option" "oauth_refresh option"

datatype secret_type = Key_Type | Oauth_Type | GithubCli_Type

fun bearer_value :: "secret \<Rightarrow> string" where
  "bearer_value (Key v) = v"
| "bearer_value (GithubCli v _) = v"
| "bearer_value (Oauth access_token _ _ _) = access_token"

fun is_refreshable :: "secret \<Rightarrow> bool" where
  "is_refreshable (GithubCli _ _) = True"
| "is_refreshable (Oauth _ (Some _) _ (Some _)) = True"
| "is_refreshable _ = False"

fun secret_type_of :: "secret \<Rightarrow> secret_type" where
  "secret_type_of (Key _) = Key_Type"
| "secret_type_of (Oauth _ _ _ _) = Oauth_Type"
| "secret_type_of (GithubCli _ _) = GithubCli_Type"

definition validate_oauth_endpoint :: "url_parser \<Rightarrow> string \<Rightarrow> unit result" where
  "validate_oauth_endpoint parse endpoint =
     (case parse endpoint of
        Inl _ \<Rightarrow> bail ''invalid OAuth token endpoint''
      | Inr u \<Rightarrow>
          ensure ((url_scheme u = ''https'' \<or> url_scheme u = ''http'' \<and> is_loopback u) \<and> url_username u = [] \<and>
              url_password u = None \<and> url_fragment u = None)
            ''OAuth token endpoint must use HTTPS or loopback HTTP without embedded credentials or a fragment'')"

definition validate_secret :: "url_parser \<Rightarrow> secret \<Rightarrow> credential_policy option \<Rightarrow> unit result" where
  "validate_secret parse secret policy =
     and_then (case secret of
          GithubCli _ account \<Rightarrow>
            ensure (account \<noteq> [] \<and> length account \<le> 39 \<and> list_all (\<lambda>c. is_ascii_alphanumeric c \<or> c = CHR ''-'') account)
              ''invalid GitHub account''
        | _ \<Rightarrow> Ok ()) (\<lambda>_.
     if policy = None then Ok ()
     else
       and_then (case secret of
            Oauth _ _ _ (Some refresh) \<Rightarrow>
              and_then (validate_oauth_endpoint parse (or_token_endpoint refresh)) (\<lambda>_.
              ensure (or_client_id refresh \<noteq> []) ''OAuth client ID is missing'')
          | _ \<Rightarrow> Ok ()) (\<lambda>_.
       ensure (bearer_value secret \<noteq> [] \<and> list_all ascii_graphic (bearer_value secret))
         ''bearer token must be nonempty ASCII without whitespace or control characters''))"

fun require_portable_secret :: "secret \<Rightarrow> unit result" where
  "require_portable_secret (GithubCli _ _) =
     bail ''GitHub CLI credentials must be linked on the runtime host; send a token or OAuth grant to a remote vault''"
| "require_portable_secret _ = Ok ()"

section \<open>The catalog\<close>

record vault_record =
  vr_id :: uuid
  vr_name :: string
  vr_created_at :: int

record secret_metadata =
  sm_policy :: "credential_policy option"
  sm_revision :: u64
  sm_id :: uuid
  sm_type :: secret_type
  sm_name :: string
  sm_created_at :: int

record encrypted_secret =
  es_nonce :: string
  es_ciphertext :: string

record stored_secret =
  ss_metadata :: secret_metadata
  ss_secret :: encrypted_secret

record stored_vault =
  sv_record :: vault_record
  sv_secrets :: "stored_secret list"

type_synonym catalog = "stored_vault list"

text \<open>What a vault file held before credential policies.\<close>

datatype legacy_target = Legacy_Mcp string | Legacy_Http string

record legacy_metadata =
  lm_target :: "legacy_target option"
  lm_revision :: u64
  lm_id :: uuid
  lm_type :: secret_type
  lm_name :: string
  lm_created_at :: int

record legacy_secret =
  ls_metadata :: legacy_metadata
  ls_secret :: encrypted_secret

record legacy_vault =
  lv_record :: vault_record
  lv_secrets :: "legacy_secret list"

text \<open>The file as \<open>serde_json\<close> reads it: absent, a catalog, a catalog of the old form, or neither.\<close>

datatype vault_file = No_File | Catalog_File catalog | Legacy_File "legacy_vault list" | Bad_File string

datatype vault_storage = Memory catalog | File vault_file

record vault_world =
  vw_storage :: vault_storage
  vw_checked :: "(uuid \<times> (u64 \<times> nat)) list"
  vw_calls :: nat

record token_response =
  to_access_token :: string
  to_refresh_token :: "string option"
  to_expires_in :: "u64 option"
  to_scopes :: "string list option"

text \<open>Answers of the environment are indexed by the number of the call. \<open>ve_seal\<close> and \<open>ve_open\<close> take the key, the nonce,
  the message and the authenticated data.\<close>

record 'k vault_env =
  ve_parse :: url_parser
  ve_show :: "uuid \<Rightarrow> string"
  ve_id :: "nat \<Rightarrow> uuid"
  ve_utc :: "nat \<Rightarrow> int"
  ve_now :: "nat \<Rightarrow> u64"
  ve_instant :: "nat \<Rightarrow> nat"
  ve_key :: "nat \<Rightarrow> 'k result"
  ve_nonce :: "nat \<Rightarrow> string"
  ve_seal :: "'k \<Rightarrow> string \<Rightarrow> string \<Rightarrow> string \<Rightarrow> string option"
  ve_open :: "'k \<Rightarrow> string \<Rightarrow> string \<Rightarrow> string \<Rightarrow> string option"
  ve_secret_json :: "secret \<Rightarrow> string"
  ve_parse_secret :: "string \<Rightarrow> secret result"
  ve_aad :: "uuid \<Rightarrow> secret_metadata \<Rightarrow> string"
  ve_legacy_aad :: "uuid \<Rightarrow> legacy_metadata \<Rightarrow> string"
  ve_lock :: "nat \<Rightarrow> unit result"
  ve_persist :: "nat \<Rightarrow> unit result"
  ve_sync :: "nat \<Rightarrow> unit result"
  ve_guard :: "nat \<Rightarrow> unit result"
  ve_github_token :: "nat \<Rightarrow> string \<Rightarrow> string result"
  ve_exchange :: "nat \<Rightarrow> oauth_refresh \<Rightarrow> string \<Rightarrow> token_response result"
  ve_others :: "nat \<Rightarrow> vault_world \<Rightarrow> vault_world"

text \<open>The state an operation on a catalog works on.\<close>

record catalog_state =
  cs_catalog :: catalog
  cs_calls :: nat

type_synonym 'a catalog_op = "(catalog_state, 'a) io"

definition catalog_call :: "nat catalog_op" where
  "catalog_call s = (Ok (cs_calls s), s\<lparr>cs_calls := Suc (cs_calls s)\<rparr>)"

section \<open>The cipher\<close>

definition NONCE_LEN :: nat where
  "NONCE_LEN = 12"

definition encrypt_bound :: "'k vault_env \<Rightarrow> secret \<Rightarrow> string \<Rightarrow> encrypted_secret catalog_op" where
  "encrypt_bound env secret aad =
     io_bind catalog_call (\<lambda>n.
     io_bind (io_lift (ve_key env n)) (\<lambda>key.
     io_bind (io_lift (ok_or (ve_seal env key (ve_nonce env n) (ve_secret_json env secret) aad) ''failed to encrypt secret payload'')) (\<lambda>c.
     io_return \<lparr> es_nonce = ve_nonce env n, es_ciphertext = c \<rparr>)))"

definition decrypt_bound :: "'k vault_env \<Rightarrow> encrypted_secret \<Rightarrow> string \<Rightarrow> secret catalog_op" where
  "decrypt_bound env encrypted aad =
     io_bind (io_lift (ensure (length (es_nonce encrypted) = NONCE_LEN) ''invalid secret nonce length'')) (\<lambda>_.
     io_bind catalog_call (\<lambda>n.
     io_bind (io_lift (ve_key env n)) (\<lambda>key.
     io_bind (io_lift (ok_or (ve_open env key (es_nonce encrypted) (es_ciphertext encrypted) aad) ''failed to decrypt secret payload'')) (\<lambda>m.
     io_lift (ve_parse_secret env m)))))"

definition encrypt_secret :: "'k vault_env \<Rightarrow> uuid \<Rightarrow> secret_metadata \<Rightarrow> secret \<Rightarrow> encrypted_secret catalog_op" where
  "encrypt_secret env vid metadata secret =
     io_bind (io_lift (validate_secret (ve_parse env) secret (sm_policy metadata))) (\<lambda>_.
     encrypt_bound env secret (ve_aad env vid metadata))"

definition decrypt_stored :: "'k vault_env \<Rightarrow> uuid \<Rightarrow> stored_secret \<Rightarrow> secret catalog_op" where
  "decrypt_stored env vid stored = decrypt_bound env (ss_secret stored) (ve_aad env vid (ss_metadata stored))"

section \<open>Operations on a catalog\<close>

definition find_vault :: "uuid \<Rightarrow> catalog \<Rightarrow> stored_vault option" where
  "find_vault vid c = List.find (\<lambda>v. vr_id (sv_record v) = vid) c"

definition find_stored :: "uuid \<Rightarrow> stored_vault \<Rightarrow> stored_secret option" where
  "find_stored sid v = List.find (\<lambda>s. sm_id (ss_metadata s) = sid) (sv_secrets v)"

definition catalog_vault :: "'k vault_env \<Rightarrow> uuid \<Rightarrow> stored_vault catalog_op" where
  "catalog_vault env vid s =
     (ok_or (find_vault vid (cs_catalog s)) (''vault '' @ ve_show env vid @ '' is unavailable''), s)"

definition set_secrets :: "uuid \<Rightarrow> (stored_secret list \<Rightarrow> stored_secret list) \<Rightarrow> catalog \<Rightarrow> catalog" where
  "set_secrets vid f c = update_first (\<lambda>v. vr_id (sv_record v) = vid) (\<lambda>v. v\<lparr>sv_secrets := f (sv_secrets v)\<rparr>) c"

definition change_secrets :: "uuid \<Rightarrow> (stored_secret list \<Rightarrow> stored_secret list) \<Rightarrow> unit catalog_op" where
  "change_secrets vid f = io_modify (\<lambda>s. s\<lparr>cs_catalog := set_secrets vid f (cs_catalog s)\<rparr>)"

text \<open>The assignment to the \<open>metadata\<close> and \<open>secret\<close> of a stored entry.\<close>

definition replace_stored :: "uuid \<Rightarrow> stored_secret \<Rightarrow> stored_secret list \<Rightarrow> stored_secret list" where
  "replace_stored sid stored = update_first (\<lambda>s. sm_id (ss_metadata s) = sid) (\<lambda>_. stored)"

definition create_vault_record :: "'k vault_env \<Rightarrow> string \<Rightarrow> vault_record catalog_op" where
  "create_vault_record env name =
     io_bind catalog_call (\<lambda>n.
       let record = \<lparr> vr_id = ve_id env n, vr_name = name, vr_created_at = ve_utc env n \<rparr> in
       io_bind (io_modify (\<lambda>s. s\<lparr>cs_catalog := cs_catalog s @ [\<lparr> sv_record = record, sv_secrets = [] \<rparr>]\<rparr>)) (\<lambda>_.
       io_return record))"

definition GLOBAL :: string where
  "GLOBAL = ''global''"

definition named_vault :: "string \<Rightarrow> catalog \<Rightarrow> vault_record option" where
  "named_vault name c = map_option sv_record (List.find (\<lambda>v. vr_name (sv_record v) = name) c)"

definition find_global :: "vault_record option catalog_op" where
  "find_global = io_read (\<lambda>s. named_vault GLOBAL (cs_catalog s))"

definition ensure_global :: "'k vault_env \<Rightarrow> vault_record catalog_op" where
  "ensure_global env =
     io_bind find_global (\<lambda>found.
     case found of Some record \<Rightarrow> io_return record | None \<Rightarrow> create_vault_record env GLOBAL)"

definition create_vault_op :: "'k vault_env \<Rightarrow> string \<Rightarrow> vault_record catalog_op" where
  "create_vault_op env name =
     io_bind (io_lift (ensure (trim name \<noteq> []) ''vault name must not be empty'')) (\<lambda>_.
     io_bind (io_read cs_catalog) (\<lambda>c.
     io_bind (io_lift (ensure (\<not> list_ex (\<lambda>v. vr_name (sv_record v) = name) c) (''vault already exists: '' @ name))) (\<lambda>_.
     create_vault_record env name)))"

definition delete_vault_op :: "'k vault_env \<Rightarrow> uuid \<Rightarrow> unit catalog_op" where
  "delete_vault_op env vid =
     io_bind (catalog_vault env vid) (\<lambda>v.
     io_bind (io_lift (ensure (vr_name (sv_record v) \<noteq> GLOBAL) ''cannot delete the global vault'')) (\<lambda>_.
     io_modify (\<lambda>s. s\<lparr>cs_catalog := filter (\<lambda>v. vr_id (sv_record v) \<noteq> vid) (cs_catalog s)\<rparr>)))"

record put_secret_request =
  pr_policy :: "credential_policy option"
  pr_name :: string
  pr_secret :: secret

record update_secret_request =
  ur_secret :: "secret option"
  ur_policy :: "credential_policy option"

definition normalized_option :: "url_parser \<Rightarrow> credential_policy option \<Rightarrow> credential_policy option result" where
  "normalized_option parse policy =
     (case policy of None \<Rightarrow> Ok None | Some p \<Rightarrow> and_then (policy_normalized parse p) (\<lambda>q. Ok (Some q)))"

definition names_resource :: "credential_policy option \<Rightarrow> bool" where
  "names_resource policy = (case policy of None \<Rightarrow> False | Some p \<Rightarrow> is_resource p)"

definition put_secret_op :: "'k vault_env \<Rightarrow> uuid \<Rightarrow> put_secret_request \<Rightarrow> uuid catalog_op" where
  "put_secret_op env vid request =
     io_bind (catalog_vault env vid) (\<lambda>v.
     io_bind (io_lift (ensure (trim (pr_name request) \<noteq> []) ''secret name must not be empty'')) (\<lambda>_.
     io_bind (io_lift (normalized_option (ve_parse env) (pr_policy request))) (\<lambda>target.
     io_bind (io_lift (ensure
        (\<not> list_ex (\<lambda>s. sm_name (ss_metadata s) = pr_name request \<or>
             names_resource target \<and> sm_policy (ss_metadata s) = target) (sv_secrets v))
        (''a secret with this name or destination already exists in vault '' @ ve_show env vid))) (\<lambda>_.
     io_bind catalog_call (\<lambda>n.
     let metadata = \<lparr> sm_policy = target, sm_revision = 1, sm_id = ve_id env n, sm_type = secret_type_of (pr_secret request),
           sm_name = pr_name request, sm_created_at = ve_utc env n \<rparr> in
     io_bind (encrypt_secret env vid metadata (pr_secret request)) (\<lambda>encrypted.
     io_bind (change_secrets vid (\<lambda>ss. ss @ [\<lparr> ss_metadata = metadata, ss_secret = encrypted \<rparr>])) (\<lambda>_.
     io_return (sm_id metadata))))))))"

definition get_secret_op :: "'k vault_env \<Rightarrow> uuid \<Rightarrow> uuid \<Rightarrow> secret option catalog_op" where
  "get_secret_op env vid sid =
     io_bind (catalog_vault env vid) (\<lambda>v.
     case find_stored sid v of
       None \<Rightarrow> io_return None
     | Some stored \<Rightarrow> io_bind (decrypt_stored env vid stored) (\<lambda>secret. io_return (Some secret)))"

definition list_secrets_op :: "'k vault_env \<Rightarrow> uuid \<Rightarrow> secret_metadata list catalog_op" where
  "list_secrets_op env vid = io_bind (catalog_vault env vid) (\<lambda>v. io_return (map ss_metadata (sv_secrets v)))"

text \<open>\<open>revision.checked_add(1)\<close>.\<close>

definition next_revision :: "u64 \<Rightarrow> u64 result" where
  "next_revision r = (if r = - 1 then bail ''secret revision overflow'' else Ok (r + 1))"

definition store_secret :: "'k vault_env \<Rightarrow> uuid \<Rightarrow> secret_metadata \<Rightarrow> secret \<Rightarrow> unit catalog_op" where
  "store_secret env vid metadata secret =
     io_bind (encrypt_secret env vid metadata secret) (\<lambda>encrypted.
     change_secrets vid (replace_stored (sm_id metadata) \<lparr> ss_metadata = metadata, ss_secret = encrypted \<rparr>))"

definition update_secret_op :: "'k vault_env \<Rightarrow> uuid \<Rightarrow> uuid \<Rightarrow> update_secret_request \<Rightarrow> secret_metadata catalog_op" where
  "update_secret_op env vid sid request =
     io_bind (catalog_vault env vid) (\<lambda>v.
     io_bind (io_lift (normalized_option (ve_parse env) (ur_policy request))) (\<lambda>target.
     io_bind (io_lift (ensure
        (\<not> (names_resource target \<and>
             list_ex (\<lambda>s. sm_id (ss_metadata s) \<noteq> sid \<and> sm_policy (ss_metadata s) = target) (sv_secrets v)))
        ''a secret with this resource policy already exists in the vault'')) (\<lambda>_.
     io_bind (io_lift (ok_or (find_stored sid v) ''secret is unavailable'')) (\<lambda>stored.
     io_bind (case ur_secret request of Some secret \<Rightarrow> io_return secret | None \<Rightarrow> decrypt_stored env vid stored) (\<lambda>secret.
     io_bind (io_lift (next_revision (sm_revision (ss_metadata stored)))) (\<lambda>revision.
     let metadata = (ss_metadata stored)\<lparr>sm_revision := revision,
           sm_policy := (case target of Some t \<Rightarrow> Some t | None \<Rightarrow> sm_policy (ss_metadata stored)),
           sm_type := secret_type_of secret\<rparr> in
     io_bind (store_secret env vid metadata secret) (\<lambda>_.
     io_return metadata)))))))"

definition delete_secret_op :: "'k vault_env \<Rightarrow> uuid \<Rightarrow> uuid \<Rightarrow> unit catalog_op" where
  "delete_secret_op env vid sid =
     io_bind (catalog_vault env vid) (\<lambda>v.
     io_bind (io_lift (ensure (list_ex (\<lambda>s. sm_id (ss_metadata s) = sid) (sv_secrets v)) ''secret is unavailable'')) (\<lambda>_.
     change_secrets vid (filter (\<lambda>s. sm_id (ss_metadata s) \<noteq> sid))))"

record resolved_secret =
  rs_revision :: u64
  rs_secret :: secret

definition policy_allows :: "url_parser \<Rightarrow> credential_policy option \<Rightarrow> credential_destination \<Rightarrow> bool" where
  "policy_allows parse policy target = (case policy of None \<Rightarrow> False | Some p \<Rightarrow> policy_permits parse p target)"

text \<open>The closure of \<open>read_for_destination\<close>; the target is normalized already. The message that quotes the name is
  abbreviated.\<close>

definition read_op :: "'k vault_env \<Rightarrow> uuid \<Rightarrow> uuid \<Rightarrow> credential_destination \<Rightarrow> resolved_secret catalog_op" where
  "read_op env vid sid target =
     io_bind (catalog_vault env vid) (\<lambda>v.
     io_bind (io_lift (ok_or (find_stored sid v) ''secret is unavailable'')) (\<lambda>stored.
     io_bind (io_lift (ensure (policy_allows (ve_parse env) (sm_policy (ss_metadata stored)) target)
        (''secret is not authorized for '' @ as_str target @ ''; update its policy with --allow-origin or --allow-url''))) (\<lambda>_.
     io_bind (decrypt_stored env vid stored) (\<lambda>secret.
     io_bind (io_lift (validate_secret (ve_parse env) secret (sm_policy (ss_metadata stored)))) (\<lambda>_.
     io_return \<lparr> rs_revision = sm_revision (ss_metadata stored), rs_secret = secret \<rparr>)))))"

text \<open>The closure that persists a refreshed secret.\<close>

definition rotate_op :: "'k vault_env \<Rightarrow> uuid \<Rightarrow> uuid \<Rightarrow> u64 \<Rightarrow> secret \<Rightarrow> resolved_secret catalog_op" where
  "rotate_op env vid sid expected secret =
     io_bind (catalog_vault env vid) (\<lambda>v.
     io_bind (io_lift (ok_or (find_stored sid v) ''secret is unavailable'')) (\<lambda>stored.
     io_bind (io_lift (ensure (sm_revision (ss_metadata stored) = expected)
        ''credential changed during refresh; retry the operation'')) (\<lambda>_.
     io_bind (io_lift (next_revision (sm_revision (ss_metadata stored)))) (\<lambda>revision.
     io_bind (store_secret env vid ((ss_metadata stored)\<lparr>sm_revision := revision\<rparr>) secret) (\<lambda>_.
     io_return \<lparr> rs_revision = revision, rs_secret = secret \<rparr>)))))"

definition import_secret_op :: "'k vault_env \<Rightarrow> uuid \<Rightarrow> secret_metadata \<Rightarrow> secret \<Rightarrow> unit catalog_op" where
  "import_secret_op env vid metadata secret =
     io_bind (catalog_vault env vid) (\<lambda>v.
     case find_stored (sm_id metadata) v of
       Some stored \<Rightarrow>
         io_bind (decrypt_stored env vid stored) (\<lambda>existing.
         io_lift (ensure (ss_metadata stored = metadata \<and> existing = secret) ''migrated secret conflicts with an existing vault entry''))
     | None \<Rightarrow>
         io_bind (encrypt_secret env vid metadata secret) (\<lambda>encrypted.
         change_secrets vid (\<lambda>ss. ss @ [\<lparr> ss_metadata = metadata, ss_secret = encrypted \<rparr>])))"

section \<open>Reading a file of the old form\<close>

definition legacy_policy :: "url_parser \<Rightarrow> legacy_target option \<Rightarrow> credential_policy option result" where
  "legacy_policy parse target =
     (case target of
        None \<Rightarrow> Ok None
      | Some t \<Rightarrow>
          and_then (case t of Legacy_Mcp server_url \<Rightarrow> destination_url parse server_url
                            | Legacy_Http origin \<Rightarrow> destination_origin parse origin) (\<lambda>d.
          Ok (Some (policy_from_destination d))))"

definition migrate_secret :: "'k vault_env \<Rightarrow> uuid \<Rightarrow> legacy_secret \<Rightarrow> stored_secret catalog_op" where
  "migrate_secret env vid stored =
     io_bind (decrypt_bound env (ls_secret stored) (ve_legacy_aad env vid (ls_metadata stored))) (\<lambda>secret.
     io_bind (io_lift (legacy_policy (ve_parse env) (lm_target (ls_metadata stored)))) (\<lambda>policy.
     let old = ls_metadata stored;
         metadata = \<lparr> sm_policy = policy, sm_revision = lm_revision old, sm_id = lm_id old, sm_type = lm_type old,
           sm_name = lm_name old, sm_created_at = lm_created_at old \<rparr> in
     io_bind (encrypt_secret env vid metadata secret) (\<lambda>encrypted.
     io_return \<lparr> ss_metadata = metadata, ss_secret = encrypted \<rparr>)))"

text \<open>A loop that collects the results of its body and stops at the first error.\<close>

fun for_each :: "('a \<Rightarrow> ('w, 'b) io) \<Rightarrow> 'a list \<Rightarrow> ('w, 'b list) io" where
  "for_each f [] = io_return []"
| "for_each f (x # xs) = io_bind (f x) (\<lambda>y. io_bind (for_each f xs) (\<lambda>ys. io_return (y # ys)))"

definition migrate_vault :: "'k vault_env \<Rightarrow> legacy_vault \<Rightarrow> stored_vault catalog_op" where
  "migrate_vault env v =
     io_bind (for_each (migrate_secret env (vr_id (lv_record v))) (lv_secrets v)) (\<lambda>secrets.
     io_return \<lparr> sv_record = lv_record v, sv_secrets = secrets \<rparr>)"

definition read_catalog :: "'k vault_env \<Rightarrow> vault_file \<Rightarrow> (catalog \<times> bool) catalog_op" where
  "read_catalog env file =
     (case file of
        No_File \<Rightarrow> io_return ([], False)
      | Catalog_File c \<Rightarrow> io_return (c, False)
      | Legacy_File vaults \<Rightarrow> io_bind (for_each (migrate_vault env) vaults) (\<lambda>c. io_return (c, True))
      | Bad_File message \<Rightarrow> io_lift (bail ''reading vault catalog''))"

section \<open>Access to the storage\<close>

definition access_memory :: "catalog \<Rightarrow> 'a catalog_op \<Rightarrow> vault_world \<Rightarrow> 'a result \<times> vault_world" where
  "access_memory c operation w =
     (case operation \<lparr> cs_catalog = c, cs_calls = vw_calls w \<rparr> of
        (r, s) \<Rightarrow> (r, w\<lparr>vw_storage := Memory (cs_catalog s), vw_calls := cs_calls s\<rparr>))"

text \<open>Every access has a number of its own, by which the lock and the file system answer. A reader leaves the file alone
  unless it migrated it. The new file is written beside the old one, renamed over it, and the directory is
  synchronized: after a failed write the old catalog stays, after a failed synchronization the new one is there.\<close>

definition replace_file :: "'k vault_env \<Rightarrow> 'a \<Rightarrow> catalog_state \<Rightarrow> vault_world \<Rightarrow> 'a result \<times> vault_world" where
  "replace_file env x s w =
     (let n = cs_calls s; w1 = w\<lparr>vw_calls := n\<rparr> in
      case ve_persist env n of
        Inl e \<Rightarrow> (Inl e, w1)
      | Inr _ \<Rightarrow>
          (let w2 = w1\<lparr>vw_storage := File (Catalog_File (cs_catalog s))\<rparr> in
           case ve_sync env n of Inl e \<Rightarrow> (Inl e, w2) | Inr _ \<Rightarrow> (Ok x, w2)))"

definition access_file :: "'k vault_env \<Rightarrow> vault_file \<Rightarrow> bool \<Rightarrow> 'a catalog_op \<Rightarrow> vault_world \<Rightarrow> 'a result \<times> vault_world" where
  "access_file env file write operation w =
     (let n = vw_calls w in
      case ve_lock env n of
        Inl e \<Rightarrow> (Inl e, w)
      | Inr _ \<Rightarrow>
          (case read_catalog env file \<lparr> cs_catalog = [], cs_calls = n \<rparr> of
             (Inl e, s) \<Rightarrow> (Inl e, w\<lparr>vw_calls := cs_calls s\<rparr>)
           | (Inr (c, migrated), s) \<Rightarrow>
               (case operation (s\<lparr>cs_catalog := c\<rparr>) of
                  (r, s') \<Rightarrow>
                    if \<not> write \<and> \<not> migrated then (r, w\<lparr>vw_calls := cs_calls s'\<rparr>)
                    else (case r of Inl e \<Rightarrow> (Inl e, w\<lparr>vw_calls := cs_calls s'\<rparr>) | Inr x \<Rightarrow> replace_file env x s' w))))"

definition access :: "'k vault_env \<Rightarrow> bool \<Rightarrow> 'a catalog_op \<Rightarrow> (vault_world, 'a) io" where
  "access env write operation w =
     (let w0 = ve_others env (vw_calls w) (w\<lparr>vw_calls := Suc (vw_calls w)\<rparr>) in
      case vw_storage w0 of
        Memory c \<Rightarrow> access_memory c operation w0
      | File file \<Rightarrow> access_file env file write operation w0)"

section \<open>The store and its vaults\<close>

text \<open>A handle is the record of its vault.\<close>

definition global_vault :: "'k vault_env \<Rightarrow> (vault_world, vault_record) io" where
  "global_vault env =
     io_bind (access env False find_global) (\<lambda>found.
     case found of Some record \<Rightarrow> io_return record | None \<Rightarrow> access env True (ensure_global env))"

definition create_vault :: "'k vault_env \<Rightarrow> string \<Rightarrow> (vault_world, vault_record) io" where
  "create_vault env name = access env True (create_vault_op env name)"

definition list_vaults :: "'k vault_env \<Rightarrow> (vault_world, vault_record list) io" where
  "list_vaults env = access env False (io_read (\<lambda>s. map sv_record (cs_catalog s)))"

definition get_vault :: "'k vault_env \<Rightarrow> uuid \<Rightarrow> (vault_world, vault_record option) io" where
  "get_vault env vid = access env False (io_read (\<lambda>s. map_option sv_record (find_vault vid (cs_catalog s))))"

definition delete_vault :: "'k vault_env \<Rightarrow> uuid \<Rightarrow> (vault_world, unit) io" where
  "delete_vault env vid = access env True (delete_vault_op env vid)"

definition import_secret :: "'k vault_env \<Rightarrow> uuid \<Rightarrow> secret_metadata \<Rightarrow> secret \<Rightarrow> (vault_world, unit) io" where
  "import_secret env vid metadata secret = access env True (import_secret_op env vid metadata secret)"

definition list_secrets :: "'k vault_env \<Rightarrow> vault_record \<Rightarrow> (vault_world, secret_metadata list) io" where
  "list_secrets env h = access env False (list_secrets_op env (vr_id h))"

definition put_secret :: "'k vault_env \<Rightarrow> vault_record \<Rightarrow> put_secret_request \<Rightarrow> (vault_world, uuid) io" where
  "put_secret env h request = access env True (put_secret_op env (vr_id h) request)"

definition get_secret :: "'k vault_env \<Rightarrow> vault_record \<Rightarrow> uuid \<Rightarrow> (vault_world, secret option) io" where
  "get_secret env h sid = access env False (get_secret_op env (vr_id h) sid)"

definition update_secret :: "'k vault_env \<Rightarrow> vault_record \<Rightarrow> uuid \<Rightarrow> update_secret_request \<Rightarrow> (vault_world, secret_metadata) io" where
  "update_secret env h sid request =
     io_bind (io_lift (ensure (ur_secret request \<noteq> None \<or> ur_policy request \<noteq> None) ''provide a secret value or destination to update'')) (\<lambda>_.
     access env True (update_secret_op env (vr_id h) sid request))"

definition delete_secret :: "'k vault_env \<Rightarrow> vault_record \<Rightarrow> uuid \<Rightarrow> (vault_world, unit) io" where
  "delete_secret env h sid = access env True (delete_secret_op env (vr_id h) sid)"

definition read_for_destination :: "'k vault_env \<Rightarrow> vault_record \<Rightarrow> uuid \<Rightarrow> credential_destination \<Rightarrow> (vault_world, resolved_secret) io" where
  "read_for_destination env h sid target =
     io_bind (io_lift (destination_normalized (ve_parse env) target)) (\<lambda>t.
     access env False (read_op env (vr_id h) sid t))"

section \<open>Refreshing\<close>

definition vault_call :: "(vault_world, nat) io" where
  "vault_call w = (Ok (vw_calls w), w\<lparr>vw_calls := Suc (vw_calls w)\<rparr>)"

definition needs_refresh :: "'k vault_env \<Rightarrow> secret \<Rightarrow> (vault_world, bool) io" where
  "needs_refresh env secret =
     io_bind vault_call (\<lambda>n.
     io_return (case secret of Oauth _ _ (Some expires_at) _ \<Rightarrow> expires_at \<le> saturating_add (ve_now env n) 60 | _ \<Rightarrow> False))"

text \<open>24 hours in nanoseconds.\<close>

definition GITHUB_CACHE_TTL :: nat where
  "GITHUB_CACHE_TTL = 24 * 60 * 60 * 10 ^ 9"

definition github_cache_fresh :: "'k vault_env \<Rightarrow> uuid \<Rightarrow> u64 \<Rightarrow> (vault_world, bool) io" where
  "github_cache_fresh env sid revision =
     io_bind vault_call (\<lambda>n.
     io_read (\<lambda>w. case map_of (vw_checked w) sid of
         None \<Rightarrow> False
       | Some (checked_revision, at) \<Rightarrow> checked_revision = revision \<and> ve_instant env n - at < GITHUB_CACHE_TTL))"

definition remember_checked :: "'k vault_env \<Rightarrow> uuid \<Rightarrow> u64 \<Rightarrow> (vault_world, unit) io" where
  "remember_checked env sid revision =
     io_bind vault_call (\<lambda>n.
     io_modify (\<lambda>w. w\<lparr>vw_checked := AList.update sid (revision, ve_instant env n)
        (filter (\<lambda>(_, _, at). ve_instant env n - at < GITHUB_CACHE_TTL) (vw_checked w))\<rparr>))"

definition oauth_refresh_secret :: "'k vault_env \<Rightarrow> secret \<Rightarrow> (vault_world, secret) io" where
  "oauth_refresh_secret env secret =
     (case secret of
        Oauth _ refresh_token _ refresh \<Rightarrow>
          io_bind (io_lift (ok_or refresh ''OAuth refresh credentials are missing; re-authorize this credential'')) (\<lambda>config.
          io_bind (io_lift (ok_or refresh_token ''OAuth refresh credentials are missing; re-authorize this credential'')) (\<lambda>token.
          io_bind vault_call (\<lambda>n.
          io_bind (io_lift (ve_exchange env n config token)) (\<lambda>response.
          io_return (Oauth (to_access_token response)
             (Some (case to_refresh_token response of Some t \<Rightarrow> t | None \<Rightarrow> token))
             (map_option (saturating_add (ve_now env n)) (to_expires_in response))
             (Some (case to_scopes response of Some scopes \<Rightarrow> config\<lparr>or_scopes := scopes\<rparr> | None \<Rightarrow> config)))))))
      | _ \<Rightarrow> io_lift (bail ''credential is not an OAuth grant''))"

definition new_secret :: "'k vault_env \<Rightarrow> secret \<Rightarrow> (vault_world, secret) io" where
  "new_secret env secret =
     (case secret of
        GithubCli _ account \<Rightarrow>
          io_bind vault_call (\<lambda>n.
          io_bind (io_lift (ve_github_token env n account)) (\<lambda>v. io_return (GithubCli v account)))
      | _ \<Rightarrow> oauth_refresh_secret env secret)"

fun is_github :: "secret \<Rightarrow> bool" where
  "is_github (GithubCli _ _) = True"
| "is_github _ = False"

text \<open>After a token was obtained: the catalog is written when the token is new, and read again when it is the same.
  The flag tells whether the result is another task's, which is returned as it is.\<close>

definition settle_refresh :: "'k vault_env \<Rightarrow> vault_record \<Rightarrow> uuid \<Rightarrow> credential_destination \<Rightarrow> resolved_secret \<Rightarrow> secret
    \<Rightarrow> (vault_world, bool \<times> resolved_secret) io" where
  "settle_refresh env h sid target resolved secret =
     (if secret = rs_secret resolved then
        io_bind (read_for_destination env h sid target) (\<lambda>current.
        io_return (rs_revision current \<noteq> rs_revision resolved, current))
      else
        io_bind (access env True (rotate_op env (vr_id h) sid (rs_revision resolved) secret)) (\<lambda>rotated.
        io_return (False, rotated)))"

text \<open>The part of a refresh that follows the checks: a new token is obtained, settled, and remembered as checked.\<close>

definition replace_rejected :: "'k vault_env \<Rightarrow> vault_record \<Rightarrow> uuid \<Rightarrow> credential_destination \<Rightarrow> resolved_secret \<Rightarrow> (vault_world, resolved_secret) io" where
  "replace_rejected env h sid target resolved =
     io_bind (new_secret env (rs_secret resolved)) (\<lambda>secret.
     io_bind (settle_refresh env h sid target resolved secret) (\<lambda>(other, settled).
     if other then io_return settled
     else
       io_bind (if is_github (rs_secret resolved) then remember_checked env sid (rs_revision settled) else io_return ()) (\<lambda>_.
       io_return settled)))"

definition refresh_secret :: "'k vault_env \<Rightarrow> vault_record \<Rightarrow> uuid \<Rightarrow> credential_destination \<Rightarrow> u64 \<Rightarrow> bool \<Rightarrow> (vault_world, resolved_secret) io" where
  "refresh_secret env h sid target rejected_revision force =
     io_bind vault_call (\<lambda>n.
     io_bind (io_lift (ve_guard env n)) (\<lambda>_.
     io_bind (read_for_destination env h sid target) (\<lambda>resolved.
     if rs_revision resolved \<noteq> rejected_revision then io_return resolved
     else
       io_bind (if is_github (rs_secret resolved) \<and> \<not> force then github_cache_fresh env sid (rs_revision resolved) else io_return False) (\<lambda>fresh.
       if fresh then io_return resolved
       else replace_rejected env h sid target resolved))))"

definition resolve_credentials :: "'k vault_env \<Rightarrow> vault_record \<Rightarrow> uuid \<Rightarrow> credential_destination \<Rightarrow> (vault_world, resolved_secret) io" where
  "resolve_credentials env h sid target =
     io_bind (read_for_destination env h sid target) (\<lambda>resolved.
     io_bind (if is_github (rs_secret resolved)
              then io_bind (github_cache_fresh env sid (rs_revision resolved)) (\<lambda>fresh. io_return (\<not> fresh))
              else needs_refresh env (rs_secret resolved)) (\<lambda>needs.
     if \<not> needs then io_return resolved
     else refresh_secret env h sid target (rs_revision resolved) False))"

section \<open>Requests to a store\<close>

datatype vault_request =
    Create_Vault string
  | Global_Vault
  | List_Vaults
  | Get_Vault uuid
  | Delete_Vault uuid
  | List_Secrets vault_record
  | Put_Secret vault_record put_secret_request
  | Get_Secret vault_record uuid
  | Update_Secret vault_record uuid update_secret_request
  | Delete_Secret vault_record uuid
  | Resolve_Secret vault_record uuid credential_destination
  | Refresh_Secret vault_record uuid credential_destination u64
  | Import_Secret uuid secret_metadata secret

datatype vault_answer =
    A_Unit | A_Vault vault_record | A_Vaults "vault_record list" | A_Found "vault_record option" | A_Metadata "secret_metadata list"
  | A_Id uuid | A_Secret "secret option" | A_Updated secret_metadata | A_Resolved resolved_secret

definition answering :: "('a \<Rightarrow> vault_answer) \<Rightarrow> (vault_world, 'a) io \<Rightarrow> (vault_world, vault_answer) io" where
  "answering f m = io_bind m (\<lambda>x. io_return (f x))"

fun vault_perform :: "'k vault_env \<Rightarrow> vault_request \<Rightarrow> (vault_world, vault_answer) io" where
  "vault_perform env (Create_Vault name) = answering A_Vault (create_vault env name)"
| "vault_perform env Global_Vault = answering A_Vault (global_vault env)"
| "vault_perform env List_Vaults = answering A_Vaults (list_vaults env)"
| "vault_perform env (Get_Vault vid) = answering A_Found (get_vault env vid)"
| "vault_perform env (Delete_Vault vid) = answering (\<lambda>_. A_Unit) (delete_vault env vid)"
| "vault_perform env (List_Secrets h) = answering A_Metadata (list_secrets env h)"
| "vault_perform env (Put_Secret h request) = answering A_Id (put_secret env h request)"
| "vault_perform env (Get_Secret h sid) = answering A_Secret (get_secret env h sid)"
| "vault_perform env (Update_Secret h sid request) = answering A_Updated (update_secret env h sid request)"
| "vault_perform env (Delete_Secret h sid) = answering (\<lambda>_. A_Unit) (delete_secret env h sid)"
| "vault_perform env (Resolve_Secret h sid target) = answering A_Resolved (resolve_credentials env h sid target)"
| "vault_perform env (Refresh_Secret h sid target revision) = answering A_Resolved (refresh_secret env h sid target revision True)"
| "vault_perform env (Import_Secret vid metadata secret) = answering (\<lambda>_. A_Unit) (import_secret env vid metadata secret)"

end
