(* ===== verification/Vault_Safety.thy ===== *)
theory Vault_Safety
  imports Vault_Store
begin

text \<open>
  What the vault store guarantees (\<^verbatim>\<open>crates/exoharness/src/vault/local.rs\<close>, \<^verbatim>\<open>local/native.rs\<close>), whatever other tasks and
  processes do with the same storage: its catalogs stay well formed, and a credential is released only to a
  destination that its policy permits at that moment.
\<close>

section \<open>Operations that only read\<close>

definition ticks :: "catalog_state \<Rightarrow> catalog_state \<Rightarrow> bool" where
  "ticks s s' \<longleftrightarrow> cs_catalog s' = cs_catalog s \<and> cs_calls s \<le> cs_calls s'"

lemma ticks_refl: "reflp ticks" and ticks_trans: "transp ticks"
  by (auto simp: reflp_def transp_def ticks_def)

lemma ticks_self [simp]: "ticks s s"
  by (simp add: ticks_def)

lemmas ticks_pure = io_keeps_pure [OF ticks_refl]
lemmas ticks_bind = io_keeps_bind [OF ticks_trans]

lemma ticks_call: "io_keeps ticks catalog_call"
  by (simp add: io_keeps_def catalog_call_def ticks_def)

lemma ticks_vault: "io_keeps ticks (catalog_vault env vid)"
  by (simp add: io_keeps_def catalog_vault_def)

lemma ticks_cipher: "io_keeps ticks (encrypt_bound env secret aad)" "io_keeps ticks (decrypt_bound env encrypted aad)"
  unfolding encrypt_bound_def decrypt_bound_def by (intro ticks_bind ticks_pure ticks_call)+

lemma ticks_secret: "io_keeps ticks (encrypt_secret env vid metadata secret)" "io_keeps ticks (decrypt_stored env vid stored)"
  unfolding encrypt_secret_def decrypt_stored_def by (intro ticks_bind ticks_pure ticks_cipher)+

lemmas ticks_intros = ticks_bind ticks_pure ticks_call ticks_vault ticks_secret

lemma ticks_readers:
  "io_keeps ticks (get_secret_op env vid sid)" "io_keeps ticks (list_secrets_op env vid)" "io_keeps ticks (read_op env vid sid target)"
  "io_keeps ticks find_global"
  unfolding get_secret_op_def list_secrets_op_def read_op_def find_global_def
  by (intro ticks_intros; simp add: option.case_eq_if ticks_intros split: option.split)+

lemma ticks_run: "io_keeps ticks m \<Longrightarrow> m s = (r, s') \<Longrightarrow> ticks s s'"
  by (metis io_keeps_def snd_conv)

section \<open>Operations that fail change nothing\<close>

definition atomic :: "'a catalog_op \<Rightarrow> bool" where
  "atomic m \<longleftrightarrow> (\<forall>s e s'. m s = (Inl e, s') \<longrightarrow> ticks s s')"

lemma atomic_ticks: "io_keeps ticks m \<Longrightarrow> atomic m"
  by (auto simp: atomic_def dest: ticks_run)

lemma atomic_bind: "io_keeps ticks m \<Longrightarrow> (\<And>x. atomic (f x)) \<Longrightarrow> atomic (io_bind m f)"
  unfolding atomic_def by (auto simp: io_bind_def split: prod.splits sum.splits dest!: ticks_run) (meson ticks_trans transpD)

lemma atomic_then_return: "atomic m \<Longrightarrow> atomic (io_bind m (\<lambda>x. io_return (f x)))"
  by (auto simp: atomic_def io_bind_def io_return_def split: prod.splits sum.splits)

lemma atomic_modify: "atomic (io_modify f)"
  by (simp add: atomic_def io_modify_def)

lemma atomic_change: "atomic (change_secrets vid f)"
  by (simp add: change_secrets_def atomic_modify)

lemma atomic_store: "atomic (store_secret env vid metadata secret)"
  unfolding store_secret_def by (intro atomic_bind atomic_change ticks_intros)

lemma atomic_create: "atomic (create_vault_record env name)"
  unfolding create_vault_record_def Let_def by (intro atomic_bind atomic_then_return atomic_modify ticks_intros)

lemma atomic_option: "atomic a \<Longrightarrow> (\<And>y. atomic (f y)) \<Longrightarrow> atomic (case x of None \<Rightarrow> a | Some y \<Rightarrow> f y)"
  by (cases x) simp_all

lemma ticks_option: "io_keeps ticks a \<Longrightarrow> (\<And>y. io_keeps ticks (f y)) \<Longrightarrow> io_keeps ticks (case x of None \<Rightarrow> a | Some y \<Rightarrow> f y)"
  by (cases x) simp_all

lemmas atomic_return = atomic_ticks [OF ticks_pure(1)]

lemmas atomic_intros = atomic_option atomic_then_return atomic_modify atomic_change atomic_store atomic_create atomic_return

lemma atomic_writers:
  "atomic (ensure_global env)" "atomic (create_vault_op env name)" "atomic (delete_vault_op env vid)"
  "atomic (put_secret_op env vid request)" "atomic (update_secret_op env vid sid update)" "atomic (delete_secret_op env vid sid)"
  "atomic (rotate_op env vid sid expected secret)"
  unfolding ensure_global_def create_vault_op_def delete_vault_op_def put_secret_op_def update_secret_op_def delete_secret_op_def
    rotate_op_def Let_def
  by ((rule atomic_intros atomic_bind ticks_readers ticks_intros ticks_option)+)

lemma atomic_import: "atomic (import_secret_op env vid metadata secret)"
  unfolding import_secret_op_def
  by (intro atomic_bind atomic_option atomic_change ticks_intros atomic_ticks)

section \<open>Steps of a catalog\<close>

text \<open>Everything the store ever does to a catalog.\<close>

inductive catalog_step :: "'k vault_env \<Rightarrow> catalog_state \<Rightarrow> catalog_state \<Rightarrow> bool" for env where
  tick: "ticks s s' \<Longrightarrow> catalog_step env s s'"
| make_global: "ensure_global env s = (r, s') \<Longrightarrow> catalog_step env s s'"
| make_vault: "create_vault_op env name s = (r, s') \<Longrightarrow> catalog_step env s s'"
| drop_vault: "delete_vault_op env vid s = (r, s') \<Longrightarrow> catalog_step env s s'"
| add_entry: "put_secret_op env vid request s = (r, s') \<Longrightarrow> catalog_step env s s'"
| change_entry: "update_secret_op env vid sid change s = (r, s') \<Longrightarrow> catalog_step env s s'"
| drop_entry: "delete_secret_op env vid sid s = (r, s') \<Longrightarrow> catalog_step env s s'"
| rotate_entry: "rotate_op env vid sid expected secret s = (r, s') \<Longrightarrow> catalog_step env s s'"

text \<open>The catalog the next access will work on; of a file of the old form it is not known before it is read.\<close>

definition storage_view :: "vault_world \<Rightarrow> catalog option" where
  "storage_view w =
     (case vw_storage w of
        Memory c \<Rightarrow> Some c
      | File No_File \<Rightarrow> Some []
      | File (Catalog_File c) \<Rightarrow> Some c
      | _ \<Rightarrow> None)"

definition vault_state :: "catalog \<Rightarrow> vault_world \<Rightarrow> catalog_state" where
  "vault_state c w = \<lparr> cs_catalog = c, cs_calls = vw_calls w \<rparr>"

text \<open>What a run does to the catalog, and how far it moves the environment.\<close>

definition vault_run :: "'k vault_env \<Rightarrow> vault_world \<Rightarrow> vault_world \<Rightarrow> bool" where
  "vault_run env w w' \<longleftrightarrow> vw_calls w \<le> vw_calls w' \<and>
     (\<forall>c. storage_view w = Some c \<longrightarrow>
        (\<exists>c'. storage_view w' = Some c' \<and> (catalog_step env)\<^sup>*\<^sup>* (vault_state c w) (vault_state c' w')))"

text \<open>The same for any notion of a step.\<close>

definition runs :: "(catalog_state \<Rightarrow> catalog_state \<Rightarrow> bool) \<Rightarrow> vault_world \<Rightarrow> vault_world \<Rightarrow> bool" where
  "runs step w w' \<longleftrightarrow> vw_calls w \<le> vw_calls w' \<and>
     (\<forall>c. storage_view w = Some c \<longrightarrow>
        (\<exists>c'. storage_view w' = Some c' \<and> step\<^sup>*\<^sup>* (vault_state c w) (vault_state c' w')))"

lemma vault_run_runs: "vault_run env = runs (catalog_step env)"
  by (simp add: fun_eq_iff vault_run_def runs_def)

lemma runs_refl: "reflp (runs step)"
  by (simp add: reflp_def runs_def)

lemma runs_trans: "transp (runs step)"
  unfolding transp_def runs_def by (meson le_trans rtranclp_trans)

text \<open>The others work on the storage with the same operations, the import aside.\<close>

definition others_ok :: "'k vault_env \<Rightarrow> bool" where
  "others_ok env \<longleftrightarrow> (\<forall>n w. vault_run env w (ve_others env n w))"

lemma vault_run_refl: "reflp (vault_run env)"
  by (simp add: reflp_def vault_run_def)

lemma vault_run_trans: "transp (vault_run env)"
  unfolding transp_def vault_run_def by (meson le_trans rtranclp_trans)

lemmas run_pure = io_keeps_pure [OF vault_run_refl]
lemmas run_bind = io_keeps_bind [OF vault_run_trans]

lemma run_calls: "storage_view w' = storage_view w \<Longrightarrow> vw_calls w \<le> vw_calls w' \<Longrightarrow> vault_run env w w'"
  by (auto simp: vault_run_def vault_state_def ticks_def intro!: catalog_step.tick)

definition stepping :: "'k vault_env \<Rightarrow> 'a catalog_op \<Rightarrow> bool" where
  "stepping env m \<longleftrightarrow> (\<forall>s. catalog_step env s (snd (m s)))"

lemma stepping_readers: "io_keeps ticks m \<Longrightarrow> stepping env m"
  by (simp add: stepping_def io_keeps_def catalog_step.tick)

lemma stepping_writers:
  "stepping env (ensure_global env)" "stepping env (create_vault_op env name)" "stepping env (delete_vault_op env vid)"
  "stepping env (put_secret_op env vid request)" "stepping env (update_secret_op env vid sid change)"
  "stepping env (delete_secret_op env vid sid)" "stepping env (rotate_op env vid sid expected secret)"
  by (auto simp: stepping_def intro: catalog_step.intros prod.collapse [symmetric])

text \<open>The environment only advances.\<close>

definition advances :: "catalog_state \<Rightarrow> catalog_state \<Rightarrow> bool" where
  "advances s s' \<longleftrightarrow> cs_calls s \<le> cs_calls s'"

lemma advances_refl: "reflp advances" and advances_trans: "transp advances"
  by (auto simp: reflp_def transp_def advances_def)

lemma advances_ticks: "io_keeps ticks m \<Longrightarrow> io_keeps advances m"
  by (simp add: io_keeps_def ticks_def advances_def)

lemma advances_modify: "io_keeps advances (io_modify (\<lambda>s. s\<lparr>cs_catalog := f s\<rparr>))"
  by (simp add: io_keeps_def io_modify_def advances_def)

lemma advances_change: "io_keeps advances (change_secrets vid f)"
  by (simp add: change_secrets_def advances_modify)

lemma advances_option: "io_keeps advances a \<Longrightarrow> (\<And>y. io_keeps advances (f y)) \<Longrightarrow> io_keeps advances (case x of None \<Rightarrow> a | Some y \<Rightarrow> f y)"
  by (cases x) simp_all

lemmas advances_intros = io_keeps_bind [OF advances_trans] advances_option advances_modify advances_change io_keeps_pure [OF advances_refl]
  ticks_secret [THEN advances_ticks] ticks_vault [THEN advances_ticks] ticks_call [THEN advances_ticks] ticks_readers [THEN advances_ticks]

lemma advances_writers:
  "io_keeps advances (ensure_global env)" "io_keeps advances (create_vault_op env name)" "io_keeps advances (delete_vault_op env vid)"
  "io_keeps advances (put_secret_op env vid request)" "io_keeps advances (update_secret_op env vid sid change)"
  "io_keeps advances (delete_secret_op env vid sid)" "io_keeps advances (rotate_op env vid sid expected secret)"
  unfolding ensure_global_def create_vault_op_def delete_vault_op_def put_secret_op_def update_secret_op_def delete_secret_op_def
    rotate_op_def create_vault_record_def store_secret_def Let_def
  by ((rule advances_intros)+)

lemma advances_import: "io_keeps advances (import_secret_op env vid metadata secret)"
  unfolding import_secret_op_def by ((rule advances_intros)+)

lemma advances_run: "io_keeps advances m \<Longrightarrow> m s = (r, s') \<Longrightarrow> cs_calls s \<le> cs_calls s'"
  by (metis io_keeps_def snd_conv advances_def)

lemma catalog_step_advances: "catalog_step env s s' \<Longrightarrow> advances s s'"
  unfolding advances_def
  by (induction rule: catalog_step.induct) (simp add: ticks_def, (erule advances_run [OF advances_writers(1)] advances_run [OF advances_writers(2)]
      advances_run [OF advances_writers(3)] advances_run [OF advances_writers(4)] advances_run [OF advances_writers(5)]
      advances_run [OF advances_writers(6)] advances_run [OF advances_writers(7)])+)

text \<open>The migration of the secrets that agents and threads kept beside the vaults adds entries of its own: it takes over
  the metadata as they were, with no check of the name or the policy. \<open>I\<close> holds the identifiers of such secrets.\<close>

inductive store_step :: "'k vault_env \<Rightarrow> uuid set \<Rightarrow> catalog_state \<Rightarrow> catalog_state \<Rightarrow> bool" for env I where
  own_step: "catalog_step env s s' \<Longrightarrow> store_step env I s s'"
| import_entry: "import_secret_op env vid metadata secret s = (r, s') \<Longrightarrow> sm_id metadata \<in> I \<Longrightarrow> store_step env I s s'"

lemma store_step_advances: "store_step env I s s' \<Longrightarrow> advances s s'"
  by (induction rule: store_step.induct) (auto simp: advances_def dest: advances_run [OF advances_import] catalog_step_advances [unfolded advances_def])

lemma for_each_advances: "(\<And>x. io_keeps advances (f x)) \<Longrightarrow> io_keeps advances (for_each f xs)"
  by (induction xs) (auto intro!: advances_intros)

lemma read_catalog_advances: "io_keeps advances (read_catalog env doc)"
  unfolding read_catalog_def migrate_vault_def migrate_secret_def
  by (cases doc) (auto simp: Let_def intro!: advances_intros for_each_advances ticks_cipher [THEN advances_ticks])

definition others_run :: "(catalog_state \<Rightarrow> catalog_state \<Rightarrow> bool) \<Rightarrow> 'k vault_env \<Rightarrow> bool" where
  "others_run step env \<longleftrightarrow> (\<forall>n w. runs step w (ve_others env n w))"

definition moving :: "(catalog_state \<Rightarrow> catalog_state \<Rightarrow> bool) \<Rightarrow> 'a catalog_op \<Rightarrow> bool" where
  "moving step m \<longleftrightarrow> (\<forall>s. step s (snd (m s)))"

text \<open>The contract of a notion of steps: it has every step of the store itself, and time only moves forward.\<close>

locale catalog_moves =
  fixes env :: "'k vault_env" and step :: "catalog_state \<Rightarrow> catalog_state \<Rightarrow> bool"
  assumes own_steps: "catalog_step env s s' \<Longrightarrow> step s s'" and steps_advance: "step s s' \<Longrightarrow> advances s s'"
begin

lemma moving_own: "stepping env m \<Longrightarrow> moving step m"
  by (simp add: stepping_def moving_def own_steps)

lemma moving_advances: "moving step m \<Longrightarrow> io_keeps advances m"
  by (simp add: moving_def io_keeps_def steps_advance)

lemma runs_calls: "storage_view w' = storage_view w \<Longrightarrow> vw_calls w \<le> vw_calls w' \<Longrightarrow> runs step w w'"
  by (auto simp: runs_def vault_state_def ticks_def intro!: own_steps catalog_step.tick)

end

lemma stepping_advances: "stepping env m \<Longrightarrow> io_keeps advances m"
  unfolding stepping_def io_keeps_def using catalog_step_advances by blast

section \<open>Access\<close>

text \<open>The world an access finds, and what it does there.\<close>

definition met :: "'k vault_env \<Rightarrow> vault_world \<Rightarrow> vault_world" where
  "met env w = ve_others env (vw_calls w) (w\<lparr>vw_calls := Suc (vw_calls w)\<rparr>)"

lemma access_met:
  "access env write m w = (case vw_storage (met env w) of
     Memory c \<Rightarrow> access_memory c m (met env w) | File doc \<Rightarrow> access_file env doc write m (met env w))"
  unfolding access_def met_def Let_def by (rule refl)

lemma file_result:
  assumes "access_file env doc write m w = (r, w')" and "io_keeps advances m"
  shows "vw_calls w \<le> vw_calls w' \<and>
    (\<forall>c. storage_view (w\<lparr>vw_storage := File doc\<rparr>) = Some c \<longrightarrow>
       (\<exists>r' s'. m (vault_state c w) = (r', s') \<and> (vw_storage w' = vw_storage w \<and> vw_calls w' \<in> {vw_calls w, cs_calls s'} \<or>
          vw_storage w' = File (Catalog_File (cs_catalog s')) \<and> vw_calls w' = cs_calls s')))"
proof -
  obtain q s where q: "read_catalog env doc \<lparr> cs_catalog = [], cs_calls = vw_calls w \<rparr> = (q, s)" by fastforce
  have s: "vw_calls w \<le> cs_calls s" using advances_run [OF read_catalog_advances q] by simp
  show ?thesis
  proof (cases "\<exists>c migrated. q = Inr (c, migrated) \<and> is_ok (ve_lock env (vw_calls w))")
    case True
    then obtain c migrated where c: "q = Inr (c, migrated)" "is_ok (ve_lock env (vw_calls w))" by blast
    obtain r' s' where op: "m (s\<lparr>cs_catalog := c\<rparr>) = (r', s')" by fastforce
    have "cs_calls s \<le> cs_calls s'" using advances_run [OF assms(2) op] by simp
    moreover have "s\<lparr>cs_catalog := c\<rparr> = vault_state c' w" if "storage_view (w\<lparr>vw_storage := File doc\<rparr>) = Some c'" for c'
      using that q c(1) by (cases doc) (auto simp: storage_view_def read_catalog_def io_return_def vault_state_def)
    ultimately show ?thesis
      using assms(1) q c op s
      by (auto simp: access_file_def replace_file_def is_ok_def Let_def split: if_splits sum.splits)
  next
    case False
    have "\<exists>c migrated. q = Inr (c, migrated)" if "storage_view (w\<lparr>vw_storage := File doc\<rparr>) = Some c" for c
      using that q by (cases doc) (auto simp: storage_view_def read_catalog_def io_return_def)
    moreover have "\<exists>e w'. (r, w') = (Inl e, w) \<or> \<not> (\<exists>c migrated. q = Inr (c, migrated))"
      using False assms(1) q by (auto simp: access_file_def is_ok_def Let_def split: sum.splits)
    ultimately show ?thesis
      using False assms(1) q s prod.collapse [of "m (vault_state _ w)", symmetric]
      by (cases "ve_lock env (vw_calls w)"; cases q) (auto simp: access_file_def Let_def)
  qed
qed

context catalog_moves
begin

lemma met_runs:
  assumes "others_run step env"
  shows "runs step w (met env w)"
proof -
  have "runs step w (w\<lparr>vw_calls := Suc (vw_calls w)\<rparr>)" by (rule runs_calls) (simp_all add: storage_view_def)
  moreover have "runs step (w\<lparr>vw_calls := Suc (vw_calls w)\<rparr>) (met env w)" using assms by (simp add: others_run_def met_def)
  ultimately show ?thesis using runs_trans by (metis transpD)
qed

lemma access_moves:
  assumes "others_run step env" and "moving step m"
  shows "io_keeps (runs step) (access env write m)"
proof -
  have "runs step (met env w) (snd (access env write m w))" for w
  proof (cases "vw_storage (met env w)")
    case (Memory c)
    obtain r s where op: "m (vault_state c (met env w)) = (r, s)" by fastforce
    then have step: "step (vault_state c (met env w)) s" using assms(2) by (metis moving_def snd_conv)
    have "access env write m w = (r, (met env w)\<lparr>vw_storage := Memory (cs_catalog s), vw_calls := cs_calls s\<rparr>)"
      using Memory op by (simp add: access_met access_memory_def vault_state_def)
    moreover have "cs_calls (vault_state c (met env w)) \<le> cs_calls s" using steps_advance [OF step] by (simp add: advances_def)
    moreover have "vault_state (cs_catalog s) ((met env w)\<lparr>vw_storage := Memory (cs_catalog s), vw_calls := cs_calls s\<rparr>) = s"
      by (simp add: vault_state_def)
    moreover have "storage_view (met env w) = Some c" using Memory by (simp add: storage_view_def)
    ultimately show ?thesis
      using step by (auto simp: runs_def storage_view_def [of "(met env w)\<lparr>vw_storage := _, vw_calls := _\<rparr>"] vault_state_def [of c])
  next
    case (File doc)
    obtain r w' where run: "access_file env doc write m (met env w) = (r, w')" by fastforce
    have same: "(met env w)\<lparr>vw_storage := File doc\<rparr> = met env w" using File by simp
    note result = file_result [OF run moving_advances [OF assms(2)], unfolded same]
    have "\<exists>c'. storage_view w' = Some c' \<and> step\<^sup>*\<^sup>* (vault_state c (met env w)) (vault_state c' w')"
      if c: "storage_view (met env w) = Some c" for c
    proof -
      obtain r' s' where op: "m (vault_state c (met env w)) = (r', s')"
        "vw_storage w' = vw_storage (met env w) \<and> vw_calls w' \<in> {vw_calls (met env w), cs_calls s'} \<or>
         vw_storage w' = File (Catalog_File (cs_catalog s')) \<and> vw_calls w' = cs_calls s'" using result c by blast
      have step: "step (vault_state c (met env w)) s'" using assms(2) op(1) by (metis moving_def snd_conv)
      show ?thesis
      proof (cases "vw_storage w' = vw_storage (met env w)")
        case True
        then have "storage_view w' = Some c" using c by (simp add: storage_view_def)
        moreover have "ticks (vault_state c (met env w)) (vault_state c w')" using result by (simp add: ticks_def vault_state_def)
        ultimately show ?thesis by (blast intro: catalog_step.tick own_steps)
      next
        case False
        then have "storage_view w' = Some (cs_catalog s')" "vault_state (cs_catalog s') w' = s'"
          using op(2) by (auto simp: storage_view_def vault_state_def)
        then show ?thesis using step by auto
      qed
    qed
    then show ?thesis using File run result by (simp add: access_met runs_def)
  qed
  then show ?thesis using met_runs [OF assms(1)] runs_trans by (metis io_keeps_def transpD)
qed

end

interpretation own: catalog_moves env "catalog_step env" for env :: "'k vault_env"
  by unfold_locales (simp_all add: catalog_step_advances)

interpretation store: catalog_moves env "store_step env I" for env :: "'k vault_env" and I
  by unfold_locales (auto intro: store_step.own_step store_step_advances)

lemma own_others: "others_run (catalog_step env) env \<longleftrightarrow> others_ok env"
  by (simp add: others_run_def others_ok_def vault_run_runs)

lemma own_moving: "moving (catalog_step env) m \<longleftrightarrow> stepping env m"
  by (simp add: moving_def stepping_def)

text \<open>Others that may also import secrets with the identifiers \<open>I\<close>.\<close>

definition others_import :: "'k vault_env \<Rightarrow> uuid set \<Rightarrow> bool" where
  "others_import env I \<longleftrightarrow> (\<forall>n w. runs (store_step env I) w (ve_others env n w))"

lemma others_import_run: "others_import env I \<longleftrightarrow> others_run (store_step env I) env"
  by (simp add: others_import_def others_run_def)

lemma others_ok_import:
  assumes "others_ok env"
  shows "others_import env I"
  unfolding others_import_def
proof (intro allI)
  fix n w
  have "(store_step env I)\<^sup>*\<^sup>* s s'" if "(catalog_step env)\<^sup>*\<^sup>* s s'" for s s'
    using that by (rule rtranclp_mono [THEN predicate2D, rotated]) (auto intro: store_step.own_step)
  moreover have "runs (catalog_step env) w (ve_others env n w)" using assms by (simp add: others_ok_def vault_run_runs)
  ultimately show "runs (store_step env I) w (ve_others env n w)" unfolding runs_def by blast
qed

lemma met_run: "others_ok env \<Longrightarrow> vault_run env w (met env w)"
  using own.met_runs by (simp add: own_others vault_run_runs)

lemma access_keeps: "others_ok env \<Longrightarrow> stepping env m \<Longrightarrow> io_keeps (vault_run env) (access env write m)"
  using own.access_moves by (simp add: own_others own_moving vault_run_runs)

lemma access_Inr:
  assumes "access env write m w = (Inr x, w')" and "write \<or> io_keeps ticks m"
  shows "\<exists>s s'. m s = (Inr x, s') \<and> storage_view w' = Some (cs_catalog s') \<and>
    (\<forall>c. storage_view (met env w) = Some c \<longrightarrow> s = vault_state c (met env w))"
proof (cases "vw_storage (met env w)")
  case (Memory c)
  then show ?thesis
    using assms(1) by (auto simp: access_met access_memory_def storage_view_def vault_state_def split: prod.splits)
next
  case (File doc)
  obtain c migrated s s' where r: "read_catalog env doc \<lparr> cs_catalog = [], cs_calls = vw_calls (met env w) \<rparr> = (Inr (c, migrated), s)"
    "m (s\<lparr>cs_catalog := c\<rparr>) = (Inr x, s')"
    "if \<not> write \<and> \<not> migrated then w' = (met env w)\<lparr>vw_calls := cs_calls s'\<rparr> else vw_storage w' = File (Catalog_File (cs_catalog s'))"
    using assms(1) File
    by (auto simp: access_met access_file_def replace_file_def Let_def split: sum.splits prod.splits if_splits)
  have known: "s\<lparr>cs_catalog := c\<rparr> = vault_state c' (met env w)" if "storage_view (met env w) = Some c'" for c'
    using that r(1) File by (cases doc) (auto simp: storage_view_def read_catalog_def io_return_def vault_state_def)
  have "storage_view w' = Some (cs_catalog s')"
  proof (cases "\<not> write \<and> \<not> migrated")
    case True
    then have "cs_catalog s' = c" using assms(2) ticks_run [of m, OF _ r(2)] by (simp add: ticks_def)
    moreover have "storage_view (met env w) = Some c"
      using r(1) File True by (cases doc) (auto simp: storage_view_def read_catalog_def io_return_def io_lift_def result_simps)
    ultimately show ?thesis using r(3) True by (simp add: storage_view_def)
  next
    case False
    then show ?thesis using r(3) by (auto simp: storage_view_def)
  qed
  then show ?thesis using r(2) known by blast
qed

section \<open>How secrets evolve\<close>

definition stored_at :: "catalog \<Rightarrow> uuid \<Rightarrow> uuid \<Rightarrow> stored_secret option" where
  "stored_at c vid sid = Option.bind (find_vault vid c) (find_stored sid)"

text \<open>A secret that was there before keeps its place or its revision has grown; another one is new or imported.\<close>

definition evolves :: "'k vault_env \<Rightarrow> uuid set \<Rightarrow> catalog_state \<Rightarrow> catalog_state \<Rightarrow> bool" where
  "evolves env I s s' \<longleftrightarrow> cs_calls s \<le> cs_calls s' \<and>
     (\<forall>vid sid st'. stored_at (cs_catalog s') vid sid = Some st' \<and> sid \<notin> I \<longrightarrow>
        (\<exists>n. cs_calls s \<le> n \<and> n < cs_calls s' \<and> sid = ve_id env n) \<or>
        (\<exists>st. stored_at (cs_catalog s) vid sid = Some st \<and> sm_revision (ss_metadata st) \<le> sm_revision (ss_metadata st') \<and>
           (sm_revision (ss_metadata st) = sm_revision (ss_metadata st') \<longrightarrow> st' = st)))"

lemma evolves_ticks: "ticks s s' \<Longrightarrow> evolves env I s s'"
  by (auto simp: evolves_def ticks_def)

lemma evolves_trans:
  assumes "evolves env I s s'" and "evolves env I s' s''"
  shows "evolves env I s s''"
proof -
  have calls: "cs_calls s \<le> cs_calls s'" "cs_calls s' \<le> cs_calls s''" using assms by (simp_all add: evolves_def)
  have "(\<exists>n. cs_calls s \<le> n \<and> n < cs_calls s'' \<and> sid = ve_id env n) \<or>
      (\<exists>st. stored_at (cs_catalog s) vid sid = Some st \<and> sm_revision (ss_metadata st) \<le> sm_revision (ss_metadata st'') \<and>
         (sm_revision (ss_metadata st) = sm_revision (ss_metadata st'') \<longrightarrow> st'' = st))"
    if there: "stored_at (cs_catalog s'') vid sid = Some st''" "sid \<notin> I" for vid sid st''
  proof (cases "\<exists>n. cs_calls s' \<le> n \<and> n < cs_calls s'' \<and> sid = ve_id env n")
    case True
    then show ?thesis using calls le_trans by blast
  next
    case False
    then obtain st' where st': "stored_at (cs_catalog s') vid sid = Some st'" "sm_revision (ss_metadata st') \<le> sm_revision (ss_metadata st'')"
      "sm_revision (ss_metadata st') = sm_revision (ss_metadata st'') \<longrightarrow> st'' = st'" using assms(2) there unfolding evolves_def by blast
    from assms(1) st'(1) there(2) consider (fresh) n where "cs_calls s \<le> n" "n < cs_calls s'" "sid = ve_id env n"
      | (old) st where "stored_at (cs_catalog s) vid sid = Some st" "sm_revision (ss_metadata st) \<le> sm_revision (ss_metadata st')"
          "sm_revision (ss_metadata st) = sm_revision (ss_metadata st') \<longrightarrow> st' = st" unfolding evolves_def by blast
    then show ?thesis
    proof cases
      case fresh
      then show ?thesis using calls less_le_trans by blast
    next
      case old
      have "st'' = st" if "sm_revision (ss_metadata st) = sm_revision (ss_metadata st'')"
        using that old(2,3) st'(2,3) by (metis antisym)
      then show ?thesis using old st'(2) order_trans by blast
    qed
  qed
  moreover have "cs_calls s \<le> cs_calls s''" using calls by simp
  ultimately show ?thesis unfolding evolves_def by blast
qed

lemma find_vault_set: "find_vault vid' (set_secrets vid f c) =
    (if vid' = vid then map_option (\<lambda>v. v\<lparr>sv_secrets := f (sv_secrets v)\<rparr>) (find_vault vid c) else find_vault vid' c)"
  by (induction c) (auto simp: find_vault_def set_secrets_def)

lemma stored_at_set: "stored_at (set_secrets vid f c) vid' sid =
    (if vid' = vid then Option.bind (find_vault vid c) (\<lambda>v. List.find (\<lambda>s. sm_id (ss_metadata s) = sid) (f (sv_secrets v)))
     else stored_at c vid' sid)"
  by (cases "find_vault vid c") (auto simp: stored_at_def find_vault_set find_stored_def)

lemma find_replaced:
  assumes "sm_id (ss_metadata st) = sid"
  shows "List.find (\<lambda>s. sm_id (ss_metadata s) = sid') (replace_stored sid st ss) =
    (if sid' = sid then map_option (\<lambda>_. st) (List.find (\<lambda>s. sm_id (ss_metadata s) = sid) ss) else List.find (\<lambda>s. sm_id (ss_metadata s) = sid') ss)"
  using assms by (induction ss) (auto simp: replace_stored_def)

lemma find_filtered: "(\<And>x. P x \<Longrightarrow> Q x) \<Longrightarrow> List.find P (filter Q xs) = List.find P xs"
  by (induction xs) auto

lemma find_removed: "(\<And>x. P x \<Longrightarrow> \<not> Q x) \<Longrightarrow> List.find P (filter Q xs) = None"
  by (induction xs) auto

lemma find_snoc: "List.find P (xs @ [x]) = (case List.find P xs of Some y \<Rightarrow> Some y | None \<Rightarrow> if P x then Some x else None)"
  by (induction xs) auto

section \<open>What the operations write\<close>

text \<open>A secret was encrypted for this place.\<close>

definition sealed :: "'k vault_env \<Rightarrow> uuid \<Rightarrow> stored_secret \<Rightarrow> secret \<Rightarrow> bool" where
  "sealed env vid st secret \<longleftrightarrow> (\<exists>n k. ve_key env n = Inr k \<and> es_nonce (ss_secret st) = ve_nonce env n \<and>
     ve_seal env k (es_nonce (ss_secret st)) (ve_secret_json env secret) (ve_aad env vid (ss_metadata st)) = Some (es_ciphertext (ss_secret st)))"

text \<open>A secret is decrypted in this place.\<close>

definition opens :: "'k vault_env \<Rightarrow> uuid \<Rightarrow> stored_secret \<Rightarrow> secret \<Rightarrow> bool" where
  "opens env vid st secret \<longleftrightarrow> (\<exists>n k m. ve_key env n = Inr k \<and> length (es_nonce (ss_secret st)) = NONCE_LEN \<and>
     ve_open env k (es_nonce (ss_secret st)) (es_ciphertext (ss_secret st)) (ve_aad env vid (ss_metadata st)) = Some m \<and>
     ve_parse_secret env m = Inr secret)"

definition valid_for :: "'k vault_env \<Rightarrow> secret_metadata \<Rightarrow> secret \<Rightarrow> bool" where
  "valid_for env metadata secret \<longleftrightarrow> validate_secret (ve_parse env) secret (sm_policy metadata) = Inr ()"

lemma encrypt_secret_Inr:
  assumes "encrypt_secret env vid metadata secret s = (Inr encrypted, s')"
  shows "s' = s\<lparr>cs_calls := Suc (cs_calls s)\<rparr>" and "valid_for env metadata secret"
    and "sealed env vid \<lparr> ss_metadata = metadata, ss_secret = encrypted \<rparr> secret"
proof -
  obtain k c where r: "valid_for env metadata secret" "ve_key env (cs_calls s) = Inr k" "s' = s\<lparr>cs_calls := Suc (cs_calls s)\<rparr>"
    "ve_seal env k (ve_nonce env (cs_calls s)) (ve_secret_json env secret) (ve_aad env vid metadata) = Some c"
    "encrypted = \<lparr> es_nonce = ve_nonce env (cs_calls s), es_ciphertext = c \<rparr>"
    using assms unfolding encrypt_secret_def encrypt_bound_def
    by (auto simp: io_bind_Inr_iff io_lift_def io_return_def catalog_call_def result_simps valid_for_def)
  then show "s' = s\<lparr>cs_calls := Suc (cs_calls s)\<rparr>" "valid_for env metadata secret" by blast+
  show "sealed env vid \<lparr> ss_metadata = metadata, ss_secret = encrypted \<rparr> secret"
    unfolding sealed_def using r(2,4,5) by (intro exI [of _ "cs_calls s"] exI [of _ k]) simp
qed

lemma decrypt_stored_Inr:
  assumes "decrypt_stored env vid st s = (Inr secret, s')"
  shows "s' = s\<lparr>cs_calls := Suc (cs_calls s)\<rparr>" and "opens env vid st secret"
  using assms unfolding decrypt_stored_def decrypt_bound_def
  by (auto simp: io_bind_Inr_iff io_lift_def catalog_call_def result_simps opens_def)

lemma store_secret_Inr:
  assumes "store_secret env vid metadata secret s = (Inr u, s')"
  shows "\<exists>encrypted. valid_for env metadata secret \<and> sealed env vid \<lparr> ss_metadata = metadata, ss_secret = encrypted \<rparr> secret \<and>
    s' = \<lparr> cs_catalog = set_secrets vid (replace_stored (sm_id metadata) \<lparr> ss_metadata = metadata, ss_secret = encrypted \<rparr>) (cs_catalog s),
           cs_calls = Suc (cs_calls s) \<rparr>"
proof -
  obtain encrypted s1 where r: "encrypt_secret env vid metadata secret s = (Inr encrypted, s1)"
    "s' = s1\<lparr>cs_catalog := set_secrets vid (replace_stored (sm_id metadata) \<lparr> ss_metadata = metadata, ss_secret = encrypted \<rparr>) (cs_catalog s1)\<rparr>"
    using assms unfolding store_secret_def change_secrets_def by (auto simp: io_bind_Inr_iff io_modify_def)
  then show ?thesis using encrypt_secret_Inr [OF r(1)] by (intro exI [of _ encrypted]) simp
qed

lemma create_record_run:
  "create_vault_record env name s = (Inr \<lparr> vr_id = ve_id env (cs_calls s), vr_name = name, vr_created_at = ve_utc env (cs_calls s) \<rparr>,
     \<lparr> cs_catalog = cs_catalog s @ [\<lparr> sv_record = \<lparr> vr_id = ve_id env (cs_calls s), vr_name = name, vr_created_at = ve_utc env (cs_calls s) \<rparr>,
         sv_secrets = [] \<rparr>], cs_calls = Suc (cs_calls s) \<rparr>)"
  by (simp add: create_vault_record_def io_bind_def catalog_call_def io_modify_def io_return_def Let_def)

definition new_metadata :: "'k vault_env \<Rightarrow> put_secret_request \<Rightarrow> credential_policy option \<Rightarrow> nat \<Rightarrow> secret_metadata" where
  "new_metadata env request target n = \<lparr> sm_policy = target, sm_revision = 1, sm_id = ve_id env n,
     sm_type = secret_type_of (pr_secret request), sm_name = pr_name request, sm_created_at = ve_utc env n \<rparr>"

lemma put_secret_Inr:
  assumes "put_secret_op env vid request s = (Inr sid, s')"
  obtains v target encrypted where "find_vault vid (cs_catalog s) = Some v" "trim (pr_name request) \<noteq> []"
    "normalized_option (ve_parse env) (pr_policy request) = Inr target"
    "\<forall>st \<in> set (sv_secrets v). sm_name (ss_metadata st) \<noteq> pr_name request \<and> (names_resource target \<longrightarrow> sm_policy (ss_metadata st) \<noteq> target)"
    "valid_for env (new_metadata env request target (cs_calls s)) (pr_secret request)"
    "sealed env vid \<lparr> ss_metadata = new_metadata env request target (cs_calls s), ss_secret = encrypted \<rparr> (pr_secret request)"
    "sid = ve_id env (cs_calls s)"
    "s' = \<lparr> cs_catalog = set_secrets vid (\<lambda>ss. ss @ [\<lparr> ss_metadata = new_metadata env request target (cs_calls s), ss_secret = encrypted \<rparr>]) (cs_catalog s),
           cs_calls = Suc (Suc (cs_calls s)) \<rparr>"
proof -
  obtain v target encrypted s1 where r: "find_vault vid (cs_catalog s) = Some v" "trim (pr_name request) \<noteq> []"
    "normalized_option (ve_parse env) (pr_policy request) = Inr target"
    "\<not> list_ex (\<lambda>st. sm_name (ss_metadata st) = pr_name request \<or> names_resource target \<and> sm_policy (ss_metadata st) = target) (sv_secrets v)"
    "encrypt_secret env vid (new_metadata env request target (cs_calls s)) (pr_secret request) (s\<lparr>cs_calls := Suc (cs_calls s)\<rparr>) = (Inr encrypted, s1)"
    "change_secrets vid (\<lambda>ss. ss @ [\<lparr> ss_metadata = new_metadata env request target (cs_calls s), ss_secret = encrypted \<rparr>]) s1 = (Inr (), s')"
    "sid = ve_id env (cs_calls s)"
    using assms unfolding put_secret_op_def
    by (auto simp: io_bind_Inr_iff io_lift_def io_return_def catalog_call_def catalog_vault_def result_simps Let_def new_metadata_def)
  show ?thesis
    using r(4,6) encrypt_secret_Inr [OF r(5)]
    by (intro that [OF r(1-3) _ _ _ r(7), of encrypted]) (auto simp: list_ex_iff change_secrets_def io_modify_def)
qed

lemma update_secret_Inr:
  assumes "update_secret_op env vid sid request s = (Inr metadata, s')"
  obtains v target st secret encrypted n where "find_vault vid (cs_catalog s) = Some v" "find_stored sid v = Some st"
    "normalized_option (ve_parse env) (ur_policy request) = Inr target"
    "names_resource target \<longrightarrow> (\<forall>st' \<in> set (sv_secrets v). sm_id (ss_metadata st') \<noteq> sid \<longrightarrow> sm_policy (ss_metadata st') \<noteq> target)"
    "sm_revision (ss_metadata st) \<noteq> - 1"
    "metadata = (ss_metadata st)\<lparr>sm_revision := sm_revision (ss_metadata st) + 1,
       sm_policy := (case target of Some t \<Rightarrow> Some t | None \<Rightarrow> sm_policy (ss_metadata st)), sm_type := secret_type_of secret\<rparr>"
    "valid_for env metadata secret" "sealed env vid \<lparr> ss_metadata = metadata, ss_secret = encrypted \<rparr> secret" "cs_calls s < n"
    "s' = \<lparr> cs_catalog = set_secrets vid (replace_stored sid \<lparr> ss_metadata = metadata, ss_secret = encrypted \<rparr>) (cs_catalog s), cs_calls = n \<rparr>"
proof -
  obtain v target st secret s1 where r: "find_vault vid (cs_catalog s) = Some v" "find_stored sid v = Some st"
    "normalized_option (ve_parse env) (ur_policy request) = Inr target"
    "\<not> (names_resource target \<and> list_ex (\<lambda>st'. sm_id (ss_metadata st') \<noteq> sid \<and> sm_policy (ss_metadata st') = target) (sv_secrets v))"
    "(case ur_secret request of Some secret \<Rightarrow> io_return secret | None \<Rightarrow> decrypt_stored env vid st) s = (Inr secret, s1)"
    "sm_revision (ss_metadata st) \<noteq> - 1"
    "metadata = (ss_metadata st)\<lparr>sm_revision := sm_revision (ss_metadata st) + 1,
       sm_policy := (case target of Some t \<Rightarrow> Some t | None \<Rightarrow> sm_policy (ss_metadata st)), sm_type := secret_type_of secret\<rparr>"
    "store_secret env vid metadata secret s1 = (Inr (), s')"
    using assms unfolding update_secret_op_def
    by (auto simp: io_bind_Inr_iff io_lift_def io_return_def catalog_vault_def result_simps Let_def next_revision_def split: if_splits)
  have s1: "cs_catalog s1 = cs_catalog s" "cs_calls s \<le> cs_calls s1"
    using r(5) by (auto simp: io_return_def split: option.splits dest!: decrypt_stored_Inr(1))
  have "sm_id (ss_metadata st) = sid" using find_in_set [OF r(2) [unfolded find_stored_def]] by simp
  then have sid: "sm_id metadata = sid" using r(7) by simp
  obtain encrypted where e: "valid_for env metadata secret" "sealed env vid \<lparr> ss_metadata = metadata, ss_secret = encrypted \<rparr> secret"
    "s' = \<lparr> cs_catalog = set_secrets vid (replace_stored sid \<lparr> ss_metadata = metadata, ss_secret = encrypted \<rparr>) (cs_catalog s), cs_calls = Suc (cs_calls s1) \<rparr>"
    using store_secret_Inr [OF r(8)] unfolding sid s1(1) by blast
  have other: "names_resource target \<longrightarrow> (\<forall>st' \<in> set (sv_secrets v). sm_id (ss_metadata st') \<noteq> sid \<longrightarrow> sm_policy (ss_metadata st') \<noteq> target)"
    using r(4) by (auto simp: list_ex_iff)
  have "cs_calls s < Suc (cs_calls s1)" using s1(2) by simp
  then show ?thesis by (rule that [OF r(1-3) other r(6,7) e(1,2) _ e(3)])
qed

lemma rotate_Inr:
  assumes "rotate_op env vid sid expected secret s = (Inr r, s')"
  obtains v st encrypted where "find_vault vid (cs_catalog s) = Some v" "find_stored sid v = Some st" "sm_revision (ss_metadata st) = expected"
    "expected \<noteq> - 1" "r = \<lparr> rs_revision = expected + 1, rs_secret = secret \<rparr>"
    "valid_for env (ss_metadata st) secret"
    "sealed env vid \<lparr> ss_metadata = (ss_metadata st)\<lparr>sm_revision := expected + 1\<rparr>, ss_secret = encrypted \<rparr> secret"
    "s' = \<lparr> cs_catalog = set_secrets vid (replace_stored sid \<lparr> ss_metadata = (ss_metadata st)\<lparr>sm_revision := expected + 1\<rparr>, ss_secret = encrypted \<rparr>)
             (cs_catalog s), cs_calls = Suc (cs_calls s) \<rparr>"
proof -
  obtain v st where r: "find_vault vid (cs_catalog s) = Some v" "find_stored sid v = Some st" "sm_revision (ss_metadata st) = expected"
    "expected \<noteq> - 1" "r = \<lparr> rs_revision = expected + 1, rs_secret = secret \<rparr>"
    "store_secret env vid ((ss_metadata st)\<lparr>sm_revision := expected + 1\<rparr>) secret s = (Inr (), s')"
    using assms unfolding rotate_op_def
    by (auto simp: io_bind_Inr_iff io_lift_def io_return_def catalog_vault_def result_simps next_revision_def split: if_splits)
  have "sm_id (ss_metadata st) = sid" using find_in_set [OF r(2) [unfolded find_stored_def]] by simp
  then have sid: "sm_id ((ss_metadata st)\<lparr>sm_revision := expected + 1\<rparr>) = sid" by simp
  from store_secret_Inr [OF r(6)] show ?thesis
    unfolding sid by (elim exE conjE) (rule that [OF r(1-5)], auto simp: valid_for_def)
qed

lemma evolvesI:
  assumes "cs_calls s \<le> cs_calls s'"
    and "\<And>vid sid st'. stored_at (cs_catalog s') vid sid = Some st' \<Longrightarrow> stored_at (cs_catalog s) vid sid = Some st' \<or>
      (\<exists>st. stored_at (cs_catalog s) vid sid = Some st \<and> sm_revision (ss_metadata st) < sm_revision (ss_metadata st')) \<or>
      (\<exists>n. cs_calls s \<le> n \<and> n < cs_calls s' \<and> sid = ve_id env n)"
  shows "evolves env I s s'"
  unfolding evolves_def
proof (intro conjI allI impI)
  fix vid sid st'
  assume "stored_at (cs_catalog s') vid sid = Some st' \<and> sid \<notin> I"
  then have "stored_at (cs_catalog s') vid sid = Some st'" by blast
  from assms(2) [OF this] show "(\<exists>n. cs_calls s \<le> n \<and> n < cs_calls s' \<and> sid = ve_id env n) \<or>
      (\<exists>st. stored_at (cs_catalog s) vid sid = Some st \<and> sm_revision (ss_metadata st) \<le> sm_revision (ss_metadata st') \<and>
         (sm_revision (ss_metadata st) = sm_revision (ss_metadata st') \<longrightarrow> st' = st))"
    by (auto dest: less_imp_le)
qed (rule assms(1))

lemma revision_grows: "r \<noteq> - 1 \<Longrightarrow> r < r + 1" for r :: u64
proof -
  assume "r \<noteq> - 1"
  then have "unat r \<noteq> unat (- 1 :: u64)" by (metis unsigned_word_eqI)
  then have "unat r \<noteq> 2 ^ 64 - 1" using unat_minus_1_word [where ?'a = 64] by simp
  then have "unat r + 1 < 2 ^ 64" using u64_bound [of r] by simp
  then show ?thesis by (simp add: word_less_nat_alt unat_word_ariths)
qed

lemma atomic_evolves: "atomic m \<Longrightarrow> m s = (Inl e, s') \<Longrightarrow> evolves env I s s'"
  by (auto simp: atomic_def intro: evolves_ticks)

lemma replaced_evolves:
  assumes "find_vault vid (cs_catalog s) = Some v" and "find_stored sid v = Some st" and "sm_id (ss_metadata st') = sid"
    and "sm_revision (ss_metadata st') = sm_revision (ss_metadata st) + 1" and "sm_revision (ss_metadata st) \<noteq> - 1" and "cs_calls s \<le> n"
  shows "evolves env I s \<lparr> cs_catalog = set_secrets vid (replace_stored sid st') (cs_catalog s), cs_calls = n \<rparr>"
proof (rule evolvesI)
  fix vid' sid' st''
  assume "stored_at (cs_catalog \<lparr> cs_catalog = set_secrets vid (replace_stored sid st') (cs_catalog s), cs_calls = n \<rparr>) vid' sid' = Some st''"
  then show "stored_at (cs_catalog s) vid' sid' = Some st'' \<or>
      (\<exists>st. stored_at (cs_catalog s) vid' sid' = Some st \<and> sm_revision (ss_metadata st) < sm_revision (ss_metadata st'')) \<or>
      (\<exists>m. cs_calls s \<le> m \<and> m < cs_calls \<lparr> cs_catalog = set_secrets vid (replace_stored sid st') (cs_catalog s), cs_calls = n \<rparr> \<and> sid' = ve_id env m)"
    using assms(1,2,4) revision_grows [OF assms(5)] unfolding catalog_state.simps stored_at_set find_replaced [OF assms(3)]
    by (auto simp: stored_at_def find_stored_def split: if_splits)
qed (simp add: assms(6))

lemma catalog_step_evolves:
  assumes "catalog_step env s s'"
  shows "evolves env I s s'"
  using assms
proof (induction rule: catalog_step.induct)
  case (tick s s')
  then show ?case by (rule evolves_ticks)
next
  case (make_global s r s')
  then show ?case
  proof (cases "named_vault GLOBAL (cs_catalog s)")
    case None
    then show ?thesis using make_global
      by (intro evolvesI) (auto simp: ensure_global_def find_global_def io_bind_def io_read_def create_record_run stored_at_def find_vault_def
          find_snoc find_stored_def split: option.splits if_splits)
  qed (auto simp: ensure_global_def find_global_def io_bind_def io_read_def io_return_def intro: evolves_ticks)
next
  case (make_vault name s r s')
  then show ?case
  proof (cases r)
    case (Inr rec)
    then have "s' = snd (create_vault_record env name s)" using make_vault
      by (auto simp: create_vault_op_def io_bind_Inr_iff io_lift_def io_read_def)
    then show ?thesis
      by (intro evolvesI) (auto simp: create_record_run stored_at_def find_vault_def find_snoc find_stored_def split: option.splits if_splits)
  qed (auto intro: atomic_evolves [OF atomic_writers(2)])
next
  case (drop_vault vid s r s')
  then show ?case
  proof (cases r)
    case (Inr u)
    then have s': "s' = s\<lparr>cs_catalog := filter (\<lambda>v. vr_id (sv_record v) \<noteq> vid) (cs_catalog s)\<rparr>" using drop_vault
      by (auto simp: delete_vault_op_def io_bind_Inr_iff io_lift_def io_modify_def catalog_vault_def)
    have "find_vault vid' (filter (\<lambda>v. vr_id (sv_record v) \<noteq> vid) c) = (if vid' = vid then None else find_vault vid' c)" for vid' c
      by (auto simp: find_vault_def find_filtered find_removed)
    then show ?thesis unfolding s' by (intro evolvesI) (auto simp: stored_at_def split: if_splits)
  qed (auto intro: atomic_evolves [OF atomic_writers(3)])
next
  case (add_entry vid request s r s')
  then show ?case
  proof (cases r)
    case (Inr sid)
    then obtain v target encrypted where e: "find_vault vid (cs_catalog s) = Some v"
      "s' = \<lparr> cs_catalog = set_secrets vid (\<lambda>ss. ss @ [\<lparr> ss_metadata = new_metadata env request target (cs_calls s), ss_secret = encrypted \<rparr>]) (cs_catalog s),
             cs_calls = Suc (Suc (cs_calls s)) \<rparr>" using add_entry put_secret_Inr by metis
    show ?thesis
    proof (rule evolvesI)
      fix vid' sid' st
      assume "stored_at (cs_catalog s') vid' sid' = Some st"
      then show "stored_at (cs_catalog s) vid' sid' = Some st \<or>
          (\<exists>st'. stored_at (cs_catalog s) vid' sid' = Some st' \<and> sm_revision (ss_metadata st') < sm_revision (ss_metadata st)) \<or>
          (\<exists>n. cs_calls s \<le> n \<and> n < cs_calls s' \<and> sid' = ve_id env n)"
        using e(1) unfolding e(2) catalog_state.simps stored_at_set find_snoc
        by (auto simp: stored_at_def find_stored_def new_metadata_def split: if_splits option.splits)
    qed (simp add: e(2))
  qed (auto intro: atomic_evolves [OF atomic_writers(4)])
next
  case (change_entry vid sid change s r s')
  then show ?case
  proof (cases r)
    case (Inr metadata)
    from update_secret_Inr [OF change_entry [unfolded Inr]] show ?thesis
      by cases (force intro!: replaced_evolves simp: find_stored_def dest: find_in_set)
  qed (auto intro: atomic_evolves [OF atomic_writers(5)])
next
  case (drop_entry vid sid s r s')
  then show ?case
  proof (cases r)
    case (Inr u)
    then have s': "s' = s\<lparr>cs_catalog := set_secrets vid (filter (\<lambda>st. sm_id (ss_metadata st) \<noteq> sid)) (cs_catalog s)\<rparr>" using drop_entry
      by (auto simp: delete_secret_op_def change_secrets_def io_bind_Inr_iff io_lift_def io_modify_def catalog_vault_def)
    have "List.find (\<lambda>st. sm_id (ss_metadata st) = sid') (filter (\<lambda>st. sm_id (ss_metadata st) \<noteq> sid) ss) =
        (if sid' = sid then None else List.find (\<lambda>st. sm_id (ss_metadata st) = sid') ss)" for sid' and ss :: "stored_secret list"
      by (auto simp: find_filtered find_removed)
    then have "stored_at (cs_catalog s') vid' sid' = (if vid' = vid \<and> sid' = sid then None else stored_at (cs_catalog s) vid' sid')" for vid' sid'
      unfolding s' by (auto simp: stored_at_set stored_at_def [of _ vid] find_stored_def [abs_def] split: bind_splits)
    then show ?thesis by (intro evolvesI) (auto simp: s' split: if_splits)
  qed (auto intro: atomic_evolves [OF atomic_writers(6)])
next
  case (rotate_entry vid sid expected secret s r s')
  then show ?case
  proof (cases r)
    case (Inr x)
    from rotate_Inr [OF rotate_entry [unfolded Inr]] show ?thesis
      by cases (force intro!: replaced_evolves simp: find_stored_def dest: find_in_set)
  qed (auto intro: atomic_evolves [OF atomic_writers(7)])
qed

lemma import_Inr:
  assumes "import_secret_op env vid metadata secret s = (Inr u, s')"
  obtains "ticks s s'"
  | v encrypted where "find_vault vid (cs_catalog s) = Some v" "find_stored (sm_id metadata) v = None"
    "valid_for env metadata secret" "sealed env vid \<lparr> ss_metadata = metadata, ss_secret = encrypted \<rparr> secret"
    "s' = \<lparr> cs_catalog = set_secrets vid (\<lambda>ss. ss @ [\<lparr> ss_metadata = metadata, ss_secret = encrypted \<rparr>]) (cs_catalog s),
       cs_calls = Suc (cs_calls s) \<rparr>"
proof -
  obtain v where v: "find_vault vid (cs_catalog s) = Some v"
    and rest: "(case find_stored (sm_id metadata) v of
       Some stored \<Rightarrow>
         io_bind (decrypt_stored env vid stored) (\<lambda>existing.
         io_lift (ensure (ss_metadata stored = metadata \<and> existing = secret) ''migrated secret conflicts with an existing vault entry''))
     | None \<Rightarrow>
         io_bind (encrypt_secret env vid metadata secret) (\<lambda>encrypted.
         change_secrets vid (\<lambda>ss. ss @ [\<lparr> ss_metadata = metadata, ss_secret = encrypted \<rparr>]))) s = (Inr u, s')"
    using assms by (auto simp: import_secret_op_def io_bind_Inr_iff catalog_vault_def result_simps)
  show thesis
  proof (cases "find_stored (sm_id metadata) v")
    case None
    then obtain encrypted s1 where e: "encrypt_secret env vid metadata secret s = (Inr encrypted, s1)"
      "s' = s1\<lparr>cs_catalog := set_secrets vid (\<lambda>ss. ss @ [\<lparr> ss_metadata = metadata, ss_secret = encrypted \<rparr>]) (cs_catalog s1)\<rparr>"
      using rest by (auto simp: io_bind_Inr_iff change_secrets_def io_modify_def)
    then show thesis using that(2) [OF v None] encrypt_secret_Inr [OF e(1)] by simp
  next
    case (Some st)
    then have "ticks s s'" using rest ticks_run [OF ticks_secret(2)] by (auto simp: io_bind_Inr_iff io_lift_def)
    then show thesis by (rule that(1))
  qed
qed

lemma store_step_evolves: "store_step env I s s' \<Longrightarrow> evolves env I s s'"
proof (induction rule: store_step.induct)
  case (own_step s s')
  then show ?case by (rule catalog_step_evolves)
next
  case (import_entry vid metadata secret s r s')
  then show ?case
  proof (cases r)
    case (Inr u)
    from import_Inr [OF import_entry(1) [unfolded Inr]] show ?thesis
    proof cases
      case (2 v encrypted)
      have "stored_at (cs_catalog s) vid' sid = Some st" if "stored_at (cs_catalog s') vid' sid = Some st" "sid \<notin> I" for vid' sid st
        using that 2(1) import_entry(2) unfolding 2(5) catalog_state.simps stored_at_set find_snoc
        by (auto simp: stored_at_def find_stored_def split: if_splits option.splits)
      then show ?thesis unfolding evolves_def using 2(5) by auto
    qed (blast intro: evolves_ticks)
  qed (auto intro: atomic_evolves [OF atomic_import])
qed

lemma store_steps_evolve: "(store_step env I)\<^sup>*\<^sup>* s s' \<Longrightarrow> evolves env I s s'"
  by (induction rule: rtranclp_induct) (auto intro: evolves_ticks store_step_evolves evolves_trans)

section \<open>Releasing a secret\<close>

text \<open>What is relied on of the cipher and of serialization: decryption under the same key, nonce and authenticated data
  inverts encryption, a serialized secret parses to itself, and nonces have their length.\<close>

definition cipher_ok :: "'k vault_env \<Rightarrow> bool" where
  "cipher_ok env \<longleftrightarrow> (\<forall>k nonce m aad c. ve_seal env k nonce m aad = Some c \<longrightarrow> ve_open env k nonce c aad = Some m) \<and>
     (\<forall>secret. ve_parse_secret env (ve_secret_json env secret) = Inr secret) \<and> (\<forall>n. length (ve_nonce env n) = NONCE_LEN)"

lemma sealed_opens: "cipher_ok env \<Longrightarrow> sealed env vid st secret \<Longrightarrow> opens env vid st secret"
  unfolding cipher_ok_def sealed_def opens_def by metis

text \<open>The secret is what the store holds for this place, under a policy that permits the destination.\<close>

definition released :: "'k vault_env \<Rightarrow> uuid \<Rightarrow> uuid \<Rightarrow> credential_destination \<Rightarrow> resolved_secret \<Rightarrow> vault_world \<Rightarrow> bool" where
  "released env vid sid target r w \<longleftrightarrow> (\<exists>c st. storage_view w = Some c \<and> stored_at c vid sid = Some st \<and>
     policy_allows (ve_parse env) (sm_policy (ss_metadata st)) target \<and> sm_revision (ss_metadata st) = rs_revision r \<and>
     opens env vid st (rs_secret r) \<and> valid_for env (ss_metadata st) (rs_secret r))"

lemma read_released:
  assumes "read_for_destination env h sid target w = (Inr r, w')"
  shows "\<exists>t. destination_normalized (ve_parse env) target = Inr t \<and> released env (vr_id h) sid t r w'"
proof -
  obtain t where t: "destination_normalized (ve_parse env) target = Inr t" "access env False (read_op env (vr_id h) sid t) w = (Inr r, w')"
    using assms by (auto simp: read_for_destination_def io_bind_Inr_iff io_lift_def)
  obtain s s' where s: "read_op env (vr_id h) sid t s = (Inr r, s')" "storage_view w' = Some (cs_catalog s')"
    using access_Inr [OF t(2)] ticks_readers(3) by blast
  have "cs_catalog s' = cs_catalog s" using ticks_run [OF ticks_readers(3) s(1)] by (simp add: ticks_def)
  moreover obtain v st secret s1 where "find_vault (vr_id h) (cs_catalog s) = Some v" "find_stored sid v = Some st"
    "policy_allows (ve_parse env) (sm_policy (ss_metadata st)) t" "decrypt_stored env (vr_id h) st s = (Inr secret, s1)"
    "valid_for env (ss_metadata st) secret" "r = \<lparr> rs_revision = sm_revision (ss_metadata st), rs_secret = secret \<rparr>"
    using s(1) unfolding read_op_def
    by (auto simp: io_bind_Inr_iff io_lift_def io_return_def catalog_vault_def result_simps valid_for_def)
  ultimately have "released env (vr_id h) sid t r w'"
    using s(2) decrypt_stored_Inr(2) [of env "vr_id h" st s secret s1] by (auto simp: released_def stored_at_def)
  then show ?thesis using t(1) by blast
qed

text \<open>Steps that leave the storage alone.\<close>

definition same_store :: "vault_world \<Rightarrow> vault_world \<Rightarrow> bool" where
  "same_store w w' \<longleftrightarrow> vw_storage w' = vw_storage w \<and> vw_calls w \<le> vw_calls w'"

lemma same_store_refl: "reflp same_store" and same_store_trans: "transp same_store"
  by (auto simp: reflp_def transp_def same_store_def)

lemma same_store_call: "io_keeps same_store vault_call"
  by (simp add: io_keeps_def vault_call_def same_store_def)

lemmas same_store_intros = io_keeps_bind [OF same_store_trans] io_keeps_pure [OF same_store_refl] same_store_call

lemma same_store_parts:
  "io_keeps same_store (needs_refresh env secret)" "io_keeps same_store (github_cache_fresh env sid revision)"
  "io_keeps same_store (new_secret env secret)" "io_keeps same_store (remember_checked env sid revision)"
proof -
  show "io_keeps same_store (needs_refresh env secret)" "io_keeps same_store (github_cache_fresh env sid revision)"
    unfolding needs_refresh_def github_cache_fresh_def by (intro same_store_intros)+
  show "io_keeps same_store (new_secret env secret)"
    unfolding new_secret_def oauth_refresh_secret_def by (cases secret) (auto intro!: same_store_intros)
  show "io_keeps same_store (remember_checked env sid revision)"
    unfolding remember_checked_def by (intro same_store_intros) (simp add: io_keeps_def io_modify_def same_store_def)
qed

lemma same_store_run: "io_keeps same_store m \<Longrightarrow> m w = (r, w') \<Longrightarrow> same_store w w'"
  by (metis io_keeps_def snd_conv)

lemma same_store_view: "same_store w w' \<Longrightarrow> storage_view w' = storage_view w"
  by (simp add: same_store_def storage_view_def)

lemma same_store_released: "same_store w w' \<Longrightarrow> released env vid sid t r w \<Longrightarrow> released env vid sid t r w'"
  by (simp add: released_def same_store_view)

text \<open>A rotated secret is stored where the rejected one was, under the policy that was checked.\<close>

lemma rotate_released:
  assumes "access env True (rotate_op env vid sid (rs_revision resolved) secret) w = (Inr r, w')" and "released env vid sid t resolved w"
    and "others_import env I" and "cipher_ok env" and "\<forall>n \<ge> vw_calls w. ve_id env n \<noteq> sid" and "sid \<notin> I"
  shows "released env vid sid t r w'"
proof -
  obtain c st where st: "storage_view w = Some c" "stored_at c vid sid = Some st" "policy_allows (ve_parse env) (sm_policy (ss_metadata st)) t"
    "sm_revision (ss_metadata st) = rs_revision resolved"
    using assms(2) by (auto simp: released_def)
  obtain c' where c': "storage_view (met env w) = Some c'" "evolves env I (vault_state c w) (vault_state c' (met env w))"
    using store.met_runs [of env I w] assms(3) st(1) by (auto simp: others_import_run runs_def intro: store_steps_evolve)
  obtain s' where s': "rotate_op env vid sid (rs_revision resolved) secret (vault_state c' (met env w)) = (Inr r, s')"
    "storage_view w' = Some (cs_catalog s')" using access_Inr [OF assms(1)] c'(1) by auto
  obtain v st' encrypted where e: "find_vault vid c' = Some v" "find_stored sid v = Some st'" "sm_revision (ss_metadata st') = rs_revision resolved"
    "r = \<lparr> rs_revision = rs_revision resolved + 1, rs_secret = secret \<rparr>" "valid_for env (ss_metadata st') secret"
    "sealed env vid \<lparr> ss_metadata = (ss_metadata st')\<lparr>sm_revision := rs_revision resolved + 1\<rparr>, ss_secret = encrypted \<rparr> secret"
    "cs_catalog s' = set_secrets vid (replace_stored sid \<lparr> ss_metadata = (ss_metadata st')\<lparr>sm_revision := rs_revision resolved + 1\<rparr>, ss_secret = encrypted \<rparr>) c'"
    using rotate_Inr [OF s'(1)] by (metis vault_state_def catalog_state.simps(1))
  have "stored_at c' vid sid = Some st'" using e(1,2) by (simp add: stored_at_def)
  then have "st' = st" using c'(2) st(2,4) e(3) assms(5,6) unfolding evolves_def vault_state_def by fastforce
  moreover have "sm_id (ss_metadata st') = sid" using find_in_set [OF e(2) [unfolded find_stored_def]] by simp
  ultimately have "stored_at (cs_catalog s') vid sid = Some \<lparr> ss_metadata = (ss_metadata st)\<lparr>sm_revision := rs_revision resolved + 1\<rparr>, ss_secret = encrypted \<rparr>"
    using e(1,2,7) by (simp add: stored_at_set find_replaced find_stored_def)
  then show ?thesis
    using s'(2) st(3) e(4-6) \<open>st' = st\<close> sealed_opens [OF assms(4)] by (auto simp: released_def valid_for_def)
qed

lemma read_advances:
  assumes "read_for_destination env h sid target w = (r, w')" and "others_import env I"
  shows "vw_calls w \<le> vw_calls w'"
proof -
  have "io_keeps (runs (store_step env I)) (access env False (read_op env (vr_id h) sid t))" for t
    using assms(2) by (intro store.access_moves store.moving_own stepping_readers ticks_readers) (simp add: others_import_run)
  then have "io_keeps (runs (store_step env I)) (read_for_destination env h sid target)"
    unfolding read_for_destination_def by (intro io_keeps_bind [OF runs_trans] io_keeps_pure [OF runs_refl])
  then have "runs (store_step env I) w w'" using assms(1) by (metis io_keeps_def snd_conv)
  then show ?thesis by (simp add: runs_def)
qed

lemma settled_released:
  assumes "settle_refresh env h sid target resolved secret w = (Inr (other, r), w')" and "released env (vr_id h) sid t resolved w"
    and "destination_normalized (ve_parse env) target = Inr t" and "others_import env I" and "cipher_ok env" and "\<forall>n \<ge> vw_calls w. ve_id env n \<noteq> sid"
    and "sid \<notin> I"
  shows "released env (vr_id h) sid t r w'"
proof (cases "secret = rs_secret resolved")
  case True
  then have "read_for_destination env h sid target w = (Inr r, w')"
    using assms(1) by (auto simp: settle_refresh_def io_bind_Inr_iff io_return_def)
  then show ?thesis using read_released assms(3) by fastforce
next
  case False
  then have "access env True (rotate_op env (vr_id h) sid (rs_revision resolved) secret) w = (Inr r, w')"
    using assms(1) by (auto simp: settle_refresh_def io_bind_Inr_iff io_return_def)
  then show ?thesis using rotate_released assms by blast
qed

lemma io_bind_InrE:
  assumes "io_bind m f w = (Inr r, w')"
  obtains x w1 where "m w = (Inr x, w1)" "f x w1 = (Inr r, w')"
  using assms by (auto simp: io_bind_Inr_iff)

lemma replaced_released:
  assumes "replace_rejected env h sid target resolved w = (Inr r, w')"
    and "released env (vr_id h) sid t resolved w" and "destination_normalized (ve_parse env) target = Inr t"
    and ok: "others_import env I" "cipher_ok env" "sid \<notin> I" and old: "\<forall>n \<ge> vw_calls w. ve_id env n \<noteq> sid"
  shows "released env (vr_id h) sid t r w'"
  using assms(1) unfolding replace_rejected_def
proof (elim io_bind_InrE)
  fix secret w1 x w2
  assume new: "new_secret env (rs_secret resolved) w = (Inr secret, w1)" and settle: "settle_refresh env h sid target resolved secret w1 = (Inr x, w2)"
    and rest: "(case x of (other, settled) \<Rightarrow> if other then io_return settled
      else io_bind (if is_github (rs_secret resolved) then remember_checked env sid (rs_revision settled) else io_return ()) (\<lambda>_. io_return settled)) w2 = (Inr r, w')"
  obtain other settled where x: "x = (other, settled)" by fastforce
  have w1: "same_store w w1" by (rule same_store_run [OF same_store_parts(3) new])
  then have "\<forall>n \<ge> vw_calls w1. ve_id env n \<noteq> sid" using old by (simp add: same_store_def)
  then have "released env (vr_id h) sid t settled w2"
    using settled_released [OF settle [unfolded x]] same_store_released [OF w1 assms(2)] assms(3) ok by blast
  moreover have "same_store w2 w' \<and> r = settled"
    using rest unfolding x
    by (cases other; cases "is_github (rs_secret resolved)")
       (auto simp: io_return_def same_store_def io_bind_Inr_iff dest: same_store_run [OF same_store_parts(4), unfolded same_store_def])
  ultimately show ?thesis using same_store_released by blast
qed

lemma fresh_check_store:
  "io_keeps same_store (if b then github_cache_fresh env sid revision else io_return False)"
  by (simp add: same_store_parts same_store_intros)

lemma refresh_released:
  assumes run: "refresh_secret env h sid target rejected force w = (Inr r, w')"
    and ok: "others_import env I" "cipher_ok env" "sid \<notin> I" and old: "\<forall>n \<ge> vw_calls w. ve_id env n \<noteq> sid"
  shows "\<exists>t. destination_normalized (ve_parse env) target = Inr t \<and> released env (vr_id h) sid t r w'"
  using run unfolding refresh_secret_def
proof (elim io_bind_InrE)
  fix n w1 u w2 resolved w3
  assume start: "vault_call w = (Inr n, w1)" "io_lift (ve_guard env n) w1 = (Inr u, w2)"
    and first: "read_for_destination env h sid target w2 = (Inr resolved, w3)"
    and rest: "(if rs_revision resolved \<noteq> rejected then io_return resolved
     else
       io_bind (if is_github (rs_secret resolved) \<and> \<not> force then github_cache_fresh env sid (rs_revision resolved) else io_return False) (\<lambda>fresh.
       if fresh then io_return resolved else replace_rejected env h sid target resolved)) w3 = (Inr r, w')"
  obtain t where t: "destination_normalized (ve_parse env) target = Inr t" "released env (vr_id h) sid t resolved w3"
    using read_released [OF first] by blast
  have "vw_calls w \<le> vw_calls w3"
    using start read_advances [OF first ok(1)] by (auto simp: vault_call_def io_lift_def)
  then have old3: "\<forall>n \<ge> vw_calls w3. ve_id env n \<noteq> sid" using old le_trans by blast
  show ?thesis
  proof (cases "rs_revision resolved = rejected")
    case True
    then obtain fresh w4 where f: "(if is_github (rs_secret resolved) \<and> \<not> force then github_cache_fresh env sid (rs_revision resolved)
        else io_return False) w3 = (Inr fresh, w4)"
      and go: "(if fresh then io_return resolved else replace_rejected env h sid target resolved) w4 = (Inr r, w')"
      using rest by (auto elim: io_bind_InrE)
    have w4: "same_store w3 w4" by (rule same_store_run [OF fresh_check_store f])
    then have "released env (vr_id h) sid t resolved w4" "\<forall>n \<ge> vw_calls w4. ve_id env n \<noteq> sid"
      using same_store_released [OF w4 t(2)] old3 by (simp_all add: same_store_def)
    then show ?thesis using go t(1) replaced_released [OF _ _ t(1) ok] by (cases fresh) (auto simp: io_return_def)
  qed (use rest t in \<open>auto simp: io_return_def\<close>)
qed

lemma resolve_released:
  assumes run: "resolve_credentials env h sid target w = (Inr r, w')"
    and ok: "others_import env I" "cipher_ok env" "sid \<notin> I" and old: "\<forall>n \<ge> vw_calls w. ve_id env n \<noteq> sid"
  shows "\<exists>t. destination_normalized (ve_parse env) target = Inr t \<and> released env (vr_id h) sid t r w'"
  using run unfolding resolve_credentials_def
proof (elim io_bind_InrE)
  fix resolved w1 needs w2
  assume first: "read_for_destination env h sid target w = (Inr resolved, w1)"
    and check: "(if is_github (rs_secret resolved)
        then io_bind (github_cache_fresh env sid (rs_revision resolved)) (\<lambda>fresh. io_return (\<not> fresh))
        else needs_refresh env (rs_secret resolved)) w1 = (Inr needs, w2)"
    and rest: "(if \<not> needs then io_return resolved else refresh_secret env h sid target (rs_revision resolved) False) w2 = (Inr r, w')"
  have "io_keeps same_store (if is_github (rs_secret resolved)
        then io_bind (github_cache_fresh env sid (rs_revision resolved)) (\<lambda>fresh. io_return (\<not> fresh))
        else needs_refresh env (rs_secret resolved))" by (simp add: same_store_parts same_store_intros)
  then have w2: "same_store w1 w2" using check by (rule same_store_run)
  have "vw_calls w \<le> vw_calls w2" using w2 read_advances [OF first ok(1)] by (simp add: same_store_def)
  then have "\<forall>n \<ge> vw_calls w2. ve_id env n \<noteq> sid" using old le_trans by blast
  then show ?thesis
    using rest refresh_released [OF _ ok] read_released [OF first] same_store_released [OF w2]
    by (cases needs) (auto simp: io_return_def)
qed

end
