(* ===== verification/Vault_Access.thy ===== *)
theory Vault_Access
  imports Vault_Safety Egress_Credentials
begin

text \<open>
  Who may use which vault: the checks of the harness and its vault contexts (\<^verbatim>\<open>crates/exoharness/src/basic/access.rs\<close>,
  \<^verbatim>\<open>basic/vault_context.rs\<close>, \<^verbatim>\<open>create_vault\<close> and \<^verbatim>\<open>delete_vault\<close> of \<^verbatim>\<open>basic.rs\<close>), the functions over contexts of \<^verbatim>\<open>vault.rs\<close>, and the
  resolver that hands credentials to the egress proxy (\<^verbatim>\<open>egress_credentials/vault.rs\<close>, \<^verbatim>\<open>basic/egress.rs\<close>). The access policy
  (\<^verbatim>\<open>access.rs\<close>) and the stored records of agents, threads and sandboxes answer by the number of the call, so that they may
  change between any two calls.
\<close>

section \<open>The environment of a harness\<close>

record access_policy =
  ap_check :: "nat \<Rightarrow> string \<Rightarrow> resource_scope \<Rightarrow> unit result"
  ap_vault :: "nat \<Rightarrow> string \<Rightarrow> vault_record \<Rightarrow> bool \<Rightarrow> vault_record option result"
  ap_vault_created :: "nat \<Rightarrow> string \<Rightarrow> uuid \<Rightarrow> string \<Rightarrow> unit result"
  ap_default_vault :: "nat \<Rightarrow> string \<Rightarrow> uuid result"

record secret_reference =
  sr_vault_id :: uuid
  sr_secret_id :: uuid

record agent_record =
  ar_id :: uuid
  ar_slug :: string
  ar_name :: string
  ar_vaults :: "uuid list"

text \<open>Of a thread's record the contexts use the identifier and the attached vaults; of a stored sandbox the principal,
  whether it runs, and the credentials by the name of their binding.\<close>

record thread_record =
  tr_id :: uuid
  tr_vaults :: "uuid list"

record stored_sandbox =
  sb_principal :: "string option"
  sb_credentials :: "string \<rightharpoonup> secret_reference"
  sb_running :: bool

record 'k access_env =
  ac_vault :: "'k vault_env"
  ac_policy :: access_policy
  ac_has_policy :: bool
  ac_agent :: "nat \<Rightarrow> uuid \<Rightarrow> agent_record option result"
  ac_thread :: "nat \<Rightarrow> uuid \<Rightarrow> uuid \<Rightarrow> thread_record option result"
  ac_agents :: "nat \<Rightarrow> agent_record list result"
  ac_threads :: "nat \<Rightarrow> uuid \<Rightarrow> thread_record list result"
  ac_sandbox :: "nat \<Rightarrow> resource_scope \<Rightarrow> string \<Rightarrow> stored_sandbox option result"

text \<open>The caller of a harness, if any, by its principal; all callers share the policy.\<close>

type_synonym caller = "string option"

definition policy_call :: "(nat \<Rightarrow> 'a result) \<Rightarrow> (vault_world, 'a) io" where
  "policy_call f = io_bind vault_call (\<lambda>n. io_lift (f n))"

definition harness_check :: "'k access_env \<Rightarrow> caller \<Rightarrow> resource_scope \<Rightarrow> (vault_world, unit) io" where
  "harness_check env caller scope =
     (case caller of None \<Rightarrow> io_return () | Some p \<Rightarrow> policy_call (\<lambda>n. ap_check (ac_policy env) n p scope))"

section \<open>Vaults as a caller sees them\<close>

text \<open>A vault of the store, or one behind the checks of a caller with the record its policy showed.\<close>

datatype vault_handle = Direct vault_record | Caller_Vault vault_record vault_record string

fun handle_record :: "vault_handle \<Rightarrow> vault_record" where
  "handle_record (Direct r) = r"
| "handle_record (Caller_Vault _ r _) = r"

definition caller_vault_check :: "'k access_env \<Rightarrow> string \<Rightarrow> vault_record \<Rightarrow> bool \<Rightarrow> (vault_world, unit) io" where
  "caller_vault_check env p r write =
     io_bind (policy_call (\<lambda>n. ap_vault (ac_policy env) n p r write)) (\<lambda>shown.
     io_lift (ensure (shown \<noteq> None) ''vault is unavailable''))"

fun handle_list_secrets :: "'k access_env \<Rightarrow> vault_handle \<Rightarrow> (vault_world, secret_metadata list) io" where
  "handle_list_secrets env (Direct v) = list_secrets (ac_vault env) v"
| "handle_list_secrets env (Caller_Vault v r p) = io_bind (caller_vault_check env p r False) (\<lambda>_. list_secrets (ac_vault env) v)"

fun handle_put_secret :: "'k access_env \<Rightarrow> vault_handle \<Rightarrow> put_secret_request \<Rightarrow> (vault_world, uuid) io" where
  "handle_put_secret env (Direct v) request = put_secret (ac_vault env) v request"
| "handle_put_secret env (Caller_Vault v r p) request =
     io_bind (caller_vault_check env p r True) (\<lambda>_.
     io_bind (io_lift (require_portable_secret (pr_secret request))) (\<lambda>_.
     put_secret (ac_vault env) v request))"

fun handle_get_secret :: "'k access_env \<Rightarrow> vault_handle \<Rightarrow> uuid \<Rightarrow> (vault_world, secret option) io" where
  "handle_get_secret env (Direct v) sid = get_secret (ac_vault env) v sid"
| "handle_get_secret env (Caller_Vault v r p) sid = io_bind (caller_vault_check env p r True) (\<lambda>_. get_secret (ac_vault env) v sid)"

fun handle_update_secret :: "'k access_env \<Rightarrow> vault_handle \<Rightarrow> uuid \<Rightarrow> update_secret_request \<Rightarrow> (vault_world, secret_metadata) io" where
  "handle_update_secret env (Direct v) sid request = update_secret (ac_vault env) v sid request"
| "handle_update_secret env (Caller_Vault v r p) sid request =
     io_bind (caller_vault_check env p r True) (\<lambda>_.
     io_bind (io_lift (case ur_secret request of Some secret \<Rightarrow> require_portable_secret secret | None \<Rightarrow> Ok ())) (\<lambda>_.
     update_secret (ac_vault env) v sid request))"

fun handle_delete_secret :: "'k access_env \<Rightarrow> vault_handle \<Rightarrow> uuid \<Rightarrow> (vault_world, unit) io" where
  "handle_delete_secret env (Direct v) sid = delete_secret (ac_vault env) v sid"
| "handle_delete_secret env (Caller_Vault v r p) sid = io_bind (caller_vault_check env p r True) (\<lambda>_. delete_secret (ac_vault env) v sid)"

fun handle_resolve_secret :: "'k access_env \<Rightarrow> vault_handle \<Rightarrow> uuid \<Rightarrow> credential_destination \<Rightarrow> (vault_world, resolved_secret) io" where
  "handle_resolve_secret env (Direct v) sid target = resolve_credentials (ac_vault env) v sid target"
| "handle_resolve_secret env (Caller_Vault v r p) sid target =
     io_bind (caller_vault_check env p r False) (\<lambda>_. resolve_credentials (ac_vault env) v sid target)"

fun handle_refresh_secret :: "'k access_env \<Rightarrow> vault_handle \<Rightarrow> uuid \<Rightarrow> credential_destination \<Rightarrow> u64 \<Rightarrow> (vault_world, resolved_secret) io" where
  "handle_refresh_secret env (Direct v) sid target rejected = refresh_secret (ac_vault env) v sid target rejected True"
| "handle_refresh_secret env (Caller_Vault v r p) sid target rejected =
     io_bind (caller_vault_check env p r False) (\<lambda>_. refresh_secret (ac_vault env) v sid target rejected True)"

definition scoped_vault :: "'k access_env \<Rightarrow> caller \<Rightarrow> vault_record \<Rightarrow> (vault_world, vault_handle option) io" where
  "scoped_vault env caller v =
     (case caller of
        None \<Rightarrow> io_return (Some (Direct v))
      | Some p \<Rightarrow>
          io_bind (policy_call (\<lambda>n. ap_vault (ac_policy env) n p v False)) (\<lambda>shown.
          io_return (map_option (\<lambda>r. Caller_Vault v r p) shown)))"

section \<open>Contexts\<close>

definition find_handle :: "uuid \<Rightarrow> vault_handle list \<Rightarrow> vault_handle option" where
  "find_handle vid hs = List.find (\<lambda>h. vr_id (handle_record h) = vid) hs"

definition harness_list_vaults :: "'k access_env \<Rightarrow> caller \<Rightarrow> (vault_world, vault_handle list) io" where
  "harness_list_vaults env caller =
     io_bind (harness_check env caller Global) (\<lambda>_.
     io_bind (if caller = None then io_bind (global_vault (ac_vault env)) (\<lambda>_. io_return ()) else io_return ()) (\<lambda>_.
     io_bind (list_vaults (ac_vault env)) (\<lambda>vs.
     io_bind (for_each (scoped_vault env caller) vs) (\<lambda>hs.
     io_return (List.map_filter id hs)))))"

definition harness_get_vault :: "'k access_env \<Rightarrow> caller \<Rightarrow> uuid \<Rightarrow> (vault_world, vault_handle option) io" where
  "harness_get_vault env caller vid =
     io_bind (harness_check env caller Global) (\<lambda>_.
     io_bind (get_vault (ac_vault env) vid) (\<lambda>found.
     case found of Some v \<Rightarrow> scoped_vault env caller v | None \<Rightarrow> io_return None))"

definition require_vault :: "'k access_env \<Rightarrow> (vault_world, vault_handle option) io \<Rightarrow> uuid \<Rightarrow> (vault_world, vault_handle) io" where
  "require_vault env get vid =
     io_bind get (\<lambda>found. io_lift (ok_or found (''vault '' @ ve_show (ac_vault env) vid @ '' is unavailable'')))"

definition context_global_vault :: "(vault_world, vault_handle list) io \<Rightarrow> (vault_world, vault_handle) io" where
  "context_global_vault listing =
     io_bind listing (\<lambda>hs.
     io_lift (ok_or (List.find (\<lambda>h. vr_name (handle_record h) = GLOBAL) hs) ''global vault is unavailable''))"

definition default_vault :: "'k access_env \<Rightarrow> caller \<Rightarrow> (vault_world, vault_handle) io" where
  "default_vault env caller =
     (case caller of
        Some p \<Rightarrow>
          io_bind (policy_call (\<lambda>n. ap_default_vault (ac_policy env) n p)) (\<lambda>vid.
          require_vault env (harness_get_vault env caller vid) vid)
      | None \<Rightarrow> context_global_vault (harness_list_vaults env None))"

text \<open>The lookups of attached vaults that the source joins run here in order.\<close>

definition compose_vaults :: "'k access_env \<Rightarrow> vault_handle list \<Rightarrow> uuid list \<Rightarrow> (vault_world, vault_handle list) io" where
  "compose_vaults env inherited attached =
     io_bind (for_each (\<lambda>vid. require_vault env (harness_get_vault env None vid) vid) attached) (\<lambda>vaults.
     io_return (fold (\<lambda>v hs. filter (\<lambda>h. vr_id (handle_record h) \<noteq> vr_id (handle_record v)) hs @ [v]) vaults inherited))"

fun attach_vaults :: "'k access_env \<Rightarrow> caller \<Rightarrow> uuid list \<Rightarrow> vault_handle list \<Rightarrow> (vault_world, vault_handle list) io" where
  "attach_vaults env caller [] hs = io_return hs"
| "attach_vaults env caller (vid # vids) hs =
     io_bind (harness_get_vault env caller vid) (\<lambda>found.
     attach_vaults env caller vids
       (case found of
          Some v \<Rightarrow> if find_handle vid hs = None then hs @ [v] else hs
        | None \<Rightarrow> hs))"

definition agent_list_vaults :: "'k access_env \<Rightarrow> caller \<Rightarrow> agent_record \<Rightarrow> (vault_world, vault_handle list) io" where
  "agent_list_vaults env caller agent =
     io_bind (harness_check env caller (Agent_Scope (ar_id agent))) (\<lambda>_.
     if caller = None then
       io_bind (context_global_vault (harness_list_vaults env None)) (\<lambda>g. compose_vaults env [g] (ar_vaults agent))
     else
       io_bind (default_vault env caller) (\<lambda>d. attach_vaults env caller (ar_vaults agent) [d]))"

definition get_agent :: "'k access_env \<Rightarrow> caller \<Rightarrow> uuid \<Rightarrow> (vault_world, agent_record option) io" where
  "get_agent env caller aid =
     io_bind (harness_check env caller Global) (\<lambda>_.
     io_bind (io_try (harness_check env caller (Agent_Scope aid))) (\<lambda>allowed.
     case allowed of
       Inl _ \<Rightarrow> io_return None
     | Inr _ \<Rightarrow> io_bind vault_call (\<lambda>n. io_lift (ac_agent env n aid))))"

definition get_thread :: "'k access_env \<Rightarrow> caller \<Rightarrow> agent_record \<Rightarrow> uuid \<Rightarrow> (vault_world, thread_record option) io" where
  "get_thread env caller agent tid =
     io_bind (harness_check env caller (Agent_Scope (ar_id agent))) (\<lambda>_.
     io_bind (io_try (harness_check env caller (Thread_Scope (ar_id agent) tid))) (\<lambda>allowed.
     case allowed of
       Inl _ \<Rightarrow> io_return None
     | Inr _ \<Rightarrow> io_bind vault_call (\<lambda>n. io_lift (ac_thread env n (ar_id agent) tid))))"

definition thread_list_vaults :: "'k access_env \<Rightarrow> caller \<Rightarrow> uuid \<Rightarrow> thread_record \<Rightarrow> (vault_world, vault_handle list) io" where
  "thread_list_vaults env caller aid thread =
     io_bind (harness_check env caller (Thread_Scope aid (tr_id thread))) (\<lambda>_.
     io_bind (get_agent env caller aid) (\<lambda>found.
     io_bind (io_lift (ok_or found ''agent is unavailable'')) (\<lambda>agent.
     io_bind (agent_list_vaults env caller agent) (\<lambda>hs.
     if caller = None then compose_vaults env hs (tr_vaults thread)
     else attach_vaults env caller (tr_vaults thread) hs))))"

text \<open>The resource of a scoped context: none, an agent, or a thread of an agent.\<close>

datatype vault_resource = No_Resource | Agent_Resource agent_record | Thread_Resource uuid thread_record

definition scope_resource :: "'k access_env \<Rightarrow> caller \<Rightarrow> resource_scope \<Rightarrow> (vault_world, vault_resource) io" where
  "scope_resource env caller scope =
     (case scope_agent_id scope of
        None \<Rightarrow> io_return No_Resource
      | Some aid \<Rightarrow>
          io_bind (get_agent env caller aid) (\<lambda>found.
          io_bind (io_lift (ok_or found ''agent is unavailable'')) (\<lambda>agent.
          case scope of
            Thread_Scope _ tid \<Rightarrow>
              io_bind (get_thread env caller agent tid) (\<lambda>found.
              io_bind (io_lift (ok_or found ''thread is unavailable'')) (\<lambda>thread.
              io_return (Thread_Resource (ar_id agent) thread)))
          | _ \<Rightarrow> io_return (Agent_Resource agent))))"

definition resource_list_vaults :: "'k access_env \<Rightarrow> caller \<Rightarrow> vault_resource \<Rightarrow> (vault_world, vault_handle list) io" where
  "resource_list_vaults env caller r =
     (case r of
        No_Resource \<Rightarrow> io_bind (default_vault env caller) (\<lambda>d. io_return [d])
      | Agent_Resource agent \<Rightarrow> agent_list_vaults env caller agent
      | Thread_Resource aid thread \<Rightarrow> thread_list_vaults env caller aid thread)"

definition scoped_list_vaults :: "'k access_env \<Rightarrow> caller \<Rightarrow> resource_scope \<Rightarrow> (vault_world, vault_handle list) io" where
  "scoped_list_vaults env caller scope =
     io_bind (scope_resource env caller scope) (resource_list_vaults env caller)"

definition scoped_get_vault :: "'k access_env \<Rightarrow> caller \<Rightarrow> resource_scope \<Rightarrow> uuid \<Rightarrow> (vault_world, vault_handle option) io" where
  "scoped_get_vault env caller scope vid =
     io_bind (scope_resource env caller scope) (\<lambda>r.
     io_bind (resource_list_vaults env caller r) (\<lambda>hs. io_return (find_handle vid hs)))"

section \<open>Over a context\<close>

text \<open>The innermost vault wins: the search goes from the last vault of the list.\<close>

definition find_in_vaults :: "('a \<Rightarrow> bool) \<Rightarrow> (vault_handle \<times> 'a list) list \<Rightarrow> (vault_handle \<times> 'a) option" where
  "find_in_vaults P listed =
     (case List.map_filter (\<lambda>(h, xs). map_option (Pair h) (List.find P xs)) (rev listed) of [] \<Rightarrow> None | x # _ \<Rightarrow> Some x)"

definition find_secret :: "(string \<Rightarrow> uuid option) \<Rightarrow> 'k access_env \<Rightarrow> (vault_world, vault_handle list) io \<Rightarrow> string
    \<Rightarrow> (vault_world, secret_reference option) io" where
  "find_secret parse_id env listing reference =
     io_bind listing (\<lambda>hs.
     io_bind (for_each (handle_list_secrets env) hs) (\<lambda>secrets.
     io_return (map_option (\<lambda>(h, s). \<lparr> sr_vault_id = vr_id (handle_record h), sr_secret_id = sm_id s \<rparr>)
       (find_in_vaults (\<lambda>s. case parse_id reference of None \<Rightarrow> sm_name s = reference | Some sid \<Rightarrow> sm_id s = sid) (zip hs secrets)))))"

definition model_endpoint :: "url_parser \<Rightarrow> string option \<Rightarrow> string \<Rightarrow> url result" where
  "model_endpoint parse base_url environment_variable =
     and_then (if environment_variable = ''OPENAI_API_KEY'' then Ok ''https://api.openai.com/v1''
        else if environment_variable = ''ANTHROPIC_API_KEY'' then Ok ''https://api.anthropic.com''
        else if environment_variable = ''GEMINI_API_KEY'' then Ok ''https://generativelanguage.googleapis.com''
        else bail (''unsupported sandbox model credential variable: '' @ environment_variable)) (\<lambda>default_url.
     case parse (case base_url of Some u \<Rightarrow> u | None \<Rightarrow> default_url) of
       Inl e \<Rightarrow> bail e
     | Inr u \<Rightarrow>
         and_then (ensure (url_scheme u = ''https'' \<and> url_host_str u \<noteq> None \<and> url_port_or_known_default u = Some 443 \<and> url_username u = [] \<and>
             url_password u = None \<and> url_query u = None \<and> url_fragment u = None)
           ''sandbox model credentials require an HTTPS model endpoint on port 443'') (\<lambda>_.
         Ok u))"

definition resolve_model_key :: "'k access_env \<Rightarrow> (uuid \<Rightarrow> (vault_world, vault_handle option) io) \<Rightarrow> secret_reference \<Rightarrow> url \<Rightarrow> (vault_world, string) io" where
  "resolve_model_key env get reference endpoint =
     io_bind (require_vault env (get (sr_vault_id reference)) (sr_vault_id reference)) (\<lambda>v.
     io_bind (io_lift (destination_origin (ve_parse (ac_vault env)) (url_origin endpoint))) (\<lambda>destination.
     io_bind (handle_resolve_secret env v (sr_secret_id reference) destination) (\<lambda>resolved.
     io_return (bearer_value (rs_secret resolved)))))"

definition reference_policy :: "'k access_env \<Rightarrow> (uuid \<Rightarrow> (vault_world, vault_handle option) io) \<Rightarrow> secret_reference \<Rightarrow> (vault_world, credential_policy) io" where
  "reference_policy env get reference =
     io_bind (require_vault env (get (sr_vault_id reference)) (sr_vault_id reference)) (\<lambda>v.
     io_bind (handle_list_secrets env v) (\<lambda>secrets.
     io_bind (io_lift (ok_or (List.find (\<lambda>s. sm_id s = sr_secret_id reference) secrets) ''credential is unavailable'')) (\<lambda>s.
     io_lift (ok_or (sm_policy s) ''credential has no permitted destinations; set its policy with --allow-origin, --allow-url, or --policy''))))"

section \<open>Credentials for the proxy\<close>

definition egress_target :: "url_parser \<Rightarrow> egress_destination \<Rightarrow> credential_destination result" where
  "egress_target parse d =
     (case parse (''https://'' @ ed_host d @ '':'' @ show_nat (unat (ed_port d))) of
        Inl e \<Rightarrow> bail e
      | Inr origin \<Rightarrow> destination_url parse (url_origin origin @ ed_path d))"

definition resolve_credential :: "'k access_env \<Rightarrow> (uuid \<Rightarrow> (vault_world, vault_handle option) io) \<Rightarrow> secret_reference
    \<Rightarrow> egress_destination \<Rightarrow> string option \<Rightarrow> (vault_world, string) io" where
  "resolve_credential env get reference destination rejected =
     io_bind (require_vault env (get (sr_vault_id reference)) (sr_vault_id reference)) (\<lambda>v.
     io_bind (io_lift (egress_target (ve_parse (ac_vault env)) destination)) (\<lambda>target.
     io_bind (handle_resolve_secret env v (sr_secret_id reference) target) (\<lambda>resolved.
     io_bind (if is_refreshable (rs_secret resolved) \<and> rejected = Some (bearer_value (rs_secret resolved))
              then handle_refresh_secret env v (sr_secret_id reference) target (rs_revision resolved)
              else io_return resolved) (\<lambda>settled.
     io_return (bearer_value (rs_secret settled))))))"

definition load_stored_sandbox :: "'k access_env \<Rightarrow> resource_scope \<Rightarrow> string \<Rightarrow> (vault_world, stored_sandbox) io" where
  "load_stored_sandbox env scope sandbox_id =
     io_bind vault_call (\<lambda>n.
     io_bind (io_lift (ac_sandbox env n scope sandbox_id)) (\<lambda>found.
     io_lift (ok_or found (''sandbox not found: '' @ sandbox_id))))"

definition resolve_value :: "'k access_env \<Rightarrow> egress_identity \<Rightarrow> string \<Rightarrow> egress_destination \<Rightarrow> string option \<Rightarrow> (vault_world, string) io" where
  "resolve_value env identity binding_name destination rejected =
     io_bind (load_stored_sandbox env (ei_scope identity) (ei_sandbox_id identity)) (\<lambda>sandbox.
     io_bind (io_lift (ensure (sb_running sandbox) ''sandbox is not running'')) (\<lambda>_.
     io_bind (if ac_has_policy env then
                io_bind (io_lift (ok_or (sb_principal sandbox) ''sandbox has no authenticated caller'')) (\<lambda>p.
                io_bind (harness_check env (Some p) (ei_scope identity)) (\<lambda>_.
                io_return (Some p)))
              else io_return None) (\<lambda>caller.
     io_bind (io_lift (ok_or (sb_credentials sandbox binding_name) ''sandbox credential is unavailable'')) (\<lambda>reference.
     resolve_credential env (scoped_get_vault env caller (ei_scope identity)) reference destination rejected))))"

definition local_resolve :: "'k access_env \<Rightarrow> vault_world resolver" where
  "local_resolve env identity name destination = resolve_value env identity name destination None"

definition local_refresh :: "'k access_env \<Rightarrow> egress_identity \<Rightarrow> string \<Rightarrow> egress_destination \<Rightarrow> string \<Rightarrow> (vault_world, string option) io" where
  "local_refresh env identity name destination rejected =
     io_bind (resolve_value env identity name destination (Some rejected)) (\<lambda>v.
     io_return (if v \<noteq> rejected then Some v else None))"

section \<open>Creating and deleting vaults\<close>

definition harness_create_vault :: "'k access_env \<Rightarrow> caller \<Rightarrow> string \<Rightarrow> (vault_world, vault_handle) io" where
  "harness_create_vault env caller name =
     io_bind (harness_check env caller Global) (\<lambda>_.
     io_bind (case caller of
          Some p \<Rightarrow>
            io_bind (harness_list_vaults env caller) (\<lambda>hs.
            io_bind (io_lift (ensure (\<not> list_ex (\<lambda>h. vr_name (handle_record h) = name) hs) (''vault already exists: '' @ name))) (\<lambda>_.
            io_return (p @ '':'' @ name)))
        | None \<Rightarrow> io_return name) (\<lambda>stored_name.
     io_bind (create_vault (ac_vault env) stored_name) (\<lambda>v.
     io_bind (case caller of
          Some p \<Rightarrow>
            io_bind (io_try (policy_call (\<lambda>n. ap_vault_created (ac_policy env) n p (vr_id v) name))) (\<lambda>r.
            case r of
              Inl e \<Rightarrow> io_bind (delete_vault (ac_vault env) (vr_id v)) (\<lambda>_. io_lift (bail e))
            | Inr _ \<Rightarrow> io_return ())
        | None \<Rightarrow> io_return ()) (\<lambda>_.
     io_bind (scoped_vault env caller v) (\<lambda>shown.
     io_lift (ok_or shown ''new vault is unavailable''))))))"

text \<open>The agents and threads are listed as the operator, behind the lock of the metadata.\<close>

definition require_unattached :: "'k access_env \<Rightarrow> uuid \<Rightarrow> (vault_world, unit) io" where
  "require_unattached env vid =
     io_bind vault_call (\<lambda>n.
     io_bind (io_lift (ac_agents env n)) (\<lambda>agents.
     io_bind (for_each (\<lambda>agent.
         io_bind (io_lift (ensure (vid \<notin> set (ar_vaults agent)) ''vault is still attached to an agent'')) (\<lambda>_.
         io_bind vault_call (\<lambda>n.
         io_bind (io_lift (ac_threads env n (ar_id agent))) (\<lambda>threads.
         for_each (\<lambda>thread. io_lift (ensure (vid \<notin> set (tr_vaults thread)) ''vault is still attached to a thread'')) threads)))) agents) (\<lambda>_.
     io_return ())))"

definition harness_delete_vault :: "'k access_env \<Rightarrow> caller \<Rightarrow> uuid \<Rightarrow> (vault_world, unit) io" where
  "harness_delete_vault env caller vid =
     io_bind (require_vault env (harness_get_vault env caller vid) vid) (\<lambda>v.
     io_bind (case caller of
          Some p \<Rightarrow>
            io_bind (policy_call (\<lambda>n. ap_default_vault (ac_policy env) n p)) (\<lambda>personal.
            io_bind (io_lift (ensure (personal \<noteq> vid) ''the personal vault cannot be deleted'')) (\<lambda>_.
            io_bind (policy_call (\<lambda>n. ap_vault (ac_policy env) n p (handle_record v) True)) (\<lambda>shown.
            io_lift (ensure (shown \<noteq> None) ''vault is read-only''))))
        | None \<Rightarrow> io_return ()) (\<lambda>_.
     io_bind (harness_check env caller Global) (\<lambda>_.
     io_bind (require_unattached env vid) (\<lambda>_.
     delete_vault (ac_vault env) vid))))"

end
