(* ===== verification/Remote_Auth.thy ===== *)
theory Remote_Auth
  imports Vault_Access "HOL-Library.List_Lexorder" "HOL-Library.Char_ord"
begin

text \<open>
  Signing in to a shared server and what its users may access: \<^verbatim>\<open>crates/executor/src/native/remote/oidc.rs\<close> (configuration),
  \<^verbatim>\<open>store.rs\<close> (the persisted state and enrollment), \<^verbatim>\<open>auth.rs\<close> (the authorization server: registration, login, codes, tokens,
  sessions) and \<^verbatim>\<open>access.rs\<close> (the access policy). Every section that the source runs under a lock is one operation here, and
  before each of them other tasks may do anything (\<open>ae_others\<close>). The identity provider, the digest, random tokens, the
  clock, the proof-key check and the vault that keeps the state are the environment.
\<close>

section \<open>Ordered maps\<close>

text \<open>A \<open>BTreeMap\<close> is an association list in the order of its keys, which is the order of its iterators.\<close>

fun bt_insert :: "'k::linorder \<Rightarrow> 'v \<Rightarrow> ('k \<times> 'v) list \<Rightarrow> ('k \<times> 'v) list" where
  "bt_insert k v [] = [(k, v)]"
| "bt_insert k v ((k', v') # m) =
     (if k < k' then (k, v) # (k', v') # m else if k = k' then (k, v) # m else (k', v') # bt_insert k v m)"

definition bt_remove :: "'k \<Rightarrow> ('k \<times> 'v) list \<Rightarrow> ('k \<times> 'v) list" where
  "bt_remove k m = filter (\<lambda>e. fst e \<noteq> k) m"

definition bt_retain :: "('v \<Rightarrow> bool) \<Rightarrow> ('k \<times> 'v) list \<Rightarrow> ('k \<times> 'v) list" where
  "bt_retain P m = filter (\<lambda>e. P (snd e)) m"

definition bt_or_insert :: "'k::linorder \<Rightarrow> 'v \<Rightarrow> ('k \<times> 'v) list \<Rightarrow> ('k \<times> 'v) list" where
  "bt_or_insert k v m = (if map_of m k = None then bt_insert k v m else m)"

section \<open>Configuration and state\<close>

record auth_config =
  af_public_url :: url
  af_issuer :: string
  af_client_id :: string
  af_owner_email :: string
  af_allowed_emails :: "string list"
  af_shared_vaults :: "string list"

record oidc_identity =
  oi_issuer :: string
  oi_subject :: string
  oi_email :: string

text \<open>The validated claims of an identity token; \<open>oc_hash_ok\<close> is that the access token has the digest it names, if it names one.\<close>

record oidc_claims =
  oc_issuer :: string
  oc_subject :: string
  oc_email :: "string option"
  oc_email_verified :: "bool option"
  oc_hash_ok :: bool

record principal_record =
  pn_id :: string
  pn_issuer :: string
  pn_subject :: string
  pn_email :: string
  pn_vault :: uuid

record client_record =
  ct_redirect_uris :: "string list"
  ct_expires :: int

record session_record =
  sn_principal :: string
  sn_client :: "string option"
  sn_access :: string
  sn_refresh :: "string option"
  sn_access_expires :: int
  sn_expires :: int

record auth_state =
  as_deployment :: string
  as_owner :: string
  as_owners :: "(string \<times> string) list"
  as_vault_names :: "(uuid \<times> string) list"
  as_vault_owners :: "(uuid \<times> string) list"
  as_shared_vaults :: "uuid list"
  as_principals :: "(string \<times> principal_record) list"
  as_clients :: "(string \<times> client_record) list"
  as_sessions :: "(string \<times> session_record) list"

record authorization_request =
  az_response_type :: string
  az_client_id :: string
  az_redirect_uri :: string
  az_state :: string
  az_code_challenge :: string
  az_code_challenge_method :: string
  az_resource :: string
  az_scope :: string

record pending_login =
  pl_request :: "authorization_request option"
  pl_nonce :: string
  pl_verifier :: string
  pl_browser :: string
  pl_expires :: int

record grant_code =
  gc_request :: authorization_request
  gc_principal :: string
  gc_expires :: int

record auth_world =
  aw_state :: auth_state
  aw_saved :: auth_state
  aw_pending :: "(string \<times> pending_login) list"
  aw_codes :: "(string \<times> grant_code) list"
  aw_calls :: nat

record oidc_login =
  ol_url :: string
  ol_state :: string
  ol_nonce :: string
  ol_verifier :: string

text \<open>Answers by the number of the call. \<open>ae_pkce\<close> compares a challenge with the digest of a verifier, \<open>ae_challenge_ok\<close>
  is that a challenge decodes to 32 bytes, \<open>ae_loopback\<close> that a host is the text of a loopback address.\<close>

record auth_env =
  ae_config :: auth_config
  ae_parse :: url_parser
  ae_show :: "uuid \<Rightarrow> string"
  ae_loopback :: "string \<Rightarrow> bool"
  ae_auth_vault :: uuid
  ae_digest :: "string \<Rightarrow> string"
  ae_pkce :: "string \<Rightarrow> string \<Rightarrow> bool"
  ae_challenge_ok :: "string \<Rightarrow> bool"
  ae_now :: "nat \<Rightarrow> int"
  ae_random :: "nat \<Rightarrow> string"
  ae_uuid :: "nat \<Rightarrow> string"
  ae_save :: "nat \<Rightarrow> unit result"
  ae_login :: "nat \<Rightarrow> oidc_login"
  ae_claims :: "nat \<Rightarrow> string \<Rightarrow> string \<Rightarrow> string \<Rightarrow> oidc_claims result"
  ae_lowercase :: "string \<Rightarrow> string"
  ae_create_vault :: "nat \<Rightarrow> string \<Rightarrow> vault_record result"
  ae_delete_vault :: "nat \<Rightarrow> uuid \<Rightarrow> unit result"
  ae_others :: "nat \<Rightarrow> auth_world \<Rightarrow> auth_world"

definition ACCESS_SECONDS :: int where
  "ACCESS_SECONDS = 900"

definition SESSION_SECONDS :: int where
  "SESSION_SECONDS = 30 * 86400"

definition LOGIN_SECONDS :: int where
  "LOGIN_SECONDS = 300"

definition MAX_PENDING :: nat where
  "MAX_PENDING = 256"

definition secure_url :: "auth_env \<Rightarrow> url \<Rightarrow> unit result" where
  "secure_url env u =
     (let loopback = (case url_host_str u of None \<Rightarrow> False | Some host \<Rightarrow> ae_loopback env host \<or> host = ''localhost'') in
      and_then (ensure (url_scheme u = ''https'' \<or> url_scheme u = ''http'' \<and> loopback) (''URL requires HTTPS outside loopback: '' @ url_text u)) (\<lambda>_.
      ensure (url_username u = [] \<and> url_password u = None \<and> url_fragment u = None) ''URL must not contain credentials or a fragment''))"

definition config_validate :: "auth_env \<Rightarrow> auth_config \<Rightarrow> unit result" where
  "config_validate env c =
     and_then (secure_url env (af_public_url c)) (\<lambda>_.
     case ae_parse env (af_issuer c) of
       Inl e \<Rightarrow> bail e
     | Inr issuer \<Rightarrow>
         and_then (secure_url env issuer) (\<lambda>_.
         and_then (ensure (url_query issuer = None) ''OIDC issuer must not contain a query'') (\<lambda>_.
         and_then (ensure (url_path (af_public_url c) = ''/'' \<and> url_query (af_public_url c) = None) ''public_url must be an origin without a path or query'') (\<lambda>_.
         and_then (ensure (trim (af_client_id c) \<noteq> []) ''OIDC client_id is required'') (\<lambda>_.
         ensure (list_all (\<lambda>email. trim email \<noteq> [] \<and> CHR ''@'' \<in> set email) (af_owner_email c # af_allowed_emails c)) ''invalid admitted email'')))))"

definition admitted :: "auth_config \<Rightarrow> string \<Rightarrow> bool" where
  "admitted c email \<longleftrightarrow> eq_ignore_ascii_case (af_owner_email c) email \<or> list_ex (\<lambda>e. eq_ignore_ascii_case e email) (af_allowed_emails c)"

definition server_origin :: "auth_env \<Rightarrow> string" where
  "server_origin env = url_origin (af_public_url (ae_config env))"

definition server_resource :: "auth_env \<Rightarrow> string" where
  "server_resource env = server_origin env @ ''/exo''"

section \<open>Locked sections\<close>

definition auth_call :: "(auth_world, nat) io" where
  "auth_call w = (Ok (aw_calls w), w\<lparr>aw_calls := Suc (aw_calls w)\<rparr>)"

definition locked :: "auth_env \<Rightarrow> (auth_world, 'a) io \<Rightarrow> (auth_world, 'a) io" where
  "locked env m w = m (ae_others env (aw_calls w) (w\<lparr>aw_calls := Suc (aw_calls w)\<rparr>))"

definition now :: "auth_env \<Rightarrow> (auth_world, int) io" where
  "now env = io_bind auth_call (\<lambda>n. io_return (ae_now env n))"

definition random :: "auth_env \<Rightarrow> (auth_world, string) io" where
  "random env = io_bind auth_call (\<lambda>n. io_return (ae_random env n))"

text \<open>\<open>Store::save\<close> and the assignment that follows it in every caller.\<close>

definition commit :: "auth_env \<Rightarrow> auth_state \<Rightarrow> (auth_world, unit) io" where
  "commit env st =
     io_bind auth_call (\<lambda>n.
     io_bind (io_lift (ae_save env n)) (\<lambda>_.
     io_modify (\<lambda>w. w\<lparr>aw_state := st, aw_saved := st\<rparr>)))"

definition internal :: "auth_env \<Rightarrow> (auth_world, 'a) io \<Rightarrow> (auth_world, 'a) io" where
  "internal env m =
     io_bind (io_try m) (\<lambda>r. case r of Inl _ \<Rightarrow> io_lift (bail ''server authentication failed'') | Inr x \<Rightarrow> io_return x)"

section \<open>Enrollment\<close>

definition claims_identity :: "auth_env \<Rightarrow> oidc_claims \<Rightarrow> oidc_identity result" where
  "claims_identity env c =
     and_then (ensure (oc_hash_ok c) ''OIDC access token hash mismatch'') (\<lambda>_.
     and_then (ensure (oc_email_verified c = Some True) ''a verified email is required'') (\<lambda>_.
     and_then (ok_or (oc_email c) ''OIDC identity has no email'') (\<lambda>email.
     Ok \<lparr> oi_issuer = oc_issuer c, oi_subject = oc_subject c, oi_email = ae_lowercase env email \<rparr>)))"

definition identify :: "auth_env \<Rightarrow> string \<Rightarrow> string \<Rightarrow> string \<Rightarrow> (auth_world, oidc_identity) io" where
  "identify env code nonce verifier =
     io_bind auth_call (\<lambda>n.
     io_bind (io_lift (ae_claims env n code nonce verifier)) (\<lambda>claims.
     io_lift (claims_identity env claims)))"

definition open_auth_state :: "auth_env \<Rightarrow> auth_state option \<Rightarrow> (auth_world, auth_state) io" where
  "open_auth_state env existing =
     (let c = ae_config env;
          deployment = url_text (af_public_url c) @ ''|'' @ af_issuer c @ ''|'' @ af_client_id c in
      case existing of
        Some st \<Rightarrow>
          io_bind (io_lift (ensure (as_deployment st = deployment) ''auth vault belongs to a different server or OIDC client'')) (\<lambda>_.
          io_bind (io_lift (ensure (case map_of (as_principals st) (as_owner st) of None \<Rightarrow> True
                | Some p \<Rightarrow> eq_ignore_ascii_case (pn_email p) (af_owner_email c)) ''owner_email is already bound; use the original owner email'')) (\<lambda>_.
          io_return st))
      | None \<Rightarrow>
          io_bind auth_call (\<lambda>n.
          io_bind auth_call (\<lambda>m.
          io_bind (io_lift (ae_save env m)) (\<lambda>_.
          io_return \<lparr> as_deployment = deployment, as_owner = ae_uuid env n, as_owners = [], as_vault_names = [], as_vault_owners = [],
            as_shared_vaults = [], as_principals = [], as_clients = [], as_sessions = [] \<rparr>))))"

definition find_principal :: "(principal_record \<Rightarrow> bool) \<Rightarrow> auth_state \<Rightarrow> principal_record option" where
  "find_principal P st = map_option snd (List.find (\<lambda>e. P (snd e)) (as_principals st))"

definition same_identity :: "oidc_identity \<Rightarrow> principal_record \<Rightarrow> bool" where
  "same_identity i p \<longleftrightarrow> pn_issuer p = oi_issuer i \<and> pn_subject p = oi_subject i"

definition enroll_new :: "auth_env \<Rightarrow> oidc_identity \<Rightarrow> (auth_world, principal_record) io" where
  "enroll_new env i =
     io_bind (io_read aw_state) (\<lambda>st.
     io_bind auth_call (\<lambda>n.
     let pid = (if eq_ignore_ascii_case (af_owner_email (ae_config env)) (oi_email i) then as_owner st else ae_uuid env n) in
     io_bind (io_lift (ae_create_vault env n (''personal-'' @ pid))) (\<lambda>v.
     let p = \<lparr> pn_id = pid, pn_issuer = oi_issuer i, pn_subject = oi_subject i, pn_email = oi_email i, pn_vault = vr_id v \<rparr>;
         st' = st\<lparr>as_vault_owners := bt_insert (vr_id v) pid (as_vault_owners st),
                  as_vault_names := bt_insert (vr_id v) ''personal'' (as_vault_names st),
                  as_principals := bt_insert pid p (as_principals st)\<rparr> in
     io_bind (io_try (commit env st')) (\<lambda>r.
     case r of
       Inl e \<Rightarrow>
         io_bind auth_call (\<lambda>n.
         io_bind (io_lift (case ae_delete_vault env n (vr_id v) of
             Inl _ \<Rightarrow> bail ''rolling back personal vault after enrollment failed'' | Inr _ \<Rightarrow> Ok ())) (\<lambda>_.
         io_lift (bail e)))
     | Inr _ \<Rightarrow> io_return p))))"

definition enroll_section :: "auth_env \<Rightarrow> oidc_identity \<Rightarrow> (auth_world, principal_record) io" where
  "enroll_section env i =
     io_bind (io_read aw_state) (\<lambda>st.
     case find_principal (\<lambda>p. pn_email p = oi_email i) st of
       Some p \<Rightarrow>
         io_bind (io_lift (ensure (same_identity i p) ''email is already bound to another identity; contact the server operator'')) (\<lambda>_.
         io_return p)
     | None \<Rightarrow>
         (case find_principal (same_identity i) st of
            Some p \<Rightarrow>
              io_bind (io_lift (ensure (admitted (ae_config env) (pn_email p)) ''identity admission has been removed'')) (\<lambda>_.
              io_return p)
          | None \<Rightarrow> enroll_new env i))"

definition enroll :: "auth_env \<Rightarrow> oidc_identity \<Rightarrow> (auth_world, principal_record) io" where
  "enroll env i =
     io_bind (io_lift (ensure (admitted (ae_config env) (oi_email i)) ''this identity is not admitted to this server'')) (\<lambda>_.
     locked env (enroll_section env i))"

section \<open>Sessions\<close>

record tokens =
  tk_access_token :: string
  tk_expires_in :: int
  tk_refresh_token :: "string option"

record auth_request =
  rq_bearer :: "string option"
  rq_cookie :: "string option"
  rq_reads :: bool
  rq_origin :: "string option"
  rq_csrf :: "string option"

definition session_principal_section :: "auth_env \<Rightarrow> string \<Rightarrow> (auth_world, string) io" where
  "session_principal_section env sid =
     io_bind (io_read aw_state) (\<lambda>st.
     io_bind (now env) (\<lambda>t.
     io_bind (io_lift (ok_or (Option.bind (map_of (as_sessions st) sid) (\<lambda>s. if t < sn_expires s then Some s else None))
        ''session expired or revoked'')) (\<lambda>s.
     io_bind (io_lift (ok_or (map_of (as_principals st) (sn_principal s)) ''identity missing'')) (\<lambda>p.
     io_bind (io_lift (ensure (admitted (ae_config env) (pn_email p)) ''identity admission has been removed'')) (\<lambda>_.
     io_return (pn_id p))))))"

definition session_principal :: "auth_env \<Rightarrow> string \<Rightarrow> (auth_world, string) io" where
  "session_principal env sid = locked env (session_principal_section env sid)"

definition find_session :: "auth_env \<Rightarrow> string \<Rightarrow> (auth_world, string) io" where
  "find_session env hash =
     io_bind (io_read aw_state) (\<lambda>st.
     io_bind (now env) (\<lambda>t.
     io_lift (ok_or (map_option fst (List.find (\<lambda>e. sn_access (snd e) = hash \<and> t < sn_access_expires (snd e)) (as_sessions st)))
       ''access token expired or revoked'')))"

definition authenticate :: "auth_env \<Rightarrow> auth_request \<Rightarrow> (auth_world, string \<times> string) io" where
  "authenticate env q =
     io_bind (io_lift (ensure (rq_bearer q \<noteq> None \<or> rq_reads q \<or> rq_origin q = Some (server_origin env) \<and> rq_csrf q = Some ''1'')
        ''invalid browser request origin'')) (\<lambda>_.
     io_bind (io_lift (ok_or (case rq_bearer q of Some t \<Rightarrow> Some t | None \<Rightarrow> rq_cookie q) ''authentication required'')) (\<lambda>token.
     io_bind (locked env (find_session env (ae_digest env token))) (\<lambda>sid.
     io_bind (session_principal env sid) (\<lambda>p.
     io_return (p, sid)))))"

definition issue_section :: "auth_env \<Rightarrow> string \<Rightarrow> string option \<Rightarrow> (auth_world, tokens) io" where
  "issue_section env p client =
     io_bind (io_read aw_state) (\<lambda>st.
     io_bind (now env) (\<lambda>t.
     let kept = bt_retain (\<lambda>s. t < sn_expires s) (as_sessions st) in
     io_bind (io_lift (ensure (length (filter (\<lambda>e. sn_principal (snd e) = p) kept) < 64) ''too many sessions; log out on another device'')) (\<lambda>_.
     io_bind (random env) (\<lambda>access_token.
     io_bind (case client of Some _ \<Rightarrow> io_bind (random env) (\<lambda>r. io_return (Some r)) | None \<Rightarrow> io_return None) (\<lambda>refresh.
     io_bind (random env) (\<lambda>sid.
     io_bind (now env) (\<lambda>t1.
     io_bind (now env) (\<lambda>t2.
     io_bind (commit env (st\<lparr>as_sessions := bt_insert sid
         \<lparr> sn_principal = p, sn_client = client, sn_access = ae_digest env access_token, sn_refresh = map_option (ae_digest env) refresh,
           sn_access_expires = t1 + (if refresh \<noteq> None then ACCESS_SECONDS else SESSION_SECONDS), sn_expires = t2 + SESSION_SECONDS \<rparr> kept\<rparr>)) (\<lambda>_.
     io_return \<lparr> tk_access_token = access_token, tk_expires_in = ACCESS_SECONDS, tk_refresh_token = refresh \<rparr>)))))))))"

definition issue :: "auth_env \<Rightarrow> string \<Rightarrow> string option \<Rightarrow> (auth_world, tokens) io" where
  "issue env p client = locked env (issue_section env p client)"

section \<open>The authorization server\<close>

text \<open>Errors of the protocol carry their name; \<open>Login_Redirect\<close> sets the cookie that binds the login to the browser.\<close>

datatype auth_reply =
    Registered string "string list"
  | Login_Redirect string string string
  | Code_Redirect string string string string
  | Signed_In string
  | Token_Reply tokens
  | Done

definition loopback_redirect :: "auth_env \<Rightarrow> string \<Rightarrow> bool" where
  "loopback_redirect env text =
     (case ae_parse env text of
        Inl _ \<Rightarrow> False
      | Inr u \<Rightarrow> url_scheme u = ''http'' \<and> url_username u = [] \<and> url_password u = None \<and> url_fragment u = None \<and> url_query u = None \<and>
          (case url_host_str u of None \<Rightarrow> False | Some host \<Rightarrow> ae_loopback env host))"

record registration =
  rg_redirect_uris :: "string list"
  rg_auth_method :: "string option"
  rg_grant_types :: "string list option"
  rg_response_types :: "string list option"

definition registration_ok :: "auth_env \<Rightarrow> registration \<Rightarrow> bool" where
  "registration_ok env body \<longleftrightarrow>
     rg_redirect_uris body \<noteq> [] \<and> length (rg_redirect_uris body) \<le> 4 \<and> list_all (loopback_redirect env) (rg_redirect_uris body) \<and>
     (case rg_auth_method body of None \<Rightarrow> True | Some m \<Rightarrow> m = ''none'') \<and>
     (case rg_grant_types body of None \<Rightarrow> True | Some gs \<Rightarrow> list_all (\<lambda>g. g = ''authorization_code'' \<or> g = ''refresh_token'') gs) \<and>
     (case rg_response_types body of None \<Rightarrow> True | Some rs \<Rightarrow> rs = [''code''])"

definition register_section :: "auth_env \<Rightarrow> registration \<Rightarrow> (auth_world, auth_reply) io" where
  "register_section env body =
     io_bind (io_read aw_state) (\<lambda>st.
     io_bind (now env) (\<lambda>t.
     let kept = bt_retain (\<lambda>c. t < ct_expires c) (as_clients st) in
     io_bind (io_lift (ensure (length kept < 1024) ''temporarily_unavailable'')) (\<lambda>_.
     io_bind (random env) (\<lambda>cid.
     io_bind (now env) (\<lambda>t1.
     io_bind (internal env (commit env (st\<lparr>as_clients := bt_insert cid
         \<lparr> ct_redirect_uris = rg_redirect_uris body, ct_expires = t1 + SESSION_SECONDS \<rparr> kept\<rparr>))) (\<lambda>_.
     io_return (Registered cid (rg_redirect_uris body))))))))"

definition register_client :: "auth_env \<Rightarrow> registration \<Rightarrow> (auth_world, auth_reply) io" where
  "register_client env body =
     io_bind (io_lift (ensure (registration_ok env body) ''invalid_client_metadata'')) (\<lambda>_.
     locked env (register_section env body))"

definition start_login_section :: "auth_env \<Rightarrow> authorization_request option \<Rightarrow> (auth_world, auth_reply) io" where
  "start_login_section env request =
     io_bind auth_call (\<lambda>n.
     let login = ae_login env n in
     io_bind (random env) (\<lambda>browser.
     io_bind (now env) (\<lambda>t.
     io_bind (io_modify (\<lambda>w. w\<lparr>aw_pending := bt_retain (\<lambda>p. t < pl_expires p) (aw_pending w)\<rparr>)) (\<lambda>_.
     io_bind (io_read aw_pending) (\<lambda>pending.
     io_bind (io_lift (ensure (length pending < MAX_PENDING) ''temporarily_unavailable'')) (\<lambda>_.
     io_bind (now env) (\<lambda>t1.
     io_bind (io_modify (\<lambda>w. w\<lparr>aw_pending := bt_insert (ae_digest env (ol_state login))
        \<lparr> pl_request = request, pl_nonce = ol_nonce login, pl_verifier = ol_verifier login, pl_browser = ae_digest env browser,
          pl_expires = t1 + LOGIN_SECONDS \<rparr> pending\<rparr>)) (\<lambda>_.
     io_return (Login_Redirect (ol_url login) (ol_state login) browser)))))))))"

definition start_login :: "auth_env \<Rightarrow> authorization_request option \<Rightarrow> (auth_world, auth_reply) io" where
  "start_login env request = locked env (start_login_section env request)"

definition authorization_ok :: "auth_env \<Rightarrow> client_record \<Rightarrow> authorization_request \<Rightarrow> bool" where
  "authorization_ok env client q \<longleftrightarrow>
     az_redirect_uri q \<in> set (ct_redirect_uris client) \<and> az_response_type q = ''code'' \<and> az_resource q = server_resource env \<and>
     az_code_challenge_method q = ''S256'' \<and> length (az_code_challenge q) = 43 \<and> ae_challenge_ok env (az_code_challenge q) \<and> az_state q \<noteq> [] \<and>
     list_all (\<lambda>s. s = ''exo'') (split_whitespace (az_scope q))"

definition check_authorization :: "auth_env \<Rightarrow> authorization_request \<Rightarrow> (auth_world, unit) io" where
  "check_authorization env q =
     io_bind (io_read aw_state) (\<lambda>st.
     io_bind (now env) (\<lambda>t.
     io_bind (io_lift (ok_or (Option.bind (map_of (as_clients st) (az_client_id q)) (\<lambda>c. if t < ct_expires c then Some c else None)) ''invalid_client'')) (\<lambda>client.
     io_lift (ensure (authorization_ok env client q) ''invalid_request''))))"

definition authorize_client :: "auth_env \<Rightarrow> authorization_request \<Rightarrow> (auth_world, auth_reply) io" where
  "authorize_client env q =
     io_bind (locked env (check_authorization env q)) (\<lambda>_. start_login env (Some q))"

definition login :: "auth_env \<Rightarrow> (auth_world, auth_reply) io" where
  "login env = start_login env None"

record callback_query =
  cq_code :: "string option"
  cq_state :: string
  cq_error :: bool

text \<open>A pending login is taken out once, by the browser that started it.\<close>

definition take_pending :: "auth_env \<Rightarrow> callback_query \<Rightarrow> string \<Rightarrow> (auth_world, pending_login \<times> string) io" where
  "take_pending env q browser =
     io_bind (io_read aw_pending) (\<lambda>pending.
     io_bind (now env) (\<lambda>t.
     let k = ae_digest env (cq_state q) in
     io_bind (io_lift (ok_or (Option.bind (map_of pending k)
        (\<lambda>p. if t < pl_expires p \<and> pl_browser p = ae_digest env browser then Some p else None)) ''invalid_request'')) (\<lambda>p.
     io_bind (io_modify (\<lambda>w. w\<lparr>aw_pending := bt_remove k (aw_pending w)\<rparr>)) (\<lambda>_.
     io_bind (io_lift (ensure (\<not> cq_error q) ''access_denied'')) (\<lambda>_.
     io_bind (io_lift (ok_or (cq_code q) ''access_denied'')) (\<lambda>code.
     io_return (p, code)))))))"

definition put_code :: "auth_env \<Rightarrow> authorization_request \<Rightarrow> string \<Rightarrow> (auth_world, auth_reply) io" where
  "put_code env request p =
     io_bind (now env) (\<lambda>t.
     io_bind (io_modify (\<lambda>w. w\<lparr>aw_codes := bt_retain (\<lambda>c. t < gc_expires c) (aw_codes w)\<rparr>)) (\<lambda>_.
     io_bind (io_read aw_codes) (\<lambda>codes.
     io_bind (io_lift (ensure (length codes < MAX_PENDING) ''temporarily_unavailable'')) (\<lambda>_.
     io_bind (random env) (\<lambda>code.
     io_bind (io_lift (case ae_parse env (az_redirect_uri request) of Inl _ \<Rightarrow> bail ''invalid_request'' | Inr _ \<Rightarrow> Ok ())) (\<lambda>_.
     io_bind (now env) (\<lambda>t1.
     io_bind (io_modify (\<lambda>w. w\<lparr>aw_codes := bt_insert (ae_digest env code)
        \<lparr> gc_request = request, gc_principal = p, gc_expires = t1 + 60 \<rparr> codes\<rparr>)) (\<lambda>_.
     io_return (Code_Redirect (az_redirect_uri request) code (az_state request) (server_origin env))))))))))"

definition access_denied :: "(auth_world, 'a) io \<Rightarrow> (auth_world, 'a) io" where
  "access_denied m = io_bind (io_try m) (\<lambda>r. case r of Inl _ \<Rightarrow> io_lift (bail ''access_denied'') | Inr x \<Rightarrow> io_return x)"

definition callback :: "auth_env \<Rightarrow> string option \<Rightarrow> callback_query \<Rightarrow> (auth_world, auth_reply) io" where
  "callback env cookie q =
     io_bind (io_lift (ok_or cookie ''invalid_request'')) (\<lambda>browser.
     io_bind (locked env (take_pending env q browser)) (\<lambda>(pending, code).
     io_bind (access_denied (identify env code (pl_nonce pending) (pl_verifier pending))) (\<lambda>identity.
     io_bind (access_denied (enroll env identity)) (\<lambda>p.
     case pl_request pending of
       Some request \<Rightarrow> locked env (put_code env request (pn_id p))
     | None \<Rightarrow>
         io_bind (internal env (issue env (pn_id p) None)) (\<lambda>ts.
         io_return (Signed_In (tk_access_token ts)))))))"

section \<open>Tokens\<close>

datatype token_request =
    Authorization_Code string string string string string
  | Refresh_Token string string string "string option"

definition take_code :: "auth_env \<Rightarrow> string \<Rightarrow> (auth_world, grant_code) io" where
  "take_code env code =
     io_bind (io_read aw_codes) (\<lambda>codes.
     io_bind (io_modify (\<lambda>w. w\<lparr>aw_codes := bt_remove (ae_digest env code) (aw_codes w)\<rparr>)) (\<lambda>_.
     io_lift (ok_or (map_of codes (ae_digest env code)) ''invalid_grant'')))"

definition verifier_ok :: "string \<Rightarrow> bool" where
  "verifier_ok v \<longleftrightarrow> 43 \<le> length v \<and> length v \<le> 128 \<and> list_all (\<lambda>c. is_ascii_alphanumeric c \<or> c \<in> set ''-._~'') v"

definition refresh_session :: "auth_env \<Rightarrow> string \<Rightarrow> string \<Rightarrow> (auth_world, tokens) io" where
  "refresh_session env refresh_token client_id =
     io_bind (io_read aw_state) (\<lambda>st.
     io_bind (now env) (\<lambda>t.
     let matching = (\<lambda>s. sn_refresh s = Some (ae_digest env refresh_token) \<and> sn_client s = Some client_id \<and> t < sn_expires s) in
     io_bind (io_lift (ok_or (List.find (\<lambda>e. matching (snd e)) (as_sessions st)) ''invalid_grant'')) (\<lambda>(sid, s).
     io_bind (io_lift (ok_or (map_of (as_principals st) (sn_principal s)) ''invalid_grant'')) (\<lambda>p.
     io_bind (io_lift (ensure (admitted (ae_config env) (pn_email p)) ''invalid_grant'')) (\<lambda>_.
     io_bind (random env) (\<lambda>access_token.
     io_bind (random env) (\<lambda>refresh.
     io_bind (now env) (\<lambda>t1.
     io_bind (internal env (commit env (st\<lparr>as_sessions := update_first (\<lambda>e. matching (snd e)) (\<lambda>(sid, s). (sid, s\<lparr>sn_access := ae_digest env access_token,
         sn_refresh := Some (ae_digest env refresh), sn_access_expires := t1 + ACCESS_SECONDS\<rparr>)) (as_sessions st)\<rparr>))) (\<lambda>_.
     io_return \<lparr> tk_access_token = access_token, tk_expires_in = ACCESS_SECONDS, tk_refresh_token = Some refresh \<rparr>)))))))))"

fun exchange_token :: "auth_env \<Rightarrow> token_request \<Rightarrow> (auth_world, auth_reply) io" where
  "exchange_token env (Authorization_Code code client_id redirect_uri code_verifier resource) =
     io_bind (locked env (take_code env code)) (\<lambda>grant.
     io_bind (now env) (\<lambda>t.
     io_bind (io_lift (ensure (t < gc_expires grant \<and> az_client_id (gc_request grant) = client_id \<and> az_redirect_uri (gc_request grant) = redirect_uri \<and>
        az_resource (gc_request grant) = resource \<and> verifier_ok code_verifier) ''invalid_grant'')) (\<lambda>_.
     io_bind (io_lift (ensure (ae_pkce env (az_code_challenge (gc_request grant)) code_verifier) ''invalid_grant'')) (\<lambda>_.
     io_bind (internal env (issue env (gc_principal grant) (Some client_id))) (\<lambda>ts.
     io_return (Token_Reply ts))))))"
| "exchange_token env (Refresh_Token refresh_token client_id resource scope) =
     io_bind (io_lift (ensure (resource = server_resource env \<and>
        (case scope of None \<Rightarrow> True | Some s \<Rightarrow> list_all (\<lambda>s. s = ''exo'') (split_whitespace s))) ''invalid_grant'')) (\<lambda>_.
     io_bind (locked env (refresh_session env refresh_token client_id)) (\<lambda>ts.
     io_return (Token_Reply ts)))"

definition revoke_section :: "auth_env \<Rightarrow> string \<Rightarrow> string \<Rightarrow> (auth_world, unit) io" where
  "revoke_section env token client_id =
     io_bind (io_read aw_state) (\<lambda>st.
     internal env (commit env (st\<lparr>as_sessions := bt_retain (\<lambda>s. sn_client s \<noteq> Some client_id \<or>
        sn_access s \<noteq> ae_digest env token \<and> sn_refresh s \<noteq> Some (ae_digest env token)) (as_sessions st)\<rparr>)))"

definition revoke :: "auth_env \<Rightarrow> string \<Rightarrow> string \<Rightarrow> (auth_world, auth_reply) io" where
  "revoke env token client_id = io_bind (locked env (revoke_section env token client_id)) (\<lambda>_. io_return Done)"

definition logout_section :: "auth_env \<Rightarrow> string \<Rightarrow> (auth_world, unit) io" where
  "logout_section env token =
     io_bind (io_read aw_state) (\<lambda>st.
     internal env (commit env (st\<lparr>as_sessions := bt_retain (\<lambda>s. sn_access s \<noteq> ae_digest env token) (as_sessions st)\<rparr>)))"

definition logout :: "auth_env \<Rightarrow> auth_request \<Rightarrow> (auth_world, auth_reply) io" where
  "logout env q =
     io_bind (io_try (authenticate env q)) (\<lambda>r.
     case r of
       Inl _ \<Rightarrow> io_lift (bail ''invalid_request'')
     | Inr _ \<Rightarrow>
         io_bind (io_lift (ok_or (rq_cookie q) ''invalid_request'')) (\<lambda>token.
         io_bind (locked env (logout_section env token)) (\<lambda>_.
         io_return Done)))"

section \<open>The access policy\<close>

fun scope_key :: "auth_env \<Rightarrow> resource_scope \<Rightarrow> string" where
  "scope_key env Global = ''global''"
| "scope_key env (Agent_Scope aid) = ''agent/'' @ ae_show env aid"
| "scope_key env (Thread_Scope aid tid) = ''agent/'' @ ae_show env aid @ ''/thread/'' @ ae_show env tid"

definition policy_check :: "auth_env \<Rightarrow> bool \<Rightarrow> auth_state \<Rightarrow> string \<Rightarrow> resource_scope \<Rightarrow> unit result" where
  "policy_check env multiplayer st p scope =
     and_then (ensure (as_owner st = p \<or>
        (case map_of (as_principals st) p of None \<Rightarrow> False | Some q \<Rightarrow> admitted (ae_config env) (pn_email q))) ''identity is not admitted'') (\<lambda>_.
     ensure (scope = Global \<or>
        (case map_of (as_owners st) (scope_key env scope) of None \<Rightarrow> as_owner st = p | Some owner \<Rightarrow> owner = p \<or> multiplayer))
       ''resource not available'')"

text \<open>The lock is taken once for the check and once more for the answer, so that the two may see different states.\<close>

definition policy_check_operator :: "auth_env \<Rightarrow> bool \<Rightarrow> auth_state \<Rightarrow> auth_state \<Rightarrow> string \<Rightarrow> unit result" where
  "policy_check_operator env multiplayer checked st p =
     and_then (policy_check env multiplayer checked p Global) (\<lambda>_.
     ensure (as_owner st = p) ''operation requires the server owner'')"

definition policy_vault :: "auth_env \<Rightarrow> bool \<Rightarrow> auth_state \<Rightarrow> auth_state \<Rightarrow> string \<Rightarrow> vault_record \<Rightarrow> bool \<Rightarrow> vault_record option result" where
  "policy_vault env multiplayer checked st p record write =
     and_then (policy_check env multiplayer checked p Global) (\<lambda>_.
     let owns = (map_of (as_vault_owners st) (vr_id record) = Some p) in
     if vr_id record = ae_auth_vault env \<or> \<not> owns \<and> (write \<or> vr_id record \<notin> set (as_shared_vaults st)) then Ok None
     else Ok (Some (case map_of (as_vault_names st) (vr_id record) of Some name \<Rightarrow> record\<lparr>vr_name := name\<rparr> | None \<Rightarrow> record)))"

definition policy_default_vault :: "auth_env \<Rightarrow> bool \<Rightarrow> auth_state \<Rightarrow> auth_state \<Rightarrow> string \<Rightarrow> uuid result" where
  "policy_default_vault env multiplayer checked st p =
     and_then (policy_check env multiplayer checked p Global) (\<lambda>_.
     ok_or (map_option pn_vault (map_of (as_principals st) p)) ''the server owner must log in before running adapters'')"

definition created_section :: "auth_env \<Rightarrow> string \<Rightarrow> resource_scope \<Rightarrow> (auth_world, unit) io" where
  "created_section env p scope =
     io_bind (io_read aw_state) (\<lambda>st.
     io_bind (io_lift (ensure (case map_of (as_owners st) (scope_key env scope) of None \<Rightarrow> True | Some owner \<Rightarrow> owner = p)
        ''resource already belongs to another identity'')) (\<lambda>_.
     commit env (st\<lparr>as_owners := bt_insert (scope_key env scope) p (as_owners st)\<rparr>)))"

definition policy_created :: "auth_env \<Rightarrow> bool \<Rightarrow> string \<Rightarrow> resource_scope \<Rightarrow> (auth_world, unit) io" where
  "policy_created env multiplayer p scope =
     io_bind (locked env (\<lambda>w. io_lift (policy_check env multiplayer (aw_state w) p Global) w)) (\<lambda>_.
     locked env (created_section env p scope))"

definition vault_created_section :: "auth_env \<Rightarrow> string \<Rightarrow> uuid \<Rightarrow> string \<Rightarrow> (auth_world, unit) io" where
  "vault_created_section env p vid name =
     io_bind (io_read aw_state) (\<lambda>st.
     commit env (st\<lparr>as_vault_owners := bt_insert vid p (as_vault_owners st), as_vault_names := bt_insert vid name (as_vault_names st)\<rparr>))"

definition policy_vault_created :: "auth_env \<Rightarrow> bool \<Rightarrow> string \<Rightarrow> uuid \<Rightarrow> string \<Rightarrow> (auth_world, unit) io" where
  "policy_vault_created env multiplayer p vid name =
     io_bind (locked env (\<lambda>w. io_lift (policy_check env multiplayer (aw_state w) p Global) w)) (\<lambda>_.
     locked env (vault_created_section env p vid name))"

text \<open>What existed before the server was shared goes to its owner, and the configured vaults are shared. The agents with
  their threads and the vaults are those that the harness lists.\<close>

definition adopt_agent :: "auth_env \<Rightarrow> uuid \<times> uuid list \<Rightarrow> auth_state \<Rightarrow> auth_state" where
  "adopt_agent env a st =
     st\<lparr>as_owners := fold (\<lambda>scope. bt_or_insert (scope_key env scope) (as_owner st))
        (Agent_Scope (fst a) # map (Thread_Scope (fst a)) (snd a)) (as_owners st)\<rparr>"

definition share_vault :: "auth_env \<Rightarrow> vault_record list \<Rightarrow> string \<Rightarrow> auth_state \<Rightarrow> auth_state result" where
  "share_vault env vaults reference st =
     and_then (ok_or (List.find (\<lambda>v. vr_name v = reference \<or> ae_show env (vr_id v) = reference) vaults) (''shared vault not found: '' @ reference)) (\<lambda>v.
     and_then (ensure (vr_id v \<noteq> ae_auth_vault env \<and> \<not> list_ex (\<lambda>e. pn_vault (snd e) = vr_id v) (as_principals st))
       ''auth and personal vaults cannot be shared'') (\<lambda>_.
     Ok (st\<lparr>as_shared_vaults := as_shared_vaults st @ [vr_id v]\<rparr>)))"

fun share_vaults :: "auth_env \<Rightarrow> vault_record list \<Rightarrow> string list \<Rightarrow> auth_state \<Rightarrow> auth_state result" where
  "share_vaults env vaults [] st = Ok st"
| "share_vaults env vaults (reference # rest) st = and_then (share_vault env vaults reference st) (share_vaults env vaults rest)"

definition adopt_vault :: "auth_env \<Rightarrow> vault_record \<Rightarrow> auth_state \<Rightarrow> auth_state" where
  "adopt_vault env v st =
     (if vr_id v = ae_auth_vault env then st
      else st\<lparr>as_vault_owners := bt_or_insert (vr_id v) (as_owner st) (as_vault_owners st),
              as_vault_names := bt_or_insert (vr_id v) (vr_name v) (as_vault_names st)\<rparr>)"

definition adopt_section :: "auth_env \<Rightarrow> (uuid \<times> uuid list) list \<Rightarrow> vault_record list \<Rightarrow> (auth_world, unit) io" where
  "adopt_section env agents vaults =
     io_bind (io_read aw_state) (\<lambda>st.
     io_bind (io_lift (share_vaults env vaults (af_shared_vaults (ae_config env)) ((fold (adopt_agent env) agents st)\<lparr>as_shared_vaults := []\<rparr>))) (\<lambda>st'.
     commit env (fold (adopt_vault env) vaults st')))"

definition adopt_local_state :: "auth_env \<Rightarrow> (uuid \<times> uuid list) list \<Rightarrow> vault_record list \<Rightarrow> (auth_world, unit) io" where
  "adopt_local_state env agents vaults = locked env (adopt_section env agents vaults)"

text \<open>The policy a harness gets, answering from the state at each of its calls: the one it checks, and the one it answers from.\<close>

definition remote_policy :: "auth_env \<Rightarrow> bool \<Rightarrow> (nat \<Rightarrow> auth_state) \<Rightarrow> (nat \<Rightarrow> auth_state) \<Rightarrow> (nat \<Rightarrow> string \<Rightarrow> uuid \<Rightarrow> string \<Rightarrow> unit result) \<Rightarrow> access_policy" where
  "remote_policy env multiplayer checked states created =
     \<lparr> ap_check = (\<lambda>n. policy_check env multiplayer (checked n)), ap_vault = (\<lambda>n. policy_vault env multiplayer (checked n) (states n)),
       ap_vault_created = created, ap_default_vault = (\<lambda>n. policy_default_vault env multiplayer (checked n) (states n)) \<rparr>"

end
