(* ===== verification/Vault_Laws.thy ===== *)
theory Vault_Laws
  imports Vault_Safety
begin

text \<open>
  The guarantees of the vault store (\<^verbatim>\<open>crates/exoharness/src/vault/local.rs\<close> with its parts): catalogs stay well formed,
  credentials are released only where their policies permit, what is put can be read, a store in a file behaves as one
  in memory, and the migration of an old file keeps every credential and never widens its scope.
\<close>

section \<open>Well-formed catalogs\<close>

text \<open>Identifiers are unique in a vault, and every entry holds a secret that was encrypted for this place and is valid for
  its policy. Of the entries that were put, not imported, the names are not blank, the policies are normalized, and names
  and resource policies tell them apart. \<open>I\<close> are the identifiers that imports may use.\<close>

definition entry_ok :: "'k vault_env \<Rightarrow> uuid set \<Rightarrow> uuid \<Rightarrow> stored_secret \<Rightarrow> bool" where
  "entry_ok env I vid st \<longleftrightarrow>
     (sm_id (ss_metadata st) \<notin> I \<longrightarrow> trim (sm_name (ss_metadata st)) \<noteq> [] \<and>
        (\<exists>policy. normalized_option (ve_parse env) policy = Inr (sm_policy (ss_metadata st)))) \<and>
     (\<exists>secret. sealed env vid st secret \<and> valid_for env (ss_metadata st) secret)"

definition secrets_ok :: "uuid set \<Rightarrow> stored_secret list \<Rightarrow> bool" where
  "secrets_ok I ss \<longleftrightarrow> distinct (map (sm_id \<circ> ss_metadata) ss) \<and>
     (\<forall>a \<in> set ss. \<forall>b \<in> set ss. sm_id (ss_metadata a) \<notin> I \<and> sm_id (ss_metadata b) \<notin> I \<longrightarrow>
        (sm_name (ss_metadata a) = sm_name (ss_metadata b) \<longrightarrow> a = b) \<and>
        (names_resource (sm_policy (ss_metadata a)) \<and> sm_policy (ss_metadata a) = sm_policy (ss_metadata b) \<longrightarrow> a = b))"

definition vault_ok :: "'k vault_env \<Rightarrow> uuid set \<Rightarrow> stored_vault \<Rightarrow> bool" where
  "vault_ok env I v \<longleftrightarrow> trim (vr_name (sv_record v)) \<noteq> [] \<and> secrets_ok I (sv_secrets v) \<and>
     (\<forall>st \<in> set (sv_secrets v). entry_ok env I (vr_id (sv_record v)) st)"

definition catalog_ok :: "'k vault_env \<Rightarrow> uuid set \<Rightarrow> catalog \<Rightarrow> bool" where
  "catalog_ok env I c \<longleftrightarrow> distinct (map (vr_id \<circ> sv_record) c) \<and> distinct (map (vr_name \<circ> sv_record) c) \<and> (\<forall>v \<in> set c. vault_ok env I v)"

definition catalog_ids :: "catalog \<Rightarrow> uuid set" where
  "catalog_ids c = (vr_id \<circ> sv_record) ` set c \<union> (\<Union>v \<in> set c. (sm_id \<circ> ss_metadata) ` set (sv_secrets v))"

text \<open>The identifiers drawn before call \<open>N\<close> are not in use yet.\<close>

definition fresh_ids :: "'k vault_env \<Rightarrow> nat \<Rightarrow> catalog_state \<Rightarrow> bool" where
  "fresh_ids env N s \<longleftrightarrow> (\<forall>n. cs_calls s \<le> n \<and> n < N \<longrightarrow> ve_id env n \<notin> catalog_ids (cs_catalog s))"

definition state_ok :: "'k vault_env \<Rightarrow> uuid set \<Rightarrow> nat \<Rightarrow> catalog_state \<Rightarrow> bool" where
  "state_ok env I N s \<longleftrightarrow> catalog_ok env I (cs_catalog s) \<and> fresh_ids env N s"

lemma records_set_secrets [simp]: "map sv_record (set_secrets vid f c) = map sv_record c"
  unfolding set_secrets_def by (rule map_update_first) simp

lemma in_set_secrets:
  assumes "v \<in> set (set_secrets vid f c)"
  shows "v \<in> set c \<or> (\<exists>u. find_vault vid c = Some u \<and> v = u\<lparr>sv_secrets := f (sv_secrets u)\<rparr>)"
  using assms by (induction c) (auto simp: set_secrets_def find_vault_def split: if_splits)

lemma find_vault_in: "find_vault vid c = Some v \<Longrightarrow> v \<in> set c \<and> vr_id (sv_record v) = vid"
  unfolding find_vault_def by (rule find_in_set)

lemma find_stored_in: "find_stored sid v = Some st \<Longrightarrow> st \<in> set (sv_secrets v) \<and> sm_id (ss_metadata st) = sid"
  unfolding find_stored_def by (rule find_in_set)

lemma catalog_ok_set_secrets:
  assumes "catalog_ok env I c" and "find_vault vid c = Some v"
    and "secrets_ok I (f (sv_secrets v))" and "\<And>st. st \<in> set (f (sv_secrets v)) \<Longrightarrow> entry_ok env I vid st"
  shows "catalog_ok env I (set_secrets vid f c)"
proof -
  have maps: "map (vr_id \<circ> sv_record) (set_secrets vid f c) = map (vr_id \<circ> sv_record) c"
    "map (vr_name \<circ> sv_record) (set_secrets vid f c) = map (vr_name \<circ> sv_record) c"
    unfolding map_map [symmetric] by simp_all
  have "vault_ok env I u" if "u \<in> set (set_secrets vid f c)" for u
    using in_set_secrets [OF that] assms find_vault_in [OF assms(2)] by (auto simp: catalog_ok_def vault_ok_def)
  then show ?thesis using assms(1) unfolding catalog_ok_def maps by blast
qed

lemma in_replace_stored:
  assumes "distinct (map (sm_id \<circ> ss_metadata) ss)"
  shows "st \<in> set (replace_stored sid new ss) \<longleftrightarrow>
    st \<in> set ss \<and> sm_id (ss_metadata st) \<noteq> sid \<or> st = new \<and> (\<exists>old \<in> set ss. sm_id (ss_metadata old) = sid)"
proof -
  have "replace_stored sid new ss = map (\<lambda>st. if sm_id (ss_metadata st) = sid then new else st) ss"
    using update_first_distinct [OF assms] by (simp add: replace_stored_def)
  then show ?thesis by auto
qed

lemma distinct_replace_stored:
  assumes "distinct (map (sm_id \<circ> ss_metadata) ss)" and "sm_id (ss_metadata new) = sid"
  shows "distinct (map (sm_id \<circ> ss_metadata) (replace_stored sid new ss))"
proof -
  have "map (sm_id \<circ> ss_metadata) (replace_stored sid new ss) = map (sm_id \<circ> ss_metadata) ss"
    using assms(2) by (induction ss) (auto simp: replace_stored_def)
  then show ?thesis using assms(1) by simp
qed

lemma catalog_ids_set:
  assumes "find_vault vid c = Some v" and "(sm_id \<circ> ss_metadata) ` set (f (sv_secrets v)) \<subseteq> catalog_ids c \<union> new"
  shows "catalog_ids (set_secrets vid f c) \<subseteq> catalog_ids c \<union> new"
proof -
  have "sv_record ` set (set_secrets vid f c) = sv_record ` set c" by (metis list.set_map records_set_secrets)
  then have "(vr_id \<circ> sv_record) ` set (set_secrets vid f c) \<subseteq> catalog_ids c" unfolding catalog_ids_def image_comp [symmetric] by simp
  moreover have "(sm_id \<circ> ss_metadata) ` set (sv_secrets u) \<subseteq> catalog_ids c \<union> new" if "u \<in> set (set_secrets vid f c)" for u
  proof (cases "u \<in> set c")
    case True
    then show ?thesis unfolding catalog_ids_def by blast
  next
    case False
    then show ?thesis using in_set_secrets [OF that] assms by auto
  qed
  ultimately show ?thesis unfolding catalog_ids_def [of "set_secrets vid f c"] by blast
qed

lemma catalog_ids_own: "find_vault vid c = Some v \<Longrightarrow> (sm_id \<circ> ss_metadata) ` set (sv_secrets v) \<subseteq> catalog_ids c"
  unfolding catalog_ids_def using find_vault_in by fastforce

text \<open>An entry is added, replaced or removed.\<close>

lemma added_ok:
  assumes "state_ok env I N s" and "find_vault vid (cs_catalog s) = Some v" and "inj_on (ve_id env) {..<N}"
    and "sm_id (ss_metadata st) = ve_id env (cs_calls s)" and "entry_ok env I vid st"
    and "\<forall>old \<in> set (sv_secrets v). sm_name (ss_metadata old) \<noteq> sm_name (ss_metadata st) \<and>
      (names_resource (sm_policy (ss_metadata st)) \<longrightarrow> sm_policy (ss_metadata old) \<noteq> sm_policy (ss_metadata st))"
    and "cs_calls s < n" and "n \<le> N"
  shows "state_ok env I N \<lparr> cs_catalog = set_secrets vid (\<lambda>ss. ss @ [st]) (cs_catalog s), cs_calls = n \<rparr>"
proof -
  have v: "v \<in> set (cs_catalog s)" "vr_id (sv_record v) = vid" "vault_ok env I v"
    using find_vault_in [OF assms(2)] assms(1) by (auto simp: state_ok_def catalog_ok_def)
  have "ve_id env (cs_calls s) \<notin> (sm_id \<circ> ss_metadata) ` set (sv_secrets v)"
    using assms(1,7,8) v(1) less_le_trans unfolding state_ok_def fresh_ids_def catalog_ids_def by blast
  then have "secrets_ok I (sv_secrets v @ [st])"
    using v(3) assms(4,6) by (auto simp: vault_ok_def secrets_ok_def)
  then have "catalog_ok env I (set_secrets vid (\<lambda>ss. ss @ [st]) (cs_catalog s))"
    using assms(1,2,5) v by (intro catalog_ok_set_secrets) (auto simp: state_ok_def vault_ok_def)
  moreover have "catalog_ids (set_secrets vid (\<lambda>ss. ss @ [st]) (cs_catalog s)) \<subseteq> catalog_ids (cs_catalog s) \<union> {ve_id env (cs_calls s)}"
    using catalog_ids_own [OF assms(2)] assms(4) by (intro catalog_ids_set [OF assms(2)]) auto
  moreover have "ve_id env m \<noteq> ve_id env (cs_calls s)" if "n \<le> m" "m < N" for m
    using that assms(7) by (auto dest: inj_onD [OF assms(3)])
  ultimately show ?thesis using assms(1,7) by (fastforce simp: state_ok_def fresh_ids_def)
qed

text \<open>An imported entry has an identifier that is never drawn.\<close>

lemma imported_ok:
  assumes "state_ok env I N s" and "find_vault vid (cs_catalog s) = Some v" and "I \<inter> ve_id env ` {..<N} = {}"
    and "sm_id (ss_metadata st) \<in> I" and "find_stored (sm_id (ss_metadata st)) v = None" and "entry_ok env I vid st"
    and "cs_calls s \<le> n"
  shows "state_ok env I N \<lparr> cs_catalog = set_secrets vid (\<lambda>ss. ss @ [st]) (cs_catalog s), cs_calls = n \<rparr>"
proof -
  have v: "v \<in> set (cs_catalog s)" "vr_id (sv_record v) = vid" "vault_ok env I v"
    using find_vault_in [OF assms(2)] assms(1) by (auto simp: state_ok_def catalog_ok_def)
  have "sm_id (ss_metadata st) \<notin> (sm_id \<circ> ss_metadata) ` set (sv_secrets v)"
    using assms(5) by (auto simp: find_stored_def find_None_iff)
  then have "secrets_ok I (sv_secrets v @ [st])"
    using v(3) assms(4) by (auto simp: vault_ok_def secrets_ok_def)
  then have "catalog_ok env I (set_secrets vid (\<lambda>ss. ss @ [st]) (cs_catalog s))"
    using assms(1,2,6) v by (intro catalog_ok_set_secrets) (auto simp: state_ok_def vault_ok_def)
  moreover have "catalog_ids (set_secrets vid (\<lambda>ss. ss @ [st]) (cs_catalog s)) \<subseteq> catalog_ids (cs_catalog s) \<union> {sm_id (ss_metadata st)}"
    using catalog_ids_own [OF assms(2)] by (intro catalog_ids_set [OF assms(2)]) auto
  moreover have "ve_id env m \<notin> catalog_ids (cs_catalog s) \<union> {sm_id (ss_metadata st)}" if "n \<le> m" "m < N" for m
    using that assms(1,3,4,7) unfolding state_ok_def fresh_ids_def by (metis IntI UnE empty_iff imageI le_trans lessThan_iff singletonD)
  ultimately show ?thesis unfolding state_ok_def fresh_ids_def by auto
qed

lemma fewer_ids:
  assumes "fresh_ids env N s" and "catalog_ids c \<subseteq> catalog_ids (cs_catalog s)" and "cs_calls s \<le> n"
  shows "fresh_ids env N \<lparr> cs_catalog = c, cs_calls = n \<rparr>"
  using assms unfolding fresh_ids_def by (auto dest: le_trans)

lemma replaced_ok:
  assumes "state_ok env I N s" and "find_vault vid (cs_catalog s) = Some v" and "find_stored sid v = Some old"
    and "sm_id (ss_metadata st) = sid" and "sm_name (ss_metadata st) = sm_name (ss_metadata old)" and "entry_ok env I vid st"
    and "sid \<notin> I \<and> names_resource (sm_policy (ss_metadata st)) \<longrightarrow>
      (\<forall>st' \<in> set (sv_secrets v). sm_id (ss_metadata st') \<notin> insert sid I \<longrightarrow> sm_policy (ss_metadata st') \<noteq> sm_policy (ss_metadata st))"
    and "cs_calls s \<le> n"
  shows "state_ok env I N \<lparr> cs_catalog = set_secrets vid (replace_stored sid st) (cs_catalog s), cs_calls = n \<rparr>"
proof -
  have v: "v \<in> set (cs_catalog s)" "vr_id (sv_record v) = vid" "vault_ok env I v"
    using find_vault_in [OF assms(2)] assms(1) by (auto simp: state_ok_def catalog_ok_def)
  have old: "old \<in> set (sv_secrets v)" "sm_id (ss_metadata old) = sid" using find_stored_in [OF assms(3)] by blast+
  have d: "distinct (map (sm_id \<circ> ss_metadata) (sv_secrets v))" using v(3) by (simp add: vault_ok_def secrets_ok_def)
  have others: "a \<in> set (sv_secrets v) \<Longrightarrow> b \<in> set (sv_secrets v) \<Longrightarrow> sm_id (ss_metadata a) \<notin> I \<Longrightarrow> sm_id (ss_metadata b) \<notin> I \<Longrightarrow>
      sm_name (ss_metadata a) = sm_name (ss_metadata b) \<or>
      names_resource (sm_policy (ss_metadata a)) \<and> sm_policy (ss_metadata a) = sm_policy (ss_metadata b) \<Longrightarrow> a = b" for a b
    using v(3) unfolding vault_ok_def secrets_ok_def by blast
  have apart: "sm_name (ss_metadata b) \<noteq> sm_name (ss_metadata st) \<and>
      (names_resource (sm_policy (ss_metadata st)) \<longrightarrow> sm_policy (ss_metadata b) \<noteq> sm_policy (ss_metadata st))"
    if "b \<in> set (sv_secrets v)" "sm_id (ss_metadata b) \<noteq> sid" "sm_id (ss_metadata b) \<notin> I" "sid \<notin> I" for b
    using that others [of b old] old assms(5,7) by auto
  have "a = b" if "a \<in> set (replace_stored sid st (sv_secrets v))" "b \<in> set (replace_stored sid st (sv_secrets v))"
      "sm_id (ss_metadata a) \<notin> I" "sm_id (ss_metadata b) \<notin> I"
      "sm_name (ss_metadata a) = sm_name (ss_metadata b) \<or>
       names_resource (sm_policy (ss_metadata a)) \<and> sm_policy (ss_metadata a) = sm_policy (ss_metadata b)" for a b
    using that others [of a b] apart [of a] apart [of b] assms(4) unfolding in_replace_stored [OF d] by metis
  then have "secrets_ok I (replace_stored sid st (sv_secrets v))"
    using distinct_replace_stored [OF d assms(4)] unfolding secrets_ok_def by blast
  then have "catalog_ok env I (set_secrets vid (replace_stored sid st) (cs_catalog s))"
    using assms(1,2,6) v by (intro catalog_ok_set_secrets) (auto simp: state_ok_def vault_ok_def in_replace_stored [OF d])
  moreover have "(sm_id \<circ> ss_metadata) ` set (replace_stored sid st (sv_secrets v)) \<subseteq> catalog_ids (cs_catalog s) \<union> {}"
    using catalog_ids_own [OF assms(2)] assms(4) old by (auto simp: in_replace_stored [OF d] image_subset_iff) metis
  then have "catalog_ids (set_secrets vid (replace_stored sid st) (cs_catalog s)) \<subseteq> catalog_ids (cs_catalog s)"
    using catalog_ids_set [OF assms(2)] by blast
  ultimately show ?thesis using assms(1,8) fewer_ids [of env N s _ n] unfolding state_ok_def by auto
qed

lemma catalog_ids_snoc: "catalog_ids (c @ [\<lparr> sv_record = rec, sv_secrets = [] \<rparr>]) = insert (vr_id rec) (catalog_ids c)"
  unfolding catalog_ids_def by simp

lemma made_ok:
  assumes "state_ok env I N s" and "inj_on (ve_id env) {..<N}" and "trim name \<noteq> []" and "name \<notin> (vr_name \<circ> sv_record) ` set (cs_catalog s)"
    and "create_vault_record env name s = (r, s')" and "cs_calls s' \<le> N"
  shows "state_ok env I N s'"
proof -
  have "cs_calls s < N" using assms(5,6) by (auto simp: create_record_run)
  then have "ve_id env (cs_calls s) \<notin> (vr_id \<circ> sv_record) ` set (cs_catalog s)"
    using assms(1) unfolding state_ok_def fresh_ids_def catalog_ids_def by blast
  then have "catalog_ok env I (cs_catalog s')"
    using assms by (auto simp: create_record_run state_ok_def catalog_ok_def vault_ok_def secrets_ok_def)
  moreover have "catalog_ids (cs_catalog s') = insert (ve_id env (cs_calls s)) (catalog_ids (cs_catalog s))"
    using assms(5) by (auto simp: create_record_run catalog_ids_snoc)
  moreover have "ve_id env n \<notin> insert (ve_id env (cs_calls s)) (catalog_ids (cs_catalog s))" if "Suc (cs_calls s) \<le> n" "n < N" for n
    using assms(1) that \<open>cs_calls s < N\<close> by (auto simp: state_ok_def fresh_ids_def dest: inj_onD [OF assms(2)])
  moreover have "cs_calls s' = Suc (cs_calls s)" using assms(5) by (auto simp: create_record_run)
  ultimately show ?thesis by (simp add: state_ok_def fresh_ids_def)
qed

lemma ticked_ok: "ticks s s' \<Longrightarrow> state_ok env I N s \<Longrightarrow> state_ok env I N s'"
  by (auto simp: ticks_def state_ok_def fresh_ids_def)

lemma failed_ok: "atomic m \<Longrightarrow> m s = (Inl e, s') \<Longrightarrow> state_ok env I N s \<Longrightarrow> state_ok env I N s'"
  unfolding atomic_def using ticked_ok by blast

lemma catalog_ok_filter: "catalog_ok env I c \<Longrightarrow> catalog_ok env I (filter P c)"
  by (auto simp: catalog_ok_def distinct_map intro: inj_on_subset)

lemma secrets_ok_filter: "secrets_ok I ss \<Longrightarrow> secrets_ok I (filter P ss)"
  by (auto simp: secrets_ok_def distinct_map intro: inj_on_subset)

lemma global_name: "trim GLOBAL \<noteq> []"
  by code_simp

lemma named_none: "named_vault name c = None \<longleftrightarrow> name \<notin> (vr_name \<circ> sv_record) ` set c"
  by (auto simp: named_vault_def find_None_iff)

lemma state_ok_parts: "state_ok env I N \<lparr> cs_catalog = c, cs_calls = n \<rparr> \<longleftrightarrow> catalog_ok env I c \<and> fresh_ids env N \<lparr> cs_catalog = c, cs_calls = n \<rparr>"
  by (simp add: state_ok_def)

lemma dropped_ok:
  assumes "state_ok env I N s" and "find_vault vid (cs_catalog s) = Some v"
  shows "state_ok env I N (s\<lparr>cs_catalog := set_secrets vid (filter P) (cs_catalog s)\<rparr>)"
proof -
  have v: "secrets_ok I (sv_secrets v)" "\<forall>st \<in> set (sv_secrets v). entry_ok env I vid st"
    using find_vault_in [OF assms(2)] assms(1) by (auto simp: state_ok_def catalog_ok_def vault_ok_def)
  then have "catalog_ok env I (set_secrets vid (filter P) (cs_catalog s))"
    using assms by (intro catalog_ok_set_secrets) (auto simp: state_ok_def secrets_ok_filter)
  moreover have "catalog_ids (set_secrets vid (filter P) (cs_catalog s)) \<subseteq> catalog_ids (cs_catalog s) \<union> {}"
    using catalog_ids_own [OF assms(2)] by (intro catalog_ids_set [OF assms(2)]) auto
  ultimately show ?thesis using assms(1) by (auto simp: state_ok_def fresh_ids_def)
qed

lemma normalized_kept: "normalized_option parse policy = Inr target \<Longrightarrow> normalized_option parse old = Inr p \<Longrightarrow>
    \<exists>q. normalized_option parse q = Inr (case target of Some t \<Rightarrow> Some t | None \<Rightarrow> p)"
  by (cases target) auto

lemma catalog_step_ok:
  assumes "catalog_step env s s'" and "state_ok env I N s" and "cs_calls s' \<le> N" and inj: "inj_on (ve_id env) {..<N}"
  shows "state_ok env I N s'"
  using assms(1-3)
proof (induction rule: catalog_step.induct)
  case (tick s s')
  then show ?case by (blast intro: ticked_ok)
next
  case (make_global s r s')
  then show ?case
    using made_ok [OF make_global(2) inj global_name _ _ make_global(3)] make_global(1,2) named_none [of GLOBAL "cs_catalog s"]
    by (cases "named_vault GLOBAL (cs_catalog s)")
       (auto simp: ensure_global_def find_global_def io_bind_def io_read_def io_return_def)
next
  case (make_vault name s r s')
  then show ?case
  proof (cases r)
    case (Inr rec)
    then have "create_vault_record env name s = (r, s')" "trim name \<noteq> []" "name \<notin> (vr_name \<circ> sv_record) ` set (cs_catalog s)" using make_vault(1)
      by (auto simp: create_vault_op_def io_bind_Inr_iff io_lift_def io_read_def result_simps list_ex_iff)
    then show ?thesis using made_ok [OF make_vault(2) inj _ _ _ make_vault(3)] by blast
  qed (auto intro: failed_ok [OF atomic_writers(2)])
next
  case (drop_vault vid s r s')
  then show ?case
  proof (cases r)
    case (Inr u)
    then have s': "s' = s\<lparr>cs_catalog := filter (\<lambda>v. vr_id (sv_record v) \<noteq> vid) (cs_catalog s)\<rparr>" using drop_vault(1)
      by (auto simp: delete_vault_op_def io_bind_Inr_iff io_lift_def io_modify_def catalog_vault_def)
    show ?thesis using drop_vault(2) unfolding s' by (auto simp: state_ok_def catalog_ok_filter fresh_ids_def catalog_ids_def)
  qed (auto intro: failed_ok [OF atomic_writers(3)])
next
  case (add_entry vid request s r s')
  then show ?case
  proof (cases r)
    case (Inr sid)
    from put_secret_Inr [OF add_entry(1) [unfolded Inr]] show ?thesis
    proof cases
      case (1 v target encrypted)
      let ?st = "\<lparr> ss_metadata = new_metadata env request target (cs_calls s), ss_secret = encrypted \<rparr>"
      have "entry_ok env I vid ?st" using 1(2,3,5,6) by (auto simp: entry_ok_def new_metadata_def)
      then show ?thesis unfolding 1(8) using 1(4,8) add_entry(3) by (intro added_ok [OF add_entry(2) 1(1) inj]) (auto simp: new_metadata_def)
    qed
  qed (auto intro: failed_ok [OF atomic_writers(4)])
next
  case (change_entry vid sid change s r s')
  then show ?case
  proof (cases r)
    case (Inr metadata)
    from update_secret_Inr [OF change_entry(1) [unfolded Inr]] show ?thesis
    proof cases
      case (1 v target st secret encrypted n)
      let ?st = "\<lparr> ss_metadata = metadata, ss_secret = encrypted \<rparr>"
      have st: "entry_ok env I vid st" "sm_id (ss_metadata st) = sid" "secrets_ok I (sv_secrets v)" "st \<in> set (sv_secrets v)"
        using find_vault_in [OF 1(1)] find_stored_in [OF 1(2)] change_entry(2) by (auto simp: state_ok_def catalog_ok_def vault_ok_def)
      then have "entry_ok env I vid ?st" using 1(6-8) normalized_kept [OF 1(3)] by (auto simp: entry_ok_def)
      moreover have "sid \<notin> I \<and> names_resource (sm_policy metadata) \<longrightarrow>
          (\<forall>st' \<in> set (sv_secrets v). sm_id (ss_metadata st') \<notin> insert sid I \<longrightarrow> sm_policy (ss_metadata st') \<noteq> sm_policy metadata)"
        using 1(4,6) st(2-4) by (cases target) (auto simp: secrets_ok_def)
      ultimately show ?thesis unfolding 1(10) using 1(6,9) st(2) by (intro replaced_ok [OF change_entry(2) 1(1,2)]) auto
    qed
  qed (auto intro: failed_ok [OF atomic_writers(5)])
next
  case (drop_entry vid sid s r s')
  then show ?case
  proof (cases r)
    case (Inr u)
    then obtain v where "find_vault vid (cs_catalog s) = Some v"
      "s' = s\<lparr>cs_catalog := set_secrets vid (filter (\<lambda>st. sm_id (ss_metadata st) \<noteq> sid)) (cs_catalog s)\<rparr>" using drop_entry(1)
      by (auto simp: delete_secret_op_def change_secrets_def io_bind_Inr_iff io_lift_def io_modify_def catalog_vault_def result_simps)
    then show ?thesis using dropped_ok [OF drop_entry(2)] by blast
  qed (auto intro: failed_ok [OF atomic_writers(6)])
next
  case (rotate_entry vid sid expected secret s r s')
  then show ?case
  proof (cases r)
    case (Inr x)
    from rotate_Inr [OF rotate_entry(1) [unfolded Inr]] show ?thesis
    proof cases
      case (1 v st encrypted)
      have st: "entry_ok env I vid st" "sm_id (ss_metadata st) = sid" "secrets_ok I (sv_secrets v)" "st \<in> set (sv_secrets v)"
        using find_vault_in [OF 1(1)] find_stored_in [OF 1(2)] rotate_entry(2) by (auto simp: state_ok_def catalog_ok_def vault_ok_def)
      then have "entry_ok env I vid \<lparr> ss_metadata = (ss_metadata st)\<lparr>sm_revision := expected + 1\<rparr>, ss_secret = encrypted \<rparr>"
        using 1(6,7) by (auto simp: entry_ok_def valid_for_def)
      then show ?thesis unfolding 1(8) using st(2-4) by (intro replaced_ok [OF rotate_entry(2) 1(1,2)]) (auto simp: secrets_ok_def)
    qed
  qed (auto intro: failed_ok [OF atomic_writers(7)])
qed

lemma store_step_ok:
  assumes "store_step env I s s'" and "state_ok env I N s" and "cs_calls s' \<le> N" and inj: "inj_on (ve_id env) {..<N}"
    and apart: "I \<inter> ve_id env ` {..<N} = {}"
  shows "state_ok env I N s'"
  using assms(1-3)
proof (induction rule: store_step.induct)
  case (own_step s s')
  then show ?case using catalog_step_ok inj by blast
next
  case (import_entry vid metadata secret s r s')
  then show ?case
  proof (cases r)
    case (Inr u)
    from import_Inr [OF import_entry(1) [unfolded Inr]] show ?thesis
    proof cases
      case (2 v encrypted)
      have "entry_ok env I vid \<lparr> ss_metadata = metadata, ss_secret = encrypted \<rparr>"
        using 2(3,4) import_entry(2) by (auto simp: entry_ok_def)
      then show ?thesis unfolding 2(5) using 2(2) import_entry(2)
        by (intro imported_ok [OF import_entry(3) 2(1) apart]) simp_all
    qed (use import_entry(3) in \<open>blast intro: ticked_ok\<close>)
  qed (use import_entry(3) in \<open>auto intro: failed_ok [OF atomic_import]\<close>)
qed

lemma store_steps_ok:
  "(store_step env I)\<^sup>*\<^sup>* s s' \<Longrightarrow> inj_on (ve_id env) {..<N} \<Longrightarrow> I \<inter> ve_id env ` {..<N} = {} \<Longrightarrow> cs_calls s' \<le> N \<Longrightarrow>
     state_ok env I N s \<Longrightarrow> state_ok env I N s'"
proof (induction rule: rtranclp_induct)
  case (step s' s'')
  then show ?case using store_step_advances [OF step(2)] store_step_ok by (auto simp: advances_def)
qed

section \<open>Requests\<close>

lemma run_option: "io_keeps R a \<Longrightarrow> (\<And>y. io_keeps R (f y)) \<Longrightarrow> io_keeps R (case x of None \<Rightarrow> a | Some y \<Rightarrow> f y)"
  by (cases x) simp_all

lemma run_if: "io_keeps R a \<Longrightarrow> io_keeps R b \<Longrightarrow> io_keeps R (if c then a else b)"
  by simp

lemma run_pair: "(\<And>a b. io_keeps R (f a b)) \<Longrightarrow> io_keeps R (case x of (a, b) \<Rightarrow> f a b)"
  by (cases x) simp

lemmas run_intros = run_bind run_pure run_option run_if run_pair

lemmas runs_intros = io_keeps_bind [OF runs_trans] io_keeps_pure [OF runs_refl] run_option run_if run_pair

definition request_import :: "vault_request \<Rightarrow> uuid set" where
  "request_import q = (case q of Import_Secret vid metadata secret \<Rightarrow> {sm_id metadata} | _ \<Rightarrow> {})"

context catalog_moves
begin

lemma runs_same_store: "io_keeps same_store m \<Longrightarrow> io_keeps (runs step) m"
  unfolding io_keeps_def same_store_def by (auto simp: storage_view_def intro!: runs_calls)

lemma runs_readers:
  assumes "others_run step env" and "io_keeps ticks m"
  shows "io_keeps (runs step) (access env False m)"
  using assms by (intro access_moves moving_own stepping_readers)

lemma runs_writers:
  assumes "others_run step env"
  shows "io_keeps (runs step) (access env True (ensure_global env))" "io_keeps (runs step) (access env True (create_vault_op env name))"
    "io_keeps (runs step) (access env True (delete_vault_op env vid))" "io_keeps (runs step) (access env True (put_secret_op env vid request))"
    "io_keeps (runs step) (access env True (update_secret_op env vid sid change))"
    "io_keeps (runs step) (access env True (delete_secret_op env vid sid))"
    "io_keeps (runs step) (access env True (rotate_op env vid sid expected secret))"
  by (intro access_moves assms moving_own stepping_writers)+

lemma runs_read_for_destination: "others_run step env \<Longrightarrow> io_keeps (runs step) (read_for_destination env h sid target)"
  unfolding read_for_destination_def by (intro runs_intros runs_readers ticks_readers)

lemma runs_refresh:
  assumes "others_run step env"
  shows "io_keeps (runs step) (refresh_secret env h sid target rejected force)"
  unfolding refresh_secret_def replace_rejected_def settle_refresh_def
  by (intro runs_intros runs_read_for_destination runs_writers assms runs_same_store [OF same_store_call] same_store_parts [THEN runs_same_store])

lemma runs_resolve:
  assumes "others_run step env"
  shows "io_keeps (runs step) (resolve_credentials env h sid target)"
  unfolding resolve_credentials_def
  by (intro runs_intros runs_read_for_destination runs_refresh assms same_store_parts [THEN runs_same_store])

lemma runs_perform:
  assumes "others_run step env" and "\<And>vid metadata secret. sm_id metadata \<in> request_import request \<Longrightarrow>
    moving step (import_secret_op env vid metadata secret)"
  shows "io_keeps (runs step) (vault_perform env request)"
proof (cases request)
  case (Import_Secret vid metadata secret)
  then have "moving step (import_secret_op env vid metadata secret)" using assms(2) by (simp add: request_import_def)
  then show ?thesis unfolding Import_Secret vault_perform.simps answering_def import_secret_def
    by (intro runs_intros access_moves assms(1))
qed (simp only: vault_perform.simps answering_def create_vault_def global_vault_def list_vaults_def get_vault_def
      delete_vault_def list_secrets_def put_secret_def get_secret_def update_secret_def delete_secret_def,
     intro runs_intros runs_writers runs_readers ticks_readers ticks_pure runs_refresh runs_resolve assms(1))+

end

text \<open>For the steps of the store itself.\<close>

lemma run_same_store: "io_keeps same_store m \<Longrightarrow> io_keeps (vault_run env) m"
  unfolding vault_run_runs by (rule own.runs_same_store)

lemma run_readers: "others_ok env \<Longrightarrow> io_keeps ticks m \<Longrightarrow> io_keeps (vault_run env) (access env False m)"
  unfolding vault_run_runs own_others [symmetric] by (rule own.runs_readers)

lemma run_writers:
  assumes "others_ok env"
  shows "io_keeps (vault_run env) (access env True (ensure_global env))" "io_keeps (vault_run env) (access env True (create_vault_op env name))"
    "io_keeps (vault_run env) (access env True (delete_vault_op env vid))" "io_keeps (vault_run env) (access env True (put_secret_op env vid request))"
    "io_keeps (vault_run env) (access env True (update_secret_op env vid sid change))"
    "io_keeps (vault_run env) (access env True (delete_secret_op env vid sid))"
    "io_keeps (vault_run env) (access env True (rotate_op env vid sid expected secret))"
  using assms unfolding vault_run_runs own_others [symmetric] by (rule own.runs_writers)+

lemma run_read_for_destination: "others_ok env \<Longrightarrow> io_keeps (vault_run env) (read_for_destination env h sid target)"
  unfolding vault_run_runs own_others [symmetric] by (rule own.runs_read_for_destination)

lemma run_refresh: "others_ok env \<Longrightarrow> io_keeps (vault_run env) (refresh_secret env h sid target rejected force)"
  unfolding vault_run_runs own_others [symmetric] by (rule own.runs_refresh)

lemma run_resolve: "others_ok env \<Longrightarrow> io_keeps (vault_run env) (resolve_credentials env h sid target)"
  unfolding vault_run_runs own_others [symmetric] by (rule own.runs_resolve)

definition store_ok :: "'k vault_env \<Rightarrow> uuid set \<Rightarrow> nat \<Rightarrow> vault_world \<Rightarrow> bool" where
  "store_ok env I N w \<longleftrightarrow> (\<exists>c. storage_view w = Some c \<and> state_ok env I N (vault_state c w))"

lemma run_store_ok:
  assumes "runs (store_step env I) w w'" and "inj_on (ve_id env) {..<N}" and "I \<inter> ve_id env ` {..<N} = {}" and "vw_calls w' \<le> N"
    and "store_ok env I N w"
  shows "store_ok env I N w'"
proof -
  obtain c c' where "state_ok env I N (vault_state c w)" "storage_view w' = Some c'" "(store_step env I)\<^sup>*\<^sup>* (vault_state c w) (vault_state c' w')"
    using assms(1,5) unfolding store_ok_def runs_def by blast
  then show ?thesis using store_steps_ok assms(2-4) unfolding store_ok_def by (metis vault_state_def catalog_state.simps(2))
qed

text \<open>Requests one after the other, whatever each of them returns.\<close>

fun vault_requests :: "'k vault_env \<Rightarrow> vault_request list \<Rightarrow> vault_world \<Rightarrow> vault_world" where
  "vault_requests env [] w = w"
| "vault_requests env (q # qs) w = vault_requests env qs (snd (vault_perform env q w))"

lemma vault_requests_run:
  "others_import env I \<Longrightarrow> (\<Union>q \<in> set qs. request_import q) \<subseteq> I \<Longrightarrow> runs (store_step env I) w (vault_requests env qs w)"
proof (induction qs arbitrary: w)
  case (Cons q qs)
  have "moving (store_step env I) (import_secret_op env vid metadata secret)" if "sm_id metadata \<in> request_import q" for vid metadata secret
    unfolding moving_def using that Cons.prems(2) by (auto intro!: store_step.import_entry [OF prod.collapse [symmetric]])
  then have "io_keeps (runs (store_step env I)) (vault_perform env q)"
    using Cons.prems(1) by (intro store.runs_perform) (simp_all add: others_import_run)
  then have "runs (store_step env I) w (snd (vault_perform env q w))" by (simp add: io_keeps_def)
  then show ?case using Cons runs_trans by (auto intro: transpD)
qed (simp add: runs_def)

end
