(* ===== verification/Vault_Scope.thy ===== *)
theory Vault_Scope
  imports Vault_Access Vault_Laws
begin

text \<open>
  What the vault contexts and the resolver of the egress proxy guarantee (\<^verbatim>\<open>crates/exoharness/src/basic/access.rs\<close>,
  \<^verbatim>\<open>basic/vault_context.rs\<close>, \<^verbatim>\<open>basic/egress.rs\<close>): a sandbox gets a credential only out of a vault of its own scope that the
  access policy shows to the principal it runs for.
\<close>

section \<open>Runs of the contexts\<close>

lemma run_call: "io_keeps (vault_run env) vault_call"
  by (rule run_same_store [OF same_store_call])

lemma run_policy_call: "io_keeps (vault_run env) (policy_call f)"
  unfolding policy_call_def by (intro run_intros run_call)

lemma run_check: "io_keeps (vault_run env) (harness_check env' caller scope)" "io_keeps (vault_run env) (caller_vault_check env' p r write)"
  unfolding harness_check_def caller_vault_check_def by (intro run_intros run_policy_call)+

lemma run_scoped: "io_keeps (vault_run env) (scoped_vault env' caller v)"
  unfolding scoped_vault_def by (intro run_intros run_policy_call)

lemma run_for_each: "(\<And>x. io_keeps (vault_run env) (f x)) \<Longrightarrow> io_keeps (vault_run env) (for_each f xs)"
  by (induction xs) (auto intro!: run_intros)

lemma run_store:
  assumes "others_ok env"
  shows "io_keeps (vault_run env) (global_vault env)" "io_keeps (vault_run env) (list_vaults env)" "io_keeps (vault_run env) (get_vault env vid)"
  unfolding global_vault_def list_vaults_def get_vault_def
  by (intro run_intros run_writers run_readers ticks_readers ticks_pure assms)+

lemma run_contexts:
  assumes "others_ok (ac_vault env)"
  shows "io_keeps (vault_run (ac_vault env)) (harness_list_vaults env caller)"
    and "io_keeps (vault_run (ac_vault env)) (harness_get_vault env caller vid)"
  unfolding harness_list_vaults_def harness_get_vault_def
  by (intro run_intros run_check run_store run_for_each run_scoped assms)+

lemma run_lookups:
  assumes "others_ok (ac_vault env)"
  shows "io_keeps (vault_run (ac_vault env)) (default_vault env caller)"
    and "io_keeps (vault_run (ac_vault env)) (compose_vaults env hs vids)"
    and "io_keeps (vault_run (ac_vault env)) (attach_vaults env caller vids hs)"
proof -
  show "io_keeps (vault_run (ac_vault env)) (default_vault env caller)" "io_keeps (vault_run (ac_vault env)) (compose_vaults env hs vids)"
    unfolding default_vault_def require_vault_def context_global_vault_def compose_vaults_def
    by (intro run_intros run_policy_call run_contexts run_for_each assms)+
  show "io_keeps (vault_run (ac_vault env)) (attach_vaults env caller vids hs)"
    by (induction vids arbitrary: hs) (auto intro!: run_intros run_contexts assms)
qed

lemma run_try: "io_keeps (vault_run env) m \<Longrightarrow> io_keeps (vault_run env) (io_try m)"
  by (rule io_keeps_try)

lemma run_sum: "(\<And>x. io_keeps R (f x)) \<Longrightarrow> (\<And>y. io_keeps R (g y)) \<Longrightarrow> io_keeps R (case s of Inl x \<Rightarrow> f x | Inr y \<Rightarrow> g y)"
  by (cases s) simp_all

lemma run_agents: "io_keeps (vault_run env) (get_agent env' caller aid)" "io_keeps (vault_run env) (get_thread env' caller agent tid)"
  unfolding get_agent_def get_thread_def by (intro run_intros run_check run_call run_try run_sum)+

lemma run_lists:
  assumes "others_ok (ac_vault env)"
  shows "io_keeps (vault_run (ac_vault env)) (agent_list_vaults env caller agent)"
    and "io_keeps (vault_run (ac_vault env)) (thread_list_vaults env caller aid thread)"
  unfolding thread_list_vaults_def agent_list_vaults_def context_global_vault_def
  by (intro run_intros run_check run_lookups run_contexts run_agents assms)+

lemma run_resource:
  assumes "others_ok (ac_vault env)"
  shows "io_keeps (vault_run (ac_vault env)) (scope_resource env caller scope)"
    and "io_keeps (vault_run (ac_vault env)) (resource_list_vaults env caller r)"
proof -
  show "io_keeps (vault_run (ac_vault env)) (scope_resource env caller scope)"
    unfolding scope_resource_def by (cases scope) (auto simp: scope_agent_id_def intro!: run_intros run_agents)
  show "io_keeps (vault_run (ac_vault env)) (resource_list_vaults env caller r)"
    unfolding resource_list_vaults_def by (cases r) (auto intro!: run_intros run_lookups run_lists assms)
qed

lemma run_of: "io_keeps (vault_run env) m \<Longrightarrow> m w = (r, w') \<Longrightarrow> vault_run env w w'"
  by (metis io_keeps_def snd_conv)

lemma vault_run_then: "vault_run env w1 w2 \<Longrightarrow> vault_run env w2 w3 \<Longrightarrow> vault_run env w1 w3"
  using vault_run_trans by (metis transpD)

section \<open>Vaults of a scope\<close>

definition shows_vault :: "access_policy \<Rightarrow> string \<Rightarrow> uuid \<Rightarrow> bool" where
  "shows_vault policy p vid \<longleftrightarrow> (\<exists>n v r. vr_id v = vid \<and> ap_vault policy n p v False = Inr (Some r))"

text \<open>What a handle stands for.\<close>

definition handle_for :: "access_policy \<Rightarrow> caller \<Rightarrow> vault_handle \<Rightarrow> bool" where
  "handle_for policy caller h \<longleftrightarrow>
     (case caller of
        None \<Rightarrow> (\<exists>v. h = Direct v)
      | Some p \<Rightarrow> (\<exists>v r. h = Caller_Vault v r p \<and> vr_id r = vr_id v \<and> shows_vault policy p (vr_id v)))"

text \<open>The vault a context starts with: the global vault of the store for the operator, the personal vault for a caller.\<close>

definition base_vault :: "'k access_env \<Rightarrow> caller \<Rightarrow> vault_world \<Rightarrow> uuid \<Rightarrow> bool" where
  "base_vault env caller w vid \<longleftrightarrow>
     (case caller of
        None \<Rightarrow> (\<exists>w1 c v. vault_run (ac_vault env) w w1 \<and> storage_view w1 = Some c \<and> v \<in> set c \<and> vr_id (sv_record v) = vid \<and>
                   vr_name (sv_record v) = GLOBAL)
      | Some p \<Rightarrow> (\<exists>n. ap_default_vault (ac_policy env) n p = Inr vid))"

definition scope_vault :: "'k access_env \<Rightarrow> caller \<Rightarrow> resource_scope \<Rightarrow> vault_world \<Rightarrow> uuid \<Rightarrow> bool" where
  "scope_vault env caller scope w vid \<longleftrightarrow> base_vault env caller w vid \<or>
     (\<exists>n aid agent. scope_agent_id scope = Some aid \<and> ac_agent env n aid = Inr (Some agent) \<and> vid \<in> set (ar_vaults agent)) \<or>
     (\<exists>n aid tid thread. scope = Thread_Scope aid tid \<and> ac_thread env n aid tid = Inr (Some thread) \<and> vid \<in> set (tr_vaults thread))"

text \<open>Agents are stored under their identifiers.\<close>

definition agents_ok :: "'k access_env \<Rightarrow> bool" where
  "agents_ok env \<longleftrightarrow> (\<forall>n aid agent. ac_agent env n aid = Inr (Some agent) \<longrightarrow> ar_id agent = aid)"

lemma base_vault_back:
  assumes "base_vault env caller w1 vid" and "vault_run (ac_vault env) w w1"
  shows "base_vault env caller w vid"
proof -
  have "vault_run (ac_vault env) w w2" if "vault_run (ac_vault env) w1 w2" for w2
    using that assms(2) vault_run_trans by (metis transpD)
  then show ?thesis using assms(1) unfolding base_vault_def by (auto split: option.splits)
qed

lemma get_agent_stored:
  assumes "get_agent env caller aid w = (Inr (Some agent), w')"
  shows "\<exists>n. ac_agent env n aid = Inr (Some agent)"
  using assms unfolding get_agent_def
proof (elim io_bind_InrE)
  fix allowed w1
  assume "(case allowed of Inl _ \<Rightarrow> io_return None | Inr _ \<Rightarrow> io_bind vault_call (\<lambda>n. io_lift (ac_agent env n aid))) w1 = (Inr (Some agent), w')"
  then show ?thesis by (cases allowed) (auto simp: io_return_def io_bind_Inr_iff io_lift_def)
qed

lemma get_thread_stored:
  assumes "get_thread env caller agent tid w = (Inr (Some thread), w')"
  shows "\<exists>n. ac_thread env n (ar_id agent) tid = Inr (Some thread)"
  using assms unfolding get_thread_def
proof (elim io_bind_InrE)
  fix allowed w1
  assume "(case allowed of Inl _ \<Rightarrow> io_return None | Inr _ \<Rightarrow> io_bind vault_call (\<lambda>n. io_lift (ac_thread env n (ar_id agent) tid))) w1 = (Inr (Some thread), w')"
  then show ?thesis by (cases allowed) (auto simp: io_return_def io_bind_Inr_iff io_lift_def)
qed

lemma scope_vault_back:
  "scope_vault env caller scope w1 vid \<Longrightarrow> vault_run (ac_vault env) w w1 \<Longrightarrow> scope_vault env caller scope w vid"
  unfolding scope_vault_def using base_vault_back by blast

text \<open>The secrets that the sandbox refers to exist already.\<close>

definition references_old :: "'k access_env \<Rightarrow> egress_identity \<Rightarrow> vault_world \<Rightarrow> bool" where
  "references_old env identity w \<longleftrightarrow> (\<forall>n sandbox name reference m. ac_sandbox env n (ei_scope identity) (ei_sandbox_id identity) = Inr (Some sandbox) \<and>
     sb_credentials sandbox name = Some reference \<and> vw_calls w \<le> m \<longrightarrow> ve_id (ac_vault env) m \<noteq> sr_secret_id reference)"

text \<open>A credential is given to a sandbox that runs, for a binding that refers to this secret, on behalf of a caller.\<close>

definition entitled :: "'k access_env \<Rightarrow> egress_identity \<Rightarrow> string \<Rightarrow> caller \<Rightarrow> secret_reference \<Rightarrow> bool" where
  "entitled env identity name caller reference \<longleftrightarrow> (\<exists>n sandbox.
     ac_sandbox env n (ei_scope identity) (ei_sandbox_id identity) = Inr (Some sandbox) \<and> sb_running sandbox \<and>
     sb_credentials sandbox name = Some reference \<and>
     (if ac_has_policy env
      then \<exists>p m. caller = Some p \<and> sb_principal sandbox = Some p \<and> ap_check (ac_policy env) m p (ei_scope identity) = Inr () \<and>
             shows_vault (ac_policy env) p (sr_vault_id reference)
      else caller = None))"

section \<open>Handles\<close>

text \<open>A policy shows a vault under its own identifier.\<close>

locale shown_vaults =
  fixes policy :: access_policy
  assumes shown_id: "ap_vault policy n p v write = Inr (Some r) \<Longrightarrow> vr_id r = vr_id v"
begin

lemma scoped_vault_for:
  assumes "scoped_vault env caller v w = (Inr (Some h), w')" and "ac_policy env = policy"
  shows "handle_for policy caller h \<and> vr_id (handle_record h) = vr_id v"
proof (cases caller)
  case None
  then show ?thesis using assms(1) by (auto simp: scoped_vault_def io_return_def handle_for_def)
next
  case (Some p)
  then obtain n r where r: "ap_vault policy n p v False = Inr (Some r)" "h = Caller_Vault v r p"
    using assms by (auto simp: scoped_vault_def policy_call_def io_bind_Inr_iff io_return_def io_lift_def)
  then show ?thesis using Some shown_id [OF r(1)] by (auto simp: handle_for_def shows_vault_def)
qed

lemma get_vault_id: "get_vault env vid w = (Inr (Some v), w') \<Longrightarrow> vr_id v = vid"
  unfolding get_vault_def by (drule access_Inr) (auto simp: io_read_def find_vault_def ticks_pure dest: find_in_set)

lemma harness_get_for:
  assumes "harness_get_vault env caller vid w = (Inr (Some h), w')" and "ac_policy env = policy"
  shows "handle_for policy caller h \<and> vr_id (handle_record h) = vid"
  using assms(1) unfolding harness_get_vault_def
  by (auto simp: io_bind_Inr_iff io_return_def split: option.splits dest!: get_vault_id scoped_vault_for [OF _ assms(2)])

lemma require_for:
  assumes "require_vault env (harness_get_vault env caller vid) vid w = (Inr h, w')" and "ac_policy env = policy"
  shows "handle_for policy caller h \<and> vr_id (handle_record h) = vid"
  using assms(1) unfolding require_vault_def
  by (auto simp: io_bind_Inr_iff io_lift_def result_simps dest!: harness_get_for [OF _ assms(2)])

lemma default_for:
  assumes "default_vault env (Some p) w = (Inr h, w')" and "ac_policy env = policy"
  shows "handle_for policy (Some p) h \<and> base_vault env (Some p) w (vr_id (handle_record h))"
proof -
  obtain n vid w1 where d: "ap_default_vault policy n p = Inr vid" "require_vault env (harness_get_vault env (Some p) vid) vid w1 = (Inr h, w')"
    using assms by (auto simp: default_vault_def policy_call_def io_bind_Inr_iff io_lift_def)
  then show ?thesis using require_for [OF d(2) assms(2)] assms(2) by (auto simp: base_vault_def)
qed

lemma compose_for:
  assumes "compose_vaults env inherited vids w = (Inr hs, w')" and "ac_policy env = policy" and "h \<in> set hs"
  shows "h \<in> set inherited \<or> handle_for policy None h \<and> vr_id (handle_record h) \<in> set vids"
proof -
  obtain vaults w1 where v: "for_each (\<lambda>vid. require_vault env (harness_get_vault env None vid) vid) vids w = (Inr vaults, w1)"
    "hs = fold (\<lambda>v hs. filter (\<lambda>h. vr_id (handle_record h) \<noteq> vr_id (handle_record v)) hs @ [v]) vaults inherited"
    using assms(1) by (auto simp: compose_vaults_def io_bind_Inr_iff io_return_def)
  have "\<forall>v \<in> set vaults. handle_for policy None v \<and> vr_id (handle_record v) \<in> set vids"
    using v(1)
  proof (induction vids arbitrary: w vaults)
    case (Cons vid vids)
    then obtain v vs w2 where r: "require_vault env (harness_get_vault env None vid) vid w = (Inr v, w2)" "vaults = v # vs"
      "for_each (\<lambda>vid. require_vault env (harness_get_vault env None vid) vid) vids w2 = (Inr vs, w1)"
      by (auto simp: io_bind_Inr_iff io_return_def)
    from Cons(1) [OF r(3)] require_for [OF r(1) assms(2)] show ?case unfolding r(2) by auto
  qed (simp add: io_return_def)
  moreover have "h \<in> set inherited \<or> h \<in> set vaults" using assms(3) unfolding v(2)
  proof (induction vaults arbitrary: inherited)
    case (Cons v vs)
    from Cons(1) [OF Cons(2) [unfolded fold_simps]] show ?case by auto
  qed simp
  ultimately show ?thesis by blast
qed

lemma attach_for:
  assumes "attach_vaults env caller vids hs w = (Inr hs', w')" and "ac_policy env = policy" and "h \<in> set hs'"
  shows "h \<in> set hs \<or> handle_for policy caller h \<and> vr_id (handle_record h) \<in> set vids"
  using assms(1,3)
proof (induction vids arbitrary: hs w)
  case (Cons vid vids)
  then obtain found w1 where f: "harness_get_vault env caller vid w = (Inr found, w1)"
    "attach_vaults env caller vids (case found of Some v \<Rightarrow> if find_handle vid hs = None then hs @ [v] else hs | None \<Rightarrow> hs) w1 = (Inr hs', w')"
    by (auto simp: io_bind_Inr_iff)
  from Cons(1) [OF f(2) Cons(3)] show ?case
    using harness_get_for [OF _ assms(2)] f(1) by (auto split: option.splits if_splits)
qed (simp add: io_return_def)

lemma global_for:
  assumes "context_global_vault (harness_list_vaults env None) w = (Inr h, w')" and "ac_policy env = policy" and ok: "others_ok (ac_vault env)"
  shows "handle_for policy None h \<and> base_vault env None w (vr_id (handle_record h))"
proof -
  obtain hs where l: "harness_list_vaults env None w = (Inr hs, w')" and h: "h \<in> set hs" "vr_name (handle_record h) = GLOBAL"
    using assms(1) by (auto simp: context_global_vault_def io_bind_Inr_iff io_lift_def result_simps dest!: find_in_set)
  obtain u w1 vs found w2 where g: "global_vault (ac_vault env) w = (Inr u, w1)" "list_vaults (ac_vault env) w1 = (Inr vs, w2)"
    "for_each (scoped_vault env None) vs w2 = (Inr found, w')" "hs = List.map_filter id found"
    using l by (auto simp: harness_list_vaults_def harness_check_def io_bind_Inr_iff io_return_def)
  have "for_each (scoped_vault env None) vs w2 = (Inr (map (Some \<circ> Direct) vs), w2)"
    by (induction vs) (simp_all add: io_return_def io_bind_def scoped_vault_def)
  then have found: "found = map (Some \<circ> Direct) vs" using g(3) by simp
  then obtain v where v: "v \<in> set vs" "h = Direct v" using h(1) g(4) by (auto simp: map_filter_def)
  obtain c where c: "vs = map sv_record c" "storage_view w2 = Some c"
    using access_Inr [OF g(2) [unfolded list_vaults_def]] by (auto simp: ticks_pure io_read_def)
  have "vault_run (ac_vault env) w w2"
    using run_of [OF run_store(1) [OF ok] g(1)] run_of [OF run_store(2) [OF ok] g(2)] vault_run_trans by (metis transpD)
  moreover obtain sv where "sv \<in> set c" "sv_record sv = v" using v(1) c(1) by auto
  ultimately have "base_vault env None w (vr_id v)"
    using c(2) v(2) h(2) unfolding base_vault_def by auto
  then show ?thesis using v(2) by (simp add: handle_for_def)
qed

lemma agent_for:
  assumes "agent_list_vaults env caller agent w = (Inr hs, w')" and "ac_policy env = policy" and ok: "others_ok (ac_vault env)" and "h \<in> set hs"
  shows "handle_for policy caller h \<and> (base_vault env caller w (vr_id (handle_record h)) \<or> vr_id (handle_record h) \<in> set (ar_vaults agent))"
proof -
  obtain w1 where w1: "vault_run (ac_vault env) w w1" and rest: "(if caller = None then
       io_bind (context_global_vault (harness_list_vaults env None)) (\<lambda>g. compose_vaults env [g] (ar_vaults agent))
     else io_bind (default_vault env caller) (\<lambda>d. attach_vaults env caller (ar_vaults agent) [d])) w1 = (Inr hs, w')"
    using assms(1) unfolding agent_list_vaults_def by (elim io_bind_InrE) (blast intro: run_of [OF run_check(1)])
  show ?thesis
  proof (cases caller)
    case None
    then obtain g w2 where g: "context_global_vault (harness_list_vaults env None) w1 = (Inr g, w2)" "compose_vaults env [g] (ar_vaults agent) w2 = (Inr hs, w')"
      using rest by (auto elim!: io_bind_InrE)
    show ?thesis
      using compose_for [OF g(2) assms(2,4)] global_for [OF g(1) assms(2) ok] base_vault_back [OF _ w1, of None] None by auto
  next
    case (Some p)
    then obtain d w2 where d: "default_vault env (Some p) w1 = (Inr d, w2)" "attach_vaults env (Some p) (ar_vaults agent) [d] w2 = (Inr hs, w')"
      using rest by (auto elim!: io_bind_InrE)
    show ?thesis
      using attach_for [OF d(2) assms(2,4)] default_for [OF d(1) assms(2)] base_vault_back [OF _ w1, of "Some p"] Some by auto
  qed
qed

lemma thread_for:
  assumes "thread_list_vaults env caller aid thread w = (Inr hs, w')" and "ac_policy env = policy" and ok: "others_ok (ac_vault env)" and "h \<in> set hs"
  shows "handle_for policy caller h \<and> (base_vault env caller w (vr_id (handle_record h)) \<or>
    (\<exists>n agent. ac_agent env n aid = Inr (Some agent) \<and> vr_id (handle_record h) \<in> set (ar_vaults agent)) \<or>
    vr_id (handle_record h) \<in> set (tr_vaults thread))"
  using assms(1) unfolding thread_list_vaults_def
proof (elim io_bind_InrE)
  fix u w1 found w2 agent w3 base w4
  assume r: "harness_check env caller (Thread_Scope aid (tr_id thread)) w = (Inr u, w1)" "get_agent env caller aid w1 = (Inr found, w2)"
    "io_lift (ok_or found ''agent is unavailable'') w2 = (Inr agent, w3)" "agent_list_vaults env caller agent w3 = (Inr base, w4)"
    "(if caller = None then compose_vaults env base (tr_vaults thread) else attach_vaults env caller (tr_vaults thread) base) w4 = (Inr hs, w')"
  have "\<exists>n. ac_agent env n aid = Inr (Some agent)"
    using r(2,3) by (auto simp: io_lift_def result_simps intro: get_agent_stored)
  moreover have "vault_run (ac_vault env) w w3"
    using vault_run_then [OF run_of [OF run_check(1) r(1)] run_of [OF run_agents(1) r(2)]] r(3) by (simp add: io_lift_def)
  moreover have "h \<in> set base \<or> handle_for policy caller h \<and> vr_id (handle_record h) \<in> set (tr_vaults thread)"
    using r(5) compose_for [OF _ assms(2,4)] attach_for [OF _ assms(2,4)] by (cases caller) auto
  ultimately show ?thesis using agent_for [OF r(4) assms(2) ok] base_vault_back by blast
qed

lemma resource_for:
  assumes "scope_resource env caller scope w = (Inr r, w1)" and "resource_list_vaults env caller r w1 = (Inr hs, w')"
    and "ac_policy env = policy" and ok: "others_ok (ac_vault env)" "agents_ok env" and "h \<in> set hs"
  shows "handle_for policy caller h \<and> scope_vault env caller scope w (vr_id (handle_record h))"
proof -
  have earlier: "base_vault env caller w vid" if "base_vault env caller w1 vid" for vid
    using base_vault_back [OF that run_of [OF run_resource(1) [OF ok(1)] assms(1)]] .
  show ?thesis
  proof (cases r)
    case No_Resource
    then have d: "default_vault env caller w1 = (Inr h, w')" using assms(2,6) by (auto simp: resource_list_vaults_def io_bind_Inr_iff io_return_def)
    then have "handle_for policy caller h \<and> base_vault env caller w1 (vr_id (handle_record h))"
      using default_for [OF _ assms(3)] global_for [OF _ assms(3) ok(1)] by (cases caller) (auto simp: default_vault_def)
    then show ?thesis using earlier by (simp add: scope_vault_def)
  next
    case (Agent_Resource agent)
    then obtain aid w2 where "scope_agent_id scope = Some aid" "get_agent env caller aid w = (Inr (Some agent), w2)"
      using assms(1) unfolding scope_resource_def
      by (cases scope) (auto simp: scope_agent_id_def io_return_def io_lift_def io_bind_Inr_iff result_simps)
    then show ?thesis
      using agent_for [OF _ assms(3) ok(1) assms(6), of caller agent] assms(2) Agent_Resource earlier get_agent_stored
      unfolding scope_vault_def resource_list_vaults_def by fastforce
  next
    case (Thread_Resource aid thread)
    then obtain tid agent w2 where t: "scope = Thread_Scope aid tid" "\<exists>n. ac_thread env n aid tid = Inr (Some thread)"
      using assms(1) ok(2) unfolding scope_resource_def
      by (cases scope) (auto simp: io_return_def io_lift_def io_bind_Inr_iff result_simps scope_agent_id_def agents_ok_def
          dest!: get_thread_stored get_agent_stored)
    then show ?thesis
      using thread_for [OF _ assms(3) ok(1) assms(6), of caller aid thread] assms(2) Thread_Resource earlier
      unfolding scope_vault_def resource_list_vaults_def by (fastforce simp: scope_agent_id_def)
  qed
qed

lemma scoped_get_for:
  assumes "scoped_get_vault env caller scope vid w = (Inr (Some h), w')"
    and "ac_policy env = policy" and ok: "others_ok (ac_vault env)" "agents_ok env"
  shows "handle_for policy caller h \<and> vr_id (handle_record h) = vid \<and> scope_vault env caller scope w vid \<and> vault_run (ac_vault env) w w'"
proof -
  obtain r w1 hs where r: "scope_resource env caller scope w = (Inr r, w1)" "resource_list_vaults env caller r w1 = (Inr hs, w')"
    and h: "find_handle vid hs = Some h"
    using assms(1) by (auto simp: scoped_get_vault_def io_bind_Inr_iff io_return_def)
  have "h \<in> set hs" "vr_id (handle_record h) = vid" using h by (auto simp: find_handle_def dest: find_in_set)
  moreover have "vault_run (ac_vault env) w w'"
    using vault_run_then [OF run_of [OF run_resource(1) [OF ok(1)] r(1)] run_of [OF run_resource(2) [OF ok(1)] r(2)]] .
  ultimately show ?thesis using resource_for [OF r assms(2) ok] by blast
qed

lemma handle_resolve_for:
  assumes "handle_for policy caller h" and "handle_resolve_secret env h sid target w = (Inr r, w')"
  shows "\<exists>v w1. vr_id v = vr_id (handle_record h) \<and> resolve_credentials (ac_vault env) v sid target w1 = (Inr r, w') \<and> vw_calls w \<le> vw_calls w1"
proof (cases h)
  case (Direct v)
  then show ?thesis using assms(2) by auto
next
  case (Caller_Vault v rec p)
  then obtain u w1 where "caller_vault_check env p rec False w = (Inr u, w1)" "resolve_credentials (ac_vault env) v sid target w1 = (Inr r, w')"
    using assms(2) by (auto elim!: io_bind_InrE)
  moreover have "vr_id v = vr_id (handle_record h)" using assms(1) Caller_Vault by (auto simp: handle_for_def split: option.splits)
  ultimately show ?thesis using run_of [OF run_check(2)] unfolding vault_run_def by blast
qed

lemma handle_refresh_for:
  assumes "handle_for policy caller h" and "handle_refresh_secret env h sid target rejected w = (Inr r, w')"
  shows "\<exists>v w1. vr_id v = vr_id (handle_record h) \<and> refresh_secret (ac_vault env) v sid target rejected True w1 = (Inr r, w') \<and> vw_calls w \<le> vw_calls w1"
proof (cases h)
  case (Direct v)
  then show ?thesis using assms(2) by auto
next
  case (Caller_Vault v rec p)
  then obtain u w1 where "caller_vault_check env p rec False w = (Inr u, w1)" "refresh_secret (ac_vault env) v sid target rejected True w1 = (Inr r, w')"
    using assms(2) by (auto elim!: io_bind_InrE)
  moreover have "vr_id v = vr_id (handle_record h)" using assms(1) Caller_Vault by (auto simp: handle_for_def split: option.splits)
  ultimately show ?thesis using run_of [OF run_check(2)] unfolding vault_run_def by blast
qed

lemma resolve_credential_for:
  assumes "resolve_credential env (scoped_get_vault env caller scope) reference destination rejected w = (Inr v, w')"
    and "ac_policy env = policy" and ok: "others_ok (ac_vault env)" "agents_ok env" "cipher_ok (ac_vault env)"
    and old: "\<forall>n \<ge> vw_calls w. ve_id (ac_vault env) n \<noteq> sr_secret_id reference"
  shows "\<exists>target t r. egress_target (ve_parse (ac_vault env)) destination = Inr target \<and> destination_normalized (ve_parse (ac_vault env)) target = Inr t \<and>
    released (ac_vault env) (sr_vault_id reference) (sr_secret_id reference) t r w' \<and> v = bearer_value (rs_secret r) \<and>
    scope_vault env caller scope w (sr_vault_id reference) \<and> (case caller of None \<Rightarrow> True | Some p \<Rightarrow> shows_vault policy p (sr_vault_id reference))"
  using assms(1) unfolding resolve_credential_def
proof (elim io_bind_InrE)
  fix h w1 target w2 resolved w3 settled w4
  assume get: "require_vault env (scoped_get_vault env caller scope (sr_vault_id reference)) (sr_vault_id reference) w = (Inr h, w1)"
    and t: "io_lift (egress_target (ve_parse (ac_vault env)) destination) w1 = (Inr target, w2)"
    and res: "handle_resolve_secret env h (sr_secret_id reference) target w2 = (Inr resolved, w3)"
    and settle: "(if is_refreshable (rs_secret resolved) \<and> rejected = Some (bearer_value (rs_secret resolved))
              then handle_refresh_secret env h (sr_secret_id reference) target (rs_revision resolved)
              else io_return resolved) w3 = (Inr settled, w4)"
    and fin: "io_return (bearer_value (rs_secret settled)) w4 = (Inr v, w')"
  have h: "handle_for policy caller h" "vr_id (handle_record h) = sr_vault_id reference" "scope_vault env caller scope w (sr_vault_id reference)"
    "vault_run (ac_vault env) w w1"
    using get scoped_get_for [OF _ assms(2) ok(1,2)] by (auto simp: require_vault_def io_bind_Inr_iff io_lift_def result_simps)
  have w2: "w2 = w1" "egress_target (ve_parse (ac_vault env)) destination = Inr target" using t by (auto simp: io_lift_def)
  obtain u w5 where u: "vr_id u = sr_vault_id reference" "resolve_credentials (ac_vault env) u (sr_secret_id reference) target w5 = (Inr resolved, w3)"
    "vw_calls w2 \<le> vw_calls w5" using handle_resolve_for [OF h(1) res] h(2) by auto
  have "vw_calls w \<le> vw_calls w5" using h(4) u(3) w2(1) by (simp add: vault_run_def)
  then have old5: "\<forall>n \<ge> vw_calls w5. ve_id (ac_vault env) n \<noteq> sr_secret_id reference" using old le_trans by blast
  have "vw_calls w5 \<le> vw_calls w3" using run_of [OF run_resolve [OF ok(1)] u(2)] by (simp add: vault_run_def)
  then have old3: "\<forall>n \<ge> vw_calls w3. ve_id (ac_vault env) n \<noteq> sr_secret_id reference" using old5 le_trans by blast
  have "\<exists>t. destination_normalized (ve_parse (ac_vault env)) target = Inr t \<and> released (ac_vault env) (sr_vault_id reference) (sr_secret_id reference) t settled w4"
  proof (cases "is_refreshable (rs_secret resolved) \<and> rejected = Some (bearer_value (rs_secret resolved))")
    case True
    then have "handle_refresh_secret env h (sr_secret_id reference) target (rs_revision resolved) w3 = (Inr settled, w4)" using settle by simp
    from handle_refresh_for [OF h(1) this] obtain u' w6 where r: "vr_id u' = sr_vault_id reference"
      "refresh_secret (ac_vault env) u' (sr_secret_id reference) target (rs_revision resolved) True w6 = (Inr settled, w4)" "vw_calls w3 \<le> vw_calls w6"
      using h(2) by auto
    have "\<forall>n \<ge> vw_calls w6. ve_id (ac_vault env) n \<noteq> sr_secret_id reference" using old3 r(3) le_trans by blast
    from refresh_released [OF r(2) others_ok_import [OF ok(1), of "{}"] ok(3) _ this] show ?thesis using r(1) by simp
  next
    case False
    then have "settled = resolved" "w4 = w3" using settle [unfolded if_not_P [OF False]] by (simp_all add: io_return_def)
    then show ?thesis using resolve_released [OF u(2) others_ok_import [OF ok(1), of "{}"] ok(3) _ old5] u(1) by simp
  qed
  moreover have "case caller of None \<Rightarrow> True | Some p \<Rightarrow> shows_vault policy p (sr_vault_id reference)"
    using h(1,2) by (auto simp: handle_for_def split: option.splits)
  moreover have "v = bearer_value (rs_secret settled)" "w' = w4" using fin by (auto simp: io_return_def)
  ultimately show ?thesis using w2(2) h(3) by blast
qed

lemma resolve_value_for:
  assumes "resolve_value env identity name destination rejected w = (Inr v, w')"
    and pol: "ac_policy env = policy" and ok: "others_ok (ac_vault env)" "agents_ok env" "cipher_ok (ac_vault env)" and old: "references_old env identity w"
  shows "\<exists>caller reference target t r. entitled env identity name caller reference \<and> scope_vault env caller (ei_scope identity) w (sr_vault_id reference) \<and>
    egress_target (ve_parse (ac_vault env)) destination = Inr target \<and> destination_normalized (ve_parse (ac_vault env)) target = Inr t \<and>
    released (ac_vault env) (sr_vault_id reference) (sr_secret_id reference) t r w' \<and> v = bearer_value (rs_secret r)"
  using assms(1) unfolding resolve_value_def
proof (elim io_bind_InrE)
  fix sandbox w1 u1 w2 caller w3 reference w4
  assume load: "load_stored_sandbox env (ei_scope identity) (ei_sandbox_id identity) w = (Inr sandbox, w1)"
    and running: "io_lift (ensure (sb_running sandbox) ''sandbox is not running'') w1 = (Inr u1, w2)"
    and who: "(if ac_has_policy env then
                io_bind (io_lift (ok_or (sb_principal sandbox) ''sandbox has no authenticated caller'')) (\<lambda>p.
                io_bind (harness_check env (Some p) (ei_scope identity)) (\<lambda>_.
                io_return (Some p)))
              else io_return None) w2 = (Inr caller, w3)"
    and ref: "io_lift (ok_or (sb_credentials sandbox name) ''sandbox credential is unavailable'') w3 = (Inr reference, w4)"
    and resolve: "resolve_credential env (scoped_get_vault env caller (ei_scope identity)) reference destination rejected w4 = (Inr v, w')"
  obtain n where n: "ac_sandbox env n (ei_scope identity) (ei_sandbox_id identity) = Inr (Some sandbox)" "w1 = w\<lparr>vw_calls := Suc (vw_calls w)\<rparr>"
    using load by (auto simp: load_stored_sandbox_def io_bind_Inr_iff io_lift_def result_simps vault_call_def)
  have w2: "sb_running sandbox" "w2 = w1" and w4: "sb_credentials sandbox name = Some reference" "w4 = w3"
    using running ref by (auto simp: io_lift_def result_simps)
  have who': "vault_run (ac_vault env) w2 w3 \<and> (if ac_has_policy env
      then \<exists>p m. caller = Some p \<and> sb_principal sandbox = Some p \<and> ap_check policy m p (ei_scope identity) = Inr () else caller = None)"
  proof (cases "ac_has_policy env")
    case True
    then obtain p u where p: "sb_principal sandbox = Some p" "caller = Some p" "harness_check env (Some p) (ei_scope identity) w2 = (Inr u, w3)"
      using who by (auto simp: io_bind_Inr_iff io_lift_def io_return_def result_simps)
    then show ?thesis
      using True pol run_of [OF run_check(1) p(3)] by (auto simp: harness_check_def policy_call_def io_bind_Inr_iff io_lift_def)
  next
    case False
    then show ?thesis using who vault_run_refl by (auto simp: io_return_def reflp_def)
  qed
  have "vault_run (ac_vault env) w w1" using n(2) by (auto simp: storage_view_def intro!: run_calls)
  then have run: "vault_run (ac_vault env) w w4" using who' w2(2) w4(2) vault_run_then by blast
  then have "\<forall>m \<ge> vw_calls w4. ve_id (ac_vault env) m \<noteq> sr_secret_id reference"
    using old n(1) w4(1) unfolding references_old_def vault_run_def by (meson le_trans)
  from resolve_credential_for [OF resolve pol ok this] obtain target t r where
    r: "egress_target (ve_parse (ac_vault env)) destination = Inr target" "destination_normalized (ve_parse (ac_vault env)) target = Inr t"
    "released (ac_vault env) (sr_vault_id reference) (sr_secret_id reference) t r w'" "v = bearer_value (rs_secret r)"
    "scope_vault env caller (ei_scope identity) w4 (sr_vault_id reference)"
    "case caller of None \<Rightarrow> True | Some p \<Rightarrow> shows_vault policy p (sr_vault_id reference)" by blast
  have "entitled env identity name caller reference"
    using n(1) w2(1) w4(1) who' r(6) pol unfolding entitled_def
    by (intro exI [of _ n] exI [of _ sandbox]) (auto split: if_splits)
  then show ?thesis using r scope_vault_back [OF r(5) run] by blast
qed

end

end
