(* ===== verification/Remote_Access.thy ===== *)
theory Remote_Access
  imports Remote_Auth Vault_Scope
begin

text \<open>
  What the state of a shared server guarantees (\<^verbatim>\<open>crates/executor/src/native/remote/store.rs\<close>, \<^verbatim>\<open>auth.rs\<close>, \<^verbatim>\<open>access.rs\<close>), in every
  interleaving of its locked sections: identities are attested by the provider and keep their principals, codes go to
  loopback addresses, and nobody gets at the personal vault of another user or at the vault of the server.
\<close>

section \<open>Ordered maps\<close>

lemma set_bt_insert:
  "sorted (map fst m) \<Longrightarrow> distinct (map fst m) \<Longrightarrow> set (bt_insert k v m) = insert (k, v) {e \<in> set m. fst e \<noteq> k}"
  by (induction k v m rule: bt_insert.induct) (auto split: if_splits)

lemma keys_bt_insert: "fst ` set (bt_insert k v m) = insert k (fst ` set m)"
  by (induction k v m rule: bt_insert.induct) (auto split: if_splits)

definition bt_ok :: "('k::linorder \<times> 'v) list \<Rightarrow> bool" where
  "bt_ok m \<longleftrightarrow> sorted (map fst m) \<and> distinct (map fst m)"

lemma bt_ok_insert: "bt_ok m \<Longrightarrow> bt_ok (bt_insert k v m)"
proof (induction k v m rule: bt_insert.induct)
  case (2 k v k' v' m)
  then have ok: "bt_ok m" "\<forall>x \<in> fst ` set m. k' < x" by (auto simp: bt_ok_def order_less_le)
  show ?case
  proof (cases "k < k' \<or> k = k'")
    case True
    then show ?thesis using 2(2) ok by (auto simp: bt_ok_def)
  next
    case False
    then have "bt_ok (bt_insert k v m)" using 2(1) ok(1) by auto
    moreover have "\<forall>x \<in> fst ` set (bt_insert k v m). k' < x" unfolding keys_bt_insert using ok(2) False by auto
    ultimately show ?thesis using False by (auto simp: bt_ok_def order_less_imp_le)
  qed
qed (simp add: bt_ok_def)

lemma bt_ok_filter: "bt_ok m \<Longrightarrow> bt_ok (filter P m)"
  by (simp add: bt_ok_def distinct_map_filter sorted_filter)

lemma map_of_bt_insert: "bt_ok m \<Longrightarrow> map_of (bt_insert k v m) = (map_of m)(k \<mapsto> v)"
proof (induction k v m rule: bt_insert.induct)
  case (2 k v k' v' m)
  then have ok: "bt_ok m" "k' \<notin> fst ` set m" "k < k' \<Longrightarrow> k \<notin> fst ` set m" by (auto simp: bt_ok_def)
  then show ?case using 2(1) by (auto simp: fun_eq_iff)
qed simp

lemma map_of_bt_or_insert:
  "bt_ok m \<Longrightarrow> map_of (bt_or_insert k v m) = (if map_of m k = None then (map_of m)(k \<mapsto> v) else map_of m)"
  by (simp add: bt_or_insert_def map_of_bt_insert)

lemma bt_ok_or_insert: "bt_ok m \<Longrightarrow> bt_ok (bt_or_insert k v m)"
  by (simp add: bt_or_insert_def bt_ok_insert)

lemma map_of_in: "bt_ok m \<Longrightarrow> map_of m k = Some v \<longleftrightarrow> (k, v) \<in> set m"
  by (simp add: bt_ok_def)

section \<open>The policy\<close>

lemma policy_vault_id: "policy_vault env mp checked st p v write = Inr (Some r) \<Longrightarrow> vr_id r = vr_id v"
  unfolding policy_vault_def by (auto simp: result_simps Let_def split: if_splits option.splits)

interpretation rv: shown_vaults "remote_policy env mp checked states created" for env mp checked states created
  by unfold_locales (auto simp: remote_policy_def intro: policy_vault_id)

lemma policy_vault_shows:
  assumes "policy_vault env mp checked st p v write = Inr (Some r)"
  shows "vr_id v \<noteq> ae_auth_vault env \<and> (map_of (as_vault_owners st) (vr_id v) = Some p \<or> \<not> write \<and> vr_id v \<in> set (as_shared_vaults st))"
  using assms unfolding policy_vault_def by (auto simp: result_simps Let_def split: if_splits option.splits)

section \<open>Well-formed states\<close>

text \<open>A principal stands for an identity that the provider attested and the configuration admits.\<close>

definition attested :: "auth_env \<Rightarrow> principal_record \<Rightarrow> bool" where
  "attested env p \<longleftrightarrow> (\<exists>n code nonce verifier c i. ae_claims env n code nonce verifier = Inr c \<and> claims_identity env c = Inr i \<and>
     pn_issuer p = oi_issuer i \<and> pn_subject p = oi_subject i \<and> pn_email p = oi_email i \<and> admitted (ae_config env) (oi_email i))"

definition principal_ok :: "auth_env \<Rightarrow> auth_state \<Rightarrow> principal_record \<Rightarrow> bool" where
  "principal_ok env st p \<longleftrightarrow> attested env p \<and> map_of (as_vault_owners st) (pn_vault p) = Some (pn_id p) \<and>
     pn_vault p \<notin> set (as_shared_vaults st) \<and> pn_vault p \<noteq> ae_auth_vault env \<and>
     (pn_id p = as_owner st \<longrightarrow> eq_ignore_ascii_case (af_owner_email (ae_config env)) (pn_email p))"

definition identities_ok :: "auth_env \<Rightarrow> auth_state \<Rightarrow> bool" where
  "identities_ok env st \<longleftrightarrow> bt_ok (as_principals st) \<and> bt_ok (as_vault_owners st) \<and> bt_ok (as_vault_names st) \<and> bt_ok (as_owners st) \<and>
     (\<forall>(k, p) \<in> set (as_principals st). k = pn_id p \<and> principal_ok env st p) \<and>
     (\<forall>(k, p) \<in> set (as_principals st). \<forall>(k', q) \<in> set (as_principals st).
        pn_email p = pn_email q \<or> pn_issuer p = pn_issuer q \<and> pn_subject p = pn_subject q \<longrightarrow> p = q)"

definition known :: "auth_state \<Rightarrow> string \<Rightarrow> bool" where
  "known st p \<longleftrightarrow> map_of (as_principals st) p \<noteq> None"

text \<open>Sessions belong to principals and carry digests of tokens that were drawn at random.\<close>

definition session_ok :: "auth_env \<Rightarrow> auth_state \<Rightarrow> session_record \<Rightarrow> bool" where
  "session_ok env st s \<longleftrightarrow> known st (sn_principal s) \<and> (\<exists>n. sn_access s = ae_digest env (ae_random env n)) \<and>
     (\<forall>r. sn_refresh s = Some r \<longrightarrow> (\<exists>n. r = ae_digest env (ae_random env n)))"

definition state_wf :: "auth_env \<Rightarrow> auth_state \<Rightarrow> bool" where
  "state_wf env st \<longleftrightarrow> identities_ok env st \<and> (\<forall>e \<in> set (as_sessions st). session_ok env st (snd e)) \<and>
     (\<forall>e \<in> set (as_clients st). list_all (loopback_redirect env) (ct_redirect_uris (snd e)))"

definition request_ok :: "auth_env \<Rightarrow> authorization_request \<Rightarrow> bool" where
  "request_ok env q \<longleftrightarrow> loopback_redirect env (az_redirect_uri q) \<and> az_code_challenge_method q = ''S256'' \<and>
     ae_challenge_ok env (az_code_challenge q) \<and> az_resource q = server_resource env"

definition auth_ok :: "auth_env \<Rightarrow> auth_world \<Rightarrow> bool" where
  "auth_ok env w \<longleftrightarrow> state_wf env (aw_state w) \<and>
     (\<forall>e \<in> set (aw_pending w). \<forall>q. pl_request (snd e) = Some q \<longrightarrow> request_ok env q) \<and>
     (\<forall>e \<in> set (aw_codes w). request_ok env (gc_request (snd e)) \<and> known (aw_state w) (gc_principal (snd e)))"

text \<open>What never changes: principals, the owners of vaults and of resources, and who owns the server.\<close>

definition grows :: "auth_state \<Rightarrow> auth_state \<Rightarrow> bool" where
  "grows st st' \<longleftrightarrow> map_of (as_principals st) \<subseteq>\<^sub>m map_of (as_principals st') \<and> map_of (as_vault_owners st) \<subseteq>\<^sub>m map_of (as_vault_owners st') \<and>
     map_of (as_owners st) \<subseteq>\<^sub>m map_of (as_owners st') \<and> as_owner st' = as_owner st"

lemma grows_refl [simp]: "grows st st"
  by (simp add: grows_def)

lemma grows_trans: "grows a b \<Longrightarrow> grows b c \<Longrightarrow> grows a c"
  unfolding grows_def by (auto intro: map_le_trans)

lemma known_grows: "grows st st' \<Longrightarrow> known st p \<Longrightarrow> known st' p"
  unfolding grows_def known_def map_le_def by (metis domI not_None_eq)

lemma session_ok_grows: "grows st st' \<Longrightarrow> session_ok env st s \<Longrightarrow> session_ok env st' s"
  unfolding session_ok_def using known_grows by blast

section \<open>Steps\<close>

text \<open>The new identifiers that an enrollment would draw are not in use.\<close>

definition unused :: "auth_env \<Rightarrow> auth_world \<Rightarrow> bool" where
  "unused env w \<longleftrightarrow> \<not> known (aw_state w) (ae_uuid env (aw_calls w)) \<and> ae_uuid env (aw_calls w) \<noteq> as_owner (aw_state w) \<and>
     (\<forall>name v. ae_create_vault env (aw_calls w) name = Inr v \<longrightarrow> map_of (as_vault_owners (aw_state w)) (vr_id v) = None \<and>
        vr_id v \<notin> set (as_shared_vaults (aw_state w)) \<and> vr_id v \<noteq> ae_auth_vault env)"

text \<open>Everything that the server ever does to its state, one locked section at a time.\<close>

inductive auth_step :: "auth_env \<Rightarrow> auth_world \<Rightarrow> auth_world \<Rightarrow> bool" for env where
  time: "aw_calls w \<le> n \<Longrightarrow> auth_step env w (w\<lparr>aw_calls := n\<rparr>)"
| enrolling: "unused env w \<Longrightarrow> ae_claims env n code nonce verifier = Inr c \<Longrightarrow> claims_identity env c = Inr i \<Longrightarrow> admitted (ae_config env) (oi_email i) \<Longrightarrow>
    enroll_section env i w = (r, w') \<Longrightarrow> auth_step env w w'"
| issuing: "known (aw_state w) p \<Longrightarrow> issue_section env p client w = (r1, w') \<Longrightarrow> auth_step env w w'"
| registering: "registration_ok env body \<Longrightarrow> register_section env body w = (r2, w') \<Longrightarrow> auth_step env w w'"
| starting: "(\<And>q. request = Some q \<Longrightarrow> request_ok env q) \<Longrightarrow> start_login_section env request w = (r3, w') \<Longrightarrow> auth_step env w w'"
| taking_login: "take_pending env q browser w = (r4, w') \<Longrightarrow> auth_step env w w'"
| granting: "request_ok env request \<Longrightarrow> known (aw_state w) p \<Longrightarrow> put_code env request p w = (r5, w') \<Longrightarrow> auth_step env w w'"
| taking_code: "take_code env code w = (r6, w') \<Longrightarrow> auth_step env w w'"
| refreshing: "refresh_session env token client_id w = (r7, w') \<Longrightarrow> auth_step env w w'"
| revoking: "revoke_section env token client_id w = (r8, w') \<Longrightarrow> auth_step env w w'"
| leaving: "logout_section env token w = (r9, w') \<Longrightarrow> auth_step env w w'"
| creating: "created_section env p scope w = (r10, w') \<Longrightarrow> auth_step env w w'"
| creating_vault: "map_of (as_vault_owners (aw_state w)) vid = None \<Longrightarrow> vid \<notin> set (as_shared_vaults (aw_state w)) \<Longrightarrow>
    vault_created_section env p vid name w = (r11, w') \<Longrightarrow> auth_step env w w'"
| adopting: "adopt_section env agents vaults w = (r12, w') \<Longrightarrow> auth_step env w w'"

section \<open>Sections that write the state\<close>

definition same_auth :: "auth_world \<Rightarrow> auth_world \<Rightarrow> bool" where
  "same_auth w w' \<longleftrightarrow> aw_state w' = aw_state w \<and> aw_pending w' = aw_pending w \<and> aw_codes w' = aw_codes w \<and> aw_calls w \<le> aw_calls w'"

lemma same_auth_refl: "reflp same_auth" and same_auth_trans: "transp same_auth"
  by (auto simp: reflp_def transp_def same_auth_def)

abbreviation quiet :: "(auth_world, 'a) io \<Rightarrow> bool" where
  "quiet m \<equiv> io_keeps same_auth m"

lemma quiet_call: "quiet auth_call"
  by (simp add: io_keeps_def auth_call_def same_auth_def)

lemmas quiet_intros = io_keeps_bind [OF same_auth_trans] io_keeps_pure [OF same_auth_refl] quiet_call

lemma quiet_draws: "quiet (now env)" "quiet (random env)"
  unfolding now_def random_def by (intro quiet_intros)+

lemma quiet_run: "quiet m \<Longrightarrow> m w = (r, w') \<Longrightarrow> same_auth w w'"
  by (metis io_keeps_def snd_conv)

lemma random_Inr: "random env w = (Inr x, w') \<Longrightarrow> \<exists>n. x = ae_random env n"
  by (auto simp: random_def io_bind_Inr_iff io_return_def)

text \<open>Started on a state, a section leaves logins and codes alone and leaves this state or one with the property.\<close>

definition writes :: "auth_state \<Rightarrow> (auth_state \<Rightarrow> bool) \<Rightarrow> (auth_world, 'a) io \<Rightarrow> bool" where
  "writes st Q m \<longleftrightarrow> (\<forall>w r w'. aw_state w = st \<longrightarrow> m w = (r, w') \<longrightarrow>
     aw_pending w' = aw_pending w \<and> aw_codes w' = aw_codes w \<and> aw_calls w \<le> aw_calls w' \<and> (aw_state w' = st \<or> Q (aw_state w')))"

lemma writes_quiet: "quiet m \<Longrightarrow> writes st Q m"
  unfolding writes_def using quiet_run [of m] by (auto simp: same_auth_def)

lemma writes_bind:
  assumes "quiet m" and "\<And>x w w'. aw_state w = st \<Longrightarrow> m w = (Inr x, w') \<Longrightarrow> writes st Q (f x)"
  shows "writes st Q (io_bind m f)"
  unfolding writes_def
proof (intro allI impI)
  fix w r w'
  assume st: "aw_state w = st" and run: "io_bind m f w = (r, w')"
  obtain x w1 where m: "m w = (x, w1)" by fastforce
  have w1: "same_auth w w1" by (rule quiet_run [OF assms(1) m])
  show "aw_pending w' = aw_pending w \<and> aw_codes w' = aw_codes w \<and> aw_calls w \<le> aw_calls w' \<and> (aw_state w' = st \<or> Q (aw_state w'))"
  proof (cases x)
    case (Inl e)
    then show ?thesis using run m w1 st by (auto simp: io_bind_def same_auth_def)
  next
    case (Inr y)
    then have "f y w1 = (r, w')" using run m by (simp add: io_bind_def)
    then show ?thesis using assms(2) [OF st m [unfolded Inr]] w1 st unfolding writes_def same_auth_def by (metis le_trans)
  qed
qed

lemma writes_read: "writes st Q (f st) \<Longrightarrow> writes st Q (io_bind (io_read aw_state) f)"
  by (simp add: writes_def io_bind_def io_read_def)

lemma writes_ensure: "(b \<Longrightarrow> writes st Q f) \<Longrightarrow> writes st Q (io_bind (io_lift (ensure b msg)) (\<lambda>_. f))"
  by (rule writes_bind) (auto simp: io_lift_def result_simps intro: quiet_intros)

lemma writes_ok_or: "(\<And>x. v = Some x \<Longrightarrow> writes st Q (f x)) \<Longrightarrow> writes st Q (io_bind (io_lift (ok_or v msg)) f)"
  by (rule writes_bind) (auto simp: io_lift_def result_simps intro: quiet_intros)

lemma writes_now: "(\<And>t. writes st Q (f t)) \<Longrightarrow> writes st Q (io_bind (now env) f)"
  by (rule writes_bind [OF quiet_draws(1)])

lemma writes_random: "(\<And>n. writes st Q (f (ae_random env n))) \<Longrightarrow> writes st Q (io_bind (random env) f)"
  by (rule writes_bind [OF quiet_draws(2)]) (auto dest: random_Inr)

lemma writes_commit: "Q st' \<Longrightarrow> writes st Q (commit env st')"
  by (auto simp: writes_def commit_def io_bind_def auth_call_def io_lift_def io_modify_def split: sum.splits)

text \<open>What follows a write leaves the world alone.\<close>

lemma writes_then:
  assumes "writes st Q m" and "\<And>x. quiet (f x)"
  shows "writes st Q (io_bind m f)"
  unfolding writes_def
proof (intro allI impI)
  fix w r w'
  assume st: "aw_state w = st" and run: "io_bind m f w = (r, w')"
  obtain x w1 where m: "m w = (x, w1)" by fastforce
  show "aw_pending w' = aw_pending w \<and> aw_codes w' = aw_codes w \<and> aw_calls w \<le> aw_calls w' \<and> (aw_state w' = st \<or> Q (aw_state w'))"
    using assms(1) st run m quiet_run [OF assms(2)] unfolding writes_def same_auth_def
    by (cases x) (auto simp: io_bind_def, (metis le_trans)+)
qed

lemma writes_try: "writes st Q m \<Longrightarrow> writes st Q (io_try m)"
  unfolding writes_def io_try_def by (auto split: prod.splits sum.splits error.splits)

lemma writes_internal: "writes st Q m \<Longrightarrow> writes st Q (internal env m)"
  unfolding internal_def by (rule writes_then [OF writes_try]) (auto split: sum.split intro: quiet_intros)

section \<open>The states they write\<close>

definition good :: "auth_env \<Rightarrow> auth_state \<Rightarrow> auth_state \<Rightarrow> bool" where
  "good env st st' \<longleftrightarrow> (state_wf env st \<longrightarrow> state_wf env st' \<and> grows st st')"

lemma goodI:
  assumes "state_wf env st \<Longrightarrow> identities_ok env st'" and "grows st st'"
    and "\<And>e. state_wf env st \<Longrightarrow> e \<in> set (as_sessions st') \<Longrightarrow> session_ok env st (snd e)"
    and "\<And>e. state_wf env st \<Longrightarrow> e \<in> set (as_clients st') \<Longrightarrow> list_all (loopback_redirect env) (ct_redirect_uris (snd e))"
  shows "good env st st'"
  unfolding good_def state_wf_def [of env st'] using assms session_ok_grows [OF assms(2)] by blast

lemma identities_other:
  "identities_ok env (st\<lparr>as_sessions := ss\<rparr>) = identities_ok env st" "identities_ok env (st\<lparr>as_clients := cs\<rparr>) = identities_ok env st"
  by (simp_all add: identities_ok_def principal_ok_def)

lemma wf_parts:
  assumes "state_wf env st"
  shows "identities_ok env st" and "e \<in> set (as_sessions st) \<Longrightarrow> session_ok env st (snd e)"
    and "c \<in> set (as_clients st) \<Longrightarrow> list_all (loopback_redirect env) (ct_redirect_uris (snd c))"
  using assms by (simp_all add: state_wf_def)

lemma good_sessions:
  assumes "\<And>e. state_wf env st \<Longrightarrow> e \<in> set ss \<Longrightarrow> session_ok env st (snd e)"
  shows "good env st (st\<lparr>as_sessions := ss\<rparr>)"
  by (rule goodI) (use assms wf_parts in \<open>simp_all add: identities_other grows_def\<close>)

lemma good_clients:
  assumes "\<And>e. state_wf env st \<Longrightarrow> e \<in> set cs \<Longrightarrow> list_all (loopback_redirect env) (ct_redirect_uris (snd e))"
  shows "good env st (st\<lparr>as_clients := cs\<rparr>)"
  by (rule goodI) (use assms wf_parts in \<open>simp_all add: identities_other grows_def\<close>)

lemma in_bt_insert: "e \<in> set (bt_insert k v m) \<Longrightarrow> e = (k, v) \<or> e \<in> set m"
  by (induction k v m rule: bt_insert.induct) (auto split: if_splits)

lemma in_bt_retain: "e \<in> set (bt_retain P m) \<Longrightarrow> e \<in> set m"
  by (simp add: bt_retain_def)

lemma kept_session: "state_wf env st \<Longrightarrow> e \<in> set (bt_retain P (as_sessions st)) \<Longrightarrow> session_ok env st (snd e)"
  by (auto simp: state_wf_def dest!: in_bt_retain)

lemma writes_optional:
  assumes "\<And>refresh. refresh = None \<or> (\<exists>m. refresh = Some (ae_random env m)) \<Longrightarrow> writes st Q (f refresh)"
  shows "writes st Q (io_bind (case client of Some _ \<Rightarrow> io_bind (random env) (\<lambda>r. io_return (Some r)) | None \<Rightarrow> io_return None) f)"
proof (rule writes_bind)
  show "quiet (case client of Some _ \<Rightarrow> io_bind (random env) (\<lambda>r. io_return (Some r)) | None \<Rightarrow> io_return None)"
    by (cases client) (auto intro!: quiet_intros quiet_draws)
  fix refresh w w'
  assume "(case client of Some _ \<Rightarrow> io_bind (random env) (\<lambda>r. io_return (Some r)) | None \<Rightarrow> io_return None) w = (Inr refresh, w')"
  then have "refresh = None \<or> (\<exists>m. refresh = Some (ae_random env m))"
    by (cases client) (auto simp: io_return_def io_bind_Inr_iff dest!: random_Inr)
  then show "writes st Q (f refresh)" by (rule assms)
qed

lemma issue_writes:
  assumes "known st p"
  shows "writes st (good env st) (issue_section env p client)"
proof -
  have fresh: "good env st (st\<lparr>as_sessions := bt_insert sid \<lparr> sn_principal = p, sn_client = client, sn_access = ae_digest env (ae_random env n),
      sn_refresh = map_option (ae_digest env) refresh, sn_access_expires = t1, sn_expires = t2 \<rparr> (bt_retain P (as_sessions st))\<rparr>)"
    if "refresh = None \<or> (\<exists>m. refresh = Some (ae_random env m))" for n refresh sid t1 t2 P
    using that assms by (intro good_sessions) (auto dest!: in_bt_insert kept_session, auto simp: session_ok_def)
  show ?thesis
    unfolding issue_section_def Let_def
    by (intro writes_read writes_now writes_ensure writes_random writes_optional writes_then [OF writes_commit] fresh quiet_intros)
qed

lemma register_writes:
  assumes "registration_ok env body"
  shows "writes st (good env st) (register_section env body)"
proof -
  have "good env st (st\<lparr>as_clients := bt_insert cid \<lparr> ct_redirect_uris = rg_redirect_uris body, ct_expires = t \<rparr> (bt_retain P (as_clients st))\<rparr>)" for cid t P
    using assms by (intro good_clients) (auto simp: registration_ok_def state_wf_def dest!: in_bt_insert in_bt_retain)
  then show ?thesis
    unfolding register_section_def Let_def
    by (intro writes_read writes_now writes_ensure writes_random writes_then [OF writes_internal [OF writes_commit]] quiet_intros)
qed

lemma revoke_writes: "writes st (good env st) (revoke_section env token client_id)" "writes st (good env st) (logout_section env token)"
  unfolding revoke_section_def logout_section_def
  by (intro writes_read writes_internal writes_commit good_sessions kept_session; assumption)+

lemma refresh_writes: "writes st (good env st) (refresh_session env token client_id)"
  unfolding refresh_session_def Let_def
proof (intro writes_read writes_now writes_ok_or)
  fix t x
  assume found: "List.find (\<lambda>e. sn_refresh (snd e) = Some (ae_digest env token) \<and> sn_client (snd e) = Some client_id \<and> t < sn_expires (snd e))
      (as_sessions st) = Some x"
  have "good env st (st\<lparr>as_sessions := update_first (\<lambda>e. sn_refresh (snd e) = Some (ae_digest env token) \<and> sn_client (snd e) = Some client_id \<and>
      t < sn_expires (snd e)) (\<lambda>(sid, s). (sid, s\<lparr>sn_access := ae_digest env (ae_random env m), sn_refresh := Some (ae_digest env (ae_random env n)),
      sn_access_expires := t1 + ACCESS_SECONDS\<rparr>)) (as_sessions st)\<rparr>)" for m n t1
  proof (rule good_sessions)
    fix e assume wf: "state_wf env st" and e: "e \<in> set (update_first (\<lambda>e. sn_refresh (snd e) = Some (ae_digest env token) \<and>
      sn_client (snd e) = Some client_id \<and> t < sn_expires (snd e)) (\<lambda>(sid, s). (sid, s\<lparr>sn_access := ae_digest env (ae_random env m),
      sn_refresh := Some (ae_digest env (ae_random env n)), sn_access_expires := t1 + ACCESS_SECONDS\<rparr>)) (as_sessions st))"
    from in_update_first [OF e] show "session_ok env st (snd e)"
      using wf by (auto simp: state_wf_def) (auto simp: session_ok_def)
  qed
  then show "writes st (good env st) ((case x of (sid, s) \<Rightarrow>
     io_bind (io_lift (ok_or (map_of (as_principals st) (sn_principal s)) ''invalid_grant'')) (\<lambda>p.
     io_bind (io_lift (ensure (admitted (ae_config env) (pn_email p)) ''invalid_grant'')) (\<lambda>_.
     io_bind (random env) (\<lambda>access_token.
     io_bind (random env) (\<lambda>refresh.
     io_bind (now env) (\<lambda>t1.
     io_bind (internal env (commit env (st\<lparr>as_sessions := update_first (\<lambda>e. sn_refresh (snd e) = Some (ae_digest env token) \<and>
         sn_client (snd e) = Some client_id \<and> t < sn_expires (snd e)) (\<lambda>(sid, s). (sid, s\<lparr>sn_access := ae_digest env access_token,
         sn_refresh := Some (ae_digest env refresh), sn_access_expires := t1 + ACCESS_SECONDS\<rparr>)) (as_sessions st)\<rparr>))) (\<lambda>_.
     io_return \<lparr> tk_access_token = access_token, tk_expires_in = ACCESS_SECONDS, tk_refresh_token = Some refresh \<rparr>))))))))"
    by (cases x, simp only: prod.case)
       (intro writes_ok_or writes_ensure writes_random writes_now writes_then [OF writes_internal [OF writes_commit]] quiet_intros)
qed

lemma identities_kept:
  assumes "identities_ok env st" and "as_principals st' = as_principals st" and "as_owner st' = as_owner st"
    and "bt_ok (as_vault_owners st')" "bt_ok (as_vault_names st')" "bt_ok (as_owners st')"
    and "map_of (as_vault_owners st) \<subseteq>\<^sub>m map_of (as_vault_owners st')"
    and "\<And>e. e \<in> set (as_principals st) \<Longrightarrow> pn_vault (snd e) \<notin> set (as_shared_vaults st')"
  shows "identities_ok env st'"
proof -
  have "principal_ok env st' (snd e)" if "e \<in> set (as_principals st)" for e
  proof -
    have ok: "principal_ok env st (snd e)" using assms(1) that by (auto simp: identities_ok_def)
    then have "map_of (as_vault_owners st') (pn_vault (snd e)) = Some (pn_id (snd e))"
      using assms(7) unfolding principal_ok_def map_le_def by (metis domI)
    then show ?thesis using ok assms(3,8) that by (simp add: principal_ok_def)
  qed
  then show ?thesis using assms(1-6) unfolding identities_ok_def by fastforce
qed

lemma map_le_insert: "bt_ok m \<Longrightarrow> map_of m k = None \<or> map_of m k = Some v \<Longrightarrow> map_of m \<subseteq>\<^sub>m map_of (bt_insert k v m)"
  by (auto simp: map_of_bt_insert map_le_def)

lemma map_le_or_insert: "bt_ok m \<Longrightarrow> map_of m \<subseteq>\<^sub>m map_of (bt_or_insert k v m)"
  by (auto simp: map_of_bt_or_insert map_le_def)

lemma identities_parts:
  assumes "identities_ok env st"
  shows "bt_ok (as_principals st)" "bt_ok (as_vault_owners st)" "bt_ok (as_vault_names st)" "bt_ok (as_owners st)"
    and "e \<in> set (as_principals st) \<Longrightarrow> fst e = pn_id (snd e) \<and> principal_ok env st (snd e)"
  using assms by (auto simp: identities_ok_def)

lemma not_shared: "identities_ok env st \<Longrightarrow> e \<in> set (as_principals st) \<Longrightarrow> pn_vault (snd e) \<notin> set (as_shared_vaults st)"
  using identities_parts(5) by (fastforce simp: principal_ok_def)

text \<open>An update that keeps principals, sessions and clients.\<close>

lemma good_kept:
  assumes "state_wf env st \<Longrightarrow> identities_ok env st'" and "state_wf env st \<Longrightarrow> grows st st'"
    and "as_sessions st' = as_sessions st" and "as_clients st' = as_clients st"
  shows "good env st st'"
proof (cases "state_wf env st")
  case True
  then show ?thesis using goodI [of env st st'] assms wf_parts by simp
qed (simp add: good_def)

lemma created_writes: "writes st (good env st) (created_section env p scope)"
  unfolding created_section_def
proof (intro writes_read writes_ensure writes_commit good_kept)
  assume free: "case map_of (as_owners st) (scope_key env scope) of None \<Rightarrow> True | Some owner \<Rightarrow> owner = p" and wf: "state_wf env st"
  have ok: "identities_ok env st" by (rule wf_parts(1) [OF wf])
  note parts = identities_parts [OF ok]
  have "map_of (as_owners st) \<subseteq>\<^sub>m map_of (bt_insert (scope_key env scope) p (as_owners st))"
    using parts(4) free by (intro map_le_insert) (auto split: option.splits)
  then show "grows st (st\<lparr>as_owners := bt_insert (scope_key env scope) p (as_owners st)\<rparr>)" by (simp add: grows_def)
  show "identities_ok env (st\<lparr>as_owners := bt_insert (scope_key env scope) p (as_owners st)\<rparr>)"
    by (rule identities_kept [OF ok]) (use parts not_shared [OF ok] bt_ok_insert in simp_all)
qed simp_all

lemma vault_created_writes:
  assumes "map_of (as_vault_owners st) vid = None"
  shows "writes st (good env st) (vault_created_section env p vid name)"
  unfolding vault_created_section_def
proof (intro writes_read writes_commit good_kept)
  assume wf: "state_wf env st"
  have ok: "identities_ok env st" by (rule wf_parts(1) [OF wf])
  note parts = identities_parts [OF ok]
  have le: "map_of (as_vault_owners st) \<subseteq>\<^sub>m map_of (bt_insert vid p (as_vault_owners st))"
    using parts(2) assms by (intro map_le_insert) auto
  then show "grows st (st\<lparr>as_vault_owners := bt_insert vid p (as_vault_owners st), as_vault_names := bt_insert vid name (as_vault_names st)\<rparr>)"
    by (simp add: grows_def)
  show "identities_ok env (st\<lparr>as_vault_owners := bt_insert vid p (as_vault_owners st), as_vault_names := bt_insert vid name (as_vault_names st)\<rparr>)"
    by (rule identities_kept [OF ok]) (use parts not_shared [OF ok] bt_ok_insert le in simp_all)
qed simp_all

section \<open>Adoption\<close>

text \<open>What adoption leaves alone, and what it only extends.\<close>

definition adopts :: "auth_state \<Rightarrow> auth_state \<Rightarrow> bool" where
  "adopts st st' \<longleftrightarrow> as_principals st' = as_principals st \<and> as_owner st' = as_owner st \<and> as_sessions st' = as_sessions st \<and> as_clients st' = as_clients st \<and>
     (bt_ok (as_owners st) \<longrightarrow> bt_ok (as_owners st') \<and> map_of (as_owners st) \<subseteq>\<^sub>m map_of (as_owners st')) \<and>
     (bt_ok (as_vault_owners st) \<longrightarrow> bt_ok (as_vault_owners st') \<and> map_of (as_vault_owners st) \<subseteq>\<^sub>m map_of (as_vault_owners st')) \<and>
     (bt_ok (as_vault_names st) \<longrightarrow> bt_ok (as_vault_names st'))"

lemma adopts_refl: "adopts st st"
  by (simp add: adopts_def)

lemma adopts_trans: "adopts a b \<Longrightarrow> adopts b c \<Longrightarrow> adopts a c"
  unfolding adopts_def by (auto intro: map_le_trans)

lemma fold_owners:
  "bt_ok m \<Longrightarrow> bt_ok (fold (\<lambda>k. bt_or_insert (f k) v) ks m) \<and> map_of m \<subseteq>\<^sub>m map_of (fold (\<lambda>k. bt_or_insert (f k) v) ks m)"
proof (induction ks arbitrary: m)
  case (Cons k ks)
  from Cons(1) [OF bt_ok_or_insert [OF Cons(2), of "f k" v]] map_le_or_insert [OF Cons(2), of "f k" v] show ?case
    by (auto intro: map_le_trans)
qed simp

lemma adopt_agent_adopts: "adopts st (adopt_agent env a st)"
  using fold_owners [of "as_owners st" "scope_key env" "as_owner st" "Agent_Scope (fst a) # map (Thread_Scope (fst a)) (snd a)"]
  by (simp add: adopts_def adopt_agent_def del: fold_simps)

lemma adopt_vault_adopts: "adopts st (adopt_vault env v st)" and adopt_vault_shared: "as_shared_vaults (adopt_vault env v st) = as_shared_vaults st"
  by (simp_all add: adopts_def adopt_vault_def bt_ok_or_insert map_le_or_insert)

lemma fold_adopts: "(\<And>x st. adopts st (f x st)) \<Longrightarrow> adopts st (fold f xs st)"
  by (induction xs arbitrary: st) (auto intro: adopts_refl adopts_trans)

lemma fold_shared: "as_shared_vaults (fold (adopt_vault env) vs st) = as_shared_vaults st"
  by (induction vs arbitrary: st) (simp_all add: adopt_vault_shared)

lemma share_vaults_result:
  assumes "share_vaults env vaults refs st = Inr st'"
  shows "adopts st st' \<and> (\<forall>vid \<in> set (as_shared_vaults st'). vid \<in> set (as_shared_vaults st) \<or>
    vid \<noteq> ae_auth_vault env \<and> (\<forall>e \<in> set (as_principals st). pn_vault (snd e) \<noteq> vid))"
  using assms
proof (induction refs arbitrary: st)
  case (Cons reference refs)
  then obtain st1 where s: "share_vault env vaults reference st = Inr st1" "share_vaults env vaults refs st1 = Inr st'"
    by (auto simp: result_simps)
  obtain vid where st1: "st1 = st\<lparr>as_shared_vaults := as_shared_vaults st @ [vid]\<rparr>" "vid \<noteq> ae_auth_vault env"
    "\<forall>e \<in> set (as_principals st). pn_vault (snd e) \<noteq> vid"
    using s(1) by (auto simp: share_vault_def result_simps list_ex_iff)
  have "adopts st st1" unfolding st1(1) by (simp add: adopts_def)
  from adopts_trans [OF this] show ?case using Cons(1) [OF s(2)] st1 by auto
qed (simp add: adopts_refl)

lemma adopt_writes: "writes st (good env st) (adopt_section env agents vaults)"
  unfolding adopt_section_def
proof (intro writes_read writes_bind)
  fix st1 w w'
  assume "io_lift (share_vaults env vaults (af_shared_vaults (ae_config env)) ((fold (adopt_agent env) agents st)\<lparr>as_shared_vaults := []\<rparr>)) w = (Inr st1, w')"
  then have share: "share_vaults env vaults (af_shared_vaults (ae_config env)) ((fold (adopt_agent env) agents st)\<lparr>as_shared_vaults := []\<rparr>) = Inr st1"
    by (simp add: io_lift_def)
  let ?st = "fold (adopt_vault env) vaults st1"
  have agents: "adopts st (fold (adopt_agent env) agents st)" by (rule fold_adopts [OF adopt_agent_adopts])
  moreover have "adopts (fold (adopt_agent env) agents st) ((fold (adopt_agent env) agents st)\<lparr>as_shared_vaults := []\<rparr>)" by (simp add: adopts_def)
  ultimately have "adopts st ((fold (adopt_agent env) agents st)\<lparr>as_shared_vaults := []\<rparr>)" by (rule adopts_trans)
  from adopts_trans [OF this conjunct1 [OF share_vaults_result [OF share]]] have all: "adopts st ?st"
    by (rule adopts_trans) (rule fold_adopts [OF adopt_vault_adopts])
  have shared: "\<forall>e \<in> set (as_principals st). pn_vault (snd e) \<notin> set (as_shared_vaults ?st)"
    using share_vaults_result [OF share] agents by (auto simp: fold_shared adopts_def)
  have "good env st ?st"
  proof (rule good_kept)
    assume wf: "state_wf env st"
    have ok: "identities_ok env st" by (rule wf_parts(1) [OF wf])
    note parts = identities_parts [OF ok]
    show "grows st ?st" using all parts(2,4) by (auto simp: adopts_def grows_def)
    show "identities_ok env ?st" by (rule identities_kept [OF ok]) (use all parts(2-4) shared in \<open>auto simp: adopts_def\<close>)
  qed (use all in \<open>simp_all add: adopts_def\<close>)
  then show "writes st (good env st) (commit env ?st)" by (rule writes_commit)
qed (intro quiet_intros)

section \<open>Enrollment\<close>

text \<open>Lower-casing leaves no upper-case ASCII letter.\<close>

definition lowercase_ok :: "auth_env \<Rightarrow> bool" where
  "lowercase_ok env \<longleftrightarrow> (\<forall>s. to_ascii_lowercase (ae_lowercase env s) = ae_lowercase env s)"

lemma identity_email: "lowercase_ok env \<Longrightarrow> claims_identity env c = Inr i \<Longrightarrow> to_ascii_lowercase (oi_email i) = oi_email i"
  by (auto simp: claims_identity_def result_simps lowercase_ok_def)

lemma find_principal_None: "find_principal P st = None \<longleftrightarrow> (\<forall>e \<in> set (as_principals st). \<not> P (snd e))"
  by (auto simp: find_principal_def find_None_iff)

text \<open>A new identity never takes the place of an enrolled principal.\<close>

lemma new_principal_unknown:
  assumes "identities_ok env st" and "lowercase_ok env" and "claims_identity env c = Inr i" and "find_principal (\<lambda>p. pn_email p = oi_email i) st = None"
    and "eq_ignore_ascii_case (af_owner_email (ae_config env)) (oi_email i)"
  shows "\<not> known st (as_owner st)"
proof
  assume "known st (as_owner st)"
  then obtain p where p: "(as_owner st, p) \<in> set (as_principals st)" by (auto simp: known_def dest: map_of_SomeD)
  then have own: "pn_id p = as_owner st" "principal_ok env st p" using identities_parts(5) [OF assms(1) p] by auto
  then have eq: "eq_ignore_ascii_case (af_owner_email (ae_config env)) (pn_email p)" by (simp add: principal_ok_def)
  have "to_ascii_lowercase (pn_email p) = pn_email p"
    using own(2) identity_email [OF assms(2)] by (auto simp: principal_ok_def attested_def)
  then have "pn_email p = oi_email i"
    using eq assms(5) identity_email [OF assms(2,3)] by (simp add: eq_ignore_ascii_case_def)
  then show False using assms(4) p by (auto simp: find_principal_None)
qed

lemma enrolled_good:
  assumes ok: "lowercase_ok env" and claims: "ae_claims env n code nonce verifier = Inr c" "claims_identity env c = Inr i" "admitted (ae_config env) (oi_email i)"
    and none: "find_principal (\<lambda>p. pn_email p = oi_email i) st = None" "find_principal (same_identity i) st = None"
    and pid: "pid = (if eq_ignore_ascii_case (af_owner_email (ae_config env)) (oi_email i) then as_owner st else u)"
    and fresh: "\<not> known st u" "u \<noteq> as_owner st" "map_of (as_vault_owners st) vid = None" "vid \<notin> set (as_shared_vaults st)" "vid \<noteq> ae_auth_vault env"
    and p: "p = \<lparr> pn_id = pid, pn_issuer = oi_issuer i, pn_subject = oi_subject i, pn_email = oi_email i, pn_vault = vid \<rparr>"
  shows "good env st (st\<lparr>as_vault_owners := bt_insert vid pid (as_vault_owners st), as_vault_names := bt_insert vid ''personal'' (as_vault_names st),
    as_principals := bt_insert pid p (as_principals st)\<rparr>)" (is "good env st ?st")
proof (rule good_kept)
  assume wf: "state_wf env st"
  have id: "identities_ok env st" by (rule wf_parts(1) [OF wf])
  note parts = identities_parts [OF id]
  have new: "\<not> known st pid" using new_principal_unknown [OF id ok claims(2) none(1)] fresh(1) pid by auto
  have le: "map_of (as_vault_owners st) \<subseteq>\<^sub>m map_of (bt_insert vid pid (as_vault_owners st))"
    "map_of (as_principals st) \<subseteq>\<^sub>m map_of (bt_insert pid p (as_principals st))"
    using parts(1,2) fresh(3) new by (auto simp: known_def intro!: map_le_insert)
  then show "grows st ?st" by (simp add: grows_def)
  have own: "principal_ok env ?st q" if "(k, q) \<in> set (as_principals st)" for k q
  proof -
    have q: "principal_ok env st q" using parts(5) [OF that] by simp
    then have "pn_vault q \<noteq> vid" using fresh(3) by (auto simp: principal_ok_def)
    then show ?thesis using q parts(2) by (simp add: principal_ok_def map_of_bt_insert)
  qed
  have "attested env p" unfolding attested_def p
    by (intro exI [of _ n] exI [of _ code] exI [of _ nonce] exI [of _ verifier] exI [of _ c] exI [of _ i]) (simp add: claims)
  then have mine: "principal_ok env ?st p"
    using fresh(2,4,5) pid parts(2) unfolding principal_ok_def by (simp add: p map_of_bt_insert split: if_splits)
  have in': "e = (pid, p) \<or> e \<in> set (as_principals st)" if "e \<in> set (as_principals ?st)" for e
    using in_bt_insert that by fastforce
  have other: "\<not> (pn_email p = pn_email q \<or> pn_issuer p = pn_issuer q \<and> pn_subject p = pn_subject q)" if "(k, q) \<in> set (as_principals st)" for k q
    using none that unfolding find_principal_None same_identity_def p by fastforce
  have unique: "q = r" if "e \<in> set (as_principals ?st)" "e' \<in> set (as_principals ?st)" "e = (k, q)" "e' = (k', r)"
    "pn_email q = pn_email r \<or> pn_issuer q = pn_issuer r \<and> pn_subject q = pn_subject r" for e e' k k' q r
    using in' [OF that(1)] in' [OF that(2)] that(3-5) other id unfolding identities_ok_def by fastforce
  have "bt_ok (as_principals ?st)" "bt_ok (as_vault_owners ?st)" "bt_ok (as_vault_names ?st)" "bt_ok (as_owners ?st)"
    using parts(1-4) by (simp_all add: bt_ok_insert)
  moreover have "\<forall>(k, q) \<in> set (as_principals ?st). k = pn_id q \<and> principal_ok env ?st q"
  proof (intro ballI case_prodI2)
    fix e k q assume e: "e \<in> set (as_principals ?st)" "e = (k, q)"
    then show "k = pn_id q \<and> principal_ok env ?st q" using in' [OF e(1)] mine own parts(5) [of e] p by auto
  qed
  ultimately show "identities_ok env ?st" unfolding identities_ok_def using unique by blast
qed simp_all

lemma enroll_writes:
  assumes run: "enroll_section env i w = (r, w')" and ok: "lowercase_ok env" and unused: "unused env w"
    and claims: "ae_claims env n code nonce verifier = Inr c" "claims_identity env c = Inr i" "admitted (ae_config env) (oi_email i)"
  shows "aw_pending w' = aw_pending w \<and> aw_codes w' = aw_codes w \<and> aw_calls w \<le> aw_calls w' \<and>
    (aw_state w' = aw_state w \<or> good env (aw_state w) (aw_state w'))"
proof (cases "find_principal (\<lambda>p. pn_email p = oi_email i) (aw_state w) = None \<and> find_principal (same_identity i) (aw_state w) = None")
  case False
  have "quiet (case find_principal (\<lambda>p. pn_email p = oi_email i) (aw_state w) of
       Some p \<Rightarrow> io_bind (io_lift (ensure (same_identity i p) msg)) (\<lambda>_. io_return p)
     | None \<Rightarrow> (case find_principal (same_identity i) (aw_state w) of
            Some p \<Rightarrow> io_bind (io_lift (ensure (admitted (ae_config env) (pn_email p)) msg')) (\<lambda>_. io_return p)
          | None \<Rightarrow> enroll_new env i))" for msg msg'
    using False by (auto split: option.split intro!: quiet_intros)
  from quiet_run [OF this] show ?thesis using run unfolding enroll_section_def by (auto simp: io_bind_def io_read_def same_auth_def)
next
  case True
  let ?st = "aw_state w" and ?n = "aw_calls w"
  define pid where "pid = (if eq_ignore_ascii_case (af_owner_email (ae_config env)) (oi_email i) then as_owner ?st else ae_uuid env ?n)"
  define rest where "rest = io_bind (io_lift (ae_create_vault env ?n (''personal-'' @ pid))) (\<lambda>v.
     let p = \<lparr> pn_id = pid, pn_issuer = oi_issuer i, pn_subject = oi_subject i, pn_email = oi_email i, pn_vault = vr_id v \<rparr>;
         st' = ?st\<lparr>as_vault_owners := bt_insert (vr_id v) pid (as_vault_owners ?st),
                  as_vault_names := bt_insert (vr_id v) ''personal'' (as_vault_names ?st),
                  as_principals := bt_insert pid p (as_principals ?st)\<rparr> in
     io_bind (io_try (commit env st')) (\<lambda>r.
     case r of
       Inl e \<Rightarrow>
         io_bind auth_call (\<lambda>n.
         io_bind (io_lift (case ae_delete_vault env n (vr_id v) of
             Inl _ \<Rightarrow> bail ''rolling back personal vault after enrollment failed'' | Inr _ \<Rightarrow> Ok ())) (\<lambda>_.
         io_lift (bail e)))
     | Inr _ \<Rightarrow> io_return p))"
  have "rest (w\<lparr>aw_calls := Suc ?n\<rparr>) = (r, w')"
    using run True by (simp add: enroll_section_def enroll_new_def io_bind_def io_read_def auth_call_def rest_def pid_def Let_def)
  moreover have "writes ?st (good env ?st) rest"
    unfolding rest_def Let_def
  proof (rule writes_bind)
    fix v w1 w2
    assume "io_lift (ae_create_vault env ?n (''personal-'' @ pid)) w1 = (Inr v, w2)"
    then have "ae_create_vault env ?n (''personal-'' @ pid) = Inr v" by (simp add: io_lift_def)
    then have fresh: "map_of (as_vault_owners ?st) (vr_id v) = None" "vr_id v \<notin> set (as_shared_vaults ?st)" "vr_id v \<noteq> ae_auth_vault env"
      "\<not> known ?st (ae_uuid env ?n)" "ae_uuid env ?n \<noteq> as_owner ?st" using unused by (auto simp: unused_def)
    note good = enrolled_good [OF ok claims conjunct1 [OF True] conjunct2 [OF True] pid_def [unfolded atomize_eq] fresh(4,5,1-3) refl]
    show "writes ?st (good env ?st) (io_bind (io_try (commit env (?st\<lparr>as_vault_owners := bt_insert (vr_id v) pid (as_vault_owners ?st),
        as_vault_names := bt_insert (vr_id v) ''personal'' (as_vault_names ?st), as_principals := bt_insert pid
        \<lparr> pn_id = pid, pn_issuer = oi_issuer i, pn_subject = oi_subject i, pn_email = oi_email i, pn_vault = vr_id v \<rparr> (as_principals ?st)\<rparr>))) (\<lambda>r.
      case r of
        Inl e \<Rightarrow> io_bind auth_call (\<lambda>n. io_bind (io_lift (case ae_delete_vault env n (vr_id v) of
             Inl _ \<Rightarrow> bail ''rolling back personal vault after enrollment failed'' | Inr _ \<Rightarrow> Ok ())) (\<lambda>_. io_lift (bail e)))
      | Inr _ \<Rightarrow> io_return \<lparr> pn_id = pid, pn_issuer = oi_issuer i, pn_subject = oi_subject i, pn_email = oi_email i, pn_vault = vr_id v \<rparr>))"
      by (rule writes_then, rule writes_try, rule writes_commit, rule good) (auto split: sum.split intro!: quiet_intros)
  qed (intro quiet_intros)
  ultimately show ?thesis unfolding writes_def by (elim allE [of _ "w\<lparr>aw_calls := Suc ?n\<rparr>"]) fastforce
qed

end
