(* ===== verification/Remote_Steps.thy ===== *)
theory Remote_Steps
  imports Remote_Access
begin

text \<open>
  The requests to a shared server as sequences of its locked sections: every section keeps the state well formed and takes
  nothing away from it, and every handler of \<^verbatim>\<open>crates/executor/src/native/remote/auth.rs\<close> runs only such sections, with other tasks
  in between.
\<close>

section \<open>One section\<close>

lemma writes_ok:
  assumes "writes (aw_state w) (good env (aw_state w)) m" and "m w = (r, w')" and "auth_ok env w"
  shows "auth_ok env w' \<and> grows (aw_state w) (aw_state w')"
proof -
  have run: "aw_pending w' = aw_pending w" "aw_codes w' = aw_codes w" "aw_state w' = aw_state w \<or> good env (aw_state w) (aw_state w')"
    using assms(1,2) unfolding writes_def by blast+
  then have "state_wf env (aw_state w') \<and> grows (aw_state w) (aw_state w')" using assms(3) by (auto simp: good_def auth_ok_def)
  then show ?thesis using assms(3) run(1,2) known_grows unfolding auth_ok_def by auto
qed

lemmas section_simps = io_simps auth_call_def now_def random_def Let_def

lemma start_login_keeps:
  assumes "start_login_section env request w = (r, w')"
  shows "aw_state w' = aw_state w \<and> aw_codes w' = aw_codes w \<and> (\<forall>e \<in> set (aw_pending w'). e \<in> set (aw_pending w) \<or> pl_request (snd e) = request)"
  using assms by (auto simp: start_login_section_def section_simps ensure_def dest!: in_bt_insert in_bt_retain split: if_splits)

lemma take_pending_keeps:
  assumes "take_pending env q browser w = (r, w')"
  shows "aw_state w' = aw_state w \<and> aw_codes w' = aw_codes w \<and> set (aw_pending w') \<subseteq> set (aw_pending w)"
  using assms by (auto simp: take_pending_def section_simps ensure_def ok_or_def bt_remove_def split: if_splits option.splits)

lemma put_code_keeps:
  assumes "put_code env request p w = (r, w')"
  shows "aw_state w' = aw_state w \<and> aw_pending w' = aw_pending w \<and>
    (\<forall>e \<in> set (aw_codes w'). e \<in> set (aw_codes w) \<or> gc_request (snd e) = request \<and> gc_principal (snd e) = p)"
  using assms by (auto simp: put_code_def section_simps ensure_def dest!: in_bt_insert in_bt_retain split: if_splits sum.splits)

lemma take_code_keeps:
  assumes "take_code env code w = (r, w')"
  shows "aw_state w' = aw_state w \<and> aw_pending w' = aw_pending w \<and> set (aw_codes w') \<subseteq> set (aw_codes w)"
  using assms by (auto simp: take_code_def section_simps ok_or_def bt_remove_def split: option.splits)

text \<open>Every section keeps the invariant, and what is enrolled or owned stays so.\<close>

lemma pending_ok:
  assumes "auth_ok env w" and "aw_state w' = aw_state w" and "aw_codes w' = aw_codes w"
    and "\<And>e q. e \<in> set (aw_pending w') \<Longrightarrow> e \<notin> set (aw_pending w) \<Longrightarrow> pl_request (snd e) = Some q \<Longrightarrow> request_ok env q"
  shows "auth_ok env w' \<and> grows (aw_state w) (aw_state w')"
  using assms unfolding auth_ok_def by (auto 0 3)

lemma codes_ok:
  assumes "auth_ok env w" and "aw_state w' = aw_state w" and "aw_pending w' = aw_pending w"
    and "\<And>e. e \<in> set (aw_codes w') \<Longrightarrow> e \<notin> set (aw_codes w) \<Longrightarrow> request_ok env (gc_request (snd e)) \<and> known (aw_state w) (gc_principal (snd e))"
  shows "auth_ok env w' \<and> grows (aw_state w) (aw_state w')"
  using assms unfolding auth_ok_def by (auto 0 3)

lemma auth_step_ok:
  assumes "auth_step env w w'" and "lowercase_ok env" and ok: "auth_ok env w"
  shows "auth_ok env w' \<and> grows (aw_state w) (aw_state w')"
  using assms(1)
proof cases
  case (time n)
  then show ?thesis using ok by (simp add: auth_ok_def)
next
  case (enrolling n code nonce verifier c i r)
  from enroll_writes [OF enrolling(5) assms(2) enrolling(1-4)] show ?thesis
    using ok known_grows by (auto simp: auth_ok_def good_def)
next
  case (issuing p client r1)
  show ?thesis by (rule writes_ok [OF issue_writes [OF issuing(1)] issuing(2) ok])
next
  case (registering body r2)
  show ?thesis by (rule writes_ok [OF register_writes [OF registering(1)] registering(2) ok])
next
  case (starting request r3)
  show ?thesis by (rule pending_ok [OF ok]) (use start_login_keeps [OF starting(2)] starting(1) in auto)
next
  case (taking_login q browser r4)
  show ?thesis by (rule pending_ok [OF ok]) (use take_pending_keeps [OF taking_login(1)] in auto)
next
  case (granting request p r5)
  show ?thesis by (rule codes_ok [OF ok]) (use put_code_keeps [OF granting(3)] granting(1,2) in auto)
next
  case (taking_code code r6)
  show ?thesis by (rule codes_ok [OF ok]) (use take_code_keeps [OF taking_code(1)] in auto)
next
  case (creating_vault vid p name r11)
  show ?thesis by (rule writes_ok [OF vault_created_writes [OF creating_vault(1)] creating_vault(3) ok])
qed (rule writes_ok [OF refresh_writes _ ok] writes_ok [OF revoke_writes(1) _ ok] writes_ok [OF revoke_writes(2) _ ok]
      writes_ok [OF created_writes _ ok] writes_ok [OF adopt_writes _ ok]; assumption)+

abbreviation auth_steps :: "auth_env \<Rightarrow> auth_world \<Rightarrow> auth_world \<Rightarrow> bool" where
  "auth_steps env \<equiv> (auth_step env)\<^sup>*\<^sup>*"

lemma auth_steps_ok:
  assumes "auth_steps env w w'" and "lowercase_ok env" and "auth_ok env w"
  shows "auth_ok env w' \<and> grows (aw_state w) (aw_state w')"
  using assms(1)
proof (induction rule: rtranclp_induct)
  case base
  then show ?case using assms(3) by simp
next
  case (step w1 w2)
  then show ?case using auth_step_ok [OF step(2) assms(2)] grows_trans by blast
qed

section \<open>Handlers\<close>

text \<open>Other tasks take steps of the same kind, and the identifiers that are drawn next are new.\<close>

definition others_auth :: "auth_env \<Rightarrow> bool" where
  "others_auth env \<longleftrightarrow> (\<forall>n w. auth_ok env w \<longrightarrow> auth_steps env w (ae_others env n w) \<and> unused env (ae_others env n w))"

text \<open>Run in a well-formed world, a handler takes steps only, and a result it returns has the property.\<close>

definition served :: "auth_env \<Rightarrow> auth_world \<Rightarrow> ('a \<Rightarrow> auth_world \<Rightarrow> bool) \<Rightarrow> (auth_world, 'a) io \<Rightarrow> bool" where
  "served env w P m \<longleftrightarrow> (\<forall>r w'. auth_ok env w \<longrightarrow> m w = (r, w') \<longrightarrow>
     auth_steps env w w' \<and> auth_ok env w' \<and> grows (aw_state w) (aw_state w') \<and> (\<forall>x. r = Inr x \<longrightarrow> P x w'))"

lemma served_bind:
  assumes "served env w P m" and "\<And>x w'. auth_ok env w' \<Longrightarrow> grows (aw_state w) (aw_state w') \<Longrightarrow> auth_steps env w w' \<Longrightarrow> P x w' \<Longrightarrow> served env w' Q (f x)"
  shows "served env w Q (io_bind m f)"
  unfolding served_def
proof (intro allI impI)
  fix r w'
  assume ok: "auth_ok env w" and run: "io_bind m f w = (r, w')"
  obtain x w1 where m: "m w = (x, w1)" by fastforce
  have w1: "auth_steps env w w1" "auth_ok env w1" "grows (aw_state w) (aw_state w1)" "\<And>y. x = Inr y \<Longrightarrow> P y w1"
    using assms(1) ok m unfolding served_def by blast+
  show "auth_steps env w w' \<and> auth_ok env w' \<and> grows (aw_state w) (aw_state w') \<and> (\<forall>x. r = Inr x \<longrightarrow> Q x w')"
  proof (cases x)
    case (Inl e)
    then show ?thesis using run m w1 by (auto simp: io_bind_def)
  next
    case (Inr y)
    then have "f y w1 = (r, w')" using run m by (simp add: io_bind_def)
    then show ?thesis
      using assms(2) [OF w1(2,3,1) w1(4) [OF Inr]] w1(1-3) grows_trans rtranclp_trans [of "auth_step env" w w1 w'] unfolding served_def by blast
  qed
qed

lemma served_lift: "(\<And>x. r = Inr x \<Longrightarrow> P x w) \<Longrightarrow> served env w P (io_lift r)"
  by (simp add: served_def io_lift_def)

lemma served_return: "P x w \<Longrightarrow> served env w P (io_return x)"
  by (simp add: served_def io_return_def)

lemma served_ensure: "(b \<Longrightarrow> served env w P f) \<Longrightarrow> served env w P (io_bind (io_lift (ensure b msg)) (\<lambda>_. f))"
  by (auto simp: served_def io_bind_def io_lift_def ensure_def)

lemma served_ok_or: "(\<And>x. v = Some x \<Longrightarrow> served env w P (f x)) \<Longrightarrow> served env w P (io_bind (io_lift (ok_or v msg)) f)"
  by (auto simp: served_def io_bind_def io_lift_def ok_or_def split: option.splits)

lemma served_calls: "served env w (\<lambda>n w'. aw_state w' = aw_state w \<and> n = aw_calls w) auth_call"
proof -
  have "auth_step env w (w\<lparr>aw_calls := Suc (aw_calls w)\<rparr>)" by (simp add: auth_step.time)
  then show ?thesis by (auto simp: served_def auth_call_def auth_ok_def)
qed

lemma served_now: "served env w (\<lambda>_ w'. aw_state w' = aw_state w) (now env')"
  unfolding now_def by (rule served_bind [OF served_calls]) (auto intro: served_return)

lemma served_try: "served env w P m \<Longrightarrow> served env w (\<lambda>r w'. \<forall>x. r = Inr x \<longrightarrow> P x w') (io_try m)"
  unfolding served_def io_try_def by (auto split: prod.splits sum.splits error.splits)

lemma served_masked:
  assumes "served env w P m"
  shows "served env w P (internal env' m)" and "served env w P (access_denied m)"
  unfolding internal_def access_denied_def by (rule served_bind [OF served_try [OF assms]], auto split: sum.splits intro!: served_lift served_return)+

lemma served_weaken: "served env w P m \<Longrightarrow> (\<And>x w'. P x w' \<Longrightarrow> Q x w') \<Longrightarrow> served env w Q m"
  unfolding served_def by blast

text \<open>A locked section starts in a well-formed world that the others have reached, with new identifiers ahead.\<close>

lemma served_locked:
  assumes others: "others_auth env" and low: "lowercase_ok env"
    and m: "\<And>w1 r w'. auth_ok env w1 \<Longrightarrow> unused env w1 \<Longrightarrow> grows (aw_state w) (aw_state w1) \<Longrightarrow> auth_steps env w w1 \<Longrightarrow> m w1 = (r, w') \<Longrightarrow>
      (w' = w1 \<or> auth_step env w1 w') \<and> (\<forall>x. r = Inr x \<longrightarrow> P x w')"
  shows "served env w P (locked env m)"
  unfolding served_def
proof (intro allI impI)
  fix r w'
  assume ok: "auth_ok env w" and run: "locked env m w = (r, w')"
  let ?w = "w\<lparr>aw_calls := Suc (aw_calls w)\<rparr>" and ?w1 = "ae_others env (aw_calls w) (w\<lparr>aw_calls := Suc (aw_calls w)\<rparr>)"
  have "auth_step env w ?w" by (simp add: auth_step.time)
  moreover have ok': "auth_ok env ?w" using ok by (simp add: auth_ok_def)
  ultimately have steps: "auth_steps env w ?w1" using others unfolding others_auth_def by (meson converse_rtranclp_into_rtranclp)
  note w1 = auth_steps_ok [OF steps low ok]
  have "m ?w1 = (r, w')" using run by (simp add: locked_def)
  then have end': "w' = ?w1 \<or> auth_step env ?w1 w'" "\<forall>x. r = Inr x \<longrightarrow> P x w'"
    using m [OF conjunct1 [OF w1] _ conjunct2 [OF w1] steps] others ok' unfolding others_auth_def by blast+
  then have "auth_steps env w w'" using steps by (meson rtranclp.rtrancl_into_rtrancl)
  then show "auth_steps env w w' \<and> auth_ok env w' \<and> grows (aw_state w) (aw_state w') \<and> (\<forall>x. r = Inr x \<longrightarrow> P x w')"
    using auth_steps_ok [OF _ low ok] end'(2) by blast
qed

section \<open>What the sections return\<close>

lemma bt_insert_has: "(k, v) \<in> set (bt_insert k v m)"
  by (induction k v m rule: bt_insert.induct) auto

lemma find_principal_Some:
  assumes "find_principal P st = Some p" and "identities_ok env st"
  shows "P p \<and> map_of (as_principals st) (pn_id p) = Some p"
proof -
  obtain k where k: "(k, p) \<in> set (as_principals st)" "P p" using assms(1) by (auto simp: find_principal_def dest: find_in_set)
  then show ?thesis using identities_parts(1) [OF assms(2)] identities_parts(5) [OF assms(2) k(1)] by (auto simp: map_of_in)
qed

definition enrolled :: "auth_state \<Rightarrow> oidc_identity \<Rightarrow> principal_record \<Rightarrow> bool" where
  "enrolled st i p \<longleftrightarrow> map_of (as_principals st) (pn_id p) = Some p \<and> same_identity i p"

lemma enroll_new_enrolled:
  assumes "enroll_new env i w = (Inr p, w')" and "identities_ok env (aw_state w)"
  shows "enrolled (aw_state w') i p"
  using assms identities_parts(1) [OF assms(2)]
  by (auto simp: enroll_new_def io_simps auth_call_def Let_def commit_def enrolled_def same_identity_def map_of_bt_insert
      split: sum.splits error.splits if_splits)

lemma enroll_enrolled:
  assumes "enroll_section env i w = (Inr p, w')" and "auth_ok env w"
  shows "enrolled (aw_state w') i p"
proof -
  have ok: "identities_ok env (aw_state w)" using assms(2) by (simp add: auth_ok_def state_wf_def)
  show ?thesis
  proof (cases "find_principal (\<lambda>p. pn_email p = oi_email i) (aw_state w)")
    case (Some q)
    then show ?thesis using assms(1) find_principal_Some [OF Some ok]
      by (auto simp: enroll_section_def io_simps ensure_def enrolled_def split: if_splits)
  next
    case None
    note none = None
    show ?thesis
    proof (cases "find_principal (same_identity i) (aw_state w)")
      case (Some q)
      then show ?thesis using assms(1) none find_principal_Some [OF Some ok]
        by (auto simp: enroll_section_def io_simps ensure_def enrolled_def split: if_splits)
    next
      case None
      then show ?thesis using assms(1) none enroll_new_enrolled [OF _ ok] by (simp add: enroll_section_def io_simps)
    qed
  qed
qed

lemma issue_returns:
  assumes "issue_section env p client w = (Inr ts, w')"
  shows "\<exists>e \<in> set (as_sessions (aw_state w')). sn_principal (snd e) = p \<and> sn_client (snd e) = client \<and> sn_access (snd e) = ae_digest env (tk_access_token ts)"
  using assms by (auto simp: issue_section_def section_simps ensure_def commit_def intro!: bexI [OF _ bt_insert_has] split: if_splits option.splits sum.splits)

lemma put_code_returns:
  assumes "put_code env request p w = (Inr reply, w')"
  shows "\<exists>code. reply = Code_Redirect (az_redirect_uri request) code (az_state request) (server_origin env) \<and>
    (\<exists>g. (ae_digest env code, g) \<in> set (aw_codes w') \<and> gc_request g = request \<and> gc_principal g = p)"
  using assms by (auto simp: put_code_def section_simps ensure_def intro!: exI bt_insert_has split: if_splits sum.splits)

lemma take_pending_returns:
  assumes "take_pending env q browser w = (Inr x, w')"
  shows "(ae_digest env (cq_state q), fst x) \<in> set (aw_pending w) \<and> pl_browser (fst x) = ae_digest env browser \<and> cq_code q = Some (snd x) \<and>
    \<not> cq_error q \<and> ae_digest env (cq_state q) \<notin> fst ` set (aw_pending w')"
  using assms by (auto simp: take_pending_def section_simps ensure_def ok_or_def bt_remove_def dest: map_of_SomeD split: if_splits option.splits
      elim!: bind_eq_Some_conv [THEN iffD1, elim_format])

lemma take_code_returns:
  assumes "take_code env code w = (Inr g, w')"
  shows "(ae_digest env code, g) \<in> set (aw_codes w) \<and> ae_digest env code \<notin> fst ` set (aw_codes w')"
  using assms by (auto simp: take_code_def section_simps ok_or_def bt_remove_def dest: map_of_SomeD split: option.splits)

section \<open>Handlers\<close>

lemma served_enroll:
  assumes "others_auth env" and "lowercase_ok env" and claims: "ae_claims env n code nonce verifier = Inr c" "claims_identity env c = Inr i"
  shows "served env w (\<lambda>p w'. admitted (ae_config env) (oi_email i) \<and> enrolled (aw_state w') i p) (enroll env i)"
  unfolding enroll_def
proof (rule served_ensure, rule served_locked [OF assms(1,2)])
  fix w1 r w'
  assume adm: "admitted (ae_config env) (oi_email i)" and "auth_ok env w1" "unused env w1" "enroll_section env i w1 = (r, w')"
  then show "(w' = w1 \<or> auth_step env w1 w') \<and> (\<forall>p. r = Inr p \<longrightarrow> admitted (ae_config env) (oi_email i) \<and> enrolled (aw_state w') i p)"
    using auth_step.enrolling [OF _ claims adm] enroll_enrolled by blast
qed

lemma served_issue:
  assumes "others_auth env" and "lowercase_ok env" and "known (aw_state w) p"
  shows "served env w (\<lambda>ts w'. \<exists>e \<in> set (as_sessions (aw_state w')). sn_principal (snd e) = p \<and> sn_client (snd e) = client \<and>
    sn_access (snd e) = ae_digest env (tk_access_token ts)) (issue env p client)"
  unfolding issue_def
  by (rule served_locked [OF assms(1,2)]) (use auth_step.issuing [OF known_grows [OF _ assms(3)]] issue_returns in blast)

lemma served_put_code:
  assumes "others_auth env" and "lowercase_ok env" and "known (aw_state w) p" and "request_ok env request"
  shows "served env w (\<lambda>reply w'. \<exists>code. reply = Code_Redirect (az_redirect_uri request) code (az_state request) (server_origin env) \<and>
    (\<exists>g. (ae_digest env code, g) \<in> set (aw_codes w') \<and> gc_request g = request \<and> gc_principal g = p)) (locked env (put_code env request p))"
  by (rule served_locked [OF assms(1,2)]) (use auth_step.granting [OF assms(4) known_grows [OF _ assms(3)]] put_code_returns in blast)

lemma served_identify:
  "served env w (\<lambda>i _. \<exists>n c. ae_claims env n code nonce verifier = Inr c \<and> claims_identity env c = Inr i) (identify env code nonce verifier)"
  unfolding identify_def
proof (rule served_bind [OF served_calls], rule served_bind)
  fix n w1
  show "served env w1 (\<lambda>c _. ae_claims env n code nonce verifier = Inr c) (io_lift (ae_claims env n code nonce verifier))" by (rule served_lift)
  fix c w2
  assume "ae_claims env n code nonce verifier = Inr c"
  then show "served env w2 (\<lambda>i _. \<exists>n c. ae_claims env n code nonce verifier = Inr c \<and> claims_identity env c = Inr i) (io_lift (claims_identity env c))"
    by (intro served_lift) blast
qed

lemma served_take_pending:
  assumes "others_auth env" and "lowercase_ok env"
  shows "served env w (\<lambda>x w'. (\<forall>q. pl_request (fst x) = Some q \<longrightarrow> request_ok env q) \<and> pl_browser (fst x) = ae_digest env browser \<and>
    cq_code query = Some (snd x)) (locked env (take_pending env query browser))"
proof (rule served_locked [OF assms])
  fix w1 r w'
  assume ok: "auth_ok env w1" and run: "take_pending env query browser w1 = (r, w')"
  have "auth_step env w1 w'" by (rule auth_step.taking_login [OF run])
  moreover have "(\<forall>q. pl_request (fst x) = Some q \<longrightarrow> request_ok env q) \<and> pl_browser (fst x) = ae_digest env browser \<and> cq_code query = Some (snd x)"
    if "r = Inr x" for x
    using take_pending_returns [OF run [unfolded that]] ok unfolding auth_ok_def by auto
  ultimately show "(w' = w1 \<or> auth_step env w1 w') \<and> (\<forall>x. r = Inr x \<longrightarrow>
    (\<forall>q. pl_request (fst x) = Some q \<longrightarrow> request_ok env q) \<and> pl_browser (fst x) = ae_digest env browser \<and> cq_code query = Some (snd x))" by blast
qed

lemma enrolled_grows: "grows st st' \<Longrightarrow> enrolled st i p \<Longrightarrow> enrolled st' i p"
  unfolding grows_def enrolled_def map_le_def by (metis domI)

lemma enrolled_known: "enrolled st i p \<Longrightarrow> known st (pn_id p)"
  by (simp add: enrolled_def known_def)

text \<open>What a completed login leaves behind: an enrolled identity that the provider attested for this code, and a code or a session for it.\<close>

definition reply_for :: "auth_env \<Rightarrow> auth_world \<Rightarrow> string \<Rightarrow> auth_reply \<Rightarrow> bool" where
  "reply_for env w p reply \<longleftrightarrow>
     (case reply of
        Code_Redirect uri code state iss \<Rightarrow> loopback_redirect env uri \<and> iss = server_origin env \<and>
          (\<exists>g. (ae_digest env code, g) \<in> set (aw_codes w) \<and> request_ok env (gc_request g) \<and> az_redirect_uri (gc_request g) = uri \<and> gc_principal g = p)
      | Signed_In token \<Rightarrow> (\<exists>e \<in> set (as_sessions (aw_state w)). sn_principal (snd e) = p \<and> sn_client (snd e) = None \<and> sn_access (snd e) = ae_digest env token)
      | _ \<Rightarrow> False)"

definition signed_in :: "auth_env \<Rightarrow> string option \<Rightarrow> auth_reply \<Rightarrow> auth_world \<Rightarrow> bool" where
  "signed_in env answer reply w \<longleftrightarrow> (\<exists>n code nonce verifier c i p. answer = Some code \<and> ae_claims env n code nonce verifier = Inr c \<and>
     claims_identity env c = Inr i \<and> admitted (ae_config env) (oi_email i) \<and> enrolled (aw_state w) i p \<and> reply_for env w (pn_id p) reply)"

lemma signed_inI:
  "answer = Some code \<Longrightarrow> ae_claims env n code nonce verifier = Inr c \<Longrightarrow> claims_identity env c = Inr i \<Longrightarrow> admitted (ae_config env) (oi_email i) \<Longrightarrow>
    enrolled (aw_state w) i p \<Longrightarrow> reply_for env w (pn_id p) reply \<Longrightarrow> signed_in env answer reply w"
  unfolding signed_in_def by (intro exI conjI)

lemma served_finish:
  assumes env: "others_auth env" "lowercase_ok env" and p: "enrolled (aw_state w) i p"
    and request: "\<And>q. request = Some q \<Longrightarrow> request_ok env q"
  shows "served env w (\<lambda>reply w'. reply_for env w' (pn_id p) reply)
    (case request of
       Some request \<Rightarrow> locked env (put_code env request (pn_id p))
     | None \<Rightarrow> io_bind (internal env (issue env (pn_id p) None)) (\<lambda>ts. io_return (Signed_In (tk_access_token ts))))"
proof (cases request)
  case (Some q)
  have "served env w (\<lambda>reply w'. reply_for env w' (pn_id p) reply) (locked env (put_code env q (pn_id p)))"
    by (rule served_weaken [OF served_put_code [OF env enrolled_known [OF p] request [OF Some]]])
       (use request [OF Some] in \<open>auto simp: reply_for_def request_ok_def\<close>)
  then show ?thesis by (simp add: Some)
next
  case None
  have "served env w (\<lambda>reply w'. reply_for env w' (pn_id p) reply)
      (io_bind (internal env (issue env (pn_id p) None)) (\<lambda>ts. io_return (Signed_In (tk_access_token ts))))"
    by (rule served_bind [OF served_masked(1) [OF served_issue [OF env enrolled_known [OF p], of None]]], rule served_return) (simp add: reply_for_def)
  then show ?thesis by (simp add: None)
qed

lemma served_callback:
  assumes env: "others_auth env" "lowercase_ok env"
  shows "served env w (signed_in env (cq_code q)) (callback env cookie q)"
  unfolding callback_def
proof (rule served_ok_or, rule served_bind [OF served_take_pending [OF env]])
  fix browser x w1
  assume x: "(\<forall>r. pl_request (fst x) = Some r \<longrightarrow> request_ok env r) \<and> pl_browser (fst x) = ae_digest env browser \<and> cq_code q = Some (snd x)"
  obtain pending code where pair: "x = (pending, code)" by fastforce
  have "served env w1 (signed_in env (cq_code q)) (io_bind (access_denied (identify env code (pl_nonce pending) (pl_verifier pending))) (\<lambda>identity.
     io_bind (access_denied (enroll env identity)) (\<lambda>p.
     case pl_request pending of
       Some request \<Rightarrow> locked env (put_code env request (pn_id p))
     | None \<Rightarrow> io_bind (internal env (issue env (pn_id p) None)) (\<lambda>ts. io_return (Signed_In (tk_access_token ts))))))"
  proof (rule served_bind [OF served_masked(2) [OF served_identify]], elim exE conjE)
    fix i w2 n c
    assume claims: "ae_claims env n code (pl_nonce pending) (pl_verifier pending) = Inr c" "claims_identity env c = Inr i"
    show "served env w2 (signed_in env (cq_code q)) (io_bind (access_denied (enroll env i)) (\<lambda>p.
     case pl_request pending of
       Some request \<Rightarrow> locked env (put_code env request (pn_id p))
     | None \<Rightarrow> io_bind (internal env (issue env (pn_id p) None)) (\<lambda>ts. io_return (Signed_In (tk_access_token ts)))))"
    proof (rule served_bind [OF served_masked(2) [OF served_enroll [OF env claims]]], elim conjE)
      fix p :: principal_record and w3 :: auth_world
      assume p: "admitted (ae_config env) (oi_email i)" "enrolled (aw_state w3) i p"
      have done': "served env w3 (\<lambda>reply w'. reply_for env w' (pn_id p) reply \<and> enrolled (aw_state w') i p)
          (case pl_request pending of
             Some request \<Rightarrow> locked env (put_code env request (pn_id p))
           | None \<Rightarrow> io_bind (internal env (issue env (pn_id p) None)) (\<lambda>ts. io_return (Signed_In (tk_access_token ts))))"
        using served_finish [OF env p(2), of "pl_request pending"] x enrolled_grows [OF _ p(2)] unfolding served_def pair by simp
      show "served env w3 (signed_in env (cq_code q)) (case pl_request pending of
             Some request \<Rightarrow> locked env (put_code env request (pn_id p))
           | None \<Rightarrow> io_bind (internal env (issue env (pn_id p) None)) (\<lambda>ts. io_return (Signed_In (tk_access_token ts))))"
        by (rule served_weaken [OF done'], rule signed_inI [where p = p, OF _ claims p(1)]) (use x pair in simp_all)
    qed
  qed
  then show "served env w1 (signed_in env (cq_code q)) (case x of (pending, code) \<Rightarrow>
     io_bind (access_denied (identify env code (pl_nonce pending) (pl_verifier pending))) (\<lambda>identity.
     io_bind (access_denied (enroll env identity)) (\<lambda>p.
     case pl_request pending of
       Some request \<Rightarrow> locked env (put_code env request (pn_id p))
     | None \<Rightarrow> io_bind (internal env (issue env (pn_id p) None)) (\<lambda>ts. io_return (Signed_In (tk_access_token ts))))))" by (simp add: pair)
qed

text \<open>A login starts for a request that a registered client made with one of its own loopback addresses.\<close>

lemma check_authorization_ok:
  assumes "check_authorization env q w = (Inr u, w')" and "auth_ok env w"
  shows "request_ok env q"
proof -
  obtain client where client: "map_of (as_clients (aw_state w)) (az_client_id q) = Some client" "authorization_ok env client q"
    using assms(1) by (auto simp: check_authorization_def section_simps ok_or_def ensure_def split: option.splits if_splits
        elim!: bind_eq_Some_conv [THEN iffD1, elim_format])
  have "list_all (loopback_redirect env) (ct_redirect_uris client)"
    using wf_parts(3) [OF _ map_of_SomeD [OF client(1)]] assms(2) by (simp add: auth_ok_def)
  then show ?thesis using client(2) by (auto simp: authorization_ok_def request_ok_def list_all_iff)
qed

lemma check_authorization_quiet: "check_authorization env q w = (r, w') \<Longrightarrow> w' = w\<lparr>aw_calls := aw_calls w'\<rparr> \<and> aw_calls w \<le> aw_calls w'"
  by (auto simp: check_authorization_def section_simps ok_or_def ensure_def split: option.splits if_splits sum.splits)

lemma find_session_quiet: "find_session env hash w = (r, w') \<Longrightarrow> w' = w\<lparr>aw_calls := aw_calls w'\<rparr> \<and> aw_calls w \<le> aw_calls w'"
  by (auto simp: find_session_def section_simps ok_or_def split: option.splits)

lemma session_principal_quiet:
  "session_principal_section env sid w = (r, w') \<Longrightarrow> w' = w\<lparr>aw_calls := aw_calls w'\<rparr> \<and> aw_calls w \<le> aw_calls w'"
  by (auto simp: session_principal_section_def section_simps ok_or_def ensure_def split: option.splits if_splits sum.splits)

lemma quiet_step: "w' = w\<lparr>aw_calls := aw_calls w'\<rparr> \<and> aw_calls w \<le> aw_calls w' \<Longrightarrow> auth_step env w w'"
  by (metis auth_step.time)

lemma served_start_login:
  assumes "others_auth env" and "lowercase_ok env" and "\<And>q. request = Some q \<Longrightarrow> request_ok env q"
  shows "served env w (\<lambda>_ _. True) (start_login env request)"
  unfolding start_login_def by (rule served_locked [OF assms(1,2)]) (use auth_step.starting [OF assms(3)] in blast)

lemma served_authorize:
  assumes "others_auth env" and "lowercase_ok env"
  shows "served env w (\<lambda>_ _. True) (authorize_client env q)"
  unfolding authorize_client_def
proof (rule served_bind)
  show "served env w (\<lambda>_ _. request_ok env q) (locked env (check_authorization env q))"
    by (rule served_locked [OF assms]) (use check_authorization_ok quiet_step [OF check_authorization_quiet] in blast)
qed (rule served_start_login [OF assms], simp)

lemma served_register:
  assumes "others_auth env" and "lowercase_ok env"
  shows "served env w (\<lambda>_ _. True) (register_client env body)"
  unfolding register_client_def
  by (rule served_ensure, rule served_locked [OF assms]) (use auth_step.registering in blast)

section \<open>Sessions\<close>

text \<open>A token opens a session only while the session is stored with its digest.\<close>

lemma find_session_found:
  assumes "find_session env hash w = (Inr sid, w')"
  shows "\<exists>s n. (sid, s) \<in> set (as_sessions (aw_state w')) \<and> sn_access s = hash \<and> ae_now env n < sn_access_expires s"
  using assms by (auto simp: find_session_def section_simps ok_or_def dest!: find_in_set split: option.splits) blast

lemma session_principal_found:
  assumes "session_principal_section env sid w = (Inr p, w')"
  shows "\<exists>s n rec. map_of (as_sessions (aw_state w')) sid = Some s \<and> ae_now env n < sn_expires s \<and>
    map_of (as_principals (aw_state w')) (sn_principal s) = Some rec \<and> admitted (ae_config env) (pn_email rec) \<and> p = pn_id rec"
  using assms by (auto simp: session_principal_section_def section_simps ok_or_def ensure_def split: option.splits if_splits
      elim!: bind_eq_Some_conv [THEN iffD1, elim_format])

text \<open>The token of a request, and what is left of it when the request is let through.\<close>

definition request_token :: "auth_request \<Rightarrow> string option" where
  "request_token q = (case rq_bearer q of Some t \<Rightarrow> Some t | None \<Rightarrow> rq_cookie q)"

definition session_found :: "auth_env \<Rightarrow> string \<Rightarrow> string \<Rightarrow> auth_world \<Rightarrow> bool" where
  "session_found env token sid w \<longleftrightarrow> (\<exists>s n. (sid, s) \<in> set (as_sessions (aw_state w)) \<and> sn_access s = ae_digest env token \<and>
     ae_now env n < sn_access_expires s)"

definition session_of :: "auth_env \<Rightarrow> string \<Rightarrow> string \<Rightarrow> auth_world \<Rightarrow> bool" where
  "session_of env sid p w \<longleftrightarrow> (\<exists>s n rec. map_of (as_sessions (aw_state w)) sid = Some s \<and> ae_now env n < sn_expires s \<and> sn_principal s = p \<and>
     map_of (as_principals (aw_state w)) p = Some rec \<and> pn_id rec = p \<and> attested env rec \<and> admitted (ae_config env) (pn_email rec))"

lemma session_principal_of:
  assumes "session_principal_section env sid w = (Inr p, w')" and "auth_ok env w'"
  shows "session_of env sid p w'"
proof -
  obtain s n rec where s: "map_of (as_sessions (aw_state w')) sid = Some s" "ae_now env n < sn_expires s"
    "map_of (as_principals (aw_state w')) (sn_principal s) = Some rec" "admitted (ae_config env) (pn_email rec)" "p = pn_id rec"
    using session_principal_found [OF assms(1)] by blast
  have "identities_ok env (aw_state w')" using assms(2) by (simp add: auth_ok_def state_wf_def)
  from identities_parts(5) [OF this map_of_SomeD [OF s(3)]] have "sn_principal s = p" "attested env rec" using s(5) by (auto simp: principal_ok_def)
  then show ?thesis unfolding session_of_def using s by (intro exI [of _ s] exI [of _ n] exI [of _ rec]) simp
qed

lemma served_session_principal:
  assumes "others_auth env" and "lowercase_ok env"
  shows "served env w (\<lambda>p w'. session_of env sid p w') (session_principal env sid)"
  unfolding session_principal_def
proof (rule served_locked [OF assms])
  fix w1 r w'
  assume ok: "auth_ok env w1" and run: "session_principal_section env sid w1 = (r, w')"
  have step: "auth_step env w1 w'" by (rule quiet_step [OF session_principal_quiet [OF run]])
  then have "auth_ok env w'" using auth_step_ok [OF _ assms(2) ok] by blast
  then show "(w' = w1 \<or> auth_step env w1 w') \<and> (\<forall>p. r = Inr p \<longrightarrow> session_of env sid p w')"
    using step session_principal_of run by blast
qed

definition authenticated :: "auth_env \<Rightarrow> auth_request \<Rightarrow> auth_world \<Rightarrow> string \<times> string \<Rightarrow> auth_world \<Rightarrow> bool" where
  "authenticated env q w x w' \<longleftrightarrow>
     (rq_bearer q \<noteq> None \<or> rq_reads q \<or> rq_origin q = Some (server_origin env) \<and> rq_csrf q = Some ''1'') \<and>
     (\<exists>token w1. request_token q = Some token \<and> auth_steps env w w1 \<and> auth_steps env w1 w' \<and> auth_ok env w1 \<and> session_found env token (snd x) w1) \<and>
     session_of env (snd x) (fst x) w'"

lemma served_authenticate:
  assumes "others_auth env" and "lowercase_ok env"
  shows "served env w (authenticated env q w) (authenticate env q)"
  unfolding authenticate_def
proof (rule served_ensure, rule served_ok_or, rule served_bind)
  fix token
  assume allowed: "rq_bearer q \<noteq> None \<or> rq_reads q \<or> rq_origin q = Some (server_origin env) \<and> rq_csrf q = Some ''1''"
    and token: "(case rq_bearer q of Some t \<Rightarrow> Some t | None \<Rightarrow> rq_cookie q) = Some token"
  show "served env w (session_found env token) (locked env (find_session env (ae_digest env token)))"
    by (rule served_locked [OF assms]) (use find_session_found quiet_step [OF find_session_quiet] session_found_def in blast)
  fix sid w1
  assume w1: "auth_ok env w1" "auth_steps env w w1" "session_found env token sid w1"
  have last: "served env w1 (\<lambda>p w'. session_of env sid p w' \<and> auth_steps env w1 w') (session_principal env sid)"
    using served_session_principal [OF assms, of w1 sid] unfolding served_def by blast
  show "served env w1 (authenticated env q w) (io_bind (session_principal env sid) (\<lambda>p. io_return (p, sid)))"
    by (rule served_bind [OF last], rule served_return) (use allowed token w1 in \<open>auto simp: authenticated_def request_token_def\<close>)
qed

section \<open>Tokens\<close>

text \<open>Tokens for a code: the code was granted, unexpired, for this client, address and resource, and the verifier answers its challenge.\<close>

definition redeemed :: "auth_env \<Rightarrow> string \<Rightarrow> string \<Rightarrow> string \<Rightarrow> string \<Rightarrow> auth_world \<Rightarrow> auth_reply \<Rightarrow> auth_world \<Rightarrow> bool" where
  "redeemed env code client_id redirect_uri verifier w reply w' \<longleftrightarrow> (\<exists>w1 g n ts. auth_steps env w w1 \<and> (ae_digest env code, g) \<in> set (aw_codes w1) \<and>
     ae_now env n < gc_expires g \<and> az_client_id (gc_request g) = client_id \<and> az_redirect_uri (gc_request g) = redirect_uri \<and> request_ok env (gc_request g) \<and>
     ae_pkce env (az_code_challenge (gc_request g)) verifier \<and> known (aw_state w') (gc_principal g) \<and> reply = Token_Reply ts \<and>
     (\<exists>e \<in> set (as_sessions (aw_state w')). sn_principal (snd e) = gc_principal g \<and> sn_client (snd e) = Some client_id \<and>
        sn_access (snd e) = ae_digest env (tk_access_token ts)))"

definition code_taken :: "auth_env \<Rightarrow> string \<Rightarrow> auth_world \<Rightarrow> grant_code \<Rightarrow> auth_world \<Rightarrow> bool" where
  "code_taken env code w g w' \<longleftrightarrow> (\<exists>w1. auth_steps env w w1 \<and> (ae_digest env code, g) \<in> set (aw_codes w1)) \<and> request_ok env (gc_request g) \<and>
     known (aw_state w') (gc_principal g) \<and> ae_digest env code \<notin> fst ` set (aw_codes w')"

lemma served_take_code:
  assumes "others_auth env" and "lowercase_ok env"
  shows "served env w (code_taken env code w) (locked env (take_code env code))"
proof (rule served_locked [OF assms])
  fix w1 r w'
  assume ok: "auth_ok env w1" and steps: "auth_steps env w w1" and run: "take_code env code w1 = (r, w')"
  have "code_taken env code w g w'" if "r = Inr g" for g
    using take_code_returns [OF run [unfolded that]] take_code_keeps [OF run] ok steps unfolding auth_ok_def code_taken_def by fastforce
  then show "(w' = w1 \<or> auth_step env w1 w') \<and> (\<forall>g. r = Inr g \<longrightarrow> code_taken env code w g w')" using auth_step.taking_code [OF run] by blast
qed

lemma served_clock: "served env w (\<lambda>t w'. aw_state w' = aw_state w \<and> (\<exists>n. t = ae_now env n)) (now env)"
  unfolding now_def by (rule served_bind [OF served_calls]) (auto intro: served_return)

lemma served_redeem:
  assumes env: "others_auth env" "lowercase_ok env"
  shows "served env w (redeemed env code client_id redirect_uri verifier w) (exchange_token env (Authorization_Code code client_id redirect_uri verifier resource))"
  unfolding exchange_token.simps
proof (rule served_bind [OF served_take_code [OF env]], rule served_bind [OF served_clock], elim conjE exE, intro served_ensure, elim conjE)
  fix g :: grant_code and w1 w2 :: auth_world and t n
  assume taken: "code_taken env code w g w1" and same: "aw_state w2 = aw_state w1" and t: "t = ae_now env n" "t < gc_expires g"
    and req: "az_client_id (gc_request g) = client_id" "az_redirect_uri (gc_request g) = redirect_uri"
    and pkce: "ae_pkce env (az_code_challenge (gc_request g)) verifier"
  have known: "known (aw_state w2) (gc_principal g)" using taken same by (simp add: code_taken_def)
  have issued: "served env w2 (\<lambda>ts w'. (\<exists>e \<in> set (as_sessions (aw_state w')). sn_principal (snd e) = gc_principal g \<and> sn_client (snd e) = Some client_id \<and>
      sn_access (snd e) = ae_digest env (tk_access_token ts)) \<and> known (aw_state w') (gc_principal g)) (issue env (gc_principal g) (Some client_id))"
    using served_issue [OF env known, of "Some client_id"] known_grows [OF _ known] unfolding served_def by blast
  show "served env w2 (redeemed env code client_id redirect_uri verifier w)
      (io_bind (internal env (issue env (gc_principal g) (Some client_id))) (\<lambda>ts. io_return (Token_Reply ts)))"
    by (rule served_bind [OF served_masked(1) [OF issued]], rule served_return)
       (use taken t req pkce in \<open>unfold code_taken_def redeemed_def, blast\<close>)
qed

lemma served_refresh:
  assumes env: "others_auth env" "lowercase_ok env"
  shows "served env w (\<lambda>_ _. True) (exchange_token env (Refresh_Token token client_id resource scope))"
  unfolding exchange_token.simps
proof (rule served_ensure, rule served_bind)
  show "served env w (\<lambda>_ _. True) (locked env (refresh_session env token client_id))"
    by (rule served_locked [OF env]) (use auth_step.refreshing in blast)
qed (rule served_return, simp)

lemma served_exchange:
  assumes "others_auth env" and "lowercase_ok env"
  shows "served env w (\<lambda>_ _. True) (exchange_token env request)"
proof (cases request)
  case (Authorization_Code code client_id redirect_uri verifier resource)
  show ?thesis unfolding Authorization_Code by (rule served_weaken [OF served_redeem [OF assms]]) simp
next
  case (Refresh_Token token client_id resource scope)
  show ?thesis unfolding Refresh_Token by (rule served_refresh [OF assms])
qed

lemma served_revoke:
  assumes env: "others_auth env" "lowercase_ok env"
  shows "served env w (\<lambda>_ _. True) (revoke env token client_id)" and "served env w (\<lambda>_ _. True) (logout env q)"
proof -
  have "served env w (\<lambda>_ _. True) (locked env (revoke_section env token client_id))"
    by (rule served_locked [OF env]) (use auth_step.revoking in blast)
  then show "served env w (\<lambda>_ _. True) (revoke env token client_id)"
    unfolding revoke_def by (rule served_bind) (simp add: served_return)
  have leave: "served env w' (\<lambda>_ _. True) (locked env (logout_section env cookie))" for cookie w'
    by (rule served_locked [OF env]) (use auth_step.leaving in blast)
  show "served env w (\<lambda>_ _. True) (logout env q)"
    unfolding logout_def
    by (rule served_bind [OF served_try [OF served_authenticate [OF env]]])
       (auto split: sum.split intro!: served_lift served_ok_or served_bind [OF leave] served_return)
qed

lemma served_policy:
  assumes env: "others_auth env" "lowercase_ok env"
  shows "served env w (\<lambda>_ _. True) (policy_created env multiplayer p scope)" and "served env w (\<lambda>_ _. True) (adopt_local_state env agents vaults)"
proof -
  have check: "served env w (\<lambda>_ _. True) (locked env (\<lambda>w. io_lift (policy_check env multiplayer (aw_state w) p Global) w))"
    by (rule served_locked [OF env]) (simp add: io_lift_def)
  have create: "served env w' (\<lambda>_ _. True) (locked env (created_section env p scope))" for w'
    by (rule served_locked [OF env]) (use auth_step.creating in blast)
  show "served env w (\<lambda>_ _. True) (policy_created env multiplayer p scope)" unfolding policy_created_def by (rule served_bind [OF check create])
  show "served env w (\<lambda>_ _. True) (adopt_local_state env agents vaults)"
    unfolding adopt_local_state_def by (rule served_locked [OF env]) (use auth_step.adopting in blast)
qed

section \<open>Requests\<close>

text \<open>What makes the server act on its state: the routes of \<open>configure\<close>, and three calls that are not routes: the
  authentication of every other request by the middleware, the record of what an authenticated request created, and the
  adoption of local state when the server starts.\<close>

datatype server_request =
    Register_Client registration
  | Authorize authorization_request
  | Login
  | Callback "string option" callback_query
  | Exchange_Token token_request
  | Revoke string string
  | Logout auth_request
  | Authenticate auth_request
  | Created bool string resource_scope
  | Adopt "(uuid \<times> uuid list) list" "vault_record list"

fun serve :: "auth_env \<Rightarrow> server_request \<Rightarrow> auth_world \<Rightarrow> auth_world" where
  "serve env (Register_Client body) w = snd (register_client env body w)"
| "serve env (Authorize q) w = snd (authorize_client env q w)"
| "serve env Login w = snd (login env w)"
| "serve env (Callback cookie q) w = snd (callback env cookie q w)"
| "serve env (Exchange_Token request) w = snd (exchange_token env request w)"
| "serve env (Revoke token client_id) w = snd (revoke env token client_id w)"
| "serve env (Logout q) w = snd (logout env q w)"
| "serve env (Authenticate q) w = snd (authenticate env q w)"
| "serve env (Created multiplayer p scope) w = snd (policy_created env multiplayer p scope w)"
| "serve env (Adopt agents vaults) w = snd (adopt_local_state env agents vaults w)"

lemma served_world:
  "served env w P m \<Longrightarrow> auth_ok env w \<Longrightarrow> auth_steps env w (snd (m w)) \<and> auth_ok env (snd (m w)) \<and> grows (aw_state w) (aw_state (snd (m w)))"
  unfolding served_def by (metis prod.collapse)

lemma served_login: "others_auth env \<Longrightarrow> lowercase_ok env \<Longrightarrow> served env w (\<lambda>_ _. True) (login env)"
  unfolding login_def by (rule served_start_login) simp_all

lemma serve_ok:
  assumes env: "others_auth env" "lowercase_ok env" and ok: "auth_ok env w"
  shows "auth_steps env w (serve env request w) \<and> auth_ok env (serve env request w) \<and> grows (aw_state w) (aw_state (serve env request w))"
proof (cases request)
  case (Authenticate q)
  show ?thesis unfolding Authenticate serve.simps by (rule served_world [OF served_authenticate [OF env] ok])
next
  case (Callback cookie q)
  show ?thesis unfolding Callback serve.simps by (rule served_world [OF served_callback [OF env] ok])
qed (simp_all only: serve.simps, (rule served_world [OF served_register [OF env] ok] served_world [OF served_authorize [OF env] ok]
      served_world [OF served_login [OF env] ok] served_world [OF served_exchange [OF env] ok] served_world [OF served_revoke(1) [OF env] ok]
      served_world [OF served_revoke(2) [OF env] ok] served_world [OF served_policy(1) [OF env] ok] served_world [OF served_policy(2) [OF env] ok])+)

lemma serve_all_ok:
  assumes env: "others_auth env" "lowercase_ok env" and "auth_ok env w"
  shows "auth_ok env (fold (serve env) requests w) \<and> grows (aw_state w) (aw_state (fold (serve env) requests w))"
  using assms(3)
proof (induction requests arbitrary: w)
  case (Cons request requests)
  then show ?case using serve_ok [OF env Cons(2), of request] grows_trans by fastforce
qed simp

lemma opened_ok:
  assumes "open_auth_state env None w0 = (Inr st, w1)"
  shows "auth_ok env (w1\<lparr>aw_state := st, aw_pending := [], aw_codes := []\<rparr>)"
  using assms by (auto simp: open_auth_state_def section_simps auth_ok_def state_wf_def identities_ok_def bt_ok_def split: sum.splits)

end
