(* ===== verification/Vault_Mirror.thy ===== *)
theory Vault_Mirror
  imports Vault_Laws
begin

text \<open>
  The two kinds of storage of \<^verbatim>\<open>crates/exoharness/src/vault/local.rs\<close> compared: a store in memory and a store in a file that
  hold the same catalog answer every request alike. The comparison is a relation between worlds that every step of every
  operation keeps.
\<close>

section \<open>The relation\<close>

definition mirrors :: "vault_world \<Rightarrow> vault_world \<Rightarrow> bool" where
  "mirrors w w' \<longleftrightarrow> storage_view w \<noteq> None \<and> storage_view w' = storage_view w \<and> vw_checked w' = vw_checked w \<and> vw_calls w' = vw_calls w"

definition mirrored :: "(vault_world, 'a) io \<Rightarrow> bool" where
  "mirrored m \<longleftrightarrow> (\<forall>w w'. mirrors w w' \<longrightarrow> fst (m w') = fst (m w) \<and> mirrors (snd (m w)) (snd (m w')))"

lemma mirrored_pure: "mirrored (io_return x)" "mirrored (io_lift r)"
  by (simp_all add: mirrored_def io_return_def io_lift_def)

lemma mirrored_bind:
  assumes "mirrored m" and "\<And>x. mirrored (f x)"
  shows "mirrored (io_bind m f)"
  unfolding mirrored_def
proof (intro allI impI)
  fix w w' assume "mirrors w w'"
  then have m: "fst (m w') = fst (m w)" "mirrors (snd (m w)) (snd (m w'))" using assms(1) by (simp_all add: mirrored_def)
  show "fst (io_bind m f w') = fst (io_bind m f w) \<and> mirrors (snd (io_bind m f w)) (snd (io_bind m f w'))"
    using m assms(2) by (cases "m w"; cases "m w'"; cases "fst (m w)") (auto simp: io_bind_def mirrored_def)
qed

lemma mirrored_call: "mirrored vault_call"
  by (simp add: mirrored_def vault_call_def mirrors_def storage_view_def)

lemma mirrored_checks: "mirrored (io_read (\<lambda>w. f (vw_checked w)))"
  by (simp add: mirrored_def io_read_def mirrors_def)

lemma mirrored_remember: "mirrored (io_modify (\<lambda>w. w\<lparr>vw_checked := f (vw_checked w)\<rparr>))"
  by (simp add: mirrored_def io_modify_def mirrors_def storage_view_def)

lemma mirrored_option: "mirrored a \<Longrightarrow> (\<And>y. mirrored (f y)) \<Longrightarrow> mirrored (case x of None \<Rightarrow> a | Some y \<Rightarrow> f y)"
  by (cases x) simp_all

lemma mirrored_if: "mirrored a \<Longrightarrow> mirrored b \<Longrightarrow> mirrored (if c then a else b)"
  by simp

lemma mirrored_pair: "(\<And>a b. mirrored (f a b)) \<Longrightarrow> mirrored (case x of (a, b) \<Rightarrow> f a b)"
  by (cases x) simp

lemmas mirrored_intros = mirrored_bind mirrored_pure mirrored_call mirrored_checks mirrored_remember mirrored_option mirrored_if mirrored_pair

section \<open>Access\<close>

text \<open>The lock and the file system answer, and the others do the same to both kinds of storage.\<close>

definition files_ok :: "'k vault_env \<Rightarrow> bool" where
  "files_ok env \<longleftrightarrow> (\<forall>n. ve_lock env n = Ok () \<and> ve_persist env n = Ok () \<and> ve_sync env n = Ok ())"

definition others_mirror :: "'k vault_env \<Rightarrow> bool" where
  "others_mirror env \<longleftrightarrow> (\<forall>n w w'. mirrors w w' \<longrightarrow> mirrors (ve_others env n w) (ve_others env n w'))"

lemma access_runs:
  assumes "files_ok env" and "atomic m" and "write \<or> io_keeps ticks m" and "storage_view (met env w) = Some c"
    and "m (vault_state c (met env w)) = (r, s)"
  shows "\<exists>w'. access env write m w = (r, w') \<and> storage_view w' = Some (cs_catalog s) \<and> vw_calls w' = cs_calls s \<and>
    vw_checked w' = vw_checked (met env w)"
proof (cases "vw_storage (met env w)")
  case (Memory c')
  then show ?thesis using assms(4,5) by (auto simp: access_met access_memory_def storage_view_def vault_state_def)
next
  case (File doc)
  let ?w = "met env w"
  have known: "read_catalog env doc \<lparr> cs_catalog = [], cs_calls = vw_calls ?w \<rparr> = (Ok (c, False), \<lparr> cs_catalog = [], cs_calls = vw_calls ?w \<rparr>)"
    using assms(4) File by (cases doc) (auto simp: storage_view_def read_catalog_def io_return_def)
  have ok: "ve_lock env n = Ok ()" "ve_persist env n = Ok ()" "ve_sync env n = Ok ()" for n
    using assms(1) by (simp_all add: files_ok_def)
  have same: "cs_catalog s = c" if "\<not> write \<or> (\<exists>e. r = Inl e)"
    using that assms(2,3,5) ticks_run [of m "vault_state c ?w" r s] unfolding atomic_def ticks_def by (auto simp: vault_state_def)
  have run: "access env write m w = (if \<not> write then (r, ?w\<lparr>vw_calls := cs_calls s\<rparr>)
      else (case r of Inl e \<Rightarrow> (Inl e, ?w\<lparr>vw_calls := cs_calls s\<rparr>) | Inr x \<Rightarrow> replace_file env x s ?w))"
    using File known ok(1) [of "vw_calls ?w"] assms(5) by (auto simp: access_met access_file_def Let_def vault_state_def)
  have replaced: "replace_file env x s ?w = (Ok x, ?w\<lparr>vw_calls := cs_calls s, vw_storage := File (Catalog_File (cs_catalog s))\<rparr>)" for x
    using ok(2,3) [of "cs_calls s"] by (auto simp: replace_file_def Let_def)
  have kept: "storage_view (?w\<lparr>vw_calls := cs_calls s\<rparr>) = Some c" using assms(4) by (simp add: storage_view_def)
  show ?thesis unfolding run replaced using same kept by (cases r) (auto simp: storage_view_def)
qed

lemma mirrored_access:
  assumes "files_ok env" and "others_mirror env" and "atomic m" and "write \<or> io_keeps ticks m"
  shows "mirrored (access env write m)"
  unfolding mirrored_def
proof (intro allI impI)
  fix w w' assume both: "mirrors w w'"
  then have "mirrors (w\<lparr>vw_calls := Suc (vw_calls w)\<rparr>) (w'\<lparr>vw_calls := Suc (vw_calls w')\<rparr>)" by (simp add: mirrors_def storage_view_def)
  then have "mirrors (ve_others env n (w\<lparr>vw_calls := Suc (vw_calls w)\<rparr>)) (ve_others env n (w'\<lparr>vw_calls := Suc (vw_calls w')\<rparr>))" for n
    using assms(2) unfolding others_mirror_def by blast
  moreover have "vw_calls w' = vw_calls w" using both by (simp add: mirrors_def)
  ultimately have met: "mirrors (met env w) (met env w')" unfolding met_def by simp
  then obtain c where c: "storage_view (met env w) = Some c" "storage_view (met env w') = Some c" by (auto simp: mirrors_def)
  obtain r s where run: "m (vault_state c (met env w)) = (r, s)" by fastforce
  moreover have "vault_state c (met env w') = vault_state c (met env w)" using met by (simp add: vault_state_def mirrors_def)
  ultimately have run': "m (vault_state c (met env w')) = (r, s)" by simp
  show "fst (access env write m w') = fst (access env write m w) \<and> mirrors (snd (access env write m w)) (snd (access env write m w'))"
    using access_runs [OF assms(1,3,4) c(1) run] access_runs [OF assms(1,3,4) c(2) run'] met by (auto simp: mirrors_def)
qed

section \<open>Requests\<close>

lemma mirrored_reader:
  assumes "files_ok env" and "others_mirror env" and "io_keeps ticks m"
  shows "mirrored (access env False m)"
  using assms by (intro mirrored_access atomic_ticks disjI2)

lemma mirrored_writers:
  assumes "files_ok env" and "others_mirror env"
  shows "mirrored (access env True (ensure_global env))" "mirrored (access env True (create_vault_op env name))"
    "mirrored (access env True (delete_vault_op env vid))" "mirrored (access env True (put_secret_op env vid request))"
    "mirrored (access env True (update_secret_op env vid sid change))" "mirrored (access env True (delete_secret_op env vid sid))"
    "mirrored (access env True (rotate_op env vid sid expected secret))"
    "mirrored (access env True (import_secret_op env vid metadata secret))"
  by (intro mirrored_access assms atomic_writers atomic_import disjI1 TrueI)+

lemma mirrored_read_for_destination:
  "files_ok env \<Longrightarrow> others_mirror env \<Longrightarrow> mirrored (read_for_destination env h sid target)"
  unfolding read_for_destination_def by (intro mirrored_intros mirrored_reader ticks_readers)

lemma mirrored_parts:
  "mirrored (needs_refresh env secret)" "mirrored (github_cache_fresh env sid revision)"
  "mirrored (new_secret env secret)" "mirrored (remember_checked env sid revision)"
  unfolding needs_refresh_def github_cache_fresh_def new_secret_def oauth_refresh_secret_def remember_checked_def
  by ((intro mirrored_intros | cases secret; simp add: mirrored_intros)+)

lemma mirrored_refresh:
  assumes "files_ok env" and "others_mirror env"
  shows "mirrored (refresh_secret env h sid target rejected force)"
  unfolding refresh_secret_def replace_rejected_def settle_refresh_def
  by (intro mirrored_intros mirrored_read_for_destination mirrored_writers mirrored_parts assms)

lemma mirrored_perform:
  assumes "files_ok env" and "others_mirror env"
  shows "mirrored (vault_perform env request)"
  by (cases request; simp only: vault_perform.simps answering_def create_vault_def global_vault_def list_vaults_def get_vault_def
      delete_vault_def list_secrets_def put_secret_def get_secret_def update_secret_def delete_secret_def resolve_credentials_def import_secret_def)
     (intro mirrored_intros mirrored_writers mirrored_reader ticks_readers ticks_pure mirrored_refresh mirrored_read_for_destination
        mirrored_parts assms)+

text \<open>The answers to requests made one after the other.\<close>

fun vault_answers :: "'k vault_env \<Rightarrow> vault_request list \<Rightarrow> vault_world \<Rightarrow> vault_answer result list" where
  "vault_answers env [] w = []"
| "vault_answers env (q # qs) w = (case vault_perform env q w of (r, w') \<Rightarrow> r # vault_answers env qs w')"

lemma mirrored_answers:
  assumes "files_ok env" and "others_mirror env" and "mirrors w w'"
  shows "vault_answers env qs w' = vault_answers env qs w \<and> mirrors (vault_requests env qs w) (vault_requests env qs w')"
  using assms(3)
proof (induction qs arbitrary: w w')
  case (Cons q qs)
  then have "fst (vault_perform env q w') = fst (vault_perform env q w)" "mirrors (snd (vault_perform env q w)) (snd (vault_perform env q w'))"
    using mirrored_perform [OF assms(1,2)] by (simp_all add: mirrored_def)
  then show ?case using Cons(1) by (simp add: case_prod_beta)
qed simp

end
