(* ===== verification/Vault_Migration.thy ===== *)
theory Vault_Migration
  imports Vault_Laws
begin

text \<open>
  The migration of a vault file written before credential policies (\<^verbatim>\<open>crates/exoharness/src/vault/local/legacy.rs\<close>), and what a
  secret written by \<^verbatim>\<open>local.rs\<close> decrypts to.
\<close>

section \<open>Reading back\<close>

lemma sealed_decrypts:
  assumes "cipher_ok env" and "\<And>n. ve_key env n = Inr k" and "sealed env vid st secret"
  shows "decrypt_stored env vid st s = (Inr secret, s\<lparr>cs_calls := Suc (cs_calls s)\<rparr>)"
proof -
  have "opens env vid st secret" by (rule sealed_opens [OF assms(1,3)])
  then obtain m where "length (es_nonce (ss_secret st)) = NONCE_LEN" "ve_parse_secret env m = Inr secret"
    "ve_open env k (es_nonce (ss_secret st)) (es_ciphertext (ss_secret st)) (ve_aad env vid (ss_metadata st)) = Some m"
    unfolding opens_def using assms(2) by auto
  then show ?thesis
    using assms(2) by (simp add: decrypt_stored_def decrypt_bound_def io_bind_def io_lift_def ensure_def catalog_call_def)
qed

text \<open>After a secret was put, it is found under its new identifier.\<close>

lemma put_stored:
  assumes "put_secret_op env vid request s = (Inr sid, s')" and "state_ok env I N s" and "cs_calls s' \<le> N"
  obtains v st where "find_vault vid (cs_catalog s') = Some v" "find_stored sid v = Some st" "sealed env vid st (pr_secret request)"
    "valid_for env (ss_metadata st) (pr_secret request)" "sm_revision (ss_metadata st) = 1"
    "normalized_option (ve_parse env) (pr_policy request) = Inr (sm_policy (ss_metadata st))"
proof -
  obtain v target encrypted where p: "find_vault vid (cs_catalog s) = Some v" "normalized_option (ve_parse env) (pr_policy request) = Inr target"
    "valid_for env (new_metadata env request target (cs_calls s)) (pr_secret request)"
    "sealed env vid \<lparr> ss_metadata = new_metadata env request target (cs_calls s), ss_secret = encrypted \<rparr> (pr_secret request)"
    "sid = ve_id env (cs_calls s)"
    "s' = \<lparr> cs_catalog = set_secrets vid (\<lambda>ss. ss @ [\<lparr> ss_metadata = new_metadata env request target (cs_calls s), ss_secret = encrypted \<rparr>]) (cs_catalog s),
           cs_calls = Suc (Suc (cs_calls s)) \<rparr>"
    using put_secret_Inr [OF assms(1)] by metis
  let ?st = "\<lparr> ss_metadata = new_metadata env request target (cs_calls s), ss_secret = encrypted \<rparr>"
  have "sid \<notin> (sm_id \<circ> ss_metadata) ` set (sv_secrets v)"
    using assms(2,3) p(5,6) catalog_ids_own [OF p(1)] by (auto simp: state_ok_def fresh_ids_def image_subset_iff)
  then have "List.find (\<lambda>st. sm_id (ss_metadata st) = sid) (sv_secrets v) = None" by (auto simp: find_None_iff)
  then have found: "find_stored sid (v\<lparr>sv_secrets := sv_secrets v @ [?st]\<rparr>) = Some ?st"
    using p(5) by (simp add: find_stored_def find_snoc new_metadata_def)
  have "find_vault vid (cs_catalog s') = Some (v\<lparr>sv_secrets := sv_secrets v @ [?st]\<rparr>)" using p(1,6) by (simp add: find_vault_set)
  from that [OF this found] show ?thesis using p(2-4) by (simp add: new_metadata_def)
qed

lemma get_op_stored:
  assumes "find_vault vid (cs_catalog s) = Some v" and "find_stored sid v = Some st"
    and "decrypt_stored env vid st s = (Inr secret, s1)"
  shows "get_secret_op env vid sid s = (Inr (Some secret), s1)"
  using assms by (simp add: get_secret_op_def io_bind_def catalog_vault_def ok_or_def io_return_def)

lemma read_op_stored:
  assumes "find_vault vid (cs_catalog s) = Some v" and "find_stored sid v = Some st"
    and "decrypt_stored env vid st s = (Inr secret, s1)" and "valid_for env (ss_metadata st) secret"
    and "policy_allows (ve_parse env) (sm_policy (ss_metadata st)) t"
  shows "read_op env vid sid t s = (Inr \<lparr> rs_revision = sm_revision (ss_metadata st), rs_secret = secret \<rparr>, s1)"
  using assms by (simp add: read_op_def io_bind_def catalog_vault_def ok_or_def io_return_def io_lift_def ensure_def valid_for_def)

section \<open>Migration\<close>

text \<open>What an old target permitted: a request to the server's URL, or any request to the origin.\<close>

definition legacy_permits :: "url_parser \<Rightarrow> legacy_target option \<Rightarrow> credential_destination \<Rightarrow> bool" where
  "legacy_permits parse target t =
     (case target of
        None \<Rightarrow> False
      | Some (Legacy_Mcp server_url) \<Rightarrow> (\<exists>u. parse server_url = Inr u \<and> t = Url (url_text u))
      | Some (Legacy_Http origin) \<Rightarrow> (\<exists>u v. parse origin = Inr u \<and> parse (as_str t) = Inr v \<and> url_origin v = url_origin u))"

lemma legacy_policy_scope:
  assumes "legacy_policy parse target = Inr policy"
  shows "policy_allows parse policy t \<longleftrightarrow> legacy_permits parse target t"
proof (cases target)
  case None
  then show ?thesis using assms by (auto simp: legacy_policy_def policy_allows_def legacy_permits_def)
next
  case (Some old)
  then show ?thesis
    using assms
    by (cases old; cases t)
       (auto simp: legacy_policy_def legacy_permits_def policy_allows_def policy_permits_def policy_from_destination_def policy_destinations_def
          network_permits_def destination_permits_def destination_iffs result_simps split: sum.splits)
qed

text \<open>The secret an old entry holds.\<close>

definition legacy_opens :: "'k vault_env \<Rightarrow> uuid \<Rightarrow> legacy_secret \<Rightarrow> secret \<Rightarrow> bool" where
  "legacy_opens env vid st secret \<longleftrightarrow> (\<exists>n k m. ve_key env n = Inr k \<and>
     ve_open env k (es_nonce (ls_secret st)) (es_ciphertext (ls_secret st)) (ve_legacy_aad env vid (ls_metadata st)) = Some m \<and>
     ve_parse_secret env m = Inr secret)"

definition secret_migrated :: "'k vault_env \<Rightarrow> uuid \<Rightarrow> legacy_secret \<Rightarrow> stored_secret \<Rightarrow> bool" where
  "secret_migrated env vid old st \<longleftrightarrow>
     sm_id (ss_metadata st) = lm_id (ls_metadata old) \<and> sm_name (ss_metadata st) = lm_name (ls_metadata old) \<and>
     sm_type (ss_metadata st) = lm_type (ls_metadata old) \<and> sm_revision (ss_metadata st) = lm_revision (ls_metadata old) \<and>
     sm_created_at (ss_metadata st) = lm_created_at (ls_metadata old) \<and>
     (\<exists>secret. legacy_opens env vid old secret \<and> sealed env vid st secret \<and> valid_for env (ss_metadata st) secret) \<and>
     (\<forall>t. policy_allows (ve_parse env) (sm_policy (ss_metadata st)) t \<longleftrightarrow> legacy_permits (ve_parse env) (lm_target (ls_metadata old)) t)"

definition vault_migrated :: "'k vault_env \<Rightarrow> legacy_vault \<Rightarrow> stored_vault \<Rightarrow> bool" where
  "vault_migrated env old v \<longleftrightarrow> sv_record v = lv_record old \<and>
     list_all2 (secret_migrated env (vr_id (lv_record old))) (lv_secrets old) (sv_secrets v)"

lemma migrate_secret_Inr:
  assumes "migrate_secret env vid old s = (Inr st, s')"
  shows "secret_migrated env vid old st"
  using assms unfolding migrate_secret_def
proof (elim io_bind_InrE)
  fix secret s1 policy s2
  assume d: "decrypt_bound env (ls_secret old) (ve_legacy_aad env vid (ls_metadata old)) s = (Inr secret, s1)"
    and p: "io_lift (legacy_policy (ve_parse env) (lm_target (ls_metadata old))) s1 = (Inr policy, s2)"
    and rest: "(let old = ls_metadata old;
         metadata = \<lparr> sm_policy = policy, sm_revision = lm_revision old, sm_id = lm_id old, sm_type = lm_type old,
           sm_name = lm_name old, sm_created_at = lm_created_at old \<rparr> in
     io_bind (encrypt_secret env vid metadata secret) (\<lambda>encrypted.
     io_return \<lparr> ss_metadata = metadata, ss_secret = encrypted \<rparr>)) s2 = (Inr st, s')"
  have "legacy_opens env vid old secret"
    using d by (auto simp: decrypt_bound_def io_bind_Inr_iff io_lift_def catalog_call_def result_simps legacy_opens_def)
  moreover obtain encrypted where "encrypt_secret env vid (ss_metadata st) secret s2 = (Inr encrypted, s')"
    "st = \<lparr> ss_metadata = \<lparr> sm_policy = policy, sm_revision = lm_revision (ls_metadata old), sm_id = lm_id (ls_metadata old),
       sm_type = lm_type (ls_metadata old), sm_name = lm_name (ls_metadata old), sm_created_at = lm_created_at (ls_metadata old) \<rparr>,
       ss_secret = encrypted \<rparr>"
    using rest by (auto simp: Let_def io_bind_Inr_iff io_return_def)
  moreover have "legacy_policy (ve_parse env) (lm_target (ls_metadata old)) = Inr policy" using p by (simp add: io_lift_def)
  ultimately show ?thesis
    using encrypt_secret_Inr(2,3) legacy_policy_scope unfolding secret_migrated_def by fastforce
qed

lemma for_each_Inr:
  assumes "for_each f xs s = (Inr ys, s')" and "\<And>x y s s'. f x s = (Inr y, s') \<Longrightarrow> P x y"
  shows "list_all2 P xs ys"
  using assms(1)
proof (induction xs arbitrary: s ys)
  case (Cons x xs)
  then show ?case using assms(2) by (auto simp: io_bind_Inr_iff io_return_def)
qed (simp add: io_return_def)

lemma migrate_vault_Inr: "migrate_vault env old s = (Inr v, s') \<Longrightarrow> vault_migrated env old v"
  unfolding migrate_vault_def by (auto simp: io_bind_Inr_iff io_return_def vault_migrated_def intro: for_each_Inr migrate_secret_Inr)

lemma read_legacy:
  assumes "read_catalog env (Legacy_File vaults) s = (Inr (c, migrated), s')"
  shows "migrated \<and> list_all2 (vault_migrated env) vaults c"
proof -
  have "\<exists>s1. for_each (migrate_vault env) vaults s = (Inr c, s1)" "migrated"
    using assms by (auto simp: read_catalog_def io_bind_Inr_iff io_return_def)
  then show ?thesis using for_each_Inr migrate_vault_Inr by metis
qed

end
