(* ===== verification/Vault_Guarantees.thy ===== *)
theory Vault_Guarantees
  imports Vault_Mirror Vault_Migration "HOL-Library.Countable"
begin

text \<open>
  The properties of the vault store (\<^verbatim>\<open>crates/exoharness/src/vault/local.rs\<close>, \<^verbatim>\<open>local/native.rs\<close>, \<^verbatim>\<open>local/legacy.rs\<close>) and a
  concrete environment on which each of them applies.
\<close>

section \<open>A sample environment\<close>

instance oauth_refresh_ext :: (countable) countable
  by (rule countable_classI [of "\<lambda>r. to_nat (or_token_endpoint r, or_client_id r, or_client_secret r, or_client_secret_basic r,
        or_resource r, or_scopes r, oauth_refresh.more r)"]) simp

instance secret :: countable
  by countable_datatype

text \<open>The cipher prefixes the message with the authenticated data and checks them again.\<close>

definition sample_vault_env :: "unit vault_env" where
  "sample_vault_env = \<lparr> ve_parse = sample_parse, ve_show = (\<lambda>_. ''v''), ve_id = (\<lambda>n. of_nat (min n 100)), ve_utc = int, ve_now = of_nat, ve_instant = id,
     ve_key = (\<lambda>_. Ok ()), ve_nonce = (\<lambda>_. ''012345678901''),
     ve_seal = (\<lambda>_ _ m aad. Some (aad @ m)),
     ve_open = (\<lambda>_ _ c aad. if take (length aad) c = aad then Some (drop (length aad) c) else None),
     ve_secret_json = (\<lambda>secret. replicate (to_nat secret) CHR ''s''), ve_parse_secret = (\<lambda>m. Ok (from_nat (length m))),
     ve_aad = (\<lambda>_ metadata. sm_name metadata), ve_legacy_aad = (\<lambda>_ metadata. lm_name metadata),
     ve_lock = (\<lambda>_. Ok ()), ve_persist = (\<lambda>_. Ok ()), ve_sync = (\<lambda>_. Ok ()), ve_guard = (\<lambda>_. Ok ()),
     ve_github_token = (\<lambda>_ _. Ok ''token''), ve_exchange = (\<lambda>_ _ _. bail ''refused''), ve_others = (\<lambda>_ w. w) \<rparr>"

lemma sample_vault_hypotheses:
  "others_ok sample_vault_env" "cipher_ok sample_vault_env" "inj_on (ve_id sample_vault_env) {..<100}"
proof -
  show "others_ok sample_vault_env" using vault_run_refl [of sample_vault_env] by (simp add: others_ok_def reflp_def sample_vault_env_def)
  show "cipher_ok sample_vault_env" by (simp add: cipher_ok_def sample_vault_env_def NONCE_LEN_def)
  have "m = n" if "(of_nat m :: uuid) = of_nat n" "m < 100" "n < 100" for m n
    using that by (simp add: word_of_nat_eq_iff take_bit_eq_mod)
  then show "inj_on (ve_id sample_vault_env) {..<100}" by (auto simp: inj_on_def sample_vault_env_def)
qed

definition sample_empty :: vault_world where
  "sample_empty = \<lparr> vw_storage = Memory [], vw_checked = [], vw_calls = 0 \<rparr>"

definition sample_vault_handle :: vault_record where
  "sample_vault_handle = \<lparr> vr_id = 2, vr_name = GLOBAL, vr_created_at = 2 \<rparr>"

definition sample_put :: put_secret_request where
  "sample_put = \<lparr> pr_policy = Some (policy_destinations [Origin ''https://api.example'']), pr_name = ''api'', pr_secret = Key ''token'' \<rparr>"

definition sample_vault_entry :: stored_secret where
  "sample_vault_entry = \<lparr> ss_metadata = \<lparr> sm_policy = Some (policy_destinations [Origin ''https://api.example'']), sm_revision = 1, sm_id = 4,
       sm_type = Key_Type, sm_name = ''api'', sm_created_at = 4 \<rparr>,
     ss_secret = \<lparr> es_nonce = ''012345678901'', es_ciphertext = ''api'' @ replicate (to_nat (Key ''token'')) CHR ''s'' \<rparr> \<rparr>"

definition sample_kept :: vault_world where
  "sample_kept = \<lparr> vw_storage = Memory [\<lparr> sv_record = sample_vault_handle, sv_secrets = [sample_vault_entry] \<rparr>], vw_checked = [], vw_calls = 6 \<rparr>"

lemmas sample_vault_simps = sample_vault_env_def sample_empty_def sample_vault_handle_def sample_put_def sample_vault_entry_def sample_kept_def GLOBAL_def
  io_simps access_def access_memory_def catalog_call_def vault_call_def catalog_vault_def find_vault_def find_stored_def ensure_def ok_or_def Let_def

lemma sample_global:
  "vault_perform sample_vault_env Global_Vault sample_empty =
     (Ok (A_Vault sample_vault_handle), \<lparr> vw_storage = Memory [\<lparr> sv_record = sample_vault_handle, sv_secrets = [] \<rparr>], vw_checked = [], vw_calls = 3 \<rparr>)"
  by (simp add: sample_vault_simps answering_def global_vault_def find_global_def named_vault_def ensure_global_def create_vault_record_def)

lemma sample_normalized: "normalized_option sample_parse (pr_policy sample_put) = Ok (pr_policy sample_put)"
  by (simp add: sample_put_def normalized_option_def policy_normalized_def policy_destinations_def network_normalized_def sample_destinations)

lemma sample_secret_valid: "validate_secret sample_parse (Key ''token'') policy = Ok ()"
  by (simp add: validate_secret_def ensure_def ascii_graphic_def)

lemma sample_put_run:
  "vault_perform sample_vault_env (Put_Secret sample_vault_handle sample_put)
     \<lparr> vw_storage = Memory [\<lparr> sv_record = sample_vault_handle, sv_secrets = [] \<rparr>], vw_checked = [], vw_calls = 3 \<rparr> = (Ok (A_Id 4), sample_kept)"
proof -
  have "trim ''api'' \<noteq> []" by code_simp
  then show ?thesis
    using sample_normalized
    by (simp add: sample_vault_simps answering_def put_secret_def put_secret_op_def encrypt_secret_def sample_secret_valid encrypt_bound_def
      change_secrets_def set_secrets_def)
qed

lemma sample_permitted: "policy_allows sample_parse (pr_policy sample_put) (Url ''https://api.example/v1'')"
  by (simp add: sample_put_def policy_allows_def policy_permits_def policy_destinations_def network_permits_def destination_permits_def
      as_str_def sample_parse_def sample_root_def sample_page_def)

lemma sample_secret_read:
  "read_for_destination sample_vault_env sample_vault_handle 4 (Url ''https://api.example/v1'') sample_kept =
     (Ok \<lparr> rs_revision = 1, rs_secret = Key ''token'' \<rparr>, sample_kept\<lparr>vw_calls := 8\<rparr>)"
  using sample_permitted
  by (simp add: sample_vault_simps read_for_destination_def sample_destinations read_op_def decrypt_stored_def decrypt_bound_def NONCE_LEN_def
      sample_secret_valid)

lemma sample_resolve:
  "vault_perform sample_vault_env (Resolve_Secret sample_vault_handle 4 (Url ''https://api.example/v1'')) sample_kept =
     (Ok (A_Resolved \<lparr> rs_revision = 1, rs_secret = Key ''token'' \<rparr>), sample_kept\<lparr>vw_calls := 9\<rparr>)"
  by (simp add: answering_def resolve_credentials_def io_bind_def sample_secret_read needs_refresh_def vault_call_def io_return_def)

lemma sample_later: "vw_calls sample_kept \<le> n \<Longrightarrow> ve_id sample_vault_env n \<noteq> 4"
proof -
  assume "vw_calls sample_kept \<le> n"
  then have "min n 100 mod 2 ^ 128 \<noteq> 4" by (simp add: sample_kept_def min_def)
  then have "(of_nat (min n 100) :: uuid) \<noteq> of_nat 4" unfolding word_of_nat_eq_iff take_bit_eq_mod by simp
  then show ?thesis by (simp add: sample_vault_env_def)
qed

section \<open>Credentials go only where their policies permit\<close>

text \<open>C9: a secret that a vault resolves or refreshes for a destination is the one that the store holds, at the end of the
  call, under the requested identifier of that vault, with its current revision, sealed for this place, valid for the
  policy, and the policy held with it permits the normalized destination. This is so whatever other tasks and processes
  do to the same storage between the steps of a refresh, during which the token endpoint is called without a lock, as long
  as they use the same operations; they may import older secrets too, only not under this identifier.\<close>

theorem secret_released_only_to_permitted_destination:
  assumes "others_import env I" and "cipher_ok env" and "sid \<notin> I" and "\<forall>n \<ge> vw_calls w. ve_id env n \<noteq> sid"
    and "request = Resolve_Secret h sid target \<or> request = Refresh_Secret h sid target revision"
    and "vault_perform env request w = (Inr (A_Resolved r), w')"
  shows "\<exists>t c st. destination_normalized (ve_parse env) target = Inr t \<and> storage_view w' = Some c \<and>
    stored_at c (vr_id h) sid = Some st \<and> policy_allows (ve_parse env) (sm_policy (ss_metadata st)) t \<and>
    sm_revision (ss_metadata st) = rs_revision r \<and> opens env (vr_id h) st (rs_secret r) \<and> valid_for env (ss_metadata st) (rs_secret r)"
proof -
  have "resolve_credentials env h sid target w = (Inr r, w') \<or> refresh_secret env h sid target revision True w = (Inr r, w')"
    using assms(5,6) by (auto simp: answering_def io_bind_Inr_iff io_return_def)
  then have "\<exists>t. destination_normalized (ve_parse env) target = Inr t \<and> released env (vr_id h) sid t r w'"
    using resolve_released [OF _ assms(1-4)] refresh_released [OF _ assms(1-4)] by blast
  then show ?thesis unfolding released_def by blast
qed

theorem secret_released_only_to_permitted_destination_witness:
  "\<exists>c st. storage_view (sample_kept\<lparr>vw_calls := 9\<rparr>) = Some c \<and> stored_at c 2 4 = Some st \<and>
     policy_allows sample_parse (sm_policy (ss_metadata st)) (Url ''https://api.example/v1'')"
proof -
  have "\<forall>n \<ge> vw_calls sample_kept. ve_id sample_vault_env n \<noteq> 4" using sample_later by blast
  from secret_released_only_to_permitted_destination [OF others_ok_import [OF sample_vault_hypotheses(1)] sample_vault_hypotheses(2) _ this disjI1 [OF refl]
      sample_resolve, of "{}"]
  show ?thesis by (auto simp: sample_vault_env_def sample_vault_handle_def sample_destinations)
qed

section \<open>Catalogs stay well formed\<close>

text \<open>C12: whatever requests are made to a store, in memory or in a file, imports by the migration of older secrets among
  them, and whatever other tasks and processes do with the same operations in between, its catalog stays well formed.
  Vaults have distinct identifiers and distinct names that are not blank; in every vault the secrets have distinct
  identifiers, and every entry holds a secret that was encrypted for this vault and this metadata and is valid under its
  policy. Entries that were not imported have names that are not blank and normalized policies, and no two of them share a
  name or a resource policy. An import checks neither names nor policies, so nothing of this is claimed of imported
  entries (\<open>I\<close> are their identifiers; with no imports it is empty): \<open>import_repeats_name\<close> below. The generated identifiers
  must repeat neither each other nor an imported one. Failing requests, locks and file operations are included.\<close>

theorem vault_catalogs_stay_well_formed:
  assumes "others_import env I" and "inj_on (ve_id env) {..<N}" and "I \<inter> ve_id env ` {..<N} = {}"
    and "(\<Union>q \<in> set qs. request_import q) \<subseteq> I" and "vw_calls (vault_requests env qs w) \<le> N" and "store_ok env I N w"
  shows "store_ok env I N (vault_requests env qs w)"
proof -
  have "runs (store_step env I) w (vault_requests env qs w)" by (rule vault_requests_run [OF assms(1,4)])
  then show ?thesis by (rule run_store_ok [OF _ assms(2,3,5,6)])
qed

definition sample_import :: secret_metadata where
  "sample_import = \<lparr> sm_policy = None, sm_revision = 1, sm_id = 500, sm_type = Key_Type, sm_name = ''api'', sm_created_at = 1 \<rparr>"

definition sample_imported :: vault_world where
  "sample_imported = \<lparr> vw_storage = Memory [\<lparr> sv_record = sample_vault_handle, sv_secrets = [sample_vault_entry, \<lparr> ss_metadata = sample_import,
     ss_secret = \<lparr> es_nonce = ''012345678901'', es_ciphertext = ''api'' @ replicate (to_nat (Key ''older'')) CHR ''s'' \<rparr> \<rparr>] \<rparr>], vw_checked = [], vw_calls = 8 \<rparr>"

lemma sample_import_run:
  "vault_perform sample_vault_env (Import_Secret 2 sample_import (Key ''older'')) sample_kept = (Ok A_Unit, sample_imported)"
  by (simp add: sample_vault_simps sample_imported_def sample_import_def answering_def import_secret_def import_secret_op_def encrypt_secret_def
      validate_secret_def encrypt_bound_def change_secrets_def set_secrets_def)

text \<open>The entry that was put and the entry that was imported have the same name.\<close>

lemma import_repeats_name:
  "\<exists>a b c. storage_view sample_imported = Some c \<and> stored_at c 2 4 = Some a \<and> stored_at c 2 500 = Some b \<and>
     sm_name (ss_metadata a) = sm_name (ss_metadata b)"
  by (simp add: sample_imported_def sample_import_def storage_view_def stored_at_def find_vault_def find_stored_def sample_vault_handle_def
      sample_vault_entry_def)

theorem vault_catalogs_stay_well_formed_witness:
  "store_ok sample_vault_env {500} 100 sample_imported"
proof -
  let ?qs = "[Global_Vault, Put_Secret sample_vault_handle sample_put, Import_Secret 2 sample_import (Key ''older'')]"
  have run: "vault_requests sample_vault_env ?qs sample_empty = sample_imported"
    by (simp only: vault_requests.simps sample_global sample_put_run sample_import_run snd_conv)
  have start: "store_ok sample_vault_env {500} 100 sample_empty"
    by (simp add: store_ok_def sample_empty_def storage_view_def vault_state_def state_ok_def catalog_ok_def fresh_ids_def catalog_ids_def)
  have "ve_id sample_vault_env n \<noteq> 500" if "n < 100" for n
    using that word_of_nat_eq_iff [where ?'a = 128, of n 500] by (simp add: sample_vault_env_def take_bit_eq_mod)
  then have apart: "{500} \<inter> ve_id sample_vault_env ` {..<100} = {}" by auto
  have ids: "(\<Union>q \<in> set ?qs. request_import q) \<subseteq> {500}" by (simp add: request_import_def sample_import_def)
  have calls: "vw_calls sample_imported \<le> 100" by (simp add: sample_imported_def)
  from vault_catalogs_stay_well_formed [OF others_ok_import [OF sample_vault_hypotheses(1)] sample_vault_hypotheses(3) apart ids _ start]
  show ?thesis unfolding run using calls by blast
qed

section \<open>What is put can be read\<close>

text \<open>A secret that resolving does not try to refresh: not one of the GitHub command line, and no token that expires within a
  minute of a reading of the clock after the \<open>n\<close>-th.\<close>

definition stays_current :: "'k vault_env \<Rightarrow> nat \<Rightarrow> secret \<Rightarrow> bool" where
  "stays_current env n secret \<longleftrightarrow>
     (case secret of Key _ \<Rightarrow> True | GithubCli _ _ \<Rightarrow> False
      | Oauth _ _ None _ \<Rightarrow> True
      | Oauth _ _ (Some expires_at) _ \<Rightarrow> (\<forall>m \<ge> n. saturating_add (ve_now env m) 60 < expires_at))"

lemma resolve_current:
  assumes "read_for_destination env h sid target w = (Inr r, w1)" and "stays_current env (vw_calls w1) (rs_secret r)"
  shows "fst (resolve_credentials env h sid target w) = Inr r"
  using assms
  by (cases "rs_secret r") (auto simp: resolve_credentials_def io_bind_def needs_refresh_def vault_call_def io_return_def stays_current_def
      not_le split: option.splits)

lemma answering_Inr: "fst (m w) = Inr x \<Longrightarrow> fst (answering f m w) = Inr (f x)"
  by (cases "m w") (simp add: answering_def io_bind_def io_return_def)

text \<open>C30: when storing a secret succeeds in a well-formed store, the secret comes back through the requests a client makes:
  getting it under the identifier that was returned gives exactly the secret of the request, and resolving it for a
  destination that its normalized policy permits gives the same secret with revision 1, if it is a secret that resolving
  does not refresh (\<open>stays_current\<close>: no GitHub command line login and no token that is about to expire). The store is in
  memory or in a file, the lock and the file system answer, the key provider keeps its key, decryption inverts encryption,
  and nothing else uses the storage in between.\<close>

theorem put_secret_read_roundtrip:
  assumes "vault_perform env (Put_Secret h request) w = (Inr (A_Id sid), w1)" and "store_ok env I N w" and "vw_calls w1 \<le> N"
    and "cipher_ok env" and "files_ok env" and "\<forall>n. ve_key env n = Inr k" and "\<forall>n w. ve_others env n w = w"
  shows "fst (vault_perform env (Get_Secret h sid) w1) = Inr (A_Secret (Some (pr_secret request))) \<and>
    (\<forall>policy target t. normalized_option (ve_parse env) (pr_policy request) = Inr policy \<and> destination_normalized (ve_parse env) target = Inr t \<and>
       policy_allows (ve_parse env) policy t \<and> stays_current env (vw_calls w1) (pr_secret request) \<longrightarrow>
       fst (vault_perform env (Resolve_Secret h sid target) w1) = Inr (A_Resolved \<lparr> rs_revision = 1, rs_secret = pr_secret request \<rparr>))"
proof -
  have met: "met env w = w\<lparr>vw_calls := Suc (vw_calls w)\<rparr>" for w using assms(7) by (simp add: met_def)
  have put: "put_secret env h request w = (Inr sid, w1)"
    using assms(1) by (auto simp: answering_def io_bind_Inr_iff io_return_def)
  obtain c where c: "storage_view w = Some c" "state_ok env I N (vault_state c w)" using assms(2) by (auto simp: store_ok_def)
  then have view: "storage_view (met env w) = Some c" "state_ok env I N (vault_state c (met env w))"
    by (auto simp: met storage_view_def intro: ticked_ok [of "vault_state c w"] simp: ticks_def vault_state_def)
  obtain r s where run: "put_secret_op env (vr_id h) request (vault_state c (met env w)) = (r, s)" by fastforce
  have after: "r = Inr sid" "storage_view w1 = Some (cs_catalog s)" "vw_calls w1 = cs_calls s"
    using access_runs [OF assms(5) atomic_writers(4) disjI1 [OF TrueI] view(1) run] put by (auto simp: put_secret_def)
  obtain v st where v: "find_vault (vr_id h) (cs_catalog s) = Some v" "find_stored sid v = Some st" "sealed env (vr_id h) st (pr_secret request)"
    "valid_for env (ss_metadata st) (pr_secret request)" "sm_revision (ss_metadata st) = 1"
    "normalized_option (ve_parse env) (pr_policy request) = Inr (sm_policy (ss_metadata st))"
    using put_stored [OF run [unfolded after(1)] view(2)] assms(3) after(3) by metis
  let ?s = "vault_state (cs_catalog s) (met env w1)"
  have view1: "storage_view (met env w1) = Some (cs_catalog s)" using after(2) by (simp add: met storage_view_def)
  have there: "find_vault (vr_id h) (cs_catalog ?s) = Some v" using v(1) by (simp add: vault_state_def)
  note opened = sealed_decrypts [OF assms(4) assms(6) [rule_format] v(3), of ?s]
  have "fst (access env False (get_secret_op env (vr_id h) sid) w1) = Inr (Some (pr_secret request))"
    using access_runs [of _ _ False, OF assms(5) atomic_ticks [OF ticks_readers(1)] disjI2 [OF ticks_readers(1)] view1 get_op_stored [OF there v(2) opened]]
    by auto
  moreover have "fst (resolve_credentials env h sid target w1) = Inr \<lparr> rs_revision = 1, rs_secret = pr_secret request \<rparr>"
    if t: "destination_normalized (ve_parse env) target = Inr t" "policy_allows (ve_parse env) (sm_policy (ss_metadata st)) t"
      and fresh: "stays_current env (vw_calls w1) (pr_secret request)" for target t
  proof -
    obtain w2 where read: "read_for_destination env h sid target w1 = (Inr \<lparr> rs_revision = 1, rs_secret = pr_secret request \<rparr>, w2)"
      using access_runs [of _ _ False, OF assms(5) atomic_ticks [OF ticks_readers(3)] disjI2 [OF ticks_readers(3)] view1
          read_op_stored [OF there v(2) opened v(4) t(2)]] v(5) t(1) by (auto simp: read_for_destination_def io_bind_def io_lift_def)
    have "others_import env {}" using runs_refl assms(7) by (simp add: others_import_def reflp_def)
    then have "vw_calls w1 \<le> vw_calls w2" using read_advances [OF read] by blast
    then have "stays_current env (vw_calls w2) (pr_secret request)"
      using fresh by (auto simp: stays_current_def split: secret.splits option.splits)
    then show ?thesis using resolve_current [OF read] by simp
  qed
  ultimately show ?thesis using v(6) by (auto simp: get_secret_def intro!: answering_Inr)
qed

lemma sample_vault_files: "files_ok sample_vault_env" "others_mirror sample_vault_env"
  by (simp_all add: files_ok_def others_mirror_def sample_vault_env_def)

theorem put_secret_read_roundtrip_witness:
  "fst (vault_perform sample_vault_env (Get_Secret sample_vault_handle 4) sample_kept) = Inr (A_Secret (Some (Key ''token''))) \<and>
   fst (vault_perform sample_vault_env (Resolve_Secret sample_vault_handle 4 (Url ''https://api.example/v1'')) sample_kept) =
     Inr (A_Resolved \<lparr> rs_revision = 1, rs_secret = Key ''token'' \<rparr>)"
proof -
  let ?w = "\<lparr> vw_storage = Memory [\<lparr> sv_record = sample_vault_handle, sv_secrets = [] \<rparr>], vw_checked = [], vw_calls = 3 \<rparr>"
  have "trim ''global'' \<noteq> []" by code_simp
  moreover have "ve_id sample_vault_env n \<noteq> 2" if "3 \<le> n" "n < 100" for n
    using that word_of_nat_eq_iff [where ?'a = 128, of n 2] by (simp add: sample_vault_env_def take_bit_eq_mod)
  ultimately have "store_ok sample_vault_env {} 100 ?w"
    by (auto simp: store_ok_def storage_view_def vault_state_def state_ok_def catalog_ok_def vault_ok_def secrets_ok_def fresh_ids_def
        catalog_ids_def sample_vault_handle_def GLOBAL_def)
  note roundtrip = put_secret_read_roundtrip [OF sample_put_run this _ sample_vault_hypotheses(2) sample_vault_files(1), of "()"]
  have env: "ve_parse sample_vault_env = sample_parse" "\<forall>n. ve_key sample_vault_env n = Inr ()" "\<forall>n w. ve_others sample_vault_env n w = w"
    by (simp_all add: sample_vault_env_def)
  have "vw_calls sample_kept \<le> 100" "pr_secret sample_put = Key ''token''" "stays_current sample_vault_env n (Key ''token'')" for n
    by (simp_all add: sample_kept_def sample_put_def stays_current_def)
  then show ?thesis
    using roundtrip env sample_normalized sample_destinations sample_permitted by metis
qed

section \<open>A store in a file is a store in memory\<close>

text \<open>C31: a store whose file holds a catalog, or is absent, answers every sequence of requests exactly as a store in memory
  with the same catalog does, errors included, and ends with the same catalog, provided that the lock and the file system
  answer and that other tasks do the same to both. In particular reads do not lose anything by leaving the file alone, and
  a request that fails after it changed its copy of the catalog changes neither storage.\<close>

theorem file_store_answers_as_memory_store:
  assumes "files_ok env" and "others_mirror env" and "doc = Catalog_File c \<or> doc = No_File \<and> c = []"
  shows "vault_answers env qs \<lparr> vw_storage = File doc, vw_checked = checked, vw_calls = n \<rparr> =
      vault_answers env qs \<lparr> vw_storage = Memory c, vw_checked = checked, vw_calls = n \<rparr> \<and>
    storage_view (vault_requests env qs \<lparr> vw_storage = File doc, vw_checked = checked, vw_calls = n \<rparr>) =
      storage_view (vault_requests env qs \<lparr> vw_storage = Memory c, vw_checked = checked, vw_calls = n \<rparr>)"
proof -
  have "mirrors \<lparr> vw_storage = Memory c, vw_checked = checked, vw_calls = n \<rparr> \<lparr> vw_storage = File doc, vw_checked = checked, vw_calls = n \<rparr>"
    using assms(3) by (auto simp: mirrors_def storage_view_def)
  from mirrored_answers [OF assms(1,2) this] show ?thesis by (simp add: mirrors_def)
qed

theorem file_store_answers_as_memory_store_witness:
  "vault_answers sample_vault_env [Global_Vault, Put_Secret sample_vault_handle sample_put] \<lparr> vw_storage = File No_File, vw_checked = [], vw_calls = 0 \<rparr> =
     [Ok (A_Vault sample_vault_handle), Ok (A_Id 4)]"
proof -
  have "vault_answers sample_vault_env [Global_Vault, Put_Secret sample_vault_handle sample_put] sample_empty = [Ok (A_Vault sample_vault_handle), Ok (A_Id 4)]"
    by (simp only: vault_answers.simps sample_global sample_put_run prod.case)
  then show ?thesis
    using file_store_answers_as_memory_store [OF sample_vault_files, of No_File "[]" "[Global_Vault, Put_Secret sample_vault_handle sample_put]" "[]" 0]
    by (simp only: sample_empty_def simp_thms)
qed

section \<open>Migration\<close>

text \<open>C32: when an access meets a file of the old form, then whatever it does, it works on a catalog in which every vault and
  every secret is kept in order with its identifier, name, type, revision and time, holds the same plaintext under the new
  authenticated data, and is permitted for exactly the destinations that its old target permitted, so that no scope is
  widened; a success replaces the file by a catalog of the new form, and after an error the old file is untouched unless
  only the synchronization of the directory failed.\<close>

theorem migration_keeps_credentials_and_scope:
  assumes "vw_storage (met env w) = File (Legacy_File vaults)" and "access env write m w = (r, w')"
  shows "(vw_storage w' = File (Legacy_File vaults) \<and> (\<exists>e. r = Inl e)) \<or>
    (\<exists>c s x s'. list_all2 (vault_migrated env) vaults c \<and> cs_catalog s = c \<and> m s = (Inr x, s') \<and>
       vw_storage w' = File (Catalog_File (cs_catalog s')) \<and> r = map_sum id (\<lambda>_. x) (ve_sync env (cs_calls s')))"
proof -
  let ?w = "met env w"
  obtain q s where q: "read_catalog env (Legacy_File vaults) \<lparr> cs_catalog = [], cs_calls = vw_calls ?w \<rparr> = (q, s)" by fastforce
  have run: "access_file env (Legacy_File vaults) write m ?w = (r, w')" using assms by (simp add: access_met)
  show ?thesis
  proof (cases "\<exists>c migrated. q = Inr (c, migrated) \<and> is_ok (ve_lock env (vw_calls ?w))")
    case True
    then obtain c migrated where c: "q = Inr (c, migrated)" "is_ok (ve_lock env (vw_calls ?w))" by blast
    then have m: "migrated" "list_all2 (vault_migrated env) vaults c" using read_legacy q by blast+
    obtain r' s' where op: "m (s\<lparr>cs_catalog := c\<rparr>) = (r', s')" by fastforce
    have "access_file env (Legacy_File vaults) write m ?w =
        (case r' of Inl e \<Rightarrow> (Inl e, ?w\<lparr>vw_calls := cs_calls s'\<rparr>) | Inr x \<Rightarrow> replace_file env x s' ?w)"
      using q c m(1) op by (auto simp: access_file_def is_ok_def Let_def split: sum.splits)
    then show ?thesis
      using run assms(1) m(2) op
      by (cases r'; cases "ve_persist env (cs_calls s')"; cases "ve_sync env (cs_calls s')")
         (auto simp: replace_file_def Let_def intro!: exI [of _ "s\<lparr>cs_catalog := c\<rparr>"])
  next
    case False
    then show ?thesis
      using run assms(1) q by (auto simp: access_file_def is_ok_def Let_def split: sum.splits)
  qed
qed

definition sample_legacy :: legacy_vault where
  "sample_legacy = \<lparr> lv_record = sample_vault_handle, lv_secrets = [\<lparr> ls_metadata = \<lparr> lm_target = Some (Legacy_Http ''https://api.example/''),
       lm_revision = 7, lm_id = 4, lm_type = Key_Type, lm_name = ''api'', lm_created_at = 4 \<rparr>,
     ls_secret = \<lparr> es_nonce = ''012345678901'', es_ciphertext = ''api'' @ replicate (to_nat (Key ''token'')) CHR ''s'' \<rparr> \<rparr>] \<rparr>"

theorem migration_keeps_credentials_and_scope_witness:
  "\<exists>c. fst (list_vaults sample_vault_env \<lparr> vw_storage = File (Legacy_File [sample_legacy]), vw_checked = [], vw_calls = 5 \<rparr>) = Ok [sample_vault_handle] \<and>
     list_all2 (vault_migrated sample_vault_env) [sample_legacy] c"
proof -
  let ?w = "\<lparr> vw_storage = File (Legacy_File [sample_legacy]), vw_checked = [], vw_calls = 5 \<rparr>"
  have "destination_origin sample_parse ''https://api.example/'' = Ok (Origin ''https://api.example'')"
    by (simp add: destination_origin_def parse_destination_def sample_parse_def sample_root_def)
  then have run: "fst (list_vaults sample_vault_env ?w) = Ok [sample_vault_handle]"
    by (simp add: list_vaults_def sample_vault_simps access_file_def read_catalog_def sample_legacy_def migrate_vault_def migrate_secret_def
        decrypt_bound_def NONCE_LEN_def legacy_policy_def encrypt_secret_def sample_secret_valid encrypt_bound_def replace_file_def)
  have "vw_storage (met sample_vault_env ?w) = File (Legacy_File [sample_legacy])" by (simp add: met_def sample_vault_env_def)
  from migration_keeps_credentials_and_scope [OF this prod.collapse [symmetric], of False "io_read (\<lambda>s. map sv_record (cs_catalog s))"]
  show ?thesis using run by (auto simp: list_vaults_def)
qed

end
