(* ===== verification/Remote_Guarantees.thy ===== *)
theory Remote_Guarantees
  imports Remote_Steps Vault_Guarantees
begin

text \<open>
  What a shared server guarantees, with a sample server for the witnesses.
\<close>

section \<open>A sample server\<close>

definition sample_callback_url :: url where
  "sample_callback_url = \<lparr> url_scheme = ''http'', url_host = None, url_host_str = Some ''127.0.0.1'', url_username = [], url_password = None,
     url_path = ''/'', url_query = None, url_fragment = None, url_origin = ''http://127.0.0.1'', url_port_or_known_default = Some 80, url_text = ''http://127.0.0.1/'' \<rparr>"

text \<open>Other tasks let time pass until no identifier in use is as long, or as large, as the next ones.\<close>

definition next_unused :: "auth_world \<Rightarrow> nat" where
  "next_unused w = Suc (aw_calls w + length (as_owner (aw_state w)) + sum_list (map (length \<circ> fst) (as_principals (aw_state w))) +
     sum_list (map (unat \<circ> fst) (as_vault_owners (aw_state w))) + sum_list (map unat (as_shared_vaults (aw_state w))))"

definition sample_auth_env :: auth_env where
  "sample_auth_env = \<lparr> ae_config = \<lparr> af_public_url = sample_root, af_issuer = ''i'', af_client_id = ''c'', af_owner_email = ''o@x'', af_allowed_emails = [''p@x''],
       af_shared_vaults = [] \<rparr>,
     ae_parse = (\<lambda>_. Inr sample_callback_url), ae_show = (\<lambda>_. ''v''), ae_loopback = (\<lambda>host. host = ''127.0.0.1''), ae_auth_vault = 0, ae_digest = id,
     ae_pkce = (\<lambda>challenge verifier. verifier = challenge), ae_challenge_ok = (\<lambda>_. True), ae_now = (\<lambda>_. 0),
     ae_random = (\<lambda>n. replicate n CHR ''r''), ae_uuid = (\<lambda>n. replicate n CHR ''u''), ae_save = (\<lambda>_. Ok ()),
     ae_login = (\<lambda>n. \<lparr> ol_url = ''u'', ol_state = ''s'', ol_nonce = ''n'', ol_verifier = ''v'' \<rparr>),
     ae_claims = (\<lambda>n code nonce verifier. if code = ''good'' then Ok \<lparr> oc_issuer = ''i'', oc_subject = ''p'', oc_email = Some ''P@x'', oc_email_verified = Some True,
       oc_hash_ok = True \<rparr> else bail ''refused''),
     ae_lowercase = to_ascii_lowercase,
     ae_create_vault = (\<lambda>n name. if n < 1000 then Ok \<lparr> vr_id = of_nat n, vr_name = name, vr_created_at = 0 \<rparr> else bail ''full''),
     ae_delete_vault = (\<lambda>_ _. Ok ()), ae_others = (\<lambda>_ w. w\<lparr>aw_calls := next_unused w\<rparr>) \<rparr>"

lemma next_unused_above:
  "as_owner (aw_state w) \<noteq> replicate (next_unused w) c" "aw_calls w \<le> next_unused w" "0 < next_unused w"
  "(p, r) \<in> set (as_principals (aw_state w)) \<Longrightarrow> length p < next_unused w"
  "(vid, o') \<in> set (as_vault_owners (aw_state w)) \<Longrightarrow> unat vid < next_unused w"
  "vid \<in> set (as_shared_vaults (aw_state w)) \<Longrightarrow> unat vid < next_unused w"
proof -
  show "as_owner (aw_state w) \<noteq> replicate (next_unused w) c"
  proof
    assume "as_owner (aw_state w) = replicate (next_unused w) c"
    then have "length (as_owner (aw_state w)) = next_unused w" by (metis length_replicate)
    then show False by (simp add: next_unused_def)
  qed
  have le: "f x \<le> sum_list (map f xs)" if "x \<in> set xs" for f :: "'x \<Rightarrow> nat" and x xs using that by (intro member_le_sum_list) auto
  show "(p, r) \<in> set (as_principals (aw_state w)) \<Longrightarrow> length p < next_unused w"
    using le [of "(p, r)" "as_principals (aw_state w)" "length \<circ> fst"] by (simp add: next_unused_def)
  show "(vid, o') \<in> set (as_vault_owners (aw_state w)) \<Longrightarrow> unat vid < next_unused w"
    using member_le_sum_list [of "unat vid" "map (unat \<circ> fst) (as_vault_owners (aw_state w))"] by (force simp: next_unused_def)
  show "vid \<in> set (as_shared_vaults (aw_state w)) \<Longrightarrow> unat vid < next_unused w"
    using member_le_sum_list [of "unat vid" "map unat (as_shared_vaults (aw_state w))"] by (force simp: next_unused_def)
qed (simp_all add: next_unused_def)

lemma sample_auth_hypotheses: "others_auth sample_auth_env" "lowercase_ok sample_auth_env"
proof -
  show "lowercase_ok sample_auth_env" by (simp add: lowercase_ok_def sample_auth_env_def)
  have "auth_step sample_auth_env w (w\<lparr>aw_calls := next_unused w\<rparr>)" for w
    by (rule auth_step.time) (rule next_unused_above)
  moreover have "unused sample_auth_env (w\<lparr>aw_calls := next_unused w\<rparr>)" for w
  proof -
    have "\<not> known (aw_state w) (replicate (next_unused w) CHR ''u'')"
      using next_unused_above(4) by (fastforce simp: known_def dest: map_of_SomeD)
    moreover have "map_of (as_vault_owners (aw_state w)) (of_nat (next_unused w)) = None \<and> (of_nat (next_unused w) :: uuid) \<notin> set (as_shared_vaults (aw_state w)) \<and>
      (of_nat (next_unused w) :: uuid) \<noteq> 0" if "next_unused w < 1000"
    proof -
      have nat: "unat (of_nat (next_unused w) :: uuid) = next_unused w" using that by (simp add: unat_of_nat take_bit_nat_eq_self)
      then have "map_of (as_vault_owners (aw_state w)) (of_nat (next_unused w)) = None"
        using next_unused_above(5) by (metis less_irrefl map_of_SomeD not_None_eq)
      moreover have "(of_nat (next_unused w) :: uuid) \<notin> set (as_shared_vaults (aw_state w))" using next_unused_above(6) nat by (metis less_irrefl)
      moreover have "(of_nat (next_unused w) :: uuid) \<noteq> 0" using nat next_unused_above(3) by (metis less_irrefl unat_0)
      ultimately show ?thesis by simp
    qed
    ultimately show ?thesis using next_unused_above(1) [THEN not_sym, of w] by (auto simp: unused_def sample_auth_env_def split: if_splits)
  qed
  ultimately show "others_auth sample_auth_env" by (simp add: others_auth_def sample_auth_env_def r_into_rtranclp)
qed

text \<open>A client registers, asks for authorization, the user comes back from the provider, and the client redeems the code.\<close>

definition sample_auth_state :: auth_state where
  "sample_auth_state = \<lparr> as_deployment = ''https://api.example/|i|c'', as_owner = ''u'', as_owners = [], as_vault_names = [], as_vault_owners = [],
     as_shared_vaults = [], as_principals = [], as_clients = [], as_sessions = [] \<rparr>"

definition sample_server :: auth_world where
  "sample_server = \<lparr> aw_state = sample_auth_state, aw_saved = sample_auth_state, aw_pending = [], aw_codes = [], aw_calls = 1 \<rparr>"

definition sample_registration :: registration where
  "sample_registration = \<lparr> rg_redirect_uris = [''r''], rg_auth_method = None, rg_grant_types = None, rg_response_types = None \<rparr>"

definition sample_authorization :: authorization_request where
  "sample_authorization = \<lparr> az_response_type = ''code'', az_client_id = ''rrrrrrr'', az_redirect_uri = ''r'', az_state = ''t'',
     az_code_challenge = replicate 43 CHR ''a'', az_code_challenge_method = ''S256'', az_resource = ''https://api.example/exo'', az_scope = ''exo'' \<rparr>"

definition sample_answer :: callback_query where
  "sample_answer = \<lparr> cq_code = Some ''good'', cq_state = ''s'', cq_error = False \<rparr>"

definition sample_asked :: "server_request list" where
  "sample_asked = [Register_Client sample_registration, Authorize sample_authorization]"

definition sample_redeem :: token_request where
  "sample_redeem = Authorization_Code (replicate 93 CHR ''r'') ''rrrrrrr'' ''r'' (replicate 43 CHR ''a'') ''https://api.example/exo''"

definition sample_waiting :: auth_world where
  "sample_waiting = fold (serve sample_auth_env) sample_asked (sample_server\<lparr>aw_calls := 3\<rparr>)"

definition sample_granted :: auth_world where
  "sample_granted = snd (callback sample_auth_env (Some (replicate 18 CHR ''r'')) sample_answer sample_waiting)"

lemma sample_opened:
  "open_auth_state sample_auth_env None sample_server = (Inr sample_auth_state, sample_server\<lparr>aw_calls := 3\<rparr>)"
  by (simp add: open_auth_state_def section_simps sample_server_def sample_auth_state_def sample_auth_env_def sample_root_def)

lemma sample_ready: "auth_ok sample_auth_env (sample_server\<lparr>aw_calls := 3\<rparr>)"
  using opened_ok [OF sample_opened] by (simp add: sample_server_def)

lemma sample_waiting_ok: "auth_ok sample_auth_env sample_waiting"
  unfolding sample_waiting_def using serve_all_ok [OF sample_auth_hypotheses sample_ready] by blast

lemma sample_returns:
  "fst (callback sample_auth_env (Some (replicate 18 CHR ''r'')) sample_answer sample_waiting) =
     Inr (Code_Redirect ''r'' (replicate 93 CHR ''r'') ''t'' ''https://api.example'')"
  by code_simp

lemma sample_callback_run:
  "callback sample_auth_env (Some (replicate 18 CHR ''r'')) sample_answer sample_waiting =
     (Inr (Code_Redirect ''r'' (replicate 93 CHR ''r'') ''t'' ''https://api.example''), sample_granted)"
  by (rule prod_eqI) (simp_all add: sample_returns sample_granted_def)

section \<open>Accounts\<close>

text \<open>C11: on a server that starts without state, whatever requests are served and whatever other tasks do between their locked
  sections, every account stands for an identity that the provider attested with a verified and admitted email; no two
  accounts share an email or an identity; the personal vault of an account belongs to it, is not shared and is not the vault of
  the server. Later requests never change an account or remove it, and never change who owns a vault, an agent or a thread.\<close>

theorem accounts_stay_bound_to_identities:
  assumes "others_auth env" and "lowercase_ok env" and "open_auth_state env None w0 = (Inr st, w1)"
    and "w = fold (serve env) earlier (w1\<lparr>aw_state := st, aw_pending := [], aw_codes := []\<rparr>)" and "w' = fold (serve env) later w"
  shows "(\<forall>k p. map_of (as_principals (aw_state w)) k = Some p \<longrightarrow> pn_id p = k \<and> attested env p \<and>
      map_of (as_vault_owners (aw_state w)) (pn_vault p) = Some k \<and> pn_vault p \<notin> set (as_shared_vaults (aw_state w)) \<and> pn_vault p \<noteq> ae_auth_vault env \<and>
      map_of (as_principals (aw_state w')) k = Some p) \<and>
    (\<forall>j k p q. map_of (as_principals (aw_state w)) j = Some p \<and> map_of (as_principals (aw_state w)) k = Some q \<and>
      (pn_email p = pn_email q \<or> pn_issuer p = pn_issuer q \<and> pn_subject p = pn_subject q) \<longrightarrow> j = k) \<and>
    (\<forall>vid k. map_of (as_vault_owners (aw_state w)) vid = Some k \<longrightarrow> map_of (as_vault_owners (aw_state w')) vid = Some k) \<and>
    (\<forall>scope k. map_of (as_owners (aw_state w)) scope = Some k \<longrightarrow> map_of (as_owners (aw_state w')) scope = Some k)"
proof -
  have ok: "auth_ok env w" unfolding assms(4) using serve_all_ok [OF assms(1,2) opened_ok [OF assms(3)]] by blast
  have grows: "grows (aw_state w) (aw_state w')" unfolding assms(5) using serve_all_ok [OF assms(1,2) ok] by blast
  have id: "identities_ok env (aw_state w)" using ok by (simp add: auth_ok_def state_wf_def)
  have kept: "map_of (as_principals (aw_state w')) k = Some p" if "map_of (as_principals (aw_state w)) k = Some p" for k p
    using that grows unfolding grows_def map_le_def by (metis domI)
  have account: "pn_id p = k \<and> principal_ok env (aw_state w) p" if "map_of (as_principals (aw_state w)) k = Some p" for k p
    using identities_parts(5) [OF id map_of_SomeD [OF that]] by simp
  have unique: "p = q" if "map_of (as_principals (aw_state w)) j = Some p" "map_of (as_principals (aw_state w)) k = Some q"
    "pn_email p = pn_email q \<or> pn_issuer p = pn_issuer q \<and> pn_subject p = pn_subject q" for j k p q
    using id map_of_SomeD [OF that(1)] map_of_SomeD [OF that(2)] that(3) unfolding identities_ok_def by fast
  have owners: "map_of (as_vault_owners (aw_state w)) \<subseteq>\<^sub>m map_of (as_vault_owners (aw_state w'))" "map_of (as_owners (aw_state w)) \<subseteq>\<^sub>m map_of (as_owners (aw_state w'))"
    using grows by (simp_all add: grows_def)
  show ?thesis
  proof (intro conjI)
    show "\<forall>j k p q. map_of (as_principals (aw_state w)) j = Some p \<and> map_of (as_principals (aw_state w)) k = Some q \<and>
      (pn_email p = pn_email q \<or> pn_issuer p = pn_issuer q \<and> pn_subject p = pn_subject q) \<longrightarrow> j = k"
      using account unique by metis
  qed (use account kept owners in \<open>auto simp: principal_ok_def map_le_def dom_def\<close>)
qed

theorem accounts_stay_bound_to_identities_witness:
  "attested sample_auth_env \<lparr> pn_id = replicate 29 CHR ''u'', pn_issuer = ''i'', pn_subject = ''p'', pn_email = ''p@x'', pn_vault = 29 \<rparr> \<and>
   map_of (as_principals (aw_state (serve sample_auth_env (Exchange_Token sample_redeem) sample_granted))) (replicate 29 CHR ''u'') =
     Some \<lparr> pn_id = replicate 29 CHR ''u'', pn_issuer = ''i'', pn_subject = ''p'', pn_email = ''p@x'', pn_vault = 29 \<rparr>"
proof -
  have "map_of (as_principals (aw_state sample_granted)) (replicate 29 CHR ''u'') =
     Some \<lparr> pn_id = replicate 29 CHR ''u'', pn_issuer = ''i'', pn_subject = ''p'', pn_email = ''p@x'', pn_vault = 29 \<rparr>" by code_simp
  moreover have granted: "sample_granted = fold (serve sample_auth_env) (sample_asked @ [Callback (Some (replicate 18 CHR ''r'')) sample_answer])
     ((sample_server\<lparr>aw_calls := 3\<rparr>)\<lparr>aw_state := sample_auth_state, aw_pending := [], aw_codes := []\<rparr>)"
    by (simp add: sample_granted_def sample_waiting_def sample_server_def)
  have "serve sample_auth_env (Exchange_Token sample_redeem) sample_granted = fold (serve sample_auth_env) [Exchange_Token sample_redeem] sample_granted"
    by (simp only: fold_simps)
  note conjunct1 [OF accounts_stay_bound_to_identities [OF sample_auth_hypotheses sample_opened granted this]]
  ultimately show ?thesis by blast
qed

section \<open>Signing in\<close>

text \<open>C27: when a login comes back from the provider and is answered, the provider attested an admitted identity for the code of
  this very answer, that identity is enrolled, and what is handed out stands for its account: an authorization code, kept
  under its digest for a request with a proof key and sent to the loopback address of that request, or a browser session.\<close>

theorem callback_signs_in_attested_identity:
  assumes "others_auth env" and "lowercase_ok env" and "auth_ok env w" and "callback env cookie q w = (Inr reply, w')"
  shows "\<exists>n code nonce verifier c i p. cq_code q = Some code \<and> ae_claims env n code nonce verifier = Inr c \<and> claims_identity env c = Inr i \<and>
    admitted (ae_config env) (oi_email i) \<and> map_of (as_principals (aw_state w')) (pn_id p) = Some p \<and> same_identity i p \<and> reply_for env w' (pn_id p) reply"
proof -
  have "signed_in env (cq_code q) reply w'" using served_callback [OF assms(1,2)] assms(3,4) unfolding served_def by blast
  then show ?thesis unfolding signed_in_def enrolled_def by blast
qed

theorem callback_signs_in_attested_identity_witness:
  "\<exists>p. map_of (as_principals (aw_state sample_granted)) (pn_id p) = Some p \<and> pn_issuer p = ''i'' \<and> pn_subject p = ''p'' \<and>
    reply_for sample_auth_env sample_granted (pn_id p) (Code_Redirect ''r'' (replicate 93 CHR ''r'') ''t'' ''https://api.example'')"
proof -
  obtain n code nonce verifier c i p where p: "ae_claims sample_auth_env n code nonce verifier = Inr c" "claims_identity sample_auth_env c = Inr i"
    "map_of (as_principals (aw_state sample_granted)) (pn_id p) = Some p" "same_identity i p"
    "reply_for sample_auth_env sample_granted (pn_id p) (Code_Redirect ''r'' (replicate 93 CHR ''r'') ''t'' ''https://api.example'')"
    using callback_signs_in_attested_identity [OF sample_auth_hypotheses sample_waiting_ok sample_callback_run] by (elim exE conjE) (rule that)
  have "oi_issuer i = ''i'' \<and> oi_subject i = ''p''"
    using p(1,2) by (auto simp: sample_auth_env_def claims_identity_def result_simps split: if_splits)
  then show ?thesis using p(3-5) unfolding same_identity_def by (intro exI [of _ p]) simp
qed

section \<open>Tokens\<close>

text \<open>C28: tokens for an authorization code are issued only when the server granted that code and it had not expired, to the
  client and the address it was granted for, with a verifier that answers the challenge of the request; the request was one the
  server accepts, and the new session belongs to the enrolled account the code was granted for.\<close>

theorem tokens_require_granted_code:
  assumes "others_auth env" and "lowercase_ok env" and "auth_ok env w"
    and "exchange_token env (Authorization_Code code client_id redirect_uri verifier resource) w = (Inr reply, w')"
  shows "\<exists>w1 g n ts. (auth_step env)\<^sup>*\<^sup>* w w1 \<and> (ae_digest env code, g) \<in> set (aw_codes w1) \<and> ae_now env n < gc_expires g \<and>
    az_client_id (gc_request g) = client_id \<and> az_redirect_uri (gc_request g) = redirect_uri \<and> loopback_redirect env redirect_uri \<and>
    az_code_challenge_method (gc_request g) = ''S256'' \<and> ae_pkce env (az_code_challenge (gc_request g)) verifier \<and>
    map_of (as_principals (aw_state w')) (gc_principal g) \<noteq> None \<and> reply = Token_Reply ts \<and>
    (\<exists>e \<in> set (as_sessions (aw_state w')). sn_principal (snd e) = gc_principal g \<and> sn_client (snd e) = Some client_id \<and>
       sn_access (snd e) = ae_digest env (tk_access_token ts))"
proof -
  have "redeemed env code client_id redirect_uri verifier w reply w'"
    using served_redeem [OF assms(1,2)] assms(3,4) unfolding served_def by blast
  then show ?thesis unfolding redeemed_def request_ok_def known_def by blast
qed

definition sample_tokens :: tokens where
  "sample_tokens = \<lparr> tk_access_token = replicate 219 CHR ''r'', tk_expires_in = 900, tk_refresh_token = Some (replicate 220 CHR ''r'') \<rparr>"

definition sample_session :: auth_world where
  "sample_session = snd (exchange_token sample_auth_env sample_redeem sample_granted)"

lemma sample_granted_ok: "auth_ok sample_auth_env sample_granted"
  using served_world [OF served_callback [OF sample_auth_hypotheses] sample_waiting_ok] unfolding sample_granted_def by blast

lemma sample_exchanged: "fst (exchange_token sample_auth_env sample_redeem sample_granted) = Inr (Token_Reply sample_tokens)"
  by code_simp

lemma sample_exchange_run: "exchange_token sample_auth_env sample_redeem sample_granted = (Inr (Token_Reply sample_tokens), sample_session)"
  by (rule prod_eqI) (simp_all add: sample_exchanged sample_session_def)

theorem tokens_require_granted_code_witness:
  "\<exists>w1 g. (auth_step sample_auth_env)\<^sup>*\<^sup>* sample_granted w1 \<and> (replicate 93 CHR ''r'', g) \<in> set (aw_codes w1) \<and> az_client_id (gc_request g) = ''rrrrrrr'' \<and>
    az_code_challenge (gc_request g) = replicate 43 CHR ''a''"
proof -
  have digest: "ae_digest sample_auth_env = id" "ae_pkce sample_auth_env c v \<Longrightarrow> c = v" for c v by (simp_all add: sample_auth_env_def)
  show ?thesis
    using tokens_require_granted_code [OF sample_auth_hypotheses sample_granted_ok sample_exchange_run [unfolded sample_redeem_def]] digest(2)
    unfolding digest(1) id_apply by blast
qed

section \<open>Requests\<close>

text \<open>C29: a request is let through as an account only when it carries a token, as a bearer or in the cookie of a browser, whose
  digest a stored unexpired session had, and that session still exists, has not expired and belongs to this account, whose
  identity the provider attested and the configuration still admits. The token is one that the server drew itself. A browser
  request that may change something also has the origin of the server and the header against forgery.\<close>

theorem requests_need_stored_sessions:
  assumes "others_auth env" and "lowercase_ok env" and "auth_ok env w" and "authenticate env q w = (Inr (p, sid), w')"
  shows "(rq_bearer q \<noteq> None \<or> rq_reads q \<or> rq_origin q = Some (server_origin env) \<and> rq_csrf q = Some ''1'') \<and>
    (\<exists>token w1 s n m. (rq_bearer q = Some token \<or> rq_bearer q = None \<and> rq_cookie q = Some token) \<and> (auth_step env)\<^sup>*\<^sup>* w w1 \<and>
      (sid, s) \<in> set (as_sessions (aw_state w1)) \<and> sn_access s = ae_digest env token \<and> ae_now env n < sn_access_expires s \<and>
      ae_digest env token = ae_digest env (ae_random env m)) \<and>
    (\<exists>s n rec. map_of (as_sessions (aw_state w')) sid = Some s \<and> ae_now env n < sn_expires s \<and> sn_principal s = p \<and>
      map_of (as_principals (aw_state w')) p = Some rec \<and> attested env rec \<and> admitted (ae_config env) (pn_email rec))"
proof -
  have auth: "authenticated env q w (p, sid) w'" using served_authenticate [OF assms(1,2)] assms(3,4) unfolding served_def by blast
  obtain token w1 where token: "request_token q = Some token" "auth_steps env w w1" "auth_ok env w1" "session_found env token sid w1"
    using auth unfolding authenticated_def by auto
  obtain s n where s: "(sid, s) \<in> set (as_sessions (aw_state w1))" "sn_access s = ae_digest env token" "ae_now env n < sn_access_expires s"
    using token(4) unfolding session_found_def by blast
  have "session_ok env (aw_state w1) s" using token(3) s(1) by (auto simp: auth_ok_def state_wf_def)
  then have "\<exists>m. ae_digest env token = ae_digest env (ae_random env m)" using s(2) by (simp add: session_ok_def)
  moreover have "rq_bearer q = Some token \<or> rq_bearer q = None \<and> rq_cookie q = Some token"
    using token(1) by (auto simp: request_token_def split: option.splits)
  ultimately show ?thesis using auth token(2) s unfolding authenticated_def session_of_def fst_conv snd_conv by blast
qed

lemma sample_session_ok: "auth_ok sample_auth_env sample_session"
  using served_world [OF served_exchange [OF sample_auth_hypotheses] sample_granted_ok] unfolding sample_session_def by blast

definition sample_bearer :: auth_request where
  "sample_bearer = \<lparr> rq_bearer = Some (replicate 219 CHR ''r''), rq_cookie = None, rq_reads = False, rq_origin = None, rq_csrf = None \<rparr>"

lemma sample_authenticated:
  "fst (authenticate sample_auth_env sample_bearer sample_session) = Inr (replicate 29 CHR ''u'', replicate 221 CHR ''r'')"
  by code_simp

theorem requests_need_stored_sessions_witness:
  "\<exists>rec. map_of (as_principals (aw_state (snd (authenticate sample_auth_env sample_bearer sample_session)))) (replicate 29 CHR ''u'') = Some rec \<and>
    attested sample_auth_env rec"
  using requests_need_stored_sessions [OF sample_auth_hypotheses sample_session_ok, of sample_bearer] sample_authenticated
  by (metis prod.collapse)

section \<open>Vaults of the users\<close>

text \<open>C10: on a shared server, a sandbox gets the value of a credential only for its own principal and only out of a vault that
  the policy gives to that principal: never the vault of the server, and a vault that the principal owns or one that is shared;
  if it is the personal vault of an account, the account is the principal's. The sandbox runs and has a binding of that name to
  that secret, the vault is attached to its scope, and the value is what the store holds for the secret under a policy that
  permits the destination. The state of the server may change at every call as long as its accounts are well formed, and
  other tasks may use the vaults meanwhile through every operation of the store but the import of older secrets, which
  is made only when a storage root is opened.\<close>

theorem sandbox_credentials_respect_ownership:
  assumes "ac_policy env = remote_policy server multiplayer checked states created" and "ac_has_policy env" and "\<forall>n. identities_ok server (states n)"
    and "others_ok (ac_vault env)" and "agents_ok env" and "cipher_ok (ac_vault env)" and "references_old env identity w"
    and "resolve_value env identity name destination rejected w = (Inr v, w')"
  shows "\<exists>n sandbox p reference m. ac_sandbox env n (ei_scope identity) (ei_sandbox_id identity) = Inr (Some sandbox) \<and> sb_running sandbox \<and>
    sb_principal sandbox = Some p \<and> sb_credentials sandbox name = Some reference \<and> sr_vault_id reference \<noteq> ae_auth_vault server \<and>
    (map_of (as_vault_owners (states m)) (sr_vault_id reference) = Some p \<or> sr_vault_id reference \<in> set (as_shared_vaults (states m))) \<and>
    (\<forall>k q. map_of (as_principals (states m)) k = Some q \<and> pn_vault q = sr_vault_id reference \<longrightarrow> k = p) \<and>
    scope_vault env (Some p) (ei_scope identity) w (sr_vault_id reference) \<and>
    (\<exists>target t r. egress_target (ve_parse (ac_vault env)) destination = Inr target \<and> destination_normalized (ve_parse (ac_vault env)) target = Inr t \<and>
       released (ac_vault env) (sr_vault_id reference) (sr_secret_id reference) t r w' \<and> v = bearer_value (rs_secret r))"
proof -
  obtain caller reference target t r where r: "entitled env identity name caller reference"
    "scope_vault env caller (ei_scope identity) w (sr_vault_id reference)"
    "egress_target (ve_parse (ac_vault env)) destination = Inr target" "destination_normalized (ve_parse (ac_vault env)) target = Inr t"
    "released (ac_vault env) (sr_vault_id reference) (sr_secret_id reference) t r w'" "v = bearer_value (rs_secret r)"
    using rv.resolve_value_for [OF assms(8,1,4,5,6,7)] by blast
  obtain n sandbox p where p: "ac_sandbox env n (ei_scope identity) (ei_sandbox_id identity) = Inr (Some sandbox)" "sb_running sandbox"
    "sb_principal sandbox = Some p" "sb_credentials sandbox name = Some reference" "caller = Some p" "shows_vault (ac_policy env) p (sr_vault_id reference)"
    using r(1) assms(2) unfolding entitled_def by auto
  obtain k m u shown where u: "vr_id u = sr_vault_id reference" "policy_vault server multiplayer (checked k) (states m) p u False = Inr (Some shown)"
    using p(6) unfolding shows_vault_def assms(1) remote_policy_def by auto
  note own = policy_vault_shows [OF u(2), unfolded u(1)]
  have "k = p" if "map_of (as_principals (states m)) k = Some q" "pn_vault q = sr_vault_id reference" for k q
  proof -
    have ok: "identities_ok server (states m)" using assms(3) by blast
    from identities_parts(5) [OF ok map_of_SomeD [OF that(1)]] show ?thesis using own that(2) by (auto simp: principal_ok_def)
  qed
  then show ?thesis
    using p(1-4) r(2-6) own unfolding p(5)
    by (intro exI [of _ n] exI [of _ sandbox] exI [of _ p] exI [of _ reference] exI [of _ m]) blast
qed

text \<open>The sandbox of the enrolled user with a credential of the personal vault.\<close>

definition sample_owner :: principal_record where
  "sample_owner = \<lparr> pn_id = ''p'', pn_issuer = ''i'', pn_subject = ''p'', pn_email = ''p@x'', pn_vault = 2 \<rparr>"

definition sample_owned :: auth_state where
  "sample_owned = sample_auth_state\<lparr>as_vault_owners := [(2, ''p'')], as_vault_names := [(2, ''personal'')], as_principals := [(''p'', sample_owner)]\<rparr>"

definition sample_access_env :: "unit access_env" where
  "sample_access_env = \<lparr> ac_vault = sample_vault_env, ac_policy = remote_policy sample_auth_env False (\<lambda>_. sample_owned) (\<lambda>_. sample_owned) (\<lambda>_ _ _ _. Ok ()), ac_has_policy = True,
     ac_agent = (\<lambda>_ _. Ok None), ac_thread = (\<lambda>_ _ _. Ok None), ac_agents = (\<lambda>_. Ok []), ac_threads = (\<lambda>_ _. Ok []),
     ac_sandbox = (\<lambda>_ _ _. Ok (Some \<lparr> sb_principal = Some ''p'', sb_credentials = [''api'' \<mapsto> \<lparr> sr_vault_id = 2, sr_secret_id = 4 \<rparr>], sb_running = True \<rparr>)) \<rparr>"

definition sample_egress_identity :: egress_identity where
  "sample_egress_identity = \<lparr> ei_sandbox_id = ''s'', ei_scope = Global \<rparr>"

definition sample_api :: egress_destination where
  "sample_api = \<lparr> ed_host = ''api.example'', ed_port = 443, ed_method = ''GET'', ed_path = ''/v1'' \<rparr>"

lemma sample_owned_ok: "identities_ok sample_auth_env sample_owned"
proof -
  have "attested sample_auth_env sample_owner"
    unfolding attested_def
    by (intro exI [of _ 0] exI [of _ "''good''"] exI [of _ "[]"] exI [of _ "[]"] exI [of _ "\<lparr> oc_issuer = ''i'', oc_subject = ''p'', oc_email = Some ''P@x'',
        oc_email_verified = Some True, oc_hash_ok = True \<rparr>"] exI [of _ "\<lparr> oi_issuer = ''i'', oi_subject = ''p'', oi_email = ''p@x'' \<rparr>"]) code_simp
  then show ?thesis
    by (simp add: identities_ok_def principal_ok_def bt_ok_def sample_owned_def sample_auth_state_def sample_owner_def) (simp add: sample_auth_env_def)
qed

lemma sample_target: "egress_target sample_parse sample_api = Inr (Url ''https://api.example/v1'')"
  by code_simp

lemma sample_shows: "policy_vault sample_auth_env False sample_owned sample_owned ''p'' sample_vault_handle wr = Inr (Some (sample_vault_handle\<lparr>vr_name := ''personal''\<rparr>))"
  "policy_vault sample_auth_env False sample_owned sample_owned ''p'' (sample_vault_handle\<lparr>vr_name := ''personal''\<rparr>) wr = Inr (Some (sample_vault_handle\<lparr>vr_name := ''personal''\<rparr>))"
  by (cases wr; code_simp)+

lemma sample_checks: "policy_check sample_auth_env False sample_owned ''p'' Global = Inr ()"
  "policy_default_vault sample_auth_env False sample_owned sample_owned ''p'' = Inr 2"
  by code_simp+

lemma sample_resolve_at:
  "resolve_credentials sample_vault_env sample_vault_handle 4 (Url ''https://api.example/v1'') (sample_kept\<lparr>vw_calls := n\<rparr>) =
     (Ok \<lparr> rs_revision = 1, rs_secret = Key ''token'' \<rparr>, sample_kept\<lparr>vw_calls := n + 3\<rparr>)"
  using sample_permitted
  by (simp add: sample_vault_simps read_for_destination_def sample_destinations read_op_def decrypt_stored_def decrypt_bound_def NONCE_LEN_def
      sample_secret_valid resolve_credentials_def needs_refresh_def)

lemma sample_get_at: "get_vault sample_vault_env 2 (sample_kept\<lparr>vw_calls := n\<rparr>) = (Ok (Some sample_vault_handle), sample_kept\<lparr>vw_calls := Suc n\<rparr>)"
  by (simp add: sample_vault_simps get_vault_def)

lemma sample_fields:
  "ac_vault sample_access_env = sample_vault_env" "ac_has_policy sample_access_env"
  "ap_check (ac_policy sample_access_env) n = policy_check sample_auth_env False sample_owned"
  "ap_vault (ac_policy sample_access_env) n = policy_vault sample_auth_env False sample_owned sample_owned"
  "ap_default_vault (ac_policy sample_access_env) n = policy_default_vault sample_auth_env False sample_owned sample_owned"
  "ac_sandbox sample_access_env n scope sid = Ok (Some \<lparr> sb_principal = Some ''p'', sb_credentials = [''api'' \<mapsto> \<lparr> sr_vault_id = 2, sr_secret_id = 4 \<rparr>],
     sb_running = True \<rparr>)"
  "ve_parse sample_vault_env = sample_parse" "vw_calls sample_kept = 6" "vr_id sample_vault_handle = 2" "ei_scope sample_egress_identity = Global"
  by (simp_all add: sample_access_env_def remote_policy_def sample_vault_env_def sample_kept_def sample_vault_handle_def sample_egress_identity_def)

lemma sample_value:
  "resolve_value sample_access_env sample_egress_identity ''api'' sample_api None sample_kept = (Ok ''token'', sample_kept\<lparr>vw_calls := 16\<rparr>)"
  by (simp add: resolve_value_def load_stored_sandbox_def io_simps vault_call_def sample_fields harness_check_def policy_call_def sample_checks
      resolve_credential_def require_vault_def scoped_get_vault_def scope_resource_def scope_agent_id_def resource_list_vaults_def default_vault_def
      harness_get_vault_def sample_get_at scoped_vault_def sample_shows find_handle_def sample_target caller_vault_check_def sample_resolve_at
      ok_or_def ensure_def)

lemma sample_access_hypotheses: "agents_ok sample_access_env" "references_old sample_access_env sample_egress_identity sample_kept"
proof -
  show "agents_ok sample_access_env" by (simp add: agents_ok_def sample_access_env_def)
  show "references_old sample_access_env sample_egress_identity sample_kept"
    unfolding references_old_def using sample_later by (auto simp: sample_fields split: if_splits)
qed

theorem sandbox_credentials_respect_ownership_witness:
  "\<exists>r. released sample_vault_env 2 4 (Url ''https://api.example/v1'') r (sample_kept\<lparr>vw_calls := 16\<rparr>) \<and> bearer_value (rs_secret r) = ''token'' \<and>
    (map_of (as_vault_owners sample_owned) 2 = Some ''p'' \<or> 2 \<in> set (as_shared_vaults sample_owned))"
proof -
  have policy: "ac_policy sample_access_env = remote_policy sample_auth_env False (\<lambda>_. sample_owned) (\<lambda>_. sample_owned) (\<lambda>_ _ _ _. Ok ())" by (simp add: sample_access_env_def)
  have env: "others_ok (ac_vault sample_access_env)" "cipher_ok (ac_vault sample_access_env)" using sample_vault_hypotheses by (simp_all add: sample_fields)
  have "\<forall>n::nat. identities_ok sample_auth_env sample_owned" using sample_owned_ok by simp
  from sandbox_credentials_respect_ownership [OF policy sample_fields(2) this env(1) sample_access_hypotheses(1) env(2) sample_access_hypotheses(2) sample_value]
  show ?thesis by (auto simp: sample_fields sample_target sample_destinations split: if_splits)
qed

end
