(* ===== verification/Spec2Isabelle.thy ===== *)
theory Spec2Isabelle
  imports Scheduler_Runtime Turn_Acceptance Event_Forks Harness_Safety Harness_Journal Egress_Routes Egress_Runtime Remote_Guarantees
begin

text \<open>
  A verification development for exo, an agent harness written in Rust (\<^verbatim>\<open>src/crates\<close>). A process of exo keeps
  agents and conversations in an object store, accepts turns from callers into a durable queue per thread, lets an
  executor run the head of each queue and journal what happens as events of the conversation, asks for approval
  before tools are called, fires scheduled tasks into conversations, and lets sandboxed tools reach the network only
  through a proxy that enforces an egress policy and inserts credentials. The credentials are kept in encrypted vaults; a
  server that several users share signs them in and gives each the vaults, agents and threads that are theirs. The
  theories follow these parts.

  \<^bold>\<open>Foundations\<close> (no property of the program of their own).
  \<^item> \<open>Exo_Prelude\<close>: results (\<open>Ok\<close>, \<open>bail\<close>, \<open>Panic\<close>), Rust's saturating integers, the state-and-error programs \<open>io\<close>
    with their rules, list facts. \<open>Rust_Str\<close>, \<open>Rust_Text\<close>: \<open>str\<close> as UTF-8 bytes with the standard-library
    operations the sources call. \<open>Exo_Types\<close>: identifiers shared by the components.

  \<^bold>\<open>Scheduler\<close> (\<^verbatim>\<open>executor/src/native/scheduler_*.rs\<close>).
  \<^item> \<open>Schedule\<close>: task records, the schedule parser, due test and leases, the slots a task fires after missed fires
    (\<open>plan_missed_fires\<close>) and where it resumes; the planned slots are those of the policy, the next slot is the least
    on the grid, every count parses back with its unit, and exactly the intervals that end in a multi-byte character make
    the parser panic.
  \<^item> \<open>Scheduler_Store\<close>: directories of JSON files with temporary-file renames, without a lock and over a file system that may
    fail. The task directory refines a finite map; a write is atomic under a crash; a claim is exclusive until its lease
    expires against claims that start after it, while overlapping claims can both win; the pending and delivered
    directories form an outbox (locale \<open>fire_outbox\<close>).
  \<^item> \<open>Scheduler_Runtime\<close>: a pass over the due tasks, one fire, delivery and redelivery. A run that happened is reported
    or still to be redelivered, unless the file system fails just as it is recorded; a pass leaves no lease behind and stores the planned schedule.

  \<^bold>\<open>Turns\<close> (\<^verbatim>\<open>exoharness/src/turn_coordinator*\<close>, \<^verbatim>\<open>exoharness/src/basic/turn_queue.rs\<close>,
  \<^verbatim>\<open>executor/src/turn_queue.rs\<close>).
  \<^item> \<open>Turn_Coordinator\<close>: the stored queue of a thread with leases, receipts, control and watches, over a store given by
    its operations (locale \<open>turn_queue_store\<close>, interpreted on the in-memory and the file-backed store). In every
    reachable state a running turn's watch shows the stored control; the queue is first-in first-out; submissions are
    idempotent for 24 hours; owners exclude each other; no wakeup is lost on release; cancellation sticks.
  \<^item> \<open>Turn_Executor\<close>: the executor's side, all of \<^verbatim>\<open>turn_queue.rs\<close>: observers and broadcasts, accepting, controlling,
    resuming, draining, the queue task with its \<open>select!\<close> loop, failure journaling, recovery, shutdown.
  \<^item> \<open>Turn_Delivery\<close>, \<open>Turn_Acceptance\<close>: what the task and the submitter are guaranteed beside everything else the
    process does. A relation between worlds that every access keeps is kept by every operation (locale
    \<open>exec_relation\<close> and its extensions \<open>task_relation\<close> and \<open>coordinator_free_relation\<close>), interpreted for the accounting of turns, the answering of
    observers and the trace of executions: an accepted turn is queued or journaled and is observed; an
    acknowledged turn is journaled and its observers are answered; a turn runs for its submitter only.

  \<^bold>\<open>Conversations\<close> (\<^verbatim>\<open>exoharness/src/basic.rs\<close>, \<^verbatim>\<open>types.rs\<close>, \<^verbatim>\<open>storage.rs\<close>).
  \<^item> \<open>Object_Store\<close>: keys to decoded objects, with the listing, copying and deleting helpers.
  \<^item> \<open>Event_Index\<close>: the cached index over batches, correct with respect to the keys of the store.
  \<^item> \<open>Event_Log\<close>: events, appending under a head check, subscribers, turns, forks, artifacts. An append extends the log by
    exactly its events; the indexed lookup agrees with a search of the log; a failed append changes nothing.
  \<^item> \<open>Event_Queries\<close>: paging yields the whole selection; a watcher sees every event once.
  \<^item> \<open>Event_Turns\<close>: a reattached turn equals the live one. \<open>Event_Artifacts\<close>: written versions are read back.
  \<^item> \<open>Event_Forks\<close>: a fork copies its source up to the limit; the slug search ends.

  \<^bold>\<open>Permissions\<close> (\<^verbatim>\<open>executor/src/permissions.rs\<close>, \<^verbatim>\<open>managed-agents/src/permissions.rs\<close>).
  \<^item> \<open>Permissions\<close>: policies and approvals over the log. A call proceeds without asking only on the record of a policy or
    an approval; an answer settles the call that waits for it.

  \<^bold>\<open>Harness\<close> (\<^verbatim>\<open>executor/src/harness_adapter.rs\<close>, \<^verbatim>\<open>harness_events.rs\<close>, \<^verbatim>\<open>shared.rs\<close>, \<^verbatim>\<open>start_local_turn\<close> of \<^verbatim>\<open>harness_executor.rs\<close>).
  \<^item> \<open>Harness_Turns\<close>: the registry of active turns with their stop signals, the event routes, opening a turn and settling
    its outcome, and the task of each turn as steps between its awaits: looking at the stop signal, the suspension
    boundary, additions to the journal and their acknowledgement, cleanup, report, release. What an executor does
    inside a turn is any sequence of additions and any result. \<open>Harness_Sample\<close>: a concrete harness with one turn.
  \<^item> \<open>Harness_Safety\<close>: an invariant per turn over all interleavings. Every start is reported once; a suspended turn has no
    open tool call; a cancelled turn ends cancelled; a shutdown drains the registry.
  \<^item> \<open>Harness_Journal\<close>: what is acknowledged is what was stored; the stream of a turn, live or at its end, says what the
    journal records; recovery takes over the open tool calls.

  \<^bold>\<open>Egress\<close> (\<^verbatim>\<open>exoharness/src/credential_policy.rs\<close>, \<^verbatim>\<open>egress_credentials.rs\<close>, \<^verbatim>\<open>egress/\<close>).
  \<^item> \<open>Credential_Policy\<close>: host names, destinations and what a policy permits. \<open>Egress_Address\<close>: the public addresses
    against the registry's blocks. \<open>Egress_Credentials\<close>: placeholders and their substitution in headers.
  \<^item> \<open>Egress_Proxy\<close>, \<open>Egress_Routes\<close>: forwarding a request and routing a connection, transparent or authenticated;
    whatever the sandbox sends, the proxy's calls stay within the policy.
  \<^item> \<open>Egress_Runtime\<close>: acquisitions, terminations and shutdown as interleaved steps of an \<open>inductive\<close> relation, with its
    invariant and that shutdown leaves nothing open.

  \<^bold>\<open>Vaults\<close> (\<^verbatim>\<open>exoharness/src/vault.rs\<close>, \<^verbatim>\<open>vault/local.rs\<close> with \<^verbatim>\<open>local/native.rs\<close>, \<^verbatim>\<open>local/oauth.rs\<close> and \<^verbatim>\<open>local/legacy.rs\<close>, \<^verbatim>\<open>secrets.rs\<close>).
  \<^item> \<open>Vault_Store\<close>: the catalog of vaults with its operations, sealing and opening of secrets, the store in memory and in a file
    behind its locks, resolving a secret for a destination, refreshing OAuth tokens with the endpoint called outside the
    lock, imports of older secrets, and the migration of the old catalog. \<open>Vault_Safety\<close>: what a request does to a store that other processes use as well.
    \<open>Vault_Laws\<close>: the invariant of catalogs. \<open>Vault_Mirror\<close>: a relation between a file and a memory store.
    \<open>Vault_Migration\<close>: what migration keeps. \<open>Vault_Guarantees\<close>: a secret goes only to a destination its policy permits; catalogs stay
    well formed; what is put is read back; the file store answers as the memory store does; migration keeps secrets and
    widens nothing.
  \<^item> \<open>Vault_Access\<close> (\<^verbatim>\<open>exoharness/src/basic/access.rs\<close>, \<^verbatim>\<open>basic/vault_context.rs\<close>, \<^verbatim>\<open>basic/egress.rs\<close>, \<^verbatim>\<open>egress_credentials/vault.rs\<close>): the vaults of
    the harness, of an agent and of a thread as a caller sees them, and the resolver of the proxy. \<open>Vault_Scope\<close>: for every policy
    that shows vaults under their own identifiers (locale \<open>shown_vaults\<close>, interpreted on the policy of a shared server), the
    resolver gives a sandbox only what its binding, its principal and its scope allow.

  \<^bold>\<open>Shared servers\<close> (\<^verbatim>\<open>executor/src/native/remote/oidc.rs\<close>, \<^verbatim>\<open>store.rs\<close>, \<^verbatim>\<open>auth.rs\<close>, \<^verbatim>\<open>access.rs\<close>).
  \<^item> \<open>Remote_Auth\<close>: the stored state, enrollment, the authorization server with its clients, logins, codes, tokens and
    sessions, and the access policy; each section that runs under a lock is one operation. \<open>Remote_Access\<close>: the invariant of the
    state, kept by every section (\<open>auth_step\<close>, an \<open>inductive\<close> relation). \<open>Remote_Steps\<close>: every handler is a sequence of such
    sections with other tasks in between, and what its answer says of the state. \<open>Remote_Guarantees\<close>: accounts stay bound to
    attested identities; logins, codes, tokens and sessions stand for the account they were made for; sandboxes never get a
    credential of somebody else's vault.

  \<^bold>\<open>The environment.\<close> What the sources only call is an argument: the clock and fresh identifiers, the file system's and
  the object store's answers to a write, chrono's RFC 3339 parser, the url crate, header and Base64 conversions, DNS,
  sandboxes, the wakeup transport, the harness that executes a turn, the cipher and its keys, the token endpoint, the
  identity provider, random tokens and digests. Answers are indexed by the number of the call, so
  that every sequence of answers is covered. The hypotheses on them are named definitions: \<open>uuid_text_ok\<close> (identifiers
  print to their parser's inverse, in path-safe characters), \<open>ids_fresh\<close> and \<open>fresh_ids_ok\<close> (new identifiers increase or differ), \<open>url_parser_ok\<close>
  (serialized URLs parse to themselves), \<open>writes_once\<close> (the key of an event object holds fresh identifiers,
  so no key is written successfully twice), \<open>exec_env_ok\<close> and \<open>observer_kept\<close> (what a queue task relies on of the others: they use the coordinator's
  operations, acknowledge no turn of this thread, and neither rewrite events nor silence an observer), \<open>trace_kept\<close>
  (the trace is of this task's calls), \<open>others_ok\<close> and \<open>others_mirror\<close> (other users of a vault use its operations, on both stores alike), \<open>others_import\<close>
  (they may also import older secrets under given identifiers), \<open>spares\<close> and \<open>leaves_fire\<close> (other processes make no claimed task due
  again, and leave the record of one fire alone),
  \<open>cipher_ok\<close> (what is sealed opens under the same key and data), \<open>files_ok\<close> (locks and files of the store work), \<open>agents_ok\<close> (agents are stored under their
  identifiers), \<open>references_old\<close> (a sandbox refers to a secret that exists already), \<open>lowercase_ok\<close> (lower-casing leaves no
  upper-case ASCII letter), \<open>others_auth\<close> (other requests take the same steps and the identifiers drawn next are new). Invariants of stored data are \<open>log_ok\<close>, \<open>artifacts_ok\<close>, \<open>clients_ok\<close>, \<open>store_ok\<close>, \<open>auth_ok\<close>; the operations preserve them.

  \<^bold>\<open>Concurrency.\<close> Operations that the source runs under one lock are one step. The coordinator is a relation over whole
  calls; \<open>Egress_Runtime\<close> and \<open>Harness_Turns\<close> interleave the steps between their awaits; in \<open>Turn_Executor\<close> every access to shared state is preceded
  by an arbitrary action of the other tasks (\<open>xe_others\<close>), so a property holds for every interleaving; so is every access to a vault store
  (\<open>ve_others\<close>), every access to the files of the scheduler (\<open>e_others\<close>) and every locked section of a shared server (\<open>ae_others\<close>). The runs of one scheduler pass are taken in order, and so
  are the lookups of vaults that the source joins. A scan of stored sessions, clients, logins or codes reads the clock once.

  \<^bold>\<open>Loops.\<close> Recursion is structural wherever the source walks a list. Fuel appears in: \<open>approval_pages\<close> (log size plus
  two, since each page consumes an event), \<open>slug_loop\<close> (existing conversations plus one, proved enough by
  \<open>unique_slug_search_ends\<close>), \<open>follow_stream\<close> and \<open>run_queue\<close> (the loops of a server, which need not end: the fuel is
  the number of iterations seen, and no result means the task is still running; the properties hold at every fuel).

  \<^bold>\<open>Not modelled.\<close> Sandbox providers (virtual machines, containers and vendor services), the terminal interface, HTTP
  servers and clients, MCP transport, the cipher itself and language-model calls are input and output around services
  that are not in the repository; cost tables compute in floating point; TLS certificates and byte copying of tunnels
  are library calls; the rounds an executor runs inside a turn call a model. An addition to the journal that is
  dropped halfway is taken as done or not done, and two additions do not overlap. The lock of a sandbox is one per identifier (the source keeps a
  table of weak references to locks), and a proxy is open until it is closed (the source also asks its transport). Of vaults the store of a hosted server is left out, and so is a lock that another task's panic has
  poisoned; of shared servers the metadata documents, cookies' attributes and sandbox previews. Next in the plan: sandbox
  policies, the adapter store.
\<close>

end
